(* ===== verification/Prelude.thy ===== *)
theory Prelude
  imports Complex_Main "HOL-Library.AList" "HOL-Library.Sublist" "HOL-Library.List_Lexorder"
    "HOL-Library.Char_ord"
begin

text \<open>
  The vocabulary every component theory shares: Python's exceptions, JSON values, dictionaries
  with insertion order, the string operations the sources use, the state-and-exception monad that
  the asynchronous handlers are written in, and the locales for what the components have in common
  (a machine driven by operations, a buffer with a cap).

  Conventions. An \<open>exn + 'a\<close> is the outcome of a call: \<open>Inl\<close> is a raised exception. Python
  floats are \<open>real\<close> (rounding is not modelled), Python ints are \<open>int\<close>, the wall clock and the
  monotonic clock are arguments of the operations that read them, and log output is left out.
\<close>

named_theorems keeps_rules \<open>rules that show a stateful program keeps an invariant\<close>
named_theorems run_defs \<open>the monad's combinators, unfolded\<close>

section \<open>Exceptions and JSON values\<close>

datatype exn =
    KeyError string
  | ValueError string
  | TypeError string
  | IndexError string
  | RecursionError
  | DAGValidationError string
  | CyclicDependencyError string
  | CircuitOpenError string real
  | AllProvidersFailed string
  | OtherError string string

datatype json =
    JNull
  | JBool bool
  | JInt int
  | JFloat real
  | JStr string
  | JList "json list"
  | JObj "(string \<times> json) list"

type_synonym json_obj = "(string \<times> json) list"

text \<open>Python's truth value of a JSON value.\<close>

fun truthy :: "json \<Rightarrow> bool" where
  "truthy JNull = False"
| "truthy (JBool b) = b"
| "truthy (JInt i) = (i \<noteq> 0)"
| "truthy (JFloat x) = (x \<noteq> 0)"
| "truthy (JStr s) = (s \<noteq> [])"
| "truthy (JList xs) = (xs \<noteq> [])"
| "truthy (JObj ps) = (ps \<noteq> [])"

section \<open>Dictionaries\<close>

text \<open>
  A dict is an association list in insertion order. \<open>AList.update\<close> is \<open>d[k] = v\<close>: an existing key
  keeps its place, a new key goes to the end. \<open>AList.delete\<close> is \<open>d.pop(k, None)\<close>.
\<close>

type_synonym ('k, 'v) dict = "('k \<times> 'v) list"

abbreviation dget :: "('k, 'v) dict \<Rightarrow> 'k \<Rightarrow> 'v option" where
  "dget d k \<equiv> map_of d k"

abbreviation dset :: "'k \<Rightarrow> 'v \<Rightarrow> ('k, 'v) dict \<Rightarrow> ('k, 'v) dict" where
  "dset k v d \<equiv> AList.update k v d"

abbreviation dpop :: "'k \<Rightarrow> ('k, 'v) dict \<Rightarrow> ('k, 'v) dict" where
  "dpop k d \<equiv> AList.delete k d"

abbreviation dkeys :: "('k, 'v) dict \<Rightarrow> 'k list" where
  "dkeys d \<equiv> map fst d"

abbreviation dvalues :: "('k, 'v) dict \<Rightarrow> 'v list" where
  "dvalues d \<equiv> map snd d"

text \<open>\<open>dict.get(k, default)\<close> and \<open>d[k]\<close>.\<close>

definition dget_or :: "('k, 'v) dict \<Rightarrow> 'k \<Rightarrow> 'v \<Rightarrow> 'v" where
  "dget_or d k v = (case map_of d k of None \<Rightarrow> v | Some w \<Rightarrow> w)"

definition getitem :: "(string, 'v) dict \<Rightarrow> string \<Rightarrow> exn + 'v" where
  "getitem d k = (case map_of d k of None \<Rightarrow> Inl (KeyError k) | Some v \<Rightarrow> Inr v)"

text \<open>\<open>{**d, **e}\<close> and \<open>d.update(e)\<close>.\<close>

definition dmerge :: "('k, 'v) dict \<Rightarrow> ('k, 'v) dict \<Rightarrow> ('k, 'v) dict" where
  "dmerge d e = fold (\<lambda>(k, v) acc. dset k v acc) e d"

lemma dget_dset [simp]: "dget (dset k v d) k' = (if k' = k then Some v else dget d k')"
  by (simp add: update_conv')

lemma dget_dpop [simp]: "dget (dpop k d) k' = (if k' = k then None else dget d k')"
  by (simp add: delete_conv')

lemma dget_or_dset [simp]: "dget_or (dset k v d) k' w = (if k' = k then v else dget_or d k' w)"
  by (simp add: dget_or_def)

lemma distinct_dkeys_dset [simp]: "distinct (dkeys d) \<Longrightarrow> distinct (dkeys (dset k v d))"
  by (rule distinct_update)

lemma distinct_dkeys_dpop [simp]: "distinct (dkeys d) \<Longrightarrow> distinct (dkeys (dpop k d))"
  by (rule distinct_delete)

lemma set_dkeys_dset [simp]: "set (dkeys (dset k v d)) = insert k (set (dkeys d))"
  by (induction d) auto

lemma set_dkeys_dpop [simp]: "set (dkeys (dpop k d)) = set (dkeys d) - {k}"
  by (induction d) auto

lemma dvalues_dset_subset: "set (dvalues (dset k v d)) \<subseteq> insert v (set (dvalues d))"
  by (induction d) auto

lemma set_dset_subset: "set (dset k v d) \<subseteq> insert (k, v) (set d)"
  by (induction d) auto

lemma length_dset: "length (dset k v d) \<le> length d + 1"
  by (induction d) auto

lemma dget_Some_in_keys: "dget d k = Some v \<Longrightarrow> k \<in> set (dkeys d)"
  by (induction d) (auto split: if_splits)

lemma dget_None_iff: "dget d k = None \<longleftrightarrow> k \<notin> set (dkeys d)"
  by (simp add: map_of_eq_None_iff)

lemma dpop_notin: "k \<notin> set (dkeys d) \<Longrightarrow> dpop k d = d"
  by (induction d) auto

lemma length_dpop: "dget d k = Some v \<Longrightarrow> distinct (dkeys d) \<Longrightarrow> Suc (length (dpop k d)) = length d"
  by (induction d) (auto simp: dpop_notin)

lemma length_dpop_le: "length (dpop k d) \<le> length d"
  by (induction d) auto

lemma set_dpop_subset: "set (dpop k d) \<subseteq> set d"
  by (induction d) auto

lemma dget_filter_keys: "dget (filter (\<lambda>(k, _). P k) d) k = (if P k then dget d k else None)"
  by (induction d) auto

lemma dkeys_filter:
  "distinct (dkeys d) \<Longrightarrow> k \<in> set (dkeys (filter (\<lambda>(k, v). P k v) d)) \<longleftrightarrow> (\<exists>v. dget d k = Some v \<and> P k v)"
  by (force simp: image_iff dest: map_of_SomeD)

lemma sum_dvalues_dset:
  "distinct (dkeys d) \<Longrightarrow> sum_list (dvalues (dset k v d)) = sum_list (dvalues d) - dget_or d k 0 + (v :: int)"
  by (induction d) (auto simp: dget_or_def map_of_eq_None_iff [symmetric] split: option.splits)

lemma dmerge_Cons [simp]: "dmerge d ((k, v) # e) = dmerge (dset k v d) e"
  by (simp add: dmerge_def)

lemma dmerge_Nil [simp]: "dmerge d [] = d"
  by (simp add: dmerge_def)

lemma dget_dmerge_distinct:
  assumes "distinct (dkeys e)"
  shows "dget (dmerge d e) k = (case dget e k of None \<Rightarrow> dget d k | Some v \<Rightarrow> Some v)"
  using assms
proof (induction e arbitrary: d)
  case Nil
  then show ?case by simp
next
  case (Cons p e)
  obtain a v where p: "p = (a, v)" by (cases p)
  with Cons have "dget (dmerge (dset a v d) e) k =
      (case dget e k of None \<Rightarrow> dget (dset a v d) k | Some w \<Rightarrow> Some w)" by auto
  moreover from Cons.prems p have "dget e a = None" by (simp add: dget_None_iff)
  ultimately show ?case by (auto simp: p split: option.splits)
qed

section \<open>Slices\<close>

text \<open>The last \<open>n\<close> entries: a deque with \<open>maxlen = n\<close> after its appends, or \<open>xs[-n:]\<close> for positive \<open>n\<close>.\<close>

definition last_n :: "nat \<Rightarrow> 'a list \<Rightarrow> 'a list" where
  "last_n n xs = drop (length xs - n) xs"

lemma length_last_n [simp]: "length (last_n n xs) = min n (length xs)"
  by (simp add: last_n_def)

lemma suffix_last_n: "suffix (last_n n xs) xs"
  by (simp add: last_n_def suffix_drop)

lemma last_n_all [simp]: "length xs \<le> n \<Longrightarrow> last_n n xs = xs"
  by (simp add: last_n_def)

lemma last_n_append_last_n: "last_n n (last_n n ys @ xs) = last_n n (ys @ xs)"
proof (cases "length ys \<le> n")
  case False
  let ?z = "drop (length ys - n) ys"
  have "last_n n (ys @ xs) = drop (length xs) (drop (length ys - n) (ys @ xs))"
    using False by (simp add: last_n_def add.commute)
  also have "\<dots> = drop (length xs) (?z @ xs)" using False by simp
  also have "\<dots> = last_n n (?z @ xs)" using False by (simp add: last_n_def)
  finally show ?thesis by (simp add: last_n_def)
qed simp

section \<open>Strings\<close>

text \<open>ASCII lower case, as \<open>str.lower\<close> acts on ASCII text; \<open>x in s\<close>; \<open>s.startswith(x)\<close>.\<close>

definition lower_char :: "char \<Rightarrow> char" where
  "lower_char c =
     (let n = (of_char c :: nat) in if 65 \<le> n \<and> n \<le> 90 then char_of (n + 32) else c)"

definition str_lower :: "string \<Rightarrow> string" where
  "str_lower s = map lower_char s"

text \<open>Upper case of ASCII text.\<close>

definition str_upper :: "string \<Rightarrow> string" where
  "str_upper s = map (\<lambda>c. let n = (of_char c :: nat) in if 97 \<le> n \<and> n \<le> 122 then char_of (n - 32) else c) s"

fun startswith :: "string \<Rightarrow> string \<Rightarrow> bool" where
  "startswith s [] = True"
| "startswith [] (x # xs) = False"
| "startswith (y # ys) (x # xs) = (y = x \<and> startswith ys xs)"

fun str_contains :: "string \<Rightarrow> string \<Rightarrow> bool" where
  "str_contains [] x = (x = [])"
| "str_contains (c # cs) x = (startswith (c # cs) x \<or> str_contains cs x)"

fun str_join :: "string \<Rightarrow> string list \<Rightarrow> string" where
  "str_join sep [] = []"
| "str_join sep [x] = x"
| "str_join sep (x # y # ys) = x @ sep @ str_join sep (y # ys)"

text \<open>\<open>s.replace(old, new)\<close> for an \<open>old\<close> that is not empty; \<open>n\<close> characters are still to be skipped.\<close>

fun str_replace_from :: "nat \<Rightarrow> string \<Rightarrow> string \<Rightarrow> string \<Rightarrow> string" where
  "str_replace_from n old new [] = []"
| "str_replace_from (Suc n) old new (c # cs) = str_replace_from n old new cs"
| "str_replace_from 0 old new (c # cs) =
     (if startswith (c # cs) old then new @ str_replace_from (length old - 1) old new cs
      else c # str_replace_from 0 old new cs)"

definition is_space :: "char \<Rightarrow> bool" where
  "is_space c = (of_char c \<in> {9, 10, 11, 12, 13, 28, 29, 30, 31, 32 :: nat})"

definition str_strip :: "string \<Rightarrow> string" where
  "str_strip s = rev (dropWhile is_space (rev (dropWhile is_space s)))"

lemma startswith_prefix: "startswith s x \<longleftrightarrow> prefix x s"
  by (induction s x rule: startswith.induct) auto

lemma str_contains_sublist: "str_contains s x \<longleftrightarrow> sublist x s"
  by (induction s x rule: str_contains.induct) (auto simp: startswith_prefix sublist_Cons_right)

text \<open>A value inside single quotes, as the messages print it.\<close>

definition quoted :: "string \<Rightarrow> string" where
  "quoted s = CHR 0x27 # s @ [CHR 0x27]"

text \<open>Decimal text of an integer, \<open>str(n)\<close>, and of a natural number.\<close>

definition digit_char :: "nat \<Rightarrow> char" where
  "digit_char n = char_of (n + 48)"

fun nat_str :: "nat \<Rightarrow> string" where
  "nat_str n = (if n < 10 then [digit_char n] else nat_str (n div 10) @ [digit_char (n mod 10)])"

declare nat_str.simps [simp del]

definition int_str :: "int \<Rightarrow> string" where
  "int_str i = (if i < 0 then ''-'' @ nat_str (nat (- i)) else nat_str (nat i))"

text \<open>
  \<open>int(v)\<close> on a JSON value: a decimal numeral with surrounding white space and an optional sign is
  read, a float is truncated, other text is a \<open>ValueError\<close>, null and containers a \<open>TypeError\<close>.
\<close>

definition is_digit :: "char \<Rightarrow> bool" where
  "is_digit c = (let n = (of_char c :: nat) in 48 \<le> n \<and> n \<le> 57)"

definition digits_val :: "string \<Rightarrow> int" where
  "digits_val s = foldl (\<lambda>acc c. acc * 10 + (of_char c - 48)) 0 s"

definition int_of_str :: "string \<Rightarrow> exn + int" where
  "int_of_str s =
     (let t = str_strip s;
          neg = startswith t ''-'';
          u = (if neg \<or> startswith t ''+'' then tl t else t)
      in if u \<noteq> [] \<and> list_all is_digit u
         then Inr (if neg then - digits_val u else digits_val u)
         else Inl (ValueError (''invalid literal for int() with base 10: '' @ s)))"

definition real_trunc :: "real \<Rightarrow> int" where
  "real_trunc x = (if x < 0 then - \<lfloor>- x\<rfloor> else \<lfloor>x\<rfloor>)"

fun py_int :: "json \<Rightarrow> exn + int" where
  "py_int (JInt i) = Inr i"
| "py_int (JBool b) = Inr (if b then 1 else 0)"
| "py_int (JFloat x) = Inr (real_trunc x)"
| "py_int (JStr s) = int_of_str s"
| "py_int _ = Inl (TypeError ''int() argument must be a string or a number'')"

text \<open>\<open>float(s)\<close> on text: a decimal numeral with an optional exponent. Infinities and \<open>nan\<close> are \<open>None\<close>: no bound holds for them.\<close>

definition float_of_str :: "string \<Rightarrow> exn + real option" where
  "float_of_str s =
     (let t = str_lower (str_strip s);
          neg = startswith t ''-'';
          u = (if neg \<or> startswith t ''+'' then tl t else t);
          m = takeWhile (\<lambda>c. c \<noteq> CHR ''e'') u;
          a = takeWhile (\<lambda>c. c \<noteq> CHR ''.'') m;
          b = drop (Suc (length a)) m;
          e = (if m = u then Inr 0 else int_of_str (drop (Suc (length m)) u))
      in if u \<in> {''inf'', ''infinity'', ''nan''} then Inr None
         else if a @ b = [] \<or> \<not> list_all is_digit (a @ b) \<or> (m \<noteq> u \<and> list_ex is_space u)
         then Inl (ValueError (''could not convert string to float: '' @ quoted s))
         else (case e of
             Inl _ \<Rightarrow> Inl (ValueError (''could not convert string to float: '' @ quoted s))
           | Inr k \<Rightarrow> let x = of_int (digits_val (a @ b)) * 10 powr (of_int k - of_nat (length b)) in Inr (Some (if neg then - x else x))))"

fun float_of :: "json \<Rightarrow> exn + real option" where
  "float_of (JInt i) = Inr (Some (of_int i))"
| "float_of (JFloat x) = Inr (Some x)"
| "float_of (JBool b) = Inr (Some (of_bool b))"
| "float_of (JStr s) = float_of_str s"
| "float_of _ = Inl (TypeError ''float() argument must be a string or a real number'')"

text \<open>Attributes that an object does not have, and values that cannot be iterated.\<close>

definition attribute_error :: "string \<Rightarrow> exn" where
  "attribute_error a = OtherError ''AttributeError'' (''object has no attribute '' @ quoted a)"

definition not_iterable :: exn where
  "not_iterable = TypeError ''object is not iterable''"

text \<open>\<open>str(exc)\<close>. (The remaining time a \<open>CircuitOpenError\<close> prints is left out.)\<close>

fun exn_str :: "exn \<Rightarrow> string" where
  "exn_str (KeyError k) = quoted k"
| "exn_str (ValueError m) = m"
| "exn_str (TypeError m) = m"
| "exn_str (IndexError m) = m"
| "exn_str RecursionError = ''maximum recursion depth exceeded''"
| "exn_str (DAGValidationError m) = m"
| "exn_str (CyclicDependencyError m) = m"
| "exn_str (CircuitOpenError n r) = ''Circuit '' @ quoted n @ '' is OPEN.''"
| "exn_str (AllProvidersFailed m) = m"
| "exn_str (OtherError t m) = m"

section \<open>Sum results\<close>

definition bind_res :: "('e + 'a) \<Rightarrow> ('a \<Rightarrow> 'e + 'b) \<Rightarrow> 'e + 'b" where
  "bind_res r f = (case r of Inl e \<Rightarrow> Inl e | Inr x \<Rightarrow> f x)"

fun map_res :: "('a \<Rightarrow> 'e + 'b) \<Rightarrow> 'a list \<Rightarrow> 'e + 'b list" where
  "map_res f [] = Inr []"
| "map_res f (x # xs) = bind_res (f x) (\<lambda>y. bind_res (map_res f xs) (\<lambda>ys. Inr (y # ys)))"

lemma bind_res_simps [simp]:
  "bind_res (Inl e) f = Inl e"
  "bind_res (Inr x) f = f x"
  by (simp_all add: bind_res_def)

lemma bind_res_eq_Inr: "bind_res r f = Inr y \<longleftrightarrow> (\<exists>x. r = Inr x \<and> f x = Inr y)"
  by (cases r) auto

lemma map_res_Inr:
  assumes "map_res f xs = Inr ys"
  shows "length ys = length xs" and "\<forall>i < length xs. f (xs ! i) = Inr (ys ! i)"
  using assms
  by (induction xs arbitrary: ys) (auto simp: bind_res_eq_Inr nth_Cons split: nat.splits)

lemma map_res_all_Inr: "(\<And>x. x \<in> set xs \<Longrightarrow> f x = Inr (g x)) \<Longrightarrow> map_res f xs = Inr (map g xs)"
  by (induction xs) auto

section \<open>The state-and-exception monad\<close>

text \<open>
  A Python coroutine that mutates its object and may raise: the mutations made before the exception
  stay. \<open>try_s m h\<close> is \<open>try: m except Exception as e: h e\<close>.
\<close>

type_synonym ('s, 'a) prog = "'s \<Rightarrow> (exn + 'a) \<times> 's"

definition ret :: "'a \<Rightarrow> ('s, 'a) prog" where
  [run_defs]: "ret x s = (Inr x, s)"

definition raise_s :: "exn \<Rightarrow> ('s, 'a) prog" where
  [run_defs]: "raise_s e s = (Inl e, s)"

definition get_s :: "('s, 's) prog" where
  [run_defs]: "get_s s = (Inr s, s)"

definition modify_s :: "('s \<Rightarrow> 's) \<Rightarrow> ('s, unit) prog" where
  [run_defs]: "modify_s f s = (Inr (), f s)"

definition bind_s :: "('s, 'a) prog \<Rightarrow> ('a \<Rightarrow> ('s, 'b) prog) \<Rightarrow> ('s, 'b) prog" where
  [run_defs]: "bind_s m k s = (case m s of (Inl e, t) \<Rightarrow> (Inl e, t) | (Inr x, t) \<Rightarrow> k x t)"

abbreviation then_s :: "('s, 'a) prog \<Rightarrow> ('s, 'b) prog \<Rightarrow> ('s, 'b) prog" where
  "then_s m k \<equiv> bind_s m (\<lambda>_. k)"

definition try_s :: "('s, 'a) prog \<Rightarrow> (exn \<Rightarrow> ('s, 'a) prog) \<Rightarrow> ('s, 'a) prog" where
  [run_defs]: "try_s m h s = (case m s of (Inl e, t) \<Rightarrow> h e t | (Inr x, t) \<Rightarrow> (Inr x, t))"

definition lift_res :: "exn + 'a \<Rightarrow> ('s, 'a) prog" where
  [run_defs]: "lift_res r s = (r, s)"

fun for_s :: "'a list \<Rightarrow> ('a \<Rightarrow> ('s, unit) prog) \<Rightarrow> ('s, unit) prog" where
  "for_s [] f = ret ()"
| "for_s (x # xs) f = then_s (f x) (for_s xs f)"

text \<open>
  \<open>keeps I m\<close>: from a state with \<open>I\<close> the program ends in one with \<open>I\<close>, whether it returns or raises.
\<close>

definition keeps :: "('s \<Rightarrow> bool) \<Rightarrow> ('s, 'a) prog \<Rightarrow> bool" where
  "keeps I m \<longleftrightarrow> (\<forall>s. I s \<longrightarrow> I (snd (m s)))"

lemma keepsI: "(\<And>s. I s \<Longrightarrow> I (snd (m s))) \<Longrightarrow> keeps I m"
  by (simp add: keeps_def)

lemma keepsD: "keeps I m \<Longrightarrow> I s \<Longrightarrow> I (snd (m s))"
  by (simp add: keeps_def)

lemma keeps_ret [keeps_rules]: "keeps I (ret x)"
  by (simp add: keeps_def ret_def)

lemma keeps_raise_s [keeps_rules]: "keeps I (raise_s e)"
  by (simp add: keeps_def raise_s_def)

lemma keeps_lift_res [keeps_rules]: "keeps I (lift_res r)"
  by (simp add: keeps_def lift_res_def)

lemma keeps_get_s [keeps_rules]: "keeps I get_s"
  by (simp add: keeps_def get_s_def)

lemma keeps_modify_s: "(\<And>s. I s \<Longrightarrow> I (f s)) \<Longrightarrow> keeps I (modify_s f)"
  by (simp add: keeps_def modify_s_def)

lemma keeps_bind_s [keeps_rules]: "keeps I m \<Longrightarrow> (\<And>x. keeps I (k x)) \<Longrightarrow> keeps I (bind_s m k)"
  by (simp add: keeps_def bind_s_def split: prod.splits sum.splits) (metis snd_conv)

text \<open>When a program reads the state first, what follows may use that the value read is the state.\<close>

lemma keeps_get_bind: "(\<And>s. I s \<Longrightarrow> I (snd (k s s))) \<Longrightarrow> keeps I (bind_s get_s k)"
  by (simp add: keeps_def bind_s_def get_s_def)

lemma keeps_bind_lift_res: "(\<And>x. r = Inr x \<Longrightarrow> keeps I (k x)) \<Longrightarrow> keeps I (bind_s (lift_res r) k)"
  by (cases r) (auto simp: keeps_def bind_s_def lift_res_def)

lemma keeps_try_s [keeps_rules]: "keeps I m \<Longrightarrow> (\<And>e. keeps I (h e)) \<Longrightarrow> keeps I (try_s m h)"
  by (simp add: keeps_def try_s_def split: prod.splits sum.splits) (metis snd_conv)

lemma keeps_if [keeps_rules]: "keeps I m \<Longrightarrow> keeps I n \<Longrightarrow> keeps I (if b then m else n)"
  by simp

lemma keeps_for_s [keeps_rules]: "(\<And>x. x \<in> set xs \<Longrightarrow> keeps I (f x)) \<Longrightarrow> keeps I (for_s xs f)"
  by (induction xs) (auto intro!: keeps_rules)

text \<open>
  \<open>triple P m Q R\<close>: from a state with \<open>P\<close> the program returns a value with \<open>Q\<close> or raises an exception
  with \<open>R\<close>. \<open>R = (\<lambda>_ _. False)\<close> says that it does not raise.
\<close>

definition triple ::
  "('s \<Rightarrow> bool) \<Rightarrow> ('s, 'a) prog \<Rightarrow> ('a \<Rightarrow> 's \<Rightarrow> bool) \<Rightarrow> (exn \<Rightarrow> 's \<Rightarrow> bool) \<Rightarrow> bool"
where
  "triple P m Q R \<longleftrightarrow> (\<forall>s. P s \<longrightarrow> (case m s of (Inl e, t) \<Rightarrow> R e t | (Inr x, t) \<Rightarrow> Q x t))"

lemma tripleI:
  "(\<And>s r t. P s \<Longrightarrow> m s = (r, t) \<Longrightarrow> (case r of Inl e \<Rightarrow> R e t | Inr x \<Rightarrow> Q x t)) \<Longrightarrow> triple P m Q R"
  by (auto simp: triple_def split: prod.splits sum.splits)

lemma triple_returns:
  "triple P m Q (\<lambda>_ _. False) \<Longrightarrow> P s \<Longrightarrow> \<exists>x t. m s = (Inr x, t) \<and> Q x t"
  by (cases "m s"; cases "fst (m s)") (auto simp: triple_def)

lemma triple_ret: "(\<And>s. P s \<Longrightarrow> Q x s) \<Longrightarrow> triple P (ret x) Q R"
  by (simp add: triple_def ret_def)

lemma triple_raise: "(\<And>s. P s \<Longrightarrow> R e s) \<Longrightarrow> triple P (raise_s e) Q R"
  by (simp add: triple_def raise_s_def)

lemma triple_modify: "(\<And>s. P s \<Longrightarrow> Q () (f s)) \<Longrightarrow> triple P (modify_s f) Q R"
  by (simp add: triple_def modify_s_def)

lemma triple_bind:
  "triple P m M R \<Longrightarrow> (\<And>x. triple (M x) (k x) Q R) \<Longrightarrow> triple P (bind_s m k) Q R"
  by (fastforce simp: triple_def bind_s_def split: prod.splits sum.splits)

lemma triple_get: "(\<And>s. P s \<Longrightarrow> triple (\<lambda>t. t = s) (k s) Q R) \<Longrightarrow> triple P (bind_s get_s k) Q R"
  by (simp add: triple_def bind_s_def get_s_def)

lemma triple_try:
  "triple P m Q M \<Longrightarrow> (\<And>e. triple (M e) (h e) Q R) \<Longrightarrow> triple P (try_s m h) Q R"
  by (fastforce simp: triple_def try_s_def split: prod.splits sum.splits)

lemma triple_weaken:
  "triple P m Q R \<Longrightarrow> (\<And>s. P' s \<Longrightarrow> P s) \<Longrightarrow> (\<And>x s. Q x s \<Longrightarrow> Q' x s) \<Longrightarrow> (\<And>e s. R e s \<Longrightarrow> R' e s)
   \<Longrightarrow> triple P' m Q' R'"
  by (fastforce simp: triple_def split: prod.splits sum.splits)

lemma triple_pre: "triple P m Q R \<Longrightarrow> (\<And>s. P' s \<Longrightarrow> P s) \<Longrightarrow> triple P' m Q R"
  by (simp add: triple_def)

section \<open>What components have in common\<close>

text \<open>
  A component is a machine: a state, operations that change it, an invariant. The laws are proved
  for one operation; the locale gives them for every sequence of operations.
\<close>

locale machine =
  fixes step :: "'op \<Rightarrow> 's \<Rightarrow> 's" and inv :: "'s \<Rightarrow> bool"
  assumes step_inv: "inv s \<Longrightarrow> inv (step x s)"
begin

lemma run_inv: "inv s \<Longrightarrow> inv (fold step xs s)"
  by (induction xs arbitrary: s) (auto intro: step_inv)

lemma run_prefix_inv: "inv s \<Longrightarrow> prefix ys xs \<Longrightarrow> inv (fold step ys s)"
  by (rule run_inv)

end

text \<open>
  A buffer with a cap: \<open>push\<close> appends at the end and drops the oldest entries beyond the cap.
\<close>

locale capped_buffer =
  fixes push :: "'a \<Rightarrow> 'b \<Rightarrow> 'b" and items :: "'b \<Rightarrow> 'a list" and cap :: nat
  assumes items_push: "items (push x b) = last_n cap (items b @ [x])"
begin

lemma push_within_cap: "length (items (push x b)) \<le> cap"
  by (simp add: items_push)

lemma push_suffix: "suffix (items (push x b)) (items b @ [x])"
  by (simp only: items_push suffix_last_n)

lemma push_all: "length (items b) \<le> cap \<Longrightarrow> items (fold push xs b) = last_n cap (items b @ xs)"
proof (induction xs arbitrary: b)
  case (Cons x xs)
  have "items (fold push xs (push x b)) = last_n cap (items (push x b) @ xs)"
    by (rule Cons.IH) (rule push_within_cap)
  then show ?case by (simp add: items_push last_n_append_last_n)
qed simp

end

end
