(* ===== verification/Flow_Dag.thy ===== *)
theory Flow_Dag
  imports Prelude
begin

text \<open>
  The dependency graph of a flow, \<open>src/src/breadmind/flow/dag.py\<close>: steps read from JSON, the
  validation (duplicate ids, missing dependencies, the three-colour depth-first search for cycles),
  the topological order, the steps that are ready, mutations, and the payload codec.

  The two recursive visits take fuel; \<open>validate\<close> and \<open>topological_order\<close> give them one unit more
  than there are steps, and the lemmas show that it is never used up. Step ids are strings, as
  \<open>Step.id\<close> is annotated; an id or a dependency of another JSON kind is a \<open>TypeError\<close>.
\<close>

section \<open>Steps and their JSON form\<close>

record flow_step =
  fs_id :: string
  fs_title :: string
  fs_tool :: json
  fs_args :: json
  fs_depends_on :: "string list"
  fs_timeout_seconds :: int
  fs_max_attempts :: int

record dag_mutation =
  mut_added :: "json list"
  mut_removed :: "string list"
  mut_modified :: "json list"

record dag =
  dag_steps :: "flow_step list"

fun as_str :: "json \<Rightarrow> exn + string" where
  "as_str (JStr s) = Inr s"
| "as_str _ = Inl (TypeError ''expected str'')"

fun as_obj :: "json \<Rightarrow> exn + json_obj" where
  "as_obj (JObj ps) = Inr ps"
| "as_obj _ = Inl (TypeError ''expected dict'')"

fun as_list :: "json \<Rightarrow> exn + json list" where
  "as_list (JList xs) = Inr xs"
| "as_list _ = Inl (TypeError ''expected list'')"

definition as_str_list :: "json \<Rightarrow> exn + string list" where
  "as_str_list v = bind_res (as_list v) (map_res as_str)"

text \<open>\<open>dict(v)\<close>: an object is copied, a list of two-element lists is read as pairs.\<close>

fun pair_of :: "json \<Rightarrow> exn + (string \<times> json)" where
  "pair_of (JList [JStr k, v]) = Inr (k, v)"
| "pair_of _ = Inl (TypeError ''cannot convert dictionary update sequence element'')"

fun py_dict :: "json \<Rightarrow> exn + json" where
  "py_dict (JObj ps) = Inr (JObj ps)"
| "py_dict (JList xs) = bind_res (map_res pair_of xs) (\<lambda>ps. Inr (JObj (dmerge [] ps)))"
| "py_dict _ = Inl (TypeError ''object is not iterable'')"

text \<open>The two \<open>Step(...)\<close> constructor calls: \<open>conv\<close> is what is done to \<open>args\<close>.\<close>

definition step_of :: "(json \<Rightarrow> exn + json) \<Rightarrow> json_obj \<Rightarrow> exn + flow_step" where
  "step_of conv d =
     bind_res (getitem d ''id'') (\<lambda>jid. bind_res (as_str jid) (\<lambda>sid.
     bind_res (getitem d ''title'') (\<lambda>jt. bind_res (as_str jt) (\<lambda>title.
     bind_res (conv (dget_or d ''args'' (JObj []))) (\<lambda>args.
     bind_res (as_str_list (dget_or d ''depends_on'' (JList []))) (\<lambda>deps.
     bind_res (py_int (dget_or d ''timeout_seconds'' (JInt 300))) (\<lambda>tmo.
     bind_res (py_int (dget_or d ''max_attempts'' (JInt 3))) (\<lambda>att.
       Inr \<lparr>fs_id = sid, fs_title = title, fs_tool = dget_or d ''tool'' JNull, fs_args = args,
            fs_depends_on = deps, fs_timeout_seconds = tmo, fs_max_attempts = att\<rparr>))))))))"

section \<open>Validation\<close>

definition by_id :: "dag \<Rightarrow> string \<rightharpoonup> flow_step" where
  "by_id d = map_of (rev (map (\<lambda>s. (fs_id s, s)) (dag_steps d)))"

fun check_duplicates :: "string set \<Rightarrow> flow_step list \<Rightarrow> exn + string set" where
  "check_duplicates seen [] = Inr seen"
| "check_duplicates seen (s # ss) =
     (if fs_id s \<in> seen then Inl (DAGValidationError (''duplicate step id: '' @ fs_id s))
      else check_duplicates (insert (fs_id s) seen) ss)"

fun check_deps :: "string set \<Rightarrow> string \<Rightarrow> string list \<Rightarrow> exn + unit" where
  "check_deps seen sid [] = Inr ()"
| "check_deps seen sid (dep # deps) =
     (if dep \<notin> seen
      then Inl (DAGValidationError (''step '' @ quoted sid @ '' depends on missing '' @ quoted dep))
      else check_deps seen sid deps)"

fun check_missing :: "string set \<Rightarrow> flow_step list \<Rightarrow> exn + unit" where
  "check_missing seen [] = Inr ()"
| "check_missing seen (s # ss) =
     bind_res (check_deps seen (fs_id s) (fs_depends_on s)) (\<lambda>_. check_missing seen ss)"

datatype color = WHITE | GRAY | BLACK

type_synonym colors = "string \<rightharpoonup> color"

function (sequential)
  visit :: "nat \<Rightarrow> (string \<rightharpoonup> flow_step) \<Rightarrow> string \<Rightarrow> colors \<Rightarrow> exn + colors"
and
  visit_deps :: "nat \<Rightarrow> (string \<rightharpoonup> flow_step) \<Rightarrow> string list \<Rightarrow> colors \<Rightarrow> exn + colors"
where
  "visit 0 m node c = Inl RecursionError"
| "visit (Suc n) m node c =
     (case m node of
        None \<Rightarrow> Inl (KeyError node)
      | Some s \<Rightarrow>
          bind_res (visit_deps n m (fs_depends_on s) (c(node \<mapsto> GRAY)))
            (\<lambda>c'. Inr (c'(node \<mapsto> BLACK))))"
| "visit_deps n m [] c = Inr c"
| "visit_deps n m (dep # deps) c =
     (case c dep of
        None \<Rightarrow> Inl (KeyError dep)
      | Some GRAY \<Rightarrow> Inl (DAGValidationError (''cycle detected at step '' @ quoted dep))
      | Some WHITE \<Rightarrow> bind_res (visit n m dep c) (visit_deps n m deps)
      | Some BLACK \<Rightarrow> visit_deps n m deps c)"
  by pat_completeness auto
termination
  by (relation "measures [case_sum (\<lambda>(n, m, x, c). n) (\<lambda>(n, m, ds, c). n),
        case_sum (\<lambda>(n, m, x, c). 0) (\<lambda>(n, m, ds, c). Suc (length ds))]") auto

fun visit_all :: "nat \<Rightarrow> (string \<rightharpoonup> flow_step) \<Rightarrow> flow_step list \<Rightarrow> colors \<Rightarrow> exn + colors" where
  "visit_all n m [] c = Inr c"
| "visit_all n m (s # ss) c =
     (if c (fs_id s) = Some WHITE then bind_res (visit n m (fs_id s) c) (visit_all n m ss)
      else visit_all n m ss c)"

definition all_white :: "flow_step list \<Rightarrow> colors" where
  "all_white ss = map_of (map (\<lambda>s. (fs_id s, WHITE)) ss)"

definition validate :: "dag \<Rightarrow> exn + unit" where
  "validate d =
     bind_res (check_duplicates {} (dag_steps d)) (\<lambda>seen.
     bind_res (check_missing seen (dag_steps d)) (\<lambda>_.
     bind_res (visit_all (Suc (length (dag_steps d))) (by_id d) (dag_steps d)
                 (all_white (dag_steps d))) (\<lambda>_. Inr ())))"

section \<open>Topological order, ready steps\<close>

function (sequential)
  topo_visit :: "nat \<Rightarrow> (string \<rightharpoonup> flow_step) \<Rightarrow> string \<Rightarrow> string set \<times> string list \<Rightarrow>
    exn + (string set \<times> string list)"
and
  topo_deps :: "nat \<Rightarrow> (string \<rightharpoonup> flow_step) \<Rightarrow> string list \<Rightarrow> string set \<times> string list \<Rightarrow>
    exn + (string set \<times> string list)"
where
  "topo_visit 0 m node st = Inl RecursionError"
| "topo_visit (Suc n) m node st =
     (if node \<in> fst st then Inr st
      else case m node of
        None \<Rightarrow> Inl (KeyError node)
      | Some s \<Rightarrow> bind_res (topo_deps n m (fs_depends_on s) st)
          (\<lambda>(visited, order). Inr (insert node visited, order @ [node])))"
| "topo_deps n m [] st = Inr st"
| "topo_deps n m (dep # deps) st = bind_res (topo_visit n m dep st) (topo_deps n m deps)"
  by pat_completeness auto
termination
  by (relation "measures [case_sum (\<lambda>(n, m, x, c). n) (\<lambda>(n, m, ds, c). n),
        case_sum (\<lambda>(n, m, x, c). 0) (\<lambda>(n, m, ds, c). Suc (length ds))]") auto

definition topological_order :: "dag \<Rightarrow> exn + string list" where
  "topological_order d =
     bind_res (validate d) (\<lambda>_.
     bind_res (topo_deps (Suc (length (dag_steps d))) (by_id d) (map fs_id (dag_steps d)) ({}, []))
       (\<lambda>(visited, order). Inr order))"

definition ready_steps :: "dag \<Rightarrow> string set \<Rightarrow> string list" where
  "ready_steps d completed =
     map fs_id (filter (\<lambda>s. fs_id s \<notin> completed \<and> (\<forall>dep \<in> set (fs_depends_on s). dep \<in> completed))
       (dag_steps d))"

section \<open>Payloads and mutations\<close>

definition step_payload :: "flow_step \<Rightarrow> json" where
  "step_payload s =
     JObj [(''id'', JStr (fs_id s)), (''title'', JStr (fs_title s)), (''tool'', fs_tool s),
           (''args'', fs_args s), (''depends_on'', JList (map JStr (fs_depends_on s))),
           (''timeout_seconds'', JInt (fs_timeout_seconds s)),
           (''max_attempts'', JInt (fs_max_attempts s))]"

definition to_payload :: "dag \<Rightarrow> json list" where
  "to_payload d = map step_payload (dag_steps d)"

definition from_payload :: "json list \<Rightarrow> exn + dag" where
  "from_payload data =
     bind_res (map_res (\<lambda>j. bind_res (as_obj j) (step_of Inr)) data) (\<lambda>steps.
     bind_res (validate \<lparr>dag_steps = steps\<rparr>) (\<lambda>_. Inr \<lparr>dag_steps = steps\<rparr>))"

definition index_by_id :: "flow_step list \<Rightarrow> string \<rightharpoonup> nat" where
  "index_by_id ss = map_of (rev (zip (map fs_id ss) [0..<length ss]))"

fun apply_modified ::
  "(string \<rightharpoonup> nat) \<Rightarrow> json list \<Rightarrow> flow_step list \<Rightarrow> exn + flow_step list"
where
  "apply_modified idx [] ss = Inr ss"
| "apply_modified idx (j # js) ss =
     bind_res (as_obj j) (\<lambda>m.
     bind_res (getitem m ''id'') (\<lambda>jid. bind_res (as_str jid) (\<lambda>sid.
       case idx sid of
         None \<Rightarrow> Inl (DAGValidationError (''cannot modify missing step '' @ quoted sid))
       | Some i \<Rightarrow> bind_res (step_of py_dict m) (\<lambda>s. apply_modified idx js (ss[i := s])))))"

definition apply_mutation :: "dag \<Rightarrow> dag_mutation \<Rightarrow> exn + dag" where
  "apply_mutation d m =
     (let kept = filter (\<lambda>s. fs_id s \<notin> set (mut_removed m)) (dag_steps d) in
      bind_res (apply_modified (index_by_id kept) (mut_modified m) kept) (\<lambda>ss.
      bind_res (map_res (\<lambda>j. bind_res (as_obj j) (step_of py_dict)) (mut_added m)) (\<lambda>added.
        let d' = \<lparr>dag_steps = ss @ added\<rparr> in bind_res (validate d') (\<lambda>_. Inr d'))))"

section \<open>What a valid graph is\<close>

definition dag_ids :: "dag \<Rightarrow> string list" where
  "dag_ids d = map fs_id (dag_steps d)"

definition edges :: "(string \<rightharpoonup> flow_step) \<Rightarrow> (string \<times> string) set" where
  "edges m = {(x, y). \<exists>s. m x = Some s \<and> y \<in> set (fs_depends_on s)}"

definition dep_edges :: "dag \<Rightarrow> (string \<times> string) set" where
  "dep_edges d = {(fs_id s, y) | s y. s \<in> set (dag_steps d) \<and> y \<in> set (fs_depends_on s)}"

definition valid_dag :: "dag \<Rightarrow> bool" where
  "valid_dag d \<longleftrightarrow>
     distinct (dag_ids d)
     \<and> (\<forall>s \<in> set (dag_steps d). set (fs_depends_on s) \<subseteq> set (dag_ids d))
     \<and> acyclic (dep_edges d)"

text \<open>The graph a search runs on: every dependency is a node.\<close>

definition closed_map :: "(string \<rightharpoonup> flow_step) \<Rightarrow> bool" where
  "closed_map m \<longleftrightarrow> (\<forall>x s. m x = Some s \<longrightarrow> set (fs_depends_on s) \<subseteq> dom m)"

lemma check_duplicates_Inr:
  "check_duplicates seen ss = Inr t \<longleftrightarrow>
     distinct (map fs_id ss) \<and> set (map fs_id ss) \<inter> seen = {} \<and> t = seen \<union> set (map fs_id ss)"
  by (induction ss arbitrary: seen) auto

lemma check_deps_Inr: "check_deps seen sid ds = Inr () \<longleftrightarrow> set ds \<subseteq> seen"
  by (induction ds) auto

lemma check_missing_Inr:
  "check_missing seen ss = Inr () \<longleftrightarrow> (\<forall>s \<in> set ss. set (fs_depends_on s) \<subseteq> seen)"
  by (induction ss) (auto simp: bind_res_eq_Inr check_deps_Inr)

section \<open>The three-colour search\<close>

abbreviation colored :: "color \<Rightarrow> colors \<Rightarrow> string set" where
  "colored k c \<equiv> {x. c x = Some k}"

text \<open>
  What holds of the colours between two visits: every node has one, the black nodes are closed
  under dependencies and have no cycle among them.
\<close>

definition color_inv :: "(string \<rightharpoonup> flow_step) \<Rightarrow> colors \<Rightarrow> bool" where
  "color_inv m c \<longleftrightarrow>
     dom c = dom m
     \<and> (\<forall>x y. c x = Some BLACK \<longrightarrow> (x, y) \<in> edges m \<longrightarrow> c y = Some BLACK)
     \<and> acyclic (edges m \<inter> colored BLACK c \<times> colored BLACK c)"

text \<open>What a successful visit has done to the colours.\<close>

definition color_ext :: "(string \<rightharpoonup> flow_step) \<Rightarrow> colors \<Rightarrow> colors \<Rightarrow> bool" where
  "color_ext m c c' \<longleftrightarrow>
     color_inv m c'
     \<and> (\<forall>x. (c' x = Some GRAY \<longleftrightarrow> c x = Some GRAY) \<and> (c x = Some BLACK \<longrightarrow> c' x = Some BLACK)
            \<and> (c' x = Some WHITE \<longrightarrow> c x = Some WHITE))"

lemma color_ext_trans: "color_ext m a b \<Longrightarrow> color_ext m b c \<Longrightarrow> color_ext m a c"
  unfolding color_ext_def by (elim conjE, intro conjI allI, assumption) (metis)+

lemma color_inv_gray:
  assumes "color_inv m c" and "c x = Some WHITE"
  shows "color_inv m (c(x \<mapsto> GRAY))"
proof -
  have "colored BLACK (c(x \<mapsto> GRAY)) = colored BLACK c" using assms(2) by auto
  with assms show ?thesis by (auto simp: color_inv_def split: if_splits)
qed

text \<open>A gray node whose dependencies are all black turns black: no cycle goes through it.\<close>

lemma acyclic_add_sink:
  assumes "acyclic (r \<inter> B \<times> B)" and "x \<notin> B" and "\<And>y. (x, y) \<in> r \<Longrightarrow> y \<in> B"
    and closed: "\<And>y z. y \<in> B \<Longrightarrow> (y, z) \<in> r \<Longrightarrow> z \<in> B"
  shows "acyclic (r \<inter> insert x B \<times> insert x B)"
proof -
  let ?r = "r \<inter> insert x B \<times> insert x B"
  have into: "z \<in> B" if "(y, z) \<in> ?r\<^sup>+" for y z
    using that by (induction rule: trancl_induct) (use assms in auto)
  have inner: "(y, z) \<in> (r \<inter> B \<times> B)\<^sup>+" if "(y, z) \<in> ?r\<^sup>+" "y \<in> B" for y z
    using that
  proof (induction rule: trancl_induct)
    case (base z)
    then show ?case using closed by auto
  next
    case (step z w)
    then have "z \<in> B" using into by blast
    with step closed have "(z, w) \<in> r \<inter> B \<times> B" by auto
    with step show ?case by (meson trancl.trancl_into_trancl)
  qed
  show ?thesis unfolding acyclic_def
  proof clarify
    fix y assume c: "(y, y) \<in> ?r\<^sup>+"
    then have "y \<in> B" by (rule into)
    with c have "(y, y) \<in> (r \<inter> B \<times> B)\<^sup>+" by (rule inner)
    with assms(1) show False by (simp add: acyclic_def)
  qed
qed

lemma color_inv_black:
  assumes inv: "color_inv m c" and x: "c x = Some GRAY"
    and deps: "\<And>y. (x, y) \<in> edges m \<Longrightarrow> c y = Some BLACK"
  shows "color_inv m (c(x \<mapsto> BLACK))"
proof -
  have eq: "colored BLACK (c(x \<mapsto> BLACK)) = insert x (colored BLACK c)" by auto
  have "acyclic (edges m \<inter> insert x (colored BLACK c) \<times> insert x (colored BLACK c))"
    by (rule acyclic_add_sink) (use inv x deps in \<open>auto simp: color_inv_def\<close>)
  moreover from inv x have "dom (c(x \<mapsto> BLACK)) = dom m" by (auto simp: color_inv_def)
  moreover have "\<forall>y z. (c(x \<mapsto> BLACK)) y = Some BLACK \<longrightarrow> (y, z) \<in> edges m \<longrightarrow>
      (c(x \<mapsto> BLACK)) z = Some BLACK"
    using inv x deps by (auto simp: color_inv_def)
  ultimately show ?thesis unfolding color_inv_def eq by simp
qed

lemma color_inv_finite: "color_inv m c \<Longrightarrow> finite (dom m) \<Longrightarrow> finite (colored k c)"
  by (rule finite_subset [of _ "dom m"]) (auto simp: color_inv_def)

lemma color_inv_node: "color_inv m c \<Longrightarrow> c x = Some k \<Longrightarrow> \<exists>s. m x = Some s"
  by (metis color_inv_def domD domI)

lemma color_inv_color: "color_inv m c \<Longrightarrow> x \<in> dom m \<Longrightarrow> \<exists>k. c x = Some k"
  by (metis color_inv_def domD)

text \<open>
  With fuel for every white node, a visit either reports a cycle or turns its nodes black; it never
  runs out of fuel and never misses a key.
\<close>

lemma visit_total:
  assumes "closed_map m" and "finite (dom m)"
  shows "color_inv m c \<Longrightarrow> c x = Some WHITE \<Longrightarrow> card (colored WHITE c) \<le> n \<Longrightarrow>
      (\<exists>msg. visit n m x c = Inl (DAGValidationError msg))
      \<or> (\<exists>c'. visit n m x c = Inr c' \<and> color_ext m c c' \<and> c' x = Some BLACK)"
    and "color_inv m c \<Longrightarrow> set ds \<subseteq> dom m \<Longrightarrow> card (colored WHITE c) \<le> n \<Longrightarrow>
      (\<exists>msg. visit_deps n m ds c = Inl (DAGValidationError msg))
      \<or> (\<exists>c'. visit_deps n m ds c = Inr c' \<and> color_ext m c c' \<and> (\<forall>y \<in> set ds. c' y = Some BLACK))"
  using assms
proof (induction n m x c and n m ds c rule: visit_visit_deps.induct)
  case (1 m node c)
  have "finite (colored WHITE c)"
    using 1 by (simp add: color_inv_finite)
  with 1 show ?case by auto
next
  case (2 n m node c)
  have fin: "finite (colored WHITE c)"
    using 2 by (simp add: color_inv_finite)
  obtain s where s: "m node = Some s" using color_inv_node [OF 2(2,3)] by blast
  let ?c = "c(node \<mapsto> GRAY)"
  have white: "colored WHITE ?c = colored WHITE c - {node}" by auto
  have inv: "color_inv m ?c" using 2 by (auto intro: color_inv_gray)
  have deps: "set (fs_depends_on s) \<subseteq> dom m" using 2 s by (auto simp: closed_map_def)
  have "card (colored WHITE c - {node}) = card (colored WHITE c) - 1"
    by (rule card_Diff_singleton) (use 2(3) in simp)
  then have "card (colored WHITE ?c) \<le> n" using 2(4) by (simp only: white)
  from 2(1) [OF s inv deps this] 2(5,6) consider
      (cycle) msg where "visit_deps n m (fs_depends_on s) ?c = Inl (DAGValidationError msg)"
    | (black) c' where "visit_deps n m (fs_depends_on s) ?c = Inr c'" "color_ext m ?c c'"
        "\<forall>y \<in> set (fs_depends_on s). c' y = Some BLACK"
    by blast
  then show ?case
  proof cases
    case black
    have gray: "c' node = Some GRAY" using black(2) by (auto simp: color_ext_def)
    have "color_inv m (c'(node \<mapsto> BLACK))"
      by (rule color_inv_black) (use black gray s in \<open>auto simp: color_ext_def edges_def\<close>)
    then have "color_ext m c (c'(node \<mapsto> BLACK))"
      using black(2) 2(3) by (auto simp: color_ext_def split: if_splits)
    with black s show ?thesis by simp
  qed (simp add: s)
next
  case (3 n m c)
  then show ?case by (simp add: color_ext_def)
next
  case (4 n m dep deps c)
  then obtain k where k: "c dep = Some k" using color_inv_color [OF 4(4), of dep] by auto
  show ?case
  proof (cases k)
    case WHITE
    have "(\<exists>msg. visit n m dep c = Inl (DAGValidationError msg))
      \<or> (\<exists>c'. visit n m dep c = Inr c' \<and> color_ext m c c' \<and> c' dep = Some BLACK)"
      using 4 k WHITE by auto
    then show ?thesis
    proof (elim disjE exE conjE)
      fix c' assume c': "visit n m dep c = Inr c'" "color_ext m c c'" "c' dep = Some BLACK"
      have "finite (colored WHITE c)"
        using 4 by (simp add: color_inv_finite)
      then have card: "card (colored WHITE c') \<le> n"
        using c'(2) 4(6) by (auto simp: color_ext_def intro: order.trans [OF card_mono])
      have inv: "color_inv m c'" using c'(2) by (simp add: color_ext_def)
      have "set deps \<subseteq> dom m" using 4(5) by simp
      from 4(2) [OF k WHITE inv this card 4(7,8)] consider
          (cycle) msg where "visit_deps n m deps c' = Inl (DAGValidationError msg)"
        | (black) c'' where "visit_deps n m deps c' = Inr c''" "color_ext m c' c''"
            "\<forall>y \<in> set deps. c'' y = Some BLACK"
        by blast
      then show ?thesis
      proof cases
        case black
        have "color_ext m c c''" using c'(2) black(2) by (rule color_ext_trans)
        moreover have "c'' dep = Some BLACK" using c'(3) black(2) by (simp add: color_ext_def)
        ultimately show ?thesis using black c' k WHITE by simp
      qed (simp add: k WHITE c')
    qed (simp add: k WHITE)
  next
    case BLACK
    with 4 k show ?thesis by (auto simp: color_ext_def)
  qed (simp add: k)
qed

text \<open>
  A reported cycle is one: every gray node reaches the node being visited, so an edge back to a
  gray node closes a path.
\<close>

lemma visit_cycle:
  assumes "closed_map m" and "finite (dom m)"
  shows "color_inv m c \<Longrightarrow> c x = Some WHITE \<Longrightarrow> card (colored WHITE c) \<le> n \<Longrightarrow>
      (\<forall>g. c g = Some GRAY \<longrightarrow> (g, x) \<in> (edges m)\<^sup>*) \<Longrightarrow> visit n m x c = Inl e \<Longrightarrow> \<not> acyclic (edges m)"
    and "color_inv m c \<Longrightarrow> set ds \<subseteq> dom m \<Longrightarrow> card (colored WHITE c) \<le> n \<Longrightarrow>
      (\<forall>g. c g = Some GRAY \<longrightarrow> (g, p) \<in> (edges m)\<^sup>*) \<Longrightarrow> (\<forall>y \<in> set ds. (p, y) \<in> edges m) \<Longrightarrow>
      visit_deps n m ds c = Inl e \<Longrightarrow> \<not> acyclic (edges m)"
  using assms
proof (induction n m x c and n m ds c arbitrary: e and p e rule: visit_visit_deps.induct)
  case (1 m node c)
  then show ?case by (simp add: color_inv_finite)
next
  case (2 n m node c)
  have fin: "finite (colored WHITE c)" using 2 by (simp add: color_inv_finite)
  obtain s where s: "m node = Some s" using color_inv_node [OF 2(2,3)] by blast
  let ?c = "c(node \<mapsto> GRAY)"
  have white: "colored WHITE ?c = colored WHITE c - {node}" by auto
  have inv: "color_inv m ?c" using 2 by (auto intro: color_inv_gray)
  have deps: "set (fs_depends_on s) \<subseteq> dom m" using 2 s by (auto simp: closed_map_def)
  have "card (colored WHITE c - {node}) = card (colored WHITE c) - 1"
    by (rule card_Diff_singleton) (use 2(3) in simp)
  then have card: "card (colored WHITE ?c) \<le> n" using 2(4) by (simp only: white)
  have reach: "\<forall>g. ?c g = Some GRAY \<longrightarrow> (g, node) \<in> (edges m)\<^sup>*" using 2(5) by auto
  have edge: "\<forall>y \<in> set (fs_depends_on s). (node, y) \<in> edges m" using s by (auto simp: edges_def)
  have "visit_deps n m (fs_depends_on s) ?c = Inl e"
    using 2(6) s by (auto simp: bind_res_def split: sum.splits)
  then show ?case using 2(1) [OF s inv deps card reach edge _ 2(7,8)] by blast
next
  case (3 n m c)
  then show ?case by simp
next
  case (4 n m dep deps c)
  then obtain k where k: "c dep = Some k" using color_inv_color [OF 4(4), of dep] by auto
  have pd: "(p, dep) \<in> edges m" using 4(8) by simp
  have sub: "set deps \<subseteq> dom m" "\<forall>y \<in> set deps. (p, y) \<in> edges m" using 4(5,8) by auto
  show ?case
  proof (cases k)
    case GRAY
    with k 4(7) have "(dep, p) \<in> (edges m)\<^sup>*" by simp
    then have "(dep, dep) \<in> (edges m)\<^sup>+" using pd by (rule rtrancl_into_trancl1)
    then show ?thesis by (auto simp: acyclic_def)
  next
    case BLACK
    from k BLACK 4(9) have "visit_deps n m deps c = Inl e" by simp
    with 4(3) [OF k BLACK 4(4) sub(1) 4(6,7) sub(2) _ 4(10,11)] show ?thesis by blast
  next
    case WHITE
    have reach: "\<forall>g. c g = Some GRAY \<longrightarrow> (g, dep) \<in> (edges m)\<^sup>*"
      using 4(7) pd by (meson rtrancl.rtrancl_into_rtrancl)
    have w: "c dep = Some WHITE" using k WHITE by simp
    show ?thesis
    proof (cases "visit n m dep c")
      case (Inl e')
      from 4(1) [OF k WHITE 4(4) w 4(6) reach this 4(10,11)] show ?thesis .
    next
      case (Inr c')
      with visit_total(1) [OF 4(10,11,4) w 4(6)] have ext: "color_ext m c c'" by auto
      have inv: "color_inv m c'" using ext by (simp add: color_ext_def)
      have "colored WHITE c' \<subseteq> colored WHITE c" using ext by (auto simp: color_ext_def)
      then have "card (colored WHITE c') \<le> card (colored WHITE c)"
        by (intro card_mono) (use 4 in \<open>auto simp: color_inv_finite\<close>)
      then have card: "card (colored WHITE c') \<le> n" using 4(6) by linarith
      have reach': "\<forall>g. c' g = Some GRAY \<longrightarrow> (g, p) \<in> (edges m)\<^sup>*"
        using ext 4(7) by (simp add: color_ext_def)
      from Inr w 4(9) have "visit_deps n m deps c' = Inl e" by simp
      with 4(2) [OF k WHITE inv sub(1) card reach' sub(2) _ 4(10,11)] show ?thesis by blast
    qed
  qed
qed

lemma visit_all_cases:
  assumes m: "closed_map m" "finite (dom m)"
    and c: "color_inv m c" "\<forall>g. c g \<noteq> Some GRAY" "card (colored WHITE c) \<le> n"
    and ss: "fs_id ` set ss \<subseteq> dom m"
  shows "(\<exists>msg. visit_all n m ss c = Inl (DAGValidationError msg)) \<and> \<not> acyclic (edges m)
    \<or> (\<exists>c'. visit_all n m ss c = Inr c' \<and> color_ext m c c' \<and> (\<forall>s \<in> set ss. c' (fs_id s) = Some BLACK))"
  using c ss
proof (induction ss arbitrary: c)
  case Nil
  then show ?case by (simp add: color_ext_def)
next
  case (Cons s ss)
  obtain k where k: "c (fs_id s) = Some k" using Cons.prems color_inv_color by fastforce
  show ?case
  proof (cases "k = WHITE")
    case True
    then have w: "c (fs_id s) = Some WHITE" using k by simp
    from visit_total(1) [OF m Cons.prems(1) w Cons.prems(3)] consider
        (cycle) msg where "visit n m (fs_id s) c = Inl (DAGValidationError msg)"
      | (black) c' where "visit n m (fs_id s) c = Inr c'" "color_ext m c c'" "c' (fs_id s) = Some BLACK"
      by blast
    then show ?thesis
    proof cases
      case cycle
      have "\<not> acyclic (edges m)"
        by (rule visit_cycle(1) [OF m Cons.prems(1) w Cons.prems(3) _ cycle]) (use Cons.prems in simp)
      then show ?thesis using cycle w by simp
    next
      case black
      have "colored WHITE c' \<subseteq> colored WHITE c" using black(2) by (auto simp: color_ext_def)
      then have "card (colored WHITE c') \<le> card (colored WHITE c)"
        by (intro card_mono) (use Cons.prems m in \<open>auto simp: color_inv_finite\<close>)
      then have "card (colored WHITE c') \<le> n" using Cons.prems by linarith
      then have "(\<exists>msg. visit_all n m ss c' = Inl (DAGValidationError msg)) \<and> \<not> acyclic (edges m)
        \<or> (\<exists>c''. visit_all n m ss c' = Inr c'' \<and> color_ext m c' c'' \<and> (\<forall>s \<in> set ss. c'' (fs_id s) = Some BLACK))"
        by (intro Cons.IH) (use Cons.prems black in \<open>auto simp: color_ext_def\<close>)
      then show ?thesis
      proof (elim disjE exE conjE)
        fix c'' assume c'': "visit_all n m ss c' = Inr c''" "color_ext m c' c''"
          "\<forall>s \<in> set ss. c'' (fs_id s) = Some BLACK"
        have "color_ext m c c''" using black(2) c''(2) by (rule color_ext_trans)
        moreover have "c'' (fs_id s) = Some BLACK" using black(3) c''(2) by (simp add: color_ext_def)
        ultimately show ?thesis using black c'' w by simp
      qed (simp add: black w)
    qed
  next
    case False
    then have "k = BLACK" using k Cons.prems by (cases k) auto
    with False k have b: "c (fs_id s) \<noteq> Some WHITE" "c (fs_id s) = Some BLACK" by auto
    have "(\<exists>msg. visit_all n m ss c = Inl (DAGValidationError msg)) \<and> \<not> acyclic (edges m)
      \<or> (\<exists>c''. visit_all n m ss c = Inr c'' \<and> color_ext m c c'' \<and> (\<forall>s \<in> set ss. c'' (fs_id s) = Some BLACK))"
      by (intro Cons.IH) (use Cons.prems in auto)
    then show ?thesis
    proof (elim disjE exE conjE)
      fix c'' assume c'': "visit_all n m ss c = Inr c''" "color_ext m c c''"
        "\<forall>s \<in> set ss. c'' (fs_id s) = Some BLACK"
      have "c'' (fs_id s) = Some BLACK" using b(2) c''(2) by (simp add: color_ext_def)
      then show ?thesis using b c'' by simp
    qed (simp add: b)
  qed
qed

lemma by_id_iff:
  "distinct (dag_ids d) \<Longrightarrow> by_id d x = Some s \<longleftrightarrow> s \<in> set (dag_steps d) \<and> fs_id s = x"
  unfolding by_id_def dag_ids_def
  by (subst map_of_eq_Some_iff) (auto simp: rev_map [symmetric] o_def)

lemma dom_by_id: "dom (by_id d) = set (dag_ids d)"
  by (auto simp: by_id_def dag_ids_def dom_map_of_conv_image_fst image_image)

lemma edges_by_id: "distinct (dag_ids d) \<Longrightarrow> edges (by_id d) = dep_edges d"
  by (auto simp: edges_def dep_edges_def by_id_iff)

lemma color_inv_all_white: "dom m = fs_id ` set ss \<Longrightarrow> color_inv m (all_white ss)"
proof -
  assume m: "dom m = fs_id ` set ss"
  have w: "c = WHITE" if "all_white ss x = Some c" for x c
    using map_of_SomeD [OF that [unfolded all_white_def]] by auto
  have "dom (all_white ss) = dom m" by (simp add: m all_white_def dom_map_of_conv_image_fst image_image)
  moreover have "colored BLACK (all_white ss) = {}" by (auto dest: w)
  ultimately show ?thesis by (auto simp: color_inv_def acyclic_def)
qed

lemma all_white_not_gray: "all_white ss x \<noteq> Some GRAY"
  by (auto simp: all_white_def dest: map_of_SomeD)

lemma validate_search:
  assumes "distinct (dag_ids d)" and "\<forall>s \<in> set (dag_steps d). set (fs_depends_on s) \<subseteq> set (dag_ids d)"
  shows "(\<exists>msg. visit_all (Suc (length (dag_steps d))) (by_id d) (dag_steps d) (all_white (dag_steps d))
            = Inl (DAGValidationError msg)) \<and> \<not> acyclic (dep_edges d)
    \<or> (\<exists>c. visit_all (Suc (length (dag_steps d))) (by_id d) (dag_steps d) (all_white (dag_steps d)) = Inr c)
        \<and> acyclic (dep_edges d)"
proof -
  let ?m = "by_id d" and ?w = "all_white (dag_steps d)"
  have dom: "dom ?m = fs_id ` set (dag_steps d)" by (simp add: dom_by_id dag_ids_def)
  have cl: "closed_map ?m" using assms by (auto simp: closed_map_def by_id_iff dom_by_id)
  have fin: "finite (dom ?m)" by (simp add: dom)
  have inv: "color_inv ?m ?w" by (rule color_inv_all_white) (rule dom)
  have sub: "colored WHITE ?w \<subseteq> fs_id ` set (dag_steps d)" using inv dom by (auto simp: color_inv_def)
  have "card (colored WHITE ?w) \<le> card (fs_id ` set (dag_steps d))" by (rule card_mono [OF _ sub]) simp
  also have "\<dots> \<le> length (dag_steps d)" by (meson card_image_le card_length List.finite_set le_trans)
  finally have "card (colored WHITE ?w) \<le> Suc (length (dag_steps d))" by simp
  from visit_all_cases [OF cl fin inv _ this, of "dag_steps d"] dom all_white_not_gray consider
      (cycle) msg where "visit_all (Suc (length (dag_steps d))) ?m (dag_steps d) ?w
         = Inl (DAGValidationError msg)" "\<not> acyclic (edges ?m)"
    | (black) c where "visit_all (Suc (length (dag_steps d))) ?m (dag_steps d) ?w = Inr c"
        "color_ext ?m ?w c" "\<forall>s \<in> set (dag_steps d). c (fs_id s) = Some BLACK"
    by blast
  then show ?thesis
  proof cases
    case cycle
    then show ?thesis using assms edges_by_id by auto
  next
    case black
    have inv: "color_inv ?m c" using black(2) by (simp add: color_ext_def)
    have blk: "c x = Some BLACK" if "(x, y) \<in> edges ?m" for x y
      using that black(3) assms(1) by (auto simp: edges_def by_id_iff)
    then have "c y = Some BLACK" if "(x, y) \<in> edges ?m" for x y
      using that inv unfolding color_inv_def by blast
    with blk have "edges ?m \<inter> colored BLACK c \<times> colored BLACK c = edges ?m" by auto
    with inv have "acyclic (edges ?m)" by (simp add: color_inv_def)
    with black assms edges_by_id show ?thesis by auto
  qed
qed

lemma validate_valid: "validate d = Inr () \<longleftrightarrow> valid_dag d"
proof (cases "distinct (dag_ids d) \<and> (\<forall>s \<in> set (dag_steps d). set (fs_depends_on s) \<subseteq> set (dag_ids d))")
  case True
  then have dup: "check_duplicates {} (dag_steps d) = Inr (set (dag_ids d))"
    and mis: "check_missing (set (dag_ids d)) (dag_steps d) = Inr ()"
    by (auto simp: check_duplicates_Inr check_missing_Inr dag_ids_def)
  from True validate_search [of d] show ?thesis
    by (auto simp: validate_def dup mis valid_dag_def)
next
  case False
  then show ?thesis
    by (auto simp: validate_def valid_dag_def bind_res_eq_Inr check_duplicates_Inr check_missing_Inr
        dag_ids_def)
qed

text \<open>Every way validation can fail is the documented exception.\<close>

lemma check_duplicates_error:
  "check_duplicates seen ss = Inl e \<Longrightarrow> \<exists>msg. e = DAGValidationError msg"
  by (induction ss arbitrary: seen) (auto split: if_splits)

lemma check_deps_error: "check_deps seen sid ds = Inl e \<Longrightarrow> \<exists>msg. e = DAGValidationError msg"
  by (induction ds) (auto split: if_splits)

lemma check_missing_error: "check_missing seen ss = Inl e \<Longrightarrow> \<exists>msg. e = DAGValidationError msg"
  by (induction ss) (auto simp: bind_res_def dest: check_deps_error split: sum.splits)

lemma validate_error:
  assumes e: "validate d = Inl e"
  shows "\<exists>msg. e = DAGValidationError msg"
proof (cases "check_duplicates {} (dag_steps d)")
  case (Inl e')
  with e show ?thesis using check_duplicates_error [OF Inl] by (simp add: validate_def)
next
  case dup: (Inr seen)
  then have seen: "seen = set (dag_ids d)" "distinct (dag_ids d)"
    by (simp_all add: check_duplicates_Inr dag_ids_def)
  show ?thesis
  proof (cases "check_missing seen (dag_steps d)")
    case (Inl e')
    with e dup show ?thesis using check_missing_error [OF Inl] by (simp add: validate_def)
  next
    case (Inr u)
    then have "check_missing (set (dag_ids d)) (dag_steps d) = Inr ()" by (simp add: seen(1))
    then have "\<forall>s \<in> set (dag_steps d). set (fs_depends_on s) \<subseteq> set (dag_ids d)"
      by (simp only: check_missing_Inr)
    from validate_search [OF seen(2) this] e dup Inr show ?thesis
      by (elim disjE exE conjE) (auto simp: validate_def)
  qed
qed

text \<open>
  C1. \<open>DAG.validate\<close> accepts exactly the well-formed graphs: it returns if and only if the step ids
  are distinct, every dependency names a step, and the dependency relation has no cycle; in every
  other case it raises \<open>DAGValidationError\<close> (never a \<open>KeyError\<close>, and the search always ends).
\<close>

theorem validate_decides:
  "(validate d = Inr () \<longleftrightarrow> valid_dag d)
   \<and> ((\<exists>msg. validate d = Inl (DAGValidationError msg)) \<longleftrightarrow> \<not> valid_dag d)"
  using validate_valid [of d] validate_error [of d] by (cases "validate d") auto

section \<open>The topological order\<close>

definition topo_sorted :: "(string \<rightharpoonup> flow_step) \<Rightarrow> string list \<Rightarrow> bool" where
  "topo_sorted m xs \<longleftrightarrow> (\<forall>ys x y. prefix (ys @ [x]) xs \<longrightarrow> (x, y) \<in> edges m \<longrightarrow> y \<in> set ys)"

lemma topo_sorted_snoc:
  "topo_sorted m (xs @ [x]) \<longleftrightarrow> topo_sorted m xs \<and> (\<forall>y. (x, y) \<in> edges m \<longrightarrow> y \<in> set xs)"
  by (auto simp: topo_sorted_def)

definition topo_inv :: "(string \<rightharpoonup> flow_step) \<Rightarrow> string set \<times> string list \<Rightarrow> bool" where
  "topo_inv m st \<longleftrightarrow>
     fst st = set (snd st) \<and> distinct (snd st) \<and> set (snd st) \<subseteq> dom m \<and> topo_sorted m (snd st)"

text \<open>
  The nodes on the recursion stack are the set \<open>P\<close>: they reach the node being visited, so in a graph
  without cycles the node is not among them, and the depth is bounded by the number of nodes.
\<close>

lemma topo_total:
  assumes "closed_map m" and "finite (dom m)" and "acyclic (edges m)"
  shows "topo_inv m st \<Longrightarrow> x \<in> dom m \<Longrightarrow> P \<subseteq> dom m \<Longrightarrow> (\<forall>p \<in> P. (p, x) \<in> (edges m)\<^sup>+) \<Longrightarrow>
      card (dom m) \<le> card P + n \<Longrightarrow>
      \<exists>v xs. topo_visit n m x st = Inr (v, xs) \<and> topo_inv m (v, xs) \<and> insert x (fst st) \<subseteq> v
        \<and> v \<subseteq> fst st \<union> {z. (x, z) \<in> (edges m)\<^sup>*}"
    and "topo_inv m st \<Longrightarrow> set ds \<subseteq> dom m \<Longrightarrow> P \<subseteq> dom m \<Longrightarrow>
      (\<forall>y \<in> set ds. \<forall>p \<in> P. (p, y) \<in> (edges m)\<^sup>+) \<Longrightarrow> card (dom m) \<le> card P + n \<Longrightarrow>
      \<exists>v xs. topo_deps n m ds st = Inr (v, xs) \<and> topo_inv m (v, xs) \<and> set ds \<union> fst st \<subseteq> v
        \<and> v \<subseteq> fst st \<union> {z. \<exists>y \<in> set ds. (y, z) \<in> (edges m)\<^sup>*}"
  using assms
proof (induction n m x st and n m ds st arbitrary: P and P rule: topo_visit_topo_deps.induct)
  case (1 m node st)
  have "node \<notin> P" using 1 by (auto simp: acyclic_def)
  then have "card P < card (dom m)" using 1 by (intro psubset_card_mono) auto
  with 1 show ?case by simp
next
  case (2 n m node st)
  show ?case
  proof (cases "node \<in> fst st")
    case True
    then show ?thesis using 2(2) by (cases st) auto
  next
    case False
    from 2(3) obtain s where s: "m node = Some s" by blast
    have new: "node \<notin> P" using 2(5,9) by (auto simp: acyclic_def)
    have edge: "(node, y) \<in> edges m \<longleftrightarrow> y \<in> set (fs_depends_on s)" for y
      using s by (auto simp: edges_def)
    have a: "set (fs_depends_on s) \<subseteq> dom m" using 2(7) s by (auto simp: closed_map_def)
    have b: "insert node P \<subseteq> dom m" using 2(3,4) by simp
    have c: "\<forall>y \<in> set (fs_depends_on s). \<forall>p \<in> insert node P. (p, y) \<in> (edges m)\<^sup>+"
    proof (intro ballI)
      fix y p assume y: "y \<in> set (fs_depends_on s)" and p: "p \<in> insert node P"
      from y have e: "(node, y) \<in> edges m" by (simp only: edge)
      show "(p, y) \<in> (edges m)\<^sup>+"
        using p 2(5) by (auto intro: r_into_trancl [OF e] trancl_into_trancl [OF _ e])
    qed
    have d: "card (dom m) \<le> card (insert node P) + n"
      using new 2(6) finite_subset [OF 2(4,8)] by simp
    obtain v xs where r: "topo_deps n m (fs_depends_on s) st = Inr (v, xs)" "topo_inv m (v, xs)"
        "set (fs_depends_on s) \<union> fst st \<subseteq> v"
        "v \<subseteq> fst st \<union> {z. \<exists>y \<in> set (fs_depends_on s). (y, z) \<in> (edges m)\<^sup>*}"
      using 2(1) [OF False s 2(2) a b c d 2(7,8,9)] by blast
    have "node \<notin> v"
    proof
      assume "node \<in> v"
      then obtain y where "(node, y) \<in> edges m" "(y, node) \<in> (edges m)\<^sup>*"
        using False r(4) edge by blast
      then have "(node, node) \<in> (edges m)\<^sup>+" by (rule rtrancl_into_trancl2)
      with 2(9) show False by (auto simp: acyclic_def)
    qed
    then have "topo_inv m (insert node v, xs @ [node])"
      using r(2,3) s edge by (auto simp: topo_inv_def topo_sorted_snoc)
    moreover have "v \<subseteq> fst st \<union> {z. (node, z) \<in> (edges m)\<^sup>*}"
      using r(4) edge by (auto intro: converse_rtrancl_into_rtrancl)
    ultimately show ?thesis using r False s by auto
  qed
next
  case (3 n m st)
  then show ?case by (cases st) auto
next
  case (4 n m dep deps st)
  obtain v xs where r: "topo_visit n m dep st = Inr (v, xs)" "topo_inv m (v, xs)"
      "insert dep (fst st) \<subseteq> v" "v \<subseteq> fst st \<union> {z. (dep, z) \<in> (edges m)\<^sup>*}"
    using 4(1) [OF 4(3) _ 4(5) _ 4(7,8,9,10)] 4(4,6) by auto
  obtain w ys where q: "topo_deps n m deps (v, xs) = Inr (w, ys)" "topo_inv m (w, ys)"
      "set deps \<union> v \<subseteq> w" "w \<subseteq> v \<union> {z. \<exists>y \<in> set deps. (y, z) \<in> (edges m)\<^sup>*}"
    using 4(2) [OF r(2) _ 4(5) _ 4(7,8,9,10)] 4(4,6) by auto
  have "set (dep # deps) \<union> fst st \<subseteq> w" using r(3) q(3) by auto
  moreover have "w \<subseteq> fst st \<union> {z. \<exists>y \<in> set (dep # deps). (y, z) \<in> (edges m)\<^sup>*}"
    using r(4) q(4) by auto
  ultimately show ?case using r(1) q(1,2) by simp
qed

lemma valid_dag_graph:
  assumes "valid_dag d"
  shows "closed_map (by_id d)" and "finite (dom (by_id d))" and "acyclic (edges (by_id d))"
    and "card (dom (by_id d)) \<le> length (dag_steps d)"
proof -
  show "closed_map (by_id d)" using assms by (auto simp: valid_dag_def closed_map_def by_id_iff dom_by_id)
  show "finite (dom (by_id d))" by (simp add: dom_by_id)
  show "acyclic (edges (by_id d))" using assms by (simp add: valid_dag_def edges_by_id)
  show "card (dom (by_id d)) \<le> length (dag_steps d)"
    unfolding dom_by_id dag_ids_def using card_length [of "map fs_id (dag_steps d)"] by simp
qed

text \<open>
  On a well-formed graph \<open>topological_order\<close> returns, and what it returns is an order of exactly
  the steps, each one once, with every step after all of its dependencies.
\<close>

theorem topological_order_sound:
  assumes "valid_dag d"
  shows "\<exists>order. topological_order d = Inr order \<and> distinct order \<and> set order = set (dag_ids d)
    \<and> (\<forall>xs x s dep. prefix (xs @ [x]) order \<longrightarrow> s \<in> set (dag_steps d) \<longrightarrow> fs_id s = x \<longrightarrow>
         dep \<in> set (fs_depends_on s) \<longrightarrow> dep \<in> set xs)"
proof -
  note g = valid_dag_graph [OF assms]
  have dist: "distinct (dag_ids d)" using assms by (simp add: valid_dag_def)
  have "topo_inv (by_id d) ({}, [])" by (simp add: topo_inv_def topo_sorted_def)
  from topo_total(2) [OF g(1-3) this, of "dag_ids d" "{}" "Suc (length (dag_steps d))"] g(4)
  obtain v xs where r: "topo_deps (Suc (length (dag_steps d))) (by_id d) (dag_ids d) ({}, []) = Inr (v, xs)"
      "topo_inv (by_id d) (v, xs)" "set (dag_ids d) \<subseteq> v"
    by (auto simp: dom_by_id)
  have "topological_order d = Inr xs"
    using r(1) validate_valid [of d] assms by (simp add: topological_order_def dag_ids_def)
  moreover have "set xs = set (dag_ids d)" using r(2,3) by (auto simp: topo_inv_def dom_by_id)
  moreover have "dep \<in> set ys"
    if "prefix (ys @ [x]) xs" "s \<in> set (dag_steps d)" "fs_id s = x" "dep \<in> set (fs_depends_on s)"
    for ys x s dep
  proof -
    have "(x, dep) \<in> edges (by_id d)" using that dist by (auto simp: edges_by_id dep_edges_def)
    with that(1) r(2) show ?thesis by (auto simp: topo_inv_def topo_sorted_def)
  qed
  ultimately show ?thesis using r(2) by (auto simp: topo_inv_def)
qed

section \<open>Ready steps, payloads, mutations\<close>

lemma ready_steps_iff:
  "x \<in> set (ready_steps d c) \<longleftrightarrow>
     (\<exists>s \<in> set (dag_steps d). fs_id s = x \<and> x \<notin> c \<and> set (fs_depends_on s) \<subseteq> c)"
  by (auto simp: ready_steps_def)

lemma ready_steps_subset: "set (ready_steps d c) \<subseteq> set (dag_ids d) - c"
  by (auto simp: ready_steps_def dag_ids_def)

lemma ready_steps_exists:
  assumes "valid_dag d" and "\<not> set (dag_ids d) \<subseteq> completed"
  shows "ready_steps d completed \<noteq> []"
proof -
  have acyc: "acyclic (dep_edges d)" and dist: "distinct (dag_ids d)"
    and closed: "\<forall>s \<in> set (dag_steps d). set (fs_depends_on s) \<subseteq> set (dag_ids d)"
    using assms(1) by (simp_all add: valid_dag_def)
  have "dep_edges d \<subseteq> set (dag_ids d) \<times> set (dag_ids d)"
    using closed by (auto simp: dep_edges_def dag_ids_def)
  then have "finite (dep_edges d)" by (rule finite_subset) simp
  then have wf: "wf ((dep_edges d)\<inverse>)" using acyc by (simp add: finite_acyclic_wf_converse)
  let ?todo = "set (dag_ids d) - completed"
  from assms(2) obtain x where "x \<in> ?todo" by blast
  then obtain z where z: "z \<in> ?todo" "\<And>y. (y, z) \<in> (dep_edges d)\<inverse> \<Longrightarrow> y \<notin> ?todo"
    using wfE_min [OF wf, of x ?todo] by blast
  then obtain s where s: "s \<in> set (dag_steps d)" "fs_id s = z" by (auto simp: dag_ids_def)
  have "set (fs_depends_on s) \<subseteq> completed"
  proof
    fix y assume y: "y \<in> set (fs_depends_on s)"
    then have "(y, z) \<in> (dep_edges d)\<inverse>" using s by (auto simp: dep_edges_def)
    then have "y \<notin> ?todo" by (rule z(2))
    moreover have "y \<in> set (dag_ids d)" using y s closed by blast
    ultimately show "y \<in> completed" by blast
  qed
  then have "z \<in> set (ready_steps d completed)" using s z(1) by (auto simp: ready_steps_iff)
  then show ?thesis by auto
qed

text \<open>
  No deadlock in a well-formed graph: as long as a step is not completed, some step is ready,
  so a scheduler that runs what \<open>ready_steps\<close> returns always has something to run.
\<close>

theorem ready_steps_progress:
  assumes "valid_dag d" and "\<not> set (dag_ids d) \<subseteq> completed"
  shows "ready_steps d completed \<noteq> []"
  using assms by (rule ready_steps_exists)

lemma map_res_as_str: "map_res as_str (map JStr xs) = Inr xs"
  by (induction xs) auto

lemma step_of_payload: "bind_res (as_obj (step_payload s)) (step_of Inr) = Inr s"
  by (simp add: step_payload_def step_of_def getitem_def dget_or_def as_str_list_def map_res_as_str)

text \<open>
  Round trip: reading back the payload a graph is published as gives the same graph, for every
  well-formed graph (any tool and argument values included).
\<close>

theorem payload_roundtrip:
  assumes "valid_dag d"
  shows "from_payload (to_payload d) = Inr d"
proof -
  have "map_res (\<lambda>j. bind_res (as_obj j) (step_of Inr)) (map step_payload xs) = Inr xs" for xs
    by (induction xs) (simp_all add: step_of_payload del: as_obj.simps)
  moreover have "validate d = Inr ()" using assms validate_valid by blast
  ultimately show ?thesis by (cases d) (simp add: from_payload_def to_payload_def)
qed

lemma step_of_id: "step_of conv m = Inr s \<Longrightarrow> dget m ''id'' = Some (JStr (fs_id s))"
  by (auto simp: step_of_def bind_res_eq_Inr getitem_def split: option.splits elim!: as_str.elims)

lemma index_by_id_Some: "index_by_id ss x = Some i \<Longrightarrow> i < length ss \<and> fs_id (ss ! i) = x"
  by (auto simp: index_by_id_def set_zip dest!: map_of_SomeD)

definition modified_ids :: "dag_mutation \<Rightarrow> string set" where
  "modified_ids m = {x. \<exists>ps. JObj ps \<in> set (mut_modified m) \<and> dget ps ''id'' = Some (JStr x)}"

lemma apply_modified_ids:
  assumes "apply_modified idx js ss = Inr ss'"
    and "\<And>x i. idx x = Some i \<Longrightarrow> i < length ss \<and> fs_id (ss ! i) = x"
  shows "map fs_id ss' = map fs_id ss \<and>
    (\<forall>s \<in> set ss. (\<forall>ps. JObj ps \<in> set js \<longrightarrow> dget ps ''id'' \<noteq> Some (JStr (fs_id s))) \<longrightarrow> s \<in> set ss')"
  using assms
proof (induction js arbitrary: ss)
  case Nil
  then show ?case by simp
next
  case (Cons j js)
  then obtain ps x i s where j: "j = JObj ps" "dget ps ''id'' = Some (JStr x)" "idx x = Some i"
      "step_of py_dict ps = Inr s" "apply_modified idx js (ss[i := s]) = Inr ss'"
    by (auto simp: bind_res_eq_Inr getitem_def elim!: as_obj.elims as_str.elims split: option.splits)
  have x: "fs_id s = x" using step_of_id [OF j(4)] j(2) by simp
  have i: "i < length ss" "fs_id (ss ! i) = x" using Cons.prems(2) [OF j(3)] by auto
  have ids: "map fs_id (ss[i := s]) = map fs_id ss"
    using i x by (simp add: map_update) (metis i(1) list_update_id length_map nth_map)
  have "idx y = Some k \<Longrightarrow> k < length (ss[i := s]) \<and> fs_id (ss[i := s] ! k) = y" for y k
    using Cons.prems(2) [of y k] x i by (auto simp: nth_list_update)
  note IH = Cons.IH [OF j(5) this]
  have "t \<in> set (ss[i := s])" if "t \<in> set ss" "fs_id t \<noteq> x" for t
    using that i by (metis in_set_conv_nth length_list_update nth_list_update_neq)
  then show ?case using IH ids j by auto
qed

text \<open>
  A mutation that is accepted yields a well-formed graph whose steps are the old ones without the
  removed ones, in order, followed by the added ones; a step that is neither removed nor modified is
  carried over unchanged.
\<close>

theorem apply_mutation_sound:
  assumes "apply_mutation d m = Inr d'"
  shows "valid_dag d' \<and>
    (\<exists>added. map_res (\<lambda>j. bind_res (as_obj j) (step_of py_dict)) (mut_added m) = Inr added \<and>
       dag_ids d' = filter (\<lambda>x. x \<notin> set (mut_removed m)) (dag_ids d) @ map fs_id added) \<and>
    (\<forall>s \<in> set (dag_steps d). fs_id s \<notin> set (mut_removed m) \<and> fs_id s \<notin> modified_ids m \<longrightarrow>
       s \<in> set (dag_steps d'))"
proof -
  let ?kept = "filter (\<lambda>s. fs_id s \<notin> set (mut_removed m)) (dag_steps d)"
  from assms obtain ss added where
      ss: "apply_modified (index_by_id ?kept) (mut_modified m) ?kept = Inr ss"
      and added: "map_res (\<lambda>j. bind_res (as_obj j) (step_of py_dict)) (mut_added m) = Inr added"
      and val: "validate d' = Inr ()" and d': "d' = \<lparr>dag_steps = ss @ added\<rparr>"
    by (auto simp: apply_mutation_def Let_def bind_res_eq_Inr)
  note mod = apply_modified_ids [OF ss index_by_id_Some]
  have "map fs_id ?kept = filter (\<lambda>x. x \<notin> set (mut_removed m)) (dag_ids d)"
    by (simp add: dag_ids_def filter_map o_def)
  then have "dag_ids d' = filter (\<lambda>x. x \<notin> set (mut_removed m)) (dag_ids d) @ map fs_id added"
    using mod by (simp add: d' dag_ids_def)
  moreover have "valid_dag d'" using val validate_valid by blast
  moreover have "s \<in> set (dag_steps d')"
    if "s \<in> set (dag_steps d)" "fs_id s \<notin> set (mut_removed m)" "fs_id s \<notin> modified_ids m" for s
    using that mod by (auto simp: d' modified_ids_def)
  ultimately show ?thesis using added by blast
qed

section \<open>The theorems at a concrete graph\<close>

definition demo_step :: "string \<Rightarrow> string list \<Rightarrow> flow_step" where
  "demo_step x deps = \<lparr>fs_id = x, fs_title = ''Step'', fs_tool = JStr ''shell_exec'', fs_args = JObj [],
     fs_depends_on = deps, fs_timeout_seconds = 300, fs_max_attempts = 3\<rparr>"

definition demo_dag :: dag where
  "demo_dag = \<lparr>dag_steps = [demo_step ''b'' [''a''], demo_step ''a'' [], demo_step ''c'' [''a'', ''b'']]\<rparr>"

definition demo_mutation :: dag_mutation where
  "demo_mutation = \<lparr>mut_added = [JObj [(''id'', JStr ''d''), (''title'', JStr ''D''),
       (''depends_on'', JList [JStr ''b''])]],
     mut_removed = [''c''],
     mut_modified = [JObj [(''id'', JStr ''b''), (''title'', JStr ''B''), (''timeout_seconds'', JStr '' 60 '')]]\<rparr>"

lemma demo_validates: "validate demo_dag = Inr ()"
  by code_simp

lemma demo_valid: "valid_dag demo_dag"
  using demo_validates validate_valid by blast

theorem topological_order_sound_witness:
  "topological_order demo_dag = Inr [''a'', ''b'', ''c''] \<and> set [''a'', ''b'', ''c''] = set (dag_ids demo_dag)"
proof -
  have "topological_order demo_dag = Inr [''a'', ''b'', ''c'']" by code_simp
  with topological_order_sound [OF demo_valid] show ?thesis by auto
qed

theorem ready_steps_progress_witness:
  "\<not> set (dag_ids demo_dag) \<subseteq> {''a''} \<and> ready_steps demo_dag {''a''} \<noteq> []"
proof -
  have "\<not> set (dag_ids demo_dag) \<subseteq> {''a''}" by code_simp
  with ready_steps_progress [OF demo_valid this] show ?thesis by blast
qed

theorem payload_roundtrip_witness: "from_payload (to_payload demo_dag) = Inr demo_dag"
  by (rule payload_roundtrip [OF demo_valid])

lemma demo_mutation_accepted: "\<exists>d'. apply_mutation demo_dag demo_mutation = Inr d'
    \<and> dag_ids d' = [''b'', ''a'', ''d'']"
proof -
  have "(case apply_mutation demo_dag demo_mutation of Inl e \<Rightarrow> False
      | Inr d' \<Rightarrow> dag_ids d' = [''b'', ''a'', ''d''])" by code_simp
  then show ?thesis by (auto split: sum.splits)
qed

theorem apply_mutation_sound_witness:
  "\<exists>d'. apply_mutation demo_dag demo_mutation = Inr d' \<and> valid_dag d' \<and> dag_ids d' = [''b'', ''a'', ''d'']"
  using demo_mutation_accepted apply_mutation_sound by blast

end
