(* ===== verification/Flow_Store.thy ===== *)
theory Flow_Store
  imports Flow_Dag
begin

text \<open>
  The event types of the durable task flow (\<open>src/src/breadmind/flow/events.py\<close>) and the event store
  (\<open>flow/store.py\<close>) over the three tables of \<open>storage/migrations/versions/002_flow_events.py\<close>.

  A transaction is a function to \<open>exn + store\<close>: an exception rolls it back, so there is no new store.
  The per-flow advisory lock makes appends to one flow sequential; the model runs one append at a time.
  A \<open>TypeError\<close> of the model stands for the driver's refusal of a value of the wrong type, the foreign
  key of \<open>flow_steps\<close> is the \<open>ForeignKeyViolationError\<close>. The \<open>isoformat\<close>/\<open>fromisoformat\<close> hop of a
  replayed row's time stamp is the identity and is left out.
\<close>

section \<open>Events\<close>

datatype event_type =
    FLOW_CREATED | DAG_PROPOSED | DAG_MUTATED | DAG_MUTATION_REJECTED | STEP_QUEUED | STEP_STARTED
  | STEP_PROGRESS | STEP_COMPLETED | STEP_FAILED | RECOVERY_ATTEMPTED | ESCALATION_RAISED
  | USER_INTERVENTION | FLOW_PAUSED | FLOW_RESUMED | FLOW_CANCELLED | FLOW_COMPLETED | FLOW_FAILED

datatype flow_actor = AGENT | WORKER | USER | SCHEDULER | RECOVERY | ENGINE

fun event_type_value :: "event_type \<Rightarrow> string" where
  "event_type_value FLOW_CREATED = ''flow_created''"
| "event_type_value DAG_PROPOSED = ''dag_proposed''"
| "event_type_value DAG_MUTATED = ''dag_mutated''"
| "event_type_value DAG_MUTATION_REJECTED = ''dag_mutation_rejected''"
| "event_type_value STEP_QUEUED = ''step_queued''"
| "event_type_value STEP_STARTED = ''step_started''"
| "event_type_value STEP_PROGRESS = ''step_progress''"
| "event_type_value STEP_COMPLETED = ''step_completed''"
| "event_type_value STEP_FAILED = ''step_failed''"
| "event_type_value RECOVERY_ATTEMPTED = ''recovery_attempted''"
| "event_type_value ESCALATION_RAISED = ''escalation_raised''"
| "event_type_value USER_INTERVENTION = ''user_intervention''"
| "event_type_value FLOW_PAUSED = ''flow_paused''"
| "event_type_value FLOW_RESUMED = ''flow_resumed''"
| "event_type_value FLOW_CANCELLED = ''flow_cancelled''"
| "event_type_value FLOW_COMPLETED = ''flow_completed''"
| "event_type_value FLOW_FAILED = ''flow_failed''"

type_synonym uuid = string

record flow_event =
  ev_flow_id :: uuid
  ev_seq :: int
  ev_type :: event_type
  ev_payload :: json_obj
  ev_actor :: flow_actor
  ev_created_at :: int
  ev_schema_version :: int

section \<open>Tables\<close>

record flow_row =
  fr_title :: string
  fr_description :: string
  fr_user_id :: string
  fr_status :: string
  fr_origin :: string
  fr_updated_at :: int
  fr_last_event_seq :: int
  fr_summary :: "json option"

record step_row =
  sr_title :: string
  sr_tool :: "string option"
  sr_args :: json
  sr_depends_on :: "string list"
  sr_status :: string
  sr_attempt :: int
  sr_started_at :: "int option"
  sr_completed_at :: "int option"
  sr_result :: "json option"
  sr_error :: "string option"

record store =
  st_events :: "flow_event list"
  st_flows :: "(uuid, flow_row) dict"
  st_steps :: "(uuid \<times> string, step_row) dict"

definition empty_store :: store where
  "empty_store = \<lparr>st_events = [], st_flows = [], st_steps = []\<rparr>"

text \<open>\<open>UPDATE ... WHERE\<close> on a primary key: no row, no change.\<close>

definition update_flow :: "uuid \<Rightarrow> (flow_row \<Rightarrow> flow_row) \<Rightarrow> store \<Rightarrow> store" where
  "update_flow f g st =
     (case dget (st_flows st) f of
        None \<Rightarrow> st
      | Some r \<Rightarrow> st\<lparr>st_flows := dset f (g r) (st_flows st)\<rparr>)"

definition update_step :: "uuid \<times> string \<Rightarrow> (step_row \<Rightarrow> step_row) \<Rightarrow> store \<Rightarrow> store" where
  "update_step k g st =
     (case dget (st_steps st) k of
        None \<Rightarrow> st
      | Some r \<Rightarrow> st\<lparr>st_steps := dset k (g r) (st_steps st)\<rparr>)"

fun as_opt_str :: "json \<Rightarrow> exn + string option" where
  "as_opt_str JNull = Inr None"
| "as_opt_str (JStr s) = Inr (Some s)"
| "as_opt_str _ = Inl (TypeError ''expected str or None'')"

definition str_item :: "json_obj \<Rightarrow> string \<Rightarrow> exn + string" where
  "str_item d k = bind_res (getitem d k) as_str"

definition str_get :: "json_obj \<Rightarrow> string \<Rightarrow> string \<Rightarrow> exn + string" where
  "str_get d k v = as_str (dget_or d k (JStr v))"

section \<open>Projection\<close>

definition touch_flow :: "int \<Rightarrow> flow_event \<Rightarrow> store \<Rightarrow> store" where
  "touch_flow now e =
     update_flow (ev_flow_id e) (\<lambda>r. r\<lparr>fr_updated_at := now, fr_last_event_seq := ev_seq e\<rparr>)"

definition set_flow_status :: "string \<Rightarrow> int \<Rightarrow> flow_event \<Rightarrow> store \<Rightarrow> store" where
  "set_flow_status status now e =
     update_flow (ev_flow_id e)
       (\<lambda>r. r\<lparr>fr_status := status, fr_updated_at := now, fr_last_event_seq := ev_seq e\<rparr>)"

definition insert_step :: "uuid \<Rightarrow> json_obj \<Rightarrow> store \<Rightarrow> exn + store" where
  "insert_step f step st =
     bind_res (str_item step ''id'') (\<lambda>sid.
     bind_res (str_item step ''title'') (\<lambda>title.
     bind_res (as_opt_str (dget_or step ''tool'' JNull)) (\<lambda>tool.
     bind_res (as_str_list (dget_or step ''depends_on'' (JList []))) (\<lambda>deps.
       case dget (st_steps st) (f, sid) of
         Some _ \<Rightarrow> Inr st
       | None \<Rightarrow>
           if dget (st_flows st) f = None
           then Inl (OtherError ''ForeignKeyViolationError'' ''flow_steps_flow_id_fkey'')
           else Inr (st\<lparr>st_steps := dset (f, sid)
               \<lparr>sr_title = title, sr_tool = tool, sr_args = dget_or step ''args'' (JObj []),
                sr_depends_on = deps, sr_status = ''pending'', sr_attempt = 0, sr_started_at = None,
                sr_completed_at = None, sr_result = None, sr_error = None\<rparr> (st_steps st)\<rparr>)))))"

fun insert_steps :: "uuid \<Rightarrow> json list \<Rightarrow> store \<Rightarrow> exn + store" where
  "insert_steps f [] st = Inr st"
| "insert_steps f (j # js) st =
     bind_res (as_obj j) (\<lambda>step. bind_res (insert_step f step st) (insert_steps f js))"

definition insert_flow :: "int \<Rightarrow> flow_event \<Rightarrow> store \<Rightarrow> exn + store" where
  "insert_flow now e st =
     (let p = ev_payload e in
      bind_res (str_item p ''title'') (\<lambda>title.
      bind_res (str_get p ''description'' '''') (\<lambda>descr.
      bind_res (str_item p ''user_id'') (\<lambda>user.
      bind_res (str_get p ''origin'' ''chat'') (\<lambda>origin.
        case dget (st_flows st) (ev_flow_id e) of
          Some _ \<Rightarrow> Inr st
        | None \<Rightarrow> Inr (st\<lparr>st_flows := dset (ev_flow_id e)
            \<lparr>fr_title = title, fr_description = descr, fr_user_id = user, fr_status = ''pending'',
             fr_origin = origin, fr_updated_at = now, fr_last_event_seq = ev_seq e,
             fr_summary = None\<rparr> (st_flows st)\<rparr>))))))"

definition apply_projection :: "int \<Rightarrow> flow_event \<Rightarrow> store \<Rightarrow> exn + store" where
  "apply_projection now e st =
     (let p = ev_payload e; f = ev_flow_id e in
      case ev_type e of
        FLOW_CREATED \<Rightarrow> insert_flow now e st
      | DAG_PROPOSED \<Rightarrow>
          bind_res (as_list (dget_or p ''steps'' (JList []))) (\<lambda>steps.
          bind_res (insert_steps f steps st) (\<lambda>st'. Inr (touch_flow now e st')))
      | STEP_QUEUED \<Rightarrow>
          bind_res (str_item p ''step_id'') (\<lambda>sid.
            Inr (touch_flow now e (update_step (f, sid) (\<lambda>r. r\<lparr>sr_status := ''queued''\<rparr>) st)))
      | STEP_STARTED \<Rightarrow>
          bind_res (str_item p ''step_id'') (\<lambda>sid.
            Inr (set_flow_status ''running'' now e
              (update_step (f, sid) (\<lambda>r. r\<lparr>sr_status := ''running'', sr_started_at := Some now,
                 sr_attempt := sr_attempt r + 1\<rparr>) st)))
      | STEP_COMPLETED \<Rightarrow>
          bind_res (str_item p ''step_id'') (\<lambda>sid.
            Inr (touch_flow now e
              (update_step (f, sid) (\<lambda>r. r\<lparr>sr_status := ''completed'', sr_completed_at := Some now,
                 sr_result := Some (dget_or p ''result'' JNull)\<rparr>) st)))
      | STEP_FAILED \<Rightarrow>
          bind_res (str_item p ''step_id'') (\<lambda>sid.
          bind_res (str_get p ''error'' '''') (\<lambda>err.
            Inr (touch_flow now e
              (update_step (f, sid) (\<lambda>r. r\<lparr>sr_status := ''failed'', sr_completed_at := Some now,
                 sr_error := Some err\<rparr>) st))))
      | FLOW_COMPLETED \<Rightarrow>
          Inr (update_flow f (\<lambda>r. r\<lparr>fr_status := ''completed'', fr_updated_at := now,
            fr_last_event_seq := ev_seq e, fr_summary := Some (dget_or p ''summary'' (JObj []))\<rparr>) st)
      | FLOW_FAILED \<Rightarrow> Inr (set_flow_status ''failed'' now e st)
      | FLOW_PAUSED \<Rightarrow> Inr (set_flow_status ''paused'' now e st)
      | FLOW_RESUMED \<Rightarrow> Inr (set_flow_status ''running'' now e st)
      | FLOW_CANCELLED \<Rightarrow> Inr (set_flow_status ''cancelled'' now e st)
      | ESCALATION_RAISED \<Rightarrow> Inr (set_flow_status ''escalated'' now e st)
      | _ \<Rightarrow> Inr (touch_flow now e st))"

section \<open>Append and replay\<close>

definition flow_log :: "store \<Rightarrow> uuid \<Rightarrow> flow_event list" where
  "flow_log st f = filter (\<lambda>e. ev_flow_id e = f) (st_events st)"

definition max_seq :: "store \<Rightarrow> uuid \<Rightarrow> int" where
  "max_seq st f = (case map ev_seq (flow_log st f) of [] \<Rightarrow> 0 | x # xs \<Rightarrow> fold max xs x)"

definition store_append :: "int \<Rightarrow> flow_event \<Rightarrow> store \<Rightarrow> exn + (store \<times> flow_event)" where
  "store_append now e st =
     (let e' = e\<lparr>ev_seq := max_seq st (ev_flow_id e) + 1\<rparr> in
      bind_res (apply_projection now e' (st\<lparr>st_events := st_events st @ [e']\<rparr>))
        (\<lambda>st'. Inr (st', e')))"

definition store_replay :: "store \<Rightarrow> uuid \<Rightarrow> int \<Rightarrow> flow_event list" where
  "store_replay st f from_seq = sort_key ev_seq (filter (\<lambda>e. from_seq < ev_seq e) (flow_log st f))"

section \<open>The log\<close>

lemma update_flow_events [simp]: "st_events (update_flow f g st) = st_events st"
  by (simp add: update_flow_def split: option.splits)

lemma update_step_events [simp]: "st_events (update_step k g st) = st_events st"
  by (simp add: update_step_def split: option.splits)

lemma touch_flow_events [simp]: "st_events (touch_flow now e st) = st_events st"
  by (simp add: touch_flow_def)

lemma set_flow_status_events [simp]: "st_events (set_flow_status s now e st) = st_events st"
  by (simp add: set_flow_status_def)

lemma insert_step_events: "insert_step f step st = Inr st' \<Longrightarrow> st_events st' = st_events st"
  by (auto simp: insert_step_def bind_res_eq_Inr split: option.splits if_splits)

lemma insert_steps_events: "insert_steps f js st = Inr st' \<Longrightarrow> st_events st' = st_events st"
  by (induction js arbitrary: st) (auto simp: bind_res_eq_Inr dest: insert_step_events)

lemma apply_projection_events: "apply_projection now e st = Inr st' \<Longrightarrow> st_events st' = st_events st"
  by (auto simp: apply_projection_def insert_flow_def Let_def bind_res_eq_Inr
      split: event_type.splits option.splits dest: insert_steps_events)

lemma store_append_log:
  assumes "store_append now e st = Inr (st', e')"
  shows "st_events st' = st_events st @ [e']" and "e' = e\<lparr>ev_seq := max_seq st (ev_flow_id e) + 1\<rparr>"
    and "flow_log st' f = (if ev_flow_id e = f then flow_log st f @ [e'] else flow_log st f)"
  using assms by (auto simp: store_append_def Let_def bind_res_eq_Inr flow_log_def dest!: apply_projection_events)

text \<open>The numbers of a flow's events are 1, 2, 3, and so on, in the order they were appended.\<close>

definition seq_ok :: "store \<Rightarrow> bool" where
  "seq_ok st \<longleftrightarrow> (\<forall>f. map ev_seq (flow_log st f) = map (\<lambda>i. int i + 1) [0..<length (flow_log st f)])"

lemma max_seq_ok:
  assumes "seq_ok st"
  shows "max_seq st f = int (length (flow_log st f))"
proof -
  have fm: "fold max (map (\<lambda>i. int i + 1) [Suc 0..<Suc n]) 1 = int n + 1" for n
    by (induction n) auto
  show ?thesis
  proof (cases "length (flow_log st f)")
    case 0
    then show ?thesis by (simp add: max_seq_def)
  next
    case (Suc n)
    have "map ev_seq (flow_log st f) = map (\<lambda>i. int i + 1) [0..<Suc n]"
      using assms Suc unfolding seq_ok_def by metis
    also have "\<dots> = 1 # map (\<lambda>i. int i + 1) [Suc 0..<Suc n]"
      by (subst upt_rec) simp
    finally show ?thesis using fm [of n] Suc by (simp only: max_seq_def list.case)
  qed
qed

lemma seq_ok_append:
  assumes ok: "seq_ok st" and app: "store_append now e st = Inr (st', e')"
  shows "seq_ok st'"
  unfolding seq_ok_def
proof
  fix f
  have old: "map ev_seq (flow_log st f) = map (\<lambda>i. int i + 1) [0..<length (flow_log st f)]"
    using ok unfolding seq_ok_def by blast
  have e': "ev_seq e' = int (length (flow_log st (ev_flow_id e))) + 1"
    by (simp add: store_append_log(2) [OF app] max_seq_ok [OF ok])
  show "map ev_seq (flow_log st' f) = map (\<lambda>i. int i + 1) [0..<length (flow_log st' f)]"
    using old e' by (auto simp: store_append_log(3) [OF app])
qed

text \<open>
  What a client of the log relies on: a successful append puts the event at the end of its own
  flow's log, with the next number, and leaves the other logs alone.
\<close>

locale event_log =
  fixes add :: "'e \<Rightarrow> 's \<Rightarrow> exn + ('s \<times> 'e)" and log_of :: "'s \<Rightarrow> 'k \<Rightarrow> 'e list"
    and key :: "'e \<Rightarrow> 'k" and num :: "'e \<Rightarrow> int" and good :: "'s \<Rightarrow> bool"
  assumes log_add: "add e s = Inr (s', e') \<Longrightarrow>
      log_of s' k = (if key e = k then log_of s k @ [e'] else log_of s k)"
    and num_add: "good s \<Longrightarrow> add e s = Inr (s', e') \<Longrightarrow> num e' = int (length (log_of s (key e))) + 1"
    and good_add: "good s \<Longrightarrow> add e s = Inr (s', e') \<Longrightarrow> good s'"
begin

definition add_or_skip :: "'e \<Rightarrow> 's \<Rightarrow> 's" where
  "add_or_skip e s = (case add e s of Inl _ \<Rightarrow> s | Inr (s', _) \<Rightarrow> s')"

lemma good_run: "good s \<Longrightarrow> good (fold add_or_skip es s)"
  by (induction es arbitrary: s) (auto simp: add_or_skip_def good_add split: sum.splits)

lemma log_grows: "prefix (log_of s k) (log_of (fold add_or_skip es s) k)"
proof (induction es arbitrary: s)
  case (Cons e es)
  have "prefix (log_of s k) (log_of (add_or_skip e s) k)"
    by (auto simp: add_or_skip_def log_add split: sum.splits)
  then show ?case using Cons.IH [of "add_or_skip e s"] by (auto intro: prefix_order.trans)
qed simp

end

interpretation flow_store_log:
  event_log "store_append now" flow_log ev_flow_id ev_seq seq_ok for now
proof unfold_locales
  fix e s s' e' k assume a: "store_append now e s = Inr (s', e')"
  show "flow_log s' k = (if ev_flow_id e = k then flow_log s k @ [e'] else flow_log s k)"
    by (rule store_append_log(3) [OF a])
  assume ok: "seq_ok s"
  show "ev_seq e' = int (length (flow_log s (ev_flow_id e))) + 1"
    by (simp add: store_append_log(2) [OF a] max_seq_ok [OF ok])
  show "seq_ok s'" by (rule seq_ok_append [OF ok a])
qed

text \<open>Appends from any number of clients, each at its own time; a failed one changes nothing.\<close>

definition append_step :: "int \<times> flow_event \<Rightarrow> store \<Rightarrow> store" where
  "append_step x st = (case store_append (fst x) (snd x) st of Inl _ \<Rightarrow> st | Inr (st', _) \<Rightarrow> st')"

interpretation store_machine: machine append_step seq_ok
  by unfold_locales (auto simp: append_step_def seq_ok_append split: sum.splits)

lemma seq_ok_empty: "seq_ok empty_store"
  by (simp add: seq_ok_def empty_store_def flow_log_def)

text \<open>
  C2. The event log is gapless: whatever sequence of appends the store has served, to any flows, with
  any of them rolled back, the events of each flow carry the numbers 1, 2, 3, ... in append order.
\<close>

theorem event_log_gapless:
  "map ev_seq (flow_log (fold append_step xs empty_store) f) =
     map (\<lambda>i. int i + 1) [0..<length (flow_log (fold append_step xs empty_store) f)]"
  using store_machine.run_inv [OF seq_ok_empty, of xs] by (simp add: seq_ok_def)

lemma flow_log_sorted: "seq_ok st \<Longrightarrow> sorted (map ev_seq (flow_log st f))"
  by (simp add: seq_ok_def sorted_wrt_map)

lemma store_replay_filter:
  "seq_ok st \<Longrightarrow> store_replay st f k = filter (\<lambda>e. k < ev_seq e) (flow_log st f)"
  unfolding store_replay_def by (intro sort_key_id_if_sorted sorted_filter flow_log_sorted)

text \<open>
  Replay is faithful: after a successful append, replaying the flow from any earlier number gives
  what it gave before followed by the new event; replaying another flow is unaffected.
\<close>

theorem replay_after_append:
  assumes "seq_ok st" and "store_append now e st = Inr (st', e')" and "k \<le> int (length (flow_log st (ev_flow_id e)))"
  shows "store_replay st' (ev_flow_id e) k = store_replay st (ev_flow_id e) k @ [e']
    \<and> (\<forall>f. f \<noteq> ev_flow_id e \<longrightarrow> store_replay st' f k = store_replay st f k)"
proof -
  have ok': "seq_ok st'" by (rule seq_ok_append [OF assms(1,2)])
  have "k < ev_seq e'" using assms(3) by (simp add: store_append_log(2) [OF assms(2)] max_seq_ok [OF assms(1)])
  then show ?thesis
    by (simp add: store_replay_filter ok' assms(1) store_append_log(3) [OF assms(2)])
qed

definition demo_event :: "event_type \<Rightarrow> json_obj \<Rightarrow> flow_event" where
  "demo_event t p = \<lparr>ev_flow_id = ''f1'', ev_seq = 0, ev_type = t, ev_payload = p, ev_actor = AGENT,
     ev_created_at = 0, ev_schema_version = 1\<rparr>"

lemma demo_append: "\<exists>st' e'. store_append 5 (demo_event FLOW_CREATED
    [(''title'', JStr ''T''), (''user_id'', JStr ''u'')]) empty_store = Inr (st', e')"
  by (simp add: store_append_def apply_projection_def insert_flow_def demo_event_def empty_store_def
      str_item_def str_get_def getitem_def dget_or_def Let_def)

theorem replay_after_append_witness:
  "\<exists>st' e'. store_append 5 (demo_event FLOW_CREATED [(''title'', JStr ''T''), (''user_id'', JStr ''u'')])
       empty_store = Inr (st', e') \<and> store_replay st' ''f1'' 0 = store_replay empty_store ''f1'' 0 @ [e']"
proof -
  let ?e = "demo_event FLOW_CREATED [(''title'', JStr ''T''), (''user_id'', JStr ''u'')]"
  obtain st' e' where a: "store_append 5 ?e empty_store = Inr (st', e')" using demo_append by blast
  have "store_replay st' (ev_flow_id ?e) 0 = store_replay empty_store (ev_flow_id ?e) 0 @ [e']"
    using replay_after_append [OF seq_ok_empty a, of 0] by simp
  with a show ?thesis by (auto simp: demo_event_def)
qed

section \<open>The projection follows the log\<close>

text \<open>
  The abstract view of a flow's row: its status as a function of the events alone. \<open>FLOW_CREATED\<close>
  makes the row, a second one is ignored, and an event that carries a status sets it if there is a row.
\<close>

fun status_of_event :: "event_type \<Rightarrow> string option" where
  "status_of_event STEP_STARTED = Some ''running''"
| "status_of_event FLOW_RESUMED = Some ''running''"
| "status_of_event FLOW_COMPLETED = Some ''completed''"
| "status_of_event FLOW_FAILED = Some ''failed''"
| "status_of_event FLOW_PAUSED = Some ''paused''"
| "status_of_event FLOW_CANCELLED = Some ''cancelled''"
| "status_of_event ESCALATION_RAISED = Some ''escalated''"
| "status_of_event _ = None"

fun next_status :: "flow_event \<Rightarrow> string option \<Rightarrow> string option" where
  "next_status e None = (if ev_type e = FLOW_CREATED then Some ''pending'' else None)"
| "next_status e (Some s) = (case status_of_event (ev_type e) of None \<Rightarrow> Some s | Some t \<Rightarrow> Some t)"

definition row_status :: "store \<Rightarrow> uuid \<Rightarrow> string option" where
  "row_status st f = map_option fr_status (dget (st_flows st) f)"

lemma insert_step_flows: "insert_step f step st = Inr st' \<Longrightarrow> st_flows st' = st_flows st"
  by (auto simp: insert_step_def bind_res_eq_Inr split: option.splits if_splits)

lemma insert_steps_flows: "insert_steps f js st = Inr st' \<Longrightarrow> st_flows st' = st_flows st"
  by (induction js arbitrary: st) (auto simp: bind_res_eq_Inr dest: insert_step_flows)

lemma update_step_flows [simp]: "st_flows (update_step k g st) = st_flows st"
  by (simp add: update_step_def split: option.splits)

lemma update_flow_flows:
  "dget (st_flows (update_flow f g st)) h = (if h = f then map_option g (dget (st_flows st) f) else dget (st_flows st) h)"
  by (simp add: update_flow_def split: option.splits)

lemma apply_projection_status:
  assumes "apply_projection now e st = Inr st'"
  shows "row_status st' f =
    (if f = ev_flow_id e then next_status e (row_status st f) else row_status st f)"
  using assms
  by (cases "ev_type e"; cases "dget (st_flows st) (ev_flow_id e)")
    (auto simp: apply_projection_def insert_flow_def Let_def bind_res_eq_Inr row_status_def
      touch_flow_def set_flow_status_def update_flow_flows dest!: insert_steps_flows)

lemma next_status_seq [simp]: "next_status (e\<lparr>ev_seq := n\<rparr>) s = next_status e s"
  by (cases s) auto

lemma store_append_status:
  assumes "store_append now e st = Inr (st', e')"
  shows "row_status st' f =
    (if f = ev_flow_id e then next_status e' (row_status st f) else row_status st f)"
proof -
  let ?st = "st\<lparr>st_events := st_events st @ [e']\<rparr>"
  have "apply_projection now e' ?st = Inr st'"
    using assms by (auto simp: store_append_def Let_def bind_res_eq_Inr)
  from apply_projection_status [OF this, of f] store_append_log(2) [OF assms] show ?thesis
    by (simp add: row_status_def)
qed

definition status_inv :: "store \<Rightarrow> bool" where
  "status_inv st \<longleftrightarrow> (\<forall>f. row_status st f = fold next_status (flow_log st f) None)"

lemma status_inv_append: "status_inv st \<Longrightarrow> status_inv (append_step x st)"
  by (auto simp: status_inv_def append_step_def store_append_status store_append_log(3) split: sum.splits)

interpretation status_machine: machine append_step status_inv
  by unfold_locales (rule status_inv_append)

text \<open>
  C3. The \<open>flows\<close> projection implements the event-sourced specification: after any sequence of appends
  the status column of a flow is the fold of the abstract status over the flow's replayed log, so the
  row can be rebuilt from the log alone.
\<close>

theorem projection_refines_log:
  "row_status (fold append_step xs empty_store) f =
     fold next_status (store_replay (fold append_step xs empty_store) f 0) None"
proof -
  let ?st = "fold append_step xs empty_store"
  have "status_inv empty_store"
    by (simp add: status_inv_def empty_store_def row_status_def flow_log_def)
  then have "status_inv ?st" by (rule status_machine.run_inv)
  moreover have ok: "seq_ok ?st" by (rule store_machine.run_inv [OF seq_ok_empty])
  moreover have "filter (\<lambda>e. 0 < ev_seq e) (flow_log ?st f) = flow_log ?st f"
  proof (rule filter_True, rule ballI)
    fix e assume "e \<in> set (flow_log ?st f)"
    then have "ev_seq e \<in> set (map ev_seq (flow_log ?st f))" by simp
    then have "ev_seq e \<in> set (map (\<lambda>i. int i + 1) [0..<length (flow_log ?st f)])"
      using ok unfolding seq_ok_def by metis
    then show "0 < ev_seq e" by auto
  qed
  ultimately show ?thesis by (simp add: status_inv_def store_replay_filter)
qed

end
