(* ===== verification/Flow_Bus.thy ===== *)
theory Flow_Bus
  imports Flow_Store
begin

text \<open>
  The event bus, \<open>src/src/breadmind/flow/event_bus.py\<close>: publish stores the event, hands it to the local
  subscriptions whose filter matches, and sends it to Redis; the Redis listener hands every message it
  receives to the local subscriptions too.

  Redis is outside the sources: the messages sent are recorded in \<open>bus_sent\<close>, and which of them come
  back is up to the caller of \<open>redis_message\<close>. A failed send is swallowed by the code, so a sent
  message may also never arrive. A subscription that is dropped because its queue is full stays with
  the generator that reads it, in \<open>bus_dropped\<close>.
\<close>

record subscription =
  sub_flow_id :: "uuid option"
  sub_user_id :: "string option"
  sub_event_types :: "string set option"
  sub_queue :: "flow_event list"

record bus =
  bus_store :: store
  bus_subs :: "(string, subscription) dict"
  bus_dropped :: "(string, subscription) dict"
  bus_redis :: bool
  bus_sent :: "flow_event list"

definition queue_maxsize :: nat where
  "queue_maxsize = 1000"

definition matches :: "subscription \<Rightarrow> flow_event \<Rightarrow> bool" where
  "matches sub e =
     (if sub_flow_id sub \<noteq> None \<and> sub_flow_id sub \<noteq> Some (ev_flow_id e) then False
      else if (case sub_event_types sub of None \<Rightarrow> False
                 | Some ts \<Rightarrow> event_type_value (ev_type e) \<notin> ts) then False
      else (case sub_user_id sub of
              None \<Rightarrow> True
            | Some u \<Rightarrow>
                (case dget (ev_payload e) ''user_id'' of
                   None \<Rightarrow> True
                 | Some JNull \<Rightarrow> True
                 | Some v \<Rightarrow> v = JStr u)))"

text \<open>One pass over the subscriptions: the queues after it, and the ids whose queue was full.\<close>

fun dispatch_subs ::
  "flow_event \<Rightarrow> (string, subscription) dict \<Rightarrow> (string, subscription) dict \<times> string list"
where
  "dispatch_subs e [] = ([], [])"
| "dispatch_subs e ((sid, sub) # subs) =
     (let (rest, dead) = dispatch_subs e subs in
      if \<not> matches sub e then ((sid, sub) # rest, dead)
      else if length (sub_queue sub) < queue_maxsize
      then ((sid, sub\<lparr>sub_queue := sub_queue sub @ [e]\<rparr>) # rest, dead)
      else ((sid, sub) # rest, sid # dead))"

definition dispatch_local :: "flow_event \<Rightarrow> bus \<Rightarrow> bus" where
  "dispatch_local e b =
     (let (subs, dead) = dispatch_subs e (bus_subs b) in
      b\<lparr>bus_subs := filter (\<lambda>(sid, _). sid \<notin> set dead) subs,
        bus_dropped := fold (\<lambda>(sid, sub) acc. dset sid sub acc)
          (filter (\<lambda>(sid, _). sid \<in> set dead) subs) (bus_dropped b)\<rparr>)"

definition bus_publish :: "int \<Rightarrow> flow_event \<Rightarrow> bus \<Rightarrow> exn + (bus \<times> flow_event)" where
  "bus_publish now e b =
     bind_res (store_append now e (bus_store b)) (\<lambda>(st, stored).
       let b' = dispatch_local stored (b\<lparr>bus_store := st\<rparr>) in
       Inr (if bus_redis b then b'\<lparr>bus_sent := bus_sent b' @ [stored]\<rparr> else b', stored))"

definition subscribe ::
  "string \<Rightarrow> uuid option \<Rightarrow> string option \<Rightarrow> string set option \<Rightarrow> bus \<Rightarrow> bus"
where
  "subscribe sid fid uid types b =
     b\<lparr>bus_subs := dset sid \<lparr>sub_flow_id = fid, sub_user_id = uid, sub_event_types = types,
         sub_queue = []\<rparr> (bus_subs b),
       bus_dropped := dpop sid (bus_dropped b)\<rparr>"

text \<open>\<open>await sub.queue.get()\<close>: the next event of a subscriber, if there is one.\<close>

definition next_event :: "string \<Rightarrow> bus \<Rightarrow> (flow_event \<times> bus) option" where
  "next_event sid b =
     (case dget (bus_subs b) sid of
        Some sub \<Rightarrow>
          (case sub_queue sub of
             [] \<Rightarrow> None
           | e # es \<Rightarrow> Some (e, b\<lparr>bus_subs := dset sid (sub\<lparr>sub_queue := es\<rparr>) (bus_subs b)\<rparr>))
      | None \<Rightarrow>
          (case dget (bus_dropped b) sid of
             None \<Rightarrow> None
           | Some sub \<Rightarrow>
               (case sub_queue sub of
                  [] \<Rightarrow> None
                | e # es \<Rightarrow> Some (e, b\<lparr>bus_dropped := dset sid (sub\<lparr>sub_queue := es\<rparr>) (bus_dropped b)\<rparr>))))"

definition unsubscribe :: "string \<Rightarrow> bus \<Rightarrow> bus" where
  "unsubscribe sid b = b\<lparr>bus_subs := dpop sid (bus_subs b), bus_dropped := dpop sid (bus_dropped b)\<rparr>"

definition bus_replay :: "bus \<Rightarrow> uuid \<Rightarrow> int \<Rightarrow> flow_event list" where
  "bus_replay b f k = store_replay (bus_store b) f k"

text \<open>One message of the Redis listener that parses as an event.\<close>

definition redis_message :: "flow_event \<Rightarrow> bus \<Rightarrow> bus" where
  "redis_message e b = dispatch_local e b"

section \<open>Delivery\<close>

lemma matches_queue [simp]: "matches (sub\<lparr>sub_queue := q\<rparr>) e = matches sub e"
  by (cases sub) (simp only: matches_def subscription.select_convs subscription.update_convs)

definition queue_of :: "bus \<Rightarrow> string \<Rightarrow> flow_event list" where
  "queue_of b sid = (case dget (bus_subs b) sid of None \<Rightarrow> [] | Some sub \<Rightarrow> sub_queue sub)"

definition queues_ok :: "bus \<Rightarrow> bool" where
  "queues_ok b \<longleftrightarrow> distinct (dkeys (bus_subs b))
     \<and> (\<forall>sid sub. dget (bus_subs b) sid = Some sub \<longrightarrow> length (sub_queue sub) \<le> queue_maxsize)"

lemma dispatch_subs_keys: "dkeys (fst (dispatch_subs e subs)) = dkeys subs"
  by (induction subs) (auto simp: Let_def split: prod.splits if_splits)

lemma dispatch_subs_get:
  "distinct (dkeys subs) \<Longrightarrow>
   dget (fst (dispatch_subs e subs)) sid =
     map_option (\<lambda>sub. if matches sub e \<and> length (sub_queue sub) < queue_maxsize
        then sub\<lparr>sub_queue := sub_queue sub @ [e]\<rparr> else sub) (dget subs sid)"
  by (induction subs) (auto simp: Let_def split: prod.splits)

lemma dispatch_subs_dead:
  "distinct (dkeys subs) \<Longrightarrow>
   sid \<in> set (snd (dispatch_subs e subs)) \<longleftrightarrow>
     (\<exists>sub. dget subs sid = Some sub \<and> matches sub e \<and> queue_maxsize \<le> length (sub_queue sub))"
  by (induction subs) (auto simp: Let_def not_less image_iff split: prod.splits if_splits dest: map_of_SomeD)

text \<open>What one delivery does to each subscription.\<close>

lemma dispatch_local_get:
  assumes "distinct (dkeys (bus_subs b))"
  shows "dget (bus_subs (dispatch_local e b)) sid =
    (case dget (bus_subs b) sid of
       None \<Rightarrow> None
     | Some sub \<Rightarrow>
         if \<not> matches sub e then Some sub
         else if length (sub_queue sub) < queue_maxsize then Some (sub\<lparr>sub_queue := sub_queue sub @ [e]\<rparr>)
         else None)"
proof -
  obtain subs dead where d: "dispatch_subs e (bus_subs b) = (subs, dead)" by (cases "dispatch_subs e (bus_subs b)")
  have get: "dget subs sid = map_option (\<lambda>sub. if matches sub e \<and> length (sub_queue sub) < queue_maxsize
        then sub\<lparr>sub_queue := sub_queue sub @ [e]\<rparr> else sub) (dget (bus_subs b) sid)"
    using dispatch_subs_get [OF assms, of e sid] by (simp add: d)
  have "sid \<in> set dead \<longleftrightarrow>
     (\<exists>sub. dget (bus_subs b) sid = Some sub \<and> matches sub e \<and> queue_maxsize \<le> length (sub_queue sub))"
    using dispatch_subs_dead [OF assms, of sid e] by (simp add: d)
  then show ?thesis using get
    by (auto simp: dispatch_local_def d dget_filter_keys split: option.splits)
qed

lemma dispatch_local_store [simp]: "bus_store (dispatch_local e b) = bus_store b"
  "bus_redis (dispatch_local e b) = bus_redis b" "bus_sent (dispatch_local e b) = bus_sent b"
  by (simp_all add: dispatch_local_def split: prod.splits)

lemma dispatch_local_queues_ok:
  assumes "queues_ok b"
  shows "queues_ok (dispatch_local e b)"
proof -
  have "distinct (dkeys (bus_subs (dispatch_local e b)))"
    using assms dispatch_subs_keys [of e "bus_subs b"]
    by (auto simp: queues_ok_def dispatch_local_def distinct_map_filter split: prod.splits)
  moreover have "length (sub_queue sub) \<le> queue_maxsize"
    if "dget (bus_subs (dispatch_local e b)) sid = Some sub" for sid sub
    using that assms
    by (auto simp: queues_ok_def dispatch_local_get split: option.splits if_splits)
  ultimately show ?thesis by (simp add: queues_ok_def)
qed

lemma bus_publish_queues_ok: "queues_ok b \<Longrightarrow> bus_publish now e b = Inr (b', e') \<Longrightarrow> queues_ok b'"
proof -
  assume "queues_ok b" and p: "bus_publish now e b = Inr (b', e')"
  then have "queues_ok (dispatch_local e' (b\<lparr>bus_store := bus_store b'\<rparr>))"
    by (intro dispatch_local_queues_ok) (simp add: queues_ok_def)
  moreover have "bus_subs b' = bus_subs (dispatch_local e' (b\<lparr>bus_store := bus_store b'\<rparr>))"
    using p by (auto simp: bus_publish_def Let_def bind_res_eq_Inr split: if_splits)
  ultimately show "queues_ok b'" by (simp add: queues_ok_def)
qed

lemma bus_publish_subs:
  assumes "bus_publish now e b = Inr (b', e')"
  shows "bus_subs b' = bus_subs (dispatch_local e' b)" and "bus_redis b' = bus_redis b"
    and "store_append now e (bus_store b) = Inr (bus_store b', e')"
  using assms
  by (auto simp: bus_publish_def Let_def bind_res_eq_Inr dispatch_local_def split: if_splits prod.splits)

text \<open>
  Delivery: when publish returns, each subscription whose filter matches has the stored event at the
  end of its queue, in publication order, every other subscription is unchanged, and a matching
  subscription whose queue held 1000 events is removed from the bus (it loses this event and all later
  ones). No queue ever exceeds the bound.
\<close>

theorem publish_delivers:
  assumes "queues_ok b" and "bus_publish now e b = Inr (b', e')"
  shows "queues_ok b' \<and>
    (\<forall>sid sub. dget (bus_subs b) sid = Some sub \<longrightarrow>
       dget (bus_subs b') sid =
         (if \<not> matches sub e' then Some sub
          else if length (sub_queue sub) < 1000 then Some (sub\<lparr>sub_queue := sub_queue sub @ [e']\<rparr>)
          else None))"
proof -
  have "distinct (dkeys (bus_subs b))" using assms(1) by (simp add: queues_ok_def)
  then show ?thesis
    using bus_publish_queues_ok [OF assms] bus_publish_subs(1) [OF assms(2)]
    by (simp add: dispatch_local_get queue_maxsize_def)
qed

text \<open>
  With the Redis backplane each event is handled twice by the process that publishes it: the message
  that publish sent comes back to the process's own listener, which delivers it once more, because
  neither side remembers where an event came from.
\<close>

theorem redis_echo_delivers_twice:
  assumes "queues_ok b" and "bus_redis b" and "bus_publish now e b = Inr (b', e')"
    and "dget (bus_subs b) sid = Some sub" and "matches sub e'" and "length (sub_queue sub) < 999"
  shows "last (bus_sent b') = e' \<and> queue_of (redis_message (last (bus_sent b')) b') sid = sub_queue sub @ [e', e']"
proof -
  have sent: "last (bus_sent b') = e'"
    using assms(2,3) by (auto simp: bus_publish_def Let_def bind_res_eq_Inr)
  have d: "distinct (dkeys (bus_subs b'))"
    using bus_publish_queues_ok [OF assms(1,3)] by (simp add: queues_ok_def)
  have "dget (bus_subs b') sid = Some (sub\<lparr>sub_queue := sub_queue sub @ [e']\<rparr>)"
    using assms bus_publish_subs(1) [OF assms(3)]
    by (simp add: queues_ok_def dispatch_local_get queue_maxsize_def)
  moreover have "matches (sub\<lparr>sub_queue := sub_queue sub @ [e']\<rparr>) e'"
    using assms(5) by simp
  ultimately show ?thesis using assms(6) sent
    by (simp add: queue_of_def redis_message_def dispatch_local_get [OF d] queue_maxsize_def)
qed

definition demo_bus :: bus where
  "demo_bus = subscribe ''flow-engine'' None None None
     \<lparr>bus_store = empty_store, bus_subs = [], bus_dropped = [], bus_redis = True, bus_sent = []\<rparr>"

lemma demo_bus_ok: "queues_ok demo_bus"
  by (simp add: queues_ok_def demo_bus_def subscribe_def)

lemma demo_bus_publish: "\<exists>b' e'. bus_publish 0 (demo_event STEP_PROGRESS []) demo_bus = Inr (b', e')"
  by (simp add: bus_publish_def store_append_def apply_projection_def Let_def demo_event_def)

lemma demo_bus_sub: "dget (bus_subs demo_bus) ''flow-engine'' =
    Some \<lparr>sub_flow_id = None, sub_user_id = None, sub_event_types = None, sub_queue = []\<rparr>"
  by (simp add: demo_bus_def subscribe_def)

theorem publish_delivers_witness:
  "\<exists>b' e'. bus_publish 0 (demo_event STEP_PROGRESS []) demo_bus = Inr (b', e') \<and> queue_of b' ''flow-engine'' = [e']"
proof -
  obtain b' e' where p: "bus_publish 0 (demo_event STEP_PROGRESS []) demo_bus = Inr (b', e')"
    using demo_bus_publish by blast
  with publish_delivers [OF demo_bus_ok p] demo_bus_sub show ?thesis
    by (auto simp: matches_def queue_of_def)
qed

theorem redis_echo_delivers_twice_witness:
  "\<exists>b' e'. bus_publish 0 (demo_event STEP_PROGRESS []) demo_bus = Inr (b', e')
     \<and> queue_of (redis_message (last (bus_sent b')) b') ''flow-engine'' = [e', e']"
proof -
  obtain b' e' where p: "bus_publish 0 (demo_event STEP_PROGRESS []) demo_bus = Inr (b', e')"
    using demo_bus_publish by blast
  have r: "bus_redis demo_bus" by (simp add: demo_bus_def subscribe_def)
  from p redis_echo_delivers_twice [OF demo_bus_ok r p demo_bus_sub] show ?thesis
    by (auto simp: matches_def)
qed

end
