(* ===== verification/Flow_Engine.thy ===== *)
theory Flow_Engine
  imports Flow_Bus
begin

text \<open>
  The flow engine, \<open>src/src/breadmind/flow/engine.py\<close>: per flow the graph and the sets of completed,
  failed, queued and running steps; one handler per event; scheduling.

  The handlers are programs of the state-and-exception monad over the world: the bus, the clock, the
  log of dispatch calls, and \<open>fw_faults\<close>, the appends the database refuses (a lost connection). The step
  dispatcher is a protocol the engine is given: its outcome for a call is a parameter, which may depend
  on the calls before it. The engine's task handles one event at a time, in queue order.
\<close>

section \<open>The world of the flow components\<close>

record dispatch_call =
  dc_flow :: uuid
  dc_step :: string
  dc_tool :: json
  dc_args :: json

type_synonym dispatcher = "dispatch_call list \<Rightarrow> dispatch_call \<Rightarrow> exn option"

record flow_world =
  fw_bus :: bus
  fw_now :: int
  fw_faults :: "flow_event \<Rightarrow> exn option"
  fw_dispatched :: "dispatch_call list"

definition make_event :: "int \<Rightarrow> uuid \<Rightarrow> event_type \<Rightarrow> json_obj \<Rightarrow> flow_actor \<Rightarrow> flow_event" where
  "make_event now f t p a =
     \<lparr>ev_flow_id = f, ev_seq = 0, ev_type = t, ev_payload = p, ev_actor = a, ev_created_at = now,
      ev_schema_version = 1\<rparr>"

definition publish ::
  "uuid \<Rightarrow> event_type \<Rightarrow> json_obj \<Rightarrow> flow_actor \<Rightarrow> ('a flow_world_scheme, unit) prog"
where
  "publish f t p a w =
     (let e = make_event (fw_now w) f t p a in
      case fw_faults w e of
        Some x \<Rightarrow> (Inl x, w)
      | None \<Rightarrow>
          (case bus_publish (fw_now w) e (fw_bus w) of
             Inl x \<Rightarrow> (Inl x, w)
           | Inr (b, _) \<Rightarrow> (Inr (), w\<lparr>fw_bus := b\<rparr>)))"

definition dispatch :: "dispatcher \<Rightarrow> dispatch_call \<Rightarrow> ('a flow_world_scheme, unit) prog" where
  "dispatch d c w =
     (let w' = w\<lparr>fw_dispatched := fw_dispatched w @ [c]\<rparr> in
      case d (fw_dispatched w) c of None \<Rightarrow> (Inr (), w') | Some x \<Rightarrow> (Inl x, w'))"

section \<open>The engine's state\<close>

record flow_state =
  es_dag :: "dag option"
  es_completed :: "string set"
  es_failed :: "string set"
  es_queued :: "string set"
  es_running :: "string set"
  es_finalized :: bool

definition new_flow_state :: flow_state where
  "new_flow_state = \<lparr>es_dag = None, es_completed = {}, es_failed = {}, es_queued = {},
     es_running = {}, es_finalized = False\<rparr>"

definition all_done :: "flow_state \<Rightarrow> bool" where
  "all_done st =
     (case es_dag st of
        None \<Rightarrow> False
      | Some d \<Rightarrow> es_completed st = set (dag_ids d) \<and> es_running st = {} \<and> es_queued st = {})"

record engine_world = flow_world +
  ew_states :: "(uuid, flow_state) dict"
  ew_running :: bool

definition state_of :: "'a engine_world_scheme \<Rightarrow> uuid \<Rightarrow> flow_state" where
  "state_of w f = (case dget (ew_states w) f of None \<Rightarrow> new_flow_state | Some st \<Rightarrow> st)"

definition ensure_state :: "uuid \<Rightarrow> ('a engine_world_scheme, unit) prog" where
  "ensure_state f = modify_s (\<lambda>w. w\<lparr>ew_states := dset f (state_of w f) (ew_states w)\<rparr>)"

definition modify_state ::
  "uuid \<Rightarrow> (flow_state \<Rightarrow> flow_state) \<Rightarrow> ('a engine_world_scheme, unit) prog"
where
  "modify_state f g = modify_s (\<lambda>w. w\<lparr>ew_states := dset f (g (state_of w f)) (ew_states w)\<rparr>)"

section \<open>Scheduling and handlers\<close>

definition schedule_one ::
  "dispatcher \<Rightarrow> uuid \<Rightarrow> dag \<Rightarrow> string \<Rightarrow> ('a engine_world_scheme, unit) prog"
where
  "schedule_one d f dg sid =
     bind_s get_s (\<lambda>w.
       if sid \<in> es_queued (state_of w f) \<or> sid \<in> es_running (state_of w f) then ret ()
       else case find (\<lambda>s. fs_id s = sid) (dag_steps dg) of
         None \<Rightarrow> ret ()
       | Some step \<Rightarrow>
           then_s (modify_state f (\<lambda>st. st\<lparr>es_queued := insert sid (es_queued st)\<rparr>))
          (then_s (publish f STEP_QUEUED [(''step_id'', JStr sid)] ENGINE)
          (try_s (dispatch d \<lparr>dc_flow = f, dc_step = sid, dc_tool = fs_tool step, dc_args = fs_args step\<rparr>)
             (\<lambda>exc. publish f STEP_FAILED
                [(''step_id'', JStr sid), (''error'', JStr (exn_str exc)), (''attempt'', JInt 1)] ENGINE))))"

definition schedule_next :: "dispatcher \<Rightarrow> uuid \<Rightarrow> ('a engine_world_scheme, unit) prog" where
  "schedule_next d f =
     bind_s get_s (\<lambda>w.
       case es_dag (state_of w f) of
         None \<Rightarrow> ret ()
       | Some dg \<Rightarrow> for_s (ready_steps dg (es_completed (state_of w f))) (schedule_one d f dg))"

definition on_dag_proposed :: "dispatcher \<Rightarrow> uuid \<Rightarrow> json_obj \<Rightarrow> ('a engine_world_scheme, unit) prog" where
  "on_dag_proposed d f p =
     bind_s (lift_res (bind_res (as_list (dget_or p ''steps'' (JList []))) from_payload)) (\<lambda>dg.
     then_s (modify_state f (\<lambda>st. st\<lparr>es_dag := Some dg\<rparr>)) (schedule_next d f))"

definition on_step_started :: "uuid \<Rightarrow> json_obj \<Rightarrow> ('a engine_world_scheme, unit) prog" where
  "on_step_started f p =
     bind_s (lift_res (str_item p ''step_id'')) (\<lambda>sid.
     modify_state f (\<lambda>st. st\<lparr>es_queued := es_queued st - {sid}, es_running := insert sid (es_running st)\<rparr>))"

definition finalize ::
  "uuid \<Rightarrow> event_type \<Rightarrow> json_obj \<Rightarrow> ('a engine_world_scheme, unit) prog"
where
  "finalize f t p = then_s (modify_state f (\<lambda>st. st\<lparr>es_finalized := True\<rparr>)) (publish f t p ENGINE)"

definition on_step_completed :: "dispatcher \<Rightarrow> uuid \<Rightarrow> json_obj \<Rightarrow> ('a engine_world_scheme, unit) prog" where
  "on_step_completed d f p =
     bind_s (lift_res (str_item p ''step_id'')) (\<lambda>sid.
     then_s (modify_state f (\<lambda>st. st\<lparr>es_running := es_running st - {sid}, es_queued := es_queued st - {sid},
        es_completed := insert sid (es_completed st)\<rparr>))
     (bind_s get_s (\<lambda>w.
       let st = state_of w f in
       if all_done st \<and> \<not> es_finalized st
       then finalize f FLOW_COMPLETED [(''summary'', JObj [(''total_steps'',
              JInt (case es_dag st of None \<Rightarrow> 0 | Some dg \<Rightarrow> int (length (dag_steps dg))))])]
       else schedule_next d f)))"

definition on_step_failed :: "uuid \<Rightarrow> json_obj \<Rightarrow> ('a engine_world_scheme, unit) prog" where
  "on_step_failed f p =
     bind_s (lift_res (str_item p ''step_id'')) (\<lambda>sid.
     modify_state f (\<lambda>st. st\<lparr>es_running := es_running st - {sid}, es_queued := es_queued st - {sid},
       es_failed := insert sid (es_failed st)\<rparr>))"

definition on_escalation :: "uuid \<Rightarrow> json_obj \<Rightarrow> ('a engine_world_scheme, unit) prog" where
  "on_escalation f p =
     bind_s get_s (\<lambda>w.
       if es_finalized (state_of w f) then ret ()
       else finalize f FLOW_FAILED
         [(''reason'', dget_or p ''reason'' (JStr ''escalated'')), (''from_step'', dget_or p ''step_id'' JNull)])"

definition mutation_of :: "json_obj \<Rightarrow> exn + dag_mutation" where
  "mutation_of p =
     bind_res (as_list (dget_or p ''added'' (JList []))) (\<lambda>added.
     bind_res (as_str_list (dget_or p ''removed'' (JList []))) (\<lambda>removed.
     bind_res (as_list (dget_or p ''modified'' (JList []))) (\<lambda>modified.
       Inr \<lparr>mut_added = added, mut_removed = removed, mut_modified = modified\<rparr>)))"

definition mutate_flow ::
  "dispatcher \<Rightarrow> uuid \<Rightarrow> json_obj \<Rightarrow> dag \<Rightarrow> dag_mutation \<Rightarrow> ('a engine_world_scheme, unit) prog"
where
  "mutate_flow d f p dg m =
     (case apply_mutation dg m of
        Inl (DAGValidationError msg) \<Rightarrow>
          publish f DAG_MUTATION_REJECTED [(''reason'', JStr msg), (''mutation'', JObj p)] ENGINE
      | Inl exc \<Rightarrow> raise_s exc
      | Inr dg' \<Rightarrow>
          then_s (modify_state f (\<lambda>st. st\<lparr>es_completed := es_completed st - set (mut_removed m),
            es_failed := es_failed st - set (mut_removed m),
            es_queued := es_queued st - set (mut_removed m),
            es_running := es_running st - set (mut_removed m), es_dag := Some dg'\<rparr>))
          (schedule_next d f))"

definition on_dag_mutated :: "dispatcher \<Rightarrow> uuid \<Rightarrow> json_obj \<Rightarrow> ('a engine_world_scheme, unit) prog" where
  "on_dag_mutated d f p =
     bind_s get_s (\<lambda>w.
       case es_dag (state_of w f) of
         None \<Rightarrow> ret ()
       | Some dg \<Rightarrow>
           if es_finalized (state_of w f) then ret ()
           else bind_s (lift_res (mutation_of p)) (mutate_flow d f p dg))"

definition on_step_queued :: "uuid \<Rightarrow> json_obj \<Rightarrow> ('a engine_world_scheme, unit) prog" where
  "on_step_queued f p =
     bind_s (lift_res (str_item p ''step_id'')) (\<lambda>sid.
     modify_state f (\<lambda>st. st\<lparr>es_queued := insert sid (es_queued st), es_failed := es_failed st - {sid}\<rparr>))"

definition handle :: "dispatcher \<Rightarrow> flow_event \<Rightarrow> ('a engine_world_scheme, unit) prog" where
  "handle d e =
     then_s (ensure_state (ev_flow_id e))
       (case ev_type e of
          DAG_PROPOSED \<Rightarrow> on_dag_proposed d (ev_flow_id e) (ev_payload e)
        | STEP_STARTED \<Rightarrow> on_step_started (ev_flow_id e) (ev_payload e)
        | STEP_COMPLETED \<Rightarrow> on_step_completed d (ev_flow_id e) (ev_payload e)
        | STEP_FAILED \<Rightarrow> on_step_failed (ev_flow_id e) (ev_payload e)
        | ESCALATION_RAISED \<Rightarrow> on_escalation (ev_flow_id e) (ev_payload e)
        | DAG_MUTATED \<Rightarrow> on_dag_mutated d (ev_flow_id e) (ev_payload e)
        | STEP_QUEUED \<Rightarrow> on_step_queued (ev_flow_id e) (ev_payload e)
        | _ \<Rightarrow> ret ())"

section \<open>The engine's task\<close>

definition engine_start :: "'a engine_world_scheme \<Rightarrow> 'a engine_world_scheme" where
  "engine_start w =
     (if ew_running w then w
      else w\<lparr>ew_running := True, fw_bus := subscribe ''flow-engine'' None None None (fw_bus w)\<rparr>)"

definition engine_stop :: "'a engine_world_scheme \<Rightarrow> 'a engine_world_scheme" where
  "engine_stop w = w\<lparr>ew_running := False, fw_bus := unsubscribe ''flow-engine'' (fw_bus w)\<rparr>"

text \<open>One turn of the loop in \<open>_run\<close>: take the next event, handle it, log and swallow an exception.\<close>

definition engine_turn :: "dispatcher \<Rightarrow> 'a engine_world_scheme \<Rightarrow> 'a engine_world_scheme" where
  "engine_turn d w =
     (if \<not> ew_running w then w
      else case next_event ''flow-engine'' (fw_bus w) of
        None \<Rightarrow> w
      | Some (e, b) \<Rightarrow> snd (handle d e (w\<lparr>fw_bus := b\<rparr>)))"


section \<open>What the engine keeps\<close>

lemma state_of_simps [simp]:
  "state_of (w\<lparr>fw_bus := b\<rparr>) f = state_of w f"
  "state_of (w\<lparr>fw_dispatched := ds\<rparr>) f = state_of w f"
  "state_of (w\<lparr>ew_running := r\<rparr>) f = state_of w f"
  "state_of (w\<lparr>fw_faults := ft\<rparr>) f = state_of w f"
  "state_of (w\<lparr>fw_now := n\<rparr>) f = state_of w f"
  "state_of (w\<lparr>ew_states := dset g st (ew_states w)\<rparr>) f = (if f = g then st else state_of w f)"
  by (simp_all add: state_of_def)

text \<open>A publish either leaves the world as it is or appends one event through the bus.\<close>

lemma publish_cases:
  assumes "publish f t p a w = (r, w')"
  obtains "w' = w" "\<exists>x. r = Inl x"
  | b e' where "bus_publish (fw_now w) (make_event (fw_now w) f t p a) (fw_bus w) = Inr (b, e')"
      "w' = w\<lparr>fw_bus := b\<rparr>" "r = Inr ()"
proof (cases "fw_faults w (make_event (fw_now w) f t p a)")
  case None
  show ?thesis
  proof (cases "bus_publish (fw_now w) (make_event (fw_now w) f t p a) (fw_bus w)")
    case (Inl x)
    then show ?thesis using assms None that(1) by (auto simp: publish_def Let_def)
  next
    case (Inr be)
    then show ?thesis using assms None that(2) by (cases be) (simp add: publish_def Let_def)
  qed
next
  case (Some x)
  then show ?thesis using assms that(1) by (auto simp: publish_def Let_def)
qed

lemma publish_log:
  assumes "publish f t p a w = (r, w')"
  shows "(r = Inr () \<and> (\<exists>n. flow_log (bus_store (fw_bus w')) g =
           flow_log (bus_store (fw_bus w)) g @
             (if g = f then [(make_event (fw_now w) f t p a)\<lparr>ev_seq := n\<rparr>] else [])))
    \<or> ((\<exists>x. r = Inl x) \<and> w' = w)"
  using assms
proof (cases rule: publish_cases)
  case (2 b e')
  note app = bus_publish_subs(3) [OF 2(1)]
  show ?thesis
    using store_append_log(3) [OF app, of g] store_append_log(2) [OF app] 2
    by (auto simp: make_event_def)
qed auto

lemma publish_frame:
  assumes "publish f t p a w = (r, w')"
  shows "state_of w' g = state_of w g" and "fw_dispatched w' = fw_dispatched w"
    and "fw_faults w' = fw_faults w" and "ew_states w' = ew_states w" and "fw_now w' = fw_now w"
  using assms by (auto elim!: publish_cases)

lemma dispatch_frame:
  assumes "dispatch d c w = (r, w')"
  shows "w' = w\<lparr>fw_dispatched := fw_dispatched w @ [c]\<rparr>"
  using assms by (auto simp: dispatch_def Let_def split: option.splits)

text \<open>
  The engine's own verdict on a flow, and the invariant: every graph it runs is valid, and it has
  given a verdict at most once, and only after it marked the flow as finalized.
\<close>

definition is_verdict :: "flow_event \<Rightarrow> bool" where
  "is_verdict e \<longleftrightarrow> ev_actor e = ENGINE \<and> ev_type e \<in> {FLOW_COMPLETED, FLOW_FAILED}"

definition verdicts :: "'a flow_world_scheme \<Rightarrow> uuid \<Rightarrow> nat" where
  "verdicts w f = length (filter is_verdict (flow_log (bus_store (fw_bus w)) f))"

definition engine_inv :: "'a engine_world_scheme \<Rightarrow> bool" where
  "engine_inv w \<longleftrightarrow>
     (\<forall>f dg. es_dag (state_of w f) = Some dg \<longrightarrow> valid_dag dg)
   \<and> (\<forall>f. verdicts w f \<le> 1 \<and> (\<not> es_finalized (state_of w f) \<longrightarrow> verdicts w f = 0))"

lemma verdicts_simps [simp]:
  "verdicts (w\<lparr>fw_dispatched := ds\<rparr>) f = verdicts w f"
  "verdicts (w\<lparr>ew_states := ss\<rparr>) f = verdicts w f"
  by (simp_all add: verdicts_def)

lemma publish_verdicts:
  assumes "publish f t p a w = (r, w')"
  shows "verdicts w' g \<le> verdicts w g + (if g = f \<and> a = ENGINE \<and> t \<in> {FLOW_COMPLETED, FLOW_FAILED} then 1 else 0)"
  using publish_log [OF assms, of g] by (auto simp: verdicts_def is_verdict_def make_event_def)

lemma keeps_publish [keeps_rules]:
  assumes "a \<noteq> ENGINE \<or> t \<notin> {FLOW_COMPLETED, FLOW_FAILED}"
  shows "keeps engine_inv (publish f t p a)"
proof (rule keepsI)
  fix w :: "'a engine_world_scheme" assume inv: "engine_inv w"
  obtain r w' where p: "publish f t p a w = (r, w')" by (cases "publish f t p a w")
  have "verdicts w' g \<le> verdicts w g" for g
    using publish_verdicts [OF p, of g] assms by auto
  then show "engine_inv (snd (publish f t p a w))"
    using inv publish_frame(1) [OF p] by (auto simp: engine_inv_def p) (metis le_trans, metis le_zero_eq)
qed

lemma keeps_dispatch [keeps_rules]: "keeps engine_inv (dispatch d c)"
  by (rule keepsI) (auto simp: dispatch_def Let_def engine_inv_def split: option.splits)

lemma keeps_modify_state:
  assumes "\<And>st dg. es_dag (g st) = Some dg \<Longrightarrow> es_dag st = Some dg \<or> valid_dag dg"
    and "\<And>st. es_finalized st \<Longrightarrow> es_finalized (g st)"
  shows "keeps engine_inv (modify_state f g)"
proof (unfold modify_state_def, rule keeps_modify_s)
  fix w :: "'a engine_world_scheme" assume inv: "engine_inv w"
  have "valid_dag dg" if "es_dag (g (state_of w f)) = Some dg" for dg
    using assms(1) [OF that] inv by (auto simp: engine_inv_def)
  then show "engine_inv (w\<lparr>ew_states := dset f (g (state_of w f)) (ew_states w)\<rparr>)"
    using inv assms(2) [of "state_of w f"] by (auto simp: engine_inv_def)
qed

lemma keeps_ensure_state [keeps_rules]: "keeps engine_inv (ensure_state f)"
  unfolding ensure_state_def by (rule keeps_modify_s) (simp add: engine_inv_def)

lemma keeps_schedule_one [keeps_rules]: "keeps engine_inv (schedule_one d f dg sid)"
  unfolding schedule_one_def
  by (rule keeps_get_bind, rule keepsD)
    (auto intro!: keeps_rules keeps_modify_state split: option.splits)

lemma keeps_schedule_next [keeps_rules]: "keeps engine_inv (schedule_next d f)"
  unfolding schedule_next_def
  by (rule keeps_get_bind, rule keepsD) (auto intro!: keeps_rules split: option.splits)

text \<open>The one place that publishes a verdict sets the mark first.\<close>

lemma finalize_inv:
  assumes inv: "engine_inv w" and nf: "\<not> es_finalized (state_of w f)"
  shows "engine_inv (snd (finalize f t p w))"
proof -
  let ?w = "w\<lparr>ew_states := dset f ((state_of w f)\<lparr>es_finalized := True\<rparr>) (ew_states w)\<rparr>"
  obtain r w' where p: "publish f t p ENGINE ?w = (r, w')" by (cases "publish f t p ENGINE ?w")
  have "snd (finalize f t p w) = w'"
    using p by (simp add: finalize_def modify_state_def bind_s_def modify_s_def)
  moreover have "verdicts w' g \<le> 1 \<and> (g \<noteq> f \<and> \<not> es_finalized (state_of w g) \<longrightarrow> verdicts w' g = 0)" for g
    using publish_verdicts [OF p, of g] inv nf by (auto simp: engine_inv_def split: if_splits)
      (metis Suc_leI le_trans less_Suc0 not_less_eq_eq zero_less_Suc)+
  ultimately show ?thesis
    using inv publish_frame(1) [OF p] by (auto simp: engine_inv_def)
qed

lemma keeps_on_escalation [keeps_rules]: "keeps engine_inv (on_escalation f p)"
  unfolding on_escalation_def
  by (rule keeps_get_bind) (auto simp: ret_def intro: finalize_inv)

lemma from_payload_valid: "from_payload js = Inr dg \<Longrightarrow> valid_dag dg"
  by (auto simp: from_payload_def bind_res_eq_Inr validate_valid [symmetric])

lemma keeps_on_dag_proposed [keeps_rules]: "keeps engine_inv (on_dag_proposed d f p)"
  unfolding on_dag_proposed_def
proof (rule keeps_bind_lift_res)
  fix dg assume "bind_res (as_list (dget_or p ''steps'' (JList []))) from_payload = Inr dg"
  then have "valid_dag dg" by (auto simp: bind_res_eq_Inr from_payload_valid)
  then show "keeps engine_inv (then_s (modify_state f (\<lambda>st. st\<lparr>es_dag := Some dg\<rparr>)) (schedule_next d f))"
    by (intro keeps_rules keeps_modify_state) auto
qed

lemma keeps_on_step_completed [keeps_rules]: "keeps engine_inv (on_step_completed d f p)"
  unfolding on_step_completed_def
  apply (rule keeps_bind_s, rule keeps_lift_res)
  apply (rule keeps_bind_s, rule keeps_modify_state; simp)
  apply (rule keeps_get_bind)
  apply (auto simp: Let_def intro: finalize_inv keepsD [OF keeps_schedule_next])
  done

lemma apply_mutation_valid: "apply_mutation dg m = Inr dg' \<Longrightarrow> valid_dag dg'"
  by (auto simp: apply_mutation_def Let_def bind_res_eq_Inr validate_valid [symmetric] split: if_splits option.splits)

lemma keeps_mutate_flow [keeps_rules]: "keeps engine_inv (mutate_flow d f p dg m)"
proof (cases "apply_mutation dg m")
  case (Inl x)
  then show ?thesis by (cases x) (auto simp: mutate_flow_def intro!: keeps_rules)
next
  case (Inr dg')
  then have "valid_dag dg'" by (rule apply_mutation_valid)
  with Inr show ?thesis by (auto simp: mutate_flow_def intro!: keeps_rules keeps_modify_state)
qed

lemma keeps_on_dag_mutated [keeps_rules]: "keeps engine_inv (on_dag_mutated d f p)"
  unfolding on_dag_mutated_def
  by (rule keeps_get_bind, rule keepsD) (auto intro!: keeps_rules split: option.splits)

lemma keeps_handle: "keeps engine_inv (handle d e)"
proof -
  have q: "keeps engine_inv (on_step_started f p)" "keeps engine_inv (on_step_failed f p)"
    "keeps engine_inv (on_step_queued f p)" for f p
    unfolding on_step_started_def on_step_failed_def on_step_queued_def
    by (auto intro!: keeps_rules keeps_modify_state)
  then show ?thesis unfolding handle_def
    by (cases "ev_type e") (auto intro!: keeps_rules)
qed

section \<open>Runs of the engine\<close>

text \<open>
  What can happen around the engine: it starts, stops and takes turns; another task of the process
  publishes; a worker process appends to the shared store; a Redis message arrives; the clock and the
  database's refusals change. Only \<open>engine.py\<close> signs events as the engine.
\<close>

datatype engine_op =
    Turn
  | Start
  | Stop
  | Other uuid event_type json_obj flow_actor
  | Worker uuid event_type json_obj flow_actor
  | Redis flow_event
  | Tick int "flow_event \<Rightarrow> exn option"

fun engine_do :: "dispatcher \<Rightarrow> engine_op \<Rightarrow> engine_world \<Rightarrow> engine_world" where
  "engine_do d Turn w = engine_turn d w"
| "engine_do d Start w = engine_start w"
| "engine_do d Stop w = engine_stop w"
| "engine_do d (Other f t p a) w = (if a = ENGINE then w else snd (publish f t p a w))"
| "engine_do d (Worker f t p a) w =
     (if a = ENGINE then w
      else w\<lparr>fw_bus := (fw_bus w)\<lparr>bus_store :=
        append_step (fw_now w, make_event (fw_now w) f t p a) (bus_store (fw_bus w))\<rparr>\<rparr>)"
| "engine_do d (Redis e) w = w\<lparr>fw_bus := redis_message e (fw_bus w)\<rparr>"
| "engine_do d (Tick n ft) w = w\<lparr>fw_now := n, fw_faults := ft\<rparr>"

lemma engine_inv_bus:
  assumes "engine_inv w" and "\<And>f. filter is_verdict (flow_log (bus_store b) f) =
      filter is_verdict (flow_log (bus_store (fw_bus w)) f)"
  shows "engine_inv (w\<lparr>fw_bus := b\<rparr>)"
  using assms by (simp add: engine_inv_def verdicts_def)

lemma next_event_store: "next_event sid b = Some (e, b') \<Longrightarrow> bus_store b' = bus_store b"
  by (auto simp: next_event_def split: option.splits list.splits)

lemma append_step_verdicts:
  assumes "\<not> is_verdict e"
  shows "filter is_verdict (flow_log (append_step (now, e) st) f) = filter is_verdict (flow_log st f)"
proof (cases "store_append now e st")
  case (Inr r)
  obtain st' e' where r: "store_append now e st = Inr (st', e')" using Inr by (cases r) auto
  have "\<not> is_verdict e'" using assms store_append_log(2) [OF r] by (simp add: is_verdict_def)
  then show ?thesis by (simp add: append_step_def r store_append_log(3) [OF r])
qed (simp add: append_step_def)

lemma engine_turn_inv:
  assumes inv: "engine_inv w"
  shows "engine_inv (engine_turn d w)"
proof (cases "next_event ''flow-engine'' (fw_bus w)")
  case (Some eb)
  obtain e b where eb: "eb = (e, b)" by (cases eb)
  with Some have "engine_inv (w\<lparr>fw_bus := b\<rparr>)"
    by (intro engine_inv_bus inv) (simp add: next_event_store)
  with Some eb show ?thesis by (simp add: engine_turn_def inv keepsD [OF keeps_handle])
qed (simp add: engine_turn_def inv)

lemma engine_do_inv:
  assumes inv: "engine_inv w"
  shows "engine_inv (engine_do d x w)"
proof (cases x)
  case Turn
  then show ?thesis by (simp add: engine_turn_inv inv)
next
  case (Other f t p a)
  then show ?thesis using inv keepsD [OF keeps_publish, of a t w f p] by auto
next
  case (Worker f t p a)
  then show ?thesis using inv
    by (auto intro!: engine_inv_bus append_step_verdicts simp: is_verdict_def make_event_def)
next
  case (Tick n ft)
  then show ?thesis using inv by (simp add: engine_inv_def verdicts_def)
next
  case Start
  have "engine_inv (w\<lparr>ew_running := True, fw_bus := b\<rparr>)" if "bus_store b = bus_store (fw_bus w)" for b
    using inv that by (simp add: engine_inv_def verdicts_def)
  with Start inv show ?thesis by (simp add: engine_start_def subscribe_def)
next
  case Stop
  have "engine_inv (w\<lparr>ew_running := False, fw_bus := b\<rparr>)" if "bus_store b = bus_store (fw_bus w)" for b
    using inv that by (simp add: engine_inv_def verdicts_def)
  with Stop show ?thesis by (simp add: engine_stop_def unsubscribe_def)
next
  case (Redis e)
  with inv show ?thesis by (auto intro!: engine_inv_bus simp: redis_message_def)
qed

interpretation engine_machine: machine "engine_do d" engine_inv for d
  by unfold_locales (rule engine_do_inv)

definition engine_init :: "bus \<Rightarrow> (flow_event \<Rightarrow> exn option) \<Rightarrow> engine_world" where
  "engine_init b ft =
     \<lparr>fw_bus = b, fw_now = 0, fw_faults = ft, fw_dispatched = [], ew_states = [], ew_running = False\<rparr>"

text \<open>
  C4. One verdict per flow: over any run of the engine (turns interleaved with other publishers, worker
  processes, duplicated Redis messages, database refusals and restarts of its task) that begins with an
  empty event store, the engine appends at most one \<open>FLOW_COMPLETED\<close> or \<open>FLOW_FAILED\<close> for a flow, never
  both, and every graph it executes is valid.
\<close>

theorem engine_one_verdict:
  assumes "bus_store b = empty_store"
  shows "length (filter is_verdict (flow_log (bus_store (fw_bus (fold (engine_do d) ops (engine_init b ft)))) f)) \<le> 1
    \<and> (\<forall>dg. es_dag (state_of (fold (engine_do d) ops (engine_init b ft)) f) = Some dg \<longrightarrow> valid_dag dg)"
proof -
  have "engine_inv (engine_init b ft)"
    using assms by (simp add: engine_inv_def engine_init_def state_of_def new_flow_state_def verdicts_def
        flow_log_def empty_store_def)
  from engine_machine.run_inv [OF this, of d ops] show ?thesis
    by (simp add: engine_inv_def verdicts_def)
qed

section \<open>Scheduling\<close>

definition step_call :: "uuid \<Rightarrow> dag \<Rightarrow> string \<Rightarrow> dispatch_call" where
  "step_call f dg sid =
     (case find (\<lambda>s. fs_id s = sid) (dag_steps dg) of
        None \<Rightarrow> \<lparr>dc_flow = f, dc_step = sid, dc_tool = JNull, dc_args = JObj []\<rparr>
      | Some step \<Rightarrow> \<lparr>dc_flow = f, dc_step = sid, dc_tool = fs_tool step, dc_args = fs_args step\<rparr>)"

lemma step_call_step [simp]: "dc_step (step_call f dg x) = x"
  by (simp add: step_call_def split: option.splits)

definition busy :: "uuid \<Rightarrow> 'a engine_world_scheme \<Rightarrow> string set" where
  "busy f w = es_queued (state_of w f) \<union> es_running (state_of w f)"

text \<open>The part of a flow's state that scheduling leaves alone.\<close>

definition sched_frame :: "uuid \<Rightarrow> 'a engine_world_scheme \<Rightarrow> 'a engine_world_scheme \<Rightarrow> bool" where
  "sched_frame f w w' \<longleftrightarrow>
     es_dag (state_of w' f) = es_dag (state_of w f)
   \<and> es_completed (state_of w' f) = es_completed (state_of w f)
   \<and> es_running (state_of w' f) = es_running (state_of w f)
   \<and> es_failed (state_of w' f) = es_failed (state_of w f)
   \<and> es_finalized (state_of w' f) = es_finalized (state_of w f)
   \<and> fw_faults w' = fw_faults w"

text \<open>With a database that accepts every event, the engine's step events are always stored.\<close>

lemma publish_step_ok:
  assumes "fw_faults w = (\<lambda>_. None)"
  shows "fst (publish f STEP_QUEUED [(''step_id'', JStr sid)] a w) = Inr ()"
    and "fst (publish f STEP_FAILED [(''step_id'', JStr sid), (''error'', JStr err), (''attempt'', JInt n)] a w) = Inr ()"
  using assms
  by (simp_all add: publish_def make_event_def bus_publish_def store_append_def apply_projection_def
      str_item_def str_get_def getitem_def dget_or_def Let_def)

lemma schedule_one_skip:
  "sid \<in> busy f w \<Longrightarrow> schedule_one d f dg sid w = (Inr (), w)"
  by (auto simp: schedule_one_def run_defs busy_def)

lemma dispatch_or_fail:
  assumes "try_s (dispatch d c) (\<lambda>exc. publish f STEP_FAILED
     [(''step_id'', JStr sid), (''error'', JStr (exn_str exc)), (''attempt'', JInt 1)] ENGINE) w = (r, w')"
  shows "fw_dispatched w' = fw_dispatched w @ [c]" and "state_of w' g = state_of w g"
    and "fw_faults w' = fw_faults w" and "fw_faults w = (\<lambda>_. None) \<Longrightarrow> r = Inr ()"
proof -
  let ?w = "w\<lparr>fw_dispatched := fw_dispatched w @ [c]\<rparr>"
  let ?p = "\<lambda>exc. publish f STEP_FAILED
     [(''step_id'', JStr sid), (''error'', JStr (exn_str exc)), (''attempt'', JInt 1)] ENGINE ?w"
  consider "r = Inr ()" "w' = ?w" | exc where "?p exc = (r, w')"
    using assms by (auto simp: try_s_def dispatch_def Let_def split: option.splits)
  note cases = this
  show "fw_dispatched w' = fw_dispatched w @ [c]" "state_of w' g = state_of w g" "fw_faults w' = fw_faults w"
    by (cases rule: cases; simp add: publish_frame)+
  show "r = Inr ()" if "fw_faults w = (\<lambda>_. None)"
  proof (cases rule: cases)
    case (2 exc)
    have "fst (?p exc) = Inr ()" by (rule publish_step_ok(2)) (simp add: that)
    with 2 show ?thesis by simp
  qed
qed

lemma schedule_one_new:
  assumes s: "schedule_one d f dg sid w = (r, w')"
    and new: "sid \<notin> busy f w"
    and step: "find (\<lambda>s. fs_id s = sid) (dag_steps dg) = Some step"
  shows "sched_frame f w w' \<and> es_queued (state_of w' f) = insert sid (es_queued (state_of w f))
    \<and> (fw_dispatched w' = fw_dispatched w @ [step_call f dg sid] \<or> r \<noteq> Inr () \<and> fw_dispatched w' = fw_dispatched w)
    \<and> (fw_faults w = (\<lambda>_. None) \<longrightarrow> r = Inr ())"
proof -
  let ?w1 = "w\<lparr>ew_states := dset f ((state_of w f)\<lparr>es_queued := insert sid (es_queued (state_of w f))\<rparr>) (ew_states w)\<rparr>"
  obtain r2 w2 where p: "publish f STEP_QUEUED [(''step_id'', JStr sid)] ENGINE ?w1 = (r2, w2)"
    by (cases "publish f STEP_QUEUED [(''step_id'', JStr sid)] ENGINE ?w1")
  let ?t = "try_s (dispatch d (step_call f dg sid)) (\<lambda>exc. publish f STEP_FAILED
     [(''step_id'', JStr sid), (''error'', JStr (exn_str exc)), (''attempt'', JInt 1)] ENGINE)"
  have run: "schedule_one d f dg sid w = (case r2 of Inl e \<Rightarrow> (Inl e, w2) | Inr _ \<Rightarrow> ?t w2)"
    using new step p
    by (simp add: schedule_one_def busy_def step_call_def bind_s_def get_s_def modify_state_def modify_s_def split: sum.splits)
  have w2: "state_of w2 f = (state_of w f)\<lparr>es_queued := insert sid (es_queued (state_of w f))\<rparr>"
    "fw_dispatched w2 = fw_dispatched w" "fw_faults w2 = fw_faults w"
    using publish_frame [OF p] by simp_all
  show ?thesis
  proof (cases r2)
    case (Inl e)
    then have r: "r = Inl e" and w': "w' = w2" using run s by auto
    have "fw_faults w \<noteq> (\<lambda>_. None)"
    proof
      assume "fw_faults w = (\<lambda>_. None)"
      then have "fst (publish f STEP_QUEUED [(''step_id'', JStr sid)] ENGINE ?w1) = Inr ()"
        by (intro publish_step_ok(1)) simp
      then show False using Inl p by simp
    qed
    then show ?thesis using w2 r w' by (simp add: sched_frame_def)
  next
    case (Inr u)
    then have "?t w2 = (r, w')" using run s by simp
    from dispatch_or_fail [OF this] w2 show ?thesis by (simp add: sched_frame_def)
  qed
qed

lemma sched_frame_trans: "sched_frame f a b \<Longrightarrow> sched_frame f b c \<Longrightarrow> sched_frame f a c"
  by (simp add: sched_frame_def)

text \<open>The loop over the ready steps: what is dispatched, in which order, and what is then queued.\<close>

lemma schedule_loop:
  assumes "for_s xs (schedule_one d f dg) w = (r, w')" and "distinct xs"
    and "\<And>x. x \<in> set xs \<Longrightarrow> \<exists>step. find (\<lambda>s. fs_id s = x) (dag_steps dg) = Some step"
  shows "sched_frame f w w'
    \<and> es_queued (state_of w f) \<subseteq> es_queued (state_of w' f)
    \<and> (\<exists>cs. fw_dispatched w' = fw_dispatched w @ cs \<and> prefix cs (map (step_call f dg) (filter (\<lambda>x. x \<notin> busy f w) xs))
        \<and> dc_step ` set cs \<subseteq> es_queued (state_of w' f)
        \<and> (fw_faults w = (\<lambda>_. None) \<longrightarrow> r = Inr () \<and> cs = map (step_call f dg) (filter (\<lambda>x. x \<notin> busy f w) xs)))"
  using assms
proof (induction xs arbitrary: w)
  case Nil
  then show ?case by (simp add: ret_def sched_frame_def)
next
  case (Cons x xs)
  obtain r1 w1 where s: "schedule_one d f dg x w = (r1, w1)" by (cases "schedule_one d f dg x w")
  show ?case
  proof (cases "x \<in> busy f w")
    case True
    then have "for_s xs (schedule_one d f dg) w = (r, w')"
      using Cons.prems(1) by (simp add: bind_s_def schedule_one_skip)
    from Cons.IH [OF this] Cons.prems(2,3) True show ?thesis by simp
  next
    case False
    obtain step where "find (\<lambda>s. fs_id s = x) (dag_steps dg) = Some step" using Cons.prems(3) by fastforce
    note one = schedule_one_new [OF s False this]
    show ?thesis
    proof (cases r1)
      case (Inl e)
      then have "r = Inl e" "w' = w1" using Cons.prems(1) s by (simp_all add: bind_s_def)
      with one Inl show ?thesis
        by (elim conjE disjE) (auto simp: False step_call_def split: option.splits)
    next
      case (Inr u)
      then have "for_s xs (schedule_one d f dg) w1 = (r, w')" using Cons.prems(1) s by (simp add: bind_s_def)
      note rest = Cons.IH [OF this] 
      have b1: "busy f w1 = insert x (busy f w)" using one by (auto simp: sched_frame_def busy_def)
      have fil: "filter (\<lambda>y. y \<notin> busy f w1) xs = filter (\<lambda>y. y \<notin> busy f w) xs"
        using Cons.prems(2) unfolding b1 by (intro filter_cong) auto
      have d1: "fw_dispatched w1 = fw_dispatched w @ [step_call f dg x]" using one Inr by auto
      have ft: "fw_faults w1 = fw_faults w" using one by (simp add: sched_frame_def)
      obtain cs where cs: "fw_dispatched w' = fw_dispatched w1 @ cs"
        "prefix cs (map (step_call f dg) (filter (\<lambda>x. x \<notin> busy f w) xs))"
        "dc_step ` set cs \<subseteq> es_queued (state_of w' f)"
        "fw_faults w = (\<lambda>_. None) \<longrightarrow> r = Inr () \<and> cs = map (step_call f dg) (filter (\<lambda>x. x \<notin> busy f w) xs)"
        and fr: "sched_frame f w1 w'" and q: "es_queued (state_of w1 f) \<subseteq> es_queued (state_of w' f)"
        using rest Cons.prems(2,3) fil ft by auto
      have "sched_frame f w w'" using one fr by (blast intro: sched_frame_trans)
      moreover have "insert x (es_queued (state_of w f)) \<subseteq> es_queued (state_of w' f)" using one q by auto
      ultimately show ?thesis
        using cs d1 False by (intro conjI exI [of _ "step_call f dg x # cs"]) auto
    qed
  qed
qed

lemma ready_step_found:
  "x \<in> set (ready_steps dg c) \<Longrightarrow> \<exists>step. find (\<lambda>s. fs_id s = x) (dag_steps dg) = Some step"
  by (auto simp: ready_steps_def find_None_iff not_None_eq [symmetric] simp del: not_None_eq)

lemma distinct_ready_steps: "distinct (dag_ids dg) \<Longrightarrow> distinct (ready_steps dg c)"
  by (simp add: ready_steps_def dag_ids_def distinct_map_filter)

lemma schedule_next_loop:
  assumes "valid_dag dg" and "es_dag (state_of w f) = Some dg" and "schedule_next d f w = (r, w')"
  shows "sched_frame f w w'
    \<and> es_queued (state_of w f) \<subseteq> es_queued (state_of w' f)
    \<and> (\<exists>cs. fw_dispatched w' = fw_dispatched w @ cs
        \<and> prefix cs (map (step_call f dg) (filter (\<lambda>x. x \<notin> busy f w) (ready_steps dg (es_completed (state_of w f)))))
        \<and> dc_step ` set cs \<subseteq> es_queued (state_of w' f)
        \<and> (fw_faults w = (\<lambda>_. None) \<longrightarrow> r = Inr () \<and> cs = map (step_call f dg)
             (filter (\<lambda>x. x \<notin> busy f w) (ready_steps dg (es_completed (state_of w f))))))"
proof (rule schedule_loop)
  show "for_s (ready_steps dg (es_completed (state_of w f))) (schedule_one d f dg) w = (r, w')"
    using assms(2,3) by (simp add: schedule_next_def bind_s_def get_s_def)
  show "distinct (ready_steps dg (es_completed (state_of w f)))"
    using assms(1) by (intro distinct_ready_steps) (simp add: valid_dag_def)
qed (rule ready_step_found)

text \<open>
  Scheduling: for a flow with a valid graph the engine hands the dispatcher, in graph order and each
  once, the steps that are not completed, whose dependencies are all completed and which are neither
  queued nor running, with the tool and arguments of the graph, and marks them queued. If the database
  refuses an event it stops at that step (a prefix is dispatched); otherwise all of them are, whatever
  the dispatcher answers.
\<close>

theorem schedule_next_dispatches_ready:
  assumes "valid_dag dg" and "es_dag (state_of w f) = Some dg" and "schedule_next d f w = (r, w')"
  shows "\<exists>cs. fw_dispatched w' = fw_dispatched w @ map (step_call f dg) cs
    \<and> prefix cs (filter (\<lambda>x. x \<notin> busy f w) (ready_steps dg (es_completed (state_of w f))))
    \<and> set cs \<subseteq> es_queued (state_of w' f) \<and> distinct cs
    \<and> (fw_faults w = (\<lambda>_. None) \<longrightarrow>
         r = Inr () \<and> cs = filter (\<lambda>x. x \<notin> busy f w) (ready_steps dg (es_completed (state_of w f))))"
proof -
  let ?xs = "filter (\<lambda>x. x \<notin> busy f w) (ready_steps dg (es_completed (state_of w f)))"
  obtain cs where d: "fw_dispatched w' = fw_dispatched w @ cs" and p: "prefix cs (map (step_call f dg) ?xs)"
    and q: "dc_step ` set cs \<subseteq> es_queued (state_of w' f)"
    and ok: "fw_faults w = (\<lambda>_. None) \<longrightarrow> r = Inr () \<and> cs = map (step_call f dg) ?xs"
    using schedule_next_loop [OF assms] by blast
  have sid: "dc_step \<circ> step_call f dg = id" by (simp add: fun_eq_iff)
  then have sm: "map dc_step (map (step_call f dg) ys) = ys" for ys by (simp add: map_map)
  define ys where "ys = map dc_step cs"
  have pre: "prefix ys ?xs" using map_mono_prefix [OF p, of dc_step] unfolding sm ys_def .
  obtain zs where "map (step_call f dg) ?xs = cs @ zs" using p by (rule prefixE)
  then obtain us where "cs = map (step_call f dg) us" by (auto simp: map_eq_append_conv)
  then have cs: "cs = map (step_call f dg) ys" unfolding ys_def using sm by simp
  have "distinct ?xs" using assms(1) by (simp add: distinct_ready_steps valid_dag_def)
  then have "distinct ys" using pre by (auto simp: prefix_def)
  moreover have "fw_faults w = (\<lambda>_. None) \<longrightarrow> r = Inr () \<and> ys = ?xs"
    using ok sm [of ?xs] unfolding ys_def by auto
  moreover have "set ys \<subseteq> es_queued (state_of w' f)" using q by (simp add: ys_def)
  moreover have "fw_dispatched w' = fw_dispatched w @ map (step_call f dg) ys" using d cs by simp
  ultimately show ?thesis using pre by blast
qed

section \<open>Completion of a step\<close>

definition after_completion :: "string \<Rightarrow> flow_state \<Rightarrow> flow_state" where
  "after_completion sid st = st\<lparr>es_running := es_running st - {sid}, es_queued := es_queued st - {sid},
     es_completed := insert sid (es_completed st)\<rparr>"

lemma handle_step_completed:
  assumes "ev_type e = STEP_COMPLETED" and "dget (ev_payload e) ''step_id'' = Some (JStr sid)"
  defines "f \<equiv> ev_flow_id e"
  obtains w1 where "state_of w1 f = after_completion sid (state_of w f)"
    and "fw_dispatched w1 = fw_dispatched w" and "fw_faults w1 = fw_faults w" and "fw_bus w1 = fw_bus w"
    and "all_done (state_of w1 f) \<Longrightarrow> \<not> es_finalized (state_of w f) \<Longrightarrow>
      handle d e w = finalize f FLOW_COMPLETED [(''summary'', JObj [(''total_steps'',
        JInt (case es_dag (state_of w f) of None \<Rightarrow> 0 | Some dg \<Rightarrow> int (length (dag_steps dg))))])] w1"
    and "\<not> (all_done (state_of w1 f) \<and> \<not> es_finalized (state_of w f)) \<Longrightarrow> handle d e w = schedule_next d f w1"
proof
  let ?w0 = "w\<lparr>ew_states := dset f (state_of w f) (ew_states w)\<rparr>"
  let ?w1 = "?w0\<lparr>ew_states := dset f (after_completion sid (state_of ?w0 f)) (ew_states ?w0)\<rparr>"
  have st: "state_of ?w1 f = after_completion sid (state_of w f)" by (simp add: state_of_def)
  have "str_item (ev_payload e) ''step_id'' = Inr sid"
    using assms(2) by (simp add: str_item_def getitem_def)
  then have run: "handle d e w =
     (if all_done (state_of ?w1 f) \<and> \<not> es_finalized (state_of ?w1 f)
      then finalize f FLOW_COMPLETED [(''summary'', JObj [(''total_steps'',
        JInt (case es_dag (state_of ?w1 f) of None \<Rightarrow> 0 | Some dg \<Rightarrow> int (length (dag_steps dg))))])] ?w1
      else schedule_next d f ?w1)"
    using assms(1)
    by (simp add: handle_def f_def [symmetric] ensure_state_def on_step_completed_def modify_state_def
        after_completion_def run_defs Let_def)
  show "state_of ?w1 f = after_completion sid (state_of w f)" by (rule st)
  show "fw_dispatched ?w1 = fw_dispatched w" "fw_faults ?w1 = fw_faults w" "fw_bus ?w1 = fw_bus w" by simp_all
  have fin: "es_finalized (state_of ?w1 f) = es_finalized (state_of w f)" "es_dag (state_of ?w1 f) = es_dag (state_of w f)"
    by (simp_all add: st after_completion_def)
  show "handle d e w = finalize f FLOW_COMPLETED [(''summary'', JObj [(''total_steps'',
        JInt (case es_dag (state_of w f) of None \<Rightarrow> 0 | Some dg \<Rightarrow> int (length (dag_steps dg))))])] ?w1"
    if "all_done (state_of ?w1 f)" "\<not> es_finalized (state_of w f)"
    using that unfolding run fin by simp
  show "handle d e w = schedule_next d f ?w1"
    if "\<not> (all_done (state_of ?w1 f) \<and> \<not> es_finalized (state_of w f))"
    using that unfolding run fin by (simp only: if_False)
qed

lemma finalize_completed:
  assumes "fw_faults w = (\<lambda>_. None)" and "finalize f FLOW_COMPLETED p w = (r, w')"
  shows "r = Inr () \<and> es_finalized (state_of w' f)
    \<and> (\<exists>n. last (flow_log (bus_store (fw_bus w')) f) = (make_event (fw_now w) f FLOW_COMPLETED p ENGINE)\<lparr>ev_seq := n\<rparr>)"
proof -
  let ?w = "w\<lparr>ew_states := dset f ((state_of w f)\<lparr>es_finalized := True\<rparr>) (ew_states w)\<rparr>"
  have p: "publish f FLOW_COMPLETED p ENGINE ?w = (r, w')"
    using assms(2) by (simp add: finalize_def modify_state_def bind_s_def modify_s_def)
  have "fst (publish f FLOW_COMPLETED p ENGINE ?w) = Inr ()"
    using assms(1) by (simp add: publish_def make_event_def bus_publish_def store_append_def
        apply_projection_def Let_def)
  then have "r = Inr ()" using p by simp
  then show ?thesis using publish_log [OF p, of f] publish_frame(1) [OF p, of f] by auto
qed

text \<open>
  A flow does not get stuck when a step completes: with a database that accepts events, handling the
  completion of a step of the graph either appends \<open>FLOW_COMPLETED\<close> with the number of steps (exactly
  when every step is completed and none is queued or running), or leaves a step queued or running.
\<close>

theorem completion_makes_progress:
  assumes inv: "engine_inv w" and dag: "es_dag (state_of w (ev_flow_id e)) = Some dg"
    and ok: "fw_faults w = (\<lambda>_. None)" and unfinished: "\<not> es_finalized (state_of w (ev_flow_id e))"
    and ev: "ev_type e = STEP_COMPLETED" "dget (ev_payload e) ''step_id'' = Some (JStr sid)"
    and known: "insert sid (es_completed (state_of w (ev_flow_id e))) \<subseteq> set (dag_ids dg)"
    and run: "handle d e w = (r, w')"
  shows "r = Inr () \<and>
    (if all_done (after_completion sid (state_of w (ev_flow_id e)))
     then es_finalized (state_of w' (ev_flow_id e))
       \<and> ev_type (last (flow_log (bus_store (fw_bus w')) (ev_flow_id e))) = FLOW_COMPLETED
       \<and> ev_payload (last (flow_log (bus_store (fw_bus w')) (ev_flow_id e))) =
           [(''summary'', JObj [(''total_steps'', JInt (int (length (dag_steps dg))))])]
     else busy (ev_flow_id e) w' \<noteq> {})"
proof -
  let ?f = "ev_flow_id e"
  let ?st = "after_completion sid (state_of w ?f)"
  obtain w1 where w1: "state_of w1 ?f = ?st" "fw_faults w1 = (\<lambda>_. None)"
    and fin: "all_done ?st \<Longrightarrow> handle d e w = finalize ?f FLOW_COMPLETED
       [(''summary'', JObj [(''total_steps'', JInt (int (length (dag_steps dg))))])] w1"
    and nxt: "\<not> all_done ?st \<Longrightarrow> handle d e w = schedule_next d ?f w1"
    by (rule handle_step_completed [OF ev, of w d]) (use ok dag unfinished in simp)
  show ?thesis
  proof (cases "all_done ?st")
    case True
    then have "finalize ?f FLOW_COMPLETED
       [(''summary'', JObj [(''total_steps'', JInt (int (length (dag_steps dg))))])] w1 = (r, w')"
      using fin run by simp
    from finalize_completed [OF w1(2) this] True show ?thesis by (auto simp: make_event_def)
  next
    case False
    have valid: "valid_dag dg" using inv dag by (simp add: engine_inv_def)
    have dag1: "es_dag (state_of w1 ?f) = Some dg" using w1(1) dag by (simp add: after_completion_def)
    have sch: "schedule_next d ?f w1 = (r, w')" using nxt [OF False] run by simp
    from schedule_next_loop [OF valid dag1 sch] w1(2)
    have r: "r = Inr ()" and fr: "sched_frame ?f w1 w'" and q: "es_queued (state_of w1 ?f) \<subseteq> es_queued (state_of w' ?f)"
      and new: "dc_step ` set (map (step_call ?f dg) (filter (\<lambda>x. x \<notin> busy ?f w1)
          (ready_steps dg (es_completed (state_of w1 ?f))))) \<subseteq> es_queued (state_of w' ?f)"
      by auto
    have "busy ?f w' \<noteq> {}"
    proof (cases "busy ?f w1 = {}")
      case True
      then have "\<not> set (dag_ids dg) \<subseteq> es_completed (state_of w1 ?f)"
        using False known dag by (auto simp: busy_def w1(1) all_done_def after_completion_def)
      then obtain x where "x \<in> set (ready_steps dg (es_completed (state_of w1 ?f)))"
        using ready_steps_exists [OF valid] by (metis list.set_intros(1) neq_Nil_conv)
      then have "x \<in> es_queued (state_of w' ?f)" using new True by (auto simp: image_image)
      then show ?thesis by (auto simp: busy_def)
    qed (use q fr in \<open>auto simp: busy_def sched_frame_def\<close>)
    then show ?thesis using r False by simp
  qed
qed

text \<open>
  A failed step that waits for the recovery controller is dispatched again by the engine itself: when
  any other step of the flow completes, scheduling looks at the queued and running sets but not at the
  failed one, so the step runs again outside the retry budget and back-off of the recovery controller,
  and a second time when the controller retries it.
\<close>

theorem failed_step_redispatched:
  assumes inv: "engine_inv w" and dag: "es_dag (state_of w (ev_flow_id e)) = Some dg"
    and ok: "fw_faults w = (\<lambda>_. None)"
    and ev: "ev_type e = STEP_COMPLETED" "dget (ev_payload e) ''step_id'' = Some (JStr sid)"
    and failed: "x \<in> es_failed (state_of w (ev_flow_id e))" "x \<notin> busy (ev_flow_id e) w" "x \<noteq> sid"
    and ready: "x \<in> set (ready_steps dg (es_completed (state_of w (ev_flow_id e))))"
  shows "step_call (ev_flow_id e) dg x \<in> set (drop (length (fw_dispatched w)) (fw_dispatched (snd (handle d e w))))
    \<and> x \<in> es_failed (state_of (snd (handle d e w)) (ev_flow_id e))"
proof -
  let ?f = "ev_flow_id e"
  let ?st = "after_completion sid (state_of w ?f)"
  obtain s where s: "s \<in> set (dag_steps dg)" "fs_id s = x" "x \<notin> es_completed (state_of w ?f)"
    "set (fs_depends_on s) \<subseteq> es_completed (state_of w ?f)"
    using ready by (auto simp: ready_steps_iff)
  have nd: "\<not> all_done ?st"
    using s dag failed(3) by (auto simp: all_done_def after_completion_def dag_ids_def)
  obtain w1 where w1: "state_of w1 ?f = ?st" "fw_faults w1 = (\<lambda>_. None)" "fw_dispatched w1 = fw_dispatched w"
    and nxt: "handle d e w = schedule_next d ?f w1"
    by (rule handle_step_completed [OF ev, of w d]) (use ok dag nd in simp)
  obtain r w' where sch: "schedule_next d ?f w1 = (r, w')" by (cases "schedule_next d ?f w1")
  have valid: "valid_dag dg" using inv dag by (simp add: engine_inv_def)
  have dag1: "es_dag (state_of w1 ?f) = Some dg" using w1(1) dag by (simp add: after_completion_def)
  have "x \<in> set (filter (\<lambda>x. x \<notin> busy ?f w1) (ready_steps dg (es_completed (state_of w1 ?f))))"
    using s failed by (auto simp: busy_def w1(1) after_completion_def ready_steps_iff)
  moreover from schedule_next_loop [OF valid dag1 sch] w1(2)
  have "fw_dispatched w' = fw_dispatched w @ map (step_call ?f dg)
      (filter (\<lambda>x. x \<notin> busy ?f w1) (ready_steps dg (es_completed (state_of w1 ?f))))"
    and "es_failed (state_of w' ?f) = es_failed (state_of w ?f)"
    by (auto simp: w1(3) sched_frame_def) (simp_all add: w1(1) after_completion_def)
  ultimately show ?thesis using nxt sch failed(1) by auto
qed

section \<open>The properties on a concrete flow\<close>

definition fan_dag :: dag where
  "fan_dag = \<lparr>dag_steps = [demo_step ''a'' [], demo_step ''b'' [], demo_step ''c'' [''a'', ''b'']]\<rparr>"

definition fan_world :: engine_world where
  "fan_world = (engine_init demo_bus (\<lambda>_. None))\<lparr>ew_states :=
     [(''f1'', \<lparr>es_dag = Some fan_dag, es_completed = {}, es_failed = {''a''}, es_queued = {},
        es_running = {''b''}, es_finalized = False\<rparr>)]\<rparr>"

lemma fan_valid: "valid_dag fan_dag"
proof -
  have "validate fan_dag = Inr ()" by code_simp
  then show ?thesis using validate_valid by blast
qed

lemma demo_bus_store: "bus_store demo_bus = empty_store"
  by (simp add: demo_bus_def subscribe_def)

lemma fan_state:
  "state_of fan_world f = (if f = ''f1'' then \<lparr>es_dag = Some fan_dag, es_completed = {}, es_failed = {''a''},
     es_queued = {}, es_running = {''b''}, es_finalized = False\<rparr> else new_flow_state)"
  "fw_faults fan_world = (\<lambda>_. None)" "fw_dispatched fan_world = []"
  by (simp_all add: fan_world_def state_of_def engine_init_def)

lemma fan_inv: "engine_inv fan_world"
proof -
  have "verdicts fan_world f = 0" for f
    by (simp add: verdicts_def fan_world_def engine_init_def demo_bus_store flow_log_def empty_store_def)
  then show ?thesis by (auto simp: engine_inv_def fan_state fan_valid new_flow_state_def split: if_splits)
qed

lemma fan_ready: "ready_steps fan_dag {} = [''a'', ''b'']"
  by code_simp

abbreviation fan_event :: flow_event where
  "fan_event \<equiv> demo_event STEP_COMPLETED [(''step_id'', JStr ''b'')]"

lemma fan_event_simps:
  "ev_flow_id fan_event = ''f1''" "ev_type fan_event = STEP_COMPLETED"
  "dget (ev_payload fan_event) ''step_id'' = Some (JStr ''b'')"
  by (simp_all add: demo_event_def)

theorem engine_one_verdict_witness:
  "bus_store demo_bus = empty_store \<and>
   length (filter is_verdict (flow_log (bus_store (fw_bus (fold (engine_do (\<lambda>_ _. None))
     [Start, Worker ''f1'' STEP_COMPLETED [(''step_id'', JStr ''b'')] WORKER, Redis fan_event, Turn, Stop]
     (engine_init demo_bus (\<lambda>_. None))))) ''f1'')) \<le> 1"
  using engine_one_verdict [OF demo_bus_store] demo_bus_store by blast

theorem schedule_next_dispatches_ready_witness:
  "fw_dispatched (snd (schedule_next (\<lambda>_ _. None) ''f1'' fan_world)) = [step_call ''f1'' fan_dag ''a'']"
proof -
  obtain r w' where run: "schedule_next (\<lambda>_ _. None) ''f1'' fan_world = (r, w')"
    by (cases "schedule_next (\<lambda>_ _. None) ''f1'' fan_world")
  have "es_dag (state_of fan_world ''f1'') = Some fan_dag" by (simp add: fan_state)
  from schedule_next_dispatches_ready [OF fan_valid this run] show ?thesis
    by (auto simp: run fan_state fan_ready busy_def)
qed

theorem completion_makes_progress_witness:
  "busy ''f1'' (snd (handle (\<lambda>_ _. None) fan_event fan_world)) \<noteq> {}"
proof -
  obtain r w' where run: "handle (\<lambda>_ _. None) fan_event fan_world = (r, w')"
    by (cases "handle (\<lambda>_ _. None) fan_event fan_world")
  have ids: "set (dag_ids fan_dag) = {''a'', ''b'', ''c''}" by code_simp
  show ?thesis
    using completion_makes_progress [OF fan_inv _ fan_state(2) _ fan_event_simps(2,3) _ run, of fan_dag]
    by (simp add: run fan_state fan_event_simps all_done_def after_completion_def ids)
qed

theorem failed_step_redispatched_witness:
  "step_call ''f1'' fan_dag ''a'' \<in> set (fw_dispatched (snd (handle (\<lambda>_ _. None) fan_event fan_world)))
   \<and> ''a'' \<in> es_failed (state_of (snd (handle (\<lambda>_ _. None) fan_event fan_world)) ''f1'')"
  using failed_step_redispatched [OF fan_inv _ fan_state(2) fan_event_simps(2,3), of fan_dag "''a''" "\<lambda>_ _. None"]
  by (simp add: fan_state fan_event_simps busy_def fan_ready)

end
