(* ===== verification/Flow_Recovery.thy ===== *)
theory Flow_Recovery
  imports Flow_Engine
begin

text \<open>
  The recovery controller (\<open>src/src/breadmind/flow/recovery.py\<close>) and the worker side of a step
  (\<open>flow/celery_tasks.py\<close>).

  The controller has the flow world of the engine, its own cache of step definitions and its count of LLM
  attempts; \<open>rw_sleeps\<close> records the back-off delays it sleeps. The LLM is a parameter: \<open>None\<close> when none is
  configured, otherwise its reply to a request, which may depend on the requests before it. A reply is
  what \<open>json.loads\<close> makes of the content. The worker's tool registry is a parameter too. In error texts
  the \<open>repr\<close> of a value is left out; floats and containers inside a text print as a placeholder.
\<close>

section \<open>Classification and policy\<close>

definition transient_markers :: "string list" where
  "transient_markers = [''ConnectionError'', ''TimeoutError'', ''timeout'', ''Temporary'', ''TemporaryFailure'',
     ''EOF'', ''Connection reset'', ''429'', '' 500'', '' 502'', '' 503'', '' 504'']"

definition is_transient_error :: "string \<Rightarrow> bool" where
  "is_transient_error m =
     (if m = [] then False
      else list_ex (\<lambda>marker. str_contains (str_lower m) (str_lower marker)) transient_markers)"

record retry_policy =
  rp_max_attempts :: int
  rp_initial_delay :: real
  rp_backoff_factor :: real
  rp_max_delay :: real
  rp_max_llm_attempts :: int

definition default_policy :: retry_policy where
  "default_policy = \<lparr>rp_max_attempts = 3, rp_initial_delay = 1, rp_backoff_factor = 2, rp_max_delay = 60,
     rp_max_llm_attempts = 3\<rparr>"

definition valid_strategies :: "string list" where
  "valid_strategies = [''retry_with_modified_args'', ''replace_step_with_alternative'', ''skip_and_continue'',
     ''escalate'']"

text \<open>\<open>delay = min(initial_delay * backoff_factor ** (attempt - 1), max_delay)\<close>.\<close>

definition retry_delay :: "retry_policy \<Rightarrow> int \<Rightarrow> exn + real" where
  "retry_delay pol attempt =
     (if rp_backoff_factor pol = 0 \<and> attempt < 1
      then Inl (OtherError ''ZeroDivisionError'' ''zero to a negative power'')
      else Inr (min (rp_initial_delay pol * rp_backoff_factor pol powi (attempt - 1)) (rp_max_delay pol)))"

section \<open>State\<close>

datatype llm_reply = LlmError exn | EmptyContent | NotJson string | Plan json

record llm_request =
  lr_step_id :: string
  lr_title :: json
  lr_tool :: json
  lr_args :: json
  lr_error :: string
  lr_attempt :: int

type_synonym llm = "(llm_request list \<Rightarrow> llm_request \<Rightarrow> llm_reply) option"

record recovery_world = flow_world +
  rw_cache :: "(uuid \<times> string, json_obj) dict"
  rw_llm_attempts :: "(uuid \<times> string, int) dict"
  rw_llm_requests :: "llm_request list"
  rw_sleeps :: "real list"
  rw_running :: bool

type_synonym 'a rec_prog = "(recovery_world, 'a) prog"

fun fmt :: "json \<Rightarrow> string" where
  "fmt (JStr s) = s"
| "fmt (JInt i) = int_str i"
| "fmt JNull = ''None''"
| "fmt (JBool b) = (if b then ''True'' else ''False'')"
| "fmt _ = ''...''"

text \<open>\<open>x or default\<close>.\<close>

definition or_else :: "json \<Rightarrow> json \<Rightarrow> json" where
  "or_else v w = (if truthy v then v else w)"

section \<open>Recovery\<close>

definition escalate :: "uuid \<Rightarrow> string \<Rightarrow> string \<Rightarrow> string \<Rightarrow> unit rec_prog" where
  "escalate f sid reason err =
     publish f ESCALATION_RAISED
       [(''step_id'', JStr sid), (''reason'', JStr reason), (''error'', JStr err),
        (''context'', JObj [(''recovery_layer'', JInt 1)])] RECOVERY"

definition publish_recovery_attempt :: "uuid \<Rightarrow> string \<Rightarrow> string \<Rightarrow> json_obj \<Rightarrow> unit rec_prog" where
  "publish_recovery_attempt f sid strategy context =
     publish f RECOVERY_ATTEMPTED
       [(''step_id'', JStr sid), (''strategy'', JStr strategy), (''context'', JObj context)] RECOVERY"

definition requeue :: "uuid \<Rightarrow> string \<Rightarrow> int \<Rightarrow> unit rec_prog" where
  "requeue f sid attempt =
     publish f STEP_QUEUED [(''step_id'', JStr sid), (''attempt'', JInt attempt)] RECOVERY"

definition cache_set :: "uuid \<Rightarrow> string \<Rightarrow> string \<Rightarrow> json \<Rightarrow> unit rec_prog" where
  "cache_set f sid field v =
     bind_s get_s (\<lambda>w.
       case dget (rw_cache w) (f, sid) of
         None \<Rightarrow> raise_s (KeyError sid)
       | Some step \<Rightarrow> modify_s (\<lambda>w. w\<lparr>rw_cache := dset (f, sid) (dset field v step) (rw_cache w)\<rparr>))"

definition retry_with_modified_args ::
  "dispatcher \<Rightarrow> uuid \<Rightarrow> string \<Rightarrow> int \<Rightarrow> json_obj \<Rightarrow> unit rec_prog"
where
  "retry_with_modified_args d f sid attempt plan =
     (case dget_or plan ''args'' JNull of
        JObj new_args \<Rightarrow>
          then_s (cache_set f sid ''args'' (JObj new_args))
         (then_s (publish_recovery_attempt f sid ''llm_retry_with_modified_args''
            [(''reasoning'', dget_or plan ''reasoning'' (JStr [])), (''args'', JObj new_args)])
         (then_s (requeue f sid (attempt + 1))
         (bind_s get_s (\<lambda>w.
            dispatch d \<lparr>dc_flow = f, dc_step = sid,
              dc_tool = (case dget (rw_cache w) (f, sid) of None \<Rightarrow> JNull | Some step \<Rightarrow> dget_or step ''tool'' JNull),
              dc_args = JObj new_args\<rparr>))))
      | _ \<Rightarrow> raise_s (ValueError ''retry_with_modified_args missing 'args' object''))"

definition replace_step ::
  "dispatcher \<Rightarrow> uuid \<Rightarrow> string \<Rightarrow> int \<Rightarrow> json_obj \<Rightarrow> unit rec_prog"
where
  "replace_step d f sid attempt plan =
     (let new_tool = dget_or plan ''tool'' JNull in
      case dget_or plan ''args'' JNull of
        JObj new_args \<Rightarrow>
          if \<not> truthy new_tool
          then raise_s (ValueError ''replace_step_with_alternative missing 'tool' or 'args' '')
          else
            then_s (cache_set f sid ''tool'' new_tool)
           (then_s (cache_set f sid ''args'' (JObj new_args))
           (then_s (publish_recovery_attempt f sid ''llm_replace_step_with_alternative''
              [(''reasoning'', dget_or plan ''reasoning'' (JStr [])), (''tool'', new_tool), (''args'', JObj new_args)])
           (then_s (requeue f sid (attempt + 1))
              (dispatch d \<lparr>dc_flow = f, dc_step = sid, dc_tool = new_tool, dc_args = JObj new_args\<rparr>))))
      | _ \<Rightarrow> raise_s (ValueError ''replace_step_with_alternative missing 'tool' or 'args' ''))"

definition skip_and_continue :: "uuid \<Rightarrow> string \<Rightarrow> json_obj \<Rightarrow> unit rec_prog" where
  "skip_and_continue f sid plan =
     (let reasoning = dget_or plan ''reasoning'' (JStr []) in
      then_s (publish_recovery_attempt f sid ''llm_skip_and_continue'' [(''reasoning'', reasoning)])
        (publish f STEP_COMPLETED
          [(''step_id'', JStr sid),
           (''result'', JObj [(''skipped'', JBool True),
              (''reason'', or_else reasoning (JStr ''llm skip_and_continue''))])] RECOVERY))"

definition llm_escalate :: "uuid \<Rightarrow> string \<Rightarrow> string \<Rightarrow> json_obj \<Rightarrow> unit rec_prog" where
  "llm_escalate f sid err plan =
     (let reasoning = dget_or plan ''reasoning'' (JStr []) in
      then_s (publish_recovery_attempt f sid ''llm_escalate'' [(''reasoning'', reasoning)])
        (escalate f sid (if truthy reasoning then ''llm escalate: '' @ fmt reasoning else ''llm escalate'') err))"

definition llm_request_of :: "string \<Rightarrow> json_obj \<Rightarrow> string \<Rightarrow> int \<Rightarrow> llm_request" where
  "llm_request_of sid step err attempt =
     \<lparr>lr_step_id = sid, lr_title = or_else (dget_or step ''title'' JNull) (JStr sid),
      lr_tool = dget_or step ''tool'' JNull, lr_args = or_else (dget_or step ''args'' (JObj [])) (JObj []),
      lr_error = err, lr_attempt = attempt\<rparr>"

definition apply_plan ::
  "dispatcher \<Rightarrow> uuid \<Rightarrow> string \<Rightarrow> string \<Rightarrow> int \<Rightarrow> json \<Rightarrow> unit rec_prog"
where
  "apply_plan d f sid err attempt v =
     (case v of
        JObj plan \<Rightarrow>
          (case dget_or plan ''strategy'' JNull of
             JStr s \<Rightarrow>
               if s \<notin> set valid_strategies then raise_s (ValueError ''unknown recovery strategy'')
               else if s = ''retry_with_modified_args'' then retry_with_modified_args d f sid attempt plan
               else if s = ''replace_step_with_alternative'' then replace_step d f sid attempt plan
               else if s = ''skip_and_continue'' then skip_and_continue f sid plan
               else llm_escalate f sid err plan
           | JList _ \<Rightarrow> raise_s (TypeError ''unhashable type: list'')
           | JObj _ \<Rightarrow> raise_s (TypeError ''unhashable type: dict'')
           | _ \<Rightarrow> raise_s (ValueError ''unknown recovery strategy''))
      | _ \<Rightarrow> raise_s (OtherError ''AttributeError'' ''no attribute get''))"

definition llm_recover ::
  "dispatcher \<Rightarrow> (llm_request list \<Rightarrow> llm_request \<Rightarrow> llm_reply) \<Rightarrow> uuid \<Rightarrow> string \<Rightarrow> json_obj \<Rightarrow> string \<Rightarrow> int \<Rightarrow>
   unit rec_prog"
where
  "llm_recover d chat f sid step err attempt =
     bind_s get_s (\<lambda>w.
     let req = llm_request_of sid step err attempt in
     then_s (modify_s (\<lambda>w. w\<lparr>rw_llm_requests := rw_llm_requests w @ [req]\<rparr>))
       (case chat (rw_llm_requests w) req of
          LlmError exc \<Rightarrow> raise_s exc
        | EmptyContent \<Rightarrow> raise_s (ValueError ''llm returned empty content'')
        | NotJson msg \<Rightarrow> raise_s (ValueError (''llm response not valid JSON: '' @ msg))
        | Plan v \<Rightarrow> apply_plan d f sid err attempt v))"

definition maybe_llm_recover ::
  "dispatcher \<Rightarrow> retry_policy \<Rightarrow> llm \<Rightarrow> uuid \<Rightarrow> string \<Rightarrow> string \<Rightarrow> int \<Rightarrow> bool rec_prog"
where
  "maybe_llm_recover d pol llm f sid err attempt =
     (case llm of
        None \<Rightarrow> ret False
      | Some chat \<Rightarrow>
          bind_s get_s (\<lambda>w.
            let used = dget_or (rw_llm_attempts w) (f, sid) 0 in
            if rp_max_llm_attempts pol \<le> used then ret False
            else case dget (rw_cache w) (f, sid) of
              None \<Rightarrow> ret False
            | Some step \<Rightarrow>
                then_s (modify_s (\<lambda>w. w\<lparr>rw_llm_attempts := dset (f, sid) (used + 1) (rw_llm_attempts w)\<rparr>))
                  (try_s (then_s (llm_recover d chat f sid step err attempt) (ret True))
                     (\<lambda>exc. then_s (escalate f sid ''llm recovery error'' (exn_str exc)) (ret True)))))"

definition llm_or_escalate ::
  "dispatcher \<Rightarrow> retry_policy \<Rightarrow> llm \<Rightarrow> uuid \<Rightarrow> string \<Rightarrow> string \<Rightarrow> int \<Rightarrow> string \<Rightarrow> unit rec_prog"
where
  "llm_or_escalate d pol llm f sid err attempt reason =
     bind_s (maybe_llm_recover d pol llm f sid err attempt) (\<lambda>taken.
       if taken then ret () else escalate f sid reason err)"

definition sleep :: "real \<Rightarrow> unit rec_prog" where
  "sleep t = (if 0 < t then modify_s (\<lambda>w. w\<lparr>rw_sleeps := rw_sleeps w @ [t]\<rparr>) else ret ())"

definition rule_retry ::
  "dispatcher \<Rightarrow> retry_policy \<Rightarrow> uuid \<Rightarrow> string \<Rightarrow> string \<Rightarrow> int \<Rightarrow> unit rec_prog"
where
  "rule_retry d pol f sid err attempt =
     bind_s (lift_res (retry_delay pol attempt)) (\<lambda>delay.
     then_s (sleep delay)
    (then_s (publish f RECOVERY_ATTEMPTED
       [(''step_id'', JStr sid), (''strategy'', JStr ''rule_retry''), (''attempt'', JInt (attempt + 1)),
        (''delay'', JFloat delay)] RECOVERY)
    (bind_s get_s (\<lambda>w.
       case dget (rw_cache w) (f, sid) of
         None \<Rightarrow> escalate f sid ''step definition unavailable'' err
       | Some step \<Rightarrow>
           then_s (requeue f sid (attempt + 1))
             (try_s (dispatch d \<lparr>dc_flow = f, dc_step = sid, dc_tool = dget_or step ''tool'' JNull,
                 dc_args = or_else (dget_or step ''args'' (JObj [])) (JObj [])\<rparr>)
               (\<lambda>exc. escalate f sid ''retry dispatch failed'' (exn_str exc)))))))"

definition failure_error :: "json_obj \<Rightarrow> exn + string" where
  "failure_error p = as_str (or_else (dget_or p ''error'' (JStr [])) (JStr []))"

definition failure_attempt :: "json_obj \<Rightarrow> int" where
  "failure_attempt p = (case py_int (dget_or p ''attempt'' (JInt 1)) of Inl _ \<Rightarrow> 1 | Inr n \<Rightarrow> n)"

definition try_recover :: "dispatcher \<Rightarrow> retry_policy \<Rightarrow> llm \<Rightarrow> flow_event \<Rightarrow> unit rec_prog" where
  "try_recover d pol llm e =
     (let f = ev_flow_id e; p = ev_payload e; attempt = failure_attempt p in
      bind_s (lift_res (str_item p ''step_id'')) (\<lambda>sid.
      bind_s (lift_res (failure_error p)) (\<lambda>err.
        if \<not> is_transient_error err then llm_or_escalate d pol llm f sid err attempt ''non-transient error''
        else if rp_max_attempts pol \<le> attempt
        then llm_or_escalate d pol llm f sid err attempt ''max attempts exceeded''
        else rule_retry d pol f sid err attempt)))"

definition cache_step :: "uuid \<Rightarrow> json \<Rightarrow> unit rec_prog" where
  "cache_step f j =
     bind_s (lift_res (as_obj j)) (\<lambda>step.
       case dget_or step ''id'' JNull of
         JNull \<Rightarrow> ret ()
       | v \<Rightarrow> bind_s (lift_res (as_str v)) (\<lambda>sid.
           modify_s (\<lambda>w. w\<lparr>rw_cache := dset (f, sid) step (rw_cache w)\<rparr>)))"

definition recovery_handle :: "dispatcher \<Rightarrow> retry_policy \<Rightarrow> llm \<Rightarrow> flow_event \<Rightarrow> unit rec_prog" where
  "recovery_handle d pol llm e =
     (case ev_type e of
        DAG_PROPOSED \<Rightarrow>
          bind_s (lift_res (as_list (or_else (dget_or (ev_payload e) ''steps'' (JList [])) (JList []))))
            (\<lambda>steps. for_s steps (cache_step (ev_flow_id e)))
      | STEP_FAILED \<Rightarrow> try_recover d pol llm e
      | _ \<Rightarrow> ret ())"

definition recovery_start :: "recovery_world \<Rightarrow> recovery_world" where
  "recovery_start w =
     (if rw_running w then w
      else w\<lparr>rw_running := True, fw_bus := subscribe ''recovery-controller'' None None None (fw_bus w)\<rparr>)"

definition recovery_stop :: "recovery_world \<Rightarrow> recovery_world" where
  "recovery_stop w = w\<lparr>rw_running := False, fw_bus := unsubscribe ''recovery-controller'' (fw_bus w)\<rparr>"

definition recovery_turn :: "dispatcher \<Rightarrow> retry_policy \<Rightarrow> llm \<Rightarrow> recovery_world \<Rightarrow> recovery_world" where
  "recovery_turn d pol llm w =
     (if \<not> rw_running w then w
      else case next_event ''recovery-controller'' (fw_bus w) of
        None \<Rightarrow> w
      | Some (e, b) \<Rightarrow> snd (recovery_handle d pol llm e (w\<lparr>fw_bus := b\<rparr>)))"

section \<open>The worker\<close>

text \<open>
  The registry of the worker process, when it is initialised: whether a tool is known, and what executing
  it gives, an exception or a \<open>ToolResult\<close> (success, output).
\<close>

record tool_registry =
  tr_has_tool :: "string \<Rightarrow> bool"
  tr_execute :: "string \<Rightarrow> json \<Rightarrow> exn + (bool \<times> json)"

fun exn_type :: "exn \<Rightarrow> string" where
  "exn_type (KeyError k) = ''KeyError''"
| "exn_type (ValueError m) = ''ValueError''"
| "exn_type (TypeError m) = ''TypeError''"
| "exn_type (IndexError m) = ''IndexError''"
| "exn_type RecursionError = ''RecursionError''"
| "exn_type (DAGValidationError m) = ''DAGValidationError''"
| "exn_type (CyclicDependencyError m) = ''CyclicDependencyError''"
| "exn_type (CircuitOpenError n r) = ''CircuitOpenError''"
| "exn_type (AllProvidersFailed m) = ''AllProvidersFailed''"
| "exn_type (OtherError t m) = t"

definition celery_payload :: "dispatch_call \<Rightarrow> json_obj" where
  "celery_payload c =
     [(''flow_id'', JStr (dc_flow c)), (''step_id'', JStr (dc_step c)), (''tool'', dc_tool c),
      (''args'', or_else (dc_args c) (JObj []))]"

definition run_tool :: "tool_registry option \<Rightarrow> json \<Rightarrow> json \<Rightarrow> exn + json" where
  "run_tool reg tool args =
     (case tool of
        JStr name \<Rightarrow>
          if name = [] then Inr (JObj [(''skipped'', JBool True), (''reason'', JStr ''no tool specified'')])
          else (case reg of
                  None \<Rightarrow> Inr (JObj [(''skipped'', JBool True), (''reason'', JStr ''registry not initialized'')])
                | Some r \<Rightarrow>
                    if \<not> tr_has_tool r name
                    then Inl (ValueError (''tool '' @ quoted name @ '' not registered''))
                    else bind_res (tr_execute r name args) (\<lambda>(success, output).
                      Inr (JObj [(''success'', JBool success), (''output'', output)])))
      | _ \<Rightarrow> Inr (JObj [(''skipped'', JBool True), (''reason'', JStr ''no tool specified'')]))"

definition safe_publish ::
  "bool \<Rightarrow> uuid \<Rightarrow> event_type \<Rightarrow> json_obj \<Rightarrow> ('a flow_world_scheme, unit) prog"
where
  "safe_publish has_bus f t p =
     (if \<not> has_bus then ret () else try_s (publish f t p WORKER) (\<lambda>_. ret ()))"

definition execute_flow_step ::
  "bool \<Rightarrow> tool_registry option \<Rightarrow> int \<Rightarrow> dispatch_call \<Rightarrow> (flow_world, json) prog"
where
  "execute_flow_step has_bus reg duration_ms c =
     (let f = dc_flow c; sid = dc_step c; args = or_else (dc_args c) (JObj []) in
      then_s (safe_publish has_bus f STEP_STARTED [(''step_id'', JStr sid)])
        (case run_tool reg (dc_tool c) args of
           Inl exc \<Rightarrow>
             then_s (safe_publish has_bus f STEP_FAILED
               [(''step_id'', JStr sid), (''error'', JStr (exn_type exc @ '': '' @ exn_str exc)), (''attempt'', JInt 1)])
             (ret (JObj [(''ok'', JBool False), (''error'', JStr (exn_str exc))]))
         | Inr result \<Rightarrow>
             then_s (safe_publish has_bus f STEP_COMPLETED
               [(''step_id'', JStr sid), (''result'', result), (''duration_ms'', JInt duration_ms)])
             (ret (JObj [(''ok'', JBool True), (''result'', result), (''duration_ms'', JInt duration_ms)]))))"


section \<open>Every failure is answered\<close>

lemma retry_delay_bounds:
  assumes "retry_delay pol n = Inr t" and "1 \<le> n" and "0 \<le> rp_initial_delay pol" and "1 \<le> rp_backoff_factor pol"
    and "0 \<le> rp_max_delay pol"
  shows "0 \<le> t \<and> t \<le> rp_max_delay pol \<and> (\<exists>u. retry_delay pol (n + 1) = Inr u \<and> t \<le> u)"
proof -
  let ?b = "rp_backoff_factor pol" and ?i = "rp_initial_delay pol"
  have e: "?b powi (n - 1) = ?b ^ nat (n - 1)" "?b powi n = ?b ^ nat n"
    using assms(2) by (simp_all add: power_int_def)
  have "?b ^ nat (n - 1) \<le> ?b ^ nat n" using assms(4) by (intro power_increasing) auto
  then have "?i * ?b ^ nat (n - 1) \<le> ?i * ?b ^ nat n" using assms(3) by (rule mult_left_mono)
  moreover have "0 \<le> ?i * ?b ^ nat (n - 1)" using assms(3,4) by simp
  ultimately show ?thesis using assms by (auto simp: retry_delay_def e split: if_splits)
qed

text \<open>Growth of the world: nothing is taken back from the log or from the dispatch calls.\<close>

definition events_of :: "'a flow_world_scheme \<Rightarrow> uuid \<Rightarrow> flow_event list" where
  "events_of w f = flow_log (bus_store (fw_bus w)) f"

definition grown :: "'a flow_world_scheme \<Rightarrow> 'a flow_world_scheme \<Rightarrow> bool" where
  "grown w w' \<longleftrightarrow> fw_faults w' = (\<lambda>_. None)
     \<and> prefix (fw_dispatched w) (fw_dispatched w') \<and> (\<forall>f. prefix (events_of w f) (events_of w' f))"

text \<open>
  The failure of a step is answered: the step is dispatched again, or an escalation or a completion
  (a skip) of the step is in the log.
\<close>

definition answered :: "uuid \<Rightarrow> string \<Rightarrow> 'a flow_world_scheme \<Rightarrow> 'a flow_world_scheme \<Rightarrow> bool" where
  "answered f sid w w' \<longleftrightarrow>
     (\<exists>c \<in> set (drop (length (fw_dispatched w)) (fw_dispatched w')). dc_flow c = f \<and> dc_step c = sid)
   \<or> (\<exists>e \<in> set (drop (length (events_of w f)) (events_of w' f)).
        ev_type e \<in> {ESCALATION_RAISED, STEP_COMPLETED} \<and> dget (ev_payload e) ''step_id'' = Some (JStr sid))"

lemma grown_simps [simp]:
  "grown w (w'\<lparr>rw_cache := c\<rparr>) = grown w w'" "grown w (w'\<lparr>rw_sleeps := ss\<rparr>) = grown w w'"
  "grown w (w'\<lparr>rw_llm_attempts := a\<rparr>) = grown w w'" "grown w (w'\<lparr>rw_llm_requests := q\<rparr>) = grown w w'"
  by (simp_all add: grown_def events_of_def)

lemma publish_stored:
  assumes "fw_faults w = (\<lambda>_. None)"
    and "t \<in> {ESCALATION_RAISED, RECOVERY_ATTEMPTED, STEP_QUEUED, STEP_COMPLETED, STEP_STARTED}
      \<or> t = STEP_FAILED \<and> dget p ''error'' = Some (JStr err)"
    and "dget p ''step_id'' = Some (JStr sid)"
  shows "\<exists>b n. publish f t p a w = (Inr (), w\<lparr>fw_bus := b\<rparr>)
    \<and> (\<forall>g. flow_log (bus_store b) g = events_of w g @ (if g = f then [(make_event (fw_now w) f t p a)\<lparr>ev_seq := n\<rparr>] else []))"
proof -
  let ?e = "make_event (fw_now w) f t p a"
  have "\<exists>be. bus_publish (fw_now w) ?e (fw_bus w) = Inr be"
    using assms(2,3) by (auto simp: make_event_def bus_publish_def store_append_def apply_projection_def
        str_item_def str_get_def getitem_def dget_or_def Let_def)
  then obtain b e' where b: "bus_publish (fw_now w) ?e (fw_bus w) = Inr (b, e')" by auto
  note app = bus_publish_subs(3) [OF b]
  have "publish f t p a w = (Inr (), w\<lparr>fw_bus := b\<rparr>)" using assms(1) b by (simp add: publish_def Let_def)
  moreover have "flow_log (bus_store b) g = events_of w g @ (if g = f then [?e\<lparr>ev_seq := ev_seq e'\<rparr>] else [])" for g
    using store_append_log(3) [OF app, of g] store_append_log(2) [OF app] by (auto simp: events_of_def make_event_def)
  ultimately show ?thesis by blast
qed

lemma publish_triple:
  assumes "t \<in> {ESCALATION_RAISED, RECOVERY_ATTEMPTED, STEP_QUEUED, STEP_COMPLETED, STEP_STARTED}"
    and "dget p ''step_id'' = Some (JStr sid)"
  shows "triple (grown w0) (publish f t p a)
    (\<lambda>_ w. grown w0 w \<and> (t \<in> {ESCALATION_RAISED, STEP_COMPLETED} \<longrightarrow> answered f sid w0 w)) (\<lambda>_ _. False)"
proof (rule tripleI)
  fix w w' :: "'a flow_world_scheme" and r assume g: "grown w0 w" and run: "publish f t p a w = (r, w')"
  obtain b n where b: "r = Inr ()" "w' = w\<lparr>fw_bus := b\<rparr>"
    "\<forall>g. flow_log (bus_store b) g = events_of w g @ (if g = f then [(make_event (fw_now w) f t p a)\<lparr>ev_seq := n\<rparr>] else [])"
    using publish_stored [OF _ disjI1 [OF assms(1)] assms(2), of w f a] g run by (auto simp: grown_def)
  have ev: "events_of w' h = events_of w h @ (if h = f then [(make_event (fw_now w) f t p a)\<lparr>ev_seq := n\<rparr>] else [])" for h
    using b by (simp add: events_of_def)
  have "prefix (events_of w0 h) (events_of w' h)" for h
    using g unfolding ev grown_def by (auto intro: prefix_prefix)
  then have "grown w0 w'" using g b(2) by (simp add: grown_def)
  moreover have "answered f sid w0 w'" if "t \<in> {ESCALATION_RAISED, STEP_COMPLETED}"
  proof -
    obtain zs where "events_of w f = events_of w0 f @ zs" using g by (auto simp: grown_def prefix_def)
    then show ?thesis using that assms(2) by (auto simp: answered_def ev make_event_def)
  qed
  ultimately show "case r of Inl e \<Rightarrow> False | Inr x \<Rightarrow>
      grown w0 w' \<and> (t \<in> {ESCALATION_RAISED, STEP_COMPLETED} \<longrightarrow> answered f sid w0 w')"
    using b(1) by simp
qed

lemma dispatch_triple:
  "triple (grown w0) (dispatch d c) (\<lambda>_. answered (dc_flow c) (dc_step c) w0) (\<lambda>_. grown w0)"
proof (rule tripleI)
  fix w w' :: "'a flow_world_scheme" and r assume g: "grown w0 w" and run: "dispatch d c w = (r, w')"
  have "w' = w\<lparr>fw_dispatched := fw_dispatched w @ [c]\<rparr>" by (rule dispatch_frame [OF run])
  then show "case r of Inl e \<Rightarrow> grown w0 w' | Inr x \<Rightarrow> answered (dc_flow c) (dc_step c) w0 w'"
    using g by (auto simp: grown_def answered_def events_of_def prefix_def split: sum.splits)
qed

lemma escalate_triple: "triple (grown w0) (escalate f sid reason err) (\<lambda>_. answered f sid w0) (\<lambda>_ _. False)"
  unfolding escalate_def by (rule triple_weaken [OF publish_triple [where sid = sid]]) auto

lemma attempt_triple:
  "triple (grown w0) (publish_recovery_attempt f sid s c) (\<lambda>_. grown w0) (\<lambda>_. grown w0)"
  unfolding publish_recovery_attempt_def by (rule triple_weaken [OF publish_triple [where sid = sid]]) auto

lemma requeue_triple: "triple (grown w0) (requeue f sid n) (\<lambda>_. grown w0) (\<lambda>_. grown w0)"
  unfolding requeue_def by (rule triple_weaken [OF publish_triple [where sid = sid]]) auto

lemma cache_set_triple: "triple (grown w0) (cache_set f sid k v) (\<lambda>_. grown w0) (\<lambda>_. grown w0)"
  unfolding cache_set_def by (rule triple_get) (auto intro: triple_raise triple_modify split: option.splits)

lemma apply_plan_triple:
  "triple (grown w0) (apply_plan d f sid err n v) (\<lambda>_. answered f sid w0) (\<lambda>_. grown w0)"
proof -
  note seq = triple_bind [OF cache_set_triple] triple_bind [OF attempt_triple] triple_bind [OF requeue_triple]
  have dis: "triple (grown w0) (dispatch d \<lparr>dc_flow = f, dc_step = sid, dc_tool = t, dc_args = a\<rparr>)
      (\<lambda>_. answered f sid w0) (\<lambda>_. grown w0)" for t a
    using dispatch_triple [of w0 d "\<lparr>dc_flow = f, dc_step = sid, dc_tool = t, dc_args = a\<rparr>"] by simp
  have esc: "triple (grown w0) (escalate f sid r err) (\<lambda>_. answered f sid w0) (\<lambda>_. grown w0)" for r
    by (rule triple_weaken [OF escalate_triple]) auto
  have skip: "triple (grown w0) (publish f STEP_COMPLETED ((''step_id'', JStr sid) # p) a)
      (\<lambda>_. answered f sid w0) (\<lambda>_. grown w0)" for p a
    by (rule triple_weaken [OF publish_triple [where sid = sid]]) auto
  have "triple (grown w0) (retry_with_modified_args d f sid n plan) (\<lambda>_. answered f sid w0) (\<lambda>_. grown w0)" for plan
    unfolding retry_with_modified_args_def
    by (auto intro!: seq triple_get triple_raise split: json.splits) (rule triple_pre [OF dis], simp)
  moreover have "triple (grown w0) (replace_step d f sid n plan) (\<lambda>_. answered f sid w0) (\<lambda>_. grown w0)" for plan
    unfolding replace_step_def Let_def by (auto intro!: seq dis triple_raise split: json.splits)
  moreover have "triple (grown w0) (skip_and_continue f sid plan) (\<lambda>_. answered f sid w0) (\<lambda>_. grown w0)" for plan
    unfolding skip_and_continue_def Let_def by (intro seq skip)
  moreover have "triple (grown w0) (llm_escalate f sid err plan) (\<lambda>_. answered f sid w0) (\<lambda>_. grown w0)" for plan
    unfolding llm_escalate_def Let_def by (intro seq esc)
  ultimately show ?thesis
    unfolding apply_plan_def by (auto intro!: triple_raise split: json.splits)
qed

text \<open>
  The LLM layer takes over, or declines without a trace. The two counters it advances are the same
  bookkeeping: the attempt of the step and the request sent.
\<close>

definition charged :: "uuid \<Rightarrow> string \<Rightarrow> llm_request \<Rightarrow> recovery_world \<Rightarrow> recovery_world" where
  "charged f sid req w = w\<lparr>rw_llm_attempts := dset (f, sid) (dget_or (rw_llm_attempts w) (f, sid) 0 + 1)
     (rw_llm_attempts w), rw_llm_requests := rw_llm_requests w @ [req]\<rparr>"

definition llm_outcome :: "dispatcher \<Rightarrow> uuid \<Rightarrow> string \<Rightarrow> string \<Rightarrow> int \<Rightarrow> llm_reply \<Rightarrow> unit rec_prog" where
  "llm_outcome d f sid err attempt reply =
     (case reply of
        LlmError exc \<Rightarrow> raise_s exc
      | EmptyContent \<Rightarrow> raise_s (ValueError ''llm returned empty content'')
      | NotJson msg \<Rightarrow> raise_s (ValueError (''llm response not valid JSON: '' @ msg))
      | Plan v \<Rightarrow> apply_plan d f sid err attempt v)"

lemma maybe_llm_cases:
  obtains "maybe_llm_recover d pol llm f sid err n w = (Inr False, w)"
  | chat step where "llm = Some chat" "dget (rw_cache w) (f, sid) = Some step"
      "dget_or (rw_llm_attempts w) (f, sid) 0 < rp_max_llm_attempts pol"
      "maybe_llm_recover d pol llm f sid err n w =
        try_s (then_s (llm_outcome d f sid err n (chat (rw_llm_requests w) (llm_request_of sid step err n))) (ret True))
          (\<lambda>exc. then_s (escalate f sid ''llm recovery error'' (exn_str exc)) (ret True))
          (charged f sid (llm_request_of sid step err n) w)"
proof (cases "\<exists>chat step. llm = Some chat \<and> dget (rw_cache w) (f, sid) = Some step \<and>
    dget_or (rw_llm_attempts w) (f, sid) 0 < rp_max_llm_attempts pol")
  case True
  then show ?thesis
    by (auto intro!: that(2) simp: maybe_llm_recover_def llm_recover_def llm_outcome_def charged_def run_defs Let_def)
next
  case False
  then show ?thesis
    by (intro that(1)) (auto simp: maybe_llm_recover_def run_defs Let_def not_less split: option.splits)
qed

lemma llm_outcome_triple:
  "triple (grown w0) (llm_outcome d f sid err n reply) (\<lambda>_. answered f sid w0) (\<lambda>_. grown w0)"
  unfolding llm_outcome_def by (auto intro!: triple_raise apply_plan_triple split: llm_reply.splits)

lemma llm_or_escalate_triple:
  "triple (grown w0) (llm_or_escalate d pol llm f sid err n reason) (\<lambda>_. answered f sid w0) (\<lambda>_ _. False)"
proof -
  have act: "triple (grown w0) (try_s (then_s (llm_outcome d f sid err n reply) (ret True))
      (\<lambda>exc. then_s (escalate f sid ''llm recovery error'' (exn_str exc)) (ret True)))
      (\<lambda>taken w. taken \<and> answered f sid w0 w) (\<lambda>_ _. False)" for reply
    by (intro triple_try [where M = "\<lambda>_. grown w0"] triple_bind [OF llm_outcome_triple]
        triple_bind [OF escalate_triple] triple_ret) auto
  have "triple (grown w0) (maybe_llm_recover d pol llm f sid err n)
     (\<lambda>taken w. (taken \<longrightarrow> answered f sid w0 w) \<and> (\<not> taken \<longrightarrow> grown w0 w)) (\<lambda>_ _. False)"
  proof (rule tripleI)
    fix w w' r assume g: "grown w0 w" and run: "maybe_llm_recover d pol llm f sid err n w = (r, w')"
    show "case r of Inl e \<Rightarrow> False | Inr taken \<Rightarrow> (taken \<longrightarrow> answered f sid w0 w') \<and> (\<not> taken \<longrightarrow> grown w0 w')"
    proof (cases rule: maybe_llm_cases [of d pol llm f sid err n w])
      case 1
      then show ?thesis using run g by auto
    next
      case (2 chat step)
      have "grown w0 (charged f sid (llm_request_of sid step err n) w)" using g by (simp add: charged_def)
      from triple_returns [OF act this, of "chat (rw_llm_requests w) (llm_request_of sid step err n)"] 2(4) run
      show ?thesis by auto
    qed
  qed
  then show ?thesis unfolding llm_or_escalate_def
    by (rule triple_bind) (auto intro: triple_ret triple_pre [OF escalate_triple])
qed

lemma rule_retry_triple:
  assumes "retry_delay pol n = Inr t"
  shows "triple (grown w0) (rule_retry d pol f sid err n) (\<lambda>_. answered f sid w0) (\<lambda>_ _. False)"
proof -
  have sleep: "triple (grown w0) (sleep t) (\<lambda>_. grown w0) (\<lambda>_ _. False)" for t
    unfolding sleep_def by (auto intro: triple_ret triple_modify)
  have pub: "triple (grown w0) (publish f RECOVERY_ATTEMPTED ((''step_id'', JStr sid) # p) a) (\<lambda>_. grown w0) (\<lambda>_ _. False)"
    "triple (grown w0) (requeue f sid m) (\<lambda>_. grown w0) (\<lambda>_ _. False)" for p a m
    unfolding requeue_def by (rule triple_weaken [OF publish_triple [where sid = sid]]; auto)+
  have dis: "triple (grown w0) (try_s (dispatch d \<lparr>dc_flow = f, dc_step = sid, dc_tool = tl, dc_args = a\<rparr>)
      (\<lambda>exc. escalate f sid ''retry dispatch failed'' (exn_str exc))) (\<lambda>_. answered f sid w0) (\<lambda>_ _. False)" for tl a
    using dispatch_triple [of w0 d "\<lparr>dc_flow = f, dc_step = sid, dc_tool = tl, dc_args = a\<rparr>"]
    by (intro triple_try [where M = "\<lambda>_. grown w0"] escalate_triple) simp
  have "triple (grown w0) (bind_s (lift_res (retry_delay pol n)) k) Q R = triple (grown w0) (k t) Q R"
    for k :: "real \<Rightarrow> unit rec_prog" and Q R
    using assms by (simp add: triple_def bind_s_def lift_res_def)
  then show ?thesis unfolding rule_retry_def
    by (auto intro!: triple_bind [OF sleep] triple_bind [OF pub(1)] triple_get
        intro: triple_pre [OF triple_bind [OF pub(2) dis]] triple_pre [OF escalate_triple] split: option.splits)
qed


section \<open>Budgets\<close>

definition recovery_inv :: "retry_policy \<Rightarrow> recovery_world \<Rightarrow> bool" where
  "recovery_inv pol w \<longleftrightarrow>
     (\<forall>t \<in> set (rw_sleeps w). 0 < t \<and> t \<le> rp_max_delay pol)
   \<and> distinct (dkeys (rw_llm_attempts w))
   \<and> (\<forall>n \<in> set (dvalues (rw_llm_attempts w)). 0 < n \<and> n \<le> rp_max_llm_attempts pol)
   \<and> int (length (rw_llm_requests w)) = sum_list (dvalues (rw_llm_attempts w))"

lemma recovery_inv_frame [simp]:
  "recovery_inv pol (w\<lparr>fw_bus := b\<rparr>) = recovery_inv pol w"
  "recovery_inv pol (w\<lparr>fw_dispatched := ds\<rparr>) = recovery_inv pol w"
  "recovery_inv pol (w\<lparr>rw_cache := c\<rparr>) = recovery_inv pol w"
  "recovery_inv pol (w\<lparr>rw_running := r\<rparr>) = recovery_inv pol w"
  "recovery_inv pol (w\<lparr>fw_now := n\<rparr>) = recovery_inv pol w"
  "recovery_inv pol (w\<lparr>fw_faults := ft\<rparr>) = recovery_inv pol w"
  by (simp_all add: recovery_inv_def)

lemma keeps_rec_publish [keeps_rules]: "keeps (recovery_inv pol) (publish f t p a)"
proof (rule keepsI)
  fix w assume inv: "recovery_inv pol w"
  obtain r w' where run: "publish f t p a w = (r, w')" by (cases "publish f t p a w")
  then have "recovery_inv pol w'" by (cases rule: publish_cases) (use inv in simp_all)
  then show "recovery_inv pol (snd (publish f t p a w))" by (simp add: run)
qed

lemma keeps_rec_dispatch [keeps_rules]: "keeps (recovery_inv pol) (dispatch d c)"
  by (rule keepsI) (simp add: dispatch_def Let_def split: option.splits)

lemma keeps_cache_set [keeps_rules]: "keeps (recovery_inv pol) (cache_set f sid k v)"
  unfolding cache_set_def
  by (rule keeps_get_bind) (auto simp: raise_s_def modify_s_def split: option.splits)

lemmas recovery_publishers = escalate_def publish_recovery_attempt_def requeue_def

lemma keeps_apply_plan [keeps_rules]: "keeps (recovery_inv pol) (apply_plan d f sid err n v)"
proof -
  have "keeps (recovery_inv pol) (retry_with_modified_args d f sid n plan)"
    "keeps (recovery_inv pol) (replace_step d f sid n plan)" for plan
    unfolding retry_with_modified_args_def replace_step_def Let_def recovery_publishers
    by (auto intro!: keeps_rules split: json.splits)
  moreover have "keeps (recovery_inv pol) (skip_and_continue f sid plan)"
    "keeps (recovery_inv pol) (llm_escalate f sid err plan)" for plan
    unfolding skip_and_continue_def llm_escalate_def Let_def recovery_publishers
    by (auto intro!: keeps_rules)
  ultimately show ?thesis
    unfolding apply_plan_def by (auto intro!: keeps_rules split: json.splits)
qed

lemma charged_inv:
  assumes inv: "recovery_inv pol w" and lt: "dget_or (rw_llm_attempts w) (f, sid) 0 < rp_max_llm_attempts pol"
  shows "recovery_inv pol (charged f sid req w)"
proof -
  let ?n = "dget_or (rw_llm_attempts w) (f, sid) 0"
  have "0 \<le> ?n"
    using inv by (auto simp: recovery_inv_def dget_or_def split: option.splits dest!: map_of_SomeD)
  then have "\<forall>n \<in> insert (?n + 1) (set (dvalues (rw_llm_attempts w))). 0 < n \<and> n \<le> rp_max_llm_attempts pol"
    using inv lt by (auto simp: recovery_inv_def)
  then have "\<forall>n \<in> set (dvalues (dset (f, sid) (?n + 1) (rw_llm_attempts w))). 0 < n \<and> n \<le> rp_max_llm_attempts pol"
    using dvalues_dset_subset [of "(f, sid)" "?n + 1" "rw_llm_attempts w"] by blast
  moreover have "distinct (dkeys (rw_llm_attempts w))" using inv by (simp add: recovery_inv_def)
  ultimately show ?thesis
    using inv by (simp add: recovery_inv_def charged_def sum_dvalues_dset)
qed

lemma keeps_llm_or_escalate [keeps_rules]:
  "keeps (recovery_inv pol) (llm_or_escalate d pol llm f sid err n reason)"
  unfolding llm_or_escalate_def
proof (intro keeps_bind_s keeps_if keeps_ret)
  show "keeps (recovery_inv pol) (maybe_llm_recover d pol llm f sid err n)"
  proof (rule keepsI)
    fix w assume inv: "recovery_inv pol w"
    show "recovery_inv pol (snd (maybe_llm_recover d pol llm f sid err n w))"
    proof (cases rule: maybe_llm_cases [of d pol llm f sid err n w])
      case (2 chat step)
      have "keeps (recovery_inv pol) (try_s (then_s (llm_outcome d f sid err n reply) (ret True))
          (\<lambda>exc. then_s (escalate f sid ''llm recovery error'' (exn_str exc)) (ret True)))" for reply
        unfolding llm_outcome_def recovery_publishers by (auto intro!: keeps_rules split: llm_reply.splits)
      from keepsD [OF this charged_inv [OF inv 2(3)]] 2(4) show ?thesis by simp
    qed (simp add: inv)
  qed
  show "keeps (recovery_inv pol) (escalate f sid reason err)"
    unfolding recovery_publishers by (intro keeps_rules)
qed

lemma keeps_sleep: "t \<le> rp_max_delay pol \<Longrightarrow> keeps (recovery_inv pol) (sleep t)"
  unfolding sleep_def by (auto intro!: keeps_rules keeps_modify_s simp: recovery_inv_def)

lemma retry_delay_max: "retry_delay pol n = Inr t \<Longrightarrow> t \<le> rp_max_delay pol"
  by (auto simp: retry_delay_def split: if_splits)

lemma keeps_rule_retry [keeps_rules]: "keeps (recovery_inv pol) (rule_retry d pol f sid err n)"
  unfolding rule_retry_def recovery_publishers
  by (rule keeps_bind_lift_res)
    (auto intro!: keeps_rules keeps_sleep dest: retry_delay_max split: option.splits)

lemma keeps_recovery_handle: "keeps (recovery_inv pol) (recovery_handle d pol llm e)"
proof -
  have "keeps (recovery_inv pol) (cache_step f j)" for f j
    unfolding cache_step_def by (auto intro!: keeps_rules keeps_modify_s split: json.splits)
  then show ?thesis
    unfolding recovery_handle_def try_recover_def Let_def
    by (auto intro!: keeps_rules split: event_type.splits)
qed

text \<open>Around the controller: its task starts, stops and takes turns; the bus, the clock and the database change.\<close>

datatype recovery_op = RTurn | RStart | RStop | RBus bus | RTick int "flow_event \<Rightarrow> exn option"

fun recovery_do :: "dispatcher \<Rightarrow> retry_policy \<Rightarrow> llm \<Rightarrow> recovery_op \<Rightarrow> recovery_world \<Rightarrow> recovery_world" where
  "recovery_do d pol llm RTurn w = recovery_turn d pol llm w"
| "recovery_do d pol llm RStart w = recovery_start w"
| "recovery_do d pol llm RStop w = recovery_stop w"
| "recovery_do d pol llm (RBus b) w = w\<lparr>fw_bus := b\<rparr>"
| "recovery_do d pol llm (RTick n ft) w = w\<lparr>fw_now := n, fw_faults := ft\<rparr>"

interpretation recovery_machine: machine "recovery_do d pol llm" "recovery_inv pol" for d pol llm
proof unfold_locales
  fix w x assume inv: "recovery_inv pol w"
  have "recovery_inv pol (recovery_turn d pol llm w)"
    using inv by (auto simp: recovery_turn_def intro!: keepsD [OF keeps_recovery_handle] split: option.splits)
  then show "recovery_inv pol (recovery_do d pol llm x w)"
    using inv by (cases x) (simp_all add: recovery_start_def recovery_stop_def)
qed

definition recovery_init :: "bus \<Rightarrow> recovery_world" where
  "recovery_init b = \<lparr>fw_bus = b, fw_now = 0, fw_faults = (\<lambda>_. None), fw_dispatched = [], rw_cache = [],
     rw_llm_attempts = [], rw_llm_requests = [], rw_sleeps = [], rw_running = False\<rparr>"

lemma sum_list_bound: "(\<forall>n \<in> set xs. n \<le> (m :: int)) \<Longrightarrow> sum_list xs \<le> m * int (length xs)"
  by (induction xs) (auto simp: algebra_simps)

text \<open>
  The recovery budgets hold over every run of the controller, whatever events arrive and whatever the
  LLM and the dispatcher answer: no step has more than \<open>max_llm_attempts\<close> LLM consultations, the number of
  requests sent is at most that bound times the number of steps consulted about, and no back-off sleep is
  longer than \<open>max_delay\<close>.
\<close>

theorem recovery_budgets:
  "(\<forall>k n. dget (rw_llm_attempts (fold (recovery_do d pol llm) ops (recovery_init b))) k = Some n \<longrightarrow>
       n \<le> rp_max_llm_attempts pol)
   \<and> int (length (rw_llm_requests (fold (recovery_do d pol llm) ops (recovery_init b))))
       \<le> rp_max_llm_attempts pol * int (length (rw_llm_attempts (fold (recovery_do d pol llm) ops (recovery_init b))))
   \<and> (\<forall>t \<in> set (rw_sleeps (fold (recovery_do d pol llm) ops (recovery_init b))). 0 < t \<and> t \<le> rp_max_delay pol)"
proof -
  have "recovery_inv pol (recovery_init b)" by (simp add: recovery_inv_def recovery_init_def)
  then have inv: "recovery_inv pol (fold (recovery_do d pol llm) ops (recovery_init b))" (is "recovery_inv _ ?w")
    by (rule recovery_machine.run_inv)
  have "sum_list (dvalues (rw_llm_attempts ?w)) \<le> rp_max_llm_attempts pol * int (length (dvalues (rw_llm_attempts ?w)))"
    using inv by (intro sum_list_bound) (auto simp: recovery_inv_def)
  moreover have "n \<le> rp_max_llm_attempts pol" if "dget (rw_llm_attempts ?w) k = Some n" for k n
    using inv map_of_SomeD [OF that] by (force simp: recovery_inv_def)
  ultimately show ?thesis using inv by (simp add: recovery_inv_def)
qed

section \<open>The worker's report\<close>

lemma safe_publish_stored:
  assumes "fw_faults w = (\<lambda>_. None)"
    and "t \<in> {STEP_STARTED, STEP_COMPLETED} \<or> t = STEP_FAILED \<and> dget p ''error'' = Some (JStr err)"
    and "dget p ''step_id'' = Some (JStr sid)"
  obtains b e' where "safe_publish True f t p w = (Inr (), w\<lparr>fw_bus := b\<rparr>)"
    "flow_log (bus_store b) f = events_of w f @ [e']" "ev_type e' = t" "ev_payload e' = p"
proof -
  have "t \<in> {ESCALATION_RAISED, RECOVERY_ATTEMPTED, STEP_QUEUED, STEP_COMPLETED, STEP_STARTED}
      \<or> t = STEP_FAILED \<and> dget p ''error'' = Some (JStr err)" using assms(2) by auto
  from publish_stored [OF assms(1) this assms(3), of f WORKER] obtain b n where
    "publish f t p WORKER w = (Inr (), w\<lparr>fw_bus := b\<rparr>)"
    "flow_log (bus_store b) f = events_of w f @ [(make_event (fw_now w) f t p WORKER)\<lparr>ev_seq := n\<rparr>]"
    by auto
  then show ?thesis by (intro that) (auto simp: safe_publish_def try_s_def make_event_def)
qed

text \<open>
  What a worker reports: when it can publish, running a step appends exactly two events to the flow,
  \<open>STEP_STARTED\<close> and then \<open>STEP_FAILED\<close> if the tool raised an exception and \<open>STEP_COMPLETED\<close> otherwise, and
  the call itself never raises. So a tool whose result says \<open>success = False\<close> (which is how the registry
  reports a failing tool) completes its step, and a failure is always reported as attempt 1.
\<close>

theorem worker_reports_outcome:
  assumes "fw_faults w = (\<lambda>_. None)"
  shows "\<exists>v w' started outcome. execute_flow_step True reg ms c w = (Inr v, w')
    \<and> events_of w' (dc_flow c) = events_of w (dc_flow c) @ [started, outcome]
    \<and> ev_type started = STEP_STARTED
    \<and> (case run_tool reg (dc_tool c) (or_else (dc_args c) (JObj [])) of
         Inl exc \<Rightarrow> ev_type outcome = STEP_FAILED \<and> failure_attempt (ev_payload outcome) = 1
           \<and> failure_error (ev_payload outcome) = Inr (exn_type exc @ '': '' @ exn_str exc)
       | Inr result \<Rightarrow> ev_type outcome = STEP_COMPLETED \<and> dget (ev_payload outcome) ''result'' = Some result)"
proof -
  let ?f = "dc_flow c" and ?sid = "dc_step c"
  obtain b1 e1 where 1: "safe_publish True ?f STEP_STARTED [(''step_id'', JStr ?sid)] w = (Inr (), w\<lparr>fw_bus := b1\<rparr>)"
    "flow_log (bus_store b1) ?f = events_of w ?f @ [e1]" "ev_type e1 = STEP_STARTED"
    by (rule safe_publish_stored [OF assms, of STEP_STARTED "[(''step_id'', JStr ?sid)]" _ ?sid ?f]) auto
  let ?w = "w\<lparr>fw_bus := b1\<rparr>"
  have ft: "fw_faults ?w = (\<lambda>_. None)" and ev: "events_of ?w ?f = events_of w ?f @ [e1]"
    using assms 1(2) by (simp_all add: events_of_def)
  show ?thesis
  proof (cases "run_tool reg (dc_tool c) (or_else (dc_args c) (JObj []))")
    case (Inl exc)
    let ?p = "[(''step_id'', JStr ?sid), (''error'', JStr (exn_type exc @ '': '' @ exn_str exc)), (''attempt'', JInt 1)]"
    obtain b2 e2 where "safe_publish True ?f STEP_FAILED ?p ?w = (Inr (), ?w\<lparr>fw_bus := b2\<rparr>)"
      "flow_log (bus_store b2) ?f = events_of ?w ?f @ [e2]" "ev_type e2 = STEP_FAILED" "ev_payload e2 = ?p"
      by (rule safe_publish_stored [OF ft, of STEP_FAILED ?p _ ?sid ?f]) auto
    then show ?thesis using 1 Inl
      by (simp add: execute_flow_step_def Let_def bind_s_def ret_def events_of_def failure_attempt_def
          failure_error_def or_else_def dget_or_def) 
  next
    case (Inr result)
    let ?p = "[(''step_id'', JStr ?sid), (''result'', result), (''duration_ms'', JInt ms)]"
    obtain b2 e2 where "safe_publish True ?f STEP_COMPLETED ?p ?w = (Inr (), ?w\<lparr>fw_bus := b2\<rparr>)"
      "flow_log (bus_store b2) ?f = events_of ?w ?f @ [e2]" "ev_type e2 = STEP_COMPLETED" "ev_payload e2 = ?p"
      by (rule safe_publish_stored [OF ft, of STEP_COMPLETED ?p _ ?sid ?f]) auto
    then show ?thesis using 1 Inr
      by (simp add: execute_flow_step_def Let_def bind_s_def ret_def events_of_def)
  qed
qed

section \<open>The retry budget across worker and controller\<close>

definition no_escalation :: "uuid \<Rightarrow> recovery_world \<Rightarrow> recovery_world \<Rightarrow> bool" where
  "no_escalation f w w' \<longleftrightarrow>
     filter (\<lambda>e. ev_type e = ESCALATION_RAISED) (events_of w' f) =
     filter (\<lambda>e. ev_type e = ESCALATION_RAISED) (events_of w f)"

lemma requeue_publish_stored:
  assumes "fw_faults w = (\<lambda>_. None)" and "t \<in> {RECOVERY_ATTEMPTED, STEP_QUEUED}"
    and "dget p ''step_id'' = Some (JStr sid)"
  obtains b where "publish f t p a w = (Inr (), w\<lparr>fw_bus := b\<rparr>)"
    and "filter (\<lambda>e. ev_type e = ESCALATION_RAISED) (flow_log (bus_store b) f) =
      filter (\<lambda>e. ev_type e = ESCALATION_RAISED) (events_of w f)"
proof -
  have "t \<in> {ESCALATION_RAISED, RECOVERY_ATTEMPTED, STEP_QUEUED, STEP_COMPLETED, STEP_STARTED}
      \<or> t = STEP_FAILED \<and> dget p ''error'' = Some (JStr [])" using assms(2) by auto
  from publish_stored [OF assms(1) this assms(3), of f a] obtain b n where
    "publish f t p a w = (Inr (), w\<lparr>fw_bus := b\<rparr>)"
    "flow_log (bus_store b) f = events_of w f @ [(make_event (fw_now w) f t p a)\<lparr>ev_seq := n\<rparr>]"
    by auto
  then show ?thesis using assms(2) by (intro that) (auto simp: make_event_def)
qed

lemma rule_retry_once:
  assumes ft: "fw_faults w = (\<lambda>_. None)" and acc: "\<And>cs c. d cs c = None"
    and cached: "dget (rw_cache w) (f, sid) = Some step" and delay: "retry_delay pol n = Inr t"
  defines "call \<equiv> \<lparr>dc_flow = f, dc_step = sid, dc_tool = dget_or step ''tool'' JNull,
     dc_args = or_else (dget_or step ''args'' (JObj [])) (JObj [])\<rparr>"
  shows "\<exists>w'. rule_retry d pol f sid err n w = (Inr (), w') \<and> fw_dispatched w' = fw_dispatched w @ [call]
    \<and> fw_faults w' = fw_faults w \<and> rw_cache w' = rw_cache w \<and> no_escalation f w w'"
proof -
  define w1 where "w1 = snd (sleep t w)"
  have w1: "sleep t w = (Inr (), w1)" "fw_faults w1 = fw_faults w" "rw_cache w1 = rw_cache w"
    "fw_dispatched w1 = fw_dispatched w" "events_of w1 f = events_of w f"
    by (simp_all add: w1_def sleep_def modify_s_def ret_def events_of_def)
  let ?p = "[(''step_id'', JStr sid), (''strategy'', JStr ''rule_retry''), (''attempt'', JInt (n + 1)),
        (''delay'', JFloat t)]"
  have ft1: "fw_faults w1 = (\<lambda>_. None)" using ft w1 by simp
  obtain b1 where b1: "publish f RECOVERY_ATTEMPTED ?p RECOVERY w1 = (Inr (), w1\<lparr>fw_bus := b1\<rparr>)"
    "filter (\<lambda>e. ev_type e = ESCALATION_RAISED) (flow_log (bus_store b1) f) =
     filter (\<lambda>e. ev_type e = ESCALATION_RAISED) (events_of w1 f)"
    by (rule requeue_publish_stored [OF ft1, of RECOVERY_ATTEMPTED ?p sid f RECOVERY]) auto
  let ?w2 = "w1\<lparr>fw_bus := b1\<rparr>"
  have ft2: "fw_faults ?w2 = (\<lambda>_. None)" using ft1 by simp
  let ?q = "[(''step_id'', JStr sid), (''attempt'', JInt (n + 1))]"
  obtain b2 where b2: "publish f STEP_QUEUED ?q RECOVERY ?w2 = (Inr (), ?w2\<lparr>fw_bus := b2\<rparr>)"
    "filter (\<lambda>e. ev_type e = ESCALATION_RAISED) (flow_log (bus_store b2) f) =
     filter (\<lambda>e. ev_type e = ESCALATION_RAISED) (events_of ?w2 f)"
    by (rule requeue_publish_stored [OF ft2, of STEP_QUEUED ?q sid f RECOVERY]) auto
  let ?w3 = "?w2\<lparr>fw_bus := b2, fw_dispatched := fw_dispatched w @ [call]\<rparr>"
  have "rule_retry d pol f sid err n w = (Inr (), ?w3)"
    using delay w1 b1(1) b2(1) cached
    by (simp add: rule_retry_def requeue_def bind_s_def lift_res_def get_s_def try_s_def dispatch_def acc call_def Let_def)
  then show ?thesis using w1 b1(2) b2(2) by (auto simp: no_escalation_def events_of_def)
qed

text \<open>
  The transient-error retry budget is never spent: since a worker reports every failure as attempt 1, a
  step that keeps failing with a transient error is dispatched again after each of any number \<open>n\<close> of
  failures, with no escalation, although \<open>max_attempts\<close> is meant to bound the
  retries (with the default policy three).
\<close>

theorem transient_retries_unbounded:
  assumes ft: "fw_faults w = (\<lambda>_. None)" and acc: "\<And>cs c. d cs c = None"
    and cached: "dget (rw_cache w) (ev_flow_id e, sid) = Some step" and pol: "1 < rp_max_attempts pol"
    and ev: "ev_type e = STEP_FAILED" "dget (ev_payload e) ''step_id'' = Some (JStr sid)"
      "failure_attempt (ev_payload e) = 1" "failure_error (ev_payload e) = Inr err" "is_transient_error err"
  shows "no_escalation (ev_flow_id e) w (((snd \<circ> recovery_handle d pol llm e) ^^ n) w)
    \<and> length (fw_dispatched (((snd \<circ> recovery_handle d pol llm e) ^^ n) w)) = length (fw_dispatched w) + n"
proof -
  let ?f = "ev_flow_id e"
  define r where "r = snd \<circ> recovery_handle d pol llm e"
  obtain t where t: "retry_delay pol 1 = Inr t" by (simp add: retry_delay_def)
  have "str_item (ev_payload e) ''step_id'' = Inr sid" using ev(2) by (simp add: str_item_def getitem_def)
  then have run: "recovery_handle d pol llm e = rule_retry d pol ?f sid err 1"
    using ev pol by (simp add: recovery_handle_def try_recover_def Let_def bind_s_def lift_res_def fun_eq_iff)
  have one: "length (fw_dispatched (r v)) = length (fw_dispatched v) + 1 \<and> fw_faults (r v) = (\<lambda>_. None)
    \<and> rw_cache (r v) = rw_cache v \<and> no_escalation ?f v (r v)"
    if "fw_faults v = (\<lambda>_. None)" "dget (rw_cache v) (?f, sid) = Some step" for v
    using rule_retry_once [where d = d and err = err, OF that(1) acc that(2) t] that(1) by (auto simp: run r_def)
  have "no_escalation ?f w ((r ^^ n) w) \<and> length (fw_dispatched ((r ^^ n) w)) = length (fw_dispatched w) + n
    \<and> fw_faults ((r ^^ n) w) = (\<lambda>_. None) \<and> rw_cache ((r ^^ n) w) = rw_cache w"
  proof (induction n)
    case (Suc n)
    then show ?case using one [of "(r ^^ n) w"] cached by (simp add: no_escalation_def)
  qed (simp add: no_escalation_def ft)
  then show ?thesis unfolding r_def by blast
qed

section \<open>The properties on concrete failures\<close>

definition demo_recovery :: recovery_world where
  "demo_recovery = (recovery_init demo_bus)\<lparr>rw_cache := [((''f1'', ''b''),
     [(''id'', JStr ''b''), (''tool'', JStr ''shell_exec''), (''args'', JObj [])])]\<rparr>"

abbreviation demo_failure :: flow_event where
  "demo_failure \<equiv> demo_event STEP_FAILED
     [(''step_id'', JStr ''b''), (''error'', JStr ''TimeoutError: read''), (''attempt'', JInt 1)]"

lemma demo_failure_simps:
  "ev_type demo_failure = STEP_FAILED" "ev_flow_id demo_failure = ''f1''"
  "dget (ev_payload demo_failure) ''step_id'' = Some (JStr ''b'')"
  "failure_error (ev_payload demo_failure) = Inr ''TimeoutError: read''"
  "failure_attempt (ev_payload demo_failure) = 1"
  by (simp_all add: demo_event_def failure_error_def failure_attempt_def or_else_def dget_or_def)

lemma demo_transient: "is_transient_error ''TimeoutError: read''"
  by code_simp

lemma demo_recovery_faults: "fw_faults demo_recovery = (\<lambda>_. None)"
  by (simp add: demo_recovery_def recovery_init_def)


theorem worker_reports_outcome_witness:
  "\<exists>v w' started outcome. execute_flow_step True (Some \<lparr>tr_has_tool = (\<lambda>_. True), tr_execute = (\<lambda>_ _. Inr (False, JStr ''Tool error''))\<rparr>) 7
     \<lparr>dc_flow = ''f1'', dc_step = ''b'', dc_tool = JStr ''shell_exec'', dc_args = JObj []\<rparr>
     \<lparr>fw_bus = demo_bus, fw_now = 0, fw_faults = (\<lambda>_. None), fw_dispatched = []\<rparr> = (Inr v, w')
   \<and> events_of w' ''f1'' = [started, outcome] \<and> ev_type outcome = STEP_COMPLETED"
proof -
  let ?w = "\<lparr>fw_bus = demo_bus, fw_now = 0, fw_faults = (\<lambda>_. None), fw_dispatched = []\<rparr>"
  let ?c = "\<lparr>dc_flow = ''f1'', dc_step = ''b'', dc_tool = JStr ''shell_exec'', dc_args = JObj []\<rparr>"
  have "events_of ?w ''f1'' = []"
    by (simp add: events_of_def demo_bus_store flow_log_def empty_store_def)
  then show ?thesis
    using worker_reports_outcome [of ?w "Some \<lparr>tr_has_tool = (\<lambda>_. True), tr_execute = (\<lambda>_ _. Inr (False, JStr ''Tool error''))\<rparr>" 7 ?c]
    by (auto simp: run_tool_def)
qed

theorem transient_retries_unbounded_witness:
  "length (fw_dispatched (((snd \<circ> recovery_handle (\<lambda>_ _. None) default_policy None demo_failure) ^^ 100) demo_recovery)) = 100
   \<and> rp_max_attempts default_policy = 3"
proof -
  have c: "dget (rw_cache demo_recovery) (ev_flow_id demo_failure, ''b'') =
      Some [(''id'', JStr ''b''), (''tool'', JStr ''shell_exec''), (''args'', JObj [])]"
    by (simp add: demo_recovery_def demo_failure_simps)
  have p: "1 < rp_max_attempts default_policy" by (simp add: default_policy_def)
  have "fw_dispatched demo_recovery = []" by (simp add: demo_recovery_def recovery_init_def)
  then show ?thesis
    using transient_retries_unbounded [where d = "\<lambda>_ _. None" and llm = None and n = 100,
        OF demo_recovery_faults refl c p demo_failure_simps(1,3,5,4) demo_transient]
    by (simp add: default_policy_def)
qed

text \<open>A controller with a silent LLM that has a graph and a failure of its step in its queue.\<close>

definition demo_queue_bus :: bus where
  "demo_queue_bus = demo_bus\<lparr>bus_subs := [(''recovery-controller'', \<lparr>sub_flow_id = None, sub_user_id = None,
     sub_event_types = None, sub_queue =
       [demo_event DAG_PROPOSED [(''steps'', JList [JObj [(''id'', JStr ''b''), (''title'', JStr ''B'')]])],
        demo_event STEP_FAILED [(''step_id'', JStr ''b''), (''error'', JStr ''permission denied'')]]\<rparr>)]\<rparr>"

definition demo_run :: recovery_world where
  "demo_run = fold (recovery_do (\<lambda>_ _. None) default_policy (Some (\<lambda>_ _. EmptyContent)))
     [RStart, RBus demo_queue_bus, RTurn, RTurn] (recovery_init demo_bus)"

theorem recovery_budgets_witness:
  "length (rw_llm_requests demo_run) = 1 \<and> dget (rw_llm_attempts demo_run) (''f1'', ''b'') = Some 1
   \<and> int (length (rw_llm_requests demo_run)) \<le> 3 * int (length (rw_llm_attempts demo_run))"
proof -
  have "length (rw_llm_requests demo_run) = 1" by code_simp
  moreover have "dget (rw_llm_attempts demo_run) (''f1'', ''b'') = Some 1" by code_simp
  moreover have "int (length (rw_llm_requests demo_run)) \<le> 3 * int (length (rw_llm_attempts demo_run))"
    using recovery_budgets [of "\<lambda>_ _. None" default_policy "Some (\<lambda>_ _. EmptyContent)"
        "[RStart, RBus demo_queue_bus, RTurn, RTurn]" demo_bus]
    unfolding demo_run_def [symmetric] by (simp add: default_policy_def)
  ultimately show ?thesis by blast
qed

end
