(* ===== verification/Circuit_Breaker.thy ===== *)
theory Circuit_Breaker
  imports Prelude
begin

text \<open>
  The circuit breaker, \<open>src/src/breadmind/core/circuit_breaker.py\<close>.

  Time stamps of the monotonic clock are arguments. The coroutine runs outside the lock, so a call is two
  steps of the breaker, \<open>enter\<close> (admission) and \<open>leave\<close> (its outcome), and the calls of several tasks
  interleave: the step relation \<open>cb_step\<close> has a label for each step and counts the calls in flight.
\<close>

section \<open>State\<close>

datatype circuit_state = CLOSED | OPEN | HALF_OPEN

fun circuit_state_value :: "circuit_state \<Rightarrow> string" where
  "circuit_state_value CLOSED = ''closed''"
| "circuit_state_value OPEN = ''open''"
| "circuit_state_value HALF_OPEN = ''half_open''"

record cb_config =
  failure_threshold :: int
  recovery_timeout :: real
  half_open_max_calls :: int
  success_threshold :: int

definition default_cb_config :: cb_config where
  "default_cb_config = \<lparr>failure_threshold = 5, recovery_timeout = 30, half_open_max_calls = 1, success_threshold = 2\<rparr>"

record breaker =
  cb_name :: string
  cb_cfg :: cb_config
  cb_state :: circuit_state
  failure_count :: int
  success_count :: int
  half_open_calls :: int
  last_failure_time :: "real option"
  opened_at :: "real option"

definition new_breaker :: "string \<Rightarrow> cb_config option \<Rightarrow> breaker" where
  "new_breaker name cfg = \<lparr>cb_name = name, cb_cfg = (case cfg of None \<Rightarrow> default_cb_config | Some c \<Rightarrow> c),
     cb_state = CLOSED, failure_count = 0, success_count = 0, half_open_calls = 0, last_failure_time = None,
     opened_at = None\<rparr>"

section \<open>Operations\<close>

definition timeout_elapsed :: "real \<Rightarrow> breaker \<Rightarrow> bool" where
  "timeout_elapsed now b =
     (cb_state b = OPEN \<and> (case opened_at b of None \<Rightarrow> False | Some t \<Rightarrow> recovery_timeout (cb_cfg b) \<le> now - t))"

definition state_property :: "real \<Rightarrow> breaker \<Rightarrow> circuit_state" where
  "state_property now b = (if timeout_elapsed now b then HALF_OPEN else cb_state b)"

definition effective_state :: "real \<Rightarrow> breaker \<Rightarrow> breaker" where
  "effective_state now b =
     (if timeout_elapsed now b then b\<lparr>cb_state := HALF_OPEN, half_open_calls := 0, success_count := 0\<rparr> else b)"

definition transition_to_open :: "real \<Rightarrow> breaker \<Rightarrow> breaker" where
  "transition_to_open now b = b\<lparr>cb_state := OPEN, opened_at := Some now, half_open_calls := 0, success_count := 0\<rparr>"

definition transition_to_closed :: "breaker \<Rightarrow> breaker" where
  "transition_to_closed b = b\<lparr>cb_state := CLOSED, failure_count := 0, success_count := 0, half_open_calls := 0,
     opened_at := None\<rparr>"

definition remaining_recovery_time :: "real \<Rightarrow> breaker \<Rightarrow> real" where
  "remaining_recovery_time now b =
     (case opened_at b of None \<Rightarrow> 0 | Some t \<Rightarrow> max 0 (recovery_timeout (cb_cfg b) - (now - t)))"

definition record_failure :: "real \<Rightarrow> breaker \<Rightarrow> breaker" where
  "record_failure now b =
     (let b' = b\<lparr>failure_count := failure_count b + 1, last_failure_time := Some now, success_count := 0\<rparr> in
      if cb_state b' = HALF_OPEN then transition_to_open now b'
      else if cb_state b' = CLOSED \<and> failure_threshold (cb_cfg b') \<le> failure_count b' then transition_to_open now b'
      else b')"

definition record_success :: "breaker \<Rightarrow> breaker" where
  "record_success b =
     (if cb_state b = HALF_OPEN then
        let b' = b\<lparr>success_count := success_count b + 1\<rparr> in
        if success_threshold (cb_cfg b') \<le> success_count b' then transition_to_closed b' else b'
      else if cb_state b = CLOSED then b\<lparr>failure_count := 0\<rparr>
      else b)"

text \<open>The first locked block of \<open>call\<close>: \<open>Inl r\<close> is \<open>CircuitOpenError\<close> with \<open>r\<close> seconds remaining.\<close>

definition enter :: "real \<Rightarrow> breaker \<Rightarrow> (real + unit) \<times> breaker" where
  "enter now b =
     (let b' = effective_state now b in
      if cb_state b' = OPEN then (Inl (remaining_recovery_time now b'), b')
      else if cb_state b' = HALF_OPEN then
        if half_open_max_calls (cb_cfg b') \<le> half_open_calls b' then (Inl (remaining_recovery_time now b'), b')
        else (Inr (), b'\<lparr>half_open_calls := half_open_calls b' + 1\<rparr>)
      else (Inr (), b'))"

definition leave :: "real \<Rightarrow> bool \<Rightarrow> breaker \<Rightarrow> breaker" where
  "leave now ok b = (if ok then record_success b else record_failure now b)"

text \<open>A call with no other call in between: the coroutine's outcome is given, with the time it ends.\<close>

definition cb_call :: "real \<Rightarrow> real \<Rightarrow> ('e + 'a) \<Rightarrow> breaker \<Rightarrow> ((real + ('e + 'a)) \<times> breaker)" where
  "cb_call t0 t1 outcome b =
     (case enter t0 b of
        (Inl r, b') \<Rightarrow> (Inl r, b')
      | (Inr _, b') \<Rightarrow> (Inr outcome, leave t1 (case outcome of Inl _ \<Rightarrow> False | Inr _ \<Rightarrow> True) b'))"

definition reset :: "breaker \<Rightarrow> breaker" where
  "reset b = transition_to_closed b"

definition get_stats :: "real \<Rightarrow> breaker \<Rightarrow> json_obj" where
  "get_stats now b =
     [(''name'', JStr (cb_name b)), (''state'', JStr (circuit_state_value (state_property now b))),
      (''failure_count'', JInt (failure_count b)), (''success_count'', JInt (success_count b)),
      (''last_failure_time'', case last_failure_time b of None \<Rightarrow> JNull | Some t \<Rightarrow> JFloat t),
      (''config'', JObj [(''failure_threshold'', JInt (failure_threshold (cb_cfg b))),
         (''recovery_timeout'', JFloat (recovery_timeout (cb_cfg b))),
         (''half_open_max_calls'', JInt (half_open_max_calls (cb_cfg b))),
         (''success_threshold'', JInt (success_threshold (cb_cfg b)))])]"

type_synonym cb_registry = "(string, breaker) dict"

definition get_or_create :: "string \<Rightarrow> cb_config option \<Rightarrow> cb_registry \<Rightarrow> breaker \<times> cb_registry" where
  "get_or_create name cfg r =
     (case dget r name of
        Some b \<Rightarrow> (b, r)
      | None \<Rightarrow> (new_breaker name cfg, dset name (new_breaker name cfg) r))"

definition get_all_stats :: "real \<Rightarrow> cb_registry \<Rightarrow> (string, json_obj) dict" where
  "get_all_stats now r = map (\<lambda>(n, b). (n, get_stats now b)) r"

section \<open>Interleaved calls\<close>

datatype cb_label = Admit real | Reject real real | Succeed | Fail real | Reset

text \<open>A state is the breaker and the number of admitted calls whose coroutine still runs.\<close>

inductive cb_step :: "breaker \<times> nat \<Rightarrow> cb_label \<Rightarrow> breaker \<times> nat \<Rightarrow> bool" where
  step_admit: "enter now b = (Inr (), b') \<Longrightarrow> cb_step (b, n) (Admit now) (b', Suc n)"
| step_reject: "enter now b = (Inl r, b') \<Longrightarrow> cb_step (b, n) (Reject now r) (b', n)"
| step_succeed: "cb_step (b, Suc n) Succeed (record_success b, n)"
| step_fail: "cb_step (b, Suc n) (Fail now) (record_failure now b, n)"
| step_reset: "cb_step (b, n) Reset (reset b, n)"

inductive cb_run :: "breaker \<times> nat \<Rightarrow> cb_label list \<Rightarrow> breaker \<times> nat \<Rightarrow> bool" where
  run_nil: "cb_run s [] s"
| run_snoc: "cb_run s ls t \<Longrightarrow> cb_step t l u \<Longrightarrow> cb_run s (ls @ [l]) u"

inductive_cases step_admitE: "cb_step (b, n) (Admit now) s"
inductive_cases step_rejectE: "cb_step (b, n) (Reject now r) s"
inductive_cases step_anyE: "cb_step s l t"
inductive_simps step_simps:
  "cb_step (b, n) (Admit now) s" "cb_step (b, n) (Reject now r) s" "cb_step (b, n) Succeed s"
  "cb_step (b, n) (Fail now) s" "cb_step (b, n) Reset s"

section \<open>Invariant\<close>

text \<open>
  Under a configuration with positive thresholds: an open breaker knows since when, a closed one is below
  its failure threshold, a half-open one has admitted at most its probe budget and is below its success
  threshold.
\<close>

definition cb_ok :: "breaker \<Rightarrow> bool" where
  "cb_ok b \<longleftrightarrow> 0 < failure_threshold (cb_cfg b) \<and> 0 < success_threshold (cb_cfg b) \<and> 0 < half_open_max_calls (cb_cfg b)
   \<and> 0 \<le> half_open_calls b \<and> 0 \<le> failure_count b \<and> 0 \<le> success_count b
   \<and> (case cb_state b of
        CLOSED \<Rightarrow> opened_at b = None \<and> failure_count b < failure_threshold (cb_cfg b) \<and> half_open_calls b = 0
      | OPEN \<Rightarrow> opened_at b \<noteq> None \<and> half_open_calls b = 0 \<and> success_count b = 0
      | HALF_OPEN \<Rightarrow> opened_at b \<noteq> None \<and> half_open_calls b \<le> half_open_max_calls (cb_cfg b)
          \<and> success_count b < success_threshold (cb_cfg b))"

lemmas cb_defs = effective_state_def timeout_elapsed_def transition_to_open_def transition_to_closed_def
  record_failure_def record_success_def enter_def reset_def Let_def

lemma effective_state_ok: "cb_ok b \<Longrightarrow> cb_ok (effective_state now b)"
  by (auto simp: cb_ok_def cb_defs split: option.splits circuit_state.splits)

lemma enter_ok: "cb_ok b \<Longrightarrow> enter now b = (r, b') \<Longrightarrow> cb_ok b'"
  using effective_state_ok [of b now]
  by (auto simp: enter_def Let_def cb_ok_def split: if_splits circuit_state.splits)

lemma record_success_ok: "cb_ok b \<Longrightarrow> cb_ok (record_success b)"
  by (cases "cb_state b") (auto simp: cb_ok_def record_success_def transition_to_closed_def Let_def)

lemma record_failure_ok: "cb_ok b \<Longrightarrow> cb_ok (record_failure now b)"
  by (cases "cb_state b") (auto simp: cb_ok_def record_failure_def transition_to_open_def Let_def)

lemma cb_step_ok: "cb_step s l t \<Longrightarrow> cb_ok (fst s) \<Longrightarrow> cb_ok (fst t)"
  by (induction rule: cb_step.induct)
    (auto simp: record_success_ok record_failure_ok reset_def intro: enter_ok,
     auto simp: cb_ok_def transition_to_closed_def)

lemma cb_run_ok: "cb_run s ls t \<Longrightarrow> cb_ok (fst s) \<Longrightarrow> cb_ok (fst t)"
  by (induction rule: cb_run.induct) (auto intro: cb_step_ok)


lemma new_breaker_ok:
  "0 < failure_threshold c \<Longrightarrow> 0 < success_threshold c \<Longrightarrow> 0 < half_open_max_calls c \<Longrightarrow> cb_ok (new_breaker name (Some c))"
  by (simp add: cb_ok_def new_breaker_def)


section \<open>Tripping and recovering\<close>

definition failing_call :: "real \<Rightarrow> breaker \<Rightarrow> breaker" where
  "failing_call t b = snd (cb_call t t (Inl () :: unit + unit) b)"

definition good_call :: "real \<Rightarrow> breaker \<Rightarrow> breaker" where
  "good_call t b = snd (cb_call t t (Inr () :: unit + unit) b)"

lemma failing_calls_count:
  "cb_state b = CLOSED \<Longrightarrow> failure_count b + int (length ts) < failure_threshold (cb_cfg b) \<Longrightarrow>
   cb_state (fold failing_call ts b) = CLOSED \<and> cb_cfg (fold failing_call ts b) = cb_cfg b
   \<and> failure_count (fold failing_call ts b) = failure_count b + int (length ts)"
proof (induction ts arbitrary: b)
  case (Cons t ts)
  have "cb_state (failing_call t b) = CLOSED" "failure_count (failing_call t b) = failure_count b + 1"
    "cb_cfg (failing_call t b) = cb_cfg b"
    using Cons.prems by (auto simp: failing_call_def cb_call_def leave_def cb_defs)
  then show ?case using Cons.IH [of "failing_call t b"] Cons.prems by simp
qed simp

lemma good_calls_count:
  "cb_state b = HALF_OPEN \<Longrightarrow> half_open_calls b + int (length ts) \<le> half_open_max_calls (cb_cfg b) \<Longrightarrow>
   success_count b + int (length ts) < success_threshold (cb_cfg b) \<Longrightarrow>
   cb_state (fold good_call ts b) = HALF_OPEN \<and> cb_cfg (fold good_call ts b) = cb_cfg b
   \<and> success_count (fold good_call ts b) = success_count b + int (length ts)
   \<and> half_open_calls (fold good_call ts b) = half_open_calls b + int (length ts)"
proof (induction ts arbitrary: b)
  case (Cons t ts)
  have "cb_state (good_call t b) = HALF_OPEN" "success_count (good_call t b) = success_count b + 1"
    "half_open_calls (good_call t b) = half_open_calls b + 1" "cb_cfg (good_call t b) = cb_cfg b"
    using Cons.prems by (auto simp: good_call_def cb_call_def leave_def cb_defs)
  then show ?case using Cons.IH [of "good_call t b"] Cons.prems by simp
qed simp

text \<open>
  Tripping and recovering: a closed breaker opens at exactly the \<open>failure_threshold\<close>-th consecutive
  failure, and stays closed before it; and an open one whose recovery time is over closes again after
  \<open>success_threshold\<close> consecutive successful calls, provided the probe budget allows that many.
\<close>

theorem breaker_trips_and_recovers:
  "(cb_state b = CLOSED \<and> failure_count b = 0 \<and> int (length ts) + 1 = failure_threshold (cb_cfg b) \<longrightarrow>
      cb_state (fold failing_call ts b) = CLOSED
      \<and> cb_state (failing_call t (fold failing_call ts b)) = OPEN
      \<and> opened_at (failing_call t (fold failing_call ts b)) = Some t)
   \<and> (timeout_elapsed t b \<and> int (length ts) + 1 = success_threshold (cb_cfg b)
      \<and> success_threshold (cb_cfg b) \<le> half_open_max_calls (cb_cfg b) \<longrightarrow>
      cb_state (good_call u (fold good_call ts (effective_state t b))) = CLOSED
      \<and> failure_count (good_call u (fold good_call ts (effective_state t b))) = 0)"
proof (intro conjI impI; elim conjE)
  assume a: "cb_state b = CLOSED" "failure_count b = 0" "int (length ts) + 1 = failure_threshold (cb_cfg b)"
  from failing_calls_count [OF a(1), of ts] a
  have "cb_state (fold failing_call ts b) = CLOSED" "cb_cfg (fold failing_call ts b) = cb_cfg b"
    "failure_count (fold failing_call ts b) = int (length ts)" by auto
  with a(3) show "cb_state (fold failing_call ts b) = CLOSED"
    "cb_state (failing_call t (fold failing_call ts b)) = OPEN"
    "opened_at (failing_call t (fold failing_call ts b)) = Some t"
    by (auto simp: failing_call_def cb_call_def leave_def cb_defs)
next
  assume a: "timeout_elapsed t b" "int (length ts) + 1 = success_threshold (cb_cfg b)"
    "success_threshold (cb_cfg b) \<le> half_open_max_calls (cb_cfg b)"
  let ?b = "effective_state t b"
  have "cb_state ?b = HALF_OPEN" "half_open_calls ?b = 0" "success_count ?b = 0" "cb_cfg ?b = cb_cfg b"
    using a(1) by (simp_all add: effective_state_def)
  with good_calls_count [of ?b ts] a
  have "cb_state (fold good_call ts ?b) = HALF_OPEN" "cb_cfg (fold good_call ts ?b) = cb_cfg b"
    "success_count (fold good_call ts ?b) = int (length ts)" "half_open_calls (fold good_call ts ?b) = int (length ts)"
    by auto
  with a(2,3) show "cb_state (good_call u (fold good_call ts ?b)) = CLOSED"
    "failure_count (good_call u (fold good_call ts ?b)) = 0"
    by (auto simp: good_call_def cb_call_def leave_def cb_defs)
qed

section \<open>A breaker that stays half open\<close>

text \<open>A half-open breaker whose probe budget is used up.\<close>

definition wedged :: "breaker \<Rightarrow> bool" where
  "wedged b \<longleftrightarrow> cb_state b = HALF_OPEN \<and> half_open_max_calls (cb_cfg b) \<le> half_open_calls b"

lemma wedged_enter: "wedged b \<Longrightarrow> enter now b = (Inl (remaining_recovery_time now b), b)"
  by (simp add: wedged_def cb_defs)

text \<open>
  A half-open breaker can reject every call for ever: the budget \<open>half_open_max_calls\<close> counts the probes
  admitted since it became half open and is given back only when it opens or closes. Once it is used up,
  no probe is running and the successes are below \<open>success_threshold\<close>, no call is admitted at any later
  time and the state never changes, until a manual reset. The defaults (1 probe, 2 successes needed) lead
  there after the first successful probe.
\<close>

theorem half_open_wedges:
  assumes "wedged b" and "cb_run (b, 0) ls (b', n)" and "Reset \<notin> set ls"
  shows "b' = b \<and> n = 0 \<and> (\<forall>l \<in> set ls. \<exists>now r. l = Reject now r)"
  using assms(2,3)
proof (induction "(b, 0 :: nat)" ls "(b', n)" arbitrary: b' n rule: cb_run.induct)
  case (run_snoc ls t l)
  obtain c m where t: "t = (c, m)" by (cases t)
  with run_snoc have "c = b" "m = 0" "\<forall>l \<in> set ls. \<exists>now r. l = Reject now r" by auto
  with run_snoc.hyps(3) t run_snoc.prems show ?case
    by (cases l) (auto simp: step_simps wedged_enter [OF assms(1)])
qed simp

definition tripped :: breaker where
  "tripped = fold failing_call [1, 2, 3, 4, 5] (new_breaker ''llm'' None)"

lemma default_wedges: "cb_state tripped = OPEN \<and> wedged (good_call 40 tripped)"
  by (simp add: tripped_def good_call_def failing_call_def cb_call_def leave_def new_breaker_def default_cb_config_def
      wedged_def cb_defs)

theorem half_open_wedges_witness:
  "\<exists>r b' n. cb_run (good_call 40 tripped, 0) [Reject 100000 r] (b', n) \<and> b' = good_call 40 tripped \<and> n = 0"
proof -
  let ?b = "good_call 40 tripped"
  have w: "wedged ?b" using default_wedges ..
  obtain r where "enter 100000 ?b = (Inl r, ?b)" using wedged_enter [OF w] by blast
  then have "cb_step (?b, 0) (Reject 100000 r) (?b, 0)" by (rule step_reject)
  then have "cb_run (?b, 0) ([] @ [Reject 100000 r]) (?b, 0)" by (rule run_snoc [OF run_nil])
  then have run: "cb_run (?b, 0) [Reject 100000 r] (?b, 0)" by simp
  from half_open_wedges [OF w run] run show ?thesis by auto
qed


theorem breaker_trips_and_recovers_witness:
  "cb_state (failing_call 5 (fold failing_call [1, 2, 3, 4] (new_breaker ''llm'' None))) = OPEN"
  using breaker_trips_and_recovers [of "new_breaker ''llm'' None" "[1, 2, 3, 4]" 5 0]
  by (simp add: new_breaker_def default_cb_config_def)

end
