(* ===== verification/Llm_Retry.thy ===== *)
theory Llm_Retry
  imports Circuit_Breaker
begin

text \<open>
  Retry with exponential back-off, \<open>src/src/breadmind/llm/retry.py\<close>, alone and behind a circuit breaker.

  What the called function does is a parameter: for the \<open>i\<close>-th invocation how long it runs and its outcome.
  The random jitter is a parameter \<open>u\<close> with values in the unit interval, \<open>random.uniform(0, d) = u i * d\<close>.
  An exception carries what the code inspects: its class and the attributes \<open>status_code\<close> and \<open>status\<close>
  (\<open>None\<close> if there is no such attribute). The result also says when the call ends, how many invocations
  ran and which delays were slept.
\<close>

section \<open>Errors and configuration\<close>

datatype error_class =
    Connection_Error | Timeout_Error | Aiohttp_Client_Error | Circuit_Open_Error real | Other_Class string

record py_error =
  pe_class :: error_class
  pe_status_code :: "int option option"
  pe_status :: "int option option"

record retry_config =
  rc_max_retries :: int
  rc_base_delay :: real
  rc_max_delay :: real
  rc_exponential_base :: real

definition default_retry_config :: retry_config where
  "default_retry_config = \<lparr>rc_max_retries = 3, rc_base_delay = 1, rc_max_delay = 60, rc_exponential_base = 2\<rparr>"

definition transient_status_codes :: "int list" where
  "transient_status_codes = [429, 500, 502, 503, 529]"

definition extract_status_code :: "py_error \<Rightarrow> int option" where
  "extract_status_code e =
     (case pe_status_code e of
        Some c \<Rightarrow> c
      | None \<Rightarrow> (case pe_status e of Some c \<Rightarrow> c | None \<Rightarrow> None))"

definition is_transient :: "py_error \<Rightarrow> bool" where
  "is_transient e =
     (if pe_class e = Connection_Error \<or> pe_class e = Timeout_Error then True
      else if pe_class e = Aiohttp_Client_Error then True
      else case extract_status_code e of
        Some c \<Rightarrow> c \<in> set transient_status_codes
      | None \<Rightarrow> False)"

definition calculate_delay :: "nat \<Rightarrow> real \<Rightarrow> retry_config \<Rightarrow> real" where
  "calculate_delay attempt u cfg =
     u * min (rc_base_delay cfg * rc_exponential_base cfg ^ attempt) (rc_max_delay cfg)"

section \<open>The retry loop\<close>

datatype 'a outcome = Returned 'a | Raised py_error | Raised_None

record 'a retry_result =
  rr_outcome :: "'a outcome"
  rr_breaker :: "breaker option"
  rr_end :: real
  rr_invoked :: nat
  rr_delays :: "real list"

text \<open>What one attempt yields: the outcome, the breaker after it, the time, whether the function ran.\<close>

definition attempt_once ::
  "(real \<times> (py_error + 'a)) \<Rightarrow> real \<Rightarrow> breaker option \<Rightarrow> (py_error + 'a) \<times> breaker option \<times> real \<times> bool"
where
  "attempt_once ev now cb =
     (case cb of
        None \<Rightarrow> (snd ev, None, now + fst ev, True)
      | Some b \<Rightarrow>
          (case cb_call now (now + fst ev) (snd ev) b of
             (Inl r, b') \<Rightarrow>
               (Inl \<lparr>pe_class = Circuit_Open_Error r, pe_status_code = None, pe_status = None\<rparr>, Some b', now, False)
           | (Inr res, b') \<Rightarrow> (res, Some b', now + fst ev, True)))"

fun is_circuit_open :: "py_error \<Rightarrow> bool" where
  "is_circuit_open e = (case pe_class e of Circuit_Open_Error _ \<Rightarrow> True | _ \<Rightarrow> False)"

text \<open>
  The \<open>for\<close> loop from \<open>attempt\<close> on, with \<open>left\<close> iterations left, \<open>invoked\<close> function calls so far and the
  delays slept so far. When \<open>range(max_retries + 1)\<close> is empty, \<open>raise last_error\<close> raises nothing it was
  given (\<open>Raised_None\<close>, a \<open>TypeError\<close>).
\<close>

fun retry_loop ::
  "(nat \<Rightarrow> real \<times> (py_error + 'a)) \<Rightarrow> (nat \<Rightarrow> real) \<Rightarrow> retry_config \<Rightarrow> nat \<Rightarrow> nat \<Rightarrow> real \<Rightarrow> breaker option \<Rightarrow>
   nat \<Rightarrow> real list \<Rightarrow> 'a outcome \<Rightarrow> 'a retry_result"
where
  "retry_loop f u cfg 0 attempt now cb invoked ds last_error =
     \<lparr>rr_outcome = last_error, rr_breaker = cb, rr_end = now, rr_invoked = invoked, rr_delays = ds\<rparr>"
| "retry_loop f u cfg (Suc left) attempt now cb invoked ds last_error =
     (case attempt_once (f invoked) now cb of
        (Inr v, cb', now', executed) \<Rightarrow>
          \<lparr>rr_outcome = Returned v, rr_breaker = cb', rr_end = now', rr_invoked = invoked + of_bool executed, rr_delays = ds\<rparr>
      | (Inl e, cb', now', executed) \<Rightarrow>
          if is_circuit_open e \<or> \<not> is_transient e then
            \<lparr>rr_outcome = Raised e, rr_breaker = cb', rr_end = now', rr_invoked = invoked + of_bool executed, rr_delays = ds\<rparr>
          else if rc_max_retries cfg \<le> int attempt then
            \<lparr>rr_outcome = Raised e, rr_breaker = cb', rr_end = now', rr_invoked = invoked + of_bool executed, rr_delays = ds\<rparr>
          else
            let delay = calculate_delay attempt (u attempt) cfg in
            retry_loop f u cfg left (Suc attempt) (now' + delay) cb' (invoked + of_bool executed) (ds @ [delay]) (Raised e))"

definition retry_with_backoff ::
  "(nat \<Rightarrow> real \<times> (py_error + 'a)) \<Rightarrow> (nat \<Rightarrow> real) \<Rightarrow> retry_config option \<Rightarrow> breaker option \<Rightarrow> real \<Rightarrow> 'a retry_result"
where
  "retry_with_backoff f u config cb now =
     (let cfg = (case config of None \<Rightarrow> default_retry_config | Some c \<Rightarrow> c) in
      retry_loop f u cfg (nat (rc_max_retries cfg + 1)) 0 now cb 0 [] Raised_None)"

section \<open>The streaming version\<close>

text \<open>
  One invocation of the generator yields items and then ends or raises. The result is what the caller has
  received, and how the stream ended.
\<close>

fun stream_loop ::
  "(nat \<Rightarrow> 'i list \<times> py_error option) \<Rightarrow> retry_config \<Rightarrow> nat \<Rightarrow> nat \<Rightarrow> unit outcome \<Rightarrow> 'i list \<times> unit outcome \<times> nat"
where
  "stream_loop g cfg 0 attempt last_error = ([], last_error, attempt)"
| "stream_loop g cfg (Suc left) attempt last_error =
     (case g attempt of
        (items, None) \<Rightarrow> (items, Returned (), Suc attempt)
      | (items, Some e) \<Rightarrow>
          if items \<noteq> [] then (items, Raised e, Suc attempt)
          else if \<not> is_transient e then (items, Raised e, Suc attempt)
          else if rc_max_retries cfg \<le> int attempt then (items, Raised e, Suc attempt)
          else stream_loop g cfg left (Suc attempt) (Raised e))"

definition retry_with_backoff_stream ::
  "(nat \<Rightarrow> 'i list \<times> py_error option) \<Rightarrow> retry_config option \<Rightarrow> 'i list \<times> unit outcome \<times> nat"
where
  "retry_with_backoff_stream g config =
     (let cfg = (case config of None \<Rightarrow> default_retry_config | Some c \<Rightarrow> c) in
      stream_loop g cfg (nat (rc_max_retries cfg + 1)) 0 Raised_None)"

section \<open>What a retry returns\<close>

text \<open>An outcome that ends the loop: a value or a permanent error.\<close>

definition final :: "py_error + 'a \<Rightarrow> bool" where
  "final r = (case r of Inl e \<Rightarrow> is_circuit_open e \<or> \<not> is_transient e | Inr _ \<Rightarrow> True)"

definition to_outcome :: "py_error + 'a \<Rightarrow> 'a outcome" where
  "to_outcome r = (case r of Inl e \<Rightarrow> Raised e | Inr v \<Rightarrow> Returned v)"

lemma retry_loop_spec:
  assumes "int attempt + int left = rc_max_retries cfg + 1" and "0 < left" and "invoked = attempt"
    and "\<forall>i < k. \<not> final (snd (f (attempt + i)))" and "k < left"
    and "final (snd (f (attempt + k))) \<or> Suc k = left"
  shows "rr_outcome (retry_loop f u cfg left attempt now None invoked ds le) = to_outcome (snd (f (attempt + k)))
    \<and> rr_invoked (retry_loop f u cfg left attempt now None invoked ds le) = Suc (attempt + k)
    \<and> rr_delays (retry_loop f u cfg left attempt now None invoked ds le) =
        ds @ map (\<lambda>i. calculate_delay i (u i) cfg) [attempt ..< attempt + k]"
  using assms
proof (induction left arbitrary: attempt now invoked ds le k)
  case (Suc left)
  show ?case
  proof (cases "snd (f attempt)")
    case (Inr v)
    with Suc.prems(4) have "k = 0" by (cases k) (auto simp: final_def dest: spec [of _ 0])
    with Inr Suc.prems(3) show ?thesis by (simp add: attempt_once_def to_outcome_def)
  next
    case (Inl e)
    show ?thesis
    proof (cases "final (snd (f attempt)) \<or> left = 0")
      case True
      with Suc.prems have "k = 0" by (cases k) (auto dest: spec [of _ 0])
      moreover have "rc_max_retries cfg \<le> int attempt" if "left = 0" using Suc.prems(1) that by simp
      ultimately show ?thesis using True Inl Suc.prems(3)
        by (auto simp: attempt_once_def to_outcome_def final_def)
    next
      case False
      then obtain j where k: "k = Suc j" using Suc.prems(5,6) by (cases k) auto
      have lt: "\<not> rc_max_retries cfg \<le> int attempt" using Suc.prems(1) False by auto
      have step: "retry_loop f u cfg (Suc left) attempt now None invoked ds le =
        retry_loop f u cfg left (Suc attempt) (now + fst (f attempt) + calculate_delay attempt (u attempt) cfg) None
          (Suc attempt) (ds @ [calculate_delay attempt (u attempt) cfg]) (Raised e)"
        using Inl False lt Suc.prems(3) by (auto simp: attempt_once_def final_def Let_def)
      have "\<forall>i < j. \<not> final (snd (f (Suc attempt + i)))"
        using Suc.prems(4) k by (auto dest: spec [of _ "Suc _"])
      moreover have "[attempt ..< attempt + k] = attempt # [Suc attempt ..< Suc attempt + j]"
        using k by (simp add: upt_rec)
      ultimately show ?thesis
        unfolding step using Suc.IH [of "Suc attempt" "Suc attempt" j] Suc.prems False k by auto
    qed
  qed
qed simp

text \<open>
  What a retried call returns: without a breaker the function is invoked until the first success or
  permanent error, at most \<open>max_retries + 1\<close> times, the result is the outcome of the last invocation, and
  between invocations it sleeps the jittered exponential delays, in order.
\<close>

theorem retry_returns_first_final:
  assumes "0 \<le> rc_max_retries cfg" and "\<forall>i < k. \<not> final (snd (f i))" and "int k \<le> rc_max_retries cfg"
    and "final (snd (f k)) \<or> int k = rc_max_retries cfg"
  shows "rr_outcome (retry_with_backoff f u (Some cfg) None now) = to_outcome (snd (f k))
    \<and> rr_invoked (retry_with_backoff f u (Some cfg) None now) = Suc k
    \<and> rr_delays (retry_with_backoff f u (Some cfg) None now) = map (\<lambda>i. calculate_delay i (u i) cfg) [0..<k]"
proof -
  have "k < nat (rc_max_retries cfg + 1)" "final (snd (f k)) \<or> Suc k = nat (rc_max_retries cfg + 1)"
    using assms by auto
  then show ?thesis
    using assms retry_loop_spec [of 0 "nat (rc_max_retries cfg + 1)" cfg 0 k f u now "[]" Raised_None]
    by (auto simp: retry_with_backoff_def Let_def)
qed

lemma calculate_delay_bounds:
  assumes "0 \<le> u" "u \<le> 1" "0 \<le> rc_base_delay cfg" "0 \<le> rc_exponential_base cfg" "0 \<le> rc_max_delay cfg"
  shows "0 \<le> calculate_delay n u cfg \<and> calculate_delay n u cfg \<le> rc_max_delay cfg"
proof -
  let ?m = "min (rc_base_delay cfg * rc_exponential_base cfg ^ n) (rc_max_delay cfg)"
  have "0 \<le> ?m" "?m \<le> rc_max_delay cfg" using assms by auto
  then have "u * ?m \<le> rc_max_delay cfg" using assms(1,2) by (meson mult_left_le_one_le order_trans)
  with \<open>0 \<le> ?m\<close> assms(1) show ?thesis by (simp add: calculate_delay_def)
qed

lemma retry_loop_bounds:
  assumes "\<And>n. 0 \<le> u n \<and> u n \<le> 1" "0 \<le> rc_base_delay cfg" "0 \<le> rc_exponential_base cfg" "0 \<le> rc_max_delay cfg"
    and "\<forall>d \<in> set ds. 0 \<le> d \<and> d \<le> rc_max_delay cfg"
  shows "rr_invoked (retry_loop f u cfg left attempt now cb invoked ds le) \<le> invoked + left
    \<and> length (rr_delays (retry_loop f u cfg left attempt now cb invoked ds le)) \<le> length ds + left
    \<and> (\<forall>d \<in> set (rr_delays (retry_loop f u cfg left attempt now cb invoked ds le)). 0 \<le> d \<and> d \<le> rc_max_delay cfg)"
  using assms(5)
proof (induction left arbitrary: attempt now cb invoked ds le)
  case (Suc left)
  obtain r cb' now' ex where a: "attempt_once (f invoked) now cb = (r, cb', now', ex)"
    by (cases "attempt_once (f invoked) now cb")
  let ?d = "calculate_delay attempt (u attempt) cfg"
  have "0 \<le> ?d \<and> ?d \<le> rc_max_delay cfg" using assms(1-4) by (intro calculate_delay_bounds) auto
  then have "\<forall>d \<in> set (ds @ [?d]). 0 \<le> d \<and> d \<le> rc_max_delay cfg" using Suc.prems by auto
  from Suc.IH [OF this, of "Suc attempt" "now' + ?d" cb' "invoked + of_bool ex"] show ?case
    using Suc.prems by (cases r; cases ex) (auto simp: a Let_def intro: le_SucI)
qed simp

text \<open>
  A retry behind a circuit breaker is bounded: for every function, breaker and jitter it invokes the
  function at most \<open>max_retries + 1\<close> times and no delay exceeds \<open>max_delay\<close>; and if the breaker is open and
  its recovery time is not over, the function is not invoked at all, the call fails at once with
  \<open>CircuitOpenError\<close>, without a retry, and the breaker is unchanged.
\<close>

theorem retry_behind_breaker:
  assumes "\<And>n. 0 \<le> u n \<and> u n \<le> 1" and "0 \<le> rc_base_delay cfg" and "0 \<le> rc_exponential_base cfg"
    and "0 \<le> rc_max_delay cfg" and "0 \<le> rc_max_retries cfg"
  shows "int (rr_invoked (retry_with_backoff f u (Some cfg) (Some b) now)) \<le> rc_max_retries cfg + 1
    \<and> (\<forall>d \<in> set (rr_delays (retry_with_backoff f u (Some cfg) (Some b) now)). 0 \<le> d \<and> d \<le> rc_max_delay cfg)
    \<and> (cb_state b = OPEN \<and> \<not> timeout_elapsed now b \<longrightarrow>
         retry_with_backoff f u (Some cfg) (Some b) now =
           \<lparr>rr_outcome = Raised \<lparr>pe_class = Circuit_Open_Error (remaining_recovery_time now b),
              pe_status_code = None, pe_status = None\<rparr>,
            rr_breaker = Some b, rr_end = now, rr_invoked = 0, rr_delays = []\<rparr>)"
proof -
  have n: "nat (rc_max_retries cfg + 1) = Suc (nat (rc_max_retries cfg))" using assms(5) by simp
  have "retry_with_backoff f u (Some cfg) (Some b) now =
      \<lparr>rr_outcome = Raised \<lparr>pe_class = Circuit_Open_Error (remaining_recovery_time now b),
         pe_status_code = None, pe_status = None\<rparr>,
       rr_breaker = Some b, rr_end = now, rr_invoked = 0, rr_delays = []\<rparr>"
    if "cb_state b = OPEN" "\<not> timeout_elapsed now b"
    using that by (simp add: retry_with_backoff_def Let_def n attempt_once_def cb_call_def enter_def effective_state_def)
  then show ?thesis
    using retry_loop_bounds [of u cfg "[]" f "nat (rc_max_retries cfg + 1)" 0 now "Some b" 0 Raised_None] assms
    by (auto simp: retry_with_backoff_def Let_def)
qed

lemma stream_loop_spec:
  assumes "stream_loop g cfg left attempt le = (items, r, n)" and "0 < left"
    and "int attempt + int left = rc_max_retries cfg + 1"
  shows "attempt < n \<and> n \<le> attempt + left \<and> items = fst (g (n - 1))
    \<and> (\<forall>i. attempt \<le> i \<and> i < n - 1 \<longrightarrow> fst (g i) = [])
    \<and> r = (case snd (g (n - 1)) of None \<Rightarrow> Returned () | Some e \<Rightarrow> Raised e)"
  using assms
proof (induction left arbitrary: attempt le)
  case (Suc left)
  obtain its e where g: "g attempt = (its, e)" by (cases "g attempt")
  show ?case
  proof (cases "\<exists>x. e = Some x \<and> its = [] \<and> is_transient x \<and> \<not> rc_max_retries cfg \<le> int attempt")
    case True
    then obtain x where x: "e = Some x" "its = []" "is_transient x" "\<not> rc_max_retries cfg \<le> int attempt" by blast
    have run: "stream_loop g cfg left (Suc attempt) (Raised x) = (items, r, n)" using Suc.prems(1) g x by simp
    have "0 < left" using Suc.prems(3) x(4) by (cases left) auto
    with Suc.IH [OF run] Suc.prems(3) have rest: "Suc attempt < n" "n \<le> Suc attempt + left" "items = fst (g (n - 1))"
      "\<forall>i. Suc attempt \<le> i \<and> i < n - 1 \<longrightarrow> fst (g i) = []"
      "r = (case snd (g (n - 1)) of None \<Rightarrow> Returned () | Some e \<Rightarrow> Raised e)" by auto
    have "fst (g i) = []" if "attempt \<le> i" "i < n - 1" for i
      using rest(4) that g x(2) by (cases "i = attempt") auto
    with rest show ?thesis by auto
  next
    case False
    then have "items = its" "n = Suc attempt" "r = (case e of None \<Rightarrow> Returned () | Some e \<Rightarrow> Raised e)"
      using Suc.prems(1) g by (auto split: option.splits if_splits)
    then show ?thesis using g by auto
  qed
qed simp

text \<open>
  A retried stream never duplicates output: the caller receives the items of the last invocation only,
  every earlier invocation had produced none, the stream ends as that invocation ended, and there are at
  most \<open>max_retries + 1\<close> invocations.
\<close>

theorem stream_no_duplicates:
  assumes "0 \<le> rc_max_retries cfg" and "retry_with_backoff_stream g (Some cfg) = (items, r, n)"
  shows "0 < n \<and> int n \<le> rc_max_retries cfg + 1 \<and> concat (map (fst \<circ> g) [0..<n]) = items
    \<and> items = fst (g (n - 1)) \<and> r = (case snd (g (n - 1)) of None \<Rightarrow> Returned () | Some e \<Rightarrow> Raised e)"
proof -
  have "stream_loop g cfg (nat (rc_max_retries cfg + 1)) 0 Raised_None = (items, r, n)"
    using assms(2) by (simp add: retry_with_backoff_stream_def Let_def)
  from stream_loop_spec [OF this] assms(1)
  have n: "0 < n" "int n \<le> rc_max_retries cfg + 1" and it: "items = fst (g (n - 1))"
    and e: "\<forall>i < n - 1. fst (g i) = []" and r: "r = (case snd (g (n - 1)) of None \<Rightarrow> Returned () | Some e \<Rightarrow> Raised e)"
    by auto
  from n(1) obtain m where m: "n = Suc m" by (cases n) auto
  have "concat (map (fst \<circ> g) [0..<m]) = []" using e m by auto
  then show ?thesis using n it r m by simp
qed

section \<open>The properties on concrete calls\<close>

abbreviation rate_limited :: py_error where
  "rate_limited \<equiv> \<lparr>pe_class = Other_Class ''RateLimitError'', pe_status_code = Some (Some 429), pe_status = None\<rparr>"

lemma rate_limited_not_final: "\<not> final (Inl rate_limited :: py_error + int)" "is_transient rate_limited"
  by (simp_all add: final_def is_transient_def extract_status_code_def transient_status_codes_def)

theorem retry_returns_first_final_witness:
  "rr_outcome (retry_with_backoff (\<lambda>i. (1, if i < 2 then Inl rate_limited else Inr (7 :: int))) (\<lambda>_. 1)
     (Some default_retry_config) None 0) = Returned 7"
  using retry_returns_first_final [of default_retry_config 2 "\<lambda>i. (1, if i < 2 then Inl rate_limited else Inr (7 :: int))" "\<lambda>_. 1" 0]
  by (simp add: rate_limited_not_final default_retry_config_def) (simp add: final_def to_outcome_def)

theorem retry_behind_breaker_witness:
  "rr_invoked (retry_with_backoff (\<lambda>_. (1, Inl rate_limited :: py_error + int)) (\<lambda>_. 1) (Some default_retry_config) (Some tripped) 10) = 0"
proof -
  have "cb_state tripped = OPEN" "\<not> timeout_elapsed 10 tripped"
    by (simp_all add: tripped_def failing_call_def cb_call_def leave_def new_breaker_def default_cb_config_def cb_defs)
  then show ?thesis
    using retry_behind_breaker [of "\<lambda>_. 1" default_retry_config "\<lambda>_. (1, Inl rate_limited :: py_error + int)" tripped 10]
    by (simp add: default_retry_config_def)
qed

theorem stream_no_duplicates_witness:
  "retry_with_backoff_stream (\<lambda>i. if i = 0 then ([], Some rate_limited) else ([''a'', ''b''], None)) (Some default_retry_config)
     = ([''a'', ''b''], Returned (), 2)
   \<and> concat (map (fst \<circ> (\<lambda>i. if i = 0 then ([], Some rate_limited) else ([''a'', ''b''], None))) [0..<2]) = [''a'', ''b'']"
proof -
  let ?g = "\<lambda>i :: nat. if i = 0 then ([], Some rate_limited) else ([''a'', ''b''], None)"
  have run: "retry_with_backoff_stream ?g (Some default_retry_config) = ([''a'', ''b''], Returned (), 2)"
    by (simp add: retry_with_backoff_stream_def Let_def default_retry_config_def rate_limited_not_final eval_nat_numeral)
  with stream_no_duplicates [OF _ run] show ?thesis by (simp add: default_retry_config_def)
qed

end
