(* ===== verification/Llm_Limits.thy ===== *)
theory Llm_Limits
  imports Prelude
begin

text \<open>
  Limits on LLM use: the sliding-window rate limiter (\<open>src/src/breadmind/llm/rate_limiter.py\<close>), the key
  rotator (\<open>llm/key_rotation.py\<close>) and the provider cascade (\<open>llm/router.py\<close>).

  Time stamps are reals; the clock readings inside one locked block are one instant. Locked blocks are
  atomic steps, so operations of several tasks are a sequence of steps. The loop of \<open>acquire\<close> is a partial
  function: \<open>None\<close> means that it never returns.
\<close>

section \<open>Rate limiter\<close>

record rate_limiter =
  max_rpm :: int
  max_tpm :: int
  request_times :: "real list"
  token_usage :: "(real \<times> int) list"

definition new_rate_limiter :: "int \<Rightarrow> int \<Rightarrow> rate_limiter" where
  "new_rate_limiter rpm tpm = \<lparr>max_rpm = rpm, max_tpm = tpm, request_times = [], token_usage = []\<rparr>"

definition cleanup_old_entries :: "real \<Rightarrow> rate_limiter \<Rightarrow> rate_limiter" where
  "cleanup_old_entries now rl =
     rl\<lparr>request_times := dropWhile (\<lambda>t. t < now - 60) (request_times rl),
        token_usage := dropWhile (\<lambda>e. fst e < now - 60) (token_usage rl)\<rparr>"

definition current_tpm :: "rate_limiter \<Rightarrow> int" where
  "current_tpm rl = sum_list (map snd (token_usage rl))"

text \<open>The locked block of \<open>acquire\<close>: whether the request is granted, and the state after it.\<close>

definition try_acquire :: "real \<Rightarrow> int \<Rightarrow> rate_limiter \<Rightarrow> bool \<times> rate_limiter" where
  "try_acquire now estimated rl =
     (let rl' = cleanup_old_entries now rl;
          rpm_ok = int (length (request_times rl')) < max_rpm rl';
          tpm_ok = current_tpm rl' + estimated \<le> max_tpm rl'
      in if rpm_ok \<and> tpm_ok
         then (True, rl'\<lparr>request_times := request_times rl' @ [now],
                 token_usage := (if 0 < estimated then token_usage rl' @ [(now, estimated)] else token_usage rl')\<rparr>)
         else (False, rl'))"

partial_function (option) acquire_loop :: "int \<Rightarrow> real \<Rightarrow> real \<Rightarrow> rate_limiter \<Rightarrow> (real \<times> rate_limiter) option" where
  "acquire_loop estimated backoff now rl =
     (let r = try_acquire now estimated rl in
      if fst r then Some (now, snd r)
      else acquire_loop estimated (min (backoff * 2) 60) (now + backoff) (snd r))"

definition acquire :: "int \<Rightarrow> real \<Rightarrow> rate_limiter \<Rightarrow> (real \<times> rate_limiter) option" where
  "acquire estimated now rl = acquire_loop estimated 1 now rl"

definition record_usage :: "real \<Rightarrow> int \<Rightarrow> rate_limiter \<Rightarrow> rate_limiter" where
  "record_usage now tokens rl = rl\<lparr>token_usage := token_usage rl @ [(now, tokens)]\<rparr>"

definition get_usage_stats :: "real \<Rightarrow> rate_limiter \<Rightarrow> (string, int) dict \<times> rate_limiter" where
  "get_usage_stats now rl =
     (let rl' = cleanup_old_entries now rl; rpm = int (length (request_times rl')); tpm = current_tpm rl' in
      ([(''requests_per_minute'', rpm), (''tokens_per_minute'', tpm), (''remaining_rpm'', max 0 (max_rpm rl' - rpm)),
        (''remaining_tpm'', max 0 (max_tpm rl' - tpm)), (''max_rpm'', max_rpm rl'), (''max_tpm'', max_tpm rl')], rl'))"

text \<open>The steps that tasks take on a shared limiter; the granted requests are recorded as a ghost.\<close>

datatype limiter_op = Try real int | Record real int | Stats real

fun op_time :: "limiter_op \<Rightarrow> real" where
  "op_time (Try t n) = t"
| "op_time (Record t n) = t"
| "op_time (Stats t) = t"

fun limiter_step :: "limiter_op \<Rightarrow> rate_limiter \<times> real list \<Rightarrow> rate_limiter \<times> real list" where
  "limiter_step (Try t n) (rl, gs) = (let (ok, rl') = try_acquire t n rl in (rl', if ok then gs @ [t] else gs))"
| "limiter_step (Record t n) (rl, gs) = (record_usage t n rl, gs)"
| "limiter_step (Stats t) (rl, gs) = (snd (get_usage_stats t rl), gs)"

definition in_window :: "real \<Rightarrow> real list \<Rightarrow> nat" where
  "in_window t gs = length (filter (\<lambda>s. t - 60 \<le> s \<and> s \<le> t) gs)"

text \<open>The deque holds the grants since the last clean-up's horizon.\<close>

definition limiter_inv :: "int \<Rightarrow> real \<Rightarrow> rate_limiter \<times> real list \<Rightarrow> bool" where
  "limiter_inv rpm now s \<longleftrightarrow>
     (case s of (rl, gs) \<Rightarrow>
        max_rpm rl = rpm \<and> sorted gs \<and> (\<forall>g \<in> set gs. g \<le> now)
      \<and> (\<exists>c \<le> now. request_times rl = dropWhile (\<lambda>t. t < c - 60) gs)
      \<and> (\<forall>t. int (in_window t gs) \<le> rpm))"

lemma dropWhile_dropWhile_le:
  "c \<le> (d :: real) \<Longrightarrow> dropWhile (\<lambda>t. t < d) (dropWhile (\<lambda>t. t < c) gs) = dropWhile (\<lambda>t. t < d) gs"
  by (induction gs) auto

lemma sorted_dropWhile_filter: "sorted gs \<Longrightarrow> dropWhile (\<lambda>t. t < c) gs = filter (\<lambda>t. c \<le> t) (gs :: real list)"
proof (induction gs)
  case (Cons g gs)
  then show ?case
  proof (cases "g < c")
    case False
    then have "filter ((\<le>) c) gs = gs" using Cons.prems by (intro filter_True) auto
    then show ?thesis using False by simp
  qed auto
qed simp

lemma cleanup_requests:
  assumes "limiter_inv rpm now (rl, gs)" and "now \<le> t"
  shows "request_times (cleanup_old_entries t rl) = filter (\<lambda>s. t - 60 \<le> s) gs"
proof -
  obtain c where "c \<le> now" "request_times rl = dropWhile (\<lambda>t. t < c - 60) gs" and "sorted gs"
    using assms(1) by (auto simp: limiter_inv_def)
  then show ?thesis using assms(2) dropWhile_dropWhile_le [of "c - 60" "t - 60" gs]
    by (simp add: cleanup_old_entries_def sorted_dropWhile_filter [OF \<open>sorted gs\<close>])
qed

lemma in_window_now: "\<forall>g \<in> set gs. g \<le> t \<Longrightarrow> in_window t gs = length (filter (\<lambda>s. t - 60 \<le> s) gs)"
  unfolding in_window_def by (rule arg_cong [of _ _ length]) (auto intro: filter_cong)

lemma in_window_grant:
  assumes "\<forall>g \<in> set gs. g \<le> t" and "t \<le> u"
  shows "in_window u (gs @ [t]) \<le> Suc (in_window t gs)"
proof -
  have "length (filter (\<lambda>s. u - 60 \<le> s \<and> s \<le> u) gs) \<le> length (filter (\<lambda>s. t - 60 \<le> s \<and> s \<le> t) gs)"
    using assms by (induction gs) auto
  then show ?thesis by (simp add: in_window_def)
qed

lemma limiter_step_inv:
  assumes inv: "limiter_inv rpm now s" and mono: "now \<le> op_time x" and pos: "0 \<le> rpm"
  shows "limiter_inv rpm (op_time x) (limiter_step x s)"
proof -
  obtain rl gs where s: "s = (rl, gs)" by (cases s)
  let ?t = "op_time x"
  have gs: "sorted gs" "\<forall>g \<in> set gs. g \<le> ?t" "\<And>t. int (in_window t gs) \<le> rpm" "max_rpm rl = rpm"
    using inv mono by (auto simp: limiter_inv_def s)
  have cl: "request_times (cleanup_old_entries ?t rl) = dropWhile (\<lambda>t. t < ?t - 60) gs"
    using cleanup_requests [OF inv [unfolded s] mono] by (simp add: sorted_dropWhile_filter gs(1))
  show ?thesis
  proof (cases x)
    case (Record t n)
    obtain c where "c \<le> now" "request_times rl = dropWhile (\<lambda>t. t < c - 60) gs"
      using inv by (auto simp: limiter_inv_def s)
    then have "\<exists>c \<le> t. request_times rl = dropWhile (\<lambda>t. t < c - 60) gs"
      using mono Record by (intro exI [of _ c]) auto
    then show ?thesis using gs Record by (auto simp: limiter_inv_def s record_usage_def)
  next
    case (Stats t)
    then show ?thesis using gs cl by (auto simp: limiter_inv_def s get_usage_stats_def Let_def cleanup_old_entries_def)
  next
    case (Try t n)
    have "int (in_window u (gs @ [t])) \<le> rpm" if "fst (try_acquire t n rl)" for u
    proof (cases "t \<le> u")
      case True
      have "int (in_window t gs) < rpm"
        using that cl Try gs
        by (auto simp: try_acquire_def Let_def in_window_now sorted_dropWhile_filter cleanup_old_entries_def split: if_splits)
      then show ?thesis using in_window_grant [of gs t u] True Try gs(2) by auto
    next
      case False
      then show ?thesis using gs(3) [of u] by (simp add: in_window_def)
    qed
    moreover have "sorted (gs @ [t])" using gs Try by (auto simp: sorted_append)
    moreover have "dropWhile (\<lambda>s. s < t - 60) gs @ [t] = dropWhile (\<lambda>s. s < t - 60) (gs @ [t])"
      using gs(1) Try by (simp add: sorted_dropWhile_filter \<open>sorted (gs @ [t])\<close>)
    ultimately show ?thesis using gs cl Try
      by (auto simp: limiter_inv_def s try_acquire_def Let_def cleanup_old_entries_def)
  qed
qed

lemma limiter_run_inv:
  "limiter_inv rpm now s \<Longrightarrow> 0 \<le> rpm \<Longrightarrow> sorted (now # map op_time ops) \<Longrightarrow>
   \<exists>now'. limiter_inv rpm now' (fold limiter_step ops s)"
proof (induction ops arbitrary: now s)
  case (Cons x ops)
  then have "limiter_inv rpm (op_time x) (limiter_step x s)" by (auto intro: limiter_step_inv)
  then show ?case using Cons.IH [of "op_time x" "limiter_step x s"] Cons.prems by auto
qed auto

text \<open>
  C7. The rate limit holds on every sliding minute: however the requests, usage records and statistics calls
  of several tasks interleave, with a clock that does not go backwards, any closed window of 60 seconds
  contains at most \<open>max_rpm\<close> granted requests.
\<close>

theorem rate_limit_every_window:
  assumes "0 \<le> rpm" and "sorted (map op_time ops)"
  shows "int (in_window t (snd (fold limiter_step ops (new_rate_limiter rpm tpm, [])))) \<le> rpm"
proof (cases ops)
  case (Cons x xs)
  have "limiter_inv rpm (op_time x) (new_rate_limiter rpm tpm, [])"
    using assms(1) by (auto simp: limiter_inv_def new_rate_limiter_def in_window_def)
  then obtain now' where "limiter_inv rpm now' (fold limiter_step ops (new_rate_limiter rpm tpm, []))"
    using limiter_run_inv [of rpm "op_time x" "(new_rate_limiter rpm tpm, [])" ops] assms Cons by auto
  then show ?thesis by (auto simp: limiter_inv_def split: prod.splits)
qed (simp add: assms(1) in_window_def)


text \<open>
  Alone, a request waits at most a minute and a bit if its estimate fits the token limit at all; otherwise
  \<open>acquire\<close> never returns.
\<close>

lemma cleanup_empty:
  assumes "\<forall>s \<in> set (request_times rl). s < t - 60" and "\<forall>e \<in> set (token_usage rl). fst e < t - 60"
  shows "request_times (cleanup_old_entries t rl) = []" and "token_usage (cleanup_old_entries t rl) = []"
  using assms by (simp_all add: cleanup_old_entries_def)

lemma try_acquire_sets:
  "\<not> fst (try_acquire t n rl) \<Longrightarrow> set (request_times (snd (try_acquire t n rl))) \<subseteq> set (request_times rl)
   \<and> set (token_usage (snd (try_acquire t n rl))) \<subseteq> set (token_usage rl)
   \<and> max_rpm (snd (try_acquire t n rl)) = max_rpm rl \<and> max_tpm (snd (try_acquire t n rl)) = max_tpm rl"
  by (auto simp: try_acquire_def Let_def cleanup_old_entries_def dest: set_dropWhileD)

lemma acquire_loop_returns:
  assumes "0 < max_rpm rl" and "estimated \<le> max_tpm rl" and "1 \<le> backoff"
    and "\<forall>s \<in> set (request_times rl). s \<le> h" and "\<forall>e \<in> set (token_usage rl). fst e \<le> h"
    and "h + 60 < now + real k"
  shows "\<exists>t rl'. acquire_loop estimated backoff now rl = Some (t, rl')"
  using assms
proof (induction k arbitrary: backoff now rl)
  case 0
  have "request_times (cleanup_old_entries now rl) = []" "token_usage (cleanup_old_entries now rl) = []"
    using 0 by (force intro!: cleanup_empty)+
  then have "fst (try_acquire now estimated rl)"
    using 0 by (simp add: try_acquire_def Let_def current_tpm_def) (simp add: cleanup_old_entries_def)
  then show ?case by (subst acquire_loop.simps) (simp add: Let_def)
next
  case (Suc k)
  show ?case
  proof (cases "fst (try_acquire now estimated rl)")
    case True
    then show ?thesis by (subst acquire_loop.simps) (simp add: Let_def)
  next
    case False
    note sub = try_acquire_sets [OF False]
    have "\<exists>t rl'. acquire_loop estimated (min (backoff * 2) 60) (now + backoff) (snd (try_acquire now estimated rl)) = Some (t, rl')"
      using Suc.prems sub by (intro Suc.IH) (auto simp: subset_iff)
    then show ?thesis using False by (subst acquire_loop.simps) (simp add: Let_def)
  qed
qed

lemma acquire_loop_blocked:
  assumes "acquire_loop estimated backoff now rl = Some y"
  shows "max_tpm rl < estimated \<longrightarrow> (\<forall>e \<in> set (token_usage rl). 0 \<le> snd e) \<longrightarrow> False"
proof (rule acquire_loop.raw_induct [where P = "\<lambda>estimated backoff now rl y. max_tpm rl < estimated \<longrightarrow>
      (\<forall>e \<in> set (token_usage rl). 0 \<le> snd e) \<longrightarrow> False", OF _ assms])
  fix loop estimated backoff now rl and y :: "real \<times> rate_limiter"
  assume 1: "\<And>estimated backoff now rl y. loop estimated backoff now rl = Some y \<Longrightarrow>
      max_tpm rl < estimated \<longrightarrow> (\<forall>e \<in> set (token_usage rl). 0 \<le> snd e) \<longrightarrow> False"
    "(let r = try_acquire now estimated rl in if fst r then Some (now, snd r)
      else loop estimated (min (backoff * 2) 60) (now + backoff) (snd r)) = Some y"
  show "max_tpm rl < estimated \<longrightarrow> (\<forall>e \<in> set (token_usage rl). 0 \<le> snd e) \<longrightarrow> False"
  proof (intro impI)
    assume big: "max_tpm rl < estimated" and pos: "\<forall>e \<in> set (token_usage rl). 0 \<le> snd e"
    have "0 \<le> current_tpm (cleanup_old_entries now rl)"
      unfolding current_tpm_def using pos
      by (intro sum_list_nonneg) (auto simp: cleanup_old_entries_def dest!: set_dropWhileD)
    then have no: "\<not> fst (try_acquire now estimated rl)"
      using big by (auto simp: try_acquire_def Let_def) (auto simp: cleanup_old_entries_def)
    note sub = try_acquire_sets [OF no]
    have "loop estimated (min (backoff * 2) 60) (now + backoff) (snd (try_acquire now estimated rl)) = Some y"
      using 1(2) no by (simp add: Let_def)
    from 1(1) [OF this] sub big pos show False by (auto simp: subset_iff)
  qed
qed

text \<open>
  \<open>acquire\<close> returns exactly when the request can ever fit: with a positive request limit it returns if
  the estimate is within the token limit, and never returns (it sleeps and retries for ever) if the
  estimate alone exceeds the token limit.
\<close>

theorem acquire_returns_iff:
  assumes "0 < max_rpm rl" and "\<forall>e \<in> set (token_usage rl). 0 \<le> snd e"
  shows "(\<exists>t rl'. acquire estimated now rl = Some (t, rl')) \<longleftrightarrow> estimated \<le> max_tpm rl"
proof
  assume "\<exists>t rl'. acquire estimated now rl = Some (t, rl')"
  then show "estimated \<le> max_tpm rl"
    using acquire_loop_blocked [of estimated 1 now rl] assms(2) by (force simp: acquire_def)
next
  assume fits: "estimated \<le> max_tpm rl"
  let ?h = "Max (insert now (set (request_times rl) \<union> fst ` set (token_usage rl)))"
  obtain k :: nat where "?h + 60 < now + real k" using reals_Archimedean2 [of "?h + 60 - now"] by (auto simp: algebra_simps)
  then show "\<exists>t rl'. acquire estimated now rl = Some (t, rl')"
    unfolding acquire_def using assms(1) fits by (intro acquire_loop_returns) auto
qed


section \<open>Key rotation\<close>

record key_rotator =
  kr_keys :: "string list"
  kr_index :: nat
  kr_exhausted :: "nat set"
  kr_order :: "nat list"

definition new_key_rotator :: "string list \<Rightarrow> exn + key_rotator" where
  "new_key_rotator keys =
     (if keys = [] then Inl (ValueError ''at least one API key is required'')
      else Inr \<lparr>kr_keys = keys, kr_index = 0, kr_exhausted = {}, kr_order = []\<rparr>)"

definition current_key :: "key_rotator \<Rightarrow> string" where
  "current_key kr = kr_keys kr ! kr_index kr"

text \<open>The search for the next key, from the given offset on.\<close>

definition next_available :: "key_rotator \<Rightarrow> nat option" where
  "next_available kr =
     find (\<lambda>c. c \<notin> kr_exhausted kr)
       (map (\<lambda>offset. (kr_index kr + offset) mod length (kr_keys kr)) [1..<length (kr_keys kr) + 1])"

definition rotate_key :: "key_rotator \<Rightarrow> (exn + string) \<times> key_rotator" where
  "rotate_key kr =
     (case next_available kr of
        Some c \<Rightarrow> (Inr (kr_keys kr ! c), kr\<lparr>kr_index := c\<rparr>)
      | None \<Rightarrow>
          (case kr_order kr of
             [] \<Rightarrow> (Inl (IndexError ''list index out of range''), kr)
           | oldest # _ \<Rightarrow>
               (Inr (kr_keys kr ! oldest),
                kr\<lparr>kr_exhausted := kr_exhausted kr - {oldest}, kr_order := remove1 oldest (kr_order kr),
                   kr_index := oldest\<rparr>)))"

text \<open>\<open>list.index\<close>: the first position of a value.\<close>

definition index_of :: "'a list \<Rightarrow> 'a \<Rightarrow> nat option" where
  "index_of xs x = find (\<lambda>i. xs ! i = x) [0..<length xs]"

definition mark_exhausted :: "string \<Rightarrow> key_rotator \<Rightarrow> key_rotator" where
  "mark_exhausted key kr =
     (case index_of (kr_keys kr) key of
        None \<Rightarrow> kr
      | Some idx \<Rightarrow>
          if idx \<in> kr_exhausted kr then kr
          else kr\<lparr>kr_exhausted := insert idx (kr_exhausted kr), kr_order := kr_order kr @ [idx]\<rparr>)"

definition mark_recovered :: "string \<Rightarrow> key_rotator \<Rightarrow> key_rotator" where
  "mark_recovered key kr =
     (case index_of (kr_keys kr) key of
        None \<Rightarrow> kr
      | Some idx \<Rightarrow> kr\<lparr>kr_exhausted := kr_exhausted kr - {idx}, kr_order := remove1 idx (kr_order kr)\<rparr>)"

definition available_count :: "key_rotator \<Rightarrow> int" where
  "available_count kr = int (length (kr_keys kr)) - int (card (kr_exhausted kr))"

definition rotator_ok :: "key_rotator \<Rightarrow> bool" where
  "rotator_ok kr \<longleftrightarrow> kr_keys kr \<noteq> [] \<and> kr_index kr < length (kr_keys kr) \<and> distinct (kr_order kr)
     \<and> set (kr_order kr) = kr_exhausted kr \<and> kr_exhausted kr \<subseteq> {..<length (kr_keys kr)}"

datatype rotator_op = Rotate | Exhausted string | Recovered string

fun rotator_step :: "rotator_op \<Rightarrow> key_rotator \<Rightarrow> key_rotator" where
  "rotator_step Rotate kr = snd (rotate_key kr)"
| "rotator_step (Exhausted k) kr = mark_exhausted k kr"
| "rotator_step (Recovered k) kr = mark_recovered k kr"

lemma find_Some_in: "find P xs = Some x \<Longrightarrow> x \<in> set xs \<and> P x"
  by (auto simp: find_Some_iff)

lemma index_of_Some: "index_of xs x = Some i \<Longrightarrow> i < length xs \<and> xs ! i = x"
  unfolding index_of_def by (drule find_Some_in) simp

lemma next_available_Some:
  "next_available kr = Some c \<Longrightarrow> kr_keys kr \<noteq> [] \<Longrightarrow> c < length (kr_keys kr) \<and> c \<notin> kr_exhausted kr"
  unfolding next_available_def by (drule find_Some_in) auto

text \<open>One turn round the ring reaches every position.\<close>

lemma ring_covers:
  assumes "i < n" and "c < (n :: nat)"
  shows "\<exists>k \<in> {1..n}. (i + k) mod n = c"
proof (cases "i < c")
  case True
  then show ?thesis using assms by (intro bexI [of _ "c - i"]) auto
next
  case False
  have "i + (c + n - i) = c + n" using assms False by simp
  then show ?thesis using assms False by (intro bexI [of _ "c + n - i"]) auto
qed

lemma next_available_None:
  assumes "rotator_ok kr" and "next_available kr = None"
  shows "kr_exhausted kr = {..<length (kr_keys kr)}"
proof -
  have "c \<in> kr_exhausted kr" if c: "c < length (kr_keys kr)" for c
  proof -
    obtain k where "k \<in> {1..length (kr_keys kr)}" "(kr_index kr + k) mod length (kr_keys kr) = c"
      using ring_covers [OF _ c, of "kr_index kr"] assms(1) by (auto simp: rotator_ok_def)
    then have "c \<in> set (map (\<lambda>offset. (kr_index kr + offset) mod length (kr_keys kr)) [1..<length (kr_keys kr) + 1])"
      unfolding set_map set_upt by (intro image_eqI [of _ _ k]) auto
    then show ?thesis using assms(2) unfolding next_available_def find_None_iff by blast
  qed
  then show ?thesis using assms(1) by (auto simp: rotator_ok_def)
qed

lemma rotator_step_ok: "rotator_ok kr \<Longrightarrow> rotator_ok (rotator_step x kr)"
proof (cases x)
  assume ok: "rotator_ok kr"
  case Rotate
  show ?thesis
  proof (cases "next_available kr")
    case None
    then show ?thesis using ok Rotate next_available_None [OF ok None]
      by (cases "kr_order kr") (auto simp: rotator_ok_def rotate_key_def)
  next
    case (Some c)
    then show ?thesis using ok Rotate next_available_Some [OF Some] by (auto simp: rotator_ok_def rotate_key_def)
  qed
qed (auto simp: rotator_ok_def mark_exhausted_def mark_recovered_def set_remove1_eq dest: index_of_Some split: option.splits)

interpretation rotator_machine: machine rotator_step rotator_ok
  by unfold_locales (rule rotator_step_ok)

text \<open>
  Rotation never fails and never skips a usable key: after any sequence of rotations, exhaustion and
  recovery marks on a rotator made from a non-empty key list, \<open>rotate\<close> returns a key of the list; it is the
  first key after the current one, round the ring, that is not marked exhausted, or, when all are, the key
  that was marked first, which is unmarked.
\<close>

theorem rotate_key_fair:
  assumes "new_key_rotator keys = Inr kr0" and "kr = fold rotator_step ops kr0"
  shows "case next_available kr of
      Some c \<Rightarrow> c \<notin> kr_exhausted kr \<and> c < length (kr_keys kr)
        \<and> fst (rotate_key kr) = Inr (kr_keys kr ! c) \<and> kr_index (snd (rotate_key kr)) = c
    | None \<Rightarrow> kr_exhausted kr = {..<length (kr_keys kr)} \<and> kr_order kr \<noteq> []
        \<and> fst (rotate_key kr) = Inr (kr_keys kr ! hd (kr_order kr))
        \<and> kr_exhausted (snd (rotate_key kr)) = kr_exhausted kr - {hd (kr_order kr)}"
proof -
  have "rotator_ok kr0" using assms(1) by (auto simp: new_key_rotator_def rotator_ok_def split: if_splits)
  then have ok: "rotator_ok kr" unfolding assms(2) by (rule rotator_machine.run_inv)
  show ?thesis
  proof (cases "next_available kr")
    case None
    then show ?thesis using next_available_None [OF ok None] ok
      by (cases "kr_order kr") (auto simp: rotate_key_def rotator_ok_def)
  next
    case (Some c)
    then show ?thesis using next_available_Some [OF Some] ok by (auto simp: rotate_key_def rotator_ok_def)
  qed
qed

section \<open>Provider cascade\<close>

text \<open>
  A provider is its model name and its answer to the request, with the token counts of the response and
  the latency of the call (milliseconds).
\<close>

record 'r provider =
  pv_model_name :: string
  pv_chat :: "exn + (int \<times> int \<times> 'r)"
  pv_latency :: real

record call_metric =
  cm_provider :: string
  cm_model :: string
  cm_input_tokens :: int
  cm_output_tokens :: int
  cm_latency_ms :: real
  cm_ok :: bool

fun cascade ::
  "string option \<Rightarrow> 'r provider list \<Rightarrow> exn option \<Rightarrow> call_metric list \<Rightarrow> (exn + 'r) \<times> call_metric list"
where
  "cascade model [] last_error ms =
     (Inl (AllProvidersFailed (case last_error of None \<Rightarrow> ''None'' | Some e \<Rightarrow> exn_str e)), ms)"
| "cascade model (p # ps) last_error ms =
     (let name = pv_model_name p;
          used = (case model of None \<Rightarrow> name | Some m \<Rightarrow> if m = [] then name else m)
      in case pv_chat p of
           Inr (inp, out, resp) \<Rightarrow>
             (Inr resp, ms @ [\<lparr>cm_provider = name, cm_model = used, cm_input_tokens = inp, cm_output_tokens = out,
                cm_latency_ms = pv_latency p, cm_ok = True\<rparr>])
         | Inl e \<Rightarrow>
             cascade model ps (Some e) (ms @ [\<lparr>cm_provider = name, cm_model = used, cm_input_tokens = 0,
                cm_output_tokens = 0, cm_latency_ms = pv_latency p, cm_ok = False\<rparr>]))"

text \<open>
  The cascade answers with the first provider that does not raise, tries no provider after it, raises
  \<open>AllProvidersFailed\<close> only when every one of them raised, and records one metric per attempt, the last one
  successful exactly when there is an answer.
\<close>

theorem cascade_first_success:
  "(\<forall>ps1 p ps2 inp out resp. ps = ps1 @ p # ps2 \<and> (\<forall>q \<in> set ps1. \<exists>e. pv_chat q = Inl e) \<and> pv_chat p = Inr (inp, out, resp) \<longrightarrow>
      fst (cascade model ps le ms) = Inr resp \<and> length (snd (cascade model ps le ms)) = length ms + length ps1 + 1
      \<and> map cm_ok (snd (cascade model ps le ms)) = map cm_ok ms @ replicate (length ps1) False @ [True])
   \<and> ((\<forall>q \<in> set ps. \<exists>e. pv_chat q = Inl e) \<longrightarrow>
      (\<exists>m. fst (cascade model ps le ms) = Inl (AllProvidersFailed m))
      \<and> map cm_ok (snd (cascade model ps le ms)) = map cm_ok ms @ replicate (length ps) False)"
proof (induction ps arbitrary: le ms)
  case (Cons q ps)
  show ?case
  proof (cases "pv_chat q")
    case (Inl e)
    note ih = Cons.IH [of "Some e" "ms @ [\<lparr>cm_provider = pv_model_name q, cm_model =
        (case model of None \<Rightarrow> pv_model_name q | Some m \<Rightarrow> if m = [] then pv_model_name q else m),
        cm_input_tokens = 0, cm_output_tokens = 0, cm_latency_ms = pv_latency q, cm_ok = False\<rparr>]"]
    show ?thesis
    proof (intro conjI allI impI; (elim conjE)?)
      fix ps1 p ps2 inp out resp
      assume "q # ps = ps1 @ p # ps2" "\<forall>q \<in> set ps1. \<exists>e. pv_chat q = Inl e" "pv_chat p = Inr (inp, out, resp)"
      then obtain ps1' where "ps1 = q # ps1'" "ps = ps1' @ p # ps2" "\<forall>q \<in> set ps1'. \<exists>e. pv_chat q = Inl e"
        "pv_chat p = Inr (inp, out, resp)"
        using Inl by (cases ps1) auto
      with ih Inl show "fst (cascade model (q # ps) le ms) = Inr resp"
        "length (snd (cascade model (q # ps) le ms)) = length ms + length ps1 + 1"
        "map cm_ok (snd (cascade model (q # ps) le ms)) = map cm_ok ms @ replicate (length ps1) False @ [True]"
        by (auto simp: Let_def)
    qed (use ih Inl in \<open>auto simp: Let_def\<close>)
  next
    case (Inr r)
    then show ?thesis by (auto simp: Let_def Cons_eq_append_conv split: prod.splits)
  qed
qed auto

section \<open>The properties on concrete limits\<close>

theorem rate_limit_every_window_witness:
  "int (in_window 10 (snd (fold limiter_step [Try 0 5, Try 1 5, Try 2 5] (new_rate_limiter 2 100, [])))) \<le> 2"
  using rate_limit_every_window [of 2 "[Try 0 5, Try 1 5, Try 2 5]" 10 100] by simp

theorem acquire_returns_iff_witness:
  "(\<exists>t rl'. acquire 100 0 (new_rate_limiter 60 1000) = Some (t, rl'))
   \<and> \<not> (\<exists>t rl'. acquire 2000 0 (new_rate_limiter 60 1000) = Some (t, rl'))"
  using acquire_returns_iff [of "new_rate_limiter 60 1000" 100 0] acquire_returns_iff [of "new_rate_limiter 60 1000" 2000 0]
  by (simp add: new_rate_limiter_def)

theorem rotate_key_fair_witness:
  "\<exists>kr0. new_key_rotator [''k1'', ''k2''] = Inr kr0 \<and>
     fst (rotate_key (fold rotator_step [Exhausted ''k2'', Exhausted ''k1''] kr0)) = Inr ''k2''"
proof -
  let ?kr = "\<lparr>kr_keys = [''k1'', ''k2''], kr_index = 0, kr_exhausted = {}, kr_order = []\<rparr>"
  have n: "new_key_rotator [''k1'', ''k2''] = Inr ?kr" by (simp add: new_key_rotator_def)
  have "next_available (fold rotator_step [Exhausted ''k2'', Exhausted ''k1''] ?kr) = None"
    "kr_order (fold rotator_step [Exhausted ''k2'', Exhausted ''k1''] ?kr) = [1, 0]"
    "kr_keys (fold rotator_step [Exhausted ''k2'', Exhausted ''k1''] ?kr) = [''k1'', ''k2'']" by code_simp+
  then show ?thesis using n rotate_key_fair [OF n refl, of "[Exhausted ''k2'', Exhausted ''k1'']"] by auto
qed

theorem cascade_first_success_witness:
  "fst (cascade None [\<lparr>pv_model_name = ''a'', pv_chat = Inl (OtherError ''APIError'' ''down''), pv_latency = 3\<rparr>,
      \<lparr>pv_model_name = ''b'', pv_chat = Inr (1, 2, ''hi''), pv_latency = 4\<rparr>] None []) = Inr ''hi''"
proof -
  let ?p = "\<lparr>pv_model_name = ''a'', pv_chat = Inl (OtherError ''APIError'' ''down''), pv_latency = 3\<rparr>"
  let ?q = "\<lparr>pv_model_name = ''b'', pv_chat = Inr (1, 2, ''hi''), pv_latency = 4\<rparr>"
  have "[?p, ?q] = [?p] @ ?q # []" "\<forall>q \<in> set [?p]. \<exists>e. pv_chat q = Inl e" "pv_chat ?q = Inr (1, 2, ''hi'')" by simp_all
  then show ?thesis using cascade_first_success [of "[?p, ?q]" None None "[]"] by blast
qed

end
