(* ===== verification/Llm_Cost.thy ===== *)
theory Llm_Cost
  imports Prelude
begin

text \<open>
  Cost-aware model choice: pricing (\<open>src/src/breadmind/llm/pricing.py\<close>), quality tiers
  (\<open>llm/optimizer.py\<close>), success statistics with LRU eviction (\<open>llm/quality_feedback.py\<close>), the budget
  (\<open>llm/budget.py\<close>) and the router that combines them (\<open>llm/cost_router.py\<close>).

  Money and rates are reals. The calendar day is an argument. An alert is kept as its data, not as the text
  printed from it. Reading the YAML price list is left out: a registry is whatever table it produced.
\<close>

section \<open>Pricing\<close>

record model_pricing =
  mp_input :: real
  mp_output :: real
  mp_cache_creation :: real
  mp_cache_read :: real

record model_capability =
  mc_max_context :: int
  mc_quality_tier :: int
  mc_supports_thinking :: bool
  mc_supports_tools :: bool
  mc_supports_streaming :: bool
  mc_supports_vision :: bool

record model_info =
  mi_model_id :: string
  mi_provider :: string
  mi_pricing :: model_pricing
  mi_capability :: model_capability

type_synonym cost_registry = "(string, model_info) dict"

definition fallback_models :: cost_registry where
  "fallback_models =
     [(''claude-haiku-4-5'', \<lparr>mi_model_id = ''claude-haiku-4-5'', mi_provider = ''anthropic'',
        mi_pricing = \<lparr>mp_input = 0.8, mp_output = 4, mp_cache_creation = 1, mp_cache_read = 0.08\<rparr>,
        mi_capability = \<lparr>mc_max_context = 200000, mc_quality_tier = 2, mc_supports_thinking = True,
          mc_supports_tools = True, mc_supports_streaming = True, mc_supports_vision = True\<rparr>\<rparr>),
      (''claude-sonnet-4-6'', \<lparr>mi_model_id = ''claude-sonnet-4-6'', mi_provider = ''anthropic'',
        mi_pricing = \<lparr>mp_input = 3, mp_output = 15, mp_cache_creation = 3.75, mp_cache_read = 0.3\<rparr>,
        mi_capability = \<lparr>mc_max_context = 200000, mc_quality_tier = 3, mc_supports_thinking = True,
          mc_supports_tools = True, mc_supports_streaming = True, mc_supports_vision = True\<rparr>\<rparr>),
      (''gemini-2.5-flash'', \<lparr>mi_model_id = ''gemini-2.5-flash'', mi_provider = ''google'',
        mi_pricing = \<lparr>mp_input = 0.15, mp_output = 0.6, mp_cache_creation = 0, mp_cache_read = 0\<rparr>,
        mi_capability = \<lparr>mc_max_context = 1000000, mc_quality_tier = 1, mc_supports_thinking = True,
          mc_supports_tools = True, mc_supports_streaming = True, mc_supports_vision = True\<rparr>\<rparr>)]"

definition price_rank :: "model_info \<Rightarrow> real" where
  "price_rank m = mp_input (mi_pricing m) + mp_output (mi_pricing m)"

definition estimate_cost :: "cost_registry \<Rightarrow> string \<Rightarrow> int \<Rightarrow> int \<Rightarrow> real" where
  "estimate_cost reg model_id input_tokens output_tokens =
     (case dget reg model_id of
        None \<Rightarrow> 0
      | Some info \<Rightarrow>
          of_int input_tokens * mp_input (mi_pricing info) / 1000000
          + of_int output_tokens * mp_output (mi_pricing info) / 1000000)"

definition get_cheapest_models :: "cost_registry \<Rightarrow> int \<Rightarrow> bool option \<Rightarrow> bool option \<Rightarrow> model_info list" where
  "get_cheapest_models reg min_tier tools thinking =
     sort_key price_rank (filter (\<lambda>m.
        \<not> mc_quality_tier (mi_capability m) < min_tier
      \<and> (case tools of None \<Rightarrow> True | Some b \<Rightarrow> mc_supports_tools (mi_capability m) = b)
      \<and> (case thinking of None \<Rightarrow> True | Some b \<Rightarrow> mc_supports_thinking (mi_capability m) = b)) (dvalues reg))"

section \<open>Quality tiers\<close>

datatype intent_category =
    QUERY | EXECUTE | DIAGNOSE | CONFIGURE | LEARN | CHAT | SCHEDULE | TASK | SEARCH_FILES | CONTACT | CODING

fun intent_value :: "intent_category \<Rightarrow> string" where
  "intent_value QUERY = ''query''"
| "intent_value EXECUTE = ''execute''"
| "intent_value DIAGNOSE = ''diagnose''"
| "intent_value CONFIGURE = ''configure''"
| "intent_value LEARN = ''learn''"
| "intent_value CHAT = ''chat''"
| "intent_value SCHEDULE = ''schedule''"
| "intent_value TASK = ''task''"
| "intent_value SEARCH_FILES = ''search_files''"
| "intent_value CONTACT = ''contact''"
| "intent_value CODING = ''coding''"

datatype user_preference = BUDGET | BALANCED | QUALITY

text \<open>The rows of the quality matrix: tier for simple, moderate and complex requests.\<close>

fun quality_row :: "intent_category \<Rightarrow> int \<times> int \<times> int" where
  "quality_row CHAT = (1, 1, 2)"
| "quality_row QUERY = (1, 2, 3)"
| "quality_row EXECUTE = (2, 2, 3)"
| "quality_row DIAGNOSE = (2, 3, 4)"
| "quality_row CONFIGURE = (1, 2, 3)"
| "quality_row LEARN = (1, 1, 2)"
| "quality_row SCHEDULE = (1, 2, 2)"
| "quality_row TASK = (1, 2, 2)"
| "quality_row SEARCH_FILES = (1, 2, 2)"
| "quality_row CONTACT = (1, 1, 2)"
| "quality_row CODING = (2, 3, 4)"

definition quality_matrix :: "intent_category \<Rightarrow> string \<Rightarrow> int option" where
  "quality_matrix c complexity =
     (case quality_row c of (s, m, x) \<Rightarrow>
        if complexity = ''simple'' then Some s else if complexity = ''moderate'' then Some m
        else if complexity = ''complex'' then Some x else None)"

fun preference_offset :: "user_preference \<Rightarrow> int" where
  "preference_offset BUDGET = -1"
| "preference_offset BALANCED = 0"
| "preference_offset QUALITY = 1"

definition get_min_quality_tier :: "intent_category \<Rightarrow> string \<Rightarrow> user_preference \<Rightarrow> int" where
  "get_min_quality_tier c complexity pref =
     max 1 (min 4 ((case quality_matrix c complexity of None \<Rightarrow> 2 | Some t \<Rightarrow> t) + preference_offset pref))"

definition required_tier :: "intent_category \<Rightarrow> string \<Rightarrow> string \<Rightarrow> user_preference \<Rightarrow> int" where
  "required_tier c complexity urgency pref =
     (let t = get_min_quality_tier c complexity pref in
      if urgency \<in> {''high'', ''critical''} then min 4 (t + 1) else t)"

definition select_candidates ::
  "cost_registry \<Rightarrow> intent_category \<Rightarrow> string \<Rightarrow> string \<Rightarrow> user_preference \<Rightarrow> bool \<Rightarrow> bool \<Rightarrow> model_info list"
where
  "select_candidates reg c complexity urgency pref needs_tools needs_thinking =
     get_cheapest_models reg (required_tier c complexity urgency pref)
       (if needs_tools then Some True else None) (if needs_thinking then Some True else None)"

section \<open>Success statistics\<close>

record intent_stats =
  is_success_count :: int
  is_failure_count :: int
  is_total_cost :: real
  is_total_latency_ms :: real

definition empty_stats :: intent_stats where
  "empty_stats = \<lparr>is_success_count = 0, is_failure_count = 0, is_total_cost = 0, is_total_latency_ms = 0\<rparr>"

definition total_count :: "intent_stats \<Rightarrow> int" where
  "total_count st = is_success_count st + is_failure_count st"

definition success_rate :: "intent_stats \<Rightarrow> real" where
  "success_rate st = (if total_count st = 0 then 1/2 else of_int (is_success_count st) / of_int (total_count st))"

definition avg_latency_ms :: "intent_stats \<Rightarrow> real" where
  "avg_latency_ms st = (if total_count st = 0 then 0 else is_total_latency_ms st / of_int (total_count st))"

definition avg_cost :: "intent_stats \<Rightarrow> real" where
  "avg_cost st = (if total_count st = 0 then 0 else is_total_cost st / of_int (total_count st))"

record success_tracker =
  tk_max_entries :: int
  tk_stats :: "(string \<times> string, intent_stats) dict"

definition add_result :: "bool \<Rightarrow> real \<Rightarrow> real \<Rightarrow> intent_stats \<Rightarrow> intent_stats" where
  "add_result success cost latency st =
     st\<lparr>is_success_count := is_success_count st + (if success then 1 else 0),
        is_failure_count := is_failure_count st + (if success then 0 else 1),
        is_total_cost := is_total_cost st + cost, is_total_latency_ms := is_total_latency_ms st + latency\<rparr>"

text \<open>\<open>record\<close>: the entry moves to the recent end; a new entry may evict the oldest.\<close>

definition tracker_record ::
  "string \<Rightarrow> string \<Rightarrow> bool \<Rightarrow> real \<Rightarrow> real \<Rightarrow> success_tracker \<Rightarrow> exn + success_tracker"
where
  "tracker_record model intent success cost latency tk =
     (let key = (model, intent); d = tk_stats tk in
      case dget d key of
        Some st \<Rightarrow> Inr (tk\<lparr>tk_stats := dpop key d @ [(key, add_result success cost latency st)]\<rparr>)
      | None \<Rightarrow>
          if tk_max_entries tk \<le> int (length d) then
            (case d of
               [] \<Rightarrow> Inl (KeyError ''dictionary is empty'')
             | _ # d' \<Rightarrow> Inr (tk\<lparr>tk_stats := d' @ [(key, add_result success cost latency empty_stats)]\<rparr>))
          else Inr (tk\<lparr>tk_stats := d @ [(key, add_result success cost latency empty_stats)]\<rparr>))"

definition get_success_rate :: "success_tracker \<Rightarrow> string \<Rightarrow> string \<Rightarrow> real" where
  "get_success_rate tk model intent =
     (case dget (tk_stats tk) (model, intent) of None \<Rightarrow> 1/2 | Some st \<Rightarrow> success_rate st)"

definition tracker_get_stats :: "success_tracker \<Rightarrow> string \<Rightarrow> string \<Rightarrow> intent_stats" where
  "tracker_get_stats tk model intent = dget_or (tk_stats tk) (model, intent) empty_stats"

section \<open>Budget\<close>

type_synonym date = "int \<times> int \<times> int"

record budget_config =
  bc_daily_limit :: real
  bc_monthly_limit :: real
  bc_per_provider_daily :: real
  bc_alert_thresholds :: "real list"
  bc_auto_downgrade :: bool

definition default_budget_config :: budget_config where
  "default_budget_config = \<lparr>bc_daily_limit = 10, bc_monthly_limit = 200, bc_per_provider_daily = 5,
     bc_alert_thresholds = [0.5, 0.8, 0.95], bc_auto_downgrade = True\<rparr>"

record period_usage =
  pu_total :: real
  pu_by_provider :: "(string, real) dict"
  pu_by_model :: "(string, real) dict"
  pu_request_count :: int

definition new_period :: period_usage where
  "new_period = \<lparr>pu_total = 0, pu_by_provider = [], pu_by_model = [], pu_request_count = 0\<rparr>"

record budget_manager =
  bm_config :: budget_config
  bm_daily :: period_usage
  bm_monthly :: period_usage
  bm_current_day :: date
  bm_current_month :: "int \<times> int"
  bm_alerted_daily :: "real set"
  bm_alerted_monthly :: "real set"

definition month_of :: "date \<Rightarrow> int \<times> int" where
  "month_of d = (fst d, fst (snd d))"

definition new_budget_manager :: "budget_config option \<Rightarrow> date \<Rightarrow> budget_manager" where
  "new_budget_manager cfg today =
     \<lparr>bm_config = (case cfg of None \<Rightarrow> default_budget_config | Some c \<Rightarrow> c), bm_daily = new_period,
      bm_monthly = new_period, bm_current_day = today, bm_current_month = month_of today,
      bm_alerted_daily = {}, bm_alerted_monthly = {}\<rparr>"

definition maybe_rollover :: "date \<Rightarrow> budget_manager \<Rightarrow> budget_manager" where
  "maybe_rollover today bm =
     (let bm1 = (if today \<noteq> bm_current_day bm
                 then bm\<lparr>bm_daily := new_period, bm_current_day := today, bm_alerted_daily := {}\<rparr> else bm) in
      if month_of today \<noteq> bm_current_month bm1
      then bm1\<lparr>bm_monthly := new_period, bm_current_month := month_of today, bm_alerted_monthly := {}\<rparr> else bm1)"

definition add_usage :: "string \<Rightarrow> string \<Rightarrow> real \<Rightarrow> period_usage \<Rightarrow> period_usage" where
  "add_usage provider model cost pu =
     pu\<lparr>pu_total := pu_total pu + cost,
        pu_by_provider := dset provider (dget_or (pu_by_provider pu) provider 0 + cost) (pu_by_provider pu),
        pu_by_model := dset model (dget_or (pu_by_model pu) model 0 + cost) (pu_by_model pu),
        pu_request_count := pu_request_count pu + 1\<rparr>"

definition record_cost :: "date \<Rightarrow> string \<Rightarrow> string \<Rightarrow> real \<Rightarrow> budget_manager \<Rightarrow> budget_manager" where
  "record_cost today provider model cost bm =
     (let bm' = maybe_rollover today bm in
      bm'\<lparr>bm_daily := add_usage provider model cost (bm_daily bm'),
          bm_monthly := add_usage provider model cost (bm_monthly bm')\<rparr>)"

definition can_afford :: "date \<Rightarrow> string \<Rightarrow> real \<Rightarrow> budget_manager \<Rightarrow> bool \<times> budget_manager" where
  "can_afford today provider cost bm =
     (let bm' = maybe_rollover today bm; cfg = bm_config bm' in
      (if pu_total (bm_daily bm') + cost > bc_daily_limit cfg then False
       else if pu_total (bm_monthly bm') + cost > bc_monthly_limit cfg then False
       else if dget_or (pu_by_provider (bm_daily bm')) provider 0 + cost > bc_per_provider_daily cfg then False
       else True, bm'))"

datatype alert = Daily_Alert int real real | Monthly_Alert int real real

definition usage_ratio :: "real \<Rightarrow> real \<Rightarrow> real" where
  "usage_ratio spent cap = (if 0 < cap then spent / cap else 0)"

definition check_threshold :: "real \<Rightarrow> budget_manager \<times> alert list \<Rightarrow> budget_manager \<times> alert list" where
  "check_threshold th x =
     (let (bm, alerts) = x; cfg = bm_config bm; d = pu_total (bm_daily bm); m = pu_total (bm_monthly bm);
          percent = real_trunc (th * 100);
          (bm1, alerts1) = (if th \<notin> bm_alerted_daily bm \<and> th \<le> usage_ratio d (bc_daily_limit cfg)
            then (bm\<lparr>bm_alerted_daily := insert th (bm_alerted_daily bm)\<rparr>,
                  alerts @ [Daily_Alert percent d (bc_daily_limit cfg)])
            else (bm, alerts))
      in if th \<notin> bm_alerted_monthly bm1 \<and> th \<le> usage_ratio m (bc_monthly_limit cfg)
         then (bm1\<lparr>bm_alerted_monthly := insert th (bm_alerted_monthly bm1)\<rparr>,
               alerts1 @ [Monthly_Alert percent m (bc_monthly_limit cfg)])
         else (bm1, alerts1))"

definition check_alerts :: "date \<Rightarrow> budget_manager \<Rightarrow> budget_manager \<times> alert list" where
  "check_alerts today bm =
     (let bm' = maybe_rollover today bm in fold check_threshold (bc_alert_thresholds (bm_config bm')) (bm', []))"

text \<open>\<open>round(x, 6)\<close> with ties to even, and the summary.\<close>

definition round6 :: "real \<Rightarrow> real" where
  "round6 x =
     (let y = x * 1000000; n = \<lfloor>y\<rfloor>; d = y - of_int n in
      of_int (if d < 1/2 \<or> d = 1/2 \<and> even n then n else n + 1) / 1000000)"

definition summary_of :: "real \<Rightarrow> period_usage \<Rightarrow> json" where
  "summary_of cap pu =
     JObj [(''total'', JFloat (round6 (pu_total pu))), (''limit'', JFloat cap),
       (''remaining'', JFloat (round6 (max 0 (cap - pu_total pu)))),
       (''by_provider'', JObj (map (\<lambda>(k, v). (k, JFloat v)) (pu_by_provider pu))),
       (''by_model'', JObj (map (\<lambda>(k, v). (k, JFloat v)) (pu_by_model pu))),
       (''request_count'', JInt (pu_request_count pu))]"

definition get_usage_summary :: "date \<Rightarrow> budget_manager \<Rightarrow> json_obj \<times> budget_manager" where
  "get_usage_summary today bm =
     (let bm' = maybe_rollover today bm in
      ([(''daily'', summary_of (bc_daily_limit (bm_config bm')) (bm_daily bm')),
        (''monthly'', summary_of (bc_monthly_limit (bm_config bm')) (bm_monthly bm'))], bm'))"

section \<open>The cost router\<close>

record cost_router =
  cr_registry :: cost_registry
  cr_budget :: budget_manager
  cr_tracker :: success_tracker
  cr_available :: "string set"
  cr_default :: "string \<times> string"
  cr_enabled :: bool

definition min_success_rate :: real where
  "min_success_rate = 3 / 10"

fun pick_candidate ::
  "date \<Rightarrow> cost_registry \<Rightarrow> success_tracker \<Rightarrow> string set \<Rightarrow> string \<Rightarrow> int \<Rightarrow> model_info list \<Rightarrow> budget_manager \<Rightarrow>
   (string \<times> string) option \<times> budget_manager"
where
  "pick_candidate today reg tk avail intent tokens [] bm = (None, bm)"
| "pick_candidate today reg tk avail intent tokens (m # ms) bm =
     (if mi_provider m \<notin> avail then pick_candidate today reg tk avail intent tokens ms bm
      else
        let (ok, bm') = can_afford today (mi_provider m) (estimate_cost reg (mi_model_id m) tokens tokens) bm in
        if \<not> ok then pick_candidate today reg tk avail intent tokens ms bm'
        else if get_success_rate tk (mi_model_id m) intent < min_success_rate
        then pick_candidate today reg tk avail intent tokens ms bm'
        else (Some (mi_provider m, mi_model_id m), bm'))"

definition select_model ::
  "date \<Rightarrow> intent_category \<Rightarrow> string \<Rightarrow> string \<Rightarrow> int \<Rightarrow> user_preference \<Rightarrow> bool \<Rightarrow> bool \<Rightarrow> cost_router \<Rightarrow>
   (string \<times> string) \<times> cost_router"
where
  "select_model today c complexity urgency tokens pref needs_tools needs_thinking cr =
     (if \<not> cr_enabled cr then (cr_default cr, cr)
      else
        let cands = select_candidates (cr_registry cr) c complexity urgency pref needs_tools needs_thinking in
        if cands = [] then (cr_default cr, cr)
        else
          let (pick, bm) = pick_candidate today (cr_registry cr) (cr_tracker cr) (cr_available cr) (intent_value c) tokens cands
                (cr_budget cr)
          in (case pick of None \<Rightarrow> cr_default cr | Some pm \<Rightarrow> pm, cr\<lparr>cr_budget := bm\<rparr>))"

definition record_result ::
  "date \<Rightarrow> string \<Rightarrow> string \<Rightarrow> string \<Rightarrow> bool \<Rightarrow> real \<Rightarrow> real \<Rightarrow> cost_router \<Rightarrow> (exn + alert list) \<times> cost_router"
where
  "record_result today provider model intent success cost latency cr =
     (let cr1 = cr\<lparr>cr_budget := record_cost today provider model cost (cr_budget cr)\<rparr> in
      case tracker_record model intent success cost latency (cr_tracker cr1) of
        Inl e \<Rightarrow> (Inl e, cr1)
      | Inr tk \<Rightarrow>
          let (bm, alerts) = check_alerts today (cr_budget cr1) in
          (Inr alerts, cr1\<lparr>cr_tracker := tk, cr_budget := bm\<rparr>))"


section \<open>The budget is respected\<close>

lemma rollover_config [simp]: "bm_config (maybe_rollover today bm) = bm_config bm"
  by (simp add: maybe_rollover_def Let_def)

lemma rollover_idem: "maybe_rollover today (maybe_rollover today bm) = maybe_rollover today bm"
  by (simp add: maybe_rollover_def Let_def)

definition period_ok :: "period_usage \<Rightarrow> bool" where
  "period_ok pu \<longleftrightarrow> distinct (dkeys (pu_by_provider pu)) \<and> distinct (dkeys (pu_by_model pu))
     \<and> pu_total pu = sum_list (dvalues (pu_by_provider pu)) \<and> pu_total pu = sum_list (dvalues (pu_by_model pu))"

definition within_budget :: "budget_manager \<Rightarrow> bool" where
  "within_budget bm \<longleftrightarrow>
     period_ok (bm_daily bm) \<and> period_ok (bm_monthly bm)
   \<and> pu_total (bm_daily bm) \<le> bc_daily_limit (bm_config bm)
   \<and> pu_total (bm_monthly bm) \<le> bc_monthly_limit (bm_config bm)
   \<and> (\<forall>(p, c) \<in> set (pu_by_provider (bm_daily bm)). c \<le> bc_per_provider_daily (bm_config bm))"

definition limits_ok :: "budget_config \<Rightarrow> bool" where
  "limits_ok cfg \<longleftrightarrow> 0 \<le> bc_daily_limit cfg \<and> 0 \<le> bc_monthly_limit cfg \<and> 0 \<le> bc_per_provider_daily cfg"

lemma sum_dvalues_dset_real:
  "distinct (dkeys d) \<Longrightarrow> sum_list (dvalues (dset k v d)) = sum_list (dvalues d) - dget_or d k 0 + (v :: real)"
  by (induction d) (auto simp: dget_or_def map_of_eq_None_iff [symmetric] split: option.splits)

lemma add_usage_ok: "period_ok pu \<Longrightarrow> period_ok (add_usage p m c pu)"
  by (simp add: period_ok_def add_usage_def sum_dvalues_dset_real)

lemma rollover_within: "within_budget bm \<Longrightarrow> limits_ok (bm_config bm) \<Longrightarrow> within_budget (maybe_rollover today bm)"
  by (simp add: maybe_rollover_def within_budget_def limits_ok_def new_period_def period_ok_def Let_def)

text \<open>A client that spends only what the budget says it can afford, and the other operations.\<close>

datatype budget_op = Spend date string string real | Alerts date | Summary date

fun budget_step :: "budget_op \<Rightarrow> budget_manager \<Rightarrow> budget_manager" where
  "budget_step (Spend today p m c) bm =
     (let (ok, bm') = can_afford today p c bm in if ok then record_cost today p m c bm' else bm')"
| "budget_step (Alerts today) bm = fst (check_alerts today bm)"
| "budget_step (Summary today) bm = snd (get_usage_summary today bm)"

lemma record_affordable_within:
  assumes "within_budget bm" and "limits_ok (bm_config bm)" and "fst (can_afford today p c bm)"
  shows "within_budget (record_cost today p m c (snd (can_afford today p c bm)))"
proof -
  let ?b = "maybe_rollover today bm"
  have w: "within_budget ?b" by (rule rollover_within [OF assms(1,2)])
  have a: "pu_total (bm_daily ?b) + c \<le> bc_daily_limit (bm_config bm)"
    "pu_total (bm_monthly ?b) + c \<le> bc_monthly_limit (bm_config bm)"
    "dget_or (pu_by_provider (bm_daily ?b)) p 0 + c \<le> bc_per_provider_daily (bm_config bm)"
    using assms(3) by (auto simp: can_afford_def Let_def split: if_splits)
  have "\<forall>(q, x) \<in> set (pu_by_provider (add_usage p m c (bm_daily ?b))). x \<le> bc_per_provider_daily (bm_config bm)"
    using set_dset_subset [of p "dget_or (pu_by_provider (bm_daily ?b)) p 0 + c" "pu_by_provider (bm_daily ?b)"] w a(3)
    by (fastforce simp: add_usage_def within_budget_def)
  moreover have "record_cost today p m c (snd (can_afford today p c bm)) =
      ?b\<lparr>bm_daily := add_usage p m c (bm_daily ?b), bm_monthly := add_usage p m c (bm_monthly ?b)\<rparr>"
    by (simp add: record_cost_def can_afford_def Let_def rollover_idem)
  ultimately show ?thesis using w a
    by (simp add: within_budget_def add_usage_ok) (simp add: add_usage_def)
qed

lemma check_threshold_frame:
  "bm_config (fst (check_threshold th x)) = bm_config (fst x) \<and> bm_daily (fst (check_threshold th x)) = bm_daily (fst x)
   \<and> bm_monthly (fst (check_threshold th x)) = bm_monthly (fst x)"
  by (cases x) (simp add: check_threshold_def Let_def)

lemma check_thresholds_frame:
  "bm_config (fst (fold check_threshold ths x)) = bm_config (fst x)
   \<and> bm_daily (fst (fold check_threshold ths x)) = bm_daily (fst x)
   \<and> bm_monthly (fst (fold check_threshold ths x)) = bm_monthly (fst x)"
proof (induction ths arbitrary: x)
  case (Cons th ths)
  then show ?case using Cons.IH [of "check_threshold th x"] check_threshold_frame [of th x] by simp
qed simp

lemma budget_step_within:
  assumes "within_budget bm \<and> limits_ok (bm_config bm)"
  shows "within_budget (budget_step x bm) \<and> limits_ok (bm_config (budget_step x bm))"
proof (cases x)
  case (Spend today p m c)
  then show ?thesis using assms record_affordable_within [of bm today p c m] rollover_within [of bm today]
    by (auto simp: can_afford_def record_cost_def Let_def)
next
  case (Alerts today)
  then show ?thesis using assms rollover_within [of bm today] check_thresholds_frame
    by (simp add: check_alerts_def Let_def within_budget_def)
next
  case (Summary today)
  then show ?thesis using assms rollover_within [of bm today] by (simp add: get_usage_summary_def Let_def)
qed

interpretation budget_machine: machine budget_step "\<lambda>bm. within_budget bm \<and> limits_ok (bm_config bm)"
  by unfold_locales (rule budget_step_within)

lemma budget_config_run: "bm_config (fold budget_step ops bm) = bm_config bm"
proof (induction ops arbitrary: bm)
  case (Cons x ops)
  have "bm_config (budget_step x bm) = bm_config bm"
    by (cases x) (simp_all add: can_afford_def record_cost_def check_alerts_def get_usage_summary_def Let_def check_thresholds_frame)
  then show ?case by (simp add: Cons.IH)
qed simp


section \<open>The router's choice\<close>

definition affordable :: "date \<Rightarrow> string \<Rightarrow> real \<Rightarrow> budget_manager \<Rightarrow> bool" where
  "affordable today p c bm = fst (can_afford today p c bm)"

lemma affordable_rollover: "affordable today p c (maybe_rollover today bm) = affordable today p c bm"
  by (simp add: affordable_def can_afford_def Let_def rollover_idem)

lemma can_afford_eq: "can_afford today p c bm = (affordable today p c bm, maybe_rollover today bm)"
  by (simp add: affordable_def can_afford_def Let_def)

definition viable :: "date \<Rightarrow> string \<Rightarrow> int \<Rightarrow> cost_router \<Rightarrow> model_info \<Rightarrow> bool" where
  "viable today intent tokens cr m \<longleftrightarrow> mi_provider m \<in> cr_available cr
     \<and> affordable today (mi_provider m) (estimate_cost (cr_registry cr) (mi_model_id m) tokens tokens) (cr_budget cr)
     \<and> min_success_rate \<le> get_success_rate (cr_tracker cr) (mi_model_id m) intent"

lemma pick_candidate_spec:
  "fst (pick_candidate today reg tk avail intent tokens ms bm) =
     map_option (\<lambda>m. (mi_provider m, mi_model_id m))
       (find (\<lambda>m. mi_provider m \<in> avail
          \<and> affordable today (mi_provider m) (estimate_cost reg (mi_model_id m) tokens tokens) bm
          \<and> min_success_rate \<le> get_success_rate tk (mi_model_id m) intent) ms)"
  by (induction ms arbitrary: bm) (simp_all add: can_afford_eq affordable_rollover not_less Let_def)

lemma find_first_sorted:
  assumes "find P xs = Some x" and "sorted (map f xs)" and "y \<in> set xs" and "P y"
  shows "f x \<le> (f y :: real)"
  using assms by (induction xs) (auto split: if_splits)

text \<open>
  The router picks the cheapest viable model: when it is enabled, it returns the default pair exactly when no
  model of the registry with the required tier and features is viable; otherwise it returns a viable one
  (an available provider, affordable today, success rate at least 0.3) of minimal price among the viable.
\<close>

theorem select_model_cheapest_viable:
  assumes "cr_enabled cr"
    and "cands = select_candidates (cr_registry cr) c complexity urgency pref needs_tools needs_thinking"
  shows "(\<exists>m \<in> set cands. viable today (intent_value c) tokens cr m
            \<and> fst (select_model today c complexity urgency tokens pref needs_tools needs_thinking cr) = (mi_provider m, mi_model_id m)
            \<and> required_tier c complexity urgency pref \<le> mc_quality_tier (mi_capability m)
            \<and> (\<forall>m' \<in> set cands. viable today (intent_value c) tokens cr m' \<longrightarrow> price_rank m \<le> price_rank m'))
    \<or> (\<forall>m \<in> set cands. \<not> viable today (intent_value c) tokens cr m)
        \<and> fst (select_model today c complexity urgency tokens pref needs_tools needs_thinking cr) = cr_default cr"
proof -
  let ?P = "viable today (intent_value c) tokens cr"
  have ch: "fst (pick_candidate today (cr_registry cr) (cr_tracker cr) (cr_available cr) (intent_value c) tokens cands (cr_budget cr))
      = map_option (\<lambda>m. (mi_provider m, mi_model_id m)) (find ?P cands)"
    unfolding pick_candidate_spec viable_def ..
  have sel: "fst (select_model today c complexity urgency tokens pref needs_tools needs_thinking cr) =
      (case find ?P cands of None \<Rightarrow> cr_default cr | Some m \<Rightarrow> (mi_provider m, mi_model_id m))"
    using assms ch by (auto simp: select_model_def Let_def split: prod.splits option.splits)
  show ?thesis
  proof (cases "find ?P cands")
    case None
    then have "\<forall>m \<in> set cands. \<not> ?P m" by (simp add: find_None_iff)
    moreover have "fst (select_model today c complexity urgency tokens pref needs_tools needs_thinking cr) = cr_default cr"
      using sel None by simp
    ultimately show ?thesis by blast
  next
    case (Some m)
    then have m: "m \<in> set cands" "?P m" by (auto simp: find_Some_iff)
    have "sorted (map price_rank cands)" by (simp add: assms(2) select_candidates_def get_cheapest_models_def)
    then have "\<forall>m' \<in> set cands. ?P m' \<longrightarrow> price_rank m \<le> price_rank m'" using find_first_sorted [OF Some] by blast
    moreover have "required_tier c complexity urgency pref \<le> mc_quality_tier (mi_capability m)"
      using m(1) by (auto simp: assms(2) select_candidates_def get_cheapest_models_def)
    ultimately show ?thesis using m sel Some by auto
  qed
qed


section \<open>The tracker's table\<close>

definition tracker_ok :: "success_tracker \<Rightarrow> bool" where
  "tracker_ok tk \<longleftrightarrow> distinct (dkeys (tk_stats tk)) \<and> int (length (tk_stats tk)) \<le> tk_max_entries tk
     \<and> (\<forall>st \<in> set (dvalues (tk_stats tk)). 0 \<le> is_success_count st \<and> 0 \<le> is_failure_count st \<and> 0 < total_count st)"

lemma add_result_counts:
  "0 \<le> is_success_count st \<Longrightarrow> 0 \<le> is_failure_count st \<Longrightarrow>
   0 \<le> is_success_count (add_result b c l st) \<and> 0 \<le> is_failure_count (add_result b c l st) \<and> 0 < total_count (add_result b c l st)"
  by (simp add: add_result_def total_count_def)

text \<open>
  The success tracker is a bounded table: recording a result on a table within its bound never raises,
  keeps it within the bound with one entry per (model, intent), updates only that entry (the oldest one may
  be evicted), makes it the most recent, and every success rate is a number between 0 and 1.
\<close>

theorem tracker_record_bounded:
  assumes ok: "tracker_ok tk" and cap: "0 < tk_max_entries tk"
  shows "\<exists>tk'. tracker_record m i b c l tk = Inr tk' \<and> tracker_ok tk'
    \<and> fst (last (tk_stats tk')) = (m, i)
    \<and> dget (tk_stats tk') (m, i) = Some (add_result b c l (tracker_get_stats tk m i))
    \<and> (\<forall>k. k \<noteq> (m, i) \<longrightarrow> dget (tk_stats tk') k = dget (tk_stats tk) k
          \<or> k = fst (hd (tk_stats tk)) \<and> dget (tk_stats tk') k = None)
    \<and> 0 \<le> get_success_rate tk' m i \<and> get_success_rate tk' m i \<le> 1"
proof -
  let ?st = "add_result b c l (tracker_get_stats tk m i)" and ?d = "tk_stats tk"
  have d: "distinct (dkeys ?d)" "int (length ?d) \<le> tk_max_entries tk"
    and vals: "\<forall>st \<in> set (dvalues ?d). 0 \<le> is_success_count st \<and> 0 \<le> is_failure_count st \<and> 0 < total_count st"
    using ok by (simp_all add: tracker_ok_def)
  have st: "0 \<le> is_success_count ?st" "0 \<le> is_failure_count ?st" "0 < total_count ?st"
  proof -
    have "0 \<le> is_success_count (tracker_get_stats tk m i) \<and> 0 \<le> is_failure_count (tracker_get_stats tk m i)"
      using vals by (force simp: tracker_get_stats_def dget_or_def empty_stats_def split: option.splits dest!: map_of_SomeD)
    then show "0 \<le> is_success_count ?st" "0 \<le> is_failure_count ?st" "0 < total_count ?st"
      using add_result_counts by blast+
  qed
  obtain e where run: "tracker_record m i b c l tk = Inr (tk\<lparr>tk_stats := e @ [((m, i), ?st)]\<rparr>)"
    and keys: "(m, i) \<notin> set (dkeys e)" "distinct (dkeys e)" "int (length e) < tk_max_entries tk" "set e \<subseteq> set ?d"
    and rest: "\<forall>k. k \<noteq> (m, i) \<longrightarrow> dget e k = dget ?d k \<or> k = fst (hd ?d) \<and> dget e k = None"
  proof (cases "dget ?d (m, i)")
    case (Some s)
    have "int (length (dpop (m, i) ?d)) < tk_max_entries tk" using length_dpop [OF Some d(1)] d(2) by simp
    moreover have "(m, i) \<notin> set (dkeys (dpop (m, i) ?d))" unfolding set_dkeys_dpop by simp
    ultimately show ?thesis using Some d set_dpop_subset [of "(m, i)" ?d]
      by (intro that [of "dpop (m, i) ?d"]) (auto simp: tracker_record_def Let_def tracker_get_stats_def dget_or_def)
  next
    case None
    then have new: "(m, i) \<notin> set (dkeys ?d)" by (simp add: dget_None_iff)
    show ?thesis
    proof (cases "tk_max_entries tk \<le> int (length ?d)")
      case True
      then obtain k v e where e: "?d = (k, v) # e" using cap by (cases ?d) auto
      then have "dget e k = None" using d(1) by (simp add: dget_None_iff)
      then show ?thesis using None True e d new
        by (intro that [of e]) (auto simp: tracker_record_def Let_def tracker_get_stats_def dget_or_def)
    qed (use None d new in \<open>auto intro!: that [of ?d] simp: tracker_record_def Let_def tracker_get_stats_def dget_or_def\<close>)
  qed
  let ?tk = "tk\<lparr>tk_stats := e @ [((m, i), ?st)]\<rparr>"
  have get: "dget (tk_stats ?tk) k = (if k = (m, i) then Some ?st else dget e k)" for k
    using keys(1) dget_Some_in_keys [of e "(m, i)"] by (auto simp: map_add_def split: option.splits)
  have "tracker_ok ?tk" using keys vals st by (auto simp: tracker_ok_def)
  moreover have "0 \<le> success_rate ?st \<and> success_rate ?st \<le> 1"
    using st by (simp add: success_rate_def) (simp add: total_count_def)
  ultimately show ?thesis using run get rest by (auto simp: get_success_rate_def)
qed

section \<open>The properties on concrete data\<close>


definition demo_router :: cost_router where
  "demo_router = \<lparr>cr_registry = fallback_models, cr_budget = new_budget_manager None (2026, 4, 1),
     cr_tracker = \<lparr>tk_max_entries = 10000, tk_stats = []\<rparr>, cr_available = {''anthropic''},
     cr_default = (''anthropic'', ''claude-sonnet-4-6''), cr_enabled = True\<rparr>"

theorem select_model_cheapest_viable_witness:
  "fst (select_model (2026, 4, 1) CHAT ''simple'' ''normal'' 1000 BALANCED True False demo_router) \<in>
     insert (cr_default demo_router) ((\<lambda>m. (mi_provider m, mi_model_id m)) `
       set (select_candidates fallback_models CHAT ''simple'' ''normal'' BALANCED True False))"
  using select_model_cheapest_viable [of demo_router _ CHAT "''simple''" "''normal''" BALANCED True False "(2026, 4, 1)" 1000]
  by (auto simp: demo_router_def)

theorem tracker_record_bounded_witness:
  "\<exists>tk'. tracker_record ''m'' ''chat'' True 0 5 \<lparr>tk_max_entries = 1, tk_stats = []\<rparr> = Inr tk'
     \<and> get_success_rate tk' ''m'' ''chat'' \<le> 1"
  using tracker_record_bounded [of "\<lparr>tk_max_entries = 1, tk_stats = []\<rparr>" "''m''" "''chat''" True 0 5]
  by (auto simp: tracker_ok_def)

end
