(* ===== verification/Acl.thy ===== *)
theory Acl
  imports Prelude
begin

text \<open>
  Access control: channels and messages of the messenger (\<open>src/src/breadmind/messenger/acl/channel.py\<close>,
  \<open>acl/message.py\<close>) and the visibility of organisational knowledge (\<open>kb/acl.py\<close>).

  A query on a primary key is a lookup in a table; a query that selects rows is a filter, in table order.
  The Slack client and the Redis cache of \<open>kb/acl.py\<close> are parameters: what the membership call returns
  (an exception or the members), and what a cache read gives.
\<close>

type_synonym uid = string
type_synonym cid = string

section \<open>Tables\<close>

record user_row =
  ur_role :: string
  ur_workspace :: string
  ur_deactivated :: bool

record channel_row =
  ch_workspace :: string
  ch_kind :: string
  ch_posting_policy :: string
  ch_archived :: bool

record member_row =
  cm_channel :: cid
  cm_user :: uid
  cm_role :: string

record message_row =
  ms_author :: uid
  ms_channel :: cid
  ms_deleted :: bool

record acl_db =
  t_users :: "(uid, user_row) dict"
  t_channels :: "(cid, channel_row) dict"
  t_members :: "member_row list"
  t_messages :: "(string, message_row) dict"

section \<open>Channels\<close>

definition get_user_role :: "acl_db \<Rightarrow> uid \<Rightarrow> (string \<times> string) option" where
  "get_user_role db u =
     (case dget (t_users db) u of
        None \<Rightarrow> None
      | Some r \<Rightarrow> if ur_deactivated r then None else Some (ur_role r, ur_workspace r))"

definition get_channel :: "acl_db \<Rightarrow> cid \<Rightarrow> channel_row option" where
  "get_channel db c = dget (t_channels db) c"

definition user_is_channel_member :: "acl_db \<Rightarrow> uid \<Rightarrow> cid \<Rightarrow> bool \<Rightarrow> bool" where
  "user_is_channel_member db u c require_admin =
     list_ex (\<lambda>m. cm_channel m = c \<and> cm_user m = u \<and> (require_admin \<longrightarrow> cm_role m = ''admin'')) (t_members db)"

definition can_user_see_channel :: "acl_db \<Rightarrow> uid \<Rightarrow> cid \<Rightarrow> bool" where
  "can_user_see_channel db u c =
     (case get_user_role db u of
        None \<Rightarrow> False
      | Some (role, user_wid) \<Rightarrow>
          (case get_channel db c of
             None \<Rightarrow> False
           | Some chan \<Rightarrow>
               if ch_workspace chan \<noteq> user_wid then False
               else if role \<in> {''owner'', ''admin''} then True
               else if ch_kind chan = ''public'' \<and> role = ''member'' then True
               else user_is_channel_member db u c False))"

definition can_user_post_message :: "acl_db \<Rightarrow> uid \<Rightarrow> cid \<Rightarrow> bool" where
  "can_user_post_message db u c =
     (case get_user_role db u of
        None \<Rightarrow> False
      | Some (role, user_wid) \<Rightarrow>
          (case get_channel db c of
             None \<Rightarrow> False
           | Some chan \<Rightarrow>
               if ch_workspace chan \<noteq> user_wid \<or> ch_archived chan then False
               else if role \<in> {''owner'', ''admin''} then True
               else if \<not> can_user_see_channel db u c then False
               else if ch_posting_policy chan = ''admins'' then user_is_channel_member db u c True
               else if ch_posting_policy chan = ''specific_roles'' then user_is_channel_member db u c True
               else if role = ''guest'' then user_is_channel_member db u c False
               else True))"

definition list_visible_channels :: "acl_db \<Rightarrow> string \<Rightarrow> uid \<Rightarrow> string \<Rightarrow> cid list" where
  "list_visible_channels db wid u role =
     (let joined = map cm_channel (filter (\<lambda>m. cm_user m = u) (t_members db)) in
      if role \<in> {''owner'', ''admin''} then
        map fst (filter (\<lambda>(c, chan). ch_workspace chan = wid) (t_channels db))
      else if role = ''member'' then
        map fst (filter (\<lambda>(c, chan). ch_workspace chan = wid \<and> (ch_kind chan = ''public'' \<or> c \<in> set joined)) (t_channels db))
      else
        map fst (filter (\<lambda>(c, chan). ch_workspace chan = wid \<and> c \<in> set joined) (t_channels db)))"

definition can_user_admin_channel :: "acl_db \<Rightarrow> uid \<Rightarrow> cid \<Rightarrow> bool" where
  "can_user_admin_channel db u c =
     (case get_user_role db u of
        None \<Rightarrow> False
      | Some (role, _) \<Rightarrow> if role \<in> {''owner'', ''admin''} then True else user_is_channel_member db u c True)"

section \<open>Messages\<close>

definition can_user_see_message :: "acl_db \<Rightarrow> uid \<Rightarrow> string \<Rightarrow> bool" where
  "can_user_see_message db u m =
     (case dget (t_messages db) m of
        None \<Rightarrow> False
      | Some row \<Rightarrow> can_user_see_channel db u (ms_channel row))"

definition can_user_edit_message :: "acl_db \<Rightarrow> uid \<Rightarrow> string \<Rightarrow> bool" where
  "can_user_edit_message db u m =
     (case dget (t_messages db) m of
        None \<Rightarrow> False
      | Some msg \<Rightarrow>
          if ms_deleted msg then False
          else (case get_user_role db u of
                  None \<Rightarrow> False
                | Some (role, _) \<Rightarrow>
                    if role \<in> {''owner'', ''admin''} then True
                    else if ms_author msg \<noteq> u then False
                    else can_user_see_channel db u (ms_channel msg)))"

definition can_user_delete_message :: "acl_db \<Rightarrow> uid \<Rightarrow> string \<Rightarrow> bool" where
  "can_user_delete_message db u m = can_user_edit_message db u m"

section \<open>Organisational knowledge\<close>

record knowledge_row =
  kn_id :: int
  kn_project :: string
  kn_source_channel :: "cid option"

record kb_db =
  kb_project_members :: "(string \<times> uid) list"
  kb_knowledge :: "knowledge_row list"

definition user_projects :: "kb_db \<Rightarrow> uid \<Rightarrow> string list" where
  "user_projects db u = map fst (filter (\<lambda>(p, v). v = u) (kb_project_members db))"

text \<open>
  \<open>cache\<close>: \<open>None\<close> when no Redis client is set; a read gives an exception, nothing, or the cached members.
\<close>

type_synonym member_cache = "(cid \<Rightarrow> exn + uid list option) option"
type_synonym slack = "cid \<Rightarrow> exn + uid list"

definition channel_members :: "member_cache \<Rightarrow> slack \<Rightarrow> cid \<Rightarrow> uid set option" where
  "channel_members cache slack c =
     (let ask = (case slack c of Inl _ \<Rightarrow> None | Inr ms \<Rightarrow> Some (set ms)) in
      case cache of
        None \<Rightarrow> ask
      | Some read \<Rightarrow>
          (case read c of
             Inl _ \<Rightarrow> ask
           | Inr None \<Rightarrow> ask
           | Inr (Some ms) \<Rightarrow> Some (set ms)))"

definition can_read_channel :: "member_cache \<Rightarrow> slack \<Rightarrow> uid \<Rightarrow> cid \<Rightarrow> bool" where
  "can_read_channel cache slack u c =
     (case channel_members cache slack c of None \<Rightarrow> False | Some ms \<Rightarrow> u \<in> ms)"

definition filter_knowledge :: "member_cache \<Rightarrow> slack \<Rightarrow> kb_db \<Rightarrow> uid \<Rightarrow> int list \<Rightarrow> int set" where
  "filter_knowledge cache slack db u ids =
     (if ids = [] then {}
      else
        let projects = user_projects db u in
        if projects = [] then {}
        else
          let rows = filter (\<lambda>r. kn_id r \<in> set ids \<and> kn_project r \<in> set projects) (kb_knowledge db) in
          fold (\<lambda>r visible.
            case kn_source_channel r of
              None \<Rightarrow> insert (kn_id r) visible
            | Some c \<Rightarrow> if can_read_channel cache slack u c then insert (kn_id r) visible else visible) rows {})"

section \<open>Channel visibility\<close>

lemma member_iff: "user_is_channel_member db u c False \<longleftrightarrow> c \<in> set (map cm_channel (filter (\<lambda>m. cm_user m = u) (t_members db)))"
  by (auto simp: user_is_channel_member_def list_ex_iff)

text \<open>
  C16. The channel list and the visibility check agree: for an active user, the channels listed for the user's
  own workspace and role are exactly the channels the user may see, each once; a deactivated or unknown
  user sees none.
\<close>

theorem visible_channels_agree:
  assumes "distinct (dkeys (t_channels db))"
  shows "(\<forall>role wid. get_user_role db u = Some (role, wid) \<longrightarrow>
       distinct (list_visible_channels db wid u role)
       \<and> set (list_visible_channels db wid u role) = {c. can_user_see_channel db u c})
    \<and> (get_user_role db u = None \<longrightarrow> {c. can_user_see_channel db u c} = {})"
proof (intro conjI allI impI)
  fix role wid assume role: "get_user_role db u = Some (role, wid)"
  show "distinct (list_visible_channels db wid u role)"
    using assms by (auto simp: list_visible_channels_def Let_def distinct_map_filter)
  have "c \<in> set (list_visible_channels db wid u role) \<longleftrightarrow> can_user_see_channel db u c" for c
    unfolding list_visible_channels_def can_user_see_channel_def get_channel_def member_iff Let_def
    using dkeys_filter [OF assms] role by (cases "dget (t_channels db) c") (simp_all split del: if_split, auto)
  then show "set (list_visible_channels db wid u role) = {c. can_user_see_channel db u c}" by blast
qed (simp add: can_user_see_channel_def)


text \<open>
  Posting is never wider than reading: whoever may post in a channel may see it, belongs to its workspace,
  is active, and the channel is not archived; where the policy restricts posting, only workspace owners and
  admins and admins of the channel may post.
\<close>

theorem post_implies_see:
  assumes "can_user_post_message db u c"
  shows "can_user_see_channel db u c \<and>
    (\<exists>role wid chan. get_user_role db u = Some (role, wid) \<and> get_channel db c = Some chan \<and> ch_workspace chan = wid
       \<and> \<not> ch_archived chan
       \<and> (ch_posting_policy chan \<in> {''admins'', ''specific_roles''} \<longrightarrow>
            role \<in> {''owner'', ''admin''} \<or> user_is_channel_member db u c True))"
proof -
  obtain role wid where role: "get_user_role db u = Some (role, wid)"
    using assms by (cases "get_user_role db u") (auto simp: can_user_post_message_def)
  obtain chan where chan: "get_channel db c = Some chan"
    using assms role by (cases "get_channel db c") (auto simp: can_user_post_message_def)
  note post = assms [unfolded can_user_post_message_def role chan option.case prod.case]
  from post have ws: "ch_workspace chan = wid" "\<not> ch_archived chan" by (meson, meson)
  have see: "can_user_see_channel db u c"
  proof (cases "role \<in> {''owner'', ''admin''}")
    case True
    then show ?thesis unfolding can_user_see_channel_def role chan option.case prod.case using ws by simp
  next
    case False
    then show ?thesis using post ws by meson
  qed
  have "role \<in> {''owner'', ''admin''} \<or> user_is_channel_member db u c True"
    if "ch_posting_policy chan \<in> {''admins'', ''specific_roles''}"
    using that post by (metis insert_iff singletonD)
  then show ?thesis using role chan ws see by blast
qed

text \<open>
  Editing, deleting and administering ignore the workspace: an owner or admin of one workspace may edit and
  delete every message that is not deleted, and administer every channel, of every other workspace, though
  the same user may not even see them.
\<close>

theorem foreign_admin_edits:
  assumes "get_user_role db u = Some (role, wid)" and "role \<in> {''owner'', ''admin''}"
    and "dget (t_messages db) m = Some msg" and "\<not> ms_deleted msg"
    and "get_channel db (ms_channel msg) = Some chan" and "ch_workspace chan \<noteq> wid"
  shows "can_user_edit_message db u m \<and> can_user_delete_message db u m
    \<and> can_user_admin_channel db u (ms_channel msg) \<and> \<not> can_user_see_message db u m"
  using assms
  by (auto simp: can_user_edit_message_def can_user_delete_message_def can_user_admin_channel_def
      can_user_see_message_def can_user_see_channel_def)

section \<open>Knowledge\<close>

lemma fold_visible:
  "fold (\<lambda>r visible. case kn_source_channel r of None \<Rightarrow> insert (kn_id r) visible
      | Some c \<Rightarrow> if P c then insert (kn_id r) visible else visible) rows acc =
   acc \<union> {kn_id r | r. r \<in> set rows \<and> (\<forall>c. kn_source_channel r = Some c \<longrightarrow> P c)}"
  by (induction rows arbitrary: acc) (auto split: option.splits)

text \<open>
  What knowledge a user sees: exactly the requested entries of the user's projects whose source is not a
  channel, or is a channel that lists the user as a member; a channel whose membership cannot be
  determined (Slack fails and nothing is cached) hides its entries.
\<close>

theorem filter_knowledge_exact:
  "filter_knowledge cache slack db u ids =
     {kn_id r | r. r \<in> set (kb_knowledge db) \<and> kn_id r \<in> set ids
        \<and> (kn_project r, u) \<in> set (kb_project_members db)
        \<and> (\<forall>c. kn_source_channel r = Some c \<longrightarrow> (\<exists>ms. channel_members cache slack c = Some ms \<and> u \<in> ms))}"
proof -
  have proj: "p \<in> set (user_projects db u) \<longleftrightarrow> (p, u) \<in> set (kb_project_members db)" for p
    by (auto simp: user_projects_def image_iff)
  have read: "can_read_channel cache slack u c \<longleftrightarrow> (\<exists>ms. channel_members cache slack c = Some ms \<and> u \<in> ms)" for c
    by (simp add: can_read_channel_def split: option.splits)
  have none: "(p, u) \<notin> set (kb_project_members db)" if "user_projects db u = []" for p
    using proj [of p] that by simp
  show ?thesis
  proof (cases "ids = [] \<or> user_projects db u = []")
    case True
    then show ?thesis using none by (auto simp: filter_knowledge_def)
  next
    case False
    then show ?thesis by (auto simp: filter_knowledge_def fold_visible proj read)
  qed
qed

section \<open>The properties on a small workspace\<close>

definition demo_db :: acl_db where
  "demo_db = \<lparr>t_users = [(''ann'', \<lparr>ur_role = ''admin'', ur_workspace = ''w1'', ur_deactivated = False\<rparr>),
       (''bob'', \<lparr>ur_role = ''member'', ur_workspace = ''w2'', ur_deactivated = False\<rparr>)],
     t_channels = [(''c1'', \<lparr>ch_workspace = ''w2'', ch_kind = ''public'', ch_posting_policy = ''all'', ch_archived = False\<rparr>),
       (''c2'', \<lparr>ch_workspace = ''w2'', ch_kind = ''private'', ch_posting_policy = ''all'', ch_archived = False\<rparr>)],
     t_members = [], t_messages = [(''m1'', \<lparr>ms_author = ''bob'', ms_channel = ''c1'', ms_deleted = False\<rparr>)]\<rparr>"

theorem visible_channels_agree_witness:
  "get_user_role demo_db ''bob'' = Some (''member'', ''w2'')
   \<and> set (list_visible_channels demo_db ''w2'' ''bob'' ''member'') = {c. can_user_see_channel demo_db ''bob'' c}"
proof -
  have "distinct (dkeys (t_channels demo_db))" "get_user_role demo_db ''bob'' = Some (''member'', ''w2'')" by code_simp+
  with visible_channels_agree [of demo_db "''bob''"] show ?thesis by blast
qed

theorem post_implies_see_witness:
  "can_user_post_message demo_db ''bob'' ''c1'' \<and> can_user_see_channel demo_db ''bob'' ''c1''"
proof -
  have "can_user_post_message demo_db ''bob'' ''c1''" by code_simp
  with post_implies_see [OF this] show ?thesis by blast
qed

theorem foreign_admin_edits_witness:
  "can_user_edit_message demo_db ''ann'' ''m1'' \<and> \<not> can_user_see_message demo_db ''ann'' ''m1''"
  using foreign_admin_edits [of demo_db "''ann''" "''admin''" "''w1''" "''m1''"
      "\<lparr>ms_author = ''bob'', ms_channel = ''c1'', ms_deleted = False\<rparr>"
      "\<lparr>ch_workspace = ''w2'', ch_kind = ''public'', ch_posting_policy = ''all'', ch_archived = False\<rparr>"]
  by (simp add: demo_db_def get_user_role_def get_channel_def)

theorem filter_knowledge_exact_witness:
  "filter_knowledge None (\<lambda>_. Inl (OtherError ''SlackApiError'' ''down''))
     \<lparr>kb_project_members = [(''p'', ''bob'')], kb_knowledge =
        [\<lparr>kn_id = 1, kn_project = ''p'', kn_source_channel = None\<rparr>, \<lparr>kn_id = 2, kn_project = ''p'', kn_source_channel = Some ''c1''\<rparr>]\<rparr>
     ''bob'' [1, 2] = {1}"
  by (auto simp: filter_knowledge_exact channel_members_def
      intro!: exI [of _ "\<lparr>kn_id = 1, kn_project = ''p'', kn_source_channel = None\<rparr>"])

end
