(* ===== verification/Dep_Graph.thy ===== *)
theory Dep_Graph
  imports Prelude
begin

text \<open>
  The dependency graph of tools, skills, MCP servers and plugins, \<open>src/src/breadmind/tools/dependency_graph.py\<close>:
  nodes with forward and reverse edges, transitive dependencies by breadth-first search, removal checks,
  install order by Kahn's algorithm and removal plans by depth-first search.

  Names are compared as strings in code point order. The recursion of the removal plan has as much fuel as
  there are nodes, plus one; its visited set makes that enough.
\<close>

section \<open>Nodes\<close>

datatype node_type = TOOL | SKILL | MCP_SERVER | PLUGIN

record dep_node =
  dn_type :: node_type
  dn_depends_on :: "string list"
  dn_depended_by :: "string list"

type_synonym dep_graph = "(string, dep_node) dict"

record dep_check =
  dk_can_remove :: bool
  dk_blocked_by :: "string list"
  dk_message :: string

text \<open>\<open>self._nodes[dep].depended_by.append(name)\<close> unless it is there, for a target that exists.\<close>

definition add_reverse :: "string \<Rightarrow> string \<Rightarrow> dep_graph \<Rightarrow> dep_graph" where
  "add_reverse name dep g =
     (case dget g dep of
        None \<Rightarrow> g
      | Some n \<Rightarrow>
          if name \<in> set (dn_depended_by n) then g
          else dset dep (n\<lparr>dn_depended_by := dn_depended_by n @ [name]\<rparr>) g)"

definition add_node :: "string \<Rightarrow> node_type \<Rightarrow> string list \<Rightarrow> dep_graph \<Rightarrow> exn + dep_graph" where
  "add_node name t deps g =
     (case dget g name of
        Some _ \<Rightarrow> Inl (ValueError (''Node '' @ quoted name @ '' already exists''))
      | None \<Rightarrow>
          Inr (fold (add_reverse name) deps
            (dset name \<lparr>dn_type = t, dn_depends_on = deps, dn_depended_by = []\<rparr> g)))"

definition get_dependencies :: "dep_graph \<Rightarrow> string \<Rightarrow> string list" where
  "get_dependencies g name = (case dget g name of None \<Rightarrow> [] | Some n \<Rightarrow> dn_depends_on n)"

definition get_dependents :: "dep_graph \<Rightarrow> string \<Rightarrow> string list" where
  "get_dependents g name = (case dget g name of None \<Rightarrow> [] | Some n \<Rightarrow> dn_depended_by n)"

definition check_removal :: "dep_graph \<Rightarrow> string \<Rightarrow> dep_check" where
  "check_removal g name =
     (case dget g name of
        None \<Rightarrow> \<lparr>dk_can_remove = False, dk_blocked_by = [], dk_message = ''Node '' @ quoted name @ '' not found''\<rparr>
      | Some n \<Rightarrow>
          if dn_depended_by n \<noteq> [] then
            \<lparr>dk_can_remove = False, dk_blocked_by = dn_depended_by n,
             dk_message = ''Cannot remove '' @ quoted name @ '': depended on by '' @ str_join '', '' (dn_depended_by n)\<rparr>
          else \<lparr>dk_can_remove = True, dk_blocked_by = [], dk_message = quoted name @ '' can be removed''\<rparr>)"

definition drop_reverse :: "string \<Rightarrow> string \<Rightarrow> dep_graph \<Rightarrow> dep_graph" where
  "drop_reverse name dep g =
     (case dget g dep of
        None \<Rightarrow> g
      | Some n \<Rightarrow>
          if name \<in> set (dn_depended_by n) then dset dep (n\<lparr>dn_depended_by := remove1 name (dn_depended_by n)\<rparr>) g
          else g)"

definition remove_node :: "string \<Rightarrow> dep_graph \<Rightarrow> bool \<times> dep_graph" where
  "remove_node name g =
     (if \<not> dk_can_remove (check_removal g name) then (False, g)
      else (True, fold (drop_reverse name) (get_dependencies g name) (dpop name g)))"

section \<open>Transitive dependencies\<close>

definition all_targets :: "dep_graph \<Rightarrow> string set" where
  "all_targets g = (\<Union>n \<in> set (dvalues g). set (dn_depends_on n))"

lemma get_dependencies_targets: "set (get_dependencies g x) \<subseteq> all_targets g"
proof (cases "dget g x")
  case (Some n)
  then have "n \<in> set (dvalues g)" using map_of_SomeD [OF Some] by force
  then show ?thesis using Some by (auto simp: get_dependencies_def all_targets_def)
qed (simp add: get_dependencies_def)

lemma finite_all_targets [simp]: "finite (all_targets g)"
  unfolding all_targets_def by (intro finite_UN_I) auto

function bfs :: "dep_graph \<Rightarrow> string list \<Rightarrow> string set \<Rightarrow> string set" where
  "bfs g [] visited = visited"
| "bfs g (x # queue) visited =
     (if x \<in> visited then bfs g queue visited
      else bfs g (queue @ get_dependencies g x) (insert x visited))"
  by pat_completeness auto

text \<open>Each turn either shortens the queue or visits a name that was still to be visited.\<close>

termination
proof (relation "measures [\<lambda>(g, queue, visited). card ((set queue \<union> all_targets g) - visited), \<lambda>(g, queue, visited). length queue]")
  fix g :: dep_graph and x :: string and queue visited
  assume new: "x \<notin> visited"
  have "((set (queue @ get_dependencies g x) \<union> all_targets g) - insert x visited) \<subset> ((set (x # queue) \<union> all_targets g) - visited)"
    using new get_dependencies_targets [of g x] by auto
  then have "card ((set (queue @ get_dependencies g x) \<union> all_targets g) - insert x visited)
      < card ((set (x # queue) \<union> all_targets g) - visited)"
    by (intro psubset_card_mono) auto
  then show "((g, queue @ get_dependencies g x, insert x visited), (g, x # queue, visited))
    \<in> measures [\<lambda>(g, queue, visited). card ((set queue \<union> all_targets g) - visited), \<lambda>(g, queue, visited). length queue]"
    by simp
next
  fix g :: dep_graph and x :: string and queue visited
  assume old: "x \<in> visited"
  then have "(set (x # queue) \<union> all_targets g) - visited = (set queue \<union> all_targets g) - visited" by auto
  then show "((g, queue, visited), (g, x # queue, visited))
    \<in> measures [\<lambda>(g, queue, visited). card ((set queue \<union> all_targets g) - visited), \<lambda>(g, queue, visited). length queue]"
    by simp
qed simp

definition get_all_dependencies :: "dep_graph \<Rightarrow> string \<Rightarrow> string list" where
  "get_all_dependencies g name = sorted_list_of_set (bfs g (get_dependencies g name) {})"

definition add_dependency :: "string \<Rightarrow> string \<Rightarrow> dep_graph \<Rightarrow> exn + dep_graph" where
  "add_dependency name dep g =
     (case dget g name of
        None \<Rightarrow> Inl (KeyError (''Node '' @ quoted name @ '' not found''))
      | Some node \<Rightarrow>
          (case dget g dep of
             None \<Rightarrow> Inl (KeyError (''Node '' @ quoted dep @ '' not found''))
           | Some _ \<Rightarrow>
               if dep \<in> set (dn_depends_on node) then Inr g
               else if name \<in> set (get_all_dependencies g dep)
               then Inl (CyclicDependencyError (''Adding dependency '' @ name @ '' -> '' @ dep @ '' would create a cycle''))
               else Inr (add_reverse name dep (dset name (node\<lparr>dn_depends_on := dn_depends_on node @ [dep]\<rparr>) g))))"

section \<open>Install order\<close>

definition in_degrees :: "dep_graph \<Rightarrow> string list \<Rightarrow> (string, int) dict" where
  "in_degrees g names =
     fold (\<lambda>n d. dset n (dget_or d n 0 + int (length (filter (\<lambda>dep. dep \<in> set names) (get_dependencies g n)))) d) names
       (fold (\<lambda>n d. dset n 0 d) names [])"

text \<open>The loop over the dependents of a popped node: the degrees, and the names that became free.\<close>

fun release :: "string list \<Rightarrow> (string, int) dict \<Rightarrow> string list \<Rightarrow> (string, int) dict \<times> string list" where
  "release [] deg queue = (deg, queue)"
| "release (d # ds) deg queue =
     (case dget deg d of
        None \<Rightarrow> release ds deg queue
      | Some k \<Rightarrow> release ds (dset d (k - 1) deg) (if k - 1 = 0 then queue @ [d] else queue))"

definition pending :: "(string, int) dict \<Rightarrow> nat" where
  "pending deg = card {n. \<exists>k. dget deg n = Some k \<and> 0 < k}"

lemma finite_pending [simp]: "finite {n. \<exists>k. dget deg n = Some k \<and> P k}"
  by (rule finite_subset [OF _ finite_dom_map_of [of deg]]) auto

lemma release_pending:
  "release ds deg queue = (deg', queue') \<Longrightarrow> pending deg' + length queue' \<le> pending deg + length queue"
proof (induction ds arbitrary: deg queue)
  case (Cons d ds)
  show ?case
  proof (cases "dget deg d")
    case None
    then show ?thesis using Cons by simp
  next
    case (Some k)
    let ?deg = "dset d (k - 1) deg"
    have "pending ?deg + (if k - 1 = 0 then 1 else 0) \<le> pending deg"
    proof (cases "k = 1")
      case True
      have "{n. \<exists>k. dget ?deg n = Some k \<and> 0 < k} = {n. \<exists>k. dget deg n = Some k \<and> 0 < k} - {d}"
        using True by auto
      moreover have "d \<in> {n. \<exists>k. dget deg n = Some k \<and> 0 < k}" using Some True by auto
      ultimately have "pending ?deg < pending deg"
        unfolding pending_def by (simp only: card_Diff1_less finite_pending)
      then show ?thesis using True by simp
    next
      case False
      have "{n. \<exists>k. dget ?deg n = Some k \<and> 0 < k} \<subseteq> {n. \<exists>k. dget deg n = Some k \<and> 0 < k}"
        using Some by (auto split: if_splits)
      then show ?thesis using False unfolding pending_def by (simp add: card_mono)
    qed
    then show ?thesis using Cons.IH [of ?deg "if k - 1 = 0 then queue @ [d] else queue"] Cons.prems Some
      by (auto split: if_splits)
  qed
qed simp

function kahn :: "dep_graph \<Rightarrow> string list \<Rightarrow> (string, int) dict \<Rightarrow> string list \<Rightarrow> string list" where
  "kahn g [] deg result = result"
| "kahn g (x # queue) deg result =
     (case dget g x of
        None \<Rightarrow> kahn g queue deg (result @ [x])
      | Some n \<Rightarrow>
          (case release (dn_depended_by n) deg queue of (deg', queue') \<Rightarrow> kahn g (sort queue') deg' (result @ [x])))"
  by pat_completeness auto

termination
  by (relation "measure (\<lambda>(g, queue, deg, result). pending deg + length queue)")
    (auto dest!: release_pending [OF sym])

definition install_order :: "dep_graph \<Rightarrow> string list \<Rightarrow> string list" where
  "install_order g names =
     (let deg = in_degrees g names in
      kahn g (sort (map fst (filter (\<lambda>(n, k). k = 0) deg))) deg [])"

definition get_install_plan :: "dep_graph \<Rightarrow> string \<Rightarrow> string list" where
  "get_install_plan g name = install_order g (get_all_dependencies g name @ [name])"

section \<open>Removal plan\<close>

fun collect :: "dep_graph \<Rightarrow> nat \<Rightarrow> string \<Rightarrow> string set \<times> string list \<Rightarrow> string set \<times> string list"
  and collect_all :: "dep_graph \<Rightarrow> nat \<Rightarrow> string list \<Rightarrow> string set \<times> string list \<Rightarrow> string set \<times> string list"
where
  "collect g 0 n vr = vr"
| "collect g (Suc fuel) n vr =
     (if n \<in> fst vr then vr
      else case dget g n of
        None \<Rightarrow> (insert n (fst vr), snd vr)
      | Some node \<Rightarrow>
          (case collect_all g fuel (dn_depended_by node) (insert n (fst vr), snd vr) of (v, r) \<Rightarrow> (v, r @ [n])))"
| "collect_all g fuel [] vr = vr"
| "collect_all g fuel (d # ds) vr = collect_all g fuel ds (collect g fuel d vr)"

definition get_removal_plan :: "dep_graph \<Rightarrow> string \<Rightarrow> string list" where
  "get_removal_plan g name = snd (collect g (length g + 2) name ({}, []))"


section \<open>Correctness of the search\<close>

definition dep_rel :: "dep_graph \<Rightarrow> (string \<times> string) set" where
  "dep_rel g = {(x, y). y \<in> set (get_dependencies g x)}"

lemma bfs_reachable:
  assumes "\<forall>x \<in> visited. set (get_dependencies g x) \<subseteq> visited \<union> set queue"
  shows "bfs g queue visited = visited \<union> (dep_rel g)\<^sup>* `` set queue"
  using assms
proof (induction g queue visited rule: bfs.induct)
  case (1 g visited)
  then show ?case by simp
next
  case (2 g x queue visited)
  have closed: "(dep_rel g)\<^sup>* `` set queue \<union> visited = (dep_rel g)\<^sup>* `` set (x # queue) \<union> visited" if "x \<in> visited"
  proof -
    have "z \<in> visited \<union> (dep_rel g)\<^sup>* `` set queue" if "(x, z) \<in> (dep_rel g)\<^sup>*" for z
      using that
    proof (induction rule: rtrancl_induct)
      case base
      show ?case using \<open>x \<in> visited\<close> by simp
    next
      case (step y z)
      then have z: "z \<in> set (get_dependencies g y)" by (simp add: dep_rel_def)
      from step.IH show ?case
      proof
        assume "y \<in> visited"
        then have "z \<in> visited \<union> set (x # queue)" using 2(3) z by blast
        then show ?thesis using \<open>x \<in> visited\<close> by auto
      qed (use step.hyps(2) in \<open>auto intro: rtrancl_into_rtrancl\<close>)
    qed
    then show ?thesis by auto
  qed
  show ?case
  proof (cases "x \<in> visited")
    case True
    then have "bfs g (x # queue) visited = visited \<union> (dep_rel g)\<^sup>* `` set queue"
      using 2(1) [OF True] 2(3) by auto
    then show ?thesis using closed [OF True] by auto
  next
    case False
    have "bfs g (x # queue) visited = insert x visited \<union> (dep_rel g)\<^sup>* `` set (queue @ get_dependencies g x)"
      using 2(2) [OF False] 2(3) False by auto
    moreover have "(dep_rel g)\<^sup>* `` {x} = insert x ((dep_rel g)\<^sup>* `` set (get_dependencies g x))"
      by (auto simp: dep_rel_def elim: converse_rtranclE intro: converse_rtrancl_into_rtrancl)
    ultimately show ?thesis by auto
  qed
qed

text \<open>
  The transitive dependencies are exactly the names reachable by one or more dependency edges, sorted and
  without repetition; the search always ends, on cyclic graphs too.
\<close>

theorem all_dependencies_exact:
  "set (get_all_dependencies g name) = {y. (name, y) \<in> (dep_rel g)\<^sup>+}
   \<and> sorted (get_all_dependencies g name) \<and> distinct (get_all_dependencies g name)"
proof -
  have b: "bfs g (get_dependencies g name) {} = {y. (name, y) \<in> (dep_rel g)\<^sup>+}"
    by (subst bfs_reachable) (auto simp: dep_rel_def dest: tranclD intro: rtrancl_into_trancl2)
  have "finite (bfs g q v)" if "finite v" for q v
    using that by (induction g q v rule: bfs.induct) auto
  then have "finite {y. (name, y) \<in> (dep_rel g)\<^sup>+}" unfolding b [symmetric] by simp
  then show ?thesis by (simp add: get_all_dependencies_def b)
qed


section \<open>Reverse edges\<close>

text \<open>The reverse edges of every node say exactly which nodes depend on it.\<close>

definition reverse_ok :: "dep_graph \<Rightarrow> bool" where
  "reverse_ok g \<longleftrightarrow> (\<forall>m \<in> set (dkeys g). distinct (get_dependents g m)
     \<and> set (get_dependents g m) = {n. m \<in> set (get_dependencies g n)})"

lemma get_dependencies_dset [simp]:
  "get_dependencies (dset k v g) x = (if x = k then dn_depends_on v else get_dependencies g x)"
  by (simp add: get_dependencies_def)

lemma get_dependents_dset [simp]:
  "get_dependents (dset k v g) x = (if x = k then dn_depended_by v else get_dependents g x)"
  by (simp add: get_dependents_def)

lemma get_dpop [simp]:
  "get_dependencies (dpop k g) x = (if x = k then [] else get_dependencies g x)"
  "get_dependents (dpop k g) x = (if x = k then [] else get_dependents g x)"
  by (simp_all add: get_dependencies_def get_dependents_def)

lemma missing_node: "k \<notin> set (dkeys g) \<Longrightarrow> get_dependencies g k = [] \<and> get_dependents g k = []"
  unfolding dget_None_iff [symmetric] by (simp add: get_dependencies_def get_dependents_def)

lemma add_reverse_effect:
  "get_dependencies (add_reverse name dep g) x = get_dependencies g x"
  "set (dkeys (add_reverse name dep g)) = set (dkeys g)"
  "get_dependents (add_reverse name dep g) x =
     (if x = dep \<and> dep \<in> set (dkeys g) \<and> name \<notin> set (get_dependents g dep)
      then get_dependents g dep @ [name] else get_dependents g x)"
proof -
  show "get_dependencies (add_reverse name dep g) x = get_dependencies g x"
    by (simp add: add_reverse_def get_dependencies_def split: option.splits)
  show "set (dkeys (add_reverse name dep g)) = set (dkeys g)"
    using dget_Some_in_keys [of g dep] by (cases "dget g dep") (auto simp: add_reverse_def simp del: set_map)
  show "get_dependents (add_reverse name dep g) x =
     (if x = dep \<and> dep \<in> set (dkeys g) \<and> name \<notin> set (get_dependents g dep)
      then get_dependents g dep @ [name] else get_dependents g x)"
    using dget_Some_in_keys [of g dep] dget_None_iff [of g dep]
    by (cases "dget g dep") (auto simp: add_reverse_def get_dependents_def)
qed

lemma drop_reverse_effect:
  "get_dependencies (drop_reverse name dep g) x = get_dependencies g x"
  "set (dkeys (drop_reverse name dep g)) = set (dkeys g)"
  "get_dependents (drop_reverse name dep g) x =
     (if x = dep then remove1 name (get_dependents g x) else get_dependents g x)"
proof -
  show "get_dependencies (drop_reverse name dep g) x = get_dependencies g x"
    by (simp add: drop_reverse_def get_dependencies_def split: option.splits)
  show "set (dkeys (drop_reverse name dep g)) = set (dkeys g)"
    using dget_Some_in_keys [of g dep] by (cases "dget g dep") (auto simp: drop_reverse_def simp del: set_map)
  show "get_dependents (drop_reverse name dep g) x =
     (if x = dep then remove1 name (get_dependents g x) else get_dependents g x)"
    by (cases "dget g dep") (auto simp: drop_reverse_def get_dependents_def remove1_idem)
qed

lemma fold_add_reverse:
  "get_dependencies (fold (add_reverse name) deps g) x = get_dependencies g x
   \<and> set (dkeys (fold (add_reverse name) deps g)) = set (dkeys g)
   \<and> (distinct (get_dependents g x) \<longrightarrow> distinct (get_dependents (fold (add_reverse name) deps g) x))
   \<and> set (get_dependents (fold (add_reverse name) deps g) x) =
       set (get_dependents g x) \<union> (if x \<in> set deps \<and> x \<in> set (dkeys g) then {name} else {})"
proof (induction deps arbitrary: g)
  case (Cons d ds)
  show ?case using Cons.IH [of "add_reverse name d g"] by (auto simp: add_reverse_effect simp del: set_map)
qed simp

lemma fold_drop_reverse:
  "get_dependencies (fold (drop_reverse name) deps g) x = get_dependencies g x
   \<and> set (dkeys (fold (drop_reverse name) deps g)) = set (dkeys g)
   \<and> (distinct (get_dependents g x) \<longrightarrow> distinct (get_dependents (fold (drop_reverse name) deps g) x)
        \<and> set (get_dependents (fold (drop_reverse name) deps g) x) =
            set (get_dependents g x) - (if x \<in> set deps then {name} else {}))"
proof (induction deps arbitrary: g)
  case (Cons d ds)
  show ?case using Cons.IH [of "drop_reverse name d g"]
    by (cases "x = d") (auto simp: drop_reverse_effect set_remove1_eq simp del: set_map)
qed simp

lemma add_node_reverse_ok:
  assumes ok: "reverse_ok g" and add: "add_node name t deps g = Inr g'"
    and unawaited: "\<forall>n. name \<notin> set (get_dependencies g n)"
  shows "reverse_ok g'"
proof -
  let ?g = "dset name \<lparr>dn_type = t, dn_depends_on = deps, dn_depended_by = []\<rparr> g"
  have g': "g' = fold (add_reverse name) deps ?g" and new: "dget g name = None"
    using add by (auto simp: add_node_def split: option.splits)
  have miss: "get_dependencies g name = []" using new by (simp add: get_dependencies_def)
  note eff = fold_add_reverse [of name deps ?g]
  show ?thesis unfolding reverse_ok_def g'
  proof (intro ballI conjI)
    fix m assume "m \<in> set (dkeys (fold (add_reverse name) deps ?g))"
    then have m: "m = name \<or> m \<in> set (dkeys g)" using eff by (simp del: set_map)
    have dist: "distinct (get_dependents ?g m)" using m ok by (auto simp: reverse_ok_def)
    then show "distinct (get_dependents (fold (add_reverse name) deps ?g) m)" using eff by blast
    have "set (get_dependents ?g m) = {n. n \<noteq> name \<and> m \<in> set (get_dependencies g n)}"
      using m ok unawaited miss by (auto simp: reverse_ok_def)
    then show "set (get_dependents (fold (add_reverse name) deps ?g) m) =
        {n. m \<in> set (get_dependencies (fold (add_reverse name) deps ?g) n)}"
    proof -
      have "set (get_dependents (fold (add_reverse name) deps ?g) m) =
          {n. n \<noteq> name \<and> m \<in> set (get_dependencies g n)} \<union> (if m \<in> set deps then {name} else {})"
        using eff [of m] m \<open>set (get_dependents ?g m) = _\<close> by (simp del: set_map)
      moreover have "get_dependencies (fold (add_reverse name) deps ?g) n = (if n = name then deps else get_dependencies g n)" for n
        using fold_add_reverse [of name deps ?g n] by simp
      ultimately show ?thesis by auto
    qed
  qed
qed

lemma remove_node_effect:
  assumes ok: "reverse_ok g" and rm: "remove_node name g = (True, g')"
  shows "reverse_ok g' \<and> name \<notin> set (dkeys g') \<and> (\<forall>n. name \<notin> set (get_dependencies g' n))
    \<and> (\<forall>n. n \<noteq> name \<longrightarrow> get_dependencies g' n = get_dependencies g n)"
proof -
  let ?g = "dpop name g" and ?ds = "get_dependencies g name"
  have g': "g' = fold (drop_reverse name) ?ds ?g" and can: "dk_can_remove (check_removal g name)"
    using rm by (auto simp: remove_node_def split: if_splits)
  then have mem: "name \<in> set (dkeys g)" and none: "get_dependents g name = []"
    by (auto simp: check_removal_def get_dependents_def split: option.splits if_splits simp del: set_map dest: dget_Some_in_keys)
  have free: "name \<notin> set (get_dependencies g n)" for n
    using ok mem none unfolding reverse_ok_def by (metis empty_iff empty_set mem_Collect_eq)
  have eff: "get_dependencies g' n = get_dependencies ?g n" "set (dkeys g') = set (dkeys g) - {name}"
    "distinct (get_dependents ?g n) \<Longrightarrow> distinct (get_dependents g' n)
      \<and> set (get_dependents g' n) = set (get_dependents ?g n) - (if n \<in> set ?ds then {name} else {})" for n
    using fold_drop_reverse [of name ?ds ?g] unfolding g' by (auto simp del: set_map)
  have "reverse_ok g'" unfolding reverse_ok_def
  proof (intro ballI conjI)
    fix m assume "m \<in> set (dkeys g')"
    then have m: "m \<in> set (dkeys g)" "m \<noteq> name" using eff(2) by (auto simp del: set_map)
    then have d: "distinct (get_dependents ?g m)" and s: "set (get_dependents ?g m) = {n. m \<in> set (get_dependencies g n)}"
      using ok by (auto simp: reverse_ok_def)
    show "distinct (get_dependents g' m)" using eff(3) [OF d] by blast
    show "set (get_dependents g' m) = {n. m \<in> set (get_dependencies g' n)}"
      using eff(3) [OF d] s by (auto simp: eff(1))
  qed
  then show ?thesis using eff free by (auto simp del: set_map)
qed

lemma add_dependency_reverse_ok:
  assumes ok: "reverse_ok g" and add: "add_dependency name dep g = Inr g'"
  shows "reverse_ok g'"
proof -
  obtain node node2 where n: "dget g name = Some node" "dget g dep = Some node2"
    using add by (auto simp: add_dependency_def split: option.splits)
  show ?thesis
  proof (cases "dep \<in> set (dn_depends_on node)")
    case True
    then show ?thesis using add n ok by (simp add: add_dependency_def)
  next
    case False
    let ?g = "dset name (node\<lparr>dn_depends_on := dn_depends_on node @ [dep]\<rparr>) g"
    have g': "g' = add_reverse name dep ?g" using add n False by (auto simp: add_dependency_def split: if_splits)
    have keys: "set (dkeys ?g) = set (dkeys g)" unfolding set_dkeys_dset using dget_Some_in_keys [OF n(1)] by blast
    have revs: "get_dependents ?g m = get_dependents g m" for m using n(1) by (simp add: get_dependents_def)
    have deps: "set (get_dependencies ?g m) = set (get_dependencies g m) \<union> (if m = name then {dep} else {})" for m
      using n(1) by (auto simp: get_dependencies_def)
    show ?thesis unfolding reverse_ok_def g' add_reverse_effect keys revs deps
      using ok dget_Some_in_keys [OF n(2)] by (auto simp: reverse_ok_def simp del: set_map)
  qed
qed

text \<open>
  Operations on a graph; a node is added only when no node that is already there depends on it.
\<close>

datatype graph_op = Add string node_type "string list" | Connect string string | Remove string

fun graph_step :: "graph_op \<Rightarrow> dep_graph \<Rightarrow> dep_graph" where
  "graph_step (Add name t deps) g =
     (if list_ex (\<lambda>n. name \<in> set (get_dependencies g n)) (dkeys g) then g
      else case add_node name t deps g of Inl _ \<Rightarrow> g | Inr g' \<Rightarrow> g')"
| "graph_step (Connect name dep) g = (case add_dependency name dep g of Inl _ \<Rightarrow> g | Inr g' \<Rightarrow> g')"
| "graph_step (Remove name) g = snd (remove_node name g)"

lemma unawaited: "\<not> list_ex (\<lambda>n. name \<in> set (get_dependencies g n)) (dkeys g) \<Longrightarrow> \<forall>n. name \<notin> set (get_dependencies g n)"
  using missing_node [of _ g] by (force simp: list_ex_iff simp del: set_map)

interpretation graph_machine: machine graph_step reverse_ok
proof unfold_locales
  fix g x assume ok: "reverse_ok g"
  show "reverse_ok (graph_step x g)"
  proof (cases x)
    case (Add name t deps)
    then show ?thesis using ok unawaited [of name g]
      by (auto split: sum.splits intro: add_node_reverse_ok)
  next
    case (Connect name dep)
    then show ?thesis using ok by (auto split: sum.splits intro: add_dependency_reverse_ok)
  next
    case (Remove name)
    then show ?thesis using ok remove_node_effect [OF ok, of name]
      by (cases "remove_node name g"; cases "fst (remove_node name g)") (auto simp: remove_node_def split: if_splits)
  qed
qed

text \<open>
  Removal is safe in a graph built in order (no node is added after one that depends on it): after any such
  sequence of additions, new edges and removals, \<open>remove_node\<close> succeeds exactly when the node is there and no
  node depends on it, and after a success no remaining node depends on the removed name.
\<close>

theorem removal_safe:
  assumes "g = fold graph_step ops []"
  shows "(fst (remove_node name g) \<longleftrightarrow> name \<in> set (dkeys g) \<and> (\<forall>n. name \<notin> set (get_dependencies g n)))
    \<and> (\<forall>g'. remove_node name g = (True, g') \<longrightarrow> name \<notin> set (dkeys g') \<and> (\<forall>n. name \<notin> set (get_dependencies g' n)))"
proof -
  have "reverse_ok []" by (simp add: reverse_ok_def)
  then have ok: "reverse_ok g" unfolding assms by (rule graph_machine.run_inv)
  have "dk_can_remove (check_removal g name) \<longleftrightarrow> name \<in> set (dkeys g) \<and> get_dependents g name = []"
    using dget_None_iff [of g name] by (auto simp: check_removal_def get_dependents_def split: option.splits simp del: set_map)
  moreover have "get_dependents g name = [] \<longleftrightarrow> (\<forall>n. name \<notin> set (get_dependencies g n))" if "name \<in> set (dkeys g)"
    using ok that unfolding reverse_ok_def by (metis (mono_tags, lifting) empty_Collect_eq set_empty)
  ultimately have "fst (remove_node name g) \<longleftrightarrow> name \<in> set (dkeys g) \<and> (\<forall>n. name \<notin> set (get_dependencies g n))"
    unfolding remove_node_def by (simp del: set_map)
  then show ?thesis using remove_node_effect [OF ok] by blast
qed

text \<open>
  A node added after one that depends on it loses that dependency's reverse edge: whatever the graph, a new
  node that does not depend on itself can be removed at once, although existing nodes depend on it (and keep
  the dangling edge).
\<close>

theorem late_node_unprotected:
  assumes "add_node name t deps g = Inr g'" and "name \<notin> set deps"
    and "n \<noteq> name" and "name \<in> set (get_dependencies g n)"
  shows "fst (remove_node name g') \<and> name \<in> set (get_dependencies (snd (remove_node name g')) n)"
proof -
  let ?g = "dset name \<lparr>dn_type = t, dn_depends_on = deps, dn_depended_by = []\<rparr> g"
  have g': "g' = fold (add_reverse name) deps ?g" using assms(1) by (auto simp: add_node_def split: option.splits)
  have eff: "set (get_dependents g' name) = {}" "name \<in> set (dkeys g')" "get_dependencies g' n = get_dependencies g n"
    using fold_add_reverse [of name deps ?g] assms(2,3) unfolding g' by (auto simp del: set_map)
  then have can: "dk_can_remove (check_removal g' name)"
    using dget_None_iff [of g' name] by (auto simp: check_removal_def get_dependents_def split: option.splits simp del: set_map)
  then show ?thesis using eff(3) assms(3,4) fold_drop_reverse [of name "get_dependencies g' name" "dpop name g'"]
    by (simp add: remove_node_def)
qed

section \<open>The properties on small graphs\<close>

theorem removal_safe_witness:
  "fst (remove_node ''app'' (fold graph_step [Add ''lib'' TOOL [], Add ''app'' TOOL [''lib'']] []))
   \<and> \<not> fst (remove_node ''lib'' (fold graph_step [Add ''lib'' TOOL [], Add ''app'' TOOL [''lib'']] []))"
proof -
  let ?g = "fold graph_step [Add ''lib'' TOOL [], Add ''app'' TOOL [''lib'']] []"
  have "fst (remove_node ''app'' ?g)" by code_simp
  moreover have "''lib'' \<in> set (get_dependencies ?g ''app'')" by code_simp
  ultimately show ?thesis using removal_safe [OF refl, of "''lib''" "[Add ''lib'' TOOL [], Add ''app'' TOOL [''lib'']]"] by blast
qed

definition late_graph :: dep_graph where
  "late_graph = [(''app'', \<lparr>dn_type = TOOL, dn_depends_on = [''lib''], dn_depended_by = []\<rparr>)]"

theorem late_node_unprotected_witness:
  "\<exists>g'. add_node ''lib'' TOOL [] late_graph = Inr g' \<and> fst (remove_node ''lib'' g')
     \<and> ''lib'' \<in> set (get_dependencies (snd (remove_node ''lib'' g')) ''app'') \<and> get_install_plan g' ''app'' = [''lib'']"
proof -
  let ?g = "late_graph @ [(''lib'', \<lparr>dn_type = TOOL, dn_depends_on = [], dn_depended_by = []\<rparr>)]"
  have a: "add_node ''lib'' TOOL [] late_graph = Inr ?g" by (simp add: add_node_def late_graph_def)
  have d: "''lib'' \<in> set (get_dependencies late_graph ''app'')" by code_simp
  have "get_install_plan ?g ''app'' = [''lib'']" by code_simp
  with a late_node_unprotected [OF a _ _ d] show ?thesis by auto
qed

end
