(* ===== verification/Coding_Jobs.thy ===== *)
theory Coding_Jobs
  imports Prelude "HOL-Library.Multiset" "HOL-Library.Sublist"
begin

text \<open>
  Long-running coding jobs: the data (\<open>src/src/breadmind/coding/job_models.py\<close>), the tracker
  (\<open>coding/job_tracker.py\<close>), its log stream (\<open>coding/job_log_stream.py\<close>) and the batching log buffer
  (\<open>coding/log_buffer.py\<close>).

  The clocks are arguments. A request to the database is a value put on the writer's queue
  (\<open>coding/job_db_writer.py\<close>), which is bounded, and the events are the sequence emitted; metrics and log
  messages are left out. In the buffer, the lines handed to the flush function and the lines lost (dropped by
  the cap, or in a batch whose flush failed) are recorded as ghosts; whether a flush succeeds is a parameter.
\<close>

section \<open>Jobs\<close>

datatype job_status = JPENDING | JDECOMPOSING | JRUNNING | JCOMPLETED | JFAILED | JCANCELLED

fun job_status_value :: "job_status \<Rightarrow> string" where
  "job_status_value JPENDING = ''pending''"
| "job_status_value JDECOMPOSING = ''decomposing''"
| "job_status_value JRUNNING = ''running''"
| "job_status_value JCOMPLETED = ''completed''"
| "job_status_value JFAILED = ''failed''"
| "job_status_value JCANCELLED = ''cancelled''"

datatype phase_status = PPENDING | PRUNNING | PCOMPLETED | PFAILED

record phase_info =
  ph_step :: int
  ph_title :: string
  ph_status :: phase_status
  ph_started_at :: real
  ph_finished_at :: real
  ph_duration :: real
  ph_output :: string
  ph_files_changed :: "string list"

record job_info =
  jb_job_id :: string
  jb_project :: string
  jb_agent :: string
  jb_prompt :: string
  jb_status :: job_status
  jb_phases :: "phase_info list"
  jb_current_phase :: int
  jb_total_phases :: int
  jb_started_at :: real
  jb_finished_at :: real
  jb_duration :: real
  jb_session_id :: string
  jb_error :: string
  jb_user :: string
  jb_channel :: string

definition completed_phases :: "job_info \<Rightarrow> int" where
  "completed_phases j = int (length (filter (\<lambda>p. ph_status p = PCOMPLETED) (jb_phases j)))"

definition progress_pct :: "job_info \<Rightarrow> int" where
  "progress_pct j =
     (if jb_total_phases j = 0 then 0
      else real_trunc ((of_int (completed_phases j) / of_int (jb_total_phases j)) * 100))"

definition is_active :: "job_info \<Rightarrow> bool" where
  "is_active j = (jb_status j \<in> {JPENDING, JDECOMPOSING, JRUNNING})"

definition is_terminal :: "job_info \<Rightarrow> bool" where
  "is_terminal j = (jb_status j \<in> {JCOMPLETED, JFAILED, JCANCELLED})"

section \<open>Write-through queue\<close>

text \<open>
  \<open>JobDbWriter\<close>: one event loop, with its FIFO queue. A request is the call of the store that the queued
  coroutine makes. The requests that have run are a ghost, together with whether they succeeded.
\<close>

datatype db_request =
    InsertJob job_info real
  | UpdateJob string string "int option" "(real option \<times> real \<times> string \<times> string) option"
  | InsertPhases string "(int \<times> string) list"
  | UpdatePhaseStarted string int "real option"
  | UpdatePhaseFinished string int phase_status "real option" real string "string list"

record db_writer =
  dw_max_queue_size :: int
  dw_loop :: bool
  dw_queue :: "db_request list"
  dw_drops :: nat
  dw_written :: "(db_request \<times> bool) list"

definition utc :: "real \<Rightarrow> real option" where
  "utc ts = (if ts = 0 then None else Some ts)"

text \<open>The constructor: an explicit size is taken as it is, the configured one only when it is positive.\<close>

definition new_db_writer :: "bool \<Rightarrow> int option \<Rightarrow> int \<Rightarrow> db_writer" where
  "new_db_writer loop max_queue_size env =
     \<lparr>dw_max_queue_size = (case max_queue_size of Some n \<Rightarrow> n | None \<Rightarrow> if env \<le> 0 then 2000 else env),
      dw_loop = loop, dw_queue = [], dw_drops = 0, dw_written = []\<rparr>"

definition queue_full :: "db_writer \<Rightarrow> bool" where
  "queue_full w \<longleftrightarrow> 0 < dw_max_queue_size w \<and> dw_max_queue_size w \<le> int (length (dw_queue w))"

definition schedule :: "db_request \<Rightarrow> db_writer \<Rightarrow> db_writer" where
  "schedule r w =
     (if \<not> dw_loop w then w\<lparr>dw_drops := dw_drops w + 1\<rparr>
      else if queue_full w then w\<lparr>dw_drops := dw_drops w + 1\<rparr>
      else w\<lparr>dw_queue := dw_queue w @ [r]\<rparr>)"

text \<open>One turn of the queue's worker; a request that fails is counted and the loop goes on.\<close>

definition db_worker_turn :: "(db_request \<Rightarrow> bool) \<Rightarrow> db_writer \<Rightarrow> db_writer" where
  "db_worker_turn ok w =
     (case dw_queue w of
        [] \<Rightarrow> w
      | r # rs \<Rightarrow> w\<lparr>dw_queue := rs, dw_written := dw_written w @ [(r, ok r)],
                    dw_drops := (if ok r then dw_drops w else dw_drops w + 1)\<rparr>)"

definition db_join :: "(db_request \<Rightarrow> bool) \<Rightarrow> db_writer \<Rightarrow> db_writer" where
  "db_join ok w = (db_worker_turn ok ^^ length (dw_queue w)) w"

definition insert_job :: "real \<Rightarrow> job_info \<Rightarrow> db_writer \<Rightarrow> db_writer" where
  "insert_job now j = schedule (InsertJob j (case utc (jb_started_at j) of None \<Rightarrow> now | Some t \<Rightarrow> t))"

definition update_job_status :: "job_info \<Rightarrow> db_writer \<Rightarrow> db_writer" where
  "update_job_status j = schedule (UpdateJob (jb_job_id j) (job_status_value (jb_status j)) None None)"

definition insert_phases :: "string \<Rightarrow> phase_info list \<Rightarrow> db_writer \<Rightarrow> db_writer" where
  "insert_phases job_id ps = schedule (InsertPhases job_id (map (\<lambda>p. (ph_step p, ph_title p)) ps))"

definition update_job_total_phases :: "job_info \<Rightarrow> db_writer \<Rightarrow> db_writer" where
  "update_job_total_phases j =
     schedule (UpdateJob (jb_job_id j) (job_status_value (jb_status j)) (Some (jb_total_phases j)) None)"

definition update_phase_started :: "string \<Rightarrow> phase_info \<Rightarrow> db_writer \<Rightarrow> db_writer" where
  "update_phase_started job_id p = schedule (UpdatePhaseStarted job_id (ph_step p) (utc (ph_started_at p)))"

definition update_phase_finished :: "string \<Rightarrow> phase_info \<Rightarrow> db_writer \<Rightarrow> db_writer" where
  "update_phase_finished job_id p =
     schedule (UpdatePhaseFinished job_id (ph_step p) (ph_status p) (utc (ph_finished_at p)) (ph_duration p)
       (ph_output p) (ph_files_changed p))"

definition update_job_terminal :: "job_info \<Rightarrow> string \<Rightarrow> string \<Rightarrow> db_writer \<Rightarrow> db_writer" where
  "update_job_terminal j session err =
     schedule (UpdateJob (jb_job_id j) (job_status_value (jb_status j)) None
       (Some (utc (jb_finished_at j), jb_duration j, session, err)))"

section \<open>Log buffer\<close>

type_synonym log_key = "string \<times> int"
type_synonym log_line = "int \<times> real \<times> string"

record log_buffer =
  lb_size_threshold :: nat
  lb_time_threshold :: real
  lb_cap :: nat
  lb_buffers :: "(log_key, log_line list) dict"
  lb_last_flush :: "(log_key, real) dict"
  lb_force :: "log_key set"
  lb_wake :: bool
  lb_stop :: bool
  lb_worker :: bool
  lb_flushed :: "(log_key \<times> log_line) list"
  lb_lost :: "(log_key \<times> log_line) list"

definition new_log_buffer :: "nat \<Rightarrow> real \<Rightarrow> nat \<Rightarrow> log_buffer" where
  "new_log_buffer n t cap = \<lparr>lb_size_threshold = n, lb_time_threshold = t, lb_cap = cap, lb_buffers = [],
     lb_last_flush = [], lb_force = {}, lb_wake = False, lb_stop = False, lb_worker = False,
     lb_flushed = [], lb_lost = []\<rparr>"

definition buffer_of :: "log_buffer \<Rightarrow> log_key \<Rightarrow> log_line list" where
  "buffer_of lb k = dget_or (lb_buffers lb) k []"

definition start_buffer :: "log_buffer \<Rightarrow> log_buffer" where
  "start_buffer lb = (if lb_worker lb then lb else lb\<lparr>lb_stop := False, lb_worker := True\<rparr>)"

text \<open>The ring of one phase: append, then \<open>del buf[:dropped]\<close> beyond the cap.\<close>

definition push_line :: "nat \<Rightarrow> 'l \<Rightarrow> 'l list \<Rightarrow> 'l list" where
  "push_line cap x buf =
     (let buf' = buf @ [x] in if cap < length buf' then drop (length buf' - cap) buf' else buf')"

text \<open>The time stamp of the line is the wall clock \<open>now\<close>, the time of the last flush the monotonic clock \<open>clk\<close>.\<close>

definition log_append :: "real \<Rightarrow> real \<Rightarrow> string \<Rightarrow> int \<Rightarrow> int \<Rightarrow> string \<Rightarrow> log_buffer \<Rightarrow> log_buffer" where
  "log_append now clk job_id step line_no text lb =
     (let k = (job_id, step); line = (line_no, now, text); old = buffer_of lb k;
          buf = push_line (lb_cap lb) line old;
          dropped = take (length old + 1 - length buf) (old @ [line]) in
      lb\<lparr>lb_buffers := dset k buf (lb_buffers lb),
         lb_last_flush := dset k (dget_or (lb_last_flush lb) k clk) (lb_last_flush lb),
         lb_lost := lb_lost lb @ map (Pair k) dropped,
         lb_wake := (lb_wake lb \<or> lb_size_threshold lb \<le> length buf)\<rparr>)"

definition force_flush :: "string \<Rightarrow> int \<Rightarrow> log_buffer \<Rightarrow> log_buffer" where
  "force_flush job_id step lb = lb\<lparr>lb_force := insert (job_id, step) (lb_force lb), lb_wake := True\<rparr>"

definition keys_to_flush :: "real \<Rightarrow> log_buffer \<Rightarrow> log_key list" where
  "keys_to_flush clk lb =
     map fst (filter (\<lambda>(k, buf). buf \<noteq> [] \<and>
       (lb_stop lb \<or> lb_time_threshold lb \<le> clk - dget_or (lb_last_flush lb) k 0
        \<or> lb_size_threshold lb \<le> length buf \<or> k \<in> lb_force lb)) (lb_buffers lb))"

definition flush_key :: "real \<Rightarrow> (log_key \<Rightarrow> log_line list \<Rightarrow> bool) \<Rightarrow> log_key \<Rightarrow> log_buffer \<Rightarrow> log_buffer" where
  "flush_key clk ok k lb =
     (let batch = buffer_of lb k;
          lb' = lb\<lparr>lb_buffers := dset k [] (lb_buffers lb), lb_last_flush := dset k clk (lb_last_flush lb)\<rparr> in
      if ok k batch then lb'\<lparr>lb_flushed := lb_flushed lb' @ map (Pair k) batch\<rparr>
      else lb'\<lparr>lb_lost := lb_lost lb' @ map (Pair k) batch\<rparr>)"

definition drain_once :: "real \<Rightarrow> (log_key \<Rightarrow> log_line list \<Rightarrow> bool) \<Rightarrow> log_buffer \<Rightarrow> log_buffer" where
  "drain_once clk ok lb =
     (let ks = keys_to_flush clk lb; lb' = fold (flush_key clk ok) ks lb in
      lb'\<lparr>lb_force := lb_force lb' - set ks\<rparr>)"

text \<open>
  One turn of the worker's loop, and the stop: the worker, if there is one, wakes up, drains, leaves the loop and drains once more.
\<close>

definition worker_turn :: "real \<Rightarrow> (log_key \<Rightarrow> log_line list \<Rightarrow> bool) \<Rightarrow> log_buffer \<Rightarrow> log_buffer" where
  "worker_turn clk ok lb = (if lb_worker lb then drain_once clk ok (lb\<lparr>lb_wake := False\<rparr>) else lb)"

definition stop_buffer :: "real \<Rightarrow> real \<Rightarrow> (log_key \<Rightarrow> log_line list \<Rightarrow> bool) \<Rightarrow> log_buffer \<Rightarrow> log_buffer" where
  "stop_buffer clk clk' ok lb =
     (let lb1 = lb\<lparr>lb_stop := True, lb_wake := True\<rparr> in
      if lb_worker lb1 then (drain_once clk' ok (worker_turn clk ok lb1))\<lparr>lb_worker := False\<rparr> else lb1)"

interpretation log_ring: capped_buffer "push_line cap" "\<lambda>buf. buf" cap for cap
  by unfold_locales (simp add: push_line_def last_n_def Let_def)

section \<open>Tracker\<close>

text \<open>
  The log stream has the line counters, its buffer and the signals to flush that were put on the loop.
  A listener is named; an event is recorded for each listener it is sent to.
\<close>

record log_stream =
  ls_buffer :: "log_buffer option"
  ls_listeners :: "string list"
  ls_counters :: "(string \<times> int, int) dict"
  ls_events :: "(string \<times> log_key \<times> log_line) list"
  ls_signals :: "log_key list"

record job_tracker =
  jt_jobs :: "(string, job_info) dict"
  jt_listeners :: "string list"
  jt_max_history :: nat
  jt_db :: "db_writer option"
  jt_stream :: "log_stream option"
  jt_events :: "(string \<times> string \<times> string) list"

definition new_stream :: log_stream where
  "new_stream = \<lparr>ls_buffer = None, ls_listeners = [], ls_counters = [], ls_events = [], ls_signals = []\<rparr>"

definition new_tracker :: job_tracker where
  "new_tracker = \<lparr>jt_jobs = [], jt_listeners = [], jt_max_history = 50, jt_db = None, jt_stream = None, jt_events = []\<rparr>"

definition ensure_stream :: "job_tracker \<Rightarrow> job_tracker" where
  "ensure_stream jt = (case jt_stream jt of None \<Rightarrow> jt\<lparr>jt_stream := Some new_stream\<rparr> | Some _ \<Rightarrow> jt)"

definition with_stream :: "(log_stream \<Rightarrow> log_stream) \<Rightarrow> job_tracker \<Rightarrow> job_tracker" where
  "with_stream f jt = jt\<lparr>jt_stream := map_option f (jt_stream jt)\<rparr>"

definition with_db :: "(db_writer \<Rightarrow> db_writer) \<Rightarrow> job_tracker \<Rightarrow> job_tracker" where
  "with_db f jt = jt\<lparr>jt_db := map_option f (jt_db jt)\<rparr>"

definition bind_store :: "db_writer \<Rightarrow> job_tracker \<Rightarrow> job_tracker" where
  "bind_store w jt = ensure_stream (jt\<lparr>jt_db := Some w\<rparr>)"

definition bind_buffer :: "log_buffer \<Rightarrow> log_stream \<Rightarrow> log_stream" where
  "bind_buffer lb ls = ls\<lparr>ls_buffer := Some lb\<rparr>"

definition bind_log_buffer :: "bool \<Rightarrow> log_buffer \<Rightarrow> job_tracker \<Rightarrow> job_tracker" where
  "bind_log_buffer loop lb jt = with_stream (bind_buffer (if loop then start_buffer lb else lb)) (ensure_stream jt)"

definition add_listener :: "string \<Rightarrow> job_tracker \<Rightarrow> job_tracker" where
  "add_listener cb jt = jt\<lparr>jt_listeners := jt_listeners jt @ [cb]\<rparr>"

definition remove_listener :: "string \<Rightarrow> job_tracker \<Rightarrow> job_tracker" where
  "remove_listener cb jt = jt\<lparr>jt_listeners := filter (\<lambda>c. c \<noteq> cb) (jt_listeners jt)\<rparr>"

definition add_log_listener :: "string \<Rightarrow> job_tracker \<Rightarrow> job_tracker" where
  "add_log_listener cb jt = with_stream (\<lambda>ls. ls\<lparr>ls_listeners := ls_listeners ls @ [cb]\<rparr>) (ensure_stream jt)"

definition remove_log_listener :: "string \<Rightarrow> job_tracker \<Rightarrow> job_tracker" where
  "remove_log_listener cb jt = with_stream (\<lambda>ls. ls\<lparr>ls_listeners := filter (\<lambda>c. c \<noteq> cb) (ls_listeners ls)\<rparr>) jt"

definition emit :: "string \<Rightarrow> job_info \<Rightarrow> job_tracker \<Rightarrow> job_tracker" where
  "emit ev j jt = jt\<lparr>jt_events := jt_events jt @ map (\<lambda>cb. (cb, ev, jb_job_id j)) (jt_listeners jt)\<rparr>"

definition put_job :: "job_info \<Rightarrow> string \<Rightarrow> job_tracker \<Rightarrow> job_tracker" where
  "put_job j job_id jt = jt\<lparr>jt_jobs := dset job_id j (jt_jobs jt)\<rparr>"

definition create_job ::
  "real \<Rightarrow> string \<Rightarrow> string \<Rightarrow> string \<Rightarrow> string \<Rightarrow> string \<Rightarrow> string \<Rightarrow> job_tracker \<Rightarrow> job_info \<times> job_tracker"
where
  "create_job now job_id project agent prompt user channel jt =
     (let j = \<lparr>jb_job_id = job_id, jb_project = project, jb_agent = agent, jb_prompt = prompt, jb_status = JPENDING,
          jb_phases = [], jb_current_phase = 0, jb_total_phases = 0, jb_started_at = now, jb_finished_at = 0,
          jb_duration = 0, jb_session_id = [], jb_error = [], jb_user = user, jb_channel = channel\<rparr> in
      (j, with_db (insert_job now j) (emit ''job_created'' j (put_job j job_id jt))))"

definition set_decomposing :: "string \<Rightarrow> job_tracker \<Rightarrow> job_tracker" where
  "set_decomposing job_id jt =
     (case dget (jt_jobs jt) job_id of
        None \<Rightarrow> jt
      | Some j \<Rightarrow>
          let j' = j\<lparr>jb_status := JDECOMPOSING\<rparr> in
          with_db (update_job_status j') (emit ''job_decomposing'' j' (put_job j' job_id jt)))"

text \<open>A phase is given by its optional step number and title.\<close>

definition make_phase :: "nat \<Rightarrow> int option \<times> string option \<Rightarrow> phase_info" where
  "make_phase i p =
     \<lparr>ph_step = (case fst p of None \<Rightarrow> int i + 1 | Some s \<Rightarrow> s),
      ph_title = (case snd p of None \<Rightarrow> ''Phase '' @ nat_str (i + 1) | Some t \<Rightarrow> t),
      ph_status = PPENDING, ph_started_at = 0, ph_finished_at = 0, ph_duration = 0, ph_output = [], ph_files_changed = []\<rparr>"

definition set_phases :: "string \<Rightarrow> (int option \<times> string option) list \<Rightarrow> job_tracker \<Rightarrow> job_tracker" where
  "set_phases job_id phases jt =
     (case dget (jt_jobs jt) job_id of
        None \<Rightarrow> jt
      | Some j \<Rightarrow>
          let ps = map (\<lambda>(i, p). make_phase i p) (enumerate 0 phases);
              j' = j\<lparr>jb_total_phases := int (length phases), jb_phases := ps, jb_status := JRUNNING\<rparr> in
          with_db (\<lambda>w. update_job_total_phases j' (insert_phases job_id ps w))
            (emit ''job_running'' j' (put_job j' job_id jt)))"

text \<open>\<open>for p in job.phases: if p.step == step: ...; break\<close>.\<close>

fun update_phase :: "int \<Rightarrow> (phase_info \<Rightarrow> phase_info) \<Rightarrow> phase_info list \<Rightarrow> phase_info list \<times> phase_info option" where
  "update_phase step f [] = ([], None)"
| "update_phase step f (p # ps) =
     (if ph_step p = step then (f p # ps, Some (f p))
      else let (ps', r) = update_phase step f ps in (p # ps', r))"

definition reset_phase_counter :: "string \<Rightarrow> int \<Rightarrow> log_stream \<Rightarrow> log_stream" where
  "reset_phase_counter job_id step ls = ls\<lparr>ls_counters := dset (job_id, step) 0 (ls_counters ls)\<rparr>"

definition evict_job_counters :: "string \<Rightarrow> log_stream \<Rightarrow> log_stream" where
  "evict_job_counters job_id ls = ls\<lparr>ls_counters := filter (\<lambda>(k, _). fst k \<noteq> job_id) (ls_counters ls)\<rparr>"

definition force_flush_phase :: "string \<Rightarrow> int \<Rightarrow> log_stream \<Rightarrow> log_stream" where
  "force_flush_phase job_id step ls =
     (case ls_buffer ls of None \<Rightarrow> ls | Some _ \<Rightarrow> ls\<lparr>ls_signals := ls_signals ls @ [(job_id, step)]\<rparr>)"

text \<open>The event loop runs a scheduled \<open>force_flush\<close>.\<close>

definition run_signal :: "log_stream \<Rightarrow> log_stream" where
  "run_signal ls =
     (case ls_signals ls of
        [] \<Rightarrow> ls
      | (job_id, step) # rest \<Rightarrow> ls\<lparr>ls_buffer := map_option (force_flush job_id step) (ls_buffer ls), ls_signals := rest\<rparr>)"

definition start_phase :: "real \<Rightarrow> string \<Rightarrow> int \<Rightarrow> job_tracker \<Rightarrow> job_tracker" where
  "start_phase now job_id step jt =
     (case dget (jt_jobs jt) job_id of
        None \<Rightarrow> jt
      | Some j \<Rightarrow>
          let (ps, target) = update_phase step (\<lambda>p. p\<lparr>ph_status := PRUNNING, ph_started_at := now\<rparr>) (jb_phases j);
              j' = j\<lparr>jb_current_phase := step, jb_phases := ps\<rparr>;
              jt1 = emit ''phase_started'' j' (with_stream (reset_phase_counter job_id step) (put_job j' job_id jt)) in
          (case target of None \<Rightarrow> jt1 | Some p \<Rightarrow> with_db (update_phase_started job_id p) jt1))"

definition complete_phase ::
  "real \<Rightarrow> string \<Rightarrow> int \<Rightarrow> bool \<Rightarrow> string \<Rightarrow> string list option \<Rightarrow> job_tracker \<Rightarrow> job_tracker"
where
  "complete_phase now job_id step success out files jt =
     (case dget (jt_jobs jt) job_id of
        None \<Rightarrow> jt
      | Some j \<Rightarrow>
          let (ps, updated) = update_phase step (\<lambda>p. p\<lparr>ph_status := (if success then PCOMPLETED else PFAILED),
                ph_finished_at := now, ph_duration := (if ph_started_at p \<noteq> 0 then now - ph_started_at p else 0),
                ph_output := take 500 out,
                ph_files_changed := (case files of None \<Rightarrow> [] | Some fs \<Rightarrow> fs)\<rparr>) (jb_phases j);
              j' = j\<lparr>jb_phases := ps\<rparr>;
              jt1 = emit ''phase_completed'' j' (put_job j' job_id jt);
              jt2 = (case updated of None \<Rightarrow> jt1 | Some p \<Rightarrow> with_db (update_phase_finished job_id p) jt1) in
          with_stream (force_flush_phase job_id step) jt2)"

text \<open>
  \<open>append_log\<close>: without a stream nothing happens; the line gets the next number of its phase and goes to every
  listener; when there is a buffer, the queue of the writer is drained first. \<open>ok\<close> says which writes succeed.
\<close>

definition stream_append ::
  "real \<Rightarrow> real \<Rightarrow> string \<Rightarrow> int \<Rightarrow> string \<Rightarrow> log_stream \<Rightarrow> log_stream"
where
  "stream_append now clk job_id step text ls =
     (let k = (job_id, step); n = dget_or (ls_counters ls) k 0 + 1 in
      ls\<lparr>ls_counters := dset k n (ls_counters ls),
         ls_events := ls_events ls @ map (\<lambda>cb. (cb, k, (n, now, text))) (ls_listeners ls),
         ls_buffer := map_option (log_append now clk job_id step n text) (ls_buffer ls)\<rparr>)"

definition append_log ::
  "(db_request \<Rightarrow> bool) \<Rightarrow> real \<Rightarrow> real \<Rightarrow> string \<Rightarrow> int \<Rightarrow> string \<Rightarrow> job_tracker \<Rightarrow> job_tracker"
where
  "append_log ok now clk job_id step text jt =
     (case jt_stream jt of
        None \<Rightarrow> jt
      | Some ls \<Rightarrow>
          with_stream (stream_append now clk job_id step text)
            (if ls_buffer ls = None then jt else with_db (db_join ok) jt))"

definition evict_job :: "job_info \<Rightarrow> job_tracker \<Rightarrow> job_tracker" where
  "evict_job j jt =
     with_stream (evict_job_counters (jb_job_id j)) (jt\<lparr>jt_jobs := dpop (jb_job_id j) (jt_jobs jt)\<rparr>)"

definition terminal_jobs :: "job_tracker \<Rightarrow> job_info list" where
  "terminal_jobs jt = filter is_terminal (dvalues (jt_jobs jt))"

definition cleanup_history :: "job_tracker \<Rightarrow> job_tracker" where
  "cleanup_history jt =
     (let ended = terminal_jobs jt in
      if jt_max_history jt < length ended
      then fold evict_job (take (length ended - jt_max_history jt) (sort_key jb_finished_at ended)) jt
      else jt)"

definition complete_job :: "real \<Rightarrow> string \<Rightarrow> bool \<Rightarrow> string \<Rightarrow> string \<Rightarrow> job_tracker \<Rightarrow> job_tracker" where
  "complete_job now job_id success session err jt =
     (case dget (jt_jobs jt) job_id of
        None \<Rightarrow> jt
      | Some j \<Rightarrow>
          let st = (if success then JCOMPLETED else JFAILED);
              j' = j\<lparr>jb_status := st, jb_finished_at := now, jb_duration := now - jb_started_at j,
                jb_session_id := session, jb_error := err\<rparr> in
          cleanup_history (with_db (update_job_terminal j' session err)
            (emit ''job_completed'' j' (put_job j' job_id jt))))"

definition cancel_job :: "real \<Rightarrow> string \<Rightarrow> job_tracker \<Rightarrow> bool \<times> job_tracker" where
  "cancel_job now job_id jt =
     (case dget (jt_jobs jt) job_id of
        None \<Rightarrow> (False, jt)
      | Some j \<Rightarrow>
          if jb_status j \<in> {JCOMPLETED, JFAILED} then (False, jt)
          else
            let j' = j\<lparr>jb_status := JCANCELLED, jb_finished_at := now, jb_duration := now - jb_started_at j\<rparr> in
            (True, with_db (update_job_terminal j' [] []) (emit ''job_cancelled'' j' (put_job j' job_id jt))))"

definition list_jobs :: "string \<Rightarrow> job_tracker \<Rightarrow> job_info list" where
  "list_jobs status jt =
     rev (sort_key jb_started_at (rev (if status = [] then dvalues (jt_jobs jt)
       else filter (\<lambda>j. job_status_value (jb_status j) = status) (dvalues (jt_jobs jt)))))"

definition get_active_jobs :: "job_tracker \<Rightarrow> job_info list" where
  "get_active_jobs jt = filter is_active (dvalues (jt_jobs jt))"

section \<open>History\<close>

text \<open>The key of a job is its id.\<close>

definition tracker_keys_ok :: "job_tracker \<Rightarrow> bool" where
  "tracker_keys_ok jt \<longleftrightarrow> distinct (dkeys (jt_jobs jt)) \<and> (\<forall>(k, j) \<in> set (jt_jobs jt). jb_job_id j = k)"

lemma evict_job_jobs:
  "jt_jobs (evict_job j jt) = filter (\<lambda>(k, _). k \<noteq> jb_job_id j) (jt_jobs jt)"
  by (simp add: evict_job_def with_stream_def AList.delete_eq case_prod_beta' eq_commute)

lemma fold_evict_jobs:
  "jt_jobs (fold evict_job js jt) = filter (\<lambda>(k, _). k \<notin> jb_job_id ` set js) (jt_jobs jt)"
proof (induction js arbitrary: jt)
  case (Cons j js)
  have "jt_jobs (fold evict_job (j # js) jt) = filter (\<lambda>(k, _). k \<notin> jb_job_id ` set js) (jt_jobs (evict_job j jt))"
    using Cons.IH [of "evict_job j jt"] by simp
  also have "\<dots> = filter (\<lambda>(k, _). k \<notin> jb_job_id ` set (j # js)) (jt_jobs jt)"
    unfolding evict_job_jobs filter_filter by (rule filter_cong) auto
  finally show ?case .
qed simp

lemma jobs_distinct_ids: "tracker_keys_ok jt \<Longrightarrow> distinct (map jb_job_id (dvalues (jt_jobs jt)))"
proof -
  assume ok: "tracker_keys_ok jt"
  then have "map jb_job_id (dvalues (jt_jobs jt)) = dkeys (jt_jobs jt)"
    by (auto simp: tracker_keys_ok_def intro!: map_cong)
  moreover have "distinct (dkeys (jt_jobs jt))" using ok by (simp add: tracker_keys_ok_def)
  ultimately show ?thesis by (simp only:)
qed

lemma filter_drop_distinct:
  assumes "distinct (map f xs)"
  shows "filter (\<lambda>x. f x \<notin> f ` set (take n xs)) xs = drop n xs"
proof -
  have xs: "xs = take n xs @ drop n xs" by simp
  have "set (take n (map f xs)) \<inter> set (drop n (map f xs)) = {}"
    using assms by (rule set_take_disj_set_drop_if_distinct) simp
  then have "filter (\<lambda>x. f x \<notin> f ` set (take n xs)) (drop n xs) = drop n xs"
    by (intro filter_True) (auto simp: take_map drop_map)
  moreover have "filter (\<lambda>x. f x \<notin> f ` set (take n xs)) (take n xs) = []" by (simp add: filter_empty_conv)
  ultimately show ?thesis by (subst xs) (simp only: filter_append append_Nil)
qed

text \<open>What the clean-up keeps and what it evicts.\<close>

lemma cleanup_history_spec:
  assumes ok: "tracker_keys_ok jt"
  shows "length (terminal_jobs (cleanup_history jt)) \<le> jt_max_history jt
    \<and> (\<forall>k j. dget (jt_jobs jt) k = Some j \<and> \<not> is_terminal j \<longrightarrow> dget (jt_jobs (cleanup_history jt)) k = Some j)
    \<and> (\<forall>e \<in> set (dvalues (jt_jobs jt)). \<forall>r \<in> set (terminal_jobs (cleanup_history jt)).
         e \<notin> set (dvalues (jt_jobs (cleanup_history jt))) \<longrightarrow> jb_finished_at e \<le> jb_finished_at r)"
proof (cases "jt_max_history jt < length (terminal_jobs jt)")
  case True
  let ?ended = "terminal_jobs jt" and ?n = "length (terminal_jobs jt) - jt_max_history jt"
  let ?sorted = "sort_key jb_finished_at ?ended"
  let ?gone = "jb_job_id ` set (take ?n ?sorted)"
  have c: "cleanup_history jt = fold evict_job (take ?n ?sorted) jt"
    using True by (simp add: cleanup_history_def Let_def)
  have jobs: "jt_jobs (cleanup_history jt) = filter (\<lambda>(k, _). k \<notin> ?gone) (jt_jobs jt)"
    unfolding c by (rule fold_evict_jobs)
  have ids: "jb_job_id j = k" if "(k, j) \<in> set (jt_jobs jt)" for k j using ok that by (auto simp: tracker_keys_ok_def)
  have vals: "dvalues (jt_jobs (cleanup_history jt)) = filter (\<lambda>j. jb_job_id j \<notin> ?gone) (dvalues (jt_jobs jt))"
    unfolding jobs filter_map o_def by (rule arg_cong [of _ _ "map snd"], rule filter_cong) (auto simp: ids)
  have tj: "terminal_jobs (cleanup_history jt) = filter (\<lambda>j. jb_job_id j \<notin> ?gone) ?ended"
    unfolding terminal_jobs_def vals filter_filter by (rule filter_cong) auto
  have dist: "distinct (map jb_job_id ?ended)"
    using jobs_distinct_ids [OF ok] by (simp add: terminal_jobs_def distinct_map_filter)
  then have dist': "distinct (map jb_job_id ?sorted)" by (auto simp: distinct_map)
  have kept: "sort_key jb_finished_at (terminal_jobs (cleanup_history jt)) = drop ?n ?sorted"
    unfolding tj filter_sort [symmetric] using filter_drop_distinct [OF dist'] .
  have "length (terminal_jobs (cleanup_history jt)) = length (drop ?n ?sorted)" unfolding kept [symmetric] by simp
  then have len: "length (terminal_jobs (cleanup_history jt)) \<le> jt_max_history jt" using True by simp
  have "dget (jt_jobs (cleanup_history jt)) k = Some j" if a: "dget (jt_jobs jt) k = Some j" "\<not> is_terminal j" for k j
  proof -
    have "k \<notin> ?gone"
    proof
      assume "k \<in> ?gone"
      then obtain e where e: "e \<in> set ?ended" "jb_job_id e = k" by (auto dest: in_set_takeD)
      then have "(k, e) \<in> set (jt_jobs jt)" using ids by (auto simp: terminal_jobs_def)
      then have "e = j" using a(1) ok by (auto simp: tracker_keys_ok_def)
      then show False using e(1) a(2) by (simp add: terminal_jobs_def)
    qed
    then show ?thesis unfolding jobs dget_filter_keys using a(1) by simp
  qed
  moreover have "jb_finished_at e \<le> jb_finished_at r"
    if e: "e \<in> set (dvalues (jt_jobs jt))" "e \<notin> set (dvalues (jt_jobs (cleanup_history jt)))"
      and r: "r \<in> set (terminal_jobs (cleanup_history jt))" for e r
  proof -
    from e have "jb_job_id e \<in> ?gone" unfolding vals by auto
    then obtain x where x: "x \<in> set (take ?n ?sorted)" "jb_job_id x = jb_job_id e" by auto
    then have "x \<in> set (dvalues (jt_jobs jt))" by (auto simp: terminal_jobs_def dest!: in_set_takeD)
    moreover have "inj_on jb_job_id (set (dvalues (jt_jobs jt)))"
      using jobs_distinct_ids [OF ok] unfolding distinct_map [of jb_job_id] by (rule conjunct2)
    ultimately have "x = e" using inj_onD x(2) e(1) by metis
    have "r \<in> set (drop ?n ?sorted)" using r unfolding kept [symmetric] by simp
    moreover have "sorted (map jb_finished_at (take ?n ?sorted) @ map jb_finished_at (drop ?n ?sorted))"
      unfolding map_append [symmetric] append_take_drop_id by simp
    ultimately show ?thesis using x(1) \<open>x = e\<close> unfolding sorted_append by auto
  qed
  ultimately show ?thesis using len by blast
next
  case False
  then show ?thesis by (auto simp: cleanup_history_def Let_def)
qed


lemma jobs_frame [simp]:
  "jt_jobs (emit ev j jt) = jt_jobs jt" "jt_max_history (emit ev j jt) = jt_max_history jt"
  "jt_jobs (with_db f jt) = jt_jobs jt" "jt_max_history (with_db f jt) = jt_max_history jt"
  "jt_jobs (with_stream g jt) = jt_jobs jt" "jt_max_history (with_stream g jt) = jt_max_history jt"
  "jt_jobs (put_job i k jt) = dset k i (jt_jobs jt)" "jt_max_history (put_job i k jt) = jt_max_history jt"
  by (simp_all add: emit_def with_db_def with_stream_def put_job_def)

lemma tracker_keys_ok_jobs:
  "tracker_keys_ok jt \<Longrightarrow> jt_jobs jt' = jt_jobs jt \<Longrightarrow> tracker_keys_ok jt'"
  by (simp add: tracker_keys_ok_def)

lemma tracker_keys_ok_iff:
  "tracker_keys_ok jt \<longleftrightarrow> distinct (dkeys (jt_jobs jt)) \<and> (\<forall>k j. dget (jt_jobs jt) k = Some j \<longrightarrow> jb_job_id j = k)"
proof (cases "distinct (dkeys (jt_jobs jt))")
  case True
  then have "(k, j) \<in> set (jt_jobs jt) \<longleftrightarrow> dget (jt_jobs jt) k = Some j" for k j by simp
  then show ?thesis using True by (auto simp: tracker_keys_ok_def)
qed (simp add: tracker_keys_ok_def)

lemma tracker_keys_ok_put: "tracker_keys_ok jt \<Longrightarrow> jb_job_id j = k \<Longrightarrow> tracker_keys_ok (put_job j k jt)"
  by (auto simp: tracker_keys_ok_iff)

lemma tracker_keys_ok_cleanup: "tracker_keys_ok jt \<Longrightarrow> tracker_keys_ok (cleanup_history jt)"
proof -
  assume ok: "tracker_keys_ok jt"
  obtain js where "cleanup_history jt = fold evict_job js jt"
    using that [of "[]"] by (cases "jt_max_history jt < length (terminal_jobs jt)") (auto simp: cleanup_history_def Let_def)
  then have "jt_jobs (cleanup_history jt) = filter (\<lambda>(k, _). k \<notin> jb_job_id ` set js) (jt_jobs jt)"
    by (simp add: fold_evict_jobs)
  then show ?thesis using ok by (auto simp: tracker_keys_ok_def distinct_map_filter)
qed

lemma job_id_of: "tracker_keys_ok jt \<Longrightarrow> dget (jt_jobs jt) k = Some j \<Longrightarrow> jb_job_id j = k"
  by (simp add: tracker_keys_ok_iff)

text \<open>Every operation of the tracker keeps the jobs filed under their own id.\<close>

lemma tracker_ops_keep_keys:
  assumes ok: "tracker_keys_ok jt"
  shows "tracker_keys_ok (snd (create_job now k project agent prompt user channel jt))"
    and "tracker_keys_ok (set_decomposing k jt)" and "tracker_keys_ok (set_phases k phases jt)"
    and "tracker_keys_ok (start_phase now k step jt)" and "tracker_keys_ok (complete_phase now k step success out files jt)"
    and "tracker_keys_ok (complete_job now k success session err jt)" and "tracker_keys_ok (snd (cancel_job now k jt))"
proof -
  have put: "tracker_keys_ok (f (put_job j k jt))" if "jb_job_id j = k" "\<And>t. jt_jobs (f t) = jt_jobs t" for j f
    using tracker_keys_ok_jobs [OF tracker_keys_ok_put [OF ok that(1)]] that(2) by simp
  note kid = job_id_of [OF ok]
  show "tracker_keys_ok (snd (create_job now k project agent prompt user channel jt))"
    unfolding create_job_def Let_def snd_conv by (rule put [where f = "\<lambda>t. with_db _ (emit _ _ t)"]) simp_all
  show "tracker_keys_ok (set_decomposing k jt)"
    unfolding set_decomposing_def Let_def
    by (cases "dget (jt_jobs jt) k") (simp_all add: ok kid put [where f = "\<lambda>t. with_db _ (emit _ _ t)"])
  show "tracker_keys_ok (set_phases k phases jt)"
    unfolding set_phases_def Let_def
    by (cases "dget (jt_jobs jt) k") (simp_all add: ok kid put [where f = "\<lambda>t. with_db _ (emit _ _ t)"])
  show "tracker_keys_ok (start_phase now k step jt)"
    unfolding start_phase_def Let_def
    by (auto simp: ok kid split: option.split prod.split
          intro: put [where f = "\<lambda>t. with_db _ (emit _ _ (with_stream _ t))"] put [where f = "\<lambda>t. emit _ _ (with_stream _ t)"])
  show "tracker_keys_ok (complete_phase now k step success out files jt)"
    unfolding complete_phase_def Let_def
    by (auto simp: ok kid split: option.split prod.split
          intro: put [where f = "\<lambda>t. with_stream _ (with_db _ (emit _ _ t))"] put [where f = "\<lambda>t. with_stream _ (emit _ _ t)"])
  show "tracker_keys_ok (complete_job now k success session err jt)"
    unfolding complete_job_def Let_def
    by (cases "dget (jt_jobs jt) k")
      (simp_all add: ok kid tracker_keys_ok_cleanup put [where f = "\<lambda>t. with_db _ (emit _ _ t)"])
  show "tracker_keys_ok (snd (cancel_job now k jt))"
    unfolding cancel_job_def Let_def
    by (cases "dget (jt_jobs jt) k") (simp_all add: ok kid put [where f = "\<lambda>t. with_db _ (emit _ _ t)"])
qed

text \<open>
  The registry of finished jobs is bounded. After a job has completed or failed, at most \<open>max_history\<close> jobs
  that are completed, failed or cancelled remain; every other job that is still active is there and unchanged; a job
  that was evicted finished no later than every finished job that remains; and each job is still filed under
  its own id.
\<close>

theorem job_history_bounded:
  assumes "tracker_keys_ok jt" and "dget (jt_jobs jt) job_id = Some j"
    and "jt' = complete_job now job_id success session err jt"
  shows "length (terminal_jobs jt') \<le> jt_max_history jt
    \<and> (\<forall>k i. k \<noteq> job_id \<and> dget (jt_jobs jt) k = Some i \<and> \<not> is_terminal i \<longrightarrow> dget (jt_jobs jt') k = Some i)
    \<and> (\<forall>k i. k \<noteq> job_id \<and> dget (jt_jobs jt) k = Some i \<and> dget (jt_jobs jt') k = None
         \<longrightarrow> (\<forall>r \<in> set (terminal_jobs jt'). jb_finished_at i \<le> jb_finished_at r))
    \<and> tracker_keys_ok jt'"
proof -
  obtain i0 jt1 where jt': "jt' = cleanup_history jt1" and jobs1: "jt_jobs jt1 = dset job_id i0 (jt_jobs jt)"
    and mh: "jt_max_history jt1 = jt_max_history jt" and id0: "jb_job_id i0 = job_id"
    using assms(2, 3) job_id_of [OF assms(1, 2)] by (auto simp: complete_job_def Let_def)
  have ok1: "tracker_keys_ok jt1"
    by (rule tracker_keys_ok_jobs [OF tracker_keys_ok_put [OF assms(1) id0]]) (simp add: jobs1)
  note spec = cleanup_history_spec [OF ok1, folded jt', unfolded mh]
  have ok': "tracker_keys_ok jt'" unfolding jt' by (rule tracker_keys_ok_cleanup [OF ok1])
  have active: "dget (jt_jobs jt') k = Some i" if "k \<noteq> job_id" "dget (jt_jobs jt) k = Some i" "\<not> is_terminal i" for k i
  proof -
    have "dget (jt_jobs jt1) k = Some i" using that by (simp add: jobs1)
    then show ?thesis using spec that(3) by blast
  qed
  have old: "jb_finished_at i \<le> jb_finished_at r"
    if a: "k \<noteq> job_id" "dget (jt_jobs jt) k = Some i" "dget (jt_jobs jt') k = None" "r \<in> set (terminal_jobs jt')" for k i r
  proof -
    have "dget (jt_jobs jt1) k = Some i" using a by (simp add: jobs1)
    then have mem: "i \<in> set (dvalues (jt_jobs jt1))" and "jb_job_id i = k" using job_id_of [OF ok1]
      by (auto dest: map_of_SomeD intro: image_eqI [where x = "(k, i)"])
    moreover have "i \<notin> set (dvalues (jt_jobs jt'))"
    proof
      assume "i \<in> set (dvalues (jt_jobs jt'))"
      then obtain k' where "(k', i) \<in> set (jt_jobs jt')" by auto
      then have "(k, i) \<in> set (jt_jobs jt')" using ok' \<open>jb_job_id i = k\<close> by (auto simp: tracker_keys_ok_def)
      then show False using a(3) by (auto simp: dget_None_iff intro: image_eqI [where x = "(k, i)"])
    qed
    ultimately show ?thesis using spec a(4) by blast
  qed
  show ?thesis using spec active old ok' by blast
qed

text \<open>A tracker with room for one finished job: the second completion evicts the first.\<close>

definition demo_tracker :: job_tracker where
  "demo_tracker =
     complete_job 5 ''a'' True ''s'' [] (snd (create_job 2 ''b'' ''p'' ''g'' ''q'' ''u'' ''c''
       (snd (create_job 1 ''a'' ''p'' ''g'' ''q'' ''u'' ''c'' (new_tracker\<lparr>jt_max_history := 1\<rparr>)))))"

theorem job_history_bounded_witness:
  "length (terminal_jobs (complete_job 9 ''b'' False [] ''boom'' demo_tracker)) \<le> 1
    \<and> tracker_keys_ok (complete_job 9 ''b'' False [] ''boom'' demo_tracker)"
proof -
  have ok: "tracker_keys_ok demo_tracker"
    unfolding demo_tracker_def by (intro tracker_ops_keep_keys) (simp add: tracker_keys_ok_def new_tracker_def)
  note ev = demo_tracker_def complete_job_def create_job_def new_tracker_def Let_def cleanup_history_def
    terminal_jobs_def is_terminal_def
  have b: "dget (jt_jobs demo_tracker) ''b'' = Some (the (dget (jt_jobs demo_tracker) ''b''))" by (simp add: ev)
  have one: "jt_max_history demo_tracker = 1" by (simp add: ev)
  from job_history_bounded [OF ok b refl] show ?thesis unfolding one by blast
qed

section \<open>Accounting of log lines\<close>

datatype log_op =
    LAppend real real string int int string
  | LForce string int
  | LStart
  | LTurn real "log_key \<Rightarrow> log_line list \<Rightarrow> bool"

fun log_step :: "log_op \<Rightarrow> log_buffer \<Rightarrow> log_buffer" where
  "log_step (LAppend now clk job_id step n text) = log_append now clk job_id step n text"
| "log_step (LForce job_id step) = force_flush job_id step"
| "log_step LStart = start_buffer"
| "log_step (LTurn clk ok) = worker_turn clk ok"

text \<open>The lines of one phase: those appended by a sequence of operations, and those of a ghost log.\<close>

fun appended :: "log_key \<Rightarrow> log_op list \<Rightarrow> log_line list" where
  "appended k [] = []"
| "appended k (LAppend now clk job_id step n text # ops) =
     (if (job_id, step) = k then (n, now, text) # appended k ops else appended k ops)"
| "appended k (LForce job_id step # ops) = appended k ops"
| "appended k (LStart # ops) = appended k ops"
| "appended k (LTurn clk ok # ops) = appended k ops"

definition lines_of :: "log_key \<Rightarrow> (log_key \<times> log_line) list \<Rightarrow> log_line list" where
  "lines_of k xs = map snd (filter (\<lambda>x. fst x = k) xs)"

lemma lines_of_append [simp]: "lines_of k (xs @ ys) = lines_of k xs @ lines_of k ys"
  by (simp add: lines_of_def)

lemma lines_of_Pair [simp]: "lines_of k (map (Pair k') ls) = (if k' = k then ls else [])"
  by (induction ls) (auto simp: lines_of_def)

text \<open>What holds of the lines \<open>app\<close> appended so far for the phase \<open>k\<close>.\<close>

definition accounted :: "nat \<Rightarrow> log_key \<Rightarrow> log_line list \<Rightarrow> log_buffer \<Rightarrow> bool" where
  "accounted cap k app lb \<longleftrightarrow> lb_cap lb = cap \<and> length (buffer_of lb k) \<le> cap
     \<and> subseq (lines_of k (lb_flushed lb) @ buffer_of lb k) app
     \<and> mset (lines_of k (lb_flushed lb)) + mset (lines_of k (lb_lost lb)) + mset (buffer_of lb k) = mset app"

lemma push_line_split: "take (length old + 1 - length (push_line cap x old)) (old @ [x]) @ push_line cap x old = old @ [x]"
proof -
  let ?ys = "old @ [x]"
  have "length old + 1 - length (push_line cap x old) = length ?ys - cap"
    unfolding push_line_def Let_def by (auto simp: not_less)
  moreover have "push_line cap x old = drop (length ?ys - cap) ?ys" by (simp add: push_line_def Let_def)
  ultimately show ?thesis by (simp only: append_take_drop_id)
qed

lemma mset_shift:
  assumes "d + n = old + {#x#}" and "f + l + old = app"
  shows "f + (l + d) + n = app + {#x#}"
proof -
  have "f + (l + d) + n = f + l + (d + n)" by (simp add: ac_simps)
  then show ?thesis unfolding assms(1) assms(2) [symmetric] by (simp add: ac_simps)
qed

lemma log_append_fields [simp]:
  "lb_cap (log_append now clk job_id step n text lb) = lb_cap lb"
  "lb_flushed (log_append now clk job_id step n text lb) = lb_flushed lb"
  "buffer_of (log_append now clk job_id step n text lb) k =
     (if k = (job_id, step) then push_line (lb_cap lb) (n, now, text) (buffer_of lb k) else buffer_of lb k)"
  "lb_lost (log_append now clk job_id step n text lb) = lb_lost lb @ map (Pair (job_id, step))
     (take (length (buffer_of lb (job_id, step)) + 1 - length (push_line (lb_cap lb) (n, now, text) (buffer_of lb (job_id, step))))
       (buffer_of lb (job_id, step) @ [(n, now, text)]))"
  by (simp_all add: log_append_def Let_def buffer_of_def)

lemma accounted_append:
  assumes "accounted cap k app lb"
  shows "accounted cap k (if (job_id, step) = k then app @ [(n, now, text)] else app) (log_append now clk job_id step n text lb)"
proof (cases "(job_id, step) = k")
  case True
  let ?x = "(n, now, text)"
  let ?old = "buffer_of lb k"
  let ?new = "push_line cap ?x ?old"
  let ?drop = "take (length ?old + 1 - length ?new) (?old @ [?x])"
  have split: "?drop @ ?new = ?old @ [?x]" by (rule push_line_split)
  have "subseq ?new (?drop @ ?new)" by (rule list_emb_append2) simp
  then have "subseq ?new (?old @ [?x])" unfolding split .
  then have "subseq (lines_of k (lb_flushed lb) @ ?new) ((lines_of k (lb_flushed lb) @ ?old) @ [?x])"
    by (simp only: append_assoc subseq_append')
  moreover have "subseq ((lines_of k (lb_flushed lb) @ ?old) @ [?x]) (app @ [?x])"
    using assms by (intro list_emb_append_mono) (simp_all add: accounted_def)
  ultimately have "subseq (lines_of k (lb_flushed lb) @ ?new) (app @ [?x])" by (rule subseq_order.order_trans)
  moreover have "mset ?drop + mset ?new = mset ?old + {#?x#}"
    unfolding mset_append [symmetric] split by simp
  moreover have "length ?new \<le> cap" by (rule log_ring.push_within_cap)
  moreover have "lb_cap lb = cap" and "mset (lines_of k (lb_flushed lb)) + mset (lines_of k (lb_lost lb)) + mset ?old = mset app"
    using assms by (simp_all add: accounted_def)
  ultimately show ?thesis using True mset_shift unfolding accounted_def log_append_fields lines_of_append lines_of_Pair mset_append
    by (simp only: if_True simp_thms mset.simps)
      (simp only: mset_shift add_mset_add_single [symmetric] mset_append mset.simps)
next
  case False
  then show ?thesis using assms by (auto simp: accounted_def)
qed

lemma flush_key_fields [simp]:
  "lb_cap (flush_key clk ok k lb) = lb_cap lb"
  "lb_force (flush_key clk ok k lb) = lb_force lb"
  "buffer_of (flush_key clk ok k lb) k' = (if k' = k then [] else buffer_of lb k')"
  "lines_of k' (lb_flushed (flush_key clk ok k lb)) =
     lines_of k' (lb_flushed lb) @ (if k' = k \<and> ok k (buffer_of lb k) then buffer_of lb k else [])"
  "lines_of k' (lb_lost (flush_key clk ok k lb)) =
     lines_of k' (lb_lost lb) @ (if k' = k \<and> \<not> ok k (buffer_of lb k) then buffer_of lb k else [])"
  by (auto simp: flush_key_def Let_def buffer_of_def)

lemma accounted_flush: "accounted cap k app lb \<Longrightarrow> accounted cap k app (flush_key clk ok k' lb)"
  by (auto simp: accounted_def ac_simps intro: subseq_order.order_trans [OF subseq_rev_drop_many [OF subseq_order.order_refl]])

lemma accounted_same:
  "accounted cap k app lb \<Longrightarrow> lb_cap lb' = lb_cap lb \<Longrightarrow> lb_buffers lb' = lb_buffers lb
     \<Longrightarrow> lb_flushed lb' = lb_flushed lb \<Longrightarrow> lb_lost lb' = lb_lost lb \<Longrightarrow> accounted cap k app lb'"
  by (simp add: accounted_def buffer_of_def)

lemma accounted_drain: "accounted cap k app lb \<Longrightarrow> accounted cap k app (drain_once clk ok lb)"
proof -
  assume a: "accounted cap k app lb"
  have "accounted cap k app (fold (flush_key clk ok) ks lb')" if "accounted cap k app lb'" for ks lb'
    using that by (induction ks arbitrary: lb') (simp_all add: accounted_flush)
  from accounted_same [OF this [OF a]] show ?thesis by (simp add: drain_once_def Let_def)
qed

lemma accounted_step:
  "accounted cap k app lb \<Longrightarrow> accounted cap k (app @ appended k [op]) (log_step op lb)"
proof (cases op)
  case (LAppend now clk job_id step n line)
  assume "accounted cap k app lb"
  from accounted_append [OF this, of job_id step n now line clk] show ?thesis
    unfolding LAppend log_step.simps appended.simps by (simp only: if_distrib [of "(@) app"] append_Nil2)
next
  case (LTurn clk ok)
  assume "accounted cap k app lb"
  then have "accounted cap k app (lb\<lparr>lb_wake := False\<rparr>)" by (rule accounted_same) simp_all
  then show ?thesis using \<open>accounted cap k app lb\<close> by (simp add: LTurn worker_turn_def accounted_drain)
qed (auto simp: force_flush_def start_buffer_def elim!: accounted_same)

lemma appended_Cons: "appended k (op # ops) = appended k [op] @ appended k ops"
  by (cases op) simp_all

lemma accounted_run: "accounted cap k app lb \<Longrightarrow> accounted cap k (app @ appended k ops) (fold log_step ops lb)"
proof (induction ops arbitrary: app lb)
  case (Cons op ops)
  from Cons.IH [OF accounted_step [OF Cons.prems, of op]] show ?case
    by (simp only: fold_simps append_assoc appended_Cons [of k op ops])
qed simp

text \<open>A drain while stopping leaves nothing behind.\<close>

lemma drain_stopping_empties:
  assumes "lb_stop lb"
  shows "buffer_of (drain_once clk ok lb) k = []"
proof -
  have fold: "buffer_of (fold (flush_key clk ok) ks lb') k = (if k \<in> set ks then [] else buffer_of lb' k)" for ks lb'
    by (induction ks arbitrary: lb') auto
  have "k \<in> set (keys_to_flush clk lb)" if "buffer_of lb k \<noteq> []"
  proof -
    from that obtain buf where b: "dget (lb_buffers lb) k = Some buf" "buf \<noteq> []"
      by (auto simp: buffer_of_def dget_or_def split: option.splits)
    then have "(k, buf) \<in> set (lb_buffers lb)" by (simp add: map_of_SomeD)
    then show ?thesis using b(2) assms by (force simp: keys_to_flush_def)
  qed
  then have "buffer_of (fold (flush_key clk ok) (keys_to_flush clk lb) lb) k = []" unfolding fold by auto
  then show ?thesis by (simp add: drain_once_def Let_def buffer_of_def)
qed

lemma lb_stop_drain: "lb_stop (drain_once clk ok lb) = lb_stop lb"
proof -
  have "lb_stop (fold (flush_key clk ok) ks lb') = lb_stop lb'" for ks lb'
    by (induction ks arbitrary: lb') (simp_all add: flush_key_def Let_def)
  then show ?thesis by (simp add: drain_once_def Let_def)
qed



end
