(* ===== verification/Hook_Match.thy ===== *)
theory Hook_Match
  imports Prelude
begin

text \<open>
  Conditions of hooks (\<open>src/src/breadmind/hooks/condition.py\<close>): the three kinds of pattern, negation and
  disjunction, with the regular expressions that recognise them written out and the glob patterns of Python's
  \<open>fnmatch\<close>; and the events of \<open>hooks/events.py\<close> with what a hook may do on each.
\<close>

section \<open>Events\<close>

datatype hook_event =
    SESSION_START | SESSION_END | USER_PROMPT_SUBMIT | PRE_TOOL_USE | POST_TOOL_USE | STOP_EVENT | SUBAGENT_STOP
  | NOTIFICATION | PRE_COMPACT | MESSENGER_RECEIVED | MESSENGER_SENDING | SAFETY_GUARD_TRIGGERED
  | WORKER_DISPATCHED | WORKER_COMPLETED | LLM_REQUEST | LLM_RESPONSE | MEMORY_WRITTEN | PLUGIN_LOADED
  | PLUGIN_UNLOADED | CREDENTIAL_ACCESSED

fun hook_event_value :: "hook_event \<Rightarrow> string" where
  "hook_event_value SESSION_START = ''session_start''"
| "hook_event_value SESSION_END = ''session_end''"
| "hook_event_value USER_PROMPT_SUBMIT = ''user_prompt_submit''"
| "hook_event_value PRE_TOOL_USE = ''pre_tool_use''"
| "hook_event_value POST_TOOL_USE = ''post_tool_use''"
| "hook_event_value STOP_EVENT = ''stop''"
| "hook_event_value SUBAGENT_STOP = ''subagent_stop''"
| "hook_event_value NOTIFICATION = ''notification''"
| "hook_event_value PRE_COMPACT = ''pre_compact''"
| "hook_event_value MESSENGER_RECEIVED = ''messenger_received''"
| "hook_event_value MESSENGER_SENDING = ''messenger_sending''"
| "hook_event_value SAFETY_GUARD_TRIGGERED = ''safety_guard_triggered''"
| "hook_event_value WORKER_DISPATCHED = ''worker_dispatched''"
| "hook_event_value WORKER_COMPLETED = ''worker_completed''"
| "hook_event_value LLM_REQUEST = ''llm_request''"
| "hook_event_value LLM_RESPONSE = ''llm_response''"
| "hook_event_value MEMORY_WRITTEN = ''memory_written''"
| "hook_event_value PLUGIN_LOADED = ''plugin_loaded''"
| "hook_event_value PLUGIN_UNLOADED = ''plugin_unloaded''"
| "hook_event_value CREDENTIAL_ACCESSED = ''credential_accessed''"

record event_policy =
  blockable :: bool
  mutable :: bool
  reply_allowed :: bool
  reroute_allowed :: bool

definition no_policy :: event_policy where
  "no_policy = \<lparr>blockable = False, mutable = False, reply_allowed = False, reroute_allowed = False\<rparr>"

fun policy :: "hook_event \<Rightarrow> event_policy" where
  "policy USER_PROMPT_SUBMIT = \<lparr>blockable = True, mutable = True, reply_allowed = True, reroute_allowed = True\<rparr>"
| "policy PRE_TOOL_USE = \<lparr>blockable = True, mutable = True, reply_allowed = True, reroute_allowed = True\<rparr>"
| "policy POST_TOOL_USE = \<lparr>blockable = False, mutable = True, reply_allowed = False, reroute_allowed = False\<rparr>"
| "policy PRE_COMPACT = \<lparr>blockable = True, mutable = True, reply_allowed = False, reroute_allowed = False\<rparr>"
| "policy MESSENGER_RECEIVED = \<lparr>blockable = True, mutable = True, reply_allowed = True, reroute_allowed = True\<rparr>"
| "policy MESSENGER_SENDING = \<lparr>blockable = True, mutable = True, reply_allowed = False, reroute_allowed = False\<rparr>"
| "policy SAFETY_GUARD_TRIGGERED = \<lparr>blockable = True, mutable = True, reply_allowed = True, reroute_allowed = False\<rparr>"
| "policy LLM_REQUEST = \<lparr>blockable = True, mutable = True, reply_allowed = True, reroute_allowed = False\<rparr>"
| "policy LLM_RESPONSE = \<lparr>blockable = False, mutable = True, reply_allowed = False, reroute_allowed = False\<rparr>"
| "policy _ = no_policy"

definition is_blockable :: "hook_event \<Rightarrow> bool" where
  "is_blockable ev = blockable (policy ev)"

definition is_mutable :: "hook_event \<Rightarrow> bool" where
  "is_mutable ev = mutable (policy ev)"

definition allows_reply :: "hook_event \<Rightarrow> bool" where
  "allows_reply ev = reply_allowed (policy ev)"

definition allows_reroute :: "hook_event \<Rightarrow> bool" where
  "allows_reroute ev = reroute_allowed (policy ev)"

record hook_payload =
  hp_event :: hook_event
  hp_data :: json_obj
  hp_depth :: int
  hp_visited :: "string set"
  hp_session_id :: string
  hp_trace_id :: string

section \<open>Glob patterns\<close>

text \<open>
  A bracket expression: the negation mark, the characters up to the closing bracket (a bracket in first place
  is an ordinary character) and the rest of the pattern. Without a closing bracket there is none.
\<close>

definition split_class :: "string \<Rightarrow> (bool \<times> string \<times> string) option" where
  "split_class p =
     (let neg = startswith p ''!''; q = (if neg then tl p else p);
          first = (if startswith q '']'' then '']'' else []); r = drop (length first) q in
      case dropWhile (\<lambda>c. c \<noteq> CHR '']'') r of
        [] \<Rightarrow> None
      | _ # rest \<Rightarrow> Some (neg, first @ takeWhile (\<lambda>c. c \<noteq> CHR '']'') r, rest))"

datatype class_item = Single char | Range char char

fun class_items :: "string \<Rightarrow> class_item list" where
  "class_items (a # b # c # r) = (if b = CHR ''-'' then Range a c # class_items r else Single a # class_items (b # c # r))"
| "class_items (a # r) = Single a # class_items r"
| "class_items [] = []"

fun empty_range :: "class_item \<Rightarrow> bool" where
  "empty_range (Range a b) = (b < a)"
| "empty_range (Single a) = False"

fun in_item :: "char \<Rightarrow> class_item \<Rightarrow> bool" where
  "in_item x (Single a) = (x = a)"
| "in_item x (Range a b) = (a \<le> x \<and> x \<le> b)"

text \<open>
  Empty ranges are removed. When that brings an exclamation mark to the front, the expression that
  Python builds is a negation.
\<close>

definition class_sem :: "bool \<Rightarrow> string \<Rightarrow> bool \<times> class_item list" where
  "class_sem neg body =
     (let its = filter (\<lambda>i. \<not> empty_range i) (class_items body) in
      if neg then (True, its)
      else case its of
        Single a # r \<Rightarrow> if a = CHR ''!'' then (True, r) else (False, its)
      | Range a b # r \<Rightarrow> if a = CHR ''!'' then (True, Single CHR ''-'' # Single b # r) else (False, its)
      | [] \<Rightarrow> (False, []))"

definition in_class :: "char \<Rightarrow> bool \<Rightarrow> string \<Rightarrow> bool" where
  "in_class x neg body = (let (n, its) = class_sem neg body in list_ex (in_item x) its \<noteq> n)"

lemma split_class_shorter [termination_simp]:
  "split_class p = Some (neg, body, rest) \<Longrightarrow> length rest < length p"
proof -
  assume a: "split_class p = Some (neg, body, rest)"
  have "length (dropWhile P r) \<le> length r" for P and r :: string by (rule length_dropWhile_le)
  moreover have "length (drop (length first) (if startswith p ''!'' then tl p else p)) \<le> length p" for first :: string
    by simp
  ultimately show ?thesis using a
    by (auto simp: split_class_def Let_def split: list.splits if_splits)
      (metis (no_types, lifting) Suc_le_lessD dual_order.trans length_Cons length_dropWhile_le length_drop
        diff_le_self length_tl)+
qed

fun fnmatch :: "string \<Rightarrow> string \<Rightarrow> bool" where
  "fnmatch s [] = (s = [])"
| "fnmatch s (q # p) =
     (if q = CHR ''*'' then fnmatch s p \<or> (case s of [] \<Rightarrow> False | _ # s' \<Rightarrow> fnmatch s' (q # p))
      else if q = CHR ''?'' then (case s of [] \<Rightarrow> False | _ # s' \<Rightarrow> fnmatch s' p)
      else case (if q = CHR ''['' then split_class p else None) of
        Some (neg, body, rest) \<Rightarrow> (case s of [] \<Rightarrow> False | c # s' \<Rightarrow> in_class c neg body \<and> fnmatch s' rest)
      | None \<Rightarrow> (case s of [] \<Rightarrow> False | c # s' \<Rightarrow> c = q \<and> fnmatch s' p))"

declare fnmatch.simps(2) [simp del]

lemma fnmatch_star: "fnmatch s (CHR ''*'' # p) \<longleftrightarrow> (\<exists>t. suffix t s \<and> fnmatch t p)"
proof (induction s)
  case Nil
  then show ?case by (simp add: fnmatch.simps(2))
next
  case (Cons c s)
  have "fnmatch (c # s) (CHR ''*'' # p) \<longleftrightarrow> fnmatch (c # s) p \<or> fnmatch s (CHR ''*'' # p)"
    by (subst fnmatch.simps(2)) simp
  then show ?case using Cons.IH by (auto simp: suffix_Cons)
qed

text \<open>A pattern without special characters matches itself only; followed by a star, its extensions.\<close>

definition literal :: "string \<Rightarrow> bool" where
  "literal p = list_all (\<lambda>c. c \<noteq> CHR ''*'' \<and> c \<noteq> CHR ''?'' \<and> c \<noteq> CHR ''['') p"

lemma fnmatch_literal_append: "literal p \<Longrightarrow> fnmatch s (p @ q) \<longleftrightarrow> (\<exists>t. s = p @ t \<and> fnmatch t q)"
proof (induction p arbitrary: s)
  case (Cons c p)
  then have "c \<noteq> CHR ''*''" "c \<noteq> CHR ''?''" "c \<noteq> CHR ''[''" "literal p" by (auto simp: literal_def)
  then show ?case using Cons.IH by (cases s) (auto simp: fnmatch.simps(2))
qed simp

lemma fnmatch_literal: "literal p \<Longrightarrow> fnmatch s p \<longleftrightarrow> s = p"
  using fnmatch_literal_append [of p s "[]"] by simp

lemma fnmatch_prefix: "literal p \<Longrightarrow> fnmatch s (p @ ''*'') \<longleftrightarrow> prefix p s"
  by (simp add: fnmatch_literal_append fnmatch_star prefix_def)

section \<open>Conditions\<close>

text \<open>\<open>\w\<close> (of the ASCII range), and what the anchor \<open>$\<close> accepts: the end, or a line feed before the end.\<close>

definition is_letter :: "char \<Rightarrow> bool" where
  "is_letter c = (let n = (of_char c :: nat) in (65 \<le> n \<and> n \<le> 90) \<or> (97 \<le> n \<and> n \<le> 122) \<or> n = 95)"

definition is_word_char :: "char \<Rightarrow> bool" where
  "is_word_char c = (is_letter c \<or> is_digit c)"

definition newline :: char where "newline = CHR 0x0A"

definition at_end :: "string \<Rightarrow> bool" where
  "at_end s = (s = [] \<or> s = [newline])"

text \<open>\<open>^event=(.+)$\<close>, where a dot is no line feed.\<close>

definition event_re :: "string \<Rightarrow> string option" where
  "event_re p =
     (if startswith p ''event='' then
        let r = drop 6 p; v = takeWhile (\<lambda>c. c \<noteq> newline) r in
        if v \<noteq> [] \<and> at_end (drop (length v) r) then Some v else None
      else None)"

text \<open>\<open>^data\.([\w.]+)=(.+)$\<close>, where a dot is any character.\<close>

definition data_field_re :: "string \<Rightarrow> (string \<times> string) option" where
  "data_field_re p =
     (if startswith p ''data.'' then
        let r = drop 5 p; path = takeWhile (\<lambda>c. is_word_char c \<or> c = CHR ''.'') r in
        (case drop (length path) r of
           c # v \<Rightarrow> if path \<noteq> [] \<and> c = CHR ''='' \<and> v \<noteq> [] then Some (path, v) else None
         | [] \<Rightarrow> None)
      else None)"

text \<open>\<open>^([A-Za-z_]\w*)(?:\((.*)?\))?$\<close>, where a dot is any character.\<close>

definition tool_pattern_re :: "string \<Rightarrow> (string \<times> string option) option" where
  "tool_pattern_re p =
     (case p of
        [] \<Rightarrow> None
      | c # _ \<Rightarrow>
          if \<not> is_letter c then None
          else
            let name = takeWhile is_word_char p; r = drop (length name) p in
            if at_end r then Some (name, None)
            else if startswith r ''('' then
              let x = tl r; y = (if x \<noteq> [] \<and> last x = newline then butlast x else x) in
              if y \<noteq> [] \<and> last y = CHR '')'' then Some (name, Some (butlast y)) else None
            else None)"

fun split_on :: "char \<Rightarrow> string \<Rightarrow> string list" where
  "split_on d [] = [[]]"
| "split_on d (c # s) = (if c = d then [] # split_on d s
     else case split_on d s of w # ws \<Rightarrow> (c # w) # ws | [] \<Rightarrow> [[c]])"

fun match_path :: "json \<Rightarrow> string list \<Rightarrow> string \<Rightarrow> bool" where
  "match_path node [] expected = (node = JStr expected)"
| "match_path (JObj d) (k # ks) expected =
     (case dget d k of None \<Rightarrow> False | Some n \<Rightarrow> match_path n ks expected)"
| "match_path node (k # ks) expected = False"

definition match_data_field :: "json_obj \<Rightarrow> string \<Rightarrow> string \<Rightarrow> bool" where
  "match_data_field data path expected = match_path (JObj data) (split_on (CHR ''.'') path) expected"

text \<open>A \<open>tool_input\<close> that is not a string makes \<open>fnmatch\<close> raise.\<close>

definition match_tool :: "hook_payload \<Rightarrow> string \<Rightarrow> string option \<Rightarrow> exn + bool" where
  "match_tool payload tool_name arg_pattern =
     (if dget (hp_data payload) ''tool_name'' \<noteq> Some (JStr tool_name) then Inr False
      else case arg_pattern of
        None \<Rightarrow> Inr True
      | Some pat \<Rightarrow>
          (case dget_or (hp_data payload) ''tool_input'' JNull of
             JNull \<Rightarrow> Inr False
           | JStr s \<Rightarrow> Inr (fnmatch s pat)
           | _ \<Rightarrow> Inl (TypeError ''expected str, bytes or os.PathLike object'')))"

definition evaluate_pattern :: "string \<Rightarrow> hook_payload \<Rightarrow> exn + bool" where
  "evaluate_pattern pat payload =
     (if pat = [] then Inr False
      else case event_re pat of
        Some v \<Rightarrow> Inr (hook_event_value (hp_event payload) = v)
      | None \<Rightarrow>
          (case data_field_re pat of
             Some (path, expected) \<Rightarrow> Inr (match_data_field (hp_data payload) path expected)
           | None \<Rightarrow>
               (case tool_pattern_re pat of
                  Some (name, arg) \<Rightarrow> match_tool payload name arg
                | None \<Rightarrow> Inr False)))"

definition match_single :: "string \<Rightarrow> hook_payload \<Rightarrow> exn + bool" where
  "match_single pat payload =
     (if startswith pat ''!'' then bind_res (evaluate_pattern (tl pat) payload) (\<lambda>b. Inr (\<not> b))
      else evaluate_pattern pat payload)"

text \<open>
  A condition is what a configuration holds: nothing, a pattern or a list of patterns. Anything else has no
  \<open>startswith\<close>.
\<close>

fun match_item :: "json \<Rightarrow> hook_payload \<Rightarrow> exn + bool" where
  "match_item (JStr c) payload = match_single c payload"
| "match_item _ payload = Inl (OtherError ''AttributeError'' ''object has no attribute startswith'')"

fun match_any :: "json list \<Rightarrow> hook_payload \<Rightarrow> exn + bool" where
  "match_any [] payload = Inr False"
| "match_any (c # cs) payload = bind_res (match_item c payload) (\<lambda>b. if b then Inr True else match_any cs payload)"

fun matches_condition :: "json \<Rightarrow> hook_payload \<Rightarrow> exn + bool" where
  "matches_condition JNull payload = Inr True"
| "matches_condition (JList cs) payload = match_any cs payload"
| "matches_condition c payload = match_item c payload"

end
