(* ===== verification/Hooks.thy ===== *)
theory Hooks
  imports Hook_Match
begin

text \<open>
  Hooks: decisions (\<open>src/src/breadmind/hooks/decision.py\<close>), handlers (\<open>hooks/handler.py\<close>), the chain that runs
  them (\<open>hooks/chain.py\<close>), the trace buffer (\<open>hooks/trace.py\<close>) and the registry that merges the hooks of
  plugins with overrides from the database (\<open>hooks/registry.py\<close>).

  A Python hook is a function of the payload (which it may change) with its outcome; the process a shell hook
  starts, and the hooks that ask a language model or an HTTP server, are parameters, as is the text of a float.
  The clock readings of the trace are parameters too.
\<close>

section \<open>Decisions\<close>

datatype decision_kind = PROCEED | BLOCK | MODIFY | REPLY | REROUTE

fun decision_kind_value :: "decision_kind \<Rightarrow> string" where
  "decision_kind_value PROCEED = ''proceed''"
| "decision_kind_value BLOCK = ''block''"
| "decision_kind_value MODIFY = ''modify''"
| "decision_kind_value REPLY = ''reply''"
| "decision_kind_value REROUTE = ''reroute''"

record hook_decision =
  hd_kind :: decision_kind
  hd_reason :: json
  hd_patch :: json_obj
  hd_reply :: json
  hd_target :: json
  hd_args :: "json_obj option"
  hd_context :: json
  hd_hook_id :: string

definition plain_decision :: hook_decision where
  "plain_decision = \<lparr>hd_kind = PROCEED, hd_reason = JStr [], hd_patch = [], hd_reply = JNull, hd_target = JNull,
     hd_args = None, hd_context = JStr [], hd_hook_id = []\<rparr>"

definition proceed :: "json \<Rightarrow> hook_decision" where
  "proceed context = plain_decision\<lparr>hd_context := context\<rparr>"

definition block :: "json \<Rightarrow> hook_decision" where
  "block reason = plain_decision\<lparr>hd_kind := BLOCK, hd_reason := reason\<rparr>"

definition modify_decision :: "json_obj \<Rightarrow> hook_decision" where
  "modify_decision patch = plain_decision\<lparr>hd_kind := MODIFY, hd_patch := patch\<rparr>"

definition reply_decision :: "json \<Rightarrow> json \<Rightarrow> hook_decision" where
  "reply_decision result context = plain_decision\<lparr>hd_kind := REPLY, hd_reply := result, hd_context := context\<rparr>"

definition reroute :: "json \<Rightarrow> json_obj \<Rightarrow> hook_decision" where
  "reroute target args = plain_decision\<lparr>hd_kind := REROUTE, hd_target := target, hd_args := Some args\<rparr>"

section \<open>Handlers\<close>

datatype py_outcome = PyTimeout | PyRaised exn | PyOther | PyDecision hook_decision

datatype shell_outcome = ShTimeout | ShRaised exn | ShExit int string string

datatype hook_body =
    PythonBody "hook_payload \<Rightarrow> py_outcome \<times> hook_payload"
  | ShellBody json json
  | PromptBody json json json json json
  | AgentBody json int json json json
  | HttpBody json json json json json

record hook_handler =
  hh_name :: string
  hh_event :: hook_event
  hh_priority :: int
  hh_tool_pattern :: "string option"
  hh_timeout :: real
  hh_condition :: json
  hh_body :: hook_body

text \<open>
  The environment: the shell, \<open>json.loads\<close> (\<open>None\<close> is a decoding error), the hooks that are not modelled, the
  text of a float, the reading of a float, and the time stamp and duration of a run.
\<close>

record hook_env =
  he_shell :: "hook_handler \<Rightarrow> hook_payload \<Rightarrow> shell_outcome"
  he_loads :: "string \<Rightarrow> json option"
  he_other :: "hook_handler \<Rightarrow> hook_payload \<Rightarrow> hook_decision"
  he_float_str :: "real \<Rightarrow> string"
  he_read_float :: "string \<Rightarrow> real option"
  he_clock :: "hook_handler \<Rightarrow> hook_payload \<Rightarrow> real \<times> real"

definition failure_decision :: "hook_event \<Rightarrow> string \<Rightarrow> hook_decision" where
  "failure_decision ev reason = (if is_blockable ev then block (JStr reason) else proceed (JStr []))"

definition hook_label :: "string \<Rightarrow> hook_handler \<Rightarrow> string" where
  "hook_label what h = what @ '' '' @ [CHR 0x27] @ hh_name h @ [CHR 0x27]"

definition python_run :: "hook_env \<Rightarrow> hook_handler \<Rightarrow> py_outcome \<Rightarrow> hook_decision" where
  "python_run env h out =
     (case out of
        PyDecision d \<Rightarrow> d
      | PyOther \<Rightarrow> proceed (JStr [])
      | PyTimeout \<Rightarrow> failure_decision (hh_event h) (hook_label ''hook'' h @ '' timeout after '' @ he_float_str env (hh_timeout h) @ ''s'')
      | PyRaised e \<Rightarrow> failure_decision (hh_event h) (hook_label ''hook'' h @ '' error: '' @ exn_str e))
       \<lparr>hd_hook_id := hh_name h\<rparr>"

text \<open>
  \<open>dict(patch)\<close>: a mapping is copied, a list of pairs (also a text or a mapping of length two) is read, null and
  numbers are refused. A pair whose first component is not a text counts as an error.
\<close>

fun dict_of_pairs :: "json list \<Rightarrow> (exn + json_obj)" where
  "dict_of_pairs [] = Inr []"
| "dict_of_pairs (JList [JStr k, v] # ps) = bind_res (dict_of_pairs ps) (\<lambda>d. Inr (dmerge [(k, v)] d))"
| "dict_of_pairs (JStr [k, c] # ps) = bind_res (dict_of_pairs ps) (\<lambda>d. Inr (dmerge [([k], JStr [c])] d))"
| "dict_of_pairs (JObj [(k, _), (c, _)] # ps) = bind_res (dict_of_pairs ps) (\<lambda>d. Inr (dmerge [(k, JStr c)] d))"
| "dict_of_pairs (_ # ps) = Inl (ValueError ''dictionary update sequence element'')"

fun dict_of :: "json \<Rightarrow> exn + json_obj" where
  "dict_of (JObj d) = Inr d"
| "dict_of (JList ps) = dict_of_pairs ps"
| "dict_of (JStr s) = (if s = [] then Inr [] else Inl (ValueError ''dictionary update sequence element''))"
| "dict_of _ = Inl (TypeError ''object is not iterable'')"

text \<open>\<open>HookDecision.reroute(target, **args)\<close>: the names of the parameters may not come again.\<close>

fun reroute_kwargs :: "json \<Rightarrow> json \<Rightarrow> exn + hook_decision" where
  "reroute_kwargs target (JObj d) =
     (if ''target'' \<in> set (dkeys d) \<or> ''cls'' \<in> set (dkeys d) then Inl (TypeError ''got multiple values for argument'')
      else Inr (reroute target d))"
| "reroute_kwargs target _ = Inl (TypeError ''argument after ** must be a mapping'')"

definition parse_shell_decision :: "hook_env \<Rightarrow> string \<Rightarrow> exn + hook_decision" where
  "parse_shell_decision env out =
     (let t = str_strip out in
      if t = [] then Inr (proceed (JStr []))
      else case he_loads env t of
        None \<Rightarrow> Inr (proceed (JStr t))
      | Some (JObj d) \<Rightarrow>
          let action = dget_or d ''action'' (JStr ''proceed'') in
          if action = JStr ''block'' then Inr (block (dget_or d ''reason'' (JStr ''blocked by shell hook'')))
          else if action = JStr ''modify'' then
            bind_res (dict_of (dget_or d ''patch'' (JObj []))) (\<lambda>patch.
              let dec = modify_decision patch in
              Inr (case dget d ''context'' of None \<Rightarrow> dec | Some c \<Rightarrow> dec\<lparr>hd_context := c\<rparr>))
          else if action = JStr ''reply'' then
            Inr (reply_decision (dget_or d ''result'' JNull) (dget_or d ''context'' (JStr [])))
          else if action = JStr ''reroute'' then
            reroute_kwargs (dget_or d ''target'' (JStr [])) (dget_or d ''args'' (JObj []))
          else Inr (proceed (dget_or d ''context'' (JStr [])))
      | Some _ \<Rightarrow> Inl (OtherError ''AttributeError'' ''object has no attribute get''))"

definition shell_run :: "hook_env \<Rightarrow> hook_handler \<Rightarrow> hook_payload \<Rightarrow> hook_decision" where
  "shell_run env h payload =
     (let failed = (\<lambda>e. failure_decision (hh_event h) (hook_label ''shell hook'' h @ '' error: '' @ exn_str e)) in
      case he_shell env h payload of
        ShTimeout \<Rightarrow> failure_decision (hh_event h) (hook_label ''shell hook'' h @ '' timeout'')
      | ShRaised e \<Rightarrow> failed e
      | ShExit code out err \<Rightarrow>
          if code \<noteq> 0 then
            failure_decision (hh_event h) (if str_strip err \<noteq> [] then str_strip err else ''exit code '' @ int_str code)
          else (case parse_shell_decision env out of Inl e \<Rightarrow> failed e | Inr d \<Rightarrow> d))
       \<lparr>hd_hook_id := hh_name h\<rparr>"

definition run_handler :: "hook_env \<Rightarrow> hook_handler \<Rightarrow> hook_payload \<Rightarrow> hook_decision \<times> hook_payload" where
  "run_handler env h payload =
     (case hh_body h of
        PythonBody f \<Rightarrow> (case f payload of (out, payload') \<Rightarrow> (python_run env h out, payload'))
      | ShellBody command shell \<Rightarrow> (shell_run env h payload, payload)
      | _ \<Rightarrow> (he_other env h payload, payload))"

section \<open>Trace\<close>

record trace_entry =
  te_timestamp :: real
  te_hook_id :: string
  te_event :: string
  te_decision :: string
  te_duration :: real
  te_reason :: json
  te_error :: string

text \<open>A subscriber is a queue with its capacity (none is unbounded); a full queue drops the entry.\<close>

record trace_buffer =
  tb_max :: nat
  tb_entries :: "trace_entry list"
  tb_subs :: "(string, nat option \<times> trace_entry list) dict"

definition new_trace_buffer :: trace_buffer where
  "new_trace_buffer = \<lparr>tb_max = 500, tb_entries = [], tb_subs = []\<rparr>"

definition put_nowait :: "trace_entry \<Rightarrow> nat option \<times> trace_entry list \<Rightarrow> nat option \<times> trace_entry list" where
  "put_nowait e q =
     (case fst q of
        None \<Rightarrow> (None, snd q @ [e])
      | Some n \<Rightarrow> if n \<le> length (snd q) then q else (Some n, snd q @ [e]))"

definition trace_record :: "trace_entry \<Rightarrow> trace_buffer \<Rightarrow> trace_buffer" where
  "trace_record e tb =
     tb\<lparr>tb_entries := (let es = tb_entries tb @ [e] in drop (length es - tb_max tb) es),
        tb_subs := map (\<lambda>(k, q). (k, put_nowait e q)) (tb_subs tb)\<rparr>"

definition trace_subscribe :: "string \<Rightarrow> nat option \<Rightarrow> trace_buffer \<Rightarrow> trace_buffer" where
  "trace_subscribe k cap tb =
     (if k \<in> set (dkeys (tb_subs tb)) then tb else tb\<lparr>tb_subs := tb_subs tb @ [(k, (cap, []))]\<rparr>)"

definition trace_unsubscribe :: "string \<Rightarrow> trace_buffer \<Rightarrow> trace_buffer" where
  "trace_unsubscribe k tb = tb\<lparr>tb_subs := dpop k (tb_subs tb)\<rparr>"

text \<open>\<open>entries[-limit:]\<close>: a limit of zero gives all entries, a negative one skips from the front.\<close>

definition last_slice :: "int \<Rightarrow> 'a list \<Rightarrow> 'a list" where
  "last_slice n xs = (if 0 < n then drop (length xs - nat n) xs else drop (nat (- n)) xs)"

definition trace_recent :: "int \<Rightarrow> string \<Rightarrow> string \<Rightarrow> trace_buffer \<Rightarrow> trace_entry list" where
  "trace_recent n event hook_id tb =
     last_slice n (filter (\<lambda>e. hook_id = [] \<or> te_hook_id e = hook_id)
       (filter (\<lambda>e. event = [] \<or> te_event e = event) (tb_entries tb)))"

record hook_stat =
  hs_total :: int
  hs_block :: int
  hs_modify :: int
  hs_reply :: int
  hs_error :: int
  hs_duration :: real

definition count_entry :: "trace_entry \<Rightarrow> hook_stat \<Rightarrow> hook_stat" where
  "count_entry e st =
     st\<lparr>hs_total := hs_total st + 1, hs_duration := hs_duration st + te_duration e,
        hs_block := hs_block st + (if te_decision e = ''block'' then 1 else 0),
        hs_modify := hs_modify st + (if te_decision e = ''modify'' then 1 else 0),
        hs_reply := hs_reply st + (if te_decision e = ''reply'' then 1 else 0),
        hs_error := hs_error st + (if te_error e \<noteq> [] then 1 else 0)\<rparr>"

definition trace_stats :: "trace_buffer \<Rightarrow> (string \<times> hook_stat \<times> real) list" where
  "trace_stats tb =
     map (\<lambda>(k, st). (k, st, if hs_total st \<noteq> 0 then hs_duration st / of_int (hs_total st) else 0))
       (fold (\<lambda>e acc. dset (te_hook_id e) (count_entry e
           (dget_or acc (te_hook_id e) \<lparr>hs_total = 0, hs_block = 0, hs_modify = 0, hs_reply = 0, hs_error = 0, hs_duration = 0\<rparr>)) acc)
         (tb_entries tb) [])"

section \<open>Chain\<close>

definition max_reroute_depth :: int where "max_reroute_depth = 3"

definition trace_of :: "hook_env \<Rightarrow> hook_event \<Rightarrow> hook_handler \<Rightarrow> hook_payload \<Rightarrow> hook_decision \<Rightarrow> trace_entry" where
  "trace_of env ev h payload d =
     \<lparr>te_timestamp = fst (he_clock env h payload), te_hook_id = hh_name h, te_event = hook_event_value ev,
      te_decision = decision_kind_value (hd_kind d), te_duration = snd (he_clock env h payload),
      te_reason = hd_reason d, te_error = []\<rparr>"

fun join_contexts :: "json list \<Rightarrow> exn + string list" where
  "join_contexts [] = Inr []"
| "join_contexts (JStr c # cs) = bind_res (join_contexts cs) (\<lambda>r. Inr (c # r))"
| "join_contexts (_ # cs) = Inl (TypeError ''sequence item: expected str instance'')"

definition final_decision :: "json_obj \<Rightarrow> json list \<Rightarrow> exn + hook_decision" where
  "final_decision patch contexts =
     bind_res (join_contexts contexts) (\<lambda>cs.
       let c = JStr (str_join [newline] cs) in
       Inr (if patch \<noteq> [] then (modify_decision patch)\<lparr>hd_context := c\<rparr> else proceed c))"

definition may_reroute :: "hook_event \<Rightarrow> hook_payload \<Rightarrow> json \<Rightarrow> bool" where
  "may_reroute ev payload target =
     (allows_reroute ev \<and> \<not> max_reroute_depth \<le> hp_depth payload
      \<and> (case (if truthy target then target else JStr []) of JStr t \<Rightarrow> t \<notin> hp_visited payload | _ \<Rightarrow> True))"

fun chain_loop ::
  "hook_env \<Rightarrow> hook_event \<Rightarrow> hook_handler list \<Rightarrow> json_obj \<Rightarrow> json list \<Rightarrow> hook_payload \<Rightarrow>
   (trace_buffer, hook_decision \<times> hook_payload) prog"
where
  "chain_loop env ev [] patch contexts payload =
     bind_s (lift_res (final_decision patch contexts)) (\<lambda>d. ret (d, payload))"
| "chain_loop env ev (h # hs) patch contexts payload =
     bind_s (lift_res (matches_condition (hh_condition h) payload)) (\<lambda>matched.
       if \<not> matched then chain_loop env ev hs patch contexts payload
       else let (d, payload') = run_handler env h payload;
                contexts' = (if truthy (hd_context d) then contexts @ [hd_context d] else contexts) in
         then_s (modify_s (trace_record (trace_of env ev h payload d)))
           (case hd_kind d of
              PROCEED \<Rightarrow> chain_loop env ev hs patch contexts' payload'
            | BLOCK \<Rightarrow>
                if is_blockable ev then ret (d, payload') else chain_loop env ev hs patch contexts' payload'
            | MODIFY \<Rightarrow>
                if \<not> is_mutable ev then chain_loop env ev hs patch contexts' payload'
                else chain_loop env ev hs (dmerge patch (hd_patch d)) contexts'
                  (payload'\<lparr>hp_data := dmerge (hp_data payload') (hd_patch d)\<rparr>)
            | REPLY \<Rightarrow>
                if allows_reply ev then ret (d, payload') else chain_loop env ev hs patch contexts' payload'
            | REROUTE \<Rightarrow>
                if may_reroute ev payload' (hd_target d) then ret (d, payload')
                else chain_loop env ev hs patch contexts' payload'))"

definition sorted_handlers :: "hook_handler list \<Rightarrow> hook_handler list" where
  "sorted_handlers hs = sort_key (\<lambda>h. - hh_priority h) hs"

definition chain_run ::
  "hook_env \<Rightarrow> hook_event \<Rightarrow> hook_handler list \<Rightarrow> hook_payload \<Rightarrow> (trace_buffer, hook_decision \<times> hook_payload) prog"
where
  "chain_run env ev hs payload = chain_loop env ev (sorted_handlers hs) [] [] payload"

section \<open>Event bus\<close>

text \<open>
  \<open>EventBus.register_hook\<close>, \<open>unregister_hook\<close> and \<open>run_hook_chain\<close> (\<open>core/events.py\<close>). The random suffix of a
  generated id is an argument; the plain listeners, which only observe, are left out.
\<close>

type_synonym hook_bus = "(string, (string \<times> hook_handler) list) dict"

fun class_name :: "hook_body \<Rightarrow> string" where
  "class_name (PythonBody f) = ''PythonHook''"
| "class_name (ShellBody c sh) = ''ShellHook''"
| "class_name (PromptBody p pr m k e) = ''PromptHook''"
| "class_name (AgentBody p t pr m al) = ''AgentHook''"
| "class_name (HttpBody u hs m ah hosts) = ''HttpHook''"

definition register_hook :: "string \<Rightarrow> string \<Rightarrow> string \<Rightarrow> hook_handler \<Rightarrow> string option \<Rightarrow> hook_bus \<Rightarrow> string \<times> hook_bus" where
  "register_hook rnd8 rnd6 key h name bus =
     (let by_class = key @ '':'' @ class_name (hh_body h) @ '':'' @ rnd8;
          by_name = key @ '':'' @ hh_name h @ '':'' @ rnd6;
          generated = (if hh_name h \<noteq> by_class then by_name else by_class);
          hook_id = (case name of Some n \<Rightarrow> if n \<noteq> [] then n else generated | None \<Rightarrow> generated) in
      (hook_id, dset key (dget_or bus key [] @ [(hook_id, h)]) bus))"

text \<open>\<open>entries.pop(i)\<close> for the first entry with the id, in the first list that has one.\<close>

fun remove_first :: "string \<Rightarrow> (string \<times> 'h) list \<Rightarrow> (string \<times> 'h) list option" where
  "remove_first hook_id [] = None"
| "remove_first hook_id (e # es) =
     (if fst e = hook_id then Some es else map_option ((#) e) (remove_first hook_id es))"

fun unregister_hook :: "string \<Rightarrow> hook_bus \<Rightarrow> bool \<times> hook_bus" where
  "unregister_hook hook_id [] = (False, [])"
| "unregister_hook hook_id ((k, es) # bus) =
     (case remove_first hook_id es of
        Some es' \<Rightarrow> (True, (k, es') # bus)
      | None \<Rightarrow> (case unregister_hook hook_id bus of (b, bus') \<Rightarrow> (b, (k, es) # bus')))"

definition all_hook_events :: "hook_event list" where
  "all_hook_events = [SESSION_START, SESSION_END, USER_PROMPT_SUBMIT, PRE_TOOL_USE, POST_TOOL_USE, STOP_EVENT, SUBAGENT_STOP,
     NOTIFICATION, PRE_COMPACT, MESSENGER_RECEIVED, MESSENGER_SENDING, SAFETY_GUARD_TRIGGERED, WORKER_DISPATCHED,
     WORKER_COMPLETED, LLM_REQUEST, LLM_RESPONSE, MEMORY_WRITTEN, PLUGIN_LOADED, PLUGIN_UNLOADED, CREDENTIAL_ACCESSED]"

definition hook_event_of :: "string \<Rightarrow> hook_event option" where
  "hook_event_of v = find (\<lambda>e. hook_event_value e = v) all_hook_events"

definition run_hook_chain ::
  "hook_env \<Rightarrow> hook_bus \<Rightarrow> string \<Rightarrow> hook_payload \<Rightarrow> (trace_buffer, hook_decision) prog"
where
  "run_hook_chain env bus key payload =
     (let entries = dget_or bus key [] in
      if entries = [] then ret (proceed (JStr []))
      else let ev = (case hook_event_of key of Some e \<Rightarrow> e | None \<Rightarrow> NOTIFICATION) in
        bind_s (chain_run env ev (map snd entries) payload) (\<lambda>(d, _). ret d))"

section \<open>Registry\<close>

text \<open>A row of the \<open>hook_overrides\<close> table; \<open>hr_merged\<close> is what the last reload built.\<close>

record hook_override =
  ov_hook_id :: string
  ov_event :: string
  ov_type :: string
  ov_tool_pattern :: "string option"
  ov_priority :: int
  ov_enabled :: bool
  ov_config :: json_obj

record hook_registry =
  hr_manifest :: "(string, hook_handler) dict"
  hr_merged :: "(hook_event, hook_handler list) dict"

definition add_manifest_hook :: "hook_handler \<Rightarrow> hook_registry \<Rightarrow> hook_registry" where
  "add_manifest_hook h r = r\<lparr>hr_manifest := dset (hh_name h) h (hr_manifest r)\<rparr>"

definition remove_manifest_hooks_by_source :: "string \<Rightarrow> hook_registry \<Rightarrow> hook_registry" where
  "remove_manifest_hooks_by_source plugin r =
     r\<lparr>hr_manifest := filter (\<lambda>(name, _). \<not> startswith name (plugin @ '':'')) (hr_manifest r)\<rparr>"

text \<open>\<open>float(x)\<close> on a JSON value.\<close>

fun py_float :: "hook_env \<Rightarrow> json \<Rightarrow> exn + real" where
  "py_float env (JInt i) = Inr (of_int i)"
| "py_float env (JFloat x) = Inr x"
| "py_float env (JBool b) = Inr (of_bool b)"
| "py_float env (JStr s) =
     (case he_read_float env s of Some x \<Rightarrow> Inr x | None \<Rightarrow> Inl (ValueError (''could not convert string to float: '' @ quoted s)))"
| "py_float env _ = Inl (TypeError ''float() argument must be a string or a real number'')"

definition apply_override :: "hook_env \<Rightarrow> hook_handler \<Rightarrow> hook_override \<Rightarrow> exn + hook_handler" where
  "apply_override env h ov =
     (let h1 = h\<lparr>hh_priority := ov_priority ov\<rparr>;
          h2 = (case ov_tool_pattern ov of None \<Rightarrow> h1 | Some p \<Rightarrow> h1\<lparr>hh_tool_pattern := Some p\<rparr>) in
      case dget_or (ov_config ov) ''timeout_sec'' JNull of
        JNull \<Rightarrow> Inr h2
      | t \<Rightarrow> bind_res (py_float env t) (\<lambda>x. Inr (h2\<lparr>hh_timeout := x\<rparr>)))"

definition override_hook :: "hook_override \<Rightarrow> hook_event \<Rightarrow> json \<Rightarrow> real \<Rightarrow> hook_body \<Rightarrow> hook_handler" where
  "override_hook ov ev cond timeout body =
     \<lparr>hh_name = ov_hook_id ov, hh_event = ev, hh_priority = ov_priority ov, hh_tool_pattern = ov_tool_pattern ov,
      hh_timeout = timeout, hh_condition = cond, hh_body = body\<rparr>"

text \<open>\<open>_build_from_override\<close>: \<open>None\<close> for a row that describes no hook.\<close>

definition build_from_override :: "hook_env \<Rightarrow> hook_override \<Rightarrow> hook_event \<Rightarrow> exn + hook_handler option" where
  "build_from_override env ov ev =
     (let cfg = ov_config ov; get = dget_or cfg;
          cond = (if truthy (get ''if'' JNull) then get ''if'' JNull else get ''if_condition'' JNull);
          hook = (\<lambda>default body. bind_res (py_float env (get ''timeout_sec'' (JFloat default)))
            (\<lambda>t. bind_res body (\<lambda>b. Inr (Some (override_hook ov ev cond t b))))) in
      if ov_type ov = ''shell'' then
        if \<not> truthy (get ''command'' (JStr [])) then Inr None
        else hook 10 (Inr (ShellBody (get ''command'' (JStr [])) (get ''shell'' (JStr ''auto''))))
      else if ov_type ov = ''prompt'' then
        if \<not> truthy (get ''prompt'' (JStr [])) then Inr None
        else hook 15 (Inr (PromptBody (get ''prompt'' (JStr [])) (get ''provider'' JNull) (get ''model'' JNull)
          (get ''api_key'' JNull) (get ''endpoint'' JNull)))
      else if ov_type ov = ''agent'' then
        if \<not> truthy (get ''prompt'' (JStr [])) then Inr None
        else hook 30 (bind_res (py_int (get ''max_turns'' (JInt 3))) (\<lambda>n.
          Inr (AgentBody (get ''prompt'' (JStr [])) n (get ''provider'' JNull) (get ''model'' JNull)
            (get ''allowed_tools'' (JStr ''readonly'')))))
      else if ov_type ov = ''http'' then
        if \<not> truthy (get ''url'' (JStr [])) then Inr None
        else hook 10 (Inr (HttpBody (get ''url'' (JStr [])) (get ''headers'' (JObj [])) (get ''method'' (JStr ''POST''))
          (get ''allow_http'' (JBool False)) (get ''allowed_hosts'' JNull)))
      else Inr None)"

type_synonym merged_hooks = "(hook_event, hook_handler list) dict"

definition add_merged :: "hook_event \<Rightarrow> hook_handler \<Rightarrow> merged_hooks \<Rightarrow> merged_hooks" where
  "add_merged ev h m = dset ev (dget_or m ev [] @ [h]) m"

fun merge_manifest ::
  "hook_env \<Rightarrow> (string, hook_override) dict \<Rightarrow> (string, hook_handler) dict \<Rightarrow> merged_hooks \<Rightarrow> exn + merged_hooks"
where
  "merge_manifest env by_name [] m = Inr m"
| "merge_manifest env by_name ((name, h) # hs) m =
     (case dget by_name name of
        None \<Rightarrow> merge_manifest env by_name hs (add_merged (hh_event h) h m)
      | Some ov \<Rightarrow>
          if \<not> ov_enabled ov then merge_manifest env by_name hs m
          else bind_res (apply_override env h ov) (\<lambda>h'. merge_manifest env by_name hs (add_merged (hh_event h) h' m)))"

fun merge_overrides ::
  "hook_env \<Rightarrow> (string, hook_handler) dict \<Rightarrow> hook_override list \<Rightarrow> merged_hooks \<Rightarrow> exn + merged_hooks"
where
  "merge_overrides env manifest [] m = Inr m"
| "merge_overrides env manifest (ov # ovs) m =
     (if ov_hook_id ov \<in> set (dkeys manifest) \<or> \<not> ov_enabled ov then merge_overrides env manifest ovs m
      else case hook_event_of (ov_event ov) of
        None \<Rightarrow> merge_overrides env manifest ovs m
      | Some ev \<Rightarrow>
          bind_res (build_from_override env ov ev) (\<lambda>built.
            merge_overrides env manifest ovs (case built of None \<Rightarrow> m | Some h \<Rightarrow> add_merged ev h m)))"

text \<open>\<open>reload\<close>: the rows of the table, or \<open>None\<close> when they cannot be read. An exception leaves the registry as it was.\<close>

definition registry_reload :: "hook_env \<Rightarrow> hook_override list option \<Rightarrow> (hook_registry, unit) prog" where
  "registry_reload env rows =
     (let overrides = (case rows of None \<Rightarrow> [] | Some ovs \<Rightarrow> ovs) in
      bind_s get_s (\<lambda>r.
      bind_s (lift_res (merge_manifest env (dmerge [] (map (\<lambda>ov. (ov_hook_id ov, ov)) overrides)) (hr_manifest r) [])) (\<lambda>m1.
      bind_s (lift_res (merge_overrides env (hr_manifest r) overrides m1)) (\<lambda>m2.
        modify_s (\<lambda>r. r\<lparr>hr_merged := m2\<rparr>)))))"

definition build_chain :: "hook_event \<Rightarrow> hook_registry \<Rightarrow> hook_handler list" where
  "build_chain ev r = dget_or (hr_merged r) ev []"

section \<open>What a chain may answer\<close>

lemmas chain_simps = bind_s_def ret_def lift_res_def modify_s_def Let_def

text \<open>The decisions a chain for the event may give, with the payload at that moment.\<close>

definition allowed_decision :: "hook_event \<Rightarrow> hook_decision \<Rightarrow> hook_payload \<Rightarrow> bool" where
  "allowed_decision ev d payload =
     (case hd_kind d of
        PROCEED \<Rightarrow> True
      | BLOCK \<Rightarrow> is_blockable ev
      | MODIFY \<Rightarrow> is_mutable ev \<and> hd_patch d \<noteq> []
      | REPLY \<Rightarrow> allows_reply ev
      | REROUTE \<Rightarrow> may_reroute ev payload (hd_target d))"

text \<open>One step of the loop, as a case distinction.\<close>

definition decisive :: "hook_event \<Rightarrow> hook_decision \<Rightarrow> hook_payload \<Rightarrow> bool" where
  "decisive ev d payload =
     (case hd_kind d of
        BLOCK \<Rightarrow> is_blockable ev
      | REPLY \<Rightarrow> allows_reply ev
      | REROUTE \<Rightarrow> may_reroute ev payload (hd_target d)
      | _ \<Rightarrow> False)"

definition patch_of :: "hook_event \<Rightarrow> hook_decision \<Rightarrow> json_obj" where
  "patch_of ev d = (if hd_kind d = MODIFY \<and> is_mutable ev then hd_patch d else [])"

lemma chain_loop_Cons:
  "chain_loop env ev (h # hs) patch contexts payload tb =
     (case matches_condition (hh_condition h) payload of
        Inl e \<Rightarrow> (Inl e, tb)
      | Inr False \<Rightarrow> chain_loop env ev hs patch contexts payload tb
      | Inr True \<Rightarrow>
          let (d, payload') = run_handler env h payload; tb' = trace_record (trace_of env ev h payload d) tb in
          if decisive ev d payload' then (Inr (d, payload'), tb')
          else chain_loop env ev hs (dmerge patch (patch_of ev d))
            (if truthy (hd_context d) then contexts @ [hd_context d] else contexts)
            (payload'\<lparr>hp_data := dmerge (hp_data payload') (patch_of ev d)\<rparr>) tb')"
  by (simp add: chain_simps decisive_def patch_of_def split: sum.split bool.split prod.split decision_kind.split)

lemmas chain_cases = chain_loop_Cons [unfolded Let_def]

declare chain_loop.simps(2) [simp del]

lemma chain_loop_allowed:
  "chain_loop env ev hs patch contexts payload tb = (Inr (d, payload'), tb') \<Longrightarrow> patch \<noteq> [] \<longrightarrow> is_mutable ev
     \<Longrightarrow> allowed_decision ev d payload'"
proof (induction hs arbitrary: patch contexts payload tb)
  case Nil
  then show ?case
    by (auto simp: chain_simps final_decision_def bind_res_def allowed_decision_def modify_decision_def proceed_def
        plain_decision_def split: sum.splits if_splits)
next
  case (Cons h hs)
  have "dmerge patch (patch_of ev d) \<noteq> [] \<longrightarrow> is_mutable ev" for d
    using Cons.prems(2) by (auto simp: patch_of_def)
  then show ?case using Cons.prems(1) Cons.IH Cons.prems(2) unfolding chain_cases
    by (auto simp: decisive_def allowed_decision_def split: sum.splits bool.splits prod.splits if_splits decision_kind.splits)
qed

text \<open>
  C9. What a hook chain answers is allowed by the policy of its event, whatever its handlers do: it blocks only a
  blockable event, answers or reroutes only where that is allowed, a reroute is less than three deep and goes to
  a target not visited yet, and a modification carries a patch and happens only on a mutable event.
\<close>

theorem chain_respects_policy:
  assumes "chain_run env ev hs payload tb = (Inr (d, payload'), tb')"
  shows "allowed_decision ev d payload'"
  using assms unfolding chain_run_def by (rule chain_loop_allowed) simp

section \<open>Failing closed\<close>

text \<open>A hook that fails on every payload: it times out, raises, or its process exits with an error.\<close>

definition fails :: "hook_env \<Rightarrow> hook_handler \<Rightarrow> bool" where
  "fails env h \<longleftrightarrow>
     (case hh_body h of
        PythonBody f \<Rightarrow> (\<forall>p. fst (f p) = PyTimeout \<or> (\<exists>e. fst (f p) = PyRaised e))
      | ShellBody c sh \<Rightarrow> (\<forall>p. he_shell env h p = ShTimeout \<or> (\<exists>e. he_shell env h p = ShRaised e)
          \<or> (\<exists>code out err. he_shell env h p = ShExit code out err \<and> code \<noteq> 0))
      | _ \<Rightarrow> False)"

lemma failure_decision_kind: "hd_kind (failure_decision ev reason) = (if is_blockable ev then BLOCK else PROCEED)"
  by (simp add: failure_decision_def block_def proceed_def plain_decision_def)

lemma fails_blocks:
  "fails env h \<Longrightarrow> is_blockable (hh_event h) \<Longrightarrow> hd_kind (fst (run_handler env h payload)) = BLOCK"
proof (cases "hh_body h")
  case (PythonBody f)
  assume a: "fails env h" "is_blockable (hh_event h)"
  obtain out p' where f: "f payload = (out, p')" by (cases "f payload")
  have "fst (f payload) = PyTimeout \<or> (\<exists>e. fst (f payload) = PyRaised e)"
    using a(1) unfolding fails_def PythonBody hook_body.case by (rule spec)
  then have "out = PyTimeout \<or> (\<exists>e. out = PyRaised e)" unfolding f by simp
  then show ?thesis using a(2)
    by (auto simp: run_handler_def PythonBody f python_run_def failure_decision_kind)
next
  case (ShellBody c sh)
  assume a: "fails env h" "is_blockable (hh_event h)"
  then have "he_shell env h payload = ShTimeout \<or> (\<exists>e. he_shell env h payload = ShRaised e)
      \<or> (\<exists>code out err. he_shell env h payload = ShExit code out err \<and> code \<noteq> 0)"
    unfolding fails_def ShellBody hook_body.case by blast
  then show ?thesis using a(2)
    by (elim disjE exE conjE) (simp_all add: run_handler_def ShellBody shell_run_def failure_decision_kind Let_def)
qed (simp_all add: fails_def)

lemma chain_loop_blocking:
  assumes "chain_loop env ev hs patch contexts payload tb = (Inr (d, payload'), tb')"
    and "h \<in> set hs" and "hh_condition h = JNull" and "is_blockable ev"
    and "\<And>p. hd_kind (fst (run_handler env h p)) = BLOCK"
    and "sorted (map (\<lambda>h. - hh_priority h) hs)"
  shows "hd_kind d \<in> {BLOCK, REPLY, REROUTE}
    \<and> (\<exists>h' p. h' \<in> set hs \<and> hh_priority h \<le> hh_priority h' \<and> d = fst (run_handler env h' p))"
  using assms(1,2,6)
proof (induction hs arbitrary: patch contexts payload tb)
  case (Cons g hs)
  have prio: "hh_priority h \<le> hh_priority g" using Cons.prems(2,3) by auto
  show ?case
  proof (cases "g = h")
    case True
    then have "decisive ev (fst (run_handler env g payload)) p" for p
      using assms(4,5) by (simp add: decisive_def)
    then have "d = fst (run_handler env h payload)" using Cons.prems(1) True assms(3) unfolding chain_cases
      by (simp add: case_prod_beta)
    then show ?thesis using assms(5) True prio by auto
  next
    case False
    then have in_hs: "h \<in> set hs" and sorted: "sorted (map (\<lambda>h. - hh_priority h) hs)" using Cons.prems(2,3) by auto
    show ?thesis
    proof (cases "d = fst (run_handler env g payload) \<and> decisive ev d payload'")
      case True
      then show ?thesis using prio by (auto simp: decisive_def split: decision_kind.splits)
    next
      case False
      then obtain patch' contexts' payload1 tb1 where
        "chain_loop env ev hs patch' contexts' payload1 tb1 = (Inr (d, payload'), tb')"
        using Cons.prems(1) unfolding chain_cases
        by (auto simp: case_prod_beta split: sum.splits bool.splits if_splits)
      from Cons.IH [OF this in_hs sorted] show ?thesis by auto
    qed
  qed
qed simp

text \<open>
  A failing hook fails closed. When an unconditional hook of a blockable event times out, raises or exits with
  an error, the chain never lets the event pass: it raises, or it blocks, or a hook of at least the same priority
  has answered or rerouted the event before.
\<close>

theorem failing_hook_fails_closed:
  assumes "h \<in> set hs" and "fails env h" and "hh_condition h = JNull" and "hh_event h = ev" and "is_blockable ev"
  shows "(\<exists>e. fst (chain_run env ev hs payload tb) = Inl e)
    \<or> (\<exists>d payload'. fst (chain_run env ev hs payload tb) = Inr (d, payload') \<and> hd_kind d \<in> {BLOCK, REPLY, REROUTE}
         \<and> (\<exists>h' p. h' \<in> set hs \<and> hh_priority h \<le> hh_priority h' \<and> d = fst (run_handler env h' p)))"
proof (cases "chain_run env ev hs payload tb")
  case (Pair r tb')
  show ?thesis
  proof (cases r)
    case (Inr x)
    obtain d payload' where x: "x = (d, payload')" by (cases x)
    have "chain_loop env ev (sorted_handlers hs) [] [] payload tb = (Inr (d, payload'), tb')"
      using Pair Inr x by (simp add: chain_run_def)
    moreover have "h \<in> set (sorted_handlers hs)" using assms(1) by (simp add: sorted_handlers_def)
    moreover have "hd_kind (fst (run_handler env h p)) = BLOCK" for p using fails_blocks assms(2,4,5) by simp
    moreover have "sorted (map (\<lambda>h. - hh_priority h) (sorted_handlers hs))" by (simp add: sorted_handlers_def)
    ultimately have "hd_kind d \<in> {BLOCK, REPLY, REROUTE}
        \<and> (\<exists>h' p. h' \<in> set (sorted_handlers hs) \<and> hh_priority h \<le> hh_priority h' \<and> d = fst (run_handler env h' p))"
      by (intro chain_loop_blocking [OF _ _ assms(3,5)])
    then show ?thesis using Pair Inr x by (auto simp: sorted_handlers_def)
  qed (simp add: Pair)
qed

section \<open>Modifications reach the payload\<close>

definition patched :: "json_obj \<Rightarrow> json_obj \<Rightarrow> string \<Rightarrow> json option" where
  "patched base patch k = (case dget patch k of Some v \<Rightarrow> Some v | None \<Rightarrow> dget base k)"

lemma distinct_dmerge: "distinct (dkeys d) \<Longrightarrow> distinct (dkeys (dmerge d e))"
  by (induction e arbitrary: d) auto

lemma chain_loop_payload:
  assumes "chain_loop env ev hs patch contexts payload tb = (Inr (d, payload'), tb')"
    and "hd_kind d \<in> {PROCEED, MODIFY}"
    and "\<And>h p. h \<in> set hs \<Longrightarrow> snd (run_handler env h p) = p"
    and "\<And>h p. h \<in> set hs \<Longrightarrow> distinct (dkeys (hd_patch (fst (run_handler env h p))))"
    and "distinct (dkeys patch)"
    and "\<forall>k. dget (hp_data payload) k = patched base patch k"
  shows "\<forall>k. dget (hp_data payload') k = patched base (hd_patch d) k"
  using assms(1,3-6)
proof (induction hs arbitrary: patch contexts payload tb)
  case Nil
  then show ?case
    by (auto simp: chain_simps final_decision_def bind_res_def modify_decision_def proceed_def plain_decision_def
        split: sum.splits if_splits)
next
  case (Cons h hs)
  obtain d1 where run: "run_handler env h payload = (d1, payload)"
    using Cons.prems(2) [of h payload] by (cases "run_handler env h payload") simp
  have dist: "distinct (dkeys (patch_of ev d1))" using Cons.prems(3) [of h payload] by (simp add: run patch_of_def)
  let ?payload = "payload\<lparr>hp_data := dmerge (hp_data payload) (patch_of ev d1)\<rparr>"
  have inv: "\<forall>k. dget (hp_data ?payload) k = patched base (dmerge patch (patch_of ev d1)) k"
    using Cons.prems(5) dist by (simp add: dget_dmerge_distinct patched_def split: option.split)
  have nd: "\<not> decisive ev d1 payload" if "d = d1"
    using assms(2) that by (auto simp: decisive_def)
  show ?case
  proof (cases "matches_condition (hh_condition h) payload = Inr True")
    case True
    then obtain contexts1 tb1 where
      "chain_loop env ev hs (dmerge patch (patch_of ev d1)) contexts1 ?payload tb1 = (Inr (d, payload'), tb')"
      using Cons.prems(1) nd unfolding chain_cases by (auto simp: run split: if_splits)
    then show ?thesis
      using Cons.IH [OF _ _ _ distinct_dmerge [OF Cons.prems(4)] inv] Cons.prems(2,3) by simp
  next
    case False
    then have "chain_loop env ev hs patch contexts payload tb = (Inr (d, payload'), tb')"
      using Cons.prems(1) unfolding chain_cases by (auto split: sum.splits bool.splits)
    then show ?thesis using Cons.IH Cons.prems(2-5) by simp
  qed
qed

text \<open>
  When a chain lets an event pass, its answer and the payload agree: for hooks that do not change the payload
  themselves, the data of the payload afterwards are the data before with the patch of the answer applied, the
  patch that the caller is given. In particular a chain that answers with no patch leaves the data alone.
\<close>

theorem chain_patch_reaches_payload:
  assumes "chain_run env ev hs payload tb = (Inr (d, payload'), tb')" and "hd_kind d \<in> {PROCEED, MODIFY}"
    and "\<And>h p. h \<in> set hs \<Longrightarrow> snd (run_handler env h p) = p"
    and "\<And>h p. h \<in> set hs \<Longrightarrow> distinct (dkeys (hd_patch (fst (run_handler env h p))))"
  shows "dget (hp_data payload') k = (case dget (hd_patch d) k of Some v \<Rightarrow> Some v | None \<Rightarrow> dget (hp_data payload) k)"
proof -
  have "\<forall>k. dget (hp_data payload') k = patched (hp_data payload) (hd_patch d) k"
    using assms(1) unfolding chain_run_def
    by (rule chain_loop_payload [OF _ assms(2)]) (auto simp: sorted_handlers_def assms(3,4) patched_def)
  then show ?thesis by (simp add: patched_def)
qed

section \<open>What a reload builds\<close>

text \<open>The hooks that a plugin's hook and a row of the table stand for.\<close>

definition effective_hooks :: "hook_env \<Rightarrow> (string, hook_override) dict \<Rightarrow> string \<times> hook_handler \<Rightarrow> hook_handler list" where
  "effective_hooks env by_name m =
     (case dget by_name (fst m) of
        None \<Rightarrow> [snd m]
      | Some ov \<Rightarrow> if ov_enabled ov then (case apply_override env (snd m) ov of Inr h \<Rightarrow> [h] | Inl _ \<Rightarrow> []) else [])"

definition own_hooks :: "hook_env \<Rightarrow> (string, hook_handler) dict \<Rightarrow> hook_override \<Rightarrow> hook_handler list" where
  "own_hooks env manifest ov =
     (if dget manifest (ov_hook_id ov) \<noteq> None \<or> \<not> ov_enabled ov then []
      else case hook_event_of (ov_event ov) of
        None \<Rightarrow> []
      | Some ev \<Rightarrow> (case build_from_override env ov ev of Inr (Some h) \<Rightarrow> [h] | _ \<Rightarrow> []))"

lemma apply_override_event: "apply_override env h ov = Inr h' \<Longrightarrow> hh_event h' = hh_event h"
  by (auto simp: apply_override_def Let_def bind_res_def split: option.splits json.splits sum.splits)

lemma build_from_override_event: "build_from_override env ov ev = Inr (Some h) \<Longrightarrow> hh_event h = ev"
  by (auto simp: build_from_override_def Let_def bind_res_eq_Inr override_hook_def split: if_splits)

lemma add_merged_get: "dget_or (add_merged ev h m) ev' [] = dget_or m ev' [] @ (if ev' = ev then [h] else [])"
  by (simp add: add_merged_def)

lemma merge_manifest_chain:
  "merge_manifest env by_name hs m = Inr m' \<Longrightarrow>
     dget_or m' ev [] = dget_or m ev [] @ filter (\<lambda>h. hh_event h = ev) (concat (map (effective_hooks env by_name) hs))"
proof (induction env by_name hs m arbitrary: m' rule: merge_manifest.induct)
  case (2 env by_name name h hs m)
  show ?case
  proof (cases "dget by_name name")
    case None
    with 2 show ?thesis by (simp add: effective_hooks_def add_merged_get)
  next
    case (Some ov)
    show ?thesis
    proof (cases "ov_enabled ov")
      case True
      with 2 Some obtain h' where h': "apply_override env h ov = Inr h'"
        and rec: "merge_manifest env by_name hs (add_merged (hh_event h) h' m) = Inr m'"
        by (auto simp: bind_res_eq_Inr)
      from 2(3) [OF Some _ rec] True h' Some apply_override_event [OF h'] show ?thesis
        by (simp add: effective_hooks_def add_merged_get)
    next
      case False
      with 2 Some show ?thesis by (simp add: effective_hooks_def)
    qed
  qed
qed simp

lemma merge_overrides_chain:
  "merge_overrides env manifest ovs m = Inr m' \<Longrightarrow>
     dget_or m' ev [] = dget_or m ev [] @ filter (\<lambda>h. hh_event h = ev) (concat (map (own_hooks env manifest) ovs))"
proof (induction env manifest ovs m arbitrary: m' rule: merge_overrides.induct)
  case (2 env manifest ov ovs m)
  show ?case
  proof (cases "ov_hook_id ov \<in> set (dkeys manifest) \<or> \<not> ov_enabled ov")
    case True
    then have "own_hooks env manifest ov = []" by (auto simp: own_hooks_def dget_None_iff)
    then show ?thesis using 2 True by simp
  next
    case False
    then have none: "dget manifest (ov_hook_id ov) = None" by (simp add: dget_None_iff)
    show ?thesis
    proof (cases "hook_event_of (ov_event ov)")
      case None
      then show ?thesis using 2 False none by (simp add: own_hooks_def)
    next
      case (Some e)
      then obtain built where b: "build_from_override env ov e = Inr built"
        and rec: "merge_overrides env manifest ovs (case built of None \<Rightarrow> m | Some h \<Rightarrow> add_merged e h m) = Inr m'"
        using 2(4) False by (auto simp: bind_res_eq_Inr)
      have "own_hooks env manifest ov = (case built of None \<Rightarrow> [] | Some h \<Rightarrow> [h])"
        using False none Some b by (simp add: own_hooks_def split: option.split)
      then show ?thesis using 2(3) [OF False Some rec] b build_from_override_event
        by (cases built) (auto simp: add_merged_get)
    qed
  qed
qed simp

text \<open>
  After a reload the chain of each event holds exactly the hooks it should, in order: for every hook of a
  plugin its effective version (itself without a row in the table, nothing when its row is disabled, and
  otherwise the hook with the priority, pattern and time limit of the row), then the hooks of the enabled rows
  that belong to no plugin's hook. When the table cannot be read the plugins' hooks run as they are, the disabled
  ones too; and a row with an unreadable number leaves the whole registry as it was.
\<close>

theorem reload_builds_chains:
  "(\<forall>r'. registry_reload env rows r = (Inr (), r') \<longrightarrow>
      hr_manifest r' = hr_manifest r
      \<and> build_chain ev r' = filter (\<lambda>h. hh_event h = ev)
          (concat (map (effective_hooks env (dmerge [] (map (\<lambda>ov. (ov_hook_id ov, ov)) (case rows of None \<Rightarrow> [] | Some ovs \<Rightarrow> ovs))))
             (hr_manifest r))
           @ concat (map (own_hooks env (hr_manifest r)) (case rows of None \<Rightarrow> [] | Some ovs \<Rightarrow> ovs))))
   \<and> (rows = None \<longrightarrow> build_chain ev (snd (registry_reload env rows r)) = filter (\<lambda>h. hh_event h = ev) (map snd (hr_manifest r)))
   \<and> (\<forall>e r'. registry_reload env rows r = (Inl e, r') \<longrightarrow> r' = r)"
proof -
  let ?ovs = "case rows of None \<Rightarrow> [] | Some ovs \<Rightarrow> ovs"
  let ?by = "dmerge [] (map (\<lambda>ov. (ov_hook_id ov, ov)) ?ovs)"
  have spec: "hr_manifest r' = hr_manifest r \<and> build_chain ev r' = filter (\<lambda>h. hh_event h = ev)
      (concat (map (effective_hooks env ?by) (hr_manifest r)) @ concat (map (own_hooks env (hr_manifest r)) ?ovs))"
    if run: "registry_reload env rows r = (Inr (), r')" for r'
  proof -
    from run obtain m1 m2 where m: "merge_manifest env ?by (hr_manifest r) [] = Inr m1"
      "merge_overrides env (hr_manifest r) ?ovs m1 = Inr m2" "r' = r\<lparr>hr_merged := m2\<rparr>"
      by (auto simp: registry_reload_def run_defs Let_def split: sum.splits)
    from merge_manifest_chain [OF m(1), of ev] merge_overrides_chain [OF m(2), of ev] m(3) show ?thesis
      by (simp add: build_chain_def dget_or_def)
  qed
  have total_manifest: "\<exists>m'. merge_manifest env [] hs m = Inr m'" for hs m
    by (induction hs arbitrary: m) auto
  have ex: "\<exists>r'. registry_reload env None r = (Inr (), r')"
    using total_manifest [of "hr_manifest r" "[]"] by (auto simp: registry_reload_def run_defs Let_def)
  have fallback: "build_chain ev (snd (registry_reload env rows r)) = filter (\<lambda>h. hh_event h = ev) (map snd (hr_manifest r))"
    if none: "rows = None"
  proof -
    obtain r' where r': "registry_reload env rows r = (Inr (), r')" using ex unfolding none by blast
    have "concat (map (effective_hooks env []) ms) = map snd ms" for ms
      by (induction ms) (simp_all add: effective_hooks_def)
    then show ?thesis using spec [OF r'] r' none by simp
  qed
  have "r' = r" if "registry_reload env rows r = (Inl e, r')" for e r'
    using that by (auto simp: registry_reload_def run_defs Let_def split: sum.splits)
  then show ?thesis using spec fallback by blast
qed

section \<open>Examples\<close>

definition demo_env :: hook_env where
  "demo_env = \<lparr>he_shell = (\<lambda>h p. ShExit 2 [] ''no''), he_loads = (\<lambda>s. None), he_other = (\<lambda>h p. proceed (JStr [])),
     he_float_str = (\<lambda>x. ''1.0''), he_read_float = (\<lambda>s. None), he_clock = (\<lambda>h p. (0, 0))\<rparr>"

definition demo_hook :: "string \<Rightarrow> int \<Rightarrow> hook_body \<Rightarrow> hook_handler" where
  "demo_hook name prio body = \<lparr>hh_name = name, hh_event = PRE_TOOL_USE, hh_priority = prio, hh_tool_pattern = None,
     hh_timeout = 1, hh_condition = JNull, hh_body = body\<rparr>"

definition rename_hook :: hook_handler where
  "rename_hook = demo_hook ''rename'' 1 (PythonBody (\<lambda>p. (PyDecision (modify_decision [(''args'', JStr ''b'')]), p)))"

definition guard_hook :: hook_handler where
  "guard_hook = demo_hook ''guard'' 0 (ShellBody (JStr ''false'') (JStr ''sh''))"

definition demo_payload :: hook_payload where
  "demo_payload = \<lparr>hp_event = PRE_TOOL_USE, hp_data = [(''args'', JStr ''a''), (''x'', JNull)], hp_depth = 0, hp_visited = {},
     hp_session_id = [], hp_trace_id = []\<rparr>"

lemmas demo_hook_defs = demo_env_def demo_hook_def rename_hook_def guard_hook_def demo_payload_def

lemma demo_modify:
  "\<exists>d p tb'. chain_run demo_env PRE_TOOL_USE [rename_hook] demo_payload tb = (Inr (d, p), tb')
     \<and> hd_kind d = MODIFY \<and> dget (hd_patch d) ''args'' = Some (JStr ''b'') \<and> dget (hd_patch d) ''x'' = None"
  by (simp add: chain_run_def sorted_handlers_def chain_cases demo_hook_defs run_handler_def python_run_def modify_decision_def
      plain_decision_def decisive_def patch_of_def is_mutable_def final_decision_def chain_simps)

theorem chain_respects_policy_witness:
  "\<exists>d p tb'. chain_run demo_env PRE_TOOL_USE [rename_hook] demo_payload new_trace_buffer = (Inr (d, p), tb')
     \<and> allowed_decision PRE_TOOL_USE d p"
proof -
  obtain d p tb' where "chain_run demo_env PRE_TOOL_USE [rename_hook] demo_payload new_trace_buffer = (Inr (d, p), tb')"
    using demo_modify [of new_trace_buffer] by blast
  with chain_respects_policy [OF this] show ?thesis by blast
qed

theorem failing_hook_fails_closed_witness:
  "fails demo_env guard_hook
    \<and> ((\<exists>e. fst (chain_run demo_env PRE_TOOL_USE [rename_hook, guard_hook] demo_payload new_trace_buffer) = Inl e)
       \<or> (\<exists>d p. fst (chain_run demo_env PRE_TOOL_USE [rename_hook, guard_hook] demo_payload new_trace_buffer) = Inr (d, p)
            \<and> hd_kind d \<in> {BLOCK, REPLY, REROUTE}))"
proof -
  have "fails demo_env guard_hook" by (simp add: fails_def demo_hook_defs)
  moreover from failing_hook_fails_closed [OF _ this, of "[rename_hook, guard_hook]" PRE_TOOL_USE demo_payload new_trace_buffer]
  have "(\<exists>e. fst (chain_run demo_env PRE_TOOL_USE [rename_hook, guard_hook] demo_payload new_trace_buffer) = Inl e)
    \<or> (\<exists>d p. fst (chain_run demo_env PRE_TOOL_USE [rename_hook, guard_hook] demo_payload new_trace_buffer) = Inr (d, p)
         \<and> hd_kind d \<in> {BLOCK, REPLY, REROUTE})"
    by (fastforce simp: guard_hook_def demo_hook_def is_blockable_def)
  ultimately show ?thesis ..
qed

theorem chain_patch_reaches_payload_witness:
  "\<exists>d p tb'. chain_run demo_env PRE_TOOL_USE [rename_hook] demo_payload new_trace_buffer = (Inr (d, p), tb')
     \<and> dget (hp_data p) ''args'' = Some (JStr ''b'') \<and> dget (hp_data p) ''x'' = Some JNull"
proof -
  obtain d p tb' where run: "chain_run demo_env PRE_TOOL_USE [rename_hook] demo_payload new_trace_buffer = (Inr (d, p), tb')"
    and d: "hd_kind d = MODIFY" "dget (hd_patch d) ''args'' = Some (JStr ''b'')" "dget (hd_patch d) ''x'' = None"
    using demo_modify [of new_trace_buffer] by blast
  have "dget (hp_data p) k = (case dget (hd_patch d) k of Some v \<Rightarrow> Some v | None \<Rightarrow> dget (hp_data demo_payload) k)" for k
    by (rule chain_patch_reaches_payload [OF run])
      (auto simp: d run_handler_def demo_hook_defs python_run_def modify_decision_def plain_decision_def)
  with run d show ?thesis by (auto simp: demo_payload_def)
qed

theorem reload_builds_chains_witness:
  "hr_merged (snd (registry_reload demo_env (Some [\<lparr>ov_hook_id = ''guard'', ov_event = ''pre_tool_use'', ov_type = ''shell'',
      ov_tool_pattern = None, ov_priority = 7, ov_enabled = True, ov_config = [(''timeout_sec'', JList [])]\<rparr>])
      \<lparr>hr_manifest = [(''guard'', guard_hook)], hr_merged = []\<rparr>)) = []"
proof -
  let ?r = "\<lparr>hr_manifest = [(''guard'', guard_hook)], hr_merged = []\<rparr>"
  let ?rows = "Some [\<lparr>ov_hook_id = ''guard'', ov_event = ''pre_tool_use'', ov_type = ''shell'',
      ov_tool_pattern = None, ov_priority = 7, ov_enabled = True, ov_config = [(''timeout_sec'', JList [])]\<rparr>]"
  have "\<exists>e r'. registry_reload demo_env ?rows ?r = (Inl e, r')"
    by (simp add: registry_reload_def run_defs Let_def apply_override_def dget_or_def)
  then show ?thesis using reload_builds_chains [of demo_env ?rows ?r] by fastforce
qed

end
