(* ===== verification/Safety.thy ===== *)
theory Safety
  imports Prelude
begin

text \<open>
  The safety guard (\<open>src/src/breadmind/core/safety.py\<close>): which tool calls are allowed, denied or need approval,
  the operations that change its rules, and the cooldown of repeated actions. The clock is an argument.
\<close>

section \<open>Rules\<close>

datatype safety_result = ALLOW | DENY | REQUIRE_APPROVAL

fun safety_value :: "safety_result \<Rightarrow> string" where
  "safety_value ALLOW = ''ALLOWED''"
| "safety_value DENY = ''DENIED''"
| "safety_value REQUIRE_APPROVAL = ''REQUIRE_APPROVAL''"

record safety_guard =
  sg_blacklist :: "(string, string list) dict"
  sg_require :: "string set"
  sg_flat :: "string set"
  sg_cooldowns :: "(string, real) dict"
  sg_count :: nat
  sg_user_permissions :: "(string, string list) dict"
  sg_admins :: "string list"
  sg_policies :: "(string, (string, string list) dict) dict option"

definition flat_of :: "(string, string list) dict \<Rightarrow> string set" where
  "flat_of bl = \<Union> (set ` set (dvalues bl))"

definition new_guard ::
  "(string, string list) dict \<Rightarrow> string list \<Rightarrow> (string, string list) dict \<Rightarrow> string list \<Rightarrow> safety_guard"
where
  "new_guard bl require perms admins =
     \<lparr>sg_blacklist = bl, sg_require = set require, sg_flat = flat_of bl, sg_cooldowns = [], sg_count = 0,
      sg_user_permissions = perms, sg_admins = admins, sg_policies = None\<rparr>"

text \<open>The role policy of a distributed agent, when one is named and policies have been set.\<close>

definition policy_blocks :: "string option \<Rightarrow> string \<Rightarrow> safety_guard \<Rightarrow> bool" where
  "policy_blocks agent action g =
     (case agent of
        None \<Rightarrow> False
      | Some a \<Rightarrow> a \<noteq> [] \<and>
          (case sg_policies g of
             None \<Rightarrow> False
           | Some ps \<Rightarrow> action \<in> set (dget_or (dget_or ps a []) ''blocked'' [])))"

definition guard_check :: "string \<Rightarrow> string \<Rightarrow> string option \<Rightarrow> safety_guard \<Rightarrow> safety_result" where
  "guard_check action user agent g =
     (if policy_blocks agent action g then DENY
      else if user \<in> set (sg_admins g) then ALLOW
      else if sg_user_permissions g \<noteq> [] \<and>
          (case dget (sg_user_permissions g) user of
             None \<Rightarrow> True
           | Some allowed \<Rightarrow> allowed \<noteq> [] \<and> action \<notin> set allowed) then DENY
      else if action \<in> sg_flat g then DENY
      else if action \<in> sg_require g then REQUIRE_APPROVAL
      else ALLOW)"

definition update_blacklist :: "(string, string list) dict \<Rightarrow> safety_guard \<Rightarrow> safety_guard" where
  "update_blacklist bl g = g\<lparr>sg_blacklist := bl, sg_flat := flat_of bl\<rparr>"

definition update_require_approval :: "string list \<Rightarrow> safety_guard \<Rightarrow> safety_guard" where
  "update_require_approval tools g = g\<lparr>sg_require := set tools\<rparr>"

definition update_user_permissions ::
  "(string, string list) dict \<Rightarrow> string list option \<Rightarrow> safety_guard \<Rightarrow> safety_guard"
where
  "update_user_permissions perms admins g =
     g\<lparr>sg_user_permissions := perms, sg_admins := (case admins of None \<Rightarrow> sg_admins g | Some a \<Rightarrow> a)\<rparr>"

text \<open>
  The payloads of \<open>reload\<close>: a blacklist by category (a category may be null) or flat; permissions with the two
  named parts, as a plain mapping, or as the list of administrators.
\<close>

datatype blacklist_payload = ByCategory "(string \<times> string list option) list" | FlatList "string list"

datatype permission_payload =
    NamedParts "(string, string list) dict option" "string list option"
  | RawMapping "(string, string list) dict"
  | AdminList "string list"

fun normalized_blacklist :: "blacklist_payload \<Rightarrow> (string, string list) dict" where
  "normalized_blacklist (ByCategory cs) = dmerge [] (map (\<lambda>(k, v). (k, case v of None \<Rightarrow> [] | Some ts \<Rightarrow> ts)) cs)"
| "normalized_blacklist (FlatList ts) = [(''default'', ts)]"

fun reload_permissions :: "permission_payload \<Rightarrow> safety_guard \<Rightarrow> safety_guard" where
  "reload_permissions (NamedParts perms admins) g =
     g\<lparr>sg_user_permissions := (case perms of None \<Rightarrow> [] | Some p \<Rightarrow> p),
       sg_admins := (case admins of None \<Rightarrow> sg_admins g | Some a \<Rightarrow> a)\<rparr>"
| "reload_permissions (RawMapping perms) g = g\<lparr>sg_user_permissions := perms\<rparr>"
| "reload_permissions (AdminList admins) g = g\<lparr>sg_admins := admins\<rparr>"

definition guard_reload ::
  "blacklist_payload option \<Rightarrow> string list option \<Rightarrow> permission_payload option \<Rightarrow> safety_guard \<Rightarrow> safety_guard"
where
  "guard_reload bl approval perms g =
     (let g1 = (case bl of None \<Rightarrow> g | Some p \<Rightarrow> update_blacklist (normalized_blacklist p) g);
          g2 = (case approval of None \<Rightarrow> g1 | Some ts \<Rightarrow> update_require_approval ts g1) in
      (case perms of None \<Rightarrow> g2 | Some p \<Rightarrow> reload_permissions p g2))"

definition merge_plugin_safety :: "string \<Rightarrow> string list \<Rightarrow> string list \<Rightarrow> safety_guard \<Rightarrow> safety_guard" where
  "merge_plugin_safety plugin require bl g =
     (let g1 = g\<lparr>sg_require := sg_require g \<union> set require\<rparr> in
      if bl \<noteq> [] then
        g1\<lparr>sg_blacklist := dset plugin (remdups (dget_or (sg_blacklist g) plugin [] @ bl)) (sg_blacklist g),
           sg_flat := sg_flat g \<union> set bl\<rparr>
      else g1)"

definition set_agent_policies :: "string \<Rightarrow> (string, string list) dict \<Rightarrow> safety_guard \<Rightarrow> safety_guard" where
  "set_agent_policies agent policies g =
     g\<lparr>sg_policies := Some (dset agent policies (case sg_policies g of None \<Rightarrow> [] | Some ps \<Rightarrow> ps))\<rparr>"

definition cleanup_expired_cooldowns :: "real \<Rightarrow> int \<Rightarrow> safety_guard \<Rightarrow> safety_guard" where
  "cleanup_expired_cooldowns now minutes g =
     g\<lparr>sg_cooldowns := filter (\<lambda>(_, t). now - t < of_int minutes * 60) (sg_cooldowns g)\<rparr>"

definition check_cooldown :: "real \<Rightarrow> string \<Rightarrow> string \<Rightarrow> int \<Rightarrow> safety_guard \<Rightarrow> bool \<times> safety_guard" where
  "check_cooldown now target action minutes g =
     (let g1 = g\<lparr>sg_count := sg_count g + 1\<rparr>;
          g2 = (if sg_count g1 mod 100 = 0 then cleanup_expired_cooldowns now minutes g1 else g1);
          key = target @ '':'' @ action in
      case dget (sg_cooldowns g2) key of
        Some t \<Rightarrow> if now - t < of_int minutes * 60 then (False, g2) else (True, g2\<lparr>sg_cooldowns := dset key now (sg_cooldowns g2)\<rparr>)
      | None \<Rightarrow> (True, g2\<lparr>sg_cooldowns := dset key now (sg_cooldowns g2)\<rparr>))"

section \<open>Invariant of the rules\<close>

text \<open>The flat set, which is what the check reads, always covers the blacklist by category.\<close>

datatype guard_op =
    UpdateBlacklist "(string, string list) dict"
  | UpdateApproval "string list"
  | UpdatePermissions "(string, string list) dict" "string list option"
  | Reload "blacklist_payload option" "string list option" "permission_payload option"
  | MergePlugin string "string list" "string list"
  | SetPolicies string "(string, string list) dict"
  | Cooldown real string string int

fun guard_step :: "guard_op \<Rightarrow> safety_guard \<Rightarrow> safety_guard" where
  "guard_step (UpdateBlacklist bl) = update_blacklist bl"
| "guard_step (UpdateApproval ts) = update_require_approval ts"
| "guard_step (UpdatePermissions p a) = update_user_permissions p a"
| "guard_step (Reload bl ap pm) = guard_reload bl ap pm"
| "guard_step (MergePlugin n r bl) = merge_plugin_safety n r bl"
| "guard_step (SetPolicies a p) = set_agent_policies a p"
| "guard_step (Cooldown now t a m) = (\<lambda>g. snd (check_cooldown now t a m g))"

definition flat_ok :: "safety_guard \<Rightarrow> bool" where
  "flat_ok g \<longleftrightarrow> distinct (dkeys (sg_blacklist g)) \<and> sg_flat g = flat_of (sg_blacklist g)"

fun op_ok :: "guard_op \<Rightarrow> bool" where
  "op_ok (UpdateBlacklist bl) = distinct (dkeys bl)"
| "op_ok _ = True"

lemma flat_of_dset:
  "distinct (dkeys bl) \<Longrightarrow> flat_of (dset k v bl) \<union> set (dget_or bl k []) = flat_of bl \<union> set v"
proof (induction bl)
  case (Cons p bl)
  obtain a w where p: "p = (a, w)" by (cases p)
  have "dget_or bl a [] = []" if "distinct (dkeys (p # bl))" using that p
    by (cases "dget bl a") (force simp: dget_or_def dest: map_of_SomeD)+
  with Cons p show ?case by (auto simp: flat_of_def dget_or_def)
qed (simp add: flat_of_def dget_or_def)

lemma dget_or_flat: "set (dget_or bl k []) \<subseteq> flat_of bl"
proof (cases "dget bl k")
  case (Some v)
  then have "v \<in> set (dvalues bl)" by (force dest: map_of_SomeD)
  then show ?thesis using Some by (auto simp: dget_or_def flat_of_def)
qed (simp add: dget_or_def)

lemma flat_of_dset_grow:
  assumes "distinct (dkeys bl)" and "set (dget_or bl k []) \<subseteq> set v"
  shows "flat_of (dset k v bl) = flat_of bl \<union> set v"
proof -
  have "set v \<subseteq> flat_of (dset k v bl)" using dget_or_flat [of "dset k v bl" k] by simp
  then show ?thesis using flat_of_dset [OF assms(1), of k v] assms(2) by auto
qed

lemma distinct_dmerge_keys: "distinct (dkeys d) \<Longrightarrow> distinct (dkeys (dmerge d e))"
  by (induction e arbitrary: d) auto

lemma flat_ok_step: "flat_ok g \<Longrightarrow> op_ok op \<Longrightarrow> flat_ok (guard_step op g)"
proof (cases op)
  case (MergePlugin n r bl)
  assume "flat_ok g"
  then show ?thesis
    by (auto simp: MergePlugin merge_plugin_safety_def flat_ok_def Let_def flat_of_dset_grow dest: subsetD [OF dget_or_flat])
next
  case (Reload bl ap pm)
  assume ok: "flat_ok g"
  have "distinct (dkeys (normalized_blacklist p))" for p
    by (cases p) (simp_all add: distinct_dmerge_keys)
  then show ?thesis using ok
    by (cases bl; cases ap; cases pm; (cases "the pm")?)
      (auto simp: Reload guard_reload_def Let_def update_blacklist_def update_require_approval_def flat_ok_def)
qed (auto simp: flat_ok_def update_blacklist_def update_require_approval_def update_user_permissions_def set_agent_policies_def
    check_cooldown_def cleanup_expired_cooldowns_def Let_def split: option.splits)

lemma flat_ok_run: "flat_ok g \<Longrightarrow> list_all op_ok ops \<Longrightarrow> flat_ok (fold guard_step ops g)"
  by (induction ops arbitrary: g) (simp_all add: flat_ok_step)

definition permitted :: "string \<Rightarrow> string \<Rightarrow> safety_guard \<Rightarrow> bool" where
  "permitted user action g \<longleftrightarrow> sg_user_permissions g = []
     \<or> (\<exists>allowed. dget (sg_user_permissions g) user = Some allowed \<and> (allowed = [] \<or> action \<in> set allowed))"

definition blacklisted :: "string \<Rightarrow> safety_guard \<Rightarrow> bool" where
  "blacklisted action g \<longleftrightarrow> (\<exists>c ts. (c, ts) \<in> set (sg_blacklist g) \<and> action \<in> set ts)"

text \<open>
  After any sequence of changes to the rules, the guard decides exactly as its rules say: an action of an agent
  whose policy blocks it is denied; otherwise an administrator may do anything; otherwise the action is allowed
  when the user's permissions cover it, no category of the blacklist lists it and it needs no approval, needs
  approval when only that last condition fails, and is denied in every other case.
\<close>

theorem guard_decides:
  assumes "distinct (dkeys bl)" and "list_all op_ok ops"
    and "g = fold guard_step ops (new_guard bl require perms admins)"
  shows "(guard_check action user agent g = DENY \<longleftrightarrow>
        policy_blocks agent action g
        \<or> (user \<notin> set (sg_admins g) \<and> (\<not> permitted user action g \<or> blacklisted action g)))
    \<and> (guard_check action user agent g = REQUIRE_APPROVAL \<longleftrightarrow>
        \<not> policy_blocks agent action g \<and> user \<notin> set (sg_admins g) \<and> permitted user action g
        \<and> \<not> blacklisted action g \<and> action \<in> sg_require g)"
proof -
  have "flat_ok (new_guard bl require perms admins)" using assms(1) by (simp add: flat_ok_def new_guard_def)
  then have "flat_ok g" unfolding assms(3) using assms(2) by (rule flat_ok_run)
  then have flat: "action \<in> sg_flat g \<longleftrightarrow> blacklisted action g"
    by (force simp: flat_ok_def flat_of_def blacklisted_def)
  have perm: "(sg_user_permissions g \<noteq> [] \<and>
      (case dget (sg_user_permissions g) user of None \<Rightarrow> True | Some allowed \<Rightarrow> allowed \<noteq> [] \<and> action \<notin> set allowed))
      \<longleftrightarrow> \<not> permitted user action g"
    by (auto simp: permitted_def split: option.splits)
  show ?thesis unfolding guard_check_def perm flat by auto
qed

theorem guard_decides_witness:
  "guard_check ''rm'' ''eve'' None (fold guard_step [MergePlugin ''fs'' [''cp''] [''rm'']] (new_guard [(''k8s'', [''drop''])] [] [] [])) = DENY"
proof -
  let ?g = "fold guard_step [MergePlugin ''fs'' [''cp''] [''rm'']] (new_guard [(''k8s'', [''drop''])] [] [] [])"
  have "(''fs'', [''rm'']) \<in> set (sg_blacklist ?g)" by (simp add: merge_plugin_safety_def new_guard_def Let_def dget_or_def)
  then have "blacklisted ''rm'' ?g" unfolding blacklisted_def
    by (intro exI [where x = "''fs''"] exI [where x = "[''rm'']"] conjI) (assumption, rule list.set_intros(1))
  moreover have "sg_admins ?g = []" by (simp add: merge_plugin_safety_def new_guard_def Let_def)
  ultimately show ?thesis
    using guard_decides [of "[(''k8s'', [''drop''])]" "[MergePlugin ''fs'' [''cp''] [''rm'']]" ?g "[]" "[]" "[]" "''rm''" "''eve''" None]
    by simp
qed

section \<open>Cooldowns\<close>

text \<open>A sequence of checks with one cooldown time; the log has the time and the key of each granted one.\<close>

type_synonym grant = "real \<times> string"

definition cool_step :: "int \<Rightarrow> real \<times> string \<times> string \<Rightarrow> safety_guard \<times> grant list \<Rightarrow> safety_guard \<times> grant list" where
  "cool_step m c s =
     (let (now, target, action) = c; (ok, g) = check_cooldown now target action m (fst s) in
      (g, if ok then snd s @ [(now, target @ '':'' @ action)] else snd s))"

definition spaced :: "int \<Rightarrow> grant list \<Rightarrow> bool" where
  "spaced m lg = sorted_wrt (\<lambda>x y. snd x = snd y \<longrightarrow> of_int m * 60 \<le> fst y - fst x) lg"

text \<open>Every granted key still has an entry at least as recent, unless its cooldown is over at the time \<open>now\<close>.\<close>

definition remembered :: "int \<Rightarrow> real \<Rightarrow> safety_guard \<times> grant list \<Rightarrow> bool" where
  "remembered m now s \<longleftrightarrow> (\<forall>x \<in> set (snd s).
     of_int m * 60 \<le> now - fst x \<or> (\<exists>t. dget (sg_cooldowns (fst s)) (snd x) = Some t \<and> fst x \<le> t))"

lemma remembered_later: "remembered m now s \<Longrightarrow> now \<le> now' \<Longrightarrow> remembered m now' s"
  by (fastforce simp: remembered_def)

lemma remembered_cleanup:
  assumes "remembered m now (g, lg)" and "distinct (dkeys (sg_cooldowns g))"
  shows "remembered m now (cleanup_expired_cooldowns now m g, lg)"
  unfolding remembered_def
proof
  fix x assume x: "x \<in> set (snd (cleanup_expired_cooldowns now m g, lg))"
  show "of_int m * 60 \<le> now - fst x
      \<or> (\<exists>t. dget (sg_cooldowns (fst (cleanup_expired_cooldowns now m g, lg))) (snd x) = Some t \<and> fst x \<le> t)"
  proof (cases "of_int m * 60 \<le> now - fst x")
    case False
    with assms(1) x obtain t where t: "dget (sg_cooldowns g) (snd x) = Some t" "fst x \<le> t"
      by (auto simp: remembered_def)
    then have "(snd x, t) \<in> set (filter (\<lambda>(_, t). now - t < of_int m * 60) (sg_cooldowns g))"
      using False by (auto dest: map_of_SomeD)
    moreover have "distinct (dkeys (filter (\<lambda>(_, t). now - t < of_int m * 60) (sg_cooldowns g)))"
      using assms(2) by (rule distinct_map_filter)
    ultimately have "dget (filter (\<lambda>(_, t). now - t < of_int m * 60) (sg_cooldowns g)) (snd x) = Some t" by simp
    then show ?thesis using t(2) by (auto simp: cleanup_expired_cooldowns_def)
  qed simp
qed

definition cool_inv :: "int \<Rightarrow> real \<Rightarrow> safety_guard \<times> grant list \<Rightarrow> bool" where
  "cool_inv m now s \<longleftrightarrow> distinct (dkeys (sg_cooldowns (fst s))) \<and> spaced m (snd s) \<and> remembered m now s"

lemma cool_inv_step:
  assumes "cool_inv m t0 s" and "t0 \<le> now"
  shows "cool_inv m now (cool_step m (now, target, action) s)"
proof -
  obtain g lg where s: "s = (g, lg)" by (cases s)
  let ?key = "target @ '':'' @ action"
  let ?g1 = "g\<lparr>sg_count := sg_count g + 1\<rparr>"
  let ?g2 = "if sg_count ?g1 mod 100 = 0 then cleanup_expired_cooldowns now m ?g1 else ?g1"
  have inv: "distinct (dkeys (sg_cooldowns g))" "spaced m lg" "remembered m now (g, lg)"
    using assms remembered_later by (auto simp: cool_inv_def s)
  have r1: "remembered m now (?g1, lg)" using inv(3) by (simp add: remembered_def)
  have r2: "remembered m now (?g2, lg)" using remembered_cleanup [OF r1] r1 inv(1) by simp
  have d2: "distinct (dkeys (sg_cooldowns ?g2))"
    using inv(1) by (simp add: cleanup_expired_cooldowns_def distinct_map_filter)
  obtain g2 key where g2: "g2 = ?g2" and key: "key = ?key" by simp
  note r = r2 [folded g2] and d = d2 [folded g2]
  let ?g3 = "g2\<lparr>sg_cooldowns := dset key now (sg_cooldowns g2)\<rparr>"
  let ?grant = "case dget (sg_cooldowns g2) key of None \<Rightarrow> True | Some t \<Rightarrow> of_int m * 60 \<le> now - t"
  have step: "cool_step m (now, target, action) s = (if ?grant then (?g3, lg @ [(now, key)]) else (g2, lg))"
    unfolding cool_step_def s check_cooldown_def Let_def prod.case fst_conv snd_conv g2 [symmetric] key [symmetric]
    by (simp split: option.split)
  show ?thesis
  proof (cases ?grant)
    case True
    have far: "of_int m * 60 \<le> now - fst x" if x: "x \<in> set lg" "snd x = key" for x
    proof (cases "of_int m * 60 \<le> now - fst x")
      case False
      then obtain t where "dget (sg_cooldowns g2) key = Some t" "fst x \<le> t" using r x by (auto simp: remembered_def)
      then show ?thesis using True by simp
    qed
    then have "spaced m (lg @ [(now, key)])" using inv(2) by (auto simp: spaced_def sorted_wrt_append)
    moreover have "remembered m now (?g3, lg @ [(now, key)])"
      using r far by (auto simp: remembered_def)
    ultimately show ?thesis using True d unfolding step cool_inv_def by simp
  next
    case False
    then show ?thesis using r d inv(2) unfolding step cool_inv_def by simp
  qed
qed

lemma cool_inv_run:
  "cool_inv m t0 s \<Longrightarrow> sorted (t0 # map fst calls) \<Longrightarrow> \<exists>t. cool_inv m t (fold (cool_step m) calls s)"
proof (induction calls arbitrary: t0 s)
  case (Cons c calls)
  obtain now target action where c: "c = (now, target, action)" by (cases c)
  have "cool_inv m now (cool_step m c s)" using Cons.prems cool_inv_step by (simp add: c)
  from Cons.IH [OF this] Cons.prems(2) show ?case by (simp add: c)
qed auto

text \<open>
  A cooldown is honoured. In any sequence of checks with one cooldown time, by a clock that does not go back,
  two granted checks of the same target and action are at least the cooldown apart, however often the expired
  entries have been cleaned up in between.
\<close>

theorem cooldown_honoured:
  assumes "sorted (map fst calls)"
  shows "spaced m (snd (fold (cool_step m) calls (new_guard bl require perms admins, [])))"
proof (cases calls)
  case (Cons c cs)
  have "cool_inv m (fst c) (new_guard bl require perms admins, [])"
    by (simp add: cool_inv_def new_guard_def spaced_def remembered_def)
  from cool_inv_run [OF this, of calls] assms Cons show ?thesis by (auto simp: cool_inv_def)
qed (simp add: spaced_def)

theorem cooldown_honoured_witness:
  "spaced 10 (snd (fold (cool_step 10) [(0, ''bot'', ''restart''), (5, ''bot'', ''restart''), (700, ''bot'', ''restart'')]
     (new_guard [] [] [] [], [])))"
  by (rule cooldown_honoured) simp

end
