(* ===== verification/Schema_Check.thy ===== *)
theory Schema_Check
  imports Prelude
begin

text \<open>
  The validator of tool arguments (\<open>src/src/breadmind/tools/schema_validator.py\<close>). A schema is a dict with the keys the
  validator reads, each absent or of the type JSON Schema gives it; an error has its field and its kind, the
  wording of the message is left out.
\<close>

section \<open>Equality of values\<close>

text \<open>Python's \<open>==\<close>: numbers and booleans by value, dicts without regard to order.\<close>

fun py_num :: "json \<Rightarrow> real option" where
  "py_num (JInt i) = Some (of_int i)"
| "py_num (JFloat x) = Some x"
| "py_num (JBool b) = Some (of_bool b)"
| "py_num _ = None"

fun py_eq :: "json \<Rightarrow> json \<Rightarrow> bool" and eq_list :: "json list \<Rightarrow> json list \<Rightarrow> bool" and eq_obj :: "json_obj \<Rightarrow> json_obj \<Rightarrow> bool" where
  "py_eq (JStr s) w = (w = JStr s)"
| "py_eq JNull w = (w = JNull)"
| "py_eq (JList xs) w = (case w of JList ys \<Rightarrow> eq_list xs ys | _ \<Rightarrow> False)"
| "py_eq (JObj d) w = (case w of JObj e \<Rightarrow> length d = length e \<and> eq_obj d e | _ \<Rightarrow> False)"
| "py_eq (JInt i) w = (py_num w = Some (of_int i))"
| "py_eq (JFloat x) w = (py_num w = Some x)"
| "py_eq (JBool b) w = (py_num w = Some (of_bool b))"
| "eq_list [] ys = (ys = [])"
| "eq_list (x # xs) ys = (case ys of [] \<Rightarrow> False | y # ys' \<Rightarrow> py_eq x y \<and> eq_list xs ys')"
| "eq_obj [] e = True"
| "eq_obj ((k, v) # d) e = ((case dget e k of None \<Rightarrow> False | Some w \<Rightarrow> py_eq v w) \<and> eq_obj d e)"

section \<open>Validator\<close>

datatype schema = Schema
  (sc_type: "string option")
  (sc_enum: "json list option")
  (sc_min_length: "int option")
  (sc_max_length: "int option")
  (sc_minimum: "real option")
  (sc_maximum: "real option")
  (sc_properties: "(string \<times> schema) list option")
  (sc_required: "string list")
  (sc_closed: bool)

datatype schema_error_kind = Missing | Unknown | WrongType | NotInEnum | TooShort | TooLong | BelowMinimum | AboveMaximum

type_synonym schema_error = "string \<times> schema_error_kind"

definition properties_of :: "schema \<Rightarrow> (string \<times> schema) list" where
  "properties_of s = (case sc_properties s of None \<Rightarrow> [] | Some ps \<Rightarrow> ps)"

definition validate_type :: "json \<Rightarrow> string \<Rightarrow> bool" where
  "validate_type v t =
     (if t = ''string'' then (case v of JStr _ \<Rightarrow> True | _ \<Rightarrow> False)
      else if t = ''integer'' then (case v of JInt _ \<Rightarrow> True | _ \<Rightarrow> False)
      else if t = ''number'' then (case v of JInt _ \<Rightarrow> True | JFloat _ \<Rightarrow> True | _ \<Rightarrow> False)
      else if t = ''boolean'' then (case v of JBool _ \<Rightarrow> True | _ \<Rightarrow> False)
      else if t = ''array'' then (case v of JList _ \<Rightarrow> True | _ \<Rightarrow> False)
      else if t = ''object'' then (case v of JObj _ \<Rightarrow> True | _ \<Rightarrow> False)
      else True)"

definition type_ok :: "json \<Rightarrow> schema \<Rightarrow> bool" where
  "type_ok v s = (case sc_type s of None \<Rightarrow> True | Some t \<Rightarrow> t = [] \<or> validate_type v t)"

definition enum_errors :: "string \<Rightarrow> json \<Rightarrow> schema \<Rightarrow> schema_error list" where
  "enum_errors name v s =
     (case sc_enum s of None \<Rightarrow> [] | Some allowed \<Rightarrow> if list_ex (py_eq v) allowed then [] else [(name, NotInEnum)])"

definition string_errors :: "string \<Rightarrow> json \<Rightarrow> schema \<Rightarrow> schema_error list" where
  "string_errors name v s =
     (case v of
        JStr x \<Rightarrow>
          if sc_type s = Some ''string'' then
            (case sc_min_length s of None \<Rightarrow> [] | Some n \<Rightarrow> if int (length x) < n then [(name, TooShort)] else [])
            @ (case sc_max_length s of None \<Rightarrow> [] | Some n \<Rightarrow> if n < int (length x) then [(name, TooLong)] else [])
          else []
      | _ \<Rightarrow> [])"

definition number_errors :: "string \<Rightarrow> json \<Rightarrow> schema \<Rightarrow> schema_error list" where
  "number_errors name v s =
     (case py_num v of
        Some x \<Rightarrow>
          if sc_type s = Some ''integer'' \<or> sc_type s = Some ''number'' then
            (case sc_minimum s of None \<Rightarrow> [] | Some m \<Rightarrow> if x < m then [(name, BelowMinimum)] else [])
            @ (case sc_maximum s of None \<Rightarrow> [] | Some m \<Rightarrow> if m < x then [(name, AboveMaximum)] else [])
          else []
      | None \<Rightarrow> [])"

definition required_errors :: "json_obj \<Rightarrow> schema \<Rightarrow> schema_error list" where
  "required_errors args s = map (\<lambda>f. (f, Missing)) (filter (\<lambda>f. f \<notin> set (dkeys args)) (sc_required s))"

definition unknown_errors :: "json_obj \<Rightarrow> schema \<Rightarrow> schema_error list" where
  "unknown_errors args s =
     (if sc_closed s then map (\<lambda>k. (k, Unknown)) (filter (\<lambda>k. k \<notin> set (dkeys (properties_of s))) (dkeys args)) else [])"

fun field_errors :: "string \<Rightarrow> json \<Rightarrow> schema \<Rightarrow> schema_error list"
  and fields_errors :: "json_obj \<Rightarrow> (string \<times> schema) list \<Rightarrow> schema_error list"
where
  "field_errors name v s =
     (if \<not> type_ok v s then [(name, WrongType)]
      else enum_errors name v s @ string_errors name v s @ number_errors name v s
        @ (case v of
             JObj d \<Rightarrow>
               if sc_type s = Some ''object'' \<and> sc_properties s \<noteq> None then
                 map (\<lambda>(f, k). (name @ ''.'' @ f, k))
                   (required_errors d s @ unknown_errors d s @ fields_errors d (properties_of s))
               else []
           | _ \<Rightarrow> []))"
| "fields_errors [] props = []"
| "fields_errors ((k, v) # args) props =
     (case dget props k of None \<Rightarrow> [] | Some s \<Rightarrow> field_errors k v s) @ fields_errors args props"

definition validate_args :: "json_obj \<Rightarrow> schema \<Rightarrow> schema_error list" where
  "validate_args args s = required_errors args s @ unknown_errors args s @ fields_errors args (properties_of s)"

declare field_errors.simps [simp del]

section \<open>What a valid value is\<close>

text \<open>The meaning of a schema: a value conforms when each keyword that is there is satisfied.\<close>

inductive conforms :: "json \<Rightarrow> schema \<Rightarrow> bool" and conforms_args :: "json_obj \<Rightarrow> schema \<Rightarrow> bool" where
  conforms_value: "type_ok v s
    \<Longrightarrow> (\<And>allowed. sc_enum s = Some allowed \<Longrightarrow> \<exists>a \<in> set allowed. py_eq v a)
    \<Longrightarrow> (\<And>x n. v = JStr x \<Longrightarrow> sc_type s = Some ''string'' \<Longrightarrow> sc_min_length s = Some n \<Longrightarrow> n \<le> int (length x))
    \<Longrightarrow> (\<And>x n. v = JStr x \<Longrightarrow> sc_type s = Some ''string'' \<Longrightarrow> sc_max_length s = Some n \<Longrightarrow> int (length x) \<le> n)
    \<Longrightarrow> (\<And>x m. py_num v = Some x \<Longrightarrow> sc_type s \<in> {Some ''integer'', Some ''number''} \<Longrightarrow> sc_minimum s = Some m \<Longrightarrow> m \<le> x)
    \<Longrightarrow> (\<And>x m. py_num v = Some x \<Longrightarrow> sc_type s \<in> {Some ''integer'', Some ''number''} \<Longrightarrow> sc_maximum s = Some m \<Longrightarrow> x \<le> m)
    \<Longrightarrow> (\<And>d. v = JObj d \<Longrightarrow> sc_type s = Some ''object'' \<Longrightarrow> sc_properties s \<noteq> None \<Longrightarrow> conforms_args d s)
    \<Longrightarrow> conforms v s"
| conforms_fields: "set (sc_required s) \<subseteq> set (dkeys d)
    \<Longrightarrow> (sc_closed s \<Longrightarrow> set (dkeys d) \<subseteq> set (dkeys (properties_of s)))
    \<Longrightarrow> (\<And>k v t. (k, v) \<in> set d \<Longrightarrow> dget (properties_of s) k = Some t \<Longrightarrow> conforms v t)
    \<Longrightarrow> conforms_args d s"

inductive_simps conforms_args_simps: "conforms_args d s"

lemma conforms_iff:
  "conforms v s \<longleftrightarrow> type_ok v s
    \<and> (\<forall>allowed. sc_enum s = Some allowed \<longrightarrow> (\<exists>a \<in> set allowed. py_eq v a))
    \<and> (\<forall>x n. v = JStr x \<longrightarrow> sc_type s = Some ''string'' \<longrightarrow> sc_min_length s = Some n \<longrightarrow> n \<le> int (length x))
    \<and> (\<forall>x n. v = JStr x \<longrightarrow> sc_type s = Some ''string'' \<longrightarrow> sc_max_length s = Some n \<longrightarrow> int (length x) \<le> n)
    \<and> (\<forall>x m. py_num v = Some x \<longrightarrow> sc_type s \<in> {Some ''integer'', Some ''number''} \<longrightarrow> sc_minimum s = Some m \<longrightarrow> m \<le> x)
    \<and> (\<forall>x m. py_num v = Some x \<longrightarrow> sc_type s \<in> {Some ''integer'', Some ''number''} \<longrightarrow> sc_maximum s = Some m \<longrightarrow> x \<le> m)
    \<and> (\<forall>d. v = JObj d \<longrightarrow> sc_type s = Some ''object'' \<longrightarrow> sc_properties s \<noteq> None \<longrightarrow> conforms_args d s)"
  (is "?l = ?r")
proof
  assume ?l
  then show ?r
  proof (cases rule: conforms.cases)
    case conforms_value
    show ?thesis
      by (intro conjI allI impI)
        (rule conforms_value(1), erule conforms_value(2), erule (2) conforms_value(3), erule (2) conforms_value(4),
         erule (2) conforms_value(5), erule (2) conforms_value(6), erule (2) conforms_value(7))
  qed
next
  show "?r \<Longrightarrow> ?l" by (rule conforms_value) (elim conjE; blast)+
qed

lemma enum_errors_Nil: "enum_errors name v s = [] \<longleftrightarrow> (\<forall>allowed. sc_enum s = Some allowed \<longrightarrow> (\<exists>a \<in> set allowed. py_eq v a))"
  by (auto simp: enum_errors_def list_ex_iff split: option.split)

lemma string_errors_Nil:
  "string_errors name v s = [] \<longleftrightarrow> (\<forall>x n. v = JStr x \<longrightarrow> sc_type s = Some ''string'' \<longrightarrow> sc_min_length s = Some n \<longrightarrow> n \<le> int (length x))
    \<and> (\<forall>x n. v = JStr x \<longrightarrow> sc_type s = Some ''string'' \<longrightarrow> sc_max_length s = Some n \<longrightarrow> int (length x) \<le> n)"
  by (cases v; cases "sc_type s = Some ''string''"; cases "sc_min_length s"; cases "sc_max_length s")
    (simp_all add: string_errors_def not_less)

lemma number_errors_Nil:
  "number_errors name v s = [] \<longleftrightarrow>
     (\<forall>x m. py_num v = Some x \<longrightarrow> sc_type s \<in> {Some ''integer'', Some ''number''} \<longrightarrow> sc_minimum s = Some m \<longrightarrow> m \<le> x)
    \<and> (\<forall>x m. py_num v = Some x \<longrightarrow> sc_type s \<in> {Some ''integer'', Some ''number''} \<longrightarrow> sc_maximum s = Some m \<longrightarrow> x \<le> m)"
  by (cases "py_num v"; cases "sc_type s = Some ''integer'' \<or> sc_type s = Some ''number''"; cases "sc_minimum s"; cases "sc_maximum s")
    (simp_all only: number_errors_def option.case insert_iff empty_iff, auto simp: not_less)

lemma required_errors_Nil: "required_errors d s = [] \<longleftrightarrow> set (sc_required s) \<subseteq> set (dkeys d)"
  by (auto simp: required_errors_def filter_empty_conv)

lemma unknown_errors_Nil: "unknown_errors d s = [] \<longleftrightarrow> (sc_closed s \<longrightarrow> set (dkeys d) \<subseteq> set (dkeys (properties_of s)))"
  by (auto simp: unknown_errors_def filter_empty_conv)

lemmas errors_Nil = enum_errors_Nil string_errors_Nil number_errors_Nil required_errors_Nil unknown_errors_Nil

lemma errors_iff:
  "field_errors name v s = [] \<longleftrightarrow> conforms v s"
  "fields_errors d props = [] \<longleftrightarrow> (\<forall>(k, v) \<in> set d. \<forall>t. dget props k = Some t \<longrightarrow> conforms v t)"
proof (induction name v s and d props rule: field_errors_fields_errors.induct)
  case (1 name v s)
  have obj: "(case v of
             JObj d \<Rightarrow>
               if sc_type s = Some ''object'' \<and> sc_properties s \<noteq> None then
                 map (\<lambda>(f, k). (name @ ''.'' @ f, k))
                   (required_errors d s @ unknown_errors d s @ fields_errors d (properties_of s))
               else []
           | _ \<Rightarrow> []) = []
      \<longleftrightarrow> (\<forall>d. v = JObj d \<longrightarrow> sc_type s = Some ''object'' \<longrightarrow> sc_properties s \<noteq> None \<longrightarrow> conforms_args d s)"
    if ok: "type_ok v s"
  proof (cases v)
    case (JObj d)
    show ?thesis
    proof (cases "sc_type s = Some ''object'' \<and> sc_properties s \<noteq> None")
      case True
      from 1(1) [OF _ JObj True] ok show ?thesis
        using True by (auto simp: JObj errors_Nil conforms_args_simps)
    qed (auto simp: JObj)
  qed simp_all
  show ?case
  proof (cases "type_ok v s")
    case True
    then have "field_errors name v s = [] \<longleftrightarrow>
        enum_errors name v s = [] \<and> string_errors name v s = [] \<and> number_errors name v s = []
        \<and> (\<forall>d. v = JObj d \<longrightarrow> sc_type s = Some ''object'' \<longrightarrow> sc_properties s \<noteq> None \<longrightarrow> conforms_args d s)"
      using obj [OF True] by (subst field_errors.simps) simp
    then show ?thesis using True unfolding errors_Nil conforms_iff by (simp only: simp_thms conj_assoc)
  next
    case False
    then show ?thesis by (simp add: field_errors.simps conforms_iff)
  qed
next
  case (3 k v args props)
  then show ?case by (cases "dget props k") auto
qed simp

text \<open>
  C10. The validator accepts exactly the arguments that conform: every required property is there, an object that is closed has no
  other keys, and every property that the schema knows has the type, is one of the listed values and within the bounds, to any depth.
\<close>

theorem validate_args_iff: "validate_args args s = [] \<longleftrightarrow> conforms_args args s"
  by (auto simp: validate_args_def errors_Nil errors_iff conforms_args_simps)

end
