(* ===== verification/Tool_Exec.thy ===== *)
theory Tool_Exec
  imports Safety Schema_Check "HOL-Library.Multiset"
begin

text \<open>
  Running the tool calls of the language model: the executor (\<open>src/src/breadmind/core/tool_executor.py\<close>) with its safety
  check, approvals, hooks, validation and time limits; and approving and denying, loop detection and the choice of
  tools (\<open>core/tool_coordinator.py\<close>, and the same approval operations of \<open>core/agent.py\<close>).

  The tools, the sandbox, the hooks, the detector of missing tools, fresh ids, the wording of validation errors and the cleaning
  of browser results are parameters. The calls that ran are recorded as a ghost. Audit entries, events, the
  copies put into the working memory and episodic recall are left out.
\<close>

section \<open>Data\<close>

record tool_call =
  tc_id :: string
  tc_name :: string
  tc_args :: json_obj

record tool_message =
  tm_content :: string
  tm_call_id :: string
  tm_name :: string

record tool_hook_result =
  th_action :: string
  th_modified :: "json_obj option"
  th_context :: string
  th_reason :: string

datatype tool_outcome = ToTimeout | ToRaised exn | ToResult bool string bool

record exec_context =
  cx_user :: string
  cx_channel :: string

record tool_env =
  te_hooks :: "((string \<Rightarrow> json_obj \<Rightarrow> exn + tool_hook_result) \<times> (string \<Rightarrow> json_obj \<Rightarrow> string \<Rightarrow> bool \<Rightarrow> exn + tool_hook_result)) option"
  te_validator :: bool
  te_definitions :: "(string \<times> schema option) list"
  te_execute :: "int option \<Rightarrow> string \<Rightarrow> json_obj \<Rightarrow> tool_outcome"
  te_sandbox :: "(json \<Rightarrow> json \<Rightarrow> tool_outcome) option"
  te_timeout :: int
  te_gap :: "(string \<Rightarrow> json_obj \<Rightarrow> string \<Rightarrow> string \<Rightarrow> exn + string) option"
  te_uuid :: "nat \<Rightarrow> string"
  te_describe :: "schema_error list \<Rightarrow> string"
  te_clean :: "string \<Rightarrow> string \<Rightarrow> string"

datatype execution = RanTool string json_obj | RanSandbox json json

record approval =
  ap_tool :: string
  ap_args :: json_obj
  ap_user :: string
  ap_channel :: string
  ap_status :: string

datatype run_cause = ByCall tool_call | ByApproval string

record exec_state =
  xs_guard :: safety_guard
  xs_pending :: "(string, approval) dict"
  xs_messages :: "tool_message list"
  xs_next :: nat
  xs_ran :: "(run_cause \<times> execution) list"

section \<open>One call\<close>

definition bool_str :: "bool \<Rightarrow> string" where
  "bool_str b = (if b then ''True'' else ''False'')"

definition success_prefix :: "bool \<Rightarrow> string" where
  "success_prefix ok = ''[success='' @ bool_str ok @ ''] ''"

definition timed_out :: "int \<Rightarrow> string" where
  "timed_out t = ''Tool execution timed out after '' @ int_str t @ ''s.''"

definition error_output :: "exn \<Rightarrow> string" where
  "error_output e = ''Tool execution error: '' @ exn_str e"

definition long_running :: "json_obj \<Rightarrow> bool" where
  "long_running args =
     (case dget_or args ''long_running'' (JBool False) of
        JStr s \<Rightarrow> str_lower s \<in> {''true'', ''1'', ''yes''}
      | v \<Rightarrow> truthy v)"

text \<open>The pre-hooks: the arguments to use, or the output that ends the call.\<close>

definition pre_hook_args :: "tool_env \<Rightarrow> tool_call \<Rightarrow> string + json_obj" where
  "pre_hook_args env tc =
     (case te_hooks env of
        None \<Rightarrow> Inr (tc_args tc)
      | Some (pre, _) \<Rightarrow>
          (case pre (tc_name tc) (tc_args tc) of
             Inl e \<Rightarrow> Inl (success_prefix False @ error_output e)
           | Inr r \<Rightarrow>
               if th_action r = ''block'' then Inl (success_prefix False @ ''Blocked by hook: '' @ th_reason r)
               else (case th_modified r of
                 Some m \<Rightarrow> Inr (if th_action r = ''modify'' \<and> m \<noteq> [] then m else tc_args tc)
               | None \<Rightarrow> Inr (tc_args tc))))"

definition schema_errors :: "tool_env \<Rightarrow> string \<Rightarrow> json_obj \<Rightarrow> schema_error list" where
  "schema_errors env name args =
     (if te_validator env then
        (case map_of (te_definitions env) name of
           Some (Some s) \<Rightarrow> validate_args args s
         | _ \<Rightarrow> [])
      else [])"

text \<open>The output of a tool that returned, with the post-hooks; they see the arguments of the model, not the modified ones.\<close>

definition finish_output :: "tool_env \<Rightarrow> tool_call \<Rightarrow> bool \<Rightarrow> string \<Rightarrow> string" where
  "finish_output env tc ok out =
     (let output = success_prefix ok @ out in
      case te_hooks env of
        None \<Rightarrow> output
      | Some (_, post) \<Rightarrow>
          (case post (tc_name tc) (tc_args tc) output ok of
             Inl e \<Rightarrow> success_prefix False @ error_output e
           | Inr r \<Rightarrow> if th_context r \<noteq> [] then output @ [CHR 0x0A] @ ''[Hook context] '' @ th_context r else output))"

definition execute_one :: "tool_env \<Rightarrow> exec_context \<Rightarrow> tool_call \<Rightarrow> string \<times> execution list" where
  "execute_one env ctx tc =
     (let fail = (\<lambda>s. success_prefix False @ s) in
      case (if tc_name tc = ''shell_exec'' then te_sandbox env else None) of
        Some sandbox \<Rightarrow>
          let command = dget_or (tc_args tc) ''command'' (JStr []); workdir = dget_or (tc_args tc) ''workdir'' JNull in
          (case sandbox command workdir of
             ToTimeout \<Rightarrow> fail (timed_out (te_timeout env))
           | ToRaised e \<Rightarrow> fail (error_output e)
           | ToResult ok out _ \<Rightarrow> success_prefix ok @ out, [RanSandbox command workdir])
      | None \<Rightarrow>
          (case pre_hook_args env tc of
             Inl output \<Rightarrow> (output, [])
           | Inr args \<Rightarrow>
               if schema_errors env (tc_name tc) args \<noteq> [] then
                 (fail (''Validation failed: '' @ te_describe env (schema_errors env (tc_name tc) args)), [])
               else
                 let delegate = (tc_name tc = ''code_delegate'');
                     timeout = (if delegate \<and> \<not> long_running args then max (te_timeout env) 600 else te_timeout env);
                     out = te_execute env (if delegate \<and> long_running args then None else Some timeout) (tc_name tc) args in
                 (case out of
                    ToTimeout \<Rightarrow> fail (timed_out timeout)
                  | ToRaised e \<Rightarrow> fail (error_output e)
                  | ToResult ok text not_found \<Rightarrow>
                      (case (if not_found then te_gap env else None) of
                         Some gap \<Rightarrow>
                           (case gap (tc_name tc) args (cx_user ctx) (cx_channel ctx) of
                              Inr m \<Rightarrow> fail m
                            | Inl _ \<Rightarrow> finish_output env tc ok text)
                       | None \<Rightarrow> finish_output env tc ok text), [RanTool (tc_name tc) args])))"

section \<open>Safety check\<close>

definition tool_msg :: "tool_call \<Rightarrow> string \<Rightarrow> tool_message" where
  "tool_msg tc content = \<lparr>tm_content = content, tm_call_id = tc_id tc, tm_name = tc_name tc\<rparr>"

definition blocked_text :: "string \<Rightarrow> string" where
  "blocked_text name = success_prefix False @ ''BLOCKED: '' @ name @ '' is in the blacklist.''"

definition cooldown_text :: "string \<Rightarrow> string" where
  "cooldown_text name = success_prefix False @ ''COOLDOWN: '' @ name @ '' is in cooldown. Please wait before retrying.''"

definition approval_text :: "string \<Rightarrow> string \<Rightarrow> string" where
  "approval_text name aid =
     ''[approval_required] Tool '' @ quoted name @ '' requires approval. Approval ID: '' @ aid @ ''. Ask the user to approve.''"

definition handle_approval :: "tool_env \<Rightarrow> exec_context \<Rightarrow> tool_call \<Rightarrow> exec_state \<Rightarrow> tool_message \<times> exec_state" where
  "handle_approval env ctx tc st =
     (let aid = te_uuid env (xs_next st) in
      (tool_msg tc (approval_text (tc_name tc) aid),
       st\<lparr>xs_next := xs_next st + 1,
          xs_pending := dset aid \<lparr>ap_tool = tc_name tc, ap_args = tc_args tc, ap_user = cx_user ctx,
            ap_channel = cx_channel ctx, ap_status = ''pending''\<rparr> (xs_pending st)\<rparr>))"

text \<open>Cooldowns apply to automated channels only.\<close>

definition automated :: "exec_context \<Rightarrow> bool" where
  "automated ctx = (startswith (cx_channel ctx) ''system:'' \<or> startswith (cx_channel ctx) ''monitoring:'')"

definition cooldown_target :: "exec_context \<Rightarrow> string" where
  "cooldown_target ctx = cx_user ctx @ '':'' @ cx_channel ctx"

definition check_tool_call :: "real \<Rightarrow> tool_env \<Rightarrow> exec_context \<Rightarrow> tool_call \<Rightarrow> exec_state \<Rightarrow> tool_message option \<times> exec_state" where
  "check_tool_call now env ctx tc st =
     (case guard_check (tc_name tc) (cx_user ctx) None (xs_guard st) of
        DENY \<Rightarrow> (Some (tool_msg tc (blocked_text (tc_name tc))), st)
      | REQUIRE_APPROVAL \<Rightarrow> (case handle_approval env ctx tc st of (m, st') \<Rightarrow> (Some m, st'))
      | ALLOW \<Rightarrow>
          if automated ctx then
            let (ok, g) = check_cooldown now (cooldown_target ctx) (tc_name tc) 10 (xs_guard st) in
            (if ok then None else Some (tool_msg tc (cooldown_text (tc_name tc))), st\<lparr>xs_guard := g\<rparr>)
          else (None, st))"

text \<open>First all calls are checked, then the allowed ones run; each call comes with the time of its check.\<close>

fun check_calls ::
  "tool_env \<Rightarrow> exec_context \<Rightarrow> (real \<times> tool_call) list \<Rightarrow> exec_state \<Rightarrow> tool_call list \<times> exec_state"
where
  "check_calls env ctx [] st = ([], st)"
| "check_calls env ctx ((now, tc) # calls) st =
     (case check_tool_call now env ctx tc st of
        (Some m, st') \<Rightarrow> check_calls env ctx calls (st'\<lparr>xs_messages := xs_messages st' @ [m]\<rparr>)
      | (None, st') \<Rightarrow> (case check_calls env ctx calls st' of (rest, st'') \<Rightarrow> (tc # rest, st'')))"

definition execute_calls :: "tool_env \<Rightarrow> exec_context \<Rightarrow> tool_call list \<Rightarrow> exec_state \<Rightarrow> exec_state" where
  "execute_calls env ctx calls st =
     st\<lparr>xs_ran := xs_ran st @ concat (map (\<lambda>tc. map (Pair (ByCall tc)) (snd (execute_one env ctx tc))) calls),
        xs_messages := xs_messages st @ map (\<lambda>tc. tool_msg tc (te_clean env (tc_name tc) (fst (execute_one env ctx tc)))) calls\<rparr>"

definition process_tool_calls :: "tool_env \<Rightarrow> exec_context \<Rightarrow> (real \<times> tool_call) list \<Rightarrow> exec_state \<Rightarrow> exec_state" where
  "process_tool_calls env ctx calls st =
     (case check_calls env ctx calls st of
        (allowed, st') \<Rightarrow> if allowed = [] then st' else execute_calls env ctx allowed st')"

section \<open>Approvals\<close>

definition get_pending_approvals :: "exec_state \<Rightarrow> (string \<times> approval) list" where
  "get_pending_approvals st = filter (\<lambda>(_, a). ap_status a = ''pending'') (xs_pending st)"

definition approval_result :: "int \<Rightarrow> tool_outcome \<Rightarrow> bool \<times> string" where
  "approval_result t out =
     (case out of
        ToTimeout \<Rightarrow> (False, timed_out t)
      | ToRaised e \<Rightarrow> (False, error_output e)
      | ToResult ok text _ \<Rightarrow> (ok, text))"

text \<open>\<open>approve_tool\<close> of the agent, with the time limit as a function of the approval; and of the coordinator.\<close>

definition approve_with ::
  "(approval \<Rightarrow> int option) \<Rightarrow> tool_env \<Rightarrow> string \<Rightarrow> exec_state \<Rightarrow> (bool \<times> string) \<times> exec_state"
where
  "approve_with limit env aid st =
     (case dget (xs_pending st) aid of
        None \<Rightarrow> ((False, ''No pending approval found: '' @ aid), st)
      | Some a \<Rightarrow>
          if ap_status a \<noteq> ''pending'' then ((False, ''No pending approval found: '' @ aid), st)
          else (approval_result (te_timeout env) (te_execute env (limit a) (ap_tool a) (ap_args a)),
                st\<lparr>xs_pending := dset aid (a\<lparr>ap_status := ''approved''\<rparr>) (xs_pending st),
                   xs_ran := xs_ran st @ [(ByApproval aid, RanTool (ap_tool a) (ap_args a))]\<rparr>))"

definition approve_tool :: "tool_env \<Rightarrow> string \<Rightarrow> exec_state \<Rightarrow> (bool \<times> string) \<times> exec_state" where
  "approve_tool env = approve_with (\<lambda>a. Some (te_timeout env)) env"

definition coordinator_limit :: "tool_env \<Rightarrow> approval \<Rightarrow> int option" where
  "coordinator_limit env a =
     (if ap_tool a = ''code_delegate'' then
        if long_running (ap_args a) then None else Some (max (te_timeout env) 600)
      else Some (te_timeout env))"

definition coordinator_approve_tool :: "tool_env \<Rightarrow> string \<Rightarrow> exec_state \<Rightarrow> (bool \<times> string) \<times> exec_state" where
  "coordinator_approve_tool env = approve_with (coordinator_limit env) env"

definition deny_tool :: "string \<Rightarrow> exec_state \<Rightarrow> exec_state" where
  "deny_tool aid st =
     (case dget (xs_pending st) aid of
        None \<Rightarrow> st
      | Some a \<Rightarrow> st\<lparr>xs_pending := dset aid (a\<lparr>ap_status := ''denied''\<rparr>) (xs_pending st)\<rparr>)"

section \<open>Loops\<close>

definition loop_threshold :: nat where "loop_threshold = 3"

text \<open>The digest of the arguments is a parameter; the result is the name of the repeated tool and the calls seen so far.\<close>

definition detect_loop ::
  "(json_obj \<Rightarrow> string) \<Rightarrow> nat option \<Rightarrow> tool_call list \<Rightarrow> (string \<times> string) list \<Rightarrow> string option \<times> (string \<times> string) list"
where
  "detect_loop digest threshold calls recent =
     (let n = (case threshold of None \<Rightarrow> loop_threshold | Some t \<Rightarrow> t);
          recent' = recent @ map (\<lambda>tc. (tc_name tc, digest (tc_args tc))) calls;
          tail = (if n = 0 then recent' else last_n n recent') in
      (if n \<le> length recent' \<and> card (set tail) = 1 then Some (fst (hd tail)) else None, recent'))"

section \<open>The tools offered to the model\<close>

text \<open>\<open>s.split()\<close>: the runs of characters that are not white space.\<close>

fun words_from :: "string \<Rightarrow> string \<Rightarrow> string list" where
  "words_from cur [] = (if cur = [] then [] else [rev cur])"
| "words_from cur (c # cs) =
     (if is_space c then (if cur = [] then words_from [] cs else rev cur # words_from [] cs) else words_from (c # cur) cs)"

definition str_split :: "string \<Rightarrow> string list" where
  "str_split s = words_from [] s"

record offered_tool =
  ot_name :: string
  ot_description :: "string option"

record tool_intent =
  in_hints :: "string list"
  in_keywords :: "string list"

definition always_include :: "string list" where
  "always_include =
     [''shell_exec'', ''web_search'', ''file_read'', ''file_write'', ''browser'', ''mcp_search'', ''mcp_install'', ''mcp_list'',
      ''skill_manage'', ''memory_save'', ''memory_search'', ''swarm_role'', ''messenger_connect'', ''network_scan'',
      ''router_manage'', ''task_create'', ''task_list'', ''event_create'', ''event_list'', ''reminder_set'']"

definition essential_tool :: "tool_intent option \<Rightarrow> offered_tool \<Rightarrow> bool" where
  "essential_tool intent t \<longleftrightarrow>
     ot_name t \<in> set always_include \<or> (case intent of None \<Rightarrow> False | Some i \<Rightarrow> ot_name t \<in> set (in_hints i))"

definition tool_score :: "string \<Rightarrow> tool_intent option \<Rightarrow> offered_tool \<Rightarrow> nat" where
  "tool_score message intent t =
     (let name_words = set (str_split (map (\<lambda>c. if c = CHR ''_'' then CHR '' '' else c) (str_lower (ot_name t))));
          desc_words = set (str_split (str_lower (case ot_description t of None \<Rightarrow> [] | Some d \<Rightarrow> d)));
          msg_words = set (str_split (str_lower message));
          score = card (msg_words \<inter> name_words) * 3 + card (msg_words \<inter> desc_words) in
      case intent of
        None \<Rightarrow> score
      | Some i \<Rightarrow> score + card (set (in_keywords i) \<inter> name_words) * 2 + card (set (in_keywords i) \<inter> desc_words))"

definition filter_relevant_tools :: "offered_tool list \<Rightarrow> string \<Rightarrow> nat \<Rightarrow> tool_intent option \<Rightarrow> offered_tool list" where
  "filter_relevant_tools tools message max_tools intent =
     (if length tools \<le> max_tools then tools
      else
        let essential = filter (essential_tool intent) tools;
            candidates = map (\<lambda>t. (tool_score message intent t, t)) (filter (\<lambda>t. \<not> essential_tool intent t) tools);
            ranked = sort_key (\<lambda>c. - int (fst c)) candidates
        in essential @ map snd (take (max_tools - length essential) ranked))"

text \<open>The essential tools are always offered, and others only while the limit leaves room.\<close>

lemma filter_relevant_tools_essential:
  "t \<in> set tools \<Longrightarrow> essential_tool intent t \<Longrightarrow> t \<in> set (filter_relevant_tools tools message n intent)"
  by (simp add: filter_relevant_tools_def Let_def)

lemma filter_relevant_tools_length:
  "length (filter_relevant_tools tools message n intent) \<le> max n (length (filter (essential_tool intent) tools))"
  by (auto simp: filter_relevant_tools_def Let_def min_def max_def)

section \<open>Only allowed tools run\<close>

text \<open>An environment for the examples: every tool succeeds, and ids are runs of a letter.\<close>

definition demo_env :: tool_env where
  "demo_env =
     \<lparr>te_hooks = None, te_validator = True, te_definitions = [], te_execute = (\<lambda>_ _ _. ToResult True ''ok'' False), te_sandbox = None,
      te_timeout = 30, te_gap = None, te_uuid = (\<lambda>n. replicate n CHR 0x61), te_describe = (\<lambda>_. []), te_clean = (\<lambda>_ out. out)\<rparr>"

definition new_exec_state :: "safety_guard \<Rightarrow> exec_state" where
  "new_exec_state g = \<lparr>xs_guard = g, xs_pending = [], xs_messages = [], xs_next = 0, xs_ran = []\<rparr>"

lemma demo_uuid_inj: "inj (te_uuid demo_env)"
  by (rule injI) (metis demo_env_def length_replicate tool_env.select_convs(8))

text \<open>The check of a call changes neither the rules nor what has run.\<close>

lemma check_cooldown_rules:
  assumes "g' = snd (check_cooldown now t b m g)"
  shows "sg_policies g' = sg_policies g" "sg_admins g' = sg_admins g" "sg_user_permissions g' = sg_user_permissions g"
    "sg_flat g' = sg_flat g" "sg_require g' = sg_require g"
  using assms by (simp_all add: check_cooldown_def cleanup_expired_cooldowns_def Let_def split: option.split)

lemma guard_check_cooldown: "guard_check a u ag (snd (check_cooldown now t b m g)) = guard_check a u ag g"
  unfolding guard_check_def policy_blocks_def check_cooldown_rules [OF refl] ..

lemma check_tool_call_cases:
  assumes "check_tool_call now env ctx tc st = (m, st')"
  obtains (deny) c where "m = Some (tool_msg tc c)" "st' = st"
    | (approval) "m = Some (fst (handle_approval env ctx tc st))" "st' = snd (handle_approval env ctx tc st)"
    | (cooldown) c g t where "m = Some (tool_msg tc c)" "g = snd (check_cooldown now t (tc_name tc) 10 (xs_guard st))"
        "st' = st\<lparr>xs_guard := g\<rparr>"
    | (allowed) g where "guard_check (tc_name tc) (cx_user ctx) None (xs_guard st) = ALLOW" "m = None"
        "g = xs_guard st \<or> (\<exists>t. g = snd (check_cooldown now t (tc_name tc) 10 (xs_guard st)))" "st' = st\<lparr>xs_guard := g\<rparr>"
proof (cases "guard_check (tc_name tc) (cx_user ctx) None (xs_guard st)")
  case DENY
  then show thesis using assms deny by (auto simp: check_tool_call_def)
next
  case REQUIRE_APPROVAL
  then show thesis using assms approval by (auto simp: check_tool_call_def split: prod.splits)
next
  case ALLOW
  obtain ok g where g: "check_cooldown now (cooldown_target ctx) (tc_name tc) 10 (xs_guard st) = (ok, g)"
    by (cases "check_cooldown now (cooldown_target ctx) (tc_name tc) 10 (xs_guard st)") simp
  then have g': "g = snd (check_cooldown now (cooldown_target ctx) (tc_name tc) 10 (xs_guard st))" by simp
  have "(if automated ctx then (if ok then None else Some (tool_msg tc (cooldown_text (tc_name tc))), st\<lparr>xs_guard := g\<rparr>) else (None, st))
      = (m, st')"
    using assms unfolding check_tool_call_def ALLOW safety_result.case g Let_def prod.case .
  then consider "automated ctx" "\<not> ok" "m = Some (tool_msg tc (cooldown_text (tc_name tc)))" "st' = st\<lparr>xs_guard := g\<rparr>"
    | "m = None" "st' = st\<lparr>xs_guard := g\<rparr>" | "m = None" "st' = st"
    by (auto split: if_splits)
  then show thesis
  proof cases
    case 1
    then show thesis using cooldown g' by blast
  next
    case 2
    then show thesis using allowed [OF ALLOW] g' by blast
  next
    case 3
    then show thesis using allowed [OF ALLOW, of "xs_guard st"] by simp
  qed
qed

lemma check_tool_call_frame:
  assumes "check_tool_call now env ctx tc st = (m, st')"
  shows "xs_ran st' = xs_ran st" "xs_messages st' = xs_messages st"
    and "guard_check a u ag (xs_guard st') = guard_check a u ag (xs_guard st)"
    and "m = None \<Longrightarrow> guard_check (tc_name tc) (cx_user ctx) None (xs_guard st) = ALLOW"
    and "\<And>x. m = Some x \<Longrightarrow> tm_call_id x = tc_id tc"
  using assms by (cases rule: check_tool_call_cases; auto simp: handle_approval_def tool_msg_def Let_def guard_check_cooldown)+

lemma check_calls_spec:
  "check_calls env ctx calls st = (allowed, st') \<Longrightarrow>
     xs_ran st' = xs_ran st
     \<and> set allowed \<subseteq> snd ` set calls
     \<and> (\<forall>tc \<in> set allowed. guard_check (tc_name tc) (cx_user ctx) None (xs_guard st) = ALLOW)
     \<and> (\<exists>ms. xs_messages st' = xs_messages st @ ms
          \<and> mset (map tm_call_id ms) + mset (map tc_id allowed) = mset (map (\<lambda>c. tc_id (snd c)) calls))"
proof (induction env ctx calls st arbitrary: allowed st' rule: check_calls.induct)
  case (2 env ctx now tc calls st)
  obtain m st1 where c: "check_tool_call now env ctx tc st = (m, st1)" by (cases "check_tool_call now env ctx tc st")
  note frame = check_tool_call_frame [OF c]
  show ?case
  proof (cases m)
    case None
    then obtain rest where rest: "check_calls env ctx calls st1 = (rest, st')" and allowed: "allowed = tc # rest"
      using 2(3) c by (auto split: prod.splits)
    from 2(1) [OF c [symmetric] None rest] frame(1-4) None show ?thesis by (auto simp: allowed)
  next
    case (Some x)
    then have "check_calls env ctx calls (st1\<lparr>xs_messages := xs_messages st1 @ [x]\<rparr>) = (allowed, st')"
      using 2(3) c by simp
    from 2(2) [OF c [symmetric] Some this] frame(1-3) frame(5) [OF Some] show ?thesis by auto
  qed
qed simp

lemma execute_one_ran:
  "ex \<in> set (snd (execute_one env ctx tc)) \<Longrightarrow>
     (\<exists>args. ex = RanTool (tc_name tc) args \<and> pre_hook_args env tc = Inr args \<and> schema_errors env (tc_name tc) args = [])
     \<or> (\<exists>c w. ex = RanSandbox c w \<and> tc_name tc = ''shell_exec'' \<and> te_sandbox env \<noteq> None)"
  by (auto simp: execute_one_def Let_def split: option.splits if_splits sum.splits)

text \<open>
  C11. Only allowed tools run. Whatever calls the model makes, each execution that processing them adds belongs to
  one of the calls, to a tool that the guard's rules allow the user; and it runs with the arguments that the hooks
  let through and the schema accepts, or it is a shell command given to the sandbox.
\<close>

theorem only_allowed_tools_run:
  "\<exists>new. xs_ran (process_tool_calls env ctx calls st) = xs_ran st @ new \<and>
     (\<forall>(cause, ex) \<in> set new. \<exists>tc \<in> snd ` set calls.
        cause = ByCall tc \<and> guard_check (tc_name tc) (cx_user ctx) None (xs_guard st) = ALLOW
        \<and> ((\<exists>args. ex = RanTool (tc_name tc) args \<and> pre_hook_args env tc = Inr args \<and> schema_errors env (tc_name tc) args = [])
           \<or> (\<exists>c w. ex = RanSandbox c w \<and> tc_name tc = ''shell_exec'' \<and> te_sandbox env \<noteq> None)))"
proof -
  obtain allowed st' where c: "check_calls env ctx calls st = (allowed, st')" by (cases "check_calls env ctx calls st")
  note spec = check_calls_spec [OF c]
  let ?new = "concat (map (\<lambda>tc. map (Pair (ByCall tc)) (snd (execute_one env ctx tc))) allowed)"
  have "xs_ran (process_tool_calls env ctx calls st) = xs_ran st @ ?new"
    using spec by (simp add: process_tool_calls_def c execute_calls_def)
  moreover have "\<forall>(cause, ex) \<in> set ?new. \<exists>tc \<in> snd ` set calls.
        cause = ByCall tc \<and> guard_check (tc_name tc) (cx_user ctx) None (xs_guard st) = ALLOW
        \<and> ((\<exists>args. ex = RanTool (tc_name tc) args \<and> pre_hook_args env tc = Inr args \<and> schema_errors env (tc_name tc) args = [])
           \<or> (\<exists>c w. ex = RanSandbox c w \<and> tc_name tc = ''shell_exec'' \<and> te_sandbox env \<noteq> None))"
  proof (clarify)
    fix cause ex assume "(cause, ex) \<in> set ?new"
    then obtain tc where tc: "tc \<in> set allowed" "cause = ByCall tc" "ex \<in> set (snd (execute_one env ctx tc))" by auto
    then have "tc \<in> snd ` set calls" "guard_check (tc_name tc) (cx_user ctx) None (xs_guard st) = ALLOW" using spec by auto
    with tc(2) execute_one_ran [OF tc(3)] show "\<exists>tc \<in> snd ` set calls.
        cause = ByCall tc \<and> guard_check (tc_name tc) (cx_user ctx) None (xs_guard st) = ALLOW
        \<and> ((\<exists>args. ex = RanTool (tc_name tc) args \<and> pre_hook_args env tc = Inr args \<and> schema_errors env (tc_name tc) args = [])
           \<or> (\<exists>c w. ex = RanSandbox c w \<and> tc_name tc = ''shell_exec'' \<and> te_sandbox env \<noteq> None))"
      by blast
  qed
  ultimately show ?thesis by blast
qed

text \<open>A blacklisted tool next to a free one.\<close>

theorem only_allowed_tools_run_witness:
  "let call = \<lparr>tc_id = ''1'', tc_name = ''rm'', tc_args = []\<rparr>; ctx = \<lparr>cx_user = ''eve'', cx_channel = ''web''\<rparr>
   in xs_ran (process_tool_calls demo_env ctx [(0, call)] (new_exec_state (new_guard [(''fs'', [''rm''])] [] [] []))) = []"
proof -
  obtain call ctx g where x: "call = \<lparr>tc_id = ''1'', tc_name = ''rm'', tc_args = []\<rparr>"
    "ctx = \<lparr>cx_user = ''eve'', cx_channel = ''web''\<rparr>" "g = new_guard [(''fs'', [''rm''])] [] [] []" by simp
  have deny: "guard_check (tc_name call) (cx_user ctx) None (xs_guard (new_exec_state g)) \<noteq> ALLOW"
    by (simp add: x guard_check_def policy_blocks_def new_guard_def flat_of_def new_exec_state_def)
  obtain new where new: "xs_ran (process_tool_calls demo_env ctx [(0, call)] (new_exec_state g)) = xs_ran (new_exec_state g) @ new"
    "\<forall>(cause, ex) \<in> set new. \<exists>tc \<in> snd ` set [(0 :: real, call)]. guard_check (tc_name tc) (cx_user ctx) None (xs_guard (new_exec_state g)) = ALLOW"
    using only_allowed_tools_run [of demo_env ctx "[(0, call)]" "new_exec_state g"] by blast
  have "new = []"
  proof (rule ccontr)
    assume "new \<noteq> []"
    then obtain p ps where "new = p # ps" by (cases new) auto
    with new(2) deny show False by (cases p) (simp, blast)
  qed
  with new(1) show ?thesis by (simp add: x new_exec_state_def)
qed

text \<open>
  Every call is answered: processing adds exactly one message for each call of the model, with the id of the
  call, whether it was blocked, awaits an approval, is cooling down, or ran and failed or succeeded.
\<close>

theorem every_call_answered:
  "\<exists>new. xs_messages (process_tool_calls env ctx calls st) = xs_messages st @ new
     \<and> mset (map tm_call_id new) = mset (map (\<lambda>c. tc_id (snd c)) calls)"
proof -
  obtain allowed st' where c: "check_calls env ctx calls st = (allowed, st')" by (cases "check_calls env ctx calls st")
  from check_calls_spec [OF c] obtain ms where ms: "xs_messages st' = xs_messages st @ ms"
    "mset (map tm_call_id ms) + mset (map tc_id allowed) = mset (map (\<lambda>c. tc_id (snd c)) calls)" by blast
  let ?run = "map (\<lambda>tc. tool_msg tc (te_clean env (tc_name tc) (fst (execute_one env ctx tc)))) allowed"
  have "map tm_call_id ?run = map tc_id allowed" by (simp add: tool_msg_def)
  then have "mset (map tm_call_id (ms @ ?run)) = mset (map (\<lambda>c. tc_id (snd c)) calls)"
    using ms(2) by (simp only: map_append mset_append)
  moreover have "xs_messages (process_tool_calls env ctx calls st) = xs_messages st @ ms @ ?run"
    using ms(1) by (simp add: process_tool_calls_def c execute_calls_def)
  ultimately show ?thesis by blast
qed

section \<open>Approvals run once\<close>

datatype exec_op =
    Process exec_context "(real \<times> tool_call) list"
  | Approve string
  | CoordinatorApprove string
  | Deny string

fun exec_step :: "tool_env \<Rightarrow> exec_op \<Rightarrow> exec_state \<Rightarrow> exec_state" where
  "exec_step env (Process ctx calls) = process_tool_calls env ctx calls"
| "exec_step env (Approve aid) = (\<lambda>st. snd (approve_tool env aid st))"
| "exec_step env (CoordinatorApprove aid) = (\<lambda>st. snd (coordinator_approve_tool env aid st))"
| "exec_step env (Deny aid) = deny_tool aid"

definition approved_runs :: "string \<Rightarrow> exec_state \<Rightarrow> execution list" where
  "approved_runs aid st = map snd (filter (\<lambda>x. fst x = ByApproval aid) (xs_ran st))"

text \<open>
  Each approval has run as often as its status says: an open one not at all, a decided one at most once, and then it ran
  the tool and the arguments that were asked for.
\<close>

definition approval_ok :: "tool_env \<Rightarrow> exec_state \<Rightarrow> string \<Rightarrow> bool" where
  "approval_ok env st aid \<longleftrightarrow>
     (case dget (xs_pending st) aid of
        None \<Rightarrow> approved_runs aid st = []
      | Some a \<Rightarrow> (\<exists>n < xs_next st. aid = te_uuid env n)
          \<and> (if ap_status a = ''pending'' then approved_runs aid st = []
             else approved_runs aid st \<in> {[], [RanTool (ap_tool a) (ap_args a)]}))"

lemma approved_runs_same:
  "xs_ran st' = xs_ran st \<Longrightarrow> approved_runs aid st' = approved_runs aid st"
  by (simp add: approved_runs_def)

definition decided :: "string \<Rightarrow> exec_state \<Rightarrow> bool" where
  "decided aid st \<longleftrightarrow> (\<exists>a. dget (xs_pending st) aid = Some a \<and> ap_status a \<noteq> ''pending'')"

lemma handle_approval_ok:
  assumes "approval_ok env st aid" and "inj (te_uuid env)" and "handle_approval env ctx tc st = (m, st')"
  shows "approval_ok env st' aid \<and> (decided aid st \<longrightarrow> decided aid st')"
proof -
  have ran: "approved_runs aid st' = approved_runs aid st"
    using assms(3) by (auto simp: handle_approval_def Let_def intro: approved_runs_same)
  show ?thesis
  proof (cases "aid = te_uuid env (xs_next st)")
    case True
    have "dget (xs_pending st) aid = None"
    proof (cases "dget (xs_pending st) aid")
      case (Some a)
      then obtain n where "n < xs_next st" "aid = te_uuid env n" using assms(1) by (auto simp: approval_ok_def)
      then show ?thesis using True assms(2) by (auto dest: injD)
    qed simp
    then show ?thesis using assms(1,3) True ran
      by (auto simp: approval_ok_def handle_approval_def Let_def decided_def)
  next
    case False
    then have "dget (xs_pending st') aid = dget (xs_pending st) aid" "xs_next st' = xs_next st + 1"
      using assms(3) by (auto simp: handle_approval_def Let_def)
    then show ?thesis using assms(1) ran by (auto simp: approval_ok_def decided_def less_Suc_eq split: option.splits)
  qed
qed

lemma approval_ok_same:
  "approval_ok env st aid \<Longrightarrow> xs_pending st' = xs_pending st \<Longrightarrow> xs_next st' = xs_next st
     \<Longrightarrow> approved_runs aid st' = approved_runs aid st \<Longrightarrow> approval_ok env st' aid"
  unfolding approval_ok_def by (simp only:)

lemma check_tool_call_approval:
  assumes "approval_ok env st aid" and "inj (te_uuid env)" and "check_tool_call now env ctx tc st = (m, st')"
  shows "approval_ok env st' aid \<and> (decided aid st \<longrightarrow> decided aid st')"
  using assms(3)
proof (cases rule: check_tool_call_cases)
  case approval
  then show ?thesis using handle_approval_ok [OF assms(1,2), of ctx tc] by (cases "handle_approval env ctx tc st") simp
qed (use assms(1) in \<open>auto simp: decided_def elim!: approval_ok_same intro: approved_runs_same\<close>)

lemma check_calls_approval:
  "check_calls env ctx calls st = (allowed, st') \<Longrightarrow> approval_ok env st aid \<Longrightarrow> inj (te_uuid env)
     \<Longrightarrow> approval_ok env st' aid \<and> (decided aid st \<longrightarrow> decided aid st')"
proof (induction env ctx calls st arbitrary: allowed st' rule: check_calls.induct)
  case (2 env ctx now tc calls st)
  obtain m st1 where c: "check_tool_call now env ctx tc st = (m, st1)" by (cases "check_tool_call now env ctx tc st")
  note step = check_tool_call_approval [OF 2(4,5) c]
  show ?case
  proof (cases m)
    case None
    then obtain rest where rest: "check_calls env ctx calls st1 = (rest, st')" using 2(3) c by (auto split: prod.splits)
    from 2(1) [OF c [symmetric] None rest] step 2(5) show ?thesis by blast
  next
    case (Some x)
    let ?st = "st1\<lparr>xs_messages := xs_messages st1 @ [x]\<rparr>"
    have "check_calls env ctx calls ?st = (allowed, st')" using 2(3) c Some by simp
    moreover have "approval_ok env ?st aid"
      by (rule approval_ok_same [of env st1]) (use step in \<open>simp_all add: approved_runs_def\<close>)
    moreover have "decided aid ?st \<longleftrightarrow> decided aid st1" by (simp add: decided_def)
    ultimately show ?thesis using 2(2) [OF c [symmetric] Some] 2(5) step by blast
  qed
qed simp

lemma process_approval:
  assumes "approval_ok env st aid" and "inj (te_uuid env)"
  shows "approval_ok env (process_tool_calls env ctx calls st) aid
    \<and> approved_runs aid (process_tool_calls env ctx calls st) = approved_runs aid st
    \<and> (decided aid st \<longrightarrow> decided aid (process_tool_calls env ctx calls st))"
proof -
  obtain allowed st' where c: "check_calls env ctx calls st = (allowed, st')" by (cases "check_calls env ctx calls st")
  have ran: "xs_ran st' = xs_ran st" using check_calls_spec [OF c] by blast
  have new: "filter (\<lambda>x. fst x = ByApproval aid) (concat (map (\<lambda>tc. map (Pair (ByCall tc)) (f tc)) tcs)) = []" for f tcs
    by (induction tcs) (auto simp: filter_empty_conv)
  let ?st = "process_tool_calls env ctx calls st"
  have "xs_pending ?st = xs_pending st'" "xs_next ?st = xs_next st'"
    "approved_runs aid ?st = approved_runs aid st'"
    by (auto simp: process_tool_calls_def c execute_calls_def approved_runs_def new)
  moreover have "approved_runs aid st' = approved_runs aid st" using ran by (rule approved_runs_same)
  ultimately show ?thesis using check_calls_approval [OF c assms] by (auto simp: decided_def intro: approval_ok_same)
qed

lemma approve_with_approval:
  assumes "approval_ok env st aid"
  shows "approval_ok env (snd (approve_with f env bid st)) aid
    \<and> (decided aid st \<longrightarrow> decided aid (snd (approve_with f env bid st))
         \<and> approved_runs aid (snd (approve_with f env bid st)) = approved_runs aid st)"
  using assms
  by (cases "aid = bid"; cases "dget (xs_pending st) bid")
    (auto simp: approve_with_def approval_ok_def decided_def approved_runs_def split: option.splits if_splits)

lemma deny_approval:
  assumes "approval_ok env st aid"
  shows "approval_ok env (deny_tool bid st) aid
    \<and> approved_runs aid (deny_tool bid st) = approved_runs aid st \<and> (decided aid st \<longrightarrow> decided aid (deny_tool bid st))"
  using assms
  by (cases "aid = bid"; cases "dget (xs_pending st) bid")
    (auto simp: deny_tool_def approval_ok_def decided_def approved_runs_def split: option.splits if_splits)

lemma exec_step_approval:
  assumes "approval_ok env st aid" and "inj (te_uuid env)"
  shows "approval_ok env (exec_step env op st) aid
    \<and> (decided aid st \<longrightarrow> decided aid (exec_step env op st) \<and> approved_runs aid (exec_step env op st) = approved_runs aid st)"
  using process_approval [OF assms] approve_with_approval [OF assms(1)] deny_approval [OF assms(1)]
  by (cases op) (simp_all add: approve_tool_def coordinator_approve_tool_def)

interpretation approval_machine: machine "exec_step env" "\<lambda>st. inj (te_uuid env) \<and> approval_ok env st aid" for env aid
  by unfold_locales (use exec_step_approval in blast)

lemma exec_run_approval:
  "approval_ok env st aid \<Longrightarrow> inj (te_uuid env) \<Longrightarrow> approval_ok env (fold (exec_step env) ops st) aid
    \<and> (decided aid st \<longrightarrow> approved_runs aid (fold (exec_step env) ops st) = approved_runs aid st)"
proof (induction ops arbitrary: st)
  case (Cons op ops)
  from Cons.IH [of "exec_step env op st"] exec_step_approval [OF Cons.prems, of op] Cons.prems(2) show ?case by auto
qed simp

text \<open>
  C12. An approval runs at most once, and only what was asked for. Over any sequence of processed calls, approvals
  and denials, in any order and repeated, each approval has run its tool at most once, with the arguments that were
  shown to the user; and once it has been approved or denied nothing that follows makes it run.
\<close>

theorem approval_runs_once:
  assumes "inj (te_uuid env)" and "st = fold (exec_step env) ops (new_exec_state g)"
  shows "(approved_runs aid st = []
       \<or> (\<exists>a. dget (xs_pending st) aid = Some a \<and> approved_runs aid st = [RanTool (ap_tool a) (ap_args a)]))
    \<and> (decided aid st \<longrightarrow> approved_runs aid (fold (exec_step env) ops' st) = approved_runs aid st)"
proof -
  have "approval_ok env (new_exec_state g) aid" by (simp add: approval_ok_def new_exec_state_def approved_runs_def)
  then have ok: "approval_ok env st aid"
    using approval_machine.run_inv [of env "new_exec_state g" aid ops] assms by blast
  then have "approved_runs aid st = []
      \<or> (\<exists>a. dget (xs_pending st) aid = Some a \<and> approved_runs aid st = [RanTool (ap_tool a) (ap_args a)])"
    by (auto simp: approval_ok_def split: option.splits if_splits)
  then show ?thesis using exec_run_approval [OF ok assms(1)] by blast
qed

theorem approval_runs_once_witness:
  "let st = fold (exec_step demo_env) [Process \<lparr>cx_user = ''eve'', cx_channel = ''web''\<rparr> [(0, \<lparr>tc_id = ''1'', tc_name = ''rm'', tc_args = []\<rparr>)],
        Approve [], Approve []] (new_exec_state (new_guard [] [''rm''] [] []))
   in approved_runs [] st = [] \<or> (\<exists>a. dget (xs_pending st) [] = Some a \<and> approved_runs [] st = [RanTool (ap_tool a) (ap_args a)])"
  unfolding Let_def by (rule approval_runs_once [THEN conjunct1, OF demo_uuid_inj refl])

section \<open>Hooks and the sandbox\<close>

definition block_all :: "string \<Rightarrow> json_obj \<Rightarrow> exn + tool_hook_result" where
  "block_all name args = Inr \<lparr>th_action = ''block'', th_modified = None, th_context = [], th_reason = ''no''\<rparr>"

text \<open>
  A hook that blocks a tool keeps it from running, but not a shell command that goes to the sandbox, and not a
  tool that the user approves: those run before, or without, any hook.
\<close>

theorem hooks_skipped:
  assumes "te_hooks env = Some (block_all, post)"
  shows "(te_sandbox env = None \<or> tc_name tc \<noteq> ''shell_exec'' \<longrightarrow> snd (execute_one env ctx tc) = [])
    \<and> (te_sandbox env \<noteq> None \<and> tc_name tc = ''shell_exec'' \<longrightarrow> snd (execute_one env ctx tc) =
         [RanSandbox (dget_or (tc_args tc) ''command'' (JStr [])) (dget_or (tc_args tc) ''workdir'' JNull)])
    \<and> (dget (xs_pending st) aid = Some a \<and> ap_status a = ''pending'' \<longrightarrow>
         approved_runs aid (snd (approve_tool env aid st)) = approved_runs aid st @ [RanTool (ap_tool a) (ap_args a)])"
  using assms
  by (auto simp: execute_one_def pre_hook_args_def block_all_def approve_tool_def approve_with_def approved_runs_def Let_def
      split: option.split)

theorem hooks_skipped_witness:
  "let env = demo_env\<lparr>te_hooks := Some (block_all, \<lambda>_ _ _ _. block_all [] []), te_sandbox := Some (\<lambda>_ _. ToResult True ''ok'' False)\<rparr>
   in snd (execute_one env \<lparr>cx_user = ''eve'', cx_channel = ''web''\<rparr>
        \<lparr>tc_id = ''1'', tc_name = ''shell_exec'', tc_args = [(''command'', JStr ''ls'')]\<rparr>) = [RanSandbox (JStr ''ls'') JNull]"
proof -
  let ?env = "demo_env\<lparr>te_hooks := Some (block_all, \<lambda>_ _ _ _. block_all [] []), te_sandbox := Some (\<lambda>_ _. ToResult True ''ok'' False)\<rparr>"
  have "te_hooks ?env = Some (block_all, \<lambda>_ _ _ _. block_all [] [])" by simp
  from hooks_skipped [OF this, of "\<lparr>tc_id = ''1'', tc_name = ''shell_exec'', tc_args = [(''command'', JStr ''ls'')]\<rparr>"]
  show ?thesis by (simp add: dget_or_def)
qed

end
