(* ===== verification/Tool_Registry.thy ===== *)
theory Tool_Registry
  imports Hooks Tool_Exec
begin

text \<open>
  The registry of tools (\<open>src/src/breadmind/tools/registry.py\<close>): coercion of arguments, the cache of results, registering and
  running tools; and the tool hooks (\<open>core/tool_hooks.py\<close>) with their adapters to hook chains (\<open>hooks/legacy_adapters.py\<close>).

  A tool is a function of the number of runs before and its arguments. The hash of a call, the text of a value, the reading of a
  float, JSON text and the clock are parameters.
\<close>

section \<open>Arguments\<close>

text \<open>\<open>float(s)\<close> of a text, \<open>str(v)\<close> of a value.\<close>

record conversions =
  cv_float :: "string \<Rightarrow> exn + real"
  cv_str :: "json \<Rightarrow> string"

fun type_name :: "json \<Rightarrow> string" where
  "type_name JNull = ''NoneType''"
| "type_name (JBool _) = ''bool''"
| "type_name (JInt _) = ''int''"
| "type_name (JFloat _) = ''float''"
| "type_name (JStr _) = ''str''"
| "type_name (JList _) = ''list''"
| "type_name (JObj _) = ''dict''"

definition cannot_convert :: "json \<Rightarrow> string \<Rightarrow> exn" where
  "cannot_convert v t = TypeError (''Cannot convert '' @ type_name v @ '' to '' @ t)"

definition to_integer :: "json \<Rightarrow> exn + json" where
  "to_integer v =
     (case v of
        JInt i \<Rightarrow> Inr v
      | JStr s \<Rightarrow> bind_res (int_of_str s) (\<lambda>i. Inr (JInt i))
      | JFloat x \<Rightarrow> Inr (JInt (real_trunc x))
      | _ \<Rightarrow> Inl (cannot_convert v ''integer''))"

definition to_number :: "conversions \<Rightarrow> json \<Rightarrow> exn + json" where
  "to_number cv v =
     (case v of
        JInt i \<Rightarrow> Inr (JFloat (of_int i))
      | JFloat x \<Rightarrow> Inr v
      | JStr s \<Rightarrow> bind_res (cv_float cv s) (\<lambda>x. Inr (JFloat x))
      | _ \<Rightarrow> Inl (cannot_convert v ''number''))"

definition yes_words :: "string set" where "yes_words = {''true'', ''1'', ''yes''}"

definition no_words :: "string set" where "no_words = {''false'', ''0'', ''no''}"

definition to_boolean :: "json \<Rightarrow> exn + json" where
  "to_boolean v =
     (case v of
        JBool b \<Rightarrow> Inr v
      | JStr s \<Rightarrow>
          if str_lower s \<in> yes_words then Inr (JBool True)
          else if str_lower s \<in> no_words then Inr (JBool False)
          else Inl (cannot_convert v ''boolean'')
      | _ \<Rightarrow> Inl (cannot_convert v ''boolean''))"

definition to_string :: "conversions \<Rightarrow> json \<Rightarrow> exn + json" where
  "to_string cv v = (case v of JStr s \<Rightarrow> Inr v | _ \<Rightarrow> Inr (JStr (cv_str cv v)))"

definition coerce_type :: "conversions \<Rightarrow> json \<Rightarrow> string \<Rightarrow> exn + json" where
  "coerce_type cv v t =
     (if t = ''integer'' then to_integer v
      else if t = ''number'' then to_number cv v
      else if t = ''boolean'' then to_boolean v
      else if t = ''string'' then to_string cv v
      else Inr v)"

definition expected_type :: "schema \<Rightarrow> string \<Rightarrow> string option" where
  "expected_type s k =
     (case dget (properties_of s) k of
        None \<Rightarrow> None
      | Some p \<Rightarrow> (case sc_type p of Some t \<Rightarrow> if t = [] then None else Some t | None \<Rightarrow> None))"

definition coerce_argument :: "conversions \<Rightarrow> schema \<Rightarrow> string \<Rightarrow> json \<Rightarrow> exn + json" where
  "coerce_argument cv s k v =
     (case expected_type s k of
        Some t \<Rightarrow>
          if v = JNull then Inr v
          else (case coerce_type cv v t of
            Inr w \<Rightarrow> Inr w
          | Inl e \<Rightarrow> Inl (ValueError (''Parameter '' @ quoted k @ '': cannot convert '' @ type_name v @ '' to '' @ t @ '': '' @ exn_str e)))
      | None \<Rightarrow> Inr v)"

fun coerce_arguments :: "conversions \<Rightarrow> string list \<Rightarrow> schema \<Rightarrow> json_obj \<Rightarrow> exn + json_obj" where
  "coerce_arguments cv params s [] = Inr []"
| "coerce_arguments cv params s ((k, v) # args) =
     (if k \<notin> set params then coerce_arguments cv params s args
      else bind_res (coerce_argument cv s k v) (\<lambda>w. bind_res (coerce_arguments cv params s args) (\<lambda>rest. Inr ((k, w) # rest))))"

definition max_output_size :: nat where "max_output_size = 50000"

definition truncate_output :: "string \<Rightarrow> string" where
  "truncate_output s =
     (if length s > max_output_size
      then take max_output_size s @ ''[...truncated, showing first '' @ nat_str max_output_size @ '' chars]'' else s)"

section \<open>Cached results\<close>

record tool_result =
  tr_success :: bool
  tr_output :: string
  tr_not_found :: bool

record result_cache =
  rc_items :: "(string, real \<times> tool_result) dict"
  rc_ttl :: int
  rc_max :: int

definition new_cache :: "int \<Rightarrow> int \<Rightarrow> result_cache" where
  "new_cache ttl n = \<lparr>rc_items = [], rc_ttl = ttl, rc_max = n\<rparr>"

definition result_get :: "real \<Rightarrow> string \<Rightarrow> result_cache \<Rightarrow> tool_result option \<times> result_cache" where
  "result_get now key c =
     (case dget (rc_items c) key of
        None \<Rightarrow> (None, c)
      | Some (ts, r) \<Rightarrow>
          if now - ts < of_int (rc_ttl c) then (Some r, c) else (None, c\<lparr>rc_items := dpop key (rc_items c)\<rparr>))"

definition oldest_key :: "(string, real \<times> tool_result) dict \<Rightarrow> string" where
  "oldest_key items = fst (arg_min_list (\<lambda>p. fst (snd p)) items)"

text \<open>A full cache drops its oldest entry; with a size of zero there is none to drop.\<close>

definition result_set :: "real \<Rightarrow> string \<Rightarrow> tool_result \<Rightarrow> result_cache \<Rightarrow> exn + result_cache" where
  "result_set now key r c =
     (if int (length (rc_items c)) \<ge> rc_max c \<and> rc_items c = [] then Inl (ValueError ''min() arg is an empty sequence'')
      else
        let items = (if int (length (rc_items c)) \<ge> rc_max c then dpop (oldest_key (rc_items c)) (rc_items c) else rc_items c)
        in Inr (c\<lparr>rc_items := dset key (now, r) items\<rparr>))"

section \<open>Registering tools\<close>

text \<open>A function with what the decorator attached to it; \<open>tf_run n args\<close> is the outcome of the \<open>n\<close>-th run, as text.\<close>

record tool_fn =
  tf_name :: string
  tf_definition :: "(string \<times> schema) option"
  tf_metadata :: "(bool \<times> bool) option"
  tf_params :: "string list"
  tf_run :: "nat \<Rightarrow> json_obj \<Rightarrow> exn + string"

type_synonym mcp_callback = "nat \<Rightarrow> string \<Rightarrow> string \<Rightarrow> json_obj \<Rightarrow> exn + tool_result"

text \<open>\<open>tg_runs\<close> is a ghost: the tools that ran, with the arguments they got.\<close>

record registry_state =
  tg_tools :: "(string, tool_fn) dict"
  tg_definitions :: "(string, schema) dict"
  tg_mcp :: "(string, string) dict"
  tg_callback :: "mcp_callback option"
  tg_metadata :: "(string, bool \<times> bool) dict"
  tg_cache :: "result_cache option"
  tg_cacheable :: "string list"
  tg_validator :: bool
  tg_runs :: "(string \<times> json_obj) list"

definition new_registry :: "result_cache option \<Rightarrow> string list \<Rightarrow> bool \<Rightarrow> registry_state" where
  "new_registry cache cacheable validator =
     \<lparr>tg_tools = [], tg_definitions = [], tg_mcp = [], tg_callback = None, tg_metadata = [], tg_cache = cache,
      tg_cacheable = cacheable, tg_validator = validator, tg_runs = []\<rparr>"

definition register_tool :: "tool_fn \<Rightarrow> registry_state \<Rightarrow> exn + registry_state" where
  "register_tool f g =
     (case tf_definition f of
        None \<Rightarrow> Inl (ValueError (tf_name f @ '' is not decorated with @tool''))
      | Some (name, s) \<Rightarrow>
          let g1 = g\<lparr>tg_tools := dset name f (tg_tools g), tg_definitions := dset name s (tg_definitions g)\<rparr> in
          Inr (case tf_metadata f of None \<Rightarrow> g1 | Some m \<Rightarrow> g1\<lparr>tg_metadata := dset name m (tg_metadata g1)\<rparr>))"

definition unregister_tool :: "string \<Rightarrow> registry_state \<Rightarrow> bool \<times> registry_state" where
  "unregister_tool name g =
     (dget (tg_tools g) name \<noteq> None,
      g\<lparr>tg_tools := dpop name (tg_tools g), tg_definitions := dpop name (tg_definitions g)\<rparr>)"

definition register_mcp_tool :: "string \<times> schema \<Rightarrow> string \<Rightarrow> mcp_callback option \<Rightarrow> registry_state \<Rightarrow> registry_state" where
  "register_mcp_tool d server cb g =
     g\<lparr>tg_definitions := dset (fst d) (snd d) (tg_definitions g), tg_mcp := dset (fst d) server (tg_mcp g),
       tg_callback := (case cb of None \<Rightarrow> tg_callback g | Some c \<Rightarrow> Some c)\<rparr>"

definition unregister_mcp_tools :: "string \<Rightarrow> registry_state \<Rightarrow> registry_state" where
  "unregister_mcp_tools server g =
     (let gone = map fst (filter (\<lambda>(_, srv). srv = server) (tg_mcp g)) in
      g\<lparr>tg_definitions := fold dpop gone (tg_definitions g), tg_mcp := fold dpop gone (tg_mcp g)\<rparr>)"

definition has_tool :: "string \<Rightarrow> registry_state \<Rightarrow> bool" where
  "has_tool name g \<longleftrightarrow> name \<in> set (dkeys (tg_tools g)) \<or> name \<in> set (dkeys (tg_mcp g))"

definition list_tools :: "registry_state \<Rightarrow> string list" where
  "list_tools g = dkeys (tg_definitions g)"

definition get_tool_source :: "string \<Rightarrow> registry_state \<Rightarrow> string" where
  "get_tool_source name g =
     (if name \<in> set (dkeys (tg_tools g)) then ''builtin''
      else case dget (tg_mcp g) name of Some srv \<Rightarrow> if srv \<noteq> [] then ''mcp:'' @ srv else ''unknown'' | None \<Rightarrow> ''unknown'')"

definition register_metadata :: "string \<Rightarrow> bool \<times> bool \<Rightarrow> registry_state \<Rightarrow> registry_state" where
  "register_metadata name m g = g\<lparr>tg_metadata := dset name m (tg_metadata g)\<rparr>"

definition get_metadata :: "string \<Rightarrow> registry_state \<Rightarrow> bool \<times> bool" where
  "get_metadata name g = dget_or (tg_metadata g) name (False, True)"

definition parallel_safe :: "registry_state \<Rightarrow> string \<Rightarrow> bool" where
  "parallel_safe g name \<longleftrightarrow> fst (get_metadata name g) \<and> snd (get_metadata name g)"

definition classify_batch :: "string list \<Rightarrow> registry_state \<Rightarrow> string list \<times> string list" where
  "classify_batch names g = (filter (parallel_safe g) names, filter (\<lambda>n. \<not> parallel_safe g n) names)"

section \<open>Running a tool\<close>

record registry_env =
  re_key :: "string \<Rightarrow> json_obj \<Rightarrow> string"
  re_conv :: conversions
  re_hooks :: "((string \<Rightarrow> json_obj \<Rightarrow> exn + tool_hook_result) \<times> (string \<Rightarrow> json_obj \<Rightarrow> string \<Rightarrow> bool \<Rightarrow> exn + tool_hook_result)) option"
  re_describe :: "schema_error list \<Rightarrow> string"

definition failure :: "string \<Rightarrow> tool_result" where
  "failure out = \<lparr>tr_success = False, tr_output = out, tr_not_found = False\<rparr>"

definition post_hooked :: "registry_env \<Rightarrow> string \<Rightarrow> json_obj \<Rightarrow> tool_result \<Rightarrow> exn + tool_result" where
  "post_hooked env name args r =
     (case re_hooks env of
        None \<Rightarrow> Inr r
      | Some (_, post) \<Rightarrow> bind_res (post name args (tr_output r) (tr_success r)) (\<lambda>p.
          Inr (if th_context p \<noteq> []
               then \<lparr>tr_success = tr_success r, tr_output = tr_output r @ [newline] @ th_context p, tr_not_found = False\<rparr> else r)))"

definition store_result :: "registry_env \<Rightarrow> real \<Rightarrow> string \<Rightarrow> json_obj \<Rightarrow> tool_result \<Rightarrow> (registry_state, unit) prog" where
  "store_result env now name args r =
     bind_s get_s (\<lambda>g.
       case tg_cache g of
         None \<Rightarrow> ret ()
       | Some c \<Rightarrow>
           if name \<in> set (tg_cacheable g) \<and> tr_success r then
             bind_s (lift_res (result_set now (re_key env name args) r c)) (\<lambda>c'. modify_s (\<lambda>g. g\<lparr>tg_cache := Some c'\<rparr>))
           else ret ())"

text \<open>The end of a run: the post-hooks, then the cache.\<close>

definition finish_run :: "registry_env \<Rightarrow> real \<Rightarrow> string \<Rightarrow> json_obj \<Rightarrow> tool_result \<Rightarrow> (registry_state, tool_result) prog" where
  "finish_run env now name args r =
     bind_s (lift_res (post_hooked env name args r)) (\<lambda>r'. then_s (store_result env now name args r') (ret r'))"

definition note_run :: "string \<Rightarrow> json_obj \<Rightarrow> (registry_state, nat) prog" where
  "note_run name args =
     bind_s get_s (\<lambda>g. then_s (modify_s (\<lambda>g. g\<lparr>tg_runs := tg_runs g @ [(name, args)]\<rparr>)) (ret (length (tg_runs g))))"

definition builtin_error :: "exn \<Rightarrow> tool_result" where
  "builtin_error e = failure ((case e of ValueError _ \<Rightarrow> ''Validation error: '' | _ \<Rightarrow> ''Tool error: '') @ exn_str e)"

definition run_builtin :: "registry_env \<Rightarrow> real \<Rightarrow> string \<Rightarrow> json_obj \<Rightarrow> tool_fn \<Rightarrow> schema option \<Rightarrow> (registry_state, tool_result) prog" where
  "run_builtin env now name args f defn =
     try_s
       (bind_s (lift_res (case defn of
            Some s \<Rightarrow> coerce_arguments (re_conv env) (tf_params f) s args
          | None \<Rightarrow> Inr (filter (\<lambda>(k, _). k \<in> set (tf_params f)) args))) (\<lambda>args'.
        bind_s (note_run name args') (\<lambda>n.
        bind_s (lift_res (tf_run f n args')) (\<lambda>out.
        finish_run env now name args' \<lparr>tr_success = True, tr_output = truncate_output out, tr_not_found = False\<rparr>))))
       (\<lambda>e. ret (builtin_error e))"

text \<open>\<open>name.split("__", 1)[1]\<close>: what follows the first double underscore.\<close>

fun after_double :: "string \<Rightarrow> string option" where
  "after_double (a # b # cs) = (if a = CHR ''_'' \<and> b = CHR ''_'' then Some cs else after_double (b # cs))"
| "after_double _ = None"

definition original_name :: "string \<Rightarrow> string" where
  "original_name name = (case after_double name of None \<Rightarrow> name | Some r \<Rightarrow> r)"

definition run_mcp :: "registry_env \<Rightarrow> real \<Rightarrow> string \<Rightarrow> json_obj \<Rightarrow> string \<Rightarrow> mcp_callback \<Rightarrow> (registry_state, tool_result) prog" where
  "run_mcp env now name args server cb =
     bind_s (note_run name args) (\<lambda>n.
     bind_s (lift_res (cb n server (original_name name) args)) (\<lambda>r. finish_run env now name args r))"

text \<open>The part of \<open>execute\<close> after the cache and the validation.\<close>

definition run_registered :: "registry_env \<Rightarrow> real \<Rightarrow> string \<Rightarrow> json_obj \<Rightarrow> (registry_state, tool_result) prog" where
  "run_registered env now name args =
     bind_s get_s (\<lambda>g.
       case dget (tg_tools g) name of
         Some f \<Rightarrow> run_builtin env now name args f (dget (tg_definitions g) name)
       | None \<Rightarrow>
           (case (dget (tg_mcp g) name, tg_callback g) of
              (Some server, Some cb) \<Rightarrow> run_mcp env now name args server cb
            | _ \<Rightarrow> ret \<lparr>tr_success = False, tr_output = ''Tool not found: '' @ name, tr_not_found = True\<rparr>))"

definition registry_errors :: "registry_state \<Rightarrow> string \<Rightarrow> json_obj \<Rightarrow> schema_error list" where
  "registry_errors g name args =
     (if tg_validator g then (case dget (tg_definitions g) name of None \<Rightarrow> [] | Some s \<Rightarrow> validate_args args s) else [])"

text \<open>The pre-hooks: a reason to refuse the call, or the arguments to go on with.\<close>

definition pre_hooked :: "registry_env \<Rightarrow> string \<Rightarrow> json_obj \<Rightarrow> exn + (string + json_obj)" where
  "pre_hooked env name args =
     (case re_hooks env of
        None \<Rightarrow> Inr (Inr args)
      | Some (pre, _) \<Rightarrow> bind_res (pre name args) (\<lambda>p.
          Inr (if th_action p = ''block'' then Inl (th_reason p)
               else (case th_modified p of
                 Some m \<Rightarrow> Inr (if th_action p = ''modify'' then m else args)
               | None \<Rightarrow> Inr args))))"

definition cached_result :: "registry_env \<Rightarrow> real \<Rightarrow> string \<Rightarrow> json_obj \<Rightarrow> (registry_state, tool_result option) prog" where
  "cached_result env now name args =
     bind_s get_s (\<lambda>g.
       case tg_cache g of
         None \<Rightarrow> ret None
       | Some c \<Rightarrow>
           if name \<in> set (tg_cacheable g) then
             (let (r, c') = result_get now (re_key env name args) c in then_s (modify_s (\<lambda>g. g\<lparr>tg_cache := Some c'\<rparr>)) (ret r))
           else ret None)"

text \<open>\<open>execute\<close>, which reads the clock for the lookup and for the entry.\<close>

definition registry_execute ::
  "registry_env \<Rightarrow> real \<Rightarrow> real \<Rightarrow> string \<Rightarrow> json_obj \<Rightarrow> (registry_state, tool_result) prog"
where
  "registry_execute env now1 now2 name args =
     bind_s (cached_result env now1 name args) (\<lambda>hit.
       case hit of
         Some r \<Rightarrow> ret r
       | None \<Rightarrow> bind_s get_s (\<lambda>g.
           if registry_errors g name args \<noteq> [] then
             ret (failure (''Schema validation failed: '' @ re_describe env (registry_errors g name args)))
           else bind_s (lift_res (pre_hooked env name args)) (\<lambda>p.
             case p of
               Inl reason \<Rightarrow> ret (failure (''Blocked by hook: '' @ reason))
             | Inr args' \<Rightarrow> run_registered env now2 name args')))"

section \<open>Coerced arguments have their types\<close>

definition scalar_type :: "string \<Rightarrow> bool" where
  "scalar_type t \<longleftrightarrow> t = ''integer'' \<or> t = ''number'' \<or> t = ''boolean'' \<or> t = ''string''"

lemma coerce_type_typed:
  assumes "coerce_type cv v t = Inr w" "scalar_type t"
  shows "validate_type w t"
proof -
  from assms(2) consider (i) "t = ''integer''" | (n) "t = ''number''" | (b) "t = ''boolean''" | (s) "t = ''string''"
    by (auto simp: scalar_type_def)
  then show ?thesis
  proof cases
    case i
    then show ?thesis using assms(1)
      by (cases v) (auto simp: coerce_type_def to_integer_def validate_type_def bind_res_eq_Inr)
  next
    case n
    then show ?thesis using assms(1)
      by (cases v) (auto simp: coerce_type_def to_number_def validate_type_def bind_res_eq_Inr)
  next
    case b
    then show ?thesis using assms(1)
      by (cases v) (auto simp: coerce_type_def to_boolean_def validate_type_def split: if_splits)
  next
    case s
    then show ?thesis using assms(1)
      by (cases v) (auto simp: coerce_type_def to_string_def validate_type_def)
  qed
qed

lemma coerce_type_other: "\<not> scalar_type t \<Longrightarrow> coerce_type cv v t = Inr v"
  by (simp add: coerce_type_def scalar_type_def)

text \<open>What the coercion promises of one argument: its type where the schema names a scalar one, and otherwise the value it had.\<close>

definition well_typed :: "schema \<Rightarrow> json_obj \<Rightarrow> string \<Rightarrow> json \<Rightarrow> bool" where
  "well_typed s args k v \<longleftrightarrow>
     (case expected_type s k of
        None \<Rightarrow> (k, v) \<in> set args
      | Some t \<Rightarrow> if v = JNull \<or> \<not> scalar_type t then (k, v) \<in> set args else validate_type v t)"

lemma coerce_argument_typed:
  assumes "coerce_argument cv s k v = Inr w" "(k, v) \<in> set args"
  shows "well_typed s args k w"
proof (cases "expected_type s k")
  case None
  with assms show ?thesis by (simp add: coerce_argument_def well_typed_def)
next
  case (Some t)
  show ?thesis
  proof (cases "v = JNull")
    case True
    with assms Some show ?thesis by (simp add: coerce_argument_def well_typed_def)
  next
    case False
    with assms(1) Some have c: "coerce_type cv v t = Inr w" by (simp add: coerce_argument_def split: sum.splits)
    show ?thesis
    proof (cases "scalar_type t")
      case True
      from coerce_type_typed [OF c True] have "validate_type w t" .
      moreover have "w \<noteq> JNull" using calculation True
        by (auto simp: validate_type_def scalar_type_def split: if_splits)
      ultimately show ?thesis using Some True by (simp add: well_typed_def)
    next
      case no: False
      with c assms(2) Some show ?thesis by (simp add: well_typed_def coerce_type_other)
    qed
  qed
qed

lemma well_typed_mono: "well_typed s args k v \<Longrightarrow> set args \<subseteq> set args' \<Longrightarrow> well_typed s args' k v"
  by (auto simp: well_typed_def split: option.splits if_splits)

text \<open>
  C13. The arguments a tool function is called with are those of the call that it has parameters for, in the order of the call; and
  each has the type that the schema declares for it, where that is a scalar type and the value is not null, or is unchanged.
\<close>

theorem coerced_arguments_typed:
  assumes "coerce_arguments cv params s args = Inr out"
  shows "dkeys out = filter (\<lambda>k. k \<in> set params) (dkeys args) \<and> (\<forall>(k, v) \<in> set out. well_typed s args k v)"
  using assms
proof (induction args arbitrary: out)
  case (Cons p args)
  obtain k v where p: "p = (k, v)" by (cases p)
  show ?case
  proof (cases "k \<in> set params")
    case True
    with Cons.prems p obtain w rest where w: "coerce_argument cv s k v = Inr w"
      and rest: "coerce_arguments cv params s args = Inr rest" and out: "out = (k, w) # rest"
      by (auto simp: bind_res_eq_Inr)
    have "well_typed s (p # args) k w" by (rule coerce_argument_typed [OF w]) (simp add: p)
    with Cons.IH [OF rest] True out p show ?thesis by (auto intro: well_typed_mono)
  next
    case False
    with Cons p show ?thesis by (auto intro: well_typed_mono)
  qed
qed simp

theorem coerced_arguments_typed_witness:
  "let s = Schema None None None None None None (Some [(''n'', Schema (Some ''integer'') None None None None None None [] False)]) [] False;
       out = [(''n'', JInt 12)]
   in coerce_arguments \<lparr>cv_float = (\<lambda>_. Inl (ValueError [])), cv_str = (\<lambda>_. [])\<rparr> [''n''] s [(''n'', JStr ''12''), (''x'', JNull)] = Inr out
      \<and> validate_type (snd (hd out)) ''integer''"
proof -
  let ?s = "Schema None None None None None None (Some [(''n'', Schema (Some ''integer'') None None None None None None [] False)]) [] False"
  let ?cv = "\<lparr>cv_float = (\<lambda>_. Inl (ValueError [])), cv_str = (\<lambda>_. [])\<rparr>"
  have e: "expected_type ?s ''n'' = Some ''integer''" by (simp add: expected_type_def properties_of_def)
  have "int_of_str ''12'' = Inr 12" by (simp add: int_of_str_def str_strip_def is_space_def is_digit_def digits_val_def Let_def)
  then have c: "coerce_arguments ?cv [''n''] ?s [(''n'', JStr ''12''), (''x'', JNull)] = Inr [(''n'', JInt 12)]"
    by (simp add: coerce_argument_def e coerce_type_def to_integer_def)
  from coerced_arguments_typed [OF this] have "well_typed ?s [(''n'', JStr ''12''), (''x'', JNull)] ''n'' (JInt 12)" by simp
  with c show ?thesis by (simp add: well_typed_def e scalar_type_def)
qed

section \<open>What runs\<close>

text \<open>Everything but \<open>note_run\<close> leaves the record of the runs alone.\<close>

lemma keeps_store_result: "keeps (\<lambda>g. tg_runs g = rs) (store_result env now name args r)"
  unfolding store_result_def
  by (auto intro!: keeps_bind_s keeps_get_s keeps_ret keeps_lift_res keeps_modify_s split: option.split)

lemma finish_run_runs: "tg_runs (snd (finish_run env now name args r g)) = tg_runs g"
proof -
  have "keeps (\<lambda>h. tg_runs h = tg_runs g) (finish_run env now name args r)"
    unfolding finish_run_def by (intro keeps_bind_s keeps_store_result keeps_ret keeps_lift_res)
  from keepsD [OF this] show ?thesis by simp
qed

text \<open>The arguments that a tool of the registry gets for the arguments \<open>args\<close>.\<close>

definition final_args :: "registry_env \<Rightarrow> registry_state \<Rightarrow> string \<Rightarrow> json_obj \<Rightarrow> json_obj \<Rightarrow> bool" where
  "final_args env g name args args' \<longleftrightarrow>
     (case dget (tg_tools g) name of
        None \<Rightarrow> args' = args
      | Some f \<Rightarrow>
          (case dget (tg_definitions g) name of
             Some s \<Rightarrow> coerce_arguments (re_conv env) (tf_params f) s args = Inr args'
           | None \<Rightarrow> args' = filter (\<lambda>(k, _). k \<in> set (tf_params f)) args))"

definition runs_at_most :: "registry_state \<Rightarrow> registry_state \<Rightarrow> string \<Rightarrow> (json_obj \<Rightarrow> bool) \<Rightarrow> bool" where
  "runs_at_most g g' name P \<longleftrightarrow> tg_runs g' = tg_runs g \<or> (\<exists>args'. tg_runs g' = tg_runs g @ [(name, args')] \<and> P args')"

lemma runs_at_most_refl: "runs_at_most g g name P"
  by (simp add: runs_at_most_def)

lemma note_then_finish:
  "tg_runs (snd (bind_s (note_run name a) (\<lambda>n. bind_s (lift_res (f n)) (\<lambda>out. finish_run env now name a (h out))) g))
     = tg_runs g @ [(name, a)]"
  by (cases "f (length (tg_runs g))") (simp_all add: bind_s_def note_run_def get_s_def modify_s_def ret_def lift_res_def finish_run_runs)

lemma run_builtin_runs:
  assumes "dget (tg_tools g) name = Some f"
  shows "runs_at_most g (snd (run_builtin env now name args f (dget (tg_definitions g) name) g)) name (final_args env g name args)"
proof -
  obtain c where c: "c = (case dget (tg_definitions g) name of Some s \<Rightarrow> coerce_arguments (re_conv env) (tf_params f) s args
      | None \<Rightarrow> Inr (filter (\<lambda>(k, _). k \<in> set (tf_params f)) args))" by simp
  obtain body where body: "body = (\<lambda>args'. bind_s (note_run name args') (\<lambda>n. bind_s (lift_res (tf_run f n args')) (\<lambda>out.
        finish_run env now name args' \<lparr>tr_success = True, tr_output = truncate_output out, tr_not_found = False\<rparr>)))" by simp
  have run: "snd (run_builtin env now name args f (dget (tg_definitions g) name) g) = snd (bind_s (lift_res c) body g)"
    unfolding run_builtin_def c body try_s_def by (simp add: ret_def split: prod.split sum.split)
  show ?thesis
  proof (cases c)
    case (Inl e)
    then show ?thesis by (simp add: run bind_s_def lift_res_def runs_at_most_refl)
  next
    case (Inr a)
    have "tg_runs (snd (bind_s (lift_res c) body g)) = tg_runs g @ [(name, a)]"
    proof -
      have "bind_s (lift_res c) body g = body a g" unfolding Inr by (simp only: bind_s_def lift_res_def prod.case sum.case)
      then show ?thesis unfolding body
        by (simp only: note_then_finish [where f = "\<lambda>n. tf_run f n a"
              and h = "\<lambda>out. \<lparr>tr_success = True, tr_output = truncate_output out, tr_not_found = False\<rparr>"])
    qed
    moreover have "final_args env g name args a" using Inr assms by (auto simp: final_args_def c split: option.splits)
    ultimately show ?thesis unfolding run runs_at_most_def by blast
  qed
qed

lemma run_registered_runs: "runs_at_most g (snd (run_registered env now name args g)) name (final_args env g name args)"
proof (cases "dget (tg_tools g) name")
  case (Some f)
  then show ?thesis using run_builtin_runs [OF Some, of env now args] by (simp add: run_registered_def bind_s_def get_s_def)
next
  case None
  have mcp: "tg_runs (snd (run_mcp env now name args server cb g)) = tg_runs g @ [(name, args)]" for server cb
    unfolding run_mcp_def using note_then_finish [where h = "\<lambda>r. r"] by simp
  show ?thesis
    using None mcp by (auto simp: run_registered_def bind_s_def get_s_def ret_def runs_at_most_def final_args_def split: option.split)
qed

definition cache_misses :: "registry_env \<Rightarrow> real \<Rightarrow> string \<Rightarrow> json_obj \<Rightarrow> registry_state \<Rightarrow> bool" where
  "cache_misses env now name args g \<longleftrightarrow>
     (case tg_cache g of
        None \<Rightarrow> True
      | Some c \<Rightarrow> name \<in> set (tg_cacheable g) \<longrightarrow> fst (result_get now (re_key env name args) c) = None)"

lemma cached_result_effect:
  obtains c where "cached_result env now name args g = (Inr None, g\<lparr>tg_cache := c\<rparr>)" "cache_misses env now name args g"
  | c r where "cached_result env now name args g = (Inr (Some r), g\<lparr>tg_cache := c\<rparr>)"
proof (cases "tg_cache g")
  case None
  then have "cached_result env now name args g = (Inr None, g\<lparr>tg_cache := tg_cache g\<rparr>)" "cache_misses env now name args g"
    by (simp_all add: cached_result_def bind_s_def get_s_def ret_def cache_misses_def)
  then show ?thesis by (rule that(1))
next
  case (Some c)
  obtain r c' where r: "result_get now (re_key env name args) c = (r, c')" by fastforce
  show ?thesis
  proof (cases "name \<in> set (tg_cacheable g)")
    case True
    have run: "cached_result env now name args g = (Inr r, g\<lparr>tg_cache := Some c'\<rparr>)"
      using Some True r by (simp add: cached_result_def bind_s_def get_s_def ret_def modify_s_def)
    show ?thesis
    proof (cases r)
      case None
      with run r Some show ?thesis by (intro that(1)) (auto simp: cache_misses_def)
    next
      case (Some x)
      with run show ?thesis using that(2) by blast
    qed
  next
    case False
    then have "cached_result env now name args g = (Inr None, g\<lparr>tg_cache := tg_cache g\<rparr>)" "cache_misses env now name args g"
      using Some by (simp_all add: cached_result_def bind_s_def get_s_def ret_def cache_misses_def)
    then show ?thesis by (rule that(1))
  qed
qed

text \<open>
  One call of \<open>execute\<close> runs at most one tool, once: only when no fresh result is cached, the validator accepts the arguments and
  the pre-hooks do not refuse the call; and the tool gets the arguments the hooks settled on, coerced for a built-in tool. The run is
  recorded whatever its outcome, and nothing else runs.
\<close>

theorem registry_runs_once:
  "runs_at_most g (snd (registry_execute env now1 now2 name args g)) name (\<lambda>args'.
     cache_misses env now1 name args g \<and> registry_errors g name args = [] \<and>
     (\<exists>hooked. pre_hooked env name args = Inr (Inr hooked) \<and> final_args env g name hooked args'))"
proof (cases rule: cached_result_effect [of env now1 name args g])
  case (2 c r)
  then show ?thesis by (simp add: registry_execute_def bind_s_def ret_def runs_at_most_def)
next
  case (1 c)
  let ?g = "g\<lparr>tg_cache := c\<rparr>"
  have same: "registry_errors ?g name args = registry_errors g name args" "final_args env ?g = final_args env g"
    "tg_runs ?g = tg_runs g"
    by (simp add: registry_errors_def, intro ext, simp add: final_args_def split: option.split, simp)
  show ?thesis
  proof (cases "registry_errors g name args = [] \<and> (\<exists>a. pre_hooked env name args = Inr (Inr a))")
    case True
    then obtain a where a: "pre_hooked env name args = Inr (Inr a)" by blast
    have "snd (registry_execute env now1 now2 name args g) = snd (run_registered env now2 name a ?g)"
      using 1(1) True a by (simp add: registry_execute_def bind_s_def get_s_def lift_res_def same)
    with run_registered_runs [of ?g env now2 name a] 1(2) True a show ?thesis
      unfolding runs_at_most_def same by metis
  next
    case False
    then have "tg_runs (snd (registry_execute env now1 now2 name args g)) = tg_runs g"
      using 1(1) by (cases "pre_hooked env name args") (auto simp: registry_execute_def bind_s_def get_s_def lift_res_def ret_def same split: sum.split)
    then show ?thesis by (simp add: runs_at_most_def)
  qed
qed

section \<open>What the cache serves\<close>

datatype cache_op = Lookup real string | Store real string tool_result

text \<open>An insertion that fails leaves the cache as it is.\<close>

fun result_cache_step :: "cache_op \<Rightarrow> result_cache \<Rightarrow> result_cache" where
  "result_cache_step (Lookup now key) c = snd (result_get now key c)"
| "result_cache_step (Store now key r) c = (case result_set now key r c of Inl _ \<Rightarrow> c | Inr c' \<Rightarrow> c')"

text \<open>The last insertion under the key in a history of operations.\<close>

definition last_store :: "cache_op list \<Rightarrow> string \<Rightarrow> real \<Rightarrow> tool_result \<Rightarrow> bool" where
  "last_store ops key ts r \<longleftrightarrow>
     (\<exists>before after. ops = before @ Store ts key r # after \<and> (\<forall>ts' r'. Store ts' key r' \<notin> set after))"

lemma last_store_snoc:
  assumes "last_store ops key ts r" "\<And>ts' r'. x \<noteq> Store ts' key r'"
  shows "last_store (ops @ [x]) key ts r"
proof -
  from assms(1) obtain before after where "ops = before @ Store ts key r # after" "\<forall>ts' r'. Store ts' key r' \<notin> set after"
    unfolding last_store_def by blast
  then have "ops @ [x] = before @ Store ts key r # (after @ [x])" "\<forall>ts' r'. Store ts' key r' \<notin> set (after @ [x])"
    using assms(2) by auto
  then show ?thesis unfolding last_store_def by blast
qed

lemma last_store_now: "last_store (ops @ [Store ts key r]) key ts r"
  unfolding last_store_def by fastforce

definition cache_inv :: "cache_op list \<Rightarrow> result_cache \<Rightarrow> bool" where
  "cache_inv ops c \<longleftrightarrow>
     distinct (dkeys (rc_items c)) \<and> int (length (rc_items c)) \<le> rc_max c \<and>
     (\<forall>key ts r. dget (rc_items c) key = Some (ts, r) \<longrightarrow> last_store ops key ts r)"

lemma cache_inv_lookup: "cache_inv ops c \<Longrightarrow> cache_inv (ops @ [Lookup now key]) (snd (result_get now key c))"
proof -
  assume inv: "cache_inv ops c"
  have "int (length (dpop key (rc_items c))) \<le> rc_max c"
    using inv length_dpop_le [of key "rc_items c"] by (simp add: cache_inv_def)
  moreover have "rc_max (snd (result_get now key c)) = rc_max c"
    by (simp add: result_get_def split: option.split)
  moreover have "rc_items (snd (result_get now key c)) \<in> {rc_items c, dpop key (rc_items c)}"
    by (auto simp: result_get_def split: option.split)
  moreover have "dget (dpop key (rc_items c)) k = Some p \<Longrightarrow> dget (rc_items c) k = Some p" for k p by (simp split: if_splits)
  ultimately show ?thesis using inv unfolding cache_inv_def by (auto intro!: last_store_snoc simp del: map_of_eq_Some_iff)
qed

lemma oldest_in: "items \<noteq> [] \<Longrightarrow> \<exists>p. dget items (oldest_key items) = Some p"
proof -
  assume "items \<noteq> []"
  then have "arg_min_list (\<lambda>p. fst (snd p)) items \<in> set items" by (rule arg_min_list_in)
  then have "oldest_key items \<in> set (dkeys items)" unfolding oldest_key_def by simp
  then show ?thesis by (metis dget_None_iff not_None_eq)
qed

lemma cache_inv_store:
  assumes inv: "cache_inv ops c" and size: "1 \<le> rc_max c"
  shows "\<exists>c'. result_set now key r c = Inr c' \<and> rc_max c' = rc_max c \<and> rc_ttl c' = rc_ttl c \<and> cache_inv (ops @ [Store now key r]) c'"
proof -
  let ?full = "int (length (rc_items c)) \<ge> rc_max c"
  obtain items where items: "items = (if ?full then dpop (oldest_key (rc_items c)) (rc_items c) else rc_items c)" by simp
  have ne: "rc_items c \<noteq> []" if ?full using that size by auto
  then have set: "result_set now key r c = Inr (c\<lparr>rc_items := dset key (now, r) items\<rparr>)"
    by (auto simp: result_set_def items)
  have d: "distinct (dkeys items)" using inv by (simp add: items cache_inv_def)
  have "int (length items) + 1 \<le> rc_max c"
  proof (cases ?full)
    case True
    obtain p where "dget (rc_items c) (oldest_key (rc_items c)) = Some p" using oldest_in [OF ne [OF True]] by blast
    from length_dpop [OF this] inv True show ?thesis by (simp add: items cache_inv_def)
  next
    case False
    then show ?thesis by (simp add: items)
  qed
  then have len: "int (length (dset key (now, r) items)) \<le> rc_max c" using length_dset [of key "(now, r)" items] by linarith
  have "dget items k = Some p \<Longrightarrow> dget (rc_items c) k = Some p" for k p by (simp add: items split: if_splits)
  then have sub: "dget items k = Some (ts, x) \<Longrightarrow> last_store ops k ts x" for k ts x
    using inv unfolding cache_inv_def by blast
  have "last_store (ops @ [Store now key r]) k ts x" if "dget (dset key (now, r) items) k = Some (ts, x)" for k ts x
  proof (cases "k = key")
    case True
    with that show ?thesis by (simp add: last_store_now)
  next
    case False
    with that sub show ?thesis by (auto intro: last_store_snoc)
  qed
  with set d len show ?thesis by (simp add: cache_inv_def)
qed

lemma cache_run_inv:
  "1 \<le> n \<Longrightarrow> rc_max (fold result_cache_step ops (new_cache ttl n)) = n \<and> rc_ttl (fold result_cache_step ops (new_cache ttl n)) = ttl
     \<and> cache_inv ops (fold result_cache_step ops (new_cache ttl n))"
proof (induction ops rule: rev_induct)
  case Nil
  then show ?case by (simp add: new_cache_def cache_inv_def)
next
  case (snoc x ops)
  let ?c = "fold result_cache_step ops (new_cache ttl n)"
  from snoc have inv: "rc_max ?c = n" "rc_ttl ?c = ttl" "cache_inv ops ?c" by simp_all
  show ?case
  proof (cases x)
    case (Lookup now key)
    have "rc_max (snd (result_get now key ?c)) = n" "rc_ttl (snd (result_get now key ?c)) = ttl"
      using inv by (simp_all add: result_get_def split: option.split)
    with cache_inv_lookup [OF inv(3)] show ?thesis by (simp add: Lookup)
  next
    case (Store now key r)
    from cache_inv_store [OF inv(3), of now key r] inv(1,2) snoc.prems show ?thesis by (auto simp: Store)
  qed
qed

text \<open>
  After any history of lookups and insertions, a cache of at least one entry is within its size, and a lookup returns only the
  result of the last insertion under that very key, and only while that insertion is younger than the time to live.
\<close>

theorem cache_serves_latest:
  assumes "1 \<le> n"
  shows "int (length (rc_items (fold result_cache_step ops (new_cache ttl n)))) \<le> n \<and>
     (case fst (result_get now key (fold result_cache_step ops (new_cache ttl n))) of
        None \<Rightarrow> True
      | Some r \<Rightarrow> \<exists>ts. last_store ops key ts r \<and> now - ts < of_int ttl)"
proof -
  let ?c = "fold result_cache_step ops (new_cache ttl n)"
  have inv: "rc_max ?c = n" "rc_ttl ?c = ttl" "cache_inv ops ?c" using cache_run_inv [OF assms, of ops ttl] by simp_all
  have "\<exists>ts. last_store ops key ts r \<and> now - ts < of_int ttl" if "fst (result_get now key ?c) = Some r" for r
  proof -
    from that obtain ts where "dget (rc_items ?c) key = Some (ts, r)" "now - ts < of_int (rc_ttl ?c)"
      by (auto simp: result_get_def split: option.splits if_splits)
    with inv show ?thesis unfolding cache_inv_def by metis
  qed
  with inv show ?thesis by (auto simp: cache_inv_def split: option.split)
qed

theorem cache_serves_latest_witness:
  "let ops = [Store 0 ''a'' (failure []), Lookup 10 ''a'', Store 20 ''b'' (failure [])]
   in int (length (rc_items (fold result_cache_step ops (new_cache 300 1)))) \<le> 1"
  unfolding Let_def by (rule cache_serves_latest [THEN conjunct1]) simp

section \<open>Tool hooks\<close>

text \<open>What a handler does within its time limit: it raises, gives something that is no result, or a result.\<close>

datatype hook_reply = HrTimeout | HrRaised exn | HrOther | HrResult tool_hook_result

datatype provider_reply = PrTimeout | PrRaised exn | PrOther | PrText string

type_synonym tool_handler = "string \<Rightarrow> json_obj \<Rightarrow> (string \<times> bool) option \<Rightarrow> hook_reply"

datatype tool_hook_kind =
    CommandHook tool_handler
  | PromptHook string "(string \<Rightarrow> provider_reply) option"
  | AgentHook tool_handler

record tool_hook_config =
  tk_name :: string
  tk_post :: bool
  tk_pattern :: string
  tk_priority :: int
  tk_kind :: tool_hook_kind

definition no_result :: tool_hook_result where
  "no_result = \<lparr>th_action = ''continue'', th_modified = None, th_context = [], th_reason = []\<rparr>"

definition register_tool_hook :: "tool_hook_config \<Rightarrow> tool_hook_config list \<Rightarrow> tool_hook_config list" where
  "register_tool_hook h hooks = hooks @ [h]"

definition unregister_tool_hook :: "string \<Rightarrow> tool_hook_config list \<Rightarrow> bool \<times> tool_hook_config list" where
  "unregister_tool_hook name hooks =
     (let rest = filter (\<lambda>h. tk_name h \<noteq> name) hooks in (length rest < length hooks, rest))"

definition get_matching_hooks :: "string \<Rightarrow> bool \<Rightarrow> tool_hook_config list \<Rightarrow> tool_hook_config list" where
  "get_matching_hooks name post hooks =
     sort_key (\<lambda>h. - tk_priority h) (filter (\<lambda>h. tk_post h = post \<and> fnmatch name (tk_pattern h)) hooks)"

definition invoke_prompt_hook :: "(json_obj \<Rightarrow> string) \<Rightarrow> tool_hook_config \<Rightarrow> string \<Rightarrow> (string \<Rightarrow> provider_reply) option \<Rightarrow> json_obj \<Rightarrow> hook_reply" where
  "invoke_prompt_hook dumps h template provider args =
     (case provider of
        None \<Rightarrow> HrResult no_result
      | Some ask \<Rightarrow>
          (case ask (str_replace_from 0 ''$ARGUMENTS'' (dumps args) template) of
             PrTimeout \<Rightarrow> HrTimeout
           | PrRaised _ \<Rightarrow> HrResult no_result
           | PrOther \<Rightarrow> HrResult no_result
           | PrText t \<Rightarrow>
               let answer = str_lower (str_strip t) in
               HrResult (if startswith answer ''deny'' \<or> startswith answer ''block''
                 then no_result\<lparr>th_action := ''block'', th_reason := ''LLM hook '' @ quoted (tk_name h) @ '' denied: '' @ str_strip t\<rparr>
                 else no_result\<lparr>th_context := str_strip t\<rparr>)))"

definition invoke_hook :: "(json_obj \<Rightarrow> string) \<Rightarrow> tool_hook_config \<Rightarrow> string \<Rightarrow> json_obj \<Rightarrow> (string \<times> bool) option \<Rightarrow> hook_reply" where
  "invoke_hook dumps h name args out =
     (case tk_kind h of
        CommandHook f \<Rightarrow> f name args out
      | PromptHook template provider \<Rightarrow> invoke_prompt_hook dumps h template provider args
      | AgentHook f \<Rightarrow>
          (case f name args out of HrTimeout \<Rightarrow> HrTimeout | HrRaised _ \<Rightarrow> HrResult no_result | HrOther \<Rightarrow> HrResult no_result | HrResult r \<Rightarrow> HrResult r))"

text \<open>The adapter: a result becomes a decision; the modified arguments are laid over the ones of the payload.\<close>

definition decision_of_result :: "json_obj \<Rightarrow> tool_hook_result \<Rightarrow> hook_decision" where
  "decision_of_result args r =
     (if th_action r = ''block'' then block (JStr (th_reason r))
      else case (if th_action r = ''modify'' then th_modified r else None) of
        Some m \<Rightarrow>
          let d = modify_decision [(''args'', JObj (dmerge args m))] in
          if th_context r \<noteq> [] then d\<lparr>hd_context := JStr (th_context r)\<rparr> else d
      | None \<Rightarrow> if th_context r \<noteq> [] then proceed (JStr (th_context r)) else proceed (JStr []))"

definition payload_args :: "hook_payload \<Rightarrow> json_obj" where
  "payload_args p = (case dget_or (hp_data p) ''args'' (JObj []) of JObj a \<Rightarrow> a | _ \<Rightarrow> [])"

definition payload_text :: "hook_payload \<Rightarrow> string \<Rightarrow> string" where
  "payload_text p k = (case dget_or (hp_data p) k (JStr []) of JStr s \<Rightarrow> s | _ \<Rightarrow> [])"

definition wrapped_handler :: "(json_obj \<Rightarrow> string) \<Rightarrow> tool_hook_config \<Rightarrow> bool \<Rightarrow> hook_payload \<Rightarrow> py_outcome" where
  "wrapped_handler dumps h post p =
     (let name = payload_text p ''tool_name''; args = payload_args p;
          out = (if post then Some (payload_text p ''result'', dget_or (hp_data p) ''success'' (JBool True) = JBool True) else None) in
      if tk_pattern h \<noteq> [] \<and> \<not> fnmatch name (tk_pattern h) then PyDecision (proceed (JStr []))
      else case invoke_hook dumps h name args out of
        HrTimeout \<Rightarrow> PyTimeout
      | HrRaised e \<Rightarrow> PyRaised e
      | HrOther \<Rightarrow> PyDecision (proceed (JStr []))
      | HrResult r \<Rightarrow> PyDecision (decision_of_result args r))"

definition python_hook_of :: "(json_obj \<Rightarrow> string) \<Rightarrow> bool \<Rightarrow> tool_hook_config \<Rightarrow> hook_handler" where
  "python_hook_of dumps post h =
     \<lparr>hh_name = tk_name h, hh_event = (if post then POST_TOOL_USE else PRE_TOOL_USE), hh_priority = tk_priority h,
      hh_tool_pattern = Some (tk_pattern h), hh_timeout = 5, hh_condition = JNull,
      hh_body = PythonBody (\<lambda>p. (wrapped_handler dumps h post p, p))\<rparr>"

definition tool_payload :: "hook_event \<Rightarrow> json_obj \<Rightarrow> hook_payload" where
  "tool_payload ev d = \<lparr>hp_event = ev, hp_data = d, hp_depth = 0, hp_visited = {}, hp_session_id = [], hp_trace_id = []\<rparr>"

definition json_text :: "json \<Rightarrow> string" where
  "json_text v = (case v of JStr s \<Rightarrow> s | _ \<Rightarrow> [])"

definition result_of_pre :: "json_obj \<Rightarrow> hook_decision \<Rightarrow> hook_payload \<Rightarrow> tool_hook_result" where
  "result_of_pre args d p =
     (case hd_kind d of
        BLOCK \<Rightarrow> no_result\<lparr>th_action := ''block'', th_reason := json_text (hd_reason d)\<rparr>
      | MODIFY \<Rightarrow>
          no_result\<lparr>th_action := ''modify'', th_context := json_text (hd_context d),
            th_modified := Some (case dget (hd_patch d) ''args'' of Some (JObj a) \<Rightarrow> a
              | _ \<Rightarrow> (case dget_or (hp_data p) ''args'' (JObj args) of JObj a \<Rightarrow> a | _ \<Rightarrow> []))\<rparr>
      | _ \<Rightarrow> no_result\<lparr>th_context := json_text (hd_context d)\<rparr>)"

definition run_pre_hooks ::
  "hook_env \<Rightarrow> (json_obj \<Rightarrow> string) \<Rightarrow> tool_hook_config list \<Rightarrow> string \<Rightarrow> json_obj \<Rightarrow> (trace_buffer, tool_hook_result) prog"
where
  "run_pre_hooks env dumps hooks name args =
     (let cfgs = get_matching_hooks name False hooks in
      if cfgs = [] then ret no_result
      else bind_s (chain_run env PRE_TOOL_USE (map (python_hook_of dumps False) cfgs)
             (tool_payload PRE_TOOL_USE [(''tool_name'', JStr name), (''args'', JObj args)]))
           (\<lambda>(d, p). ret (result_of_pre args d p)))"

definition run_post_hooks ::
  "hook_env \<Rightarrow> (json_obj \<Rightarrow> string) \<Rightarrow> tool_hook_config list \<Rightarrow> string \<Rightarrow> json_obj \<Rightarrow> string \<Rightarrow> bool \<Rightarrow> (trace_buffer, tool_hook_result) prog"
where
  "run_post_hooks env dumps hooks name args out ok =
     (let cfgs = get_matching_hooks name True hooks in
      if cfgs = [] then ret no_result
      else bind_s (chain_run env POST_TOOL_USE (map (python_hook_of dumps True) cfgs)
             (tool_payload POST_TOOL_USE
               [(''tool_name'', JStr name), (''args'', JObj args), (''result'', JStr out), (''success'', JBool ok)]))
           (\<lambda>(d, p). ret (no_result\<lparr>th_context := json_text (hd_context d)\<rparr>)))"

text \<open>The runner as the pair of functions that the registry and the executor call, with the trace it writes to.\<close>

definition runner_hooks ::
  "hook_env \<Rightarrow> (json_obj \<Rightarrow> string) \<Rightarrow> tool_hook_config list \<Rightarrow> trace_buffer
     \<Rightarrow> (string \<Rightarrow> json_obj \<Rightarrow> exn + tool_hook_result) \<times> (string \<Rightarrow> json_obj \<Rightarrow> string \<Rightarrow> bool \<Rightarrow> exn + tool_hook_result)"
where
  "runner_hooks env dumps hooks tb =
     (\<lambda>name args. fst (run_pre_hooks env dumps hooks name args tb),
      \<lambda>name args out ok. fst (run_post_hooks env dumps hooks name args out ok tb))"

section \<open>Hooks that refuse\<close>

text \<open>A hook that refuses a tool whatever its arguments are: its result blocks, or it raises or runs out of time.\<close>

definition refuses :: "(json_obj \<Rightarrow> string) \<Rightarrow> string \<Rightarrow> tool_hook_config \<Rightarrow> bool" where
  "refuses dumps name h \<longleftrightarrow>
     (\<forall>args. case invoke_hook dumps h name args None of
        HrTimeout \<Rightarrow> True | HrRaised _ \<Rightarrow> True | HrOther \<Rightarrow> False | HrResult r \<Rightarrow> th_action r = ''block'')"

lemma run_adapted:
  "run_handler env (python_hook_of dumps post h) p = (python_run env (python_hook_of dumps post h) (wrapped_handler dumps h post p), p)"
  by (simp add: run_handler_def python_hook_of_def)

lemma pre_blockable: "is_blockable PRE_TOOL_USE"
  by (simp add: is_blockable_def)

lemma decision_of_result_kind:
  "hd_kind (decision_of_result args r) = (if th_action r = ''block'' then BLOCK
     else if th_action r = ''modify'' \<and> th_modified r \<noteq> None then MODIFY else PROCEED)"
  by (auto simp: decision_of_result_def block_def proceed_def modify_decision_def plain_decision_def Let_def split: option.split)

lemma refused_blocks:
  assumes "refuses dumps (payload_text p ''tool_name'') h" "fnmatch (payload_text p ''tool_name'') (tk_pattern h)"
  shows "hd_kind (fst (run_handler env (python_hook_of dumps False h) p)) = BLOCK"
proof -
  have "case invoke_hook dumps h (payload_text p ''tool_name'') (payload_args p) None of
      HrTimeout \<Rightarrow> True | HrRaised _ \<Rightarrow> True | HrOther \<Rightarrow> False | HrResult r \<Rightarrow> th_action r = ''block''"
    using assms(1) unfolding refuses_def by (rule spec)
  moreover have "hh_event (python_hook_of dumps False h) = PRE_TOOL_USE" by (simp add: python_hook_of_def)
  ultimately show ?thesis using assms(2)
    by (auto simp: run_adapted python_run_def wrapped_handler_def Let_def failure_decision_kind pre_blockable
        decision_of_result_kind split: hook_reply.splits)
qed

lemma adapted_kind: "hd_kind (fst (run_handler env (python_hook_of dumps False h) p)) \<in> {PROCEED, BLOCK, MODIFY}"
proof -
  have "hh_event (python_hook_of dumps False h) = PRE_TOOL_USE" by (simp add: python_hook_of_def)
  then show ?thesis
    by (auto simp: run_adapted python_run_def wrapped_handler_def Let_def failure_decision_kind decision_of_result_kind
        proceed_def plain_decision_def split: hook_reply.split)
qed

lemma adapted_patch: "set (dkeys (hd_patch (fst (run_handler env (python_hook_of dumps False h) p)))) \<subseteq> {''args''}"
  by (auto simp: run_adapted python_run_def wrapped_handler_def Let_def failure_decision_def decision_of_result_def
      block_def proceed_def modify_decision_def plain_decision_def split: hook_reply.split option.split)

lemma dget_dmerge_other: "k \<notin> set (dkeys e) \<Longrightarrow> dget (dmerge d e) k = dget d k"
  by (induction e arbitrary: d) auto

lemma patched_name:
  assumes "set (dkeys e) \<subseteq> {''args''}"
  shows "payload_text (p\<lparr>hp_data := dmerge (hp_data p) e\<rparr>) ''tool_name'' = payload_text p ''tool_name''"
proof -
  have "''tool_name'' \<notin> set (dkeys e)" using assms by auto
  from dget_dmerge_other [OF this] show ?thesis by (simp add: payload_text_def dget_or_def)
qed

lemma adapted_chain_blocks:
  assumes "h \<in> set cfgs" "refuses dumps name h" "fnmatch name (tk_pattern h)" "payload_text p ''tool_name'' = name"
    "chain_loop env PRE_TOOL_USE (map (python_hook_of dumps False) cfgs) patch contexts p tb = (r, tb')"
  shows "case r of Inl _ \<Rightarrow> True | Inr (d, _) \<Rightarrow> hd_kind d = BLOCK"
  using assms(1,4,5)
proof (induction cfgs arbitrary: patch contexts p tb)
  case (Cons g cfgs)
  obtain d where run: "run_handler env (python_hook_of dumps False g) p = (d, p)" by (simp add: run_adapted)
  have cond: "matches_condition (hh_condition (python_hook_of dumps False g)) p = Inr True"
    by (simp add: python_hook_of_def)
  have dec: "decisive PRE_TOOL_USE d p \<longleftrightarrow> hd_kind d = BLOCK"
    using adapted_kind [of env dumps g p] run by (auto simp: decisive_def pre_blockable)
  show ?case
  proof (cases "hd_kind d = BLOCK")
    case True
    with dec have "r = Inr (d, p)" using Cons.prems(3) unfolding list.map chain_loop_Cons cond run Let_def by simp
    with True show ?thesis by simp
  next
    case False
    then have "g \<noteq> h" using refused_blocks [of dumps p g env] assms(2,3) Cons.prems(2) run by auto
    with Cons.prems(1) have h: "h \<in> set cfgs" by simp
    let ?e = "patch_of PRE_TOOL_USE d"
    let ?p = "p\<lparr>hp_data := dmerge (hp_data p) ?e\<rparr>"
    have "set (dkeys ?e) \<subseteq> {''args''}" using adapted_patch [of env dumps g p] run by (auto simp: patch_of_def)
    from patched_name [OF this, of p] Cons.prems(2) have "payload_text ?p ''tool_name'' = name" by simp
    moreover obtain patch' contexts' tb1 where
      "chain_loop env PRE_TOOL_USE (map (python_hook_of dumps False) cfgs) patch' contexts' ?p tb1 = (r, tb')"
      using Cons.prems(3) False dec unfolding list.map chain_loop_Cons cond run Let_def by simp
    ultimately show ?thesis using Cons.IH h by blast
  qed
qed simp

lemma sort_key_map: "sort_key f (map g xs) = map g (sort_key (\<lambda>x. f (g x)) xs)"
proof -
  have "insort_key f (g x) (map g ys) = map g (insort_key (\<lambda>x. f (g x)) x ys)" for x ys
    by (induction ys) auto
  then show ?thesis by (induction xs) (simp_all add: sort_key_simps)
qed

lemma refused_pre_hooks:
  assumes "h \<in> set hooks" "\<not> tk_post h" "fnmatch name (tk_pattern h)" "refuses dumps name h"
  shows "case fst (run_pre_hooks env dumps hooks name args tb) of Inl _ \<Rightarrow> True | Inr r \<Rightarrow> th_action r = ''block''"
proof -
  let ?cfgs = "get_matching_hooks name False hooks"
  let ?p = "tool_payload PRE_TOOL_USE [(''tool_name'', JStr name), (''args'', JObj args)]"
  have in_cfgs: "h \<in> set ?cfgs" using assms(1-3) by (simp add: get_matching_hooks_def)
  then have h: "h \<in> set (sort_key (\<lambda>h. - tk_priority h) ?cfgs)" by simp
  have prio: "(\<lambda>x. - hh_priority (python_hook_of dumps False x)) = (\<lambda>h. - tk_priority h)"
    by (simp add: python_hook_of_def)
  have name: "payload_text ?p ''tool_name'' = name" by (simp add: payload_text_def tool_payload_def dget_or_def)
  obtain r tb' where run: "chain_run env PRE_TOOL_USE (map (python_hook_of dumps False) ?cfgs) ?p tb = (r, tb')"
    by fastforce
  then have "chain_loop env PRE_TOOL_USE (map (python_hook_of dumps False) (sort_key (\<lambda>h. - tk_priority h) ?cfgs)) [] [] ?p tb
      = (r, tb')"
    by (simp only: chain_run_def sorted_handlers_def sort_key_map prio)
  from adapted_chain_blocks [OF h assms(4,3) name this] have "case r of Inl _ \<Rightarrow> True | Inr (d, _) \<Rightarrow> hd_kind d = BLOCK" .
  moreover have "?cfgs \<noteq> []" using in_cfgs by auto
  ultimately show ?thesis using run
    by (cases r) (auto simp: run_pre_hooks_def bind_s_def ret_def result_of_pre_def no_result_def)
qed

text \<open>
  A tool hook that refuses a tool keeps the registry from running it: with a pre-hook registered for the tool that blocks it,
  raises or runs out of time whatever the arguments are, no call of \<open>execute\<close> for that tool runs anything, however the other
  hooks behave and in whatever order they come.
\<close>

theorem refusing_hook_prevents_run:
  assumes "h \<in> set hooks" "\<not> tk_post h" "fnmatch name (tk_pattern h)" "refuses dumps name h"
    "re_hooks env = Some (runner_hooks henv dumps hooks tb)"
  shows "tg_runs (snd (registry_execute env now1 now2 name args g)) = tg_runs g"
proof (cases rule: cached_result_effect [of env now1 name args g])
  case (2 c r)
  then show ?thesis by (simp add: registry_execute_def bind_s_def ret_def)
next
  case (1 c)
  let ?g = "g\<lparr>tg_cache := c\<rparr>"
  have "case pre_hooked env name args of Inr (Inr _) \<Rightarrow> False | _ \<Rightarrow> True"
    using refused_pre_hooks [OF assms(1-4), of henv args tb] assms(5)
    by (auto simp: pre_hooked_def runner_hooks_def bind_res_def split: sum.splits)
  then consider e where "pre_hooked env name args = Inl e" | w where "pre_hooked env name args = Inr (Inl w)"
    by (cases "pre_hooked env name args") (auto split: sum.splits)
  then show ?thesis
    by cases (use 1(1) in \<open>simp_all add: registry_execute_def bind_s_def get_s_def lift_res_def ret_def\<close>)
qed

theorem refusing_hook_prevents_run_witness:
  "let deny = \<lparr>tk_name = ''deny'', tk_post = False, tk_pattern = ''*'', tk_priority = 0,
         tk_kind = CommandHook (\<lambda>_ _ _. HrResult (no_result\<lparr>th_action := ''block''\<rparr>))\<rparr>;
       env = \<lparr>re_key = (\<lambda>n _. n), re_conv = \<lparr>cv_float = (\<lambda>_. Inr 0), cv_str = (\<lambda>_. [])\<rparr>,
         re_hooks = Some (runner_hooks Hooks.demo_env (\<lambda>_. []) [deny] new_trace_buffer), re_describe = (\<lambda>_. [])\<rparr>
   in tg_runs (snd (registry_execute env 0 0 ''rm'' [] (new_registry None [] False))) = []"
proof -
  let ?deny = "\<lparr>tk_name = ''deny'', tk_post = False, tk_pattern = ''*'', tk_priority = 0,
         tk_kind = CommandHook (\<lambda>_ _ _. HrResult (no_result\<lparr>th_action := ''block''\<rparr>))\<rparr>"
  have "refuses (\<lambda>_. []) ''rm'' ?deny" by (simp add: refuses_def invoke_hook_def)
  moreover have "fnmatch ''rm'' (tk_pattern ?deny)" by (auto simp: fnmatch_star)
  ultimately show ?thesis unfolding Let_def
    by (subst refusing_hook_prevents_run [where h = ?deny and hooks = "[?deny]" and dumps = "\<lambda>_. []" and henv = Hooks.demo_env
          and tb = new_trace_buffer]) (simp_all add: new_registry_def)
qed

end
