(* ===== verification/Webhook_Rules.thy ===== *)
theory Webhook_Rules
  imports Prelude
begin

text \<open>
  Webhook automation, the data and the decisions: \<open>webhook/models.py\<close>, \<open>webhook/rule_engine.py\<close> and \<open>webhook/store.py\<close>. Fields
  that the sources fill with whatever JSON they are given are \<open>json\<close> here. Python's parser and its evaluator of expressions are
  arguments: an expression is parsed to a tree of nodes, each with the name of its type and its identifier, and evaluated on the
  names it may use, which it may also change (\<open>payload.clear()\<close> is an expression the checker accepts). Time stamps are left
  out, and so is YAML text: the import starts from parsed data.
\<close>

section \<open>Actions, pipelines, rules\<close>

datatype action_type = SEND_TO_AGENT | CALL_TOOL | HTTP_REQUEST | NOTIFY | TRANSFORM

datatype failure_strategy = STOP | CONTINUE | RETRY | FALLBACK

datatype permission_level = READ_ONLY | STANDARD | ELEVATED | ADMIN

fun can_execute :: "permission_level \<Rightarrow> action_type \<Rightarrow> bool" where
  "can_execute READ_ONLY t = (t \<in> {TRANSFORM, NOTIFY})"
| "can_execute STANDARD t = (t \<in> {TRANSFORM, NOTIFY, SEND_TO_AGENT, HTTP_REQUEST})"
| "can_execute ELEVATED t = (t \<in> {TRANSFORM, NOTIFY, SEND_TO_AGENT, HTTP_REQUEST, CALL_TOOL})"
| "can_execute ADMIN t = True"

fun action_value :: "action_type \<Rightarrow> string" where
  "action_value SEND_TO_AGENT = ''send_to_agent''"
| "action_value CALL_TOOL = ''call_tool''"
| "action_value HTTP_REQUEST = ''http_request''"
| "action_value NOTIFY = ''notify''"
| "action_value TRANSFORM = ''transform''"

fun strategy_value :: "failure_strategy \<Rightarrow> string" where
  "strategy_value STOP = ''stop''"
| "strategy_value CONTINUE = ''continue''"
| "strategy_value RETRY = ''retry''"
| "strategy_value FALLBACK = ''fallback''"

fun permission_value :: "permission_level \<Rightarrow> string" where
  "permission_value READ_ONLY = ''read_only''"
| "permission_value STANDARD = ''standard''"
| "permission_value ELEVATED = ''elevated''"
| "permission_value ADMIN = ''admin''"

text \<open>An enum called with a value: the member that has it, or a \<open>ValueError\<close>.\<close>

definition enum_of :: "string \<Rightarrow> ('a \<Rightarrow> string) \<Rightarrow> 'a list \<Rightarrow> json \<Rightarrow> exn + 'a" where
  "enum_of name val ms v =
     (case find (\<lambda>m. v = JStr (val m)) ms of None \<Rightarrow> Inl (ValueError (''not a valid '' @ name)) | Some m \<Rightarrow> Inr m)"

definition action_type_of :: "json \<Rightarrow> exn + action_type" where
  "action_type_of = enum_of ''ActionType'' action_value [SEND_TO_AGENT, CALL_TOOL, HTTP_REQUEST, NOTIFY, TRANSFORM]"

definition strategy_of :: "json \<Rightarrow> exn + failure_strategy" where
  "strategy_of = enum_of ''FailureStrategy'' strategy_value [STOP, CONTINUE, RETRY, FALLBACK]"

definition permission_of :: "json \<Rightarrow> exn + permission_level" where
  "permission_of = enum_of ''PermissionLevel'' permission_value [READ_ONLY, STANDARD, ELEVATED, ADMIN]"

record pipeline_action =
  pa_type :: action_type
  pa_config :: json
  pa_on_failure :: failure_strategy
  pa_max_retries :: json
  pa_fallback_id :: json
  pa_capture :: json
  pa_variable :: json
  pa_timeout :: json
  pa_id :: json

definition action_to_dict :: "pipeline_action \<Rightarrow> json_obj" where
  "action_to_dict a =
     [(''id'', pa_id a), (''action_type'', JStr (action_value (pa_type a))), (''config'', pa_config a),
      (''on_failure'', JStr (strategy_value (pa_on_failure a))), (''max_retries'', pa_max_retries a),
      (''fallback_action_id'', pa_fallback_id a), (''capture_response'', pa_capture a),
      (''response_variable'', pa_variable a), (''timeout'', pa_timeout a)]"

definition action_from_dict :: "string \<Rightarrow> json_obj \<Rightarrow> exn + pipeline_action" where
  "action_from_dict new_id d =
     bind_res (getitem d ''action_type'') (\<lambda>t.
     bind_res (action_type_of t) (\<lambda>ty.
     bind_res (strategy_of (dget_or d ''on_failure'' (JStr ''stop''))) (\<lambda>st.
     Inr \<lparr>pa_type = ty, pa_config = dget_or d ''config'' (JObj []), pa_on_failure = st,
          pa_max_retries = dget_or d ''max_retries'' (JInt 0), pa_fallback_id = dget_or d ''fallback_action_id'' JNull,
          pa_capture = dget_or d ''capture_response'' (JBool False), pa_variable = dget_or d ''response_variable'' (JStr []),
          pa_timeout = dget_or d ''timeout'' (JInt 30), pa_id = dget_or d ''id'' (JStr new_id)\<rparr>)))"

text \<open>The actions of a pipeline: objects, or the value that an update put in their place.\<close>

datatype action_list = Parsed "pipeline_action list" | AsGiven json

record pipeline =
  pl_name :: json
  pl_actions :: action_list
  pl_description :: json
  pl_enabled :: json
  pl_id :: json

text \<open>Iterating over a JSON value: the number of items, where it can be iterated over.\<close>

fun json_items :: "json \<Rightarrow> exn + nat" where
  "json_items (JList xs) = Inr (length xs)"
| "json_items (JObj ps) = Inr (length ps)"
| "json_items (JStr s) = Inr (length s)"
| "json_items _ = Inl not_iterable"

definition pipeline_to_dict :: "pipeline \<Rightarrow> exn + json_obj" where
  "pipeline_to_dict p =
     bind_res (case pl_actions p of
         Parsed as \<Rightarrow> Inr (map (\<lambda>a. JObj (action_to_dict a)) as)
       | AsGiven j \<Rightarrow> bind_res (json_items j) (\<lambda>n. if n = 0 then Inr [] else Inl (attribute_error ''to_dict''))) (\<lambda>as.
     Inr [(''id'', pl_id p), (''name'', pl_name p), (''description'', pl_description p), (''actions'', JList as),
          (''enabled'', pl_enabled p)])"

fun as_dict :: "json \<Rightarrow> exn + json_obj" where
  "as_dict (JObj d) = Inr d"
| "as_dict _ = Inl (attribute_error ''get'')"

definition pipeline_from_dict :: "(nat \<Rightarrow> string) \<Rightarrow> json_obj \<Rightarrow> exn + pipeline" where
  "pipeline_from_dict ids d =
     bind_res (getitem d ''name'') (\<lambda>name.
     bind_res (case dget_or d ''actions'' (JList []) of
         JList js \<Rightarrow> map_res (\<lambda>(i, j). bind_res (as_dict j) (action_from_dict i)) (zip (map (\<lambda>n. ids (Suc n)) [0..<length js]) js)
       | j \<Rightarrow> bind_res (json_items j) (\<lambda>n. if n = 0 then Inr [] else Inl (attribute_error ''get''))) (\<lambda>as.
     Inr \<lparr>pl_name = name, pl_actions = Parsed as, pl_description = dget_or d ''description'' (JStr []),
          pl_enabled = dget_or d ''enabled'' (JBool True), pl_id = dget_or d ''id'' (JStr (ids 0))\<rparr>))"

record webhook_rule =
  wr_name :: json
  wr_endpoint :: json
  wr_condition :: json
  wr_priority :: json
  wr_pipeline :: json
  wr_enabled :: json
  wr_id :: json

definition rule_to_dict :: "webhook_rule \<Rightarrow> json_obj" where
  "rule_to_dict r =
     [(''id'', wr_id r), (''name'', wr_name r), (''endpoint_id'', wr_endpoint r), (''condition'', wr_condition r),
      (''priority'', wr_priority r), (''pipeline_id'', wr_pipeline r), (''enabled'', wr_enabled r)]"

definition rule_from_dict :: "string \<Rightarrow> json_obj \<Rightarrow> exn + webhook_rule" where
  "rule_from_dict new_id d =
     bind_res (getitem d ''name'') (\<lambda>name. bind_res (getitem d ''endpoint_id'') (\<lambda>ep. bind_res (getitem d ''condition'') (\<lambda>c.
     bind_res (getitem d ''priority'') (\<lambda>prio. bind_res (getitem d ''pipeline_id'') (\<lambda>pl.
     Inr \<lparr>wr_name = name, wr_endpoint = ep, wr_condition = c, wr_priority = prio, wr_pipeline = pl,
          wr_enabled = dget_or d ''enabled'' (JBool True), wr_id = dget_or d ''id'' (JStr new_id)\<rparr>)))))"

section \<open>The checker of expressions\<close>

datatype ast = Node (node_type: string) (ident: string) (children: "ast list")

definition forbidden_names :: "string list" where
  "forbidden_names = [''__import__'', ''exec'', ''eval'', ''compile'', ''open'', ''getattr'', ''setattr'', ''delattr'',
     ''globals'', ''locals'', ''breakpoint'', ''input'']"

definition allowed_node_types :: "string list" where
  "allowed_node_types = [''Expression'', ''BoolOp'', ''BinOp'', ''UnaryOp'', ''Compare'', ''IfExp'', ''Call'', ''Constant'',
     ''Attribute'', ''Subscript'', ''Name'', ''Load'', ''Tuple'', ''List'', ''Dict'', ''Set'', ''Slice'', ''Starred'', ''And'',
     ''Or'', ''Add'', ''Sub'', ''Mult'', ''Div'', ''FloorDiv'', ''Mod'', ''Pow'', ''LShift'', ''RShift'', ''BitOr'', ''BitXor'',
     ''BitAnd'', ''MatMult'', ''Invert'', ''Not'', ''UAdd'', ''USub'', ''Eq'', ''NotEq'', ''Lt'', ''LtE'', ''Gt'', ''GtE'',
     ''Is'', ''IsNot'', ''In'', ''NotIn'', ''ListComp'', ''SetComp'', ''DictComp'', ''GeneratorExp'', ''comprehension'',
     ''JoinedStr'', ''FormattedValue'', ''Store'', ''Del'', ''Index'']"

definition endswith :: "string \<Rightarrow> string \<Rightarrow> bool" where
  "endswith s x = startswith (rev s) (rev x)"

definition is_dunder :: "string \<Rightarrow> bool" where
  "is_dunder s \<longleftrightarrow> startswith s ''__'' \<and> endswith s ''__''"

definition condition_error :: "string \<Rightarrow> exn" where
  "condition_error m = OtherError ''ConditionError'' m"

fun is_condition_error :: "exn \<Rightarrow> bool" where
  "is_condition_error (OtherError t m) = (t = ''ConditionError'')"
| "is_condition_error _ = False"

text \<open>The tests of one node; the function of a call is its first child.\<close>

definition check_node :: "ast \<Rightarrow> exn + unit" where
  "check_node n =
     (if node_type n \<notin> set allowed_node_types then Inl (condition_error (''forbidden AST node type: '' @ node_type n))
      else if node_type n = ''Name'' \<and> ident n \<in> set forbidden_names then
        Inl (condition_error (''forbidden name in condition: '' @ quoted (ident n)))
      else if node_type n = ''Attribute'' \<and> is_dunder (ident n) then
        Inl (condition_error (''forbidden dunder attribute access: '' @ quoted (ident n)))
      else if node_type n = ''Call'' then
        (case children n of
           f # _ \<Rightarrow> if node_type f = ''Name'' \<and> ident f \<in> set forbidden_names
                    then Inl (condition_error (''forbidden function call: '' @ quoted (ident f))) else Inr ()
         | [] \<Rightarrow> Inr ())
      else Inr ())"

text \<open>\<open>ast.walk\<close>: the nodes in breadth-first order, by a queue.\<close>

fun ast_size :: "ast \<Rightarrow> nat" where
  "ast_size (Node t i cs) = Suc (sum_list (map ast_size cs))"

function walk_queue :: "ast list \<Rightarrow> ast list" where
  "walk_queue [] = []"
| "walk_queue (n # q) = n # walk_queue (q @ children n)"
  by pat_completeness auto
termination
proof (relation "measure (\<lambda>q. sum_list (map ast_size q))", goal_cases)
  case (2 n q)
  then show ?case by (cases n) simp
qed simp

definition ast_walk :: "ast \<Rightarrow> ast list" where
  "ast_walk n = walk_queue [n]"

fun first_error :: "('a \<Rightarrow> exn + unit) \<Rightarrow> 'a list \<Rightarrow> exn + unit" where
  "first_error f [] = Inr ()"
| "first_error f (x # xs) = bind_res (f x) (\<lambda>_. first_error f xs)"

text \<open>
  \<open>ast.parse\<close> takes text; anything else is a \<open>TypeError\<close>. Only a \<open>SyntaxError\<close> of the parser is caught.
\<close>

type_synonym parser = "string \<Rightarrow> exn + ast"

fun parse_expression :: "parser \<Rightarrow> json \<Rightarrow> exn + ast" where
  "parse_expression p (JStr s) = p s"
| "parse_expression p _ = Inl (TypeError ''compile() arg 1 must be a string, bytes or AST object'')"

definition check_ast :: "parser \<Rightarrow> json \<Rightarrow> exn + ast" where
  "check_ast p e =
     bind_res (case parse_expression p e of
         Inl (OtherError t m) \<Rightarrow>
           Inl (if t = ''SyntaxError'' then condition_error (''Invalid syntax in condition: '' @ m) else OtherError t m)
       | r \<Rightarrow> r) (\<lambda>tree. bind_res (first_error check_node (ast_walk tree)) (\<lambda>_. Inr tree))"

section \<open>Evaluating conditions and choosing a rule\<close>

record pipeline_context =
  cx_payload :: json
  cx_headers :: json_obj
  cx_endpoint :: string
  cx_steps :: "(json, json) dict"
  cx_secrets :: json_obj

text \<open>The names an expression may use: those of a context, or the payload and the headers alone.\<close>

datatype names = InContext pipeline_context | Bare json json_obj

type_synonym evaluator = "ast \<Rightarrow> names \<Rightarrow> (exn + json) \<times> names"

text \<open>A payload of \<open>None\<close> is an empty dict for the expression.\<close>

fun exposed :: "names \<Rightarrow> names" where
  "exposed (Bare p h) = Bare (if p = JNull then JObj [] else p) h"
| "exposed (InContext c) = InContext c"

fun shared :: "names \<Rightarrow> names \<Rightarrow> names" where
  "shared (Bare p h) (Bare p' h') = Bare (if p = JNull then p else p') h'"
| "shared ns ns' = ns'"

definition evaluate_expression :: "parser \<Rightarrow> evaluator \<Rightarrow> json \<Rightarrow> names \<Rightarrow> (exn + json) \<times> names" where
  "evaluate_expression p ev e ns =
     (case check_ast p e of
        Inl x \<Rightarrow> (Inl x, ns)
      | Inr t \<Rightarrow>
          (case ev t (exposed ns) of
             (Inl x, ns') \<Rightarrow>
               (Inl (if is_condition_error x then x else condition_error (''Runtime error evaluating condition: '' @ exn_str x)),
                shared ns ns')
           | (Inr v, ns') \<Rightarrow> (Inr v, shared ns ns')))"

definition evaluate_condition :: "parser \<Rightarrow> evaluator \<Rightarrow> json \<Rightarrow> names \<Rightarrow> (exn + bool) \<times> names" where
  "evaluate_condition p ev e ns =
     (case evaluate_expression p ev e ns of (Inl x, ns') \<Rightarrow> (Inl x, ns') | (Inr v, ns') \<Rightarrow> (Inr (truthy v), ns'))"

text \<open>
  \<open>sorted(rules, key=...)\<close>: numbers compare with numbers and text with text, two values of other kinds raise. (Lists as
  priorities, which Python compares too, are left out.)
\<close>

fun number_key :: "json \<Rightarrow> real" where
  "number_key (JInt i) = of_int i"
| "number_key (JBool b) = (if b then 1 else 0)"
| "number_key (JFloat x) = x"
| "number_key _ = 0"

fun is_number :: "json \<Rightarrow> bool" where
  "is_number (JInt i) = True"
| "is_number (JBool b) = True"
| "is_number (JFloat x) = True"
| "is_number _ = False"

fun text_key :: "json \<Rightarrow> string" where
  "text_key (JStr s) = s"
| "text_key _ = []"

definition sort_rules :: "webhook_rule list \<Rightarrow> exn + webhook_rule list" where
  "sort_rules rs =
     (if list_all (\<lambda>r. is_number (wr_priority r)) rs then Inr (sort_key (\<lambda>r. number_key (wr_priority r)) rs)
      else if list_all (\<lambda>r. wr_priority r = JStr (text_key (wr_priority r))) rs then Inr (sort_key (\<lambda>r. text_key (wr_priority r)) rs)
      else if length rs \<le> 1 then Inr rs
      else Inl (TypeError ''not supported between instances''))"

fun first_match :: "parser \<Rightarrow> evaluator \<Rightarrow> webhook_rule list \<Rightarrow> names \<Rightarrow> (exn + webhook_rule option) \<times> names" where
  "first_match p ev [] ns = (Inr None, ns)"
| "first_match p ev (r # rs) ns =
     (if \<not> truthy (wr_enabled r) then first_match p ev rs ns
      else case evaluate_condition p ev (wr_condition r) ns of
        (Inr b, ns') \<Rightarrow> if b then (Inr (Some r), ns') else first_match p ev rs ns'
      | (Inl x, ns') \<Rightarrow> if is_condition_error x then first_match p ev rs ns' else (Inl x, ns'))"

definition match_rules ::
  "parser \<Rightarrow> evaluator \<Rightarrow> webhook_rule list \<Rightarrow> json \<Rightarrow> json_obj \<Rightarrow> (exn + webhook_rule option) \<times> names"
where
  "match_rules p ev rs payload headers =
     (case sort_rules rs of Inl x \<Rightarrow> (Inl x, Bare payload headers) | Inr rs' \<Rightarrow> first_match p ev rs' (Bare payload headers))"

section \<open>The store of rules and pipelines\<close>

record automation_store =
  as_rules :: "(json, webhook_rule) dict"
  as_pipelines :: "(json, pipeline) dict"

definition empty_store :: automation_store where
  "empty_store = \<lparr>as_rules = [], as_pipelines = []\<rparr>"

fun hashable :: "json \<Rightarrow> bool" where
  "hashable (JList xs) = False"
| "hashable (JObj ps) = False"
| "hashable _ = True"

definition dict_get :: "(json, 'v) dict \<Rightarrow> json \<Rightarrow> exn + 'v option" where
  "dict_get d k = (if hashable k then Inr (dget d k) else Inl (TypeError ''unhashable type''))"

definition dict_set :: "json \<Rightarrow> 'v \<Rightarrow> (json, 'v) dict \<Rightarrow> exn + (json, 'v) dict" where
  "dict_set k v d = (if hashable k then Inr (dset k v d) else Inl (TypeError ''unhashable type''))"

definition add_rule :: "webhook_rule \<Rightarrow> automation_store \<Rightarrow> exn + automation_store" where
  "add_rule r st = bind_res (dict_set (wr_id r) r (as_rules st)) (\<lambda>d. Inr (st\<lparr>as_rules := d\<rparr>))"

definition get_rule :: "string \<Rightarrow> automation_store \<Rightarrow> webhook_rule option" where
  "get_rule rid st = dget (as_rules st) (JStr rid)"

definition get_rules_for_endpoint :: "string \<Rightarrow> automation_store \<Rightarrow> webhook_rule list" where
  "get_rules_for_endpoint ep st = filter (\<lambda>r. wr_endpoint r = JStr ep) (dvalues (as_rules st))"

definition remove_rule :: "string \<Rightarrow> automation_store \<Rightarrow> bool \<times> automation_store" where
  "remove_rule rid st =
     (if JStr rid \<in> set (dkeys (as_rules st)) then (True, st\<lparr>as_rules := dpop (JStr rid) (as_rules st)\<rparr>) else (False, st))"

text \<open>\<open>setattr\<close>: an attribute that is not a field has no effect on what is modelled.\<close>

definition set_rule_attr :: "string \<times> json \<Rightarrow> webhook_rule \<Rightarrow> webhook_rule" where
  "set_rule_attr kv r =
     (case kv of (k, v) \<Rightarrow>
        if k = ''name'' then r\<lparr>wr_name := v\<rparr> else if k = ''endpoint_id'' then r\<lparr>wr_endpoint := v\<rparr>
        else if k = ''condition'' then r\<lparr>wr_condition := v\<rparr> else if k = ''priority'' then r\<lparr>wr_priority := v\<rparr>
        else if k = ''pipeline_id'' then r\<lparr>wr_pipeline := v\<rparr> else if k = ''enabled'' then r\<lparr>wr_enabled := v\<rparr>
        else if k = ''id'' then r\<lparr>wr_id := v\<rparr> else r)"

definition set_pipeline_attr :: "string \<times> json \<Rightarrow> pipeline \<Rightarrow> pipeline" where
  "set_pipeline_attr kv p =
     (case kv of (k, v) \<Rightarrow>
        if k = ''name'' then p\<lparr>pl_name := v\<rparr> else if k = ''actions'' then p\<lparr>pl_actions := AsGiven v\<rparr>
        else if k = ''description'' then p\<lparr>pl_description := v\<rparr> else if k = ''enabled'' then p\<lparr>pl_enabled := v\<rparr>
        else if k = ''id'' then p\<lparr>pl_id := v\<rparr> else p)"

definition repeated_argument :: exn where
  "repeated_argument = TypeError ''got multiple values for argument''"

definition update_rule :: "string \<Rightarrow> json_obj \<Rightarrow> automation_store \<Rightarrow> exn + bool \<times> automation_store" where
  "update_rule rid kwargs st =
     (if ''self'' \<in> set (dkeys kwargs) \<or> ''rule_id'' \<in> set (dkeys kwargs) then Inl repeated_argument
      else case dget (as_rules st) (JStr rid) of
        None \<Rightarrow> Inr (False, st)
      | Some r \<Rightarrow> Inr (True, st\<lparr>as_rules := dset (JStr rid) (fold set_rule_attr kwargs r) (as_rules st)\<rparr>))"

definition add_pipeline :: "pipeline \<Rightarrow> automation_store \<Rightarrow> exn + automation_store" where
  "add_pipeline p st = bind_res (dict_set (pl_id p) p (as_pipelines st)) (\<lambda>d. Inr (st\<lparr>as_pipelines := d\<rparr>))"

definition get_pipeline :: "json \<Rightarrow> automation_store \<Rightarrow> exn + pipeline option" where
  "get_pipeline pid st = dict_get (as_pipelines st) pid"

definition remove_pipeline :: "string \<Rightarrow> automation_store \<Rightarrow> bool \<times> automation_store" where
  "remove_pipeline pid st =
     (if JStr pid \<in> set (dkeys (as_pipelines st)) then (True, st\<lparr>as_pipelines := dpop (JStr pid) (as_pipelines st)\<rparr>)
      else (False, st))"

definition update_pipeline :: "string \<Rightarrow> json_obj \<Rightarrow> automation_store \<Rightarrow> exn + bool \<times> automation_store" where
  "update_pipeline pid kwargs st =
     (if ''self'' \<in> set (dkeys kwargs) \<or> ''pipeline_id'' \<in> set (dkeys kwargs) then Inl repeated_argument
      else case dget (as_pipelines st) (JStr pid) of
        None \<Rightarrow> Inr (False, st)
      | Some p \<Rightarrow> Inr (True, st\<lparr>as_pipelines := dset (JStr pid) (fold set_pipeline_attr kwargs p) (as_pipelines st)\<rparr>))"

text \<open>What \<open>save\<close> writes under its two keys, and \<open>export_yaml\<close> prints.\<close>

definition save_store :: "automation_store \<Rightarrow> exn + json_obj list \<times> json_obj list" where
  "save_store st =
     bind_res (map_res pipeline_to_dict (dvalues (as_pipelines st))) (\<lambda>ps. Inr (map rule_to_dict (dvalues (as_rules st)), ps))"

fun build_dict :: "(nat \<Rightarrow> json_obj \<Rightarrow> exn + 'v) \<Rightarrow> nat \<Rightarrow> json_obj list \<Rightarrow> (json, 'v) dict \<Rightarrow> exn + (json, 'v) dict" where
  "build_dict f n [] acc = Inr acc"
| "build_dict f n (d # ds) acc =
     bind_res (getitem d ''id'') (\<lambda>i. bind_res (f n d) (\<lambda>v. bind_res (dict_set i v acc) (build_dict f (Suc n) ds)))"

text \<open>Fresh identifiers: \<open>ids n 0\<close> for the \<open>n\<close>-th object read, \<open>ids n (Suc j)\<close> for the action \<open>j\<close> in it.\<close>

type_synonym fresh_ids = "nat \<Rightarrow> nat \<Rightarrow> string"

definition load_store :: "fresh_ids \<Rightarrow> json_obj list \<Rightarrow> json_obj list \<Rightarrow> automation_store \<Rightarrow> exn + automation_store" where
  "load_store ids rs ps st =
     bind_res (if rs = [] then Inr (as_rules st) else build_dict (\<lambda>n. rule_from_dict (ids n 0)) 0 rs []) (\<lambda>rules.
     bind_res (if ps = [] then Inr (as_pipelines st) else build_dict (\<lambda>n. pipeline_from_dict (ids n)) (length rs) ps []) (\<lambda>pipes.
     Inr \<lparr>as_rules = rules, as_pipelines = pipes\<rparr>))"

text \<open>The import adds one entry after the other; those before a bad one stay.\<close>

fun import_rules :: "fresh_ids \<Rightarrow> nat \<Rightarrow> json_obj list \<Rightarrow> (automation_store, unit) prog" where
  "import_rules ids n [] = ret ()"
| "import_rules ids n (d # ds) =
     bind_s (lift_res (rule_from_dict (ids n 0) d)) (\<lambda>r.
     bind_s get_s (\<lambda>st. bind_s (lift_res (add_rule r st)) (\<lambda>st'.
     then_s (modify_s (\<lambda>_. st')) (import_rules ids (Suc n) ds))))"

fun import_pipelines :: "fresh_ids \<Rightarrow> nat \<Rightarrow> json_obj list \<Rightarrow> (automation_store, unit) prog" where
  "import_pipelines ids n [] = ret ()"
| "import_pipelines ids n (d # ds) =
     bind_s (lift_res (pipeline_from_dict (ids n) d)) (\<lambda>p.
     bind_s get_s (\<lambda>st. bind_s (lift_res (add_pipeline p st)) (\<lambda>st'.
     then_s (modify_s (\<lambda>_. st')) (import_pipelines ids (Suc n) ds))))"

definition import_data :: "fresh_ids \<Rightarrow> json_obj list \<Rightarrow> json_obj list \<Rightarrow> (automation_store, nat \<times> nat) prog" where
  "import_data ids rs ps =
     then_s (import_rules ids 0 rs) (then_s (import_pipelines ids (length rs) ps) (ret (length rs, length ps)))"

section \<open>The checker decides safety\<close>

text \<open>What a safe tree is, node by node: a type on the list, no forbidden name, no dunder attribute.\<close>

fun safe_ast :: "ast \<Rightarrow> bool" where
  "safe_ast (Node t i cs) =
     (t \<in> set allowed_node_types \<and> \<not> (t = ''Name'' \<and> i \<in> set forbidden_names) \<and> \<not> (t = ''Attribute'' \<and> is_dunder i)
      \<and> list_all safe_ast cs)"

fun subtrees :: "ast \<Rightarrow> ast set" where
  "subtrees (Node t i cs) = insert (Node t i cs) (\<Union>c \<in> set cs. subtrees c)"

definition safe_node :: "ast \<Rightarrow> bool" where
  "safe_node n \<longleftrightarrow> node_type n \<in> set allowed_node_types \<and> \<not> (node_type n = ''Name'' \<and> ident n \<in> set forbidden_names)
     \<and> \<not> (node_type n = ''Attribute'' \<and> is_dunder (ident n))"

lemma safe_ast_all: "safe_ast t \<longleftrightarrow> (\<forall>n \<in> subtrees t. safe_node n)"
proof (induction t)
  case (Node t i cs)
  then have "list_all safe_ast cs \<longleftrightarrow> (\<forall>c \<in> set cs. \<forall>n \<in> subtrees c. safe_node n)" by (simp add: list_all_iff)
  then show ?case by (auto simp: safe_node_def)
qed

lemma subtrees_unfold: "subtrees n = insert n (\<Union>c \<in> set (children n). subtrees c)"
  by (cases n) simp

lemma self_in_subtrees: "n \<in> subtrees n"
  by (cases n) simp

lemma set_walk_queue: "set (walk_queue q) = (\<Union>n \<in> set q. subtrees n)"
proof (induction q rule: walk_queue.induct)
  case (2 n q)
  then show ?case using subtrees_unfold [of n] by auto
qed simp

lemma set_ast_walk: "set (ast_walk t) = subtrees t"
  unfolding ast_walk_def set_walk_queue by simp

lemma first_error_Inr: "first_error f xs = Inr () \<longleftrightarrow> (\<forall>x \<in> set xs. f x = Inr ())"
  by (induction xs) (auto simp: bind_res_eq_Inr)

lemma check_node_Inr: "check_node n = Inr () \<Longrightarrow> safe_node n"
  unfolding check_node_def safe_node_def by (simp split: if_splits)

lemma check_node_safe:
  assumes "safe_node n" "\<forall>c \<in> set (children n). safe_node c"
  shows "check_node n = Inr ()"
  using assms unfolding check_node_def safe_node_def by (cases "children n") auto

lemma subtrees_children: "n \<in> subtrees t \<Longrightarrow> c \<in> set (children n) \<Longrightarrow> c \<in> subtrees t"
proof (induction t)
  case (Node t i cs)
  then show ?case by (auto intro: self_in_subtrees)
qed

lemma checker_safe_iff: "first_error check_node (ast_walk t) = Inr () \<longleftrightarrow> safe_ast t"
  unfolding first_error_Inr set_ast_walk safe_ast_all
  using check_node_Inr check_node_safe subtrees_children by blast

lemma check_node_error: "check_node n = Inl x \<Longrightarrow> \<exists>m. x = condition_error m"
  unfolding check_node_def by (auto split: if_splits list.splits)

lemma first_error_cases: "(\<And>n x. f n = Inl x \<Longrightarrow> P x) \<Longrightarrow> first_error f xs = Inl x \<Longrightarrow> P x"
  by (induction xs) (auto simp: bind_res_def split: sum.splits)

lemma check_ast_ok: "safe_ast t \<Longrightarrow> p e = Inr t \<Longrightarrow> check_ast p (JStr e) = Inr t"
  by (simp add: check_ast_def flip: checker_safe_iff)

text \<open>
  C15. The checker decides safety: a text that parses is accepted exactly when every node of its tree has an allowed type, none is a
  forbidden name, and none is the access of a dunder attribute; every other is answered with a \<open>ConditionError\<close>.
\<close>

theorem check_ast_decides:
  assumes "p e = Inr t"
  shows "if safe_ast t then check_ast p (JStr e) = Inr t else \<exists>m. check_ast p (JStr e) = Inl (condition_error m)"
proof (cases "safe_ast t")
  case True
  with assms show ?thesis by (simp add: check_ast_def flip: checker_safe_iff)
next
  case False
  then obtain x where x: "first_error check_node (ast_walk t) = Inl x"
    unfolding checker_safe_iff [symmetric] by (cases "first_error check_node (ast_walk t)") auto
  moreover have "\<exists>m. x = condition_error m"
    by (rule first_error_cases [OF _ x]) (rule check_node_error)
  ultimately show ?thesis using assms False by (auto simp: check_ast_def)
qed

definition name_node :: "string \<Rightarrow> ast" where
  "name_node i = Node ''Name'' i [Node ''Load'' [] []]"

text \<open>The trees of \<open>__import__('os')\<close> and of \<open>'{0.__class__}'.format(payload)\<close>.\<close>

definition import_call :: ast where
  "import_call = Node ''Expression'' [] [Node ''Call'' [] [name_node ''__import__'', Node ''Constant'' [] []]]"

definition format_call :: ast where
  "format_call = Node ''Expression'' []
     [Node ''Call'' [] [Node ''Attribute'' ''format'' [Node ''Constant'' [] [], Node ''Load'' [] []], name_node ''payload'']]"

lemma import_call_unsafe: "\<not> safe_ast import_call"
  by (simp add: import_call_def name_node_def forbidden_names_def)

lemma format_call_safe: "safe_ast format_call"
  by (simp add: format_call_def name_node_def forbidden_names_def allowed_node_types_def is_dunder_def)

theorem check_ast_decides_witness:
  "(\<exists>m. check_ast (\<lambda>_. Inr import_call) (JStr ''x'') = Inl (condition_error m))
   \<and> check_ast (\<lambda>_. Inr format_call) (JStr ''y'') = Inr format_call"
  using check_ast_decides [of "\<lambda>_. Inr import_call" "''x''" import_call]
    check_ast_decides [of "\<lambda>_. Inr format_call" "''y''" format_call]
  by (simp only: import_call_unsafe format_call_safe if_True if_False simp_thms)

section \<open>The rule that is chosen\<close>

definition rule_holds :: "parser \<Rightarrow> evaluator \<Rightarrow> json \<Rightarrow> json_obj \<Rightarrow> webhook_rule \<Rightarrow> bool" where
  "rule_holds p ev payload headers r \<longleftrightarrow>
     truthy (wr_enabled r) \<and> fst (evaluate_condition p ev (wr_condition r) (Bare payload headers)) = Inr True"

definition pure_evaluator :: "evaluator \<Rightarrow> bool" where
  "pure_evaluator ev \<longleftrightarrow> (\<forall>t ns. snd (ev t ns) = ns)"

lemma shared_exposed [simp]: "shared ns (exposed ns) = ns"
  by (cases ns) simp_all

lemma evaluate_pure:
  assumes "pure_evaluator ev"
  shows "snd (evaluate_condition p ev e ns) = ns"
proof -
  have "\<exists>v. ev t (exposed ns) = (v, exposed ns)" for t
    using assms unfolding pure_evaluator_def by (metis prod.collapse)
  then show ?thesis
    unfolding evaluate_condition_def evaluate_expression_def
    by (cases "check_ast p e") (auto split: sum.splits prod.splits, (metis Pair_inject shared_exposed)+)
qed

lemma first_match_find:
  assumes "pure_evaluator ev" "first_match p ev rs (Bare payload headers) = (Inr m, ns)"
  shows "m = find (rule_holds p ev payload headers) rs"
  using assms(2)
proof (induction rs)
  case (Cons r rs)
  obtain v where v: "evaluate_condition p ev (wr_condition r) (Bare payload headers) = (v, Bare payload headers)"
    using evaluate_pure [OF assms(1)] by (metis prod.collapse)
  show ?case using Cons v by (cases v) (auto simp: rule_holds_def split: if_splits)
qed simp

lemma find_filter: "find P xs = (case filter P xs of [] \<Rightarrow> None | x # _ \<Rightarrow> Some x)"
  by (induction xs) auto

lemma find_sorted:
  assumes "find P (sort_key f xs) = Some r"
  shows "P r \<and> r \<in> set xs \<and> (\<forall>y \<in> set xs. P y \<longrightarrow> f r \<le> f y) \<and> r = hd (filter (\<lambda>y. P y \<and> f y = f r) xs)"
proof -
  obtain rest where s: "filter P (sort_key f xs) = r # rest"
    using assms by (auto simp: find_filter split: list.splits)
  have "r \<in> set (filter P (sort_key f xs))" unfolding s by simp
  then have r: "P r" "r \<in> set xs" by simp_all
  have "sorted (map f (filter P (sort_key f xs)))" by (simp add: filter_sort)
  then have "\<forall>y \<in> set rest. f r \<le> f y" unfolding s by simp
  moreover have "y \<in> insert r (set rest)" if "y \<in> set xs" "P y" for y
  proof -
    from that have "y \<in> set (filter P (sort_key f xs))" by simp
    then show ?thesis unfolding s by simp
  qed
  ultimately have least: "\<forall>y \<in> set xs. P y \<longrightarrow> f r \<le> f y" by auto
  have comm: "filter (\<lambda>y. P y \<and> f y = f r) ys = filter P (filter (\<lambda>y. f y = f r) ys)"
    "filter P (filter (\<lambda>y. f y = f r) ys) = filter (\<lambda>y. f y = f r) (filter P ys)" for ys
    by (induction ys) auto
  have "filter (\<lambda>y. P y \<and> f y = f r) xs = filter P (filter (\<lambda>y. f y = f r) (sort_key f xs))"
    by (simp only: comm(1) sort_key_stable)
  also have "\<dots> = r # filter (\<lambda>y. f y = f r) rest" unfolding comm(2) s by simp
  finally show ?thesis using r least by simp
qed

text \<open>
  Where evaluating a condition does not change the names and the priorities are numbers, an endpoint's rules are decided like
  this: no answer means that no enabled rule's condition holds; a rule that is chosen is enabled, its condition holds, no other such
  rule has a smaller priority, and it is the first of its priority in the order of the store.
\<close>

theorem match_rules_chooses:
  assumes "pure_evaluator ev" "list_all (\<lambda>r. is_number (wr_priority r)) rs"
    and "match_rules p ev rs payload headers = (Inr m, ns)"
  shows "case m of
      None \<Rightarrow> filter (rule_holds p ev payload headers) rs = []
    | Some r \<Rightarrow>
        rule_holds p ev payload headers r \<and> r \<in> set rs
        \<and> (\<forall>y \<in> set rs. rule_holds p ev payload headers y \<longrightarrow> number_key (wr_priority r) \<le> number_key (wr_priority y))
        \<and> r = hd (filter (\<lambda>y. rule_holds p ev payload headers y \<and> number_key (wr_priority y) = number_key (wr_priority r)) rs)"
proof -
  from assms(2,3) have "first_match p ev (sort_key (\<lambda>r. number_key (wr_priority r)) rs) (Bare payload headers) = (Inr m, ns)"
    by (simp add: match_rules_def sort_rules_def)
  from first_match_find [OF assms(1) this]
  have m: "find (rule_holds p ev payload headers) (sort_key (\<lambda>r. number_key (wr_priority r)) rs) = m" ..
  show ?thesis
  proof (cases m)
    case None
    with m show ?thesis by (auto simp: find_None_iff filter_empty_conv)
  next
    case (Some r)
    with find_sorted [OF m [unfolded Some]] show ?thesis by simp
  qed
qed

text \<open>A rule whose condition is not text makes the choice raise, whatever comes after it.\<close>

lemma first_match_bad_condition:
  assumes "truthy (wr_enabled r)" "\<forall>e. wr_condition r \<noteq> JStr e"
  shows "\<exists>m. first_match p ev (r # rs) ns = (Inl (TypeError m), ns)"
proof -
  have "\<exists>m. check_ast p (wr_condition r) = Inl (TypeError m)"
    using assms(2) by (cases "wr_condition r") (auto simp: check_ast_def)
  with assms(1) show ?thesis by (auto simp: evaluate_condition_def evaluate_expression_def)
qed

definition demo_rule :: "string \<Rightarrow> string \<Rightarrow> int \<Rightarrow> webhook_rule" where
  "demo_rule i c n = \<lparr>wr_name = JStr i, wr_endpoint = JStr ''e'', wr_condition = JStr c, wr_priority = JInt n,
     wr_pipeline = JStr ''p'', wr_enabled = JBool True, wr_id = JStr i\<rparr>"

definition demo_parser :: parser where
  "demo_parser s = Inr (Node ''Expression'' [] [Node ''Constant'' s []])"

text \<open>Evaluates a constant: its value is whether its text is not empty.\<close>

definition demo_eval :: evaluator where
  "demo_eval t ns = (Inr (JBool (map ident (children t) \<noteq> [[]])), ns)"

lemma demo_evaluates: "evaluate_condition demo_parser demo_eval (JStr c) ns = (Inr (c \<noteq> []), ns)"
proof -
  have "safe_ast (Node ''Expression'' [] [Node ''Constant'' c []])" by (simp add: allowed_node_types_def)
  from check_ast_ok [OF this, of demo_parser c]
  show ?thesis by (simp add: evaluate_condition_def evaluate_expression_def demo_eval_def demo_parser_def)
qed

lemma demo_matches:
  "match_rules demo_parser demo_eval [demo_rule ''c'' ''t'' 2, demo_rule ''a'' [] 0, demo_rule ''b'' ''t'' 1] JNull []
   = (Inr (Some (demo_rule ''b'' ''t'' 1)), Bare JNull [])"
  by (simp add: match_rules_def sort_rules_def demo_evaluates demo_rule_def)

theorem match_rules_chooses_witness:
  "rule_holds demo_parser demo_eval JNull [] (demo_rule ''b'' ''t'' 1)"
proof -
  have "pure_evaluator demo_eval" by (simp add: pure_evaluator_def demo_eval_def)
  from match_rules_chooses [OF this _ demo_matches] show ?thesis by (simp add: demo_rule_def)
qed
section \<open>Saving and loading\<close>

lemma rule_roundtrip: "rule_from_dict i (rule_to_dict r) = Inr r"
  by (simp add: rule_from_dict_def rule_to_dict_def getitem_def dget_or_def)

lemma rule_dict_id: "getitem (rule_to_dict r) ''id'' = Inr (wr_id r)"
  by (simp add: rule_to_dict_def getitem_def)

lemma action_type_roundtrip: "action_type_of (JStr (action_value t)) = Inr t"
  by (cases t) (simp_all add: action_type_of_def enum_of_def)

lemma strategy_roundtrip: "strategy_of (JStr (strategy_value t)) = Inr t"
  by (cases t) (simp_all add: strategy_of_def enum_of_def)

lemma action_roundtrip: "action_from_dict i (action_to_dict a) = Inr a"
  by (simp add: action_from_dict_def action_to_dict_def getitem_def dget_or_def action_type_roundtrip strategy_roundtrip)

lemma actions_roundtrip:
  "length is = length as \<Longrightarrow>
   map_res (\<lambda>(i, j). bind_res (as_dict j) (action_from_dict i)) (zip is (map (\<lambda>a. JObj (action_to_dict a)) as)) = Inr as"
  by (induction "is" as rule: list_induct2) (simp_all add: action_roundtrip)

lemma pipeline_roundtrip:
  assumes "pl_actions p = Parsed as"
  shows "\<exists>d. pipeline_to_dict p = Inr d \<and> getitem d ''id'' = Inr (pl_id p) \<and> (\<forall>ids. pipeline_from_dict ids d = Inr p)"
  using assms
  by (auto simp: pipeline_to_dict_def pipeline_from_dict_def getitem_def dget_or_def actions_roundtrip)

definition keyed :: "('v \<Rightarrow> json) \<Rightarrow> (json, 'v) dict \<Rightarrow> bool" where
  "keyed f d \<longleftrightarrow> distinct (dkeys d) \<and> (\<forall>(k, v) \<in> set d. f v = k \<and> hashable k)"

definition parsed :: "pipeline \<Rightarrow> bool" where
  "parsed p \<longleftrightarrow> (\<exists>as. pl_actions p = Parsed as)"

definition store_inv :: "automation_store \<Rightarrow> bool" where
  "store_inv st \<longleftrightarrow> keyed wr_id (as_rules st) \<and> keyed pl_id (as_pipelines st) \<and> list_all parsed (dvalues (as_pipelines st))"

text \<open>Reading back, one after the other, entries that were written from a dict with these keys.\<close>

lemma dset_new: "k \<notin> set (dkeys d) \<Longrightarrow> dset k v d = d @ [(k, v)]"
  by (induction d) auto

lemma build_dict_append:
  assumes "distinct (dkeys (acc @ d))" "\<forall>(k, v) \<in> set d. key v = k \<and> hashable k"
    and "length ds = length d"
    and "\<forall>i < length d. getitem (ds ! i) ''id'' = Inr (key (snd (d ! i))) \<and> (\<forall>n. f n (ds ! i) = Inr (snd (d ! i)))"
  shows "build_dict f n ds acc = Inr (acc @ d)"
  using assms
proof (induction d arbitrary: ds acc n)
  case (Cons p d)
  obtain k v where p: "p = (k, v)" by (cases p)
  from Cons.prems(3) obtain e es where ds: "ds = e # es" by (cases ds) auto
  from Cons.prems(4) have e: "getitem e ''id'' = Inr (key v)" "\<forall>n. f n e = Inr v" by (auto simp: ds p dest: spec [of _ 0])
  have "key v = k" "hashable k" using Cons.prems(2) by (auto simp: p)
  moreover have "k \<notin> set (dkeys acc)" using Cons.prems(1) by (auto simp: p)
  moreover have "build_dict f (Suc n) es ((acc @ [(k, v)])) = Inr ((acc @ [(k, v)]) @ d)"
    by (rule Cons.IH) (use Cons.prems in \<open>auto simp: p ds dest: spec [of _ "Suc _"]\<close>)
  ultimately show ?case by (simp add: ds e p dict_set_def dset_new)
qed simp

lemma build_dict_keyed:
  assumes "keyed key d" "length ds = length d"
    and "\<forall>i < length d. getitem (ds ! i) ''id'' = Inr (key (snd (d ! i))) \<and> (\<forall>n. f n (ds ! i) = Inr (snd (d ! i)))"
  shows "build_dict f n ds [] = Inr d"
  using build_dict_append [of "[]" d key ds f n] assms by (simp add: keyed_def)

lemma save_load:
  assumes "store_inv st"
  shows "\<exists>rs ps. save_store st = Inr (rs, ps) \<and> load_store ids rs ps empty_store = Inr st"
proof -
  obtain g where g: "\<forall>p. parsed p \<longrightarrow> pipeline_to_dict p = Inr (g p) \<and> getitem (g p) ''id'' = Inr (pl_id p)
      \<and> (\<forall>ids. pipeline_from_dict ids (g p) = Inr p)"
    using pipeline_roundtrip unfolding parsed_def by metis
  let ?rs = "map rule_to_dict (dvalues (as_rules st))" and ?ps = "map g (dvalues (as_pipelines st))"
  have par: "parsed p" if "p \<in> set (dvalues (as_pipelines st))" for p
    using assms that by (auto simp: store_inv_def list_all_iff)
  have save: "save_store st = Inr (?rs, ?ps)"
    unfolding save_store_def using map_res_all_Inr [of "dvalues (as_pipelines st)" pipeline_to_dict g] g par by simp
  have "build_dict (\<lambda>n. rule_from_dict (ids n 0)) 0 ?rs [] = Inr (as_rules st)"
    by (rule build_dict_keyed [of wr_id])
      (use assms in \<open>auto simp: store_inv_def rule_roundtrip rule_dict_id\<close>)
  moreover have "build_dict (\<lambda>n. pipeline_from_dict (ids n)) (length ?rs) ?ps [] = Inr (as_pipelines st)"
    by (rule build_dict_keyed [of pl_id]) (use assms g par in \<open>auto simp: store_inv_def\<close>)
  ultimately have "load_store ids ?rs ?ps empty_store = Inr st"
    by (cases "as_rules st"; cases "as_pipelines st") (auto simp: load_store_def empty_store_def)
  with save show ?thesis by blast
qed

text \<open>What the routes do to the store, updates apart; a new object comes from a dict.\<close>

datatype store_op =
    AddRule string json_obj
  | RemoveRule string
  | AddPipeline "nat \<Rightarrow> string" json_obj
  | RemovePipeline string

fun store_step :: "store_op \<Rightarrow> automation_store \<Rightarrow> automation_store" where
  "store_step (AddRule i d) st = (case bind_res (rule_from_dict i d) (\<lambda>r. add_rule r st) of Inl _ \<Rightarrow> st | Inr st' \<Rightarrow> st')"
| "store_step (RemoveRule rid) st = snd (remove_rule rid st)"
| "store_step (AddPipeline ids d) st =
     (case bind_res (pipeline_from_dict ids d) (\<lambda>p. add_pipeline p st) of Inl _ \<Rightarrow> st | Inr st' \<Rightarrow> st')"
| "store_step (RemovePipeline pid) st = snd (remove_pipeline pid st)"

lemma keyed_dict_set: "keyed f d \<Longrightarrow> dict_set (f v) v d = Inr d' \<Longrightarrow> keyed f d' \<and> set (dvalues d') \<subseteq> insert v (set (dvalues d))"
  using set_dset_subset [of "f v" v d] dvalues_dset_subset [of "f v" v d]
  by (auto simp: keyed_def dict_set_def split: if_splits)

lemma keyed_dpop: "keyed f d \<Longrightarrow> keyed f (dpop k d) \<and> set (dvalues (dpop k d)) \<subseteq> set (dvalues d)"
  using set_dpop_subset [of k d] by (force simp: keyed_def)

lemma parsed_from_dict: "pipeline_from_dict ids d = Inr p \<Longrightarrow> parsed p"
  by (auto simp: pipeline_from_dict_def parsed_def bind_res_eq_Inr)

lemma store_step_inv: "store_inv st \<Longrightarrow> store_inv (store_step op1 st)"
proof (cases op1)
  case (AddRule i d)
  then show "store_inv st \<Longrightarrow> ?thesis"
    using keyed_dict_set [of wr_id "as_rules st"]
    by (auto simp: store_inv_def add_rule_def bind_res_eq_Inr split: sum.splits)
next
  case (AddPipeline ids d)
  then show "store_inv st \<Longrightarrow> ?thesis"
    using keyed_dict_set [of pl_id "as_pipelines st"] parsed_from_dict
    by (fastforce simp: store_inv_def add_pipeline_def bind_res_eq_Inr list_all_iff split: sum.splits)
next
  case (RemoveRule rid)
  then show "store_inv st \<Longrightarrow> ?thesis"
    using keyed_dpop [of wr_id "as_rules st"] by (auto simp: store_inv_def remove_rule_def)
next
  case (RemovePipeline pid)
  then show "store_inv st \<Longrightarrow> ?thesis"
    using keyed_dpop [of pl_id "as_pipelines st" "JStr pid"]
    by (fastforce simp: store_inv_def remove_pipeline_def list_all_iff)
qed

interpretation automation: machine store_step store_inv
  by unfold_locales (rule store_step_inv)

text \<open>
  Whatever rules and pipelines were added and removed, saving succeeds, and a program that starts with an empty store and loads what
  was saved has the same store.
\<close>

theorem save_load_roundtrip:
  "\<exists>rs ps. save_store (fold store_step ops empty_store) = Inr (rs, ps)
     \<and> load_store ids rs ps empty_store = Inr (fold store_step ops empty_store)"
proof (rule save_load, rule automation.run_inv)
  show "store_inv empty_store" by (simp add: store_inv_def empty_store_def keyed_def)
qed

text \<open>An update may put a value in place of a pipeline's actions; then nothing can be saved or listed.\<close>

lemma updated_actions:
  assumes "dget (as_pipelines st) (JStr pid) = Some p"
  shows "\<exists>st'. update_pipeline pid [(''actions'', j)] st = Inr (True, st') \<and> as_rules st' = as_rules st
     \<and> as_pipelines st' = dset (JStr pid) (p\<lparr>pl_actions := AsGiven j\<rparr>) (as_pipelines st)"
  using assms by (simp add: update_pipeline_def set_pipeline_attr_def)

lemma raw_actions_not_written: "pipeline_to_dict (p\<lparr>pl_actions := AsGiven (JList (j # js))\<rparr>) = Inl (attribute_error ''to_dict'')"
  by (simp add: pipeline_to_dict_def)

lemma map_res_fails: "x \<in> set xs \<Longrightarrow> f x = Inl e \<Longrightarrow> \<exists>e'. map_res f xs = Inl e'"
  by (induction xs) (auto simp: bind_res_def split: sum.splits)

lemma raw_actions_not_saved:
  assumes "dget (as_pipelines st) pid = Some (p\<lparr>pl_actions := AsGiven (JList (j # js))\<rparr>)"
  shows "\<exists>e. save_store st = Inl e"
proof -
  from assms have "p\<lparr>pl_actions := AsGiven (JList (j # js))\<rparr> \<in> set (dvalues (as_pipelines st))"
    by (force dest: map_of_SomeD)
  from map_res_fails [of _ _ pipeline_to_dict, OF this raw_actions_not_written]
  show ?thesis by (auto simp: save_store_def)
qed

end
