(* ===== verification/Webhook.thy ===== *)
theory Webhook
  imports Webhook_Rules
begin

text \<open>
  Webhook automation at work: the action handlers of \<open>webhook/actions\<close>, \<open>webhook/pipeline_executor.py\<close>, the endpoints of
  \<open>web/webhook.py\<close> and how \<open>main.py\<close> and \<open>web/routes/system.py\<close> put them together. What is outside of the program (the agent, the
  tools, HTTP, the message router, Jinja templates, the hash) is the record \<open>webhook_env\<close>; its effects are on a world of any type.
\<close>

section \<open>Handlers of actions\<close>

record action_result =
  ar_success :: bool
  ar_output :: json
  ar_error :: string

definition succeeded :: "json \<Rightarrow> action_result" where
  "succeeded out = \<lparr>ar_success = True, ar_output = out, ar_error = []\<rparr>"

definition failed :: "string \<Rightarrow> action_result" where
  "failed e = \<lparr>ar_success = False, ar_output = JStr [], ar_error = e\<rparr>"

text \<open>What a tool returns: its output, and its success where the object has one.\<close>

type_synonym 'w tool_call = "json_obj \<Rightarrow> 'w \<Rightarrow> (exn + (json \<times> bool)) \<times> 'w"

record 'w webhook_env =
  we_parse :: parser
  we_eval :: evaluator
  we_render :: "json \<Rightarrow> pipeline_context \<Rightarrow> exn + string"
  we_str :: "json \<Rightarrow> string"
  we_agent :: "string \<Rightarrow> string \<Rightarrow> string \<Rightarrow> 'w \<Rightarrow> (exn + json) \<times> 'w"
  we_get_tool :: "json \<Rightarrow> exn + 'w tool_call option"
  we_http :: "string \<Rightarrow> json \<Rightarrow> json option \<Rightarrow> json option \<Rightarrow> 'w \<Rightarrow> (exn + (int \<times> string)) \<times> 'w"
  we_notify :: "json \<Rightarrow> json \<Rightarrow> json \<Rightarrow> 'w \<Rightarrow> (exn + unit) \<times> 'w"
  we_dumps :: "json \<Rightarrow> exn + string"
  we_hmac :: "string \<Rightarrow> string \<Rightarrow> string"

text \<open>
  The state of a run: the context that the actions share, the world, the results so far, whether the run is a success, and a ghost
  field with the actions that were handed to a handler.
\<close>

record 'w run_state =
  rn_ctx :: pipeline_context
  rn_world :: 'w
  rn_results :: "action_result list"
  rn_success :: bool
  rn_ran :: "pipeline_action list"

definition outside :: "('w \<Rightarrow> (exn + 'a) \<times> 'w) \<Rightarrow> ('w run_state, 'a) prog" where
  "outside f s = (case f (rn_world s) of (r, w) \<Rightarrow> (r, s\<lparr>rn_world := w\<rparr>))"

definition set_ctx :: "pipeline_context \<Rightarrow> ('w run_state, unit) prog" where
  "set_ctx c = modify_s (\<lambda>s. s\<lparr>rn_ctx := c\<rparr>)"

text \<open>\<open>ctx.steps[key] = value\<close>.\<close>

definition set_step :: "json \<Rightarrow> json \<Rightarrow> ('w run_state, unit) prog" where
  "set_step k v =
     bind_s get_s (\<lambda>s. bind_s (lift_res (dict_set k v (cx_steps (rn_ctx s)))) (\<lambda>d.
       set_ctx ((rn_ctx s)\<lparr>cx_steps := d\<rparr>)))"

text \<open>\<open>action.config.get(key, default)\<close>.\<close>

definition config_get :: "json \<Rightarrow> string \<Rightarrow> json \<Rightarrow> exn + json" where
  "config_get c k v = bind_res (as_dict c) (\<lambda>d. Inr (dget_or d k v))"

definition capture :: "pipeline_action \<Rightarrow> json \<Rightarrow> ('w run_state, unit) prog" where
  "capture a v = (if truthy (pa_capture a) \<and> truthy (pa_variable a) then set_step (pa_variable a) v else ret ())"

definition caught :: "('w run_state, action_result) prog \<Rightarrow> ('w run_state, action_result) prog" where
  "caught m = try_s m (\<lambda>x. ret (failed (exn_str x)))"

definition agent_action :: "'w webhook_env \<Rightarrow> pipeline_action \<Rightarrow> ('w run_state, action_result) prog" where
  "agent_action env a =
     caught (bind_s (lift_res (config_get (pa_config a) ''message_template'' (JStr []))) (\<lambda>t.
       bind_s get_s (\<lambda>s. bind_s (lift_res (we_render env t (rn_ctx s))) (\<lambda>msg.
       bind_s (outside (we_agent env msg ''webhook-pipeline'' (''webhook:'' @ cx_endpoint (rn_ctx s)))) (\<lambda>r.
       then_s (capture a r) (ret (succeeded (JStr (if r = JNull then [] else we_str env r)))))))))"

definition tool_action :: "'w webhook_env \<Rightarrow> pipeline_action \<Rightarrow> ('w run_state, action_result) prog" where
  "tool_action env a =
     bind_s (lift_res (config_get (pa_config a) ''tool_name'' (JStr []))) (\<lambda>name.
     bind_s (lift_res (config_get (pa_config a) ''arguments'' (JObj []))) (\<lambda>args.
     bind_s (lift_res (we_get_tool env name)) (\<lambda>t.
       case t of
         None \<Rightarrow> ret (failed (''Tool '' @ quoted (we_str env name) @ '' not found in registry''))
       | Some call \<Rightarrow>
           caught (bind_s (lift_res (case args of JObj d \<Rightarrow> Inr d | _ \<Rightarrow> Inl (TypeError ''argument after ** must be a mapping''))) (\<lambda>d.
             bind_s (outside (call d)) (\<lambda>(out, ok).
             then_s (capture a out) (ret \<lparr>ar_success = ok, ar_output = out, ar_error = []\<rparr>)))))))"

text \<open>\<open>resolve_config\<close>: text is rendered, a nested dict is resolved, anything else is kept.\<close>

fun resolve_value :: "(json \<Rightarrow> exn + string) \<Rightarrow> json \<Rightarrow> exn + json"
  and resolve_pairs :: "(json \<Rightarrow> exn + string) \<Rightarrow> json_obj \<Rightarrow> exn + json_obj"
where
  "resolve_value render (JStr s) = bind_res (render (JStr s)) (\<lambda>t. Inr (JStr t))"
| "resolve_value render (JObj d) = bind_res (resolve_pairs render d) (\<lambda>e. Inr (JObj e))"
| "resolve_value render v = Inr v"
| "resolve_pairs render [] = Inr []"
| "resolve_pairs render ((k, v) # d) =
     bind_res (resolve_value render v) (\<lambda>w. bind_res (resolve_pairs render d) (\<lambda>e. Inr ((k, w) # e)))"

definition resolve_config :: "(json \<Rightarrow> exn + string) \<Rightarrow> json \<Rightarrow> exn + json_obj" where
  "resolve_config render c =
     (case c of JObj d \<Rightarrow> resolve_pairs render d | _ \<Rightarrow> Inl (attribute_error ''items''))"

definition upper_char :: "char \<Rightarrow> char" where
  "upper_char c = (let n = (of_char c :: nat) in if 97 \<le> n \<and> n \<le> 122 then char_of (n - 32) else c)"

definition http_action :: "'w webhook_env \<Rightarrow> pipeline_action \<Rightarrow> ('w run_state, action_result) prog" where
  "http_action env a =
     caught (bind_s get_s (\<lambda>s.
       bind_s (lift_res (resolve_config (\<lambda>t. we_render env t (rn_ctx s)) (pa_config a))) (\<lambda>cfg.
       bind_s (lift_res (case dget_or cfg ''method'' (JStr ''GET'') of
           JStr m \<Rightarrow> Inr (map upper_char m) | _ \<Rightarrow> Inl (attribute_error ''upper''))) (\<lambda>m.
       bind_s (outside (we_http env m (dget_or cfg ''url'' (JStr []))
           (let h = dget_or cfg ''headers'' (JObj []) in if truthy h then Some h else None)
           (let b = dget_or cfg ''body'' JNull in if b = JNull then None else Some b))) (\<lambda>(status, body).
       then_s (capture a (JStr body))
         (ret (if 200 \<le> status \<and> status < 400 then succeeded (JStr body)
               else \<lparr>ar_success = False, ar_output = JStr body, ar_error = ''HTTP '' @ int_str status\<rparr>)))))))"

definition notify_action :: "'w webhook_env \<Rightarrow> pipeline_action \<Rightarrow> ('w run_state, action_result) prog" where
  "notify_action env a =
     caught (bind_s (lift_res (config_get (pa_config a) ''channel'' (JStr []))) (\<lambda>ch.
       bind_s (lift_res (config_get (pa_config a) ''target'' (JStr []))) (\<lambda>tg.
       bind_s (lift_res (config_get (pa_config a) ''message'' (JStr []))) (\<lambda>msg.
       then_s (outside (we_notify env ch tg msg))
         (ret (succeeded (JStr (''Notified '' @ we_str env ch @ '':'' @ we_str env tg))))))))"

definition transform_action :: "'w webhook_env \<Rightarrow> pipeline_action \<Rightarrow> ('w run_state, action_result) prog" where
  "transform_action env a =
     bind_s (lift_res (config_get (pa_config a) ''expression'' (JStr []))) (\<lambda>e.
     bind_s (lift_res (config_get (pa_config a) ''output_variable'' (JStr []))) (\<lambda>var.
     bind_s get_s (\<lambda>s.
       case evaluate_expression (we_parse env) (we_eval env) e (InContext (rn_ctx s)) of
         (r, ns) \<Rightarrow>
           then_s (case ns of InContext c \<Rightarrow> set_ctx c | Bare _ _ \<Rightarrow> ret ())
           (case r of
              Inl x \<Rightarrow> ret (failed (if is_condition_error x then ''Forbidden or invalid expression: '' @ exn_str x else exn_str x))
            | Inr v \<Rightarrow> then_s (if truthy var then set_step var v else ret ()) (ret (succeeded (JStr (we_str env v))))))))"

text \<open>The handlers that \<open>main.py\<close> registers, one for each type of action.\<close>

definition handle_action :: "'w webhook_env \<Rightarrow> pipeline_action \<Rightarrow> ('w run_state, action_result) prog" where
  "handle_action env a =
     (case pa_type a of
        SEND_TO_AGENT \<Rightarrow> agent_action env a
      | CALL_TOOL \<Rightarrow> tool_action env a
      | HTTP_REQUEST \<Rightarrow> http_action env a
      | NOTIFY \<Rightarrow> notify_action env a
      | TRANSFORM \<Rightarrow> transform_action env a)"

section \<open>Running a pipeline\<close>

type_synonym 'w handlers = "action_type \<Rightarrow> (pipeline_action \<Rightarrow> ('w run_state, action_result) prog) option"

definition attempt_action ::
  "(pipeline_action \<Rightarrow> ('w run_state, action_result) prog) \<Rightarrow> pipeline_action \<Rightarrow> ('w run_state, action_result) prog"
where
  "attempt_action h a = then_s (modify_s (\<lambda>s. s\<lparr>rn_ran := rn_ran s @ [a]\<rparr>)) (h a)"

definition wh_add_result :: "action_result \<Rightarrow> ('w run_state, unit) prog" where
  "wh_add_result r = modify_s (\<lambda>s. s\<lparr>rn_results := rn_results s @ [r]\<rparr>)"

definition replace_result :: "action_result \<Rightarrow> ('w run_state, unit) prog" where
  "replace_result r = modify_s (\<lambda>s. s\<lparr>rn_results := butlast (rn_results s) @ [r]\<rparr>)"

text \<open>The retries; the answer is whether the pipeline should stop.\<close>

fun retry_action ::
  "(pipeline_action \<Rightarrow> ('w run_state, action_result) prog) \<Rightarrow> pipeline_action \<Rightarrow> nat \<Rightarrow> ('w run_state, bool) prog"
where
  "retry_action h a 0 = ret True"
| "retry_action h a (Suc n) =
     bind_s (attempt_action h a) (\<lambda>r.
       then_s (replace_result r) (if ar_success r then ret False else retry_action h a n))"

fun py_range :: "json \<Rightarrow> exn + nat" where
  "py_range (JInt n) = Inr (nat n)"
| "py_range (JBool b) = Inr (if b then 1 else 0)"
| "py_range _ = Inl (TypeError ''object cannot be interpreted as an integer'')"

definition handle_failure :: "'w handlers \<Rightarrow> pipeline_action \<Rightarrow> ('w run_state, bool) prog" where
  "handle_failure hs a =
     (case pa_on_failure a of
        STOP \<Rightarrow> ret True
      | CONTINUE \<Rightarrow> ret False
      | RETRY \<Rightarrow>
          (case hs (pa_type a) of
             None \<Rightarrow> ret True
           | Some h \<Rightarrow> bind_s (lift_res (py_range (pa_max_retries a))) (retry_action h a))
      | FALLBACK \<Rightarrow> ret True)"

definition give_up :: "action_result \<Rightarrow> ('w run_state, unit) prog" where
  "give_up r = then_s (wh_add_result r) (modify_s (\<lambda>s. s\<lparr>rn_success := False\<rparr>))"

fun run_actions :: "'w handlers \<Rightarrow> permission_level \<Rightarrow> pipeline_action list \<Rightarrow> ('w run_state, unit) prog" where
  "run_actions hs lvl [] = ret ()"
| "run_actions hs lvl (a # as) =
     (if \<not> can_execute lvl (pa_type a) then
        give_up (failed (''Permission denied: '' @ quoted (permission_value lvl) @ '' cannot execute action type '' @ quoted (action_value (pa_type a))))
      else case hs (pa_type a) of
        None \<Rightarrow> give_up (failed (''No handler registered for action type '' @ quoted (action_value (pa_type a))))
      | Some h \<Rightarrow>
          bind_s (attempt_action h a) (\<lambda>r. then_s (wh_add_result r)
            (if ar_success r then run_actions hs lvl as
             else bind_s (handle_failure hs a) (\<lambda>stop.
               if stop then modify_s (\<lambda>s. s\<lparr>rn_success := False\<rparr>) else run_actions hs lvl as))))"

text \<open>A run starts with an empty log; the actions an update put in are plain values without an \<open>action_type\<close>.\<close>

definition execute_pipeline :: "'w handlers \<Rightarrow> pipeline \<Rightarrow> permission_level \<Rightarrow> ('w run_state, unit) prog" where
  "execute_pipeline hs p lvl =
     then_s (modify_s (\<lambda>s. s\<lparr>rn_results := [], rn_success := True\<rparr>))
       (if \<not> truthy (pl_enabled p) then modify_s (\<lambda>s. s\<lparr>rn_success := False\<rparr>)
        else case pl_actions p of
          Parsed as \<Rightarrow> run_actions hs lvl as
        | AsGiven j \<Rightarrow> bind_s (lift_res (json_items j)) (\<lambda>n. if n = 0 then ret () else raise_s (attribute_error ''action_type'')))"

section \<open>Endpoints\<close>

record endpoint =
  en_id :: string
  en_name :: string
  en_path :: string
  en_event_type :: string
  en_action :: string
  en_enabled :: bool
  en_secret :: string
  en_received :: nat
  en_last :: "string option"
  en_fallback :: string
  en_fallback_pipeline :: string
  en_permission :: string

record webhook_event =
  ev_endpoint :: string
  ev_path :: string
  ev_type :: string
  ev_summary :: string

text \<open>
  The manager. \<open>wm_agent\<close> says whether a message handler is set and \<open>wm_automation\<close> holds the store once the automation is set;
  \<open>wm_ran\<close> is a ghost field with the actions that were handed to a handler.
\<close>

record 'w webhook_manager =
  wm_endpoints :: "(string, endpoint) dict"
  wm_agent :: bool
  wm_events :: "webhook_event list"
  wm_automation :: "automation_store option"
  wm_world :: 'w
  wm_ran :: "pipeline_action list"

definition add_endpoint :: "endpoint \<Rightarrow> 'w webhook_manager \<Rightarrow> 'w webhook_manager" where
  "add_endpoint e m = m\<lparr>wm_endpoints := dset (en_id e) e (wm_endpoints m)\<rparr>"

definition remove_endpoint :: "string \<Rightarrow> 'w webhook_manager \<Rightarrow> bool \<times> 'w webhook_manager" where
  "remove_endpoint i m = (dget (wm_endpoints m) i \<noteq> None, m\<lparr>wm_endpoints := dpop i (wm_endpoints m)\<rparr>)"

definition get_endpoint_by_path :: "string \<Rightarrow> 'w webhook_manager \<Rightarrow> endpoint option" where
  "get_endpoint_by_path p m = find (\<lambda>e. en_path e = p) (dvalues (wm_endpoints m))"

text \<open>What \<open>get_endpoints\<close> lists, which is also what the routes write to the database.\<close>

definition endpoint_entry :: "endpoint \<Rightarrow> json_obj" where
  "endpoint_entry e =
     [(''id'', JStr (en_id e)), (''name'', JStr (en_name e)), (''path'', JStr (en_path e)), (''event_type'', JStr (en_event_type e)),
      (''action'', JStr (en_action e)), (''enabled'', JBool (en_enabled e)), (''has_secret'', JBool (en_secret e \<noteq> [])),
      (''received_count'', JInt (int (en_received e))),
      (''last_received'', case en_last e of None \<Rightarrow> JNull | Some t \<Rightarrow> JStr t)]"

definition get_endpoints :: "'w webhook_manager \<Rightarrow> json_obj list" where
  "get_endpoints m = map endpoint_entry (dvalues (wm_endpoints m))"

fun text_of :: "json \<Rightarrow> string" where
  "text_of (JStr s) = s"
| "text_of _ = []"

text \<open>
  The endpoint that \<open>main.py\<close> builds from an entry of the database, where the entry has text in the fields of text, as the
  entries that the routes write have.
\<close>

definition endpoint_of_entry :: "json_obj \<Rightarrow> exn + endpoint" where
  "endpoint_of_entry d =
     bind_res (getitem d ''id'') (\<lambda>i. bind_res (getitem d ''name'') (\<lambda>n. bind_res (getitem d ''path'') (\<lambda>p.
     Inr \<lparr>en_id = text_of i, en_name = text_of n, en_path = text_of p,
          en_event_type = text_of (dget_or d ''event_type'' (JStr ''generic'')),
          en_action = text_of (dget_or d ''action'' (JStr ''Webhook: {payload}'')),
          en_enabled = truthy (dget_or d ''enabled'' (JBool True)), en_secret = text_of (dget_or d ''secret'' (JStr [])),
          en_received = 0, en_last = None, en_fallback = text_of (dget_or d ''fallback_strategy'' (JStr ''forward_to_agent'')),
          en_fallback_pipeline = text_of (dget_or d ''fallback_pipeline_id'' (JStr [])),
          en_permission = text_of (dget_or d ''permission_level'' (JStr ''standard''))\<rparr>)))"

fun restore_endpoints :: "json_obj list \<Rightarrow> 'w webhook_manager \<Rightarrow> 'w webhook_manager" where
  "restore_endpoints [] m = m"
| "restore_endpoints (d # ds) m =
     (case endpoint_of_entry d of Inl _ \<Rightarrow> m | Inr e \<Rightarrow> restore_endpoints ds (add_endpoint e m))"

text \<open>\<open>hmac.compare_digest\<close> on text: ASCII only, and equality.\<close>

definition is_ascii :: "string \<Rightarrow> bool" where
  "is_ascii s = list_all (\<lambda>c. (of_char c :: nat) < 128) s"

definition compare_digest :: "string \<Rightarrow> string \<Rightarrow> exn + bool" where
  "compare_digest a b =
     (if is_ascii a \<and> is_ascii b then Inr (a = b)
      else Inl (TypeError ''comparing strings with non-ASCII characters is not supported''))"

definition header :: "(string, string) dict \<Rightarrow> string \<Rightarrow> string" where
  "header hs k = dget_or hs k []"

definition verify_secret :: "(string \<Rightarrow> string \<Rightarrow> string) \<Rightarrow> endpoint \<Rightarrow> string \<Rightarrow> (string, string) dict \<Rightarrow> exn + bool" where
  "verify_secret hmac e body hs =
     (if en_secret e = [] then Inr True
      else if header hs ''x-hub-signature-256'' \<noteq> [] then
        compare_digest (header hs ''x-hub-signature-256'') (''sha256='' @ hmac (en_secret e) body)
      else if header hs ''x-gitlab-token'' \<noteq> [] then compare_digest (header hs ''x-gitlab-token'') (en_secret e)
      else if header hs ''x-webhook-secret'' \<noteq> [] then compare_digest (header hs ''x-webhook-secret'') (en_secret e)
      else Inr False)"

section \<open>Handling a webhook\<close>

definition json_has :: "json \<Rightarrow> string \<Rightarrow> bool" where
  "json_has j k = (case j of JObj d \<Rightarrow> k \<in> set (dkeys d) | _ \<Rightarrow> False)"

definition em_dash :: string where
  "em_dash = [CHR 0xE2, CHR 0x80, CHR 0x94]"

text \<open>\<open>obj.get(key)\<close>, printed.\<close>

definition show_get :: "(json \<Rightarrow> string) \<Rightarrow> json \<Rightarrow> string \<Rightarrow> exn + string" where
  "show_get str j k = bind_res (config_get j k JNull) (\<lambda>v. Inr (str v))"

definition github_summary :: "(json \<Rightarrow> string) \<Rightarrow> json \<Rightarrow> exn + string" where
  "github_summary str p =
     bind_res (config_get p ''action'' (JStr [])) (\<lambda>act.
     let item = (\<lambda>key label.
       bind_res (config_get p key JNull) (\<lambda>x. bind_res (show_get str x ''number'') (\<lambda>n. bind_res (show_get str x ''title'') (\<lambda>t.
       Inr (label @ n @ '': '' @ t @ '' ('' @ str act @ '')'')))))
     in if json_has p ''pull_request'' then item ''pull_request'' ''PR #''
        else if json_has p ''issue'' then item ''issue'' ''Issue #''
        else if json_has p ''ref'' \<and> json_has p ''commits'' then
          bind_res (show_get str p ''ref'') (\<lambda>r. bind_res (config_get p ''commits'' (JList [])) (\<lambda>c. bind_res (json_items c) (\<lambda>n.
          Inr (''Push to '' @ r @ '': '' @ nat_str n @ '' commits''))))
        else Inr [])"

definition gitlab_summary :: "(json \<Rightarrow> string) \<Rightarrow> json \<Rightarrow> exn + string" where
  "gitlab_summary str p =
     bind_res (config_get p ''object_kind'' (JStr [])) (\<lambda>kind.
     if kind = JStr ''merge_request'' then
       bind_res (config_get p ''object_attributes'' (JObj [])) (\<lambda>mr.
       bind_res (show_get str mr ''iid'') (\<lambda>i. bind_res (show_get str mr ''title'') (\<lambda>t. Inr (''MR !'' @ i @ '': '' @ t))))
     else if kind = JStr ''push'' then
       bind_res (show_get str p ''ref'') (\<lambda>r. bind_res (config_get p ''total_commits_count'' (JInt 0)) (\<lambda>n.
       Inr (''Push to '' @ r @ '': '' @ str n @ '' commits'')))
     else Inr [])"

definition ci_summary :: "(json \<Rightarrow> string) \<Rightarrow> json \<Rightarrow> exn + string" where
  "ci_summary str p =
     bind_res (config_get p ''state'' (JStr [])) (\<lambda>state. bind_res (config_get p ''status'' state) (\<lambda>status.
     bind_res (config_get p ''pipeline'' (JObj [])) (\<lambda>pl. bind_res (config_get pl ''id'' (JStr [])) (\<lambda>i.
     bind_res (config_get p ''name'' i) (\<lambda>name.
     Inr (''CI: '' @ str name @ '' '' @ em_dash @ '' '' @ str status))))))"

definition extract_summary :: "(json \<Rightarrow> string) \<Rightarrow> string \<Rightarrow> json \<Rightarrow> string" where
  "extract_summary str ty p =
     (case (if ty = ''github'' then github_summary str p else if ty = ''gitlab'' then gitlab_summary str p
            else if ty = ''ci'' then ci_summary str p else Inr []) of
        Inl _ \<Rightarrow> [] | Inr t \<Rightarrow> t)"

definition push_event :: "webhook_event \<Rightarrow> 'w webhook_manager \<Rightarrow> 'w webhook_manager" where
  "push_event v m =
     (let es = wm_events m @ [v] in m\<lparr>wm_events := if length es > 100 then drop (length es - 100) es else es\<rparr>)"

definition log_event :: "endpoint \<Rightarrow> string \<Rightarrow> string \<Rightarrow> 'w webhook_manager \<Rightarrow> 'w webhook_manager" where
  "log_event e path summary =
     push_event \<lparr>ev_endpoint = en_name e, ev_path = path, ev_type = en_event_type e,
       ev_summary = (if summary = [] then ''webhook received'' else summary)\<rparr>"

definition get_event_log :: "nat \<Rightarrow> 'w webhook_manager \<Rightarrow> webhook_event list" where
  "get_event_log limit m = (if limit = 0 then wm_events m else last_n limit (wm_events m))"

datatype webhook_reply =
    NotFound string
  | EndpointDisabled
  | Unauthorized
  | PipelineDone json bool "nat option"
  | Dropped
  | Response string
  | HandlerError string
  | NoHandler

text \<open>A run of a pipeline in a fresh context, on the manager's world.\<close>

definition run_pipeline ::
  "'w handlers \<Rightarrow> pipeline \<Rightarrow> json \<Rightarrow> json_obj \<Rightarrow> string \<Rightarrow> permission_level \<Rightarrow> ('w webhook_manager, 'w run_state) prog"
where
  "run_pipeline hs p payload headers path lvl m =
     (case execute_pipeline hs p lvl
        \<lparr>rn_ctx = \<lparr>cx_payload = payload, cx_headers = headers, cx_endpoint = path, cx_steps = [], cx_secrets = []\<rparr>,
         rn_world = wm_world m, rn_results = [], rn_success = True, rn_ran = []\<rparr> of
        (r, s) \<Rightarrow> (bind_res r (\<lambda>_. Inr s), m\<lparr>wm_world := rn_world s, wm_ran := wm_ran m @ rn_ran s\<rparr>))"

definition call_agent :: "'w webhook_env \<Rightarrow> string \<Rightarrow> string \<Rightarrow> ('w webhook_manager, json) prog" where
  "call_agent env msg channel m =
     (case we_agent env msg ''webhook'' channel (wm_world m) of (r, w) \<Rightarrow> (r, m\<lparr>wm_world := w\<rparr>))"

definition forward_to_agent :: "'w webhook_env \<Rightarrow> endpoint \<Rightarrow> string \<Rightarrow> json \<Rightarrow> string \<Rightarrow> ('w webhook_manager, webhook_reply) prog" where
  "forward_to_agent env e path payload summary =
     bind_s (lift_res (we_dumps env payload)) (\<lambda>text1.
     let msg1 = str_replace_from 0 ''{payload}'' (take 2000 text1) (en_action e);
         msg = (if summary = [] then msg1 else msg1 @ [CHR 0x0A, CHR 0x0A] @ ''Summary: '' @ summary)
     in bind_s get_s (\<lambda>m.
        if wm_agent m then
          try_s (bind_s (call_agent env msg (''webhook:'' @ path)) (\<lambda>r. ret (Response (take 500 (we_str env r)))))
            (\<lambda>x. ret (HandlerError (exn_str x)))
        else ret NoHandler))"

definition apply_fallback ::
  "'w webhook_env \<Rightarrow> 'w handlers \<Rightarrow> endpoint \<Rightarrow> string \<Rightarrow> json \<Rightarrow> string \<Rightarrow> ('w webhook_manager, webhook_reply) prog"
where
  "apply_fallback env hs e path payload summary =
     (if en_fallback e = ''drop'' then ret Dropped
      else bind_s get_s (\<lambda>m.
        let found = (if en_fallback e = ''default_pipeline'' \<and> en_fallback_pipeline e \<noteq> [] then
             (case wm_automation m of
                None \<Rightarrow> Inr None
              | Some st \<Rightarrow> get_pipeline (JStr (en_fallback_pipeline e)) st)
           else Inr None)
        in bind_s (lift_res found) (\<lambda>p.
          case p of
            None \<Rightarrow> forward_to_agent env e path payload summary
          | Some p \<Rightarrow>
              bind_s (lift_res (permission_of (JStr (en_permission e)))) (\<lambda>lvl.
              bind_s (run_pipeline hs p payload [] path lvl) (\<lambda>s.
              ret (PipelineDone (pl_name p) (rn_success s) None))))))"

text \<open>The rules of the endpoint: the pipeline to run, with the payload and the headers as the conditions left them.\<close>

definition choose_pipeline ::
  "'w webhook_env \<Rightarrow> endpoint \<Rightarrow> json \<Rightarrow> json_obj \<Rightarrow> automation_store \<Rightarrow> (exn + pipeline option) \<times> json \<times> json_obj"
where
  "choose_pipeline env e payload headers st =
     (case match_rules (we_parse env) (we_eval env) (get_rules_for_endpoint (en_id e) st) payload headers of
        (r, ns) \<Rightarrow>
          (bind_res r (\<lambda>rule. case rule of None \<Rightarrow> Inr None | Some r \<Rightarrow> get_pipeline (wr_pipeline r) st),
           case ns of Bare p h \<Rightarrow> (p, if headers = [] then [] else h) | InContext c \<Rightarrow> (payload, headers)))"

definition dispatch_webhook ::
  "'w webhook_env \<Rightarrow> 'w handlers \<Rightarrow> endpoint \<Rightarrow> string \<Rightarrow> json \<Rightarrow> json_obj \<Rightarrow> string \<Rightarrow> ('w webhook_manager, webhook_reply) prog"
where
  "dispatch_webhook env hs e path payload headers summary =
     bind_s get_s (\<lambda>m.
       case wm_automation m of
         None \<Rightarrow> apply_fallback env hs e path payload summary
       | Some st \<Rightarrow>
           (case choose_pipeline env e payload headers st of
              (p, payload', headers') \<Rightarrow>
                bind_s (lift_res p) (\<lambda>p.
                  case p of
                    None \<Rightarrow> apply_fallback env hs e path payload' summary
                  | Some p \<Rightarrow>
                      bind_s (lift_res (permission_of (JStr (en_permission e)))) (\<lambda>lvl.
                      bind_s (run_pipeline hs p payload' headers' path lvl) (\<lambda>s.
                      ret (PipelineDone (pl_name p) (rn_success s) (Some (length (rn_results s)))))))))"

definition json_headers :: "(string, string) dict \<Rightarrow> json_obj" where
  "json_headers hs = map (\<lambda>(k, v). (k, JStr v)) hs"

definition handle_webhook ::
  "'w webhook_env \<Rightarrow> 'w handlers \<Rightarrow> string \<Rightarrow> string \<Rightarrow> json \<Rightarrow> (string, string) dict \<Rightarrow> string
   \<Rightarrow> ('w webhook_manager, webhook_reply) prog"
where
  "handle_webhook env hs now path payload headers body =
     bind_s get_s (\<lambda>m.
       case get_endpoint_by_path path m of
         None \<Rightarrow> ret (NotFound path)
       | Some e \<Rightarrow>
           if \<not> en_enabled e then ret EndpointDisabled
           else bind_s (lift_res (verify_secret (we_hmac env) e body headers)) (\<lambda>ok.
             if \<not> ok then ret Unauthorized
             else let e' = e\<lparr>en_received := en_received e + 1, en_last := Some now\<rparr>;
                      summary = extract_summary (we_str env) (en_event_type e) payload
                  in then_s (modify_s (\<lambda>m. log_event e' path summary (add_endpoint e' m)))
                       (dispatch_webhook env hs e' path payload (json_headers headers) summary)))"

text \<open>The route: it passes on the parsed payload and the headers, but not the bytes of the body.\<close>

definition receive_webhook ::
  "'w webhook_env \<Rightarrow> 'w handlers \<Rightarrow> string \<Rightarrow> string \<Rightarrow> json \<Rightarrow> (string, string) dict \<Rightarrow> ('w webhook_manager, webhook_reply) prog"
where
  "receive_webhook env hs now path payload headers = handle_webhook env hs now path payload headers []"

section \<open>What a run of a pipeline does\<close>

text \<open>The handlers of \<open>main.py\<close>, registered for the types in \<open>ts\<close>.\<close>

definition wired :: "'w webhook_env \<Rightarrow> action_type list \<Rightarrow> 'w handlers" where
  "wired env ts t = (if t \<in> set ts then Some (handle_action env) else None)"

definition log_is :: "pipeline_action list \<Rightarrow> action_result list \<Rightarrow> bool \<Rightarrow> 'w run_state \<Rightarrow> bool" where
  "log_is done1 rs b s \<longleftrightarrow> rn_ran s = done1 \<and> rn_results s = rs \<and> rn_success s = b"

lemma keeps_outside [keeps_rules]: "keeps (log_is done1 rs b) (outside f)"
  by (simp add: keeps_def outside_def log_is_def split: prod.split)

lemma keeps_set_ctx [keeps_rules]: "keeps (log_is done1 rs b) (set_ctx c)"
  by (auto simp: set_ctx_def log_is_def intro!: keeps_modify_s)

lemma keeps_set_step [keeps_rules]: "keeps (log_is done1 rs b) (set_step k v)"
  unfolding set_step_def by (intro keeps_rules)

lemma keeps_capture [keeps_rules]: "keeps (log_is done1 rs b) (capture a v)"
  unfolding capture_def by (intro keeps_rules)

lemma keeps_caught [keeps_rules]: "keeps (log_is done1 rs b) m \<Longrightarrow> keeps (log_is done1 rs b) (caught m)"
  unfolding caught_def by (intro keeps_rules)

lemma keeps_tool_action [keeps_rules]: "keeps (log_is done1 rs b) (tool_action env a)"
  unfolding tool_action_def by (intro keeps_rules) (auto split: option.split intro!: keeps_rules)

lemma keeps_transform_action [keeps_rules]: "keeps (log_is done1 rs b) (transform_action env a)"
  unfolding transform_action_def
  by (intro keeps_rules) (auto split: prod.split sum.split names.split intro!: keeps_rules)

lemma keeps_handle_action: "keeps (log_is done1 rs b) (handle_action env a)"
  unfolding handle_action_def
  by (cases "pa_type a")
    (auto simp: agent_action_def http_action_def notify_action_def split: prod.split intro!: keeps_rules)

lemma attempt_log:
  assumes "log_is done1 rs b s" "wired env ts t = Some h"
  shows "log_is (done1 @ [a]) rs b (snd (attempt_action h a s))"
proof -
  have h: "h = handle_action env" using assms(2) by (auto simp: wired_def split: if_splits)
  have "log_is (done1 @ [a]) rs b (s\<lparr>rn_ran := rn_ran s @ [a]\<rparr>)" using assms(1) by (simp add: log_is_def)
  from keepsD [OF keeps_handle_action this] show ?thesis
    by (simp add: h attempt_action_def bind_s_def modify_s_def)
qed

text \<open>How often the actions may be handed to a handler: in their order, once, and again up to the retries.\<close>

definition retries :: "pipeline_action \<Rightarrow> nat" where
  "retries a = (case (pa_on_failure a, py_range (pa_max_retries a)) of (RETRY, Inr n) \<Rightarrow> n | _ \<Rightarrow> 0)"

fun run_within :: "permission_level \<Rightarrow> pipeline_action list \<Rightarrow> pipeline_action list \<Rightarrow> bool" where
  "run_within lvl as [] = True"
| "run_within lvl [] (x # xs) = False"
| "run_within lvl (a # as) (x # xs) =
     (can_execute lvl (pa_type a) \<and> (\<exists>n \<le> retries a. take (Suc n) (x # xs) = replicate (Suc n) a \<and> run_within lvl as (drop n xs)))"

lemma run_within_intro:
  assumes "can_execute lvl (pa_type a)" "n \<le> retries a" "run_within lvl as xs"
  shows "run_within lvl (a # as) (replicate (Suc n) a @ xs)"
  using assms by (auto intro!: exI [of _ n])

lemma retry_log:
  assumes "log_is done1 (rs @ [r0]) b s" "wired env ts t = Some h" "retry_action h a n s = (res, s')"
  shows "\<exists>k \<le> n. \<exists>r. log_is (done1 @ replicate k a) (rs @ [r]) b s' \<and> (res = Inr False \<longrightarrow> ar_success r)"
  using assms
proof (induction n arbitrary: done1 r0 s)
  case 0
  then show ?case by (auto simp: ret_def log_is_def)
next
  case (Suc n)
  obtain v t' where at: "attempt_action h a s = (v, t')" by fastforce
  have l: "log_is (done1 @ [a]) (rs @ [r0]) b t'" using attempt_log [OF Suc.prems(1,2), of a] by (simp add: at)
  show ?case
  proof (cases v)
    case (Inl e)
    with Suc.prems(3) at have "s' = t' \<and> res = Inl e" by (simp add: bind_s_def)
    with l show ?thesis by (intro exI [of _ 1]) auto
  next
    case (Inr r)
    let ?t = "t'\<lparr>rn_results := butlast (rn_results t') @ [r]\<rparr>"
    have lt: "log_is (done1 @ [a]) (rs @ [r]) b ?t" using l by (simp add: log_is_def)
    show ?thesis
    proof (cases "ar_success r")
      case True
      with Suc.prems(3) at Inr have "s' = ?t" by (simp add: bind_s_def replace_result_def modify_s_def ret_def)
      with lt True show ?thesis by (intro exI [of _ 1]) auto
    next
      case False
      with Suc.prems(3) at Inr have "retry_action h a n ?t = (res, s')"
        by (simp add: bind_s_def replace_result_def modify_s_def)
      from Suc.IH [OF lt Suc.prems(2) this] obtain k q where
        "k \<le> n" "log_is ((done1 @ [a]) @ replicate k a) (rs @ [q]) b s'" "res = Inr False \<longrightarrow> ar_success q" by blast
      then show ?thesis by (intro exI [of _ "Suc k"]) auto
    qed
  qed
qed

lemma retries_range: "pa_on_failure a = RETRY \<Longrightarrow> py_range (pa_max_retries a) = Inr n \<Longrightarrow> retries a = n"
  by (simp add: retries_def)

lemma failure_log:
  assumes "log_is done1 (rs @ [r0]) b s" "wired env ts (pa_type a) = Some h"
    and "handle_failure (wired env ts) a s = (res, s')"
  shows "\<exists>k \<le> retries a. \<exists>r. log_is (done1 @ replicate k a) (rs @ [r]) b s'
     \<and> (res = Inr False \<longrightarrow> ar_success r \<or> pa_on_failure a = CONTINUE)"
proof (cases "pa_on_failure a")
  case RETRY
  show ?thesis
  proof (cases "py_range (pa_max_retries a)")
    case (Inl e)
    with RETRY assms show ?thesis
      by (auto simp: handle_failure_def bind_s_def lift_res_def intro!: exI [of _ 0])
  next
    case (Inr n)
    with RETRY assms(2,3) have "retry_action h a n s = (res, s')" by (simp add: handle_failure_def bind_s_def lift_res_def)
    from retry_log [OF assms(1,2) this] show ?thesis by (auto simp: retries_range [OF RETRY Inr])
  qed
qed (use assms in \<open>auto simp: handle_failure_def ret_def intro!: exI [of _ 0]\<close>)

definition outcome_ok :: "pipeline_action \<Rightarrow> action_result \<Rightarrow> bool" where
  "outcome_ok a r \<longleftrightarrow> ar_success r \<or> pa_on_failure a = CONTINUE"

lemma run_actions_log:
  assumes "log_is done1 rs b s" "run_actions (wired env ts) lvl as s = (res, s')"
  shows "\<exists>new out. rn_ran s' = done1 @ new \<and> run_within lvl as new \<and> rn_results s' = rs @ out
     \<and> (res = Inr () \<and> rn_success s' \<longrightarrow> b \<and> list_all2 outcome_ok as out)"
  using assms
proof (induction as arbitrary: done1 rs s)
  case Nil
  then show ?case by (auto simp: ret_def log_is_def intro: exI [of _ "[]"])
next
  case (Cons a as)
  show ?case
  proof (cases "can_execute lvl (pa_type a) \<and> wired env ts (pa_type a) \<noteq> None")
    case False
    with Cons.prems obtain r where "log_is done1 rs b s" "s' = s\<lparr>rn_results := rn_results s @ [r], rn_success := False\<rparr>"
      by (auto simp: give_up_def wh_add_result_def run_defs split: option.splits if_splits)
    then show ?thesis by (intro exI [of _ "[]"] exI [of _ "[r]"]) (simp add: log_is_def)
  next
    case True
    then obtain h where h: "wired env ts (pa_type a) = Some h" and can: "can_execute lvl (pa_type a)" by auto
    obtain v t where at: "attempt_action h a s = (v, t)" by fastforce
    have lt: "log_is (done1 @ [a]) rs b t" using attempt_log [OF Cons.prems(1) h, of a] by (simp add: at)
    have once: "run_within lvl (a # as) [a]" using run_within_intro [OF can, of 0 as "[]"] by simp
    show ?thesis
    proof (cases v)
      case (Inl e)
      with Cons.prems(2) at can h have "s' = t \<and> res = Inl e" by (simp add: bind_s_def)
      with lt once show ?thesis by (auto simp: log_is_def intro!: exI [of _ "[a]"])
    next
      case (Inr r)
      let ?t = "t\<lparr>rn_results := rn_results t @ [r]\<rparr>"
      have l1: "log_is (done1 @ [a]) (rs @ [r]) b ?t" using lt by (simp add: log_is_def)
      have go: ?thesis if "log_is (done1 @ replicate (Suc k) a) (rs @ [q]) b u" "run_actions (wired env ts) lvl as u = (res, s')"
        "k \<le> retries a" "outcome_ok a q" for k q u
      proof -
        from Cons.IH [OF that(1,2)] obtain new out where
          n: "rn_ran s' = (done1 @ replicate (Suc k) a) @ new" "run_within lvl as new" "rn_results s' = (rs @ [q]) @ out"
            "res = Inr () \<and> rn_success s' \<longrightarrow> b \<and> list_all2 outcome_ok as out" by blast
        from run_within_intro [OF can that(3) n(2)] have "run_within lvl (a # as) (replicate (Suc k) a @ new)" .
        moreover have "rn_ran s' = done1 @ (replicate (Suc k) a @ new)" using n(1) by simp
        moreover have "rn_results s' = rs @ (q # out)" using n(3) by simp
        moreover have "res = Inr () \<and> rn_success s' \<longrightarrow> b \<and> list_all2 outcome_ok (a # as) (q # out)" using n(4) that(4) by simp
        ultimately show ?thesis by blast
      qed
      show ?thesis
      proof (cases "ar_success r")
        case True
        with Cons.prems(2) at can h Inr have "run_actions (wired env ts) lvl as ?t = (res, s')"
          by (simp add: bind_s_def wh_add_result_def modify_s_def)
        then show ?thesis using go [of 0 r ?t] l1 True by (simp add: outcome_ok_def)
      next
        case fail: False
        obtain f u where hf: "handle_failure (wired env ts) a ?t = (f, u)" by fastforce
        from failure_log [OF l1 h hf] obtain k q where k: "k \<le> retries a"
          "log_is ((done1 @ [a]) @ replicate k a) (rs @ [q]) b u" "f = Inr False \<longrightarrow> ar_success q \<or> pa_on_failure a = CONTINUE" by blast
        from run_within_intro [OF can k(1), of as "[]"] have rw: "run_within lvl (a # as) (replicate (Suc k) a)" by simp
        have lu: "rn_ran u = done1 @ replicate (Suc k) a" "rn_results u = rs @ [q]" using k(2) by (simp_all add: log_is_def)
        show ?thesis
        proof (cases "f = Inr False")
          case True
          with Cons.prems(2) at can h Inr fail hf have "run_actions (wired env ts) lvl as u = (res, s')"
            by (simp add: bind_s_def wh_add_result_def modify_s_def)
          then show ?thesis using go [of k q u] k True by (simp add: outcome_ok_def)
        next
          case False
          with Cons.prems(2) at can h Inr fail hf have "rn_ran s' = rn_ran u \<and> rn_results s' = rn_results u
              \<and> (res \<noteq> Inr () \<or> \<not> rn_success s')"
            by (auto simp: bind_s_def wh_add_result_def modify_s_def split: sum.splits if_splits)
          with lu rw show ?thesis by (intro exI [of _ "replicate (Suc k) a"] exI [of _ "[q]"]) auto
        qed
      qed
    qed
  qed
qed

text \<open>
  A run of a pipeline, with the handlers of the program for any of the types of action: actions are handed to a handler in
  their order, only those the permission level allows, each once and then at most as often again as its retries say (and only under the
  retry strategy); a run that ends as a success has gone through all of its actions, and each ended well or
  is one whose failure the strategy ignores.
\<close>

theorem pipeline_outcome:
  assumes "execute_pipeline (wired env ts) p lvl s = (res, s')" "rn_ran s = []" "pl_actions p = Parsed as"
  shows "run_within lvl as (rn_ran s')
    \<and> (if truthy (pl_enabled p) then res = Inr () \<and> rn_success s' \<longrightarrow> list_all2 outcome_ok as (rn_results s')
       else rn_ran s' = [] \<and> \<not> rn_success s')"
proof (cases "truthy (pl_enabled p)")
  case True
  let ?s = "s\<lparr>rn_results := [], rn_success := True\<rparr>"
  from True assms have "run_actions (wired env ts) lvl as ?s = (res, s')" and "log_is [] [] True ?s"
    by (simp_all add: execute_pipeline_def bind_s_def modify_s_def log_is_def)
  from run_actions_log [OF this(2,1)] True show ?thesis by auto
next
  case False
  with assms show ?thesis by (auto simp: execute_pipeline_def bind_s_def modify_s_def)
qed

definition demo_env :: "unit webhook_env" where
  "demo_env = \<lparr>we_parse = demo_parser, we_eval = demo_eval, we_render = (\<lambda>t c. Inr (text_of t)), we_str = text_of,
     we_agent = (\<lambda>m u c w. (Inr (JStr ''done''), w)), we_get_tool = (\<lambda>n. Inr None),
     we_http = (\<lambda>m u h b w. (Inr (500, ''down''), w)), we_notify = (\<lambda>c t m w. (Inr (), w)),
     we_dumps = (\<lambda>j. Inr []), we_hmac = (\<lambda>k b. k @ b)\<rparr>"

definition demo_action :: "action_type \<Rightarrow> failure_strategy \<Rightarrow> pipeline_action" where
  "demo_action t st = \<lparr>pa_type = t, pa_config = JObj [], pa_on_failure = st, pa_max_retries = JInt 2, pa_fallback_id = JNull,
     pa_capture = JBool False, pa_variable = JStr [], pa_timeout = JInt 30, pa_id = JStr ''a''\<rparr>"

definition demo_pipeline :: "pipeline_action list \<Rightarrow> pipeline" where
  "demo_pipeline as = \<lparr>pl_name = JStr ''n'', pl_actions = Parsed as, pl_description = JStr [], pl_enabled = JBool True, pl_id = JStr ''p''\<rparr>"

definition demo_run :: "unit run_state" where
  "demo_run = \<lparr>rn_ctx = \<lparr>cx_payload = JObj [], cx_headers = [], cx_endpoint = ''e'', cx_steps = [], cx_secrets = []\<rparr>,
     rn_world = (), rn_results = [], rn_success = True, rn_ran = []\<rparr>"

text \<open>A failure that is ignored, a notification, and a request that fails three times.\<close>

definition demo_actions :: "pipeline_action list" where
  "demo_actions = [demo_action CALL_TOOL CONTINUE, demo_action NOTIFY STOP, demo_action HTTP_REQUEST RETRY]"

theorem pipeline_outcome_witness:
  "run_within ELEVATED demo_actions
     (rn_ran (snd (execute_pipeline (wired demo_env [CALL_TOOL, NOTIFY, HTTP_REQUEST]) (demo_pipeline demo_actions) ELEVATED demo_run)))"
proof -
  obtain res s' where e: "execute_pipeline (wired demo_env [CALL_TOOL, NOTIFY, HTTP_REQUEST]) (demo_pipeline demo_actions) ELEVATED demo_run
    = (res, s')" by fastforce
  have "rn_ran demo_run = []" "pl_actions (demo_pipeline demo_actions) = Parsed demo_actions"
    by (simp_all add: demo_run_def demo_pipeline_def)
  from pipeline_outcome [OF e this] show ?thesis by (simp add: e)
qed

lemma run_within_permitted: "run_within lvl as xs \<Longrightarrow> list_all (\<lambda>a. can_execute lvl (pa_type a)) xs"
proof (induction lvl as xs rule: run_within.induct)
  case (3 lvl a as x xs)
  then obtain n where n: "take (Suc n) (x # xs) = replicate (Suc n) a" "list_all (\<lambda>a. can_execute lvl (pa_type a)) (drop n xs)"
    "can_execute lvl (pa_type a)" by auto
  then have "x # xs = replicate (Suc n) a @ drop n xs" by (metis append_take_drop_id drop_Suc_Cons)
  then show ?case using n(2,3) by (metis (no_types, lifting) list_all_append list_all_iff in_set_replicate)
qed simp_all

lemma execute_permitted:
  assumes "execute_pipeline (wired env ts) p lvl s = (res, s')" "rn_ran s = []"
  shows "list_all (\<lambda>a. can_execute lvl (pa_type a)) (rn_ran s')"
proof (cases "truthy (pl_enabled p)")
  case True
  let ?s = "s\<lparr>rn_results := [], rn_success := True\<rparr>"
  show ?thesis
  proof (cases "pl_actions p")
    case (Parsed as)
    with True assms have "run_actions (wired env ts) lvl as ?s = (res, s')" and "log_is [] [] True ?s"
      by (simp_all add: execute_pipeline_def bind_s_def modify_s_def log_is_def)
    from run_actions_log [OF this(2,1)] show ?thesis by (auto intro: run_within_permitted)
  next
    case (AsGiven j)
    with assms show ?thesis by (auto simp: execute_pipeline_def run_defs split: if_splits sum.splits)
  qed
next
  case False
  with assms show ?thesis by (auto simp: execute_pipeline_def bind_s_def modify_s_def)
qed

lemma run_pipeline_effect:
  "\<exists>new. wm_ran (snd (run_pipeline (wired env ts) p payload hs path lvl m)) = wm_ran m @ new
     \<and> list_all (\<lambda>a. can_execute lvl (pa_type a)) new"
proof -
  let ?s = "\<lparr>rn_ctx = \<lparr>cx_payload = payload, cx_headers = hs, cx_endpoint = path, cx_steps = [], cx_secrets = []\<rparr>,
         rn_world = wm_world m, rn_results = [], rn_success = True, rn_ran = []\<rparr>"
  obtain res s' where e: "execute_pipeline (wired env ts) p lvl ?s = (res, s')" by fastforce
  from execute_permitted [OF e] have "list_all (\<lambda>a. can_execute lvl (pa_type a)) (rn_ran s')" by simp
  then show ?thesis by (auto simp: run_pipeline_def e)
qed

section \<open>What a webhook can cause\<close>

definition permitted :: "endpoint \<Rightarrow> pipeline_action \<Rightarrow> bool" where
  "permitted e a \<longleftrightarrow> (case permission_of (JStr (en_permission e)) of Inl _ \<Rightarrow> False | Inr lvl \<Rightarrow> can_execute lvl (pa_type a))"

definition ran_permitted :: "pipeline_action list \<Rightarrow> endpoint \<Rightarrow> 'w webhook_manager \<Rightarrow> bool" where
  "ran_permitted old e m \<longleftrightarrow> (\<exists>new. wm_ran m = old @ new \<and> list_all (permitted e) new)"

lemma keeps_run_pipeline:
  assumes "permission_of (JStr (en_permission e)) = Inr lvl"
  shows "keeps (ran_permitted old e) (run_pipeline (wired env ts) p payload hs path lvl)"
proof (rule keepsI)
  fix m :: "'a webhook_manager"
  assume "ran_permitted old e m"
  then obtain xs where xs: "wm_ran m = old @ xs" "list_all (permitted e) xs" by (auto simp: ran_permitted_def)
  obtain new where "wm_ran (snd (run_pipeline (wired env ts) p payload hs path lvl m)) = wm_ran m @ new"
    "list_all (\<lambda>a. can_execute lvl (pa_type a)) new" using run_pipeline_effect by blast
  with xs assms show "ran_permitted old e (snd (run_pipeline (wired env ts) p payload hs path lvl m))"
    unfolding ran_permitted_def by (intro exI [of _ "xs @ new"]) (auto simp: permitted_def list_all_iff)
qed

lemma keeps_call_agent [keeps_rules]: "keeps (ran_permitted old e) (call_agent env msg ch)"
  by (auto simp: keeps_def call_agent_def ran_permitted_def split: prod.split)

lemma keeps_forward [keeps_rules]: "keeps (ran_permitted old e) (forward_to_agent env e' path payload summary)"
  unfolding forward_to_agent_def Let_def by (intro keeps_rules)

lemma keeps_permitted_run:
  "keeps (ran_permitted old e) (bind_s (lift_res (permission_of (JStr (en_permission e)))) (\<lambda>lvl.
     bind_s (run_pipeline (wired env ts) p payload hs path lvl) (\<lambda>s. ret (g s))))"
  by (rule keeps_bind_lift_res) (intro keeps_rules keeps_run_pipeline)

lemma keeps_apply_fallback [keeps_rules]: "keeps (ran_permitted old e) (apply_fallback env (wired env ts) e path payload summary)"
  unfolding apply_fallback_def Let_def
  by (intro keeps_rules) (auto split: option.split intro!: keeps_rules keeps_permitted_run)

lemma keeps_dispatch_webhook: "keeps (ran_permitted old e) (dispatch_webhook env (wired env ts) e path payload headers summary)"
  unfolding dispatch_webhook_def
  by (intro keeps_rules) (auto split: option.split prod.split intro!: keeps_rules keeps_permitted_run)

text \<open>
  C14. What a webhook can cause. For a path without an endpoint, and for an endpoint that is disabled or whose secret the request does
  not prove, nothing changes at all; otherwise every action that runs, by a rule or as the fallback, is one that the permission level of the
  endpoint allows.
\<close>

theorem webhook_gate:
  "case get_endpoint_by_path path m of
     None \<Rightarrow> handle_webhook env (wired env ts) now path payload headers body m = (Inr (NotFound path), m)
   | Some e \<Rightarrow>
       (let m' = snd (handle_webhook env (wired env ts) now path payload headers body m)
        in if en_enabled e \<and> verify_secret (we_hmac env) e body headers = Inr True
           then \<exists>new. wm_ran m' = wm_ran m @ new \<and> list_all (permitted e) new
           else m' = m)"
proof (cases "get_endpoint_by_path path m")
  case None
  then show ?thesis by (simp add: handle_webhook_def bind_s_def get_s_def ret_def)
next
  case (Some e)
  let ?m = "snd (handle_webhook env (wired env ts) now path payload headers body m)"
  let ?v = "verify_secret (we_hmac env) e body headers"
  show ?thesis
  proof (cases "en_enabled e \<and> ?v = Inr True")
    case True
    let ?e = "e\<lparr>en_received := en_received e + 1, en_last := Some now\<rparr>"
    let ?s = "extract_summary (we_str env) (en_event_type e) payload"
    let ?m1 = "log_event ?e path ?s (add_endpoint ?e m)"
    have "ran_permitted (wm_ran m) ?e ?m1"
      by (simp add: ran_permitted_def log_event_def push_event_def add_endpoint_def Let_def)
    from keepsD [OF keeps_dispatch_webhook this]
    have "ran_permitted (wm_ran m) ?e (snd (dispatch_webhook env (wired env ts) ?e path payload (json_headers headers) ?s ?m1))" .
    moreover have "permitted ?e = permitted e" by (auto simp: permitted_def fun_eq_iff)
    ultimately show ?thesis using True Some
      by (simp add: handle_webhook_def bind_s_def get_s_def lift_res_def modify_s_def ran_permitted_def Let_def)
  next
    case False
    then have "?m = m" using Some
      by (cases ?v) (auto simp: handle_webhook_def bind_s_def get_s_def lift_res_def ret_def)
    with False Some show ?thesis by (simp add: Let_def)
  qed
qed

section \<open>A restart forgets the secrets\<close>

text \<open>The endpoints of a manager are stored under their identifiers.\<close>

definition new_manager :: "'w \<Rightarrow> 'w webhook_manager" where
  "new_manager w = \<lparr>wm_endpoints = [], wm_agent = True, wm_events = [], wm_automation = None, wm_world = w, wm_ran = []\<rparr>"

text \<open>What is left of an endpoint after it was written to the database and read back.\<close>

definition restored :: "endpoint \<Rightarrow> endpoint" where
  "restored e = e\<lparr>en_secret := [], en_received := 0, en_last := None, en_fallback := ''forward_to_agent'',
     en_fallback_pipeline := [], en_permission := ''standard''\<rparr>"

lemma endpoint_of_entry: "endpoint_of_entry (endpoint_entry e) = Inr (restored e)"
  by (simp add: endpoint_of_entry_def endpoint_entry_def getitem_def dget_or_def restored_def)

definition by_id :: "'w webhook_manager \<Rightarrow> bool" where
  "by_id m \<longleftrightarrow> distinct (dkeys (wm_endpoints m)) \<and> (\<forall>(k, e) \<in> set (wm_endpoints m). en_id e = k)"

lemma restore_append:
  assumes "distinct (dkeys (wm_endpoints m @ d))" "\<forall>(k, e) \<in> set d. en_id e = k"
  shows "restore_endpoints (map endpoint_entry (dvalues d)) m
    = m\<lparr>wm_endpoints := wm_endpoints m @ map (\<lambda>(k, e). (k, restored e)) d\<rparr>"
  using assms
proof (induction d arbitrary: m)
  case (Cons p d)
  obtain k e where p: "p = (k, e)" by (cases p)
  let ?m = "m\<lparr>wm_endpoints := wm_endpoints m @ [(k, restored e)]\<rparr>"
  have "add_endpoint (restored e) m = ?m" using Cons.prems
    by (simp add: add_endpoint_def p restored_def dset_new)
  moreover have "restore_endpoints (map endpoint_entry (dvalues d)) ?m
      = ?m\<lparr>wm_endpoints := wm_endpoints ?m @ map (\<lambda>(k, e). (k, restored e)) d\<rparr>"
    by (rule Cons.IH) (use Cons.prems in \<open>auto simp: p\<close>)
  ultimately show ?case by (simp add: p endpoint_of_entry)
qed simp

lemma restore_by_id:
  assumes "by_id m"
  shows "wm_endpoints (restore_endpoints (get_endpoints m) (new_manager w)) = map (\<lambda>(k, e). (k, restored e)) (wm_endpoints m)"
  using restore_append [of "new_manager w" "wm_endpoints m"] assms
  by (simp add: by_id_def get_endpoints_def new_manager_def)

lemma add_endpoints_by_id: "by_id m \<Longrightarrow> by_id (fold add_endpoint es m)"
proof (induction es arbitrary: m)
  case (Cons e es)
  then have "by_id (add_endpoint e m)"
    using set_dset_subset [of "en_id e" e "wm_endpoints m"] by (auto simp: by_id_def add_endpoint_def)
  then show ?case by (simp add: Cons.IH)
qed simp

lemma find_map_values: "find P (dvalues (map (\<lambda>(k, e). (k, f e)) d)) = map_option f (find (\<lambda>e. P (f e)) (dvalues d))"
  by (induction d) auto

text \<open>
  After the endpoints were written to the database and a program started again has read them back, the endpoint of a path
  accepts every request, whatever its secret was, runs with the standard permission level and forwards to the agent.
\<close>

theorem restart_forgets_secrets:
  assumes "get_endpoint_by_path path (fold add_endpoint es (new_manager w)) = Some e"
  shows "\<exists>e'. get_endpoint_by_path path (restore_endpoints (get_endpoints (fold add_endpoint es (new_manager w))) (new_manager w)) = Some e'
     \<and> en_id e' = en_id e \<and> en_enabled e' = en_enabled e \<and> verify_secret hmac e' body headers = Inr True
     \<and> permission_of (JStr (en_permission e')) = Inr STANDARD \<and> en_fallback e' = ''forward_to_agent''"
proof -
  let ?m = "fold add_endpoint es (new_manager w)"
  have "by_id ?m" by (rule add_endpoints_by_id) (simp add: by_id_def new_manager_def)
  from restore_by_id [OF this, of w] have "get_endpoint_by_path path (restore_endpoints (get_endpoints ?m) (new_manager w))
      = map_option restored (find (\<lambda>e. en_path (restored e) = path) (dvalues (wm_endpoints ?m)))"
    by (simp only: get_endpoint_by_path_def find_map_values)
  also have "\<dots> = Some (restored e)"
    using assms by (simp add: get_endpoint_by_path_def restored_def)
  finally show ?thesis
    by (simp add: restored_def verify_secret_def permission_of_def enum_of_def)
qed

definition demo_endpoint :: endpoint where
  "demo_endpoint = \<lparr>en_id = ''1'', en_name = ''ci'', en_path = ''ci'', en_event_type = ''generic'', en_action = [], en_enabled = True,
     en_secret = ''s3'', en_received = 0, en_last = None, en_fallback = ''drop'', en_fallback_pipeline = [], en_permission = ''read_only''\<rparr>"

text \<open>The endpoint refuses a request without a signature; the one read back takes it.\<close>

theorem restart_forgets_secrets_witness:
  "verify_secret (@) demo_endpoint [] [] = Inr False
   \<and> (\<exists>e'. get_endpoint_by_path ''ci'' (restore_endpoints (get_endpoints (fold add_endpoint [demo_endpoint] (new_manager ()))) (new_manager ()))
        = Some e' \<and> verify_secret (@) e' [] [] = Inr True)"
proof -
  have "get_endpoint_by_path ''ci'' (fold add_endpoint [demo_endpoint] (new_manager ())) = Some demo_endpoint"
    by (simp add: get_endpoint_by_path_def add_endpoint_def new_manager_def demo_endpoint_def)
  moreover have "verify_secret (@) demo_endpoint [] [] = Inr False"
    by (simp add: verify_secret_def header_def demo_endpoint_def dget_or_def)
  ultimately show ?thesis using restart_forgets_secrets [of "''ci''" "[demo_endpoint]" "()" demo_endpoint "(@)" "[]" "[]"]
    by blast
qed

section \<open>Paths that cannot work as they are wired\<close>

text \<open>
  The route never passes on the bytes of the body, so a GitHub signature is compared with that of the empty text: the genuine
  signature of a body is refused, and nothing changes.
\<close>

theorem genuine_signature_refused:
  assumes "get_endpoint_by_path path m = Some e" "en_enabled e" "en_secret e \<noteq> []"
    and "we_hmac env (en_secret e) body \<noteq> we_hmac env (en_secret e) []"
    and "is_ascii (we_hmac env (en_secret e) body)" "is_ascii (we_hmac env (en_secret e) [])"
    and "header headers ''x-hub-signature-256'' = ''sha256='' @ we_hmac env (en_secret e) body"
  shows "receive_webhook env hs now path payload headers m = (Inr Unauthorized, m)"
proof -
  have "verify_secret (we_hmac env) e [] headers = Inr False"
    using assms by (simp add: verify_secret_def compare_digest_def is_ascii_def)
  with assms(1,2) show ?thesis
    by (simp add: receive_webhook_def handle_webhook_def bind_s_def get_s_def lift_res_def ret_def)
qed

theorem genuine_signature_refused_witness:
  "receive_webhook demo_env (wired demo_env []) ''now'' ''ci'' (JObj []) [(''x-hub-signature-256'', ''sha256=s3body'')]
     (add_endpoint demo_endpoint (new_manager ())) = (Inr Unauthorized, add_endpoint demo_endpoint (new_manager ()))"
  by (rule genuine_signature_refused [where e = demo_endpoint and body = "''body''"])
    (simp_all add: get_endpoint_by_path_def add_endpoint_def new_manager_def demo_endpoint_def demo_env_def is_ascii_def
      header_def dget_or_def)

text \<open>
  The tool registry of the program has no \<open>get_tool\<close>, so a step of a pipeline that calls a tool raises an \<open>AttributeError\<close>,
  which no failure strategy catches.
\<close>

definition no_get_tool :: "json \<Rightarrow> exn + 'w tool_call option" where
  "no_get_tool name = Inl (attribute_error ''get_tool'')"

theorem call_tool_raises:
  assumes "we_get_tool env = no_get_tool" "pa_type a = CALL_TOOL" "pa_config a = JObj cfg" "can_execute lvl CALL_TOOL"
    and "CALL_TOOL \<in> set ts"
  shows "fst (run_actions (wired env ts) lvl (a # as) s) = Inl (attribute_error ''get_tool'')"
proof -
  have h: "wired env ts (pa_type a) = Some (handle_action env)" using assms(2,5) by (simp add: wired_def)
  have "fst (attempt_action (handle_action env) a s) = Inl (attribute_error ''get_tool'')"
    using assms(1-3) by (simp add: attempt_action_def handle_action_def tool_action_def config_get_def no_get_tool_def run_defs)
  then obtain t where "attempt_action (handle_action env) a s = (Inl (attribute_error ''get_tool''), t)"
    by (metis prod.collapse)
  with h assms(2,4) show ?thesis by (simp add: bind_s_def)
qed

theorem call_tool_raises_witness:
  "fst (run_actions (wired (demo_env\<lparr>we_get_tool := no_get_tool\<rparr>) [CALL_TOOL]) ADMIN [demo_action CALL_TOOL CONTINUE] demo_run)
   = Inl (attribute_error ''get_tool'')"
  by (rule call_tool_raises) (simp_all add: demo_action_def)

text \<open>A pipeline whose actions were replaced by an update raises when it runs, and the store cannot be saved.\<close>

lemma updated_pipeline_unusable:
  assumes "dget (as_pipelines st) (JStr pid) = Some p" "truthy (pl_enabled p)"
  shows "\<exists>st' q. update_pipeline pid [(''actions'', JList (j # js))] st = Inr (True, st') \<and> get_pipeline (JStr pid) st' = Inr (Some q)
     \<and> (\<exists>x. save_store st' = Inl x) \<and> fst (execute_pipeline hs q lvl s) = Inl (attribute_error ''action_type'')"
proof -
  obtain st' where st': "update_pipeline pid [(''actions'', JList (j # js))] st = Inr (True, st')"
    "as_pipelines st' = dset (JStr pid) (p\<lparr>pl_actions := AsGiven (JList (j # js))\<rparr>) (as_pipelines st)"
    using updated_actions [OF assms(1)] by blast
  moreover from st'(2) have g: "dget (as_pipelines st') (JStr pid) = Some (p\<lparr>pl_actions := AsGiven (JList (j # js))\<rparr>)" by simp
  moreover from raw_actions_not_saved [OF g] have "\<exists>x. save_store st' = Inl x" .
  ultimately show ?thesis
    by (intro exI [of _ st'] exI [of _ "p\<lparr>pl_actions := AsGiven (JList (j # js))\<rparr>"])
      (simp add: get_pipeline_def dict_get_def execute_pipeline_def run_defs assms(2))
qed

section \<open>The log of events\<close>

interpretation event_log: capped_buffer push_event wm_events 100
  by unfold_locales (simp add: push_event_def last_n_def Let_def)

lemma events_bounded: "length (wm_events (push_event v m)) \<le> 100"
  by (rule event_log.push_within_cap)

end
