(* ===== verification/Messenger.thy ===== *)
theory Messenger
  imports Acl
begin

text \<open>
  Messages of the messenger: \<open>messenger/service\<close> (messages, reactions, pins, scheduled messages, the outbox), \<open>ts_seq.py\<close>, the
  dispatchers of scheduled messages and of the outbox, \<open>idempotency.py\<close>, and the endpoints of \<open>api/v1\<close> that guard them with the access
  rules of \<open>Acl\<close>.

  The tables are lists in the order of insertion, with the constraints of the migrations checked where rows are inserted. A
  transaction that raises leaves the tables as they were. Ids and the clock are arguments; rows that tie in an \<open>ORDER BY\<close> keep the
  order of the table. Redis holds values with an expiry.
\<close>

section \<open>Tables\<close>

type_synonym mid = string

record message =
  mg_id :: mid
  mg_workspace :: string
  mg_channel :: cid
  mg_author :: uid
  mg_parent :: "mid option"
  mg_kind :: string
  mg_text :: "string option"
  mg_blocks :: "json list"
  mg_created :: real
  mg_edited :: "real option"
  mg_deleted :: "real option"
  mg_ts_seq :: int
  mg_client :: "string option"

record message_edit =
  me_message :: mid
  me_at :: real
  me_text :: "string option"
  me_blocks :: "json list"
  me_by :: uid

record outbox_row =
  ob_id :: string
  ob_workspace :: string
  ob_channel :: cid
  ob_type :: string
  ob_payload :: json_obj
  ob_created :: real

record scheduled_row =
  sc_id :: string
  sc_workspace :: string
  sc_channel :: cid
  sc_author :: uid
  sc_text :: "string option"
  sc_blocks :: "json list"
  sc_for :: real
  sc_created :: real
  sc_sent :: "mid option"
  sc_cancelled :: "real option"

record chat =
  ct_users :: "(uid, user_row) dict"
  ct_channels :: "(cid, channel_row) dict"
  ct_members :: "member_row list"
  ct_messages :: "message list"
  ct_edits :: "message_edit list"
  ct_reactions :: "(mid \<times> uid \<times> string) list"
  ct_pins :: "(cid \<times> mid \<times> uid) list"
  ct_scheduled :: "scheduled_row list"
  ct_outbox :: "outbox_row list"
  ct_audit :: "(string \<times> mid) list"
  ct_published :: "outbox_row list"

text \<open>The tables as the access rules read them.\<close>

definition acl_of :: "chat \<Rightarrow> acl_db" where
  "acl_of db = \<lparr>t_users = ct_users db, t_channels = ct_channels db, t_members = ct_members db,
     t_messages = map (\<lambda>m. (mg_id m, \<lparr>ms_author = mg_author m, ms_channel = mg_channel m, ms_deleted = mg_deleted m \<noteq> None\<rparr>))
       (ct_messages db)\<rparr>"

definition not_found :: "string \<Rightarrow> string \<Rightarrow> exn" where
  "not_found kind i = OtherError ''NotFound'' (kind @ '' '' @ i @ '' not found'')"

definition forbidden :: "string \<Rightarrow> exn" where
  "forbidden m = OtherError ''Forbidden'' m"

definition unique_violation :: exn where
  "unique_violation = OtherError ''UniqueViolationError'' ''duplicate key''"

definition foreign_key_violation :: exn where
  "foreign_key_violation = OtherError ''ForeignKeyViolationError'' ''no such row''"

definition validation_failed :: exn where
  "validation_failed = OtherError ''ValidationFailed'' ''validation failed''"

section \<open>Sequence numbers\<close>

definition next_ts_seq :: "cid \<Rightarrow> chat \<Rightarrow> int" where
  "next_ts_seq c db =
     (case map mg_ts_seq (filter (\<lambda>m. mg_channel m = c) (ct_messages db)) of
        [] \<Rightarrow> 1
      | s # ss \<Rightarrow> fold max ss s + 1)"

text \<open>\<open>f"{n:06d}"\<close>, and Slack's form of a time stamp.\<close>

definition pad6 :: "int \<Rightarrow> string" where
  "pad6 n = (let s = int_str n in if n < 0 then ''-'' @ replicate (6 - length s) CHR ''0'' @ tl s else replicate (6 - length s) CHR ''0'' @ s)"

definition format_slack_ts :: "real \<Rightarrow> int \<Rightarrow> string" where
  "format_slack_ts created n = int_str (real_trunc created) @ ''.'' @ pad6 n"

fun split_dots :: "string \<Rightarrow> string list" where
  "split_dots [] = [[]]"
| "split_dots (c # cs) =
     (if c = CHR ''.'' then [] # split_dots cs
      else case split_dots cs of x # xs \<Rightarrow> (c # x) # xs | [] \<Rightarrow> [[c]])"

definition parse_slack_ts :: "string \<Rightarrow> exn + int \<times> int" where
  "parse_slack_ts ts =
     (case split_dots ts of
        [a, b] \<Rightarrow> bind_res (int_of_str a) (\<lambda>x. bind_res (int_of_str b) (\<lambda>y. Inr (x, y)))
      | _ \<Rightarrow> Inl (ValueError ''wrong number of values to unpack''))"

section \<open>Messages\<close>

definition enqueue_outbox :: "string \<Rightarrow> real \<Rightarrow> string \<Rightarrow> cid \<Rightarrow> string \<Rightarrow> json_obj \<Rightarrow> chat \<Rightarrow> exn + chat" where
  "enqueue_outbox eid now ws c ty payload db =
     (if list_ex (\<lambda>e. ob_id e = eid) (ct_outbox db) then Inl unique_violation
      else Inr (db\<lparr>ct_outbox := ct_outbox db @ [\<lparr>ob_id = eid, ob_workspace = ws, ob_channel = c, ob_type = ty, ob_payload = payload, ob_created = now\<rparr>]\<rparr>))"

definition find_message :: "mid \<Rightarrow> chat \<Rightarrow> message option" where
  "find_message m db = find (\<lambda>x. mg_id x = m) (ct_messages db)"

text \<open>The constraints on \<open>messages\<close>: keys of other tables, and the three uniqueness rules.\<close>

definition insert_message :: "message \<Rightarrow> chat \<Rightarrow> exn + chat" where
  "insert_message m db =
     (if dget (ct_channels db) (mg_channel m) = None \<or> dget (ct_users db) (mg_author m) = None
         \<or> (\<exists>p. mg_parent m = Some p \<and> find_message p db = None) then Inl foreign_key_violation
      else if list_ex (\<lambda>x. mg_id x = mg_id m \<or> (mg_channel x = mg_channel m \<and> mg_ts_seq x = mg_ts_seq m)
             \<or> (mg_client m \<noteq> None \<and> mg_workspace x = mg_workspace m \<and> mg_client x = mg_client m)) (ct_messages db)
        then Inl unique_violation
      else Inr (db\<lparr>ct_messages := ct_messages db @ [m]\<rparr>))"

record post_request =
  pr_workspace :: string
  pr_channel :: cid
  pr_author :: uid
  pr_text :: "string option"
  pr_blocks :: "json list option"
  pr_parent :: "mid option"
  pr_client :: "string option"

definition no_content :: "string option \<Rightarrow> json list option \<Rightarrow> bool" where
  "no_content text1 blocks \<longleftrightarrow> (text1 = None \<or> text1 = Some []) \<and> (blocks = None \<or> blocks = Some [])"

definition the_blocks :: "json list option \<Rightarrow> json list" where
  "the_blocks b = (case b of None \<Rightarrow> [] | Some bs \<Rightarrow> bs)"

text \<open>The ids of a transaction: of the message and of its event.\<close>

definition post_message :: "real \<Rightarrow> mid \<Rightarrow> string \<Rightarrow> post_request \<Rightarrow> chat \<Rightarrow> exn + message \<times> chat" where
  "post_message now mid eid r db =
     (if no_content (pr_text r) (pr_blocks r) then Inl validation_failed
      else
        let seq = next_ts_seq (pr_channel r) db;
            m = \<lparr>mg_id = mid, mg_workspace = pr_workspace r, mg_channel = pr_channel r, mg_author = pr_author r,
                 mg_parent = pr_parent r, mg_kind = ''text'', mg_text = pr_text r, mg_blocks = the_blocks (pr_blocks r),
                 mg_created = now, mg_edited = None, mg_deleted = None, mg_ts_seq = seq, mg_client = pr_client r\<rparr>
        in bind_res (insert_message m db) (\<lambda>db'.
           bind_res (enqueue_outbox eid now (pr_workspace r) (pr_channel r) ''message.created''
             [(''message_id'', JStr mid), (''channel_id'', JStr (pr_channel r)), (''author_id'', JStr (pr_author r)),
              (''kind'', JStr ''text''), (''ts'', JStr (format_slack_ts now seq))] db') (\<lambda>db''. Inr (m, db''))))"

definition get_message :: "cid \<Rightarrow> mid \<Rightarrow> chat \<Rightarrow> exn + message" where
  "get_message c m db =
     (case find (\<lambda>x. mg_id x = m \<and> mg_channel x = c) (ct_messages db) of
        None \<Rightarrow> Inl (not_found ''message'' m) | Some x \<Rightarrow> Inr x)"

definition get_message_by_client_msg_id :: "string \<Rightarrow> string \<Rightarrow> chat \<Rightarrow> message option" where
  "get_message_by_client_msg_id ws i db = find (\<lambda>x. mg_workspace x = ws \<and> mg_client x = Some i) (ct_messages db)"

definition update_message :: "mid \<Rightarrow> (message \<Rightarrow> message) \<Rightarrow> chat \<Rightarrow> chat" where
  "update_message m f db = db\<lparr>ct_messages := map (\<lambda>x. if mg_id x = m then f x else x) (ct_messages db)\<rparr>"

definition event_of :: "mid \<Rightarrow> cid \<Rightarrow> json_obj" where
  "event_of m c = [(''message_id'', JStr m), (''channel_id'', JStr c)]"

definition apply_edit :: "real \<Rightarrow> string option \<Rightarrow> json list option \<Rightarrow> message \<Rightarrow> message" where
  "apply_edit now text1 blocks x =
     (let y = (case text1 of None \<Rightarrow> x | Some t \<Rightarrow> x\<lparr>mg_text := Some t\<rparr>);
          z = (case blocks of None \<Rightarrow> y | Some b \<Rightarrow> y\<lparr>mg_blocks := b\<rparr>)
      in if text1 = None \<and> blocks = None then x else z\<lparr>mg_edited := Some now\<rparr>)"

definition edit_message ::
  "real \<Rightarrow> string \<Rightarrow> cid \<Rightarrow> mid \<Rightarrow> string option \<Rightarrow> json list option \<Rightarrow> uid \<Rightarrow> chat \<Rightarrow> exn + message \<times> chat"
where
  "edit_message now eid c m text1 blocks by1 db =
     bind_res (get_message c m db) (\<lambda>prev.
       if mg_deleted prev \<noteq> None then Inl (forbidden ''cannot edit deleted message'')
       else if list_ex (\<lambda>e. me_message e = m \<and> me_at e = now) (ct_edits db) then Inl unique_violation
       else
         let db1 = db\<lparr>ct_edits := ct_edits db @
               [\<lparr>me_message = m, me_at = now, me_text = mg_text prev, me_blocks = mg_blocks prev, me_by = by1\<rparr>]\<rparr>
         in bind_res (enqueue_outbox eid now (mg_workspace prev) c ''message.updated'' (event_of m c)
               (update_message m (apply_edit now text1 blocks) db1)) (\<lambda>db2.
            bind_res (get_message c m db2) (\<lambda>x. Inr (x, db2))))"

definition delete_message :: "real \<Rightarrow> string \<Rightarrow> cid \<Rightarrow> mid \<Rightarrow> chat \<Rightarrow> exn + chat" where
  "delete_message now eid c m db =
     bind_res (get_message c m db) (\<lambda>prev.
       if mg_deleted prev \<noteq> None then Inr db
       else
         let db1 = update_message m (\<lambda>x. x\<lparr>mg_deleted := Some now\<rparr>) db
         in enqueue_outbox eid now (mg_workspace prev) c ''message.deleted'' (event_of m c)
              (db1\<lparr>ct_audit := ct_audit db1 @ [(''delete'', m)]\<rparr>))"

definition list_messages :: "cid \<Rightarrow> real option \<Rightarrow> real option \<Rightarrow> nat \<Rightarrow> chat \<Rightarrow> message list \<times> bool" where
  "list_messages c before after limit db =
     (let rows = filter (\<lambda>m. mg_channel m = c \<and> mg_deleted m = None \<and> mg_parent m = None
            \<and> (case before of None \<Rightarrow> True | Some t \<Rightarrow> mg_created m < t) \<and> (case after of None \<Rightarrow> True | Some t \<Rightarrow> t < mg_created m))
            (ct_messages db);
          page = take (limit + 1) (sort_key (\<lambda>m. - mg_created m) rows)
      in (take limit page, limit < length page))"

definition list_thread_replies :: "cid \<Rightarrow> mid \<Rightarrow> nat \<Rightarrow> chat \<Rightarrow> message list \<times> bool" where
  "list_thread_replies c p limit db =
     (let page = take (limit + 1) (sort_key mg_created
            (filter (\<lambda>m. mg_channel m = c \<and> mg_parent m = Some p \<and> mg_deleted m = None) (ct_messages db)))
      in (take limit page, limit < length page))"

section \<open>Reactions and pins\<close>

definition react_event :: "string \<Rightarrow> real \<Rightarrow> string \<Rightarrow> mid \<Rightarrow> uid \<Rightarrow> string \<Rightarrow> chat \<Rightarrow> exn + chat" where
  "react_event eid now ty m u emoji db =
     (case find_message m db of
        None \<Rightarrow> Inr db
      | Some x \<Rightarrow> enqueue_outbox eid now (mg_workspace x) (mg_channel x) ty
          [(''message_id'', JStr m), (''user_id'', JStr u), (''emoji'', JStr emoji)] db)"

definition add_reaction :: "real \<Rightarrow> string \<Rightarrow> mid \<Rightarrow> uid \<Rightarrow> string \<Rightarrow> chat \<Rightarrow> exn + chat" where
  "add_reaction now eid m u emoji db =
     (if find_message m db = None \<or> dget (ct_users db) u = None then Inl foreign_key_violation
      else react_event eid now ''reaction.added'' m u emoji
        (if (m, u, emoji) \<in> set (ct_reactions db) then db else db\<lparr>ct_reactions := ct_reactions db @ [(m, u, emoji)]\<rparr>))"

definition remove_reaction :: "real \<Rightarrow> string \<Rightarrow> mid \<Rightarrow> uid \<Rightarrow> string \<Rightarrow> chat \<Rightarrow> exn + chat" where
  "remove_reaction now eid m u emoji db =
     react_event eid now ''reaction.removed'' m u emoji
       (db\<lparr>ct_reactions := filter (\<lambda>r. r \<noteq> (m, u, emoji)) (ct_reactions db)\<rparr>)"

text \<open>Grouped by emoji, in the order of the emoji and then of the reactions.\<close>

definition list_reactions :: "mid \<Rightarrow> chat \<Rightarrow> (string, uid list) dict" where
  "list_reactions m db =
     fold (\<lambda>(_, u, e) g. dset e (dget_or g e [] @ [u]) g)
       (sort_key (\<lambda>(_, _, e). e) (filter (\<lambda>(x, _, _). x = m) (ct_reactions db))) []"

definition pin_event :: "string \<Rightarrow> real \<Rightarrow> string \<Rightarrow> cid \<Rightarrow> mid \<Rightarrow> json_obj \<Rightarrow> chat \<Rightarrow> exn + chat" where
  "pin_event eid now ty c m payload db =
     (case get_message c m db of Inl _ \<Rightarrow> Inr db | Inr x \<Rightarrow> enqueue_outbox eid now (mg_workspace x) c ty payload db)"

definition pin_message :: "real \<Rightarrow> string \<Rightarrow> cid \<Rightarrow> mid \<Rightarrow> uid \<Rightarrow> chat \<Rightarrow> exn + chat" where
  "pin_message now eid c m u db =
     (if find_message m db = None \<or> dget (ct_channels db) c = None \<or> dget (ct_users db) u = None then Inl foreign_key_violation
      else pin_event eid now ''pin.added'' c m (event_of m c @ [(''pinned_by'', JStr u)])
        (if list_ex (\<lambda>(pc, pm, _). pc = c \<and> pm = m) (ct_pins db) then db else db\<lparr>ct_pins := ct_pins db @ [(c, m, u)]\<rparr>))"

definition unpin_message :: "real \<Rightarrow> string \<Rightarrow> cid \<Rightarrow> mid \<Rightarrow> chat \<Rightarrow> exn + chat" where
  "unpin_message now eid c m db =
     pin_event eid now ''pin.removed'' c m (event_of m c)
       (db\<lparr>ct_pins := filter (\<lambda>(pc, pm, _). \<not> (pc = c \<and> pm = m)) (ct_pins db)\<rparr>)"

definition list_pins :: "cid \<Rightarrow> chat \<Rightarrow> message list" where
  "list_pins c db =
     List.map_filter (\<lambda>(pc, m, _). if pc = c then (case find_message m db of
         Some x \<Rightarrow> if mg_deleted x = None then Some x else None | None \<Rightarrow> None) else None) (rev (ct_pins db))"

section \<open>Scheduled messages\<close>

text \<open>A pending row: not sent and not cancelled.\<close>

definition pending :: "scheduled_row \<Rightarrow> bool" where
  "pending r \<longleftrightarrow> sc_sent r = None \<and> sc_cancelled r = None"

definition schedule_message :: "real \<Rightarrow> string \<Rightarrow> post_request \<Rightarrow> real \<Rightarrow> chat \<Rightarrow> exn + scheduled_row \<times> chat" where
  "schedule_message now sid r due db =
     (if due \<le> now then Inl validation_failed
      else if dget (ct_channels db) (pr_channel r) = None \<or> dget (ct_users db) (pr_author r) = None then Inl foreign_key_violation
      else if list_ex (\<lambda>x. sc_id x = sid) (ct_scheduled db) then Inl unique_violation
      else
        let row = \<lparr>sc_id = sid, sc_workspace = pr_workspace r, sc_channel = pr_channel r, sc_author = pr_author r,
              sc_text = pr_text r, sc_blocks = the_blocks (pr_blocks r), sc_for = due, sc_created = now, sc_sent = None,
              sc_cancelled = None\<rparr>
        in Inr (row, db\<lparr>ct_scheduled := ct_scheduled db @ [row]\<rparr>))"

definition list_scheduled :: "string \<Rightarrow> uid \<Rightarrow> chat \<Rightarrow> scheduled_row list" where
  "list_scheduled ws u db =
     sort_key sc_for (filter (\<lambda>r. sc_workspace r = ws \<and> sc_author r = u \<and> pending r) (ct_scheduled db))"

definition update_scheduled :: "string \<Rightarrow> (scheduled_row \<Rightarrow> scheduled_row) \<Rightarrow> chat \<Rightarrow> chat" where
  "update_scheduled i f db = db\<lparr>ct_scheduled := map (\<lambda>r. if sc_id r = i then f r else r) (ct_scheduled db)\<rparr>"

definition cancel_scheduled :: "real \<Rightarrow> string \<Rightarrow> uid \<Rightarrow> chat \<Rightarrow> exn + chat" where
  "cancel_scheduled now i u db =
     (case find (\<lambda>r. sc_id r = i) (ct_scheduled db) of
        None \<Rightarrow> Inl (not_found ''scheduled_message'' i)
      | Some r \<Rightarrow>
          if sc_author r \<noteq> u then Inl (not_found ''scheduled_message'' i)
          else if sc_cancelled r \<noteq> None then Inr db
          else Inr (update_scheduled i (\<lambda>r. r\<lparr>sc_cancelled := Some now\<rparr>) db))"

definition due_rows :: "real \<Rightarrow> chat \<Rightarrow> scheduled_row list" where
  "due_rows now db = take 100 (sort_key sc_for (filter (\<lambda>r. sc_for r \<le> now \<and> pending r) (ct_scheduled db)))"

definition request_of :: "scheduled_row \<Rightarrow> post_request" where
  "request_of r = \<lparr>pr_workspace = sc_workspace r, pr_channel = sc_channel r, pr_author = sc_author r, pr_text = sc_text r,
     pr_blocks = Some (sc_blocks r), pr_parent = None, pr_client = None\<rparr>"

text \<open>Each row is posted and marked, one after the other; the ids are those of the rows in turn.\<close>

fun post_due :: "real \<Rightarrow> (nat \<Rightarrow> mid \<times> string) \<Rightarrow> nat \<Rightarrow> scheduled_row list \<Rightarrow> (chat, nat) prog" where
  "post_due now ids n [] = ret n"
| "post_due now ids n (r # rs) =
     bind_s get_s (\<lambda>db. bind_s (lift_res (post_message now (fst (ids n)) (snd (ids n)) (request_of r) db)) (\<lambda>(m, db').
       then_s (modify_s (\<lambda>_. update_scheduled (sc_id r) (\<lambda>x. x\<lparr>sc_sent := Some (mg_id m)\<rparr>) db'))
         (post_due now ids (Suc n) rs)))"

definition dispatch_due_messages :: "real \<Rightarrow> (nat \<Rightarrow> mid \<times> string) \<Rightarrow> (chat, nat) prog" where
  "dispatch_due_messages now ids = bind_s get_s (\<lambda>db. post_due now ids 0 (due_rows now db))"

section \<open>The outbox\<close>

text \<open>
  A batch takes the oldest rows that no other dispatcher has locked, publishes each and deletes those whose publication did not
  fail. When the process dies before the commit, what it published is out but no row is deleted.
\<close>

definition batch_rows :: "string list \<Rightarrow> nat \<Rightarrow> chat \<Rightarrow> outbox_row list" where
  "batch_rows locked n db = take n (sort_key ob_created (filter (\<lambda>r. ob_id r \<notin> set locked) (ct_outbox db)))"

definition dispatch_one_batch :: "(string \<Rightarrow> bool) \<Rightarrow> string list \<Rightarrow> nat \<Rightarrow> chat \<Rightarrow> nat \<times> chat" where
  "dispatch_one_batch published locked n db =
     (let out = filter (\<lambda>r. published (ob_id r)) (batch_rows locked n db);
          ids = map ob_id out
      in (length ids, db\<lparr>ct_outbox := filter (\<lambda>r. ob_id r \<notin> set ids) (ct_outbox db), ct_published := ct_published db @ out\<rparr>))"

definition crash_in_batch :: "(string \<Rightarrow> bool) \<Rightarrow> string list \<Rightarrow> nat \<Rightarrow> chat \<Rightarrow> chat" where
  "crash_in_batch published locked n db =
     db\<lparr>ct_published := ct_published db @ filter (\<lambda>r. published (ob_id r)) (batch_rows locked n db)\<rparr>"

section \<open>Idempotency\<close>

datatype redis_value = InProgress string | Completed message string | SentMessage mid

text \<open>A value with the time of its expiry; an expired one is not there.\<close>

type_synonym redis = "(string, redis_value \<times> real) dict"

definition redis_get :: "real \<Rightarrow> string \<Rightarrow> redis \<Rightarrow> redis_value option" where
  "redis_get now k r = (case dget r k of None \<Rightarrow> None | Some (v, e) \<Rightarrow> if now < e then Some v else None)"

definition redis_set :: "real \<Rightarrow> string \<Rightarrow> redis_value \<Rightarrow> real \<Rightarrow> redis \<Rightarrow> redis" where
  "redis_set now k v ttl r = dset k (v, now + ttl) r"

definition idem_key :: "string \<Rightarrow> string" where
  "idem_key k = ''idem:'' @ k"

definition conflict :: exn where
  "conflict = OtherError ''Conflict'' ''key previously used with different request body''"

datatype lock_result = Acquired | Busy | Cached message

definition get_or_lock :: "real \<Rightarrow> string \<Rightarrow> string \<Rightarrow> redis \<Rightarrow> exn + lock_result \<times> redis" where
  "get_or_lock now k h r =
     (case redis_get now (idem_key k) r of
        Some (InProgress h') \<Rightarrow> if h' \<noteq> h then Inl conflict else Inr (Busy, r)
      | Some (Completed m h') \<Rightarrow> if h' \<noteq> h then Inl conflict else Inr (Cached m, r)
      | Some (SentMessage _) \<Rightarrow> Inl (KeyError ''request_hash'')
      | None \<Rightarrow> Inr (Acquired, redis_set now (idem_key k) (InProgress h) 30 r))"

definition put_response :: "real \<Rightarrow> string \<Rightarrow> string \<Rightarrow> message \<Rightarrow> redis \<Rightarrow> redis" where
  "put_response now k h m r = redis_set now (idem_key k) (Completed m h) 86400 r"

definition dedup_key :: "uid \<Rightarrow> cid \<Rightarrow> string \<Rightarrow> string" where
  "dedup_key u c i = ''msg:dedup:'' @ u @ '':'' @ c @ '':'' @ i"

definition dedup_lookup :: "real \<Rightarrow> uid \<Rightarrow> cid \<Rightarrow> string \<Rightarrow> redis \<Rightarrow> mid option" where
  "dedup_lookup now u c i r =
     (case redis_get now (dedup_key u c i) r of Some (SentMessage m) \<Rightarrow> Some m | _ \<Rightarrow> None)"

definition dedup_remember :: "real \<Rightarrow> uid \<Rightarrow> cid \<Rightarrow> string \<Rightarrow> mid \<Rightarrow> redis \<Rightarrow> redis" where
  "dedup_remember now u c i m r = redis_set now (dedup_key u c i) (SentMessage m) 86400 r"

section \<open>Endpoints\<close>

text \<open>The caller, with the role of the row that the access token led to.\<close>

record server =
  sv_db :: chat
  sv_redis :: redis

definition workspace_context :: "chat \<Rightarrow> uid \<Rightarrow> string \<Rightarrow> exn + unit" where
  "workspace_context db u wid =
     (case dget (ct_users db) u of
        None \<Rightarrow> Inl (OtherError ''Unauthorized'' ''user not found'')
      | Some row \<Rightarrow>
          if ur_deactivated row then Inl (OtherError ''Unauthorized'' ''user deactivated'')
          else if wid \<noteq> ur_workspace row then Inl (forbidden ''token does not grant access to this workspace'')
          else Inr ())"

text \<open>
  Posting, up to the insertion: a previous answer, or what the second half needs. A request that finds its key in progress goes
  on like one that has acquired it.
\<close>

record endpoint_call =
  ec_user :: uid
  ec_request :: post_request
  ec_key :: "string option"
  ec_hash :: string

definition begin_post :: "real \<Rightarrow> endpoint_call \<Rightarrow> (server, message option) prog" where
  "begin_post now c =
     bind_s get_s (\<lambda>s.
       let u = ec_user c; r = ec_request c
       in bind_s (lift_res (workspace_context (sv_db s) u (pr_workspace r))) (\<lambda>_.
          if \<not> can_user_post_message (acl_of (sv_db s)) u (pr_channel r) then raise_s (forbidden ''cannot post in this channel'')
          else bind_s (case ec_key c of
                  None \<Rightarrow> ret Acquired
                | Some k \<Rightarrow> bind_s (lift_res (get_or_lock now k (ec_hash c) (sv_redis s))) (\<lambda>(l, rd).
                    then_s (modify_s (\<lambda>s. s\<lparr>sv_redis := rd\<rparr>)) (ret l))) (\<lambda>l.
            case l of
              Cached m \<Rightarrow> ret (Some m)
            | _ \<Rightarrow>
                (case pr_client r of
                   None \<Rightarrow> ret None
                 | Some i \<Rightarrow>
                     bind_s get_s (\<lambda>s.
                       case dedup_lookup now u (pr_channel r) i (sv_redis s) of
                         None \<Rightarrow> ret None
                       | Some m \<Rightarrow> (case get_message (pr_channel r) m (sv_db s) of Inl _ \<Rightarrow> ret None | Inr x \<Rightarrow> ret (Some x)))))))"

definition remember_answer :: "real \<Rightarrow> endpoint_call \<Rightarrow> message \<Rightarrow> redis \<Rightarrow> redis" where
  "remember_answer now c m r =
     (let r1 = (case pr_client (ec_request c) of
            None \<Rightarrow> r | Some i \<Rightarrow> dedup_remember now (ec_user c) (pr_channel (ec_request c)) i (mg_id m) r)
      in case ec_key c of None \<Rightarrow> r1 | Some k \<Rightarrow> put_response now k (ec_hash c) m r1)"

definition finish_post :: "real \<Rightarrow> mid \<Rightarrow> string \<Rightarrow> endpoint_call \<Rightarrow> (server, message) prog" where
  "finish_post now mid eid c =
     bind_s get_s (\<lambda>s.
       case post_message now mid eid (ec_request c) (sv_db s) of
         Inr (m, db) \<Rightarrow>
           then_s (modify_s (\<lambda>s. s\<lparr>sv_db := db, sv_redis := remember_answer now c m (sv_redis s)\<rparr>)) (ret m)
       | Inl x \<Rightarrow>
           (case (x = unique_violation, pr_client (ec_request c)) of
              (True, Some i) \<Rightarrow>
                (case get_message_by_client_msg_id (pr_workspace (ec_request c)) i (sv_db s) of
                   None \<Rightarrow> raise_s x
                 | Some m \<Rightarrow> then_s (modify_s (\<lambda>s. s\<lparr>sv_redis := remember_answer now c m (sv_redis s)\<rparr>)) (ret m))
            | _ \<Rightarrow> raise_s x))"

definition post_message_endpoint :: "real \<Rightarrow> mid \<Rightarrow> string \<Rightarrow> endpoint_call \<Rightarrow> (server, message) prog" where
  "post_message_endpoint now mid eid c =
     bind_s (begin_post now c) (\<lambda>a. case a of Some m \<Rightarrow> ret m | None \<Rightarrow> finish_post now mid eid c)"

definition list_messages_endpoint ::
  "uid \<Rightarrow> string \<Rightarrow> cid \<Rightarrow> real option \<Rightarrow> real option \<Rightarrow> nat \<Rightarrow> chat \<Rightarrow> exn + message list \<times> bool"
where
  "list_messages_endpoint u wid c before after limit db =
     bind_res (workspace_context db u wid) (\<lambda>_. Inr (list_messages c before after limit db))"

definition guarded_message :: "uid \<Rightarrow> string \<Rightarrow> mid \<Rightarrow> chat \<Rightarrow> exn + unit" where
  "guarded_message u wid m db =
     bind_res (workspace_context db u wid) (\<lambda>_.
       if can_user_see_message (acl_of db) u m then Inr () else Inl (not_found ''message'' m))"

definition get_message_endpoint :: "uid \<Rightarrow> string \<Rightarrow> cid \<Rightarrow> mid \<Rightarrow> chat \<Rightarrow> exn + message" where
  "get_message_endpoint u wid c m db = bind_res (guarded_message u wid m db) (\<lambda>_. get_message c m db)"

definition get_thread_replies :: "uid \<Rightarrow> string \<Rightarrow> cid \<Rightarrow> mid \<Rightarrow> nat \<Rightarrow> chat \<Rightarrow> exn + message \<times> message list \<times> bool" where
  "get_thread_replies u wid c m limit db =
     bind_res (guarded_message u wid m db) (\<lambda>_. bind_res (get_message c m db) (\<lambda>p.
       if mg_deleted p \<noteq> None then Inl (not_found ''message'' m)
       else Inr (p, list_thread_replies c m limit db)))"

definition guarded_edit :: "uid \<Rightarrow> string \<Rightarrow> mid \<Rightarrow> chat \<Rightarrow> exn + unit" where
  "guarded_edit u wid m db =
     bind_res (workspace_context db u wid) (\<lambda>_.
       if can_user_edit_message (acl_of db) u m then Inr () else Inl (forbidden ''cannot edit this message''))"

definition patch_message ::
  "real \<Rightarrow> string \<Rightarrow> uid \<Rightarrow> string \<Rightarrow> cid \<Rightarrow> mid \<Rightarrow> string option \<Rightarrow> json list option \<Rightarrow> chat \<Rightarrow> exn + message \<times> chat"
where
  "patch_message now eid u wid c m text1 blocks db =
     bind_res (guarded_edit u wid m db) (\<lambda>_. edit_message now eid c m text1 blocks u db)"

definition delete_message_endpoint :: "real \<Rightarrow> string \<Rightarrow> uid \<Rightarrow> string \<Rightarrow> cid \<Rightarrow> mid \<Rightarrow> chat \<Rightarrow> exn + chat" where
  "delete_message_endpoint now eid u wid c m db =
     bind_res (guarded_edit u wid m db) (\<lambda>_. delete_message now eid c m db)"

definition add_reaction_endpoint :: "real \<Rightarrow> string \<Rightarrow> uid \<Rightarrow> string \<Rightarrow> mid \<Rightarrow> string \<Rightarrow> chat \<Rightarrow> exn + chat" where
  "add_reaction_endpoint now eid u wid m emoji db =
     bind_res (guarded_message u wid m db) (\<lambda>_. add_reaction now eid m u emoji db)"

definition remove_reaction_endpoint :: "real \<Rightarrow> string \<Rightarrow> uid \<Rightarrow> string \<Rightarrow> mid \<Rightarrow> string \<Rightarrow> chat \<Rightarrow> exn + chat" where
  "remove_reaction_endpoint now eid u wid m emoji db =
     bind_res (guarded_message u wid m db) (\<lambda>_. remove_reaction now eid m u emoji db)"

definition guarded_channel :: "uid \<Rightarrow> string \<Rightarrow> cid \<Rightarrow> chat \<Rightarrow> exn + unit" where
  "guarded_channel u wid c db =
     bind_res (workspace_context db u wid) (\<lambda>_.
       if can_user_see_channel (acl_of db) u c then Inr () else Inl (not_found ''channel'' c))"

definition pin_message_endpoint :: "real \<Rightarrow> string \<Rightarrow> uid \<Rightarrow> string \<Rightarrow> cid \<Rightarrow> mid \<Rightarrow> chat \<Rightarrow> exn + chat" where
  "pin_message_endpoint now eid u wid c m db =
     bind_res (guarded_channel u wid c db) (\<lambda>_. pin_message now eid c m u db)"

definition unpin_message_endpoint :: "real \<Rightarrow> string \<Rightarrow> uid \<Rightarrow> string \<Rightarrow> cid \<Rightarrow> mid \<Rightarrow> chat \<Rightarrow> exn + chat" where
  "unpin_message_endpoint now eid u wid c m db =
     bind_res (guarded_channel u wid c db) (\<lambda>_. unpin_message now eid c m db)"

definition list_pins_endpoint :: "uid \<Rightarrow> string \<Rightarrow> cid \<Rightarrow> chat \<Rightarrow> exn + message list" where
  "list_pins_endpoint u wid c db = bind_res (guarded_channel u wid c db) (\<lambda>_. Inr (list_pins c db))"

definition schedule_message_endpoint ::
  "real \<Rightarrow> string \<Rightarrow> uid \<Rightarrow> string \<Rightarrow> cid \<Rightarrow> string option \<Rightarrow> json list option \<Rightarrow> real \<Rightarrow> chat \<Rightarrow> exn + scheduled_row \<times> chat"
where
  "schedule_message_endpoint now sid u wid c text1 blocks due db =
     bind_res (workspace_context db u wid) (\<lambda>_.
       schedule_message now sid \<lparr>pr_workspace = wid, pr_channel = c, pr_author = u, pr_text = text1, pr_blocks = blocks,
         pr_parent = None, pr_client = None\<rparr> due db)"

definition cancel_scheduled_endpoint :: "real \<Rightarrow> uid \<Rightarrow> string \<Rightarrow> string \<Rightarrow> chat \<Rightarrow> exn + chat" where
  "cancel_scheduled_endpoint now u wid i db =
     bind_res (workspace_context db u wid) (\<lambda>_. cancel_scheduled now i u db)"

section \<open>Sequence numbers and events\<close>

text \<open>What clients and workers do to the tables; the ids and times come with the operation.\<close>

datatype chat_op =
    OpPost real mid string post_request
  | OpEdit real string cid mid "string option" "json list option" uid
  | OpDelete real string cid mid
  | OpReact real string mid uid string
  | OpUnreact real string mid uid string
  | OpPin real string cid mid uid
  | OpUnpin real string cid mid
  | OpSchedule real string post_request real
  | OpCancel real string uid
  | OpDispatchDue real "nat \<Rightarrow> mid \<times> string"
  | OpBatch "string \<Rightarrow> bool" "string list" nat
  | OpCrash "string \<Rightarrow> bool" "string list" nat

text \<open>An operation that raises leaves the tables as they were, but the dispatcher of scheduled messages keeps what it has posted.\<close>

definition kept :: "chat \<Rightarrow> exn + chat \<Rightarrow> chat" where
  "kept db r = (case r of Inl _ \<Rightarrow> db | Inr db' \<Rightarrow> db')"

definition kept_snd :: "chat \<Rightarrow> exn + 'a \<times> chat \<Rightarrow> chat" where
  "kept_snd db r = (case r of Inl _ \<Rightarrow> db | Inr (_, db') \<Rightarrow> db')"

fun chat_step :: "chat_op \<Rightarrow> chat \<Rightarrow> chat" where
  "chat_step (OpPost now m eid r) db = kept_snd db (post_message now m eid r db)"
| "chat_step (OpEdit now eid c m t b u) db = kept_snd db (edit_message now eid c m t b u db)"
| "chat_step (OpDelete now eid c m) db = kept db (delete_message now eid c m db)"
| "chat_step (OpReact now eid m u e) db = kept db (add_reaction now eid m u e db)"
| "chat_step (OpUnreact now eid m u e) db = kept db (remove_reaction now eid m u e db)"
| "chat_step (OpPin now eid c m u) db = kept db (pin_message now eid c m u db)"
| "chat_step (OpUnpin now eid c m) db = kept db (unpin_message now eid c m db)"
| "chat_step (OpSchedule now sid r due) db = kept_snd db (schedule_message now sid r due db)"
| "chat_step (OpCancel now i u) db = kept db (cancel_scheduled now i u db)"
| "chat_step (OpDispatchDue now ids) db = snd (dispatch_due_messages now ids db)"
| "chat_step (OpBatch p l n) db = snd (dispatch_one_batch p l n db)"
| "chat_step (OpCrash p l n) db = crash_in_batch p l n db"

definition channel_seqs :: "cid \<Rightarrow> message list \<Rightarrow> int list" where
  "channel_seqs c ms = map mg_ts_seq (filter (\<lambda>m. mg_channel m = c) ms)"

text \<open>The list \<open>1, 2, 3, ...\<close>.\<close>

definition numbered :: "int list \<Rightarrow> bool" where
  "numbered xs \<longleftrightarrow> xs = map int [1..<Suc (length xs)]"

lemma numbered_snoc: "numbered xs \<Longrightarrow> numbered (xs @ [int (length xs) + 1])"
  unfolding numbered_def by (subst (asm) eq_commute) simp

definition created_event :: "message \<Rightarrow> outbox_row \<Rightarrow> bool" where
  "created_event m e \<longleftrightarrow> ob_type e = ''message.created'' \<and> ob_channel e = mg_channel m
     \<and> dget (ob_payload e) ''message_id'' = Some (JStr (mg_id m))
     \<and> dget (ob_payload e) ''ts'' = Some (JStr (format_slack_ts (mg_created m) (mg_ts_seq m)))"

definition events :: "chat \<Rightarrow> outbox_row set" where
  "events db = set (ct_outbox db) \<union> set (ct_published db)"

definition chat_inv :: "chat \<Rightarrow> bool" where
  "chat_inv db \<longleftrightarrow>
     (\<forall>c. numbered (channel_seqs c (ct_messages db)))
     \<and> distinct (map mg_id (ct_messages db)) \<and> distinct (map ob_id (ct_outbox db))
     \<and> (\<forall>m \<in> set (ct_messages db). \<exists>e \<in> events db. created_event m e)"

text \<open>Changes that keep what the invariant speaks of: the same messages, up to text and time stamps of changes, and no event lost.\<close>

definition same_message :: "message \<Rightarrow> message \<Rightarrow> bool" where
  "same_message m n \<longleftrightarrow> mg_id m = mg_id n \<and> mg_channel m = mg_channel n \<and> mg_ts_seq m = mg_ts_seq n \<and> mg_created m = mg_created n"

definition harmless :: "chat \<Rightarrow> chat \<Rightarrow> bool" where
  "harmless db db' \<longleftrightarrow> list_all2 same_message (ct_messages db) (ct_messages db') \<and> events db \<subseteq> events db'
     \<and> (distinct (map ob_id (ct_outbox db)) \<longrightarrow> distinct (map ob_id (ct_outbox db')))"

lemma list_all2_same: "list_all2 same_message ms ms"
  by (simp add: list_all2_refl same_message_def)

lemma harmless_refl: "harmless db db"
  by (simp add: harmless_def list_all2_same)

lemma same_trans: "list_all2 same_message as bs \<Longrightarrow> list_all2 same_message bs cs \<Longrightarrow> list_all2 same_message as cs"
  by (rule list_all2_trans [of same_message same_message same_message as bs cs]) (auto simp: same_message_def)

lemma harmless_trans: "harmless a b \<Longrightarrow> harmless b c \<Longrightarrow> harmless a c"
  using same_trans by (auto simp: harmless_def)

lemma same_seqs: "list_all2 same_message ms ns \<Longrightarrow> channel_seqs c ms = channel_seqs c ns \<and> map mg_id ms = map mg_id ns"
  by (induction rule: list_all2_induct) (auto simp: channel_seqs_def same_message_def)

lemma same_created: "list_all2 same_message ms ns \<Longrightarrow> n \<in> set ns \<Longrightarrow> \<exists>m \<in> set ms. \<forall>e. created_event n e = created_event m e"
  by (induction rule: list_all2_induct) (auto simp: same_message_def created_event_def)

lemma harmless_inv:
  assumes "harmless db db'" "chat_inv db"
  shows "chat_inv db'"
proof -
  from assms(1) have s: "list_all2 same_message (ct_messages db) (ct_messages db')" "events db \<subseteq> events db'"
    by (simp_all add: harmless_def)
  have "numbered (channel_seqs c (ct_messages db'))" for c
    using same_seqs [OF s(1), of c] assms(2) unfolding chat_inv_def by metis
  moreover have "distinct (map mg_id (ct_messages db'))"
    using same_seqs [OF s(1)] assms(2) unfolding chat_inv_def by metis
  moreover have "\<exists>e \<in> events db'. created_event n e" if "n \<in> set (ct_messages db')" for n
  proof -
    from same_created [OF s(1) that] obtain m where "m \<in> set (ct_messages db)" "\<forall>e. created_event n e = created_event m e" by blast
    moreover from this(1) assms(2) obtain e where "e \<in> events db" "created_event m e" unfolding chat_inv_def by blast
    ultimately show ?thesis using s(2) by blast
  qed
  moreover have "distinct (map ob_id (ct_outbox db'))" using assms by (simp add: harmless_def chat_inv_def)
  ultimately show ?thesis by (simp add: chat_inv_def)
qed

lemma enqueue_cases:
  assumes "enqueue_outbox eid now ws c ty p db = Inr db'"
  shows "\<exists>e. db' = db\<lparr>ct_outbox := ct_outbox db @ [e]\<rparr> \<and> ob_id e \<notin> ob_id ` set (ct_outbox db) \<and> ob_type e = ty
    \<and> ob_channel e = c \<and> ob_payload e = p"
proof -
  from assms have "\<not> list_ex (\<lambda>e. ob_id e = eid) (ct_outbox db)"
    "db' = db\<lparr>ct_outbox := ct_outbox db @ [\<lparr>ob_id = eid, ob_workspace = ws, ob_channel = c, ob_type = ty, ob_payload = p, ob_created = now\<rparr>]\<rparr>"
    by (auto simp: enqueue_outbox_def split: if_splits)
  then show ?thesis
    by (intro exI [of _ "\<lparr>ob_id = eid, ob_workspace = ws, ob_channel = c, ob_type = ty, ob_payload = p, ob_created = now\<rparr>"])
      (auto simp: list_ex_iff)
qed

lemma harmless_enqueue:
  assumes "enqueue_outbox eid now ws c ty p db1 = Inr db'" "harmless db db1"
  shows "harmless db db'"
proof -
  from assms(1) obtain e where "db' = db1\<lparr>ct_outbox := ct_outbox db1 @ [e]\<rparr>" "ob_id e \<notin> ob_id ` set (ct_outbox db1)"
    using enqueue_cases by blast
  with assms(2) show ?thesis by (auto simp: harmless_def events_def)
qed

lemma harmless_update:
  assumes "harmless db db'" "\<And>x. same_message x (f x)"
  shows "harmless db (update_message m f db')"
proof -
  have "harmless db' (update_message m f db')"
    using assms(2) by (simp add: harmless_def update_message_def events_def list_all2_conv_all_nth same_message_def)
  with assms(1) show ?thesis by (rule harmless_trans)
qed

lemma harmless_other:
  "ct_messages db' = ct_messages db \<Longrightarrow> ct_outbox db' = ct_outbox db \<Longrightarrow> ct_published db' = ct_published db \<Longrightarrow> harmless db db'"
  by (simp add: harmless_def events_def list_all2_same)

lemma harmless_react: "react_event eid now ty m u e db1 = Inr db' \<Longrightarrow> harmless db db1 \<Longrightarrow> harmless db db'"
  by (auto simp: react_event_def intro: harmless_enqueue split: option.splits)

lemma harmless_pin: "pin_event eid now ty c m p db1 = Inr db' \<Longrightarrow> harmless db db1 \<Longrightarrow> harmless db db'"
  by (auto simp: pin_event_def intro: harmless_enqueue split: sum.splits)

lemma fold_max_seq: "fold max (map int [2..<k + 2]) 1 = int (k + 1)"
proof (induction k)
  case (Suc k)
  have "[2..<Suc k + 2] = [2..<k + 2] @ [k + 2]" by simp
  with Suc show ?case by simp
qed simp

lemma next_is_next:
  assumes "numbered (channel_seqs c (ct_messages db))"
  shows "next_ts_seq c db = int (length (channel_seqs c (ct_messages db))) + 1"
proof (cases "length (channel_seqs c (ct_messages db))")
  case 0
  then show ?thesis by (simp add: next_ts_seq_def channel_seqs_def)
next
  case (Suc k)
  have u: "[1..<Suc (Suc k)] = 1 # [2..<k + 2]" by (simp add: upt_conv_Cons numeral_2_eq_2 del: upt_Suc)
  have "channel_seqs c (ct_messages db) = map int [1..<Suc (Suc k)]"
    using assms Suc unfolding numbered_def by metis
  then have "map mg_ts_seq (filter (\<lambda>m. mg_channel m = c) (ct_messages db)) = 1 # map int [2..<k + 2]"
    unfolding channel_seqs_def u by simp
  then have "next_ts_seq c db = int k + 2" using fold_max_seq [of k] by (simp add: next_ts_seq_def)
  with Suc show ?thesis by simp
qed

lemma find_append_new: "\<forall>x \<in> set xs. \<not> P x \<Longrightarrow> find P (xs @ [y]) = (if P y then Some y else None)"
  by (induction xs) auto

lemma insert_cases:
  assumes "insert_message m db = Inr db'"
  shows "db' = db\<lparr>ct_messages := ct_messages db @ [m]\<rparr> \<and> mg_id m \<notin> mg_id ` set (ct_messages db)"
  using assms by (auto simp: insert_message_def list_ex_iff split: if_splits)

lemma post_cases:
  assumes "post_message now m eid r db = Inr (x, db')"
  shows "\<exists>e. ct_messages db' = ct_messages db @ [x] \<and> ct_outbox db' = ct_outbox db @ [e] \<and> ct_published db' = ct_published db
     \<and> created_event x e \<and> mg_id x = m \<and> mg_channel x = pr_channel r \<and> mg_ts_seq x = next_ts_seq (pr_channel r) db
     \<and> m \<notin> mg_id ` set (ct_messages db) \<and> ob_id e \<notin> ob_id ` set (ct_outbox db)"
proof -
  from assms obtain db1 where ins: "insert_message x db = Inr db1"
    and x: "mg_id x = m" "mg_channel x = pr_channel r" "mg_ts_seq x = next_ts_seq (pr_channel r) db" "mg_created x = now"
    and enq: "enqueue_outbox eid now (pr_workspace r) (pr_channel r) ''message.created''
             [(''message_id'', JStr m), (''channel_id'', JStr (pr_channel r)), (''author_id'', JStr (pr_author r)),
              (''kind'', JStr ''text''), (''ts'', JStr (format_slack_ts now (next_ts_seq (pr_channel r) db)))] db1 = Inr db'"
    by (auto simp: post_message_def Let_def bind_res_eq_Inr split: if_splits)
  from enqueue_cases [OF enq] obtain e where e: "db' = db1\<lparr>ct_outbox := ct_outbox db1 @ [e]\<rparr>" "ob_id e \<notin> ob_id ` set (ct_outbox db1)"
    "ob_type e = ''message.created''" "ob_channel e = pr_channel r"
    "dget (ob_payload e) ''message_id'' = Some (JStr m)"
    "dget (ob_payload e) ''ts'' = Some (JStr (format_slack_ts now (next_ts_seq (pr_channel r) db)))" by auto
  moreover have "created_event x e" unfolding created_event_def using e x by simp
  ultimately show ?thesis using insert_cases [OF ins] x by auto
qed

lemma post_inv:
  assumes "chat_inv db" "post_message now m eid r db = Inr (x, db')"
  shows "chat_inv db'"
proof -
  let ?c = "pr_channel r"
  have n: "numbered (channel_seqs ?c (ct_messages db))" using assms(1) by (simp add: chat_inv_def)
  obtain e where db': "ct_messages db' = ct_messages db @ [x]" "ct_outbox db' = ct_outbox db @ [e]" "ct_published db' = ct_published db"
      "created_event x e"
    and x: "mg_id x = m" "mg_channel x = ?c" "mg_ts_seq x = int (length (channel_seqs ?c (ct_messages db))) + 1"
    and new: "m \<notin> mg_id ` set (ct_messages db)" and fresh: "ob_id e \<notin> ob_id ` set (ct_outbox db)"
    using post_cases [OF assms(2)] next_is_next [OF n] by auto
  have seqs: "numbered (channel_seqs c (ct_messages db'))" for c
  proof (cases "c = ?c")
    case True
    then have "channel_seqs c (ct_messages db') = channel_seqs ?c (ct_messages db) @ [int (length (channel_seqs ?c (ct_messages db))) + 1]"
      using x db'(1) by (simp add: channel_seqs_def)
    then show ?thesis using numbered_snoc [OF n] by simp
  next
    case False
    then have "channel_seqs c (ct_messages db') = channel_seqs c (ct_messages db)" using db'(1) x by (simp add: channel_seqs_def)
    then show ?thesis using assms(1) by (simp add: chat_inv_def)
  qed
  moreover have "distinct (map mg_id (ct_messages db'))"
    using assms(1) new db'(1) x(1) by (auto simp: chat_inv_def)
  moreover have "\<forall>y \<in> set (ct_messages db'). \<exists>e \<in> events db'. created_event y e"
    using assms(1) db' by (auto simp: chat_inv_def events_def)
  moreover have "distinct (map ob_id (ct_outbox db'))"
    using assms(1) db' fresh by (auto simp: chat_inv_def)
  ultimately show ?thesis by (simp add: chat_inv_def)
qed

lemma post_due_inv: "chat_inv db \<Longrightarrow> chat_inv (snd (post_due now ids n rs db))"
proof (induction rs arbitrary: db n)
  case (Cons r rs)
  show ?case
  proof (cases "post_message now (fst (ids n)) (snd (ids n)) (request_of r) db")
    case (Inl e)
    with Cons.prems show ?thesis by (simp add: run_defs)
  next
    case (Inr y)
    obtain x db' where y: "y = (x, db')" by (cases y)
    have "chat_inv (update_scheduled (sc_id r) (\<lambda>z. z\<lparr>sc_sent := Some (mg_id x)\<rparr>) db')"
      by (rule harmless_inv [OF harmless_other post_inv [OF Cons.prems Inr [unfolded y]]])
        (simp_all add: update_scheduled_def)
    from Cons.IH [OF this] Inr y show ?thesis by (simp add: run_defs)
  qed
qed (simp add: ret_def)

lemma batch_subset: "set (batch_rows l n db) \<subseteq> set (ct_outbox db)"
  unfolding batch_rows_def by (auto dest!: in_set_takeD)

lemma batch_keeps_event:
  assumes "distinct (map ob_id (ct_outbox db))" "r \<in> set (ct_outbox db)"
  shows "r \<in> events (snd (dispatch_one_batch p l n db))"
proof (cases "ob_id r \<in> ob_id ` set (filter (\<lambda>r. p (ob_id r)) (batch_rows l n db))")
  case True
  then obtain q where q: "q \<in> set (filter (\<lambda>r. p (ob_id r)) (batch_rows l n db))" "ob_id r = ob_id q" by blast
  then have "q \<in> set (ct_outbox db)" using batch_subset [of l n db] by auto
  with assms q(2) have "r = q" by (auto simp: distinct_map dest: inj_onD)
  with q(1) show ?thesis by (simp add: dispatch_one_batch_def Let_def events_def)
next
  case False
  with assms(2) show ?thesis by (simp add: dispatch_one_batch_def Let_def events_def)
qed

lemma harmless_batch:
  assumes "distinct (map ob_id (ct_outbox db))"
  shows "harmless db (snd (dispatch_one_batch p l n db))"
proof -
  have "r \<in> events (snd (dispatch_one_batch p l n db))" if "r \<in> events db" for r
  proof (cases "r \<in> set (ct_outbox db)")
    case True
    with batch_keeps_event [OF assms] show ?thesis by blast
  next
    case False
    with that show ?thesis by (simp add: dispatch_one_batch_def Let_def events_def)
  qed
  moreover have "distinct (map ob_id (ct_outbox (snd (dispatch_one_batch p l n db))))"
    using assms by (simp add: dispatch_one_batch_def Let_def distinct_map_filter)
  moreover have "ct_messages (snd (dispatch_one_batch p l n db)) = ct_messages db"
    by (simp add: dispatch_one_batch_def Let_def)
  ultimately show ?thesis unfolding harmless_def using list_all2_same by (simp only: subset_iff) blast
qed

lemma harmless_crash: "harmless db (crash_in_batch p l n db)"
  by (auto simp: harmless_def crash_in_batch_def events_def list_all2_same)

lemma kept_inv: "chat_inv db \<Longrightarrow> (\<And>db'. r = Inr db' \<Longrightarrow> harmless db db') \<Longrightarrow> chat_inv (kept db r)"
  by (auto simp: kept_def intro: harmless_inv split: sum.split)

lemma kept_snd_inv: "chat_inv db \<Longrightarrow> (\<And>x db'. r = Inr (x, db') \<Longrightarrow> harmless db db') \<Longrightarrow> chat_inv (kept_snd db r)"
  by (auto simp: kept_snd_def intro: harmless_inv split: sum.split)

lemma same_apply_edit: "same_message x (apply_edit now t b x)"
  by (simp add: apply_edit_def same_message_def Let_def split: option.split)

lemma edit_harmless:
  assumes "edit_message now eid c m t b u db = Inr (x, db')"
  shows "harmless db db'"
proof -
  from assms obtain prev where p: "get_message c m db = Inr prev" by (auto simp: edit_message_def bind_res_eq_Inr)
  let ?db = "db\<lparr>ct_edits := ct_edits db @
    [\<lparr>me_message = m, me_at = now, me_text = mg_text prev, me_blocks = mg_blocks prev, me_by = u\<rparr>]\<rparr>"
  from assms p have "enqueue_outbox eid now (mg_workspace prev) c ''message.updated'' (event_of m c)
       (update_message m (apply_edit now t b) ?db) = Inr db'"
    unfolding edit_message_def Let_def by (auto simp: bind_res_eq_Inr split: if_splits)
  moreover have "harmless db ?db" by (rule harmless_other) simp_all
  from harmless_update [OF this same_apply_edit]
  have "harmless db (update_message m (apply_edit now t b) ?db)" .
  ultimately show ?thesis by (rule harmless_enqueue)
qed

lemma delete_harmless: "delete_message now eid c m db = Inr db' \<Longrightarrow> harmless db db'"
  unfolding delete_message_def Let_def
proof -
  assume "bind_res (get_message c m db) (\<lambda>prev. if mg_deleted prev \<noteq> None then Inr db
      else enqueue_outbox eid now (mg_workspace prev) c ''message.deleted'' (event_of m c)
        (update_message m (\<lambda>x. x\<lparr>mg_deleted := Some now\<rparr>) db
          \<lparr>ct_audit := ct_audit (update_message m (\<lambda>x. x\<lparr>mg_deleted := Some now\<rparr>) db) @ [(''delete'', m)]\<rparr>)) = Inr db'"
  moreover have "harmless db (update_message m (\<lambda>x. x\<lparr>mg_deleted := Some now\<rparr>) db)"
    by (rule harmless_update [OF harmless_refl]) (simp add: same_message_def)
  from harmless_trans [OF this harmless_other]
  have "harmless db (update_message m (\<lambda>x. x\<lparr>mg_deleted := Some now\<rparr>) db\<lparr>ct_audit := a\<rparr>)" for a by simp
  ultimately show ?thesis
    by (auto simp: bind_res_eq_Inr harmless_refl intro: harmless_enqueue split: if_splits)
qed

lemma reaction_harmless:
  "add_reaction now eid m u e db = Inr db' \<Longrightarrow> harmless db db'"
  "remove_reaction now eid m u e db = Inr db' \<Longrightarrow> harmless db db'"
proof -
  have r: "harmless db (db\<lparr>ct_reactions := rs\<rparr>)" for rs by (rule harmless_other) simp_all
  let ?d = "if (m, u, e) \<in> set (ct_reactions db) then db else db\<lparr>ct_reactions := ct_reactions db @ [(m, u, e)]\<rparr>"
  have d: "harmless db ?d" using r harmless_refl by simp
  show "harmless db db'" if "add_reaction now eid m u e db = Inr db'"
  proof -
    from that have "react_event eid now ''reaction.added'' m u e ?d = Inr db'"
      unfolding add_reaction_def
      by (cases "find_message m db = None \<or> dget (ct_users db) u = None") (simp_all only: if_True if_False sum.simps)
    then show ?thesis by (rule harmless_react) (rule d)
  qed
  show "remove_reaction now eid m u e db = Inr db' \<Longrightarrow> harmless db db'"
    unfolding remove_reaction_def by (rule harmless_react [OF _ r])
qed

lemma pin_harmless:
  "pin_message now eid c m u db = Inr db' \<Longrightarrow> harmless db db'"
  "unpin_message now eid c m db = Inr db' \<Longrightarrow> harmless db db'"
proof -
  have r: "harmless db (db\<lparr>ct_pins := ps\<rparr>)" for ps by (rule harmless_other) simp_all
  let ?d = "if list_ex (\<lambda>(pc, pm, _). pc = c \<and> pm = m) (ct_pins db) then db else db\<lparr>ct_pins := ct_pins db @ [(c, m, u)]\<rparr>"
  have d: "harmless db ?d" using r harmless_refl by simp
  show "harmless db db'" if "pin_message now eid c m u db = Inr db'"
  proof -
    from that have "pin_event eid now ''pin.added'' c m (event_of m c @ [(''pinned_by'', JStr u)]) ?d = Inr db'"
      unfolding pin_message_def
      by (cases "find_message m db = None \<or> dget (ct_channels db) c = None \<or> dget (ct_users db) u = None")
        (simp_all only: if_True if_False sum.simps)
    then show ?thesis by (rule harmless_pin) (rule d)
  qed
  show "unpin_message now eid c m db = Inr db' \<Longrightarrow> harmless db db'"
    unfolding unpin_message_def by (rule harmless_pin [OF _ r])
qed

lemma harmless_schedule: "harmless db (db\<lparr>ct_scheduled := ss\<rparr>)"
  by (rule harmless_other) simp_all

lemma schedule_harmless:
  assumes "schedule_message now i r due db = Inr (x, db')"
  shows "harmless db db'"
proof -
  from assms obtain ss where "db' = db\<lparr>ct_scheduled := ss\<rparr>"
    unfolding schedule_message_def Let_def by (auto split: if_splits)
  then show ?thesis using harmless_schedule by simp
qed

lemma cancel_harmless:
  assumes "cancel_scheduled now i u db = Inr db'"
  shows "harmless db db'"
proof -
  from assms obtain ss where "db' = db\<lparr>ct_scheduled := ss\<rparr> \<or> db' = db"
    unfolding cancel_scheduled_def update_scheduled_def by (auto split: option.splits if_splits)
  then show ?thesis using harmless_schedule harmless_refl by auto
qed

lemma chat_step_inv: "chat_inv db \<Longrightarrow> chat_inv (chat_step x db)"
proof (cases x)
  case (OpPost now m eid r)
  then show "chat_inv db \<Longrightarrow> ?thesis" by (auto simp: kept_snd_def intro: post_inv split: sum.split)
next
  case (OpDispatchDue now ids)
  then show "chat_inv db \<Longrightarrow> ?thesis" by (simp add: dispatch_due_messages_def bind_s_def get_s_def post_due_inv)
next
  case (OpBatch p l n)
  then show "chat_inv db \<Longrightarrow> ?thesis" using harmless_inv [OF harmless_batch] by (simp add: chat_inv_def)
next
  case (OpCrash p l n)
  then show "chat_inv db \<Longrightarrow> ?thesis" by (auto intro: harmless_inv harmless_crash)
qed (auto intro!: kept_inv kept_snd_inv
    intro: edit_harmless delete_harmless reaction_harmless pin_harmless schedule_harmless cancel_harmless)

interpretation chat: machine chat_step chat_inv
  by unfold_locales (rule chat_step_inv)

definition no_messages :: "chat \<Rightarrow> bool" where
  "no_messages db \<longleftrightarrow> ct_messages db = [] \<and> ct_outbox db = [] \<and> ct_published db = []"

lemma no_messages_inv: "no_messages db \<Longrightarrow> chat_inv db"
  by (simp add: no_messages_def chat_inv_def numbered_def channel_seqs_def)

text \<open>
  C17. Whatever clients, the dispatcher of scheduled messages and the outbox dispatchers do, crashes of the latter included: the messages
  of a channel carry the numbers 1, 2, 3, ... in the order they were posted.
\<close>

theorem channel_sequence:
  assumes "no_messages db"
  shows "channel_seqs c (ct_messages (fold chat_step xs db)) = map int [1..<Suc (length (channel_seqs c (ct_messages (fold chat_step xs db))))]"
  using chat.run_inv [OF no_messages_inv [OF assms], of xs] by (simp add: chat_inv_def numbered_def del: upt_Suc)

text \<open>
  C18. No event is lost: each message that was ever posted, and is in the table, has its event in the outbox or among those that were
  published, and the event carries the message's id and its time stamp.
\<close>

theorem outbox_keeps_events:
  assumes "no_messages db" "m \<in> set (ct_messages (fold chat_step xs db))"
  shows "\<exists>e. (e \<in> set (ct_outbox (fold chat_step xs db)) \<or> e \<in> set (ct_published (fold chat_step xs db))) \<and> created_event m e"
  using chat.run_inv [OF no_messages_inv [OF assms(1)], of xs] assms(2) by (auto simp: chat_inv_def events_def)

section \<open>Slack's time stamps\<close>

lemma digit_char_val: "n < 10 \<Longrightarrow> of_char (digit_char n) = n + (48 :: nat)"
  by (simp add: digit_char_def)

lemma digit_char_int: "n < 10 \<Longrightarrow> of_char (digit_char n) = int n + 48"
  using digit_char_val [of n] by (metis of_nat_add of_nat_numeral of_nat_of_char)

lemma is_digit_char: "n < 10 \<Longrightarrow> is_digit (digit_char n)"
  by (simp add: is_digit_def digit_char_val Let_def)

lemma not_digits: "\<not> is_digit CHR ''.''" "\<not> is_digit CHR ''-''" "\<not> is_digit CHR ''+''" "is_digit CHR ''0''"
  by code_simp+

lemma space_no_digit: "is_space c \<Longrightarrow> \<not> is_digit c"
  by (auto simp: is_space_def is_digit_def Let_def)

definition digits :: "string \<Rightarrow> bool" where
  "digits s \<longleftrightarrow> s \<noteq> [] \<and> list_all is_digit s"

lemma digits_nat_str: "digits (nat_str n)"
proof (induction n rule: nat_str.induct)
  case (1 n)
  then show ?case by (cases "n < 10") (auto simp: digits_def nat_str.simps [of n] is_digit_char)
qed

lemma digits_val_snoc: "digits_val (s @ [c]) = digits_val s * 10 + (of_char c - 48)"
  by (simp add: digits_val_def)

lemma digits_val_nat_str: "digits_val (nat_str n) = int n"
proof (induction n rule: nat_str.induct)
  case (1 n)
  have v: "(of_char (digit_char (n mod 10)) :: int) - 48 = int (n mod 10)"
    by (simp add: digit_char_int)
  show ?case
  proof (cases "n < 10")
    case True
    then show ?thesis using v by (simp add: nat_str.simps [of n] digits_val_def)
  next
    case False
    with 1 have "digits_val (nat_str n) = int (n div 10) * 10 + int (n mod 10)"
      using v by (simp add: nat_str.simps [of n] digits_val_snoc)
    then show ?thesis by (metis div_mult_mod_eq of_nat_add of_nat_mult of_nat_numeral)
  qed
qed

lemma digits_val_zeros: "digits_val (replicate k CHR ''0'' @ s) = digits_val s"
  by (induction k) (simp_all add: digits_val_def)

lemma digits_zeros: "digits s \<Longrightarrow> digits (replicate k CHR ''0'' @ s)"
  using not_digits(4) by (auto simp: digits_def list_all_iff)

lemma dropWhile_none: "(\<forall>c \<in> set s. \<not> P c) \<Longrightarrow> dropWhile P s = s"
  by (cases s) auto

lemma int_of_digits:
  assumes "digits s"
  shows "int_of_str s = Inr (digits_val s)" "int_of_str (''-'' @ s) = Inr (- digits_val s)"
proof -
  have p: "\<not> is_space c \<and> is_digit c \<and> c \<noteq> CHR ''-'' \<and> c \<noteq> CHR ''+''" if "c \<in> set s" for c
    using assms that not_digits space_no_digit by (auto simp: digits_def list_all_iff)
  obtain c cs where s: "s = c # cs" using assms by (cases s) (auto simp: digits_def)
  have strip: "str_strip t = t" if "\<forall>c \<in> set t. \<not> is_space c" for t
    using that by (simp add: str_strip_def dropWhile_none)
  have all: "list_all is_digit s" using assms by (simp add: digits_def)
  have "str_strip s = s" using p strip by blast
  then show "int_of_str s = Inr (digits_val s)" using p [of c] all by (simp add: int_of_str_def s Let_def)
  have "str_strip (''-'' @ s) = ''-'' @ s" using p by (intro strip) (auto simp: is_space_def)
  then show "int_of_str (''-'' @ s) = Inr (- digits_val s)" using all by (simp add: int_of_str_def s Let_def)
qed

lemma int_of_int_str: "int_of_str (int_str i) = Inr i"
  using int_of_digits [OF digits_nat_str] by (simp add: int_str_def digits_val_nat_str)

lemma int_of_pad6: "0 \<le> n \<Longrightarrow> int_of_str (pad6 n) = Inr n"
  using int_of_digits(1) [OF digits_zeros [OF digits_nat_str]]
  by (simp add: pad6_def Let_def int_str_def digits_val_zeros digits_val_nat_str)

lemma split_dots_none: "CHR ''.'' \<notin> set s \<Longrightarrow> split_dots (s @ CHR ''.'' # t) = s # split_dots t"
  by (induction s) (auto split: list.split)

lemma split_dots_single: "CHR ''.'' \<notin> set s \<Longrightarrow> split_dots s = [s]"
  by (induction s) auto

lemma no_dot_digits: "digits s \<Longrightarrow> CHR ''.'' \<notin> set s"
  using not_digits(1) by (auto simp: digits_def list_all_iff)

lemma no_dot: "CHR ''.'' \<notin> set (int_str i)" "0 \<le> n \<Longrightarrow> CHR ''.'' \<notin> set (pad6 n)"
  using no_dot_digits [OF digits_nat_str] by (auto simp: int_str_def pad6_def Let_def)

text \<open>
  Slack's form of a time stamp round-trips: parsing what \<open>format_slack_ts\<close> prints gives the second and the number back, also for
  numbers of more than six digits.
\<close>

theorem slack_ts_roundtrip:
  assumes "0 \<le> n"
  shows "parse_slack_ts (format_slack_ts t n) = Inr (real_trunc t, n)"
  using split_dots_none [OF no_dot(1), of "real_trunc t" "pad6 n"] split_dots_single [OF no_dot(2) [OF assms]]
  by (simp add: parse_slack_ts_def format_slack_ts_def int_of_int_str int_of_pad6 [OF assms])

theorem slack_ts_roundtrip_witness:
  "parse_slack_ts (format_slack_ts 1700000000 42) = Inr (1700000000, 42)"
  using slack_ts_roundtrip [of 42 1700000000] by (simp add: real_trunc_def)

section \<open>Reading and posting past the access rules\<close>

text \<open>
  Pinning a message in a channel asks only whether the channel may be seen: whoever sees one channel reads any message that is
  not deleted, of any channel and workspace, by pinning it there and listing the pins.
\<close>

theorem pin_reveals_message:
  assumes "distinct (map mg_id (ct_messages db))" "guarded_channel u wid c db = Inr ()"
    and "find_message m db = Some x" "mg_deleted x = None" "mg_channel x \<noteq> c"
  shows "\<exists>db' ms. pin_message_endpoint now eid u wid c m db = Inr db' \<and> list_pins_endpoint u wid c db' = Inr ms \<and> x \<in> set ms"
proof -
  obtain d where d: "d = (if list_ex (\<lambda>(pc, pm, _). pc = c \<and> pm = m) (ct_pins db) then db else db\<lparr>ct_pins := ct_pins db @ [(c, m, u)]\<rparr>)"
    by simp
  have same: "ct_messages d = ct_messages db" "ct_users d = ct_users db" "acl_of d = acl_of db"
    by (simp_all add: d acl_of_def)
  have pins: "\<exists>v. (c, m, v) \<in> set (ct_pins d)" by (auto simp: d list_ex_iff)
  have x: "x \<in> set (ct_messages db)" "mg_id x = m" using assms(3) by (auto simp: find_message_def find_Some_iff)
  have "y = x" if "y \<in> set (ct_messages db)" "mg_id y = m" for y
    using assms(1) that x by (auto simp: distinct_map dest: inj_onD)
  then have "get_message c m d = Inl (not_found ''message'' m)"
    using assms(5) same(1) by (auto simp: get_message_def find_None_iff find_Some_iff split: option.split) (metis nth_mem)
  moreover have "dget (ct_channels db) c \<noteq> None" "dget (ct_users db) u \<noteq> None"
    using assms(2) by (auto simp: guarded_channel_def bind_res_def workspace_context_def can_user_see_channel_def acl_of_def
        get_channel_def split: option.splits if_splits sum.splits)
  ultimately have pin: "pin_message now eid c m u db = Inr d"
    unfolding pin_message_def d [symmetric] pin_event_def using assms(3) by simp
  have g: "guarded_channel u wid c d = Inr ()" using assms(2) same by (simp add: guarded_channel_def workspace_context_def)
  have "x \<in> set (list_pins c d)"
    using assms(3,4) pins same(1) by (force simp: list_pins_def map_filter_def find_message_def image_iff)
  with g pin assms(2) show ?thesis by (simp add: pin_message_endpoint_def list_pins_endpoint_def)
qed

definition demo_users :: "(uid, user_row) dict" where
  "demo_users = [(''ann'', \<lparr>ur_role = ''member'', ur_workspace = ''w1'', ur_deactivated = False\<rparr>),
     (''bob'', \<lparr>ur_role = ''member'', ur_workspace = ''w1'', ur_deactivated = False\<rparr>)]"

definition demo_channels :: "(cid, channel_row) dict" where
  "demo_channels = [(''pub'', \<lparr>ch_workspace = ''w1'', ch_kind = ''public'', ch_posting_policy = ''all'', ch_archived = False\<rparr>),
     (''priv'', \<lparr>ch_workspace = ''w1'', ch_kind = ''private'', ch_posting_policy = ''all'', ch_archived = False\<rparr>)]"

definition demo_message :: message where
  "demo_message = \<lparr>mg_id = ''m1'', mg_workspace = ''w1'', mg_channel = ''priv'', mg_author = ''bob'', mg_parent = None, mg_kind = ''text'',
     mg_text = Some ''secret'', mg_blocks = [], mg_created = 1, mg_edited = None, mg_deleted = None, mg_ts_seq = 1, mg_client = None\<rparr>"

definition demo_chat :: chat where
  "demo_chat = \<lparr>ct_users = demo_users, ct_channels = demo_channels,
     ct_members = [\<lparr>cm_channel = ''priv'', cm_user = ''bob'', cm_role = ''member''\<rparr>], ct_messages = [demo_message],
     ct_edits = [], ct_reactions = [], ct_pins = [], ct_scheduled = [], ct_outbox = [], ct_audit = [], ct_published = []\<rparr>"

definition empty_chat :: chat where
  "empty_chat = demo_chat\<lparr>ct_messages := []\<rparr>"

text \<open>Ann is not a member of the private channel, may not see the message and reads it.\<close>

theorem pin_reveals_message_witness:
  "\<not> can_user_see_message (acl_of demo_chat) ''ann'' ''m1''
   \<and> (\<exists>db' ms. pin_message_endpoint 2 ''e1'' ''ann'' ''w1'' ''pub'' ''m1'' demo_chat = Inr db'
        \<and> list_pins_endpoint ''ann'' ''w1'' ''pub'' db' = Inr ms \<and> demo_message \<in> set ms)"
proof
  show "\<not> can_user_see_message (acl_of demo_chat) ''ann'' ''m1''"
    by (simp add: can_user_see_message_def acl_of_def demo_chat_def demo_message_def can_user_see_channel_def get_user_role_def
        get_channel_def demo_users_def demo_channels_def user_is_channel_member_def)
  have "guarded_channel ''ann'' ''w1'' ''pub'' demo_chat = Inr ()"
    by (simp add: guarded_channel_def workspace_context_def acl_of_def demo_chat_def can_user_see_channel_def get_user_role_def
        get_channel_def demo_users_def demo_channels_def)
  then show "\<exists>db' ms. pin_message_endpoint 2 ''e1'' ''ann'' ''w1'' ''pub'' ''m1'' demo_chat = Inr db'
        \<and> list_pins_endpoint ''ann'' ''w1'' ''pub'' db' = Inr ms \<and> demo_message \<in> set ms"
    by (rule pin_reveals_message [rotated]) (simp_all add: demo_chat_def demo_message_def find_message_def)
qed

definition demo_request :: "string option \<Rightarrow> post_request" where
  "demo_request t = \<lparr>pr_workspace = ''w1'', pr_channel = ''pub'', pr_author = ''ann'', pr_text = t, pr_blocks = None, pr_parent = None,
     pr_client = Some ''k1''\<rparr>"

definition demo_ops :: "chat_op list" where
  "demo_ops = [OpPost 1 ''m1'' ''e1'' (demo_request (Some ''hi'')), OpBatch (\<lambda>_. True) [] 10]"

lemma empty_chat_no_messages: "no_messages empty_chat"
  by (simp add: no_messages_def empty_chat_def demo_chat_def)

theorem channel_sequence_witness:
  "channel_seqs ''pub'' (ct_messages (fold chat_step demo_ops empty_chat)) = [1]"
proof -
  have "length (channel_seqs ''pub'' (ct_messages (fold chat_step demo_ops empty_chat))) = 1"
    by (simp add: demo_ops_def empty_chat_def demo_chat_def demo_users_def demo_channels_def demo_request_def kept_snd_def
        post_message_def no_content_def insert_message_def enqueue_outbox_def dispatch_one_batch_def Let_def channel_seqs_def)
  with channel_sequence [OF empty_chat_no_messages, of "''pub''" demo_ops] show ?thesis by simp
qed

theorem outbox_keeps_events_witness:
  "\<exists>m \<in> set (ct_messages (fold chat_step demo_ops empty_chat)). \<exists>e. (e \<in> set (ct_outbox (fold chat_step demo_ops empty_chat))
     \<or> e \<in> set (ct_published (fold chat_step demo_ops empty_chat))) \<and> created_event m e"
proof -
  have "ct_messages (fold chat_step demo_ops empty_chat) \<noteq> []"
    by (simp add: demo_ops_def empty_chat_def demo_chat_def demo_users_def demo_channels_def demo_request_def kept_snd_def
        post_message_def no_content_def insert_message_def enqueue_outbox_def dispatch_one_batch_def Let_def)
  then obtain m where "m \<in> set (ct_messages (fold chat_step demo_ops empty_chat))" by (meson list.set_intros(1) neq_Nil_conv list.set_sel(1))
  with outbox_keeps_events [OF empty_chat_no_messages this] show ?thesis by blast
qed

lemma numbered_le:
  assumes "numbered xs" "x \<in> set xs"
  shows "x \<le> int (length xs)"
proof -
  have "x \<in> int ` set [1..<Suc (length xs)]" using assms by (metis list.set_map numbered_def)
  then show ?thesis by auto
qed

text \<open>
  Scheduling asks for no right to post: an active user of a workspace schedules a message for any channel, and the next
  run of the dispatcher after the due time posts it there, whether or not the user may post in the channel.
\<close>

theorem scheduled_message_posted:
  assumes "chat_inv db" "workspace_context db u wid = Inr ()" "dget (ct_channels db) c \<noteq> None" "now < due" "due \<le> later"
    and "filter pending (ct_scheduled db) = []" "\<forall>x \<in> set (ct_scheduled db). sc_id x \<noteq> sid"
    and "fst (ids 0) \<notin> mg_id ` set (ct_messages db)" "snd (ids 0) \<notin> ob_id ` set (ct_outbox db)"
  shows "\<exists>row db1 db2 m. schedule_message_endpoint now sid u wid c (Some (ch # cs)) None due db = Inr (row, db1)
     \<and> dispatch_due_messages later ids db1 = (Inr 1, db2)
     \<and> ct_messages db2 = ct_messages db @ [m] \<and> mg_channel m = c \<and> mg_author m = u \<and> mg_text m = Some (ch # cs)"
proof -
  let ?r = "\<lparr>pr_workspace = wid, pr_channel = c, pr_author = u, pr_text = Some (ch # cs), pr_blocks = None, pr_parent = None, pr_client = None\<rparr>"
  let ?row = "\<lparr>sc_id = sid, sc_workspace = wid, sc_channel = c, sc_author = u, sc_text = Some (ch # cs), sc_blocks = [], sc_for = due,
     sc_created = now, sc_sent = None, sc_cancelled = None\<rparr>"
  let ?db1 = "db\<lparr>ct_scheduled := ct_scheduled db @ [?row]\<rparr>"
  have u: "dget (ct_users db) u \<noteq> None" using assms(2) by (auto simp: workspace_context_def split: option.splits)
  have sch: "schedule_message_endpoint now sid u wid c (Some (ch # cs)) None due db = Inr (?row, ?db1)"
    using assms(2,3,4,7) u by (auto simp: schedule_message_endpoint_def schedule_message_def the_blocks_def Let_def list_ex_iff)
  have due: "due_rows later ?db1 = [?row]"
  proof -
    have "filter (\<lambda>r. sc_for r \<le> later \<and> pending r) (ct_scheduled db) = []"
      using assms(6) by (auto simp: filter_empty_conv)
    then show ?thesis using assms(5) by (simp add: due_rows_def pending_def)
  qed
  let ?n = "next_ts_seq c db"
  let ?m = "\<lparr>mg_id = fst (ids 0), mg_workspace = wid, mg_channel = c, mg_author = u, mg_parent = None, mg_kind = ''text'',
     mg_text = Some (ch # cs), mg_blocks = [], mg_created = later, mg_edited = None, mg_deleted = None, mg_ts_seq = ?n, mg_client = None\<rparr>"
  have fresh: "mg_ts_seq x \<noteq> ?n" if "x \<in> set (ct_messages db)" "mg_channel x = c" for x
  proof -
    have "mg_ts_seq x \<in> set (channel_seqs c (ct_messages db))" using that by (auto simp: channel_seqs_def)
    moreover have nb: "numbered (channel_seqs c (ct_messages db))" using assms(1) by (simp add: chat_inv_def)
    ultimately show ?thesis using next_is_next [OF nb] numbered_le [OF nb] by fastforce
  qed
  have ins: "insert_message ?m ?db1 = Inr (?db1\<lparr>ct_messages := ct_messages db @ [?m]\<rparr>)"
    using assms(3,8) u fresh by (auto simp: insert_message_def list_ex_iff image_iff)
  have nx: "next_ts_seq c ?db1 = ?n" by (simp add: next_ts_seq_def)
  have fo: "\<forall>e \<in> set (ct_outbox db). ob_id e \<noteq> snd (ids 0)" using assms(9) by force
  obtain db3 where post: "post_message later (fst (ids 0)) (snd (ids 0)) (request_of ?row) ?db1 = Inr (?m, db3)"
    "ct_messages db3 = ct_messages db @ [?m]"
    using ins nx fo
    by (simp add: post_message_def request_of_def no_content_def the_blocks_def Let_def enqueue_outbox_def list_ex_iff)
  have "dispatch_due_messages later ids ?db1 = (Inr 1, update_scheduled sid (\<lambda>x. x\<lparr>sc_sent := Some (mg_id ?m)\<rparr>) db3)"
    using post(1) due by (simp add: dispatch_due_messages_def run_defs)
  moreover have "ct_messages (update_scheduled sid (\<lambda>x. x\<lparr>sc_sent := Some (mg_id ?m)\<rparr>) db3) = ct_messages db @ [?m]"
    using post(2) by (simp add: update_scheduled_def)
  ultimately show ?thesis using sch by fastforce
qed

text \<open>A scheduled message without text and blocks is accepted, and once it is the first that is due nothing is ever posted again.\<close>

lemma empty_schedule_blocks:
  assumes "due_rows now db = r # rs" "no_content (sc_text r) (Some (sc_blocks r))"
  shows "dispatch_due_messages now ids db = (Inl validation_failed, db)"
  using assms by (simp add: dispatch_due_messages_def run_defs post_message_def request_of_def)

theorem scheduled_message_posted_witness:
  "\<not> can_user_post_message (acl_of empty_chat) ''ann'' ''priv''
   \<and> (\<exists>row db1 db2 m. schedule_message_endpoint 1 ''s1'' ''ann'' ''w1'' ''priv'' (Some ''hi'') None 2 empty_chat = Inr (row, db1)
       \<and> dispatch_due_messages 3 (\<lambda>_. (''m2'', ''e2'')) db1 = (Inr 1, db2)
       \<and> ct_messages db2 = ct_messages empty_chat @ [m] \<and> mg_channel m = ''priv'' \<and> mg_author m = ''ann'' \<and> mg_text m = Some ''hi'')"
proof
  show "\<not> can_user_post_message (acl_of empty_chat) ''ann'' ''priv''"
    by (simp add: can_user_post_message_def acl_of_def empty_chat_def demo_chat_def can_user_see_channel_def get_user_role_def
        get_channel_def demo_users_def demo_channels_def user_is_channel_member_def)
  show "\<exists>row db1 db2 m. schedule_message_endpoint 1 ''s1'' ''ann'' ''w1'' ''priv'' (Some ''hi'') None 2 empty_chat = Inr (row, db1)
       \<and> dispatch_due_messages 3 (\<lambda>_. (''m2'', ''e2'')) db1 = (Inr 1, db2)
       \<and> ct_messages db2 = ct_messages empty_chat @ [m] \<and> mg_channel m = ''priv'' \<and> mg_author m = ''ann'' \<and> mg_text m = Some ''hi''"
    by (rule scheduled_message_posted)
      (simp_all add: no_messages_inv empty_chat_no_messages workspace_context_def, simp_all add: empty_chat_def demo_chat_def demo_users_def demo_channels_def)
qed

section \<open>Retries\<close>

lemma prefixes_differ: "idem_key k \<noteq> dedup_key u c i" "dedup_key u c i \<noteq> idem_key k"
  by (simp_all add: idem_key_def dedup_key_def)

lemma redis_get_set: "redis_get t k (redis_set now k' v ttl r) = (if k = k' then if t < now + ttl then Some v else None else redis_get t k r)"
  by (simp add: redis_get_def redis_set_def)

lemma begin_db: "begin_post now c s = (r, s') \<Longrightarrow> sv_db s' = sv_db s"
  unfolding begin_post_def
  by (auto simp: run_defs Let_def split: sum.splits if_splits option.splits lock_result.splits prod.splits)

lemma begin_allowed:
  assumes "begin_post now c s = (Inr a, s')"
  shows "workspace_context (sv_db s) (ec_user c) (pr_workspace (ec_request c)) = Inr ()
    \<and> can_user_post_message (acl_of (sv_db s)) (ec_user c) (pr_channel (ec_request c))"
  using assms unfolding begin_post_def by (auto simp: run_defs Let_def split: sum.splits if_splits)

lemma begin_again:
  assumes "workspace_context (sv_db s) (ec_user c) (pr_workspace (ec_request c)) = Inr ()"
    and "can_user_post_message (acl_of (sv_db s)) (ec_user c) (pr_channel (ec_request c))"
    and "pr_client (ec_request c) = Some i"
    and "\<forall>k. ec_key c = Some k \<longrightarrow> redis_get t (idem_key k) (sv_redis s) \<in> {None, Some (Completed m (ec_hash c))}"
    and "redis_get t (dedup_key (ec_user c) (pr_channel (ec_request c)) i) (sv_redis s) \<in> {None, Some (SentMessage (mg_id m))}"
    and "get_message (pr_channel (ec_request c)) (mg_id m) (sv_db s) = Inr m"
  shows "\<exists>a s'. begin_post t c s = (Inr a, s') \<and> a \<in> {None, Some m} \<and> sv_db s' = sv_db s"
proof (cases "ec_key c")
  case None
  with assms show ?thesis unfolding begin_post_def by (auto simp: run_defs Let_def dedup_lookup_def)
next
  case (Some k)
  have "redis_get t (dedup_key u ch i) (redis_set t (idem_key k) v ttl r) = redis_get t (dedup_key u ch i) r" for u ch v ttl r
    by (simp add: redis_get_set prefixes_differ)
  with assms Some show ?thesis unfolding begin_post_def
    by (auto simp: run_defs Let_def dedup_lookup_def get_or_lock_def)
qed

lemma finish_again:
  assumes "m \<in> set (ct_messages (sv_db s))" "mg_workspace m = pr_workspace (ec_request c)" "mg_client m = Some i"
    and "pr_client (ec_request c) = Some i" "\<not> no_content (pr_text (ec_request c)) (pr_blocks (ec_request c))"
    and "\<forall>x \<in> set (ct_messages (sv_db s)). mg_workspace x = mg_workspace m \<and> mg_client x = Some i \<longrightarrow> x = m"
    and "dget (ct_channels (sv_db s)) (pr_channel (ec_request c)) \<noteq> None" "dget (ct_users (sv_db s)) (pr_author (ec_request c)) \<noteq> None"
    and "\<forall>p. pr_parent (ec_request c) = Some p \<longrightarrow> find_message p (sv_db s) \<noteq> None"
  shows "\<exists>s'. finish_post t mid eid c s = (Inr m, s') \<and> sv_db s' = sv_db s"
proof -
  have "insert_message x (sv_db s) = Inl unique_violation"
    if "mg_channel x = pr_channel (ec_request c)" "mg_author x = pr_author (ec_request c)" "mg_parent x = pr_parent (ec_request c)"
      "mg_workspace x = pr_workspace (ec_request c)" "mg_client x = Some i" for x
    using assms(1-3,7-9) that by (auto simp: insert_message_def list_ex_iff)
  then have p: "post_message t mid eid (ec_request c) (sv_db s) = Inl unique_violation"
    using assms(4,5) by (simp add: post_message_def Let_def)
  have "get_message_by_client_msg_id (pr_workspace (ec_request c)) i (sv_db s) = Some m"
  proof (cases "get_message_by_client_msg_id (pr_workspace (ec_request c)) i (sv_db s)")
    case None
    with assms(1-3) show ?thesis by (auto simp: get_message_by_client_msg_id_def find_None_iff)
  next
    case (Some x)
    then have "x \<in> set (ct_messages (sv_db s))" "mg_workspace x = pr_workspace (ec_request c)" "mg_client x = Some i"
      by (auto simp: get_message_by_client_msg_id_def find_Some_iff)
    with assms(2,6) Some show ?thesis by auto
  qed
  with p assms(4) show ?thesis by (simp add: finish_post_def run_defs)
qed

lemma posted_row:
  assumes "post_message now mid eid r db = Inr (m, db')"
  shows "ct_messages db' = ct_messages db @ [m]" "ct_users db' = ct_users db" "ct_channels db' = ct_channels db"
    "ct_members db' = ct_members db" "mg_id m = mid" "mg_channel m = pr_channel r" "mg_workspace m = pr_workspace r"
    "mg_client m = pr_client r" "\<not> no_content (pr_text r) (pr_blocks r)"
    "dget (ct_channels db) (pr_channel r) \<noteq> None" "dget (ct_users db) (pr_author r) \<noteq> None"
    "\<forall>p. pr_parent r = Some p \<longrightarrow> find_message p db \<noteq> None"
    "\<forall>x \<in> set (ct_messages db). mg_id x \<noteq> mid"
    "\<forall>x \<in> set (ct_messages db). \<forall>i. mg_workspace x = pr_workspace r \<and> mg_client x = Some i \<longrightarrow> pr_client r \<noteq> Some i"
  using assms
  by (auto simp: post_message_def Let_def insert_message_def enqueue_outbox_def bind_res_eq_Inr list_ex_iff split: if_splits)

lemma acl_same:
  assumes "ct_users db' = ct_users db" "ct_channels db' = ct_channels db" "ct_members db' = ct_members db"
  shows "workspace_context db' u w = workspace_context db u w"
    "can_user_post_message (acl_of db') u ch = can_user_post_message (acl_of db) u ch"
proof -
  have r: "get_user_role (acl_of db') u = get_user_role (acl_of db) u" "get_channel (acl_of db') ch = get_channel (acl_of db) ch"
    "user_is_channel_member (acl_of db') u ch adm = user_is_channel_member (acl_of db) u ch adm" for adm
    by (simp_all add: get_user_role_def get_channel_def user_is_channel_member_def acl_of_def assms)
  have see: "can_user_see_channel (acl_of db') u ch = can_user_see_channel (acl_of db) u ch"
    unfolding can_user_see_channel_def r by (rule refl)
  show "can_user_post_message (acl_of db') u ch = can_user_post_message (acl_of db) u ch"
    unfolding can_user_post_message_def r see by (rule refl)
  show "workspace_context db' u w = workspace_context db u w" by (simp add: workspace_context_def assms)
qed

lemma remembered:
  assumes "pr_client (ec_request c) = Some i"
  shows "redis_get t (dedup_key (ec_user c) (pr_channel (ec_request c)) i) (remember_answer now c m r) \<in> {None, Some (SentMessage (mg_id m))}"
    and "\<forall>k. ec_key c = Some k \<longrightarrow> redis_get t (idem_key k) (remember_answer now c m r) \<in> {None, Some (Completed m (ec_hash c))}"
  using assms
  by (auto simp: remember_answer_def Let_def dedup_remember_def put_response_def redis_get_set prefixes_differ split: option.split)

lemma endpoint_insert:
  assumes "post_message_endpoint now mid eid c s = (Inr m, s1)" "sv_db s1 \<noteq> sv_db s"
  shows "\<exists>s0. begin_post now c s = (Inr None, s0) \<and> post_message now mid eid (ec_request c) (sv_db s) = Inr (m, sv_db s1)
    \<and> sv_redis s1 = remember_answer now c m (sv_redis s0)"
proof -
  obtain a s0 where b: "begin_post now c s = (a, s0)" by fastforce
  note db = begin_db [OF b]
  show ?thesis
  proof (cases a)
    case (Inl e)
    with b assms(1) show ?thesis by (simp add: post_message_endpoint_def bind_s_def)
  next
    case (Inr o1)
    with b assms db have o1: "o1 = None" and f: "finish_post now mid eid c s0 = (Inr m, s1)"
      by (auto simp: post_message_endpoint_def bind_s_def ret_def split: option.splits)
    with b Inr assms(2) db show ?thesis
      unfolding finish_post_def
      by (auto simp: run_defs split: sum.splits prod.splits option.splits bool.splits)
  qed
qed

text \<open>
  A retry is safe: when a request with a client message id has inserted a message, the same request, at whatever later time and
  whether or not Redis still remembers it, is answered with the same message and changes no table.
\<close>

theorem retry_returns_same:
  assumes "post_message_endpoint now mid eid c s = (Inr m, s1)" "sv_db s1 \<noteq> sv_db s" "pr_client (ec_request c) = Some i"
  shows "\<exists>s2. post_message_endpoint t mid2 eid2 c s1 = (Inr m, s2) \<and> sv_db s2 = sv_db s1"
proof -
  obtain s0 where b: "begin_post now c s = (Inr None, s0)" and p: "post_message now mid eid (ec_request c) (sv_db s) = Inr (m, sv_db s1)"
    and r: "sv_redis s1 = remember_answer now c m (sv_redis s0)" using endpoint_insert [OF assms(1,2)] by blast
  note row = posted_row [OF p]
  have get: "get_message (pr_channel (ec_request c)) (mg_id m) (sv_db s1) = Inr m"
    using row(1,5,6,13) by (auto simp: get_message_def find_append_new)
  from begin_allowed [OF b] have "workspace_context (sv_db s1) (ec_user c) (pr_workspace (ec_request c)) = Inr ()"
    "can_user_post_message (acl_of (sv_db s1)) (ec_user c) (pr_channel (ec_request c))"
    using acl_same [OF row(2-4)] by simp_all
  from begin_again [OF this assms(3) _ _ get, of t] remembered [OF assms(3), of t now m "sv_redis s0"]
  obtain a s' where s': "begin_post t c s1 = (Inr a, s')" "a \<in> {None, Some m}" "sv_db s' = sv_db s1"
    unfolding r by blast
  show ?thesis
  proof (cases a)
    case None
    have "\<exists>s2. finish_post t mid2 eid2 c s' = (Inr m, s2) \<and> sv_db s2 = sv_db s'"
    proof (rule finish_again [OF _ _ _ assms(3)])
      show "\<forall>p. pr_parent (ec_request c) = Some p \<longrightarrow> find_message p (sv_db s') \<noteq> None"
        using row(1,12) s'(3) by (auto simp: find_message_def find_None_iff)
      show "\<forall>x\<in>set (ct_messages (sv_db s')). mg_workspace x = mg_workspace m \<and> mg_client x = Some i \<longrightarrow> x = m"
        using row(1,7,14) s'(3) assms(3) by auto
    qed (use row s'(3) assms(3) in auto)
    with s' None show ?thesis by (auto simp: post_message_endpoint_def bind_s_def)
  next
    case (Some x)
    with s' show ?thesis by (auto simp: post_message_endpoint_def bind_s_def ret_def)
  qed
qed

definition demo_call :: endpoint_call where
  "demo_call = \<lparr>ec_user = ''ann'', ec_request = demo_request (Some ''hi''), ec_key = Some ''q'', ec_hash = ''h''\<rparr>"

definition demo_server :: server where
  "demo_server = \<lparr>sv_db = empty_chat, sv_redis = []\<rparr>"

lemma demo_may_post: "can_user_post_message (acl_of empty_chat) ''ann'' ''pub''"
  by (simp add: can_user_post_message_def acl_of_def empty_chat_def demo_chat_def can_user_see_channel_def get_user_role_def
      get_channel_def demo_users_def demo_channels_def)

lemma demo_posts: "\<exists>m s1. post_message_endpoint 1 ''m1'' ''e1'' demo_call demo_server = (Inr m, s1) \<and> sv_db s1 \<noteq> sv_db demo_server"
proof -
  have w: "workspace_context empty_chat ''ann'' ''w1'' = Inr ()"
    by (simp add: workspace_context_def empty_chat_def demo_chat_def demo_users_def)
  obtain rd where b: "begin_post 1 demo_call demo_server = (Inr None, \<lparr>sv_db = empty_chat, sv_redis = rd\<rparr>)"
    unfolding begin_post_def
    by (simp add: run_defs Let_def demo_call_def demo_server_def demo_request_def w demo_may_post get_or_lock_def redis_get_def
        dedup_lookup_def redis_set_def idem_key_def dedup_key_def)
  obtain m db where p: "post_message 1 ''m1'' ''e1'' (demo_request (Some ''hi'')) empty_chat = Inr (m, db)" "ct_messages db \<noteq> []"
    by (auto simp: post_message_def demo_request_def empty_chat_def demo_chat_def demo_users_def demo_channels_def no_content_def
        insert_message_def enqueue_outbox_def Let_def)
  have "ct_messages empty_chat = []" by (simp add: empty_chat_def)
  with p have "db \<noteq> empty_chat" by metis
  with b p show ?thesis
    by (simp add: post_message_endpoint_def finish_post_def run_defs demo_call_def demo_server_def)
qed

theorem retry_returns_same_witness:
  "\<exists>m s1 s2. post_message_endpoint 1 ''m1'' ''e1'' demo_call demo_server = (Inr m, s1)
     \<and> post_message_endpoint 100000 ''m2'' ''e2'' demo_call s1 = (Inr m, s2) \<and> sv_db s2 = sv_db s1"
proof -
  obtain m s1 where 1: "post_message_endpoint 1 ''m1'' ''e1'' demo_call demo_server = (Inr m, s1)" "sv_db s1 \<noteq> sv_db demo_server"
    using demo_posts by blast
  moreover have "pr_client (ec_request demo_call) = Some ''k1''" by (simp add: demo_call_def demo_request_def)
  ultimately show ?thesis using retry_returns_same [OF 1] by blast
qed

text \<open>Without a client message id the idempotency key does not stop a second request while the first is running.\<close>

lemma busy_request_goes_on:
  assumes "workspace_context (sv_db s) (ec_user c) (pr_workspace (ec_request c)) = Inr ()"
    and "can_user_post_message (acl_of (sv_db s)) (ec_user c) (pr_channel (ec_request c))"
    and "pr_client (ec_request c) = None" "ec_key c = Some k" "redis_get now (idem_key k) (sv_redis s) = None"
  shows "\<exists>s1 s2. begin_post now c s = (Inr None, s1) \<and> begin_post now c s1 = (Inr None, s2)
     \<and> redis_get now (idem_key k) (sv_redis s1) = Some (InProgress (ec_hash c))"
  using assms unfolding begin_post_def
  by (simp add: run_defs Let_def get_or_lock_def redis_get_set)

end
