(* ===== verification/Messenger_Auth.thy ===== *)
theory Messenger_Auth
  imports Prelude
begin

text \<open>
  Signing in to the messenger: \<open>messenger/auth\<close> (tokens, sessions with rotating refresh tokens, one-time codes, invites), the endpoints
  of \<open>api/v1/auth.py\<close>, the caller's lookup of \<open>api/v1/deps.py\<close>, and \<open>messenger/dm_pairing.py\<close>, which guards direct
  messages on other platforms. Encryption and hashes are arguments; random values and the clock come with each call, in seconds.
  The columns of type \<open>citext\<close> compare without case.
\<close>

section \<open>Tokens\<close>

text \<open>The payload of a token, by its kind.\<close>

datatype claims =
    AccessToken string string string real
  | RefreshToken string real
  | OtherToken string

record auth_env =
  ae_mint :: "claims \<Rightarrow> string \<Rightarrow> string"
  ae_open :: "string \<Rightarrow> exn + claims"
  ae_sha :: "string \<Rightarrow> string"
  ae_hmac :: "string \<Rightarrow> string"

definition paseto_error :: "string \<Rightarrow> exn" where
  "paseto_error m = OtherError ''PasetoError'' m"

definition encode_access_token :: "auth_env \<Rightarrow> string \<Rightarrow> real \<Rightarrow> string \<Rightarrow> string \<Rightarrow> string \<Rightarrow> real \<Rightarrow> string" where
  "encode_access_token env nonce now wid u role ttl_min = ae_mint env (AccessToken wid u role (now + 60 * ttl_min)) nonce"

definition encode_refresh_token :: "auth_env \<Rightarrow> string \<Rightarrow> real \<Rightarrow> string \<Rightarrow> real \<Rightarrow> string" where
  "encode_refresh_token env nonce now sid ttl_days = ae_mint env (RefreshToken sid (now + 86400 * ttl_days)) nonce"

definition open_token :: "auth_env \<Rightarrow> string \<Rightarrow> exn + claims" where
  "open_token env t = (case ae_open env t of Inl x \<Rightarrow> Inl (paseto_error (''decode failed: '' @ exn_str x)) | Inr c \<Rightarrow> Inr c)"

definition decode_access_token :: "auth_env \<Rightarrow> real \<Rightarrow> string \<Rightarrow> exn + string \<times> string \<times> string" where
  "decode_access_token env now t =
     bind_res (open_token env t) (\<lambda>c.
       case c of
         AccessToken wid u role e \<Rightarrow> if e < now then Inl (paseto_error ''token expired'') else Inr (wid, u, role)
       | _ \<Rightarrow> Inl (paseto_error ''not an access token''))"

definition decode_refresh_token :: "auth_env \<Rightarrow> real \<Rightarrow> string \<Rightarrow> exn + string" where
  "decode_refresh_token env now t =
     bind_res (open_token env t) (\<lambda>c.
       case c of
         RefreshToken sid e \<Rightarrow> if e < now then Inl (paseto_error ''token expired'') else Inr sid
       | _ \<Rightarrow> Inl (paseto_error ''not a refresh token''))"

section \<open>Tables\<close>

record auth_user =
  us_email :: string
  us_workspace :: string
  us_role :: string
  us_deactivated :: bool

record session_row =
  ss_user :: string
  ss_workspace :: string
  ss_hash :: string
  ss_expires :: real
  ss_revoked :: bool

record otp_row =
  ot_hash :: string
  ot_expires :: real
  ot_used :: bool
  ot_attempts :: nat

record invite_row =
  in_id :: string
  in_workspace :: string
  in_email :: string
  in_role :: string
  in_hash :: string
  in_channels :: "string list option"
  in_expires :: real
  in_accepted :: bool
  in_revoked :: bool

text \<open>\<open>au_issued\<close> and \<open>au_accepted\<close> are ghost fields: the hashes of the refresh tokens that were issued, and of those a refresh took.\<close>

record auth_db =
  au_workspaces :: "(string, string) dict"
  au_users :: "(string, auth_user) dict"
  au_sessions :: "(string, session_row) dict"
  au_otps :: "(string \<times> string, otp_row) dict"
  au_invites :: "invite_row list"
  au_channels :: "string list"
  au_members :: "(string \<times> string) list"
  au_issued :: "string list"
  au_accepted :: "string list"

definition key_taken :: exn where
  "key_taken = OtherError ''UniqueViolationError'' ''duplicate key''"

section \<open>Sessions\<close>

definition refresh_invalid :: "string \<Rightarrow> exn" where
  "refresh_invalid m = OtherError ''RefreshTokenInvalid'' m"

definition session_revoked :: exn where
  "session_revoked = OtherError ''SessionRevoked'' []"

definition user_role :: "string \<Rightarrow> auth_db \<Rightarrow> exn + string" where
  "user_role u db = (case dget (au_users db) u of None \<Rightarrow> Inl (refresh_invalid ''user not found'') | Some r \<Rightarrow> Inr (us_role r))"

record session_tokens =
  st_session :: string
  st_access :: string
  st_refresh :: string

text \<open>The nonces of a call: for the refresh token and for the access token.\<close>

record auth_call =
  ac_now :: real
  ac_id :: string
  ac_nonce1 :: string
  ac_nonce2 :: string
  ac_access_ttl :: real
  ac_refresh_ttl :: real

definition hash_in_use :: "string \<Rightarrow> string \<Rightarrow> auth_db \<Rightarrow> bool" where
  "hash_in_use sid h db = list_ex (\<lambda>(i, r). i \<noteq> sid \<and> ss_hash r = h) (au_sessions db)"

definition create_session :: "auth_env \<Rightarrow> auth_call \<Rightarrow> string \<Rightarrow> string \<Rightarrow> auth_db \<Rightarrow> exn + session_tokens \<times> auth_db" where
  "create_session env c u wid db =
     (let sid = ac_id c; refresh = encode_refresh_token env (ac_nonce1 c) (ac_now c) sid (ac_refresh_ttl c);
          h = ae_sha env refresh
      in bind_res (user_role u db) (\<lambda>role.
           if dget (au_sessions db) sid \<noteq> None \<or> hash_in_use sid h db then Inl key_taken
           else Inr (\<lparr>st_session = sid, st_access = encode_access_token env (ac_nonce2 c) (ac_now c) wid u role (ac_access_ttl c),
                 st_refresh = refresh\<rparr>,
               db\<lparr>au_sessions := dset sid \<lparr>ss_user = u, ss_workspace = wid, ss_hash = h,
                    ss_expires = ac_now c + 86400 * ac_refresh_ttl c, ss_revoked = False\<rparr> (au_sessions db),
                  au_issued := au_issued db @ [h]\<rparr>)))"

definition refresh_session :: "auth_env \<Rightarrow> auth_call \<Rightarrow> string \<Rightarrow> auth_db \<Rightarrow> exn + session_tokens \<times> auth_db" where
  "refresh_session env c t db =
     (case decode_refresh_token env (ac_now c) t of
        Inl x \<Rightarrow> Inl (refresh_invalid (exn_str x))
      | Inr sid \<Rightarrow>
          (case dget (au_sessions db) sid of
             None \<Rightarrow> Inl (refresh_invalid ''session not found'')
           | Some row \<Rightarrow>
               if ss_revoked row then Inl session_revoked
               else if ss_hash row \<noteq> ae_sha env t then Inl (refresh_invalid ''token mismatch (rotated already?)'')
               else
                 let refresh = encode_refresh_token env (ac_nonce1 c) (ac_now c) sid (ac_refresh_ttl c); h = ae_sha env refresh
                 in bind_res (user_role (ss_user row) db) (\<lambda>role.
                    if hash_in_use sid h db then Inl key_taken
                    else Inr (\<lparr>st_session = sid,
                          st_access = encode_access_token env (ac_nonce2 c) (ac_now c) (ss_workspace row) (ss_user row) role (ac_access_ttl c),
                          st_refresh = refresh\<rparr>,
                        db\<lparr>au_sessions := dset sid (row\<lparr>ss_hash := h, ss_expires := ac_now c + 86400 * ac_refresh_ttl c\<rparr>) (au_sessions db),
                           au_issued := au_issued db @ [h], au_accepted := au_accepted db @ [ae_sha env t]\<rparr>))))"

definition revoke_session :: "string \<Rightarrow> auth_db \<Rightarrow> auth_db" where
  "revoke_session sid db =
     (case dget (au_sessions db) sid of
        None \<Rightarrow> db
      | Some row \<Rightarrow> db\<lparr>au_sessions := dset sid (row\<lparr>ss_revoked := True\<rparr>) (au_sessions db)\<rparr>)"

section \<open>One-time codes\<close>

definition otp_invalid :: "string \<Rightarrow> exn" where
  "otp_invalid m = OtherError ''OtpInvalid'' m"

definition otp_expired :: exn where
  "otp_expired = OtherError ''OtpExpired'' ''expired''"

definition hash_code :: "auth_env \<Rightarrow> string \<Rightarrow> string \<Rightarrow> string" where
  "hash_code env code email = ae_hmac env (email @ [CHR 0x00] @ code)"

definition otp_key :: "string \<Rightarrow> string \<Rightarrow> string \<times> string" where
  "otp_key email slug = (str_lower email, slug)"

definition request_otp :: "auth_env \<Rightarrow> real \<Rightarrow> string \<Rightarrow> string \<Rightarrow> string \<Rightarrow> real \<Rightarrow> auth_db \<Rightarrow> auth_db" where
  "request_otp env now code email slug ttl_min db =
     db\<lparr>au_otps := dset (otp_key email slug)
       \<lparr>ot_hash = hash_code env code email, ot_expires = now + 60 * ttl_min, ot_used = False, ot_attempts = 0\<rparr> (au_otps db)\<rparr>"

definition code_mismatch :: exn where
  "code_mismatch = otp_invalid ''code mismatch''"

definition set_otp :: "string \<times> string \<Rightarrow> otp_row \<Rightarrow> auth_db \<Rightarrow> auth_db" where
  "set_otp k row db = db\<lparr>au_otps := dset k row (au_otps db)\<rparr>"

definition verify_otp :: "auth_env \<Rightarrow> real \<Rightarrow> string \<Rightarrow> string \<Rightarrow> string \<Rightarrow> nat \<Rightarrow> auth_db \<Rightarrow> (exn + unit) \<times> auth_db" where
  "verify_otp env now email slug code max_attempts db =
     (case dget (au_otps db) (otp_key email slug) of
        None \<Rightarrow> (Inl (otp_invalid ''no otp issued''), db)
      | Some row \<Rightarrow>
          if ot_used row then (Inl (otp_invalid ''already used''), db)
          else if max_attempts \<le> ot_attempts row then (Inl (otp_invalid ''max attempts exceeded''), db)
          else if ot_expires row < now then (Inl otp_expired, db)
          else if hash_code env code email \<noteq> ot_hash row then
            (Inl code_mismatch, set_otp (otp_key email slug) (row\<lparr>ot_attempts := ot_attempts row + 1\<rparr>) db)
          else (Inr (), set_otp (otp_key email slug) (row\<lparr>ot_used := True\<rparr>) db))"

section \<open>Invites\<close>

definition invite_invalid :: "string \<Rightarrow> exn" where
  "invite_invalid m = OtherError ''InviteInvalid'' m"

definition create_invite ::
  "auth_env \<Rightarrow> real \<Rightarrow> string \<Rightarrow> string \<Rightarrow> string \<Rightarrow> string \<Rightarrow> string \<Rightarrow> real \<Rightarrow> string list option \<Rightarrow> auth_db \<Rightarrow> exn + auth_db"
where
  "create_invite env now iid token wid email role ttl_days channels db =
     (let h = ae_sha env token
      in if list_ex (\<lambda>i. in_id i = iid \<or> in_hash i = h) (au_invites db) then Inl key_taken
         else Inr (db\<lparr>au_invites := au_invites db @
           [\<lparr>in_id = iid, in_workspace = wid, in_email = email, in_role = role, in_hash = h, in_channels = channels,
             in_expires = now + 86400 * ttl_days, in_accepted = False, in_revoked = False\<rparr>]\<rparr>))"

definition update_invite :: "string \<Rightarrow> (invite_row \<Rightarrow> invite_row) \<Rightarrow> auth_db \<Rightarrow> auth_db" where
  "update_invite iid f db = db\<lparr>au_invites := map (\<lambda>i. if in_id i = iid then f i else i) (au_invites db)\<rparr>"

text \<open>The email of a user is unique in a workspace.\<close>

definition insert_user :: "string \<Rightarrow> auth_user \<Rightarrow> (auth_db, unit) prog" where
  "insert_user uid1 row =
     bind_s get_s (\<lambda>db.
       if dget (au_users db) uid1 \<noteq> None
          \<or> list_ex (\<lambda>(_, r). us_workspace r = us_workspace row \<and> str_lower (us_email r) = str_lower (us_email row)) (au_users db)
       then raise_s key_taken
       else modify_s (\<lambda>db. db\<lparr>au_users := dset uid1 row (au_users db)\<rparr>))"

definition join_channel :: "string \<Rightarrow> string \<Rightarrow> (auth_db, unit) prog" where
  "join_channel uid1 cid1 =
     bind_s get_s (\<lambda>db.
       if cid1 \<notin> set (au_channels db) then raise_s (OtherError ''ForeignKeyViolationError'' ''no such channel'')
       else modify_s (\<lambda>db. db\<lparr>au_members := (if (cid1, uid1) \<in> set (au_members db) then au_members db
              else au_members db @ [(cid1, uid1)])\<rparr>))"

text \<open>Each statement commits on its own: what was done before an exception stays.\<close>

definition accept_invite :: "auth_env \<Rightarrow> real \<Rightarrow> string \<Rightarrow> string \<Rightarrow> (auth_db, string) prog" where
  "accept_invite env now uid1 token =
     bind_s get_s (\<lambda>db.
       case find (\<lambda>i. in_hash i = ae_sha env token) (au_invites db) of
         None \<Rightarrow> raise_s (invite_invalid ''token not found'')
       | Some i \<Rightarrow>
           if in_revoked i then raise_s (invite_invalid ''revoked'')
           else if in_accepted i then raise_s (invite_invalid ''already accepted'')
           else if in_expires i < now then raise_s (OtherError ''InviteExpired'' ''expired'')
           else then_s (insert_user uid1 \<lparr>us_email = in_email i, us_workspace = in_workspace i, us_role = in_role i, us_deactivated = False\<rparr>)
             (then_s (modify_s (update_invite (in_id i) (\<lambda>i. i\<lparr>in_accepted := True\<rparr>)))
             (then_s (for_s (case in_channels i of None \<Rightarrow> [] | Some cs \<Rightarrow> cs) (join_channel uid1))
             (ret uid1))))"

definition revoke_invite :: "string \<Rightarrow> auth_db \<Rightarrow> auth_db" where
  "revoke_invite iid db = update_invite iid (\<lambda>i. i\<lparr>in_revoked := True\<rparr>) db"

section \<open>Endpoints\<close>

definition unauthorized :: "string \<Rightarrow> exn" where
  "unauthorized m = OtherError ''Unauthorized'' m"

definition find_user :: "string \<Rightarrow> string \<Rightarrow> auth_db \<Rightarrow> (string \<times> auth_user) option" where
  "find_user email slug db =
     (case dget (au_workspaces db) slug of
        None \<Rightarrow> None
      | Some wid \<Rightarrow> find (\<lambda>(_, r). str_lower (us_email r) = str_lower email \<and> us_workspace r = wid \<and> \<not> us_deactivated r) (au_users db))"

definition get_current_user :: "auth_env \<Rightarrow> real \<Rightarrow> string option \<Rightarrow> auth_db \<Rightarrow> exn + string \<times> auth_user" where
  "get_current_user env now authorization db =
     (case authorization of
        None \<Rightarrow> Inl (unauthorized ''missing bearer token'')
      | Some a \<Rightarrow>
          if \<not> startswith a ''Bearer '' then Inl (unauthorized ''missing bearer token'')
          else (case decode_access_token env now (drop 7 a) of
             Inl x \<Rightarrow> Inl (unauthorized (exn_str x))
           | Inr (wid, u, role) \<Rightarrow>
               (case dget (au_users db) u of
                  None \<Rightarrow> Inl (unauthorized ''user not found'')
                | Some r \<Rightarrow> if us_deactivated r then Inl (unauthorized ''user deactivated'') else Inr (u, r))))"

definition slug_char :: "char \<Rightarrow> bool" where
  "slug_char c = (let n = (of_char c :: nat) in (97 \<le> n \<and> n \<le> 122) \<or> (48 \<le> n \<and> n \<le> 57))"

text \<open>\<open>^[a-z0-9][a-z0-9-]{1,62}[a-z0-9]$\<close>; the pattern's end also matches before a final newline.\<close>

definition slug_ok :: "string \<Rightarrow> bool" where
  "slug_ok s0 =
     (let s = (if s0 \<noteq> [] \<and> last s0 = CHR 0x0A then butlast s0 else s0)
      in 3 \<le> length s \<and> length s \<le> 64 \<and> slug_char (hd s) \<and> slug_char (last s) \<and> list_all (\<lambda>c. slug_char c \<or> c = CHR ''-'') s)"

text \<open>\<open>create_workspace\<close> is the workspace it inserts; the identifiers are of the workspace and of the user.\<close>

definition signup :: "auth_env \<Rightarrow> auth_call \<Rightarrow> string \<Rightarrow> string \<Rightarrow> string \<Rightarrow> string \<Rightarrow> auth_db \<Rightarrow> exn + session_tokens \<times> auth_db" where
  "signup env c wid uid1 email slug db =
     (if \<not> slug_ok slug then Inl (OtherError ''ValidationFailed'' ''validation failed'')
      else if dget (au_workspaces db) slug \<noteq> None then Inl (OtherError ''Conflict'' ''workspace slug is taken'')
      else
        let db1 = db\<lparr>au_workspaces := dset slug wid (au_workspaces db)\<rparr>
        in (case insert_user uid1 \<lparr>us_email = email, us_workspace = wid, us_role = ''owner'', us_deactivated = False\<rparr> db1 of
              (Inl x, _) \<Rightarrow> Inl x
            | (Inr _, db2) \<Rightarrow> create_session env c uid1 wid db2))"

definition post_otp_request ::
  "auth_env \<Rightarrow> bool \<Rightarrow> real \<Rightarrow> string \<Rightarrow> string \<Rightarrow> string \<Rightarrow> real \<Rightarrow> auth_db \<Rightarrow> exn + auth_db"
where
  "post_otp_request env smtp now code email slug ttl_min db =
     (case find_user email slug db of
        None \<Rightarrow> Inr db
      | Some _ \<Rightarrow> if \<not> smtp then Inl (unauthorized ''smtp client not configured'')
          else Inr (request_otp env now code email slug ttl_min db))"

definition post_otp_verify ::
  "auth_env \<Rightarrow> auth_call \<Rightarrow> nat \<Rightarrow> string \<Rightarrow> string \<Rightarrow> string \<Rightarrow> auth_db \<Rightarrow> (exn + session_tokens) \<times> auth_db"
where
  "post_otp_verify env c max_attempts email slug code db =
     (case find_user email slug db of
        None \<Rightarrow> (Inl (unauthorized ''invalid email or workspace''), db)
      | Some (u, r) \<Rightarrow>
          (case verify_otp env (ac_now c) email slug code max_attempts db of
             (Inl x, db') \<Rightarrow> (Inl (unauthorized (exn_str x)), db')
           | (Inr _, db') \<Rightarrow>
               (case create_session env c u (us_workspace r) db' of
                  Inl x \<Rightarrow> (Inl x, db')
                | Inr (ts, db'') \<Rightarrow> (Inr ts, db''))))"

definition post_refresh :: "auth_env \<Rightarrow> auth_call \<Rightarrow> string \<Rightarrow> auth_db \<Rightarrow> exn + session_tokens \<times> auth_db" where
  "post_refresh env c t db =
     (case refresh_session env c t db of
        Inl x \<Rightarrow> Inl (case x of OtherError k m \<Rightarrow> if k = ''RefreshTokenInvalid'' \<or> k = ''SessionRevoked'' then unauthorized m else x | _ \<Rightarrow> x)
      | Inr (ts, db') \<Rightarrow> (case dget (au_sessions db') (st_session ts) of
            None \<Rightarrow> Inl (unauthorized ''session vanished after rotation'') | Some _ \<Rightarrow> Inr (ts, db')))"

section \<open>Pairing for direct messages\<close>

datatype dm_policy = PAIRING | ALLOWLIST | OPEN | DISABLED

record pairing_code =
  pc_code :: string
  pc_sender :: string
  pc_created :: real
  pc_expires :: real

record pairing =
  pm_policy :: dm_policy
  pm_max :: int
  pm_allowlist :: "(string, string list) dict"
  pm_pending :: "(string, pairing_code list) dict"

definition check_access :: "pairing \<Rightarrow> string \<Rightarrow> string \<Rightarrow> bool \<times> string" where
  "check_access m ch s =
     (if pm_policy m = DISABLED then (False, ''DMs are disabled'')
      else if pm_policy m = OPEN then (True, ''open policy'')
      else if s \<in> set (dget_or (pm_allowlist m) ch []) then (True, ''allowlisted'')
      else if pm_policy m = ALLOWLIST then (False, ''not on allowlist'')
      else (False, ''pairing_required''))"

definition live :: "real \<Rightarrow> pairing_code \<Rightarrow> bool" where
  "live now p \<longleftrightarrow> \<not> pc_expires p < now"

definition generate_code :: "real \<Rightarrow> string \<Rightarrow> string \<Rightarrow> string \<Rightarrow> pairing \<Rightarrow> string option \<times> pairing" where
  "generate_code now code ch s m =
     (let pend = filter (live now) (dget_or (pm_pending m) ch [])
      in if pm_max m \<le> int (length pend) then (None, m\<lparr>pm_pending := dset ch pend (pm_pending m)\<rparr>)
         else (Some code, m\<lparr>pm_pending := dset ch (pend @ [\<lparr>pc_code = code, pc_sender = s, pc_created = now, pc_expires = now + 3600\<rparr>])
             (pm_pending m)\<rparr>))"

definition allow_sender :: "string \<Rightarrow> string \<Rightarrow> pairing \<Rightarrow> pairing" where
  "allow_sender ch s m = m\<lparr>pm_allowlist := dset ch (List.insert s (dget_or (pm_allowlist m) ch [])) (pm_allowlist m)\<rparr>"

definition approve_code :: "real \<Rightarrow> string \<Rightarrow> string \<Rightarrow> pairing \<Rightarrow> bool \<times> pairing" where
  "approve_code now ch code m =
     (let pend = dget_or (pm_pending m) ch []
      in case find (\<lambda>p. pc_code p = code \<and> live now p) pend of
           None \<Rightarrow> (False, m)
         | Some p \<Rightarrow> (True, (allow_sender ch (pc_sender p) m)\<lparr>pm_pending := dset ch (remove1 p pend) (pm_pending m)\<rparr>))"

definition remove_from_allowlist :: "string \<Rightarrow> string \<Rightarrow> pairing \<Rightarrow> bool \<times> pairing" where
  "remove_from_allowlist ch s m =
     (let ids = dget_or (pm_allowlist m) ch []
      in if s \<in> set ids then (True, m\<lparr>pm_allowlist := dset ch (removeAll s ids) (pm_allowlist m)\<rparr>) else (False, m))"

definition get_pending :: "real \<Rightarrow> string \<Rightarrow> pairing \<Rightarrow> pairing_code list" where
  "get_pending now ch m = filter (live now) (dget_or (pm_pending m) ch [])"

text \<open>What \<open>_save_state\<close> writes, and the manager that reads it: the creation time is that of the reading.\<close>

definition save_state :: "real \<Rightarrow> pairing \<Rightarrow> (string, string list) dict \<times> (string, (string \<times> string \<times> real) list) dict" where
  "save_state now m =
     (pm_allowlist m,
      map (\<lambda>(ch, ps). (ch, map (\<lambda>p. (pc_code p, pc_sender p, pc_expires p)) (filter (live now) ps))) (pm_pending m))"

definition load_state ::
  "real \<Rightarrow> (string, string list) dict \<times> (string, (string \<times> string \<times> real) list) dict \<Rightarrow> pairing \<Rightarrow> pairing"
where
  "load_state now st m =
     m\<lparr>pm_allowlist := fst st,
       pm_pending := fold (\<lambda>(ch, ps). dset ch (map (\<lambda>(c, s, e). \<lparr>pc_code = c, pc_sender = s, pc_created = now,
           pc_expires = (if e = 0 then now + 3600 else e)\<rparr>) ps)) (snd st) (pm_pending m)\<rparr>"

section \<open>A refresh token is taken once\<close>

datatype session_op =
    NewSession auth_call string string
  | RefreshWith auth_call string
  | Revoke string

text \<open>Calls that raise change nothing.\<close>

definition kept_auth :: "auth_db \<Rightarrow> exn + 'a \<times> auth_db \<Rightarrow> auth_db" where
  "kept_auth db r = (case r of Inl _ \<Rightarrow> db | Inr (_, db') \<Rightarrow> db')"

fun session_step :: "auth_env \<Rightarrow> session_op \<Rightarrow> auth_db \<Rightarrow> auth_db" where
  "session_step env (NewSession c u wid) db = kept_auth db (create_session env c u wid db)"
| "session_step env (RefreshWith c t) db = kept_auth db (refresh_session env c t db)"
| "session_step env (Revoke sid) db = revoke_session sid db"

definition current_hashes :: "auth_db \<Rightarrow> string set" where
  "current_hashes db = {ss_hash r | sid r. dget (au_sessions db) sid = Some r}"

lemma current_hashesI: "dget (au_sessions db) i = Some r \<Longrightarrow> ss_hash r \<in> current_hashes db"
  unfolding current_hashes_def by blast

text \<open>
  While no two tokens that were issued have the same hash: a hash that was taken was issued, was taken once and is no
  session's any more; and no two sessions have the same one.
\<close>

definition sessions_ok :: "auth_db \<Rightarrow> bool" where
  "sessions_ok db \<longleftrightarrow>
     distinct (au_accepted db) \<and> set (au_accepted db) \<subseteq> set (au_issued db)
     \<and> current_hashes db \<subseteq> set (au_issued db) - set (au_accepted db)
     \<and> (\<forall>i j r q. dget (au_sessions db) i = Some r \<and> dget (au_sessions db) j = Some q \<and> ss_hash r = ss_hash q \<longrightarrow> i = j)"

definition session_inv :: "auth_db \<Rightarrow> bool" where
  "session_inv db \<longleftrightarrow> (distinct (au_issued db) \<longrightarrow> sessions_ok db)"

text \<open>Each operation that issues a token stores its hash in one session; if it took a token, it was that session's.\<close>

lemma new_hash_inv:
  assumes "session_inv db" and db': "au_sessions db' = dset sid row' (au_sessions db)" "au_issued db' = au_issued db @ [ss_hash row']"
      "au_accepted db' = au_accepted db @ A"
    and A: "A = [] \<or> (\<exists>row. dget (au_sessions db) sid = Some row \<and> A = [ss_hash row])"
  shows "session_inv db'"
  unfolding session_inv_def
proof (intro impI)
  let ?D = "au_sessions db" and ?I = "set (au_issued db)" and ?A = "set (au_accepted db)"
  assume "distinct (au_issued db')"
  then have d: "distinct (au_issued db)" "ss_hash row' \<notin> ?I" using db' by auto
  then have inv: "distinct (au_accepted db)" "?A \<subseteq> ?I"
      and sub: "current_hashes db \<subseteq> ?I - ?A"
      and inj: "\<And>i j r q. dget ?D i = Some r \<Longrightarrow> dget ?D j = Some q \<Longrightarrow> ss_hash r = ss_hash q \<Longrightarrow> i = j"
    using assms(1) unfolding session_inv_def sessions_ok_def by blast+
  have old: "ss_hash q \<noteq> ss_hash row'" "ss_hash q \<in> ?I" "ss_hash q \<notin> ?A" if "dget ?D i = Some q" for i q
    using current_hashesI [OF that] sub d(2) by auto
  have A': "set A \<subseteq> ?I" "distinct A" "set A \<inter> ?A = {}" "ss_hash row' \<notin> set A"
  proof -
    have "A = [] \<or> (\<exists>h. A = [h] \<and> h \<in> ?I \<and> h \<notin> ?A \<and> h \<noteq> ss_hash row')" using A old by blast
    then show "set A \<subseteq> ?I" "distinct A" "set A \<inter> ?A = {}" "ss_hash row' \<notin> set A" by auto
  qed
  have other: "ss_hash q \<notin> set A" if "dget ?D i = Some q" "i \<noteq> sid" for i q
    using A that inj by auto
  have cases: "(i = sid \<and> q = row') \<or> (i \<noteq> sid \<and> dget ?D i = Some q)" if "dget (au_sessions db') i = Some q" for i q
    using that by (auto simp: db' split: if_splits)
  have "current_hashes db' \<subseteq> set (au_issued db') - set (au_accepted db')"
  proof
    fix x assume "x \<in> current_hashes db'"
    then obtain i q where q: "dget (au_sessions db') i = Some q" "x = ss_hash q" unfolding current_hashes_def by blast
    from cases [OF q(1)] show "x \<in> set (au_issued db') - set (au_accepted db')"
    proof (elim disjE conjE)
      assume "q = row'"
      then show ?thesis using q(2) d(2) inv(2) A'(4) by (auto simp: db')
    next
      assume "i \<noteq> sid" "dget ?D i = Some q"
      then show ?thesis using q(2) old [of i q] other [of i q] by (simp add: db')
    qed
  qed
  moreover have "i = j" if "dget (au_sessions db') i = Some r" "dget (au_sessions db') j = Some q" "ss_hash r = ss_hash q" for i j r q
    using cases [OF that(1)] cases [OF that(2)] that(3) inj old by metis
  moreover have "distinct (au_accepted db')" "set (au_accepted db') \<subseteq> set (au_issued db')"
    using inv A' by (auto simp: db')
  ultimately show "sessions_ok db'" unfolding sessions_ok_def
    by blast
qed

lemma create_cases:
  assumes "create_session env c u wid db = Inr (ts, db')"
  shows "\<exists>row'. au_sessions db' = dset (ac_id c) row' (au_sessions db) \<and> au_issued db' = au_issued db @ [ss_hash row']
     \<and> au_accepted db' = au_accepted db"
proof -
  let ?row = "\<lparr>ss_user = u, ss_workspace = wid, ss_hash = ae_sha env (encode_refresh_token env (ac_nonce1 c) (ac_now c) (ac_id c) (ac_refresh_ttl c)),
      ss_expires = ac_now c + 86400 * ac_refresh_ttl c, ss_revoked = False\<rparr>"
  from assms show ?thesis
    by (intro exI [of _ ?row]) (auto simp: create_session_def Let_def bind_res_eq_Inr split: if_splits)
qed

lemma create_inv: "session_inv db \<Longrightarrow> create_session env c u wid db = Inr (ts, db') \<Longrightarrow> session_inv db'"
  using create_cases [of env c u wid db ts db'] by (auto intro: new_hash_inv [where A = "[]"])

lemma refresh_cases:
  assumes "refresh_session env c t db = Inr (ts, db')"
  shows "\<exists>sid row row' h. dget (au_sessions db) sid = Some row \<and> ss_hash row = ae_sha env t \<and> ss_hash row' = h \<and> \<not> ss_revoked row
     \<and> au_sessions db' = dset sid row' (au_sessions db) \<and> au_issued db' = au_issued db @ [h] \<and> au_accepted db' = au_accepted db @ [ae_sha env t]"
proof -
  from assms obtain sid where sid: "decode_refresh_token env (ac_now c) t = Inr sid"
    by (auto simp: refresh_session_def split: sum.splits)
  from assms sid obtain row where row: "dget (au_sessions db) sid = Some row" "\<not> ss_revoked row" "ss_hash row = ae_sha env t"
    by (auto simp: refresh_session_def split: option.splits if_splits)
  let ?h = "ae_sha env (encode_refresh_token env (ac_nonce1 c) (ac_now c) sid (ac_refresh_ttl c))"
  from assms sid row have "au_sessions db' = dset sid (row\<lparr>ss_hash := ?h, ss_expires := ac_now c + 86400 * ac_refresh_ttl c\<rparr>) (au_sessions db)
     \<and> au_issued db' = au_issued db @ [?h] \<and> au_accepted db' = au_accepted db @ [ae_sha env t]"
    by (auto simp: refresh_session_def Let_def bind_res_eq_Inr split: if_splits)
  with row show ?thesis by (intro exI conjI) auto
qed

lemma refresh_inv:
  assumes "session_inv db" "refresh_session env c t db = Inr (ts, db')"
  shows "session_inv db'"
proof -
  from refresh_cases [OF assms(2)] obtain sid row row' where f: "dget (au_sessions db) sid = Some row" "ss_hash row = ae_sha env t"
    "au_sessions db' = dset sid row' (au_sessions db)" "au_issued db' = au_issued db @ [ss_hash row']"
    "au_accepted db' = au_accepted db @ [ae_sha env t]" by blast
  show ?thesis by (rule new_hash_inv [OF assms(1) f(3,4,5)]) (simp add: f(1,2))
qed

lemma revoke_inv:
  assumes "session_inv db"
  shows "session_inv (revoke_session sid db)"
proof (cases "dget (au_sessions db) sid")
  case (Some row)
  let ?db = "revoke_session sid db"
  have was: "\<exists>q. dget (au_sessions db) i = Some q \<and> ss_hash q = ss_hash r" if "dget (au_sessions ?db) i = Some r" for i r
    using that Some by (auto simp: revoke_session_def split: if_splits)
  have sub: "current_hashes ?db \<subseteq> current_hashes db" 
  proof
    fix x assume "x \<in> current_hashes ?db"
    then obtain i r where "dget (au_sessions ?db) i = Some r" "x = ss_hash r" unfolding current_hashes_def by blast
    with was [of i r] obtain q where "dget (au_sessions db) i = Some q" "x = ss_hash q" by metis
    then show "x \<in> current_hashes db" unfolding current_hashes_def by blast
  qed
  have inj: "i = j" if "\<forall>i j r q. dget (au_sessions db) i = Some r \<and> dget (au_sessions db) j = Some q \<and> ss_hash r = ss_hash q \<longrightarrow> i = j"
      "dget (au_sessions ?db) i = Some r" "dget (au_sessions ?db) j = Some q" "ss_hash r = ss_hash q" for i j r q
    using was [OF that(2)] was [OF that(3)] that(1,4) by metis
  have same: "au_issued ?db = au_issued db" "au_accepted ?db = au_accepted db"
    by (simp_all add: revoke_session_def Some)
  have "sessions_ok ?db" if ok: "sessions_ok db"
  proof -
    from ok have "\<forall>i j r q. dget (au_sessions db) i = Some r \<and> dget (au_sessions db) j = Some q \<and> ss_hash r = ss_hash q \<longrightarrow> i = j"
      unfolding sessions_ok_def by blast
    from inj [OF this] sub ok show ?thesis unfolding sessions_ok_def same by blast
  qed
  then show ?thesis using assms unfolding session_inv_def same by blast
qed (use assms in \<open>simp add: revoke_session_def\<close>)

lemma session_step_inv: "session_inv db \<Longrightarrow> session_inv (session_step env a db)"
  by (cases a) (auto simp: kept_auth_def revoke_inv dest: create_inv refresh_inv split: sum.splits)

interpretation sessions: machine "session_step env" session_inv for env
  by unfold_locales (rule session_step_inv)

definition no_sessions :: "auth_db \<Rightarrow> bool" where
  "no_sessions db \<longleftrightarrow> au_sessions db = [] \<and> au_issued db = [] \<and> au_accepted db = []"

lemma no_sessions_inv: "no_sessions db \<Longrightarrow> session_inv db"
  by (simp add: no_sessions_def session_inv_def sessions_ok_def current_hashes_def)

lemma session_step_accepted: "set (au_accepted db) \<subseteq> set (au_accepted (session_step env a db))"
proof (cases a)
  case (NewSession c u wid)
  then show ?thesis by (auto simp: kept_auth_def split: sum.splits dest: create_cases)
next
  case (RefreshWith c t)
  then show ?thesis by (auto simp: kept_auth_def split: sum.splits dest: refresh_cases)
next
  case (Revoke sid)
  then show ?thesis by (auto simp: revoke_session_def split: option.splits)
qed

lemma session_run_accepted: "set (au_accepted db) \<subseteq> set (au_accepted (fold (session_step env) xs db))"
proof (induction xs arbitrary: db)
  case (Cons a xs)
  then show ?case using session_step_accepted [of db env a] by fastforce
qed simp

lemma accepted_refused:
  assumes "sessions_ok db" "ae_sha env t \<in> set (au_accepted db)"
  shows "\<exists>x. refresh_session env c t db = Inl x"
proof (rule ccontr)
  assume "\<nexists>x. refresh_session env c t db = Inl x"
  then obtain r where "refresh_session env c t db = Inr r" by (cases "refresh_session env c t db") auto
  then obtain ts db' where "refresh_session env c t db = Inr (ts, db')" by (cases r) auto
  from refresh_cases [OF this] obtain sid row where "dget (au_sessions db) sid = Some row" "ss_hash row = ae_sha env t" by blast
  then have "ae_sha env t \<in> current_hashes db" using current_hashesI [of db sid row] by simp
  with assms show False unfolding sessions_ok_def by blast
qed

text \<open>
  C19. A refresh token is taken once. Whatever sessions were opened, refreshed and revoked before, and whatever happens after a refresh
  took a token: the same token is refused, as long as no two tokens that were issued have the same hash.
\<close>

theorem refresh_token_once:
  assumes "no_sessions db0"
    and "refresh_session env c t (fold (session_step env) ys db0) = Inr (ts, db1)"
    and "distinct (au_issued (fold (session_step env) xs db1))"
  shows "\<exists>x. refresh_session env c' t (fold (session_step env) xs db1) = Inl x"
proof (rule accepted_refused)
  have "session_inv db1" using refresh_inv [OF sessions.run_inv [OF no_sessions_inv [OF assms(1)]] assms(2)] .
  from sessions.run_inv [OF this] assms(3) show "sessions_ok (fold (session_step env) xs db1)" unfolding session_inv_def by blast
  from refresh_cases [OF assms(2)] have "ae_sha env t \<in> set (au_accepted db1)" by auto
  then show "ae_sha env t \<in> set (au_accepted (fold (session_step env) xs db1))" using session_run_accepted [of db1 env xs] by blast
qed

text \<open>A token that is its nonce, and belongs to the session \<open>s\<close>.\<close>

definition demo_auth :: auth_env where
  "demo_auth = \<lparr>ae_mint = (\<lambda>_ n. n), ae_open = (\<lambda>_. Inr (RefreshToken ''s'' 100)), ae_sha = (\<lambda>t. t), ae_hmac = (\<lambda>m. m)\<rparr>"

definition demo_db :: auth_db where
  "demo_db = \<lparr>au_workspaces = [(''acme'', ''w'')],
     au_users = [(''u'', \<lparr>us_email = ''a@x'', us_workspace = ''w'', us_role = ''member'', us_deactivated = False\<rparr>)],
     au_sessions = [], au_otps = [], au_invites = [], au_channels = [''c''], au_members = [], au_issued = [], au_accepted = []\<rparr>"

definition demo_call :: "string \<Rightarrow> auth_call" where
  "demo_call n = \<lparr>ac_now = 0, ac_id = ''s'', ac_nonce1 = n, ac_nonce2 = ''a'', ac_access_ttl = 15, ac_refresh_ttl = 14\<rparr>"

definition demo_opened :: auth_db where
  "demo_opened = session_step demo_auth (NewSession (demo_call ''t1'') ''u'' ''w'') demo_db"

lemma refresh_token_once_witness:
  "(case refresh_session demo_auth (demo_call ''t2'') ''t1'' (fold (session_step demo_auth) [NewSession (demo_call ''t1'') ''u'' ''w''] demo_db) of
      Inl _ \<Rightarrow> False
    | Inr (ts, db1) \<Rightarrow> st_refresh ts = ''t2'' \<and>
        (\<exists>x. refresh_session demo_auth (demo_call ''t4'') ''t1'' (fold (session_step demo_auth) [RefreshWith (demo_call ''t3'') ''t2''] db1) = Inl x))"
proof -
  let ?ys = "[NewSession (demo_call ''t1'') ''u'' ''w'']" and ?xs = "[RefreshWith (demo_call ''t3'') ''t2'']"
  note ev = demo_auth_def demo_call_def demo_db_def refresh_session_def create_session_def kept_auth_def decode_refresh_token_def open_token_def
    encode_refresh_token_def bind_res_def user_role_def hash_in_use_def Let_def
  obtain ts db1 where r: "refresh_session demo_auth (demo_call ''t2'') ''t1'' (fold (session_step demo_auth) ?ys demo_db) = Inr (ts, db1)"
    and ts: "st_refresh ts = ''t2''" and d: "distinct (au_issued (fold (session_step demo_auth) ?xs db1))"
    by (simp add: ev)
  have "no_sessions demo_db" by (simp add: no_sessions_def demo_db_def)
  from refresh_token_once [OF this r d, of "demo_call ''t4''"] r ts show ?thesis by simp
qed

section \<open>Guesses of a code are few\<close>

fun guess_all :: "auth_env \<Rightarrow> string \<Rightarrow> string \<Rightarrow> nat \<Rightarrow> (real \<times> string) list \<Rightarrow> auth_db \<Rightarrow> (exn + unit) list" where
  "guess_all env email slug n [] db = []"
| "guess_all env email slug n ((now, code) # gs) db =
     (let (r, db') = verify_otp env now email slug code n db in r # guess_all env email slug n gs db')"

text \<open>Calls that compared the code: those that were told of a mismatch, and those that succeeded.\<close>

definition compared :: "(exn + unit) list \<Rightarrow> nat" where
  "compared rs = length (filter (\<lambda>r. r = Inl code_mismatch \<or> r = Inr ()) rs)"

lemma compared_Nil [simp]: "compared [] = 0"
  by (simp add: compared_def)

lemma compared_Cons: "compared (r # rs) = (if r = Inl code_mismatch \<or> r = Inr () then 1 else 0) + compared rs"
  by (simp add: compared_def)

definition guess_budget :: "string \<Rightarrow> string \<Rightarrow> nat \<Rightarrow> auth_db \<Rightarrow> nat" where
  "guess_budget email slug n db =
     (case dget (au_otps db) (otp_key email slug) of None \<Rightarrow> 0 | Some row \<Rightarrow> if ot_used row then 0 else n - ot_attempts row)"

lemma verify_otp_budget:
  "verify_otp env now email slug code n db = (r, db') \<Longrightarrow>
     (if r = Inl code_mismatch \<or> r = Inr () then 1 else 0) + guess_budget email slug n db' \<le> guess_budget email slug n db
     \<and> (r = Inr () \<longrightarrow> guess_budget email slug n db' = 0)"
  by (auto simp: verify_otp_def guess_budget_def set_otp_def code_mismatch_def otp_invalid_def otp_expired_def
      split: option.splits if_splits)

lemma guess_all_budget: "compared (guess_all env email slug n gs db) \<le> guess_budget email slug n db"
proof (induction env email slug n gs db rule: guess_all.induct)
  case (2 env email slug n now code gs db)
  obtain r db' where v: "verify_otp env now email slug code n db = (r, db')" by (cases "verify_otp env now email slug code n db")
  from verify_otp_budget [OF v] 2 [OF v [symmetric] refl] show ?case by (simp add: v compared_Cons split: if_splits)
qed simp

lemma guess_all_once: "length (filter (\<lambda>r. r = Inr ()) (guess_all env email slug n gs db)) \<le> 1"
proof (induction env email slug n gs db rule: guess_all.induct)
  case (2 env email slug n now code gs db)
  obtain r db' where v: "verify_otp env now email slug code n db = (r, db')" by (cases "verify_otp env now email slug code n db")
  have "filter (\<lambda>r. r = Inr ()) (guess_all env email slug n gs db') = []" if "r = Inr ()"
  proof -
    have "compared (guess_all env email slug n gs db') = 0"
      using verify_otp_budget [OF v] guess_all_budget [of env email slug n gs db'] that by simp
    then show ?thesis by (auto simp: compared_def filter_empty_conv)
  qed
  with 2 [OF v [symmetric] refl] show ?case by (simp add: v)
qed simp

text \<open>
  C20. After a code was sent, however many guesses follow one another and whatever the clock says, at most \<open>n\<close> codes are compared with it,
  and at most one call succeeds.
\<close>

theorem otp_guess_bound:
  fixes env :: auth_env
  shows "compared (guess_all env email slug n gs (request_otp env now code email slug ttl db)) \<le> n
    \<and> length (filter (\<lambda>r. r = Inr ()) (guess_all env email slug n gs (request_otp env now code email slug ttl db))) \<le> 1"
  using guess_all_budget [of env email slug n gs "request_otp env now code email slug ttl db"] guess_all_once
  by (auto simp: guess_budget_def request_otp_def)

section \<open>An invite is accepted once\<close>

datatype invite_op =
    Invite real string string string string string real "string list option"
  | Accept real string string
  | RevokeInvite string

fun invite_step :: "auth_env \<Rightarrow> invite_op \<Rightarrow> auth_db \<Rightarrow> auth_db" where
  "invite_step env (Invite now iid token wid email role ttl channels) db =
     (case create_invite env now iid token wid email role ttl channels db of Inl _ \<Rightarrow> db | Inr db' \<Rightarrow> db')"
| "invite_step env (Accept now u token) db = snd (accept_invite env now u token db)"
| "invite_step env (RevokeInvite iid) db = revoke_invite iid db"

definition used_up :: "string \<Rightarrow> auth_db \<Rightarrow> bool" where
  "used_up h db = (case find (\<lambda>i. in_hash i = h) (au_invites db) of None \<Rightarrow> False | Some i \<Rightarrow> in_accepted i \<or> in_revoked i)"

lemma find_map_same: "(\<And>x. P (f x) = P x) \<Longrightarrow> find P (map f xs) = map_option f (find P xs)"
  by (induction xs) auto

lemma used_up_update:
  assumes "used_up h db" "\<And>i. in_hash (f i) = in_hash i" "\<And>i. in_accepted i \<or> in_revoked i \<Longrightarrow> in_accepted (f i) \<or> in_revoked (f i)"
  shows "used_up h (update_invite iid f db)"
proof -
  obtain i where "find (\<lambda>i. in_hash i = h) (au_invites db) = Some i" "in_accepted i \<or> in_revoked i"
    using assms(1) by (auto simp: used_up_def split: option.splits)
  with assms(2,3) show ?thesis unfolding used_up_def update_invite_def by (simp add: find_map_same)
qed

lemma used_up_users: "used_up h (db\<lparr>au_users := x\<rparr>) = used_up h db" "used_up h (db\<lparr>au_members := y\<rparr>) = used_up h db"
  by (simp_all add: used_up_def)

lemma keeps_insert_user: "keeps (used_up h) (insert_user u row)"
  unfolding insert_user_def by (intro keeps_rules keeps_modify_s) (simp add: used_up_users)

lemma keeps_join: "keeps (used_up h) (join_channel c u)"
  unfolding join_channel_def by (intro keeps_rules keeps_modify_s) (simp add: used_up_users)

lemma keeps_accept: "keeps (used_up h) (accept_invite env now u t)"
  unfolding accept_invite_def
  by (auto intro!: keeps_rules keeps_modify_s keeps_insert_user keeps_join used_up_update split: option.splits)

lemma find_append_Some: "find P xs = Some x \<Longrightarrow> find P (xs @ ys) = Some x"
  by (induction xs) auto

lemma used_up_create: "used_up h db \<Longrightarrow> create_invite env now iid t wid email role ttl cs db = Inr db' \<Longrightarrow> used_up h db'"
  by (auto simp: create_invite_def Let_def used_up_def find_append_Some split: option.splits if_splits)

lemma invite_step_used_up: "used_up h db \<Longrightarrow> used_up h (invite_step env a db)"
proof (cases a)
  case (Invite now iid token wid email role ttl channels)
  then show "used_up h db \<Longrightarrow> ?thesis" by (auto dest: used_up_create split: sum.splits)
next
  case (Accept now u t)
  then show "used_up h db \<Longrightarrow> ?thesis" by (simp add: keepsD [OF keeps_accept])
next
  case (RevokeInvite iid)
  then show "used_up h db \<Longrightarrow> ?thesis" by (auto simp: revoke_invite_def intro: used_up_update)
qed

interpretation invites: machine "invite_step env" "used_up h" for env h
  by unfold_locales (rule invite_step_used_up)

lemma used_up_refused: "used_up (ae_sha env t) db \<Longrightarrow> \<exists>m. fst (accept_invite env now u t db) = Inl (invite_invalid m)"
  by (auto simp: used_up_def accept_invite_def run_defs split: option.splits)

lemma insert_user_invites: "au_invites (snd (insert_user u row db)) = au_invites db"
  by (simp add: insert_user_def run_defs)

lemma accepted_used_up:
  assumes "fst (accept_invite env now u t db) = Inr u'"
  shows "used_up (ae_sha env t) (snd (accept_invite env now u t db))"
proof -
  let ?h = "ae_sha env t"
  obtain i where i: "find (\<lambda>i. in_hash i = ?h) (au_invites db) = Some i" "\<not> in_revoked i" "\<not> in_accepted i" "\<not> in_expires i < now"
    using assms by (auto simp: accept_invite_def run_defs split: option.splits if_splits)
  let ?row = "\<lparr>us_email = in_email i, us_workspace = in_workspace i, us_role = in_role i, us_deactivated = False\<rparr>"
  obtain r db1 where ins: "insert_user u ?row db = (r, db1)" by (cases "insert_user u ?row db")
  let ?join = "then_s (for_s (case in_channels i of None \<Rightarrow> [] | Some cs \<Rightarrow> cs) (join_channel u)) (ret u)"
  let ?db2 = "update_invite (in_id i) (\<lambda>i. i\<lparr>in_accepted := True\<rparr>) db1"
  have same: "au_invites db1 = au_invites db" using insert_user_invites [of u ?row db] by (simp add: ins)
  have run: "accept_invite env now u t db = (case r of Inl e \<Rightarrow> (Inl e, db1) | Inr _ \<Rightarrow> ?join ?db2)"
    using i ins by (simp add: accept_invite_def bind_s_def get_s_def modify_s_def split: sum.splits)
  have "used_up ?h ?db2" unfolding used_up_def update_invite_def by (simp add: same i(1) find_map_same)
  moreover have "keeps (used_up ?h) ?join" by (intro keeps_rules keeps_join)
  ultimately show ?thesis using assms keepsD [of "used_up ?h" ?join ?db2] by (auto simp: run split: sum.splits)
qed

text \<open>
  An invite is accepted once: after a call accepted a token, and whatever is invited, accepted and revoked from then on, the same token is
  refused as invalid.
\<close>

theorem invite_accepted_once:
  assumes "fst (accept_invite env now u t db) = Inr u'"
  shows "\<exists>m. fst (accept_invite env now' v t (fold (invite_step env) xs (snd (accept_invite env now u t db)))) = Inl (invite_invalid m)"
  by (rule used_up_refused [OF invites.run_inv [OF accepted_used_up [OF assms]]])

definition demo_invited :: auth_db where
  "demo_invited = invite_step demo_auth (Invite 0 ''i'' ''t'' ''w'' ''b@x'' ''member'' 7 (Some [''c''])) demo_db"

lemmas demo_defs = demo_auth_def demo_db_def demo_invited_def create_invite_def

lemma invite_accepted_once_witness:
  "fst (accept_invite demo_auth 1 ''v'' ''t'' demo_invited) = Inr ''v''
   \<and> (\<exists>m. fst (accept_invite demo_auth 2 ''v2'' ''t'' (fold (invite_step demo_auth) [] (snd (accept_invite demo_auth 1 ''v'' ''t'' demo_invited))))
          = Inl (invite_invalid m))"
proof -
  have "fst (accept_invite demo_auth 1 ''v'' ''t'' demo_invited) = Inr ''v''"
    by (simp add: demo_defs accept_invite_def insert_user_def join_channel_def update_invite_def run_defs str_lower_def lower_char_def)
  from this invite_accepted_once [OF this, of 2 "''v2''" "[]"] show ?thesis by blast
qed

text \<open>
  A channel of the invite that is gone by then: the call raises, but the user exists and the invite is used up.
\<close>

lemma failed_join_uses_invite:
  "let db = snd (accept_invite demo_auth 1 ''v'' ''t'' (demo_invited\<lparr>au_channels := []\<rparr>))
   in fst (accept_invite demo_auth 1 ''v'' ''t'' (demo_invited\<lparr>au_channels := []\<rparr>)) \<noteq> Inr ''v''
      \<and> dget (au_users db) ''v'' \<noteq> None \<and> used_up ''t'' db"
  by (simp add: demo_defs accept_invite_def insert_user_def join_channel_def update_invite_def used_up_def run_defs str_lower_def lower_char_def)

section \<open>Who is on an allowlist\<close>

datatype pair_op =
    PGen real string string string
  | PApprove real string string
  | PAllow string string
  | PRemove string string

fun pair_step :: "pair_op \<Rightarrow> pairing \<Rightarrow> pairing" where
  "pair_step (PGen now code ch s) m = snd (generate_code now code ch s m)"
| "pair_step (PApprove now ch code) m = snd (approve_code now ch code m)"
| "pair_step (PAllow ch s) m = allow_sender ch s m"
| "pair_step (PRemove ch s) m = snd (remove_from_allowlist ch s m)"

definition no_pairings :: "pairing \<Rightarrow> bool" where
  "no_pairings m \<longleftrightarrow> pm_allowlist m = [] \<and> pm_pending m = []"

text \<open>
  A sender is allowed by what happened when it was added, or a code that was generated for it was approved within the hour, and it
  was not removed from then on.
\<close>

definition granted :: "pair_op list \<Rightarrow> pair_op \<Rightarrow> string \<Rightarrow> string \<Rightarrow> bool" where
  "granted ys a ch s \<longleftrightarrow>
     a = PAllow ch s \<or> (\<exists>now now' code. a = PApprove now' ch code \<and> PGen now code ch s \<in> set ys \<and> now' \<le> now + 3600)"

definition allowed_by :: "pair_op list \<Rightarrow> string \<Rightarrow> string \<Rightarrow> bool" where
  "allowed_by xs ch s \<longleftrightarrow> (\<exists>ys a zs. xs = ys @ a # zs \<and> granted ys a ch s \<and> PRemove ch s \<notin> set zs)"

definition waiting :: "pairing \<Rightarrow> string \<Rightarrow> pairing_code list" where
  "waiting m ch = dget_or (pm_pending m) ch []"

definition allowlisted :: "pairing \<Rightarrow> string \<Rightarrow> string list" where
  "allowlisted m ch = dget_or (pm_allowlist m) ch []"

definition pair_inv :: "pair_op list \<Rightarrow> pairing \<Rightarrow> bool" where
  "pair_inv xs m \<longleftrightarrow>
     (\<forall>ch p. p \<in> set (waiting m ch) \<longrightarrow> (\<exists>now. PGen now (pc_code p) ch (pc_sender p) \<in> set xs \<and> pc_expires p = now + 3600))
     \<and> (\<forall>ch s. s \<in> set (allowlisted m ch) \<longrightarrow> allowed_by xs ch s)
     \<and> (\<forall>ch. length (waiting m ch) \<le> nat (pm_max m))"

lemma allowed_by_snoc: "allowed_by xs ch s \<Longrightarrow> a \<noteq> PRemove ch s \<Longrightarrow> allowed_by (xs @ [a]) ch s"
  unfolding allowed_by_def by (elim exE conjE) (rule_tac x = ys in exI, rule_tac x = aa in exI, rule_tac x = "zs @ [a]" in exI, simp)

lemma allowed_by_now: "granted xs a ch s \<Longrightarrow> allowed_by (xs @ [a]) ch s"
  unfolding allowed_by_def by (intro exI [of _ xs] exI [of _ a] exI [of _ "[]"]) simp

text \<open>How the operations change the two lists of a channel.\<close>

lemma generate_lists:
  "allowlisted (pair_step (PGen now code ch s) m) c = allowlisted m c"
  "waiting (pair_step (PGen now code ch s) m) c =
     (if c = ch then let pend = filter (live now) (waiting m ch) in
        if pm_max m \<le> int (length pend) then pend
        else pend @ [\<lparr>pc_code = code, pc_sender = s, pc_created = now, pc_expires = now + 3600\<rparr>]
      else waiting m c)"
  by (simp_all add: generate_code_def allowlisted_def waiting_def Let_def)

lemma approve_lists:
  "waiting (pair_step (PApprove now ch code) m) c =
     (if c = ch then case find (\<lambda>p. pc_code p = code \<and> live now p) (waiting m ch) of None \<Rightarrow> waiting m ch | Some p \<Rightarrow> remove1 p (waiting m ch)
      else waiting m c)"
  "allowlisted (pair_step (PApprove now ch code) m) c =
     (if c = ch then case find (\<lambda>p. pc_code p = code \<and> live now p) (waiting m ch) of None \<Rightarrow> allowlisted m ch
        | Some p \<Rightarrow> List.insert (pc_sender p) (allowlisted m ch)
      else allowlisted m c)"
  by (simp_all add: approve_code_def allow_sender_def allowlisted_def waiting_def Let_def split: option.splits)

lemma allow_lists:
  "waiting (pair_step (PAllow ch s) m) c = waiting m c"
  "allowlisted (pair_step (PAllow ch s) m) c = (if c = ch then List.insert s (allowlisted m ch) else allowlisted m c)"
  by (simp_all add: allow_sender_def allowlisted_def waiting_def)

lemma remove_lists:
  "waiting (pair_step (PRemove ch s) m) c = waiting m c"
  "set (allowlisted (pair_step (PRemove ch s) m) c) = (if c = ch then set (allowlisted m ch) - {s} else set (allowlisted m c))"
  by (auto simp: remove_from_allowlist_def allowlisted_def waiting_def Let_def)

lemma pair_max [simp]: "pm_max (pair_step a m) = pm_max m" "pm_policy (pair_step a m) = pm_policy m"
  by (cases a; simp add: generate_code_def approve_code_def allow_sender_def remove_from_allowlist_def Let_def split: option.splits)+

lemma pair_step_waiting:
  assumes "pair_inv xs m" "p \<in> set (waiting (pair_step a m) ch)"
  shows "\<exists>now. PGen now (pc_code p) ch (pc_sender p) \<in> set (xs @ [a]) \<and> pc_expires p = now + 3600"
proof -
  have old: "\<exists>now. PGen now (pc_code q) c (pc_sender q) \<in> set (xs @ [a]) \<and> pc_expires q = now + 3600" if "q \<in> set (waiting m c)" for q c
    using assms(1) that unfolding pair_inv_def by fastforce
  have "p \<in> set (waiting m ch) \<or> (\<exists>now. a = PGen now (pc_code p) ch (pc_sender p) \<and> pc_expires p = now + 3600)"
    using assms(2) by (cases a) (auto simp: generate_lists approve_lists allow_lists remove_lists Let_def
        dest: set_remove1_subset [THEN subsetD] split: if_splits option.splits simp del: pair_step.simps)
  with old show ?thesis by auto
qed

lemma pair_step_length:
  assumes "pair_inv xs m"
  shows "length (waiting (pair_step a m) ch) \<le> nat (pm_max m)"
proof -
  have old: "length (waiting m c) \<le> nat (pm_max m)" for c using assms by (simp add: pair_inv_def)
  have "length (filter P (waiting m c)) \<le> nat (pm_max m)" "length (remove1 x (waiting m c)) \<le> nat (pm_max m)" for P c x
    using old [of c] order.trans [OF length_filter_le old] by (auto simp: length_remove1)
  with old show ?thesis
    by (cases a) (auto simp: generate_lists approve_lists allow_lists remove_lists Let_def split: option.splits simp del: pair_step.simps)
qed

lemma pair_step_allowed:
  assumes inv: "pair_inv xs m" and s: "s \<in> set (allowlisted (pair_step a m) ch)"
  shows "allowed_by (xs @ [a]) ch s"
proof -
  have old: "allowed_by (xs @ [a]) ch s" if "s \<in> set (allowlisted m ch)" "a \<noteq> PRemove ch s"
    using inv that allowed_by_snoc unfolding pair_inv_def by blast
  show ?thesis
  proof (cases a)
    case (PApprove now c code)
    show ?thesis
    proof (cases "s \<in> set (allowlisted m ch)")
      case False
      with s PApprove obtain p where p: "c = ch" "find (\<lambda>p. pc_code p = code \<and> live now p) (waiting m ch) = Some p" "s = pc_sender p"
        by (auto simp: approve_lists split: if_splits option.splits simp del: pair_step.simps)
      then have "p \<in> set (waiting m ch)" "pc_code p = code" "live now p" by (auto simp: find_Some_iff)
      with inv p(3) obtain t where "PGen t code ch s \<in> set xs" "now \<le> t + 3600"
        unfolding pair_inv_def live_def by force
      then show ?thesis using PApprove p(1) by (intro allowed_by_now) (auto simp: granted_def)
    qed (use old PApprove in simp)
  next
    case (PAllow c t)
    then show ?thesis using s old by (auto simp: allow_lists granted_def intro: allowed_by_now split: if_splits simp del: pair_step.simps)
  next
    case (PGen now code c t)
    then show ?thesis using s old by (simp add: generate_lists del: pair_step.simps)
  next
    case (PRemove c t)
    then show ?thesis using s old by (auto simp: remove_lists split: if_splits simp del: pair_step.simps)
  qed
qed

lemma pair_run_inv: "no_pairings m \<Longrightarrow> pair_inv xs (fold pair_step xs m) \<and> pm_policy (fold pair_step xs m) = pm_policy m"
proof (induction xs rule: rev_induct)
  case Nil
  then show ?case by (simp add: no_pairings_def pair_inv_def waiting_def allowlisted_def dget_or_def)
next
  case (snoc a xs)
  then have "pair_inv xs (fold pair_step xs m)" by simp
  from pair_step_waiting [OF this] pair_step_allowed [OF this] pair_step_length [OF this] snoc show ?case
    by (simp add: pair_inv_def del: pair_step.simps)
qed

text \<open>
  With the policies that ask for approval, a direct message is let in only when its sender was added to the list of the channel, or a code that
  was generated for it there was approved within the hour, and it was not removed since; and no channel ever has more codes waiting than the bound.
\<close>

theorem pairing_provenance:
  assumes "no_pairings m" "pm_policy m = PAIRING \<or> pm_policy m = ALLOWLIST" "fst (check_access (fold pair_step xs m) ch s)"
  shows "allowed_by xs ch s \<and> length (waiting (fold pair_step xs m) c) \<le> nat (pm_max m)"
proof -
  let ?m = "fold pair_step xs m"
  have inv: "pair_inv xs ?m" "pm_policy ?m = pm_policy m" using pair_run_inv [OF assms(1)] by simp_all
  have "s \<in> set (allowlisted ?m ch)"
    using assms(2,3) inv(2) by (auto simp: check_access_def allowlisted_def split: if_splits)
  moreover have "pm_max ?m = pm_max m" by (induction xs arbitrary: m) simp_all
  ultimately show ?thesis using inv(1) by (simp add: pair_inv_def)
qed

definition demo_pairing :: pairing where
  "demo_pairing = \<lparr>pm_policy = PAIRING, pm_max = 3, pm_allowlist = [], pm_pending = []\<rparr>"

lemma pairing_provenance_witness:
  "fst (check_access (fold pair_step [PGen 0 ''AB'' ''tg'' ''bob'', PApprove 60 ''tg'' ''AB''] demo_pairing) ''tg'' ''bob'')
   \<and> allowed_by [PGen 0 ''AB'' ''tg'' ''bob'', PApprove 60 ''tg'' ''AB''] ''tg'' ''bob''"
proof -
  let ?xs = "[PGen 0 ''AB'' ''tg'' ''bob'', PApprove 60 ''tg'' ''AB'']"
  have start: "no_pairings demo_pairing" "pm_policy demo_pairing = PAIRING \<or> pm_policy demo_pairing = ALLOWLIST"
    by (simp_all add: no_pairings_def demo_pairing_def)
  have ok: "fst (check_access (fold pair_step ?xs demo_pairing) ''tg'' ''bob'')"
    by (simp add: demo_pairing_def check_access_def generate_code_def approve_code_def allow_sender_def live_def dget_or_def)
  from ok pairing_provenance [OF start ok] show ?thesis by blast
qed

end
