(* ===== verification/Settings_Schema.thy ===== *)
theory Settings_Schema
  imports Schema_Check
begin

text \<open>
  The whitelist and the validators of runtime settings, \<open>sdui/settings_schema.py\<close>. A validator takes any JSON value and returns the cleaned
  value or raises; each one is built from checks of single fields, as in the source. The random numbers of \<open>uuid4\<close> are an argument.
\<close>

section \<open>Checks of single values\<close>

text \<open>\<open>str(uuid4())\<close> for a number of 128 bits.\<close>

definition hex_digit :: "nat \<Rightarrow> char" where
  "hex_digit n = (if n < 10 then char_of (n + 48) else char_of (n + 87))"

fun hex_text :: "nat \<Rightarrow> nat \<Rightarrow> string" where
  "hex_text 0 n = []"
| "hex_text (Suc k) n = hex_text k (n div 16) @ [hex_digit (n mod 16)]"

definition uuid_text :: "nat \<Rightarrow> string" where
  "uuid_text n =
     str_join ''-'' [hex_text 8 (n div 16 ^ 24), hex_text 4 (n div 16 ^ 20), hex_text 4 (n div 16 ^ 16), hex_text 4 (n div 16 ^ 12), hex_text 12 n]"

definition settings_error :: "string \<Rightarrow> exn" where
  "settings_error m = OtherError ''SettingsValidationError'' m"

definition reject :: "string \<Rightarrow> exn + 'a" where
  "reject m = Inl (settings_error m)"

type_synonym check = "json \<Rightarrow> exn + json"

definition bool_yes :: "string list" where
  "bool_yes = [''true'', ''1'', ''yes'', ''on'']"

definition bool_no :: "string list" where
  "bool_no = [''false'', ''0'', ''no'', ''off'']"

definition coerce_bool :: "string \<Rightarrow> check" where
  "coerce_bool field v =
     (case v of
        JBool b \<Rightarrow> Inr v
      | JStr s0 \<Rightarrow>
          (let s = str_lower (str_strip s0)
           in if s \<in> set bool_yes then Inr (JBool True)
              else if s \<in> set bool_no then Inr (JBool False)
              else reject (field @ '' must be bool''))
      | _ \<Rightarrow> reject (field @ '' must be bool''))"

fun is_str :: "json \<Rightarrow> bool" where
  "is_str (JStr _) = True"
| "is_str _ = False"

fun is_name :: "json \<Rightarrow> bool" where
  "is_name (JStr s) = (s \<noteq> [])"
| "is_name _ = False"

fun is_str_list :: "json \<Rightarrow> bool" where
  "is_str_list (JList xs) = list_all is_str xs"
| "is_str_list _ = False"

fun is_str_dict :: "json \<Rightarrow> bool" where
  "is_str_dict (JObj d) = list_all (\<lambda>(_, v). is_str v) d"
| "is_str_dict _ = False"

fun is_bool :: "json \<Rightarrow> bool" where
  "is_bool (JBool _) = True"
| "is_bool _ = False"

definition ensure :: "(json \<Rightarrow> bool) \<Rightarrow> string \<Rightarrow> check" where
  "ensure P m v = (if P v then Inr v else reject m)"

text \<open>\<open>v not in {...}\<close> hashes the value, so a list or an object raises a \<open>TypeError\<close>.\<close>

definition one_of :: "string list \<Rightarrow> string \<Rightarrow> check" where
  "one_of names what v =
     (case v of
        JList _ \<Rightarrow> Inl (TypeError ''unhashable type: list'')
      | JObj _ \<Rightarrow> Inl (TypeError ''unhashable type: dict'')
      | _ \<Rightarrow> if v \<in> JStr ` set names then Inr v
             else reject (what @ '' must be one of ['' @ str_join '', '' (map quoted names) @ '']''))"

text \<open>\<open>int(v)\<close> with both exceptions it raises turned into the message, and a test of the result.\<close>

definition int_check :: "string \<Rightarrow> (int \<Rightarrow> bool) \<Rightarrow> string \<Rightarrow> check" where
  "int_check field P m v =
     (case py_int v of
        Inl _ \<Rightarrow> reject (field @ '' must be int'')
      | Inr i \<Rightarrow> if P i then Inr (JInt i) else reject (field @ m))"

definition int_in_range :: "string \<Rightarrow> int \<Rightarrow> int \<Rightarrow> check" where
  "int_in_range field lo hi = int_check field (\<lambda>i. lo \<le> i \<and> i \<le> hi) ('' must be between '' @ int_str lo @ '' and '' @ int_str hi)"

definition float_in_range :: "string \<Rightarrow> string \<Rightarrow> real \<Rightarrow> real \<Rightarrow> check" where
  "float_in_range field bounds lo hi v =
     (case float_of v of
        Inl _ \<Rightarrow> reject (field @ '' must be a number'')
      | Inr (Some x) \<Rightarrow> if lo \<le> x \<and> x \<le> hi then Inr (JFloat x) else reject (field @ '' must be between '' @ bounds)
      | Inr None \<Rightarrow> reject (field @ '' must be between '' @ bounds))"

section \<open>Objects\<close>

text \<open>
  \<open>if "f" in data: out["f"] = check(data["f"])\<close>, for each field in turn.
\<close>

fun fields :: "(string \<times> check) list \<Rightarrow> json_obj \<Rightarrow> exn + json_obj" where
  "fields [] data = Inr []"
| "fields ((f, chk) # fs) data =
     (case dget data f of
        None \<Rightarrow> fields fs data
      | Some v \<Rightarrow> bind_res (chk v) (\<lambda>w. bind_res (fields fs data) (\<lambda>out. Inr ((f, w) # out))))"

definition nonempty_fields :: "string \<Rightarrow> (string \<times> check) list \<Rightarrow> json_obj \<Rightarrow> exn + json" where
  "nonempty_fields key fs data =
     bind_res (fields fs data) (\<lambda>out. if out = [] then reject (key @ '' payload empty'') else Inr (JObj out))"

definition require_dict :: "string \<Rightarrow> (json_obj \<Rightarrow> exn + json) \<Rightarrow> check" where
  "require_dict key k v = (case v of JObj d \<Rightarrow> k d | _ \<Rightarrow> reject (key @ '' must be an object''))"

definition object_of :: "string \<Rightarrow> (string \<times> check) list \<Rightarrow> check" where
  "object_of key fs = require_dict key (nonempty_fields key fs)"

definition validate_llm :: check where
  "validate_llm = object_of ''llm''
     [(''default_provider'', ensure is_name ''default_provider must be a non-empty string''),
      (''default_model'', ensure is_name ''default_model must be a non-empty string''),
      (''tool_call_max_turns'', int_in_range ''tool_call_max_turns'' 1 50)]"

definition persona_presets :: "string list" where
  "persona_presets = [''concise'', ''friendly'', ''humorous'', ''professional'']"

definition validate_persona :: check where
  "validate_persona = object_of ''persona''
     [(''name'', ensure is_str ''persona.name must be string''),
      (''preset'', one_of persona_presets ''persona.preset''),
      (''language'', ensure is_str ''persona.language must be string''),
      (''specialties'', ensure is_str_list ''persona.specialties must be list[str]'')]"

definition validate_custom_prompts :: check where
  "validate_custom_prompts = object_of ''custom_prompts''
     (map (\<lambda>f. (f, ensure is_str (f @ '' must be string''))) [''main_system_prompt'', ''behavior_prompt''])"

definition validate_instructions :: check where
  "validate_instructions v =
     (case v of
        JStr s \<Rightarrow> if 8000 < length s then reject ''custom_instructions exceeds 8000 chars'' else Inr v
      | _ \<Rightarrow> reject ''custom_instructions must be string'')"

definition embedding_providers :: "string list" where
  "embedding_providers = [''auto'', ''fastembed'', ''gemini'', ''local'', ''off'', ''ollama'', ''openai'']"

definition validate_embedding :: check where
  "validate_embedding = object_of ''embedding_config''
     [(''provider'', one_of embedding_providers ''embedding provider''),
      (''model_name'', ensure (\<lambda>v. v = JNull \<or> is_str v) ''embedding model_name must be string or null''),
      (''ollama_base_url'', ensure is_str ''ollama_base_url must be string'')]"

definition validate_credential :: check where
  "validate_credential = ensure is_name ''credential value must be non-empty string''"

definition validate_mcp :: check where
  "validate_mcp = object_of ''mcp''
     [(''auto_discover'', coerce_bool ''mcp.auto_discover''),
      (''max_restart_attempts'', int_check ''mcp.max_restart_attempts'' (\<lambda>i. 0 \<le> i) '' must be >= 0'')]"

fun bad_user :: "json_obj \<Rightarrow> string option" where
  "bad_user [] = None"
| "bad_user ((user, tools) # d) = (if is_str_list tools then bad_user d else Some user)"

definition check_user_permissions :: check where
  "check_user_permissions v =
     (case v of
        JObj d \<Rightarrow>
          (case bad_user d of
             Some user \<Rightarrow> reject (''safety_permissions.user_permissions['' @ quoted user @ ''] must be list[str]'')
           | None \<Rightarrow> Inr v)
      | _ \<Rightarrow> reject ''safety_permissions.user_permissions must be an object'')"

definition validate_safety_permissions :: check where
  "validate_safety_permissions = object_of ''safety_permissions''
     [(''user_permissions'', check_user_permissions),
      (''admin_users'', ensure is_str_list ''safety_permissions.admin_users must be list[str]'')]"

definition validate_tool_security :: check where
  "validate_tool_security = object_of ''tool_security''
     (map (\<lambda>f. (f, ensure is_str_list (''tool_security.'' @ f @ '' must be list[str]'')))
        [''dangerous_patterns'', ''sensitive_file_patterns'', ''allowed_ssh_hosts'', ''command_whitelist''] @
      [(''base_directory'', ensure is_str ''tool_security.base_directory must be string''),
       (''command_whitelist_enabled'', coerce_bool ''tool_security.command_whitelist_enabled'')])"

text \<open>The same bounds for each field of a list.\<close>

definition int_fields :: "string \<Rightarrow> int \<Rightarrow> int \<Rightarrow> string list \<Rightarrow> (string \<times> check) list" where
  "int_fields key lo hi fs = map (\<lambda>f. (f, int_in_range (key @ ''.'' @ f) lo hi)) fs"

definition validate_memory_gc_config :: check where
  "validate_memory_gc_config = object_of ''memory_gc_config''
     (int_fields ''memory_gc_config'' 60 86400 [''interval_seconds''] @
      [(''decay_threshold'', float_in_range ''memory_gc_config.decay_threshold'' ''0.01 and 1.0'' (1 / 100) 1)] @
      int_fields ''memory_gc_config'' 10 10000 [''max_cached_notes''] @
      int_fields ''memory_gc_config'' 1 365 [''kg_max_age_days''] @
      int_fields ''memory_gc_config'' 1 3600 [''env_refresh_interval''])"

definition validate_system_timeouts :: check where
  "validate_system_timeouts = object_of ''system_timeouts''
     (int_fields ''system_timeouts'' 1 3600
        [''tool_call'', ''llm_api'', ''ssh_command'', ''health_check'', ''pypi_check'', ''http_default'', ''skill_discovery''])"

definition validate_retry_config :: check where
  "validate_retry_config = object_of ''retry_config''
     (int_fields ''retry_config'' 1 50 [''max_retries'', ''llm_max_retries'', ''gateway_max_retries''] @
      int_fields ''retry_config'' 1 600 [''base_backoff'', ''max_backoff''] @
      int_fields ''retry_config'' 5 3600 [''health_check_interval''])"

definition validate_limits_config :: check where
  "validate_limits_config = object_of ''limits_config''
     (map (\<lambda>(f, lo, hi). (f, int_in_range (''limits_config.'' @ f) lo hi))
        [(''max_tools'', 1, 200), (''max_context_tokens'', 100, 1000000), (''max_per_domain_skills'', 1, 50), (''audit_log_recent'', 1, 10000),
         (''embedding_cache_size'', 10, 100000), (''top_roles_limit'', 1, 100), (''smart_retriever_token_budget'', 100, 1000000),
         (''smart_retriever_limit'', 1, 100)] @
      [(''low_performance_threshold'', float_in_range ''limits_config.low_performance_threshold'' ''0.0 and 1.0'' 0 1)])"

definition validate_polling_config :: check where
  "validate_polling_config = object_of ''polling_config''
     (int_fields ''polling_config'' 1 86400
        [''signal_interval'', ''gmail_interval'', ''update_check_interval'', ''data_flush_interval'', ''auto_cleanup_interval''])"

definition validate_agent_timeouts :: check where
  "validate_agent_timeouts = object_of ''agent_timeouts''
     (int_fields ''agent_timeouts'' 1 3600 [''tool_timeout'', ''chat_timeout''] @ int_fields ''agent_timeouts'' 1 100 [''max_turns''])"

definition log_levels :: "string list" where
  "log_levels = [''CRITICAL'', ''DEBUG'', ''ERROR'', ''INFO'', ''WARNING'']"

definition check_level :: check where
  "check_level v =
     (case v of
        JStr s \<Rightarrow> one_of log_levels ''logging_config.level'' (JStr (str_upper (str_strip s)))
      | _ \<Rightarrow> reject ''logging_config.level must be a string'')"

definition validate_logging_config :: check where
  "validate_logging_config = object_of ''logging_config''
     [(''level'', check_level), (''format'', one_of [''json'', ''text''] ''logging_config.format'')]"

section \<open>Lists\<close>

text \<open>
  A loop over the items with their numbers; \<open>s\<close> is what the loop has seen.
\<close>

fun check_items :: "(nat \<Rightarrow> 's \<Rightarrow> json \<Rightarrow> exn + json \<times> 's) \<Rightarrow> nat \<Rightarrow> 's \<Rightarrow> json list \<Rightarrow> exn + json list" where
  "check_items chk i s [] = Inr []"
| "check_items chk i s (x # xs) =
     bind_res (chk i s x) (\<lambda>(y, s'). bind_res (check_items chk (Suc i) s' xs) (\<lambda>ys. Inr (y # ys)))"

definition require_list :: "string \<Rightarrow> (nat \<Rightarrow> 's \<Rightarrow> json \<Rightarrow> exn + json \<times> 's) \<Rightarrow> 's \<Rightarrow> check" where
  "require_list m chk s v =
     (case v of
        JList xs \<Rightarrow> bind_res (check_items chk 0 s xs) (\<lambda>ys. Inr (JList ys))
      | _ \<Rightarrow> reject m)"

definition at_index :: "string \<Rightarrow> nat \<Rightarrow> string" where
  "at_index key i = key @ ''['' @ nat_str i @ '']''"

definition ensure_field :: "json_obj \<Rightarrow> string \<Rightarrow> json \<Rightarrow> (json \<Rightarrow> bool) \<Rightarrow> string \<Rightarrow> exn + json" where
  "ensure_field d f v P m = ensure P m (dget_or d f v)"

text \<open>The name of an item, which no earlier one has.\<close>

definition fresh_name :: "string \<Rightarrow> nat \<Rightarrow> string list \<Rightarrow> json_obj \<Rightarrow> exn + string" where
  "fresh_name key i seen d =
     (case dget_or d ''name'' JNull of
        JStr n \<Rightarrow>
          if n = [] then reject (at_index key i @ ''.name must be a non-empty string'')
          else if n \<in> set seen then reject (key @ '': duplicate name '' @ quoted n)
          else Inr n
      | _ \<Rightarrow> reject (at_index key i @ ''.name must be a non-empty string''))"

definition check_mcp_server :: "nat \<Rightarrow> string list \<Rightarrow> json \<Rightarrow> exn + json \<times> string list" where
  "check_mcp_server i seen item =
     (let pre = at_index ''mcp_servers'' i in
      case item of
        JObj d \<Rightarrow>
          bind_res (fresh_name ''mcp_servers'' i seen d) (\<lambda>name.
          bind_res (ensure_field d ''command'' JNull is_name (pre @ ''.command must be a non-empty string'')) (\<lambda>command.
          bind_res (ensure_field d ''args'' (JList []) is_str_list (pre @ ''.args must be list[str]'')) (\<lambda>args.
          bind_res (ensure_field d ''env'' (JObj []) is_str_dict (pre @ ''.env must be dict[str, str]'')) (\<lambda>env.
          bind_res (ensure_field d ''enabled'' (JBool True) is_bool (pre @ ''.enabled must be bool'')) (\<lambda>enabled.
          Inr (JObj [(''name'', JStr name), (''command'', command), (''args'', args), (''env'', env), (''enabled'', enabled)], seen @ [name]))))))
      | _ \<Rightarrow> reject (pre @ '' must be an object''))"

definition validate_mcp_servers :: check where
  "validate_mcp_servers = require_list ''mcp_servers must be a list'' check_mcp_server []"

definition market_types :: "string list" where
  "market_types = [''clawhub'', ''mcp_registry'', ''skills_sh'', ''skillsmp'']"

definition check_skill_market :: "nat \<Rightarrow> string list \<Rightarrow> json \<Rightarrow> exn + json \<times> string list" where
  "check_skill_market i seen item =
     (let pre = at_index ''skill_markets'' i in
      case item of
        JObj d \<Rightarrow>
          bind_res (fresh_name ''skill_markets'' i seen d) (\<lambda>name.
          bind_res (one_of market_types (pre @ ''.type'') (dget_or d ''type'' JNull)) (\<lambda>mtype.
          bind_res (coerce_bool (pre @ ''.enabled'') (dget_or d ''enabled'' (JBool True))) (\<lambda>enabled.
          bind_res (fields [(''url'', ensure is_str (pre @ ''.url must be string''))] d) (\<lambda>url.
          Inr (JObj ([(''name'', JStr name), (''type'', mtype), (''enabled'', enabled)] @ url), seen @ [name])))))
      | _ \<Rightarrow> reject (pre @ '' must be an object''))"

definition validate_skill_markets :: check where
  "validate_skill_markets = require_list ''skill_markets must be a list'' check_skill_market []"

fun check_blacklist :: "json_obj \<Rightarrow> exn + json_obj" where
  "check_blacklist [] = Inr []"
| "check_blacklist ((domain, tools) # d) =
     (case tools of
        JList ts \<Rightarrow>
          if list_all is_name ts then bind_res (check_blacklist d) (\<lambda>out. Inr ((domain, tools) # out))
          else reject (''safety_blacklist['' @ quoted domain @ ''] contains an invalid tool name'')
      | _ \<Rightarrow> reject (''safety_blacklist['' @ quoted domain @ ''] must be a list of tool names''))"

definition validate_safety_blacklist :: check where
  "validate_safety_blacklist = require_dict ''safety_blacklist'' (\<lambda>d. bind_res (check_blacklist d) (\<lambda>out. Inr (JObj out)))"

definition check_approval_tool :: "nat \<Rightarrow> unit \<Rightarrow> json \<Rightarrow> exn + json \<times> unit" where
  "check_approval_tool i u item =
     (if is_name item then Inr (item, ()) else reject (at_index ''safety_approval'' i @ '' must be a non-empty string''))"

definition validate_safety_approval :: check where
  "validate_safety_approval = require_list ''safety_approval must be a list of tool name strings'' check_approval_tool ()"

definition check_rule :: "nat \<Rightarrow> unit \<Rightarrow> json \<Rightarrow> exn + json \<times> unit" where
  "check_rule i u rule =
     (let pre = at_index ''monitoring_config.rules'' i in
      case rule of
        JObj d \<Rightarrow>
          bind_res (ensure_field d ''name'' JNull is_name (pre @ ''.name must be a non-empty string'')) (\<lambda>name.
          bind_res (ensure_field d ''enabled'' (JBool True) is_bool (pre @ ''.enabled must be bool'')) (\<lambda>enabled.
          bind_res (int_check (pre @ ''.interval_seconds'') (\<lambda>i. 60 \<le> i) '' must be >= 60'' (dget_or d ''interval_seconds'' JNull)) (\<lambda>interval.
          Inr (JObj [(''name'', name), (''enabled'', enabled), (''interval_seconds'', interval)], ()))))
      | _ \<Rightarrow> reject (pre @ '' must be an object''))"

definition loop_fields :: "string list" where
  "loop_fields = [''cooldown_minutes'', ''max_auto_actions'']"

definition check_loop_protector :: check where
  "check_loop_protector = require_dict ''monitoring_config.loop_protector'' (\<lambda>lp.
     bind_res (fields (map (\<lambda>f. (f, int_check (''monitoring_config.loop_protector.'' @ f) (\<lambda>i. 0 \<le> i) '' must be >= 0'')) loop_fields) lp)
       (\<lambda>out. Inr (JObj out)))"

text \<open>The fields of the loop protector may come at the top level, in the order of \<open>_LP_FIELDS\<close>.\<close>

definition wrap_loop_fields :: "json_obj \<Rightarrow> json_obj" where
  "wrap_loop_fields d =
     (if list_ex (\<lambda>k. dget d k \<noteq> None) loop_fields \<and> dget d ''loop_protector'' = None
      then filter (\<lambda>(k, _). k \<notin> set loop_fields) d
           @ [(''loop_protector'', JObj (List.map_filter (\<lambda>k. map_option (Pair k) (dget d k)) loop_fields))]
      else d)"

definition monitoring_fields :: "(string \<times> check) list" where
  "monitoring_fields =
     [(''rules'', require_list ''monitoring_config.rules must be a list'' check_rule ()), (''loop_protector'', check_loop_protector)]"

definition validate_monitoring_config :: check where
  "validate_monitoring_config =
     require_dict ''monitoring_config'' (\<lambda>d. nonempty_fields ''monitoring_config'' monitoring_fields (wrap_loop_fields d))"

definition check_cron :: "(nat \<Rightarrow> nat) \<Rightarrow> nat \<Rightarrow> unit \<Rightarrow> json \<Rightarrow> exn + json \<times> unit" where
  "check_cron fresh i u item =
     (let pre = at_index ''scheduler_cron'' i in
      case item of
        JObj d \<Rightarrow>
          bind_res (ensure_field d ''name'' JNull is_name (pre @ ''.name must be a non-empty string'')) (\<lambda>name.
          bind_res (ensure_field d ''schedule'' JNull is_name (pre @ ''.schedule must be a non-empty string'')) (\<lambda>schedule.
          bind_res (ensure_field d ''task'' JNull is_name (pre @ ''.task must be a non-empty string'')) (\<lambda>task.
          bind_res (coerce_bool (pre @ ''.enabled'') (dget_or d ''enabled'' (JBool True))) (\<lambda>enabled.
          let given = dget_or d ''id'' JNull;
              job_id = (if truthy given then given else JStr (uuid_text (fresh i)))
          in Inr (JObj ([(''id'', job_id), (''name'', name), (''schedule'', schedule), (''task'', task), (''enabled'', enabled)] @
               (case dget d ''model'' of None \<Rightarrow> [] | Some m \<Rightarrow> [(''model'', m)])), ())))))
      | _ \<Rightarrow> reject (pre @ '' must be an object''))"

definition validate_scheduler_cron :: "(nat \<Rightarrow> nat) \<Rightarrow> check" where
  "validate_scheduler_cron fresh = require_list ''scheduler_cron must be a list'' (check_cron fresh) ()"

definition is_url :: "json \<Rightarrow> bool" where
  "is_url v = (case v of JStr s \<Rightarrow> startswith s ''http://'' \<or> startswith s ''https://'' | _ \<Rightarrow> False)"

definition check_endpoint :: "nat \<Rightarrow> unit \<Rightarrow> json \<Rightarrow> exn + json \<times> unit" where
  "check_endpoint i u item =
     (let pre = at_index ''webhook_endpoints'' i in
      case item of
        JObj d \<Rightarrow>
          bind_res (ensure_field d ''url'' JNull is_name (pre @ ''.url must be a non-empty string'')) (\<lambda>url0.
          bind_res (ensure is_url (pre @ ''.url must start with http:// or https://'') url0) (\<lambda>url.
          bind_res (ensure_field d ''event_type'' JNull is_name (pre @ ''.event_type must be a non-empty string'')) (\<lambda>event_type.
          bind_res (ensure_field d ''active'' (JBool True) is_bool (pre @ ''.active must be bool'')) (\<lambda>active.
          Inr (JObj [(''url'', url), (''event_type'', event_type), (''active'', active)], ())))))
      | _ \<Rightarrow> reject (pre @ '' must be an object''))"

definition validate_webhook_endpoints :: check where
  "validate_webhook_endpoints = require_list ''webhook_endpoints must be a list'' check_endpoint ()"

section \<open>Keys\<close>

definition api_key_names :: "string list" where
  "api_key_names = [''ANTHROPIC_API_KEY'', ''GEMINI_API_KEY'', ''OPENAI_API_KEY'', ''XAI_API_KEY'']"

definition phase1 :: "(string \<times> check) list" where
  "phase1 = [(''llm'', validate_llm), (''persona'', validate_persona), (''custom_prompts'', validate_custom_prompts),
     (''custom_instructions'', validate_instructions), (''embedding_config'', validate_embedding)]"

definition phase2 :: "(nat \<Rightarrow> nat) \<Rightarrow> (string \<times> check) list" where
  "phase2 fresh = [(''mcp'', validate_mcp), (''mcp_servers'', validate_mcp_servers), (''skill_markets'', validate_skill_markets),
     (''safety_blacklist'', validate_safety_blacklist), (''safety_approval'', validate_safety_approval),
     (''safety_permissions'', validate_safety_permissions), (''tool_security'', validate_tool_security),
     (''monitoring_config'', validate_monitoring_config), (''scheduler_cron'', validate_scheduler_cron fresh),
     (''webhook_endpoints'', validate_webhook_endpoints)]"

definition phase3 :: "(string \<times> check) list" where
  "phase3 = [(''memory_gc_config'', validate_memory_gc_config), (''system_timeouts'', validate_system_timeouts),
     (''retry_config'', validate_retry_config), (''limits_config'', validate_limits_config), (''polling_config'', validate_polling_config),
     (''agent_timeouts'', validate_agent_timeouts), (''logging_config'', validate_logging_config)]"

definition is_credential_key :: "string \<Rightarrow> bool" where
  "is_credential_key key = startswith key ''apikey:''"

definition phase1_keys :: "string list" where
  "phase1_keys = [''llm'', ''persona'', ''custom_prompts'', ''custom_instructions'', ''embedding_config'']"

definition phase2_keys :: "string list" where
  "phase2_keys = [''mcp'', ''mcp_servers'', ''skill_markets'', ''safety_blacklist'', ''safety_approval'', ''safety_permissions'',
     ''tool_security'', ''monitoring_config'', ''scheduler_cron'', ''webhook_endpoints'']"

definition phase3_keys :: "string list" where
  "phase3_keys = [''memory_gc_config'', ''system_timeouts'', ''retry_config'', ''limits_config'', ''polling_config'', ''agent_timeouts'',
     ''logging_config'']"

definition is_allowed_key :: "string \<Rightarrow> bool" where
  "is_allowed_key key =
     (if key \<in> set phase1_keys then True
      else if key \<in> set phase2_keys then True
      else if key \<in> set phase3_keys then True
      else if startswith key ''apikey:'' then drop 7 key \<in> set api_key_names
      else False)"

definition requires_restart :: "string \<Rightarrow> bool" where
  "requires_restart key = (key = ''embedding_config'')"

text \<open>The chain of comparisons of \<open>validate_value\<close>, as tables in its order.\<close>

definition validate_value :: "(nat \<Rightarrow> nat) \<Rightarrow> string \<Rightarrow> check" where
  "validate_value fresh key v =
     (case dget phase1 key of
        Some chk \<Rightarrow> chk v
      | None \<Rightarrow>
          if is_credential_key key then validate_credential v
          else (case dget (phase2 fresh @ phase3) key of
             Some chk \<Rightarrow> chk v
           | None \<Rightarrow> reject (''unknown key: '' @ key)))"

section \<open>Accepted values are accepted again\<close>

named_theorems stable_rules \<open>checks whose results they accept unchanged\<close>

definition stable :: "check \<Rightarrow> check \<Rightarrow> bool" where
  "stable c c' \<longleftrightarrow> (\<forall>v w. c v = Inr w \<longrightarrow> c' w = Inr w)"

abbreviation fixing :: "check \<Rightarrow> bool" where
  "fixing c \<equiv> stable c c"

lemma stableI: "(\<And>v w. c v = Inr w \<Longrightarrow> c' w = Inr w) \<Longrightarrow> stable c c'"
  by (simp add: stable_def)

lemma reject_neq [simp]: "reject m \<noteq> Inr x" "(reject m = Inr x) = False"
  by (simp_all add: reject_def)

lemma fixing_ensure [stable_rules]: "fixing (ensure P m)"
  by (rule stableI) (simp add: ensure_def split: if_splits)

lemma fixing_coerce_bool [stable_rules]: "fixing (coerce_bool f)"
proof (rule stableI)
  fix v w assume "coerce_bool f v = Inr w"
  then obtain b where "w = JBool b" unfolding coerce_bool_def Let_def by (cases v) (auto split: if_split_asm)
  then show "coerce_bool f w = Inr w" by (simp add: coerce_bool_def)
qed

lemma one_of_same: "one_of names what v = Inr w \<Longrightarrow> w = v"
  by (simp add: one_of_def split: json.splits if_split_asm)

lemma fixing_one_of [stable_rules]: "fixing (one_of names what)"
  by (rule stableI) (frule one_of_same, simp)

lemma fixing_int_check [stable_rules]: "fixing (int_check f P m)"
  by (rule stableI) (auto simp: int_check_def split: sum.splits if_split_asm)

lemma fixing_int_in_range [stable_rules]: "fixing (int_in_range f lo hi)"
  unfolding int_in_range_def by (rule fixing_int_check)

lemma fixing_float_in_range [stable_rules]: "fixing (float_in_range f b lo hi)"
  by (rule stableI) (auto simp: float_in_range_def split: sum.splits option.splits if_split_asm)

lemma fields_keys: "fields fs d = Inr out \<Longrightarrow> set (dkeys out) \<subseteq> set (dkeys fs)"
proof (induction fs arbitrary: out)
  case (Cons p fs)
  obtain f c where p: "p = (f, c)" by (cases p)
  show ?case
  proof (cases "dget d f")
    case None
    then show ?thesis using Cons.IH [of out] Cons.prems by (auto simp: p)
  next
    case (Some v)
    then obtain w out' where "fields fs d = Inr out'" "out = (f, w) # out'" using Cons.prems p by (auto simp: bind_res_eq_Inr)
    with Cons.IH [of out'] show ?thesis by (auto simp: p)
  qed
qed simp

text \<open>Only the fields of the table are read, so other entries do not matter.\<close>

lemma fields_again:
  assumes "fields fs d = Inr out" "distinct (dkeys fs)" "\<And>f c. (f, c) \<in> set fs \<Longrightarrow> fixing c"
    and "\<And>f. f \<in> set (dkeys fs) \<Longrightarrow> dget e f = dget out f"
  shows "fields fs e = Inr out"
  using assms
proof (induction fs arbitrary: out)
  case (Cons p fs)
  obtain f c where p: "p = (f, c)" by (cases p)
  have f: "f \<notin> set (dkeys fs)" using Cons.prems(2) p by simp
  show ?case
  proof (cases "dget d f")
    case None
    then have out: "fields fs d = Inr out" using Cons.prems(1) p by simp
    have "dget out f = None" using fields_keys [OF out] f by (auto simp: dget_None_iff)
    moreover have "fields fs e = Inr out" using Cons.prems(2-4) by (intro Cons.IH [OF out]) (auto simp: p)
    ultimately show ?thesis using Cons.prems(4) [of f] by (simp add: p)
  next
    case (Some v)
    then obtain w out' where w: "c v = Inr w" and out': "fields fs d = Inr out'" and out: "out = (f, w) # out'"
      using Cons.prems(1) p by (auto simp: bind_res_eq_Inr)
    have "dget e g = dget out' g" if "g \<in> set (dkeys fs)" for g
      using Cons.prems(4) [of g] that f by (auto simp: p out)
    then have "fields fs e = Inr out'" using Cons.prems(2,3) by (intro Cons.IH [OF out']) (auto simp: p)
    moreover have "c w = Inr w" using Cons.prems(3) [of f c] w by (simp add: p stable_def)
    ultimately show ?thesis using Cons.prems(4) [of f] by (simp add: p out)
  qed
qed simp

definition fixing_fields :: "(string \<times> check) list \<Rightarrow> bool" where
  "fixing_fields fs \<longleftrightarrow> distinct (dkeys fs) \<and> (\<forall>(f, c) \<in> set fs. fixing c)"

lemma fixing_fieldsD: "fixing_fields fs \<Longrightarrow> fields fs d = Inr out \<Longrightarrow> fields fs out = Inr out"
  by (rule fields_again) (auto simp: fixing_fields_def)

lemma fixing_nonempty: "fixing_fields fs \<Longrightarrow> nonempty_fields key fs d = Inr w \<Longrightarrow> \<exists>out. w = JObj out \<and> nonempty_fields key fs out = Inr w"
  by (auto simp: nonempty_fields_def bind_res_eq_Inr dest: fixing_fieldsD split: if_split_asm)

lemma fixing_object [stable_rules]: "fixing_fields fs \<Longrightarrow> fixing (object_of key fs)"
proof (rule stableI)
  fix v w assume fs: "fixing_fields fs" and "object_of key fs v = Inr w"
  then obtain d where "nonempty_fields key fs d = Inr w" by (auto simp: object_of_def require_dict_def split: json.splits)
  from fixing_nonempty [OF fs this] show "object_of key fs w = Inr w" by (auto simp: object_of_def require_dict_def)
qed

lemma fixing_fields_Nil [stable_rules]: "fixing_fields []"
  by (simp add: fixing_fields_def)

lemma fixing_fields_Cons [stable_rules]:
  "f \<notin> set (dkeys fs) \<Longrightarrow> fixing c \<Longrightarrow> fixing_fields fs \<Longrightarrow> fixing_fields ((f, c) # fs)"
  by (simp add: fixing_fields_def)

lemma fixing_fields_append:
  "fixing_fields fs \<Longrightarrow> fixing_fields gs \<Longrightarrow> set (dkeys fs) \<inter> set (dkeys gs) = {} \<Longrightarrow> fixing_fields (fs @ gs)"
  by (auto simp: fixing_fields_def)

lemma fixing_fields_map:
  "distinct fs \<Longrightarrow> (\<And>f. fixing (c f)) \<Longrightarrow> fixing_fields (map (\<lambda>f. (f, c f)) fs)"
  by (auto simp: fixing_fields_def comp_def)

lemma fixing_int_fields: "distinct fs \<Longrightarrow> fixing_fields (int_fields key lo hi fs)"
  unfolding int_fields_def by (rule fixing_fields_map) (simp_all add: fixing_int_in_range)

lemma dkeys_int_fields [simp]: "dkeys (int_fields key lo hi fs) = fs"
  by (simp add: int_fields_def comp_def)

lemma dkeys_map_Pair: "dkeys (map (\<lambda>f. (f, c f)) fs) = fs"
  by (simp add: comp_def)

lemma check_items_again:
  assumes "check_items chk i s xs = Inr ys" "\<And>i s x y s'. chk i s x = Inr (y, s') \<Longrightarrow> chk' i s y = Inr (y, s')"
  shows "check_items chk' i s ys = Inr ys"
  using assms(1)
proof (induction xs arbitrary: i s ys)
  case (Cons x xs)
  then obtain y s' zs where "chk i s x = Inr (y, s')" "check_items chk (Suc i) s' xs = Inr zs" "ys = y # zs"
    by (auto simp: bind_res_eq_Inr)
  with Cons.IH [of "Suc i" s' zs] show ?case by (simp add: assms(2))
qed simp

lemma stable_list:
  assumes "\<And>i s x y s'. chk i s x = Inr (y, s') \<Longrightarrow> chk' i s y = Inr (y, s')"
  shows "stable (require_list m chk s) (require_list m chk' s)"
proof (rule stableI)
  fix v w assume "require_list m chk s v = Inr w"
  then obtain xs ys where "check_items chk 0 s xs = Inr ys" "w = JList ys"
    by (auto simp: require_list_def bind_res_eq_Inr split: json.splits)
  with check_items_again [OF this(1) assms] show "require_list m chk' s w = Inr w" by (simp add: require_list_def)
qed

lemmas object_rules = fixing_object fixing_fields_append fixing_fields_Cons fixing_fields_Nil fixing_fields_map fixing_int_fields

lemma fixing_llm: "fixing validate_llm"
  unfolding validate_llm_def by (intro object_rules stable_rules) simp_all

lemma fixing_persona: "fixing validate_persona"
  unfolding validate_persona_def by (intro object_rules stable_rules) simp_all

lemma fixing_prompts: "fixing validate_custom_prompts"
  unfolding validate_custom_prompts_def by (intro object_rules stable_rules) simp_all

lemma fixing_instructions: "fixing validate_instructions"
  by (rule stableI) (auto simp: validate_instructions_def split: json.splits if_split_asm)

lemma fixing_embedding: "fixing validate_embedding"
  unfolding validate_embedding_def by (intro object_rules stable_rules) simp_all

lemma fixing_mcp: "fixing validate_mcp"
  unfolding validate_mcp_def by (intro object_rules stable_rules) simp_all

lemma fixing_user_permissions: "fixing check_user_permissions"
  by (rule stableI) (auto simp: check_user_permissions_def split: json.splits option.splits)

lemma fixing_permissions: "fixing validate_safety_permissions"
  unfolding validate_safety_permissions_def by (intro object_rules stable_rules fixing_user_permissions) simp_all

lemma fixing_security: "fixing validate_tool_security"
  unfolding validate_tool_security_def by (intro object_rules stable_rules) simp_all

lemma fixing_gc: "fixing validate_memory_gc_config"
  unfolding validate_memory_gc_config_def by (intro object_rules stable_rules) simp_all

lemma fixing_timeouts: "fixing validate_system_timeouts"
  unfolding validate_system_timeouts_def by (intro object_rules) simp_all

lemma fixing_retry: "fixing validate_retry_config"
  unfolding validate_retry_config_def by (intro object_rules) simp_all

lemma fixing_polling: "fixing validate_polling_config"
  unfolding validate_polling_config_def by (intro object_rules) simp_all

lemma fixing_agent: "fixing validate_agent_timeouts"
  unfolding validate_agent_timeouts_def by (intro object_rules) simp_all


lemma fixing_limits: "fixing validate_limits_config"
  unfolding validate_limits_config_def by (intro object_rules stable_rules) (auto simp: fixing_fields_def intro: fixing_int_in_range)

lemma level_fixed: "l \<in> set log_levels \<Longrightarrow> str_upper (str_strip l) = l"
  by (auto simp: log_levels_def str_upper_def str_strip_def is_space_def)

lemma fixing_level: "fixing check_level"
proof (rule stableI)
  fix v w assume "check_level v = Inr w"
  then obtain s where s: "one_of log_levels ''logging_config.level'' (JStr s) = Inr w"
    unfolding check_level_def by (cases v) auto
  then have w: "w = JStr s" by (rule one_of_same)
  have "s \<in> set log_levels" using s by (auto simp: one_of_def split: if_split_asm)
  then show "check_level w = Inr w" using s by (simp add: check_level_def w level_fixed)
qed

lemma fixing_logging: "fixing validate_logging_config"
  unfolding validate_logging_config_def by (intro object_rules stable_rules fixing_level) simp_all

lemma fresh_name_again: "fresh_name key i seen d = Inr n \<Longrightarrow> dget e ''name'' = Some (JStr n) \<Longrightarrow> fresh_name key i seen e = Inr n"
  by (simp add: fresh_name_def dget_or_def split: json.splits if_split_asm)

lemma ensure_field_again: "ensure_field d f v P m = Inr w \<Longrightarrow> dget e f = Some w \<Longrightarrow> ensure_field e f v P m = Inr w"
  by (auto simp: ensure_field_def ensure_def dget_or_def split: if_split_asm)

lemma fixingD: "fixing c \<Longrightarrow> c v = Inr w \<Longrightarrow> c w = Inr w"
  by (simp add: stable_def)

lemma mcp_server_again: "check_mcp_server i seen x = Inr (y, s') \<Longrightarrow> check_mcp_server i seen y = Inr (y, s')"
proof -
  assume "check_mcp_server i seen x = Inr (y, s')"
  then obtain d n c a v b where ok: "fresh_name ''mcp_servers'' i seen d = Inr n"
    "ensure_field d ''command'' JNull is_name (at_index ''mcp_servers'' i @ ''.command must be a non-empty string'') = Inr c"
    "ensure_field d ''args'' (JList []) is_str_list (at_index ''mcp_servers'' i @ ''.args must be list[str]'') = Inr a"
    "ensure_field d ''env'' (JObj []) is_str_dict (at_index ''mcp_servers'' i @ ''.env must be dict[str, str]'') = Inr v"
    "ensure_field d ''enabled'' (JBool True) is_bool (at_index ''mcp_servers'' i @ ''.enabled must be bool'') = Inr b"
    and y: "y = JObj [(''name'', JStr n), (''command'', c), (''args'', a), (''env'', v), (''enabled'', b)]" "s' = seen @ [n]"
    unfolding check_mcp_server_def Let_def by (cases x) (auto simp: bind_res_eq_Inr)
  let ?e = "[(''name'', JStr n), (''command'', c), (''args'', a), (''env'', v), (''enabled'', b)]"
  have get: "dget ?e ''name'' = Some (JStr n)" "dget ?e ''command'' = Some c" "dget ?e ''args'' = Some a" "dget ?e ''env'' = Some v"
    "dget ?e ''enabled'' = Some b" by simp_all
  show "check_mcp_server i seen y = Inr (y, s')"
    unfolding check_mcp_server_def Let_def y json.case fresh_name_again [OF ok(1) get(1)] ensure_field_again [OF ok(2) get(2)]
      ensure_field_again [OF ok(3) get(3)] ensure_field_again [OF ok(4) get(4)] ensure_field_again [OF ok(5) get(5)] bind_res_simps by (rule refl)
qed

lemma fixing_mcp_servers: "fixing validate_mcp_servers"
  unfolding validate_mcp_servers_def by (rule stable_list) (rule mcp_server_again)


lemma skill_market_again: "check_skill_market i seen x = Inr (y, s') \<Longrightarrow> check_skill_market i seen y = Inr (y, s')"
proof -
  let ?K = "''skill_markets''" and ?url = "\<lambda>d. fields [(''url'', ensure is_str (at_index ''skill_markets'' i @ ''.url must be string''))] d"
  assume "check_skill_market i seen x = Inr (y, s')"
  then obtain d n t b u where ok: "fresh_name ?K i seen d = Inr n"
    "one_of market_types (at_index ?K i @ ''.type'') (dget_or d ''type'' JNull) = Inr t"
    "coerce_bool (at_index ?K i @ ''.enabled'') (dget_or d ''enabled'' (JBool True)) = Inr b" "?url d = Inr u"
    and y: "y = JObj ([(''name'', JStr n), (''type'', t), (''enabled'', b)] @ u)" "s' = seen @ [n]"
    unfolding check_skill_market_def Let_def by (cases x) (auto simp: bind_res_eq_Inr)
  let ?e = "[(''name'', JStr n), (''type'', t), (''enabled'', b)] @ u"
  have get: "dget ?e ''name'' = Some (JStr n)" "dget_or ?e ''type'' JNull = t" "dget_or ?e ''enabled'' (JBool True) = b"
    by (simp_all add: dget_or_def)
  have url: "?url ?e = Inr u"
    by (rule fields_again [OF ok(4)]) (auto intro: stable_rules)
  show "check_skill_market i seen y = Inr (y, s')"
    unfolding check_skill_market_def Let_def y json.case fresh_name_again [OF ok(1) get(1)] bind_res_simps get(2,3)
      fixingD [OF fixing_one_of ok(2)] fixingD [OF fixing_coerce_bool ok(3)] url by (rule refl)
qed

lemma fixing_markets: "fixing validate_skill_markets"
  unfolding validate_skill_markets_def by (rule stable_list) (rule skill_market_again)

lemma check_blacklist_same: "check_blacklist d = Inr e \<Longrightarrow> e = d"
  by (induction d arbitrary: e rule: check_blacklist.induct) (auto simp: bind_res_eq_Inr split: json.splits if_split_asm)

lemma fixing_blacklist: "fixing validate_safety_blacklist"
  by (rule stableI) (auto simp: validate_safety_blacklist_def require_dict_def bind_res_eq_Inr dest: check_blacklist_same split: json.splits)

lemma fixing_approval: "fixing validate_safety_approval"
  unfolding validate_safety_approval_def by (rule stable_list) (auto simp: check_approval_tool_def split: if_split_asm)

lemma rule_again: "check_rule i u x = Inr (y, s') \<Longrightarrow> check_rule i u y = Inr (y, s')"
proof -
  let ?at = "at_index ''monitoring_config.rules'' i"
  assume "check_rule i u x = Inr (y, s')"
  then obtain d n b t where ok: "ensure_field d ''name'' JNull is_name (?at @ ''.name must be a non-empty string'') = Inr n"
    "ensure_field d ''enabled'' (JBool True) is_bool (?at @ ''.enabled must be bool'') = Inr b"
    "int_check (?at @ ''.interval_seconds'') (\<lambda>i. 60 \<le> i) '' must be >= 60'' (dget_or d ''interval_seconds'' JNull) = Inr t"
    and y: "y = JObj [(''name'', n), (''enabled'', b), (''interval_seconds'', t)]"
    unfolding check_rule_def Let_def by (cases x) (auto simp: bind_res_eq_Inr)
  let ?e = "[(''name'', n), (''enabled'', b), (''interval_seconds'', t)]"
  have get: "dget ?e ''name'' = Some n" "dget ?e ''enabled'' = Some b" "dget_or ?e ''interval_seconds'' JNull = t"
    by (simp_all add: dget_or_def)
  show "check_rule i u y = Inr (y, s')"
    unfolding check_rule_def Let_def y json.case ensure_field_again [OF ok(1) get(1)] ensure_field_again [OF ok(2) get(2)] get(3)
      bind_res_simps fixingD [OF fixing_int_check ok(3)] by simp
qed

lemma fixing_loop: "fixing check_loop_protector"
proof (rule stableI)
  let ?fs = "map (\<lambda>f. (f, int_check (''monitoring_config.loop_protector.'' @ f) (\<lambda>i. 0 \<le> i) '' must be >= 0'')) loop_fields"
  fix v w assume "check_loop_protector v = Inr w"
  then obtain d out where out: "fields ?fs d = Inr out" "w = JObj out"
    by (auto simp: check_loop_protector_def require_dict_def bind_res_eq_Inr split: json.splits)
  have "fixing_fields ?fs" by (intro fixing_fields_map stable_rules) (simp add: loop_fields_def)
  from fixing_fieldsD [OF this out(1)] show "check_loop_protector w = Inr w"
    by (simp add: check_loop_protector_def require_dict_def out(2))
qed

lemma fixing_monitoring_fields: "fixing_fields monitoring_fields"
  unfolding monitoring_fields_def by (intro stable_rules fixing_loop stable_list) (auto intro: rule_again)

lemma fixing_monitoring: "fixing validate_monitoring_config"
proof (rule stableI)
  fix v w assume "validate_monitoring_config v = Inr w"
  then obtain d where d: "nonempty_fields ''monitoring_config'' monitoring_fields (wrap_loop_fields d) = Inr w"
    by (auto simp: validate_monitoring_config_def require_dict_def split: json.splits)
  from fixing_nonempty [OF fixing_monitoring_fields d] obtain out where
    out: "w = JObj out" "nonempty_fields ''monitoring_config'' monitoring_fields out = Inr w" by blast
  have keys: "set (dkeys out) \<subseteq> {''rules'', ''loop_protector''}"
    using d fields_keys [of monitoring_fields "wrap_loop_fields d" out]
    by (auto simp: nonempty_fields_def bind_res_eq_Inr out(1) monitoring_fields_def split: if_split_asm)
  have "dget out k = None" if "k \<in> set loop_fields" for k
    using that keys by (auto simp: dget_None_iff loop_fields_def)
  then have "wrap_loop_fields out = out" by (auto simp: wrap_loop_fields_def list_ex_iff)
  then show "validate_monitoring_config w = Inr w" using out by (simp add: validate_monitoring_config_def require_dict_def)
qed

lemma uuid_text_nonempty [simp]: "uuid_text n \<noteq> []"
  by (simp add: uuid_text_def)

lemma cron_again:
  assumes ok: "check_cron fresh i u x = Inr (y, s')"
  shows "check_cron fresh' i u y = Inr (y, s')"
proof -
  let ?at = "at_index ''scheduler_cron'' i"
  from ok obtain d n s t b where ok: "ensure_field d ''name'' JNull is_name (?at @ ''.name must be a non-empty string'') = Inr n"
    "ensure_field d ''schedule'' JNull is_name (?at @ ''.schedule must be a non-empty string'') = Inr s"
    "ensure_field d ''task'' JNull is_name (?at @ ''.task must be a non-empty string'') = Inr t"
    "coerce_bool (?at @ ''.enabled'') (dget_or d ''enabled'' (JBool True)) = Inr b"
    and y: "y = JObj ([(''id'', if truthy (dget_or d ''id'' JNull) then dget_or d ''id'' JNull else JStr (uuid_text (fresh i))), (''name'', n),
        (''schedule'', s), (''task'', t), (''enabled'', b)] @ (case dget d ''model'' of None \<Rightarrow> [] | Some m \<Rightarrow> [(''model'', m)]))"
    unfolding check_cron_def Let_def by (cases x) (auto simp: bind_res_eq_Inr)
  obtain j where j: "j = (if truthy (dget_or d ''id'' JNull) then dget_or d ''id'' JNull else JStr (uuid_text (fresh i)))" by simp
  obtain ms where ms: "ms = (case dget d ''model'' of None \<Rightarrow> [] | Some m \<Rightarrow> [(''model'', m)])" by simp
  let ?e = "[(''id'', j), (''name'', n), (''schedule'', s), (''task'', t), (''enabled'', b)] @ ms"
  have truthy: "truthy j" by (simp add: j)
  have get: "dget ?e ''name'' = Some n" "dget ?e ''schedule'' = Some s" "dget ?e ''task'' = Some t" "dget_or ?e ''enabled'' (JBool True) = b"
    "dget_or ?e ''id'' JNull = j"
    by (simp_all add: dget_or_def)
  have model: "(case dget ?e ''model'' of None \<Rightarrow> [] | Some m \<Rightarrow> [(''model'', m)]) = ms"
    by (simp add: ms split: option.splits)
  have y': "y = JObj ?e" by (simp add: y j ms)
  show ?thesis
    unfolding check_cron_def Let_def y' json.case ensure_field_again [OF ok(1) get(1)] ensure_field_again [OF ok(2) get(2)]
      ensure_field_again [OF ok(3) get(3)] get(4,5) bind_res_simps fixingD [OF fixing_coerce_bool ok(4)] model
    using truthy by simp
qed

lemma endpoint_again: "check_endpoint i u x = Inr (y, s') \<Longrightarrow> check_endpoint i u y = Inr (y, s')"
proof -
  let ?at = "at_index ''webhook_endpoints'' i"
  assume "check_endpoint i u x = Inr (y, s')"
  then obtain d r e b where ok: "ensure_field d ''url'' JNull is_name (?at @ ''.url must be a non-empty string'') = Inr r"
    "ensure is_url (?at @ ''.url must start with http:// or https://'') r = Inr r"
    "ensure_field d ''event_type'' JNull is_name (?at @ ''.event_type must be a non-empty string'') = Inr e"
    "ensure_field d ''active'' (JBool True) is_bool (?at @ ''.active must be bool'') = Inr b"
    and y: "y = JObj [(''url'', r), (''event_type'', e), (''active'', b)]"
    unfolding check_endpoint_def Let_def by (cases x) (auto simp: bind_res_eq_Inr ensure_def split: if_split_asm)
  let ?e = "[(''url'', r), (''event_type'', e), (''active'', b)]"
  have get: "dget ?e ''url'' = Some r" "dget ?e ''event_type'' = Some e" "dget ?e ''active'' = Some b" by simp_all
  show "check_endpoint i u y = Inr (y, s')"
    unfolding check_endpoint_def Let_def y json.case ensure_field_again [OF ok(1) get(1)] ensure_field_again [OF ok(3) get(2)]
      ensure_field_again [OF ok(4) get(3)] bind_res_simps ok(2) by simp
qed

lemma fixing_endpoints: "fixing validate_webhook_endpoints"
  unfolding validate_webhook_endpoints_def by (rule stable_list) (rule endpoint_again)

lemma stable_cron: "stable (validate_scheduler_cron fresh) (validate_scheduler_cron fresh')"
  unfolding validate_scheduler_cron_def by (rule stable_list) (rule cron_again)

lemma fixing_credential: "fixing validate_credential"
  unfolding validate_credential_def by (rule fixing_ensure)

text \<open>The tables hold checks whose results they accept, whatever numbers are drawn the second time.\<close>

lemma phase1_fixing: "(k, c) \<in> set phase1 \<Longrightarrow> fixing c"
  unfolding phase1_def by (auto intro: fixing_llm fixing_persona fixing_prompts fixing_instructions fixing_embedding)

lemma phase3_fixing: "(k, c) \<in> set phase3 \<Longrightarrow> fixing c"
  unfolding phase3_def by (auto intro: fixing_gc fixing_timeouts fixing_retry fixing_limits fixing_polling fixing_agent fixing_logging)

lemma phase2_stable: "list_all2 (\<lambda>(k, c) (k', c'). k = k' \<and> stable c c') (phase2 fresh) (phase2 fresh')"
  unfolding phase2_def
  by (simp add: fixing_mcp fixing_mcp_servers fixing_markets fixing_blacklist fixing_approval fixing_permissions fixing_security
      fixing_monitoring stable_cron fixing_endpoints)

lemma list_all2_lookup:
  "list_all2 (\<lambda>(k, c) (k', c'). k = k' \<and> R c c') xs ys \<Longrightarrow> dget xs k = Some c \<Longrightarrow> \<exists>c'. dget ys k = Some c' \<and> R c c'"
  by (induction rule: list_all2_induct) (auto split: if_splits)

lemma phase23_stable:
  assumes "dget (phase2 fresh @ phase3) k = Some c"
  shows "\<exists>c'. dget (phase2 fresh' @ phase3) k = Some c' \<and> stable c c'"
proof -
  have "list_all2 (\<lambda>(k, c) (k', c'). k = k' \<and> stable c c') phase3 phase3"
    using phase3_fixing by (auto intro!: list.rel_refl_strong)
  then have "list_all2 (\<lambda>(k, c) (k', c'). k = k' \<and> stable c c') (phase2 fresh @ phase3) (phase2 fresh' @ phase3)"
    using phase2_stable by (rule list_all2_appendI [rotated])
  from list_all2_lookup [OF this assms] show ?thesis .
qed

lemma validate_again:
  assumes "validate_value fresh k v = Inr w"
  shows "validate_value fresh' k w = Inr w"
proof (cases "dget phase1 k")
  case (Some c)
  then have "fixing c" using phase1_fixing by (auto dest: map_of_SomeD)
  with assms Some show ?thesis by (simp add: validate_value_def stable_def)
next
  case None
  show ?thesis
  proof (cases "is_credential_key k")
    case True
    with assms None fixingD [OF fixing_credential] show ?thesis by (simp add: validate_value_def)
  next
    case False
    with assms None obtain c where c: "dget (phase2 fresh @ phase3) k = Some c" "c v = Inr w"
      by (auto simp: validate_value_def split: option.splits)
    from phase23_stable [OF c(1)] obtain c' where "dget (phase2 fresh' @ phase3) k = Some c'" "stable c c'" by blast
    with c(2) None False show ?thesis by (simp add: validate_value_def stable_def)
  qed
qed

text \<open>
  C21. A validated setting is valid: what \<open>validate_value\<close> returns for a key is accepted again and returned unchanged, whatever identifiers are
  drawn the second time. So a stored setting can be read, merged and written back.
\<close>

theorem validated_value_fixed:
  assumes "validate_value fresh k v = Inr w"
  shows "validate_value fresh' k w = Inr w"
  by (rule validate_again [OF assms])

lemma validated_value_fixed_witness:
  "validate_value (\<lambda>i. i) ''logging_config'' (JObj [(''level'', JStr '' debug ''), (''x'', JNull)]) = Inr (JObj [(''level'', JStr ''DEBUG'')])
   \<and> validate_value (\<lambda>i. 0) ''logging_config'' (JObj [(''level'', JStr ''DEBUG'')]) = Inr (JObj [(''level'', JStr ''DEBUG'')])"
proof -
  have "validate_value (\<lambda>i. i) ''logging_config'' (JObj [(''level'', JStr '' debug ''), (''x'', JNull)]) = Inr (JObj [(''level'', JStr ''DEBUG'')])"
  proof -
    have "dget phase1 ''logging_config'' = None" "\<not> is_credential_key ''logging_config''"
      "dget (phase2 (\<lambda>i. i) @ phase3) ''logging_config'' = Some validate_logging_config"
      by (simp_all add: phase1_def phase2_def phase3_def is_credential_key_def)
    moreover have "str_upper (str_strip '' debug '') = ''DEBUG''" by code_simp
    ultimately show ?thesis
      by (simp add: validate_value_def validate_logging_config_def object_of_def require_dict_def nonempty_fields_def check_level_def one_of_def
          log_levels_def)
  qed
  from this validated_value_fixed [OF this, of "\<lambda>i. 0"] show ?thesis by blast
qed

text \<open>The whitelist names the keys that have a validator.\<close>

lemma whitelist_keys: "dkeys phase1 = phase1_keys" "dkeys (phase2 fresh) = phase2_keys" "dkeys phase3 = phase3_keys"
  by (simp_all add: phase1_def phase2_def phase3_def phase1_keys_def phase2_keys_def phase3_keys_def)

lemma allowed_has_validator:
  assumes "\<not> is_credential_key k"
  shows "is_allowed_key k \<longleftrightarrow> dget phase1 k \<noteq> None \<or> dget (phase2 fresh @ phase3) k \<noteq> None"
  using assms by (simp add: is_allowed_key_def is_credential_key_def dget_None_iff whitelist_keys map_add_None)

end
