(* ===== verification/Settings.thy ===== *)
theory Settings
  imports Settings_Schema
begin

text \<open>
  Runtime settings: \<open>settings/service.py\<close> with its approval queue, rate limiter and reload registry, \<open>settings/runtime_config.py\<close>, the
  settings actions of \<open>sdui/actions.py\<close>, the agent's tools of \<open>tools/settings_tools.py\<close>, and their wiring in \<open>web/settings_wiring.py\<close>.
  The lock of a key makes each write one step; the closures of the approval queue are values of a datatype. What reload functions
  return, whether the vault raises, random values and the clock are arguments. The settings store does not fail.
\<close>

section \<open>State\<close>

record settings_change =
  sc_key :: string
  sc_op :: string
  sc_old :: json
  sc_new :: json

record settings_event =
  se_key :: string
  se_op :: string
  se_old :: json
  se_new :: json
  se_actor :: string
  se_audit :: "int option"

text \<open>The closures that are submitted for approval, with the values they close over.\<close>

datatype settings_write =
    SetW string json "string option" "string option" "string option"
  | AppendW string json "string option"
  | UpdateW string string json json "string option"
  | DeleteW string string json
  | SetCredW string string string "string option"
  | StoreVaultW string string json "string option" "string option"
  | DeleteVaultW string "string option" "string option"
  | DeleteCredW string

record pending_entry =
  pd_purpose :: string
  pd_key :: string
  pd_actor :: string
  pd_run :: settings_write

text \<open>\<open>sv_dispatched\<close> and \<open>sv_emitted\<close> are ghost fields: what reload functions and subscribers of the bus were given.\<close>

record settings =
  sv_store :: "(string, json) dict"
  sv_vault :: "(string, string \<times> json) dict"
  sv_runtime :: "(string, json) dict"
  sv_queue :: "(string, pending_entry) dict"
  sv_rate :: "(string, real list) dict"
  sv_dispatched :: "settings_change list"
  sv_emitted :: "settings_event list"

text \<open>
  The subscribers after the runtime configuration, and \<open>str\<close> of floats and containers. The flags say whether the service has a bus,
  an approval queue and a rate limiter.
\<close>

record settings_env =
  sx_subs :: "(string \<times> (settings_change \<Rightarrow> exn option)) list"
  sx_repr :: "json \<Rightarrow> string"
  sx_bus :: bool
  sx_approvals :: bool
  sx_limiter :: bool

text \<open>What one call draws: the time, an approval id, numbers for \<open>uuid4\<close>, and what the vault raises, if anything.\<close>

record settings_call =
  cl_now :: real
  cl_id :: string
  cl_fresh :: "nat \<Rightarrow> nat"
  cl_vault :: "exn option"

record set_result =
  rs_ok :: bool
  rs_op :: string
  rs_key :: string
  rs_persisted :: bool
  rs_hot :: bool
  rs_restart :: bool
  rs_errors :: "(string, string) dict"
  rs_audit :: "int option"
  rs_pending :: "string option"
  rs_error :: "string option"

definition refused :: "string \<Rightarrow> string \<Rightarrow> string \<Rightarrow> set_result" where
  "refused op1 key e = \<lparr>rs_ok = False, rs_op = op1, rs_key = key, rs_persisted = False, rs_hot = False, rs_restart = False, rs_errors = [],
     rs_audit = None, rs_pending = None, rs_error = Some e\<rparr>"

definition awaiting :: "string \<Rightarrow> string \<Rightarrow> string \<Rightarrow> set_result" where
  "awaiting op1 key a = \<lparr>rs_ok = False, rs_op = op1, rs_key = key, rs_persisted = False, rs_hot = False, rs_restart = False, rs_errors = [],
     rs_audit = None, rs_pending = Some a, rs_error = None\<rparr>"

definition bool_text :: "bool \<Rightarrow> string" where
  "bool_text b = (if b then ''true'' else ''false'')"

definition show_json :: "settings_env \<Rightarrow> json \<Rightarrow> string" where
  "show_json env v =
     (case v of
        JStr s \<Rightarrow> s | JInt i \<Rightarrow> int_str i | JNull \<Rightarrow> ''None'' | JBool b \<Rightarrow> (if b then ''True'' else ''False'') | _ \<Rightarrow> sx_repr env v)"

definition summary :: "set_result \<Rightarrow> string" where
  "summary r =
     (case rs_pending r of
        Some a \<Rightarrow> ''PENDING: approval required for key='' @ rs_key r @ ''. approval_id='' @ a @ ''. Ask the user to confirm.''
      | None \<Rightarrow>
          if \<not> rs_ok r then
            ''ERROR: '' @ (case rs_error r of Some e \<Rightarrow> if e = [] then ''unknown error'' else e | None \<Rightarrow> ''unknown error'')
          else ''OK. '' @ str_join '', ''
            ([''key='' @ rs_key r, ''operation='' @ rs_op r, ''hot_reloaded='' @ bool_text (rs_hot r),
              ''restart_required='' @ bool_text (rs_restart r)] @
             (case rs_audit r of None \<Rightarrow> [] | Some a \<Rightarrow> [''audit_id='' @ int_str a]) @
             (if rs_errors r = [] then [] else [''reload_errors=['' @ str_join '', '' (map quoted (dkeys (rs_errors r))) @ '']''])))"

section \<open>Limits on agents\<close>

definition admin_only_keys :: "string list" where
  "admin_only_keys = [''safety_blacklist'', ''safety_approval'', ''safety_permissions'', ''safety_permissions_admin_users'', ''tool_security'',
     ''system_timeouts'', ''retry_config'', ''limits_config'', ''polling_config'', ''agent_timeouts'', ''logging_config'']"

definition is_agent :: "string \<Rightarrow> bool" where
  "is_agent actor = startswith actor ''agent:''"

text \<open>The limiter of \<open>build_settings_pipeline\<close>: 20 events in 60 seconds for each actor.\<close>

definition rate_ok :: "real \<Rightarrow> string \<Rightarrow> settings \<Rightarrow> bool \<times> settings" where
  "rate_ok now actor st =
     (let q = dropWhile (\<lambda>t. t \<le> now - 60) (dget_or (sv_rate st) actor [])
      in if 20 \<le> length q then (False, st\<lparr>sv_rate := dset actor q (sv_rate st)\<rparr>)
         else (True, st\<lparr>sv_rate := dset actor (q @ [now]) (sv_rate st)\<rparr>))"

definition check_rate :: "settings_env \<Rightarrow> settings_call \<Rightarrow> string \<Rightarrow> (settings, bool) prog" where
  "check_rate env c actor st =
     (if \<not> sx_limiter env \<or> \<not> is_agent actor then (Inr True, st)
      else (case rate_ok (cl_now c) actor st of (b, st') \<Rightarrow> (Inr b, st')))"

definition requires_approval :: "settings_env \<Rightarrow> string \<Rightarrow> string \<Rightarrow> bool" where
  "requires_approval env key actor =
     (if \<not> is_agent actor then False
      else if \<not> sx_approvals env then False
      else if is_credential_key key then True
      else key \<in> set admin_only_keys)"

definition submit :: "settings_call \<Rightarrow> string \<Rightarrow> string \<Rightarrow> string \<Rightarrow> settings_write \<Rightarrow> settings \<Rightarrow> settings" where
  "submit c purpose key actor w st =
     st\<lparr>sv_queue := dset (cl_id c) \<lparr>pd_purpose = purpose, pd_key = key, pd_actor = actor, pd_run = w\<rparr> (sv_queue st)\<rparr>"

section \<open>Audit, reload and event of a write\<close>

definition audit_key :: string where
  "audit_key = ''sdui_audit_log''"

definition get_setting :: "string \<Rightarrow> settings \<Rightarrow> json" where
  "get_setting key st = dget_or (sv_store st) key JNull"

definition put_setting :: "string \<Rightarrow> json \<Rightarrow> settings \<Rightarrow> settings" where
  "put_setting key v st = st\<lparr>sv_store := dset key v (sv_store st)\<rparr>"

definition summary_write :: "string \<Rightarrow> json \<Rightarrow> string" where
  "summary_write key cleaned =
     (if startswith key ''apikey:'' then ''key=apikey:'' @ drop 7 key @ '' (vault)''
      else case cleaned of
        JObj d \<Rightarrow> nat_str (length d) @ '' field(s) updated: '' @ str_join '', '' (dkeys d)
      | _ \<Rightarrow> ''1 field(s) updated'')"

definition summary_append :: "settings_env \<Rightarrow> string \<Rightarrow> json \<Rightarrow> string" where
  "summary_append env key item =
     (case item of
        JObj d \<Rightarrow>
          (case find truthy (map (\<lambda>f. dget_or d f JNull) [''name'', ''tool'', ''user'']) of
             Some v \<Rightarrow> ''appended '' @ key @ '' item: '' @ show_json env v
           | None \<Rightarrow> ''appended '' @ key @ '' item'')
      | _ \<Rightarrow> ''appended '' @ key @ '' item'')"

definition summary_update :: "string \<Rightarrow> string \<Rightarrow> string" where
  "summary_update key m = ''updated '' @ key @ '' item: '' @ m"

definition audit_summary :: "settings_env \<Rightarrow> string \<Rightarrow> string \<Rightarrow> json \<Rightarrow> string" where
  "audit_summary env kind key new =
     (if kind = ''settings_write'' then summary_write key new
      else if kind = ''settings_append'' then summary_append env key new
      else if kind = ''settings_update_item'' then summary_update key []
      else if kind = ''credential_store'' then ''stored''
      else if kind = ''credential_delete'' then ''deleted''
      else kind)"

text \<open>\<open>_record_audit\<close> as the service calls it; the log keeps its last 200 entries. The length it returns is the audit id.\<close>

definition record_audit ::
  "settings_env \<Rightarrow> settings_call \<Rightarrow> string \<Rightarrow> string \<Rightarrow> string \<Rightarrow> json \<Rightarrow> string option \<Rightarrow> settings \<Rightarrow> int \<times> settings"
where
  "record_audit env c kind key actor new_preview given st =
     (let text = (case given of Some s \<Rightarrow> s | None \<Rightarrow> audit_summary env kind key new_preview);
          existing = (case get_setting audit_key st of JList xs \<Rightarrow> xs | _ \<Rightarrow> []);
          entry = JObj [(''ts'', JFloat (cl_now c)), (''action'', JStr kind), (''key'', JStr key),
            (''user'', JStr (if startswith actor ''user:'' then drop 5 actor else actor)), (''summary'', JStr (take 200 text))];
          capped = last_n 200 (existing @ [entry])
      in (int (length capped), put_setting audit_key (JList capped) st))"

definition runtime_keys :: "string list" where
  "runtime_keys = [''retry_config'', ''limits_config'', ''polling_config'', ''agent_timeouts'', ''system_timeouts'', ''logging_config'',
     ''memory_gc_config'']"

definition reload_matches :: "string \<Rightarrow> string \<Rightarrow> bool" where
  "reload_matches pattern key =
     (if suffix '':*'' pattern then startswith key (butlast pattern) else pattern = key)"

fun exn_class :: "exn \<Rightarrow> string" where
  "exn_class (KeyError _) = ''KeyError''"
| "exn_class (ValueError _) = ''ValueError''"
| "exn_class (TypeError _) = ''TypeError''"
| "exn_class (IndexError _) = ''IndexError''"
| "exn_class RecursionError = ''RecursionError''"
| "exn_class (DAGValidationError _) = ''DAGValidationError''"
| "exn_class (CyclicDependencyError _) = ''CyclicDependencyError''"
| "exn_class (CircuitOpenError _ _) = ''CircuitOpenError''"
| "exn_class (AllProvidersFailed _) = ''AllProvidersFailed''"
| "exn_class (OtherError t _) = t"

text \<open>
  The runtime configuration registered itself first, for its seven keys; its reload function sets the key to the new value and does not raise.
  The result is the errors by pattern; all is well when there are none.
\<close>

definition reload_dispatch :: "settings_env \<Rightarrow> settings_change \<Rightarrow> settings \<Rightarrow> (string, string) dict \<times> settings" where
  "reload_dispatch env ch st =
     (let matching = filter (\<lambda>(p, _). reload_matches p (sc_key ch)) (sx_subs env);
          errors = fold (\<lambda>(p, f) acc. case f ch of None \<Rightarrow> acc | Some e \<Rightarrow> dset p (exn_class e @ '': '' @ exn_str e) acc) matching [];
          st1 = (if sc_key ch \<in> set runtime_keys then st\<lparr>sv_runtime := dset (sc_key ch) (sc_new ch) (sv_runtime st)\<rparr> else st)
      in (errors, st1\<lparr>sv_dispatched := sv_dispatched st1 @ [ch]\<rparr>))"

definition emit_change :: "settings_env \<Rightarrow> settings_change \<Rightarrow> string \<Rightarrow> int option \<Rightarrow> settings \<Rightarrow> settings" where
  "emit_change env ch actor a st =
     (if \<not> sx_bus env then st
      else let hidden = is_credential_key (sc_key ch)
           in st\<lparr>sv_emitted := sv_emitted st @ [\<lparr>se_key = sc_key ch, se_op = sc_op ch, se_old = (if hidden then JNull else sc_old ch),
             se_new = (if hidden then JNull else sc_new ch), se_actor = actor, se_audit = a\<rparr>]\<rparr>)"

text \<open>The second half of each operation, after its write: audit, dispatch, event and result.\<close>

definition announce ::
  "settings_env \<Rightarrow> settings_call \<Rightarrow> settings_change \<Rightarrow> string \<Rightarrow> string \<Rightarrow> string \<Rightarrow> string option \<Rightarrow> bool \<Rightarrow> (settings, set_result) prog"
where
  "announce env c ch kind akey actor given restart st =
     (let (a, st1) = record_audit env c kind akey actor (sc_new ch) given st;
          (errors, st2) = reload_dispatch env ch st1;
          st3 = emit_change env ch actor (Some a) st2
      in (Inr \<lparr>rs_ok = True, rs_op = sc_op ch, rs_key = sc_key ch, rs_persisted = True, rs_hot = (errors = []), rs_restart = restart,
            rs_errors = errors, rs_audit = Some a, rs_pending = None, rs_error = None\<rparr>, st3))"

section \<open>The writes\<close>

definition opt_or :: "string option \<Rightarrow> string \<Rightarrow> string" where
  "opt_or x d = (case x of Some s \<Rightarrow> if s = [] then d else s | None \<Rightarrow> d)"

text \<open>\<open>except SettingsValidationError\<close>: another exception goes through.\<close>

definition validation_message :: "exn \<Rightarrow> string option" where
  "validation_message e = (case e of OtherError t m \<Rightarrow> if t = ''SettingsValidationError'' then Some m else None | _ \<Rightarrow> None)"

definition em_dash :: string where
  "em_dash = [CHR 0xE2, CHR 0x80, CHR 0x94]"

definition validated ::
  "settings_call \<Rightarrow> string \<Rightarrow> string \<Rightarrow> json \<Rightarrow> (json \<Rightarrow> (settings, set_result) prog) \<Rightarrow> (settings, set_result) prog"
where
  "validated c op1 key v k =
     (case validate_value (cl_fresh c) key v of
        Inl e \<Rightarrow> (case validation_message e of
            Some m \<Rightarrow> ret (refused op1 key (''validation failed '' @ em_dash @ '' '' @ m))
          | None \<Rightarrow> raise_s e)
      | Inr w \<Rightarrow> k w)"

definition store_and_announce ::
  "settings_env \<Rightarrow> settings_call \<Rightarrow> string \<Rightarrow> string \<Rightarrow> string \<Rightarrow> json \<Rightarrow> json \<Rightarrow> string \<Rightarrow> string \<Rightarrow> string option \<Rightarrow> (settings, set_result) prog"
where
  "store_and_announce env c op1 key akey old new kind actor given =
     then_s (modify_s (put_setting key new))
       (announce env c \<lparr>sc_key = key, sc_op = op1, sc_old = old, sc_new = new\<rparr> kind akey actor given (requires_restart key))"

definition set_internal ::
  "settings_env \<Rightarrow> settings_call \<Rightarrow> string \<Rightarrow> string \<Rightarrow> json \<Rightarrow> string option \<Rightarrow> string option \<Rightarrow> string option \<Rightarrow> (settings, set_result) prog"
where
  "set_internal env c actor key v given akey kind =
     validated c ''set'' key v (\<lambda>new.
       bind_s get_s (\<lambda>st.
       store_and_announce env c ''set'' key (opt_or akey key) (get_setting key st) new (opt_or kind ''settings_write'') actor given))"

text \<open>\<open>await get_setting(key) or []\<close>, which has to be a list.\<close>

definition with_list ::
  "string \<Rightarrow> string \<Rightarrow> (json list \<Rightarrow> (settings, set_result) prog) \<Rightarrow> (settings, set_result) prog"
where
  "with_list op1 key k =
     bind_s get_s (\<lambda>st.
       let old = get_setting key st
       in if \<not> truthy old then k []
          else case old of JList xs \<Rightarrow> k xs | _ \<Rightarrow> ret (refused op1 key (''key '' @ quoted key @ '' is not a list'')))"

definition append_internal :: "settings_env \<Rightarrow> settings_call \<Rightarrow> string \<Rightarrow> string \<Rightarrow> json \<Rightarrow> string option \<Rightarrow> (settings, set_result) prog" where
  "append_internal env c actor key item given =
     with_list ''append'' key (\<lambda>old.
       validated c ''append'' key (JList (old @ [item])) (\<lambda>new.
       store_and_announce env c ''append'' key key (JList old) new ''settings_append'' actor given))"

definition item_matches :: "string \<Rightarrow> json \<Rightarrow> json \<Rightarrow> bool" where
  "item_matches field m x = (case x of JObj d \<Rightarrow> py_eq (dget_or d field JNull) m | _ \<Rightarrow> False)"

text \<open>\<open>dict(it)\<close>. (Texts and lists of pairs, which \<open>dict\<close> would take too, are not read.)\<close>

definition as_dict :: "json \<Rightarrow> exn + json_obj" where
  "as_dict v =
     (case v of
        JObj d \<Rightarrow> Inr d
      | JStr [] \<Rightarrow> Inr []
      | JList [] \<Rightarrow> Inr []
      | JStr _ \<Rightarrow> Inl (ValueError ''dictionary update sequence element #0 has length 1; 2 is required'')
      | _ \<Rightarrow> Inl (TypeError ''object is not iterable''))"

fun index_of :: "('a \<Rightarrow> bool) \<Rightarrow> 'a list \<Rightarrow> nat option" where
  "index_of P [] = None"
| "index_of P (x # xs) = (if P x then Some 0 else map_option Suc (index_of P xs))"

definition no_match :: "settings_env \<Rightarrow> string \<Rightarrow> string \<Rightarrow> string \<Rightarrow> json \<Rightarrow> set_result" where
  "no_match env op1 key field m = refused op1 key (''no matching item for '' @ field @ ''='' @ show_json env m)"

definition update_item_internal ::
  "settings_env \<Rightarrow> settings_call \<Rightarrow> string \<Rightarrow> string \<Rightarrow> string \<Rightarrow> json \<Rightarrow> json \<Rightarrow> string option \<Rightarrow> (settings, set_result) prog"
where
  "update_item_internal env c actor key field m patch given =
     with_list ''update_item'' key (\<lambda>old.
       case index_of (item_matches field m) old of
         None \<Rightarrow> ret (no_match env ''update_item'' key field m)
       | Some i \<Rightarrow>
           bind_s (lift_res (map_res as_dict old)) (\<lambda>items.
           case patch of
             JObj p \<Rightarrow>
               validated c ''update_item'' key (JList (map JObj (items[i := dmerge (items ! i) p]))) (\<lambda>new.
               store_and_announce env c ''update_item'' key key (JList old) new ''settings_update_item'' actor given)
           | _ \<Rightarrow> raise_s (TypeError ''object is not a mapping'')))"

definition delete_item_internal ::
  "settings_env \<Rightarrow> settings_call \<Rightarrow> string \<Rightarrow> string \<Rightarrow> string \<Rightarrow> json \<Rightarrow> (settings, set_result) prog"
where
  "delete_item_internal env c actor key field m =
     with_list ''delete_item'' key (\<lambda>old.
       let new_list = filter (\<lambda>x. \<not> item_matches field m x) old
       in if length new_list = length old then ret (no_match env ''delete_item'' key field m)
          else validated c ''delete_item'' key (JList new_list) (\<lambda>new.
            store_and_announce env c ''delete_item'' key key (JList old) new ''settings_delete_item'' actor None))"

text \<open>The vault: a call raises or does its work.\<close>

definition vault_store :: "settings_call \<Rightarrow> string \<Rightarrow> string \<Rightarrow> json \<Rightarrow> (settings, unit) prog" where
  "vault_store c vid v meta =
     (case cl_vault c of
        Some e \<Rightarrow> raise_s e
      | None \<Rightarrow> modify_s (\<lambda>st. st\<lparr>sv_vault := dset vid (v, meta) (sv_vault st)\<rparr>))"

definition vault_delete :: "settings_call \<Rightarrow> string \<Rightarrow> (settings, bool) prog" where
  "vault_delete c vid =
     (case cl_vault c of
        Some e \<Rightarrow> raise_s e
      | None \<Rightarrow> bind_s get_s (\<lambda>st.
          then_s (modify_s (\<lambda>st. st\<lparr>sv_vault := dpop vid (sv_vault st)\<rparr>)) (ret (dget (sv_vault st) vid \<noteq> None))))"

definition secret_change :: "string \<Rightarrow> string \<Rightarrow> settings_change" where
  "secret_change op1 key = \<lparr>sc_key = key, sc_op = op1, sc_old = JNull, sc_new = JNull\<rparr>"

definition set_credential_internal ::
  "settings_env \<Rightarrow> settings_call \<Rightarrow> string \<Rightarrow> string \<Rightarrow> string \<Rightarrow> string \<Rightarrow> string option \<Rightarrow> (settings, set_result) prog"
where
  "set_credential_internal env c actor key v description given =
     then_s (vault_store c key v (if description = [] then JNull else JObj [(''description'', JStr description)]))
       (announce env c (secret_change ''credential_store'' key) ''credential_store'' key actor given (requires_restart key))"

definition store_vault_internal ::
  "settings_env \<Rightarrow> settings_call \<Rightarrow> string \<Rightarrow> string \<Rightarrow> string \<Rightarrow> json \<Rightarrow> string option \<Rightarrow> string option \<Rightarrow> (settings, set_result) prog"
where
  "store_vault_internal env c actor vid v meta akey given =
     bind_s (try_s (then_s (vault_store c vid v meta) (ret None)) (\<lambda>e. ret (Some e))) (\<lambda>failed.
       case failed of
         Some e \<Rightarrow> ret (refused ''credential_store'' vid (exn_str e))
       | None \<Rightarrow> announce env c (secret_change ''credential_store'' vid) ''credential_store'' (opt_or akey vid) actor given False)"

definition delete_vault_internal ::
  "settings_env \<Rightarrow> settings_call \<Rightarrow> string \<Rightarrow> string \<Rightarrow> string option \<Rightarrow> string option \<Rightarrow> (settings, set_result) prog"
where
  "delete_vault_internal env c actor vid akey given =
     bind_s (try_s (bind_s (vault_delete c vid) (\<lambda>d. ret (Inr d))) (\<lambda>e. ret (Inl e))) (\<lambda>r.
       case r of
         Inl e \<Rightarrow> ret (refused ''credential_delete'' vid (exn_str e))
       | Inr d \<Rightarrow>
           if \<not> d then ret (refused ''credential_delete'' vid ''credential not found'')
           else announce env c (secret_change ''credential_delete'' vid) ''credential_delete'' (opt_or akey vid) actor given False)"

definition delete_credential_internal :: "settings_env \<Rightarrow> settings_call \<Rightarrow> string \<Rightarrow> string \<Rightarrow> (settings, set_result) prog" where
  "delete_credential_internal env c actor key =
     then_s (vault_delete c key)
       (announce env c (secret_change ''credential_delete'' key) ''credential_delete'' key actor None (requires_restart key))"

fun run_write :: "settings_env \<Rightarrow> settings_call \<Rightarrow> string \<Rightarrow> settings_write \<Rightarrow> (settings, set_result) prog" where
  "run_write env c actor (SetW key v given akey kind) = set_internal env c actor key v given akey kind"
| "run_write env c actor (AppendW key item given) = append_internal env c actor key item given"
| "run_write env c actor (UpdateW key field m patch given) = update_item_internal env c actor key field m patch given"
| "run_write env c actor (DeleteW key field m) = delete_item_internal env c actor key field m"
| "run_write env c actor (SetCredW key v description given) = set_credential_internal env c actor key v description given"
| "run_write env c actor (StoreVaultW vid v meta akey given) = store_vault_internal env c actor vid v meta akey given"
| "run_write env c actor (DeleteVaultW vid akey given) = delete_vault_internal env c actor vid akey given"
| "run_write env c actor (DeleteCredW key) = delete_credential_internal env c actor key"

section \<open>The service\<close>

text \<open>What each public method does before its write: the rate, then the approval.\<close>

definition gate ::
  "settings_env \<Rightarrow> settings_call \<Rightarrow> string \<Rightarrow> string \<Rightarrow> string \<Rightarrow> string \<Rightarrow> bool \<Rightarrow> settings_write \<Rightarrow> (settings, set_result) prog"
where
  "gate env c actor op1 purpose key approval w =
     bind_s (check_rate env c actor) (\<lambda>ok.
       if \<not> ok then ret (refused op1 key (''rate limit exceeded for '' @ actor))
       else if approval then then_s (modify_s (submit c purpose key actor w)) (ret (awaiting op1 key (cl_id c)))
       else run_write env c actor w)"

definition not_allowed :: "string \<Rightarrow> string \<Rightarrow> set_result" where
  "not_allowed op1 key = refused op1 key (''key '' @ quoted key @ '' is not allowed'')"

definition set_setting ::
  "settings_env \<Rightarrow> settings_call \<Rightarrow> string \<Rightarrow> string \<Rightarrow> json \<Rightarrow> string option \<Rightarrow> string option \<Rightarrow> string option \<Rightarrow> (settings, set_result) prog"
where
  "set_setting env c actor key v given akey kind =
     (if \<not> is_allowed_key key then ret (not_allowed ''set'' key)
      else gate env c actor ''set'' ''settings_set'' key (requires_approval env key actor) (SetW key v given akey kind))"

definition append_setting :: "settings_env \<Rightarrow> settings_call \<Rightarrow> string \<Rightarrow> string \<Rightarrow> json \<Rightarrow> string option \<Rightarrow> (settings, set_result) prog" where
  "append_setting env c actor key item given =
     (if \<not> is_allowed_key key then ret (not_allowed ''append'' key)
      else gate env c actor ''append'' ''settings_append'' key (requires_approval env key actor) (AppendW key item given))"

definition update_item ::
  "settings_env \<Rightarrow> settings_call \<Rightarrow> string \<Rightarrow> string \<Rightarrow> string \<Rightarrow> json \<Rightarrow> json \<Rightarrow> string option \<Rightarrow> (settings, set_result) prog"
where
  "update_item env c actor key field m patch given =
     (if \<not> is_allowed_key key then ret (not_allowed ''update_item'' key)
      else gate env c actor ''update_item'' ''settings_update_item'' key (requires_approval env key actor) (UpdateW key field m patch given))"

definition delete_item :: "settings_env \<Rightarrow> settings_call \<Rightarrow> string \<Rightarrow> string \<Rightarrow> string \<Rightarrow> json \<Rightarrow> (settings, set_result) prog" where
  "delete_item env c actor key field m =
     (if \<not> is_allowed_key key then ret (not_allowed ''delete_item'' key)
      else gate env c actor ''delete_item'' ''settings_delete_item'' key (requires_approval env key actor) (DeleteW key field m))"

definition not_credential :: "string \<Rightarrow> string \<Rightarrow> set_result" where
  "not_credential op1 key = refused op1 key (''key '' @ quoted key @ '' is not a credential key'')"

definition set_credential ::
  "settings_env \<Rightarrow> settings_call \<Rightarrow> string \<Rightarrow> string \<Rightarrow> string \<Rightarrow> string \<Rightarrow> string option \<Rightarrow> (settings, set_result) prog"
where
  "set_credential env c actor key v description given =
     (if \<not> is_credential_key key then ret (not_credential ''credential_store'' key)
      else gate env c actor ''credential_store'' ''credential_store'' key (requires_approval env key actor) (SetCredW key v description given))"

definition store_vault_credential ::
  "settings_env \<Rightarrow> settings_call \<Rightarrow> string \<Rightarrow> string \<Rightarrow> string \<Rightarrow> json \<Rightarrow> string option \<Rightarrow> string option \<Rightarrow> (settings, set_result) prog"
where
  "store_vault_credential env c actor vid v meta akey given =
     gate env c actor ''credential_store'' ''credential_store'' vid (is_agent actor \<and> sx_approvals env) (StoreVaultW vid v meta akey given)"

definition delete_vault_credential ::
  "settings_env \<Rightarrow> settings_call \<Rightarrow> string \<Rightarrow> string \<Rightarrow> string option \<Rightarrow> string option \<Rightarrow> (settings, set_result) prog"
where
  "delete_vault_credential env c actor vid akey given =
     gate env c actor ''credential_delete'' ''credential_delete'' vid (is_agent actor \<and> sx_approvals env) (DeleteVaultW vid akey given)"

definition delete_credential :: "settings_env \<Rightarrow> settings_call \<Rightarrow> string \<Rightarrow> string \<Rightarrow> (settings, set_result) prog" where
  "delete_credential env c actor key =
     (if \<not> is_credential_key key then ret (not_credential ''credential_delete'' key)
      else gate env c actor ''credential_delete'' ''credential_delete'' key (requires_approval env key actor) (DeleteCredW key))"

definition unknown_approval :: "string \<Rightarrow> set_result" where
  "unknown_approval a = refused ''resolve_approval'' [] (''unknown approval id: '' @ a)"

definition resolve_approval :: "settings_env \<Rightarrow> settings_call \<Rightarrow> string \<Rightarrow> (settings, set_result) prog" where
  "resolve_approval env c a =
     (if \<not> sx_approvals env then ret (refused ''resolve_approval'' [] ''approval queue not configured'')
      else try_s
        (bind_s get_s (\<lambda>st.
           case dget (sv_queue st) a of
             None \<Rightarrow> raise_s (KeyError a)
           | Some entry \<Rightarrow>
               then_s (modify_s (\<lambda>st. st\<lparr>sv_queue := dpop a (sv_queue st)\<rparr>)) (run_write env c (pd_actor entry) (pd_run entry))))
        (\<lambda>e. case e of KeyError _ \<Rightarrow> ret (unknown_approval a) | _ \<Rightarrow> raise_s e))"

text \<open>\<open>get\<close>: credentials are four dots.\<close>

definition masked :: string where
  "masked = concat (replicate 4 [CHR 0xE2, CHR 0x97, CHR 0x8F])"

definition read_setting :: "string \<Rightarrow> settings \<Rightarrow> json" where
  "read_setting key st = (if is_credential_key key then JStr masked else get_setting key st)"

section \<open>What a write changes\<close>

text \<open>The requests of clients; \<open>request\<close> is the public method for a write.\<close>

fun request :: "settings_env \<Rightarrow> settings_call \<Rightarrow> string \<Rightarrow> settings_write \<Rightarrow> (settings, set_result) prog" where
  "request env c actor (SetW key v given akey kind) = set_setting env c actor key v given akey kind"
| "request env c actor (AppendW key item given) = append_setting env c actor key item given"
| "request env c actor (UpdateW key field m patch given) = update_item env c actor key field m patch given"
| "request env c actor (DeleteW key field m) = delete_item env c actor key field m"
| "request env c actor (SetCredW key v description given) = set_credential env c actor key v description given"
| "request env c actor (StoreVaultW vid v meta akey given) = store_vault_credential env c actor vid v meta akey given"
| "request env c actor (DeleteVaultW vid akey given) = delete_vault_credential env c actor vid akey given"
| "request env c actor (DeleteCredW key) = delete_credential env c actor key"

fun write_key :: "settings_write \<Rightarrow> string" where
  "write_key (SetW key v given akey kind) = key"
| "write_key (AppendW key item given) = key"
| "write_key (UpdateW key field m patch given) = key"
| "write_key (DeleteW key field m) = key"
| "write_key (SetCredW key v description given) = key"
| "write_key (StoreVaultW vid v meta akey given) = vid"
| "write_key (DeleteVaultW vid akey given) = vid"
| "write_key (DeleteCredW key) = key"

fun is_secret :: "settings_write \<Rightarrow> bool" where
  "is_secret (SetCredW key v description given) = True"
| "is_secret (StoreVaultW vid v meta akey given) = True"
| "is_secret (DeleteVaultW vid akey given) = True"
| "is_secret (DeleteCredW key) = True"
| "is_secret _ = False"

text \<open>A plain setting is stored validated, and the runtime configuration follows; the audit log is all else.\<close>

definition same_settings :: "settings \<Rightarrow> settings \<Rightarrow> bool" where
  "same_settings st st' \<longleftrightarrow> (\<forall>k. k \<noteq> audit_key \<longrightarrow> dget (sv_store st') k = dget (sv_store st) k)"

definition stored :: "string \<Rightarrow> settings \<Rightarrow> settings \<Rightarrow> bool" where
  "stored key st st' \<longleftrightarrow>
     (\<exists>fresh v new. validate_value fresh key v = Inr new
        \<and> (\<forall>k. k \<noteq> audit_key \<longrightarrow> dget (sv_store st') k = (if k = key then Some new else dget (sv_store st) k))
        \<and> sv_runtime st' = (if key \<in> set runtime_keys then dset key new (sv_runtime st) else sv_runtime st))"

definition plain_effect :: "string \<Rightarrow> settings \<Rightarrow> settings \<Rightarrow> bool" where
  "plain_effect key st st' \<longleftrightarrow>
     sv_vault st' = sv_vault st \<and> sv_queue st' = sv_queue st
     \<and> (same_settings st st' \<and> sv_runtime st' = sv_runtime st \<or> stored key st st')"

definition secret_effect :: "string \<Rightarrow> settings \<Rightarrow> settings \<Rightarrow> bool" where
  "secret_effect key st st' \<longleftrightarrow>
     sv_queue st' = sv_queue st \<and> same_settings st st'
     \<and> (sv_runtime st' = sv_runtime st \<or> (key \<in> set runtime_keys \<and> sv_runtime st' = dset key JNull (sv_runtime st)))"

lemma record_audit_effect:
  assumes "record_audit env c kind akey actor new given st = (a, st')"
  shows "same_settings st st'" "sv_vault st' = sv_vault st" "sv_queue st' = sv_queue st" "sv_runtime st' = sv_runtime st"
  using assms by (auto simp: record_audit_def Let_def put_setting_def same_settings_def)

lemma dispatch_effect:
  assumes "reload_dispatch env ch st = (es, st')"
  shows "sv_store st' = sv_store st" "sv_vault st' = sv_vault st" "sv_queue st' = sv_queue st"
    "sv_runtime st' = (if sc_key ch \<in> set runtime_keys then dset (sc_key ch) (sc_new ch) (sv_runtime st) else sv_runtime st)"
  using assms by (auto simp: reload_dispatch_def Let_def)

lemma emit_effect [simp]:
  "sv_store (emit_change env ch actor a st) = sv_store st" "sv_vault (emit_change env ch actor a st) = sv_vault st"
  "sv_queue (emit_change env ch actor a st) = sv_queue st" "sv_runtime (emit_change env ch actor a st) = sv_runtime st"
  by (simp_all add: emit_change_def Let_def)

lemma announce_effect:
  assumes "announce env c ch kind akey actor given restart st = (r, st')"
  shows "same_settings st st'" "sv_vault st' = sv_vault st" "sv_queue st' = sv_queue st"
    "sv_runtime st' = (if sc_key ch \<in> set runtime_keys then dset (sc_key ch) (sc_new ch) (sv_runtime st) else sv_runtime st)"
proof -
  obtain a st1 where a: "record_audit env c kind akey actor (sc_new ch) given st = (a, st1)"
    by (cases "record_audit env c kind akey actor (sc_new ch) given st")
  obtain es st2 where d: "reload_dispatch env ch st1 = (es, st2)" by (cases "reload_dispatch env ch st1")
  have st': "st' = emit_change env ch actor (Some a) st2" using assms by (simp add: announce_def a d)
  note f = record_audit_effect [OF a] dispatch_effect [OF d]
  show "same_settings st st'" using f by (simp add: st' same_settings_def)
  show "sv_vault st' = sv_vault st" "sv_queue st' = sv_queue st"
    "sv_runtime st' = (if sc_key ch \<in> set runtime_keys then dset (sc_key ch) (sc_new ch) (sv_runtime st) else sv_runtime st)"
    using f by (simp_all add: st')
qed

lemma plain_effect_refl: "plain_effect key st st"
  by (simp add: plain_effect_def same_settings_def)

lemma secret_effect_refl: "secret_effect key st st"
  by (simp add: secret_effect_def same_settings_def)

lemma store_effect:
  assumes "validate_value fresh key v = Inr new"
  shows "plain_effect key st (snd (store_and_announce env c op1 key akey old new kind actor given st))"
proof -
  let ?ch = "\<lparr>sc_key = key, sc_op = op1, sc_old = old, sc_new = new\<rparr>"
  obtain r st' where a: "announce env c ?ch kind akey actor given (requires_restart key) (put_setting key new st) = (r, st')"
    by (cases "announce env c ?ch kind akey actor given (requires_restart key) (put_setting key new st)")
  have st': "snd (store_and_announce env c op1 key akey old new kind actor given st) = st'"
    by (simp add: store_and_announce_def run_defs a)
  note f = announce_effect [OF a]
  have "stored key st st'" unfolding stored_def
    using f(1,4) by (intro exI [of _ fresh] exI [of _ v] exI [of _ new]) (simp add: assms put_setting_def same_settings_def)
  then show ?thesis using f(2,3) by (simp add: st' plain_effect_def put_setting_def)
qed

lemma validated_effect:
  assumes "\<And>w. validate_value (cl_fresh c) key v = Inr w \<Longrightarrow> plain_effect key st (snd (k w st))"
  shows "plain_effect key st (snd (validated c op1 key v k st))"
  using assms by (auto simp: validated_def run_defs plain_effect_refl split: sum.splits option.splits)

lemma with_list_effect:
  assumes "\<And>xs. plain_effect key st (snd (k xs st))"
  shows "plain_effect key st (snd (with_list op1 key k st))"
  using assms by (simp add: with_list_def run_defs plain_effect_refl Let_def split: json.splits)

lemma plain_run:
  assumes "\<not> is_secret w"
  shows "plain_effect (write_key w) st (snd (run_write env c actor w st))"
proof (cases w)
  case (SetW key v given akey kind)
  then show ?thesis
    by (simp add: set_internal_def) (rule validated_effect, simp add: bind_s_def get_s_def, erule store_effect)
next
  case (AppendW key item given)
  then show ?thesis
    by (simp add: append_internal_def) (rule with_list_effect, rule validated_effect, erule store_effect)
next
  case (UpdateW key field m patch given)
  have "plain_effect key st (snd ((case index_of (item_matches field m) old of None \<Rightarrow> ret (no_match env ''update_item'' key field m)
       | Some i \<Rightarrow> bind_s (lift_res (map_res as_dict old)) (\<lambda>items. case patch of
             JObj p \<Rightarrow> validated c ''update_item'' key (JList (map JObj (items[i := dmerge (items ! i) p]))) (\<lambda>new.
               store_and_announce env c ''update_item'' key key (JList old) new ''settings_update_item'' actor given)
           | _ \<Rightarrow> raise_s (TypeError ''object is not a mapping''))) st))" for old
  proof (cases "index_of (item_matches field m) old")
    case (Some i)
    show ?thesis
    proof (cases "map_res as_dict old")
      case (Inr items)
      show ?thesis
      proof (cases patch)
        case (JObj p)
        have "plain_effect key st (snd (validated c ''update_item'' key (JList (map JObj (items[i := dmerge (items ! i) p]))) (\<lambda>new.
               store_and_announce env c ''update_item'' key key (JList old) new ''settings_update_item'' actor given) st))"
          by (rule validated_effect, erule store_effect)
        then show ?thesis by (simp add: Some Inr JObj bind_s_def lift_res_def)
      qed (simp_all add: Some Inr bind_s_def lift_res_def raise_s_def plain_effect_refl)
    qed (simp add: Some bind_s_def lift_res_def plain_effect_refl)
  qed (simp add: ret_def plain_effect_refl)
  then show ?thesis by (simp add: UpdateW update_item_internal_def with_list_effect)
next
  case (DeleteW key field m)
  have "plain_effect key st (snd ((let new_list = filter (\<lambda>x. \<not> item_matches field m x) old
       in if length new_list = length old then ret (no_match env ''delete_item'' key field m)
          else validated c ''delete_item'' key (JList new_list) (\<lambda>new.
            store_and_announce env c ''delete_item'' key key (JList old) new ''settings_delete_item'' actor None)) st))" for old
    by (simp add: Let_def ret_def plain_effect_refl) (intro impI validated_effect, erule store_effect)
  then show ?thesis by (simp add: DeleteW delete_item_internal_def with_list_effect)
qed (use assms in simp_all)

lemma secret_announce:
  assumes "sv_queue st' = sv_queue st" "sv_store st' = sv_store st" "sv_runtime st' = sv_runtime st"
  shows "secret_effect key st (snd (announce env c (secret_change op1 key) kind akey actor given restart st'))"
proof -
  obtain r st2 where a: "announce env c (secret_change op1 key) kind akey actor given restart st' = (r, st2)"
    by (cases "announce env c (secret_change op1 key) kind akey actor given restart st'")
  from announce_effect [OF a] assms show ?thesis
    unfolding a by (simp add: secret_effect_def same_settings_def) (simp add: secret_change_def)
qed

lemma secret_effect_vault: "secret_effect key st (st\<lparr>sv_vault := d\<rparr>)"
  by (simp add: secret_effect_def same_settings_def)

lemma secret_run:
  assumes "is_secret w"
  shows "secret_effect (write_key w) st (snd (run_write env c actor w st))"
  using assms
  by (cases w; cases "cl_vault c")
    (auto simp: set_credential_internal_def store_vault_internal_def delete_vault_internal_def delete_credential_internal_def
      vault_store_def vault_delete_def run_defs secret_effect_refl secret_effect_vault secret_announce)

section \<open>Invariants of the service\<close>

datatype settings_op =
    Request settings_call string settings_write
  | Resolve settings_call string

fun settings_step :: "settings_env \<Rightarrow> settings_op \<Rightarrow> settings \<Rightarrow> settings" where
  "settings_step env (Request c actor w) st = snd (request env c actor w st)"
| "settings_step env (Resolve c a) st = snd (resolve_approval env c a st)"

text \<open>A request changes nothing, counts against the rate, is queued, or runs.\<close>

definition needs_approval :: "settings_env \<Rightarrow> string \<Rightarrow> settings_write \<Rightarrow> bool" where
  "needs_approval env actor w =
     (case w of
        StoreVaultW vid v meta akey given \<Rightarrow> is_agent actor \<and> sx_approvals env
      | DeleteVaultW vid akey given \<Rightarrow> is_agent actor \<and> sx_approvals env
      | _ \<Rightarrow> requires_approval env (write_key w) actor)"

fun admitted :: "settings_write \<Rightarrow> bool" where
  "admitted (SetCredW key v description given) = is_credential_key key"
| "admitted (DeleteCredW key) = is_credential_key key"
| "admitted (StoreVaultW vid v meta akey given) = True"
| "admitted (DeleteVaultW vid akey given) = True"
| "admitted w = is_allowed_key (write_key w)"

definition counted :: "settings_env \<Rightarrow> settings_call \<Rightarrow> string \<Rightarrow> settings \<Rightarrow> settings" where
  "counted env c actor st = snd (check_rate env c actor st)"

lemma counted_same [simp]:
  "sv_store (counted env c actor st) = sv_store st" "sv_vault (counted env c actor st) = sv_vault st"
  "sv_queue (counted env c actor st) = sv_queue st" "sv_runtime (counted env c actor st) = sv_runtime st"
  "sv_dispatched (counted env c actor st) = sv_dispatched st" "sv_emitted (counted env c actor st) = sv_emitted st"
  by (simp_all add: counted_def check_rate_def rate_ok_def Let_def)

lemma gate_cases:
  "let st' = snd (gate env c actor op1 purpose key approval w st); st1 = counted env c actor st
   in st' = st1 \<or> (approval \<and> st' = submit c purpose key actor w st1) \<or> (\<not> approval \<and> st' = snd (run_write env c actor w st1))"
proof -
  obtain ok st1 where r: "check_rate env c actor st = (Inr ok, st1)"
  proof (cases "\<not> sx_limiter env \<or> \<not> is_agent actor")
    case False
    then show ?thesis using that by (cases "rate_ok (cl_now c) actor st") (simp add: check_rate_def)
  qed (simp add: that check_rate_def)
  have "st1 = counted env c actor st" by (simp add: counted_def r)
  then show ?thesis by (simp add: Let_def gate_def bind_s_def r modify_s_def ret_def)
qed

lemma request_cases:
  "let st' = snd (request env c actor w st); st1 = counted env c actor st
   in st' = st \<or> (admitted w \<and> (st' = st1 \<or> (needs_approval env actor w \<and> (\<exists>p. st' = submit c p (write_key w) actor w st1))
        \<or> (\<not> needs_approval env actor w \<and> st' = snd (run_write env c actor w st1))))"
proof -
  have g: "let st' = snd (gate env c actor op1 p (write_key w) (needs_approval env actor w) w st); st1 = counted env c actor st
     in st' = st1 \<or> (needs_approval env actor w \<and> (\<exists>p. st' = submit c p (write_key w) actor w st1))
        \<or> (\<not> needs_approval env actor w \<and> st' = snd (run_write env c actor w st1))" for op1 p
    using gate_cases [of env c actor op1 p "write_key w" "needs_approval env actor w" w st] unfolding Let_def by blast
  show ?thesis
  proof (cases "admitted w")
    case True
    have "\<exists>op1 p. request env c actor w = gate env c actor op1 p (write_key w) (needs_approval env actor w) w"
      using True by (cases w; intro exI; simp add: set_setting_def append_setting_def update_item_def delete_item_def set_credential_def
        store_vault_credential_def delete_vault_credential_def delete_credential_def needs_approval_def; rule refl)
    then show ?thesis using g True unfolding Let_def by metis
  next
    case False
    then show ?thesis by (cases w) (simp_all add: set_setting_def append_setting_def update_item_def delete_item_def set_credential_def
        delete_credential_def ret_def)
  qed
qed

lemma resolve_cases:
  "let st' = snd (resolve_approval env c a st)
   in st' = st \<or> (\<exists>e. dget (sv_queue st) a = Some e \<and> sx_approvals env
        \<and> st' = snd (run_write env c (pd_actor e) (pd_run e) (st\<lparr>sv_queue := dpop a (sv_queue st)\<rparr>)))"
  by (auto simp: resolve_approval_def run_defs Let_def split: option.splits prod.splits sum.splits exn.splits)

text \<open>
  So an invariant needs to be kept by writes, the counting of requests, and the queue.
\<close>

lemma step_invariant:
  assumes inv: "I st"
    and queue: "\<And>st q. I st \<Longrightarrow> I (st\<lparr>sv_queue := q\<rparr>)" and rate: "\<And>st q. I st \<Longrightarrow> I (st\<lparr>sv_rate := q\<rparr>)"
    and run: "\<And>st c actor w. I st \<Longrightarrow> I (snd (run_write env c actor w st))"
  shows "I (settings_step env x st)"
proof (cases x)
  case (Request c actor w)
  have "I (counted env c actor st)"
    using inv rate by (auto simp: counted_def check_rate_def rate_ok_def Let_def)
  then show ?thesis using request_cases [of env c actor w st] inv queue run
    unfolding Request settings_step.simps Let_def submit_def by metis
next
  case (Resolve c a)
  then show ?thesis using resolve_cases [of env c a st] inv queue run unfolding Resolve settings_step.simps Let_def by metis
qed

definition valid_settings :: "settings \<Rightarrow> bool" where
  "valid_settings st \<longleftrightarrow>
     (\<forall>k v fresh. is_allowed_key k \<and> dget (sv_store st) k = Some v \<longrightarrow> validate_value fresh k v = Inr v)"

lemma audit_not_allowed: "\<not> is_allowed_key audit_key"
  by (simp add: is_allowed_key_def audit_key_def phase1_keys_def phase2_keys_def phase3_keys_def)

lemma valid_same: "valid_settings st \<Longrightarrow> same_settings st st' \<Longrightarrow> valid_settings st'"
  unfolding valid_settings_def same_settings_def using audit_not_allowed by metis

lemma run_write_valid: "valid_settings st \<Longrightarrow> valid_settings (snd (run_write env c actor w st))"
proof (cases "is_secret w")
  case True
  from secret_run [OF this, of st env c actor] show "valid_settings st \<Longrightarrow> ?thesis"
    unfolding secret_effect_def by (blast intro: valid_same)
next
  case False
  assume valid: "valid_settings st"
  consider "same_settings st (snd (run_write env c actor w st))" | "stored (write_key w) st (snd (run_write env c actor w st))"
    using plain_run [OF False, of st env c actor] unfolding plain_effect_def by blast
  then show ?thesis
  proof cases
    case 1
    then show ?thesis using valid by (blast intro: valid_same)
  next
    case 2
    then obtain fresh v new where new: "validate_value fresh (write_key w) v = Inr new"
      and get: "\<And>k. k \<noteq> audit_key \<Longrightarrow> dget (sv_store (snd (run_write env c actor w st))) k = (if k = write_key w then Some new else dget (sv_store st) k)"
      unfolding stored_def by blast
    show ?thesis unfolding valid_settings_def
    proof (intro allI impI, elim conjE)
      fix k u fresh' assume k: "is_allowed_key k" "dget (sv_store (snd (run_write env c actor w st))) k = Some u"
      have audit: "k \<noteq> audit_key" using k(1) audit_not_allowed by auto
      show "validate_value fresh' k u = Inr u"
      proof (cases "k = write_key w")
        case True
        with k get [OF audit] have "u = new" by simp
        with validate_again [OF new, of fresh'] True show ?thesis by simp
      next
        case False
        with k get [OF audit] valid show ?thesis unfolding valid_settings_def by simp
      qed
    qed
  qed
qed

lemma settings_step_valid: "valid_settings st \<Longrightarrow> valid_settings (settings_step env x st)"
  by (rule step_invariant) (auto simp: run_write_valid, simp_all add: valid_settings_def)

interpretation valid: machine "settings_step env" valid_settings for env
  by unfold_locales (rule settings_step_valid)

text \<open>
  C22. Whatever clients and agents request, and whatever is approved: when every setting of the store was valid, it stays so. What the store
  holds for an allowed key is what its validator returns for it.
\<close>

theorem settings_stay_valid:
  assumes "valid_settings st" "is_allowed_key k" "dget (sv_store (fold (settings_step env) xs st)) k = Some v"
  shows "validate_value fresh k v = Inr v"
  using valid.run_inv [OF assms(1), of env xs] assms(2,3) by (simp add: valid_settings_def)

section \<open>The runtime configuration follows the store\<close>

definition synced :: "settings \<Rightarrow> bool" where
  "synced st \<longleftrightarrow> (\<forall>k \<in> set runtime_keys. dget (sv_runtime st) k = dget (sv_store st) k)"

definition harmless :: "settings_write \<Rightarrow> bool" where
  "harmless w \<longleftrightarrow> (is_secret w \<longrightarrow> write_key w \<notin> set runtime_keys)"

definition harmless_queue :: "settings \<Rightarrow> bool" where
  "harmless_queue st \<longleftrightarrow> (\<forall>a e. dget (sv_queue st) a = Some e \<longrightarrow> harmless (pd_run e))"

definition harmless_op :: "settings_op \<Rightarrow> bool" where
  "harmless_op x = (case x of Request c actor w \<Rightarrow> harmless w | Resolve c a \<Rightarrow> True)"

lemma audit_not_runtime: "audit_key \<notin> set runtime_keys"
  by (simp add: audit_key_def runtime_keys_def)

lemma synced_same: "synced st \<Longrightarrow> same_settings st st' \<Longrightarrow> sv_runtime st' = sv_runtime st \<Longrightarrow> synced st'"
  unfolding synced_def same_settings_def using audit_not_runtime by metis

lemma run_write_queue: "sv_queue (snd (run_write env c actor w st)) = sv_queue st"
proof (cases "is_secret w")
  case True
  from secret_run [OF this, of st env c actor] show ?thesis unfolding secret_effect_def by blast
next
  case False
  from plain_run [OF this, of st env c actor] show ?thesis unfolding plain_effect_def by blast
qed

lemma run_write_synced:
  assumes "synced st" "harmless w"
  shows "synced (snd (run_write env c actor w st))"
proof (cases "is_secret w")
  case True
  with secret_run [OF this, of st env c actor] assms show ?thesis
    unfolding secret_effect_def harmless_def by (blast intro: synced_same)
next
  case False
  let ?st = "snd (run_write env c actor w st)"
  consider "same_settings st ?st" "sv_runtime ?st = sv_runtime st" | "stored (write_key w) st ?st"
    using plain_run [OF False, of st env c actor] unfolding plain_effect_def by blast
  then show ?thesis
  proof cases
    case 1
    then show ?thesis using assms(1) by (blast intro: synced_same)
  next
    case 2
    then obtain new where get: "\<And>k. k \<noteq> audit_key \<Longrightarrow> dget (sv_store ?st) k = (if k = write_key w then Some new else dget (sv_store st) k)"
      and rt: "sv_runtime ?st = (if write_key w \<in> set runtime_keys then dset (write_key w) new (sv_runtime st) else sv_runtime st)"
      unfolding stored_def by blast
    show ?thesis unfolding synced_def
    proof
      fix k assume k: "k \<in> set runtime_keys"
      then have "k \<noteq> audit_key" using audit_not_runtime by auto
      from get [OF this] show "dget (sv_runtime ?st) k = dget (sv_store ?st) k"
        using k assms(1) unfolding rt synced_def by auto
    qed
  qed
qed

lemma settings_step_synced:
  assumes "synced st \<and> harmless_queue st" "harmless_op x"
  shows "synced (settings_step env x st) \<and> harmless_queue (settings_step env x st)"
proof (cases x)
  case (Request c actor w)
  let ?st1 = "counted env c actor st"
  have st1: "synced ?st1" "harmless_queue ?st1" using assms(1) by (simp_all add: synced_def harmless_queue_def)
  have w: "harmless w" using assms(2) by (simp add: Request harmless_op_def)
  have sub: "synced (submit c p (write_key w) actor w ?st1)" "harmless_queue (submit c p (write_key w) actor w ?st1)" for p
    using st1 w by (simp_all add: submit_def synced_def harmless_queue_def)
  have run: "synced (snd (run_write env c actor w ?st1))" "harmless_queue (snd (run_write env c actor w ?st1))"
    using run_write_synced [OF st1(1) w] st1(2) by (simp_all add: harmless_queue_def run_write_queue)
  show ?thesis using request_cases [of env c actor w st] assms(1) st1 sub run
    unfolding Request settings_step.simps Let_def by metis
next
  case (Resolve c a)
  have pop: "harmless_queue (st\<lparr>sv_queue := dpop a (sv_queue st)\<rparr>)" "synced (st\<lparr>sv_queue := dpop a (sv_queue st)\<rparr>)"
    using assms(1) by (auto simp: harmless_queue_def synced_def)
  have run: "synced (snd (run_write env c (pd_actor e) (pd_run e) (st\<lparr>sv_queue := dpop a (sv_queue st)\<rparr>)))
     \<and> harmless_queue (snd (run_write env c (pd_actor e) (pd_run e) (st\<lparr>sv_queue := dpop a (sv_queue st)\<rparr>)))"
    if "dget (sv_queue st) a = Some e" for e
    using run_write_synced [OF pop(2)] that assms(1) pop(1) by (auto simp: harmless_queue_def run_write_queue)
  show ?thesis using resolve_cases [of env c a st] assms(1) run
    unfolding Resolve settings_step.simps Let_def by metis
qed

lemma settings_run_synced:
  "synced st \<and> harmless_queue st \<Longrightarrow> list_all harmless_op xs \<Longrightarrow> synced (fold (settings_step env) xs st) \<and> harmless_queue (fold (settings_step env) xs st)"
  by (induction xs arbitrary: st) (auto simp: settings_step_synced)


section \<open>Agents need approval\<close>

definition protected :: "string \<Rightarrow> bool" where
  "protected k \<longleftrightarrow> k \<in> set admin_only_keys \<or> is_credential_key k"

definition untouched :: "settings \<Rightarrow> settings \<Rightarrow> bool" where
  "untouched st st' \<longleftrightarrow> sv_vault st' = sv_vault st \<and> (\<forall>k. protected k \<longrightarrow> dget (sv_store st') k = dget (sv_store st) k)"

lemma audit_not_protected: "\<not> protected audit_key"
  by (simp add: protected_def audit_key_def admin_only_keys_def is_credential_key_def)

lemma agent_request_untouched:
  assumes "sx_approvals env" "is_agent actor"
  shows "untouched st (snd (request env c actor w st))"
proof -
  have "untouched st (snd (run_write env c actor w (counted env c actor st)))" if adm: "admitted w" and no: "\<not> needs_approval env actor w"
  proof -
    let ?st1 = "counted env c actor st" and ?st2 = "snd (run_write env c actor w (counted env c actor st))"
    have plain: "\<not> is_secret w"
      using assms adm no by (cases w) (auto simp: needs_approval_def requires_approval_def)
    have key: "\<not> protected (write_key w)"
      using assms no plain by (cases w) (auto simp: needs_approval_def requires_approval_def protected_def split: if_split_asm)
    have e: "plain_effect (write_key w) ?st1 ?st2" by (rule plain_run [OF plain])
    have same: "dget (sv_store ?st2) k = dget (sv_store ?st1) k" if k: "protected k" for k
    proof -
      have "k \<noteq> audit_key" "k \<noteq> write_key w" using k key audit_not_protected by auto
      with e show ?thesis unfolding plain_effect_def same_settings_def stored_def by auto
    qed
    with e show ?thesis by (simp add: untouched_def plain_effect_def)
  qed
  moreover have "untouched st (counted env c actor st)" "untouched st (submit c p k actor w (counted env c actor st))" "untouched st st" for p k
    by (simp_all add: untouched_def submit_def)
  ultimately show ?thesis using request_cases [of env c actor w st] unfolding Let_def by metis
qed

definition agent_request :: "settings_op \<Rightarrow> bool" where
  "agent_request x = (case x of Request c actor w \<Rightarrow> is_agent actor | Resolve c a \<Rightarrow> False)"

lemma agent_run_untouched:
  "sx_approvals env \<Longrightarrow> list_all agent_request xs \<Longrightarrow> untouched st (fold (settings_step env) xs st)"
proof (induction xs arbitrary: st)
  case (Cons x xs)
  obtain c actor w where x: "x = Request c actor w" "is_agent actor"
    using Cons.prems(2) by (cases x) (auto simp: agent_request_def)
  have "untouched st (settings_step env x st)" using agent_request_untouched [OF Cons.prems(1) x(2)] by (simp add: x(1))
  with Cons.IH [OF Cons.prems(1), of "settings_step env x st"] Cons.prems(2) show ?case by (simp add: untouched_def)
qed (simp add: untouched_def)

text \<open>
  C24. However many requests agents make, no credential of the vault and no protected setting (those for administrators, and API keys) changes
  before somebody approves.
\<close>

theorem agents_need_approval:
  assumes "sx_approvals env" "list_all agent_request xs"
  shows "sv_vault (fold (settings_step env) xs st) = sv_vault st
    \<and> (\<forall>k. protected k \<longrightarrow> dget (sv_store (fold (settings_step env) xs st)) k = dget (sv_store st) k)"
  using agent_run_untouched [OF assms, of st] by (simp add: untouched_def)

text \<open>
  An approval runs what was submitted, as the actor that submitted it, and once: the second time its id is unknown and nothing changes.
\<close>

theorem approval_runs_submitted_write:
  assumes "sx_approvals env" "dget (sv_queue st) a = Some e"
  shows "snd (resolve_approval env c a st) = snd (run_write env c (pd_actor e) (pd_run e) (st\<lparr>sv_queue := dpop a (sv_queue st)\<rparr>))
    \<and> resolve_approval env c' a (snd (resolve_approval env c a st)) = (Inr (unknown_approval a), snd (resolve_approval env c a st))"
proof -
  let ?st = "st\<lparr>sv_queue := dpop a (sv_queue st)\<rparr>"
  obtain r st' where r: "run_write env c (pd_actor e) (pd_run e) ?st = (r, st')" by (cases "run_write env c (pd_actor e) (pd_run e) ?st")
  have "snd (resolve_approval env c a st) = st'"
    using assms r by (auto simp: resolve_approval_def run_defs split: sum.splits exn.splits)
  moreover have "sv_queue st' = dpop a (sv_queue st)" using run_write_queue [of env c "pd_actor e" "pd_run e" ?st] r by simp
  ultimately show ?thesis using assms(1) r by (simp add: resolve_approval_def run_defs)
qed

section \<open>Secrets stay in the vault\<close>

text \<open>The state and the writes without the secrets.\<close>

fun hide :: "settings_write \<Rightarrow> settings_write" where
  "hide (SetCredW key v description given) = SetCredW key [] description given"
| "hide (StoreVaultW vid v meta akey given) = StoreVaultW vid [] meta akey given"
| "hide w = w"

definition hide_entry :: "pending_entry \<Rightarrow> pending_entry" where
  "hide_entry e = e\<lparr>pd_run := hide (pd_run e)\<rparr>"

definition hide_value :: "string \<times> json \<Rightarrow> string \<times> json" where
  "hide_value v = ([], snd v)"

definition hide_all :: "settings \<Rightarrow> settings" where
  "hide_all st = st\<lparr>sv_vault := map (\<lambda>(k, v). (k, hide_value v)) (sv_vault st), sv_queue := map (\<lambda>(a, e). (a, hide_entry e)) (sv_queue st)\<rparr>"

definition blind :: "(settings, 'a) prog \<Rightarrow> (settings, 'a) prog \<Rightarrow> bool" where
  "blind m m' \<longleftrightarrow> (\<forall>st. m' (hide_all st) = map_prod id hide_all (m st))"

named_theorems blind_rules \<open>programs that do not look at secrets\<close>

lemma blindD: "blind m m' \<Longrightarrow> m' (hide_all st) = map_prod id hide_all (m st)"
  by (simp add: blind_def)

lemma blind_ret [blind_rules]: "blind (ret x) (ret x)"
  by (simp add: blind_def ret_def)

lemma blind_raise [blind_rules]: "blind (raise_s e) (raise_s e)"
  by (simp add: blind_def raise_s_def)

lemma blind_lift [blind_rules]: "blind (lift_res r) (lift_res r)"
  by (simp add: blind_def lift_res_def)

lemma blind_bind [blind_rules]: "blind m m' \<Longrightarrow> (\<And>x. blind (k x) (k' x)) \<Longrightarrow> blind (bind_s m k) (bind_s m' k')"
  unfolding blind_def bind_s_def by (auto split: prod.splits sum.splits)

lemma blind_try [blind_rules]: "blind m m' \<Longrightarrow> (\<And>x. blind (k x) (k' x)) \<Longrightarrow> blind (try_s m k) (try_s m' k')"
  unfolding blind_def try_s_def by (auto split: prod.splits sum.splits)

lemma blind_modify: "(\<And>st. f' (hide_all st) = hide_all (f st)) \<Longrightarrow> blind (modify_s f) (modify_s f')"
  by (simp add: blind_def modify_s_def)

lemma blind_get: "(\<And>st. blind (k st) (k' (hide_all st))) \<Longrightarrow> blind (bind_s get_s k) (bind_s get_s k')"
  by (simp add: blind_def bind_s_def get_s_def)

lemma hide_all_same [simp]:
  "sv_store (hide_all st) = sv_store st" "sv_rate (hide_all st) = sv_rate st" "sv_runtime (hide_all st) = sv_runtime st"
  "sv_dispatched (hide_all st) = sv_dispatched st" "sv_emitted (hide_all st) = sv_emitted st"
  by (simp_all add: hide_all_def)

lemma hide_put [simp]: "put_setting key v (hide_all st) = hide_all (put_setting key v st)"
  by (simp add: put_setting_def hide_all_def)

lemma hide_get [simp]: "get_setting key (hide_all st) = get_setting key st"
  by (simp add: get_setting_def)

lemma map_dset: "map (\<lambda>(k, v). (k, f v)) (dset k v d) = dset k (f v) (map (\<lambda>(k, v). (k, f v)) d)"
  by (induction d) auto

lemma map_dpop: "map (\<lambda>(k, v). (k, f v)) (dpop k d) = dpop k (map (\<lambda>(k, v). (k, f v)) d)"
  by (induction d) auto

lemma map_dget: "dget (map (\<lambda>(k, v). (k, f v)) d) k = map_option f (dget d k)"
  by (induction d) auto

lemma hide_audit [simp]: "record_audit env c kind akey actor new given (hide_all st) = map_prod id hide_all (record_audit env c kind akey actor new given st)"
  by (simp add: record_audit_def Let_def)

lemma hide_dispatch [simp]: "reload_dispatch env ch (hide_all st) = map_prod id hide_all (reload_dispatch env ch st)"
  by (simp add: reload_dispatch_def Let_def hide_all_def)

lemma hide_emit [simp]: "emit_change env ch actor a (hide_all st) = hide_all (emit_change env ch actor a st)"
  by (simp add: emit_change_def Let_def hide_all_def)

lemma blind_announce [blind_rules]: "blind (announce env c ch kind akey actor given restart) (announce env c ch kind akey actor given restart)"
  by (simp add: blind_def announce_def split: prod.splits)

lemma blind_store [blind_rules]:
  "blind (store_and_announce env c op1 key akey old new kind actor given) (store_and_announce env c op1 key akey old new kind actor given)"
  unfolding store_and_announce_def by (intro blind_rules blind_modify) simp

lemma blind_validated [blind_rules]: "(\<And>w. blind (k w) (k w)) \<Longrightarrow> blind (validated c op1 key v k) (validated c op1 key v k)"
  unfolding validated_def by (auto split: sum.splits option.splits intro: blind_rules)

lemma blind_with_list [blind_rules]: "(\<And>xs. blind (k xs) (k xs)) \<Longrightarrow> blind (with_list op1 key k) (with_list op1 key k)"
  unfolding with_list_def by (rule blind_get) (auto simp: Let_def split: json.splits intro: blind_rules)

lemma hide_vault_store: "hide_all (st\<lparr>sv_vault := dset vid v (sv_vault st)\<rparr>) = (hide_all st)\<lparr>sv_vault := dset vid (hide_value v) (sv_vault (hide_all st))\<rparr>"
  by (simp add: hide_all_def map_dset)

lemma hide_vault_delete: "hide_all (st\<lparr>sv_vault := dpop vid (sv_vault st)\<rparr>) = (hide_all st)\<lparr>sv_vault := dpop vid (sv_vault (hide_all st))\<rparr>"
  by (simp add: hide_all_def map_dpop)

lemma hide_vault_get: "dget (sv_vault (hide_all st)) vid = map_option hide_value (dget (sv_vault st) vid)"
  by (simp add: hide_all_def map_dget)

lemma blind_vault_store [blind_rules]: "blind (vault_store c vid v meta) (vault_store c vid [] meta)"
proof (cases "cl_vault c")
  case None
  then show ?thesis by (simp add: vault_store_def blind_modify hide_vault_store hide_value_def)
qed (simp add: vault_store_def blind_raise)

lemma blind_vault_delete [blind_rules]: "blind (vault_delete c vid) (vault_delete c vid)"
proof (cases "cl_vault c")
  case None
  have "blind (then_s (modify_s (\<lambda>st. st\<lparr>sv_vault := dpop vid (sv_vault st)\<rparr>)) (ret b)) (then_s (modify_s (\<lambda>st. st\<lparr>sv_vault := dpop vid (sv_vault st)\<rparr>)) (ret b))"
    for b :: bool by (intro blind_bind blind_modify blind_ret) (simp add: hide_vault_delete)
  moreover have "(dget (sv_vault (hide_all st)) vid \<noteq> None) = (dget (sv_vault st) vid \<noteq> None)" for st
    by (simp only: hide_vault_get option.map_disc_iff)
  ultimately show ?thesis unfolding vault_delete_def None option.case by (intro blind_get) (simp only:)
qed (simp add: vault_delete_def blind_raise)

lemma blind_run: "blind (run_write env c actor w) (run_write env c actor (hide w))"
proof (cases w)
  case (SetW key v given akey kind)
  then show ?thesis by (simp add: set_internal_def) (intro blind_rules blind_get, simp add: blind_rules)
next
  case (AppendW key item given)
  then show ?thesis by (simp add: append_internal_def) (intro blind_rules)
next
  case (UpdateW key field m patch given)
  then show ?thesis by (simp add: update_item_internal_def) (auto split: option.splits json.splits intro!: blind_rules)
next
  case (DeleteW key field m)
  then show ?thesis by (simp add: delete_item_internal_def Let_def) (auto intro!: blind_rules)
next
  case (SetCredW key v description given)
  then show ?thesis by (simp add: set_credential_internal_def) (auto intro!: blind_rules)
next
  case (StoreVaultW vid v meta akey given)
  then show ?thesis by (simp add: store_vault_internal_def) (auto split: option.splits intro!: blind_rules)
next
  case (DeleteVaultW vid akey given)
  then show ?thesis by (simp add: delete_vault_internal_def) (auto split: sum.splits intro!: blind_rules)
next
  case (DeleteCredW key)
  then show ?thesis by (simp add: delete_credential_internal_def) (intro blind_rules)
qed

lemma hide_counted: "check_rate env c actor (hide_all st) = map_prod id hide_all (check_rate env c actor st)"
  by (simp add: check_rate_def rate_ok_def Let_def hide_all_def)

lemma blind_gate: "blind (gate env c actor op1 purpose key approval w) (gate env c actor op1 purpose key approval (hide w))"
proof -
  have "submit c purpose key actor (hide w) (hide_all st) = hide_all (submit c purpose key actor w st)" for st
    by (simp add: submit_def hide_all_def map_dset hide_entry_def)
  moreover have "blind (check_rate env c actor) (check_rate env c actor)" by (simp add: blind_def hide_counted)
  ultimately show ?thesis unfolding gate_def by (auto intro!: blind_rules blind_modify blind_run)
qed

lemma blind_request: "blind (request env c actor w) (request env c actor (hide w))"
  using blind_gate [of env c actor _ _ _ _ w]
  by (cases w) (simp_all add: set_setting_def append_setting_def update_item_def delete_item_def set_credential_def
      store_vault_credential_def delete_vault_credential_def delete_credential_def blind_ret)

lemma hide_queue_get: "dget (sv_queue (hide_all st)) a = map_option hide_entry (dget (sv_queue st) a)"
  by (simp add: hide_all_def map_dget)

lemma hide_queue_pop: "(hide_all st)\<lparr>sv_queue := dpop a (sv_queue (hide_all st))\<rparr> = hide_all (st\<lparr>sv_queue := dpop a (sv_queue st)\<rparr>)"
  by (simp add: hide_all_def map_dpop)

lemma blind_resolve: "blind (resolve_approval env c a) (resolve_approval env c a)"
proof -
  have run: "blind (then_s (modify_s (\<lambda>st. st\<lparr>sv_queue := dpop a (sv_queue st)\<rparr>)) (run_write env c (pd_actor e) (pd_run e)))
      (then_s (modify_s (\<lambda>st. st\<lparr>sv_queue := dpop a (sv_queue st)\<rparr>)) (run_write env c (pd_actor (hide_entry e)) (pd_run (hide_entry e))))" for e
    unfolding hide_entry_def by (intro blind_bind blind_modify) (simp_all add: hide_queue_pop blind_run)
  show ?thesis unfolding resolve_approval_def
    by (auto intro!: blind_rules blind_get run simp: hide_queue_get split: option.splits exn.splits)
qed

fun hide_op :: "settings_op \<Rightarrow> settings_op" where
  "hide_op (Request c actor w) = Request c actor (hide w)"
| "hide_op (Resolve c a) = Resolve c a"

lemma hide_step: "settings_step env (hide_op x) (hide_all st) = hide_all (settings_step env x st)"
  by (cases x) (simp_all add: blindD [OF blind_request] blindD [OF blind_resolve])

lemma hide_run: "fold (settings_step env) (map hide_op xs) (hide_all st) = hide_all (fold (settings_step env) xs st)"
  by (induction xs arbitrary: st) (simp_all add: hide_step)


section \<open>A key that is set by the wrong method\<close>

lemma set_credential_key:
  assumes "validate_value (cl_fresh c) key v = Inr v" "is_credential_key key"
  shows "let st' = snd (run_write env c actor (SetW key v None None None) st)
     in dget (sv_store st') key = Some v \<and> sv_vault st' = sv_vault st \<and> sc_new (last (sv_dispatched st')) = v"
proof -
  let ?ch = "\<lparr>sc_key = key, sc_op = ''set'', sc_old = get_setting key st, sc_new = v\<rparr>" and ?st1 = "put_setting key v st"
  obtain a st2 where a: "record_audit env c ''settings_write'' key actor v None ?st1 = (a, st2)"
    by (cases "record_audit env c ''settings_write'' key actor v None ?st1")
  obtain es st3 where d: "reload_dispatch env ?ch st2 = (es, st3)" by (cases "reload_dispatch env ?ch st2")
  have run: "snd (run_write env c actor (SetW key v None None None) st) = emit_change env ?ch actor (Some a) st3"
    by (simp add: set_internal_def validated_def assms(1) store_and_announce_def announce_def run_defs opt_or_def a d)
  have "key \<noteq> audit_key" using assms(2) audit_not_protected by (auto simp: protected_def)
  then have "dget (sv_store st2) key = Some v" using record_audit_effect(1) [OF a] by (simp add: same_settings_def put_setting_def)
  moreover have "sv_vault st2 = sv_vault st" using record_audit_effect(2) [OF a] by (simp add: put_setting_def)
  moreover have "sc_new (last (sv_dispatched (emit_change env ?ch actor (Some a) st3))) = v"
    using d by (auto simp: reload_dispatch_def emit_change_def Let_def)
  ultimately show ?thesis unfolding Let_def run using dispatch_effect [OF d] by simp
qed

lemma awaiting_set:
  assumes "sx_approvals env" "is_allowed_key key" "is_credential_key key" "is_agent actor"
    and "fst (set_setting env c actor key v given akey kind st) = Inr (awaiting ''set'' key a)"
  shows "snd (set_setting env c actor key v given akey kind st) = submit c ''settings_set'' key actor (SetW key v given akey kind) (counted env c actor st)"
    "a = cl_id c"
proof -
  obtain ok st1 where r: "check_rate env c actor st = (Inr ok, st1)"
  proof (cases "\<not> sx_limiter env \<or> \<not> is_agent actor")
    case False
    then show ?thesis using that by (cases "rate_ok (cl_now c) actor st") (simp add: check_rate_def)
  qed (simp add: that check_rate_def)
  have st1: "st1 = counted env c actor st" by (simp add: counted_def r)
  have "ok" using assms by (cases ok) (auto simp: set_setting_def gate_def run_defs r refused_def awaiting_def)
  then show "snd (set_setting env c actor key v given akey kind st) = submit c ''settings_set'' key actor (SetW key v given akey kind) (counted env c actor st)"
    "a = cl_id c"
    using assms by (auto simp: set_setting_def gate_def run_defs r requires_approval_def awaiting_def st1)
qed

text \<open>
  An API key that an agent sets with \<open>set\<close>, as its tool for settings does, ends in the wrong place once it is approved: the settings store holds the
  plain text, the reload functions are given it, and the vault is as before.
\<close>

theorem approved_set_stores_plaintext:
  assumes "sx_approvals env" "is_allowed_key key" "is_credential_key key" "is_agent actor" "v \<noteq> []"
    and "fst (set_setting env c actor key (JStr v) None None None st) = Inr (awaiting ''set'' key a)"
  shows "let st' = snd (resolve_approval env c' a (snd (set_setting env c actor key (JStr v) None None None st)))
    in dget (sv_store st') key = Some (JStr v) \<and> sv_vault st' = sv_vault st \<and> sc_new (last (sv_dispatched st')) = JStr v"
proof -
  note w = awaiting_set [OF assms(1-4,6)]
  let ?w = "SetW key (JStr v) None None None"
  obtain st1 where st1: "st1 = submit c ''settings_set'' key actor ?w (counted env c actor st)" by simp
  have entry: "dget (sv_queue st1) a = Some \<lparr>pd_purpose = ''settings_set'', pd_key = key, pd_actor = actor, pd_run = ?w\<rparr>"
    by (simp add: st1 w(2) submit_def)
  have ok: "validate_value (cl_fresh c') key (JStr v) = Inr (JStr v)"
  proof -
    have "dget phase1 key = None"
      using assms(3) by (auto simp: dget_None_iff whitelist_keys phase1_keys_def is_credential_key_def)
    then show ?thesis using assms(3,5) by (simp add: validate_value_def validate_credential_def ensure_def)
  qed
  let ?st2 = "st1\<lparr>sv_queue := dpop a (sv_queue st1)\<rparr>"
  have "snd (resolve_approval env c' a st1) = snd (run_write env c' actor ?w ?st2)"
    using assms(1) entry by (auto simp: resolve_approval_def bind_s_def get_s_def modify_s_def try_s_def ret_def raise_s_def
        set_internal_def validated_def ok store_and_announce_def announce_def split: prod.splits)
  then show ?thesis
    using set_credential_key [OF ok assms(3), of env actor ?st2] unfolding w(1) st1 [symmetric] Let_def
    by (simp add: st1 submit_def)
qed

lemma vault_name_resets_setting:
  assumes "\<not> is_agent actor" "cl_vault c = None" "k \<in> set runtime_keys"
  shows "dget (sv_runtime (snd (store_vault_credential env c actor k v m akey given st))) k = Some JNull"
proof -
  let ?st = "st\<lparr>sv_vault := dset k (v, m) (sv_vault st)\<rparr>"
  obtain r st' where a: "announce env c (secret_change ''credential_store'' k) ''credential_store'' (opt_or akey k) actor given False ?st = (r, st')"
    by (cases "announce env c (secret_change ''credential_store'' k) ''credential_store'' (opt_or akey k) actor given False ?st")
  have "snd (store_vault_credential env c actor k v m akey given st) = st'"
    using assms a by (simp add: store_vault_credential_def gate_def check_rate_def store_vault_internal_def vault_store_def run_defs)
  with announce_effect(4) [OF a] assms(3) show ?thesis by (simp add: secret_change_def)
qed

section \<open>A run\<close>

definition demo_env :: settings_env where
  "demo_env = \<lparr>sx_subs = [], sx_repr = (\<lambda>_. []), sx_bus = True, sx_approvals = True, sx_limiter = True\<rparr>"

definition demo_set :: "string \<Rightarrow> settings_call" where
  "demo_set a = \<lparr>cl_now = 0, cl_id = a, cl_fresh = (\<lambda>i. i), cl_vault = None\<rparr>"

definition empty_settings :: settings where
  "empty_settings = \<lparr>sv_store = [], sv_vault = [], sv_runtime = [], sv_queue = [], sv_rate = [], sv_dispatched = [], sv_emitted = []\<rparr>"

definition brief :: settings_op where
  "brief = Request (demo_set ''a'') ''user:ann'' (SetW ''custom_instructions'' (JStr ''be brief'') None None None)"

lemma brief_stored: "dget (sv_store (settings_step demo_env brief empty_settings)) ''custom_instructions'' = Some (JStr ''be brief'')"
proof -
  have v: "validate_value f ''custom_instructions'' (JStr ''be brief'') = Inr (JStr ''be brief'')" for f
    by (simp add: validate_value_def phase1_def validate_instructions_def)
  have k: "is_allowed_key ''custom_instructions''" by (simp add: is_allowed_key_def phase1_keys_def)
  have a: "\<not> is_agent ''user:ann''" by (simp add: is_agent_def)
  show ?thesis
    by (simp add: brief_def set_setting_def k gate_def check_rate_def requires_approval_def a run_defs set_internal_def validated_def v
        store_and_announce_def announce_def record_audit_def reload_dispatch_def emit_change_def put_setting_def Let_def demo_env_def audit_key_def
        empty_settings_def)
qed

lemma settings_stay_valid_witness:
  "dget (sv_store (fold (settings_step demo_env) [brief] empty_settings)) ''custom_instructions'' = Some (JStr ''be brief'')
   \<and> validate_value (\<lambda>i. 7) ''custom_instructions'' (JStr ''be brief'') = Inr (JStr ''be brief'')"
proof -
  have "valid_settings empty_settings" by (simp add: valid_settings_def empty_settings_def)
  moreover have "is_allowed_key ''custom_instructions''" by (simp add: is_allowed_key_def phase1_keys_def)
  moreover have get: "dget (sv_store (fold (settings_step demo_env) [brief] empty_settings)) ''custom_instructions'' = Some (JStr ''be brief'')"
    using brief_stored by simp
  ultimately have "validate_value (\<lambda>i. 7) ''custom_instructions'' (JStr ''be brief'') = Inr (JStr ''be brief'')"
    by (rule settings_stay_valid)
  with get show ?thesis by blast
qed

definition retry3 :: settings_op where
  "retry3 = Request (demo_set ''a'') ''user:ann'' (SetW ''retry_config'' (JObj [(''max_retries'', JInt 3)]) None None None)"


definition agent_sets_key :: "settings_op" where
  "agent_sets_key = Request (demo_set ''approve-1'') ''agent:core'' (SetW ''apikey:OPENAI_API_KEY'' (JStr ''sk-1'') None None None)"

lemma agents_need_approval_witness:
  "sv_vault (fold (settings_step demo_env) [agent_sets_key] empty_settings) = []
   \<and> dget (sv_store (fold (settings_step demo_env) [agent_sets_key] empty_settings)) ''apikey:OPENAI_API_KEY'' = None"
proof -
  have "sx_approvals demo_env" by (simp add: demo_env_def)
  moreover have "list_all agent_request [agent_sets_key]" by (simp add: agent_sets_key_def agent_request_def is_agent_def)
  ultimately have "sv_vault (fold (settings_step demo_env) [agent_sets_key] empty_settings) = sv_vault empty_settings
    \<and> (\<forall>k. protected k \<longrightarrow> dget (sv_store (fold (settings_step demo_env) [agent_sets_key] empty_settings)) k = dget (sv_store empty_settings) k)"
    by (rule agents_need_approval)
  moreover have "protected ''apikey:OPENAI_API_KEY''" by (simp add: protected_def is_credential_key_def)
  ultimately show ?thesis by (simp add: empty_settings_def)
qed

definition demo_queued :: settings where
  "demo_queued = empty_settings\<lparr>sv_queue := [(''approve-1'', \<lparr>pd_purpose = ''settings_set'', pd_key = ''custom_instructions'', pd_actor = ''agent:core'',
     pd_run = SetW ''custom_instructions'' (JStr ''be brief'') None None None\<rparr>)]\<rparr>"

lemma approval_runs_submitted_write_witness:
  "resolve_approval demo_env (demo_set ''y'') ''approve-1'' (snd (resolve_approval demo_env (demo_set ''x'') ''approve-1'' demo_queued))
   = (Inr (unknown_approval ''approve-1''), snd (resolve_approval demo_env (demo_set ''x'') ''approve-1'' demo_queued))"
proof -
  have "sx_approvals demo_env" by (simp add: demo_env_def)
  moreover have "dget (sv_queue demo_queued) ''approve-1'' = Some \<lparr>pd_purpose = ''settings_set'', pd_key = ''custom_instructions'',
      pd_actor = ''agent:core'', pd_run = SetW ''custom_instructions'' (JStr ''be brief'') None None None\<rparr>"
    by (simp add: demo_queued_def)
  ultimately show ?thesis using approval_runs_submitted_write by blast
qed

lemma approved_set_stores_plaintext_witness:
  "dget (sv_store (snd (resolve_approval demo_env (demo_set ''x'') ''approve-1''
      (snd (set_setting demo_env (demo_set ''approve-1'') ''agent:core'' ''apikey:OPENAI_API_KEY'' (JStr ''sk-1'') None None None empty_settings)))))
    ''apikey:OPENAI_API_KEY'' = Some (JStr ''sk-1'')"
proof -
  have k: "is_allowed_key ''apikey:OPENAI_API_KEY''" "is_credential_key ''apikey:OPENAI_API_KEY''" "is_agent ''agent:core''"
    by (simp_all add: is_allowed_key_def phase1_keys_def phase2_keys_def phase3_keys_def api_key_names_def is_credential_key_def is_agent_def)
  have env: "sx_approvals demo_env" "sx_limiter demo_env" by (simp_all add: demo_env_def)
  have "fst (set_setting demo_env (demo_set ''approve-1'') ''agent:core'' ''apikey:OPENAI_API_KEY'' (JStr ''sk-1'') None None None empty_settings)
      = Inr (awaiting ''set'' ''apikey:OPENAI_API_KEY'' ''approve-1'')"
    by (simp add: set_setting_def k gate_def check_rate_def rate_ok_def env requires_approval_def run_defs empty_settings_def dget_or_def demo_set_def)
  from approved_set_stores_plaintext [OF env(1) k(1,2,3) _ this, of "demo_set ''x''"] show ?thesis by (simp add: Let_def)
qed

end
