(* ===== verification/Settings_Actions.thy ===== *)
theory Settings_Actions
  imports Settings
begin

text \<open>
  Who calls the settings service: the settings actions of \<open>sdui/actions.py\<close> on behalf of a user, and the agent's tools of
  \<open>tools/settings_tools.py\<close>. The handler is the one \<open>web/settings_wiring.py\<close> builds, with a store, a vault and the service. Actions on flows and chats
  are left out, and \<open>json.loads\<close> is an argument of the tools.
\<close>

section \<open>Results\<close>

datatype act_result =
    ActError string
  | ActOk bool bool
  | ActStored bool string
  | ActDone

text \<open>\<open>result.error or m\<close>.\<close>

definition error_or :: "string \<Rightarrow> set_result \<Rightarrow> string" where
  "error_or m r = (case rs_error r of Some e \<Rightarrow> if e = [] then m else e | None \<Rightarrow> m)"

definition user_actor :: "string \<Rightarrow> string" where
  "user_actor user = ''user:'' @ user"

section \<open>Administrators\<close>

text \<open>\<open>x in v\<close> and \<open>len(v)\<close> for a text \<open>x\<close> and a JSON value \<open>v\<close>.\<close>

definition contains :: "json \<Rightarrow> string \<Rightarrow> exn + bool" where
  "contains v x =
     (case v of
        JList xs \<Rightarrow> Inr (JStr x \<in> set xs)
      | JStr s \<Rightarrow> Inr (str_contains s x)
      | JObj d \<Rightarrow> Inr (dget d x \<noteq> None)
      | _ \<Rightarrow> Inl (TypeError ''argument is not iterable''))"

definition is_empty :: "json \<Rightarrow> exn + bool" where
  "is_empty v =
     (case v of
        JList xs \<Rightarrow> Inr (xs = [])
      | JStr s \<Rightarrow> Inr (s = [])
      | JObj d \<Rightarrow> Inr (d = [])
      | _ \<Rightarrow> Inl (TypeError ''object has no len()''))"

definition admin_users :: "settings \<Rightarrow> json" where
  "admin_users st =
     (case get_setting ''safety_permissions'' st of
        JObj perms \<Rightarrow> let u = dget_or perms ''admin_users'' JNull in if truthy u then u else JList []
      | _ \<Rightarrow> JList [])"

definition is_admin :: "string \<Rightarrow> settings \<Rightarrow> exn + bool" where
  "is_admin user st =
     (case get_setting ''safety_permissions'' st of
        JObj perms \<Rightarrow> if user = [] then Inr False else contains (admin_users st) user
      | _ \<Rightarrow> Inr False)"

definition guard_admin :: "string \<Rightarrow> (settings, act_result) prog \<Rightarrow> (settings, act_result) prog" where
  "guard_admin user k =
     bind_s get_s (\<lambda>st. bind_s (lift_res (is_admin user st)) (\<lambda>ok.
       if ok then k else ret (ActError ''permission denied: admin only'')))"

section \<open>Writing a setting\<close>

definition act_get :: "json_obj \<Rightarrow> string \<Rightarrow> json" where
  "act_get action f = dget_or action f JNull"

definition write_checked ::
  "settings_env \<Rightarrow> settings_call \<Rightarrow> string \<Rightarrow> string \<Rightarrow> json \<Rightarrow> (settings, act_result) prog"
where
  "write_checked env c user key raw =
     (case validate_value (cl_fresh c) key raw of
        Inl e \<Rightarrow> (case validation_message e of Some m \<Rightarrow> ret (ActError m) | None \<Rightarrow> raise_s e)
      | Inr cleaned \<Rightarrow>
          if is_credential_key key then
            bind_s (set_credential env c (user_actor user) key (case cleaned of JStr s \<Rightarrow> s | _ \<Rightarrow> []) [] (Some (summary_write key cleaned))) (\<lambda>r.
            ret (if rs_ok r then ActOk (rs_persisted r) (rs_restart r) else ActError (error_or ''set_credential failed'' r)))
          else
            bind_s get_s (\<lambda>st.
            let merged = (case (get_setting key st, cleaned) of (JObj d, JObj e) \<Rightarrow> JObj (dmerge d e) | _ \<Rightarrow> cleaned)
            in bind_s (set_setting env c (user_actor user) key merged None None None) (\<lambda>r.
               ret (if rs_ok r then ActOk (rs_persisted r) (rs_restart r) else ActError (error_or ''set failed'' r)))))"

definition settings_write :: "settings_env \<Rightarrow> settings_call \<Rightarrow> string \<Rightarrow> json_obj \<Rightarrow> (settings, act_result) prog" where
  "settings_write env c user action =
     (case act_get action ''key'' of
        JStr key \<Rightarrow>
          if \<not> is_allowed_key key then ret (ActError (''key not allowed: '' @ key))
          else if key \<in> set admin_only_keys then guard_admin user (write_checked env c user key (act_get action ''values''))
          else write_checked env c user key (act_get action ''values'')
      | v \<Rightarrow> ret (ActError (''key not allowed: '' @ show_json env v)))"

section \<open>Preparing an item\<close>

text \<open>\<open>splitlines\<close> on ASCII text, and the parts before and after the first \<open>=\<close>.\<close>

definition is_break :: "char \<Rightarrow> bool" where
  "is_break c = (of_char c \<in> {10, 11, 12, 13, 28, 29, 30 :: nat})"

text \<open>The blank lines that a carriage return before a line feed makes are dropped by both callers, with all other blank lines.\<close>

fun splitlines_from :: "string \<Rightarrow> string \<Rightarrow> string list" where
  "splitlines_from acc [] = (if acc = [] then [] else [acc])"
| "splitlines_from acc (c # cs) = (if is_break c then acc # splitlines_from [] cs else splitlines_from (acc @ [c]) cs)"

definition stripped_lines :: "string \<Rightarrow> string list" where
  "stripped_lines s = filter (\<lambda>l. l \<noteq> []) (map str_strip (splitlines_from [] s))"

definition parse_args_text :: "json \<Rightarrow> json" where
  "parse_args_text v =
     (case v of
        JList _ \<Rightarrow> v
      | JStr s \<Rightarrow> JList (map JStr (stripped_lines s))
      | _ \<Rightarrow> JList [])"

fun parse_env_lines :: "string list \<Rightarrow> json_obj \<Rightarrow> string + json_obj" where
  "parse_env_lines [] out = Inr out"
| "parse_env_lines (l # ls) out =
     (if CHR ''='' \<notin> set l then Inl (''env line is missing '' @ quoted ''='' @ '': '' @ quoted l)
      else let k = takeWhile (\<lambda>c. c \<noteq> CHR ''='') l
           in parse_env_lines ls (dset (str_strip k) (JStr (drop (Suc (length k)) l)) out))"

definition parse_env_text :: "json \<Rightarrow> string + json" where
  "parse_env_text v =
     (case v of
        JObj _ \<Rightarrow> Inr v
      | JStr s \<Rightarrow> (case parse_env_lines (stripped_lines s) [] of Inl e \<Rightarrow> Inl e | Inr d \<Rightarrow> Inr (JObj d))
      | _ \<Rightarrow> Inr (JObj []))"

definition parse_mcp_server_values :: "json_obj \<Rightarrow> string + json_obj" where
  "parse_mcp_server_values d =
     (let d1 = (case act_get d ''args'' of JStr s \<Rightarrow> dset ''args'' (parse_args_text (JStr s)) d | _ \<Rightarrow> d);
          d2 = (case act_get d1 ''env'' of
              JStr s \<Rightarrow> (case parse_env_text (JStr s) of Inl e \<Rightarrow> Inl e | Inr v \<Rightarrow> Inr (dset ''env'' v d1))
            | _ \<Rightarrow> Inr d1)
      in case d2 of
           Inl e \<Rightarrow> Inl e
         | Inr d2 \<Rightarrow>
             (case act_get d2 ''enabled'' of
                JStr s \<Rightarrow> (case coerce_bool ''enabled'' (JStr s) of Inl e \<Rightarrow> Inl (exn_str e) | Inr b \<Rightarrow> Inr (dset ''enabled'' b d2))
              | _ \<Rightarrow> Inr d2))"

text \<open>\<open>any(s.get(field) == value for s in existing)\<close>; an item that is no object has no \<open>get\<close>.\<close>

fun any_item :: "string \<Rightarrow> string \<Rightarrow> json list \<Rightarrow> exn + bool" where
  "any_item f v [] = Inr False"
| "any_item f v (x # xs) =
     (case x of
        JObj d \<Rightarrow> if dget_or d f JNull = JStr v then Inr True else any_item f v xs
      | _ \<Rightarrow> Inl (OtherError ''AttributeError'' ''object has no attribute get''))"

text \<open>The result of a preparation: an exception, a message, or the item.\<close>

definition prepare_named :: "string \<Rightarrow> json list \<Rightarrow> json \<Rightarrow> (json_obj \<Rightarrow> string + json) \<Rightarrow> exn + (string + json)" where
  "prepare_named key existing item k =
     (case item of
        JObj d \<Rightarrow>
          (case act_get d ''name'' of
             JStr n \<Rightarrow>
               if n = [] then Inr (Inl (key @ '' item: name must be a non-empty string''))
               else bind_res (any_item ''name'' n existing) (\<lambda>dup.
                 Inr (if dup then Inl (key @ '': duplicate name '' @ quoted n) else k d))
           | _ \<Rightarrow> Inr (Inl (key @ '' item: name must be a non-empty string'')))
      | _ \<Rightarrow> Inr (Inl ''values must be an object''))"

definition prepare_mcp_server_item :: "json list \<Rightarrow> json \<Rightarrow> exn + (string + json)" where
  "prepare_mcp_server_item existing item =
     prepare_named ''mcp_servers'' existing item
       (\<lambda>d. case parse_mcp_server_values d of Inl e \<Rightarrow> Inl e | Inr d' \<Rightarrow> Inr (JObj d'))"

definition prepare_skill_market_item :: "json list \<Rightarrow> json \<Rightarrow> exn + (string + json)" where
  "prepare_skill_market_item existing item = prepare_named ''skill_markets'' existing item (\<lambda>d. Inr (JObj d))"

definition prepare_scheduler_cron_item :: "json list \<Rightarrow> json \<Rightarrow> exn + (string + json)" where
  "prepare_scheduler_cron_item existing item = prepare_named ''scheduler_cron'' existing item (\<lambda>d. Inr (JObj d))"

definition prepare_safety_approval_item :: "json list \<Rightarrow> json \<Rightarrow> exn + (string + json)" where
  "prepare_safety_approval_item existing item =
     Inr (case item of
        JObj d \<Rightarrow>
          (case act_get d ''tool'' of
             JStr t \<Rightarrow>
               if t = [] then Inl ''safety_approval item: tool must be a non-empty string''
               else if JStr t \<in> set existing then Inl (''safety_approval: duplicate tool '' @ quoted t)
               else Inr (JStr t)
           | _ \<Rightarrow> Inl ''safety_approval item: tool must be a non-empty string'')
      | _ \<Rightarrow> Inl ''values must be an object with a 'tool' field'')"

text \<open>\<open>list(v)\<close>.\<close>

definition as_list :: "json \<Rightarrow> exn + json list" where
  "as_list v =
     (case v of
        JList xs \<Rightarrow> Inr xs
      | JStr s \<Rightarrow> Inr (map (\<lambda>ch. JStr [ch]) s)
      | JObj d \<Rightarrow> Inr (map JStr (dkeys d))
      | _ \<Rightarrow> Inl (TypeError ''object is not iterable''))"

definition obj_or_empty :: "json \<Rightarrow> json_obj" where
  "obj_or_empty v = (case v of JObj d \<Rightarrow> d | _ \<Rightarrow> [])"

definition build_blacklist_candidate :: "json \<Rightarrow> settings \<Rightarrow> exn + (string + json)" where
  "build_blacklist_candidate item st =
     (case item of
        JObj d \<Rightarrow>
          (case act_get d ''domain'' of
             JStr domain \<Rightarrow>
               if domain = [] then Inr (Inl ''safety_blacklist item: domain must be a non-empty string'')
               else (case act_get d ''tool'' of
                  JStr tool \<Rightarrow>
                    if tool = [] then Inr (Inl ''safety_blacklist item: tool must be a non-empty string'')
                    else
                      let existing = obj_or_empty (get_setting ''safety_blacklist'' st)
                      in bind_res (as_list (dget_or existing domain (JList []))) (\<lambda>ts.
                         Inr (if JStr tool \<in> set ts then Inl (''safety_blacklist['' @ quoted domain @ '']: duplicate tool '' @ quoted tool)
                              else Inr (JObj (dset domain (JList (ts @ [JStr tool])) existing))))
                | _ \<Rightarrow> Inr (Inl ''safety_blacklist item: tool must be a non-empty string''))
           | _ \<Rightarrow> Inr (Inl ''safety_blacklist item: domain must be a non-empty string''))
      | _ \<Rightarrow> Inr (Inl ''safety_blacklist item: values must be an object''))"

definition build_admin_users_candidate :: "json \<Rightarrow> settings \<Rightarrow> exn + (string + json)" where
  "build_admin_users_candidate item st =
     (case item of
        JObj d \<Rightarrow>
          (case act_get d ''user'' of
             JStr user \<Rightarrow>
               if user = [] then Inr (Inl ''safety_permissions_admin_users: user must be a non-empty string'')
               else
                 let existing = obj_or_empty (get_setting ''safety_permissions'' st)
                 in bind_res (as_list (dget_or existing ''admin_users'' (JList []))) (\<lambda>us.
                    Inr (if JStr user \<in> set us then Inl (''safety_permissions.admin_users: duplicate user '' @ quoted user)
                         else Inr (JObj (dset ''admin_users'' (JList (us @ [JStr user])) existing))))
           | _ \<Rightarrow> Inr (Inl ''safety_permissions_admin_users: user must be a non-empty string''))
      | _ \<Rightarrow> Inr (Inl ''safety_permissions_admin_users: values must be an object''))"

section \<open>Appending and updating\<close>

definition append_allowed_keys :: "string list" where
  "append_allowed_keys = [''mcp_servers'', ''skill_markets'', ''safety_approval'', ''safety_blacklist'', ''safety_permissions_admin_users'',
     ''scheduler_cron'']"

definition done_or :: "string \<Rightarrow> set_result \<Rightarrow> act_result" where
  "done_or m r = (if rs_ok r then ActDone else ActError (error_or m r))"

text \<open>The settings that are objects: the whole candidate is set, and the log shows an append.\<close>

definition set_candidate ::
  "settings_env \<Rightarrow> settings_call \<Rightarrow> string \<Rightarrow> string \<Rightarrow> string \<Rightarrow> json \<Rightarrow> exn + (string + json) \<Rightarrow> (settings, act_result) prog"
where
  "set_candidate env c user key target item candidate =
     bind_s (lift_res candidate) (\<lambda>r.
       case r of
         Inl e \<Rightarrow> ret (ActError e)
       | Inr v \<Rightarrow> bind_s (set_setting env c (user_actor user) target v (Some (summary_append env key item)) (Some key) (Some ''settings_append''))
           (\<lambda>r. ret (done_or ''set failed'' r)))"

definition prepare_item :: "string \<Rightarrow> json list \<Rightarrow> json \<Rightarrow> exn + (string + json)" where
  "prepare_item key existing item =
     (if key = ''mcp_servers'' then prepare_mcp_server_item existing item
      else if key = ''skill_markets'' then prepare_skill_market_item existing item
      else if key = ''safety_approval'' then prepare_safety_approval_item existing item
      else if key = ''scheduler_cron'' then prepare_scheduler_cron_item existing item
      else Inr (Inl (''key not allowed for settings_append: '' @ key)))"

definition append_item ::
  "settings_env \<Rightarrow> settings_call \<Rightarrow> string \<Rightarrow> string \<Rightarrow> json \<Rightarrow> (settings, act_result) prog"
where
  "append_item env c user key item =
     bind_s get_s (\<lambda>st.
       if key = ''safety_permissions_admin_users'' then
         set_candidate env c user key ''safety_permissions'' item (build_admin_users_candidate item st)
       else if key = ''safety_blacklist'' then
         set_candidate env c user key ''safety_blacklist'' item (build_blacklist_candidate item st)
       else
         bind_s (lift_res (prepare_item key (case get_setting key st of JList xs \<Rightarrow> xs | _ \<Rightarrow> []) item)) (\<lambda>r.
         case r of
           Inl e \<Rightarrow> ret (ActError e)
         | Inr v \<Rightarrow> bind_s (append_setting env c (user_actor user) key v (Some (summary_append env key item)))
             (\<lambda>r. ret (done_or ''append failed'' r))))"

text \<open>While there are no administrators, anybody may name the first one.\<close>

definition settings_append :: "settings_env \<Rightarrow> settings_call \<Rightarrow> string \<Rightarrow> json_obj \<Rightarrow> (settings, act_result) prog" where
  "settings_append env c user action =
     (case act_get action ''key'' of
        JStr key \<Rightarrow>
          if key \<notin> set append_allowed_keys then ret (ActError (''key not allowed for settings_append: '' @ key))
          else if key \<in> set admin_only_keys then
            bind_s get_s (\<lambda>st.
            bind_s (lift_res (if key = ''safety_permissions_admin_users'' then is_empty (admin_users st) else Inr False)) (\<lambda>bootstrap.
            if bootstrap then append_item env c user key (act_get action ''values'')
            else guard_admin user (append_item env c user key (act_get action ''values''))))
          else append_item env c user key (act_get action ''values'')
      | JList _ \<Rightarrow> raise_s (TypeError ''unhashable type: list'')
      | JObj _ \<Rightarrow> raise_s (TypeError ''unhashable type: dict'')
      | v \<Rightarrow> ret (ActError (''key not allowed for settings_append: '' @ show_json env v)))"

definition update_allowed_keys :: "string list" where
  "update_allowed_keys = [''mcp_servers'', ''skill_markets'', ''scheduler_cron'']"

definition not_found_item :: "string \<Rightarrow> string \<Rightarrow> string \<Rightarrow> string" where
  "not_found_item key field m = key @ '': item with '' @ field @ ''='' @ quoted m @ '' not found''"

definition settings_update_item :: "settings_env \<Rightarrow> settings_call \<Rightarrow> string \<Rightarrow> json_obj \<Rightarrow> (settings, act_result) prog" where
  "settings_update_item env c user action =
     (case act_get action ''key'' of
        JStr key \<Rightarrow>
          if key \<notin> set update_allowed_keys then ret (ActError (''key not allowed for settings_update_item: '' @ key))
          else (case act_get action ''match_field'' of
             JStr field \<Rightarrow>
               if field = [] then ret (ActError ''match_field must be a non-empty string'')
               else (case act_get action ''match_value'' of
                  JStr m \<Rightarrow>
                    if m = [] then ret (ActError ''match_value must be a non-empty string'')
                    else (case act_get action ''values'' of
                       JObj values \<Rightarrow>
                         bind_s get_s (\<lambda>st.
                         bind_s (lift_res (any_item field m (case get_setting key st of JList xs \<Rightarrow> xs | _ \<Rightarrow> []))) (\<lambda>found.
                         if \<not> found then ret (ActError (not_found_item key field m))
                         else (case (if key = ''mcp_servers'' then parse_mcp_server_values values else Inr values) of
                            Inl e \<Rightarrow> ret (ActError e)
                          | Inr patch \<Rightarrow>
                              bind_s (update_item env c (user_actor user) key field (JStr m) (JObj patch) (Some (summary_update key m))) (\<lambda>r.
                              ret (if rs_ok r then ActDone
                                else let e = error_or ''update_item failed'' r
                                     in ActError (if str_contains e ''no matching item'' then not_found_item key field m else e))))))
                     | _ \<Rightarrow> ret (ActError ''values must be an object''))
                | _ \<Rightarrow> ret (ActError ''match_value must be a non-empty string''))
           | _ \<Rightarrow> ret (ActError ''match_field must be a non-empty string''))
      | JList _ \<Rightarrow> raise_s (TypeError ''unhashable type: list'')
      | JObj _ \<Rightarrow> raise_s (TypeError ''unhashable type: dict'')
      | v \<Rightarrow> ret (ActError (''key not allowed for settings_update_item: '' @ show_json env v)))"

section \<open>Credentials\<close>

definition vault_char :: "char \<Rightarrow> bool" where
  "vault_char ch =
     (let n = (of_char ch :: nat)
      in (48 \<le> n \<and> n \<le> 57) \<or> (65 \<le> n \<and> n \<le> 90) \<or> (97 \<le> n \<and> n \<le> 122) \<or> ch \<in> set ''_:.@-/'')"

text \<open>\<open>^[A-Za-z0-9_:.@\-/]{1,128}$\<close>; the pattern's end also matches before a final newline.\<close>

definition vault_id_ok :: "string \<Rightarrow> bool" where
  "vault_id_ok s0 =
     (let s = (if s0 \<noteq> [] \<and> last s0 = CHR 0x0A then butlast s0 else s0)
      in 1 \<le> length s \<and> length s \<le> 128 \<and> list_all vault_char s)"

definition bad_vault_id :: string where
  "bad_vault_id = ''credential_id invalid: max 128 chars, allowed characters: [A-Za-z0-9_:.@'' @ [CHR 0x5C] @ ''-/]''"

text \<open>The form's values, and the id from the action or from them.\<close>

definition credential_id :: "json_obj \<Rightarrow> string + string" where
  "credential_id action =
     (let values = obj_or_empty (act_get action ''values'');
          v = (if truthy (act_get action ''credential_id'') then act_get action ''credential_id'' else act_get values ''credential_id'')
      in case v of
           JStr s \<Rightarrow>
             if s = [] then Inl ''credential_id must be a non-empty string''
             else if \<not> vault_id_ok s then Inl bad_vault_id
             else Inr s
         | _ \<Rightarrow> Inl ''credential_id must be a non-empty string'')"

definition credential_metadata :: "json_obj \<Rightarrow> json" where
  "credential_metadata action =
     (let values = obj_or_empty (act_get action ''values'')
      in if dget action ''metadata'' \<noteq> None then act_get action ''metadata''
         else if dget values ''metadata'' \<noteq> None then act_get values ''metadata''
         else (case act_get values ''description'' of
             JStr s \<Rightarrow> if str_strip s \<noteq> [] then JObj [(''description'', JStr (str_strip s))] else JNull
           | _ \<Rightarrow> JNull))"

definition credential_store :: "settings_env \<Rightarrow> settings_call \<Rightarrow> string \<Rightarrow> json_obj \<Rightarrow> (settings, act_result) prog" where
  "credential_store env c user action =
     guard_admin user
       (case credential_id action of
          Inl e \<Rightarrow> ret (ActError e)
        | Inr vid \<Rightarrow>
            (case (if dget action ''value'' \<noteq> None then act_get action ''value'' else act_get (obj_or_empty (act_get action ''values'')) ''value'') of
               JStr v \<Rightarrow>
                 if v = [] then ret (ActError ''value must be a non-empty string'')
                 else if 65536 < length v then ret (ActError ''value exceeds maximum size of 65536 bytes'')
                 else
                   let meta = credential_metadata action
                   in if meta \<noteq> JNull \<and> \<not> (case meta of JObj _ \<Rightarrow> True | _ \<Rightarrow> False) then ret (ActError ''metadata must be a dict if provided'')
                      else bind_s (store_vault_credential env c (user_actor user) vid v meta (Some (''vault:'' @ vid)) (Some ''stored'')) (\<lambda>r.
                        ret (if rs_ok r then ActStored (rs_persisted r) vid else ActError (error_or ''credential_store failed'' r)))
             | _ \<Rightarrow> ret (ActError ''value must be a non-empty string'')))"

definition credential_delete :: "settings_env \<Rightarrow> settings_call \<Rightarrow> string \<Rightarrow> json_obj \<Rightarrow> (settings, act_result) prog" where
  "credential_delete env c user action =
     guard_admin user
       (case credential_id action of
          Inl e \<Rightarrow> ret (ActError e)
        | Inr vid \<Rightarrow>
            bind_s (delete_vault_credential env c (user_actor user) vid (Some (''vault:'' @ vid)) (Some ''deleted'')) (\<lambda>r.
            ret (if rs_ok r then ActStored (rs_persisted r) vid else ActError (error_or ''credential_delete failed'' r))))"

text \<open>
  \<open>handle\<close>. The answers to the actions on flows and chats, which change no setting, are an argument.
\<close>

definition other_kinds :: "string list" where
  "other_kinds = [''intervention'', ''view_request'', ''chat_input'', ''dev_inject_assistant'']"

definition sdui_handle ::
  "(json_obj \<Rightarrow> act_result) \<Rightarrow> settings_env \<Rightarrow> settings_call \<Rightarrow> string \<Rightarrow> json_obj \<Rightarrow> (settings, act_result) prog"
where
  "sdui_handle others env c user action =
     (let kind = act_get action ''kind''
      in if kind \<in> JStr ` set other_kinds then ret (others action)
         else if kind = JStr ''settings_write'' then settings_write env c user action
         else if kind = JStr ''settings_append'' then settings_append env c user action
         else if kind = JStr ''credential_store'' then credential_store env c user action
         else if kind = JStr ''credential_delete'' then credential_delete env c user action
         else if kind = JStr ''settings_update_item'' then settings_update_item env c user action
         else ret (ActError (''unknown action kind: '' @ show_json env kind)))"

section \<open>Tools of the agent\<close>

type_synonym json_reader = "string \<Rightarrow> string + json"

definition parse_json :: "json_reader \<Rightarrow> string \<Rightarrow> string \<Rightarrow> string + json" where
  "parse_json rd raw field = (case rd raw of Inl m \<Rightarrow> Inl (''ERROR: invalid JSON for '' @ field @ '' - '' @ m) | Inr v \<Rightarrow> Inr v)"

definition answer :: "(settings, set_result) prog \<Rightarrow> (settings, string) prog" where
  "answer m = bind_s m (\<lambda>r. ret (summary r))"

definition with_json :: "json_reader \<Rightarrow> string \<Rightarrow> string \<Rightarrow> (json \<Rightarrow> (settings, set_result) prog) \<Rightarrow> (settings, string) prog" where
  "with_json rd raw field k = (case parse_json rd raw field of Inl e \<Rightarrow> ret e | Inr v \<Rightarrow> answer (k v))"

definition tool_set_setting :: "settings_env \<Rightarrow> settings_call \<Rightarrow> json_reader \<Rightarrow> string \<Rightarrow> string \<Rightarrow> string \<Rightarrow> (settings, string) prog" where
  "tool_set_setting env c rd actor key value1 = with_json rd value1 ''value'' (\<lambda>v. set_setting env c actor key v None None None)"

definition tool_append_setting :: "settings_env \<Rightarrow> settings_call \<Rightarrow> json_reader \<Rightarrow> string \<Rightarrow> string \<Rightarrow> string \<Rightarrow> (settings, string) prog" where
  "tool_append_setting env c rd actor key item = with_json rd item ''item'' (\<lambda>v. append_setting env c actor key v None)"

definition tool_update_setting_item ::
  "settings_env \<Rightarrow> settings_call \<Rightarrow> json_reader \<Rightarrow> string \<Rightarrow> string \<Rightarrow> string \<Rightarrow> string \<Rightarrow> string \<Rightarrow> (settings, string) prog"
where
  "tool_update_setting_item env c rd actor key field m patch =
     with_json rd patch ''patch'' (\<lambda>p. update_item env c actor key field (JStr m) p None)"

definition tool_delete_setting_item :: "settings_env \<Rightarrow> settings_call \<Rightarrow> string \<Rightarrow> string \<Rightarrow> string \<Rightarrow> string \<Rightarrow> (settings, string) prog" where
  "tool_delete_setting_item env c actor key field m = answer (delete_item env c actor key field (JStr m))"

definition tool_set_credential :: "settings_env \<Rightarrow> settings_call \<Rightarrow> string \<Rightarrow> string \<Rightarrow> string \<Rightarrow> string \<Rightarrow> (settings, string) prog" where
  "tool_set_credential env c actor key v description = answer (set_credential env c actor key v description None)"

definition tool_delete_credential :: "settings_env \<Rightarrow> settings_call \<Rightarrow> string \<Rightarrow> string \<Rightarrow> (settings, string) prog" where
  "tool_delete_credential env c actor key = answer (delete_credential env c actor key)"

section \<open>What only administrators change\<close>

text \<open>A state that agrees with \<open>st0\<close> on the settings for administrators, and on the credentials other than API keys.\<close>

definition spared :: "settings \<Rightarrow> settings \<Rightarrow> bool" where
  "spared st0 st \<longleftrightarrow>
     (\<forall>k \<in> set admin_only_keys. dget (sv_store st) k = dget (sv_store st0) k)
     \<and> (\<forall>vid. \<not> is_credential_key vid \<longrightarrow> dget (sv_vault st) vid = dget (sv_vault st0) vid)"

lemma audit_not_admin: "audit_key \<notin> set admin_only_keys"
  using audit_not_protected by (simp add: protected_def)

lemma set_credential_vault:
  "vid \<noteq> key \<Longrightarrow> dget (sv_vault (snd (set_credential_internal env c actor key v d g st))) vid = dget (sv_vault st) vid"
proof (cases "cl_vault c")
  case None
  let ?m = "if d = [] then JNull else JObj [(''description'', JStr d)]" and ?ch = "secret_change ''credential_store'' key"
  let ?st1 = "st\<lparr>sv_vault := dset key (v, ?m) (sv_vault st)\<rparr>"
  obtain r st2 where a: "announce env c ?ch ''credential_store'' key actor g (requires_restart key) ?st1 = (r, st2)"
    by (cases "announce env c ?ch ''credential_store'' key actor g (requires_restart key) ?st1")
  assume "vid \<noteq> key"
  then show ?thesis using announce_effect(2) [OF a] a None by (simp add: set_credential_internal_def vault_store_def bind_s_def modify_s_def)
qed (simp add: set_credential_internal_def vault_store_def run_defs)

lemma run_spared:
  assumes "spared st0 st" "is_secret w \<longrightarrow> (\<exists>key v d g. w = SetCredW key v d g \<and> is_credential_key key)"
    and "\<not> is_secret w \<longrightarrow> write_key w \<notin> set admin_only_keys"
  shows "spared st0 (snd (run_write env c actor w st))"
proof (cases "is_secret w")
  case True
  then obtain key v d g where w: "w = SetCredW key v d g" "is_credential_key key" using assms(2) by blast
  have "same_settings st (snd (run_write env c actor w st))"
    using secret_run [OF True, of st env c actor] by (simp add: secret_effect_def)
  moreover have "dget (sv_vault (snd (run_write env c actor w st))) vid = dget (sv_vault st) vid" if "\<not> is_credential_key vid" for vid
    using that w(2) by (auto simp: w(1) intro!: set_credential_vault)
  ultimately show ?thesis using assms(1) audit_not_admin unfolding spared_def same_settings_def by metis
next
  case False
  let ?st = "snd (run_write env c actor w st)"
  have e: "plain_effect (write_key w) st ?st" by (rule plain_run [OF False])
  have "dget (sv_store ?st) k = dget (sv_store st) k" if "k \<in> set admin_only_keys" for k
  proof -
    have "k \<noteq> audit_key" "k \<noteq> write_key w" using that audit_not_admin assms(3) False by auto
    with e show ?thesis unfolding plain_effect_def same_settings_def stored_def by auto
  qed
  with e assms(1) show ?thesis by (simp add: spared_def plain_effect_def)
qed

lemma keeps_request:
  assumes "is_secret w \<longrightarrow> (\<exists>key v d g. w = SetCredW key v d g \<and> is_credential_key key)"
    and "\<not> is_secret w \<longrightarrow> write_key w \<notin> set admin_only_keys"
  shows "keeps (spared st0) (request env c actor w)"
proof (rule keepsI)
  fix st assume st: "spared st0 st"
  then have "spared st0 (counted env c actor st)" by (simp add: spared_def)
  moreover from this have "spared st0 (snd (run_write env c actor w (counted env c actor st)))" by (rule run_spared [OF _ assms])
  moreover have "spared st0 (submit c p k actor w (counted env c actor st))" for p k using st by (simp add: spared_def submit_def)
  ultimately show "spared st0 (snd (request env c actor w st))"
    using request_cases [of env c actor w st] st unfolding Let_def by metis
qed

lemma keeps_set_setting: "key \<notin> set admin_only_keys \<Longrightarrow> keeps (spared st0) (set_setting env c actor key v g ak kd)"
  using keeps_request [of "SetW key v g ak kd"] by simp

lemma keeps_append_setting: "key \<notin> set admin_only_keys \<Longrightarrow> keeps (spared st0) (append_setting env c actor key v g)"
  using keeps_request [of "AppendW key v g"] by simp

lemma keeps_update_item: "key \<notin> set admin_only_keys \<Longrightarrow> keeps (spared st0) (update_item env c actor key f m p g)"
  using keeps_request [of "UpdateW key f m p g"] by simp

lemma keeps_set_credential: "is_credential_key key \<Longrightarrow> keeps (spared st0) (set_credential env c actor key v d g)"
  using keeps_request [of "SetCredW key v d g"] by simp

text \<open>There are administrators, and this user is none of them.\<close>

definition outsider :: "settings \<Rightarrow> string \<Rightarrow> bool" where
  "outsider st user \<longleftrightarrow> (\<exists>us. admin_users st = JList us \<and> us \<noteq> [] \<and> JStr user \<notin> set us)"

lemma spared_permissions: "spared st0 st \<Longrightarrow> get_setting ''safety_permissions'' st = get_setting ''safety_permissions'' st0"
proof -
  have "''safety_permissions'' \<in> set admin_only_keys" by (simp add: admin_only_keys_def)
  then show "spared st0 st \<Longrightarrow> ?thesis" by (simp add: spared_def get_setting_def dget_or_def)
qed

lemma spared_outsider: "spared st0 st \<Longrightarrow> outsider st0 user \<Longrightarrow> outsider st user"
  using spared_permissions [of st0 st] by (simp add: outsider_def admin_users_def)

lemma outsider_not_admin: "outsider st user \<Longrightarrow> is_admin user st = Inr False"
  by (auto simp: outsider_def is_admin_def contains_def split: json.splits)

lemma outsider_no_bootstrap: "outsider st user \<Longrightarrow> is_empty (admin_users st) = Inr False"
  by (auto simp: outsider_def is_empty_def)

lemma keeps_guard: "outsider st0 user \<Longrightarrow> keeps (spared st0) (guard_admin user k)"
  unfolding guard_admin_def
  by (rule keeps_get_bind) (simp add: bind_s_def lift_res_def ret_def outsider_not_admin [OF spared_outsider])

lemma keeps_case_sum: "(\<And>a. keeps I (f a)) \<Longrightarrow> (\<And>b. keeps I (g b)) \<Longrightarrow> keeps I (case x of Inl a \<Rightarrow> f a | Inr b \<Rightarrow> g b)"
  by (cases x) simp_all

lemma keeps_write_checked: "key \<notin> set admin_only_keys \<Longrightarrow> keeps (spared st0) (write_checked env c user key raw)"
  unfolding write_checked_def Let_def
  by (auto intro!: keeps_rules keeps_set_setting keeps_set_credential split: sum.splits option.splits)

lemma keeps_settings_write:
  assumes "outsider st0 user"
  shows "keeps (spared st0) (settings_write env c user action)"
  unfolding settings_write_def
  by (auto intro!: keeps_rules keeps_guard [OF assms] keeps_write_checked split: json.splits)

lemma keeps_append_item:
  assumes "key \<notin> set admin_only_keys"
  shows "keeps (spared st0) (append_item env c user key item)"
proof -
  have "key \<noteq> ''safety_permissions_admin_users''" "key \<noteq> ''safety_blacklist''" using assms by (auto simp: admin_only_keys_def)
  then show ?thesis
    by (simp add: append_item_def) (auto intro!: keeps_rules keeps_append_setting assms split: sum.splits)
qed

lemma keeps_settings_append:
  assumes "outsider st0 user"
  shows "keeps (spared st0) (settings_append env c user action)"
proof -
  have "keeps (spared st0) (bind_s get_s (\<lambda>st.
      bind_s (lift_res (if key = ''safety_permissions_admin_users'' then is_empty (admin_users st) else Inr False)) (\<lambda>bootstrap.
        if bootstrap then append_item env c user key v else guard_admin user (append_item env c user key v))))" for key v
  proof (rule keeps_get_bind)
    fix st assume st: "spared st0 st"
    then have "(if key = ''safety_permissions_admin_users'' then is_empty (admin_users st) else Inr False) = Inr False"
      using outsider_no_bootstrap [OF spared_outsider [OF st assms]] by simp
    then show "spared st0 (snd (bind_s (lift_res (if key = ''safety_permissions_admin_users'' then is_empty (admin_users st) else Inr False))
        (\<lambda>bootstrap. if bootstrap then append_item env c user key v else guard_admin user (append_item env c user key v)) st))"
      using keepsD [OF keeps_guard [OF assms] st] by (simp only: bind_s_def lift_res_def prod.case sum.case if_False)
  qed
  then show ?thesis unfolding settings_append_def
    by (auto intro!: keeps_ret keeps_raise_s keeps_append_item split: json.splits simp del: bind_s_def)
qed

lemma update_not_admin: "key \<in> set update_allowed_keys \<Longrightarrow> key \<notin> set admin_only_keys"
  by (auto simp: update_allowed_keys_def admin_only_keys_def)

lemma keeps_settings_update: "keeps (spared st0) (settings_update_item env c user action)"
  unfolding settings_update_item_def
  by (auto intro!: keeps_rules keeps_update_item update_not_admin split: json.splits sum.splits simp: Let_def)

lemma keeps_action:
  assumes "outsider st0 user"
  shows "keeps (spared st0) (sdui_handle others env c user action)"
  unfolding sdui_handle_def Let_def credential_store_def credential_delete_def
  by (intro keeps_rules keeps_settings_write keeps_settings_append keeps_settings_update keeps_guard assms)


definition act_step :: "(json_obj \<Rightarrow> act_result) \<Rightarrow> settings_env \<Rightarrow> settings_call \<times> string \<times> json_obj \<Rightarrow> settings \<Rightarrow> settings" where
  "act_step others env x st = (case x of (c, user, action) \<Rightarrow> snd (sdui_handle others env c user action st))"

lemma acts_spared:
  "spared st0 st \<Longrightarrow> list_all (\<lambda>(c, user, action). outsider st0 user) xs \<Longrightarrow> spared st0 (fold (act_step others env) xs st)"
proof (induction xs arbitrary: st)
  case (Cons x xs)
  obtain c user action where x: "x = (c, user, action)" by (cases x)
  have "spared st0 (act_step others env x st)"
    using keepsD [OF keeps_action Cons.prems(1), of user others env c action] Cons.prems(2) by (simp add: x act_step_def)
  with Cons show ?case by (simp add: x)
qed simp

text \<open>
  C26. Once there are administrators, the actions of other users, in any number and order, leave every setting for administrators as it is, and every
  credential of the vault that is no API key.
\<close>

theorem outsiders_change_no_admin_setting:
  assumes "list_all (\<lambda>(c, user, action). outsider st user) xs"
  shows "(\<forall>k \<in> set admin_only_keys. dget (sv_store (fold (act_step others env) xs st)) k = dget (sv_store st) k)
    \<and> (\<forall>vid. \<not> is_credential_key vid \<longrightarrow> dget (sv_vault (fold (act_step others env) xs st)) vid = dget (sv_vault st) vid)"
proof -
  have "spared st st" by (simp add: spared_def)
  from acts_spared [OF this assms, of others env] show ?thesis by (simp add: spared_def)
qed

definition admin_settings :: settings where
  "admin_settings = empty_settings\<lparr>sv_store := [(''safety_permissions'', JObj [(''admin_users'', JList [JStr ''ann''])])]\<rparr>"

definition bob_joins :: json_obj where
  "bob_joins = [(''kind'', JStr ''settings_append''), (''key'', JStr ''safety_permissions_admin_users''), (''values'', JObj [(''user'', JStr ''bob'')])]"

lemma outsiders_change_no_admin_setting_witness:
  "dget (sv_store (fold (act_step (\<lambda>_. ActDone) demo_env) [(demo_set ''a'', ''bob'', bob_joins)] admin_settings)) ''safety_permissions''
   = Some (JObj [(''admin_users'', JList [JStr ''ann''])])"
proof -
  have "outsider admin_settings ''bob''"
    by (simp add: outsider_def admin_users_def admin_settings_def get_setting_def dget_or_def)
  then have "list_all (\<lambda>(c, user, action). outsider admin_settings user) [(demo_set ''a'', ''bob'', bob_joins)]" by simp
  note t = outsiders_change_no_admin_setting [OF this, of "\<lambda>_. ActDone" demo_env]
  have "''safety_permissions'' \<in> set admin_only_keys" by (simp add: admin_only_keys_def)
  with t have "dget (sv_store (fold (act_step (\<lambda>_. ActDone) demo_env) [(demo_set ''a'', ''bob'', bob_joins)] admin_settings)) ''safety_permissions''
    = dget (sv_store admin_settings) ''safety_permissions''" by blast
  then show ?thesis by (simp add: admin_settings_def)
qed

text \<open>API keys are not among the settings for administrators: any user replaces one, as the vault takes it.\<close>

lemma anyone_replaces_api_key:
  assumes "is_allowed_key key" "is_credential_key key" "v \<noteq> []" "cl_vault c = None"
    and "dget action ''key'' = Some (JStr key)" "dget action ''values'' = Some (JStr v)"
  shows "dget (sv_vault (snd (settings_write env c user action st))) key = Some (v, JNull)"
proof -
  have no_admin: "key \<notin> set admin_only_keys"
    using assms(2) by (auto simp: admin_only_keys_def is_credential_key_def)
  have ok: "validate_value (cl_fresh c) key (JStr v) = Inr (JStr v)"
  proof -
    have "dget phase1 key = None"
      using assms(2) by (auto simp: dget_None_iff whitelist_keys phase1_keys_def is_credential_key_def)
    then show ?thesis using assms(2,3) by (simp add: validate_value_def validate_credential_def ensure_def)
  qed
  have user: "\<not> is_agent (user_actor user)" by (simp add: is_agent_def user_actor_def)
  let ?sum = "Some (summary_write key (JStr v))" and ?st = "st\<lparr>sv_vault := dset key (v, JNull) (sv_vault st)\<rparr>"
  let ?ann = "announce env c (secret_change ''credential_store'' key) ''credential_store'' key (user_actor user) ?sum (requires_restart key)"
  obtain r st' where a: "?ann ?st = (Inr r, st')" by (cases "?ann ?st"; cases "fst (?ann ?st)") (auto simp: announce_def split: prod.splits)
  have cred: "set_credential env c (user_actor user) key v [] ?sum st = (Inr r, st')"
    using assms(2,4) user a
    by (simp add: set_credential_def gate_def check_rate_def requires_approval_def set_credential_internal_def vault_store_def run_defs)
  have "snd (settings_write env c user action st) = st'"
    using assms(1,2,5,6) no_admin
    by (simp add: settings_write_def act_get_def dget_or_def write_checked_def ok bind_s_def cred ret_def)
  with announce_effect(2) [OF a] show ?thesis by simp
qed

text \<open>The tools are requests, so what holds of requests by agents holds of them.\<close>

lemma tools_are_requests:
  "rd raw = Inr v \<Longrightarrow> snd (tool_set_setting env c rd actor key raw st) = snd (request env c actor (SetW key v None None None) st)"
  "rd raw = Inr v \<Longrightarrow> snd (tool_append_setting env c rd actor key raw st) = snd (request env c actor (AppendW key v None) st)"
  "rd raw = Inr v \<Longrightarrow> snd (tool_update_setting_item env c rd actor key f m raw st) = snd (request env c actor (UpdateW key f (JStr m) v None) st)"
  "snd (tool_delete_setting_item env c actor key f m st) = snd (request env c actor (DeleteW key f (JStr m)) st)"
  "snd (tool_set_credential env c actor key secret d st) = snd (request env c actor (SetCredW key secret d None) st)"
  "snd (tool_delete_credential env c actor key st) = snd (request env c actor (DeleteCredW key) st)"
  by (simp_all add: tool_set_setting_def tool_append_setting_def tool_update_setting_item_def tool_delete_setting_item_def
      tool_set_credential_def tool_delete_credential_def with_json_def parse_json_def answer_def bind_s_def ret_def split: prod.splits sum.splits)

end
