(* ===== verification/Kb_Extract.thy ===== *)
theory Kb_Extract
  imports Prelude
begin

text \<open>
  Extraction of knowledge candidates from text: \<open>kb/extractor.py\<close>, the records of \<open>kb/types.py\<close> and the test for a resolved thread
  of \<open>kb/extraction_triggers.py\<close>. The language model, the classifier of sensitive text, JSON parsing and \<open>str\<close> of a value that
  is not text are arguments.
\<close>

section \<open>Records\<close>

record kb_source =
  src_type :: string
  src_uri :: string
  src_ref :: "string option"

record source_meta =
  sm_type :: string
  sm_uri :: string
  sm_ref :: "string option"
  sm_user :: "string option"
  sm_project :: string
  sm_from :: string

text \<open>A confidence is \<open>None\<close> when it is \<open>nan\<close> or plus infinity.\<close>

record extracted =
  ec_title :: string
  ec_body :: string
  ec_category :: string
  ec_confidence :: "real option"
  ec_sources :: "kb_source list"
  ec_user :: "string option"
  ec_project :: string
  ec_sensitive :: bool

section \<open>Chunks\<close>

function chunks_from :: "nat \<Rightarrow> nat \<Rightarrow> string \<Rightarrow> nat \<Rightarrow> string list" where
  "chunks_from n stride t i =
     (if i < length t \<and> 0 < stride
      then take n (drop i t) # (if length t \<le> i + n then [] else chunks_from n stride t (i + stride))
      else [])"
  by pat_completeness auto
termination by (relation "measure (\<lambda>(n, stride, t, i). length t - i)") auto

declare chunks_from.simps [simp del]

definition chunk :: "int \<Rightarrow> int \<Rightarrow> string \<Rightarrow> exn + string list" where
  "chunk n overlap t =
     (if t = [] then Inr []
      else if n \<le> 0 then Inl (ValueError ''size must be positive'')
      else if overlap < 0 \<or> n \<le> overlap then Inl (ValueError ''overlap must be in [0, size)'')
      else Inr (chunks_from (nat n) (nat (n - overlap)) t 0))"

definition chunk_size :: int where "chunk_size = 500"
definition chunk_overlap :: int where "chunk_overlap = 100"

section \<open>Candidates\<close>

definition valid_categories :: "string list" where
  "valid_categories = [''howto'', ''decision'', ''bug_fix'', ''onboarding'']"

definition confidence_floor :: real where "confidence_floor = 6 / 10"

record extract_env =
  ex_complete :: "string \<Rightarrow> exn + string"
  ex_loads :: "string \<Rightarrow> exn + json"
  ex_str :: "json \<Rightarrow> string"
  ex_sensitive :: "string \<Rightarrow> exn + bool"

text \<open>\<open>str(v)\<close>: text is itself; other values print as the environment says.\<close>

definition str_of :: "extract_env \<Rightarrow> json \<Rightarrow> string" where
  "str_of env v = (case v of JStr s \<Rightarrow> s | _ \<Rightarrow> ex_str env v)"

text \<open>\<open>float(v) < 0.6\<close>; \<open>nan\<close> and plus infinity are not below the floor, minus infinity is.\<close>

definition minus_infinity :: "json \<Rightarrow> bool" where
  "minus_infinity v =
     (case v of JStr s \<Rightarrow> str_lower (str_strip s) \<in> {''-inf'', ''-infinity''} | _ \<Rightarrow> False)"

definition below_floor :: "json \<Rightarrow> real option \<Rightarrow> bool" where
  "below_floor v x = (case x of Some r \<Rightarrow> r < confidence_floor | None \<Rightarrow> minus_infinity v)"

text \<open>The gate fails closed: an error of the classifier counts as sensitive.\<close>

definition judged_sensitive :: "extract_env \<Rightarrow> string \<Rightarrow> string \<Rightarrow> bool" where
  "judged_sensitive env title body =
     (case ex_sensitive env (title @ [CHR 0x0A] @ body) of Inl _ \<Rightarrow> True | Inr b \<Rightarrow> b)"

definition build_candidate :: "extract_env \<Rightarrow> source_meta \<Rightarrow> json \<Rightarrow> exn + extracted option" where
  "build_candidate env m item =
     (case item of
        JObj d \<Rightarrow>
          (let conf = dget_or d ''confidence'' (JFloat 0);
               category = str_of env (dget_or d ''proposed_category'' (JStr []));
               title = str_strip (str_of env (dget_or d ''proposed_title'' (JStr [])));
               body = str_strip (str_of env (dget_or d ''proposed_body'' (JStr []))) in
           case float_of conf of
             Inl _ \<Rightarrow> Inr None
           | Inr x \<Rightarrow>
               if below_floor conf x then Inr None
               else if category \<notin> set valid_categories then Inr None
               else if title = [] \<or> body = [] then Inr None
               else
                 let sensitive = judged_sensitive env title body in
                 Inr (Some \<lparr>ec_title = title, ec_body = body,
                   ec_category = (if sensitive then ''sensitive_blocked'' else category), ec_confidence = x,
                   ec_sources = [\<lparr>src_type = sm_type m, src_uri = sm_uri m, src_ref = sm_ref m\<rparr>],
                   ec_user = sm_user m, ec_project = sm_project m, ec_sensitive = sensitive\<rparr>))
      | _ \<Rightarrow> Inl (attribute_error ''get''))"

text \<open>
  What \<open>for item in data.get('candidates', [])\<close> runs over: the entries of a list, the keys of an object, the
  characters of a text.
\<close>

fun iterated :: "json \<Rightarrow> exn + json list" where
  "iterated (JList xs) = Inr xs"
| "iterated (JObj d) = Inr (map (\<lambda>(k, _). JStr k) d)"
| "iterated (JStr s) = Inr (map (\<lambda>c. JStr [c]) s)"
| "iterated _ = Inl not_iterable"

definition candidate_items :: "json \<Rightarrow> exn + json list" where
  "candidate_items data =
     (case data of JObj d \<Rightarrow> iterated (dget_or d ''candidates'' (JList [])) | _ \<Rightarrow> Inr [])"

definition nl :: string where "nl = [CHR 0x0A]"

definition extractor_prompt :: "string \<Rightarrow> string" where
  "extractor_prompt content =
     ''You are extracting reusable organizational knowledge candidates.'' @ nl @ nl @ ''Content:'' @ nl
     @ content @ nl @ nl @ ''Return STRICT JSON of the form:'' @ nl
     @ ''{\"candidates\": ['' @ nl
     @ ''  {\"proposed_title\": \"...\",'' @ nl
     @ ''    \"proposed_body\": \"...\",'' @ nl
     @ ''    \"proposed_category\": \"howto|decision|bug_fix|onboarding\",'' @ nl
     @ ''    \"confidence\": 0.0-1.0}'' @ nl
     @ '']}'' @ nl @ nl @ ''Rules:'' @ nl
     @ ''- Only include items that are genuinely reusable by other teammates.'' @ nl
     @ ''- If nothing qualifies, return {\"candidates\": []}.'' @ nl
     @ ''- Do not invent facts that are not in the content.'' @ nl"

fun build_all :: "extract_env \<Rightarrow> source_meta \<Rightarrow> json list \<Rightarrow> exn + extracted list" where
  "build_all env m [] = Inr []"
| "build_all env m (x # xs) =
     bind_res (build_candidate env m x) (\<lambda>c. bind_res (build_all env m xs) (\<lambda>cs.
       Inr (case c of None \<Rightarrow> cs | Some e \<Rightarrow> e # cs)))"

text \<open>A failed call, or an answer that is not JSON (a \<open>ValueError\<close>), skips the chunk; other exceptions leave \<open>extract\<close>.\<close>

definition extract_chunk :: "extract_env \<Rightarrow> source_meta \<Rightarrow> string \<Rightarrow> exn + extracted list" where
  "extract_chunk env m c =
     (case ex_complete env (extractor_prompt c) of
        Inl _ \<Rightarrow> Inr []
      | Inr raw \<Rightarrow>
          (case ex_loads env raw of
             Inl (ValueError _) \<Rightarrow> Inr []
           | Inl x \<Rightarrow> Inl x
           | Inr data \<Rightarrow> bind_res (candidate_items data) (build_all env m)))"

fun extract_chunks :: "extract_env \<Rightarrow> source_meta \<Rightarrow> string list \<Rightarrow> exn + extracted list" where
  "extract_chunks env m [] = Inr []"
| "extract_chunks env m (c # cs) =
     bind_res (extract_chunk env m c) (\<lambda>xs. bind_res (extract_chunks env m cs) (\<lambda>ys. Inr (xs @ ys)))"

definition extract_text :: "extract_env \<Rightarrow> source_meta \<Rightarrow> string \<Rightarrow> exn + extracted list" where
  "extract_text env m content =
     (if content = [] \<or> str_strip content = [] then Inr []
      else bind_res (chunk chunk_size chunk_overlap content) (extract_chunks env m))"

section \<open>Resolved threads\<close>

text \<open>A message of a thread: author, text, time stamp and the names of its reactions, each as far as the message has it.\<close>

record thread_message =
  tm_user :: "string option"
  tm_text :: "string option"
  tm_ts :: "real option"
  tm_reactions :: "string option list"

definition resolved_reactions :: "string list" where
  "resolved_reactions = [''white_check_mark'', ''thread_closed'', ''heavy_check_mark'']"

definition inactivity_seconds :: real where "inactivity_seconds = 48 * 3600"

definition last_ts :: "thread_message list \<Rightarrow> real" where
  "last_ts ms = fold max (map (\<lambda>m. case tm_ts m of None \<Rightarrow> 0 | Some x \<Rightarrow> x) (tl ms))
     (case tm_ts (hd ms) of None \<Rightarrow> 0 | Some x \<Rightarrow> x)"

definition is_thread_resolved :: "real \<Rightarrow> thread_message list \<Rightarrow> bool" where
  "is_thread_resolved now ms =
     (if ms = [] then False
      else if list_ex (\<lambda>m. list_ex (\<lambda>r. case r of None \<Rightarrow> False | Some n \<Rightarrow> n \<in> set resolved_reactions) (tm_reactions m)) ms
      then True
      else if last_ts ms = 0 then False
      else inactivity_seconds < now - last_ts ms)"

definition thread_line :: "thread_message \<Rightarrow> string" where
  "thread_line m =
     ''<@'' @ (case tm_user m of None \<Rightarrow> ''?'' | Some u \<Rightarrow> u) @ ''>: '' @ (case tm_text m of None \<Rightarrow> [] | Some t \<Rightarrow> t)"

definition thread_content :: "thread_message list \<Rightarrow> string" where
  "thread_content ms = str_join nl (map thread_line ms)"

section \<open>Chunks cover the text\<close>

text \<open>The chunks joined again: after the first, each without the characters it repeats.\<close>

definition unchunk :: "nat \<Rightarrow> string list \<Rightarrow> string" where
  "unchunk overlap cs = (case cs of [] \<Rightarrow> [] | c # ds \<Rightarrow> c @ concat (map (drop overlap) ds))"

lemma chunks_from_nonempty: "i < length t \<Longrightarrow> 0 < stride \<Longrightarrow>
    chunks_from n stride t i = take n (drop i t) # (if length t \<le> i + n then [] else chunks_from n stride t (i + stride))"
  by (subst chunks_from.simps) simp

lemma unchunk_chunks_from:
  assumes "0 < stride" "stride + overlap = n" "i < length t"
  shows "unchunk overlap (chunks_from n stride t i) = drop i t"
  using assms
proof (induction n stride t i rule: chunks_from.induct)
  case (1 n stride t i)
  show ?case
  proof (cases "length t \<le> i + n")
    case True
    with 1 show ?thesis by (simp add: chunks_from_nonempty unchunk_def)
  next
    case False
    with 1 have rest: "unchunk overlap (chunks_from n stride t (i + stride)) = drop (i + stride) t" by simp
    obtain d ds where ds: "chunks_from n stride t (i + stride) = d # ds"
      and d: "d = take n (drop (i + stride) t)"
      using False 1 by (simp add: chunks_from_nonempty)
    have long: "overlap \<le> length d" using False 1 by (simp add: d)
    have "drop overlap (d @ concat (map (drop overlap) ds)) = drop overlap (drop (i + stride) t)"
      using rest by (simp add: ds unchunk_def)
    then have "drop overlap d @ concat (map (drop overlap) ds) = drop (i + n) t"
      using long 1 by (simp add: ac_simps)
    moreover have "take n (drop i t) @ drop (i + n) t = drop i t"
      by (metis append_take_drop_id drop_drop add.commute)
    ultimately show ?thesis using False 1 by (simp add: chunks_from_nonempty unchunk_def ds)
  qed
qed

lemma chunks_from_length: "c \<in> set (chunks_from n stride t i) \<Longrightarrow> length c \<le> n"
proof (induction n stride t i rule: chunks_from.induct)
  case (1 n stride t i)
  then show ?case by (subst (asm) chunks_from.simps) (auto split: if_splits)
qed

lemma chunks_from_substring: "c \<in> set (chunks_from n stride t i) \<Longrightarrow> sublist c t"
proof (induction n stride t i rule: chunks_from.induct)
  case (1 n stride t i)
  then show ?case
    by (subst (asm) chunks_from.simps) (auto split: if_splits intro: sublist_order.order_trans sublist_take sublist_drop)
qed

text \<open>
  No text is lost between chunks and none is too long: for a size above the overlap, the chunks of a text, joined without
  their repeated characters, give the text back; each is a part of the text of at most \<open>size\<close> characters.
\<close>

theorem chunks_cover_text:
  assumes "0 \<le> overlap" "overlap < n"
  shows "\<exists>cs. chunk n overlap t = Inr cs \<and> unchunk (nat overlap) cs = t
    \<and> (\<forall>c \<in> set cs. length c \<le> nat n \<and> sublist c t)"
proof (cases "t = []")
  case True
  then show ?thesis by (simp add: chunk_def unchunk_def)
next
  case False
  let ?cs = "chunks_from (nat n) (nat (n - overlap)) t 0"
  have "chunk n overlap t = Inr ?cs" using False assms by (simp add: chunk_def)
  moreover have "unchunk (nat overlap) ?cs = t"
    using unchunk_chunks_from [of "nat (n - overlap)" "nat overlap" "nat n" 0 t] False assms by simp
  ultimately show ?thesis using chunks_from_length chunks_from_substring by blast
qed

theorem chunks_cover_text_witness:
  "\<exists>cs. chunk 5 2 ''abcdefghij'' = Inr cs \<and> unchunk (nat 2) cs = ''abcdefghij''"
  using chunks_cover_text [of 2 5 "''abcdefghij''"] by auto

section \<open>What candidates look like\<close>

definition good_candidate :: "source_meta \<Rightarrow> extracted \<Rightarrow> bool" where
  "good_candidate m c \<longleftrightarrow>
     ec_title c \<noteq> [] \<and> ec_body c \<noteq> []
     \<and> (ec_sensitive c \<longrightarrow> ec_category c = ''sensitive_blocked'')
     \<and> (\<not> ec_sensitive c \<longrightarrow> ec_category c \<in> set valid_categories)
     \<and> (\<forall>x. ec_confidence c = Some x \<longrightarrow> confidence_floor \<le> x)
     \<and> ec_sources c = [\<lparr>src_type = sm_type m, src_uri = sm_uri m, src_ref = sm_ref m\<rparr>]
     \<and> ec_user c = sm_user m \<and> ec_project c = sm_project m"

lemma build_candidate_good:
  assumes "build_candidate env m item = Inr (Some c)"
  shows "good_candidate m c"
    and "ec_sensitive c = judged_sensitive env (ec_title c) (ec_body c)"
  using assms
  by (auto simp: build_candidate_def good_candidate_def below_floor_def Let_def split: json.splits sum.splits if_splits option.splits)

lemma build_all_good:
  "build_all env m items = Inr cs \<Longrightarrow> c \<in> set cs \<Longrightarrow>
     good_candidate m c \<and> ec_sensitive c = judged_sensitive env (ec_title c) (ec_body c)"
  by (induction items arbitrary: cs) (auto simp: bind_res_eq_Inr split: option.splits dest: build_candidate_good)

lemma extract_chunk_good:
  "extract_chunk env m t = Inr cs \<Longrightarrow> c \<in> set cs \<Longrightarrow>
     good_candidate m c \<and> ec_sensitive c = judged_sensitive env (ec_title c) (ec_body c)"
  by (auto simp: extract_chunk_def bind_res_eq_Inr split: sum.splits exn.splits dest!: build_all_good)

lemma extract_chunks_good:
  "extract_chunks env m ts = Inr cs \<Longrightarrow> c \<in> set cs \<Longrightarrow>
     good_candidate m c \<and> ec_sensitive c = judged_sensitive env (ec_title c) (ec_body c)"
  by (induction ts arbitrary: cs) (auto simp: bind_res_eq_Inr dest: extract_chunk_good)

lemma extract_text_good:
  "extract_text env m t = Inr cs \<Longrightarrow> c \<in> set cs \<Longrightarrow>
     good_candidate m c \<and> ec_sensitive c = judged_sensitive env (ec_title c) (ec_body c)"
  by (auto simp: extract_text_def bind_res_eq_Inr split: if_splits dest: extract_chunks_good)

end
