(* ===== verification/Kb_Review.thy ===== *)
theory Kb_Review
  imports Kb_Extract
begin

text \<open>
  The review of extracted knowledge: \<open>kb/review_queue.py\<close>, \<open>kb/feedback.py\<close>, \<open>kb/review_dispatcher.py\<close>,
  \<open>kb/slack_review_handlers.py\<close>, \<open>web/routes/review.py\<close> and the triggers of \<open>kb/extraction_triggers.py\<close>. The state holds the
  tables the code writes, with the checks of their schema (\<open>storage/migrations\<close>: foreign keys, NOT NULL, sequences that do not go
  back with a transaction). The embedding, the distance of vectors, Slack and the clock are arguments; a stored vector is the one given,
  without the rounding of \<open>_vec\<close>.
\<close>

section \<open>Tables\<close>

type_synonym kb_vec = "real list"

record knowledge =
  kw_id :: int
  kw_project :: "string option"
  kw_title :: string
  kw_body :: string
  kw_category :: string
  kw_channel :: "string option"
  kw_from :: "string option"
  kw_by :: "string option"
  kw_at :: "real option"
  kw_embedding :: "kb_vec option"
  kw_superseded :: "int option"
  kw_rank :: real
  kw_flags :: int

record kb_candidate =
  cd_id :: int
  cd_project :: "string option"
  cd_from :: string
  cd_user :: "string option"
  cd_title :: "string option"
  cd_body :: "string option"
  cd_category :: "string option"
  cd_sources :: "json_obj list"
  cd_confidence :: "real option"
  cd_status :: string
  cd_reviewer :: "string option"
  cd_reviewed :: "real option"
  cd_created :: real
  cd_sensitive :: bool

record kb_audit =
  ka_actor :: string
  ka_action :: string
  ka_subject_type :: string
  ka_subject :: string
  ka_project :: "string option"
  ka_meta :: json_obj

record kb_feedback =
  kf_knowledge :: int
  kf_user :: string
  kf_kind :: string
  kf_query :: string
  kf_answer :: "string option"

record kb_pause =
  kp_paused :: bool
  kp_reason :: string
  kp_at :: real

text \<open>The last field is the list of direct messages that Slack accepted: the user and the text.\<close>

record kb_state =
  kq_projects :: "string list"
  kq_members :: "(string \<times> string \<times> string) list"
  kq_candidates :: "kb_candidate list"
  kq_next_candidate :: int
  kq_items :: "knowledge list"
  kq_next_item :: int
  kq_sources :: "(int \<times> kb_source) list"
  kq_audit :: "kb_audit list"
  kq_feedback :: "kb_feedback list"
  kq_pauses :: "(string, kb_pause) dict"
  kq_dms :: "(string \<times> string) list"

record review_env =
  rv_embed :: "string \<Rightarrow> exn + kb_vec"
  rv_dist :: "kb_vec \<Rightarrow> kb_vec \<Rightarrow> real"
  rv_dm :: "string \<Rightarrow> exn + unit"

type_synonym 'a review = "(kb_state, 'a) prog"

definition integrity_error :: "string \<Rightarrow> exn" where
  "integrity_error m = OtherError ''IntegrityError'' m"

text \<open>\<open>async with conn.transaction()\<close>: an exception undoes the writes, but not the numbers a sequence gave out.\<close>

definition transaction :: "'a review \<Rightarrow> 'a review" where
  "transaction m s =
     (case m s of
        (Inl e, t) \<Rightarrow> (Inl e, s\<lparr>kq_next_candidate := kq_next_candidate t, kq_next_item := kq_next_item t\<rparr>)
      | (Inr x, t) \<Rightarrow> (Inr x, t))"

definition audit :: "kb_audit \<Rightarrow> unit review" where
  "audit a = modify_s (\<lambda>s. s\<lparr>kq_audit := kq_audit s @ [a]\<rparr>)"

definition project_known :: "kb_state \<Rightarrow> string option \<Rightarrow> bool" where
  "project_known s p = (case p of None \<Rightarrow> True | Some q \<Rightarrow> q \<in> set (kq_projects s))"

definition find_candidate :: "kb_state \<Rightarrow> int \<Rightarrow> kb_candidate option" where
  "find_candidate s c = find (\<lambda>x. cd_id x = c) (kq_candidates s)"

definition find_item :: "kb_state \<Rightarrow> int \<Rightarrow> knowledge option" where
  "find_item s k = find (\<lambda>x. kw_id x = k) (kq_items s)"

text \<open>\<open>UPDATE ... WHERE id = ...\<close>.\<close>

definition update_candidate :: "int \<Rightarrow> (kb_candidate \<Rightarrow> kb_candidate) \<Rightarrow> unit review" where
  "update_candidate c f =
     modify_s (\<lambda>s. s\<lparr>kq_candidates := map (\<lambda>x. if cd_id x = c then f x else x) (kq_candidates s)\<rparr>)"

definition update_row :: "int \<Rightarrow> (knowledge \<Rightarrow> knowledge) \<Rightarrow> unit review" where
  "update_row k f = modify_s (\<lambda>s. s\<lparr>kq_items := map (\<lambda>x. if kw_id x = k then f x else x) (kq_items s)\<rparr>)"

text \<open>An insertion takes the next number of the sequence, then the row is checked.\<close>

definition insert_candidate :: "(int \<Rightarrow> kb_candidate) \<Rightarrow> int review" where
  "insert_candidate f s =
     (let c = kq_next_candidate s; t = s\<lparr>kq_next_candidate := c + 1\<rparr> in
      if project_known s (cd_project (f c)) then (Inr c, t\<lparr>kq_candidates := kq_candidates s @ [f c]\<rparr>)
      else (Inl (integrity_error ''promotion_candidates.project_id''), t))"

definition insert_item :: "(int \<Rightarrow> knowledge) \<Rightarrow> int review" where
  "insert_item f s =
     (let k = kq_next_item s; t = s\<lparr>kq_next_item := k + 1\<rparr> in
      if project_known s (kw_project (f k)) then (Inr k, t\<lparr>kq_items := kq_items s @ [f k]\<rparr>)
      else (Inl (integrity_error ''org_knowledge.project_id''), t))"

section \<open>The queue\<close>

definition source_json :: "kb_source \<Rightarrow> json_obj" where
  "source_json x = [(''source_type'', JStr (src_type x)), (''source_uri'', JStr (src_uri x)),
     (''source_ref'', (case src_ref x of None \<Rightarrow> JNull | Some r \<Rightarrow> JStr r))]"

definition enqueue :: "real \<Rightarrow> extracted \<Rightarrow> int review" where
  "enqueue now e =
     bind_s (insert_candidate (\<lambda>c. \<lparr>cd_id = c, cd_project = Some (ec_project e), cd_from = ''knowledge_extractor'',
       cd_user = ec_user e, cd_title = Some (ec_title e), cd_body = Some (ec_body e), cd_category = Some (ec_category e),
       cd_sources = map source_json (ec_sources e), cd_confidence = ec_confidence e,
       cd_status = (if ec_sensitive e then ''needs_edit'' else ''pending''), cd_reviewer = None, cd_reviewed = None,
       cd_created = now, cd_sensitive = ec_sensitive e\<rparr>)) (\<lambda>c.
     then_s (audit \<lparr>ka_actor = ''system'', ka_action = ''enqueue_candidate'', ka_subject_type = ''promotion_candidate'',
       ka_subject = int_str c, ka_project = Some (ec_project e),
       ka_meta = [(''category'', JStr (ec_category e)),
         (''confidence'', (case ec_confidence e of None \<Rightarrow> JNull | Some x \<Rightarrow> JFloat x)),
         (''sensitive_flag'', JBool (ec_sensitive e))]\<rparr>)
     (ret c))"

definition list_pending :: "kb_state \<Rightarrow> string \<Rightarrow> int \<Rightarrow> exn + kb_candidate list" where
  "list_pending s p limit =
     (if limit < 0 then Inl (OtherError ''PostgresError'' ''LIMIT must not be negative'')
      else Inr (take (nat limit) (sort_key cd_created
        (filter (\<lambda>c. cd_project c = Some p \<and> cd_status c \<in> {''pending'', ''needs_edit''}) (kq_candidates s)))))"

definition similarity_threshold :: real where "similarity_threshold = 88 / 100"

text \<open>A parameter of type text is a string or null.\<close>

definition text_param :: "json option \<Rightarrow> exn + string option" where
  "text_param v =
     (case v of None \<Rightarrow> Inr None | Some JNull \<Rightarrow> Inr None | Some (JStr t) \<Rightarrow> Inr (Some t)
      | Some _ \<Rightarrow> Inl (OtherError ''DataError'' ''expected str''))"

definition copy_source :: "int \<Rightarrow> json_obj \<Rightarrow> unit review" where
  "copy_source k d =
     bind_s (lift_res (text_param (dget d ''source_type''))) (\<lambda>t.
     bind_s (lift_res (text_param (dget d ''source_uri''))) (\<lambda>u.
     bind_s (lift_res (text_param (dget d ''source_ref''))) (\<lambda>r.
       case (t, u) of
         (Some t, Some u) \<Rightarrow> modify_s (\<lambda>s. s\<lparr>kq_sources := kq_sources s @ [(k, \<lparr>src_type = t, src_uri = u, src_ref = r\<rparr>)]\<rparr>)
       | _ \<Rightarrow> raise_s (integrity_error ''kb_sources''))))"

text \<open>The nearest current row of the same project above the threshold; \<open>project_id = NULL\<close> holds for no row.\<close>

definition near_duplicates :: "review_env \<Rightarrow> kb_state \<Rightarrow> string option \<Rightarrow> int \<Rightarrow> kb_vec \<Rightarrow> knowledge list" where
  "near_duplicates env s p k v =
     (case p of
        None \<Rightarrow> []
      | Some q \<Rightarrow> filter (\<lambda>x. kw_project x = Some q \<and> kw_id x \<noteq> k \<and> kw_superseded x = None
          \<and> (case kw_embedding x of None \<Rightarrow> False | Some e \<Rightarrow> similarity_threshold < 1 - rv_dist env e v)) (kq_items s))"

definition row_distance :: "review_env \<Rightarrow> kb_vec \<Rightarrow> knowledge \<Rightarrow> real" where
  "row_distance env v x = (case kw_embedding x of None \<Rightarrow> 0 | Some e \<Rightarrow> rv_dist env e v)"

definition nearest_duplicate :: "review_env \<Rightarrow> kb_state \<Rightarrow> string option \<Rightarrow> int \<Rightarrow> kb_vec \<Rightarrow> int option" where
  "nearest_duplicate env s p k v =
     (case sort_key (row_distance env v) (near_duplicates env s p k v) of [] \<Rightarrow> None | x # _ \<Rightarrow> Some (kw_id x))"

definition not_null :: "string \<Rightarrow> 'a option \<Rightarrow> exn + 'a" where
  "not_null column v = (case v of None \<Rightarrow> Inl (integrity_error column) | Some x \<Rightarrow> Inr x)"

text \<open>How an f-string prints a column that may be null.\<close>

definition opt_str :: "string option \<Rightarrow> string" where
  "opt_str v = (case v of None \<Rightarrow> ''None'' | Some t \<Rightarrow> t)"

definition insert_promoted :: "real \<Rightarrow> string \<Rightarrow> kb_candidate \<Rightarrow> kb_vec \<Rightarrow> int review" where
  "insert_promoted now reviewer c v s =
     (case bind_res (not_null ''org_knowledge.title'' (cd_title c)) (\<lambda>t. bind_res (not_null ''org_knowledge.body'' (cd_body c)) (\<lambda>b.
        bind_res (not_null ''org_knowledge.category'' (cd_category c)) (\<lambda>g. Inr (t, b, g)))) of
        Inl e \<Rightarrow> (Inl e, s\<lparr>kq_next_item := kq_next_item s + 1\<rparr>)
      | Inr (t, b, g) \<Rightarrow> insert_item (\<lambda>k. \<lparr>kw_id = k, kw_project = cd_project c, kw_title = t, kw_body = b, kw_category = g,
          kw_channel = None, kw_from = Some (cd_from c), kw_by = Some reviewer, kw_at = Some now,
          kw_embedding = Some v, kw_superseded = None, kw_rank = 0, kw_flags = 0\<rparr>) s)"

definition supersede :: "int \<Rightarrow> int option \<Rightarrow> unit review" where
  "supersede k d = (case d of None \<Rightarrow> ret () | Some x \<Rightarrow> if x = 0 then ret () else update_row x (\<lambda>r. r\<lparr>kw_superseded := Some k\<rparr>))"

definition promote_audit :: "string \<Rightarrow> kb_candidate \<Rightarrow> int \<Rightarrow> int option \<Rightarrow> kb_audit" where
  "promote_audit reviewer c k d =
     \<lparr>ka_actor = reviewer, ka_action = ''promote'', ka_subject_type = ''org_knowledge'', ka_subject = int_str k,
      ka_project = cd_project c, ka_meta = [(''candidate_id'', JInt (cd_id c)),
        (''category'', (case cd_category c of None \<Rightarrow> JNull | Some g \<Rightarrow> JStr g)),
        (''superseded'', (case d of None \<Rightarrow> JNull | Some x \<Rightarrow> JInt x))]\<rparr>"

definition promote :: "review_env \<Rightarrow> real \<Rightarrow> string \<Rightarrow> kb_candidate \<Rightarrow> int review" where
  "promote env now reviewer c =
     bind_s (lift_res (rv_embed env (opt_str (cd_title c) @ nl @ opt_str (cd_body c)))) (\<lambda>v.
     bind_s (insert_promoted now reviewer c v) (\<lambda>k.
     then_s (for_s (cd_sources c) (copy_source k)) (
     bind_s get_s (\<lambda>s. let d = nearest_duplicate env s (cd_project c) k v in
     then_s (supersede k d) (
     then_s (update_candidate (cd_id c) (\<lambda>x. x\<lparr>cd_status := ''approved'', cd_reviewer := Some reviewer, cd_reviewed := Some now\<rparr>)) (
     then_s (audit (promote_audit reviewer c k d)) (ret k)))))))"

definition candidate_for_approval :: "int \<Rightarrow> kb_candidate review" where
  "candidate_for_approval cid =
     bind_s get_s (\<lambda>s.
       case find_candidate s cid of
         None \<Rightarrow> raise_s (ValueError (''candidate '' @ int_str cid @ '' not found''))
       | Some c \<Rightarrow>
           if cd_status c \<notin> {''pending'', ''needs_edit''}
           then raise_s (ValueError (''candidate '' @ int_str cid @ '' status='' @ cd_status c))
           else ret c)"

text \<open>A direct message, best effort: what Slack refuses is only logged.\<close>

definition send_dm :: "review_env \<Rightarrow> string \<Rightarrow> string \<Rightarrow> unit review" where
  "send_dm env user msg =
     (case rv_dm env user of Inl _ \<Rightarrow> ret () | Inr _ \<Rightarrow> modify_s (\<lambda>s. s\<lparr>kq_dms := kq_dms s @ [(user, msg)]\<rparr>))"

definition thank_author :: "review_env \<Rightarrow> string \<Rightarrow> kb_candidate \<Rightarrow> unit review" where
  "thank_author env reviewer c =
     (case cd_user c of
        None \<Rightarrow> ret ()
      | Some u \<Rightarrow> if u = [] then ret ()
          else send_dm env u ('':tada: Your contribution was promoted to the team KB: *'' @ opt_str (cd_title c)
            @ ''* (by <@'' @ reviewer @ ''>).''))"

definition approve :: "review_env \<Rightarrow> real \<Rightarrow> int \<Rightarrow> string \<Rightarrow> int review" where
  "approve env now cid reviewer =
     bind_s (transaction (bind_s (candidate_for_approval cid) (\<lambda>c.
       bind_s (promote env now reviewer c) (\<lambda>k. ret (c, k))))) (\<lambda>(c, k).
     then_s (thank_author env reviewer c) (ret k))"

definition existing_candidate :: "int \<Rightarrow> kb_candidate review" where
  "existing_candidate cid =
     bind_s get_s (\<lambda>s.
       case find_candidate s cid of
         None \<Rightarrow> raise_s (ValueError (''candidate '' @ int_str cid @ '' not found''))
       | Some c \<Rightarrow> ret c)"

definition reject_candidate :: "real \<Rightarrow> int \<Rightarrow> string \<Rightarrow> string \<Rightarrow> unit review" where
  "reject_candidate now cid reviewer reason =
     bind_s (existing_candidate cid) (\<lambda>c.
     then_s (update_candidate cid (\<lambda>x. x\<lparr>cd_status := ''rejected'', cd_reviewer := Some reviewer, cd_reviewed := Some now\<rparr>))
       (audit \<lparr>ka_actor = reviewer, ka_action = ''reject'', ka_subject_type = ''promotion_candidate'', ka_subject = int_str cid,
          ka_project = cd_project c, ka_meta = [(''reason'', JStr reason)]\<rparr>))"

definition needs_edit :: "real \<Rightarrow> int \<Rightarrow> string \<Rightarrow> string \<Rightarrow> unit review" where
  "needs_edit now cid reviewer body =
     bind_s (existing_candidate cid) (\<lambda>c.
     then_s (update_candidate cid (\<lambda>x. x\<lparr>cd_status := ''needs_edit'', cd_reviewer := Some reviewer, cd_reviewed := Some now,
         cd_body := Some body\<rparr>))
       (audit \<lparr>ka_actor = reviewer, ka_action = ''needs_edit'', ka_subject_type = ''promotion_candidate'', ka_subject = int_str cid,
          ka_project = cd_project c, ka_meta = [(''body_chars'', JInt (int (length body)))]\<rparr>))"

definition backlog :: "kb_state \<Rightarrow> nat" where
  "backlog s = length (filter (\<lambda>c. cd_status c = ''pending'') (kq_candidates s))"

end
