(* ===== verification/Kb_Feedback.thy ===== *)
theory Kb_Feedback
  imports Kb_Review
begin

text \<open>
  What acts on the review queue: feedback buttons (\<open>kb/feedback.py\<close>), the digest and the pause of extraction
  (\<open>kb/review_dispatcher.py\<close>), Slack's handlers (\<open>kb/slack_review_handlers.py\<close>), the routes of \<open>web/routes/review.py\<close> and the triggers
  of \<open>kb/extraction_triggers.py\<close>; and the theorems on all of them together.
\<close>

section \<open>Feedback\<close>

definition re_review_threshold :: int where "re_review_threshold = 3"

text \<open>\<open>s.split(':', 2)\<close>, and the three parts that \<open>_parse_action\<close> needs.\<close>

definition upto_colon :: "string \<Rightarrow> string" where
  "upto_colon s = takeWhile (\<lambda>c. c \<noteq> CHR '':'') s"

definition after_colon :: "string \<Rightarrow> string option" where
  "after_colon s = (case dropWhile (\<lambda>c. c \<noteq> CHR '':'') s of [] \<Rightarrow> None | _ # r \<Rightarrow> Some r)"

definition parse_action :: "string \<Rightarrow> exn + (string \<times> int \<times> string)" where
  "parse_action a =
     (case after_colon a of
        None \<Rightarrow> Inl (ValueError ''not enough values to unpack'')
      | Some r \<Rightarrow>
          (case after_colon r of
             None \<Rightarrow> Inl (ValueError ''not enough values to unpack'')
           | Some q \<Rightarrow>
               let head = upto_colon a;
                   kind = (if startswith head ''kb_fb_'' then drop (length ''kb_fb_'') head else head) in
               bind_res (int_of_str (upto_colon r)) (\<lambda>k. Inr (kind, k, q))))"

text \<open>The feedback table refers to the knowledge it is about.\<close>

definition insert_feedback :: "kb_feedback \<Rightarrow> unit review" where
  "insert_feedback f =
     bind_s get_s (\<lambda>s.
       if kf_knowledge f \<in> kw_id ` set (kq_items s) then modify_s (\<lambda>t. t\<lparr>kq_feedback := kq_feedback t @ [f]\<rparr>)
       else raise_s (integrity_error ''kb_feedback.knowledge_id''))"

definition audit_feedback :: "string \<Rightarrow> string \<Rightarrow> int \<Rightarrow> string \<Rightarrow> unit review" where
  "audit_feedback actor action k q =
     audit \<lparr>ka_actor = actor, ka_action = action, ka_subject_type = ''org_knowledge'', ka_subject = int_str k,
       ka_project = None, ka_meta = [(''query_id'', JStr q)]\<rparr>"

definition feedback_row :: "int \<Rightarrow> string \<Rightarrow> string \<Rightarrow> string \<Rightarrow> string option \<Rightarrow> kb_feedback" where
  "feedback_row k user kind q answer =
     \<lparr>kf_knowledge = k, kf_user = user, kf_kind = kind, kf_query = q, kf_answer = answer\<rparr>"

definition upvote :: "int \<Rightarrow> string \<Rightarrow> string \<Rightarrow> unit review" where
  "upvote k user q =
     transaction (
       then_s (update_row k (\<lambda>x. x\<lparr>kw_rank := kw_rank x + 1\<rparr>)) (
       then_s (insert_feedback (feedback_row k user ''up'' q None))
         (audit_feedback user ''feedback_up'' k q)))"

definition re_review_candidate :: "real \<Rightarrow> knowledge \<Rightarrow> int \<Rightarrow> kb_candidate" where
  "re_review_candidate now x c =
     \<lparr>cd_id = c, cd_project = kw_project x, cd_from = ''rereview'', cd_user = None,
      cd_title = Some (''re-review: '' @ kw_title x), cd_body = Some (kw_body x), cd_category = Some (kw_category x),
      cd_sources = [], cd_confidence = Some (5 / 10), cd_status = ''pending'', cd_reviewer = None, cd_reviewed = None,
      cd_created = now, cd_sensitive = False\<rparr>"

definition ask_re_review :: "real \<Rightarrow> int \<Rightarrow> unit review" where
  "ask_re_review now k =
     bind_s get_s (\<lambda>s.
       case find_item s k of
         None \<Rightarrow> ret ()
       | Some x \<Rightarrow>
           if kw_flags x > re_review_threshold
           then then_s (insert_candidate (re_review_candidate now x)) (ret ())
           else ret ())"

definition downvote :: "real \<Rightarrow> int \<Rightarrow> string \<Rightarrow> string \<Rightarrow> unit review" where
  "downvote now k user q =
     transaction (
       then_s (update_row k (\<lambda>x. x\<lparr>kw_flags := kw_flags x + 1\<rparr>)) (
       then_s (insert_feedback (feedback_row k user ''down'' q None)) (
       then_s (audit_feedback user ''feedback_down'' k q) (ask_re_review now k))))"

definition bookmark_candidate :: "real \<Rightarrow> string option \<Rightarrow> string \<Rightarrow> string \<Rightarrow> int \<Rightarrow> kb_candidate" where
  "bookmark_candidate now p user msg c =
     \<lparr>cd_id = c, cd_project = p, cd_from = ''bookmark_fast_track'', cd_user = Some user,
      cd_title = Some (if take 120 msg = [] then ''bookmarked answer'' else take 120 msg),
      cd_body = Some (if msg = [] then ''(no body)'' else msg), cd_category = Some ''howto'', cd_sources = [],
      cd_confidence = Some (95 / 100), cd_status = ''pending'', cd_reviewer = None, cd_reviewed = None,
      cd_created = now, cd_sensitive = False\<rparr>"

definition bookmark :: "real \<Rightarrow> int \<Rightarrow> string \<Rightarrow> string \<Rightarrow> string \<Rightarrow> unit review" where
  "bookmark now k user q msg =
     transaction (bind_s get_s (\<lambda>s.
       let p = (case find_item s k of None \<Rightarrow> None | Some x \<Rightarrow> kw_project x) in
       then_s (insert_candidate (bookmark_candidate now p user msg)) (
       then_s (insert_feedback (feedback_row k user ''bookmark'' q (Some msg)))
         (audit_feedback user ''feedback_bookmark'' k q))))"

definition press_button :: "real \<Rightarrow> string \<Rightarrow> string \<Rightarrow> string \<Rightarrow> unit review" where
  "press_button now action user msg =
     bind_s (lift_res (parse_action action)) (\<lambda>(kind, k, q).
       if kind = ''up'' then upvote k user q
       else if kind = ''down'' then downvote now k user q
       else if kind = ''bookmark'' then bookmark now k user q msg
       else ret ())"

section \<open>Digest and pause\<close>

definition dm_threshold :: nat where "dm_threshold = 5"
definition backpressure_limit :: nat where "backpressure_limit = 500"

definition open_candidate :: "kb_candidate \<Rightarrow> bool" where
  "open_candidate c \<longleftrightarrow> cd_status c \<in> {''pending'', ''needs_edit''}"

text \<open>\<open>GROUP BY project_id\<close>, a group for null included; the groups come in the order of their first rows.\<close>

definition open_groups :: "kb_state \<Rightarrow> (string option \<times> nat) list" where
  "open_groups s =
     (let ps = map cd_project (filter open_candidate (kq_candidates s)) in
      map (\<lambda>p. (p, count_list ps p)) (remdups ps))"

definition project_leads :: "kb_state \<Rightarrow> string option \<Rightarrow> string list" where
  "project_leads s p =
     (case p of None \<Rightarrow> []
      | Some q \<Rightarrow> map (\<lambda>(_, u, _). u) (filter (\<lambda>(r, _, role). r = q \<and> role \<in> {''lead'', ''admin''}) (kq_members s)))"

definition nat_text :: "nat \<Rightarrow> string" where "nat_text n = int_str (int n)"

definition digest_text :: "string option \<Rightarrow> nat \<Rightarrow> string" where
  "digest_text p n =
     '':inbox_tray: *KB review digest* - '' @ nat_text n @ '' candidate(s) awaiting your review for project `'' @ opt_str p @ ''`.''
     @ nl @ ''Open: <https://breadmind.local/review?project='' @ opt_str p @ ''|review UI>''"

definition backpressure_text :: "string option \<Rightarrow> nat \<Rightarrow> string" where
  "backpressure_text p n =
     '':warning: *Backpressure* - '' @ nat_text n @ '' pending candidates for `'' @ opt_str p
     @ ''`. New extraction is *paused* for this project until the backlog is below '' @ nat_text backpressure_limit @ ''.''"

definition pause_extraction :: "real \<Rightarrow> string option \<Rightarrow> string \<Rightarrow> unit review" where
  "pause_extraction now p reason =
     (case p of
        None \<Rightarrow> raise_s (integrity_error ''kb_extraction_pause.project_id'')
      | Some q \<Rightarrow> modify_s (\<lambda>s. s\<lparr>kq_pauses := dset q \<lparr>kp_paused = True, kp_reason = reason, kp_at = now\<rparr> (kq_pauses s)\<rparr>))"

definition is_extraction_paused :: "kb_state \<Rightarrow> string \<Rightarrow> bool" where
  "is_extraction_paused s p = (case dget (kq_pauses s) p of None \<Rightarrow> False | Some x \<Rightarrow> kp_paused x)"

definition dm_leads :: "review_env \<Rightarrow> string option \<Rightarrow> string \<Rightarrow> unit review" where
  "dm_leads env p msg = bind_s get_s (\<lambda>s. for_s (project_leads s p) (\<lambda>u. send_dm env u msg))"

definition digest_project :: "review_env \<Rightarrow> real \<Rightarrow> string option \<times> nat \<Rightarrow> unit review" where
  "digest_project env now g =
     (case g of (p, n) \<Rightarrow>
       then_s (if dm_threshold \<le> n then dm_leads env p (digest_text p n) else ret ()) (
       if backpressure_limit < n
       then then_s (pause_extraction now p (''backlog '' @ nat_text n @ '' > '' @ nat_text backpressure_limit))
              (dm_leads env p (backpressure_text p n))
       else ret ()))"

text \<open>The two lists returned: the projects whose leads were written to, and those that were paused.\<close>

definition run_daily_digest :: "review_env \<Rightarrow> real \<Rightarrow> (string list \<times> string list) review" where
  "run_daily_digest env now =
     bind_s get_s (\<lambda>s. let gs = open_groups s in
     then_s (for_s gs (digest_project env now))
       (ret (map (\<lambda>(p, n). opt_str p) (filter (\<lambda>(p, n). dm_threshold \<le> n) gs),
             map (\<lambda>(p, n). opt_str p) (filter (\<lambda>(p, n). backpressure_limit < n) gs))))"

section \<open>Handlers in Slack\<close>

text \<open>\<open>int(action_id.rsplit(':', 1)[1])\<close>.\<close>

definition candidate_id_of :: "string \<Rightarrow> exn + int" where
  "candidate_id_of a =
     (if CHR '':'' \<in> set a then int_of_str (rev (upto_colon (rev a))) else Inl (IndexError ''list index out of range''))"

definition logged :: "unit review \<Rightarrow> unit review" where
  "logged m = try_s m (\<lambda>_. ret ())"

definition slack_approve :: "review_env \<Rightarrow> real \<Rightarrow> string \<Rightarrow> string \<Rightarrow> unit review" where
  "slack_approve env now action user =
     bind_s (lift_res (candidate_id_of action)) (\<lambda>c. logged (then_s (approve env now c user) (ret ())))"

text \<open>The window that asks for the reason carries the number of the candidate as text.\<close>

definition slack_reject_window :: "string \<Rightarrow> exn + string" where
  "slack_reject_window action = bind_res (candidate_id_of action) (\<lambda>c. Inr (int_str c))"

definition slack_reject :: "real \<Rightarrow> string \<Rightarrow> string \<Rightarrow> string \<Rightarrow> unit review" where
  "slack_reject now private_metadata user reason =
     logged (bind_s (lift_res (int_of_str private_metadata)) (\<lambda>c. reject_candidate now c user reason))"

definition slack_needs_edit :: "real \<Rightarrow> string \<Rightarrow> string \<Rightarrow> unit review" where
  "slack_needs_edit now action user =
     bind_s (lift_res (candidate_id_of action)) (\<lambda>c. logged (needs_edit now c user []))"

section \<open>Routes\<close>

text \<open>A reply is a status and a body; an exception that is not an \<open>HTTPException\<close> leaves the route.\<close>

type_synonym http_reply = "nat \<times> json"

definition http_error :: "nat \<Rightarrow> string \<Rightarrow> http_reply" where
  "http_error code detail = (code, JObj [(''detail'', JStr detail)])"

definition login_required :: http_reply where
  "login_required = http_error 401 ''slack login required''"

text \<open>\<open>str(payload.get(field, '')).strip()\<close>.\<close>

definition form_text :: "(json \<Rightarrow> string) \<Rightarrow> json \<Rightarrow> string \<Rightarrow> exn + string" where
  "form_text str payload field =
     (case payload of
        JObj d \<Rightarrow> Inr (str_strip (case dget_or d field (JStr []) of JStr t \<Rightarrow> t | v \<Rightarrow> str v))
      | _ \<Rightarrow> Inl (attribute_error ''get''))"

definition signed_in :: "string option \<Rightarrow> bool" where
  "signed_in user = (case user of None \<Rightarrow> False | Some u \<Rightarrow> u \<noteq> [])"

definition candidate_item :: "kb_candidate \<Rightarrow> json" where
  "candidate_item c =
     (let txt = (\<lambda>v. case v of None \<Rightarrow> JNull | Some t \<Rightarrow> JStr t) in
      JObj [(''id'', JInt (cd_id c)), (''title'', txt (cd_title c)), (''body'', txt (cd_body c)),
        (''category'', txt (cd_category c)),
        (''confidence'', (case cd_confidence c of None \<Rightarrow> JNull | Some x \<Rightarrow> JFloat x)),
        (''status'', JStr (cd_status c)), (''sensitive_flag'', JBool (cd_sensitive c)), (''original_user'', txt (cd_user c))])"

definition route_pending :: "string option \<Rightarrow> string \<Rightarrow> int \<Rightarrow> http_reply review" where
  "route_pending user p limit =
     (if \<not> signed_in user then ret login_required
      else bind_s get_s (\<lambda>s. bind_s (lift_res (list_pending s p limit)) (\<lambda>cs.
        ret (200, JObj [(''items'', JList (map candidate_item cs))]))))"

definition route_edit :: "(json \<Rightarrow> string) \<Rightarrow> real \<Rightarrow> string option \<Rightarrow> int \<Rightarrow> json \<Rightarrow> http_reply review" where
  "route_edit str now user cid payload =
     (if \<not> signed_in user then ret login_required
      else bind_s (lift_res (form_text str payload ''body'')) (\<lambda>b.
        if b = [] then ret (http_error 400 ''body is required'')
        else then_s (needs_edit now cid (the user) b) (ret (200, JObj [(''status'', JStr ''ok'')]))))"

definition route_approve :: "review_env \<Rightarrow> real \<Rightarrow> string option \<Rightarrow> int \<Rightarrow> http_reply review" where
  "route_approve env now user cid =
     (if \<not> signed_in user then ret login_required
      else try_s (bind_s (approve env now cid (the user)) (\<lambda>k.
          ret (200, JObj [(''knowledge_id'', JInt k), (''status'', JStr ''approved'')])))
        (\<lambda>e. case e of ValueError m \<Rightarrow> ret (http_error 400 m) | _ \<Rightarrow> raise_s e))"

definition route_reject :: "(json \<Rightarrow> string) \<Rightarrow> real \<Rightarrow> string option \<Rightarrow> int \<Rightarrow> json \<Rightarrow> http_reply review" where
  "route_reject str now user cid payload =
     (if \<not> signed_in user then ret login_required
      else bind_s (lift_res (form_text str payload ''reason'')) (\<lambda>r.
        if r = [] then ret (http_error 400 ''reason is required'')
        else then_s (reject_candidate now cid (the user) r) (ret (200, JObj [(''status'', JStr ''rejected'')]))))"

section \<open>Triggers of extraction\<close>

record memory_note =
  mn_id :: int
  mn_user :: "string option"
  mn_project :: "string option"
  mn_content :: string
  mn_created :: real

text \<open>
  \<open>te_ready\<close>: the worker has a database and a Slack client. \<open>te_extractor\<close> is the outcome of building the extractor from the
  router and the classifier; \<open>te_notes\<close> is the table of episodic memory.
\<close>

record trigger_env =
  te_ready :: bool
  te_uuid :: "string \<Rightarrow> exn + string"
  te_thread :: "string \<Rightarrow> string \<Rightarrow> exn + thread_message list"
  te_extractor :: "exn + extract_env"
  te_notes :: "memory_note list"

text \<open>The classifier is built without its two arguments.\<close>

definition default_extractor :: "exn + extract_env" where
  "default_extractor = Inl (TypeError ''SensitiveClassifier.__init__() missing 2 required positional arguments'')"

datatype trigger_result = Enqueued nat | Skipped string | Trigger_error string

definition enqueue_all :: "real \<Rightarrow> extracted list \<Rightarrow> unit review" where
  "enqueue_all now cs = for_s cs (\<lambda>c. then_s (enqueue now c) (ret ()))"

definition thread_meta :: "string \<Rightarrow> string \<Rightarrow> string \<Rightarrow> thread_message list \<Rightarrow> source_meta" where
  "thread_meta channel ts p ms =
     \<lparr>sm_type = ''slack_msg'', sm_uri = ''slack://thread/'' @ channel @ ''/'' @ ts, sm_ref = Some ts,
      sm_user = (case ms of [] \<Rightarrow> None | m # _ \<Rightarrow> tm_user m), sm_project = p, sm_from = ''slack_thread_resolved''\<rparr>"

definition process_thread_resolved :: "trigger_env \<Rightarrow> real \<Rightarrow> string \<Rightarrow> string \<Rightarrow> string \<Rightarrow> trigger_result review" where
  "process_thread_resolved env now channel ts project =
     (if \<not> te_ready env then ret (Trigger_error ''db or slack unavailable'')
      else bind_s (lift_res (te_uuid env project)) (\<lambda>p. bind_s get_s (\<lambda>s.
        if is_extraction_paused s p then ret (Skipped ''extraction paused for project'')
        else (case te_thread env channel ts of
            Inl e \<Rightarrow> ret (Trigger_error (''thread fetch failed: '' @ exn_str e))
          | Inr ms \<Rightarrow>
              if \<not> is_thread_resolved now ms then ret (Skipped ''thread not resolved'')
              else bind_s (lift_res (te_extractor env)) (\<lambda>x.
                bind_s (lift_res (extract_text x (thread_meta channel ts p ms) (thread_content ms))) (\<lambda>cs.
                then_s (enqueue_all now cs) (ret (Enqueued (length cs)))))))))"

definition note_meta :: "memory_note \<Rightarrow> string \<Rightarrow> source_meta" where
  "note_meta n p =
     \<lparr>sm_type = ''personal_kb'', sm_uri = ''episodic://'' @ int_str (mn_id n), sm_ref = Some (int_str (mn_id n)),
      sm_user = mn_user n, sm_project = p, sm_from = ''personal_nightly''\<rparr>"

text \<open>The notes of the last day that belong to a project, oldest first.\<close>

definition recent_notes :: "real \<Rightarrow> memory_note list \<Rightarrow> memory_note list" where
  "recent_notes now ns = sort_key mn_created (filter (\<lambda>n. now - 24 * 3600 < mn_created n \<and> mn_project n \<noteq> None) ns)"

text \<open>The state of the sweep is the pair of its counters.\<close>

fun sweep_notes :: "extract_env \<Rightarrow> real \<Rightarrow> memory_note list \<Rightarrow> nat \<times> nat \<Rightarrow> (nat \<times> nat) review" where
  "sweep_notes x now [] acc = ret acc"
| "sweep_notes x now (n # ns) (processed, enqueued) =
     bind_s get_s (\<lambda>s. let p = the (mn_project n) in
       if is_extraction_paused s p then sweep_notes x now ns (processed, enqueued)
       else (case extract_text x (note_meta n p) (mn_content n) of
           Inl _ \<Rightarrow> sweep_notes x now ns (processed, enqueued)
         | Inr cs \<Rightarrow> then_s (enqueue_all now cs) (sweep_notes x now ns (processed + 1, enqueued + length cs))))"

definition run_personal_nightly :: "trigger_env \<Rightarrow> real \<Rightarrow> (nat \<times> nat) review" where
  "run_personal_nightly env now =
     (if \<not> te_ready env then ret (0, 0)
      else bind_s (lift_res (te_extractor env)) (\<lambda>x. sweep_notes x now (recent_notes now (te_notes env)) (0, 0)))"

section \<open>The component as a machine\<close>

datatype kb_op =
    Enqueue real extracted
  | Approve review_env real int string
  | Reject real int string string
  | Needs_edit real int string string
  | Press real string string string
  | Digest review_env real
  | Thread trigger_env real string string string
  | Nightly trigger_env real

fun kb_step :: "kb_op \<Rightarrow> kb_state \<Rightarrow> kb_state" where
  "kb_step (Enqueue now e) s = snd (enqueue now e s)"
| "kb_step (Approve env now c u) s = snd (approve env now c u s)"
| "kb_step (Reject now c u r) s = snd (reject_candidate now c u r s)"
| "kb_step (Needs_edit now c u b) s = snd (needs_edit now c u b s)"
| "kb_step (Press now a u m) s = snd (press_button now a u m s)"
| "kb_step (Digest env now) s = snd (run_daily_digest env now s)"
| "kb_step (Thread env now ch ts p) s = snd (process_thread_resolved env now ch ts p s)"
| "kb_step (Nightly env now) s = snd (run_personal_nightly env now s)"

definition empty_kb :: "string list \<Rightarrow> (string \<times> string \<times> string) list \<Rightarrow> kb_state" where
  "empty_kb projects members =
     \<lparr>kq_projects = projects, kq_members = members, kq_candidates = [], kq_next_candidate = 1, kq_items = [],
      kq_next_item = 1, kq_sources = [], kq_audit = [], kq_feedback = [], kq_pauses = [], kq_dms = []\<rparr>"

end
