(* ===== verification/Kb_Laws.thy ===== *)
theory Kb_Laws
  imports Kb_Feedback
begin

text \<open>
  Laws of the knowledge review. The operations are shown to be sequences of a few moves on the tables (\<open>kb_move\<close>), and the
  invariants are proved for the moves.
\<close>

section \<open>Moves\<close>

definition superseding :: "int \<Rightarrow> int option \<Rightarrow> knowledge list \<Rightarrow> knowledge list" where
  "superseding k d xs =
     map (\<lambda>x. if d = Some (kw_id x) \<and> kw_id x \<noteq> 0 then x\<lparr>kw_superseded := Some k\<rparr> else x) xs"

definition promoted_row :: "real \<Rightarrow> string \<Rightarrow> kb_candidate \<Rightarrow> kb_vec \<Rightarrow> int \<Rightarrow> knowledge" where
  "promoted_row now u c v k =
     \<lparr>kw_id = k, kw_project = cd_project c, kw_title = the (cd_title c), kw_body = the (cd_body c), kw_category = the (cd_category c),
       kw_channel = None, kw_from = Some (cd_from c), kw_by = Some u, kw_at = Some now, kw_embedding = Some v,
       kw_superseded = None, kw_rank = 0, kw_flags = 0\<rparr>"

definition set_candidate :: "int \<Rightarrow> (kb_candidate \<Rightarrow> kb_candidate) \<Rightarrow> kb_candidate list \<Rightarrow> kb_candidate list" where
  "set_candidate c f xs = map (\<lambda>x. if cd_id x = c then f x else x) xs"

definition set_item :: "int \<Rightarrow> (knowledge \<Rightarrow> knowledge) \<Rightarrow> knowledge list \<Rightarrow> knowledge list" where
  "set_item k f xs = map (\<lambda>x. if kw_id x = k then f x else x) xs"

definition duplicate_of :: "kb_state \<Rightarrow> kb_candidate \<Rightarrow> int \<Rightarrow> int option \<Rightarrow> bool" where
  "duplicate_of s c k d \<longleftrightarrow>
     (\<forall>i. d = Some i \<longrightarrow> i \<noteq> k \<and> (\<exists>x \<in> set (kq_items s). kw_id x = i \<and> kw_superseded x = None \<and> kw_project x = cd_project c))"

inductive kb_move :: "kb_state \<Rightarrow> kb_state \<Rightarrow> bool" where
  numbers: "kq_next_candidate s \<le> n \<Longrightarrow> kq_next_item s \<le> m \<Longrightarrow>
    kb_move s (s\<lparr>kq_next_candidate := n, kq_next_item := m\<rparr>)"
| new_candidate: "cd_id c = kq_next_candidate s \<Longrightarrow>
    kb_move s (s\<lparr>kq_next_candidate := kq_next_candidate s + 1, kq_candidates := kq_candidates s @ [c]\<rparr>)"
| note_audit: "ka_action a \<notin> {''promote'', ''needs_edit''} \<Longrightarrow> kb_move s (s\<lparr>kq_audit := kq_audit s @ [a]\<rparr>)"
| promoted: "find_candidate s (cd_id c) = Some c \<Longrightarrow> open_candidate c \<Longrightarrow> k = kq_next_item s \<Longrightarrow> x = promoted_row now u c v k
    \<Longrightarrow> duplicate_of s c k d \<Longrightarrow>
    kb_move s (s\<lparr>kq_next_item := k + 1, kq_items := superseding k d (kq_items s @ [x]), kq_sources := kq_sources s @ rows,
      kq_candidates := set_candidate (cd_id c) (\<lambda>y. y\<lparr>cd_status := ''approved'', cd_reviewer := Some u, cd_reviewed := Some now\<rparr>)
        (kq_candidates s),
      kq_audit := kq_audit s @ [promote_audit u c k d]\<rparr>)"
| rejected: "ka_action a = ''reject'' \<Longrightarrow>
    kb_move s (s\<lparr>kq_candidates := set_candidate c (\<lambda>y. y\<lparr>cd_status := ''rejected'', cd_reviewer := Some u, cd_reviewed := Some now\<rparr>)
        (kq_candidates s),
      kq_audit := kq_audit s @ [a]\<rparr>)"
| edited: "ka_action a = ''needs_edit'' \<Longrightarrow> ka_subject a = int_str c \<Longrightarrow>
    kb_move s (s\<lparr>kq_candidates := set_candidate c (\<lambda>y. y\<lparr>cd_status := ''needs_edit'', cd_reviewer := Some u, cd_reviewed := Some now,
        cd_body := Some b\<rparr>) (kq_candidates s),
      kq_audit := kq_audit s @ [a]\<rparr>)"
| voted_up: "k \<in> kw_id ` set (kq_items s) \<Longrightarrow> kf_knowledge f = k \<Longrightarrow> kf_kind f = ''up'' \<Longrightarrow>
    kb_move s (s\<lparr>kq_items := set_item k (\<lambda>x. x\<lparr>kw_rank := kw_rank x + 1\<rparr>) (kq_items s), kq_feedback := kq_feedback s @ [f]\<rparr>)"
| voted_down: "k \<in> kw_id ` set (kq_items s) \<Longrightarrow> kf_knowledge f = k \<Longrightarrow> kf_kind f = ''down'' \<Longrightarrow>
    kb_move s (s\<lparr>kq_items := set_item k (\<lambda>x. x\<lparr>kw_flags := kw_flags x + 1\<rparr>) (kq_items s), kq_feedback := kq_feedback s @ [f]\<rparr>)"
| bookmarked: "kf_knowledge f \<in> kw_id ` set (kq_items s) \<Longrightarrow> kf_kind f = ''bookmark'' \<Longrightarrow>
    kb_move s (s\<lparr>kq_feedback := kq_feedback s @ [f]\<rparr>)"
| paused: "kp_paused p \<Longrightarrow> kb_move s (s\<lparr>kq_pauses := dset q p (kq_pauses s)\<rparr>)"
| messaged: "kb_move s (s\<lparr>kq_dms := kq_dms s @ [m]\<rparr>)"

definition kb_reach :: "kb_state \<Rightarrow> kb_state \<Rightarrow> bool" where
  "kb_reach = kb_move\<^sup>*\<^sup>*"

lemma kb_reach_refl [simp, intro]: "kb_reach s s"
  by (simp add: kb_reach_def)

lemma kb_reach_step: "kb_reach s t \<Longrightarrow> kb_move t u \<Longrightarrow> kb_reach s u"
  by (simp add: kb_reach_def)

lemma kb_reach_trans: "kb_reach s t \<Longrightarrow> kb_reach t u \<Longrightarrow> kb_reach s u"
  by (simp add: kb_reach_def)

lemma kb_reach_move: "kb_move s t \<Longrightarrow> kb_reach s t"
  by (simp add: kb_reach_def)

lemma move_numbers:
  "kb_move s t \<Longrightarrow> kq_next_candidate s \<le> kq_next_candidate t \<and> kq_next_item s \<le> kq_next_item t"
  by (cases rule: kb_move.cases) auto

lemma reach_numbers:
  "kb_reach s t \<Longrightarrow> kq_next_candidate s \<le> kq_next_candidate t \<and> kq_next_item s \<le> kq_next_item t"
  unfolding kb_reach_def by (induction rule: rtranclp_induct) (auto dest: move_numbers)

text \<open>A program whose every run is a sequence of moves.\<close>

definition by_moves :: "'a review \<Rightarrow> bool" where
  "by_moves m \<longleftrightarrow> (\<forall>s. kb_reach s (snd (m s)))"

lemma by_moves_keeps: "by_moves m \<longleftrightarrow> (\<forall>s0. keeps (kb_reach s0) m)"
  by (auto simp: by_moves_def keeps_def intro: kb_reach_trans)

lemma by_moves_ret [keeps_rules]: "by_moves (ret x)"
  by (simp add: by_moves_def ret_def)

lemma by_moves_raise [keeps_rules]: "by_moves (raise_s e)"
  by (simp add: by_moves_def raise_s_def)

lemma by_moves_lift [keeps_rules]: "by_moves (lift_res r)"
  by (simp add: by_moves_def lift_res_def)

lemma by_moves_bind [keeps_rules]: "by_moves m \<Longrightarrow> (\<And>x. by_moves (k x)) \<Longrightarrow> by_moves (bind_s m k)"
  unfolding by_moves_keeps by (blast intro: keeps_bind_s)

lemma by_moves_get_bind [keeps_rules]: "(\<And>s. by_moves (k s)) \<Longrightarrow> by_moves (bind_s get_s k)"
  unfolding by_moves_keeps by (blast intro: keeps_bind_s keeps_get_s)

lemma by_moves_if [keeps_rules]: "by_moves m \<Longrightarrow> by_moves n \<Longrightarrow> by_moves (if b then m else n)"
  by simp

lemma by_moves_for [keeps_rules]: "(\<And>x. by_moves (f x)) \<Longrightarrow> by_moves (for_s xs f)"
  by (induction xs) (auto intro: by_moves_bind by_moves_ret)

lemma by_moves_try [keeps_rules]: "by_moves m \<Longrightarrow> (\<And>e. by_moves (h e)) \<Longrightarrow> by_moves (try_s m h)"
  unfolding by_moves_keeps by (blast intro: keeps_try_s)

lemma by_moves_modify: "(\<And>s. kb_reach s (f s)) \<Longrightarrow> by_moves (modify_s f)"
  by (simp add: by_moves_def modify_s_def)

lemma by_moves_case_prod [keeps_rules]: "(\<And>x y. by_moves (f x y)) \<Longrightarrow> by_moves (case p of (x, y) \<Rightarrow> f x y)"
  by (cases p) simp

lemma by_moves_case_option [keeps_rules]:
  "by_moves m \<Longrightarrow> (\<And>x. by_moves (f x)) \<Longrightarrow> by_moves (case v of None \<Rightarrow> m | Some x \<Rightarrow> f x)"
  by (cases v) auto

lemma by_moves_case_sum [keeps_rules]:
  "(\<And>x. by_moves (f x)) \<Longrightarrow> (\<And>x. by_moves (g x)) \<Longrightarrow> by_moves (case v of Inl x \<Rightarrow> f x | Inr x \<Rightarrow> g x)"
  by (cases v) auto

lemma by_moves_case_exn: "(\<And>x. by_moves (f x)) \<Longrightarrow> (\<And>x. by_moves (g x)) \<Longrightarrow> by_moves (case e of ValueError m \<Rightarrow> f m | _ \<Rightarrow> g e)"
  by (cases e) auto

text \<open>A failed transaction only moves the sequences on.\<close>

lemma transaction_failed:
  assumes "kq_next_candidate s \<le> kq_next_candidate t" "kq_next_item s \<le> kq_next_item t" "m s = (Inl e, t)"
  shows "kb_reach s (snd (transaction m s))"
  using kb_move.numbers [OF assms(1,2)] assms(3) by (simp add: transaction_def kb_reach_move)

lemma by_moves_transaction: "by_moves m \<Longrightarrow> by_moves (transaction m)"
  unfolding by_moves_def
proof
  fix s assume m: "\<forall>s. kb_reach s (snd (m s))"
  show "kb_reach s (snd (transaction m s))"
  proof (cases "m s")
    case (Pair r t)
    then have "kb_reach s t" using m [rule_format, of s] by simp
    then show ?thesis
      using Pair transaction_failed [of s t m] reach_numbers [of s t] by (cases r) (auto simp: transaction_def)
  qed
qed

section \<open>The operations are moves\<close>

lemma insert_candidate_moves [keeps_rules]:
  assumes "\<And>c. cd_id (f c) = c"
  shows "by_moves (insert_candidate f)"
  unfolding by_moves_def
proof
  fix s
  have "kb_reach s (s\<lparr>kq_next_candidate := kq_next_candidate s + 1, kq_candidates := kq_candidates s @ [f (kq_next_candidate s)]\<rparr>)"
    by (rule kb_reach_move) (rule kb_move.new_candidate, rule assms)
  moreover have "kb_reach s (s\<lparr>kq_next_candidate := kq_next_candidate s + 1\<rparr>)"
    using kb_move.numbers [of s "kq_next_candidate s + 1" "kq_next_item s"] by (simp add: kb_reach_move)
  ultimately show "kb_reach s (snd (insert_candidate f s))" by (simp add: insert_candidate_def Let_def)
qed

lemma audit_moves: "ka_action a \<notin> {''promote'', ''needs_edit''} \<Longrightarrow> by_moves (audit a)"
  unfolding audit_def by (rule by_moves_modify) (rule kb_reach_move, rule kb_move.note_audit)

lemma send_dm_moves [keeps_rules]: "by_moves (send_dm env u m)"
  unfolding send_dm_def by (intro keeps_rules by_moves_modify kb_reach_move kb_move.messaged)

lemma enqueue_moves [keeps_rules]: "by_moves (enqueue now e)"
  unfolding enqueue_def by (intro keeps_rules audit_moves) simp_all

lemma find_id: "find_candidate s c = Some x \<Longrightarrow> cd_id x = c \<and> x \<in> set (kq_candidates s)"
  by (auto simp: find_candidate_def find_Some_iff)

lemma copy_sources_effect: "for_s ds (copy_source k) s = (r, t) \<Longrightarrow> \<exists>rows. t = s\<lparr>kq_sources := kq_sources s @ rows\<rparr>"
proof (induction ds arbitrary: s)
  case Nil
  then have "t = s\<lparr>kq_sources := kq_sources s @ []\<rparr>" by (simp add: ret_def)
  then show ?case by blast
next
  case (Cons d ds)
  obtain r1 s1 where s1: "copy_source k d s = (r1, s1)" by (cases "copy_source k d s")
  then have "s1 = s \<or> (\<exists>row. s1 = s\<lparr>kq_sources := kq_sources s @ [row]\<rparr>)"
    by (auto simp: copy_source_def run_defs split: sum.splits option.splits)
  moreover have "s = s\<lparr>kq_sources := kq_sources s @ []\<rparr>" by simp
  ultimately have "\<exists>rows. s1 = s\<lparr>kq_sources := kq_sources s @ rows\<rparr>" by metis
  then obtain rows where rows: "s1 = s\<lparr>kq_sources := kq_sources s @ rows\<rparr>" by blast
  show ?case
  proof (cases r1)
    case (Inl e)
    then show ?thesis using Cons.prems s1 rows by (auto simp: bind_s_def)
  next
    case (Inr y)
    then have "for_s ds (copy_source k) s1 = (r, t)" using Cons.prems s1 by (simp add: bind_s_def)
    then obtain rows' where "t = s1\<lparr>kq_sources := kq_sources s1 @ rows'\<rparr>" using Cons.IH by blast
    then have "t = s\<lparr>kq_sources := kq_sources s @ (rows @ rows')\<rparr>" using rows by simp
    then show ?thesis by blast
  qed
qed

lemma insert_promoted_cases:
  assumes "insert_promoted now u c v s = (r, t)"
  shows "(\<exists>e. r = Inl e \<and> t = s\<lparr>kq_next_item := kq_next_item s + 1\<rparr>)
    \<or> (r = Inr (kq_next_item s)
         \<and> t = s\<lparr>kq_next_item := kq_next_item s + 1, kq_items := kq_items s @ [promoted_row now u c v (kq_next_item s)]\<rparr>)"
  using assms
  by (auto simp: insert_promoted_def insert_item_def promoted_row_def not_null_def bind_res_def Let_def
      split: option.splits if_splits sum.splits)

lemma nearest_duplicate_in:
  assumes "nearest_duplicate env s p k v = Some i"
  shows "i \<noteq> k \<and> (\<exists>z \<in> set (kq_items s). kw_id z = i \<and> kw_superseded z = None \<and> kw_project z = p)"
proof (cases "sort_key (row_distance env v) (near_duplicates env s p k v)")
  case Nil
  then show ?thesis using assms by (simp add: nearest_duplicate_def)
next
  case (Cons z zs)
  then have "z \<in> set (near_duplicates env s p k v)" by (metis list.set_intros(1) set_sort)
  moreover have "kw_id z = i" using assms Cons by (simp add: nearest_duplicate_def)
  ultimately show ?thesis by (cases p) (auto simp: near_duplicates_def)
qed

lemma supersede_effect:
  "supersede k d s = (r, t) \<Longrightarrow> r = Inr () \<and> t = s\<lparr>kq_items := superseding k d (kq_items s)\<rparr>"
  by (auto simp: supersede_def superseding_def update_row_def run_defs split: option.splits if_splits intro!: map_idI)

lemma promote_cases:
  assumes "promote env now u c s = (r, t)" "find_candidate s (cd_id c) = Some c" "open_candidate c"
  shows "(\<exists>e. r = Inl e \<and> kq_next_candidate s \<le> kq_next_candidate t \<and> kq_next_item s \<le> kq_next_item t)
    \<or> (\<exists>k. r = Inr k \<and> kb_move s t)"
proof (cases "rv_embed env (opt_str (cd_title c) @ nl @ opt_str (cd_body c))")
  case (Inl e)
  then show ?thesis using assms(1) by (auto simp: promote_def run_defs)
next
  case (Inr v)
  obtain r1 s1 where s1: "insert_promoted now u c v s = (r1, s1)" by (cases "insert_promoted now u c v s")
  show ?thesis
  proof (cases "\<exists>e. r1 = Inl e")
    case True
    then show ?thesis using assms(1) Inr s1 insert_promoted_cases [OF s1] by (auto simp: promote_def run_defs)
  next
    case False
    let ?k = "kq_next_item s"
    let ?x = "promoted_row now u c v ?k"
    have r1: "r1 = Inr ?k" and s1': "s1 = s\<lparr>kq_next_item := ?k + 1, kq_items := kq_items s @ [?x]\<rparr>"
      using False insert_promoted_cases [OF s1] by (blast, blast)
    obtain r2 s2 where s2: "for_s (cd_sources c) (copy_source ?k) s1 = (r2, s2)" by (cases "for_s (cd_sources c) (copy_source ?k) s1")
    obtain rows where rows: "s2 = s1\<lparr>kq_sources := kq_sources s1 @ rows\<rparr>" using copy_sources_effect [OF s2] by blast
    show ?thesis
    proof (cases r2)
      case (Inl e)
      then show ?thesis using assms(1) Inr s1 r1 s2 rows s1' by (auto simp: promote_def run_defs)
    next
      case (Inr w)
      let ?d = "nearest_duplicate env s2 (cd_project c) ?k v"
      obtain r3 s3 where s3: "supersede ?k ?d s2 = (r3, s3)" by (cases "supersede ?k ?d s2")
      have dup: "duplicate_of s c ?k ?d"
        unfolding duplicate_of_def
      proof (intro allI impI)
        fix i assume i: "?d = Some i"
        show "i \<noteq> ?k \<and> (\<exists>x \<in> set (kq_items s). kw_id x = i \<and> kw_superseded x = None \<and> kw_project x = cd_project c)"
          using nearest_duplicate_in [OF i] by (auto simp: rows s1' promoted_row_def)
      qed
      have "r = Inr ?k" and "t = s\<lparr>kq_next_item := ?k + 1, kq_items := superseding ?k ?d (kq_items s @ [?x]), kq_sources := kq_sources s @ rows,
          kq_candidates := set_candidate (cd_id c) (\<lambda>y. y\<lparr>cd_status := ''approved'', cd_reviewer := Some u, cd_reviewed := Some now\<rparr>)
            (kq_candidates s),
          kq_audit := kq_audit s @ [promote_audit u c ?k ?d]\<rparr>"
        using assms(1) \<open>rv_embed _ _ = Inr v\<close> s1 r1 s2 Inr s3 supersede_effect [OF s3] rows s1'
        by (auto simp: promote_def run_defs Let_def update_candidate_def set_candidate_def audit_def)
      then show ?thesis using kb_move.promoted [OF assms(2,3) refl refl dup] by blast
    qed
  qed
qed

lemma approve_moves [keeps_rules]: "by_moves (approve env now cid u)"
  unfolding approve_def
proof (intro by_moves_bind)
  let ?m = "bind_s (candidate_for_approval cid) (\<lambda>c. bind_s (promote env now u c) (\<lambda>k. ret (c, k)))"
  show "by_moves (transaction ?m)"
    unfolding by_moves_def
  proof
    fix s
    show "kb_reach s (snd (transaction ?m s))"
    proof (cases "\<exists>c. find_candidate s cid = Some c \<and> open_candidate c")
      case False
      then obtain e where "?m s = (Inl e, s)"
        by (cases "find_candidate s cid") (auto simp: candidate_for_approval_def open_candidate_def run_defs)
      then show ?thesis by (auto simp: transaction_def)
    next
      case True
      then obtain c where c: "find_candidate s cid = Some c" "open_candidate c" by blast
      obtain r t where p: "promote env now u c s = (r, t)" by (cases "promote env now u c s")
      have m: "?m s = ((case r of Inl e \<Rightarrow> Inl e | Inr k \<Rightarrow> Inr (c, k)), t)"
        using c p by (auto simp: candidate_for_approval_def open_candidate_def run_defs split: sum.splits)
      show ?thesis
        using promote_cases [OF p] c find_id [OF c(1)] m transaction_failed [of s t ?m]
        by (cases r) (auto simp: transaction_def intro: kb_reach_move)
    qed
  qed
next
  fix x :: "kb_candidate \<times> int"
  show "by_moves (case x of (c, k) \<Rightarrow> then_s (thank_author env u c) (ret k))"
    unfolding thank_author_def by (intro keeps_rules)
qed

lemma existing_candidate_effect: "existing_candidate c s = (r, t) \<Longrightarrow> t = s"
  by (auto simp: existing_candidate_def run_defs split: option.splits)

lemma reject_moves [keeps_rules]: "by_moves (reject_candidate now c u why)"
  unfolding by_moves_def
proof
  fix s
  show "kb_reach s (snd (reject_candidate now c u why s))"
    by (auto simp: reject_candidate_def existing_candidate_def update_candidate_def audit_def run_defs set_candidate_def [symmetric]
        split: option.splits intro!: kb_reach_move kb_move.rejected)
qed

lemma needs_edit_moves [keeps_rules]: "by_moves (needs_edit now c u b)"
  unfolding by_moves_def
proof
  fix s
  show "kb_reach s (snd (needs_edit now c u b s))"
    by (auto simp: needs_edit_def existing_candidate_def update_candidate_def audit_def run_defs set_candidate_def [symmetric]
        split: option.splits intro!: kb_reach_move kb_move.edited)
qed

lemma map_ids_set_item [simp]:
  "(\<And>x. kw_id (f x) = kw_id x) \<Longrightarrow> map kw_id (set_item k f xs) = map kw_id xs"
  by (induction xs) (auto simp: set_item_def)

lemma ids_set_item [simp]:
  "(\<And>x. kw_id (f x) = kw_id x) \<Longrightarrow> kw_id ` set (set_item k f xs) = kw_id ` set xs"
  by (metis map_ids_set_item set_map)

lemma update_row_effect: "update_row k f s = (Inr (), s\<lparr>kq_items := set_item k f (kq_items s)\<rparr>)"
  by (simp add: update_row_def set_item_def modify_s_def)

lemma insert_feedback_effect:
  "insert_feedback f s = (if kf_knowledge f \<in> kw_id ` set (kq_items s) then (Inr (), s\<lparr>kq_feedback := kq_feedback s @ [f]\<rparr>)
     else (Inl (integrity_error ''kb_feedback.knowledge_id''), s))"
  by (simp add: insert_feedback_def run_defs)

lemma audit_effect: "audit a s = (Inr (), s\<lparr>kq_audit := kq_audit s @ [a]\<rparr>)"
  by (simp add: audit_def modify_s_def)

lemmas feedback_effects = update_row_effect insert_feedback_effect audit_effect audit_feedback_def bind_s_def transaction_def

lemma up_moves: "by_moves (upvote k u q)"
  unfolding by_moves_def
proof
  fix s
  let ?f = "feedback_row k u ''up'' q None"
  let ?a = "\<lparr>ka_actor = u, ka_action = ''feedback_up'', ka_subject_type = ''org_knowledge'', ka_subject = int_str k,
       ka_project = None, ka_meta = [(''query_id'', JStr q)]\<rparr>"
  show "kb_reach s (snd (upvote k u q s))"
  proof (cases "k \<in> kw_id ` set (kq_items s)")
    case False
    then show ?thesis
      by (simp add: upvote_def feedback_effects feedback_row_def)
  next
    case True
    let ?t = "s\<lparr>kq_items := set_item k (\<lambda>x. x\<lparr>kw_rank := kw_rank x + 1\<rparr>) (kq_items s), kq_feedback := kq_feedback s @ [?f]\<rparr>"
    have "kb_move s ?t" using True by (rule kb_move.voted_up) (simp_all add: feedback_row_def)
    moreover have "kb_move ?t (?t\<lparr>kq_audit := kq_audit ?t @ [?a]\<rparr>)" by (rule kb_move.note_audit) simp
    ultimately have "kb_reach s (?t\<lparr>kq_audit := kq_audit ?t @ [?a]\<rparr>)" by (meson kb_reach_refl kb_reach_step)
    moreover have "snd (upvote k u q s) = ?t\<lparr>kq_audit := kq_audit ?t @ [?a]\<rparr>"
      using True by (simp add: upvote_def feedback_effects feedback_row_def)
    ultimately show ?thesis by simp
  qed
qed

lemma ask_re_review_moves [keeps_rules]: "by_moves (ask_re_review now k)"
  unfolding ask_re_review_def by (intro keeps_rules) (simp_all add: re_review_candidate_def)

lemma down_moves: "by_moves (downvote now k u q)"
  unfolding by_moves_def
proof
  fix s
  let ?f = "feedback_row k u ''down'' q None"
  let ?a = "\<lparr>ka_actor = u, ka_action = ''feedback_down'', ka_subject_type = ''org_knowledge'', ka_subject = int_str k,
       ka_project = None, ka_meta = [(''query_id'', JStr q)]\<rparr>"
  show "kb_reach s (snd (downvote now k u q s))"
  proof (cases "k \<in> kw_id ` set (kq_items s)")
    case False
    then show ?thesis
      by (simp add: downvote_def feedback_effects feedback_row_def)
  next
    case True
    let ?t = "s\<lparr>kq_items := set_item k (\<lambda>x. x\<lparr>kw_flags := kw_flags x + 1\<rparr>) (kq_items s), kq_feedback := kq_feedback s @ [?f]\<rparr>"
    let ?w = "?t\<lparr>kq_audit := kq_audit ?t @ [?a]\<rparr>"
    have "kb_move s ?t" using True by (rule kb_move.voted_down) (simp_all add: feedback_row_def)
    moreover have "kb_move ?t ?w" by (rule kb_move.note_audit) simp
    ultimately have w: "kb_reach s ?w" by (meson kb_reach_refl kb_reach_step)
    obtain r y where y: "ask_re_review now k ?w = (r, y)" by (cases "ask_re_review now k ?w")
    have "kb_reach ?w (snd (ask_re_review now k ?w))"
      using ask_re_review_moves [of now k] unfolding by_moves_def by (rule spec)
    then have sy: "kb_reach s y" unfolding y snd_conv by (rule kb_reach_trans [OF w])
    have e1: "update_row k (\<lambda>x. x\<lparr>kw_flags := kw_flags x + 1\<rparr>) s =
        (Inr (), s\<lparr>kq_items := set_item k (\<lambda>x. x\<lparr>kw_flags := kw_flags x + 1\<rparr>) (kq_items s)\<rparr>)" (is "_ = (_, ?s1)")
      by (rule update_row_effect)
    have e2: "insert_feedback ?f ?s1 = (Inr (), ?t)"
      using insert_feedback_effect [of ?f ?s1] ids_set_item [of "\<lambda>x. x\<lparr>kw_flags := kw_flags x + 1\<rparr>" k "kq_items s"] True
      by (simp add: feedback_row_def)
    have e3: "audit_feedback u ''feedback_down'' k q ?t = (Inr (), ?w)"
      unfolding audit_feedback_def by (rule audit_effect)
    have "then_s (update_row k (\<lambda>x. x\<lparr>kw_flags := kw_flags x + 1\<rparr>)) (then_s (insert_feedback ?f) (
        then_s (audit_feedback u ''feedback_down'' k q) (ask_re_review now k))) s = (r, y)"
      by (simp only: bind_s_def e1 e2 e3 y prod.case sum.case)
    then have d: "downvote now k u q s = transaction (\<lambda>_. (r, y)) s"
      by (simp only: downvote_def transaction_def)
    show ?thesis
    proof (cases r)
      case (Inl e)
      show ?thesis unfolding d using transaction_failed [of s y "\<lambda>_. (r, y)"] reach_numbers [OF sy] Inl by simp
    next
      case (Inr z)
      then show ?thesis unfolding d using sy by (simp add: transaction_def)
    qed
  qed
qed

lemma insert_bookmark_moves: "kf_kind f = ''bookmark'' \<Longrightarrow> by_moves (insert_feedback f)"
  unfolding by_moves_def
  by (auto simp: insert_feedback_def run_defs intro!: kb_reach_move kb_move.bookmarked)

lemma bookmark_moves: "by_moves (bookmark now k u q m)"
  unfolding bookmark_def Let_def audit_feedback_def
  by (intro by_moves_transaction keeps_rules insert_bookmark_moves audit_moves)
    (simp_all add: bookmark_candidate_def feedback_row_def)

lemma press_moves [keeps_rules]: "by_moves (press_button now a u m)"
  unfolding press_button_def by (intro keeps_rules up_moves down_moves bookmark_moves)

lemma pause_moves [keeps_rules]: "by_moves (pause_extraction now p r)"
  unfolding pause_extraction_def by (intro keeps_rules by_moves_modify kb_reach_move kb_move.paused) simp

lemma digest_moves [keeps_rules]: "by_moves (run_daily_digest env now)"
  unfolding run_daily_digest_def digest_project_def dm_leads_def Let_def by (intro keeps_rules)

lemma enqueue_all_moves [keeps_rules]: "by_moves (enqueue_all now cs)"
  unfolding enqueue_all_def by (intro keeps_rules)

lemma thread_moves [keeps_rules]: "by_moves (process_thread_resolved env now ch ts p)"
  unfolding process_thread_resolved_def by (intro keeps_rules)

lemma sweep_moves [keeps_rules]: "by_moves (sweep_notes x now ns acc)"
proof (induction x now ns acc rule: sweep_notes.induct)
  case (1 x now acc)
  then show ?case by (simp add: by_moves_ret)
next
  case (2 x now n ns processed enqueued)
  show ?case
    unfolding sweep_notes.simps Let_def
  proof (rule by_moves_get_bind)
    fix s
    have "by_moves (case extract_text x (note_meta n (the (mn_project n))) (mn_content n) of
        Inl _ \<Rightarrow> sweep_notes x now ns (processed, enqueued)
      | Inr cs \<Rightarrow> then_s (enqueue_all now cs) (sweep_notes x now ns (processed + 1, enqueued + length cs)))"
      if "\<not> is_extraction_paused s (the (mn_project n))"
      using 2(2,3) that
      by (cases "extract_text x (note_meta n (the (mn_project n))) (mn_content n)") (auto intro!: by_moves_bind enqueue_all_moves)
    then show "by_moves (if is_extraction_paused s (the (mn_project n)) then sweep_notes x now ns (processed, enqueued)
      else case extract_text x (note_meta n (the (mn_project n))) (mn_content n) of
        Inl _ \<Rightarrow> sweep_notes x now ns (processed, enqueued)
      | Inr cs \<Rightarrow> then_s (enqueue_all now cs) (sweep_notes x now ns (processed + 1, enqueued + length cs)))"
      using 2(1) by auto
  qed
qed

lemma nightly_moves [keeps_rules]: "by_moves (run_personal_nightly env now)"
  unfolding run_personal_nightly_def by (intro keeps_rules)

lemma slack_approve_moves: "by_moves (slack_approve env now a u)"
  unfolding slack_approve_def logged_def by (intro keeps_rules)

lemma slack_reject_moves: "by_moves (slack_reject now pm u why)"
  unfolding slack_reject_def logged_def by (intro keeps_rules)

lemma slack_needs_edit_moves: "by_moves (slack_needs_edit now a u)"
  unfolding slack_needs_edit_def logged_def by (intro keeps_rules)

lemma route_moves:
  "by_moves (route_pending user p n)" "by_moves (route_edit str now user c j)" "by_moves (route_reject str now user c j)"
  "by_moves (route_approve env now user c)"
  unfolding route_pending_def route_edit_def route_reject_def route_approve_def
  by (intro keeps_rules by_moves_case_exn)+

lemma step_reaches: "kb_reach s (kb_step x s)"
  using enqueue_moves approve_moves reject_moves needs_edit_moves press_moves digest_moves thread_moves nightly_moves
  by (cases x) (auto simp: by_moves_def)

text \<open>What holds at the start and is kept by every move holds after any operations.\<close>

lemma reach_keeps:
  assumes "\<And>s t. kb_move s t \<Longrightarrow> I s \<Longrightarrow> I t" "kb_reach s t" "I s"
  shows "I t"
  using assms(2) unfolding kb_reach_def by (induction rule: rtranclp_induct) (auto intro: assms)

lemma machine_of_moves: "(\<And>s t. kb_move s t \<Longrightarrow> I s \<Longrightarrow> I t) \<Longrightarrow> machine kb_step I"
  by unfold_locales (blast intro: reach_keeps step_reaches)

section \<open>Promotions\<close>

definition promotions :: "kb_state \<Rightarrow> int \<Rightarrow> nat" where
  "promotions s c =
     length (filter (\<lambda>a. ka_action a = ''promote'' \<and> dget (ka_meta a) ''candidate_id'' = Some (JInt c)) (kq_audit s))"

definition edit_requests :: "kb_state \<Rightarrow> int \<Rightarrow> nat" where
  "edit_requests s c = length (filter (\<lambda>a. ka_action a = ''needs_edit'' \<and> ka_subject a = int_str c) (kq_audit s))"

definition is_open :: "kb_state \<Rightarrow> int \<Rightarrow> bool" where
  "is_open s c \<longleftrightarrow> (\<exists>x \<in> set (kq_candidates s). cd_id x = c \<and> open_candidate x)"

definition candidates_ok :: "kb_state \<Rightarrow> bool" where
  "candidates_ok s \<longleftrightarrow>
     distinct (map cd_id (kq_candidates s))
     \<and> (\<forall>x \<in> set (kq_candidates s). cd_id x < kq_next_candidate s)
     \<and> (\<forall>c. kq_next_candidate s \<le> c \<longrightarrow> promotions s c = 0)
     \<and> (\<forall>c. promotions s c + of_bool (is_open s c) \<le> edit_requests s c + 1)"

lemma map_ids_set_candidate [simp]:
  "(\<And>x. cd_id (f x) = cd_id x) \<Longrightarrow> map cd_id (set_candidate c f xs) = map cd_id xs"
  by (induction xs) (auto simp: set_candidate_def)

lemma set_candidate_ids:
  "(\<And>x. cd_id (f x) = cd_id x) \<Longrightarrow> (\<forall>x \<in> set (set_candidate c f xs). P (cd_id x)) \<longleftrightarrow> (\<forall>x \<in> set xs. P (cd_id x))"
  using map_ids_set_candidate [of f c xs] by (metis (mono_tags, lifting) image_iff list.set_map)

lemma open_set_candidate:
  "(\<And>x. cd_id (f x) = cd_id x) \<Longrightarrow> (\<exists>x \<in> set (set_candidate c f xs). cd_id x = d \<and> open_candidate x)
    \<longleftrightarrow> (if d = c then \<exists>x \<in> set xs. cd_id x = d \<and> open_candidate (f x) else \<exists>x \<in> set xs. cd_id x = d \<and> open_candidate x)"
  by (auto simp: set_candidate_def)

lemma is_open_set_candidate:
  assumes "kq_candidates t = set_candidate c f (kq_candidates s)" "\<And>x. cd_id (f x) = cd_id x"
  shows "is_open t e \<longleftrightarrow> (if e = c then \<exists>x \<in> set (kq_candidates s). cd_id x = e \<and> open_candidate (f x) else is_open s e)"
  unfolding is_open_def assms(1) by (rule open_set_candidate) (rule assms(2))

lemma promotions_snoc:
  "promotions (s\<lparr>kq_audit := kq_audit s @ [a]\<rparr>) c =
     promotions s c + of_bool (ka_action a = ''promote'' \<and> dget (ka_meta a) ''candidate_id'' = Some (JInt c))"
  by (simp add: promotions_def)

lemma promote_audit_fields [simp]:
  "ka_action (promote_audit u c k d) = ''promote''"
  "dget (ka_meta (promote_audit u c k d)) ''candidate_id'' = Some (JInt (cd_id c))"
  by (simp_all add: promote_audit_def)

lemma same_candidates:
  assumes "candidates_ok s" "kq_candidates t = kq_candidates s" "kq_next_candidate s \<le> kq_next_candidate t"
    "\<And>c. promotions t c = promotions s c" "\<And>c. edit_requests s c \<le> edit_requests t c"
  shows "candidates_ok t"
proof -
  have o': "is_open t c = is_open s c" for c using assms(2) by (simp add: is_open_def)
  have "promotions t c + of_bool (is_open t c) \<le> edit_requests t c + 1" for c
    using assms(1,5) unfolding candidates_ok_def o' assms(4) by (meson add_le_mono1 order_trans)
  moreover have "cd_id x < kq_next_candidate t" if "x \<in> set (kq_candidates t)" for x
    using assms(1,3) that unfolding candidates_ok_def assms(2) by (meson order.strict_trans2)
  moreover have "promotions t c = 0" if "kq_next_candidate t \<le> c" for c
    using assms(1,3) that unfolding candidates_ok_def assms(4) by (meson order_trans)
  ultimately show ?thesis using assms(1,2) by (simp add: candidates_ok_def)
qed

lemma update_candidates_ok:
  assumes "candidates_ok s" "kq_candidates t = set_candidate c f (kq_candidates s)" "\<And>x. cd_id (f x) = cd_id x"
    "kq_next_candidate t = kq_next_candidate s" "\<And>e. kq_next_candidate s \<le> e \<Longrightarrow> promotions t e = 0"
    "\<And>e. promotions t e + of_bool (is_open t e) \<le> edit_requests t e + 1"
  shows "candidates_ok t"
proof -
  have "(\<forall>x \<in> set (set_candidate c f (kq_candidates s)). cd_id x < kq_next_candidate s)
      \<longleftrightarrow> (\<forall>x \<in> set (kq_candidates s). cd_id x < kq_next_candidate s)"
    by (rule set_candidate_ids) (rule assms(3))
  then show ?thesis
    using assms(1,5,6) unfolding candidates_ok_def assms(2,4) map_ids_set_candidate [OF assms(3)] by blast
qed

lemma move_candidates_ok: "kb_move s t \<Longrightarrow> candidates_ok s \<Longrightarrow> candidates_ok t"
proof (induction rule: kb_move.induct)
  case (new_candidate c s)
  let ?t = "s\<lparr>kq_next_candidate := kq_next_candidate s + 1, kq_candidates := kq_candidates s @ [c]\<rparr>"
  have p: "promotions ?t d = promotions s d" and e: "edit_requests ?t d = edit_requests s d" for d
    by (simp_all add: promotions_def edit_requests_def)
  have o': "is_open ?t d \<longleftrightarrow> is_open s d \<or> (d = cd_id c \<and> open_candidate c)" for d
    by (auto simp: is_open_def)
  have new: "promotions s (cd_id c) = 0" using new_candidate by (simp add: candidates_ok_def)
  have "promotions s d + of_bool (is_open ?t d) \<le> edit_requests s d + 1" for d
    using new_candidate.prems new by (cases "d = cd_id c") (auto simp: o' candidates_ok_def)
  moreover have "\<forall>x \<in> set (kq_candidates s). cd_id x < cd_id c"
    using new_candidate by (simp add: candidates_ok_def)
  moreover have "distinct (map cd_id (kq_candidates s))" "\<forall>d. kq_next_candidate s \<le> d \<longrightarrow> promotions s d = 0"
    using new_candidate.prems by (simp_all add: candidates_ok_def)
  ultimately show ?case
    unfolding candidates_ok_def p e using new_candidate.hyps by fastforce
next
  case (promoted s c k x now u v d rows)
  let ?f = "\<lambda>y. y\<lparr>cd_status := ''approved'', cd_reviewer := Some u, cd_reviewed := Some now\<rparr>"
  let ?t = "s\<lparr>kq_next_item := k + 1, kq_items := superseding k d (kq_items s @ [x]), kq_sources := kq_sources s @ rows,
      kq_candidates := set_candidate (cd_id c) ?f (kq_candidates s), kq_audit := kq_audit s @ [promote_audit u c k d]\<rparr>"
  have p: "promotions ?t e = promotions s e + of_bool (e = cd_id c)" for e by (simp add: promotions_def)
  have q: "edit_requests ?t e = edit_requests s e" for e by (simp add: edit_requests_def)
  have was: "is_open s (cd_id c)" using promoted.hyps(2) find_id [OF promoted.hyps(1)] unfolding is_open_def by blast
  have o': "is_open ?t e \<longleftrightarrow> e \<noteq> cd_id c \<and> is_open s e" for e
    using is_open_set_candidate [of ?t "cd_id c" ?f s e] by (simp add: open_candidate_def)
  have old: "cd_id c < kq_next_candidate s" using promoted.prems find_id [OF promoted.hyps(1)] unfolding candidates_ok_def by blast
  have "promotions ?t e + of_bool (is_open ?t e) \<le> edit_requests s e + 1" for e
    using promoted.prems was unfolding candidates_ok_def p o' by (cases "e = cd_id c") (auto dest!: spec [of _ e])
  moreover have "promotions ?t e = 0" if "kq_next_candidate s \<le> e" for e
    using that promoted.prems old unfolding candidates_ok_def p by auto
  ultimately show ?case
    using update_candidates_ok [OF promoted.prems, of ?t "cd_id c" ?f] by (simp add: q)
next
  case (rejected a s c now u)
  let ?f = "\<lambda>y. y\<lparr>cd_status := ''rejected'', cd_reviewer := Some u, cd_reviewed := Some now\<rparr>"
  let ?t = "s\<lparr>kq_candidates := set_candidate c ?f (kq_candidates s), kq_audit := kq_audit s @ [a]\<rparr>"
  have p: "promotions ?t e = promotions s e" "edit_requests ?t e = edit_requests s e" for e
    using rejected by (simp_all add: promotions_def edit_requests_def)
  have o': "is_open ?t e \<longleftrightarrow> e \<noteq> c \<and> is_open s e" for e
    using is_open_set_candidate [of ?t c ?f s e] by (simp add: open_candidate_def)
  have "promotions s e + of_bool (is_open ?t e) \<le> edit_requests s e + 1" for e
    using rejected.prems unfolding candidates_ok_def o' by (cases "e = c") (auto dest!: spec [of _ e])
  moreover have "promotions ?t e = 0" if "kq_next_candidate s \<le> e" for e
    using that rejected.prems unfolding candidates_ok_def p by blast
  ultimately show ?case
    using update_candidates_ok [OF rejected.prems, of ?t c ?f] by (simp add: p)
next
  case (edited a c s b now u)
  let ?f = "\<lambda>y. y\<lparr>cd_status := ''needs_edit'', cd_reviewer := Some u, cd_reviewed := Some now, cd_body := Some b\<rparr>"
  let ?t = "s\<lparr>kq_candidates := set_candidate c ?f (kq_candidates s), kq_audit := kq_audit s @ [a]\<rparr>"
  have p: "promotions ?t e = promotions s e" for e using edited by (simp add: promotions_def)
  have q: "edit_requests ?t e \<ge> edit_requests s e + of_bool (e = c)" for e using edited by (simp add: edit_requests_def)
  have o': "e \<noteq> c \<Longrightarrow> is_open ?t e \<longleftrightarrow> is_open s e" for e
    using is_open_set_candidate [of ?t c ?f s e] by simp
  have "promotions s e + of_bool (is_open ?t e) \<le> edit_requests ?t e + 1" for e
  proof (cases "e = c")
    case True
    have "promotions s c \<le> edit_requests s c + 1" using edited.prems unfolding candidates_ok_def by (meson add_leD1)
    then show ?thesis using q [of c] True by (auto simp: of_bool_def)
  next
    case False
    then have "promotions s e + of_bool (is_open ?t e) \<le> edit_requests s e + 1"
      using edited.prems o' unfolding candidates_ok_def by simp
    then show ?thesis using q [of e] False by simp
  qed
  moreover have "promotions ?t e = 0" if "kq_next_candidate s \<le> e" for e
    using that edited.prems unfolding candidates_ok_def p by blast
  ultimately show ?case
    using update_candidates_ok [OF edited.prems, of ?t c ?f] by (simp add: p)
qed (auto elim!: same_candidates simp: promotions_def edit_requests_def)

interpretation kb_candidates: machine kb_step candidates_ok
  by (rule machine_of_moves) (rule move_candidates_ok)

lemma empty_candidates_ok: "candidates_ok (empty_kb ps ms)"
  by (simp add: candidates_ok_def empty_kb_def promotions_def is_open_def)

text \<open>
  C27. A candidate is promoted at most once, and once more for each request to edit it: whatever is enqueued, approved, rejected,
  edited, voted, swept or digested, in any order, the audit log has at most one promotion of a candidate more than
  requests to edit it. (A request to edit also opens a candidate that was approved or rejected, so the bound is reached.)
\<close>

theorem promotions_bounded:
  "promotions (fold kb_step ops (empty_kb projects members)) c
     \<le> edit_requests (fold kb_step ops (empty_kb projects members)) c + 1"
  using kb_candidates.run_inv [OF empty_candidates_ok, of ops projects members]
  unfolding candidates_ok_def by (meson add_leD1)

end
