(* ===== verification/Kb_Chains.thy ===== *)
theory Kb_Chains
  imports Kb_Laws
begin

text \<open>
  More laws of the knowledge review, for all sequences of operations: chains of superseded rows end, votes are counted, a pause is never
  lifted, and every promoted row has lost the channel it came from.
\<close>

section \<open>Chains of superseded rows\<close>

definition link_ok :: "knowledge list \<Rightarrow> knowledge \<Rightarrow> bool" where
  "link_ok xs x \<longleftrightarrow>
     (\<forall>k. kw_superseded x = Some k \<longrightarrow> kw_id x < k \<and> (\<exists>y \<in> set xs. kw_id y = k \<and> kw_project y = kw_project x))"

definition items_ok :: "kb_state \<Rightarrow> bool" where
  "items_ok s \<longleftrightarrow>
     distinct (map kw_id (kq_items s)) \<and> 0 < kq_next_item s
     \<and> (\<forall>x \<in> set (kq_items s). 0 < kw_id x \<and> kw_id x < kq_next_item s \<and> kw_channel x = None \<and> link_ok (kq_items s) x)"

definition with_link :: "int \<Rightarrow> int option \<Rightarrow> knowledge \<Rightarrow> knowledge" where
  "with_link k d x = (if d = Some (kw_id x) \<and> kw_id x \<noteq> 0 then x\<lparr>kw_superseded := Some k\<rparr> else x)"

lemma superseding_with_link: "superseding k d xs = map (with_link k d) xs"
  by (simp add: superseding_def with_link_def)

lemma with_link_fields [simp]:
  "kw_id (with_link k d x) = kw_id x" "kw_project (with_link k d x) = kw_project x" "kw_channel (with_link k d x) = kw_channel x"
  "kw_flags (with_link k d x) = kw_flags x" "kw_rank (with_link k d x) = kw_rank x"
  by (simp_all add: with_link_def)

lemma promoted_row_fields [simp]:
  "kw_id (promoted_row now u c v k) = k" "kw_project (promoted_row now u c v k) = cd_project c"
  "kw_channel (promoted_row now u c v k) = None" "kw_superseded (promoted_row now u c v k) = None"
  "kw_flags (promoted_row now u c v k) = 0" "kw_rank (promoted_row now u c v k) = 0"
  by (simp_all add: promoted_row_def)

lemma link_ok_map:
  assumes "link_ok xs x" "\<And>y. kw_id (f y) = kw_id y" "\<And>y. kw_project (f y) = kw_project y"
    "kw_superseded z = kw_superseded x" "kw_id z = kw_id x" "kw_project z = kw_project x"
  shows "link_ok (map f xs @ ys) z"
  unfolding link_ok_def
proof (intro allI impI)
  fix k assume "kw_superseded z = Some k"
  then obtain y where y: "kw_id x < k" "y \<in> set xs" "kw_id y = k" "kw_project y = kw_project x"
    using assms(1,4) by (auto simp: link_ok_def)
  then have "f y \<in> set (map f xs @ ys)" "kw_id (f y) = k" "kw_project (f y) = kw_project z" by (simp_all add: assms)
  then show "kw_id z < k \<and> (\<exists>y \<in> set (map f xs @ ys). kw_id y = k \<and> kw_project y = kw_project z)"
    using y(1) assms(5) by auto
qed

lemma superseding_items_ok:
  assumes ok: "items_ok s" and dup: "duplicate_of s c k d" and k: "k = kq_next_item s"
    and row: "kw_id x = k" "kw_project x = cd_project c" "kw_channel x = None" "kw_superseded x = None"
    and t: "kq_items t = superseding k d (kq_items s @ [x])" "kq_next_item t = k + 1"
  shows "items_ok t"
proof -
  have new: "with_link k d x = x" using dup row by (auto simp: with_link_def duplicate_of_def)
  have items: "kq_items t = map (with_link k d) (kq_items s) @ [x]" by (simp add: t superseding_with_link new)
  have ids: "map kw_id (kq_items t) = map kw_id (kq_items s) @ [k]" by (simp add: items row)
  have "link_ok (kq_items t) (with_link k d y)" if y: "y \<in> set (kq_items s)" for y
  proof (cases "d = Some (kw_id y) \<and> kw_id y \<noteq> 0")
    case True
    then obtain z where z: "z \<in> set (kq_items s)" "kw_id z = kw_id y" "kw_project z = cd_project c"
      using dup by (auto simp: duplicate_of_def)
    then have "z = y" using ok y by (metis eq_key_imp_eq_value items_ok_def distinct_map inj_on_def)
    then have "kw_project y = kw_project x" using z row by simp
    moreover have "kw_id y < k" using ok y k by (simp add: items_ok_def)
    ultimately show ?thesis using True row by (auto simp: link_ok_def with_link_def items)
  next
    case False
    then have same: "with_link k d y = y" by (auto simp: with_link_def)
    have "link_ok (kq_items s) y" using ok y by (simp add: items_ok_def)
    then show ?thesis unfolding items same by (rule link_ok_map) simp_all
  qed
  moreover have "link_ok (kq_items t) x" using row by (simp add: link_ok_def)
  ultimately have "\<forall>y \<in> set (kq_items t). link_ok (kq_items t) y" by (auto simp: items)
  then show ?thesis
    using ok k row unfolding items_ok_def ids by (auto simp: items t(2))
qed

lemma map_items_ok:
  assumes ok: "items_ok s" and g: "\<And>x. kw_id (g x) = kw_id x" "\<And>x. kw_project (g x) = kw_project x"
    "\<And>x. kw_channel (g x) = kw_channel x" "\<And>x. kw_superseded (g x) = kw_superseded x"
    and t: "kq_items t = map g (kq_items s)" "kq_next_item t = kq_next_item s"
  shows "items_ok t"
proof -
  have "link_ok (map g (kq_items s)) (g x)" if "x \<in> set (kq_items s)" for x
    using link_ok_map [of "kq_items s" x g "g x" "[]"] ok that g unfolding items_ok_def append_Nil2 by blast
  then show ?thesis
    using ok unfolding items_ok_def t by (simp add: g comp_def)
qed

lemma set_item_items_ok:
  assumes "items_ok s" "\<And>x. kw_id (f x) = kw_id x" "\<And>x. kw_project (f x) = kw_project x"
    "\<And>x. kw_channel (f x) = kw_channel x" "\<And>x. kw_superseded (f x) = kw_superseded x"
    and "kq_items t = set_item k f (kq_items s)" "kq_next_item t = kq_next_item s"
  shows "items_ok t"
  using assms(1) by (rule map_items_ok [where g = "\<lambda>x. if kw_id x = k then f x else x"]) (simp_all add: assms(2-) set_item_def)

lemma same_items_ok:
  "items_ok s \<Longrightarrow> kq_items t = kq_items s \<Longrightarrow> kq_next_item s \<le> kq_next_item t \<Longrightarrow> items_ok t"
  by (force simp: items_ok_def)

lemma move_items_ok: "kb_move s t \<Longrightarrow> items_ok s \<Longrightarrow> items_ok t"
proof (induction rule: kb_move.induct)
  case (promoted s c k x now u v d rows)
  show ?case
    by (rule superseding_items_ok [OF promoted.prems promoted.hyps(5,3)]) (simp_all add: promoted.hyps(4))
next
  case (voted_up k s f)
  show ?case by (rule set_item_items_ok [OF voted_up.prems, where f = "\<lambda>x. x\<lparr>kw_rank := kw_rank x + 1\<rparr>" and k = k]) simp_all
next
  case (voted_down k s f)
  show ?case by (rule set_item_items_ok [OF voted_down.prems, where f = "\<lambda>x. x\<lparr>kw_flags := kw_flags x + 1\<rparr>" and k = k]) simp_all
qed (erule same_items_ok, simp, simp)+

interpretation kb_items: machine kb_step items_ok
  by (rule machine_of_moves) (rule move_items_ok)

lemma empty_items_ok: "items_ok (empty_kb ps ms)"
  by (simp add: items_ok_def empty_kb_def)

definition superseded_by :: "kb_state \<Rightarrow> knowledge \<Rightarrow> knowledge \<Rightarrow> bool" where
  "superseded_by s x y \<longleftrightarrow> y \<in> set (kq_items s) \<and> kw_superseded x = Some (kw_id y) \<and> kw_project y = kw_project x"

lemma chain_ends:
  assumes ok: "items_ok s" and x: "x \<in> set (kq_items s)"
  shows "\<exists>y \<in> set (kq_items s). (superseded_by s)\<^sup>*\<^sup>* x y \<and> kw_superseded y = None \<and> kw_project y = kw_project x"
  using x
proof (induction "nat (kq_next_item s - kw_id x)" arbitrary: x rule: less_induct)
  case less
  show ?case
  proof (cases "kw_superseded x")
    case None
    then show ?thesis using less.prems by auto
  next
    case (Some k)
    then obtain y where y: "y \<in> set (kq_items s)" "kw_id y = k" "kw_project y = kw_project x" "kw_id x < k"
      using ok less.prems by (auto simp: items_ok_def link_ok_def)
    then have "kw_id y < kq_next_item s" using ok unfolding items_ok_def by blast
    then have "nat (kq_next_item s - kw_id y) < nat (kq_next_item s - kw_id x)" using y by simp
    then obtain z where z: "z \<in> set (kq_items s)" "(superseded_by s)\<^sup>*\<^sup>* y z" "kw_superseded z = None" "kw_project z = kw_project y"
      using less.hyps y(1) by blast
    have "superseded_by s x y" using y Some by (simp add: superseded_by_def)
    then have "(superseded_by s)\<^sup>*\<^sup>* x z" using z(2) by (rule converse_rtranclp_into_rtranclp)
    then show ?thesis using z y by auto
  qed
qed

text \<open>
  C28. Superseding is well founded: after any operations, the chain of superseding rows from any row of the knowledge base ends in
  a row that is current, of the same project; no row is ever lost to a cycle.
\<close>

theorem superseded_leads_to_current:
  "\<forall>x \<in> set (kq_items (fold kb_step ops (empty_kb projects members))).
     \<exists>y \<in> set (kq_items (fold kb_step ops (empty_kb projects members))).
       (superseded_by (fold kb_step ops (empty_kb projects members)))\<^sup>*\<^sup>* x y
       \<and> kw_superseded y = None \<and> kw_project y = kw_project x"
  using chain_ends [OF kb_items.run_inv [OF empty_items_ok]] by blast

section \<open>Votes\<close>

definition votes :: "kb_state \<Rightarrow> string \<Rightarrow> int \<Rightarrow> nat" where
  "votes s kind k = length (filter (\<lambda>f. kf_kind f = kind \<and> kf_knowledge f = k) (kq_feedback s))"

definition votes_ok :: "kb_state \<Rightarrow> bool" where
  "votes_ok s \<longleftrightarrow>
     items_ok s \<and> (\<forall>f \<in> set (kq_feedback s). kf_knowledge f \<in> kw_id ` set (kq_items s))
     \<and> (\<forall>x \<in> set (kq_items s). kw_flags x = int (votes s ''down'' (kw_id x)) \<and> kw_rank x = real (votes s ''up'' (kw_id x)))"

lemma votes_snoc:
  "votes (t\<lparr>kq_feedback := fs @ [f]\<rparr>) kind k =
     length (filter (\<lambda>f. kf_kind f = kind \<and> kf_knowledge f = k) fs) + of_bool (kf_kind f = kind \<and> kf_knowledge f = k)"
  by (simp add: votes_def)

lemma no_votes_yet: "votes_ok s \<Longrightarrow> k \<notin> kw_id ` set (kq_items s) \<Longrightarrow> votes s kind k = 0"
  by (auto simp: votes_ok_def votes_def filter_empty_conv)

lemma same_votes_ok:
  "votes_ok s \<Longrightarrow> kq_items t = kq_items s \<Longrightarrow> kq_next_item s \<le> kq_next_item t \<Longrightarrow> kq_feedback t = kq_feedback s \<Longrightarrow> votes_ok t"
  using same_items_ok [of s t] by (simp add: votes_ok_def votes_def)

lemma set_item_member: "x \<in> set (set_item k f xs) \<longleftrightarrow> (\<exists>y \<in> set xs. x = (if kw_id y = k then f y else y))"
  by (simp only: set_item_def set_map image_iff)

lemma voted_votes_ok:
  assumes ok: "votes_ok s" and t: "items_ok t" "kq_items t = set_item k g (kq_items s)" "kq_feedback t = kq_feedback s @ [f]"
    and f: "kf_knowledge f = k" "k \<in> kw_id ` set (kq_items s)" and g: "\<And>x. kw_id (g x) = kw_id x"
      "\<And>x. kw_flags (g x) = kw_flags x + of_bool (kf_kind f = ''down'')"
      "\<And>x. kw_rank (g x) = kw_rank x + of_bool (kf_kind f = ''up'')"
  shows "votes_ok t"
proof -
  have v: "votes t kind e = votes s kind e + of_bool (kf_kind f = kind \<and> e = k)" for kind e
    using f(1) by (auto simp: votes_def t(3))
  have ids: "kw_id ` set (kq_items t) = kw_id ` set (kq_items s)" unfolding t(2) by (rule ids_set_item) (rule g)
  have "kw_flags x = int (votes t ''down'' (kw_id x)) \<and> kw_rank x = real (votes t ''up'' (kw_id x))"
    if x: "x \<in> set (kq_items t)" for x
  proof -
    obtain y where y: "y \<in> set (kq_items s)" "x = (if kw_id y = k then g y else y)" using x unfolding t(2) set_item_member by blast
    then have "kw_flags y = int (votes s ''down'' (kw_id y))" "kw_rank y = real (votes s ''up'' (kw_id y))"
      using ok by (simp_all add: votes_ok_def)
    then show ?thesis unfolding v y(2) using g by simp
  qed
  moreover have "\<forall>e \<in> set (kq_feedback t). kf_knowledge e \<in> kw_id ` set (kq_items t)"
    using ok f unfolding votes_ok_def ids t(3) by simp
  ultimately show ?thesis using t(1) unfolding votes_ok_def by blast
qed

lemma move_votes_ok:
  assumes "kb_move s t" "votes_ok s"
  shows "votes_ok t"
proof -
  have items: "items_ok t" using move_items_ok [OF assms(1)] assms(2) by (simp add: votes_ok_def)
  show ?thesis
    using assms items
  proof (induction rule: kb_move.induct)
    case (promoted s c k x now u v d rows)
    let ?t = "s\<lparr>kq_next_item := k + 1, kq_items := superseding k d (kq_items s @ [x]), kq_sources := kq_sources s @ rows,
      kq_candidates := set_candidate (cd_id c) (\<lambda>y. y\<lparr>cd_status := ''approved'', cd_reviewer := Some u, cd_reviewed := Some now\<rparr>)
        (kq_candidates s), kq_audit := kq_audit s @ [promote_audit u c k d]\<rparr>"
    have "k \<notin> kw_id ` set (kq_items s)" using promoted by (auto simp: votes_ok_def items_ok_def)
    then have none: "votes s kind k = 0" for kind by (rule no_votes_yet [OF promoted.prems(1)])
    have v: "votes ?t kind e = votes s kind e" for kind e by (simp add: votes_def)
    have "kw_flags z = int (votes s ''down'' (kw_id z)) \<and> kw_rank z = real (votes s ''up'' (kw_id z))"
      if "z \<in> set (kq_items ?t)" for z
      using that promoted.prems(1) promoted.hyps(4) none by (auto simp: votes_ok_def superseding_with_link)
    moreover have "kf_knowledge f \<in> kw_id ` set (kq_items ?t)" if "f \<in> set (kq_feedback s)" for f
    proof -
      have "kw_id ` set (kq_items ?t) = insert k (kw_id ` set (kq_items s))"
        by (auto simp: superseding_with_link promoted.hyps(4) image_iff)
      then show ?thesis using that promoted.prems(1) by (simp add: votes_ok_def)
    qed
    ultimately show ?case using promoted.prems(2) unfolding votes_ok_def v by simp
  next
    case (voted_up k s f)
    show ?case
      by (rule voted_votes_ok [OF voted_up.prems(1,2), where k = k and g = "\<lambda>x. x\<lparr>kw_rank := kw_rank x + 1\<rparr>" and f = f])
        (simp_all add: voted_up.hyps)
  next
    case (voted_down k s f)
    show ?case
      by (rule voted_votes_ok [OF voted_down.prems(1,2), where k = k and g = "\<lambda>x. x\<lparr>kw_flags := kw_flags x + 1\<rparr>" and f = f])
        (simp_all add: voted_down.hyps)
  next
    case (bookmarked f s)
    then show ?case by (auto simp: votes_ok_def votes_def)
  qed (erule same_votes_ok, simp, simp, simp)+
qed

interpretation kb_votes: machine kb_step votes_ok
  by (rule machine_of_moves) (rule move_votes_ok)

lemma empty_votes_ok: "votes_ok (empty_kb ps ms)"
  using empty_items_ok [of ps ms] by (simp add: votes_ok_def empty_kb_def)

text \<open>
  The counters tell the votes: after any operations, the flags of a row are the down votes recorded for it and its weight the
  up votes, and no feedback refers to a row that does not exist.
\<close>

theorem votes_counted:
  "votes_ok (fold kb_step ops (empty_kb projects members))"
  by (rule kb_votes.run_inv) (rule empty_votes_ok)

section \<open>A pause is never lifted\<close>

lemma move_stays_paused: "kb_move s t \<Longrightarrow> is_extraction_paused s p \<Longrightarrow> is_extraction_paused t p"
  by (induction rule: kb_move.induct) (auto simp: is_extraction_paused_def)

interpretation kb_paused: machine kb_step "\<lambda>s. is_extraction_paused s p" for p
  by (rule machine_of_moves) (rule move_stays_paused)

lemma paused_thread_enqueues_nothing:
  assumes "is_extraction_paused s q" "te_uuid env p = Inr q"
  shows "process_thread_resolved env now ch ts p s =
    (Inr (if te_ready env then Skipped ''extraction paused for project'' else Trigger_error ''db or slack unavailable''), s)"
  using assms by (simp add: process_thread_resolved_def run_defs)

text \<open>
  Extraction does not come back: once the digest has paused a project, every later thread of the project is skipped, whatever
  was approved or rejected in between; no operation lifts the pause, so a short backlog does not help.
\<close>

theorem pause_never_lifted:
  assumes "is_extraction_paused s q" "te_uuid env p = Inr q" "te_ready env"
  shows "process_thread_resolved env now ch ts p (fold kb_step ops s) =
    (Inr (Skipped ''extraction paused for project''), fold kb_step ops s)"
  using paused_thread_enqueues_nothing [OF kb_paused.run_inv [OF assms(1)] assms(2)] assms(3) by simp

definition paused_example :: kb_state where
  "paused_example = (empty_kb [''p''] [])\<lparr>kq_pauses := [(''p'', \<lparr>kp_paused = True, kp_reason = ''backlog 501 > 500'', kp_at = 0\<rparr>)]\<rparr>"

definition trigger_example :: trigger_env where
  "trigger_example = \<lparr>te_ready = True, te_uuid = Inr, te_thread = (\<lambda>_ _. Inr []), te_extractor = default_extractor, te_notes = []\<rparr>"

theorem pause_never_lifted_witness:
  "process_thread_resolved trigger_example 9 ''c'' ''1.0'' ''p'' (fold kb_step [] paused_example) =
    (Inr (Skipped ''extraction paused for project''), paused_example)"
  using pause_never_lifted [of paused_example "''p''" trigger_example "''p''" 9 "''c''" "''1.0''" "[]"]
  by (simp add: paused_example_def trigger_example_def is_extraction_paused_def)

section \<open>Defects\<close>

text \<open>The module's own \<open>_embed_text\<close> raises; nothing in the program replaces it outside of the test facades.\<close>

definition unwired :: "review_env \<Rightarrow> review_env" where
  "unwired env = env\<lparr>rv_embed := (\<lambda>_. Inl (OtherError ''NotImplementedError'' ''_embed_text must be wired in production''))\<rparr>"

lemma unwired_approval_fails:
  "\<exists>e. approve (unwired env) now c u s = (Inl e, s)"
  by (auto simp: approve_def candidate_for_approval_def promote_def unwired_def transaction_def run_defs split: option.splits)

text \<open>The extractor of the triggers cannot be built: no thread that is resolved, and no nightly sweep, enqueues anything.\<close>

lemma default_extractor_enqueues_nothing:
  "te_extractor env = default_extractor \<Longrightarrow>
     snd (process_thread_resolved env now ch ts p s) = s \<and> snd (run_personal_nightly env now s) = s"
  by (auto simp: process_thread_resolved_def run_personal_nightly_def default_extractor_def run_defs split: sum.splits)

definition plain_text :: extracted where
  "plain_text = \<lparr>ec_title = ''t'', ec_body = ''b'', ec_category = ''howto'', ec_confidence = Some 1, ec_sources = [],
     ec_user = None, ec_project = ''p'', ec_sensitive = False\<rparr>"

definition some_embedding :: review_env where
  "some_embedding = \<lparr>rv_embed = (\<lambda>_. Inr [1]), rv_dist = (\<lambda>_ _. 1), rv_dm = (\<lambda>_. Inl (OtherError ''SlackApiError'' ''down''))\<rparr>"

lemmas kb_run = empty_kb_def enqueue_def approve_def needs_edit_def insert_candidate_def project_known_def audit_def run_defs
  transaction_def candidate_for_approval_def existing_candidate_def find_candidate_def promote_def opt_str_def insert_promoted_def
  not_null_def insert_item_def nearest_duplicate_def near_duplicates_def supersede_def update_candidate_def thank_author_def Let_def

text \<open>One click on the button for a reason empties the body of an approved candidate and opens it again; the next approval publishes it.\<close>

lemma approved_again_with_empty_body:
  "map (\<lambda>x. (kw_id x, kw_body x)) (kq_items (fold kb_step [Enqueue 0 plain_text, Approve some_embedding 1 1 ''lead'',
      Needs_edit 2 1 ''other'' [], Approve some_embedding 3 1 ''lead''] (empty_kb [''p''] []))) = [(1, ''b''), (2, [])]"
  by (simp add: kb_run plain_text_def some_embedding_def similarity_threshold_def)

text \<open>Text judged sensitive is approved as it stands.\<close>

lemma sensitive_text_approved:
  "map (\<lambda>x. (kw_body x, kw_category x)) (kq_items (fold kb_step
      [Enqueue 0 (plain_text\<lparr>ec_sensitive := True, ec_category := ''sensitive_blocked''\<rparr>), Approve some_embedding 1 1 ''lead'']
      (empty_kb [''p''] []))) = [(''b'', ''sensitive_blocked'')]"
  by (simp add: kb_run plain_text_def some_embedding_def)

section \<open>A chain of two rows\<close>

definition same_embedding :: review_env where
  "same_embedding = some_embedding\<lparr>rv_dist := (\<lambda>_ _. 0)\<rparr>"

definition chain_ops :: "kb_op list" where
  "chain_ops = [Enqueue 0 plain_text, Approve same_embedding 1 1 ''lead'', Enqueue 2 plain_text, Approve same_embedding 3 2 ''lead'']"

lemma chain_rows:
  "map (\<lambda>x. (kw_id x, kw_superseded x)) (kq_items (fold kb_step chain_ops (empty_kb [''p''] []))) = [(1, Some 2), (2, None)]"
  by (simp add: kb_run chain_ops_def plain_text_def same_embedding_def some_embedding_def similarity_threshold_def row_distance_def
      update_row_def find_item_def)

theorem superseded_leads_to_current_witness:
  "let s = fold kb_step chain_ops (empty_kb [''p''] []) in
   \<exists>x \<in> set (kq_items s). kw_superseded x = Some 2
     \<and> (\<exists>y \<in> set (kq_items s). (superseded_by s)\<^sup>*\<^sup>* x y \<and> kw_superseded y = None \<and> kw_project y = kw_project x)"
proof -
  let ?s = "fold kb_step chain_ops (empty_kb [''p''] [])"
  have "(1, Some 2) \<in> set (map (\<lambda>x. (kw_id x, kw_superseded x)) (kq_items ?s))" unfolding chain_rows by simp
  then obtain x where "x \<in> set (kq_items ?s)" "kw_superseded x = Some 2" by auto
  with superseded_leads_to_current [of chain_ops "[''p'']" "[]"] show ?thesis unfolding Let_def by blast
qed

end
