(* ===== verification/Kb_Search.thy ===== *)
theory Kb_Search
  imports Kb_Chains Acl
begin

text \<open>
  Finding knowledge: the hybrid search of \<open>kb/retriever.py\<close>. The embedding of the query, the distance of vectors, and the match and rank
  of full-text search belong to the database and are arguments; the access rules are those of \<open>Acl\<close>.
\<close>

section \<open>Definitions\<close>

record kb_hit =
  ht_id :: int
  ht_title :: string
  ht_body :: string
  ht_score :: real
  ht_sources :: "kb_source list"

text \<open>\<open>sv_filter\<close> is what \<open>acl.filter_knowledge(user, project, ids)\<close> does, \<open>sv_read\<close> is \<open>acl.can_read_channel\<close>.\<close>

record search_env =
  sv_encode :: "string \<Rightarrow> kb_vec option"
  sv_dist :: "kb_vec \<Rightarrow> kb_vec \<Rightarrow> real"
  sv_match :: "string \<Rightarrow> knowledge \<Rightarrow> bool"
  sv_rank :: "string \<Rightarrow> knowledge \<Rightarrow> real"
  sv_filter :: "string \<Rightarrow> string \<Rightarrow> int list \<Rightarrow> exn + int set"
  sv_read :: "string \<Rightarrow> string \<Rightarrow> bool"

definition current_row :: "string \<Rightarrow> knowledge \<Rightarrow> bool" where
  "current_row p x \<longleftrightarrow> kw_project x = Some p \<and> kw_superseded x = None"

definition vector_search :: "search_env \<Rightarrow> kb_state \<Rightarrow> string \<Rightarrow> string \<Rightarrow> nat \<Rightarrow> int list" where
  "vector_search env s q p limit =
     (case sv_encode env q of
        None \<Rightarrow> []
      | Some v \<Rightarrow> map kw_id (take limit (sort_key (\<lambda>x. sv_dist env (the (kw_embedding x)) v)
          (filter (\<lambda>x. current_row p x \<and> kw_embedding x \<noteq> None) (kq_items s)))))"

definition fts_search :: "search_env \<Rightarrow> kb_state \<Rightarrow> string \<Rightarrow> string \<Rightarrow> nat \<Rightarrow> int list" where
  "fts_search env s q p limit =
     map kw_id (take limit (sort_key (\<lambda>x. - sv_rank env q x) (filter (\<lambda>x. current_row p x \<and> sv_match env q x) (kq_items s))))"

definition rrf_k :: nat where "rrf_k = 60"
definition search_limit :: nat where "search_limit = 20"

definition rank_share :: "nat \<Rightarrow> real" where "rank_share r = 1 / real (rrf_k + r)"

fun add_ranks :: "nat \<Rightarrow> int list \<Rightarrow> (int, real) dict \<Rightarrow> (int, real) dict" where
  "add_ranks r [] d = d"
| "add_ranks r (k # ks) d = add_ranks (Suc r) ks (dset k (dget_or d k 0 + rank_share r) d)"

definition rrf_fuse :: "int list \<Rightarrow> int list \<Rightarrow> (int \<times> real) list" where
  "rrf_fuse vs fs = sort_key (\<lambda>(k, x). - x) (add_ranks 1 fs (add_ranks 1 vs []))"

definition sql_acl_filter :: "search_env \<Rightarrow> kb_state \<Rightarrow> string \<Rightarrow> string \<Rightarrow> int list \<Rightarrow> int set" where
  "sql_acl_filter env s user p ids =
     (if ids = [] then {}
      else kw_id ` set (filter (\<lambda>x. kw_id x \<in> set ids \<and> kw_project x = Some p
        \<and> (case kw_channel x of None \<Rightarrow> True | Some ch \<Rightarrow> sv_read env user ch)) (kq_items s)))"

definition sources_of :: "kb_state \<Rightarrow> int \<Rightarrow> kb_source list" where
  "sources_of s k = map snd (filter (\<lambda>(i, _). i = k) (kq_sources s))"

definition load_hits :: "kb_state \<Rightarrow> (int \<times> real) list \<Rightarrow> kb_hit list" where
  "load_hits s ranked = concat (map (\<lambda>(k, x).
     case find_item s k of
       None \<Rightarrow> []
     | Some r \<Rightarrow> [\<lparr>ht_id = k, ht_title = kw_title r, ht_body = kw_body r, ht_score = x, ht_sources = sources_of s k\<rparr>]) ranked)"

definition fused_hits :: "search_env \<Rightarrow> kb_state \<Rightarrow> string \<Rightarrow> string \<Rightarrow> (int \<times> real) list" where
  "fused_hits env s q p = rrf_fuse (vector_search env s q p search_limit) (fts_search env s q p search_limit)"

text \<open>The second filter gets the set that the first one leaves, as a list; \<open>sorted_list_of_set\<close> gives it an order.\<close>

definition search :: "search_env \<Rightarrow> kb_state \<Rightarrow> string \<Rightarrow> string \<Rightarrow> string \<Rightarrow> nat \<Rightarrow> exn + kb_hit list" where
  "search env s q user p top_k =
     (let fused = fused_hits env s q p in
      if fused = [] then Inr []
      else bind_res (sv_filter env user p (sorted_list_of_set (sql_acl_filter env s user p (map fst fused)))) (\<lambda>ok.
        let ranked = take top_k (filter (\<lambda>(k, x). k \<in> ok) fused) in
        Inr (if ranked = [] then [] else load_hits s ranked)))"

text \<open>
  \<open>ACLResolver.filter_knowledge\<close> takes two arguments, the search passes three. \<open>resolver_env\<close> is a search with the resolver as it is,
  \<open>two_filters\<close> one where the second call has the arguments the resolver expects.
\<close>

definition resolver_env :: "search_env \<Rightarrow> member_cache \<Rightarrow> slack \<Rightarrow> search_env" where
  "resolver_env env cache slack = env\<lparr>
     sv_filter := (\<lambda>u p ids. Inl (TypeError ''ACLResolver.filter_knowledge() takes 3 positional arguments but 4 were given'')),
     sv_read := can_read_channel cache slack\<rparr>"

definition acl_view :: "kb_state \<Rightarrow> kb_db" where
  "acl_view s =
     \<lparr>kb_project_members = map (\<lambda>(p, u, _). (p, u)) (kq_members s),
      kb_knowledge = map (\<lambda>x. \<lparr>kn_id = kw_id x, kn_project = the (kw_project x), kn_source_channel = kw_channel x\<rparr>)
        (filter (\<lambda>x. kw_project x \<noteq> None) (kq_items s))\<rparr>"

definition two_filters :: "search_env \<Rightarrow> member_cache \<Rightarrow> slack \<Rightarrow> kb_state \<Rightarrow> search_env" where
  "two_filters env cache slack s = env\<lparr>
     sv_filter := (\<lambda>u p ids. Inr (filter_knowledge cache slack (acl_view s) u ids)),
     sv_read := can_read_channel cache slack\<rparr>"

section \<open>Fusion\<close>

text \<open>Every rank adds at most one part in sixty-one.\<close>

lemma add_ranks_other: "k \<notin> set ks \<Longrightarrow> dget (add_ranks r ks d) k = dget d k"
  by (induction ks arbitrary: r d) auto

lemma add_ranks_value:
  "distinct ks \<Longrightarrow> k \<in> set ks \<Longrightarrow> \<exists>i < length ks. dget (add_ranks r ks d) k = Some (dget_or d k 0 + rank_share (r + i))"
proof (induction ks arbitrary: r d)
  case (Cons j ks)
  show ?case
  proof (cases "k = j")
    case True
    then show ?thesis using Cons.prems by (auto simp: add_ranks_other intro!: exI [where x = 0])
  next
    case False
    then obtain i where "i < length ks"
      "dget (add_ranks (Suc r) ks (dset j (dget_or d j 0 + rank_share r) d)) k
         = Some (dget_or (dset j (dget_or d j 0 + rank_share r) d) k 0 + rank_share (Suc r + i))"
      using Cons.IH [of "Suc r" "dset j (dget_or d j 0 + rank_share r) d"] Cons.prems by auto
    then show ?thesis using False by (auto intro!: exI [where x = "Suc i"])
  qed
qed simp

lemma add_ranks_keys:
  "set (dkeys (add_ranks r ks d)) = set ks \<union> set (dkeys d)"
  "distinct (dkeys d) \<Longrightarrow> distinct (dkeys (add_ranks r ks d))"
  by (induction ks arbitrary: r d) (auto simp del: set_map simp: set_dkeys_dset distinct_dkeys_dset)

lemma rank_bound: "1 \<le> r \<Longrightarrow> 0 < rank_share r \<and> rank_share r \<le> 1 / 61"
  by (simp add: rank_share_def rrf_k_def field_simps)

lemma set_rrf_fuse: "set (rrf_fuse vs fs) = set (add_ranks 1 fs (add_ranks 1 vs []))"
  by (simp add: rrf_fuse_def)

lemma rrf_fuse_keys: "set (map fst (rrf_fuse vs fs)) = set vs \<union> set fs"
  using add_ranks_keys(1) [of 1 fs "add_ranks 1 vs []"] add_ranks_keys(1) [of 1 vs "[]"]
  by (simp only: set_map set_rrf_fuse) auto

lemma rrf_fuse_distinct: "distinct (map fst (rrf_fuse vs fs))"
proof -
  have "distinct (dkeys (add_ranks 1 fs (add_ranks 1 vs [])))" by (intro add_ranks_keys) simp
  then have "distinct (add_ranks 1 fs (add_ranks 1 vs []))" "inj_on fst (set (add_ranks 1 fs (add_ranks 1 vs [])))"
    by (simp_all add: distinct_map)
  then show ?thesis by (simp add: distinct_map rrf_fuse_def)
qed

lemma rrf_fuse_score:
  assumes "distinct vs" "distinct fs" "(k, x) \<in> set (rrf_fuse vs fs)"
  shows "0 < x \<and> x \<le> 2 / 61"
proof -
  let ?d = "add_ranks 1 vs []" let ?e = "add_ranks 1 fs ?d"
  have dist: "distinct (dkeys ?e)" by (intro add_ranks_keys) simp
  then have x: "dget ?e k = Some x" using assms(3) by (simp add: set_rrf_fuse)
  have d: "k \<in> set vs \<Longrightarrow> \<exists>i. dget ?d k = Some (rank_share (1 + i))" "k \<notin> set vs \<Longrightarrow> dget ?d k = None"
    using add_ranks_value [OF assms(1), of k 1 "[]"] add_ranks_other [of k vs 1 "[]"] by (auto simp: dget_or_def)
  have b: "0 < rank_share (1 + i) \<and> rank_share (1 + i) \<le> 1 / 61" for i by (rule rank_bound) simp
  have v: "0 \<le> dget_or ?d k 0 \<and> dget_or ?d k 0 \<le> 1 / 61"
  proof (cases "k \<in> set vs")
    case True
    then obtain i where "dget_or ?d k 0 = rank_share (1 + i)" using d(1) by (auto simp: dget_or_def)
    then show ?thesis using b [of i] by linarith
  next
    case False
    then show ?thesis using d(2) by (simp add: dget_or_def)
  qed
  show ?thesis
  proof (cases "k \<in> set fs")
    case True
    then obtain i where "x = dget_or ?d k 0 + rank_share (1 + i)" using add_ranks_value [OF assms(2) True, of 1 ?d] x by auto
    then show ?thesis using v b [of i] by linarith
  next
    case False
    then have "dget ?d k = Some x" using x by (simp add: add_ranks_other)
    then obtain i where "x = rank_share (1 + i)" using d by (cases "k \<in> set vs") auto
    then show ?thesis using b [of i] by linarith
  qed
qed

lemma vector_search_rows:
  assumes "items_ok s"
  shows "distinct (vector_search env s q p n)"
    "k \<in> set (vector_search env s q p n) \<Longrightarrow> \<exists>x \<in> set (kq_items s). kw_id x = k \<and> current_row p x"
proof -
  have "distinct (kq_items s)" "inj_on kw_id (set (kq_items s))" using assms by (simp_all add: items_ok_def distinct_map)
  then show "distinct (vector_search env s q p n)"
    by (auto simp: vector_search_def distinct_map dest!: in_set_takeD split: option.splits intro: inj_on_subset)
  assume "k \<in> set (vector_search env s q p n)"
  then show "\<exists>x \<in> set (kq_items s). kw_id x = k \<and> current_row p x"
    by (auto simp: vector_search_def dest!: in_set_takeD split: option.splits)
qed

lemma fts_search_rows:
  assumes "items_ok s"
  shows "distinct (fts_search env s q p n)"
    "k \<in> set (fts_search env s q p n) \<Longrightarrow> \<exists>x \<in> set (kq_items s). kw_id x = k \<and> current_row p x"
proof -
  have "distinct (kq_items s)" "inj_on kw_id (set (kq_items s))" using assms by (simp_all add: items_ok_def distinct_map)
  then show "distinct (fts_search env s q p n)"
    by (auto simp: fts_search_def distinct_map dest!: in_set_takeD intro: inj_on_subset)
  assume "k \<in> set (fts_search env s q p n)"
  then show "\<exists>x \<in> set (kq_items s). kw_id x = k \<and> current_row p x"
    by (auto simp: fts_search_def dest!: in_set_takeD)
qed

lemma fused_hits_facts:
  assumes "items_ok s" "(k, x) \<in> set (fused_hits env s q p)"
  shows "0 < x \<and> x \<le> 2 / 61" "\<exists>r \<in> set (kq_items s). kw_id r = k \<and> current_row p r"
proof -
  show "0 < x \<and> x \<le> 2 / 61"
    using assms rrf_fuse_score vector_search_rows(1) fts_search_rows(1) unfolding fused_hits_def by blast
  have "k \<in> set (map fst (fused_hits env s q p))" using assms(2) by force
  then show "\<exists>r \<in> set (kq_items s). kw_id r = k \<and> current_row p r"
    using vector_search_rows(2) [OF assms(1)] fts_search_rows(2) [OF assms(1)] unfolding fused_hits_def rrf_fuse_keys by blast
qed

section \<open>What a search returns\<close>

text \<open>\<open>hit_of\<close>: the hit is a current row of the project, with its sources, that both filters let through.\<close>

definition hit_of :: "search_env \<Rightarrow> kb_state \<Rightarrow> string \<Rightarrow> string \<Rightarrow> kb_hit \<Rightarrow> bool" where
  "hit_of env s user p h \<longleftrightarrow>
     (\<exists>x \<in> set (kq_items s). kw_id x = ht_id h \<and> current_row p x
        \<and> (kw_channel x = None \<or> (\<exists>ch. kw_channel x = Some ch \<and> sv_read env user ch))
        \<and> ht_title h = kw_title x \<and> ht_body h = kw_body x \<and> ht_sources h = sources_of s (kw_id x))
     \<and> ht_score h \<le> 2 / 61"

lemma find_item_row:
  assumes "items_ok s" "x \<in> set (kq_items s)"
  shows "find_item s (kw_id x) = Some x"
proof (cases "find_item s (kw_id x)")
  case None
  then show ?thesis using assms(2) by (auto simp: find_item_def find_None_iff)
next
  case (Some y)
  then have "y \<in> set (kq_items s)" "kw_id y = kw_id x" by (auto simp: find_item_def find_Some_iff)
  then have "y = x" using assms by (metis eq_key_imp_eq_value items_ok_def distinct_map inj_on_def)
  then show ?thesis using Some by simp
qed

lemma search_cases:
  assumes "search env s q user p n = Inr hits"
  obtains "hits = []"
  | ok where "sv_filter env user p (sorted_list_of_set (sql_acl_filter env s user p (map fst (fused_hits env s q p)))) = Inr ok"
      "hits = load_hits s (take n (filter (\<lambda>(k, x). k \<in> ok) (fused_hits env s q p)))"
  using assms by (auto simp: search_def Let_def bind_res_eq_Inr split: if_splits)

text \<open>A filter of identifiers gives back no others.\<close>

definition filter_narrows :: "search_env \<Rightarrow> bool" where
  "filter_narrows env \<longleftrightarrow> (\<forall>u p ids ok. sv_filter env u p ids = Inr ok \<longrightarrow> ok \<subseteq> set ids)"

lemma sql_acl_row:
  assumes "items_ok s" "k \<in> sql_acl_filter env s user p ids" "x \<in> set (kq_items s)" "kw_id x = k"
  shows "kw_project x = Some p \<and> (kw_channel x = None \<or> (\<exists>ch. kw_channel x = Some ch \<and> sv_read env user ch))"
proof -
  obtain y where y: "y \<in> set (kq_items s)" "kw_id y = k" "kw_project y = Some p"
    "case kw_channel y of None \<Rightarrow> True | Some ch \<Rightarrow> sv_read env user ch"
    using assms(2) by (auto simp: sql_acl_filter_def split: if_splits)
  then have "y = x" using assms(1,3,4) by (metis eq_key_imp_eq_value items_ok_def distinct_map inj_on_def)
  then show ?thesis using y by (auto split: option.splits)
qed

lemma finite_sql_acl_filter [simp]: "finite (sql_acl_filter env s user p ids)"
  by (simp add: sql_acl_filter_def)

lemma load_hits_member:
  assumes "h \<in> set (load_hits s ranked)"
  shows "\<exists>k x r. (k, x) \<in> set ranked \<and> find_item s k = Some r
     \<and> h = \<lparr>ht_id = k, ht_title = kw_title r, ht_body = kw_body r, ht_score = x, ht_sources = sources_of s k\<rparr>"
proof -
  obtain k x where "(k, x) \<in> set ranked" "h \<in> set (case find_item s k of None \<Rightarrow> []
     | Some r \<Rightarrow> [\<lparr>ht_id = k, ht_title = kw_title r, ht_body = kw_body r, ht_score = x, ht_sources = sources_of s k\<rparr>])"
    using assms by (auto simp: load_hits_def)
  then show ?thesis by (cases "find_item s k") auto
qed

lemma search_hits:
  assumes ok: "items_ok s" and narrow: "filter_narrows env" and res: "search env s q user p n = Inr hits" and h: "h \<in> set hits"
  shows "hit_of env s user p h"
  using res
proof (cases rule: search_cases)
  case 1
  then show ?thesis using h by simp
next
  case (2 ids)
  then obtain k x r where kx: "(k, x) \<in> set (take n (filter (\<lambda>(k, x). k \<in> ids) (fused_hits env s q p)))"
    and r: "find_item s k = Some r"
    and h': "h = \<lparr>ht_id = k, ht_title = kw_title r, ht_body = kw_body r, ht_score = x, ht_sources = sources_of s k\<rparr>"
    using h load_hits_member by blast
  have mem: "k \<in> ids" "(k, x) \<in> set (fused_hits env s q p)" using kx by (auto dest: in_set_takeD)
  obtain row where row: "row \<in> set (kq_items s)" "kw_id row = k" "current_row p row" and score: "x \<le> 2 / 61"
    using fused_hits_facts [OF ok mem(2)] by blast
  have "r = row" using r find_item_row [OF ok row(1)] row(2) by simp
  moreover have "k \<in> sql_acl_filter env s user p (map fst (fused_hits env s q p))"
    using narrow 2(1) mem(1) unfolding filter_narrows_def by (metis finite_sql_acl_filter set_sorted_list_of_set subsetD)
  ultimately show ?thesis
    using sql_acl_row [OF ok _ row(1,2)] row score unfolding hit_of_def h' by force
qed

lemma length_load_hits: "length (load_hits s ranked) \<le> length ranked"
  by (induction ranked) (auto simp: load_hits_def split: option.splits)


definition open_search :: search_env where
  "open_search = \<lparr>sv_encode = (\<lambda>_. None), sv_dist = (\<lambda>_ _. 0), sv_match = (\<lambda>_ _. True), sv_rank = (\<lambda>_ _. 1),
     sv_filter = (\<lambda>_ _ ids. Inr (set ids)), sv_read = (\<lambda>_ _. False)\<rparr>"

definition private_thread :: extracted where
  "private_thread = \<lparr>ec_title = ''keys'', ec_body = ''rotate'', ec_category = ''howto'', ec_confidence = Some 1,
     ec_sources = [\<lparr>src_type = ''slack_msg'', src_uri = ''slack://thread/private/1'', src_ref = None\<rparr>], ec_user = None,
     ec_project = ''p'', ec_sensitive = False\<rparr>"

definition private_ops :: "kb_op list" where
  "private_ops = [Enqueue 0 private_thread, Approve some_embedding 1 1 ''lead'']"

definition private_row :: knowledge where
  "private_row = \<lparr>kw_id = 1, kw_project = Some ''p'', kw_title = ''keys'', kw_body = ''rotate'', kw_category = ''howto'',
     kw_channel = None, kw_from = Some ''knowledge_extractor'', kw_by = Some ''lead'', kw_at = Some 1, kw_embedding = Some [1],
     kw_superseded = None, kw_rank = 0, kw_flags = 0\<rparr>"

lemma private_kb_items: "kq_items (fold kb_step private_ops (empty_kb [''p''] [])) = [private_row]"
  by (simp add: kb_run private_ops_def private_thread_def some_embedding_def copy_source_def source_json_def text_param_def
      private_row_def)

lemma open_search_finds:
  "search open_search (fold kb_step private_ops (empty_kb [''p''] [])) ''q'' ''eve'' ''p'' 5 =
     Inr [\<lparr>ht_id = 1, ht_title = ''keys'', ht_body = ''rotate'', ht_score = rank_share 1,
       ht_sources = sources_of (fold kb_step private_ops (empty_kb [''p''] [])) 1\<rparr>]"
  by (simp add: search_def fused_hits_def vector_search_def fts_search_def open_search_def private_kb_items private_row_def
      current_row_def rrf_fuse_def dget_or_def sql_acl_filter_def load_hits_def find_item_def search_limit_def Let_def)


section \<open>What goes wrong\<close>

lemma acl_view_rows:
  "r \<in> set (kb_knowledge (acl_view s)) \<longleftrightarrow>
     (\<exists>x \<in> set (kq_items s). \<exists>p. kw_project x = Some p \<and> r = \<lparr>kn_id = kw_id x, kn_project = p, kn_source_channel = kw_channel x\<rparr>)"
  by (force simp: acl_view_def)

lemma acl_view_members: "(p, u) \<in> set (kb_project_members (acl_view s)) \<longleftrightarrow> (\<exists>role. (p, u, role) \<in> set (kq_members s))"
  by (force simp: acl_view_def)

text \<open>
  A channel's privacy ends at promotion: no promoted row has a channel, so for every row of the queue's making the access rule
  asks only for membership of the project. A thread of a private channel, once approved, is found by every member of the
  project, whatever Slack or the cache say of the channel's members.
\<close>

theorem promotion_drops_channel:
  "filter_knowledge cache slack (acl_view (fold kb_step ops (empty_kb projects members))) u ids =
     {kw_id x | x p role. x \<in> set (kq_items (fold kb_step ops (empty_kb projects members))) \<and> kw_id x \<in> set ids
        \<and> kw_project x = Some p \<and> (p, u, role) \<in> set (kq_members (fold kb_step ops (empty_kb projects members)))}"
  (is "?l = ?r")
proof -
  let ?s = "fold kb_step ops (empty_kb projects members)"
  have "kw_channel x = None" if "x \<in> set (kq_items ?s)" for x
    using kb_items.run_inv [OF empty_items_ok, of ops projects members] that by (simp add: items_ok_def)
  note none = this
  show ?thesis
  proof (intro equalityI subsetI)
    fix k assume "k \<in> ?l"
    then obtain r where r: "r \<in> set (kb_knowledge (acl_view ?s))" "kn_id r \<in> set ids"
      "(kn_project r, u) \<in> set (kb_project_members (acl_view ?s))" "k = kn_id r"
      unfolding filter_knowledge_exact by blast
    obtain x p where x: "x \<in> set (kq_items ?s)" "kw_project x = Some p"
      "r = \<lparr>kn_id = kw_id x, kn_project = p, kn_source_channel = kw_channel x\<rparr>"
      using r(1) unfolding acl_view_rows by blast
    obtain role where "(p, u, role) \<in> set (kq_members ?s)" using r(3) x(3) unfolding acl_view_members by auto
    moreover have "k = kw_id x" "kw_id x \<in> set ids" using r x(3) by simp_all
    ultimately show "k \<in> ?r" using x by blast
  next
    fix k assume "k \<in> ?r"
    then obtain x p role where x: "x \<in> set (kq_items ?s)" "kw_id x \<in> set ids" "kw_project x = Some p"
      "(p, u, role) \<in> set (kq_members ?s)" "k = kw_id x" by blast
    let ?r' = "\<lparr>kn_id = kw_id x, kn_project = p, kn_source_channel = kw_channel x\<rparr>"
    have "?r' \<in> set (kb_knowledge (acl_view ?s))" using x unfolding acl_view_rows by blast
    moreover have "(kn_project ?r', u) \<in> set (kb_project_members (acl_view ?s))" using x unfolding acl_view_members by auto
    ultimately have "kn_id ?r' \<in> ?l" unfolding filter_knowledge_exact using x(2) none [OF x(1)] by force
    then show "k \<in> ?l" using x(5) by simp
  qed
qed

text \<open>
  With the access rules as they are, no query is answered: the search passes the resolver one argument too many, so it raises
  for every user and query for which the two searches find anything at all.
\<close>

theorem search_with_resolver_raises:
  assumes "fused_hits (resolver_env env cache slack) s q p \<noteq> []"
  shows "search (resolver_env env cache slack) s q user p n =
    Inl (TypeError ''ACLResolver.filter_knowledge() takes 3 positional arguments but 4 were given'')"
  using assms by (simp add: search_def Let_def resolver_env_def)

theorem search_with_resolver_raises_witness:
  "search (resolver_env open_search None (\<lambda>_. Inr [])) (fold kb_step private_ops (empty_kb [''p''] [])) ''q'' ''eve'' ''p'' 5 =
    Inl (TypeError ''ACLResolver.filter_knowledge() takes 3 positional arguments but 4 were given'')"
proof (rule search_with_resolver_raises)
  show "fused_hits (resolver_env open_search None (\<lambda>_. Inr [])) (fold kb_step private_ops (empty_kb [''p''] [])) ''q'' ''p'' \<noteq> []"
    by (simp add: fused_hits_def fts_search_def vector_search_def resolver_env_def open_search_def private_kb_items private_row_def
        current_row_def rrf_fuse_def search_limit_def)
qed

end
