(* ===== verification/Kb_Query.thy ===== *)
theory Kb_Query
  imports Kb_Search
begin

text \<open>
  Answering a question from the knowledge base: \<open>kb/query_pipeline.py\<close> with \<open>kb/citation.py\<close>, \<open>kb/self_review.py\<close>, \<open>kb/quota.py\<close>,
  \<open>kb/query_cache.py\<close> and \<open>kb/sensitive.py\<close>. The language model, the redactor and SHA-256 are arguments. The texts of the replies
  are in Korean in the source; a reply is a value of a datatype with what goes into the text.
\<close>

section \<open>Citations\<close>

text \<open>A match of \<open>\[#(\d+)\]\<close> at the start: the number and what follows.\<close>

definition cite_at :: "string \<Rightarrow> (int \<times> string) option" where
  "cite_at s =
     (if startswith s ''[#'' then
        let ds = takeWhile is_digit (drop 2 s); r = dropWhile is_digit (drop 2 s) in
        if ds \<noteq> [] \<and> startswith r '']'' then Some (digits_val ds, tl r) else None
      else None)"

lemma cite_at_shorter: "cite_at s = Some (n, r) \<Longrightarrow> length r < length s"
proof -
  assume "cite_at s = Some (n, r)"
  then have r: "r = tl (dropWhile is_digit (drop 2 s))" and x: "startswith (dropWhile is_digit (drop 2 s)) '']''"
    by (simp_all add: cite_at_def Let_def split: if_splits)
  from x have ne: "dropWhile is_digit (drop 2 s) \<noteq> []" by (cases "dropWhile is_digit (drop 2 s)") simp_all
  have "length (dropWhile is_digit (drop 2 s)) \<le> length s" using length_dropWhile_le [of is_digit "drop 2 s"] by simp
  then show ?thesis using r ne by (cases "dropWhile is_digit (drop 2 s)") auto
qed

function cited :: "string \<Rightarrow> int list" where
  "cited s =
     (case s of
        [] \<Rightarrow> []
      | c # cs \<Rightarrow> (case cite_at s of None \<Rightarrow> cited cs | Some (n, r) \<Rightarrow> n # cited r))"
  by pat_completeness auto
termination by (relation "measure length") (auto dest: cite_at_shorter)

declare cited.simps [simp del]

definition is_supported :: "string \<Rightarrow> int set \<Rightarrow> bool" where
  "is_supported t allowed \<longleftrightarrow> (if cited t = [] then False else set (cited t) \<subseteq> allowed)"

definition source_key :: "kb_source \<Rightarrow> string \<times> string" where
  "source_key x = (src_type x, src_uri x)"

text \<open>\<open>source_by_id\<close> is a dict over the hits: the last hit of a number counts.\<close>

definition sources_by_id :: "kb_hit list \<Rightarrow> int \<Rightarrow> kb_source list" where
  "sources_by_id hits k = (case dget (rev (map (\<lambda>h. (ht_id h, ht_sources h)) hits)) k of None \<Rightarrow> [] | Some xs \<Rightarrow> xs)"

definition add_source :: "kb_source \<Rightarrow> kb_source list \<Rightarrow> kb_source list" where
  "add_source x out = (if source_key x \<in> source_key ` set out then out else out @ [x])"

definition collect_sources :: "string \<Rightarrow> kb_hit list \<Rightarrow> kb_source list" where
  "collect_sources t hits = fold add_source (concat (map (sources_by_id hits) (cited t))) []"

section \<open>The pipeline's state and surroundings\<close>

datatype confidence = High | Medium | Low

record formatted =
  fm_body :: string
  fm_cites :: "(string \<times> string) list"
  fm_confidence :: confidence
  fm_answer :: string

text \<open>A line of a search-only reply: number, title, and address of the first source.\<close>

type_synonym hit_line = "int \<times> string \<times> string"

text \<open>What \<open>classify\<close> returns: \<open>None\<close>, a category, or, when it is a coroutine function that is not awaited, the coroutine.\<close>

datatype classified = Not_sensitive | Category string | Coroutine

datatype reply =
    Blocked classified
  | Cached formatted
  | Quota_exceeded "hit_line list"
  | Secret_found
  | Providers_failed "hit_line list"
  | Insufficient "hit_line list"
  | Answered formatted

text \<open>
  The cache maps a key to a value and the time it expires, the quota a user to the tokens used and the time the counter expires.
  \<open>qs_calls\<close> is the list of messages sent to the language model.
\<close>

record query_state =
  qs_cache :: "(string, formatted \<times> real) dict"
  qs_quota :: "(string, int \<times> real) dict"
  qs_calls :: "(string \<times> string) list"

type_synonym 'a query = "(query_state, 'a) prog"

record query_env =
  qe_classify :: "string \<Rightarrow> classified"
  qe_project :: "string \<Rightarrow> string \<Rightarrow> exn + string option"
  qe_search :: "string \<Rightarrow> string \<Rightarrow> string option \<Rightarrow> exn + kb_hit list"
  qe_redact :: "string \<Rightarrow> exn + (string \<times> string)"
  qe_abort :: "string \<Rightarrow> exn + unit"
  qe_restore :: "string \<Rightarrow> string \<Rightarrow> exn + string"
  qe_chat :: "string \<Rightarrow> string \<Rightarrow> exn + (string \<times> int)"
  qe_hash :: "string \<Rightarrow> string"
  qe_limit :: "int option"
  qe_answer_id :: string

text \<open>\<open>router.chat\<close>: the answer's text (empty for none) and the tokens used.\<close>

definition ask_router :: "query_env \<Rightarrow> string \<Rightarrow> string \<Rightarrow> (string \<times> int) query" where
  "ask_router env system user s = (qe_chat env system user, s\<lparr>qs_calls := qs_calls s @ [(system, user)]\<rparr>)"

definition snippet :: "nat \<Rightarrow> kb_hit \<Rightarrow> string" where
  "snippet n h = ''[#'' @ int_str (ht_id h) @ ''] '' @ ht_title h @ '': '' @ take n (ht_body h)"

definition snippets :: "nat \<Rightarrow> kb_hit list \<Rightarrow> string" where
  "snippets n hits = str_join nl (map (snippet n) hits)"

section \<open>Enforcing citations\<close>

definition regenerate_system :: string where
  "regenerate_system = ''You MUST cite every factual claim with [#<id>] referencing only the IDs listed below. Do NOT invent IDs. ''
     @ ''If a claim cannot be supported by any listed snippet, drop the claim.''"

definition regenerate_user :: "string \<Rightarrow> kb_hit list \<Rightarrow> string" where
  "regenerate_user draft hits = ''KB snippets:'' @ nl @ snippets 400 hits @ nl @ nl
     @ ''Original draft (missing citations):'' @ nl @ draft @ nl @ nl
     @ ''Rewrite the answer with [#<id>] citations on every factual sentence.''"

definition regenerate :: "query_env \<Rightarrow> string \<Rightarrow> kb_hit list \<Rightarrow> string query" where
  "regenerate env draft hits = bind_s (ask_router env regenerate_system (regenerate_user draft hits)) (\<lambda>(t, _). ret t)"

definition max_retries :: nat where "max_retries = 1"

definition insufficient_evidence :: exn where
  "insufficient_evidence = OtherError ''InsufficientEvidence'' ''Draft not supported by provided KB hits after retry''"

text \<open>The loop with the retries that are left; the recursion is on their number.\<close>

fun enforce_loop :: "query_env \<Rightarrow> kb_hit list \<Rightarrow> nat \<Rightarrow> string \<Rightarrow> (string \<times> kb_source list) query" where
  "enforce_loop env hits left t =
     (if is_supported t (ht_id ` set hits) then ret (t, collect_sources t hits)
      else (case left of
          0 \<Rightarrow> raise_s insufficient_evidence
        | Suc n \<Rightarrow> bind_s (regenerate env t hits) (\<lambda>u. enforce_loop env hits n u)))"

definition enforce :: "query_env \<Rightarrow> string \<Rightarrow> kb_hit list \<Rightarrow> (string \<times> kb_source list) query" where
  "enforce env draft hits = enforce_loop env hits max_retries draft"

section \<open>Self review\<close>

text \<open>
  A match of \<open>verdict\s*:\s*(STRONG|MODERATE|WEAK)\<close> at the start of text in lower case, and the first match in a text.
\<close>

definition skip_space :: "string \<Rightarrow> string" where "skip_space s = dropWhile is_space s"

definition verdict_at :: "string \<Rightarrow> confidence option" where
  "verdict_at s =
     (if startswith s ''verdict'' then
        let r = skip_space (drop 7 s) in
        if startswith r '':'' then
          let w = skip_space (drop 1 r) in
          if startswith w ''strong'' then Some Low
          else if startswith w ''moderate'' then Some Medium
          else if startswith w ''weak'' then Some High
          else None
        else None
      else None)"

fun find_verdict :: "string \<Rightarrow> confidence option" where
  "find_verdict [] = None"
| "find_verdict (c # cs) = (case verdict_at (c # cs) of Some v \<Rightarrow> Some v | None \<Rightarrow> find_verdict cs)"

definition review_system :: string where
  "review_system = ''You are an adversarial reviewer. Given an answer and the KB snippets it is based on, construct the strongest ''
     @ ''counter-argument for why the answer could be wrong. Reply with a single line: ''
     @ quoted ''verdict: <STRONG|MODERATE|WEAK>. Reason: <one sentence>.''"

definition score_answer :: "query_env \<Rightarrow> string \<Rightarrow> kb_hit list \<Rightarrow> confidence query" where
  "score_answer env answer hits =
     (if hits = [] then ret Low
      else bind_s (ask_router env review_system (''Answer:'' @ nl @ answer @ nl @ nl @ ''KB snippets:'' @ nl @ snippets 300 hits))
        (\<lambda>(t, _). ret (case find_verdict (str_lower t) of None \<Rightarrow> Low | Some v \<Rightarrow> v)))"

section \<open>Quota and cache\<close>

definition seconds_per_day :: real where "seconds_per_day = 86400"

text \<open>A counter whose time has run out is gone.\<close>

definition alive :: "real \<Rightarrow> 'a \<times> real \<Rightarrow> 'a option" where
  "alive now p = (if now < snd p then Some (fst p) else None)"

definition tokens_used :: "query_state \<Rightarrow> real \<Rightarrow> string \<Rightarrow> int" where
  "tokens_used s now user =
     (case dget (qs_quota s) user of None \<Rightarrow> 0 | Some p \<Rightarrow> (case alive now p of None \<Rightarrow> 0 | Some n \<Rightarrow> n))"

text \<open>
  \<open>INCRBY\<close> keeps the time to alive of the counter; it is set when the new value equals the tokens charged. A counter created by
  \<open>INCRBY\<close> has none before that, and its first value equals the tokens charged.
\<close>

definition charge :: "real \<Rightarrow> string \<Rightarrow> int \<Rightarrow> int query" where
  "charge now user tokens =
     bind_s get_s (\<lambda>s.
       let old = tokens_used s now user; new = old + tokens;
           expiry = (if new = tokens then now + seconds_per_day
                     else case dget (qs_quota s) user of None \<Rightarrow> now | Some p \<Rightarrow> snd p) in
       then_s (modify_s (\<lambda>s. s\<lparr>qs_quota := dset user (new, expiry) (qs_quota s)\<rparr>)) (ret new))"

definition quota_is_exceeded :: "query_env \<Rightarrow> query_state \<Rightarrow> real \<Rightarrow> string \<Rightarrow> bool" where
  "quota_is_exceeded env s now user =
     (case qe_limit env of None \<Rightarrow> False | Some limit \<Rightarrow> limit \<le> tokens_used s now user)"

definition cache_ttl :: real where "cache_ttl = 300"

definition cache_text :: "string \<Rightarrow> string \<Rightarrow> string \<Rightarrow> string" where
  "cache_text q user project = q @ [CHR 0x00] @ user @ [CHR 0x00] @ project"

definition cache_key :: "query_env \<Rightarrow> string \<Rightarrow> string \<Rightarrow> string \<Rightarrow> string" where
  "cache_key env q user project = ''breadmind:kb:qcache:'' @ qe_hash env (cache_text q user project)"

definition cache_get :: "query_env \<Rightarrow> query_state \<Rightarrow> real \<Rightarrow> string \<Rightarrow> string \<Rightarrow> string \<Rightarrow> formatted option" where
  "cache_get env s now q user project =
     (case dget (qs_cache s) (cache_key env q user project) of None \<Rightarrow> None | Some p \<Rightarrow> alive now p)"

definition cache_put :: "query_env \<Rightarrow> real \<Rightarrow> string \<Rightarrow> string \<Rightarrow> string \<Rightarrow> formatted \<Rightarrow> unit query" where
  "cache_put env now q user project f =
     modify_s (\<lambda>s. s\<lparr>qs_cache := dset (cache_key env q user project) (f, now + cache_ttl) (qs_cache s)\<rparr>)"

section \<open>The answer\<close>

definition hit_lines :: "kb_hit list \<Rightarrow> hit_line list" where
  "hit_lines hits = map (\<lambda>h. (ht_id h, ht_title h, case ht_sources h of [] \<Rightarrow> [] | x # _ \<Rightarrow> src_uri x)) (take 3 hits)"

definition strong_signals :: "kb_hit list \<Rightarrow> bool" where
  "strong_signals hits \<longleftrightarrow> 3 \<le> length hits \<and> ht_score (hd hits) \<ge> 85 / 100"

definition answer_system :: string where
  "answer_system = ''Answer using ONLY the KB snippets below. Cite every factual sentence with [#<id>] referencing only provided IDs.''"

definition answer_user :: "kb_hit list \<Rightarrow> string \<Rightarrow> string" where
  "answer_user hits masked = ''KB:'' @ nl @ snippets 400 hits @ nl @ nl @ ''Question: '' @ masked"

definition project_text :: "string option \<Rightarrow> string" where
  "project_text p = (case p of None \<Rightarrow> [] | Some q \<Rightarrow> q)"

text \<open>\<open>resp = chat(...)\<close> and the charge, of which only the failure of all providers is caught.\<close>

definition first_draft :: "query_env \<Rightarrow> real \<Rightarrow> string \<Rightarrow> kb_hit list \<Rightarrow> string \<Rightarrow> string option query" where
  "first_draft env now user hits masked =
     try_s (bind_s (ask_router env answer_system (answer_user hits masked)) (\<lambda>(t, tokens).
         then_s (case qe_limit env of None \<Rightarrow> ret 0 | Some _ \<Rightarrow> charge now user tokens) (ret (Some t))))
       (\<lambda>e. case e of AllProvidersFailed _ \<Rightarrow> ret None | _ \<Rightarrow> raise_s e)"

text \<open>From a draft to the reply: citations, confidence, restored names, cache.\<close>

definition finish_answer ::
  "query_env \<Rightarrow> real \<Rightarrow> string \<Rightarrow> string \<Rightarrow> string \<Rightarrow> kb_hit list \<Rightarrow> string \<Rightarrow> string \<Rightarrow> string \<times> kb_source list \<Rightarrow> reply query"
where
  "finish_answer env now q user p hits draft restore_map ea =
     (case ea of (t, cites) \<Rightarrow>
       bind_s (if strong_signals hits then ret High else score_answer env t hits) (\<lambda>c.
       bind_s (lift_res (qe_restore env t restore_map)) (\<lambda>body.
       let f = \<lparr>fm_body = body, fm_cites = map (\<lambda>x. (src_uri x, src_type x)) cites, fm_confidence = c, fm_answer = qe_answer_id env\<rparr> in
       then_s (cache_put env now q user p f) (ret (Answered f)))))"

definition cite_and_finish :: "query_env \<Rightarrow> real \<Rightarrow> string \<Rightarrow> string \<Rightarrow> string \<Rightarrow> kb_hit list \<Rightarrow> string \<Rightarrow> string \<Rightarrow> reply query" where
  "cite_and_finish env now q user p hits draft restore_map =
     bind_s (try_s (bind_s (enforce env draft hits) (\<lambda>x. ret (Some x)))
         (\<lambda>e. if e = insufficient_evidence then ret None else raise_s e)) (\<lambda>ea.
       case ea of
         None \<Rightarrow> ret (Insufficient (hit_lines hits))
       | Some x \<Rightarrow> finish_answer env now q user p hits draft restore_map x)"

definition ask_model :: "query_env \<Rightarrow> real \<Rightarrow> string \<Rightarrow> string \<Rightarrow> string \<Rightarrow> kb_hit list \<Rightarrow> reply query" where
  "ask_model env now q user p hits =
     bind_s (lift_res (qe_redact env q)) (\<lambda>(masked, restore_map).
       case qe_abort env masked of
         Inl _ \<Rightarrow> ret Secret_found
       | Inr _ \<Rightarrow>
           bind_s (first_draft env now user hits masked) (\<lambda>d.
             case d of
               None \<Rightarrow> ret (Providers_failed (hit_lines hits))
             | Some draft \<Rightarrow> cite_and_finish env now q user p hits draft restore_map))"

definition answer_question :: "query_env \<Rightarrow> real \<Rightarrow> string \<Rightarrow> string \<Rightarrow> string \<Rightarrow> reply query" where
  "answer_question env now q user channel =
     (if qe_classify env q \<noteq> Not_sensitive then ret (Blocked (qe_classify env q))
      else bind_s (lift_res (qe_project env user channel)) (\<lambda>project.
        bind_s get_s (\<lambda>s.
          case cache_get env s now q user (project_text project) of
            Some f \<Rightarrow> ret (Cached f)
          | None \<Rightarrow>
              bind_s (lift_res (qe_search env q user project)) (\<lambda>hits.
                if quota_is_exceeded env s now user then ret (Quota_exceeded (hit_lines hits))
                else ask_model env now q user (project_text project) hits))))"

section \<open>The classifier\<close>

definition slow_path_min_chars :: nat where "slow_path_min_chars = 120"

definition category_labels :: "string list" where
  "category_labels = [''HR'', ''LEGAL'', ''FINANCE'', ''SECURITY'', ''PII'']"

definition keyword_hit :: "(string \<times> string list) list \<Rightarrow> string \<Rightarrow> string option" where
  "keyword_hit table t =
     map_option fst (find (\<lambda>(cat, kws). list_ex (\<lambda>kw. str_contains (str_lower t) (str_lower kw)) kws) table)"

text \<open>\<open>generate\<close> is the call of the model; an empty answer and \<open>None\<close> give an empty label.\<close>

definition classify_text :: "(string \<times> string list) list \<Rightarrow> (string \<Rightarrow> exn + string) \<Rightarrow> string \<Rightarrow> string option" where
  "classify_text table generate t =
     (case keyword_hit table t of
        Some c \<Rightarrow> Some c
      | None \<Rightarrow>
          if length t < slow_path_min_chars then None
          else (case generate t of
              Inl _ \<Rightarrow> None
            | Inr raw \<Rightarrow> let label = str_upper (str_strip raw) in if label \<in> set category_labels then Some label else None))"

text \<open>\<open>classify\<close> is a coroutine function, and the pipeline calls it without \<open>await\<close>.\<close>

definition real_classifier :: "query_env \<Rightarrow> query_env" where
  "real_classifier env = env\<lparr>qe_classify := (\<lambda>_. Coroutine)\<rparr>"

section \<open>What enforcement gives\<close>

lemma add_source_keys:
  "source_key ` set (fold add_source xs out) = source_key ` set out \<union> source_key ` set xs"
  by (induction xs arbitrary: out) (auto simp: add_source_def)

lemma add_source_subset: "set (fold add_source xs out) \<subseteq> set out \<union> set xs"
proof (induction xs arbitrary: out)
  case (Cons x xs)
  have "set (add_source x out) \<subseteq> insert x (set out)" by (auto simp: add_source_def)
  then show ?case using Cons.IH [of "add_source x out"] by auto
qed simp

lemma add_source_distinct: "distinct (map source_key out) \<Longrightarrow> distinct (map source_key (fold add_source xs out))"
  by (induction xs arbitrary: out) (auto simp: add_source_def)

text \<open>The sources shown: those of the cited hits, each kind and address once.\<close>

definition good_answer :: "string \<Rightarrow> kb_source list \<Rightarrow> kb_hit list \<Rightarrow> bool" where
  "good_answer t cites hits \<longleftrightarrow>
     cited t \<noteq> [] \<and> set (cited t) \<subseteq> ht_id ` set hits
     \<and> distinct (map source_key cites)
     \<and> source_key ` set cites = source_key ` (\<Union>k \<in> set (cited t). set (sources_by_id hits k))
     \<and> set cites \<subseteq> (\<Union>h \<in> set hits. set (ht_sources h))"

lemma sources_by_id_hits: "set (sources_by_id hits k) \<subseteq> (\<Union>h \<in> set hits. set (ht_sources h))"
proof (cases "dget (rev (map (\<lambda>h. (ht_id h, ht_sources h)) hits)) k")
  case (Some xs)
  then have "(k, xs) \<in> set (rev (map (\<lambda>h. (ht_id h, ht_sources h)) hits))" by (rule map_of_SomeD)
  then show ?thesis using Some by (auto simp: sources_by_id_def)
qed (simp add: sources_by_id_def)

lemma supported_good: "is_supported t (ht_id ` set hits) \<Longrightarrow> good_answer t (collect_sources t hits) hits"
  using add_source_subset [of "concat (map (sources_by_id hits) (cited t))" "[]"] sources_by_id_hits [of hits]
  by (fastforce simp: good_answer_def is_supported_def collect_sources_def add_source_keys add_source_distinct image_UN split: if_splits)

lemma enforce_loop_result:
  assumes "enforce_loop env hits n t s = (r, s')"
  shows "(\<forall>u cites. r = Inr (u, cites) \<longrightarrow> good_answer u cites hits)
    \<and> length (qs_calls s') \<le> length (qs_calls s) + n \<and> qs_cache s' = qs_cache s \<and> qs_quota s' = qs_quota s"
  using assms
proof (induction n arbitrary: t s)
  case 0
  then show ?case by (auto simp: run_defs supported_good split: if_splits)
next
  case (Suc n)
  show ?case
  proof (cases "is_supported t (ht_id ` set hits)")
    case True
    then show ?thesis using Suc.prems by (auto simp: run_defs supported_good)
  next
    case False
    then have loop: "bind_s (regenerate env t hits) (enforce_loop env hits n) s = (r, s')"
      using Suc.prems by (simp del: enforce_loop.simps add: enforce_loop.simps [of env hits "Suc n"])
    show ?thesis
    proof (cases "qe_chat env regenerate_system (regenerate_user t hits)")
      case (Inl e)
      then show ?thesis using loop by (auto simp: regenerate_def ask_router_def bind_s_def)
    next
      case (Inr p)
      then show ?thesis
        using loop Suc.IH [of "fst p" "s\<lparr>qs_calls := qs_calls s @ [(regenerate_system, regenerate_user t hits)]\<rparr>"]
        by (cases p) (auto simp: regenerate_def ask_router_def bind_s_def ret_def simp del: enforce_loop.simps)
    qed
  qed
qed

text \<open>
  C30. An answer cites only what was found: whatever the model writes, an answer that passes enforcement has a citation, cites only
  hits of the search, and shows the sources of exactly the cited hits, each once; the model is asked again at most once.
\<close>

theorem citations_enforced:
  assumes "enforce env draft hits s = (Inr (t, cites), s')"
  shows "good_answer t cites hits \<and> length (qs_calls s') \<le> length (qs_calls s) + 1"
  using enforce_loop_result [of env hits max_retries draft s "Inr (t, cites)" s'] assms
  by (simp add: enforce_def max_retries_def del: enforce_loop.simps)

definition one_hit :: kb_hit where
  "one_hit = \<lparr>ht_id = 1, ht_title = ''t'', ht_body = ''b'', ht_score = 0,
     ht_sources = [\<lparr>src_type = ''wiki'', src_uri = ''u'', src_ref = None\<rparr>]\<rparr>"

definition quiet_env :: query_env where
  "quiet_env = \<lparr>qe_classify = (\<lambda>_. Not_sensitive), qe_project = (\<lambda>_ _. Inr (Some ''p'')), qe_search = (\<lambda>_ _ _. Inr [one_hit]),
     qe_redact = (\<lambda>t. Inr (t, [])), qe_abort = (\<lambda>_. Inr ()), qe_restore = (\<lambda>t _. Inr t),
     qe_chat = (\<lambda>_ _. Inr (''ok [#1]'', 7)), qe_hash = id, qe_limit = Some 10, qe_answer_id = ''a''\<rparr>"

definition no_queries :: query_state where
  "no_queries = \<lparr>qs_cache = [], qs_quota = [], qs_calls = []\<rparr>"

lemma cited_example: "cited ''ok [#1]'' = [1]" "cited ''ok'' = []"
  by code_simp+

lemma enforce_example:
  "enforce quiet_env ''ok [#1]'' [one_hit] no_queries = (Inr (''ok [#1]'', ht_sources one_hit), no_queries)"
  by (simp add: enforce_def max_retries_def is_supported_def cited_example collect_sources_def sources_by_id_def one_hit_def
      add_source_def run_defs)

theorem citations_enforced_witness:
  "good_answer ''ok [#1]'' (ht_sources one_hit) [one_hit]"
  using citations_enforced [OF enforce_example] by blast

section \<open>Guards before the model\<close>

definition guards_passed :: "query_env \<Rightarrow> real \<Rightarrow> string \<Rightarrow> string \<Rightarrow> string \<Rightarrow> query_state \<Rightarrow> bool" where
  "guards_passed env now q user channel s \<longleftrightarrow>
     qe_classify env q = Not_sensitive
     \<and> (\<exists>p hits masked m. qe_project env user channel = Inr p \<and> cache_get env s now q user (project_text p) = None
          \<and> qe_search env q user p = Inr hits \<and> \<not> quota_is_exceeded env s now user
          \<and> qe_redact env q = Inr (masked, m) \<and> qe_abort env masked = Inr ())"

text \<open>What an answer does to the quota: nothing, or a charge for one call.\<close>

definition charged_once :: "query_env \<Rightarrow> real \<Rightarrow> string \<Rightarrow> query_state \<Rightarrow> query_state \<Rightarrow> bool" where
  "charged_once env now user s t \<longleftrightarrow>
     qs_quota t = qs_quota s
     \<or> (\<exists>u w tx n x. qe_chat env u w = Inr (tx, n) \<and> \<not> quota_is_exceeded env s now user
          \<and> qs_quota t = dset user (tokens_used s now user + n, x) (qs_quota s))"

text \<open>What it does to the cache: nothing, or the formatted answer is stored.\<close>

definition cached_once ::
  "query_env \<Rightarrow> real \<Rightarrow> string \<Rightarrow> string \<Rightarrow> string \<Rightarrow> query_state \<Rightarrow> (exn + reply) \<Rightarrow> query_state \<Rightarrow> bool"
where
  "cached_once env now q user p s r t \<longleftrightarrow>
     qs_cache t = qs_cache s
     \<or> (\<exists>f. r = Inr (Answered f) \<and> qs_cache t = dset (cache_key env q user p) (f, now + cache_ttl) (qs_cache s))"

lemma first_draft_effect:
  assumes "first_draft env now user hits masked s = (r, t)"
  shows "length (qs_calls t) = length (qs_calls s) + 1" "qs_cache t = qs_cache s"
    "qs_quota t = qs_quota s
      \<or> (\<exists>u w tx n x. qe_chat env u w = Inr (tx, n) \<and> qs_quota t = dset user (tokens_used s now user + n, x) (qs_quota s))"
proof -
  let ?s = "s\<lparr>qs_calls := qs_calls s @ [(answer_system, answer_user hits masked)]\<rparr>"
  have used: "tokens_used ?s now user = tokens_used s now user" by (simp add: tokens_used_def)
  have "length (qs_calls t) = length (qs_calls s) + 1 \<and> qs_cache t = qs_cache s \<and> (qs_quota t = qs_quota s
      \<or> (\<exists>u w tx n x. qe_chat env u w = Inr (tx, n) \<and> qs_quota t = dset user (tokens_used s now user + n, x) (qs_quota s)))"
  proof (cases "qe_chat env answer_system (answer_user hits masked)")
    case (Inl e)
    then have "t = ?s" using assms by (cases e) (auto simp: first_draft_def ask_router_def run_defs)
    then show ?thesis by simp
  next
    case (Inr p)
    obtain tx n where p: "p = (tx, n)" by (cases p)
    show ?thesis
    proof (cases "qe_limit env")
      case None
      then have "t = ?s" using assms Inr p by (simp add: first_draft_def ask_router_def run_defs)
      then show ?thesis by simp
    next
      case (Some limit)
      have "\<exists>x. t = ?s\<lparr>qs_quota := dset user (tokens_used s now user + n, x) (qs_quota s)\<rparr>"
        using assms Inr p Some used by (auto simp: first_draft_def ask_router_def charge_def run_defs Let_def)
      then obtain x where x: "t = ?s\<lparr>qs_quota := dset user (tokens_used s now user + n, x) (qs_quota s)\<rparr>" by blast
      have "qe_chat env answer_system (answer_user hits masked) = Inr (tx, n)
          \<and> qs_quota t = dset user (tokens_used s now user + n, x) (qs_quota s)"
        using Inr p by (simp add: x)
      then have "\<exists>u w tx n x. qe_chat env u w = Inr (tx, n) \<and> qs_quota t = dset user (tokens_used s now user + n, x) (qs_quota s)"
        by blast
      then show ?thesis by (simp add: x)
    qed
  qed
  then show "length (qs_calls t) = length (qs_calls s) + 1" "qs_cache t = qs_cache s"
    "qs_quota t = qs_quota s
      \<or> (\<exists>u w tx n x. qe_chat env u w = Inr (tx, n) \<and> qs_quota t = dset user (tokens_used s now user + n, x) (qs_quota s))"
    by blast+
qed

lemma score_effect:
  assumes "(if b then ret High else score_answer env a hits) s = (r, t)"
  shows "length (qs_calls t) \<le> length (qs_calls s) + 1" "qs_cache t = qs_cache s" "qs_quota t = qs_quota s"
  using assms by (auto simp: score_answer_def ask_router_def run_defs split: if_splits sum.splits)

lemma finish_effect:
  assumes "finish_answer env now q user p hits draft m ea s = (r, t)"
  shows "length (qs_calls t) \<le> length (qs_calls s) + 1" "cached_once env now q user p s r t" "qs_quota t = qs_quota s"
proof -
  obtain a cites where ea: "ea = (a, cites)" by (cases ea)
  obtain r1 s1 where s1: "(if strong_signals hits then ret High else score_answer env a hits) s = (r1, s1)"
    by (cases "(if strong_signals hits then ret High else score_answer env a hits) s")
  have run: "(case r1 of Inl e \<Rightarrow> (Inl e, s1) | Inr c \<Rightarrow> bind_s (lift_res (qe_restore env a m)) (\<lambda>body.
       let f = \<lparr>fm_body = body, fm_cites = map (\<lambda>x. (src_uri x, src_type x)) cites, fm_confidence = c, fm_answer = qe_answer_id env\<rparr> in
       then_s (cache_put env now q user p f) (ret (Answered f))) s1) = (r, t)"
    using assms s1 by (simp add: finish_answer_def ea bind_s_def)
  have "length (qs_calls t) = length (qs_calls s1) \<and> cached_once env now q user p s1 r t \<and> qs_quota t = qs_quota s1"
  proof (cases r1)
    case (Inl e)
    then show ?thesis using run by (auto simp: cached_once_def)
  next
    case (Inr c)
    then show ?thesis using run
      by (cases "qe_restore env a m") (auto simp: cached_once_def cache_put_def run_defs Let_def)
  qed
  then show "length (qs_calls t) \<le> length (qs_calls s) + 1" "cached_once env now q user p s r t" "qs_quota t = qs_quota s"
    using score_effect [OF s1] by (simp_all add: cached_once_def)
qed

lemma cite_and_finish_effect:
  assumes "cite_and_finish env now q user p hits draft m s = (r, t)"
  shows "length (qs_calls t) \<le> length (qs_calls s) + 2" "cached_once env now q user p s r t" "qs_quota t = qs_quota s"
proof -
  obtain r1 s1 where s1: "enforce env draft hits s = (r1, s1)" by (cases "enforce env draft hits s")
  have e: "length (qs_calls s1) \<le> length (qs_calls s) + 1" "qs_cache s1 = qs_cache s" "qs_quota s1 = qs_quota s"
    using enforce_loop_result [of env hits max_retries draft s r1 s1] s1 by (simp_all add: enforce_def max_retries_def del: enforce_loop.simps)
  have "length (qs_calls t) \<le> length (qs_calls s1) + 1 \<and> cached_once env now q user p s1 r t \<and> qs_quota t = qs_quota s1"
  proof (cases r1)
    case (Inl x)
    then have "t = s1" using assms s1 by (auto simp: cite_and_finish_def run_defs split: if_splits)
    then show ?thesis by (simp add: cached_once_def)
  next
    case (Inr x)
    then have "finish_answer env now q user p hits draft m x s1 = (r, t)"
      using assms s1 by (simp add: cite_and_finish_def run_defs)
    from finish_effect [OF this] show ?thesis by simp
  qed
  then show "length (qs_calls t) \<le> length (qs_calls s) + 2" "cached_once env now q user p s r t" "qs_quota t = qs_quota s"
    using e by (auto simp: cached_once_def)
qed

lemma ask_model_effect:
  assumes "ask_model env now q user p hits s = (r, t)" "\<not> quota_is_exceeded env s now user"
  shows "length (qs_calls t) \<le> length (qs_calls s) + 3" "cached_once env now q user p s r t" "charged_once env now user s t"
    "qs_calls t \<noteq> qs_calls s \<Longrightarrow> \<exists>masked m. qe_redact env q = Inr (masked, m) \<and> qe_abort env masked = Inr ()"
proof -
  have "length (qs_calls t) \<le> length (qs_calls s) + 3 \<and> cached_once env now q user p s r t \<and> charged_once env now user s t
    \<and> (qs_calls t \<noteq> qs_calls s \<longrightarrow> (\<exists>masked m. qe_redact env q = Inr (masked, m) \<and> qe_abort env masked = Inr ()))"
  proof (cases "\<exists>masked m. qe_redact env q = Inr (masked, m) \<and> qe_abort env masked = Inr ()")
    case False
    then have "t = s" using assms(1) by (cases "qe_redact env q") (auto simp: ask_model_def run_defs split: sum.splits)
    then show ?thesis by (simp add: cached_once_def charged_once_def)
  next
    case True
    then obtain masked m where m: "qe_redact env q = Inr (masked, m)" "qe_abort env masked = Inr ()" by blast
    obtain r1 s1 where s1: "first_draft env now user hits masked s = (r1, s1)" by (cases "first_draft env now user hits masked s")
    have d: "length (qs_calls s1) = length (qs_calls s) + 1" "qs_cache s1 = qs_cache s" "charged_once env now user s s1"
      using first_draft_effect [OF s1] assms(2) by (auto simp: charged_once_def)
    have "length (qs_calls t) \<le> length (qs_calls s1) + 2 \<and> cached_once env now q user p s1 r t \<and> qs_quota t = qs_quota s1"
    proof (cases "\<exists>draft. r1 = Inr (Some draft)")
      case True
      then obtain draft where "r1 = Inr (Some draft)" by blast
      then have "cite_and_finish env now q user p hits draft m s1 = (r, t)"
        using assms(1) m s1 by (simp add: ask_model_def bind_s_def lift_res_def)
      from cite_and_finish_effect [OF this] show ?thesis by simp
    next
      case False
      then have "t = s1" using assms(1) m s1
        by (cases r1) (auto simp: ask_model_def bind_s_def lift_res_def ret_def split: option.splits)
      then show ?thesis by (simp add: cached_once_def)
    qed
    then show ?thesis using d m by (auto simp: cached_once_def charged_once_def)
  qed
  then show "length (qs_calls t) \<le> length (qs_calls s) + 3" "cached_once env now q user p s r t" "charged_once env now user s t"
    "qs_calls t \<noteq> qs_calls s \<Longrightarrow> \<exists>masked m. qe_redact env q = Inr (masked, m) \<and> qe_abort env masked = Inr ()"
    by blast+
qed

lemma answer_cases:
  assumes "answer_question env now q user channel s = (r, t)"
  shows "(t = s \<and> (\<forall>f. r \<noteq> Inr (Answered f))) \<or> (\<exists>p hits. qe_classify env q = Not_sensitive \<and> qe_project env user channel = Inr p
      \<and> cache_get env s now q user (project_text p) = None \<and> qe_search env q user p = Inr hits
      \<and> \<not> quota_is_exceeded env s now user \<and> ask_model env now q user (project_text p) hits s = (r, t))"
  using assms
  by (auto simp: answer_question_def run_defs split: if_splits sum.splits option.splits)

text \<open>
  C31. The model hears nothing before the guards: a call is made only for a question that is not sensitive, not cached, of a user
  within the quota, whose masked text holds no secret; a question costs at most three calls.
\<close>

theorem model_called_after_guards:
  "(qs_calls (snd (answer_question env now q user channel s)) = qs_calls s \<or> guards_passed env now q user channel s)
   \<and> length (qs_calls (snd (answer_question env now q user channel s))) \<le> length (qs_calls s) + 3"
proof -
  obtain r t where rt: "answer_question env now q user channel s = (r, t)" by (cases "answer_question env now q user channel s")
  from answer_cases [OF rt] show ?thesis
  proof
    assume "\<exists>p hits. qe_classify env q = Not_sensitive \<and> qe_project env user channel = Inr p
      \<and> cache_get env s now q user (project_text p) = None \<and> qe_search env q user p = Inr hits
      \<and> \<not> quota_is_exceeded env s now user \<and> ask_model env now q user (project_text p) hits s = (r, t)"
    then obtain p hits where g: "qe_classify env q = Not_sensitive" "qe_project env user channel = Inr p"
      "cache_get env s now q user (project_text p) = None" "qe_search env q user p = Inr hits"
      "\<not> quota_is_exceeded env s now user" and a: "ask_model env now q user (project_text p) hits s = (r, t)" by blast
    show ?thesis using ask_model_effect(1,4) [OF a g(5)] g unfolding guards_passed_def rt by auto
  qed (simp add: rt)
qed

section \<open>Many questions\<close>

text \<open>A question: when, what, by whom, where. The log holds the replies.\<close>

type_synonym question = "real \<times> string \<times> string \<times> string"
type_synonym question_log = "(question \<times> (exn + reply)) list"

definition ask_step :: "query_env \<Rightarrow> question \<Rightarrow> question_log \<times> query_state \<Rightarrow> question_log \<times> query_state" where
  "ask_step env a ls =
     (case a of (now, q, user, channel) \<Rightarrow>
       (case answer_question env now q user channel (snd ls) of (r, t) \<Rightarrow> (fst ls @ [(a, r)], t)))"

lemma ask_effect:
  assumes "answer_question env now q user channel s = (r, t)"
  shows "charged_once env now user s t"
    "\<exists>p. (qe_project env user channel = Inr p \<or> qs_cache t = qs_cache s) \<and> cached_once env now q user (project_text p) s r t"
  using answer_cases [OF assms] ask_model_effect(2,3)
  by (auto simp: charged_once_def cached_once_def) metis+

definition quota_within :: "int \<Rightarrow> question_log \<times> query_state \<Rightarrow> bool" where
  "quota_within b ls \<longleftrightarrow> (\<forall>u n x. dget (qs_quota (snd ls)) u = Some (n, x) \<longrightarrow> n < b)"

lemma ask_step_quota:
  assumes "qe_limit env = Some limit" "\<And>u w t n. qe_chat env u w = Inr (t, n) \<Longrightarrow> n \<le> m" "quota_within (limit + m) ls"
  shows "quota_within (limit + m) (ask_step env a ls)"
proof -
  obtain now q user channel where a: "a = (now, q, user, channel)" by (cases a)
  obtain r t where rt: "answer_question env now q user channel (snd ls) = (r, t)" by (cases "answer_question env now q user channel (snd ls)")
  have "dget (qs_quota t) u = Some (n, x) \<Longrightarrow> n < limit + m" for u n x
    using ask_effect(1) [OF rt] assms unfolding charged_once_def quota_within_def quota_is_exceeded_def by (force split: if_splits)
  then show ?thesis by (simp add: ask_step_def a rt quota_within_def)
qed

lemma quota_machine:
  assumes "qe_limit env = Some limit" "\<And>u w t n. qe_chat env u w = Inr (t, n) \<Longrightarrow> n \<le> m"
  shows "machine (ask_step env) (quota_within (limit + m))"
  by unfold_locales (rule ask_step_quota [OF assms])

text \<open>
  The quota is overdrawn by one call at most: when no call of the model uses more than \<open>m\<close> tokens, no user's counter ever
  reaches the limit plus \<open>m\<close>, whatever is asked by whom and when. (Only the first call of an answer is charged.)
\<close>

theorem quota_overdrawn_by_one_call:
  assumes "qe_limit env = Some limit" "\<And>u w t n. qe_chat env u w = Inr (t, n) \<Longrightarrow> n \<le> m"
  shows "tokens_used (snd (fold (ask_step env) qs ([], no_queries))) now user \<le> max 0 (limit + m - 1)"
proof -
  have "quota_within (limit + m) (fold (ask_step env) qs ([], no_queries))"
    by (rule machine.run_inv [OF quota_machine [OF assms]]) (simp_all add: quota_within_def no_queries_def)
  then have "n \<le> limit + m - 1" if "dget (qs_quota (snd (fold (ask_step env) qs ([], no_queries)))) user = Some (n, x)" for n x
    using that unfolding quota_within_def by (metis zle_diff1_eq)
  then show ?thesis by (auto simp: tokens_used_def alive_def max_def split: option.splits)
qed

theorem quota_overdrawn_by_one_call_witness:
  "tokens_used (snd (fold (ask_step quiet_env) [(0, ''q'', ''u'', ''c'')] ([], no_queries))) 1 ''u'' \<le> 16"
proof -
  have limit: "qe_limit quiet_env = Some 10" by (simp add: quiet_env_def)
  have chat: "n \<le> 7" if "qe_chat quiet_env v w = Inr (t, n)" for v w t n using that by (simp add: quiet_env_def)
  show ?thesis using quota_overdrawn_by_one_call [OF limit chat, where qs = "[(0, ''q'', ''u'', ''c'')]" and now = 1 and user = "''u''"] by simp
qed

text \<open>Every cache entry is the answer to a question of the log.\<close>

definition entry_of :: "query_env \<Rightarrow> question_log \<Rightarrow> string \<Rightarrow> formatted \<Rightarrow> real \<Rightarrow> bool" where
  "entry_of env lg k f x \<longleftrightarrow>
     (\<exists>now q user channel p. ((now, q, user, channel), Inr (Answered f)) \<in> set lg \<and> qe_project env user channel = Inr p
        \<and> k = cache_key env q user (project_text p) \<and> x = now + cache_ttl)"

definition cache_from_log :: "query_env \<Rightarrow> question_log \<times> query_state \<Rightarrow> bool" where
  "cache_from_log env ls \<longleftrightarrow> (\<forall>k f x. dget (qs_cache (snd ls)) k = Some (f, x) \<longrightarrow> entry_of env (fst ls) k f x)"

lemma entry_of_mono: "entry_of env lg k f x \<Longrightarrow> entry_of env (lg @ l) k f x"
  unfolding entry_of_def set_append by blast

lemma ask_step_cache: "cache_from_log env ls \<Longrightarrow> cache_from_log env (ask_step env a ls)"
proof -
  assume ok: "cache_from_log env ls"
  obtain now q user channel where a: "a = (now, q, user, channel)" by (cases a)
  obtain r t where rt: "answer_question env now q user channel (snd ls) = (r, t)" by (cases "answer_question env now q user channel (snd ls)")
  obtain p where p: "qe_project env user channel = Inr p \<or> qs_cache t = qs_cache (snd ls)"
    "cached_once env now q user (project_text p) (snd ls) r t" using ask_effect(2) [OF rt] by blast
  have "entry_of env (fst ls @ [(a, r)]) k f x" if k: "dget (qs_cache t) k = Some (f, x)" for k f x
  proof (cases "qs_cache t = qs_cache (snd ls)")
    case True
    then show ?thesis using ok k by (simp add: cache_from_log_def entry_of_mono)
  next
    case False
    then obtain g where g: "r = Inr (Answered g)"
      "qs_cache t = dset (cache_key env q user (project_text p)) (g, now + cache_ttl) (qs_cache (snd ls))"
      using p(2) by (auto simp: cached_once_def)
    show ?thesis
    proof (cases "k = cache_key env q user (project_text p)")
      case True
      then have "f = g" "x = now + cache_ttl" using k g(2) by simp_all
      moreover have "((now, q, user, channel), Inr (Answered g)) \<in> set (fst ls @ [(a, r)])" using a g(1) by simp
      moreover have "qe_project env user channel = Inr p" using p(1) False by simp
      ultimately show ?thesis unfolding entry_of_def using True by blast
    next
      case False
      then show ?thesis using ok k g(2) by (simp add: cache_from_log_def entry_of_mono)
    qed
  qed
  then show ?thesis by (simp add: ask_step_def a rt cache_from_log_def)
qed

interpretation query_cache: machine "ask_step env" "cache_from_log env" for env
  by unfold_locales (rule ask_step_cache)

lemma split_at_last:
  assumes "a @ x # b = c @ x # d" "x \<notin> set b" "x \<notin> set d"
  shows "a = c \<and> b = d"
proof -
  have eq: "rev b @ x # rev a = rev d @ x # rev c" using arg_cong [OF assms(1), of rev] by simp
  have tails: "takeWhile (\<lambda>y. y \<noteq> x) (rev e @ x # f) = rev e" if "x \<notin> set e" for e f
    using that by (subst takeWhile_append2) auto
  have "takeWhile (\<lambda>y. y \<noteq> x) (rev b @ x # rev a) = takeWhile (\<lambda>y. y \<noteq> x) (rev d @ x # rev c)" by (simp only: eq)
  then have "rev b = rev d" by (simp only: tails [OF assms(2), of "rev a"] tails [OF assms(3), of "rev c"])
  then have "b = d" by simp
  then show ?thesis using assms(1) by simp
qed

lemma cache_text_inject:
  assumes "cache_text q u p = cache_text q' u' p'" "CHR 0x00 \<notin> set u" "CHR 0x00 \<notin> set u'" "CHR 0x00 \<notin> set p" "CHR 0x00 \<notin> set p'"
  shows "q = q' \<and> u = u' \<and> p = p'"
proof -
  have "(q @ CHR 0x00 # u) @ CHR 0x00 # p = (q' @ CHR 0x00 # u') @ CHR 0x00 # p'" using assms(1) by (simp add: cache_text_def)
  from split_at_last [OF this assms(4,5)]
  have first: "q @ CHR 0x00 # u = q' @ CHR 0x00 # u'" and "p = p'" by simp_all
  with split_at_last [OF first assms(2,3)] show ?thesis by simp
qed

definition no_nul :: "query_env \<Rightarrow> question list \<Rightarrow> bool" where
  "no_nul env qs \<longleftrightarrow> (\<forall>a \<in> set qs. CHR 0x00 \<notin> set (fst (snd (snd a))))
     \<and> (\<forall>u c p. qe_project env u c = Inr p \<longrightarrow> CHR 0x00 \<notin> set (project_text p))"

lemma log_questions: "map fst (fst (fold (ask_step env) qs (l, s))) = map fst l @ qs"
proof (induction qs arbitrary: l s)
  case (Cons a qs)
  obtain now q u c where a: "a = (now, q, u, c)" by (cases a)
  obtain r t where "answer_question env now q u c s = (r, t)" by (cases "answer_question env now q u c s")
  then have "ask_step env a (l, s) = (l @ [(a, r)], t)" by (simp add: ask_step_def a)
  then show ?case using Cons.IH [of "l @ [(a, r)]" t] by simp
qed simp

text \<open>A program that never replies from the cache.\<close>

definition fresh :: "reply query \<Rightarrow> bool" where
  "fresh m \<longleftrightarrow> (\<forall>s f. fst (m s) \<noteq> Inr (Cached f))"

lemma fresh_bind: "(\<And>x. fresh (k x)) \<Longrightarrow> fresh (bind_s m k)"
  unfolding fresh_def
proof (intro allI)
  fix s f assume k: "\<And>x. \<forall>s f. fst (k x s) \<noteq> Inr (Cached f)"
  show "fst (bind_s m k s) \<noteq> Inr (Cached f)" using k by (cases "m s") (auto simp: bind_s_def split: sum.split)
qed

lemma fresh_ret: "(\<And>f. x \<noteq> Cached f) \<Longrightarrow> fresh (ret x)"
  by (simp add: fresh_def ret_def)

lemma fresh_finish: "fresh (finish_answer env now q user p hits draft m ea)"
  unfolding finish_answer_def Let_def by (cases ea) (auto intro!: fresh_bind fresh_ret)

lemma fresh_ask_model: "fresh (ask_model env now q user p hits)"
proof -
  have "fresh (cite_and_finish env now q user p hits draft m)" for draft m
    unfolding cite_and_finish_def by (rule fresh_bind) (auto split: option.split intro: fresh_ret fresh_finish)
  then show ?thesis
    unfolding ask_model_def by (intro fresh_bind) (auto split: sum.split option.split intro!: fresh_ret fresh_bind)
qed

lemma answer_cached:
  assumes "fst (answer_question env now q user channel s) = Inr (Cached f)"
  shows "\<exists>p. qe_project env user channel = Inr p \<and> cache_get env s now q user (project_text p) = Some f"
  using assms fresh_ask_model
  by (auto simp: answer_question_def fresh_def bind_s_def lift_res_def get_s_def ret_def split: if_splits sum.splits option.splits)

text \<open>
  C32. The cache keeps people apart: with a hash that does not collide, an answer served from the cache was given, less than
  five minutes before, to the same question of the same user in the same project.
\<close>

theorem cached_answer_is_own:
  assumes "inj (qe_hash env)" "no_nul env ((now, q, user, channel) # qs)"
    and "fst (answer_question env now q user channel (snd (fold (ask_step env) qs ([], no_queries)))) = Inr (Cached f)"
  shows "\<exists>now' channel' p p'.
    ((now', q, user, channel'), Inr (Answered f)) \<in> set (fst (fold (ask_step env) qs ([], no_queries)))
    \<and> qe_project env user channel = Inr p \<and> qe_project env user channel' = Inr p' \<and> project_text p' = project_text p
    \<and> now < now' + 300"
proof -
  let ?ls = "fold (ask_step env) qs ([], no_queries)"
  have log: "cache_from_log env ?ls" by (rule query_cache.run_inv) (simp add: cache_from_log_def no_queries_def)
  obtain p where p: "qe_project env user channel = Inr p" "cache_get env (snd ?ls) now q user (project_text p) = Some f"
    using answer_cached [OF assms(3)] by blast
  then obtain x where x: "dget (qs_cache (snd ?ls)) (cache_key env q user (project_text p)) = Some (f, x)" "now < x"
    by (auto simp: cache_get_def alive_def split: option.splits if_splits)
  then obtain now' q' user' channel' p' where e: "((now', q', user', channel'), Inr (Answered f)) \<in> set (fst ?ls)"
    "qe_project env user' channel' = Inr p'" "cache_key env q user (project_text p) = cache_key env q' user' (project_text p')"
    "x = now' + cache_ttl" using log unfolding cache_from_log_def entry_of_def by blast
  have "(now', q', user', channel') \<in> set qs"
  proof -
    have "fst ((now', q', user', channel'), Inr (Answered f) :: exn + reply) \<in> fst ` set (fst ?ls)" using e(1) by (rule imageI)
    also have "fst ` set (fst ?ls) = set (map fst (fst ?ls))" by simp
    also have "map fst (fst ?ls) = qs" using log_questions [of env qs "[]" no_queries] by simp
    finally show ?thesis by simp
  qed
  then have "CHR 0x00 \<notin> set user'" using assms(2) unfolding no_nul_def by (metis fst_conv snd_conv list.set_intros(2))
  moreover have "cache_text q user (project_text p) = cache_text q' user' (project_text p')"
    using e(3) assms(1) by (simp add: cache_key_def inj_eq)
  ultimately have "q = q' \<and> user = user' \<and> project_text p = project_text p'"
    using cache_text_inject [of q user "project_text p" q' user' "project_text p'"] assms(2) p(1) e(2) by (simp add: no_nul_def)
  then have "((now', q, user, channel'), Inr (Answered f)) \<in> set (fst ?ls)" "qe_project env user channel' = Inr p'"
    "project_text p' = project_text p" "now < now' + 300"
    using e(1,2,4) x(2) by (simp_all add: cache_ttl_def)
  then show ?thesis using p(1) by blast
qed

definition quiet_formatted :: formatted where
  "quiet_formatted = \<lparr>fm_body = ''ok [#1]'', fm_cites = [(''u'', ''wiki'')], fm_confidence = Low, fm_answer = ''a''\<rparr>"

lemma quiet_verdict: "find_verdict (str_lower ''ok [#1]'') = None"
  by code_simp

lemma quiet_supported: "is_supported ''ok [#1]'' (ht_id ` set [one_hit])"
  by (simp add: is_supported_def cited_example one_hit_def)

lemma quiet_sources: "collect_sources ''ok [#1]'' [one_hit] = [\<lparr>src_type = ''wiki'', src_uri = ''u'', src_ref = None\<rparr>]"
  by (simp add: collect_sources_def cited_example sources_by_id_def one_hit_def add_source_def)

lemma quiet_first:
  "fst (answer_question quiet_env 0 ''q'' ''u'' ''c'' no_queries) = Inr (Answered quiet_formatted)
   \<and> qs_cache (snd (answer_question quiet_env 0 ''q'' ''u'' ''c'' no_queries))
       = [(cache_key quiet_env ''q'' ''u'' ''p'', (quiet_formatted, 300))]"
  using quiet_supported quiet_verdict quiet_sources
  by (simp add: answer_question_def ask_model_def first_draft_def cite_and_finish_def finish_answer_def enforce_def max_retries_def ask_router_def
      charge_def cache_put_def cache_get_def quota_is_exceeded_def tokens_used_def no_queries_def strong_signals_def score_answer_def
      quiet_formatted_def cache_ttl_def run_defs project_text_def Let_def quiet_env_def)

theorem cached_answer_is_own_witness:
  "\<exists>now' channel'. ((now', ''q'', ''u'', channel'), Inr (Answered quiet_formatted))
     \<in> set (fst (fold (ask_step quiet_env) [(0, ''q'', ''u'', ''c'')] ([], no_queries))) \<and> 1 < now' + 300"
proof -
  have nul: "no_nul quiet_env ((1, ''q'', ''u'', ''c'') # [(0, ''q'', ''u'', ''c'')])"
    by (simp add: no_nul_def quiet_env_def project_text_def)
  have hash: "inj (qe_hash quiet_env)" by (simp add: quiet_env_def)
  obtain t where t: "answer_question quiet_env 0 ''q'' ''u'' ''c'' no_queries = (Inr (Answered quiet_formatted), t)"
    "qs_cache t = [(cache_key quiet_env ''q'' ''u'' ''p'', (quiet_formatted, 300))]"
    using quiet_first by (cases "answer_question quiet_env 0 ''q'' ''u'' ''c'' no_queries") simp
  have run: "snd (fold (ask_step quiet_env) [(0, ''q'', ''u'', ''c'')] ([], no_queries)) = t"
    by (simp add: ask_step_def t(1))
  have env: "qe_classify quiet_env q = Not_sensitive" "qe_project quiet_env u c = Inr (Some ''p'')" for q u c
    by (simp_all add: quiet_env_def)
  have "fst (answer_question quiet_env 1 ''q'' ''u'' ''c'' (snd (fold (ask_step quiet_env) [(0, ''q'', ''u'', ''c'')] ([], no_queries))))
      = Inr (Cached quiet_formatted)"
    unfolding run by (simp add: answer_question_def env cache_get_def t(2) alive_def run_defs project_text_def)
  from cached_answer_is_own [OF hash nul this] show ?thesis by blast
qed

section \<open>Defects\<close>

text \<open>
  The self-review always runs: the pipeline skips it when the best of three hits scores 0.85 or more, but a fused score
  never exceeds 2/61, so no search result has strong signals, whatever the knowledge base holds.
\<close>

theorem strong_signals_never:
  assumes "filter_narrows env" "search env (fold kb_step ops (empty_kb projects members)) q user p n = Inr hits"
  shows "\<not> strong_signals hits"
proof (cases hits)
  case Nil
  then show ?thesis by (simp add: strong_signals_def)
next
  case (Cons h hs)
  have "hit_of env (fold kb_step ops (empty_kb projects members)) user p h"
    using search_hits [OF kb_items.run_inv [OF empty_items_ok] assms] Cons by simp
  then show ?thesis using Cons by (simp add: strong_signals_def hit_of_def)
qed

theorem strong_signals_never_witness:
  "\<not> strong_signals [\<lparr>ht_id = 1, ht_title = ''keys'', ht_body = ''rotate'', ht_score = rank_share 1,
     ht_sources = sources_of (fold kb_step private_ops (empty_kb [''p''] [])) 1\<rparr>]"
  by (rule strong_signals_never [OF _ open_search_finds]) (simp add: filter_narrows_def open_search_def)

lemma real_classifier_blocks_all: "answer_question (real_classifier env) now q user channel s = (Inr (Blocked Coroutine), s)"
  by (simp add: answer_question_def real_classifier_def run_defs)

end
