(* ===== verification/Task_Dag.thy ===== *)
theory Task_Dag
  imports Prelude
begin

text \<open>
  Complex requests as graphs of tasks: the planner's reading of a plan (\<open>src/src/breadmind/core/planner.py\<close>), the
  evaluation of outputs (\<open>core/result_evaluator.py\<close>), the executor that runs a graph in parallel batches
  (\<open>core/dag_executor.py\<close>).

  A sub-agent is a parameter: the outcome of its \<open>n\<close>-th start for a node with the context it is given and the time
  limit. The batch of ready nodes is a Python set; the model takes it in the order of the graph. Progress
  events and the prompts are left out; the texts of the language model are parameters.
\<close>

section \<open>Plans\<close>

record task_node =
  tn_id :: string
  tn_description :: string
  tn_role :: string
  tn_depends_on :: "string list"
  tn_difficulty :: string
  tn_tools :: "string list"
  tn_expected :: string
  tn_max_retries :: int

record task_dag =
  td_goal :: string
  td_nodes :: "(string, task_node) dict"
  td_context :: "(string, string) dict"

definition empty_dag :: "string \<Rightarrow> task_dag" where
  "empty_dag goal = \<lparr>td_goal = goal, td_nodes = [], td_context = []\<rparr>"

definition fallback_dag :: "string \<Rightarrow> task_dag" where
  "fallback_dag goal = (empty_dag goal)\<lparr>td_nodes := [(''task_1'',
     \<lparr>tn_id = ''task_1'', tn_description = goal, tn_role = ''general_analyst'', tn_depends_on = [], tn_difficulty = ''medium'',
      tn_tools = [], tn_expected = ''Task result'', tn_max_retries = 2\<rparr>)]\<rparr>"

text \<open>A node of the answer; each field may be missing.\<close>

record planned_node =
  pn_id :: "string option"
  pn_description :: "string option"
  pn_role :: "string option"
  pn_depends_on :: "string list option"
  pn_difficulty :: "string option"
  pn_expected :: "string option"
  pn_max_retries :: "int option"

definition or_default :: "'a option \<Rightarrow> 'a \<Rightarrow> 'a" where
  "or_default x d = (case x of None \<Rightarrow> d | Some v \<Rightarrow> v)"

definition task_of :: "nat \<Rightarrow> planned_node \<Rightarrow> task_node" where
  "task_of n p =
     \<lparr>tn_id = or_default (pn_id p) (''task_'' @ nat_str (n + 1)), tn_description = or_default (pn_description p) [],
      tn_role = or_default (pn_role p) ''general_analyst'', tn_depends_on = or_default (pn_depends_on p) [],
      tn_difficulty = or_default (pn_difficulty p) ''medium'', tn_tools = [], tn_expected = or_default (pn_expected p) [],
      tn_max_retries = or_default (pn_max_retries p) 2\<rparr>"

definition add_task :: "planned_node \<Rightarrow> (string, task_node) dict \<Rightarrow> (string, task_node) dict" where
  "add_task p nodes = (let t = task_of (length nodes) p in dset (tn_id t) t nodes)"

text \<open>\<open>_parse_response\<close>: \<open>None\<close> is text that is no JSON; then, and without nodes, the plan is a single task.\<close>

definition parse_response :: "string \<Rightarrow> planned_node list option \<Rightarrow> task_dag" where
  "parse_response goal answer =
     (case answer of
        None \<Rightarrow> fallback_dag goal
      | Some ns \<Rightarrow> if ns = [] then fallback_dag goal else (empty_dag goal)\<lparr>td_nodes := fold add_task ns []\<rparr>)"

text \<open>\<open>plan\<close> and \<open>replan\<close>: \<open>Inl\<close> is an exception, of the provider or while reading the answer.\<close>

definition plan :: "string \<Rightarrow> exn + planned_node list option \<Rightarrow> task_dag" where
  "plan goal answer = (case answer of Inl _ \<Rightarrow> fallback_dag goal | Inr a \<Rightarrow> parse_response goal a)"

definition replan :: "string \<Rightarrow> exn + planned_node list option \<Rightarrow> task_dag" where
  "replan goal answer = (case answer of Inl _ \<Rightarrow> empty_dag goal | Inr a \<Rightarrow> parse_response goal a)"

section \<open>Results\<close>

record sub_result =
  sr_task :: string
  sr_success :: bool
  sr_output :: string
  sr_turns :: int
  sr_error :: string

datatype eval_result = Normal | Abnormal string bool

definition false_mark :: string where "false_mark = ''[success=False]''"

definition evaluate :: "string \<Rightarrow> string \<Rightarrow> eval_result" where
  "evaluate output expected =
     (if str_strip output = [] then Abnormal (''Empty output (expected: '' @ expected @ '')'') False
      else if startswith output false_mark then
        Abnormal (str_strip (drop (length false_mark) output)) (str_contains (str_lower output) ''timed out'')
      else Normal)"

datatype spawn_outcome = SpRaised exn | SpTimeout | SpResult sub_result

definition difficulty_timeout :: "string \<Rightarrow> int" where
  "difficulty_timeout d = (if d = ''low'' then 60 else if d = ''medium'' then 180 else if d = ''high'' then 600 else 180)"

definition failed_result :: "string \<Rightarrow> string \<Rightarrow> sub_result" where
  "failed_result tid why = \<lparr>sr_task = tid, sr_success = False, sr_output = false_mark @ '' '' @ why, sr_turns = 0, sr_error = []\<rparr>"

section \<open>Executor\<close>

type_synonym spawner = "nat \<Rightarrow> task_node \<Rightarrow> (string, string) dict \<Rightarrow> int \<Rightarrow> spawn_outcome"

text \<open>The variables of \<open>execute\<close>, with the number of starts and the nodes started as ghosts.\<close>

record dag_state =
  ds_results :: "(string, sub_result) dict"
  ds_completed :: "string set"
  ds_failed :: "string set"
  ds_context :: "(string, string) dict"
  ds_started :: "string list"
  ds_starts :: nat

definition run_node :: "spawner \<Rightarrow> nat \<Rightarrow> (string, string) dict \<Rightarrow> task_node \<Rightarrow> exn + sub_result" where
  "run_node spawn n context node =
     (let t = difficulty_timeout (tn_difficulty node) in
      case spawn n node context t of
        SpRaised e \<Rightarrow> Inl e
      | SpTimeout \<Rightarrow> Inr (failed_result (tn_id node) (''Tool execution timed out after '' @ int_str t @ ''s.''))
      | SpResult r \<Rightarrow> Inr r)"

definition absorb :: "task_node \<Rightarrow> exn + sub_result \<Rightarrow> dag_state \<Rightarrow> dag_state" where
  "absorb node result st =
     (case result of
        Inl e \<Rightarrow> st\<lparr>ds_results := dset (tn_id node) (failed_result (tn_id node) (''Exception: '' @ exn_str e)) (ds_results st),
                  ds_failed := insert (tn_id node) (ds_failed st)\<rparr>
      | Inr r \<Rightarrow>
          let st1 = st\<lparr>ds_results := dset (tn_id node) r (ds_results st)\<rparr> in
          if evaluate (sr_output r) (tn_expected node) = Normal
          then st1\<lparr>ds_context := dset (tn_id node) (sr_output r) (ds_context st1), ds_completed := insert (tn_id node) (ds_completed st1)\<rparr>
          else st1\<lparr>ds_failed := insert (tn_id node) (ds_failed st1)\<rparr>)"

definition undecided :: "(string, task_node) dict \<Rightarrow> dag_state \<Rightarrow> string list" where
  "undecided nodes st = filter (\<lambda>nid. nid \<notin> ds_completed st \<and> nid \<notin> ds_failed st) (dkeys nodes)"

definition node_of :: "(string, task_node) dict \<Rightarrow> string \<Rightarrow> task_node" where
  "node_of nodes nid = the (dget nodes nid)"

definition ready_nodes :: "(string, task_node) dict \<Rightarrow> dag_state \<Rightarrow> task_node list" where
  "ready_nodes nodes st =
     filter (\<lambda>n. set (tn_depends_on n) \<subseteq> ds_completed st) (map (node_of nodes) (undecided nodes st))"

definition skip_all :: "(string, task_node) dict \<Rightarrow> dag_state \<Rightarrow> dag_state" where
  "skip_all nodes st =
     fold (\<lambda>nid st. st\<lparr>ds_results := dset nid (failed_result nid ''Skipped: dependency failed'') (ds_results st),
        ds_failed := insert nid (ds_failed st)\<rparr>) (undecided nodes st) st"

definition run_batch :: "spawner \<Rightarrow> task_node list \<Rightarrow> dag_state \<Rightarrow> dag_state" where
  "run_batch spawn ready st =
     (let results = map (\<lambda>(i, node). run_node spawn (ds_starts st + i) (ds_context st) node) (enumerate 0 ready) in
      fold (\<lambda>(node, r). absorb node r) (zip ready results)
        (st\<lparr>ds_started := ds_started st @ map tn_id ready, ds_starts := ds_starts st + length ready\<rparr>))"

text \<open>
  The loop of \<open>execute\<close>, which ends when every id is completed or failed. It may run forever on a graph whose nodes are
  filed under other ids than their own, so not returning is the value \<open>None\<close>.
\<close>

partial_function (option) exec_loop :: "spawner \<Rightarrow> (string, task_node) dict \<Rightarrow> dag_state \<Rightarrow> dag_state option" where
  "exec_loop spawn nodes st =
     (if ds_completed st \<union> ds_failed st = set (dkeys nodes) then Some st
      else
        let ready = ready_nodes nodes st in
        if ready = [] then Some (skip_all nodes st)
        else exec_loop spawn nodes (run_batch spawn ready st))"

definition initial_state :: "task_dag \<Rightarrow> nat \<Rightarrow> dag_state" where
  "initial_state dag starts =
     \<lparr>ds_results = [], ds_completed = {}, ds_failed = {}, ds_context = td_context dag, ds_started = [], ds_starts = starts\<rparr>"

definition execute_dag :: "spawner \<Rightarrow> task_dag \<Rightarrow> nat \<Rightarrow> dag_state option" where
  "execute_dag spawn dag starts = exec_loop spawn (td_nodes dag) (initial_state dag starts)"

section \<open>What a run of the graph does\<close>

definition verdict_ok :: "(string, task_node) dict \<Rightarrow> dag_state \<Rightarrow> string \<Rightarrow> bool" where
  "verdict_ok nodes st nid =
     (case dget (ds_results st) nid of
        None \<Rightarrow> False
      | Some r \<Rightarrow> nid \<in> ds_completed st \<longleftrightarrow> evaluate (sr_output r) (tn_expected (node_of nodes nid)) = Normal)"

lemma verdict_ok_cong:
  "dget (ds_results s) nid = dget (ds_results t) nid \<Longrightarrow> (nid \<in> ds_completed s \<longleftrightarrow> nid \<in> ds_completed t)
   \<Longrightarrow> verdict_ok nodes s nid = verdict_ok nodes t nid"
  by (auto simp: verdict_ok_def split: option.splits)

fun after_deps :: "(string, task_node) dict \<Rightarrow> string set \<Rightarrow> string list \<Rightarrow> bool" where
  "after_deps nodes before [] = True"
| "after_deps nodes before (x # xs) = (set (tn_depends_on (node_of nodes x)) \<subseteq> before \<and> after_deps nodes (insert x before) xs)"

lemma after_deps_append:
  "after_deps nodes b (xs @ ys) \<longleftrightarrow> after_deps nodes b xs \<and> after_deps nodes (b \<union> set xs) ys"
  by (induction xs arbitrary: b) auto

lemma after_deps_batch:
  "(\<And>x. x \<in> set xs \<Longrightarrow> set (tn_depends_on (node_of nodes x)) \<subseteq> b) \<Longrightarrow> after_deps nodes b xs"
proof (induction xs arbitrary: b)
  case (Cons x xs)
  then have "after_deps nodes (insert x b) xs" by (intro Cons.IH) (auto dest: subsetD)
  with Cons.prems show ?case by simp
qed simp

lemma absorb_decided:
  "ds_completed (absorb node r st) \<union> ds_failed (absorb node r st) = insert (tn_id node) (ds_completed st \<union> ds_failed st)"
  by (auto simp: absorb_def Let_def split: sum.split)

lemma fold_absorb_decided:
  "length rs = length ns \<Longrightarrow>
     ds_completed (fold (\<lambda>(node, r). absorb node r) (zip ns rs) st) \<union> ds_failed (fold (\<lambda>(node, r). absorb node r) (zip ns rs) st)
       = tn_id ` set ns \<union> (ds_completed st \<union> ds_failed st)"
proof (induction ns arbitrary: rs st)
  case (Cons n ns)
  then obtain r rs' where "rs = r # rs'" by (cases rs) auto
  with Cons show ?case by (simp add: absorb_decided)
qed simp

lemma run_batch_decided:
  "ds_completed (run_batch spawn ready st) \<union> ds_failed (run_batch spawn ready st)
     = tn_id ` set ready \<union> (ds_completed st \<union> ds_failed st)"
  unfolding run_batch_def Let_def by (subst fold_absorb_decided) simp_all

text \<open>The invariant of the loop: the started nodes are the decided ones, each with its verdict.\<close>

definition exec_inv :: "(string, task_node) dict \<Rightarrow> dag_state \<Rightarrow> bool" where
  "exec_inv nodes st \<longleftrightarrow>
     distinct (ds_started st) \<and> set (ds_started st) \<subseteq> set (dkeys nodes) \<and>
     ds_completed st \<union> ds_failed st = set (ds_started st) \<and> ds_completed st \<inter> ds_failed st = {} \<and>
     set (dkeys (ds_results st)) = set (ds_started st) \<and>
     (\<forall>nid \<in> set (ds_started st). set (tn_depends_on (node_of nodes nid)) \<subseteq> ds_completed st \<and> verdict_ok nodes st nid) \<and>
     after_deps nodes {} (ds_started st)"

text \<open>The part of it that absorbing one result keeps, for the set \<open>D\<close> of decided nodes.\<close>

definition decided_inv :: "(string, task_node) dict \<Rightarrow> string set \<Rightarrow> dag_state \<Rightarrow> bool" where
  "decided_inv nodes D st \<longleftrightarrow>
     ds_completed st \<union> ds_failed st = D \<and> ds_completed st \<inter> ds_failed st = {} \<and> set (dkeys (ds_results st)) = D \<and>
     (\<forall>nid \<in> D. verdict_ok nodes st nid)"

lemma marked_abnormal: "evaluate (false_mark @ x) e \<noteq> Normal"
  by (simp add: evaluate_def startswith_prefix)

lemma failed_abnormal: "evaluate (sr_output (failed_result tid why)) e \<noteq> Normal"
  by (simp add: failed_result_def marked_abnormal)

lemma absorb_shape:
  obtains r' where "ds_results (absorb n r st) = dset (tn_id n) r' (ds_results st)"
    "evaluate (sr_output r') (tn_expected n) = Normal \<Longrightarrow>
       ds_completed (absorb n r st) = insert (tn_id n) (ds_completed st) \<and> ds_failed (absorb n r st) = ds_failed st"
    "evaluate (sr_output r') (tn_expected n) \<noteq> Normal \<Longrightarrow>
       ds_failed (absorb n r st) = insert (tn_id n) (ds_failed st) \<and> ds_completed (absorb n r st) = ds_completed st"
proof (cases r)
  case (Inl e)
  show ?thesis by (rule that [of "failed_result (tn_id n) (''Exception: '' @ exn_str e)"])
      (simp_all add: absorb_def Inl failed_abnormal)
next
  case (Inr r')
  show ?thesis by (rule that [of r']) (simp_all add: absorb_def Inr Let_def)
qed

lemma absorb_inv:
  assumes "decided_inv nodes D st" "tn_id n \<notin> D" "node_of nodes (tn_id n) = n"
  shows "decided_inv nodes (insert (tn_id n) D) (absorb n r st)"
proof -
  from absorb_shape [where n = n and r = r and st = st] obtain r' where r': "ds_results (absorb n r st) = dset (tn_id n) r' (ds_results st)"
    "evaluate (sr_output r') (tn_expected n) = Normal \<Longrightarrow>
       ds_completed (absorb n r st) = insert (tn_id n) (ds_completed st) \<and> ds_failed (absorb n r st) = ds_failed st"
    "evaluate (sr_output r') (tn_expected n) \<noteq> Normal \<Longrightarrow>
       ds_failed (absorb n r st) = insert (tn_id n) (ds_failed st) \<and> ds_completed (absorb n r st) = ds_completed st" by metis
  have keys: "set (dkeys (ds_results (absorb n r st))) = insert (tn_id n) D"
    using assms(1) unfolding r'(1) set_dkeys_dset by (simp add: decided_inv_def)
  have verdicts: "\<forall>nid \<in> insert (tn_id n) D. verdict_ok nodes (absorb n r st) nid"
  proof
    fix nid
    assume "nid \<in> insert (tn_id n) D"
    then consider "nid = tn_id n" | "nid \<noteq> tn_id n" "nid \<in> D" by blast
    then show "verdict_ok nodes (absorb n r st) nid"
    proof cases
      case 1
      then show ?thesis unfolding verdict_ok_def r'(1) using assms r'(2,3)
        by (cases "evaluate (sr_output r') (tn_expected n) = Normal") (simp_all add: decided_inv_def, blast)
    next
      case 2
      then have "verdict_ok nodes st nid" using assms(1) by (simp add: decided_inv_def)
      moreover have "dget (ds_results (absorb n r st)) nid = dget (ds_results st) nid" using 2 by (simp add: r'(1))
      moreover have "nid \<in> ds_completed (absorb n r st) \<longleftrightarrow> nid \<in> ds_completed st"
        using 2 r'(2,3) by (cases "evaluate (sr_output r') (tn_expected n) = Normal") simp_all
      ultimately show ?thesis using verdict_ok_cong by blast
    qed
  qed
  show ?thesis unfolding decided_inv_def
  proof (intro conjI)
    show "ds_completed (absorb n r st) \<union> ds_failed (absorb n r st) = insert (tn_id n) D"
      using assms(1) by (simp add: absorb_decided decided_inv_def)
    show "ds_completed (absorb n r st) \<inter> ds_failed (absorb n r st) = {}"
      using assms(1,2) r'(2,3) unfolding decided_inv_def
      by (cases "evaluate (sr_output r') (tn_expected n) = Normal") auto
  qed (fact keys verdicts)+
qed

lemma absorb_mono: "ds_completed st \<subseteq> ds_completed (absorb n r st)"
  by (auto simp: absorb_def Let_def split: sum.split)

lemma absorb_started [simp]: "ds_started (absorb n r st) = ds_started st"
  by (auto simp: absorb_def Let_def split: sum.split)

lemma fold_absorb_inv:
  assumes "decided_inv nodes D st" "length rs = length ns" "distinct (map tn_id ns)"
    "\<And>n. n \<in> set ns \<Longrightarrow> tn_id n \<notin> D \<and> node_of nodes (tn_id n) = n"
  shows "decided_inv nodes (D \<union> tn_id ` set ns) (fold (\<lambda>(node, r). absorb node r) (zip ns rs) st)"
  using assms
proof (induction ns arbitrary: rs st D)
  case (Cons n ns)
  then obtain r rs' where rs: "rs = r # rs'" by (cases rs) auto
  have "decided_inv nodes (insert (tn_id n) D) (absorb n r st)"
    using Cons.prems(1,4) by (intro absorb_inv) auto
  with Cons.prems have
    "decided_inv nodes (insert (tn_id n) D \<union> tn_id ` set ns) (fold (\<lambda>(node, r). absorb node r) (zip ns rs') (absorb n r st))"
    by (intro Cons.IH) (auto simp: rs, metis image_eqI)
  then show ?case by (simp add: rs)
qed simp

lemma fold_absorb_keeps:
  "ds_completed st \<subseteq> ds_completed (fold (\<lambda>(node, r). absorb node r) ps st) \<and>
   ds_started (fold (\<lambda>(node, r). absorb node r) ps st) = ds_started st"
proof (induction ps arbitrary: st)
  case (Cons p ps)
  obtain n r where "p = (n, r)" by (cases p)
  with Cons [of "absorb n r st"] absorb_mono [of st n r] show ?case by auto
qed simp

text \<open>A graph whose nodes are filed under their ids, as the planner builds it.\<close>

definition dag_ok :: "(string, task_node) dict \<Rightarrow> bool" where
  "dag_ok nodes \<longleftrightarrow> distinct (dkeys nodes) \<and> (\<forall>(k, n) \<in> set nodes. tn_id n = k)"

lemma node_of_id: "dag_ok nodes \<Longrightarrow> nid \<in> set (dkeys nodes) \<Longrightarrow> tn_id (node_of nodes nid) = nid"
  by (auto simp: dag_ok_def node_of_def dest: map_of_SomeD split: option.splits)

lemma undecided_ready:
  assumes "dag_ok nodes"
  shows "map tn_id (ready_nodes nodes st)
    = filter (\<lambda>nid. set (tn_depends_on (node_of nodes nid)) \<subseteq> ds_completed st) (undecided nodes st)"
proof -
  have "\<And>nid. nid \<in> set (undecided nodes st) \<Longrightarrow> tn_id (node_of nodes nid) = nid"
    using assms node_of_id by (auto simp: undecided_def)
  then have "map (tn_id \<circ> node_of nodes) (filter (\<lambda>nid. set (tn_depends_on (node_of nodes nid)) \<subseteq> ds_completed st) (undecided nodes st))
    = filter (\<lambda>nid. set (tn_depends_on (node_of nodes nid)) \<subseteq> ds_completed st) (undecided nodes st)"
    by (intro map_idI) auto
  then show ?thesis by (simp add: ready_nodes_def filter_map comp_def)
qed

lemma ready_node:
  assumes "dag_ok nodes" "n \<in> set (ready_nodes nodes st)"
  shows "tn_id n \<in> set (dkeys nodes)" "node_of nodes (tn_id n) = n" "tn_id n \<notin> ds_completed st \<union> ds_failed st"
    "set (tn_depends_on n) \<subseteq> ds_completed st"
proof -
  from assms(2) obtain nid where "nid \<in> set (undecided nodes st)" "n = node_of nodes nid" "set (tn_depends_on n) \<subseteq> ds_completed st"
    by (auto simp: ready_nodes_def)
  with assms(1) node_of_id show "tn_id n \<in> set (dkeys nodes)" "node_of nodes (tn_id n) = n" "tn_id n \<notin> ds_completed st \<union> ds_failed st"
    "set (tn_depends_on n) \<subseteq> ds_completed st" by (auto simp: undecided_def)
qed

lemma distinct_ready: "dag_ok nodes \<Longrightarrow> distinct (map tn_id (ready_nodes nodes st))"
  by (simp add: undecided_ready) (simp add: undecided_def dag_ok_def)

text \<open>One batch, and the end of the loop.\<close>

lemma exec_inv_decided: "exec_inv nodes st \<Longrightarrow> decided_inv nodes (set (ds_started st)) st"
  by (simp add: exec_inv_def decided_inv_def)

lemma run_batch_shape:
  obtains ps where "run_batch spawn ready st = fold (\<lambda>(node, r). absorb node r) (zip ready ps)
      (st\<lparr>ds_started := ds_started st @ map tn_id ready, ds_starts := ds_starts st + length ready\<rparr>)"
    "length ps = length ready"
  by (rule that [of "map (\<lambda>(i, node). run_node spawn (ds_starts st + i) (ds_context st) node) (enumerate 0 ready)"])
    (simp_all add: run_batch_def)

lemma run_batch_inv:
  assumes ok: "dag_ok nodes" and inv: "exec_inv nodes st"
  shows "exec_inv nodes (run_batch spawn (ready_nodes nodes st) st)"
proof -
  let ?ready = "ready_nodes nodes st"
  let ?st0 = "st\<lparr>ds_started := ds_started st @ map tn_id ?ready, ds_starts := ds_starts st + length ?ready\<rparr>"
  obtain ps where ps: "run_batch spawn ?ready st = fold (\<lambda>(node, r). absorb node r) (zip ?ready ps) ?st0" "length ps = length ?ready"
    by (rule run_batch_shape)
  let ?st' = "run_batch spawn ?ready st"
  have started: "ds_started ?st' = ds_started st @ map tn_id ?ready"
    and mono: "ds_completed st \<subseteq> ds_completed ?st'"
    unfolding ps(1) using fold_absorb_keeps [of ?st0 "zip ?ready ps"] by simp_all
  have dec: "ds_completed st \<union> ds_failed st = set (ds_started st)" using inv by (simp add: exec_inv_def)
  note node = ready_node [OF ok]
  have fresh: "\<And>n. n \<in> set ?ready \<Longrightarrow> tn_id n \<notin> set (ds_started st)" using node(3) dec by blast
  have "decided_inv nodes (set (ds_started st)) ?st0"
    using exec_inv_decided [OF inv] verdict_ok_cong [of ?st0 _ st] by (simp add: decided_inv_def)
  then have "decided_inv nodes (set (ds_started st) \<union> tn_id ` set ?ready) ?st'"
    unfolding ps(1) using ps(2) distinct_ready [OF ok] node(2) fresh by (intro fold_absorb_inv) auto
  then have D: "decided_inv nodes (set (ds_started ?st')) ?st'" by (simp add: started)
  have deps: "\<forall>nid \<in> set (ds_started ?st'). set (tn_depends_on (node_of nodes nid)) \<subseteq> ds_completed ?st'"
    using inv mono node(2,4) unfolding started by (auto simp: exec_inv_def) blast+
  have "distinct (ds_started ?st')"
    using inv distinct_ready [OF ok] fresh by (auto simp: started exec_inv_def)
  moreover have "set (ds_started ?st') \<subseteq> set (dkeys nodes)"
    using inv node(1) by (auto simp: started exec_inv_def simp del: list.set_map)
  moreover have "after_deps nodes {} (ds_started ?st')"
    unfolding started after_deps_append
    using inv node(2,4) dec by (auto simp: exec_inv_def intro!: after_deps_batch) blast
  ultimately show ?thesis using D deps by (simp add: exec_inv_def decided_inv_def)
qed

lemma undecided_iff: "undecided nodes st = [] \<longleftrightarrow> set (dkeys nodes) \<subseteq> ds_completed st \<union> ds_failed st"
  by (auto simp: undecided_def filter_empty_conv)

lemma run_batch_progress:
  assumes "dag_ok nodes" "ready_nodes nodes st \<noteq> []"
  shows "length (undecided nodes (run_batch spawn (ready_nodes nodes st) st)) < length (undecided nodes st)"
proof -
  let ?st' = "run_batch spawn (ready_nodes nodes st) st"
  obtain n where n: "n \<in> set (ready_nodes nodes st)" using assms(2) by (cases "ready_nodes nodes st") auto
  note r = ready_node [OF assms(1) n]
  have "undecided nodes ?st' = filter (\<lambda>nid. nid \<notin> ds_completed ?st' \<union> ds_failed ?st') (undecided nodes st)"
    using run_batch_decided [of spawn "ready_nodes nodes st" st] by (auto simp: undecided_def intro!: filter_cong)
  moreover have "tn_id n \<in> set (undecided nodes st)" using r(1,3) by (simp add: undecided_def del: list.set_map)
  moreover have "tn_id n \<in> ds_completed ?st' \<union> ds_failed ?st'" using n by (simp add: run_batch_decided)
  ultimately show ?thesis by (metis length_filter_less)
qed

lemma fst_dset [simp]: "fst ` set (dset k v d) = insert k (fst ` set d)"
  by (induction d) auto

lemma skip_all_effect:
  fixes nodes st
  defines "st' \<equiv> skip_all nodes st"
  shows "ds_completed st' = ds_completed st" "ds_started st' = ds_started st"
    "ds_failed st' = ds_failed st \<union> set (undecided nodes st)"
    "dget (ds_results st') nid =
       (if nid \<in> set (undecided nodes st) then Some (failed_result nid ''Skipped: dependency failed'') else dget (ds_results st) nid)"
    "set (dkeys (ds_results st')) = set (dkeys (ds_results st)) \<union> set (undecided nodes st)"
proof -
  obtain us where us: "us = undecided nodes st" by simp
  let ?f = "\<lambda>nid st. st\<lparr>ds_results := dset nid (failed_result nid ''Skipped: dependency failed'') (ds_results st),
        ds_failed := insert nid (ds_failed st)\<rparr>"
  have "ds_completed (fold ?f us s) = ds_completed s \<and> ds_started (fold ?f us s) = ds_started s \<and>
      ds_failed (fold ?f us s) = ds_failed s \<union> set us \<and>
      dget (ds_results (fold ?f us s)) nid =
        (if nid \<in> set us then Some (failed_result nid ''Skipped: dependency failed'') else dget (ds_results s) nid) \<and>
      set (dkeys (ds_results (fold ?f us s))) = set (dkeys (ds_results s)) \<union> set us" for s
    by (induction us arbitrary: s) simp_all
  from this [of st] show "ds_completed st' = ds_completed st" "ds_started st' = ds_started st"
    "ds_failed st' = ds_failed st \<union> set (undecided nodes st)"
    "dget (ds_results st') nid =
       (if nid \<in> set (undecided nodes st) then Some (failed_result nid ''Skipped: dependency failed'') else dget (ds_results st) nid)"
    "set (dkeys (ds_results st')) = set (dkeys (ds_results st)) \<union> set (undecided nodes st)"
    by (simp_all add: st'_def skip_all_def us)
qed

text \<open>What a finished run says of a node.\<close>

definition node_outcome :: "(string, task_node) dict \<Rightarrow> dag_state \<Rightarrow> string \<Rightarrow> bool" where
  "node_outcome nodes st nid =
     (if set (tn_depends_on (node_of nodes nid)) \<subseteq> ds_completed st
      then nid \<in> set (ds_started st) \<and> verdict_ok nodes st nid
      else nid \<notin> set (ds_started st) \<and> nid \<notin> ds_completed st
        \<and> dget (ds_results st) nid = Some (failed_result nid ''Skipped: dependency failed''))"

definition exec_end :: "(string, task_node) dict \<Rightarrow> dag_state \<Rightarrow> bool" where
  "exec_end nodes st \<longleftrightarrow>
     set (dkeys (ds_results st)) = set (dkeys nodes) \<and> set (ds_started st) \<subseteq> set (dkeys nodes) \<and>
     ds_completed st \<subseteq> set (ds_started st) \<and> distinct (ds_started st) \<and> after_deps nodes {} (ds_started st) \<and>
     (\<forall>nid \<in> set (dkeys nodes). node_outcome nodes st nid)"

lemma exec_end_all_decided:
  assumes "exec_inv nodes st" "ds_completed st \<union> ds_failed st = set (dkeys nodes)"
  shows "exec_end nodes st"
  using assms unfolding exec_end_def exec_inv_def node_outcome_def by (auto simp del: list.set_map)

lemma exec_end_skip:
  assumes ok: "dag_ok nodes" and inv: "exec_inv nodes st" and none: "ready_nodes nodes st = []"
  shows "exec_end nodes (skip_all nodes st)"
proof -
  note sk = skip_all_effect [of nodes st]
  have dec: "ds_completed st \<union> ds_failed st = set (ds_started st)" "set (ds_started st) \<subseteq> set (dkeys nodes)"
    "set (dkeys (ds_results st)) = set (ds_started st)"
    using inv by (simp_all add: exec_inv_def)
  have und: "set (undecided nodes st) = set (dkeys nodes) - set (ds_started st)"
    using dec(1) by (auto simp: undecided_def)
  have stuck: "\<And>nid. nid \<in> set (undecided nodes st) \<Longrightarrow> \<not> set (tn_depends_on (node_of nodes nid)) \<subseteq> ds_completed st"
    using none by (simp add: ready_nodes_def filter_empty_conv)
  have "node_outcome nodes (skip_all nodes st) nid" if nid: "nid \<in> set (dkeys nodes)" for nid
  proof (cases "nid \<in> set (ds_started st)")
    case True
    then have "verdict_ok nodes st nid" "set (tn_depends_on (node_of nodes nid)) \<subseteq> ds_completed st"
      using inv by (simp_all add: exec_inv_def)
    moreover have "verdict_ok nodes (skip_all nodes st) nid = verdict_ok nodes st nid"
      by (rule verdict_ok_cong) (use True und in \<open>simp_all add: sk\<close>)
    ultimately show ?thesis using True by (simp add: node_outcome_def sk)
  next
    case False
    with nid und have "nid \<in> set (undecided nodes st)" by blast
    with stuck [OF this] False dec(1) show ?thesis by (auto simp: node_outcome_def sk)
  qed
  moreover have "set (dkeys (ds_results (skip_all nodes st))) = set (dkeys nodes)"
    unfolding sk(5) using dec und by blast
  ultimately show ?thesis using inv unfolding exec_end_def exec_inv_def sk(1,2) by blast
qed

lemma exec_loop_ends:
  assumes "dag_ok nodes" "exec_inv nodes st"
  shows "\<exists>st'. exec_loop spawn nodes st = Some st' \<and> exec_end nodes st'"
  using assms(2)
proof (induction "length (undecided nodes st)" arbitrary: st rule: less_induct)
  case less
  consider "ds_completed st \<union> ds_failed st = set (dkeys nodes)"
    | "ds_completed st \<union> ds_failed st \<noteq> set (dkeys nodes)" "ready_nodes nodes st = []"
    | "ds_completed st \<union> ds_failed st \<noteq> set (dkeys nodes)" "ready_nodes nodes st \<noteq> []" by blast
  then show ?case
  proof cases
    case 1
    with less.prems show ?thesis by (simp add: exec_loop.simps exec_end_all_decided del: list.set_map)
  next
    case 2
    with less.prems exec_end_skip [OF assms(1)] show ?thesis by (simp add: exec_loop.simps del: list.set_map)
  next
    case 3
    from less.hyps [OF run_batch_progress [OF assms(1) 3(2)] run_batch_inv [OF assms(1) less.prems]] 3
    show ?thesis by (subst exec_loop.simps) (simp add: Let_def del: list.set_map)
  qed
qed

lemma initial_inv: "exec_inv nodes (initial_state dag n)"
  by (simp add: exec_inv_def initial_state_def)

text \<open>The planner files every task under its id.\<close>

lemma add_task_ok: "dag_ok nodes \<Longrightarrow> dag_ok (add_task p nodes)"
  using set_dset_subset [of "tn_id (task_of (length nodes) p)" "task_of (length nodes) p" nodes]
  by (fastforce simp: dag_ok_def add_task_def Let_def)

lemma add_tasks_ok: "dag_ok nodes \<Longrightarrow> dag_ok (fold add_task ns nodes)"
  by (induction ns arbitrary: nodes) (auto intro: add_task_ok)

lemma fallback_ok: "dag_ok (td_nodes (fallback_dag goal))"
  by (simp add: dag_ok_def fallback_dag_def)

lemma parse_response_ok: "dag_ok (td_nodes (parse_response goal a))"
proof -
  have "dag_ok (fold add_task ns [])" for ns by (rule add_tasks_ok) (simp add: dag_ok_def)
  then show ?thesis by (simp add: parse_response_def fallback_ok split: option.split)
qed

lemma plan_ok: "dag_ok (td_nodes (plan goal a))"
  by (simp add: plan_def parse_response_ok fallback_ok split: sum.split)

lemma replan_ok: "dag_ok (td_nodes (replan goal a))"
  by (simp add: replan_def parse_response_ok split: sum.split) (simp add: empty_dag_def dag_ok_def)

text \<open>A successful result of a run is what a start of that very node returned.\<close>

definition success_origin :: "spawner \<Rightarrow> (string, task_node) dict \<Rightarrow> dag_state \<Rightarrow> bool" where
  "success_origin spawn nodes st \<longleftrightarrow>
     (\<forall>nid r. dget (ds_results st) nid = Some r \<longrightarrow> sr_success r \<longrightarrow> (\<exists>k ctx t. spawn k (node_of nodes nid) ctx t = SpResult r))"

lemma absorb_origin:
  assumes "success_origin spawn nodes st" "node_of nodes (tn_id n) = n"
  shows "success_origin spawn nodes (absorb n (run_node spawn k ctx n) st)"
  using assms
  by (fastforce simp: success_origin_def absorb_def run_node_def failed_result_def Let_def split: spawn_outcome.split)

lemma fold_absorb_origin:
  assumes "success_origin spawn nodes st" "\<And>n. n \<in> set ns \<Longrightarrow> node_of nodes (tn_id n) = n"
  shows "success_origin spawn nodes
     (fold (\<lambda>(node, r). absorb node r) (zip ns (map (\<lambda>(i, node). run_node spawn (k + i) ctx node) (enumerate j ns))) st)"
  using assms
proof (induction ns arbitrary: st j)
  case (Cons n ns)
  then have "success_origin spawn nodes (absorb n (run_node spawn (k + j) ctx n) st)" by (intro absorb_origin) auto
  with Cons show ?case by simp
qed simp

lemma run_batch_origin:
  assumes "dag_ok nodes" "success_origin spawn nodes st"
  shows "success_origin spawn nodes (run_batch spawn (ready_nodes nodes st) st)"
  unfolding run_batch_def Let_def
  by (rule fold_absorb_origin) (use assms ready_node(2) in \<open>auto simp: success_origin_def\<close>)

text \<open>What the batches and the skipping keep, the loop keeps.\<close>

lemma exec_loop_keeps:
  assumes "exec_loop spawn nodes st = Some st'" "P st"
    "\<And>s. P s \<Longrightarrow> P (run_batch spawn (ready_nodes nodes s) s)" "\<And>s. P s \<Longrightarrow> P (skip_all nodes s)"
  shows "P st'"
proof -
  have "(\<forall>s. P s \<longrightarrow> P (run_batch spawn (ready_nodes nodes s) s)) \<longrightarrow> (\<forall>s. P s \<longrightarrow> P (skip_all nodes s)) \<longrightarrow> P st \<longrightarrow> P st'"
  proof (rule exec_loop.raw_induct [OF _ assms(1)], goal_cases)
    case (1 f spawn nodes st st')
    then show ?case unfolding Let_def by (metis option.inject)
  qed
  with assms(2-4) show ?thesis by blast
qed

lemma exec_loop_origin:
  assumes "dag_ok nodes" "exec_loop spawn nodes st = Some st'" "success_origin spawn nodes st"
  shows "success_origin spawn nodes st'"
  using assms(2,3) run_batch_origin [OF assms(1)]
proof (rule exec_loop_keeps)
  show "success_origin spawn nodes (skip_all nodes s)" if "success_origin spawn nodes s" for s
    using that by (auto simp: success_origin_def skip_all_effect failed_result_def)
qed

text \<open>The number of starts of a run.\<close>

lemma fold_absorb_starts: "ds_starts (fold (\<lambda>(node, r). absorb node r) ps st) = ds_starts st"
  by (induction ps arbitrary: st) (auto simp: absorb_def Let_def split: sum.split)

lemma run_batch_starts:
  "ds_starts (run_batch spawn ready st) + length (ds_started st) = ds_starts st + length (ds_started (run_batch spawn ready st))"
  by (simp add: run_batch_def fold_absorb_starts fold_absorb_keeps)

lemma skip_all_starts: "ds_starts (skip_all nodes st) = ds_starts st"
proof -
  have "ds_starts (fold (\<lambda>nid st. st\<lparr>ds_results := dset nid (f nid) (ds_results st), ds_failed := insert nid (ds_failed st)\<rparr>) us s)
      = ds_starts s" for f us s
    by (induction us arbitrary: s) simp_all
  then show ?thesis by (simp add: skip_all_def)
qed

lemma exec_loop_starts:
  assumes "exec_loop spawn nodes st = Some st'"
  shows "ds_starts st' + length (ds_started st) = ds_starts st + length (ds_started st')"
proof (rule exec_loop_keeps [OF assms])
  fix s :: dag_state
  assume "ds_starts s + length (ds_started st) = ds_starts st + length (ds_started s)"
  then show "ds_starts (run_batch spawn (ready_nodes nodes s) s) + length (ds_started st)
      = ds_starts st + length (ds_started (run_batch spawn (ready_nodes nodes s) s))"
    using run_batch_starts [of spawn "ready_nodes nodes s" s] by simp
qed (simp_all add: skip_all_starts skip_all_effect)

lemma fold_absorb_distinct:
  "distinct (dkeys (ds_results st)) \<Longrightarrow> distinct (dkeys (ds_results (fold (\<lambda>(node, r). absorb node r) ps st)))"
  by (induction ps arbitrary: st) (auto simp: absorb_def Let_def split: sum.split)

lemma skip_all_distinct:
  assumes "distinct (dkeys (ds_results st))"
  shows "distinct (dkeys (ds_results (skip_all nodes st)))"
proof -
  have "distinct (dkeys (ds_results s)) \<Longrightarrow> distinct (dkeys (ds_results
      (fold (\<lambda>nid st. st\<lparr>ds_results := dset nid (f nid) (ds_results st), ds_failed := insert nid (ds_failed st)\<rparr>) us s)))"
    for f us s
    by (induction us arbitrary: s) simp_all
  with assms show ?thesis by (simp add: skip_all_def)
qed

lemma exec_loop_distinct:
  assumes "exec_loop spawn nodes st = Some st'" "distinct (dkeys (ds_results st))"
  shows "distinct (dkeys (ds_results st'))"
  using assms
proof (rule exec_loop_keeps)
  show "distinct (dkeys (ds_results (run_batch spawn (ready_nodes nodes s) s)))" if "distinct (dkeys (ds_results s))" for s
    unfolding run_batch_def Let_def by (rule fold_absorb_distinct) (simp add: that)
qed (rule skip_all_distinct)

lemma execute_dag_facts:
  assumes "dag_ok (td_nodes dag)"
  obtains st where "execute_dag spawn dag n = Some st" "exec_end (td_nodes dag) st"
    "success_origin spawn (td_nodes dag) st" "ds_starts st \<le> n + length (td_nodes dag)"
    "distinct (dkeys (ds_results st))"
proof -
  obtain st where st: "exec_loop spawn (td_nodes dag) (initial_state dag n) = Some st" "exec_end (td_nodes dag) st"
    using exec_loop_ends [OF assms initial_inv] by blast
  have "success_origin spawn (td_nodes dag) st"
    by (rule exec_loop_origin [OF assms st(1)]) (simp add: success_origin_def initial_state_def)
  moreover have "length (ds_started st) \<le> length (td_nodes dag)"
  proof -
    have sub: "set (ds_started st) \<subseteq> set (dkeys (td_nodes dag))" and d: "distinct (ds_started st)"
      using st(2) unfolding exec_end_def by blast+
    have "length (ds_started st) = card (set (ds_started st))" by (rule distinct_card [OF d, symmetric])
    also have "\<dots> \<le> card (set (dkeys (td_nodes dag)))" by (rule card_mono [OF _ sub]) simp
    also have "\<dots> \<le> length (dkeys (td_nodes dag))" by (rule card_length)
    finally show ?thesis by simp
  qed
  moreover have "ds_starts st = n + length (ds_started st)"
    using exec_loop_starts [OF st(1)] by (simp add: initial_state_def)
  moreover have "distinct (dkeys (ds_results st))" by (rule exec_loop_distinct [OF st(1)]) (simp add: initial_state_def)
  ultimately show ?thesis using st that by (simp add: execute_dag_def)
qed

text \<open>
  C38. For a graph whose nodes are filed under their ids, \<open>execute\<close> returns, however the sub-agents behave, with one result for every
  node and no other; a node is started at most once, and only after every node it depends on was completed; it is
  started exactly when all its dependencies are completed in the end, it is completed exactly when its result evaluates as
  normal, and a node that is not started has the result of a skipped node.
\<close>

theorem executor_runs_exactly:
  assumes "dag_ok (td_nodes dag)"
  shows "\<exists>st. execute_dag spawn dag n = Some st \<and> exec_end (td_nodes dag) st"
  unfolding execute_dag_def by (rule exec_loop_ends [OF assms initial_inv])

text \<open>A plan of two tasks, the second after the first, with a sub-agent that fails.\<close>

theorem executor_runs_exactly_witness:
  "let dag = plan ''check'' (Inr (Some [\<lparr>pn_id = Some ''a'', pn_description = None, pn_role = None, pn_depends_on = None,
         pn_difficulty = None, pn_expected = None, pn_max_retries = None\<rparr>,
       \<lparr>pn_id = Some ''b'', pn_description = None, pn_role = None, pn_depends_on = Some [''a''],
         pn_difficulty = None, pn_expected = None, pn_max_retries = None\<rparr>]))
   in \<exists>st. execute_dag (\<lambda>_ n _ _. SpResult (failed_result (tn_id n) ''down'')) dag 0 = Some st \<and> exec_end (td_nodes dag) st"
  unfolding Let_def by (rule executor_runs_exactly [OF plan_ok])

text \<open>
  The planner is told that replacement tasks may depend on tasks that were completed before. They never run: the executor of the
  replacement graph starts with nothing completed, so a replacement task that depends on a task outside its own graph is skipped.
\<close>

theorem replacement_never_runs:
  assumes "dget (td_nodes (replan goal a)) tid = Some node" "dep \<in> set (tn_depends_on node)"
    "dep \<notin> set (dkeys (td_nodes (replan goal a)))"
  shows "\<exists>st. execute_dag spawn (replan goal a) n = Some st \<and> tid \<notin> set (ds_started st) \<and>
     dget (ds_results st) tid = Some (failed_result tid ''Skipped: dependency failed'')"
proof -
  obtain st where st: "execute_dag spawn (replan goal a) n = Some st" "exec_end (td_nodes (replan goal a)) st"
    by (rule execute_dag_facts [OF replan_ok])
  have "ds_completed st \<subseteq> set (dkeys (td_nodes (replan goal a)))" "node_outcome (td_nodes (replan goal a)) st tid"
    using st(2) dget_Some_in_keys [OF assms(1)] unfolding exec_end_def by blast+
  moreover from this(1) have "\<not> set (tn_depends_on node) \<subseteq> ds_completed st" using assms(2,3) by blast
  ultimately show ?thesis using st(1) assms(1) by (simp add: node_outcome_def node_of_def)
qed

theorem replacement_never_runs_witness:
  "let answer = Inr (Some [\<lparr>pn_id = Some ''task_alt_1'', pn_description = None, pn_role = None, pn_depends_on = Some [''a''],
         pn_difficulty = None, pn_expected = None, pn_max_retries = None\<rparr>])
   in \<exists>st. execute_dag (\<lambda>_ n _ _. SpTimeout) (replan ''check'' answer) 7 = Some st \<and> ''task_alt_1'' \<notin> set (ds_started st) \<and>
     dget (ds_results st) ''task_alt_1'' = Some (failed_result ''task_alt_1'' ''Skipped: dependency failed'')"
  unfolding Let_def
  by (rule replacement_never_runs [where dep = "''a''" and node = "task_of 0 \<lparr>pn_id = Some ''task_alt_1'', pn_description = None,
         pn_role = None, pn_depends_on = Some [''a''], pn_difficulty = None, pn_expected = None, pn_max_retries = None\<rparr>"])
    (simp_all add: replan_def parse_response_def add_task_def task_of_def or_default_def empty_dag_def)

end
