(* ===== verification/Orchestrator.thy ===== *)
theory Orchestrator
  imports Task_Dag Tool_Exec
begin

text \<open>
  Sub-agents and the orchestrator: the roles (\<open>src/src/breadmind/core/role_registry.py\<close>), the loop of a sub-agent
  (\<open>core/subagent.py\<close>), the sub-agent factory, the retries, the replanning and the summary (\<open>core/orchestrator.py\<close>).

  The language model, the tools, the registry of providers and the environment are parameters. The cache of provider
  instances, progress and events are left out.
\<close>

section \<open>Roles\<close>

record role_def =
  ro_name :: string
  ro_domain :: string
  ro_task_type :: string
  ro_prompt :: string
  ro_description :: string
  ro_provider :: string
  ro_model :: string
  ro_tool_mode :: string
  ro_tools :: "string list"
  ro_persistent :: bool
  ro_created_by :: string
  ro_max_turns :: int

text \<open>A row of the table: every column may be missing, and the tools may be stored as text.\<close>

record role_row =
  rw_name :: "string option"
  rw_domain :: "string option"
  rw_task_type :: "string option"
  rw_prompt :: "string option"
  rw_description :: "string option"
  rw_provider :: "string option"
  rw_model :: "string option"
  rw_tool_mode :: "string option"
  rw_tools :: "(string + string list) option"
  rw_persistent :: "bool option"
  rw_created_by :: "string option"
  rw_max_turns :: "int option"

definition role_of :: "(string \<Rightarrow> exn + string list) \<Rightarrow> role_row \<Rightarrow> exn + role_def" where
  "role_of loads w =
     bind_res (case or_default (rw_tools w) (Inr []) of Inl s \<Rightarrow> loads s | Inr ts \<Rightarrow> Inr ts) (\<lambda>tools.
     case rw_name w of
       None \<Rightarrow> Inl (KeyError ''name'')
     | Some n \<Rightarrow> Inr
         \<lparr>ro_name = n, ro_domain = or_default (rw_domain w) ''general'', ro_task_type = or_default (rw_task_type w) ''general'',
          ro_prompt = or_default (rw_prompt w) [], ro_description = or_default (rw_description w) [],
          ro_provider = or_default (rw_provider w) [], ro_model = or_default (rw_model w) [],
          ro_tool_mode = or_default (rw_tool_mode w) ''whitelist'', ro_tools = tools,
          ro_persistent = or_default (rw_persistent w) True, ro_created_by = or_default (rw_created_by w) ''user'',
          ro_max_turns = or_default (rw_max_turns w) 5\<rparr>)"

text \<open>The roles in memory, and the rows of the table when there is a database.\<close>

record role_registry =
  rg_roles :: "(string, role_def) dict"
  rg_db :: "(string, role_def) dict option"

definition load_role :: "(string \<Rightarrow> exn + string list) \<Rightarrow> role_row \<Rightarrow> (string, role_def) dict \<times> nat \<Rightarrow> (string, role_def) dict \<times> nat" where
  "load_role loads w acc =
     (case role_of loads w of Inl _ \<Rightarrow> acc | Inr r \<Rightarrow> (dset (ro_name r) r (fst acc), snd acc + 1))"

definition load_from_db :: "(string \<Rightarrow> exn + string list) \<Rightarrow> role_row list \<Rightarrow> role_registry \<Rightarrow> nat \<times> role_registry" where
  "load_from_db loads rows g =
     (let (roles, n) = fold (load_role loads) rows (rg_roles g, 0) in (n, g\<lparr>rg_roles := roles\<rparr>))"

definition register_role :: "role_def \<Rightarrow> role_registry \<Rightarrow> role_registry" where
  "register_role r g =
     (let g1 = g\<lparr>rg_roles := dset (ro_name r) r (rg_roles g)\<rparr> in
      if ro_persistent r then g1\<lparr>rg_db := map_option (dset (ro_name r) r) (rg_db g1)\<rparr> else g1)"

definition remove_role :: "string \<Rightarrow> role_registry \<Rightarrow> bool \<times> role_registry" where
  "remove_role name g =
     (case dget (rg_roles g) name of
        None \<Rightarrow> (False, g)
      | Some r \<Rightarrow>
          let g1 = g\<lparr>rg_roles := dpop name (rg_roles g)\<rparr> in
          (True, if ro_persistent r then g1\<lparr>rg_db := map_option (dpop name) (rg_db g1)\<rparr> else g1))"

definition get_tools :: "role_registry \<Rightarrow> string \<Rightarrow> string \<times> string list" where
  "get_tools g name = (case dget (rg_roles g) name of None \<Rightarrow> (''whitelist'', []) | Some r \<Rightarrow> (ro_tool_mode r, ro_tools r))"

definition get_prompt :: "role_registry \<Rightarrow> string \<Rightarrow> string" where
  "get_prompt g name = (case dget (rg_roles g) name of None \<Rightarrow> [] | Some r \<Rightarrow> ro_prompt r)"

definition get_model_config :: "role_registry \<Rightarrow> string \<Rightarrow> string \<times> string" where
  "get_model_config g name = (case dget (rg_roles g) name of None \<Rightarrow> ([], []) | Some r \<Rightarrow> (ro_provider r, ro_model r))"

definition cleanup_transient :: "role_registry \<Rightarrow> string list \<times> role_registry" where
  "cleanup_transient g =
     (let gone = map fst (filter (\<lambda>(_, r). \<not> ro_persistent r) (rg_roles g)) in
      (gone, g\<lparr>rg_roles := fold dpop gone (rg_roles g)\<rparr>))"

definition role_summary :: "role_def \<Rightarrow> string" where
  "role_summary r =
     (let preview = str_join '', '' (take 5 (ro_tools r))
            @ (if length (ro_tools r) > 5 then '', ... (+'' @ nat_str (length (ro_tools r) - 5) @ '' more)'' else []);
          desc = (if ro_description r \<noteq> [] then ro_description r else take 80 (ro_prompt r))
      in ''  - '' @ ro_name r @ '' ['' @ ro_domain r @ ''/'' @ ro_task_type r @ '']: '' @ desc
         @ (if preview \<noteq> [] then '' | tools: '' @ preview else []))"

definition list_role_summaries :: "role_registry \<Rightarrow> string" where
  "list_role_summaries g =
     (if rg_roles g = []
      then ''No subagent roles defined. The agent can create roles dynamically using spawn_agent.''
      else str_join [CHR 0x0A] (''Available subagent roles:'' # map role_summary (dvalues (rg_roles g))))"

section \<open>A sub-agent\<close>

record chat_message =
  cm_role :: string
  cm_content :: "string option"
  cm_tool_calls :: "tool_call list"
  cm_call_id :: "string option"
  cm_name :: "string option"

definition plain_message :: "string \<Rightarrow> string \<Rightarrow> chat_message" where
  "plain_message role content =
     \<lparr>cm_role = role, cm_content = Some content, cm_tool_calls = [], cm_call_id = None, cm_name = None\<rparr>"

record chat_reply =
  cr_content :: "string option"
  cr_calls :: "tool_call list"

datatype provider_ref = DefaultProvider | NamedProvider string string

text \<open>
  A registered tool is a \<open>ToolDefinition\<close> object; a plain dict would do for the code that filters the list.
  \<open>item_name\<close> is \<open>t.get("name")\<close>, which the object does not have.
\<close>

datatype tool_item = ToolObject string | ToolDict "(string, string) dict"

definition item_name :: "tool_item \<Rightarrow> exn + string option" where
  "item_name t =
     (case t of
        ToolObject _ \<Rightarrow> Inl (OtherError ''AttributeError'' ''ToolDefinition object has no attribute get'')
      | ToolDict d \<Rightarrow> Inr (dget d ''name''))"

record subagent =
  sa_task :: string
  sa_description :: string
  sa_role :: string
  sa_provider :: provider_ref
  sa_tools :: "tool_item list"
  sa_prompt :: string
  sa_max_turns :: int
  sa_model :: "string option"

text \<open>
  The outside of a sub-agent: the model's answer to the \<open>turn\<close>-th request of the \<open>k\<close>-th sub-agent started (an exception
  is a failed request), and the outcome of a tool call after the messages so far. The registry may have no \<open>execute\<close>.
\<close>

record agent_world =
  aw_chat :: "nat \<Rightarrow> nat \<Rightarrow> provider_ref \<Rightarrow> string option \<Rightarrow> tool_item list \<Rightarrow> chat_message list \<Rightarrow> exn + chat_reply"
  aw_tool :: "(nat \<Rightarrow> chat_message list \<Rightarrow> string \<Rightarrow> json_obj \<Rightarrow> exn + (bool \<times> string)) option"
  aw_items :: "tool_item list"
  aw_providers :: "string \<Rightarrow> string option option"
  aw_environ :: "string \<Rightarrow> string option"
  aw_construct :: "string \<Rightarrow> string \<Rightarrow> bool"
  aw_default_name :: string

definition build_messages :: "subagent \<Rightarrow> (string, string) dict \<Rightarrow> chat_message list" where
  "build_messages a context =
     plain_message ''system'' (sa_prompt a) #
     (if context = [] then []
      else [plain_message ''system'' (''Context from prior tasks:'' @ [CHR 0x0A]
             @ str_join [CHR 0x0A] (map (\<lambda>(tid, out). ''[Prior result from '' @ tid @ '']: '' @ out) context))])
     @ [plain_message ''user'' (sa_description a)]"

definition tool_limit :: nat where "tool_limit = 50000"

definition true_mark :: string where "true_mark = ''[success=True]''"

definition execute_tool :: "agent_world \<Rightarrow> nat \<Rightarrow> chat_message list \<Rightarrow> tool_call \<Rightarrow> string" where
  "execute_tool w k msgs tc =
     (case aw_tool w of
        None \<Rightarrow> false_mark @ '' No tool executor available for '' @ tc_name tc
      | Some run \<Rightarrow>
          (case run k msgs (tc_name tc) (tc_args tc) of
             Inl e \<Rightarrow> false_mark @ '' Tool error: '' @ exn_str e
           | Inr (ok, out) \<Rightarrow> (if ok then true_mark else false_mark) @ '' '' @ take tool_limit out))"

fun answer_calls :: "agent_world \<Rightarrow> nat \<Rightarrow> tool_call list \<Rightarrow> chat_message list \<Rightarrow> chat_message list" where
  "answer_calls w k [] msgs = msgs"
| "answer_calls w k (tc # tcs) msgs =
     answer_calls w k tcs
       (msgs @ [\<lparr>cm_role = ''tool'', cm_content = Some (execute_tool w k msgs tc), cm_tool_calls = [], cm_call_id = Some (tc_id tc),
                 cm_name = Some (tc_name tc)\<rparr>])"

text \<open>The turns that are left, and the result with the messages at the end.\<close>

fun agent_turns :: "agent_world \<Rightarrow> nat \<Rightarrow> subagent \<Rightarrow> nat list \<Rightarrow> chat_message list \<Rightarrow> sub_result \<times> chat_message list" where
  "agent_turns w k a [] msgs =
     (let final = (if msgs = [] then [] else or_default (cm_content (last msgs)) []) in
      (\<lparr>sr_task = sa_task a, sr_success = False,
        sr_output = false_mark @ '' Max turns ('' @ int_str (sa_max_turns a) @ '') exceeded. Last output: '' @ final,
        sr_turns = sa_max_turns a, sr_error = []\<rparr>, msgs))"
| "agent_turns w k a (turn # turns) msgs =
     (case aw_chat w k turn (sa_provider a) (sa_model a) (sa_tools a) msgs of
        Inl e \<Rightarrow>
          (\<lparr>sr_task = sa_task a, sr_success = False, sr_output = false_mark @ '' LLM error: '' @ exn_str e,
            sr_turns = int turn + 1, sr_error = exn_str e\<rparr>, msgs)
      | Inr reply \<Rightarrow>
          if cr_calls reply = [] then
            (\<lparr>sr_task = sa_task a, sr_success = True, sr_output = or_default (cr_content reply) [],
              sr_turns = int turn + 1, sr_error = []\<rparr>, msgs)
          else agent_turns w k a turns
            (answer_calls w k (cr_calls reply)
               (msgs @ [\<lparr>cm_role = ''assistant'', cm_content = cr_content reply, cm_tool_calls = cr_calls reply, cm_call_id = None,
                         cm_name = None\<rparr>])))"

definition subagent_run :: "agent_world \<Rightarrow> nat \<Rightarrow> subagent \<Rightarrow> (string, string) dict \<Rightarrow> sub_result \<times> chat_message list" where
  "subagent_run w k a context = agent_turns w k a [0..<nat (sa_max_turns a)] (build_messages a context)"

section \<open>The factory\<close>

definition resolve_provider :: "agent_world \<Rightarrow> string \<Rightarrow> string \<Rightarrow> (provider_ref \<times> string) option" where
  "resolve_provider w provider model =
     (case aw_providers w provider of
        None \<Rightarrow> None
      | Some env_key \<Rightarrow>
          let key_ok = (case env_key of None \<Rightarrow> True | Some k \<Rightarrow> k = [] \<or> or_default (aw_environ w k) [] \<noteq> []) in
          if key_ok \<and> aw_construct w provider model then Some (NamedProvider provider model, model) else None)"

text \<open>The provider, the model and the number of turns for a role.\<close>

definition agent_config :: "agent_world \<Rightarrow> role_def option \<Rightarrow> provider_ref \<times> string option \<times> int" where
  "agent_config w role =
     (case role of
        None \<Rightarrow> (DefaultProvider, None, 5)
      | Some r \<Rightarrow>
          let plain = (DefaultProvider, if ro_model r \<noteq> [] then Some (ro_model r) else None, ro_max_turns r) in
          if ro_provider r \<noteq> [] \<and> ro_provider r \<noteq> aw_default_name w then
            (case resolve_provider w (ro_provider r) (ro_model r) of
               Some (p, m) \<Rightarrow> (p, Some m, ro_max_turns r)
             | None \<Rightarrow> plain)
          else plain)"

fun keep_tools :: "(string option \<Rightarrow> bool) \<Rightarrow> tool_item list \<Rightarrow> exn + tool_item list" where
  "keep_tools P [] = Inr []"
| "keep_tools P (t # ts) =
     bind_res (item_name t) (\<lambda>n. bind_res (keep_tools P ts) (\<lambda>rest. Inr (if P n then t # rest else rest)))"

definition select_tools :: "tool_item list \<Rightarrow> task_node \<Rightarrow> string \<times> string list \<Rightarrow> exn + tool_item list" where
  "select_tools items node mode =
     (let named = (\<lambda>ns n. case n of None \<Rightarrow> False | Some x \<Rightarrow> x \<in> set ns) in
      if tn_tools node \<noteq> [] then keep_tools (named (tn_tools node)) items
      else if snd mode \<noteq> [] then
        (if fst mode = ''blacklist'' then keep_tools (\<lambda>n. \<not> named (snd mode) n) items else keep_tools (named (snd mode)) items)
      else Inr (take 20 items))"

definition agent_of :: "agent_world \<Rightarrow> role_registry \<Rightarrow> task_node \<Rightarrow> exn + subagent" where
  "agent_of w g node =
     (let (provider, model, turns) = agent_config w (dget (rg_roles g) (tn_role node)) in
      bind_res (select_tools (aw_items w) node (get_tools g (tn_role node))) (\<lambda>tools.
      Inr \<lparr>sa_task = tn_id node, sa_description = tn_description node, sa_role = tn_role node, sa_provider = provider,
           sa_tools = tools, sa_prompt = get_prompt g (tn_role node), sa_max_turns = turns, sa_model = model\<rparr>))"

definition factory :: "agent_world \<Rightarrow> role_registry \<Rightarrow> nat \<Rightarrow> task_node \<Rightarrow> (string, string) dict \<Rightarrow> exn + sub_result" where
  "factory w g k node context = bind_res (agent_of w g node) (\<lambda>a. Inr (fst (subagent_run w k a context)))"

section \<open>Retries, replanning and the summary\<close>

text \<open>
  The spawner the executor gets: the \<open>k\<close>-th sub-agent either runs into the time limit (\<open>slow\<close>) or gives the
  factory's outcome. A retry calls the factory without a time limit.
\<close>

definition limited :: "(nat \<Rightarrow> int \<Rightarrow> bool) \<Rightarrow> (nat \<Rightarrow> task_node \<Rightarrow> (string, string) dict \<Rightarrow> exn + sub_result) \<Rightarrow> spawner" where
  "limited slow build k node context limit =
     (if slow k limit then SpTimeout else case build k node context of Inl e \<Rightarrow> SpRaised e | Inr r \<Rightarrow> SpResult r)"

record orchestration =
  oc_results :: "(string, sub_result) dict"
  oc_context :: "(string, string) dict"
  oc_starts :: nat

fun retry_task ::
  "(nat \<Rightarrow> task_node \<Rightarrow> (string, string) dict \<Rightarrow> exn + sub_result) \<Rightarrow> string \<Rightarrow> task_node \<Rightarrow> nat \<Rightarrow> orchestration \<Rightarrow> exn + orchestration"
where
  "retry_task build tid node 0 st = Inr st"
| "retry_task build tid node (Suc n) st =
     bind_res (build (oc_starts st) node (oc_context st)) (\<lambda>r.
     let st1 = st\<lparr>oc_results := dset tid r (oc_results st), oc_starts := oc_starts st + 1\<rparr> in
     if sr_success r then Inr (st1\<lparr>oc_context := dset tid (sr_output r) (oc_context st1)\<rparr>)
     else retry_task build tid node n st1)"

definition failure_reason :: "eval_result \<Rightarrow> string" where
  "failure_reason e = (case e of Normal \<Rightarrow> [] | Abnormal why _ \<Rightarrow> why)"

text \<open>The first successful result of the replacement tasks takes the place of the failed one.\<close>

fun accept_alternative :: "string \<Rightarrow> (string \<times> sub_result) list \<Rightarrow> orchestration \<Rightarrow> orchestration" where
  "accept_alternative tid [] st = st"
| "accept_alternative tid ((alt, r) # rs) st =
     (if sr_success r then
        let results = dset alt r (oc_results st) in
        st\<lparr>oc_results := dset tid \<lparr>sr_task = tid, sr_success = True, sr_output = ''Replaced by '' @ alt @ '': '' @ sr_output r,
             sr_turns = sr_turns r, sr_error = []\<rparr> results,
           oc_context := dset alt (sr_output r) (oc_context st)\<rparr>
      else accept_alternative tid rs st)"

text \<open>The answer of the planner to a replanning request: the goal, the context, the failed task and the reason.\<close>

type_synonym replanner = "string \<Rightarrow> (string, string) dict \<Rightarrow> string \<Rightarrow> string \<Rightarrow> exn + planned_node list option"

definition run_alternative ::
  "spawner \<Rightarrow> replanner \<Rightarrow> string \<Rightarrow> string \<Rightarrow> string \<Rightarrow> orchestration \<Rightarrow> orchestration option"
where
  "run_alternative spawn ask goal tid reason st =
     (let alt = replan goal (ask goal (oc_context st) tid reason) in
      if td_nodes alt = [] then Some st
      else case execute_dag spawn alt (oc_starts st) of
             None \<Rightarrow> None
           | Some ex \<Rightarrow> Some (accept_alternative tid (ds_results ex) (st\<lparr>oc_starts := ds_starts ex\<rparr>)))"

text \<open>One failed task. \<open>Inl\<close> is an exception that leaves the orchestrator, \<open>None\<close> is not returning.\<close>

definition handle_failed ::
  "(nat \<Rightarrow> int \<Rightarrow> bool) \<Rightarrow> (nat \<Rightarrow> task_node \<Rightarrow> (string, string) dict \<Rightarrow> exn + sub_result) \<Rightarrow> replanner \<Rightarrow> task_dag \<Rightarrow> string
     \<Rightarrow> orchestration \<Rightarrow> (exn + orchestration) option"
where
  "handle_failed slow build ask dag tid st =
     (case dget (td_nodes dag) tid of
        None \<Rightarrow> Some (Inr st)
      | Some node \<Rightarrow>
          (case retry_task build tid node (nat (tn_max_retries node)) st of
             Inl e \<Rightarrow> Some (Inl e)
           | Inr st1 \<Rightarrow>
               (case dget (oc_results st1) tid of
                  None \<Rightarrow> Some (Inl (KeyError tid))
                | Some r \<Rightarrow>
                    if sr_success r then Some (Inr st1)
                    else map_option Inr
                      (run_alternative (limited slow build) ask (td_goal dag) tid
                         (failure_reason (evaluate (sr_output r) (tn_expected node))) st1))))"

fun handle_all ::
  "(nat \<Rightarrow> int \<Rightarrow> bool) \<Rightarrow> (nat \<Rightarrow> task_node \<Rightarrow> (string, string) dict \<Rightarrow> exn + sub_result) \<Rightarrow> replanner \<Rightarrow> task_dag \<Rightarrow> string list
     \<Rightarrow> orchestration \<Rightarrow> (exn + orchestration) option"
where
  "handle_all slow build ask dag [] st = Some (Inr st)"
| "handle_all slow build ask dag (tid # tids) st =
     (case handle_failed slow build ask dag tid st of
        None \<Rightarrow> None
      | Some (Inl e) \<Rightarrow> Some (Inl e)
      | Some (Inr st1) \<Rightarrow> handle_all slow build ask dag tids st1)"

definition failed_tasks :: "(string, sub_result) dict \<Rightarrow> string list" where
  "failed_tasks results = map fst (filter (\<lambda>(_, r). \<not> sr_success r) results)"

definition execute_with_fallback ::
  "(nat \<Rightarrow> int \<Rightarrow> bool) \<Rightarrow> (nat \<Rightarrow> task_node \<Rightarrow> (string, string) dict \<Rightarrow> exn + sub_result) \<Rightarrow> replanner \<Rightarrow> task_dag
     \<Rightarrow> (exn + orchestration) option"
where
  "execute_with_fallback slow build ask dag =
     (case execute_dag (limited slow build) dag 0 of
        None \<Rightarrow> None
      | Some ex \<Rightarrow>
          handle_all slow build ask dag (failed_tasks (ds_results ex))
            \<lparr>oc_results = ds_results ex, oc_context = ds_context ex, oc_starts = ds_starts ex\<rparr>)"

definition result_text :: "(string, sub_result) dict \<Rightarrow> string \<times> task_node \<Rightarrow> string" where
  "result_text results p =
     (let r = dget results (fst p);
          status = (case r of None \<Rightarrow> ''FAILED'' | Some x \<Rightarrow> if sr_success x then ''SUCCESS'' else ''FAILED'');
          out = (case r of None \<Rightarrow> ''No result'' | Some x \<Rightarrow> take 500 (sr_output x))
      in ''['' @ status @ ''] '' @ tn_description (snd p) @ '':'' @ [CHR 0x0A] @ out)"

text \<open>The summary: the model's text, or the results when it fails or says nothing.\<close>

definition summarize :: "(string list \<Rightarrow> exn + string option) \<Rightarrow> task_dag \<Rightarrow> (string, sub_result) dict \<Rightarrow> string" where
  "summarize ask dag results =
     (let texts = map (result_text results) (td_nodes dag) in
      case ask texts of
        Inl _ \<Rightarrow> str_join [CHR 0x0A] texts
      | Inr content \<Rightarrow> if or_default content [] \<noteq> [] then or_default content [] else str_join [CHR 0x0A] texts)"

definition orchestrate ::
  "(nat \<Rightarrow> int \<Rightarrow> bool) \<Rightarrow> (nat \<Rightarrow> task_node \<Rightarrow> (string, string) dict \<Rightarrow> exn + sub_result) \<Rightarrow> replanner
     \<Rightarrow> (string \<Rightarrow> exn + planned_node list option) \<Rightarrow> (string list \<Rightarrow> exn + string option) \<Rightarrow> string \<Rightarrow> (exn + string) option"
where
  "orchestrate slow build ask ask_plan ask_summary message =
     (let dag = plan message (ask_plan message) in
      case execute_with_fallback slow build ask dag of
        None \<Rightarrow> None
      | Some (Inl e) \<Rightarrow> Some (Inl e)
      | Some (Inr st) \<Rightarrow> Some (Inr (summarize ask_summary dag (oc_results st))))"

section \<open>What the orchestrator guarantees\<close>

text \<open>The results of \<open>st\<close> are kept or replaced, with at most \<open>n\<close> more starts.\<close>

definition progress :: "nat \<Rightarrow> orchestration \<Rightarrow> orchestration \<Rightarrow> bool" where
  "progress n st st' \<longleftrightarrow> set (dkeys (oc_results st)) \<subseteq> set (dkeys (oc_results st')) \<and> oc_starts st' \<le> oc_starts st + n"

lemma progress_refl: "progress n st st"
  by (simp add: progress_def)

lemma progress_trans: "progress m s t \<Longrightarrow> progress n t u \<Longrightarrow> progress (m + n) s u"
  by (auto simp: progress_def)

lemma retry_progress: "retry_task build tid node n st = Inr st' \<Longrightarrow> progress n st st'"
proof (induction n arbitrary: st)
  case (Suc n)
  then obtain r where r: "build (oc_starts st) node (oc_context st) = Inr r" by (auto simp: bind_res_eq_Inr)
  let ?st1 = "st\<lparr>oc_results := dset tid r (oc_results st), oc_starts := oc_starts st + 1\<rparr>"
  have one: "progress 1 st ?st1" by (simp add: progress_def subset_insertI)
  show ?case
  proof (cases "sr_success r")
    case True
    with Suc.prems r have "st' = ?st1\<lparr>oc_context := dset tid (sr_output r) (oc_context ?st1)\<rparr>" by simp
    then show ?thesis by (simp add: progress_def subset_insertI)
  next
    case False
    with Suc.prems r have "retry_task build tid node n ?st1 = Inr st'" by simp
    from progress_trans [OF one Suc.IH [OF this]] show ?thesis by simp
  qed
qed (simp add: progress_refl)

lemma accept_progress: "progress 0 st (accept_alternative tid rs st)"
proof (induction rs)
  case (Cons p rs)
  obtain alt r where p: "p = (alt, r)" by (cases p)
  show ?case
  proof (cases "sr_success r")
    case True
    then show ?thesis by (simp add: p progress_def Let_def subset_insertI subset_insertI2)
  next
    case False
    with Cons.IH show ?thesis by (simp add: p)
  qed
qed (simp add: progress_refl)

lemma add_tasks_length: "length (fold add_task ns nodes) \<le> length nodes + length ns"
proof (induction ns arbitrary: nodes)
  case (Cons n ns)
  have "length (add_task n nodes) \<le> length nodes + 1" using length_dset by (simp add: add_task_def Let_def)
  with Cons [of "add_task n nodes"] show ?case by simp
qed simp

lemma replan_length:
  assumes "\<And>ns. a = Inr (Some ns) \<Longrightarrow> length ns \<le> B" "1 \<le> B"
  shows "length (td_nodes (replan goal a)) \<le> B"
proof (cases a)
  case (Inr x)
  then show ?thesis using assms add_tasks_length [of "the x" "[]"]
    by (cases x) (auto simp: replan_def parse_response_def fallback_dag_def)
qed (simp add: replan_def empty_dag_def)

text \<open>The answers to replanning requests have at most \<open>B\<close> tasks, where a failed answer counts as the one of the fallback plan.\<close>

definition replans_at_most :: "nat \<Rightarrow> replanner \<Rightarrow> bool" where
  "replans_at_most B ask \<longleftrightarrow> 1 \<le> B \<and> (\<forall>g c t w ns. ask g c t w = Inr (Some ns) \<longrightarrow> length ns \<le> B)"

lemma run_alternative_progress:
  assumes "replans_at_most B ask"
  shows "\<exists>st'. run_alternative spawn ask goal tid reason st = Some st' \<and> progress B st st'"
proof -
  obtain alt where alt: "alt = replan goal (ask goal (oc_context st) tid reason)" by simp
  have len: "length (td_nodes alt) \<le> B" unfolding alt using assms by (intro replan_length) (auto simp: replans_at_most_def)
  have "dag_ok (td_nodes alt)" by (simp add: alt replan_ok)
  then obtain ex where ex: "execute_dag spawn alt (oc_starts st) = Some ex" "ds_starts ex \<le> oc_starts st + length (td_nodes alt)"
    by (rule execute_dag_facts)
  have "progress B st (st\<lparr>oc_starts := ds_starts ex\<rparr>)" using ex(2) len by (simp add: progress_def)
  from progress_trans [OF this accept_progress [of _ tid "ds_results ex"]] ex(1) show ?thesis
    by (auto simp: run_alternative_def Let_def alt [symmetric] progress_refl)
qed

text \<open>What a failed task may cost: its retries and the replacement tasks.\<close>

definition cost :: "nat \<Rightarrow> task_dag \<Rightarrow> string \<Rightarrow> nat" where
  "cost B dag tid = (case dget (td_nodes dag) tid of None \<Rightarrow> 0 | Some n \<Rightarrow> nat (tn_max_retries n) + B)"

lemma handle_failed_progress:
  assumes "replans_at_most B ask" "tid \<in> set (dkeys (oc_results st))"
  obtains e where "handle_failed slow build ask dag tid st = Some (Inl e)"
  | st' where "handle_failed slow build ask dag tid st = Some (Inr st')" "progress (cost B dag tid) st st'"
proof (cases "dget (td_nodes dag) tid")
  case None
  then show ?thesis using that(2) [of st] by (simp add: handle_failed_def progress_refl)
next
  case (Some node)
  show ?thesis
  proof (cases "retry_task build tid node (nat (tn_max_retries node)) st")
    case (Inl e)
    then show ?thesis using that(1) Some by (simp add: handle_failed_def)
  next
    case (Inr st1)
    from retry_progress [OF this] have p1: "progress (nat (tn_max_retries node)) st st1" .
    with assms(2) have "tid \<in> set (dkeys (oc_results st1))" unfolding progress_def by blast
    then obtain r where r: "dget (oc_results st1) tid = Some r" by (metis dget_None_iff not_None_eq)
    let ?why = "failure_reason (evaluate (sr_output r) (tn_expected node))"
    obtain st2 where st2: "run_alternative (limited slow build) ask (td_goal dag) tid ?why st1 = Some st2" "progress B st1 st2"
      using run_alternative_progress [OF assms(1)] by blast
    have "progress (cost B dag tid) st st1" using p1 Some by (simp add: cost_def progress_def)
    moreover have "progress (cost B dag tid) st st2" using progress_trans [OF p1 st2(2)] Some by (simp add: cost_def)
    ultimately show ?thesis using that(2) Some Inr r st2(1) by (cases "sr_success r") (simp_all add: handle_failed_def)
  qed
qed

lemma handle_all_progress:
  assumes "replans_at_most B ask" "set tids \<subseteq> set (dkeys (oc_results st))"
  shows "\<exists>r. handle_all slow build ask dag tids st = Some r \<and>
    (case r of Inl e \<Rightarrow> True | Inr st' \<Rightarrow> progress (sum_list (map (cost B dag) tids)) st st')"
  using assms(2)
proof (induction tids arbitrary: st)
  case (Cons tid tids)
  from Cons.prems have "tid \<in> set (dkeys (oc_results st))" by simp
  with assms(1) consider (raised) e where "handle_failed slow build ask dag tid st = Some (Inl e)"
    | (handled) st' where "handle_failed slow build ask dag tid st = Some (Inr st')" "progress (cost B dag tid) st st'"
    by (rule handle_failed_progress)
  then show ?case
  proof cases
    case raised
    then show ?thesis by simp
  next
    case handled
    then have "set tids \<subseteq> set (dkeys (oc_results st'))" using Cons.prems unfolding progress_def by auto
    then obtain r where r: "handle_all slow build ask dag tids st' = Some r"
      "case r of Inl e \<Rightarrow> True | Inr st'' \<Rightarrow> progress (sum_list (map (cost B dag) tids)) st' st''"
      using Cons.IH by blast
    then show ?thesis using handled(1) progress_trans [OF handled(2)] by (auto split: sum.splits)
  qed
qed (simp add: progress_refl)

lemma sum_cost_bound:
  assumes "distinct tids" "set tids \<subseteq> set (dkeys (td_nodes dag))" "distinct (dkeys (td_nodes dag))"
  shows "sum_list (map (cost B dag) tids) \<le> (\<Sum>n \<leftarrow> dvalues (td_nodes dag). nat (tn_max_retries n) + B)"
proof -
  have "sum_list (map (cost B dag) tids) = sum (cost B dag) (set tids)"
    using assms(1) by (simp add: sum_list_distinct_conv_sum_set)
  also have "\<dots> \<le> sum (cost B dag) (set (dkeys (td_nodes dag)))" by (rule sum_mono2) (use assms(2) in auto)
  also have "\<dots> = sum_list (map (cost B dag) (dkeys (td_nodes dag)))"
    using assms(3) by (simp only: sum_list_distinct_conv_sum_set)
  also have "map (cost B dag) (dkeys (td_nodes dag)) = map (\<lambda>n. nat (tn_max_retries n) + B) (dvalues (td_nodes dag))"
    using assms(3) by (auto simp: cost_def)
  finally show ?thesis .
qed

lemma failed_tasks_distinct: "distinct (dkeys rs) \<Longrightarrow> distinct (failed_tasks rs)"
  by (simp add: failed_tasks_def distinct_map_filter)

lemma failed_tasks_subset: "set (failed_tasks rs) \<subseteq> set (dkeys rs)"
  by (auto simp: failed_tasks_def)



section \<open>Roles with tools\<close>

text \<open>The factory fails on the first registered tool it looks at, so every start of a task that is limited to some tools does.\<close>

definition limits_tools :: "role_registry \<Rightarrow> task_node \<Rightarrow> bool" where
  "limits_tools g node \<longleftrightarrow> tn_tools node \<noteq> [] \<or> snd (get_tools g (tn_role node)) \<noteq> []"

lemma factory_raises:
  assumes "limits_tools g node" "aw_items w = ToolObject x # items"
  shows "\<exists>e. factory w g k node ctx = Inl e"
  using assms
  by (auto simp: factory_def agent_of_def select_tools_def limits_tools_def item_name_def Let_def split: prod.split)

lemma run_alternative_total: "\<exists>st'. run_alternative spawn ask goal tid reason st = Some st'"
proof -
  obtain alt where alt: "alt = replan goal (ask goal (oc_context st) tid reason)" by simp
  then have "dag_ok (td_nodes alt)" by (simp add: replan_ok)
  then obtain ex where "execute_dag spawn alt (oc_starts st) = Some ex" by (rule execute_dag_facts)
  then show ?thesis by (simp add: run_alternative_def Let_def alt [symmetric])
qed

lemma handle_failed_total: "\<exists>r. handle_failed slow build ask dag tid st = Some r"
proof -
  have "map_option Inr (run_alternative spawn ask goal tid reason s) \<noteq> None" for spawn goal reason s
    using run_alternative_total [of spawn ask goal tid reason s] by auto
  then show ?thesis by (fastforce simp: handle_failed_def split: option.split sum.split)
qed

lemma handle_all_raises:
  assumes "tid \<in> set tids" "\<And>st. \<exists>e. handle_failed slow build ask dag tid st = Some (Inl e)"
  shows "\<exists>e. handle_all slow build ask dag tids st = Some (Inl e)"
  using assms(1)
proof (induction tids arbitrary: st)
  case (Cons t tids)
  obtain r where r: "handle_failed slow build ask dag t st = Some r" using handle_failed_total by blast
  show ?case
  proof (cases r)
    case (Inr st')
    with r assms(2) [of st] have "t \<noteq> tid" by auto
    with Cons.prems have "tid \<in> set tids" by simp
    from Cons.IH [OF this, of st'] r Inr show ?thesis by simp
  qed (use r in simp)
qed simp

lemma retry_raises:
  assumes "1 \<le> n" "\<forall>k ctx. \<exists>e. build k node ctx = Inl e"
  shows "\<exists>e. retry_task build tid node n st = Inl e"
proof -
  obtain m where n: "n = Suc m" using assms(1) by (cases n) auto
  obtain e where "build (oc_starts st) node (oc_context st) = Inl e" using assms(2) by blast
  then show ?thesis by (simp add: n)
qed

text \<open>
  In a deployment the registry holds \<open>ToolDefinition\<close> objects, and the factory filters them with \<open>t.get\<close>. So when a role of the
  plan is limited to tools (or a task is) and its task depends on none, the first run of the task fails, the retry raises, and the
  exception leaves the orchestrator: the whole request fails, whatever the other tasks and the language model do.
\<close>

theorem role_tools_break_run:
  assumes "dget (td_nodes (plan goal answer)) tid = Some node" "tn_depends_on node = []" "1 \<le> tn_max_retries node"
    "limits_tools g node" "aw_items w = ToolObject x # items"
  shows "\<exists>e. execute_with_fallback slow (factory w g) ask (plan goal answer) = Some (Inl e)"
proof -
  obtain dag where dag: "dag = plan goal answer" by simp
  have ok: "dag_ok (td_nodes dag)" by (simp add: dag plan_ok)
  have node: "dget (td_nodes dag) tid = Some node" "node_of (td_nodes dag) tid = node"
    using assms(1) by (simp_all add: dag node_of_def)
  have raises: "\<forall>k ctx. \<exists>e. factory w g k node ctx = Inl e" using factory_raises [OF assms(4,5)] by blast
  obtain ex where ex: "execute_dag (limited slow (factory w g)) dag 0 = Some ex" "exec_end (td_nodes dag) ex"
    "success_origin (limited slow (factory w g)) (td_nodes dag) ex"
    by (rule execute_dag_facts [OF ok])
  have "node_outcome (td_nodes dag) ex tid"
    using ex(2) dget_Some_in_keys [OF node(1)] unfolding exec_end_def by blast
  then obtain r where r: "dget (ds_results ex) tid = Some r"
    using assms(2) node(2) by (auto simp: node_outcome_def verdict_ok_def split: option.splits)
  have "\<not> sr_success r"
  proof
    assume "sr_success r"
    with ex(3) r node(2) obtain k ctx t where "limited slow (factory w g) k node ctx t = SpResult r"
      unfolding success_origin_def by blast
    moreover obtain e where "factory w g k node ctx = Inl e" using raises by blast
    ultimately show False by (simp add: limited_def split: if_splits)
  qed
  with r have "tid \<in> set (failed_tasks (ds_results ex))" by (force simp: failed_tasks_def dest: map_of_SomeD)
  moreover have "\<exists>e. handle_failed slow (factory w g) ask dag tid st = Some (Inl e)" for st
  proof -
    have "1 \<le> nat (tn_max_retries node)" using assms(3) by simp
    then obtain e where "retry_task (factory w g) tid node (nat (tn_max_retries node)) st = Inl e"
      using retry_raises [where build = "factory w g", OF _ raises] by blast
    then show ?thesis by (simp add: handle_failed_def node(1))
  qed
  ultimately show ?thesis using handle_all_raises ex(1) unfolding dag [symmetric]
    by (simp add: execute_with_fallback_def)
qed

theorem role_tools_break_run_witness:
  "let analyst = \<lparr>ro_name = ''general_analyst'', ro_domain = ''k8s'', ro_task_type = ''general'', ro_prompt = [],
         ro_description = [], ro_provider = [], ro_model = [], ro_tool_mode = ''whitelist'', ro_tools = [''kubectl''],
         ro_persistent = True, ro_created_by = ''user'', ro_max_turns = 5\<rparr>;
       g = \<lparr>rg_roles = [(''general_analyst'', analyst)], rg_db = None\<rparr>;
       w = \<lparr>aw_chat = (\<lambda>_ _ _ _ _ _. Inr \<lparr>cr_content = Some ''done'', cr_calls = []\<rparr>), aw_tool = None,
         aw_items = [ToolObject ''kubectl''], aw_providers = (\<lambda>_. None), aw_environ = (\<lambda>_. None),
         aw_construct = (\<lambda>_ _. True), aw_default_name = ''claude''\<rparr>
   in \<exists>e. execute_with_fallback (\<lambda>_ _. False) (factory w g) (\<lambda>_ _ _ _. Inr None) (plan ''check'' (Inr None)) = Some (Inl e)"
  unfolding Let_def
  by (rule role_tools_break_run [where tid = "''task_1''" and x = "''kubectl''" and items = "[]"
        and node = "the (dget (td_nodes (fallback_dag ''check'')) ''task_1'')"])
    (simp_all add: plan_def parse_response_def fallback_dag_def limits_tools_def get_tools_def)

section \<open>The transcript of a sub-agent\<close>

text \<open>What a message is in the protocol: its role and, of a tool message, the call it answers.\<close>

definition shape :: "chat_message \<Rightarrow> string \<times> string option" where
  "shape m = (cm_role m, cm_call_id m)"

text \<open>A turn with tool calls: the assistant's message and one tool message per call, in the order of the calls.\<close>

definition turn_shape :: "tool_call list \<Rightarrow> (string \<times> string option) list" where
  "turn_shape calls = (''assistant'', None) # map (\<lambda>tc. (''tool'', Some (tc_id tc))) calls"

lemma answer_calls_shape:
  "map shape (answer_calls w k calls msgs) = map shape msgs @ map (\<lambda>tc. (''tool'', Some (tc_id tc))) calls"
  by (induction w k calls msgs rule: answer_calls.induct) (simp_all add: shape_def)

text \<open>
  How a run of the turns ends: all turns used up, a failed request, or an answer without calls in the turn after the
  \<open>n\<close> turns with calls.
\<close>

definition turns_end :: "nat list \<Rightarrow> subagent \<Rightarrow> tool_call list list \<Rightarrow> sub_result \<Rightarrow> bool" where
  "turns_end turns a calls r \<longleftrightarrow>
     sr_task r = sa_task a \<and>
     (if length calls = length turns then \<not> sr_success r \<and> sr_turns r = sa_max_turns a
      else length calls < length turns \<and> sr_turns r = int (turns ! length calls) + 1 \<and> (sr_success r \<longrightarrow> sr_error r = []))"

lemma agent_turns_shape:
  assumes "agent_turns w k a turns msgs = (r, msgs')"
  shows "\<exists>calls. map shape msgs' = map shape msgs @ concat (map turn_shape calls) \<and> list_all (\<lambda>c. c \<noteq> []) calls \<and>
     turns_end turns a calls r"
  using assms
proof (induction turns arbitrary: msgs)
  case Nil
  then show ?case by (intro exI [of _ "[]"]) (auto simp: turns_end_def Let_def)
next
  case (Cons turn turns)
  show ?case
  proof (cases "aw_chat w k turn (sa_provider a) (sa_model a) (sa_tools a) msgs")
    case (Inl e)
    with Cons.prems show ?thesis by (intro exI [of _ "[]"]) (auto simp: turns_end_def)
  next
    case (Inr reply)
    show ?thesis
    proof (cases "cr_calls reply = []")
      case True
      with Cons.prems Inr show ?thesis by (intro exI [of _ "[]"]) (auto simp: turns_end_def)
    next
      case False
      let ?m = "\<lparr>cm_role = ''assistant'', cm_content = cr_content reply, cm_tool_calls = cr_calls reply, cm_call_id = None,
                 cm_name = None\<rparr>"
      from Cons.prems Inr False have "agent_turns w k a turns (answer_calls w k (cr_calls reply) (msgs @ [?m])) = (r, msgs')"
        by simp
      from Cons.IH [OF this] obtain calls where c: "map shape msgs' = map shape (answer_calls w k (cr_calls reply) (msgs @ [?m]))
          @ concat (map turn_shape calls)" "list_all (\<lambda>c. c \<noteq> []) calls" "turns_end turns a calls r" by blast
      from c(1) have "map shape msgs' = map shape msgs @ concat (map turn_shape (cr_calls reply # calls))"
        by (simp add: answer_calls_shape turn_shape_def) (simp add: shape_def)
      moreover have "turns_end (turn # turns) a (cr_calls reply # calls) r" using c(3) by (simp add: turns_end_def)
      ultimately show ?thesis using c(2) False by (intro exI [of _ "cr_calls reply # calls"]) simp
    qed
  qed
qed

text \<open>
  A sub-agent ends within its turns: after the opening messages its transcript is at most \<open>max_turns\<close> rounds, each an
  assistant message with its tool calls followed by exactly one tool message per call in the order of the calls; if the rounds
  use up the turns the result is a failure, and otherwise the result counts the rounds and the last request.
\<close>

theorem subagent_transcript:
  "case subagent_run w k a ctx of (r, msgs) \<Rightarrow>
     \<exists>calls. map shape msgs = map shape (build_messages a ctx) @ concat (map turn_shape calls) \<and>
       int (length calls) \<le> max 0 (sa_max_turns a) \<and> sr_task r = sa_task a \<and>
       (if int (length calls) = max 0 (sa_max_turns a) then \<not> sr_success r \<and> sr_turns r = sa_max_turns a
        else sr_turns r = int (length calls) + 1)"
proof -
  obtain r msgs where run: "subagent_run w k a ctx = (r, msgs)" by fastforce
  from agent_turns_shape [OF this [unfolded subagent_run_def]] obtain calls where c:
    "map shape msgs = map shape (build_messages a ctx) @ concat (map turn_shape calls)"
    "turns_end [0..<nat (sa_max_turns a)] a calls r" by blast
  show ?thesis unfolding run prod.case
  proof (intro exI [of _ calls] conjI)
    show "int (length calls) \<le> max 0 (sa_max_turns a)" using c(2) by (auto simp: turns_end_def split: if_splits)
    show "if int (length calls) = max 0 (sa_max_turns a) then \<not> sr_success r \<and> sr_turns r = sa_max_turns a
        else sr_turns r = int (length calls) + 1"
      using c(2) by (cases "length calls = nat (sa_max_turns a)") (auto simp: turns_end_def)
  qed (use c in \<open>auto simp: turns_end_def\<close>)
qed

end
