(* ===== verification/Chat_Context.thy ===== *)
theory Chat_Context
  imports Tool_Exec
begin

text \<open>
  What the language model gets to see: messages (\<open>src/src/breadmind/llm/base.py\<close>), the estimate of their tokens and trimming to
  the context window (\<open>llm/token_counter.py\<close>), summaries of long conversations (\<open>memory/summarizer.py\<close>), and the working
  memory with its truncation and compression (\<open>memory/working.py\<close>, \<open>memory/compressor.py\<close>).

  A compression waits for the model while the session goes on; it is two steps, and the list object it works on is followed: the
  object of the session, or one the session has left behind. The clock, the model's summaries, the rendering of JSON, the Korean
  texts and the class of wide characters are parameters. Attachments and the copies in the database are left out.
\<close>

section \<open>Messages\<close>

record llm_message =
  lm_role :: string
  lm_content :: "string option"
  lm_calls :: "tool_call list"
  lm_call_id :: "string option"
  lm_name :: "string option"

definition text_message :: "string \<Rightarrow> string \<Rightarrow> llm_message" where
  "text_message role text = \<lparr>lm_role = role, lm_content = Some text, lm_calls = [], lm_call_id = None, lm_name = None\<rparr>"

text \<open>\<open>m.content or ""\<close>.\<close>

definition content_of :: "llm_message \<Rightarrow> string" where
  "content_of m = (case lm_content m of None \<Rightarrow> [] | Some s \<Rightarrow> s)"

section \<open>Counting tokens\<close>

record context_env =
  ce_wide :: "char \<Rightarrow> bool"
  ce_dumps :: "json_obj \<Rightarrow> string"
  ce_parameters :: "string \<Rightarrow> json_obj"
  ce_mark :: string
  ce_summary_text :: "nat \<Rightarrow> string \<Rightarrow> string"
  ce_domain :: "llm_message list \<Rightarrow> string"
  ce_sanitize :: "string \<Rightarrow> string"

text \<open>\<open>int(wide / 2 + other / 4)\<close>, at least one for text that is not empty.\<close>

definition estimate_tokens :: "context_env \<Rightarrow> string \<Rightarrow> nat" where
  "estimate_tokens env text =
     (if text = [] then 0
      else let wide = length (filter (ce_wide env) text); other = length text - wide in max 1 ((2 * wide + other) div 4))"

definition message_tokens :: "context_env \<Rightarrow> llm_message \<Rightarrow> nat" where
  "message_tokens env m =
     estimate_tokens env (content_of m) + 4
     + sum_list (map (\<lambda>tc. estimate_tokens env (tc_name tc) + estimate_tokens env (ce_dumps env (tc_args tc))) (lm_calls m))"

definition estimate_messages_tokens :: "context_env \<Rightarrow> llm_message list \<Rightarrow> nat" where
  "estimate_messages_tokens env ms = sum_list (map (message_tokens env) ms)"

definition estimate_tools_tokens :: "context_env \<Rightarrow> offered_tool list \<Rightarrow> nat" where
  "estimate_tools_tokens env ts =
     sum_list (map (\<lambda>t. estimate_tokens env (ot_name t)
       + estimate_tokens env (case ot_description t of None \<Rightarrow> [] | Some d \<Rightarrow> d)
       + estimate_tokens env (ce_dumps env (ce_parameters env (ot_name t)))) ts)"

definition context_limits :: "(string, nat) dict" where
  "context_limits =
     [(''claude-sonnet-4-6'', 200000), (''claude-haiku-4-5'', 200000), (''claude-opus-4-6'', 1000000),
      (''gpt-4o'', 128000), (''gpt-4o-mini'', 128000), (''o1'', 200000), (''o1-mini'', 128000), (''o3-mini'', 200000),
      (''grok-3'', 131072), (''grok-3-mini'', 131072),
      (''gemini-2.5-flash'', 1048576), (''gemini-2.5-pro'', 1048576),
      (''deepseek-chat'', 64000), (''deepseek-reasoner'', 64000),
      (''mistral-large-latest'', 128000), (''mistral-medium-latest'', 128000), (''mistral-small-latest'', 128000),
      (''codestral-latest'', 256000),
      (''meta-llama/Meta-Llama-3.1-70B-Instruct-Turbo'', 131072),
      (''llama-3.3-70b-versatile'', 128000), (''llama-3.1-8b-instant'', 131072), (''mixtral-8x7b-32768'', 32768),
      (''anthropic.claude-sonnet-4-6-20250514-v1:0'', 200000), (''amazon.nova-pro-v1:0'', 300000),
      (''meta.llama3-1-70b-instruct-v1:0'', 128000)]"

definition get_model_limit :: "string \<Rightarrow> nat" where
  "get_model_limit model = dget_or context_limits model 200000"

definition context_tokens :: "context_env \<Rightarrow> llm_message list \<Rightarrow> offered_tool list \<Rightarrow> nat" where
  "context_tokens env ms ts = estimate_messages_tokens env ms + estimate_tools_tokens env ts"

definition fits_in_context :: "context_env \<Rightarrow> llm_message list \<Rightarrow> offered_tool list \<Rightarrow> string \<Rightarrow> nat \<Rightarrow> bool" where
  "fits_in_context env ms ts model reserve \<longleftrightarrow> context_tokens env ms ts + reserve \<le> get_model_limit model"

section \<open>Trimming\<close>

text \<open>The first message stays when it is a system message, and so does the last; the oldest between them go until the rest fits.\<close>

definition trim_parts :: "llm_message list \<Rightarrow> llm_message list \<times> llm_message list \<times> llm_message list" where
  "trim_parts ms =
     (case ms of
        [] \<Rightarrow> ([], [], [])
      | m # rest \<Rightarrow>
          if lm_role m = ''system'' then (if rest = [] then ([m], [], []) else ([m], butlast rest, [last rest]))
          else ([], butlast ms, [last ms]))"

fun trim_middle :: "(llm_message list \<Rightarrow> bool) \<Rightarrow> llm_message list \<Rightarrow> llm_message list \<Rightarrow> llm_message list \<Rightarrow> llm_message list" where
  "trim_middle fits first [] end_ms = first @ end_ms"
| "trim_middle fits first (m # ms) end_ms =
     (if fits (first @ (m # ms) @ end_ms) then first @ (m # ms) @ end_ms else trim_middle fits first ms end_ms)"

definition trim_messages_to_fit :: "context_env \<Rightarrow> llm_message list \<Rightarrow> offered_tool list \<Rightarrow> string \<Rightarrow> nat \<Rightarrow> llm_message list" where
  "trim_messages_to_fit env ms ts model reserve =
     (if fits_in_context env ms ts model reserve then ms
      else case trim_parts ms of (first, middle, end_ms) \<Rightarrow>
        trim_middle (\<lambda>c. fits_in_context env c ts model reserve) first middle end_ms)"

section \<open>Summaries\<close>

text \<open>\<open>xs[-n:]\<close> and \<open>xs[:-n]\<close>; for \<open>n = 0\<close> they are everything and nothing.\<close>

definition tail_slice :: "nat \<Rightarrow> 'a list \<Rightarrow> 'a list" where
  "tail_slice n xs = (if n = 0 then xs else last_n n xs)"

definition front_slice :: "nat \<Rightarrow> 'a list \<Rightarrow> 'a list" where
  "front_slice n xs = (if n = 0 then [] else take (length xs - n) xs)"

definition summary_part :: "context_env \<Rightarrow> llm_message \<Rightarrow> string list" where
  "summary_part env m =
     (let text = content_of m in
      if text \<noteq> [] \<and> lm_role m \<in> {''user'', ''assistant''}
      then [(if lm_role m = ''user'' then ''User'' else ''Assistant'') @ '': '' @ ce_sanitize env (take 500 text)]
      else if lm_role m = ''tool'' \<and> text \<noteq> [] then [''Tool result: '' @ ce_sanitize env (take 300 text)]
      else [])"

definition summary_prompt :: string where
  "summary_prompt = ''Summarize this conversation concisely. Keep all key facts, decisions, tool results, and action items. Output only the summary, no preamble.''"

definition summary_request :: "string list \<Rightarrow> llm_message" where
  "summary_request parts =
     text_message ''user'' (summary_prompt @ [CHR 0x0A, CHR 0x0A] @ take 8000 (str_join [CHR 0x0A] parts))"

record summarizer =
  sm_chat :: "llm_message list \<Rightarrow> exn + string option"
  sm_model :: string
  sm_keep :: nat
  sm_ratio :: real

definition summarize_if_needed :: "context_env \<Rightarrow> summarizer \<Rightarrow> llm_message list \<Rightarrow> offered_tool list \<Rightarrow> llm_message list" where
  "summarize_if_needed env sm ms ts =
     (if int (context_tokens env ms ts) \<le> real_trunc (real (get_model_limit (sm_model sm)) * sm_ratio sm) then ms
      else
        let system = takeWhile (\<lambda>m. lm_role m = ''system'') ms; remaining = dropWhile (\<lambda>m. lm_role m = ''system'') ms in
        if length remaining \<le> sm_keep sm then ms
        else
          let old = front_slice (sm_keep sm) remaining; recent = tail_slice (sm_keep sm) remaining;
              parts = concat (map (summary_part env) old) in
          if parts = [] then ms
          else (case sm_chat sm [summary_request parts] of
              Inl _ \<Rightarrow> trim_messages_to_fit env ms ts (sm_model sm) 4096
            | Inr c \<Rightarrow>
                system @ [text_message ''system'' (''[Earlier conversation summary]'' @ [CHR 0x0A]
                  @ (case c of None \<Rightarrow> [] | Some s \<Rightarrow> s) @ ce_domain env old)] @ recent))"

section \<open>Truncating tool results\<close>

definition tool_result_max :: nat where "tool_result_max = 300"

definition truncated_mark :: string where "truncated_mark = ''... [truncated]''"

definition result_status :: "string \<Rightarrow> string" where
  "result_status text =
     (if str_contains text ''[success=True]'' then ''[success=True]''
      else if str_contains text ''[success=False]'' then ''[success=False]''
      else [])"

definition truncate_message :: "llm_message \<Rightarrow> llm_message" where
  "truncate_message m =
     (let text = content_of m in
      if lm_role m = ''tool'' \<and> tool_result_max < length text
      then \<lparr>lm_role = lm_role m, lm_content = Some (result_status text @ '' '' @ take tool_result_max text @ truncated_mark),
             lm_calls = [], lm_call_id = lm_call_id m, lm_name = lm_name m\<rparr>
      else if lm_role m = ''user'' \<and> startswith text ''[System] Tool'' \<and> tool_result_max < length text
      then text_message ''user'' (take tool_result_max text @ truncated_mark)
      else m)"

definition truncate_tool_results :: "llm_message list \<Rightarrow> llm_message list" where
  "truncate_tool_results ms = map truncate_message ms"

section \<open>Working memory\<close>

record chat_session =
  cs_user :: string
  cs_channel :: string
  cs_messages :: "llm_message list"
  cs_active :: real
  cs_title :: string

text \<open>
  A compression is scheduled, or it waits for the model with the old messages, an earlier summary, the recent messages and the list
  object it was given: the one the session still has, one that the session no longer has, or one of a session that is gone.
\<close>

datatype list_object = OfSession | Left "llm_message list" | Gone

datatype compression = Scheduled | Waiting "llm_message list" "string option" "llm_message list" list_object

record working_memory =
  wm_sessions :: "(string, chat_session) dict"
  wm_compressing :: "(string, compression) dict"
  wm_max :: nat
  wm_threshold :: nat
  wm_keep :: nat
  wm_timeout :: real
  wm_provider :: bool

definition new_memory :: "nat \<Rightarrow> nat \<Rightarrow> nat \<Rightarrow> real \<Rightarrow> bool \<Rightarrow> working_memory" where
  "new_memory max_messages threshold keep timeout provider =
     \<lparr>wm_sessions = [], wm_compressing = [], wm_max = max_messages, wm_threshold = threshold, wm_keep = keep,
      wm_timeout = timeout, wm_provider = provider\<rparr>"

text \<open>What happens to the object of a waiting compression when the session gets another list, or goes.\<close>

fun leave_object :: "llm_message list \<Rightarrow> compression \<Rightarrow> compression" where
  "leave_object ms (Waiting old earlier recent OfSession) = Waiting old earlier recent (Left ms)"
| "leave_object ms c = c"

fun lose_session :: "compression \<Rightarrow> compression" where
  "lose_session (Waiting old earlier recent ob) = Waiting old earlier recent Gone"
| "lose_session Scheduled = Scheduled"

definition on_compression :: "string \<Rightarrow> (compression \<Rightarrow> compression) \<Rightarrow> working_memory \<Rightarrow> working_memory" where
  "on_compression sid f wm =
     (case dget (wm_compressing wm) sid of
        None \<Rightarrow> wm
      | Some c \<Rightarrow> wm\<lparr>wm_compressing := dset sid (f c) (wm_compressing wm)\<rparr>)"

definition set_session :: "string \<Rightarrow> chat_session \<Rightarrow> working_memory \<Rightarrow> working_memory" where
  "set_session sid s wm = wm\<lparr>wm_sessions := dset sid s (wm_sessions wm)\<rparr>"

definition pop_session :: "string \<Rightarrow> working_memory \<Rightarrow> working_memory" where
  "pop_session sid wm = on_compression sid lose_session (wm\<lparr>wm_sessions := dpop sid (wm_sessions wm)\<rparr>)"

definition expired :: "real \<Rightarrow> working_memory \<Rightarrow> chat_session \<Rightarrow> bool" where
  "expired now wm s \<longleftrightarrow> wm_timeout wm * 60 \<le> now - cs_active s"

definition get_or_create_session :: "real \<Rightarrow> string \<Rightarrow> string \<Rightarrow> string \<Rightarrow> working_memory \<Rightarrow> chat_session \<times> working_memory" where
  "get_or_create_session now sid user channel wm =
     (let fresh = \<lparr>cs_user = user, cs_channel = channel, cs_messages = [], cs_active = now, cs_title = []\<rparr> in
      case dget (wm_sessions wm) sid of
        None \<Rightarrow> (fresh, set_session sid fresh wm)
      | Some s \<Rightarrow>
          if expired now wm s then (fresh, set_session sid fresh (pop_session sid wm))
          else (s\<lparr>cs_active := now\<rparr>, set_session sid (s\<lparr>cs_active := now\<rparr>) wm))"

text \<open>The messages when there are too many: tool results are cut first, then the oldest messages go.\<close>

definition shortened :: "nat \<Rightarrow> llm_message list \<Rightarrow> llm_message list" where
  "shortened n ms =
     (let short = truncate_tool_results ms in if n < length short then tail_slice n short else short)"

definition add_message :: "real \<Rightarrow> string \<Rightarrow> llm_message \<Rightarrow> working_memory \<Rightarrow> working_memory" where
  "add_message now sid m wm =
     (case dget (wm_sessions wm) sid of
        None \<Rightarrow> wm
      | Some s \<Rightarrow>
          let ms = cs_messages s @ [m]; s' = s\<lparr>cs_messages := ms, cs_active := now\<rparr> in
          if wm_threshold wm \<le> length ms \<and> wm_provider wm \<and> sid \<notin> set (dkeys (wm_compressing wm))
          then (set_session sid s' wm)\<lparr>wm_compressing := dset sid Scheduled (wm_compressing wm)\<rparr>
          else if wm_max wm < length ms
          then on_compression sid (leave_object ms) (set_session sid (s'\<lparr>cs_messages := shortened (wm_max wm) ms\<rparr>) wm)
          else set_session sid s' wm)"

definition get_messages :: "string \<Rightarrow> working_memory \<Rightarrow> llm_message list" where
  "get_messages sid wm = (case dget (wm_sessions wm) sid of None \<Rightarrow> [] | Some s \<Rightarrow> cs_messages s)"

fun last_tool :: "llm_message list \<Rightarrow> string option" where
  "last_tool [] = None"
| "last_tool (m # ms) =
     (if lm_role m = ''tool'' \<and> lm_name m \<notin> {None, Some []} then lm_name m
      else if lm_role m = ''assistant'' \<and> lm_calls m \<noteq> [] then Some (tc_name (last (lm_calls m)))
      else last_tool ms)"

definition last_tool_name :: "string \<Rightarrow> working_memory \<Rightarrow> string option" where
  "last_tool_name sid wm = last_tool (rev (get_messages sid wm))"

definition last_turn_summary :: "string \<Rightarrow> working_memory \<Rightarrow> string option" where
  "last_turn_summary sid wm =
     (let texts = map (\<lambda>m. take 120 (content_of m)) (filter (\<lambda>m. content_of m \<noteq> []) (last_n 2 (get_messages sid wm)));
          joined = str_join '' | '' texts in
      if joined = [] then None else Some (take 200 joined))"

definition clear_session :: "string \<Rightarrow> working_memory \<Rightarrow> working_memory" where
  "clear_session sid wm = pop_session sid wm"

definition list_sessions :: "working_memory \<Rightarrow> string list" where
  "list_sessions wm = dkeys (wm_sessions wm)"

definition cleanup_expired :: "real \<Rightarrow> working_memory \<Rightarrow> string list \<times> working_memory" where
  "cleanup_expired now wm =
     (let gone = map fst (filter (\<lambda>(sid, s). expired now wm s) (wm_sessions wm)) in (gone, fold pop_session gone wm))"

definition update_memory_config :: "nat option \<Rightarrow> real option \<Rightarrow> working_memory \<Rightarrow> working_memory" where
  "update_memory_config max_messages timeout wm =
     (let wm1 = (case max_messages of Some n \<Rightarrow> if 1 \<le> n then wm\<lparr>wm_max := n\<rparr> else wm | None \<Rightarrow> wm) in
      case timeout of Some t \<Rightarrow> if 1 \<le> t then wm1\<lparr>wm_timeout := t\<rparr> else wm1 | None \<Rightarrow> wm1)"

definition set_session_title :: "string \<Rightarrow> string \<Rightarrow> working_memory \<Rightarrow> working_memory" where
  "set_session_title sid title wm =
     (case dget (wm_sessions wm) sid of None \<Rightarrow> wm | Some s \<Rightarrow> set_session sid (s\<lparr>cs_title := title\<rparr>) wm)"

definition get_session_messages :: "string \<Rightarrow> working_memory \<Rightarrow> (string \<times> string) list" where
  "get_session_messages sid wm =
     map (\<lambda>m. (lm_role m, content_of m))
       (filter (\<lambda>m. lm_role m \<in> {''user'', ''assistant''} \<and> str_strip (content_of m) \<noteq> []) (get_messages sid wm))"

text \<open>A conversation from the database goes behind what the session already has.\<close>

record stored_conversation =
  sc_user :: string
  sc_channel :: string
  sc_title :: string
  sc_messages :: "(string \<times> string) list"

definition load_session :: "real \<Rightarrow> string \<Rightarrow> stored_conversation \<Rightarrow> working_memory \<Rightarrow> working_memory" where
  "load_session now sid c wm =
     (case get_or_create_session now sid (sc_user c) (sc_channel c) wm of (s, wm1) \<Rightarrow>
        let ms = cs_messages s @ map (\<lambda>(role, text). text_message role text) (sc_messages c);
            s' = s\<lparr>cs_title := sc_title c, cs_messages := ms\<rparr> in
        if wm_max wm1 < length ms
        then on_compression sid (leave_object ms) (set_session sid (s'\<lparr>cs_messages := tail_slice (wm_max wm1) ms\<rparr>) wm1)
        else set_session sid s' wm1)"

section \<open>Compression\<close>

text \<open>The decision of the hooks for \<open>PRE_COMPACT\<close>.\<close>

datatype compact_hook = HookPass | HookBlock | HookReplace "llm_message list" | HookRaises

definition earlier_summary :: "context_env \<Rightarrow> llm_message list \<Rightarrow> string option \<times> llm_message list" where
  "earlier_summary env old =
     (case old of
        [] \<Rightarrow> (None, [])
      | m # rest \<Rightarrow>
          if lm_role m = ''system'' \<and> str_contains (content_of m) (ce_mark env) then (Some (content_of m), rest) else (None, old))"

definition end_compression :: "string \<Rightarrow> working_memory \<Rightarrow> working_memory" where
  "end_compression sid wm = wm\<lparr>wm_compressing := dpop sid (wm_compressing wm)\<rparr>"

definition put_messages :: "string \<Rightarrow> llm_message list \<Rightarrow> working_memory \<Rightarrow> working_memory" where
  "put_messages sid ms wm =
     (case dget (wm_sessions wm) sid of None \<Rightarrow> wm | Some s \<Rightarrow> set_session sid (s\<lparr>cs_messages := ms\<rparr>) wm)"

text \<open>Up to the call of the model: most ways end the compression at once.\<close>

definition compress_start :: "context_env \<Rightarrow> compact_hook \<Rightarrow> string \<Rightarrow> working_memory \<Rightarrow> working_memory" where
  "compress_start env hook sid wm =
     (if dget (wm_compressing wm) sid \<noteq> Some Scheduled then wm
      else case dget (wm_sessions wm) sid of
        None \<Rightarrow> end_compression sid wm
      | Some s \<Rightarrow>
          if length (cs_messages s) < wm_threshold wm \<or> hook = HookBlock \<or> hook = HookRaises then end_compression sid wm
          else
            let (ms, ob) = (case hook of HookReplace xs \<Rightarrow> (xs, Left xs) | _ \<Rightarrow> (cs_messages s, OfSession));
                (earlier, old) = earlier_summary env (front_slice (wm_keep wm) ms) in
            if length ms \<le> wm_keep wm \<or> old = [] then end_compression sid (put_messages sid ms wm)
            else wm\<lparr>wm_compressing := dset sid (Waiting old earlier (tail_slice (wm_keep wm) ms) ob) (wm_compressing wm)\<rparr>)"

text \<open>And after it: the summary and the recent messages, or, without a summary, the end of the list object as it now is.\<close>

definition fallback_messages :: "working_memory \<Rightarrow> llm_message list \<Rightarrow> llm_message list" where
  "fallback_messages wm object_ms = truncate_tool_results (tail_slice (wm_keep wm * 2) object_ms)"

definition compress_finish :: "context_env \<Rightarrow> exn + string option \<Rightarrow> string \<Rightarrow> working_memory \<Rightarrow> working_memory" where
  "compress_finish env answer sid wm =
     (case dget (wm_compressing wm) sid of
        Some (Waiting old earlier recent ob) \<Rightarrow>
          let fallback = fallback_messages wm (case ob of Left ms \<Rightarrow> ms | _ \<Rightarrow> get_messages sid wm);
              result = (case answer of
                  Inr (Some text) \<Rightarrow>
                    if str_strip text = [] then fallback
                    else text_message ''system'' (ce_summary_text env (length old) text) # recent
                | _ \<Rightarrow> fallback) in
          end_compression sid (if ob = Gone then wm else put_messages sid result wm)
      | _ \<Rightarrow> wm)"

datatype memory_op =
    GetSession real string string string
  | AddMessage real string llm_message
  | ClearSession string
  | CleanupExpired real
  | UpdateMemoryConfig "nat option" "real option"
  | SetProvider
  | SetTitle string string
  | LoadSession real string stored_conversation
  | CompressStart compact_hook string
  | CompressFinish "exn + string option" string

fun memory_step :: "context_env \<Rightarrow> memory_op \<Rightarrow> working_memory \<Rightarrow> working_memory" where
  "memory_step env (GetSession now sid user channel) wm = snd (get_or_create_session now sid user channel wm)"
| "memory_step env (AddMessage now sid m) wm = add_message now sid m wm"
| "memory_step env (ClearSession sid) wm = clear_session sid wm"
| "memory_step env (CleanupExpired now) wm = snd (cleanup_expired now wm)"
| "memory_step env (UpdateMemoryConfig n t) wm = update_memory_config n t wm"
| "memory_step env SetProvider wm = wm\<lparr>wm_provider := True\<rparr>"
| "memory_step env (SetTitle sid title) wm = set_session_title sid title wm"
| "memory_step env (LoadSession now sid c) wm = load_session now sid c wm"
| "memory_step env (CompressStart hook sid) wm = compress_start env hook sid wm"
| "memory_step env (CompressFinish answer sid) wm = compress_finish env answer sid wm"

section \<open>What trimming keeps\<close>

lemma trim_middle_spec:
  "\<exists>k \<le> length ms. trim_middle fits first ms z = first @ drop k ms @ z
     \<and> (k < length ms \<longrightarrow> fits (first @ drop k ms @ z)) \<and> (\<forall>j < k. \<not> fits (first @ drop j ms @ z))"
proof (induction ms)
  case (Cons m ms)
  show ?case
  proof (cases "fits (first @ (m # ms) @ z)")
    case True
    then show ?thesis by (intro exI [of _ 0]) simp
  next
    case False
    obtain k where k: "k \<le> length ms" "trim_middle fits first ms z = first @ drop k ms @ z"
      "k < length ms \<longrightarrow> fits (first @ drop k ms @ z)" "\<forall>j < k. \<not> fits (first @ drop j ms @ z)"
      using Cons.IH by blast
    have "\<not> fits (first @ drop j (m # ms) @ z)" if "j < Suc k" for j using that False k(4) by (cases j) auto
    then show ?thesis using False k by (intro exI [of _ "Suc k"]) auto
  qed
qed simp

lemma trim_parts_append: "trim_parts ms = (first, middle, z) \<Longrightarrow> ms = first @ middle @ z"
  by (auto simp: trim_parts_def split: list.splits if_splits)

lemma trim_parts_ends:
  "trim_parts ms = (first, middle, z) \<Longrightarrow> ms \<noteq> [] \<Longrightarrow> first @ z \<noteq> [] \<and> last (first @ z) = last ms
     \<and> (lm_role (hd ms) = ''system'' \<longrightarrow> first = [hd ms])"
  by (auto simp: trim_parts_def split: list.splits if_splits)

text \<open>
  Trimming gives the longest conversation that fits: the result keeps the first system message and the last message, drops a
  run of messages behind the first one, and no shorter run would do; it fits, unless nothing but the two ends is left.
\<close>

theorem trimming_drops_least:
  assumes "ms \<noteq> []"
  shows "\<exists>first middle z k. ms = first @ middle @ z \<and> (lm_role (hd ms) = ''system'' \<longrightarrow> first = [hd ms]) \<and> last (first @ z) = last ms
     \<and> trim_messages_to_fit env ms ts model reserve = first @ drop k middle @ z
     \<and> (k < length middle \<longrightarrow> fits_in_context env (first @ drop k middle @ z) ts model reserve)
     \<and> (\<forall>j < k. \<not> fits_in_context env (first @ drop j middle @ z) ts model reserve)"
proof -
  obtain first middle z where p: "trim_parts ms = (first, middle, z)" by (cases "trim_parts ms")
  note split = trim_parts_append [OF p] and ends = trim_parts_ends [OF p assms]
  let ?fits = "\<lambda>c. fits_in_context env c ts model reserve"
  obtain k where k: "trim_messages_to_fit env ms ts model reserve = first @ drop k middle @ z"
    "k < length middle \<longrightarrow> ?fits (first @ drop k middle @ z)" "\<forall>j < k. \<not> ?fits (first @ drop j middle @ z)"
  proof (cases "?fits ms")
    case True
    then have "trim_messages_to_fit env ms ts model reserve = first @ drop 0 middle @ z" "?fits (first @ drop 0 middle @ z)"
      using split by (simp_all add: trim_messages_to_fit_def)
    then show thesis by (intro that [of 0]) simp_all
  next
    case False
    then show thesis using trim_middle_spec [of middle ?fits first z] that by (auto simp: trim_messages_to_fit_def p)
  qed
  have ends': "lm_role (hd ms) = ''system'' \<longrightarrow> first = [hd ms]" "last (first @ z) = last ms" using ends by blast+
  show ?thesis
    by (intro exI [of _ first] exI [of _ middle] exI [of _ z] exI [of _ k] conjI split ends' k)
qed

section \<open>The size of a session\<close>

definition all_within :: "nat \<Rightarrow> working_memory \<Rightarrow> bool" where
  "all_within n wm \<longleftrightarrow> (\<forall>sid s. dget (wm_sessions wm) sid = Some s \<longrightarrow> length (cs_messages s) \<le> n)"

text \<open>Without a provider nothing is compressed, and the limit holds.\<close>

definition plain_memory :: "nat \<Rightarrow> working_memory \<Rightarrow> bool" where
  "plain_memory n wm \<longleftrightarrow> \<not> wm_provider wm \<and> wm_compressing wm = [] \<and> 1 \<le> wm_max wm \<and> wm_max wm \<le> n \<and> all_within n wm"

lemma all_within_set: "all_within n wm \<Longrightarrow> length (cs_messages s) \<le> n \<Longrightarrow> all_within n (set_session sid s wm)"
  by (simp add: all_within_def set_session_def)

lemma on_compression_sessions [simp]:
  "wm_sessions (on_compression sid f wm) = wm_sessions wm" "wm_max (on_compression sid f wm) = wm_max wm"
  "wm_provider (on_compression sid f wm) = wm_provider wm" "wm_timeout (on_compression sid f wm) = wm_timeout wm"
  by (simp_all add: on_compression_def split: option.split)

lemma on_compression_Nil [simp]: "wm_compressing wm = [] \<Longrightarrow> on_compression sid f wm = wm"
  by (simp add: on_compression_def)

lemma plain_set_session: "plain_memory n wm \<Longrightarrow> length (cs_messages s) \<le> n \<Longrightarrow> plain_memory n (set_session sid s wm)"
  by (simp add: plain_memory_def all_within_set) (simp add: set_session_def)

lemma plain_pop: "plain_memory n wm \<Longrightarrow> plain_memory n (pop_session sid wm)"
  by (simp add: plain_memory_def all_within_def pop_session_def)

lemma length_shortened: "1 \<le> n \<Longrightarrow> length (shortened n ms) \<le> n"
  by (simp add: shortened_def Let_def tail_slice_def truncate_tool_results_def)

lemma plain_get_or_create:
  assumes "plain_memory n wm"
  shows "plain_memory n (snd (get_or_create_session now sid user channel wm))"
    and "length (cs_messages (fst (get_or_create_session now sid user channel wm))) \<le> n"
proof -
  have "length (cs_messages s) \<le> n" if "dget (wm_sessions wm) sid = Some s" for s
    using that assms by (simp add: plain_memory_def all_within_def)
  then show "plain_memory n (snd (get_or_create_session now sid user channel wm))"
    and "length (cs_messages (fst (get_or_create_session now sid user channel wm))) \<le> n"
    using assms by (auto simp: get_or_create_session_def Let_def plain_pop intro!: plain_set_session split: option.splits)
qed

lemma plain_add:
  assumes "plain_memory n wm"
  shows "plain_memory n (add_message now sid m wm)"
proof (cases "dget (wm_sessions wm) sid")
  case (Some s)
  let ?ms = "cs_messages s @ [m]"
  have plain: "\<not> wm_provider wm" "wm_compressing wm = []" "1 \<le> wm_max wm" "wm_max wm \<le> n"
    using assms by (simp_all add: plain_memory_def)
  have short: "length (shortened (wm_max wm) ?ms) \<le> n" using length_shortened [OF plain(3), of ?ms] plain(4) by linarith
  show ?thesis
  proof (cases "wm_max wm < length ?ms")
    case True
    then show ?thesis using plain assms Some short
      by (simp add: add_message_def Let_def on_compression_def set_session_def [of sid _ wm] plain_set_session [unfolded set_session_def])
  next
    case False
    then have "length ?ms \<le> n" using plain(4) by linarith
    with False show ?thesis using plain assms Some by (simp add: add_message_def Let_def plain_set_session)
  qed
qed (use assms in \<open>simp add: add_message_def\<close>)

lemma plain_load:
  assumes "plain_memory n wm"
  shows "plain_memory n (load_session now sid c wm)"
proof -
  obtain s wm1 where g: "get_or_create_session now sid (sc_user c) (sc_channel c) wm = (s, wm1)"
    by (cases "get_or_create_session now sid (sc_user c) (sc_channel c) wm")
  have plain: "plain_memory n wm1" using plain_get_or_create(1) [OF assms, of now sid "sc_user c" "sc_channel c"] g by simp
  then have "1 \<le> wm_max wm1" "wm_max wm1 \<le> n" "wm_compressing wm1 = []" by (simp_all add: plain_memory_def)
  then show ?thesis using plain
    by (auto simp: load_session_def g Let_def tail_slice_def set_session_def [of sid _ wm1] on_compression_def
        intro!: plain_set_session [unfolded set_session_def])
qed

lemma plain_fold_pop: "plain_memory n wm \<Longrightarrow> plain_memory n (fold pop_session sids wm)"
  by (induction sids arbitrary: wm) (auto intro: plain_pop)

definition limits_within :: "nat \<Rightarrow> memory_op \<Rightarrow> bool" where
  "limits_within n op \<longleftrightarrow>
     (case op of UpdateMemoryConfig (Some k) _ \<Rightarrow> k \<le> n | SetProvider \<Rightarrow> False | _ \<Rightarrow> True)"

lemma plain_step:
  assumes "plain_memory n wm" "limits_within n x"
  shows "plain_memory n (memory_step env x wm)"
proof (cases x)
  case (UpdateMemoryConfig k t)
  then show ?thesis using assms
    by (auto simp: update_memory_config_def Let_def plain_memory_def all_within_def limits_within_def split: option.splits)
next
  case (SetTitle sid title)
  then show ?thesis using assms(1)
    by (auto simp: set_session_title_def split: option.split intro!: plain_set_session) (simp add: plain_memory_def all_within_def)
next
  case (CompressStart hook sid)
  then show ?thesis using assms(1) by (simp add: compress_start_def plain_memory_def)
next
  case (CompressFinish answer sid)
  then show ?thesis using assms(1) by (simp add: compress_finish_def plain_memory_def)
qed (use assms in \<open>auto simp: plain_get_or_create plain_add plain_load plain_pop clear_session_def cleanup_expired_def Let_def
      plain_fold_pop limits_within_def\<close>)

lemma plain_new: "1 \<le> k \<Longrightarrow> k \<le> n \<Longrightarrow> plain_memory n (new_memory k threshold keep timeout False)"
  by (simp add: plain_memory_def new_memory_def all_within_def)

text \<open>
  Sessions stay small: in a memory without a provider no session ever holds more messages than the limit, whatever is added,
  loaded or configured up to it.
\<close>

theorem sessions_bounded:
  assumes "1 \<le> k" "k \<le> n" "list_all (limits_within n) ops"
  shows "all_within n (fold (memory_step env) ops (new_memory k threshold keep timeout False))"
proof -
  have "plain_memory n (fold (memory_step env) ops wm)" if "plain_memory n wm" for wm
    using that assms(3) by (induction ops arbitrary: wm) (auto intro: plain_step)
  then show ?thesis using plain_new [OF assms(1,2)] by (simp add: plain_memory_def)
qed

section \<open>A hook that blocks compression lifts the limit\<close>

lemma add_once:
  assumes "wm_sessions wm = [(sid, s)]" "wm_compressing wm = []" "wm_provider wm" "wm_threshold wm \<le> wm_max wm"
  shows "\<exists>s'. compress_start env HookBlock sid (add_message now sid m wm) = wm\<lparr>wm_sessions := [(sid, s')]\<rparr>
    \<and> cs_messages s' = cs_messages s @ [m]"
proof -
  let ?s = "s\<lparr>cs_messages := cs_messages s @ [m], cs_active := now\<rparr>"
  have "compress_start env HookBlock sid (add_message now sid m wm) = wm\<lparr>wm_sessions := [(sid, ?s)]\<rparr>"
  proof (cases "wm_threshold wm \<le> Suc (length (cs_messages s))")
    case True
    then show ?thesis using assms
      by (cases wm) (simp add: add_message_def Let_def set_session_def compress_start_def end_compression_def)
  next
    case False
    then have "\<not> wm_max wm < Suc (length (cs_messages s))" using assms(4) by linarith
    with False show ?thesis using assms by (simp add: add_message_def Let_def set_session_def compress_start_def)
  qed
  then show ?thesis by (intro exI [of _ ?s]) simp
qed

lemma blocked_memory_grows:
  assumes "wm_sessions wm = [(sid, s)]" "wm_compressing wm = []" "wm_provider wm" "wm_threshold wm \<le> wm_max wm"
  shows "\<exists>s'. wm_sessions (fold (memory_step env) (concat (map (\<lambda>m. [AddMessage now sid m, CompressStart HookBlock sid]) ms)) wm) = [(sid, s')]
    \<and> cs_messages s' = cs_messages s @ ms"
  using assms
proof (induction ms arbitrary: wm s)
  case (Cons m ms)
  obtain s1 where s1: "compress_start env HookBlock sid (add_message now sid m wm) = wm\<lparr>wm_sessions := [(sid, s1)]\<rparr>"
    "cs_messages s1 = cs_messages s @ [m]" using add_once [OF Cons.prems] by blast
  show ?case using Cons.IH [of "wm\<lparr>wm_sessions := [(sid, s1)]\<rparr>" s1] Cons.prems s1 by simp
qed simp

text \<open>
  With a provider the limit does not hold. When a hook blocks each compression, every message that schedules one is kept, and the
  session grows with each message, whatever the limit.
\<close>

theorem blocked_compression_unbounded:
  "\<exists>ops. length (get_messages sid (fold (memory_step env) ops (new_memory k (min k threshold) keep timeout True))) = n"
proof -
  let ?start = "new_memory k (min k threshold) keep timeout True"
  let ?wm = "snd (get_or_create_session 0 sid [] [] ?start)"
  let ?ops = "concat (map (\<lambda>m. [AddMessage 0 sid m, CompressStart HookBlock sid]) (replicate n (text_message ''user'' ''hi'')))"
  have wm: "wm_sessions ?wm = [(sid, \<lparr>cs_user = [], cs_channel = [], cs_messages = [], cs_active = 0, cs_title = []\<rparr>)]"
    "wm_compressing ?wm = []" "wm_provider ?wm" "wm_threshold ?wm \<le> wm_max ?wm"
    by (simp_all add: get_or_create_session_def new_memory_def set_session_def Let_def)
  obtain s where "wm_sessions (fold (memory_step env) ?ops ?wm) = [(sid, s)]" "cs_messages s = replicate n (text_message ''user'' ''hi'')"
    using blocked_memory_grows [OF wm, of env 0 "replicate n (text_message ''user'' ''hi'')"] by auto
  then have "length (get_messages sid (fold (memory_step env) (GetSession 0 sid [] [] # ?ops) ?start)) = n"
    by (simp add: get_messages_def)
  then show ?thesis by (rule exI [of _ "GetSession 0 sid [] [] # ?ops"])
qed

section \<open>A compression loses what arrives meanwhile\<close>

definition compression_waits :: "string \<Rightarrow> llm_message list \<Rightarrow> llm_message list \<Rightarrow> working_memory \<Rightarrow> bool" where
  "compression_waits sid old recent wm \<longleftrightarrow>
     (\<exists>earlier ob. dget (wm_compressing wm) sid = Some (Waiting old earlier recent ob) \<and> ob \<noteq> Gone)
     \<and> dget (wm_sessions wm) sid \<noteq> None"

lemma leave_object_waiting:
  "ob \<noteq> Gone \<Longrightarrow> \<exists>ob'. leave_object ms (Waiting old earlier recent ob) = Waiting old earlier recent ob' \<and> ob' \<noteq> Gone"
  by (cases ob) auto

lemma waiting_add:
  assumes "compression_waits sid old recent wm"
  shows "compression_waits sid old recent (add_message now sid m wm)"
proof -
  obtain earlier ob s where w: "dget (wm_compressing wm) sid = Some (Waiting old earlier recent ob)" "ob \<noteq> Gone"
    "dget (wm_sessions wm) sid = Some s" using assms by (auto simp: compression_waits_def)
  obtain ob' where ob': "leave_object (cs_messages s @ [m]) (Waiting old earlier recent ob) = Waiting old earlier recent ob'" "ob' \<noteq> Gone"
    using leave_object_waiting [OF w(2)] by blast
  have "sid \<in> set (dkeys (wm_compressing wm))" using dget_Some_in_keys [OF w(1)] .
  then show ?thesis using w ob' by (simp add: compression_waits_def add_message_def Let_def set_session_def on_compression_def)
qed

lemma waiting_start:
  assumes "dget (wm_compressing wm) sid = Some Scheduled" "dget (wm_sessions wm) sid = Some s"
    "wm_threshold wm \<le> length (cs_messages s)" "wm_keep wm < length (cs_messages s)" "0 < wm_keep wm"
    "lm_role (hd (cs_messages s)) \<noteq> ''system''"
  shows "compression_waits sid (front_slice (wm_keep wm) (cs_messages s)) (tail_slice (wm_keep wm) (cs_messages s)) (compress_start env HookPass sid wm)"
proof -
  have ne: "front_slice (wm_keep wm) (cs_messages s) \<noteq> []" using assms(4,5) by (cases "cs_messages s") (auto simp: front_slice_def)
  have "hd (front_slice (wm_keep wm) (cs_messages s)) = hd (cs_messages s)"
    using assms(4,5) by (cases "cs_messages s") (auto simp: front_slice_def)
  with ne assms(6) have "earlier_summary env (front_slice (wm_keep wm) (cs_messages s)) = (None, front_slice (wm_keep wm) (cs_messages s))"
    by (auto simp: earlier_summary_def split: list.split)
  moreover have "cs_messages s \<noteq> []" using assms(4) by auto
  ultimately show ?thesis using assms ne by (simp add: compress_start_def compression_waits_def)
qed

lemma compress_finish_waiting:
  assumes "compression_waits sid old recent wm" "str_strip text \<noteq> []"
  shows "get_messages sid (compress_finish env (Inr (Some text)) sid wm) =
     text_message ''system'' (ce_summary_text env (length old) text) # recent"
  using assms by (auto simp: compression_waits_def compress_finish_def Let_def end_compression_def put_messages_def set_session_def get_messages_def)

text \<open>
  C33. A compression loses what arrives while it waits for the model: whatever messages are added between its start and its end, the
  session then holds the summary and the recent messages from before, and none of the new ones.
\<close>

theorem compression_loses_messages:
  assumes "dget (wm_compressing wm) sid = Some Scheduled" "dget (wm_sessions wm) sid = Some s"
    "wm_threshold wm \<le> length (cs_messages s)" "wm_keep wm < length (cs_messages s)" "0 < wm_keep wm"
    "lm_role (hd (cs_messages s)) \<noteq> ''system''" "str_strip text \<noteq> []"
  shows "get_messages sid (compress_finish env (Inr (Some text)) sid
      (fold (\<lambda>(now, m). add_message now sid m) new (compress_start env HookPass sid wm))) =
     text_message ''system'' (ce_summary_text env (length (cs_messages s) - wm_keep wm) text) # last_n (wm_keep wm) (cs_messages s)"
proof -
  let ?old = "front_slice (wm_keep wm) (cs_messages s)" and ?recent = "tail_slice (wm_keep wm) (cs_messages s)"
  have "compression_waits sid ?old ?recent (fold (\<lambda>(now, m). add_message now sid m) new wm')" if "compression_waits sid ?old ?recent wm'" for wm'
    using that by (induction new arbitrary: wm') (auto intro: waiting_add)
  from compress_finish_waiting [OF this [OF waiting_start [OF assms(1-6)]] assms(7)]
  show ?thesis using assms(4,5) by (simp add: front_slice_def tail_slice_def)
qed

definition demo_context :: context_env where
  "demo_context = \<lparr>ce_wide = (\<lambda>_. False), ce_dumps = (\<lambda>_. []), ce_parameters = (\<lambda>_. []), ce_mark = ''[summary]'',
     ce_summary_text = (\<lambda>n text. ''[summary]'' @ text), ce_domain = (\<lambda>_. []), ce_sanitize = (\<lambda>s. s)\<rparr>"

definition demo_memory :: working_memory where
  "demo_memory = fold (\<lambda>t. add_message 0 ''u:c'' (text_message ''user'' t)) [''one'', ''two'', ''three'']
     (snd (get_or_create_session 0 ''u:c'' ''u'' ''c'' (new_memory 50 3 1 30 True)))"

lemma demo_memory_eq:
  "wm_compressing demo_memory = [(''u:c'', Scheduled)]" "wm_threshold demo_memory = 3" "wm_keep demo_memory = 1"
  "wm_sessions demo_memory = [(''u:c'', \<lparr>cs_user = ''u'', cs_channel = ''c'',
     cs_messages = map (text_message ''user'') [''one'', ''two'', ''three''], cs_active = 0, cs_title = []\<rparr>)]"
  by (simp_all add: demo_memory_def new_memory_def get_or_create_session_def Let_def set_session_def add_message_def)

theorem compression_loses_messages_witness:
  "get_messages ''u:c'' (compress_finish demo_context (Inr (Some ''short'')) ''u:c''
     (add_message 1 ''u:c'' (text_message ''user'' ''lost'') (compress_start demo_context HookPass ''u:c'' demo_memory))) =
   [text_message ''system'' ''[summary]short'', text_message ''user'' ''three'']"
  using compression_loses_messages [of demo_memory "''u:c''" _ "''short''" demo_context "[(1, text_message ''user'' ''lost'')]"]
  by (simp add: demo_memory_eq demo_context_def text_message_def str_strip_def is_space_def last_n_def)

theorem sessions_bounded_witness:
  "all_within 2 (fold (memory_step demo_context) [GetSession 0 ''u:c'' ''u'' ''c'', AddMessage 0 ''u:c'' (text_message ''user'' ''one''),
     UpdateMemoryConfig (Some 2) None] (new_memory 1 30 10 30 False))"
  by (rule sessions_bounded) (simp_all add: limits_within_def)

section \<open>Truncating again and again erases a tool result\<close>

definition success_mark :: string where "success_mark = ''[success=True] ''"

definition result_after :: "string \<Rightarrow> nat \<Rightarrow> string" where
  "result_after text k = content_of ((truncate_message ^^ k) ((text_message ''tool'' text)\<lparr>lm_call_id := Some ''1''\<rparr>))"

lemma length_success_mark: "length success_mark = 15" by (simp add: success_mark_def)

lemma truncate_marked:
  assumes "lm_role m = ''tool''" "prefix success_mark (content_of m)" "300 < length (content_of m)"
  shows "content_of (truncate_message m) = success_mark @ take 300 (content_of m) @ truncated_mark" "lm_role (truncate_message m) = ''tool''"
proof -
  obtain r where r: "content_of m = success_mark @ r" using assms(2) by (auto simp: prefix_def)
  have "prefix ''[success=True]'' (content_of m)" by (simp add: r success_mark_def)
  then have "sublist ''[success=True]'' (content_of m)" by (rule prefix_imp_sublist)
  then have "result_status (content_of m) @ '' '' = success_mark" by (simp add: result_status_def str_contains_sublist success_mark_def)
  then show "content_of (truncate_message m) = success_mark @ take 300 (content_of m) @ truncated_mark" "lm_role (truncate_message m) = ''tool''"
    using assms by (simp_all add: truncate_message_def Let_def tool_result_max_def content_of_def)
qed

lemma take_append_take: "take n (xs @ take n ys) = take n (xs @ ys)"
  by simp

lemma truncate_again:
  assumes "prefix success_mark text" "300 < length text"
  shows "lm_role ((truncate_message ^^ k) ((text_message ''tool'' text)\<lparr>lm_call_id := Some ''1''\<rparr>)) = ''tool''
    \<and> prefix success_mark (result_after text k) \<and> 300 < length (result_after text k)
    \<and> take 300 (result_after text k) = take 300 (concat (replicate k success_mark) @ text)"
proof (induction k)
  case 0
  then show ?case using assms by (simp add: result_after_def content_of_def text_message_def)
next
  case (Suc k)
  let ?m = "(truncate_message ^^ k) ((text_message ''tool'' text)\<lparr>lm_call_id := Some ''1''\<rparr>)"
  have content: "result_after text k = content_of ?m" by (simp add: result_after_def)
  note step = truncate_marked [of ?m, folded content]
  have next_text: "result_after text (Suc k) = success_mark @ take 300 (result_after text k) @ truncated_mark"
    using Suc step(1) by (simp add: result_after_def)
  have len: "300 < length (result_after text k)" using Suc by blast
  have "take 300 (result_after text (Suc k)) = take 300 (success_mark @ take 300 (result_after text k))"
    unfolding next_text using len by (simp add: length_success_mark)
  also have "take 300 (result_after text k) = take 300 (concat (replicate k success_mark) @ text)" using Suc by blast
  also have "take 300 (success_mark @ take 300 (concat (replicate k success_mark) @ text)) =
      take 300 (concat (replicate (Suc k) success_mark) @ text)"
    unfolding take_append_take by simp
  finally have "take 300 (result_after text (Suc k)) = take 300 (concat (replicate (Suc k) success_mark) @ text)" .
  moreover have "prefix success_mark (result_after text (Suc k))" "300 < length (result_after text (Suc k))"
    unfolding next_text using len by (simp_all add: length_success_mark truncated_mark_def)
  moreover have "lm_role ((truncate_message ^^ Suc k) ((text_message ''tool'' text)\<lparr>lm_call_id := Some ''1''\<rparr>)) = ''tool''"
    using Suc step(2) by simp
  ultimately show ?case by blast
qed

text \<open>
  Each message beyond the limit truncates all tool results once more, and each time the mark of success goes in front of the cut
  text again: after twenty more messages nothing but marks is left of a result in its first 300 characters.
\<close>

theorem truncation_erases_results:
  assumes "prefix success_mark text" "300 < length text" "20 \<le> k"
  shows "take 300 (result_after text k) = concat (replicate 20 success_mark)"
proof -
  have "concat (replicate k success_mark) = concat (replicate 20 success_mark) @ concat (replicate (k - 20) success_mark)"
    using assms(3) by (metis add_diff_inverse_nat concat_append not_less replicate_add)
  moreover have "length (concat (replicate 20 success_mark)) = 300"
    by (simp add: length_concat sum_list_replicate length_success_mark)
  ultimately show ?thesis using truncate_again [OF assms(1,2), of k] by simp
qed

theorem truncation_erases_results_witness:
  "take 300 (result_after (success_mark @ replicate 300 CHR ''x'') 20) = concat (replicate 20 success_mark)"
  by (rule truncation_erases_results) (simp_all add: length_success_mark)

section \<open>Trimming separates a result from its call\<close>

text \<open>
  The messages go one by one. When the call of a tool goes and its result is the last message, a result stays that answers no
  call, and the question of the user is gone.
\<close>

definition tool_exchange :: "string \<Rightarrow> string \<Rightarrow> llm_message list" where
  "tool_exchange question answer =
     [text_message ''system'' ''s'', text_message ''user'' question,
      \<lparr>lm_role = ''assistant'', lm_content = None, lm_calls = [\<lparr>tc_id = ''1'', tc_name = ''ls'', tc_args = []\<rparr>], lm_call_id = None, lm_name = None\<rparr>,
      \<lparr>lm_role = ''tool'', lm_content = Some answer, lm_calls = [], lm_call_id = Some ''1'', lm_name = Some ''ls''\<rparr>]"

lemma trimming_orphans_result:
  assumes "get_model_limit model < context_tokens env (drop 2 (tool_exchange question answer)) ts + reserve"
  shows "map lm_role (trim_messages_to_fit env (tool_exchange question answer) ts model reserve) = [''system'', ''tool'']"
  using assms
  by (simp add: trim_messages_to_fit_def tool_exchange_def trim_parts_def fits_in_context_def context_tokens_def
      estimate_messages_tokens_def text_message_def numeral_2_eq_2)

end
