(* ===== verification/Agent_Loop.thy ===== *)
theory Agent_Loop
  imports Chat_Context Hooks Llm_Cost
begin

text \<open>
  The agent (\<open>src/src/breadmind/core/agent.py\<close>): a message of a user passes the hooks, is put behind the session's history,
  and the language model is asked in turns until it answers without a call of a tool. Calls go to the executor of \<open>Tool_Exec\<close>,
  messages into the working memory of \<open>Chat_Context\<close>, hooks run as in \<open>Hooks\<close>, the model is chosen by the router of \<open>Llm_Cost\<close>.

  The model, the tools, the intent classifier, enrichment and summaries, recalled notes, the clock, the digest of arguments, the text of
  JSON values and the Korean replies are parameters. Bus events, the audit log, progress reports, user profiles, the episodic recorder
  and behaviour analysis only observe and are left out. The requests made to the model and the direct connections are recorded as ghosts.
\<close>

section \<open>Data\<close>

record agent_intent =
  ai_category :: intent_category
  ai_urgency :: string
  ai_tools :: tool_intent

record llm_response =
  lr_content :: "string option"
  lr_calls :: "tool_call list"
  lr_usage :: "(int \<times> int) option"
  lr_stop :: string

record chat_request =
  rq_messages :: "llm_message list"
  rq_tools :: "offered_tool list option"
  rq_model :: "string option"
  rq_think :: int

datatype chat_outcome = ChatTimeout | ChatRaised exn | ChatAnswer llm_response

record agent_env =
  ae_tools :: tool_env
  ae_hooks :: hook_env
  ae_bus :: hook_bus
  ae_str :: "json \<Rightarrow> string"
  ae_classify :: "string \<Rightarrow> agent_intent"
  ae_offered :: "offered_tool list"
  ae_context :: context_env
  ae_model :: string
  ae_chat :: "nat \<Rightarrow> chat_request \<Rightarrow> chat_outcome"
  ae_enrich :: "(string \<Rightarrow> string \<Rightarrow> exn + llm_message list) option"
  ae_summarize :: "(llm_message list \<Rightarrow> offered_tool list \<Rightarrow> exn + llm_message list) option"
  ae_digest :: "json_obj \<Rightarrow> string"
  ae_recalled :: "nat \<Rightarrow> llm_message list"
  ae_reminder :: "string option"
  ae_clock :: "nat \<Rightarrow> real"
  ae_today :: date
  ae_latency :: "nat \<Rightarrow> real"
  ae_timeout_text :: string
  ae_error_text :: "exn \<Rightarrow> string"
  ae_loop_text :: "string \<Rightarrow> string"

record agent_state =
  ag_exec :: exec_state
  ag_memory :: "working_memory option"
  ag_usage :: "int \<times> int"
  ag_notes :: "string list"
  ag_router :: "cost_router option"
  ag_trace :: trace_buffer
  ag_system :: string
  ag_max_turns :: int
  ag_ticks :: nat
  ag_requests :: "chat_request list"
  ag_connects :: "json_obj list"

type_synonym 'a agent = "(agent_state, 'a) prog"

section \<open>Helpers\<close>

text \<open>Each reading of the clock takes the next time.\<close>

definition read_clock :: "agent_env \<Rightarrow> real agent" where
  "read_clock env s = (Inr (ae_clock env (ag_ticks s)), s\<lparr>ag_ticks := ag_ticks s + 1\<rparr>)"

definition session_key :: "string \<Rightarrow> string \<Rightarrow> string" where
  "session_key user channel = user @ '':'' @ channel"

definition assistant_message :: "string option \<Rightarrow> tool_call list \<Rightarrow> llm_message" where
  "assistant_message content calls =
     \<lparr>lm_role = ''assistant'', lm_content = content, lm_calls = calls, lm_call_id = None, lm_name = None\<rparr>"

text \<open>The working memory, when there is one, gets a message.\<close>

definition remember :: "agent_env \<Rightarrow> string \<Rightarrow> llm_message \<Rightarrow> unit agent" where
  "remember env sid m =
     bind_s (read_clock env) (\<lambda>now. modify_s (\<lambda>s. s\<lparr>ag_memory := map_option (add_message now sid m) (ag_memory s)\<rparr>))"

text \<open>A reply of the agent: it is remembered and returned.\<close>

definition say :: "agent_env \<Rightarrow> string \<Rightarrow> string \<Rightarrow> string option agent" where
  "say env sid text = then_s (remember env sid (text_message ''assistant'' text)) (ret (Some text))"

definition py_str :: "agent_env \<Rightarrow> json \<Rightarrow> string" where
  "py_str env v = (case v of JStr s \<Rightarrow> s | _ \<Rightarrow> ae_str env v)"

definition emit_hook :: "agent_env \<Rightarrow> hook_event \<Rightarrow> json_obj \<Rightarrow> hook_decision agent" where
  "emit_hook env ev data s =
     (case run_hook_chain (ae_hooks env) (ae_bus env) (hook_event_value ev)
         \<lparr>hp_event = ev, hp_data = data, hp_depth = 0, hp_visited = {}, hp_session_id = [], hp_trace_id = []\<rparr> (ag_trace s) of
        (r, t) \<Rightarrow> (r, s\<lparr>ag_trace := t\<rparr>))"

section \<open>Hooks of the prompt\<close>

text \<open>Either the reply that ends the conversation, or the message to go on with. A reroute is not looked at.\<close>

definition prompt_decision :: "agent_env \<Rightarrow> string \<Rightarrow> hook_decision \<Rightarrow> (string + string) agent" where
  "prompt_decision env message d =
     (case hd_kind d of
        BLOCK \<Rightarrow> ret (Inl (''(blocked by hook: '' @ py_str env (hd_reason d) @ '')''))
      | REPLY \<Rightarrow> ret (Inl (py_str env (hd_reply d)))
      | MODIFY \<Rightarrow>
          (case dget_or (hd_patch d) ''prompt'' (JStr message) of
             JStr p \<Rightarrow> ret (Inr p)
           | _ \<Rightarrow> raise_s (TypeError ''expected string or bytes-like object''))
      | _ \<Rightarrow> ret (Inr message))"

definition submit_prompt :: "agent_env \<Rightarrow> string \<Rightarrow> string \<Rightarrow> string \<Rightarrow> (string + string) agent" where
  "submit_prompt env message user channel =
     (let common = [(''session_id'', JStr (session_key user channel)), (''user'', JStr user), (''channel'', JStr channel)] in
      then_s (emit_hook env SESSION_START common)
        (bind_s (emit_hook env USER_PROMPT_SUBMIT ((''prompt'', JStr message) # common)) (prompt_decision env message)))"

section \<open>Credentials in the message\<close>

text \<open>\<open>re.search\<close>: the leftmost place where the pattern matches. The patterns are those of the source, on ASCII text.\<close>

fun search_at :: "(string \<Rightarrow> 'a option) \<Rightarrow> string \<Rightarrow> 'a option" where
  "search_at f [] = f []"
| "search_at f (c # cs) = (case f (c # cs) of Some x \<Rightarrow> Some x | None \<Rightarrow> search_at f cs)"

definition credential_at :: "string \<Rightarrow> string option" where
  "credential_at s =
     (let ref = takeWhile (\<lambda>c. is_word_char c \<or> c \<in> {CHR '':'', CHR ''.'', CHR ''@'', CHR ''-''}) (drop 15 s) in
      if startswith s ''credential_ref:'' \<and> ref \<noteq> [] then Some (''credential_ref:'' @ ref) else None)"

fun dotted_at :: "nat \<Rightarrow> string \<Rightarrow> string option" where
  "dotted_at 0 s = (let d = takeWhile is_digit s in if d = [] then None else Some d)"
| "dotted_at (Suc n) s =
     (let d = takeWhile is_digit s; r = dropWhile is_digit s in
      if d = [] \<or> \<not> startswith r ''.'' then None else map_option (\<lambda>t. d @ ''.'' @ t) (dotted_at n (tl r)))"

definition login_at :: "string \<Rightarrow> string option" where
  "login_at s =
     (let w = takeWhile is_word_char s in if w \<noteq> [] \<and> startswith (dropWhile is_word_char s) ''@'' then Some w else None)"

definition connect_args :: "string \<Rightarrow> json_obj option" where
  "connect_args message =
     (case (search_at credential_at message, search_at (dotted_at 3) message) of
        (Some ref, Some host) \<Rightarrow>
          Some [(''action'', JStr ''connect''), (''host'', JStr host), (''router_type'', JStr ''openwrt''),
            (''username'', JStr (case search_at login_at message of None \<Rightarrow> ''root'' | Some u \<Rightarrow> u)), (''password'', JStr ref)]
      | _ \<Rightarrow> None)"

text \<open>A credential and an address in the message: the router is connected at once, without the model.\<close>

definition auto_connect :: "agent_env \<Rightarrow> string \<Rightarrow> string option agent" where
  "auto_connect env message =
     (case (if ''router_manage'' \<in> ot_name ` set (ae_offered env) then connect_args message else None) of
        None \<Rightarrow> ret None
      | Some args \<Rightarrow>
          then_s (modify_s (\<lambda>s. s\<lparr>ag_connects := ag_connects s @ [args]\<rparr>))
            (case te_execute (ae_tools env) None ''router_manage'' args of
               ToResult _ output _ \<Rightarrow> ret (Some output)
             | _ \<Rightarrow> ret None))"

section \<open>The messages of a conversation\<close>

definition recalled_history :: "agent_env \<Rightarrow> string \<Rightarrow> string \<Rightarrow> string \<Rightarrow> llm_message list agent" where
  "recalled_history env sid user channel =
     bind_s get_s (\<lambda>s.
       case ag_memory s of
         None \<Rightarrow> ret []
       | Some _ \<Rightarrow>
           bind_s (read_clock env) (\<lambda>now s.
             (case ag_memory s of
                None \<Rightarrow> (Inr [], s)
              | Some wm \<Rightarrow> (case get_or_create_session now sid user channel wm of
                    (sn, wm') \<Rightarrow> (Inr (cs_messages sn), s\<lparr>ag_memory := Some wm'\<rparr>)))))"

definition sanitized :: "agent_env \<Rightarrow> string \<Rightarrow> string" where
  "sanitized env text = ce_sanitize (ae_context env) text"

definition enriched :: "agent_env \<Rightarrow> string \<Rightarrow> string \<Rightarrow> string \<Rightarrow> llm_message list \<Rightarrow> llm_message list" where
  "enriched env system sid message ms =
     (case ae_enrich env of
        None \<Rightarrow> ms
      | Some build \<Rightarrow>
          (case build sid message of
             Inl _ \<Rightarrow> ms
           | Inr found \<Rightarrow>
               take 1 ms @ filter (\<lambda>m. lm_role m = ''system'' \<and> content_of m \<noteq> [] \<and> content_of m \<noteq> system) found @ drop 1 ms))"

definition opening_messages :: "agent_env \<Rightarrow> string \<Rightarrow> string \<Rightarrow> string \<Rightarrow> string \<Rightarrow> llm_message list agent" where
  "opening_messages env sid message user channel =
     bind_s (recalled_history env sid user channel) (\<lambda>history.
     then_s (remember env sid (text_message ''user'' (sanitized env message)))
     (bind_s get_s (\<lambda>s.
        ret (enriched env (ag_system s) sid message
          (text_message ''system'' (ag_system s) # history @ [text_message ''user'' message])))))"

text \<open>The tools that are offered: as in \<open>filter_relevant_tools\<close>, with \<open>delegate_tasks\<close> among those always included.\<close>

definition agent_essential :: "tool_intent option \<Rightarrow> offered_tool \<Rightarrow> bool" where
  "agent_essential intent t \<longleftrightarrow> essential_tool intent t \<or> ot_name t = ''delegate_tasks''"

definition agent_tools :: "offered_tool list \<Rightarrow> string \<Rightarrow> nat \<Rightarrow> tool_intent option \<Rightarrow> offered_tool list" where
  "agent_tools tools message max_tools intent =
     (if length tools \<le> max_tools then tools
      else
        let essential = filter (agent_essential intent) tools;
            candidates = map (\<lambda>t. (tool_score message intent t, t)) (filter (\<lambda>t. \<not> agent_essential intent t) tools);
            ranked = sort_key (\<lambda>c. - int (fst c)) candidates
        in essential @ map snd (take (max_tools - length essential) ranked))"

definition fit_messages :: "agent_env \<Rightarrow> offered_tool list \<Rightarrow> llm_message list \<Rightarrow> llm_message list" where
  "fit_messages env tools ms =
     (case ae_summarize env of
        Some f \<Rightarrow> (case f ms tools of Inl _ \<Rightarrow> ms | Inr ms' \<Rightarrow> ms')
      | None \<Rightarrow>
          if fits_in_context (ae_context env) ms tools (ae_model env) 4096 then ms
          else trim_messages_to_fit (ae_context env) ms tools (ae_model env) 4096)"

section \<open>Asking the model\<close>

fun think_budget :: "intent_category \<Rightarrow> int" where
  "think_budget CHAT = 0"
| "think_budget LEARN = 2048"
| "think_budget QUERY = 4096"
| "think_budget CONFIGURE = 4096"
| "think_budget EXECUTE = 10240"
| "think_budget DIAGNOSE = 16384"
| "think_budget SCHEDULE = 5120"
| "think_budget TASK = 5120"
| "think_budget SEARCH_FILES = 5120"
| "think_budget CONTACT = 3072"
| "think_budget CODING = 12288"

definition route_model :: "agent_env \<Rightarrow> agent_intent \<Rightarrow> offered_tool list \<Rightarrow> (string \<times> string) option agent" where
  "route_model env intent tools s =
     (case ag_router s of
        None \<Rightarrow> (Inr None, s)
      | Some cr \<Rightarrow>
          if \<not> cr_enabled cr then (Inr None, s)
          else (case select_model (ae_today env) (ai_category intent) ''moderate'' (ai_urgency intent) 1000 BALANCED (tools \<noteq> [])
                  (0 < think_budget (ai_category intent)) cr of
              (pm, cr') \<Rightarrow> (Inr (Some pm), s\<lparr>ag_router := Some cr'\<rparr>)))"

definition ask_provider :: "agent_env \<Rightarrow> chat_request \<Rightarrow> chat_outcome agent" where
  "ask_provider env rq s = (Inr (ae_chat env (length (ag_requests s)) rq), s\<lparr>ag_requests := ag_requests s @ [rq]\<rparr>)"

definition accumulate_usage :: "llm_response \<Rightarrow> unit agent" where
  "accumulate_usage r =
     (case lr_usage r of
        None \<Rightarrow> ret ()
      | Some (i, j) \<Rightarrow> modify_s (\<lambda>s. s\<lparr>ag_usage := (fst (ag_usage s) + i, snd (ag_usage s) + j)\<rparr>))"

definition report_cost :: "agent_env \<Rightarrow> agent_intent \<Rightarrow> (string \<times> string) option \<Rightarrow> llm_response \<Rightarrow> unit agent" where
  "report_cost env intent routed r s =
     (case (ag_router s, routed, lr_usage r) of
        (Some cr, Some (provider, model), Some (i, j)) \<Rightarrow>
          if provider = [] \<or> model = [] then (Inr (), s)
          else (case record_result (ae_today env) provider model (intent_value (ai_category intent)) (lr_stop r \<noteq> ''error'')
                  (estimate_cost (cr_registry cr) model i j) (ae_latency env (length (ag_requests s))) cr of
              (Inl e, cr') \<Rightarrow> (Inl e, s\<lparr>ag_router := Some cr'\<rparr>)
            | (Inr _, cr') \<Rightarrow> (Inr (), s\<lparr>ag_router := Some cr'\<rparr>))
      | _ \<Rightarrow> (Inr (), s))"

text \<open>Notifications that wait go in front of the answer.\<close>

definition with_notes :: "string \<Rightarrow> string agent" where
  "with_notes text s =
     (if ag_notes s = [] then (Inr text, s)
      else (Inr (str_join [newline] (ag_notes s) @ [newline, newline] @ text), s\<lparr>ag_notes := []\<rparr>))"

definition final_answer :: "agent_env \<Rightarrow> string \<Rightarrow> llm_response \<Rightarrow> string option agent" where
  "final_answer env sid r = bind_s (with_notes (case lr_content r of None \<Rightarrow> [] | Some c \<Rightarrow> c)) (say env sid)"

section \<open>Answering the calls\<close>

definition message_of :: "tool_message \<Rightarrow> llm_message" where
  "message_of tm =
     \<lparr>lm_role = ''tool'', lm_content = Some (tm_content tm), lm_calls = [], lm_call_id = Some (tm_call_id tm), lm_name = Some (tm_name tm)\<rparr>"

text \<open>Each check of a call reads the clock.\<close>

definition timed_calls :: "agent_env \<Rightarrow> nat \<Rightarrow> tool_call list \<Rightarrow> (real \<times> tool_call) list" where
  "timed_calls env n calls = map2 (\<lambda>i tc. (ae_clock env i, tc)) [n..<n + length calls] calls"

text \<open>
  The executor at work: the messages it appends, and the calls it let through. What it stores in the memory is its message for a
  call it refused, and the sanitized output for a call that ran.
\<close>

definition process_calls :: "agent_env \<Rightarrow> exec_context \<Rightarrow> tool_call list \<Rightarrow> (llm_message list \<times> tool_call list) agent" where
  "process_calls env ctx calls s =
     (let timed = timed_calls env (ag_ticks s) calls; st = (ag_exec s)\<lparr>xs_messages := []\<rparr>;
          st' = process_tool_calls (ae_tools env) ctx timed st in
      (Inr (map message_of (xs_messages st'), fst (check_calls (ae_tools env) ctx timed st)),
       s\<lparr>ag_exec := st', ag_ticks := ag_ticks s + length calls\<rparr>))"

definition stored_results :: "agent_env \<Rightarrow> exec_context \<Rightarrow> llm_message list \<Rightarrow> tool_call list \<Rightarrow> llm_message list" where
  "stored_results env ctx new ran_calls =
     take (length new - length ran_calls) new
     @ map (\<lambda>tc. message_of (tool_msg tc (sanitized env (fst (execute_one (ae_tools env) ctx tc))))) ran_calls"

text \<open>The reminder goes to the last new message of a tool.\<close>

fun remind_last :: "string \<Rightarrow> llm_message list \<Rightarrow> llm_message list" where
  "remind_last text [] = []"
| "remind_last text (m # ms) =
     (if list_ex (\<lambda>x. lm_role x = ''tool'') ms then m # remind_last text ms
      else if lm_role m = ''tool'' then m\<lparr>lm_content := Some (content_of m @ text)\<rparr> # ms
      else m # ms)"

definition reminder_text :: "agent_env \<Rightarrow> string option" where
  "reminder_text env =
     (case ae_reminder env of
        None \<Rightarrow> None
      | Some r \<Rightarrow> if r = [] then None else Some ([newline, newline] @ r))"

text \<open>
  A refusal is one object in the conversation and in the memory: when no call ran, the memory's copy gets the reminder too, unless the
  memory replaced it by a shorter one.
\<close>

definition remind_memory :: "string \<Rightarrow> string \<Rightarrow> llm_message \<Rightarrow> agent_state \<Rightarrow> agent_state" where
  "remind_memory sid text m s =
     (case ag_memory s of
        None \<Rightarrow> s
      | Some wm \<Rightarrow>
          let ms = get_messages sid wm in
          if ms \<noteq> [] \<and> last ms = m
          then s\<lparr>ag_memory := Some (put_messages sid (butlast ms @ [m\<lparr>lm_content := Some (content_of m @ text)\<rparr>]) wm)\<rparr>
          else s)"

definition remind :: "agent_env \<Rightarrow> string \<Rightarrow> llm_message list \<Rightarrow> tool_call list \<Rightarrow> llm_message list \<Rightarrow> llm_message list agent" where
  "remind env sid refused ran_calls new =
     (case reminder_text env of
        None \<Rightarrow> ret new
      | Some text \<Rightarrow>
          then_s (modify_s (\<lambda>s. if ran_calls = [] \<and> refused \<noteq> [] then remind_memory sid text (last refused) s else s))
            (ret (remind_last text new)))"

text \<open>\<open>[REQUEST_INPUT] ... [/REQUEST_INPUT]\<close> in the last tool message that mentions it: the form goes to the user at once.\<close>

fun split_at_text :: "string \<Rightarrow> string \<Rightarrow> (string \<times> string) option" where
  "split_at_text mark [] = (if mark = [] then Some ([], []) else None)"
| "split_at_text mark (c # cs) =
     (if startswith (c # cs) mark then Some ([], drop (length mark) (c # cs))
      else map_option (\<lambda>(a, b). (c # a, b)) (split_at_text mark cs))"

definition strip_status :: "string \<Rightarrow> string" where
  "strip_status t =
     (if startswith t ''[success=True]'' then dropWhile is_space (drop 14 t)
      else if startswith t ''[success=False]'' then dropWhile is_space (drop 15 t)
      else t)"

definition form_open :: string where "form_open = ''[REQUEST_INPUT]''"
definition form_close :: string where "form_close = ''[/REQUEST_INPUT]''"

definition form_reply :: "string \<Rightarrow> string option" where
  "form_reply content =
     (case split_at_text form_open (strip_status content) of
        None \<Rightarrow> None
      | Some (before, rest) \<Rightarrow>
          (case split_at_text form_close rest of
             None \<Rightarrow> None
           | Some (inner, _) \<Rightarrow>
               let pre = str_strip (str_replace_from 0 ''[NEED_CREDENTIALS]'' [] (str_strip before));
                   form = form_open @ inner @ form_close in
               Some (if pre = [] then form else pre @ [newline, newline] @ form)))"

definition requested_input :: "llm_message list \<Rightarrow> string option" where
  "requested_input new =
     (case find (\<lambda>m. lm_role m = ''tool'' \<and> str_contains (content_of m) form_open) (rev new) of
        None \<Rightarrow> None
      | Some m \<Rightarrow> form_reply (content_of m))"

text \<open>All of it: the assistant's message, the executor, the recalled notes, the reminder. The messages to go on with.\<close>

definition settle_calls ::
  "agent_env \<Rightarrow> exec_context \<Rightarrow> string \<Rightarrow> llm_response \<Rightarrow> llm_message list \<Rightarrow> (llm_message list \<times> llm_message list) agent"
where
  "settle_calls env ctx sid r ms =
     then_s (remember env sid (assistant_message (lr_content r) (lr_calls r)))
     (bind_s (process_calls env ctx (lr_calls r)) (\<lambda>(results, ran_calls).
      then_s (for_s (stored_results env ctx results ran_calls) (remember env sid))
      (bind_s get_s (\<lambda>s.
       let recalled = ae_recalled env (length (ag_requests s)) in
       bind_s (remind env sid results ran_calls (results @ recalled)) (\<lambda>new.
       then_s (for_s recalled (remember env sid))
       (ret (ms @ [assistant_message (lr_content r) (lr_calls r)] @ new, new)))))))"

section \<open>Turns\<close>

text \<open>What the agent does with the outcome of a request; \<open>go_on\<close> is the rest of the loop.\<close>

definition turn_answer ::
  "agent_env \<Rightarrow> exec_context \<Rightarrow> string \<Rightarrow> (string \<times> string) list \<Rightarrow> llm_message list \<Rightarrow>
   ((string \<times> string) list \<Rightarrow> llm_message list \<Rightarrow> string option agent) \<Rightarrow> llm_response \<Rightarrow> string option agent"
where
  "turn_answer env ctx sid recent ms go_on r =
     (if lr_calls r = [] then final_answer env sid r
      else (case detect_loop (ae_digest env) (Some 3) (lr_calls r) recent of
          (Some tool, _) \<Rightarrow> say env sid (ae_loop_text env tool)
        | (None, recent') \<Rightarrow>
            bind_s (settle_calls env ctx sid r ms) (\<lambda>(ms', new).
              case requested_input new of
                Some reply \<Rightarrow> say env sid reply
              | None \<Rightarrow> go_on recent' ms')))"

definition turn_outcome ::
  "agent_env \<Rightarrow> exec_context \<Rightarrow> string \<Rightarrow> agent_intent \<Rightarrow> (string \<times> string) option \<Rightarrow> (string \<times> string) list \<Rightarrow> llm_message list \<Rightarrow>
   ((string \<times> string) list \<Rightarrow> llm_message list \<Rightarrow> string option agent) \<Rightarrow> chat_outcome \<Rightarrow> string option agent"
where
  "turn_outcome env ctx sid intent routed recent ms go_on oc =
     (case oc of
        ChatTimeout \<Rightarrow> say env sid (ae_timeout_text env)
      | ChatRaised e \<Rightarrow> say env sid (ae_error_text env e)
      | ChatAnswer r \<Rightarrow>
          then_s (accumulate_usage r) (then_s (report_cost env intent routed r) (turn_answer env ctx sid recent ms go_on r)))"

definition chat_request_of ::
  "agent_env \<Rightarrow> agent_intent \<Rightarrow> offered_tool list \<Rightarrow> (string \<times> string) option \<Rightarrow> llm_message list \<Rightarrow> chat_request"
where
  "chat_request_of env intent tools routed ms =
     \<lparr>rq_messages = fit_messages env tools ms, rq_tools = (if tools = [] then None else Some tools),
      rq_model = map_option snd routed, rq_think = think_budget (ai_category intent)\<rparr>"

text \<open>\<open>n\<close> turns are left; no reply means that they were used up.\<close>

fun model_turns ::
  "agent_env \<Rightarrow> exec_context \<Rightarrow> string \<Rightarrow> agent_intent \<Rightarrow> offered_tool list \<Rightarrow> nat \<Rightarrow>
   (string \<times> string) list \<Rightarrow> llm_message list \<Rightarrow> string option agent"
where
  "model_turns env ctx sid intent tools 0 = (\<lambda>recent ms. ret None)"
| "model_turns env ctx sid intent tools (Suc n) = (\<lambda>recent ms.
     bind_s (route_model env intent tools) (\<lambda>routed.
     bind_s (ask_provider env (chat_request_of env intent tools routed ms))
       (turn_outcome env ctx sid intent routed recent ms (model_turns env ctx sid intent tools n))))"

definition turns_used_up :: string where
  "turns_used_up = ''Maximum tool call turns reached. Please try a simpler request.''"

definition hold_conversation :: "agent_env \<Rightarrow> string \<Rightarrow> string \<Rightarrow> string \<Rightarrow> string agent" where
  "hold_conversation env message user channel =
     (let sid = session_key user channel; intent = ae_classify env message;
          tools = agent_tools (ae_offered env) message 30 (Some (ai_tools intent)) in
      bind_s (auto_connect env message) (\<lambda>output.
        case output of
          Some out \<Rightarrow> ret out
        | None \<Rightarrow>
            bind_s (opening_messages env sid message user channel) (\<lambda>ms.
            bind_s get_s (\<lambda>s.
            bind_s (model_turns env \<lparr>cx_user = user, cx_channel = channel\<rparr> sid intent tools (nat (ag_max_turns s)) [] ms) (\<lambda>reply.
              case reply of
                Some text \<Rightarrow> ret text
              | None \<Rightarrow>
                  then_s (emit_hook env STOP_EVENT [(''session_id'', JStr sid), (''user'', JStr user), (''channel'', JStr channel),
                      (''reason'', JStr ''max_turns'')])
                    (with_notes turns_used_up))))))"

definition handle_message :: "agent_env \<Rightarrow> string \<Rightarrow> string \<Rightarrow> string \<Rightarrow> string agent" where
  "handle_message env message user channel =
     bind_s (submit_prompt env message user channel) (\<lambda>d.
       case d of Inl reply \<Rightarrow> ret reply | Inr message' \<Rightarrow> hold_conversation env message' user channel)"

section \<open>Approvals and the other operations\<close>

definition agent_approve :: "agent_env \<Rightarrow> string \<Rightarrow> (bool \<times> string) agent" where
  "agent_approve env aid s =
     (case approve_tool (ae_tools env) aid (ag_exec s) of (r, st) \<Rightarrow> (Inr r, s\<lparr>ag_exec := st\<rparr>))"

definition result_summary :: "bool \<times> string \<Rightarrow> string" where
  "result_summary r =
     (if snd r = [] then ''[success='' @ bool_str (fst r) @ '']'' else success_prefix (fst r) @ snd r)"

definition resume_after_approval :: "agent_env \<Rightarrow> string \<Rightarrow> bool \<times> string \<Rightarrow> string option agent" where
  "resume_after_approval env aid r =
     bind_s get_s (\<lambda>s.
       case dget (xs_pending (ag_exec s)) aid of
         None \<Rightarrow> ret None
       | Some a \<Rightarrow>
           try_s (bind_s (handle_message env (''[System] Tool '' @ quoted (ap_tool a) @ '' was approved and executed.'' @ [newline]
                  @ ''Result: '' @ result_summary r @ [newline] @ ''Summarize the result for the user.'') (ap_user a) (ap_channel a))
                (\<lambda>t. ret (Some t)))
             (\<lambda>e. ret (Some (''Tool '' @ quoted (ap_tool a) @ '' executed: '' @ result_summary r))))"

text \<open>The route behind the button: a result without success does not resume the conversation.\<close>

definition approve_route :: "agent_env \<Rightarrow> string \<Rightarrow> (bool \<times> string option) agent" where
  "approve_route env aid =
     bind_s (agent_approve env aid) (\<lambda>r.
       if fst r then bind_s (resume_after_approval env aid r) (\<lambda>followup. ret (True, followup)) else ret (True, None))"

datatype agent_op =
    Message string string string
  | ApproveRoute string
  | DenyRoute string
  | Notify string
  | MaxTurns int
  | SystemPrompt string
  | MemoryOp memory_op

fun agent_step :: "agent_env \<Rightarrow> agent_op \<Rightarrow> agent_state \<Rightarrow> agent_state" where
  "agent_step env (Message m user channel) s = snd (handle_message env m user channel s)"
| "agent_step env (ApproveRoute aid) s = snd (approve_route env aid s)"
| "agent_step env (DenyRoute aid) s = s\<lparr>ag_exec := deny_tool aid (ag_exec s)\<rparr>"
| "agent_step env (Notify text) s = s\<lparr>ag_notes := ag_notes s @ [text]\<rparr>"
| "agent_step env (MaxTurns n) s = (if 1 \<le> n then s\<lparr>ag_max_turns := n\<rparr> else s)"
| "agent_step env (SystemPrompt p) s = s\<lparr>ag_system := p\<rparr>"
| "agent_step env (MemoryOp x) s = s\<lparr>ag_memory := map_option (memory_step (ae_context env) x) (ag_memory s)\<rparr>"

definition new_agent :: "safety_guard \<Rightarrow> working_memory option \<Rightarrow> cost_router option \<Rightarrow> string \<Rightarrow> int \<Rightarrow> agent_state" where
  "new_agent g wm cr system turns =
     \<lparr>ag_exec = new_exec_state g, ag_memory = wm, ag_usage = (0, 0), ag_notes = [], ag_router = cr, ag_trace = new_trace_buffer,
      ag_system = system, ag_max_turns = turns, ag_ticks = 0, ag_requests = [], ag_connects = []\<rparr>"

section \<open>What the parts leave alone\<close>

text \<open>
  Only three programs touch the executor, the requests and the connections: asking the model, answering its calls, connecting.
  Everything else is quiet.
\<close>

definition core :: "agent_state \<Rightarrow> exec_state \<times> chat_request list \<times> json_obj list \<times> int" where
  "core s = (ag_exec s, ag_requests s, ag_connects s, ag_max_turns s)"

definition quiet :: "'a agent \<Rightarrow> bool" where
  "quiet m \<longleftrightarrow> (\<forall>s. core (snd (m s)) = core s)"

lemma quietI: "(\<And>s. core (snd (m s)) = core s) \<Longrightarrow> quiet m"
  by (simp add: quiet_def)

lemma quiet_keeps: "quiet m \<Longrightarrow> keeps (\<lambda>s. P (core s)) m"
  by (simp add: quiet_def keeps_def)

lemma quiet_ret: "quiet (ret x)" and quiet_raise: "quiet (raise_s e)" and quiet_get: "quiet get_s"
  by (simp_all add: quiet_def run_defs)

lemma quiet_bind: "quiet m \<Longrightarrow> (\<And>x. quiet (k x)) \<Longrightarrow> quiet (bind_s m k)"
  by (simp add: quiet_def bind_s_def split: prod.splits sum.splits) (metis snd_conv)

lemma quiet_for_s: "(\<And>x. quiet (f x)) \<Longrightarrow> quiet (for_s xs f)"
  by (induction xs) (simp_all add: quiet_ret quiet_bind)

lemma quiet_modify: "(\<And>s. core (f s) = core s) \<Longrightarrow> quiet (modify_s f)"
  by (simp add: quiet_def run_defs)

lemma quiet_read_clock: "quiet (read_clock env)"
  by (simp add: quiet_def read_clock_def core_def)

lemma quiet_remember: "quiet (remember env sid m)"
  unfolding remember_def by (intro quiet_bind quiet_read_clock quiet_modify) (simp add: core_def)

lemma quiet_say: "quiet (say env sid t)"
  unfolding say_def by (intro quiet_bind quiet_remember quiet_ret)

lemma quiet_emit: "quiet (emit_hook env ev data)"
  by (simp add: quiet_def emit_hook_def core_def split: prod.split)

lemma quiet_prompt: "quiet (prompt_decision env message d)"
  by (auto simp: prompt_decision_def intro: quiet_ret quiet_raise split: decision_kind.split json.split)

lemma quiet_submit: "quiet (submit_prompt env message user channel)"
  unfolding submit_prompt_def Let_def by (intro quiet_bind quiet_emit quiet_prompt)

lemma quiet_history: "quiet (recalled_history env sid user channel)"
  by (simp add: quiet_def recalled_history_def run_defs read_clock_def core_def split: option.split prod.split)

lemma quiet_opening: "quiet (opening_messages env sid message user channel)"
  unfolding opening_messages_def by (intro quiet_bind quiet_history quiet_remember quiet_get quiet_ret)

lemma quiet_route: "quiet (route_model env intent tools)"
  by (simp add: quiet_def route_model_def core_def split: option.split prod.split)

lemma quiet_usage: "quiet (accumulate_usage r)"
  by (auto simp: accumulate_usage_def core_def intro!: quiet_ret quiet_modify split: option.split)

lemma quiet_report: "quiet (report_cost env intent routed r)"
  by (auto simp: quiet_def report_cost_def core_def split: option.split prod.split sum.split)

lemma quiet_notes: "quiet (with_notes t)"
  by (simp add: quiet_def with_notes_def core_def)

lemma quiet_final: "quiet (final_answer env sid r)"
  unfolding final_answer_def by (intro quiet_bind quiet_notes quiet_say)

lemma quiet_remind: "quiet (remind env sid refused ran_calls new)"
  by (auto simp: remind_def remind_memory_def core_def Let_def intro!: quiet_ret quiet_bind quiet_modify split: option.split)

lemmas quiet_rules = quiet_ret quiet_raise quiet_get quiet_bind quiet_for_s quiet_remember quiet_say quiet_emit quiet_submit quiet_opening
  quiet_route quiet_usage quiet_report quiet_notes quiet_final quiet_remind

section \<open>What runs was asked for and allowed\<close>

text \<open>The calls in the answers to the requests from number \<open>n\<close> on.\<close>

definition asked :: "agent_env \<Rightarrow> nat \<Rightarrow> chat_request list \<Rightarrow> tool_call set" where
  "asked env n rqs = {tc. \<exists>i r. n \<le> i \<and> i < length rqs \<and> ae_chat env i (rqs ! i) = ChatAnswer r \<and> tc \<in> set (lr_calls r)}"

definition allowed_run :: "agent_env \<Rightarrow> string \<Rightarrow> agent_state \<Rightarrow> chat_request list \<Rightarrow> run_cause \<times> execution \<Rightarrow> bool" where
  "allowed_run env user s0 rqs x \<longleftrightarrow>
     (\<exists>tc \<in> asked env (length (ag_requests s0)) rqs.
        fst x = ByCall tc \<and> guard_check (tc_name tc) user None (xs_guard (ag_exec s0)) = ALLOW)"

definition goes_on :: "agent_env \<Rightarrow> string \<Rightarrow> agent_state \<Rightarrow> tool_call set \<Rightarrow> agent_state \<Rightarrow> bool" where
  "goes_on env user s0 F s \<longleftrightarrow>
     prefix (ag_requests s0) (ag_requests s)
     \<and> (\<forall>a. guard_check a user None (xs_guard (ag_exec s)) = guard_check a user None (xs_guard (ag_exec s0)))
     \<and> (\<exists>new. xs_ran (ag_exec s) = xs_ran (ag_exec s0) @ new \<and> (\<forall>x \<in> set new. allowed_run env user s0 (ag_requests s) x))
     \<and> F \<subseteq> asked env (length (ag_requests s0)) (ag_requests s)"

lemma progress_core: "goes_on env user s0 F = (\<lambda>s. (\<lambda>(ex, rqs, c, n).
     prefix (ag_requests s0) rqs
     \<and> (\<forall>a. guard_check a user None (xs_guard ex) = guard_check a user None (xs_guard (ag_exec s0)))
     \<and> (\<exists>new. xs_ran ex = xs_ran (ag_exec s0) @ new \<and> (\<forall>x \<in> set new. allowed_run env user s0 rqs x))
     \<and> F \<subseteq> asked env (length (ag_requests s0)) rqs) (core s))"
  by (rule ext) (simp add: goes_on_def core_def)

lemma quiet_progress: "quiet m \<Longrightarrow> keeps (goes_on env user s0 F) m"
  unfolding progress_core by (rule quiet_keeps)

lemma asked_mono: "prefix rqs rqs' \<Longrightarrow> asked env n rqs \<subseteq> asked env n rqs'"
  by (fastforce simp: asked_def prefix_def nth_append)

lemma process_guard:
  "guard_check a u ag (xs_guard (process_tool_calls env ctx calls st)) = guard_check a u ag (xs_guard st)"
proof -
  have check: "check_calls env ctx cs st = (allowed, st') \<Longrightarrow> guard_check a u ag (xs_guard st') = guard_check a u ag (xs_guard st)"
    for cs allowed and st st'
  proof (induction env ctx cs st arbitrary: allowed st' rule: check_calls.induct)
    case (2 env ctx now tc cs st)
    obtain m st1 where c: "check_tool_call now env ctx tc st = (m, st1)" by (cases "check_tool_call now env ctx tc st")
    note frame = check_tool_call_frame(3) [OF c]
    show ?case
    proof (cases m)
      case None
      then obtain rest where "check_calls env ctx cs st1 = (rest, st')" using 2(3) c by (auto split: prod.splits)
      from 2(1) [OF c [symmetric] None this] frame show ?thesis by simp
    next
      case (Some x)
      then have "check_calls env ctx cs (st1\<lparr>xs_messages := xs_messages st1 @ [x]\<rparr>) = (allowed, st')" using 2(3) c by simp
      from 2(2) [OF c [symmetric] Some this] frame show ?thesis by simp
    qed
  qed simp
  obtain allowed st' where c: "check_calls env ctx calls st = (allowed, st')" by (cases "check_calls env ctx calls st")
  show ?thesis using check [OF c] by (simp add: process_tool_calls_def c execute_calls_def)
qed

lemma process_ran:
  "\<exists>new. xs_ran (process_tool_calls env ctx calls st) = xs_ran st @ new
     \<and> (\<forall>x \<in> set new. \<exists>tc \<in> snd ` set calls. fst x = ByCall tc \<and> guard_check (tc_name tc) (cx_user ctx) None (xs_guard st) = ALLOW)"
proof -
  obtain allowed st' where c: "check_calls env ctx calls st = (allowed, st')" by (cases "check_calls env ctx calls st")
  note spec = check_calls_spec [OF c]
  let ?new = "concat (map (\<lambda>tc. map (Pair (ByCall tc)) (snd (execute_one env ctx tc))) allowed)"
  have "xs_ran (process_tool_calls env ctx calls st) = xs_ran st @ ?new"
    using spec by (simp add: process_tool_calls_def c execute_calls_def)
  moreover have "\<exists>tc \<in> snd ` set calls. fst x = ByCall tc \<and> guard_check (tc_name tc) (cx_user ctx) None (xs_guard st) = ALLOW"
    if "x \<in> set ?new" for x
  proof -
    from that obtain tc where "tc \<in> set allowed" "fst x = ByCall tc" by auto
    then show ?thesis using spec by blast
  qed
  ultimately show ?thesis by blast
qed

lemma snd_timed_calls: "map snd (timed_calls env n calls) = calls"
  by (simp add: timed_calls_def comp_def case_prod_beta)

lemma allowed_run_mono: "allowed_run env user s0 rqs x \<Longrightarrow> prefix rqs rqs' \<Longrightarrow> allowed_run env user s0 rqs' x"
  using asked_mono unfolding allowed_run_def by blast

lemma progress_process:
  assumes "set calls \<subseteq> F" "cx_user ctx = user"
  shows "keeps (goes_on env user s0 F) (process_calls env ctx calls)"
proof (rule keepsI)
  fix s assume p: "goes_on env user s0 F s"
  let ?timed = "timed_calls env (ag_ticks s) calls" and ?st = "(ag_exec s)\<lparr>xs_messages := []\<rparr>"
  let ?st' = "process_tool_calls (ae_tools env) ctx ?timed ?st"
  let ?asked = "asked env (length (ag_requests s0)) (ag_requests s)"
  have calls: "snd ` set ?timed = set calls" using snd_timed_calls [of env "ag_ticks s" calls] by (metis list.set_map)
  obtain new where new: "xs_ran (ag_exec s) = xs_ran (ag_exec s0) @ new" "\<forall>x \<in> set new. allowed_run env user s0 (ag_requests s) x"
    and guard: "\<And>a. guard_check a user None (xs_guard (ag_exec s)) = guard_check a user None (xs_guard (ag_exec s0))"
    and sub: "F \<subseteq> ?asked" and pre: "prefix (ag_requests s0) (ag_requests s)" using p by (auto simp: goes_on_def)
  obtain more_runs where more: "xs_ran ?st' = xs_ran ?st @ more_runs"
    "\<forall>x \<in> set more_runs. \<exists>tc \<in> snd ` set ?timed. fst x = ByCall tc \<and> guard_check (tc_name tc) (cx_user ctx) None (xs_guard ?st) = ALLOW"
    using process_ran by blast
  have "allowed_run env user s0 (ag_requests s) x" if xm: "x \<in> set more_runs" for x
  proof -
    obtain tc where "tc \<in> set calls" "fst x = ByCall tc" "guard_check (tc_name tc) user None (xs_guard (ag_exec s)) = ALLOW"
      using bspec [OF more(2) xm] calls assms(2) by auto
    then show ?thesis using assms(1) sub guard unfolding allowed_run_def by auto
  qed
  then have "xs_ran ?st' = xs_ran (ag_exec s0) @ (new @ more_runs)" "\<forall>x \<in> set (new @ more_runs). allowed_run env user s0 (ag_requests s) x"
    using new more(1) by auto
  then show "goes_on env user s0 F (snd (process_calls env ctx calls s))"
    using guard sub pre by (auto simp: goes_on_def process_calls_def Let_def process_guard)
qed

lemma progress_answer:
  assumes "set (lr_calls r) \<subseteq> F" "cx_user ctx = user"
  shows "keeps (goes_on env user s0 F) (settle_calls env ctx sid r ms)"
  unfolding settle_calls_def Let_def case_prod_beta
  by (intro keeps_bind_s keeps_for_s progress_process assms quiet_progress quiet_rules)

fun calls_of :: "chat_outcome \<Rightarrow> tool_call set" where
  "calls_of (ChatAnswer r) = set (lr_calls r)"
| "calls_of oc = {}"

lemma progress_weaken: "keeps (goes_on env user s0 (F \<union> G)) m \<Longrightarrow> goes_on env user s0 (F \<union> G) s \<Longrightarrow> goes_on env user s0 F (snd (m s))"
  by (auto simp: keeps_def goes_on_def)

lemma progress_ask:
  assumes "\<And>oc. keeps (goes_on env user s0 (F \<union> calls_of oc)) (k oc)"
  shows "keeps (goes_on env user s0 F) (bind_s (ask_provider env rq) k)"
proof (rule keepsI)
  fix s assume p: "goes_on env user s0 F s"
  let ?s = "s\<lparr>ag_requests := ag_requests s @ [rq]\<rparr>" and ?oc = "ae_chat env (length (ag_requests s)) rq"
  have n: "length (ag_requests s0) \<le> length (ag_requests s)" using p by (auto simp: goes_on_def prefix_length_le)
  have "calls_of ?oc \<subseteq> asked env (length (ag_requests s0)) (ag_requests s @ [rq])"
    using n by (cases ?oc) (auto simp: asked_def)
  moreover have "F \<subseteq> asked env (length (ag_requests s0)) (ag_requests s @ [rq])"
    by (rule order_trans [OF _ asked_mono [of "ag_requests s"]]) (use p in \<open>simp_all add: goes_on_def\<close>)
  moreover have "allowed_run env user s0 (ag_requests s @ [rq]) x" if "allowed_run env user s0 (ag_requests s) x" for x
    using that by (rule allowed_run_mono) simp
  moreover obtain new where "xs_ran (ag_exec s) = xs_ran (ag_exec s0) @ new" "\<forall>x \<in> set new. allowed_run env user s0 (ag_requests s) x"
    using p by (auto simp: goes_on_def)
  ultimately have "\<exists>new. xs_ran (ag_exec s) = xs_ran (ag_exec s0) @ new \<and> (\<forall>x \<in> set new. allowed_run env user s0 (ag_requests s @ [rq]) x)"
    and "F \<union> calls_of ?oc \<subseteq> asked env (length (ag_requests s0)) (ag_requests s @ [rq])" by blast+
  then have "goes_on env user s0 (F \<union> calls_of ?oc) ?s" using p by (simp add: goes_on_def prefix_append)
  from progress_weaken [OF assms this] show "goes_on env user s0 F (snd (bind_s (ask_provider env rq) k s))"
    by (simp add: bind_s_def ask_provider_def)
qed

lemma progress_outcome:
  assumes "cx_user ctx = user" and go_on: "\<And>G recent' ms'. keeps (goes_on env user s0 G) (go_on recent' ms')"
  shows "keeps (goes_on env user s0 (F \<union> calls_of oc)) (turn_outcome env ctx sid intent routed recent ms go_on oc)"
proof (cases oc)
  case (ChatAnswer r)
  let ?P = "goes_on env user s0 (F \<union> set (lr_calls r))"
  have "keeps ?P (settle_calls env ctx sid r ms)" by (rule progress_answer) (use assms(1) in auto)
  then have turn: "keeps ?P (bind_s (settle_calls env ctx sid r ms) (\<lambda>(ms', new).
      case requested_input new of Some reply \<Rightarrow> say env sid reply | None \<Rightarrow> go_on recent' ms'))" for recent'
    by (rule keeps_bind_s) (simp add: quiet_progress quiet_say go_on split: prod.split option.split)
  then have "keeps ?P (turn_answer env ctx sid recent ms go_on r)"
    by (simp add: turn_answer_def quiet_progress quiet_say quiet_final split: prod.split option.split)
  then show ?thesis unfolding turn_outcome_def ChatAnswer chat_outcome.case calls_of.simps
    by (intro keeps_bind_s [OF quiet_progress [OF quiet_usage]] keeps_bind_s [OF quiet_progress [OF quiet_report]])
qed (simp_all add: turn_outcome_def quiet_progress quiet_say)

lemma progress_turns:
  "cx_user ctx = user \<Longrightarrow> keeps (goes_on env user s0 F) (model_turns env ctx sid intent tools n recent ms)"
proof (induction n arbitrary: F recent ms)
  case (Suc n)
  then show ?case
    by (auto intro!: keeps_bind_s [OF quiet_progress [OF quiet_route]] progress_ask progress_outcome)
qed (simp add: keeps_ret)

lemma progress_connect: "keeps (goes_on env user s0 F) (auto_connect env message)"
  by (rule keepsI) (simp add: auto_connect_def run_defs goes_on_def Let_def split: option.split tool_outcome.split)

lemma progress_converse: "keeps (goes_on env user s0 F) (hold_conversation env message user channel)"
proof -
  have turns: "keeps (goes_on env user s0 F) (model_turns env \<lparr>cx_user = user, cx_channel = channel\<rparr> sid intent tools n recent ms)"
    for sid intent tools n recent ms by (rule progress_turns) simp
  have ending: "keeps (goes_on env user s0 F) (case reply of Some text \<Rightarrow> ret text | None \<Rightarrow> then_s (emit_hook env STOP_EVENT d) (with_notes t))" for reply d t
    by (cases reply) (simp_all add: quiet_progress quiet_ret quiet_bind quiet_emit quiet_notes)
  have talk: "keeps (goes_on env user s0 F) (case answer of Some out \<Rightarrow> ret out | None \<Rightarrow> m)" if "keeps (goes_on env user s0 F) m" for answer m
    using that by (cases answer) (simp_all add: quiet_progress quiet_ret)
  show ?thesis unfolding hold_conversation_def Let_def
    by (intro keeps_bind_s [OF progress_connect] talk keeps_bind_s [OF quiet_progress [OF quiet_opening]]
        keeps_bind_s [OF quiet_progress [OF quiet_get]] keeps_bind_s [OF turns] ending)
qed

lemma progress_handle: "keeps (goes_on env user s0 F) (handle_message env message user channel)"
  unfolding handle_message_def
  by (intro keeps_bind_s [OF quiet_progress [OF quiet_submit]]) (auto simp: quiet_progress quiet_ret progress_converse split: sum.split)


section \<open>The number of requests\<close>

definition steady :: "'a agent \<Rightarrow> bool" where
  "steady m \<longleftrightarrow> (\<forall>s. ag_requests (snd (m s)) = ag_requests s)"

lemma quiet_steady: "quiet m \<Longrightarrow> steady m"
  by (simp add: quiet_def steady_def core_def)

lemma steady_bind: "steady m \<Longrightarrow> (\<And>x. steady (k x)) \<Longrightarrow> steady (bind_s m k)"
  by (simp add: steady_def bind_s_def split: prod.splits sum.splits) (metis snd_conv)

lemma steady_process: "steady (process_calls env ctx calls)"
  by (simp add: steady_def process_calls_def Let_def)

lemma steady_answer: "steady (settle_calls env ctx sid r ms)"
  unfolding settle_calls_def Let_def case_prod_beta
  by (intro steady_bind steady_process quiet_steady quiet_rules)

lemma steady_connect: "steady (auto_connect env message)"
  by (simp add: steady_def auto_connect_def run_defs Let_def split: option.split tool_outcome.split)

definition upto_requests :: "nat \<Rightarrow> agent_state \<Rightarrow> bool" where
  "upto_requests n s \<longleftrightarrow> length (ag_requests s) \<le> n"

lemma steady_upto: "steady m \<Longrightarrow> n \<le> k \<Longrightarrow> triple (upto_requests n) m (\<lambda>_. upto_requests n) (\<lambda>_. upto_requests k)"
  by (rule tripleI) (auto simp: steady_def upto_requests_def split: sum.split, (metis le_trans snd_conv)+)

lemma steady_upto': "steady m \<Longrightarrow> n \<le> k \<Longrightarrow> triple (upto_requests n) m (\<lambda>_. upto_requests k) (\<lambda>_. upto_requests k)"
  by (rule triple_weaken [OF steady_upto]) (auto simp: upto_requests_def)

lemma ask_upto: "triple (upto_requests n) (ask_provider env rq) (\<lambda>_. upto_requests (Suc n)) R"
  by (rule tripleI) (auto simp: ask_provider_def upto_requests_def)

lemma outcome_upto:
  assumes go_on: "\<And>recent' ms'. triple (upto_requests n) (go_on recent' ms') (\<lambda>_. upto_requests k) (\<lambda>_. upto_requests k)" and "n \<le> k"
  shows "triple (upto_requests n) (turn_outcome env ctx sid intent routed recent ms go_on oc) (\<lambda>_. upto_requests k) (\<lambda>_. upto_requests k)"
proof -
  have quiet: "triple (upto_requests n) m (\<lambda>_. upto_requests k) (\<lambda>_. upto_requests k)" if "quiet m" for m :: "string option agent"
    using steady_upto' [OF quiet_steady [OF that] assms(2)] .
  show ?thesis
  proof (cases oc)
    case (ChatAnswer r)
    have "triple (upto_requests n) (case x of (ms', new) \<Rightarrow>
        case requested_input new of Some reply \<Rightarrow> say env sid reply | None \<Rightarrow> go_on recent' ms')
        (\<lambda>_. upto_requests k) (\<lambda>_. upto_requests k)" for recent' x
      by (cases x) (simp add: quiet quiet_say go_on split: option.split)
    then have turn: "triple (upto_requests n) (bind_s (settle_calls env ctx sid r ms) (\<lambda>(ms', new).
        case requested_input new of Some reply \<Rightarrow> say env sid reply | None \<Rightarrow> go_on recent' ms'))
        (\<lambda>_. upto_requests k) (\<lambda>_. upto_requests k)" for recent'
      by (rule triple_bind [OF steady_upto [OF steady_answer assms(2)]])
    then have "triple (upto_requests n) (turn_answer env ctx sid recent ms go_on r) (\<lambda>_. upto_requests k) (\<lambda>_. upto_requests k)"
      by (simp add: turn_answer_def quiet quiet_say quiet_final split: prod.split option.split)
    then show ?thesis unfolding turn_outcome_def ChatAnswer chat_outcome.case
      by (intro triple_bind [OF steady_upto [OF quiet_steady [OF quiet_usage] assms(2)]]
          triple_bind [OF steady_upto [OF quiet_steady [OF quiet_report] assms(2)]])
  qed (simp_all add: turn_outcome_def quiet quiet_say)
qed

lemma turns_upto:
  "triple (upto_requests k) (model_turns env ctx sid intent tools n recent ms) (\<lambda>_. upto_requests (k + n)) (\<lambda>_. upto_requests (k + n))"
proof (induction n arbitrary: k recent ms)
  case (Suc n)
  have "triple (upto_requests (Suc k)) (model_turns env ctx sid intent tools n recent' ms')
      (\<lambda>_. upto_requests (k + Suc n)) (\<lambda>_. upto_requests (k + Suc n))" for recent' ms'
    using Suc.IH [of "Suc k" recent' ms'] by simp
  then show ?case unfolding model_turns.simps
    by (intro triple_bind [OF steady_upto [OF quiet_steady [OF quiet_route]]] triple_bind [OF ask_upto] outcome_upto) simp_all
qed (simp add: triple_ret)

lemma converse_upto:
  "triple (\<lambda>s. upto_requests k s \<and> ag_max_turns s = n) (hold_conversation env message user channel)
     (\<lambda>_. upto_requests (k + nat n)) (\<lambda>_. upto_requests (k + nat n))"
proof -
  let ?I = "\<lambda>s. upto_requests k s \<and> ag_max_turns s = n" and ?E = "\<lambda>_ :: exn. upto_requests (k + nat n)"
  have quiet: "triple ?I m (\<lambda>_. ?I) ?E" if "quiet m" for m :: "'b agent"
  proof (rule tripleI)
    fix s r t assume "?I s" "m s = (r, t)"
    then have "core t = core s" using that by (simp add: quiet_def) (metis snd_conv)
    with \<open>?I s\<close> show "case r of Inl e \<Rightarrow> ?E e t | Inr x \<Rightarrow> ?I t" by (auto simp: core_def upto_requests_def split: sum.split)
  qed
  have quiet': "triple (upto_requests (k + nat n)) m (\<lambda>_. upto_requests (k + nat n)) ?E" if "quiet m" for m :: "'b agent"
    by (rule steady_upto [OF quiet_steady [OF that]]) simp
  have connect: "triple ?I (auto_connect env message) (\<lambda>_. ?I) ?E"
    by (rule tripleI) (auto simp: auto_connect_def run_defs upto_requests_def split: option.splits tool_outcome.splits sum.split)
  have turns: "triple (\<lambda>t. t = s \<and> ?I s) (model_turns env ctx sid intent tools (nat (ag_max_turns s)) recent ms)
      (\<lambda>_. upto_requests (k + nat n)) ?E" for s ctx sid intent tools recent ms
  proof (cases "ag_max_turns s = n")
    case True
    show ?thesis unfolding True by (rule triple_pre [OF turns_upto]) simp
  qed (simp add: triple_def)
  have ending: "triple (upto_requests (k + nat n)) (case reply of Some text \<Rightarrow> ret text | None \<Rightarrow> then_s (emit_hook env STOP_EVENT d) (with_notes t))
      (\<lambda>_. upto_requests (k + nat n)) ?E" for reply d t
    by (cases reply) (simp_all add: quiet' quiet_ret quiet_bind quiet_emit quiet_notes)
  have talk: "triple ?I (bind_s (opening_messages env sid message user channel) (\<lambda>ms.
            bind_s get_s (\<lambda>s.
            bind_s (model_turns env ctx sid intent tools (nat (ag_max_turns s)) [] ms) (\<lambda>reply.
              case reply of
                Some text \<Rightarrow> ret text
              | None \<Rightarrow> then_s (emit_hook env STOP_EVENT d) (with_notes turns_used_up)))))
      (\<lambda>_. upto_requests (k + nat n)) ?E" for sid ctx intent tools d
  proof (rule triple_bind [OF quiet [OF quiet_opening]])
    fix ms
    show "triple ?I (bind_s get_s (\<lambda>s.
            bind_s (model_turns env ctx sid intent tools (nat (ag_max_turns s)) [] ms) (\<lambda>reply.
              case reply of
                Some text \<Rightarrow> ret text
              | None \<Rightarrow> then_s (emit_hook env STOP_EVENT d) (with_notes turns_used_up))))
      (\<lambda>_. upto_requests (k + nat n)) ?E"
    proof (rule triple_get)
      fix s assume "?I s"
      then show "triple (\<lambda>t. t = s) (bind_s (model_turns env ctx sid intent tools (nat (ag_max_turns s)) [] ms) (\<lambda>reply.
              case reply of
                Some text \<Rightarrow> ret text
              | None \<Rightarrow> then_s (emit_hook env STOP_EVENT d) (with_notes turns_used_up)))
          (\<lambda>_. upto_requests (k + nat n)) ?E"
        by (intro triple_bind [OF triple_pre [OF turns] ending]) simp
    qed
  qed
  have "triple ?I (case reply of Some out \<Rightarrow> ret out | None \<Rightarrow> m) (\<lambda>_. upto_requests (k + nat n)) ?E"
    if "triple ?I m (\<lambda>_. upto_requests (k + nat n)) ?E" for reply m
    using that by (cases reply) (auto intro!: triple_ret simp: upto_requests_def)
  then show ?thesis unfolding hold_conversation_def Let_def by (intro triple_bind [OF connect]) (blast intro: talk)
qed

text \<open>
  C35. A conversation ends: whatever the model, the tools and the hooks do, a message makes at most \<open>max_turns\<close> requests to the
  model.
\<close>

theorem requests_bounded:
  "length (ag_requests (snd (handle_message env message user channel s))) \<le> length (ag_requests s) + nat (ag_max_turns s)"
proof -
  obtain d s1 where d: "submit_prompt env message user channel s = (d, s1)" by (cases "submit_prompt env message user channel s")
  have core: "core s1 = core s" using quiet_submit [of env message user channel] d by (simp add: quiet_def) (metis snd_conv)
  show ?thesis
  proof (cases "\<exists>p. d = Inr (Inr p)")
    case True
    then obtain p where p: "d = Inr (Inr p)" by blast
    have "upto_requests (length (ag_requests s) + nat (ag_max_turns s)) (snd (hold_conversation env p user channel s1))"
      using converse_upto [of "length (ag_requests s)" "ag_max_turns s" env p user channel] core
      by (cases "hold_conversation env p user channel s1") (auto simp: triple_def core_def upto_requests_def split: prod.splits sum.splits)
    then show ?thesis by (simp add: handle_message_def bind_s_def d p upto_requests_def)
  next
    case False
    then show ?thesis using core
      by (cases d) (auto simp: handle_message_def bind_s_def d ret_def core_def split: sum.split)
  qed
qed

section \<open>Every call the model sees is answered\<close>

text \<open>
  A provider wants each message with calls to be followed by the results of exactly these calls, and no result anywhere else.
\<close>

fun calls_answered :: "llm_message list \<Rightarrow> bool" where
  "calls_answered [] = True"
| "calls_answered (m # ms) =
     (if lm_calls m = [] then lm_role m \<noteq> ''tool'' \<and> calls_answered ms
      else let n = length (lm_calls m) in
        n \<le> length ms \<and> mset (map lm_call_id (take n ms)) = mset (map (\<lambda>tc. Some (tc_id tc)) (lm_calls m))
        \<and> (\<forall>x \<in> set (take n ms). lm_role x = ''tool'') \<and> calls_answered (drop n ms))"

definition plain_messages :: "llm_message list \<Rightarrow> bool" where
  "plain_messages ms \<longleftrightarrow> (\<forall>m \<in> set ms. lm_calls m = [] \<and> lm_role m \<noteq> ''tool'')"

lemma plain_answered: "plain_messages ms \<Longrightarrow> calls_answered ms"
  by (induction ms) (auto simp: plain_messages_def)

lemma plain_message_plain: "role \<noteq> ''tool'' \<Longrightarrow> plain_messages [text_message role t]"
  by (simp add: plain_messages_def text_message_def)

lemma answered_append: "calls_answered xs \<Longrightarrow> calls_answered ys \<Longrightarrow> calls_answered (xs @ ys)"
proof (induction xs rule: calls_answered.induct)
  case (2 m ms)
  show ?case
  proof (cases "lm_calls m = []")
    case True
    then show ?thesis using 2 by simp
  next
    case False
    then have n: "length (lm_calls m) \<le> length ms" using 2(3) by (simp add: Let_def)
    have "calls_answered (drop (length (lm_calls m)) ms @ ys)"
      using 2(2) [OF False refl] 2(3,4) False by (simp add: Let_def)
    then show ?thesis using 2(3) False n by (simp add: Let_def)
  qed
qed simp

lemma plain_first:
  assumes "plain_messages xs" "calls_answered ys"
  shows "calls_answered (xs @ ys)"
  using answered_append [OF plain_answered] assms .

text \<open>What the reminder changes is only the text of one message.\<close>

lemma remind_last_shape:
  "map lm_call_id (remind_last t ms) = map lm_call_id ms" "map lm_role (remind_last t ms) = map lm_role ms"
  "map lm_calls (remind_last t ms) = map lm_calls ms"
  by (induction ms) auto

definition reminded :: "agent_env \<Rightarrow> llm_message list \<Rightarrow> llm_message list" where
  "reminded env new = (case reminder_text env of None \<Rightarrow> new | Some t \<Rightarrow> remind_last t new)"

lemma reminded_shape:
  "map lm_call_id (reminded env ms) = map lm_call_id ms" "map lm_role (reminded env ms) = map lm_role ms"
  "map lm_calls (reminded env ms) = map lm_calls ms"
  by (simp_all add: reminded_def remind_last_shape split: option.split)

lemma remind_result: "\<exists>s'. remind env sid refused ran_calls new s = (Inr (reminded env new), s')"
  by (simp add: remind_def reminded_def run_defs split: option.split)

definition results_of :: "tool_call list \<Rightarrow> llm_message list \<Rightarrow> bool" where
  "results_of calls ms \<longleftrightarrow>
     mset (map lm_call_id ms) = mset (map (\<lambda>tc. Some (tc_id tc)) calls) \<and> (\<forall>m \<in> set ms. lm_role m = ''tool'')"

lemma results_of_length: "results_of calls ms \<Longrightarrow> length ms = length calls"
  unfolding results_of_def by (metis length_map size_mset)

lemma answered_turn:
  assumes "results_of calls results" "plain_messages recalled" "calls \<noteq> []"
  shows "calls_answered (assistant_message c calls # reminded env (results @ recalled))"
proof -
  let ?new = "reminded env (results @ recalled)" and ?n = "length calls"
  note len = results_of_length [OF assms(1)]
  have all: "length ?new = length results + length recalled"
    using arg_cong [OF reminded_shape(2) [of env "results @ recalled"], of length] by simp
  have ids: "map lm_call_id (take ?n ?new) = map lm_call_id results" "map lm_role (take ?n ?new) = map lm_role results"
    using reminded_shape(1,2) [of env "results @ recalled"] len by (simp_all add: take_map [symmetric])
  have rest: "map lm_role (drop ?n ?new) = map lm_role recalled" "map lm_calls (drop ?n ?new) = map lm_calls recalled"
    using reminded_shape(2,3) [of env "results @ recalled"] len by (simp_all add: drop_map [symmetric])
  have "\<forall>m \<in> set (take ?n ?new). lm_role m = ''tool''"
    using ids(2) assms(1) unfolding results_of_def by (metis (no_types, lifting) image_iff list.set_map)
  moreover have "plain_messages (drop ?n ?new)"
  proof -
    have "list_all (\<lambda>r. r \<noteq> ''tool'') (map lm_role recalled)" "list_all (\<lambda>c. c = []) (map lm_calls recalled)"
      using assms(2) by (auto simp: plain_messages_def list_all_iff)
    then have "list_all (\<lambda>r. r \<noteq> ''tool'') (map lm_role (drop ?n ?new))" "list_all (\<lambda>c. c = []) (map lm_calls (drop ?n ?new))"
      by (simp_all only: rest)
    then show ?thesis by (auto simp: plain_messages_def list_all_iff)
  qed
  moreover have "mset (map lm_call_id (take ?n ?new)) = mset (map (\<lambda>tc. Some (tc_id tc)) calls)"
    unfolding ids(1) using assms(1) by (simp add: results_of_def)
  moreover have "?n \<le> length ?new" using all len by simp
  ultimately show ?thesis
    using assms(3) by (simp add: assistant_message_def Let_def plain_answered del: mset_map)
qed

text \<open>
  What is assumed of the surroundings: recalled notes and enrichment are system messages, and the shortening, by trimming or a
  summary, keeps calls and results together.
\<close>

definition tidy :: "agent_env \<Rightarrow> bool" where
  "tidy env \<longleftrightarrow> (\<forall>n. plain_messages (ae_recalled env n))
     \<and> (\<forall>build sid message found. ae_enrich env = Some build \<longrightarrow> build sid message = Inr found \<longrightarrow> plain_messages found)
     \<and> (\<forall>tools ms. calls_answered ms \<longrightarrow> calls_answered (fit_messages env tools ms))"

definition good_requests :: "nat \<Rightarrow> agent_state \<Rightarrow> bool" where
  "good_requests n s \<longleftrightarrow> n \<le> length (ag_requests s) \<and> (\<forall>rq \<in> set (drop n (ag_requests s)). calls_answered (rq_messages rq))"

lemma steady_good:
  assumes "steady m"
  shows "triple (good_requests n) m (\<lambda>_. good_requests n) (\<lambda>_. good_requests n)"
proof (rule tripleI)
  fix s r t assume "good_requests n s" "m s = (r, t)"
  then have "ag_requests t = ag_requests s" using assms by (simp add: steady_def) (metis snd_conv)
  with \<open>good_requests n s\<close> show "case r of Inl e \<Rightarrow> good_requests n t | Inr x \<Rightarrow> good_requests n t"
    by (simp add: good_requests_def split: sum.split)
qed

lemmas quiet_good = steady_good [OF quiet_steady]

lemma triple_pure: "(A \<Longrightarrow> triple P m Q R) \<Longrightarrow> triple (\<lambda>s. P s \<and> A) m Q R"
  by (auto simp: triple_def)

lemma ask_good:
  assumes "calls_answered (rq_messages rq)"
  shows "triple (good_requests n) (ask_provider env rq) (\<lambda>_. good_requests n) R"
  by (rule tripleI) (use assms in \<open>auto simp: ask_provider_def good_requests_def\<close>)

lemma process_good:
  "triple (good_requests n) (process_calls env ctx calls) (\<lambda>x s. good_requests n s \<and> results_of calls (fst x)) (\<lambda>_. good_requests n)"
proof (rule tripleI)
  fix s r t assume good: "good_requests n s" and run: "process_calls env ctx calls s = (r, t)"
  let ?timed = "timed_calls env (ag_ticks s) calls" and ?st = "(ag_exec s)\<lparr>xs_messages := []\<rparr>"
  obtain new where new: "xs_messages (process_tool_calls (ae_tools env) ctx ?timed ?st) = xs_messages ?st @ new"
    "mset (map tm_call_id new) = mset (map (\<lambda>c. tc_id (snd c)) ?timed)" using every_call_answered by blast
  have "map (\<lambda>c. tc_id (snd c)) ?timed = map tc_id calls"
    using arg_cong [OF snd_timed_calls [of env "ag_ticks s" calls], of "map tc_id"] by (simp add: comp_def)
  with new(2) have ids: "mset (map tm_call_id new) = mset (map tc_id calls)" by simp
  have "mset (map lm_call_id (map message_of new)) = image_mset Some (mset (map tm_call_id new))"
    by (simp add: message_of_def multiset.map_comp comp_def)
  also have "\<dots> = mset (map (\<lambda>tc. Some (tc_id tc)) calls)"
    unfolding ids by (simp add: multiset.map_comp comp_def)
  finally have "results_of calls (map message_of new)" by (simp add: results_of_def message_of_def)
  then show "case r of Inl e \<Rightarrow> good_requests n t | Inr x \<Rightarrow> good_requests n t \<and> results_of calls (fst x)"
    using good run new(1) by (auto simp: process_calls_def Let_def good_requests_def)
qed

lemma remind_good:
  "triple (good_requests n) (remind env sid refused ran_calls new) (\<lambda>x s. good_requests n s \<and> x = reminded env new) (\<lambda>_. good_requests n)"
proof (rule tripleI)
  fix s r t assume good: "good_requests n s" and run: "remind env sid refused ran_calls new s = (r, t)"
  have "r = Inr (reminded env new)" using remind_result [of env sid refused ran_calls new s] run by auto
  moreover have "good_requests n t"
    using quiet_good [OF quiet_remind, of n env sid refused ran_calls new] good run calculation by (auto simp: triple_def)
  ultimately show "case r of Inl e \<Rightarrow> good_requests n t | Inr x \<Rightarrow> good_requests n t \<and> x = reminded env new" by simp
qed

lemma answer_good:
  assumes "tidy env" "calls_answered ms" "lr_calls r \<noteq> []"
  shows "triple (good_requests n) (settle_calls env ctx sid r ms) (\<lambda>x s. good_requests n s \<and> calls_answered (fst x)) (\<lambda>_. good_requests n)"
proof -
  let ?R = "\<lambda>_ :: exn. good_requests n" and ?Q = "\<lambda>x :: llm_message list \<times> llm_message list. \<lambda>s. good_requests n s \<and> calls_answered (fst x)"
  have ending: "triple (\<lambda>s. good_requests n s \<and> new = reminded env (results @ recalled))
      (then_s (for_s recalled (remember env sid)) (ret (ms @ [assistant_message (lr_content r) (lr_calls r)] @ new, new))) ?Q ?R"
    if "results_of (lr_calls r) results" "plain_messages recalled" for results recalled new
  proof (rule triple_pure)
    assume new: "new = reminded env (results @ recalled)"
    have "calls_answered (ms @ assistant_message (lr_content r) (lr_calls r) # new)"
      unfolding new by (rule answered_append [OF assms(2) answered_turn [OF that assms(3)]])
    then show "triple (good_requests n)
        (then_s (for_s recalled (remember env sid)) (ret (ms @ [assistant_message (lr_content r) (lr_calls r)] @ new, new))) ?Q ?R"
      by (intro triple_bind [OF quiet_good] quiet_for_s quiet_remember triple_ret) simp
  qed
  have rest: "triple (good_requests n)
      (then_s (for_s (stored_results env ctx results ran_calls) (remember env sid))
      (bind_s get_s (\<lambda>s.
       let recalled = ae_recalled env (length (ag_requests s)) in
       bind_s (remind env sid results ran_calls (results @ recalled)) (\<lambda>new.
       then_s (for_s recalled (remember env sid))
       (ret (ms @ [assistant_message (lr_content r) (lr_calls r)] @ new, new)))))) ?Q ?R"
    if res: "results_of (lr_calls r) results" for results ran_calls
  proof (rule triple_bind [OF quiet_good [OF quiet_for_s [OF quiet_remember]]], rule triple_get)
    fix s assume "good_requests n s"
    have plain: "plain_messages (ae_recalled env (length (ag_requests s)))" using assms(1) by (simp add: tidy_def)
    show "triple (\<lambda>t. t = s) (let recalled = ae_recalled env (length (ag_requests s)) in
       bind_s (remind env sid results ran_calls (results @ recalled)) (\<lambda>new.
       then_s (for_s recalled (remember env sid))
       (ret (ms @ [assistant_message (lr_content r) (lr_calls r)] @ new, new)))) ?Q ?R"
      unfolding Let_def
      by (rule triple_pre [OF triple_bind [OF remind_good ending [OF res plain]]]) (use \<open>good_requests n s\<close> in simp)
  qed
  show ?thesis unfolding settle_calls_def
  proof (rule triple_bind [OF quiet_good [OF quiet_remember]], rule triple_bind [OF process_good])
    fix x :: "llm_message list \<times> tool_call list"
    obtain results ran_calls where x: "x = (results, ran_calls)" by (cases x)
    show "triple (\<lambda>s. good_requests n s \<and> results_of (lr_calls r) (fst x)) (case x of (results, ran_calls) \<Rightarrow>
      then_s (for_s (stored_results env ctx results ran_calls) (remember env sid))
      (bind_s get_s (\<lambda>s.
       let recalled = ae_recalled env (length (ag_requests s)) in
       bind_s (remind env sid results ran_calls (results @ recalled)) (\<lambda>new.
       then_s (for_s recalled (remember env sid))
       (ret (ms @ [assistant_message (lr_content r) (lr_calls r)] @ new, new)))))) ?Q ?R"
      unfolding x prod.case fst_conv by (rule triple_pure) (rule rest)
  qed
qed

lemma outcome_good:
  assumes "tidy env" "calls_answered ms"
    and go_on: "\<And>recent' ms'. calls_answered ms' \<Longrightarrow> triple (good_requests n) (go_on recent' ms') (\<lambda>_. good_requests n) (\<lambda>_. good_requests n)"
  shows "triple (good_requests n) (turn_outcome env ctx sid intent routed recent ms go_on oc) (\<lambda>_. good_requests n) (\<lambda>_. good_requests n)"
proof (cases oc)
  case (ChatAnswer r)
  let ?T = "\<lambda>m :: string option agent. triple (good_requests n) m (\<lambda>_. good_requests n) (\<lambda>_. good_requests n)"
  have after: "triple (\<lambda>s. good_requests n s \<and> calls_answered (fst x)) (case x of (ms', new) \<Rightarrow>
      case requested_input new of Some reply \<Rightarrow> say env sid reply | None \<Rightarrow> go_on recent' ms')
      (\<lambda>_. good_requests n) (\<lambda>_. good_requests n)" for recent' x
    by (rule triple_pure, cases x) (simp add: quiet_good quiet_say go_on split: option.split)
  have "?T (turn_answer env ctx sid recent ms go_on r)"
  proof (cases "lr_calls r = []")
    case True
    then show ?thesis by (simp add: turn_answer_def quiet_good quiet_final)
  next
    case False
    then have "?T (bind_s (settle_calls env ctx sid r ms) (\<lambda>(ms', new).
        case requested_input new of Some reply \<Rightarrow> say env sid reply | None \<Rightarrow> go_on recent' ms'))" for recent'
      by (rule triple_bind [OF answer_good [OF assms(1,2)] after])
    with False show ?thesis by (simp add: turn_answer_def quiet_good quiet_say split: prod.split option.split)
  qed
  then show ?thesis unfolding turn_outcome_def ChatAnswer chat_outcome.case
    by (intro triple_bind [OF quiet_good [OF quiet_usage]] triple_bind [OF quiet_good [OF quiet_report]])
qed (simp_all add: turn_outcome_def quiet_good quiet_say)

lemma turns_good:
  assumes "tidy env"
  shows "calls_answered ms \<Longrightarrow> triple (good_requests n) (model_turns env ctx sid intent tools k recent ms) (\<lambda>_. good_requests n) (\<lambda>_. good_requests n)"
proof (induction k arbitrary: recent ms)
  case (Suc k)
  have "calls_answered (rq_messages (chat_request_of env intent tools routed ms))" for routed
    using assms Suc.prems by (simp add: chat_request_of_def tidy_def)
  then show ?case unfolding model_turns.simps
    by (intro triple_bind [OF quiet_good [OF quiet_route]] triple_bind [OF ask_good] outcome_good assms Suc)
qed (simp add: triple_ret)

lemma enriched_answered:
  assumes "tidy env" "calls_answered ms" "ms \<noteq> []" "plain_messages [hd ms]"
  shows "calls_answered (enriched env system sid message ms)"
proof (cases "ae_enrich env")
  case (Some build)
  show ?thesis
  proof (cases "build sid message")
    case (Inr found)
    let ?f = "filter (\<lambda>m. lm_role m = ''system'' \<and> content_of m \<noteq> [] \<and> content_of m \<noteq> system) found"
    obtain m rest where ms: "ms = m # rest" using assms(3) by (cases ms) auto
    have m: "lm_calls m = []" "lm_role m \<noteq> ''tool''" using assms(4) ms by (simp_all add: plain_messages_def)
    have "plain_messages found" using assms(1) Some Inr unfolding tidy_def by blast
    then have "plain_messages (m # ?f)" using m by (simp add: plain_messages_def)
    moreover have "calls_answered rest" using assms(2) ms m by simp
    ultimately have "calls_answered ((m # ?f) @ rest)" by (rule plain_first)
    then show ?thesis by (simp add: enriched_def Some Inr ms)
  qed (use assms(2) in \<open>simp add: enriched_def Some\<close>)
qed (use assms(2) in \<open>simp add: enriched_def\<close>)

definition history_answered :: "string \<Rightarrow> agent_state \<Rightarrow> bool" where
  "history_answered sid s \<longleftrightarrow> (\<forall>wm. ag_memory s = Some wm \<longrightarrow> calls_answered (get_messages sid wm))"

lemma history_good:
  "triple (\<lambda>s. good_requests n s \<and> history_answered sid s) (recalled_history env sid user channel)
     (\<lambda>h s. good_requests n s \<and> calls_answered h) (\<lambda>_. good_requests n)"
proof (rule tripleI)
  fix s r t assume "good_requests n s \<and> history_answered sid s" "recalled_history env sid user channel s = (r, t)"
  then show "case r of Inl e \<Rightarrow> good_requests n t | Inr h \<Rightarrow> good_requests n t \<and> calls_answered h"
    by (auto simp: recalled_history_def run_defs read_clock_def history_answered_def good_requests_def get_messages_def
        get_or_create_session_def Let_def split: option.splits prod.splits if_splits)
qed

lemma opening_good:
  assumes "tidy env"
  shows "triple (\<lambda>s. good_requests n s \<and> history_answered sid s) (opening_messages env sid message user channel)
     (\<lambda>ms s. good_requests n s \<and> calls_answered ms) (\<lambda>_. good_requests n)"
  unfolding opening_messages_def
proof (rule triple_bind [OF history_good])
  fix h
  show "triple (\<lambda>s. good_requests n s \<and> calls_answered h) (then_s (remember env sid (text_message ''user'' (sanitized env message)))
     (bind_s get_s (\<lambda>s.
        ret (enriched env (ag_system s) sid message
          (text_message ''system'' (ag_system s) # h @ [text_message ''user'' message])))))
     (\<lambda>ms s. good_requests n s \<and> calls_answered ms) (\<lambda>_. good_requests n)"
  proof (rule triple_pure)
    assume h: "calls_answered h"
    have "calls_answered (text_message ''system'' p # h @ [text_message ''user'' message])" for p
      using answered_append [OF h plain_answered [OF plain_message_plain [of "''user''" message]]] by (simp add: text_message_def)
    then have "calls_answered (enriched env p sid message (text_message ''system'' p # h @ [text_message ''user'' message]))" for p
      by (intro enriched_answered assms) (simp_all add: plain_message_plain del: calls_answered.simps)
    then show "triple (good_requests n) (then_s (remember env sid (text_message ''user'' (sanitized env message)))
       (bind_s get_s (\<lambda>s.
          ret (enriched env (ag_system s) sid message
            (text_message ''system'' (ag_system s) # h @ [text_message ''user'' message])))))
       (\<lambda>ms s. good_requests n s \<and> calls_answered ms) (\<lambda>_. good_requests n)"
      by (intro triple_bind [OF quiet_good [OF quiet_remember]] triple_get triple_ret) simp
  qed
qed

lemma conversation_good:
  assumes "tidy env"
  shows "triple (\<lambda>s. good_requests n s \<and> history_answered (session_key user channel) s) (hold_conversation env message user channel)
     (\<lambda>_. good_requests n) (\<lambda>_. good_requests n)"
proof -
  let ?sid = "session_key user channel" and ?G = "good_requests n"
  let ?I = "\<lambda>s. ?G s \<and> history_answered ?sid s"
  have connect: "triple ?I (auto_connect env message) (\<lambda>_. ?I) (\<lambda>_. ?G)"
    by (rule tripleI)
      (auto simp: auto_connect_def run_defs good_requests_def history_answered_def split: option.splits tool_outcome.splits sum.split)
  have ending: "triple ?G (case reply of Some text \<Rightarrow> ret text | None \<Rightarrow> then_s (emit_hook env STOP_EVENT d) (with_notes t)) (\<lambda>_. ?G) (\<lambda>_. ?G)"
    for reply d t by (cases reply) (simp_all add: quiet_good quiet_ret quiet_bind quiet_emit quiet_notes)
  have turns: "triple (\<lambda>s. ?G s \<and> calls_answered ms) (bind_s get_s (\<lambda>s.
      bind_s (model_turns env ctx ?sid intent tools (nat (ag_max_turns s)) [] ms) (\<lambda>reply.
        case reply of Some text \<Rightarrow> ret text | None \<Rightarrow> then_s (emit_hook env STOP_EVENT d) (with_notes turns_used_up))))
      (\<lambda>_. ?G) (\<lambda>_. ?G)" for ctx intent tools d ms
  proof (rule triple_pure, rule triple_get)
    fix s assume "calls_answered ms" "?G s"
    then show "triple (\<lambda>t. t = s) (bind_s (model_turns env ctx ?sid intent tools (nat (ag_max_turns s)) [] ms) (\<lambda>reply.
        case reply of Some text \<Rightarrow> ret text | None \<Rightarrow> then_s (emit_hook env STOP_EVENT d) (with_notes turns_used_up)))
        (\<lambda>_. ?G) (\<lambda>_. ?G)"
      by (intro triple_pre [OF triple_bind [OF turns_good [OF assms] ending]]) simp_all
  qed
  have talk: "triple ?I (case answer of Some out \<Rightarrow> ret out | None \<Rightarrow> m) (\<lambda>_. ?G) (\<lambda>_. ?G)"
    if "triple ?I m (\<lambda>_. ?G) (\<lambda>_. ?G)" for answer m
    using that by (cases answer) (auto intro!: triple_ret)
  show ?thesis unfolding hold_conversation_def Let_def
    by (rule triple_bind [OF connect talk [OF triple_bind [OF opening_good [OF assms] turns]]])
qed


section \<open>The direct connection\<close>

definition unconnected :: "'a agent \<Rightarrow> bool" where
  "unconnected m \<longleftrightarrow> (\<forall>s. ag_connects (snd (m s)) = ag_connects s)"

lemma quiet_unconnected: "quiet m \<Longrightarrow> unconnected m"
  by (simp add: quiet_def unconnected_def core_def)

lemma unconnected_bind: "unconnected m \<Longrightarrow> (\<And>x. unconnected (k x)) \<Longrightarrow> unconnected (bind_s m k)"
  by (simp add: unconnected_def bind_s_def split: prod.splits sum.splits) (metis snd_conv)

lemma unconnected_process: "unconnected (process_calls env ctx calls)" and unconnected_ask: "unconnected (ask_provider env rq)"
  by (simp_all add: unconnected_def process_calls_def ask_provider_def Let_def)

lemma unconnected_answer: "unconnected (settle_calls env ctx sid r ms)"
  unfolding settle_calls_def Let_def case_prod_beta
  by (intro unconnected_bind unconnected_process quiet_unconnected quiet_rules)

lemma unconnected_outcome:
  assumes "\<And>recent' ms'. unconnected (go_on recent' ms')"
  shows "unconnected (turn_outcome env ctx sid intent routed recent ms go_on oc)"
proof -
  have "unconnected (bind_s (settle_calls env ctx sid r ms) (\<lambda>(ms', new).
      case requested_input new of Some reply \<Rightarrow> say env sid reply | None \<Rightarrow> go_on recent' ms'))" for r recent'
    by (rule unconnected_bind [OF unconnected_answer])
      (simp add: assms quiet_unconnected quiet_say split: prod.split option.split)
  then have "unconnected (turn_answer env ctx sid recent ms go_on r)" for r
    by (simp add: turn_answer_def quiet_unconnected quiet_say quiet_final split: prod.split option.split)
  then show ?thesis
    by (auto simp: turn_outcome_def quiet_unconnected quiet_say quiet_usage quiet_report intro!: unconnected_bind split: chat_outcome.split)
qed

lemma unconnected_turns: "unconnected (model_turns env ctx sid intent tools n recent ms)"
proof (induction n arbitrary: recent ms)
  case (Suc n)
  then show ?case unfolding model_turns.simps
    by (intro unconnected_bind quiet_unconnected [OF quiet_route] unconnected_ask unconnected_outcome)
qed (simp add: quiet_unconnected quiet_ret)

lemma connects_converse:
  "ag_connects (snd (hold_conversation env p user channel s)) = ag_connects s
     @ (if ''router_manage'' \<in> ot_name ` set (ae_offered env) then (case connect_args p of None \<Rightarrow> [] | Some args \<Rightarrow> [args]) else [])"
proof -
  have turns: "unconnected (bind_s (opening_messages env sid p user channel) (\<lambda>ms.
            bind_s get_s (\<lambda>s.
            bind_s (model_turns env ctx sid intent tools (nat (ag_max_turns s)) [] ms) (\<lambda>reply.
              case reply of
                Some text \<Rightarrow> ret text
              | None \<Rightarrow> then_s (emit_hook env STOP_EVENT d) (with_notes turns_used_up)))))" for ctx sid intent tools d
    by (intro unconnected_bind quiet_unconnected [OF quiet_opening] quiet_unconnected [OF quiet_get] unconnected_turns)
      (simp add: quiet_unconnected quiet_ret quiet_bind quiet_emit quiet_notes split: option.split)
  obtain r s1 where c: "auto_connect env p s = (r, s1)" by (cases "auto_connect env p s")
  have "ag_connects s1 = ag_connects s
     @ (if ''router_manage'' \<in> ot_name ` set (ae_offered env) then (case connect_args p of None \<Rightarrow> [] | Some args \<Rightarrow> [args]) else [])"
    using c by (auto simp: auto_connect_def run_defs split: option.splits tool_outcome.splits if_splits)
  moreover have "ag_connects (snd (hold_conversation env p user channel s)) = ag_connects s1"
  proof (cases r)
    case (Inr answer)
    then show ?thesis
      by (cases answer) (simp_all add: hold_conversation_def Let_def bind_s_def [of "auto_connect env p"] c ret_def turns [unfolded unconnected_def])
  qed (simp add: hold_conversation_def Let_def bind_s_def [of "auto_connect env p"] c)
  ultimately show ?thesis by simp
qed

text \<open>
  C37. A credential in a message connects the router unchecked: whenever the hooks let a message through that holds a credential and an
  address, and the tool is there, exactly one connection is made with these arguments, and none otherwise; neither the rules of the
  guard, nor approvals, nor the hooks of tools take part.
\<close>

theorem credentials_connect_unchecked:
  assumes "submit_prompt env message user channel s = (Inr (Inr p), s1)"
  shows "ag_connects (snd (handle_message env message user channel s)) = ag_connects s
     @ (if ''router_manage'' \<in> ot_name ` set (ae_offered env) then (case connect_args p of None \<Rightarrow> [] | Some args \<Rightarrow> [args]) else [])"
proof -
  have "ag_connects s1 = ag_connects s"
    using quiet_unconnected [OF quiet_submit [of env message user channel]] assms by (simp add: unconnected_def) (metis snd_conv)
  then show ?thesis using connects_converse [of env p user channel s1] by (simp add: handle_message_def bind_s_def assms)
qed

section \<open>Examples\<close>

text \<open>A model that asks for one call and then answers, with tools that always succeed.\<close>

definition list_call :: tool_call where "list_call = \<lparr>tc_id = ''1'', tc_name = ''ls'', tc_args = []\<rparr>"

definition demo_agent_env :: agent_env where
  "demo_agent_env = \<lparr>ae_tools = Tool_Exec.demo_env, ae_hooks = Hooks.demo_env, ae_bus = [], ae_str = (\<lambda>_. []),
     ae_classify = (\<lambda>_. \<lparr>ai_category = CHAT, ai_urgency = ''normal'', ai_tools = \<lparr>in_hints = [], in_keywords = []\<rparr>\<rparr>),
     ae_offered = [\<lparr>ot_name = ''router_manage'', ot_description = None\<rparr>], ae_context = demo_context, ae_model = ''m'',
     ae_chat = (\<lambda>n _. ChatAnswer \<lparr>lr_content = Some ''done'', lr_calls = (if n = 0 then [list_call] else []), lr_usage = Some (1, 2), lr_stop = ''end''\<rparr>),
     ae_enrich = None, ae_summarize = Some (\<lambda>ms _. Inr ms), ae_digest = (\<lambda>_. []), ae_recalled = (\<lambda>_. []), ae_reminder = None,
     ae_clock = (\<lambda>_. 0), ae_today = (2026, 1, 1), ae_latency = (\<lambda>_. 0), ae_timeout_text = ''timeout'', ae_error_text = (\<lambda>_. ''error''),
     ae_loop_text = (\<lambda>t. t)\<rparr>"

definition demo_agent :: agent_state where
  "demo_agent = new_agent (new_guard [] [] [] []) (Some (new_memory 50 30 10 30 False)) None ''system'' 10"

lemma demo_submit: "submit_prompt demo_agent_env message user channel s = (Inr (Inr message), s)"
  by (simp add: submit_prompt_def Let_def run_defs emit_hook_def run_hook_chain_def demo_agent_env_def dget_or_def prompt_decision_def
      proceed_def plain_decision_def)

text \<open>The blacklist forbids the tool, and it connects.\<close>

theorem credentials_connect_unchecked_witness:
  "let s = new_agent (new_guard [(''net'', [''router_manage''])] [] [] []) None None [] 10 in
   guard_check ''router_manage'' ''u'' None (xs_guard (ag_exec s)) = DENY
   \<and> ag_connects (snd (handle_message demo_agent_env ''bob@10.0.0.1 credential_ref:pw'' ''u'' ''c'' s)) =
     [[(''action'', JStr ''connect''), (''host'', JStr ''10.0.0.1''), (''router_type'', JStr ''openwrt''),
       (''username'', JStr ''bob''), (''password'', JStr ''credential_ref:pw'')]]"
proof -
  have args: "connect_args ''bob@10.0.0.1 credential_ref:pw'' =
    Some [(''action'', JStr ''connect''), (''host'', JStr ''10.0.0.1''), (''router_type'', JStr ''openwrt''),
       (''username'', JStr ''bob''), (''password'', JStr ''credential_ref:pw'')]" by code_simp
  have tool: "''router_manage'' \<in> ot_name ` set (ae_offered demo_agent_env)" by (simp add: demo_agent_env_def)
  show ?thesis
    unfolding Let_def credentials_connect_unchecked [OF demo_submit] args
    using tool by (simp add: new_agent_def new_exec_state_def guard_check_def policy_blocks_def new_guard_def flat_of_def)
qed

lemma demo_run:
  "length (ag_requests (snd (handle_message demo_agent_env ''hi'' ''u'' ''c'' demo_agent))) = 2"
  by (simp add: handle_message_def submit_prompt_def Let_def run_defs emit_hook_def run_hook_chain_def demo_agent_env_def demo_agent_def new_agent_def dget_or_def prompt_decision_def proceed_def plain_decision_def hold_conversation_def auto_connect_def connect_args_def credential_at_def login_at_def is_digit_def
  opening_messages_def recalled_history_def read_clock_def get_or_create_session_def new_memory_def set_session_def remember_def add_message_def enriched_def agent_tools_def eval_nat_numeral route_model_def ask_provider_def chat_request_of_def turn_outcome_def accumulate_usage_def report_cost_def turn_answer_def detect_loop_def settle_calls_def process_calls_def timed_calls_def list_call_def process_tool_calls_def check_tool_call_def new_exec_state_def guard_check_def policy_blocks_def new_guard_def flat_of_def automated_def execute_calls_def execute_one_def pre_hook_args_def schema_errors_def finish_output_def Tool_Exec.demo_env_def stored_results_def remind_def reminder_text_def message_of_def tool_msg_def requested_input_def form_open_def content_of_def final_answer_def with_notes_def say_def success_prefix_def bool_str_def text_message_def)




text \<open>
  A reroute ends the chain of the prompt, and the agent does not look at it: a guard behind it, which blocks every prompt, is not asked.
\<close>

definition prompt_hook :: "int \<Rightarrow> hook_decision \<Rightarrow> hook_handler" where
  "prompt_hook prio d = \<lparr>hh_name = ''h'', hh_event = USER_PROMPT_SUBMIT, hh_priority = prio, hh_tool_pattern = None, hh_timeout = 1,
     hh_condition = JNull, hh_body = PythonBody (\<lambda>p. (PyDecision d, p))\<rparr>"

definition prompt_hooks :: "(int \<times> hook_decision) list \<Rightarrow> agent_env" where
  "prompt_hooks ds = demo_agent_env\<lparr>ae_bus := [(''user_prompt_submit'', map (\<lambda>(prio, d). (''h'', prompt_hook prio d)) ds)]\<rparr>"

lemma guard_blocks_prompt:
  "\<exists>s'. submit_prompt (prompt_hooks [(0, block (JStr ''no''))]) ''hi'' ''u'' ''c'' s = (Inr (Inl ''(blocked by hook: no)''), s')"
  by (simp add: submit_prompt_def Let_def run_defs emit_hook_def run_hook_chain_def prompt_hooks_def demo_agent_env_def dget_or_def
      hook_event_of_def all_hook_events_def chain_cases decisive_def patch_of_def chain_run_def sorted_handlers_def prompt_hook_def run_handler_def python_run_def block_def
      plain_decision_def is_blockable_def prompt_decision_def py_str_def proceed_def)

lemma reroute_skips_guard:
  "\<exists>s'. submit_prompt (prompt_hooks [(1, reroute (JStr ''other'') []), (0, block (JStr ''no''))]) ''hi'' ''u'' ''c'' s = (Inr (Inr ''hi''), s')"
  by (simp add: submit_prompt_def Let_def run_defs emit_hook_def run_hook_chain_def prompt_hooks_def demo_agent_env_def dget_or_def
      hook_event_of_def all_hook_events_def chain_cases decisive_def patch_of_def chain_run_def sorted_handlers_def prompt_hook_def run_handler_def python_run_def block_def
      reroute_def may_reroute_def max_reroute_depth_def allows_reroute_def plain_decision_def is_blockable_def prompt_decision_def proceed_def)

text \<open>Two users share a session when their names and channels join to the same key.\<close>

lemma sessions_collide: "session_key ''a:b'' ''c'' = session_key ''a'' ''b:c''"
  by (simp add: session_key_def)

end
