(* ===== verification/Spec2Isabelle.thy ===== *)
theory Spec2Isabelle
  imports Flow_Recovery Llm_Retry Llm_Limits Llm_Cost Acl Dep_Graph Coding_Jobs Tool_Registry Webhook Messenger Messenger_Auth Settings_Actions Kb_Query Orchestrator Agent_Loop
begin

text \<open>
  A verification library for BreadMind, an AI agent for infrastructure work (Python, \<open>src/src/breadmind\<close>). This theory
  imports the whole library and holds no definitions of its own.

  \<^bold>\<open>The program.\<close> A message reaches the agent through a messenger channel. The agent asks a language model, which answers with
  text or with calls of tools. Calls pass the safety guard, approvals and hooks before they run; complex requests are planned as a
  graph of tasks for sub-agents. Long work is a durable flow: a graph of steps whose every change is an event in
  a log, driven by an engine and repaired by a recovery controller. Requests to the model providers go through a circuit breaker,
  retries, rate limits and a budget.

  \<^bold>\<open>Theories, parts and sources\<close> (paths below \<open>src/src/breadmind\<close>).

  \<^item> \<open>Prelude\<close>: exceptions, JSON values, dicts in insertion order, Python's string operations, the state-and-exception monad
    with its rules for invariants and for triples, and the locales \<open>machine\<close> and \<open>capped_buffer\<close>.
  \<^item> \<open>Flow_Dag\<close>: \<open>flow/dag.py\<close>, step graphs; validation, topological order, ready steps, mutations, JSON.
  \<^item> \<open>Flow_Store\<close>: \<open>flow/events.py\<close>, \<open>flow/store.py\<close>; the log and the projection that follows it.
  \<^item> \<open>Flow_Bus\<close>: \<open>flow/event_bus.py\<close>; delivery to subscriptions, local and through Redis.
  \<^item> \<open>Flow_Engine\<close>: \<open>flow/engine.py\<close>; scheduling, completion, the verdict on a flow.
  \<^item> \<open>Flow_Recovery\<close>: \<open>flow/recovery.py\<close> and the worker's side of a step.
  \<^item> \<open>Circuit_Breaker\<close>: \<open>core/circuit_breaker.py\<close>. \<open>Llm_Retry\<close>: \<open>llm/retry.py\<close>. \<open>Llm_Limits\<close>: \<open>llm/rate_limiter.py\<close>, key
    rotation and the provider cascade. \<open>Llm_Cost\<close>: prices, tiers, routing and budgets.
  \<^item> \<open>Acl\<close>: \<open>messenger/acl\<close> and the knowledge base's access rule.
  \<^item> \<open>Dep_Graph\<close>: \<open>tools/dependency_graph.py\<close>.
  \<^item> \<open>Hook_Match\<close>: \<open>hooks/events.py\<close>, \<open>hooks/condition.py\<close>, with \<open>fnmatch\<close> written out. \<open>Hooks\<close>: \<open>hooks/decision.py\<close>,
    \<open>handler.py\<close>, \<open>chain.py\<close>, \<open>trace.py\<close>, \<open>registry.py\<close> and the hook chains of \<open>core/events.py\<close>.
  \<^item> \<open>Safety\<close>: \<open>core/safety.py\<close>. \<open>Schema_Check\<close>: \<open>tools/schema_validator.py\<close>. \<open>Tool_Exec\<close>: \<open>core/tool_executor.py\<close>,
    \<open>core/tool_coordinator.py\<close> and the approvals of \<open>core/agent.py\<close>. \<open>Tool_Registry\<close>: \<open>tools/registry.py\<close>,
    \<open>core/tool_hooks.py\<close>, \<open>hooks/legacy_adapters.py\<close>; schemas from signatures, the cache, coercion and the hooks around a call.
  \<^item> \<open>Webhook_Rules\<close>: \<open>webhook/models.py\<close>, \<open>rule_engine.py\<close>, \<open>store.py\<close>. \<open>Webhook\<close>: \<open>webhook/actions\<close>,
    \<open>webhook/pipeline_executor.py\<close>, \<open>web/webhook.py\<close> and the wiring in \<open>main.py\<close>.
  \<^item> \<open>Messenger\<close>: channels, messages, scheduling, the outbox and idempotency of \<open>messenger/service\<close>, \<open>dispatchers\<close>
    and \<open>api/v1\<close>. \<open>Messenger_Auth\<close>: \<open>messenger/auth\<close>, \<open>api/v1/auth.py\<close>, \<open>messenger/dm_pairing.py\<close>.
  \<^item> \<open>Settings_Schema\<close>: \<open>sdui/settings_schema.py\<close>. \<open>Settings\<close>: \<open>settings/service.py\<close>, \<open>approval_queue.py\<close>,
    \<open>rate_limiter.py\<close>, \<open>reload_registry.py\<close>, \<open>runtime_config.py\<close>. \<open>Settings_Actions\<close>: the settings and credential
    actions of \<open>sdui/actions.py\<close> and \<open>tools/settings_tools.py\<close>.
  \<^item> \<open>Kb_Extract\<close>: \<open>kb/extractor.py\<close> and the test for a resolved thread. \<open>Kb_Review\<close>: the tables, \<open>kb/review_queue.py\<close>.
    \<open>Kb_Feedback\<close>: \<open>kb/feedback.py\<close>, \<open>review_dispatcher.py\<close>, \<open>slack_review_handlers.py\<close>, \<open>extraction_triggers.py\<close>,
    \<open>web/routes/review.py\<close>. \<open>Kb_Laws\<close> and \<open>Kb_Chains\<close>: their invariants. \<open>Kb_Search\<close>: \<open>kb/retriever.py\<close>.
    \<open>Kb_Query\<close>: \<open>kb/query_pipeline.py\<close>, \<open>citation.py\<close>, \<open>self_review.py\<close>, \<open>quota.py\<close>, \<open>query_cache.py\<close>, \<open>sensitive.py\<close>.
  \<^item> \<open>Chat_Context\<close>: \<open>llm/token_counter.py\<close>, \<open>memory/summarizer.py\<close>, \<open>memory/working.py\<close>, \<open>memory/compressor.py\<close>.
    \<open>Agent_Loop\<close>: \<open>core/agent.py\<close>, which composes the context, the hooks, the executor and the cost router.
  \<^item> \<open>Task_Dag\<close>: \<open>core/planner.py\<close>, \<open>core/result_evaluator.py\<close>, \<open>core/dag_executor.py\<close>. \<open>Orchestrator\<close>:
    \<open>core/role_registry.py\<close>, \<open>core/subagent.py\<close>, \<open>core/orchestrator.py\<close>.
  \<^item> \<open>Coding_Jobs\<close>: \<open>coding/job_models.py\<close>, \<open>job_tracker.py\<close>, \<open>job_log_stream.py\<close>, \<open>log_buffer.py\<close>, \<open>job_db_writer.py\<close>.

  \<^bold>\<open>How the code is represented.\<close> An object with mutable fields is a record, and a method is a function from the state to the state and its
  result, or a program of the monad where it may raise halfway. A dict is an association list in insertion order. The
  clock, random ids, the language model, the tools, databases, sub-processes and the network are arguments. Ghost
  fields record what a component did (calls that ran, nodes started, grants), for the theorems to speak about. A loop that may
  not end is \<open>partial_function (option)\<close> (\<open>exec_loop\<close>), and its end is proved; recursion with fuel (the depth-first search of
  \<open>Flow_Dag\<close>) gets the number of steps plus one, which is proved to be enough.

  \<^bold>\<open>What is shown.\<close>
  Flow: \<open>validate\<close> accepts exactly the acyclic graphs, the log has no gaps and the projection is what the log says, a flow gets one
  verdict, every failure is answered, recovery keeps within its budgets. Providers: the breaker admits only what its state allows
  and wedges in one case, retries stop within their bound, no window of a minute exceeds the rate limit, the budget holds. Access:
  listing and seeing agree, posting implies seeing. Hooks: a chain ends only as the policy of its event allows, failures close
  where they can, a reload builds the chains of manifest and database. Tools: the guard decides as its rules say, only allowed
  tools run, every call is answered, an approval runs at most once. Tasks: the executor runs each task at most once and
  exactly when its dependencies completed, the orchestrator ends within a bound on sub-agents, a sub-agent answers every call
  within its turns. Jobs: log lines are stored, buffered or counted as lost. Webhooks: nothing changes without the secret of an
  enabled endpoint, the checker of expressions decides its rules. Messenger: sequence numbers of a channel have no gap, a retried
  request returns the first answer, a refresh token works once, guesses of a code are bounded. Settings: stored values stay
  valid, the runtime follows the store, an agent's write waits for approval, secrets do not show. Agent: a message
  runs only calls that the model made in this conversation and the guard allows, asks the model at most as often as configured, and
  in every request each call has its result. Knowledge: a candidate is promoted once, and once more for each request to edit it,
  superseding ends in a current row, a search shows only rows of the project that the user may read, answers cite only hits, the
  model is asked only after the guards, cached answers stay with their user. Several theorems show defects of the
  code: sandboxed and approved tools skip the hooks (\<open>hooks_skipped\<close>), roles with tools make the orchestrator raise
  (\<open>role_tools_break_run\<close>), replacement tasks that use earlier results never run (\<open>replacement_never_runs\<close>), a breaker stays
  half open (\<open>half_open_wedges\<close>), a step is dispatched again (\<open>failed_step_redispatched\<close>), a credential in a message connects a router unchecked (\<open>credentials_connect_unchecked\<close>), a
  compression loses messages (\<open>compression_loses_messages\<close>), truncation erases results (\<open>truncation_erases_results\<close>), a promoted
  row forgets its private channel (\<open>promotion_drops_channel\<close>).

  \<^bold>\<open>Not modelled.\<close> The web application, its routes and static files, the server-driven views, the command line and the clients of third-party
  services (providers, messengers, calendars, crawlers) are input and output. Episodic recall and memory search depend on
  embeddings and SQL ranking. The second agent loop under \<open>plugins\<close>, the redactor and the crawlers of the knowledge base, the
  classifier of intents and the building of prompts are left out. Prompt, agent and HTTP hooks are a parameter of \<open>Hooks\<close>. JSON text is parsed by the
  standard library; the model starts from parsed values. Rounding of floats, logging, metrics and audit entries are left out.
  Scheduled tasks, the request limits of the web application and the network of worker nodes were planned and are not modelled yet.
\<close>

end
